(* ===== verification/Prelude.thy ===== *)
theory Prelude
  imports Main "HOL-Library.Sublist"
begin

text \<open>
  Shared vocabulary of the development: the Go types and library operations the components use, and
  the list and association-list lemmas their proofs share.

  \<^item> A Go \<open>string\<close> and a \<open>[]byte\<close> are HOL strings, one \<open>char\<close> per byte.
  \<^item> A Go \<open>map[string]V\<close> is an association list (type \<open>gomap\<close>). Reading a key is \<open>map_of\<close>, storing
    one is \<open>gset\<close>, which replaces the value of a key that is present and appends one that is not.
    Ranging over the map visits the entries in list order; Go leaves that order unspecified, so a
    fact proved for every list is a fact about every iteration order.
  \<^item> The dynamically typed values of \<open>map[string]any\<close> are the datatype \<open>anyval\<close>.
  \<^item> \<open>strings.TrimSpace\<close>, \<open>HasPrefix\<close>, \<open>HasSuffix\<close>, \<open>Contains\<close>, \<open>CutPrefix\<close> and \<open>ReplaceAll\<close> of a one
    byte separator are the functions below; white space is the ASCII white space of Go.
\<close>

named_theorems gomap_simps \<comment> \<open>laws of association-list maps\<close>
named_theorems policy_defs \<comment> \<open>unfolding of the policy engine's operations\<close>

section \<open>Go maps\<close>

type_synonym 'v gomap = "(string \<times> 'v) list"

fun gset :: "'v gomap \<Rightarrow> string \<Rightarrow> 'v \<Rightarrow> 'v gomap" where
  "gset [] k v = [(k, v)]"
| "gset ((k', v') # m) k v = (if k' = k then (k, v) # m else (k', v') # gset m k v)"

definition gdel :: "'v gomap \<Rightarrow> string \<Rightarrow> 'v gomap" where
  "gdel m k = filter (\<lambda>(k', _). k' \<noteq> k) m"

definition keys :: "'v gomap \<Rightarrow> string list" where
  "keys m = map fst m"

definition wf_map :: "'v gomap \<Rightarrow> bool" where
  "wf_map m \<longleftrightarrow> distinct (keys m)"

definition member_of :: "string list \<Rightarrow> string \<Rightarrow> bool" where
  "member_of xs x = (x \<in> set xs)"

section \<open>Dynamically typed values\<close>

datatype anyval =
    AStr string
  | ABool bool
  | AMap "(string \<times> anyval) list"
  | AStrMap "(string \<times> string) list"
  | AOther string \<comment> \<open>a value of any other dynamic type (a JSON number, a list, nil)\<close>

section \<open>Operations of package strings\<close>

definition is_space :: "char \<Rightarrow> bool" where
  "is_space c = (c \<in> {CHR '' '', CHR 0x09, CHR 0x0A, CHR 0x0B, CHR 0x0C, CHR 0x0D})"

definition TrimSpace :: "string \<Rightarrow> string" where
  "TrimSpace s = rev (dropWhile is_space (rev (dropWhile is_space s)))"

definition HasPrefix :: "string \<Rightarrow> string \<Rightarrow> bool" where
  "HasPrefix s p = (take (length p) s = p)"

definition HasSuffix :: "string \<Rightarrow> string \<Rightarrow> bool" where
  "HasSuffix s p = (length p \<le> length s \<and> drop (length s - length p) s = p)"

fun Contains :: "string \<Rightarrow> string \<Rightarrow> bool" where
  "Contains [] p = (p = [])"
| "Contains (c # s) p = (HasPrefix (c # s) p \<or> Contains s p)"

definition CutPrefix :: "string \<Rightarrow> string \<Rightarrow> string option" where
  "CutPrefix s p = (if HasPrefix s p then Some (drop (length p) s) else None)"

definition ReplaceByte :: "char \<Rightarrow> char \<Rightarrow> string \<Rightarrow> string" where
  "ReplaceByte a b s = map (\<lambda>c. if c = a then b else c) s"

text \<open>\<open>strings.Split\<close>, \<open>strings.Cut\<close> (or \<open>SplitN\<close> in two) with a one byte separator, and \<open>strings.Join\<close>.\<close>

fun split_on :: "char \<Rightarrow> string \<Rightarrow> string list" where
  "split_on sep [] = [[]]"
| "split_on sep (c # s) = (if c = sep then [] # split_on sep s
                           else (case split_on sep s of [] \<Rightarrow> [[c]] | p # ps \<Rightarrow> (c # p) # ps))"

fun cut_at :: "char \<Rightarrow> string \<Rightarrow> (string \<times> string) option" where
  "cut_at sep [] = None"
| "cut_at sep (c # s) = (if c = sep then Some ([], s)
                         else (case cut_at sep s of None \<Rightarrow> None | Some (a, b) \<Rightarrow> Some (c # a, b)))"

fun join_with :: "string \<Rightarrow> string list \<Rightarrow> string" where
  "join_with sep [] = []"
| "join_with sep [x] = x"
| "join_with sep (x # y # xs) = x @ sep @ join_with sep (y # xs)"

definition em_dash :: string where
  "em_dash = [CHR 0xE2, CHR 0x80, CHR 0x94]"

section \<open>Laws of Go maps\<close>

lemma gset_member: "x \<in> set (gset m k v) \<Longrightarrow> x = (k, v) \<or> x \<in> set m"
  by (induction m) (auto split: if_splits)

lemma map_of_gset [simp, gomap_simps]:
  "map_of (gset m k v) k' = (if k' = k then Some v else map_of m k')"
  by (induction m) auto

lemma keys_Nil [simp]: "keys [] = []"
  and keys_Cons [simp]: "keys ((k, v) # m) = k # keys m"
  by (simp_all add: keys_def)

lemma set_keys: "set (keys m) = dom (map_of m)"
  by (simp add: keys_def dom_map_of_conv_image_fst)

lemma set_keys_gset [simp, gomap_simps]: "set (keys (gset m k v)) = insert k (set (keys m))"
  by (induction m) (auto split: if_splits)

lemma wf_map_Nil [simp]: "wf_map []"
  by (simp add: wf_map_def)

lemma wf_map_Cons [simp]: "wf_map ((k, v) # m) \<longleftrightarrow> k \<notin> set (keys m) \<and> wf_map m"
  by (simp add: wf_map_def)

lemma wf_map_gset [simp, intro]: "wf_map m \<Longrightarrow> wf_map (gset m k v)"
  by (induction m) auto

lemma map_of_gdel [simp, gomap_simps]:
  "map_of (gdel m k) k' = (if k' = k then None else map_of m k')"
  by (induction m) (auto simp: gdel_def)

lemma map_of_member: "map_of m k = Some v \<Longrightarrow> (k, v) \<in> set m"
  by (rule map_of_SomeD)

lemma member_map_of: "wf_map m \<Longrightarrow> (k, v) \<in> set m \<Longrightarrow> map_of m k = Some v"
  by (simp add: wf_map_def keys_def)

lemma map_of_None_keys: "map_of m k = None \<longleftrightarrow> k \<notin> set (keys m)"
  by (simp add: keys_def map_of_eq_None_iff)

lemma foldl_gset_lookup:
  "wf_map m' \<Longrightarrow> map_of (foldl (\<lambda>m (k, v). gset m k v) m m') key =
     (case map_of m' key of Some v \<Rightarrow> Some v | None \<Rightarrow> map_of m key)"
proof (induction m' arbitrary: m)
  case (Cons r m')
  obtain k v where r: "r = (k, v)" by (cases r)
  with Cons.prems have "map_of m' k = None" by (simp add: map_of_None_keys)
  with Cons r show ?case by (auto split: option.split)
qed simp

section \<open>Laws of strings\<close>

lemma HasPrefix_append [simp]: "HasPrefix (p @ s) p"
  by (simp add: HasPrefix_def)

lemma HasPrefix_iff: "HasPrefix s p \<longleftrightarrow> (\<exists>t. s = p @ t)"
  unfolding HasPrefix_def by (metis append_take_drop_id append_eq_conv_conj)

lemma HasSuffix_iff: "HasSuffix s p \<longleftrightarrow> (\<exists>t. s = t @ p)"
proof
  assume "HasSuffix s p"
  then have "drop (length s - length p) s = p" by (simp add: HasSuffix_def)
  then show "\<exists>t. s = t @ p"
    by (metis append_take_drop_id)
next
  assume "\<exists>t. s = t @ p"
  then show "HasSuffix s p" by (auto simp: HasSuffix_def)
qed

lemma Contains_iff: "Contains s p \<longleftrightarrow> (\<exists>a b. s = a @ p @ b)"
proof (induction s)
  case Nil
  then show ?case by auto
next
  case (Cons c s)
  show ?case
  proof
    assume "Contains (c # s) p"
    then consider (here) "HasPrefix (c # s) p" | (later) "\<exists>a b. s = a @ p @ b"
      using Cons.IH by auto
    then show "\<exists>a b. c # s = a @ p @ b"
    proof cases
      case here
      then obtain t where "c # s = p @ t" by (auto simp: HasPrefix_iff)
      then have "c # s = [] @ p @ t" by simp
      then show ?thesis by blast
    next
      case later
      then obtain a b where "s = a @ p @ b" by blast
      then have "c # s = (c # a) @ p @ b" by simp
      then show ?thesis by blast
    qed
  next
    assume "\<exists>a b. c # s = a @ p @ b"
    then obtain a b where ab: "c # s = a @ p @ b" by blast
    show "Contains (c # s) p"
    proof (cases a)
      case Nil
      with ab have "HasPrefix (c # s) p" by (auto simp: HasPrefix_iff)
      then show ?thesis by simp
    next
      case (Cons d a')
      with ab have "s = a' @ p @ b" by simp
      then show ?thesis using Cons.IH by auto
    qed
  qed
qed

lemma CutPrefix_Some: "CutPrefix s p = Some t \<longleftrightarrow> s = p @ t"
  by (auto simp: CutPrefix_def HasPrefix_iff)

lemma TrimSpace_Nil [simp]: "TrimSpace [] = []"
  by (simp add: TrimSpace_def)

lemma TrimSpace_empty_iff: "TrimSpace s = [] \<longleftrightarrow> (\<forall>c\<in>set s. is_space c)"
proof -
  have "TrimSpace s = [] \<longleftrightarrow> dropWhile is_space (rev (dropWhile is_space s)) = []"
    by (simp add: TrimSpace_def)
  also have "\<dots> \<longleftrightarrow> (\<forall>c\<in>set (dropWhile is_space s). is_space c)"
    by (simp add: dropWhile_eq_Nil_conv)
  also have "\<dots> \<longleftrightarrow> (\<forall>c\<in>set s. is_space c)"
    by (metis dropWhile_eq_Nil_conv hd_dropWhile hd_in_set set_dropWhileD)
  finally show ?thesis .
qed

lemma append_sep_inject:
  assumes "c \<notin> set a" and "c \<notin> set a'"
  shows "a @ c # s = a' @ c # s' \<longleftrightarrow> a = a' \<and> s = s'"
  using assms by (simp add: append_eq_append_conv2) (auto simp: append_eq_Cons_conv Cons_eq_append_conv)

lemma cut_at_append [simp]: "sep \<notin> set a \<Longrightarrow> cut_at sep (a @ sep # b) = Some (a, b)"
  by (induction a) auto

lemma cut_at_SomeD: "cut_at sep s = Some (a, b) \<Longrightarrow> s = a @ sep # b \<and> sep \<notin> set a"
  by (induction s arbitrary: a) (auto split: if_splits option.splits)

lemma split_on_append: "sep \<notin> set a \<Longrightarrow> split_on sep (a @ sep # s) = a # split_on sep s"
  by (induction a) auto

lemma split_on_none: "sep \<notin> set a \<Longrightarrow> split_on sep a = [a]"
  by (induction a) auto

lemma split_join: "gs \<noteq> [] \<Longrightarrow> list_all (\<lambda>g. sep \<notin> set g) gs \<Longrightarrow> split_on sep (join_with [sep] gs) = gs"
  by (induction "[sep]" gs rule: join_with.induct) (auto simp: split_on_none split_on_append)

end
