(* ===== verification/Contracts.thy ===== *)
theory Contracts
  imports Prelude
begin

text \<open>
  The contracts of the control plane: \<open>contracts.go\<close>, \<open>policyinput.go\<close> and \<open>decision.go\<close> of
  \<open>mantlekeep-control\<close>. Every struct is a record whose fields carry a prefix naming the struct, every
  string enumeration a datatype, except that a role and the outcome of a decision are the strings they are
  in the code. Instants and durations are integers, in nanoseconds. A caller's error
  value is the datatype \<open>door_error\<close>: the two shapes that carry a decision, an error wrapping another
  (\<open>fmt.Errorf\<close> with the \<open>w\<close> verb), and any other error.
\<close>

type_synonym Role = string
type_synonym params = "anyval gomap"

abbreviation RoleSuperAdmin :: Role where "RoleSuperAdmin \<equiv> ''L0-SuperAdmin''"
abbreviation RoleArchitect :: Role where "RoleArchitect \<equiv> ''L1-Architect''"
abbreviation RoleOperator :: Role where "RoleOperator \<equiv> ''L2-Operator''"
abbreviation RoleConsumer :: Role where "RoleConsumer \<equiv> ''L3-Consumer''"
abbreviation RoleAIAgent :: Role where "RoleAIAgent \<equiv> ''AI-Agent''"

section \<open>Identity and intent\<close>

record Subject =
  sub_ID :: string
  sub_Roles :: "Role list"
  sub_ADGroups :: "string list"
  sub_IsAI :: bool
  sub_Attrs :: "string gomap"

record ExternalIdentity =
  ext_ID :: string
  ext_Groups :: "string list"
  ext_Attrs :: "string gomap"

datatype RiskLevel = RiskUnset \<comment> \<open>the zero value\<close> | RiskLow | RiskMedium | RiskHigh

record IntentSpec =
  spec_Goal :: string
  spec_AffectedSystems :: "string list"
  spec_RiskLevel :: RiskLevel
  spec_Preconditions :: "string list"
  spec_Postconditions :: "string list"
  spec_RollbackPlan :: string

record Intent =
  int_ID :: string
  int_Subject :: Subject
  int_Action :: string
  int_Resource :: string
  int_Spec :: IntentSpec
  int_Params :: params
  int_SubmittedAt :: int
  int_TTL :: int
  int_Via :: string

text \<open>The zero \<open>time.Time\<close>, the first of January of the year 1, in nanoseconds from the Unix epoch.\<close>

definition zero_time :: int where "zero_time = - 62135596800 * 10 ^ 9"

section \<open>Decisions\<close>

text \<open>A \<open>DecisionAction\<close> is a string; the three the engine answers with are the constants.\<close>

type_synonym DecisionAction = string

definition ActionAllow :: DecisionAction where "ActionAllow = ''allow''"
definition ActionDeny :: DecisionAction where "ActionDeny = ''deny''"
definition ActionRequireApproval :: DecisionAction where "ActionRequireApproval = ''require_approval''"

lemmas action_defs = ActionAllow_def ActionDeny_def ActionRequireApproval_def

lemma actions_distinct [simp]:
  "ActionAllow \<noteq> ActionDeny" "ActionDeny \<noteq> ActionAllow" "ActionAllow \<noteq> ActionRequireApproval"
  "ActionRequireApproval \<noteq> ActionAllow" "ActionDeny \<noteq> ActionRequireApproval" "ActionRequireApproval \<noteq> ActionDeny"
  by (simp_all add: action_defs)

datatype DenialCategory =
    DenialNone
  | DenialFloor
  | DenialSeparationOfDuties
  | DenialIdentity
  | DenialActionNotAllowed
  | DenialValidation
  | DenialPolicyError

record Decision =
  dec_Action :: DecisionAction
  dec_Reason :: string
  dec_Category :: DenialCategory
  dec_RequiredApprovers :: "Role list"
  dec_PolicyID :: string
  dec_Warnings :: "string list"
  dec_Step :: string

text \<open>A composite literal \<open>Decision{Action: a, Reason: r}\<close>: the fields it does not name are zero.\<close>

definition mk_Decision :: "DecisionAction \<Rightarrow> string \<Rightarrow> Decision" where
  "mk_Decision a r = \<lparr>dec_Action = a, dec_Reason = r, dec_Category = DenialNone,
     dec_RequiredApprovers = [], dec_PolicyID = [], dec_Warnings = [], dec_Step = []\<rparr>"

record Refused =
  ref_Action :: DecisionAction
  ref_Reason :: string
  ref_RequiredApprovers :: "Role list"
  ref_PolicyID :: string

definition Pending :: "Refused \<Rightarrow> bool" where
  "Pending r = (ref_Action r = ActionRequireApproval)"

datatype door_error =
    DecisionError Decision
  | RefusedError Refused
  | Wrapped string door_error
  | PlainError string

fun find_DecisionError :: "door_error \<Rightarrow> Decision option" where
  "find_DecisionError (DecisionError d) = Some d"
| "find_DecisionError (RefusedError r) = None"
| "find_DecisionError (Wrapped m e) = find_DecisionError e"
| "find_DecisionError (PlainError m) = None"

fun find_Refused :: "door_error \<Rightarrow> Refused option" where
  "find_Refused (DecisionError d) = None"
| "find_Refused (RefusedError r) = Some r"
| "find_Refused (Wrapped m e) = find_Refused e"
| "find_Refused (PlainError m) = None"

text \<open>The \<open>Error\<close> methods of the errors.\<close>

fun error_text :: "door_error \<Rightarrow> string" where
  "error_text (DecisionError d) = dec_Action d @ '': '' @ dec_Reason d"
| "error_text (RefusedError r) = ref_Action r @ '': '' @ ref_Reason r"
| "error_text (Wrapped m e) = m @ error_text e"
| "error_text (PlainError m) = m"

text \<open>\<open>DecisionFrom\<close>: \<open>None\<close> is the second result false. A nil error is \<open>None\<close>.\<close>

definition DecisionFrom :: "door_error option \<Rightarrow> Decision option" where
  "DecisionFrom err =
     (case err of
        None \<Rightarrow> None
      | Some e \<Rightarrow>
          (case find_DecisionError e of
             Some d \<Rightarrow> Some d
           | None \<Rightarrow>
               (case find_Refused e of
                  Some r \<Rightarrow> Some ((mk_Decision (ref_Action r) (ref_Reason r))
                                    \<lparr>dec_RequiredApprovers := ref_RequiredApprovers r\<rparr>)
                | None \<Rightarrow> None)))"

definition AwaitingApproval :: "door_error option \<Rightarrow> bool" where
  "AwaitingApproval err =
     (case DecisionFrom err of None \<Rightarrow> False | Some d \<Rightarrow> dec_Action d = ActionRequireApproval)"

section \<open>The policy port\<close>

record PolicySubject =
  psub_ID :: string
  psub_Roles :: "Role list"
  psub_IsAI :: bool
  psub_Attrs :: "string gomap"

record PolicyIntent =
  pint_Action :: string
  pint_Resource :: string
  pint_Requester :: string
  pint_Env :: string
  pint_Goal :: string
  pint_Scope :: string
  pint_Params :: params

record PolicyInput =
  pin_Subject :: PolicySubject
  pin_Intent :: PolicyIntent

definition param_string :: "params \<Rightarrow> string \<Rightarrow> string" where
  "param_string p key = (case map_of p key of Some (AStr s) \<Rightarrow> s | _ \<Rightarrow> [])"

definition PolicyInputFor :: "Subject \<Rightarrow> Intent \<Rightarrow> PolicyInput" where
  "PolicyInputFor subject intent =
     \<lparr>pin_Subject = \<lparr>psub_ID = sub_ID subject, psub_Roles = sub_Roles subject,
                      psub_IsAI = sub_IsAI subject, psub_Attrs = sub_Attrs subject\<rparr>,
      pin_Intent = \<lparr>pint_Action = int_Action intent, pint_Resource = int_Resource intent,
                     pint_Requester = param_string (int_Params intent) ''requester'',
                     pint_Env = param_string (int_Params intent) ''env'',
                     pint_Goal = spec_Goal (int_Spec intent),
                     pint_Scope = param_string (int_Params intent) ''scope'',
                     pint_Params = int_Params intent\<rparr>\<rparr>"

datatype EvaluationSource = SourceEngine | SourcePolicy

record EvaluationStep =
  es_Name :: string
  es_Outcome :: DecisionAction
  es_Source :: EvaluationSource

definition StepGoalStated :: string where "StepGoalStated = ''goal is stated''"
definition StepAINotApproving :: string where
  "StepAINotApproving = ''an AI is not performing an approval''"
definition StepRolePermits :: string where "StepRolePermits = ''a role permits the action''"
definition StepSeparationOfDuties :: string where
  "StepSeparationOfDuties = ''the approver is not the requester''"
definition StepProductAdmits :: string where
  "StepProductAdmits = ''the owning product admits the request''"
definition StepAttributeFloor :: string where
  "StepAttributeFloor = ''the attribute floor admits the request''"
definition StepApprovalGate :: string where
  "StepApprovalGate = ''does a second person have to sign off''"

lemmas step_name_defs = StepGoalStated_def StepAINotApproving_def StepRolePermits_def
  StepSeparationOfDuties_def StepProductAdmits_def StepAttributeFloor_def StepApprovalGate_def

section \<open>Execution tokens, workflows and audit records\<close>

record ExecutionToken =
  tok_Value :: string
  tok_IntentID :: string
  tok_Scope :: string
  tok_PolicyID :: string
  tok_IssuedAt :: int
  tok_ExpiresAt :: int

definition Valid :: "ExecutionToken \<Rightarrow> int \<Rightarrow> bool" where
  "Valid tk t = (t < tok_ExpiresAt tk)"

record Step =
  step_Name :: string
  step_DependsOn :: "string list"
  step_Runtime :: string
  step_Image :: string
  step_Memory :: string
  step_Command :: "string list"
  step_Compensation :: "string list"

record DAG =
  dag_Name :: string
  dag_Steps :: "Step list"

record RunResult =
  rr_DAGName :: string
  rr_Success :: bool
  rr_FailedStep :: string
  rr_StartedAt :: int
  rr_FinishedAt :: int

record AuditRecord =
  ar_Timestamp :: int
  ar_IntentID :: string
  ar_SubjectID :: string
  ar_Action :: string
  ar_Decision :: DecisionAction
  ar_PolicyID :: string
  ar_IsAI :: bool
  ar_Via :: string
  ar_RunID :: string
  ar_ParentID :: string
  ar_StepID :: string
  ar_PrevHash :: string
  ar_Hash :: string

section \<open>Reading a decision back from an error\<close>

lemma find_DecisionError_wrapped [simp]:
  "find_DecisionError ((Wrapped m ^^ n) e) = find_DecisionError e"
  by (induction n) auto

lemma find_Refused_wrapped [simp]: "find_Refused ((Wrapped m ^^ n) e) = find_Refused e"
  by (induction n) auto

lemma DecisionFrom_DecisionError [simp]: "DecisionFrom (Some (DecisionError d)) = Some d"
  by (simp add: DecisionFrom_def)

lemma DecisionFrom_Wrapped [simp]: "DecisionFrom (Some (Wrapped m e)) = DecisionFrom (Some e)"
  by (simp add: DecisionFrom_def split: option.split)

lemma DecisionFrom_None_cases:
  assumes "find_DecisionError e = None" and "find_Refused e = None"
  shows "DecisionFrom (Some e) = None"
  using assms by (simp add: DecisionFrom_def)

end
