(* ===== verification/Role_Ladder.thy ===== *)
theory Role_Ladder
  imports Contracts
begin

text \<open>
  The role vocabulary of a deployment and its seniority checks, \<open>internal/policy/ladder.go\<close>, and the
  interface every source of required roles promises: a floor a sealed authorizer never goes below.
\<close>

type_synonym RoleLadder = "int gomap"

text \<open>\<open>ActionAuthorizer\<close>: the role an action requires, \<open>None\<close> when the source names none.\<close>

type_synonym ActionAuthorizer = "string \<Rightarrow> Role option"

record Layer =
  lay_Name :: string
  lay_ActionRoles :: "Role gomap"
  lay_Sealed :: "string list"
  lay_Roles :: "int gomap"

definition DefaultRoleLadder :: RoleLadder where
  "DefaultRoleLadder = [(''L0-SuperAdmin'', 0), (''L1-Architect'', 1), (''L2-Operator'', 2),
     (''L3-Consumer'', 3), (''AI-Agent'', 4)]"

text \<open>The copy loop of \<open>LadderFrom\<close> stores every entry of the layer's map into a fresh map.\<close>

fun LadderFrom :: "Layer list \<Rightarrow> RoleLadder" where
  "LadderFrom [] = DefaultRoleLadder"
| "LadderFrom (l # ls) =
     (if lay_Roles l \<noteq> [] then foldl (\<lambda>out (name, rank). gset out name rank) [] (lay_Roles l)
      else LadderFrom ls)"

fun some_role_ranked :: "RoleLadder \<Rightarrow> int \<Rightarrow> string list \<Rightarrow> bool" where
  "some_role_ranked l nr [] = False"
| "some_role_ranked l nr (r # rs) =
     (case map_of l r of
        Some rk \<Rightarrow> if rk \<le> nr then True else some_role_ranked l nr rs
      | None \<Rightarrow> some_role_ranked l nr rs)"

definition holdsAtLeast :: "RoleLadder \<Rightarrow> string list \<Rightarrow> Role \<Rightarrow> bool" where
  "holdsAtLeast l roles need =
     (case map_of l need of None \<Rightarrow> False | Some nr \<Rightarrow> some_role_ranked l nr roles)"

definition atLeastAsSenior :: "RoleLadder \<Rightarrow> Role \<Rightarrow> Role \<Rightarrow> bool" where
  "atLeastAsSenior l a b =
     (case (map_of l a, map_of l b) of
        (Some ra, Some rb) \<Rightarrow> ra \<le> rb
      | _ \<Rightarrow> False)"

section \<open>Seniority\<close>

lemma some_role_ranked_iff:
  "some_role_ranked l nr rs \<longleftrightarrow> (\<exists>r\<in>set rs. \<exists>rk. map_of l r = Some rk \<and> rk \<le> nr)"
  by (induction rs) (auto split: option.split)

lemma holdsAtLeast_iff:
  "holdsAtLeast l roles need \<longleftrightarrow>
     (\<exists>nr. map_of l need = Some nr \<and> (\<exists>r\<in>set roles. \<exists>rk. map_of l r = Some rk \<and> rk \<le> nr))"
  by (simp add: holdsAtLeast_def some_role_ranked_iff split: option.split)

lemma atLeastAsSenior_iff:
  "atLeastAsSenior l a b \<longleftrightarrow> (\<exists>ra rb. map_of l a = Some ra \<and> map_of l b = Some rb \<and> ra \<le> rb)"
  by (simp add: atLeastAsSenior_def split: option.split)

lemma holdsAtLeast_iff_senior:
  "holdsAtLeast l roles need \<longleftrightarrow> (\<exists>r\<in>set roles. atLeastAsSenior l r need)"
  by (auto simp: holdsAtLeast_iff atLeastAsSenior_iff)

lemma atLeastAsSenior_trans:
  "atLeastAsSenior l a b \<Longrightarrow> atLeastAsSenior l b c \<Longrightarrow> atLeastAsSenior l a c"
  by (auto simp: atLeastAsSenior_iff)

lemma holdsAtLeast_mono:
  "holdsAtLeast l roles need \<Longrightarrow> atLeastAsSenior l need cur \<Longrightarrow> holdsAtLeast l roles cur"
  unfolding holdsAtLeast_iff_senior by (blast intro: atLeastAsSenior_trans)

lemma holdsAtLeast_subset:
  "holdsAtLeast l roles need \<Longrightarrow> set roles \<subseteq> set roles' \<Longrightarrow> holdsAtLeast l roles' need"
  unfolding holdsAtLeast_iff_senior by blast

lemma holdsAtLeast_unknown: "map_of l need = None \<Longrightarrow> \<not> holdsAtLeast l roles need"
  by (simp add: holdsAtLeast_iff)

lemma holdsAtLeast_self: "map_of l need = Some n \<Longrightarrow> holdsAtLeast l [need] need"
  by (simp add: holdsAtLeast_iff)

lemma LadderFrom_lookup:
  assumes "l \<in> set ls" and "lay_Roles l \<noteq> []"
  shows "\<exists>pre l0 post. ls = pre @ l0 # post \<and> (\<forall>p\<in>set pre. lay_Roles p = []) \<and>
     lay_Roles l0 \<noteq> [] \<and> LadderFrom ls = foldl (\<lambda>out (name, rank). gset out name rank) [] (lay_Roles l0)"
  using assms
proof (induction ls)
  case (Cons k ks)
  show ?case
  proof (cases "lay_Roles k = []")
    case True
    with Cons.prems have "l \<in> set ks" by auto
    with Cons.IH Cons.prems(2) obtain pre l0 post where
      ih: "ks = pre @ l0 # post" "\<forall>p\<in>set pre. lay_Roles p = []" "lay_Roles l0 \<noteq> []"
        "LadderFrom ks = foldl (\<lambda>out (name, rank). gset out name rank) [] (lay_Roles l0)" by blast
    with True have "k # ks = (k # pre) @ l0 # post" "\<forall>p\<in>set (k # pre). lay_Roles p = []"
      "LadderFrom (k # ks) = foldl (\<lambda>out (name, rank). gset out name rank) [] (lay_Roles l0)" by simp_all
    with ih(3) show ?thesis by blast
  next
    case False
    then have "k # ks = [] @ k # ks" by simp
    with False show ?thesis by (intro exI [of _ "[]"] exI [of _ k] exI [of _ ks]) simp
  qed
qed simp

section \<open>The interface of a sealed authorizer\<close>

text \<open>
  \<open>stricter l need cur\<close>: requiring \<open>need\<close> admits nobody that requiring \<open>cur\<close> would refuse. A sealed
  authorizer answers every action its floor names with a requirement at least as strict.
\<close>

definition stricter :: "RoleLadder \<Rightarrow> Role \<Rightarrow> Role \<Rightarrow> bool" where
  "stricter l need cur \<longleftrightarrow> need = cur \<or> atLeastAsSenior l need cur"

lemma stricter_refl [simp]: "stricter l r r"
  by (simp add: stricter_def)

lemma stricter_trans: "stricter l a b \<Longrightarrow> stricter l b c \<Longrightarrow> stricter l a c"
  by (auto simp: stricter_def intro: atLeastAsSenior_trans)

lemma stricter_holds: "holdsAtLeast l roles need \<Longrightarrow> stricter l need cur \<Longrightarrow> holdsAtLeast l roles cur"
  by (auto simp: stricter_def intro: holdsAtLeast_mono)

locale sealed_authorizer =
  fixes ladder :: RoleLadder
    and floor :: ActionAuthorizer
    and required :: ActionAuthorizer
  assumes floor_respected: "floor a = Some cur \<Longrightarrow> \<exists>need. required a = Some need \<and> stricter ladder need cur"
begin

lemma required_on_floor: "floor a = Some cur \<Longrightarrow> required a \<noteq> None"
  using floor_respected by blast

lemma never_below_floor:
  assumes "floor a = Some cur" and "required a = Some need" and "holdsAtLeast ladder roles need"
  shows "holdsAtLeast ladder roles cur"
  using assms floor_respected stricter_holds by fastforce

end

end
