(* ===== verification/Layers.thy ===== *)
theory Layers
  imports Role_Ladder
begin

text \<open>
  The layered configuration cascade: \<open>resolve.go\<close>, \<open>scope.go\<close>, \<open>validate.go\<close> and \<open>dynamic.go\<close> of
  \<open>internal/policy\<close>. A set of sealed keys (\<open>map[string]bool\<close> whose values are all true) is the list of
  its keys. The lemmas give the value \<open>Resolve\<close> leaves for an action, whatever order Go visits a layer's
  map in, and show the sealed floor: no later layer, scope layer or hot reload loosens a sealed binding.
\<close>

record Resolved =
  res_actionRoles :: "Role gomap"
  res_sealed :: "string list"
  res_fallback :: "ActionAuthorizer option"
  res_ladder :: RoleLadder

definition seal_key :: "string \<Rightarrow> string" where
  "seal_key action = ''action:'' @ action"

definition apply_role :: "Resolved \<Rightarrow> string \<Rightarrow> Role \<Rightarrow> string \<Rightarrow> Resolved" where
  "apply_role r key need sealKey =
     (if sealKey \<in> set (res_sealed r) \<and>
         (case map_of (res_actionRoles r) key of
            Some cur \<Rightarrow> \<not> atLeastAsSenior (res_ladder r) need cur
          | None \<Rightarrow> False)
      then r
      else r\<lparr>res_actionRoles := gset (res_actionRoles r) key need\<rparr>)"

definition resolve_layer :: "Resolved \<Rightarrow> Layer \<Rightarrow> Resolved" where
  "resolve_layer r l =
     (let r' = foldl (\<lambda>r (action, need). apply_role r action need (seal_key action)) r (lay_ActionRoles l)
      in r'\<lparr>res_sealed := res_sealed r' @ lay_Sealed l\<rparr>)"

definition Resolve :: "RoleLadder \<Rightarrow> Layer list \<Rightarrow> Resolved" where
  "Resolve ladder layers =
     (let ladder' = (if ladder = [] then DefaultRoleLadder else ladder);
          r = \<lparr>res_actionRoles = [], res_sealed = [], res_fallback = None, res_ladder = ladder'\<rparr>
      in foldl resolve_layer r layers)"

definition WithFallback :: "Resolved \<Rightarrow> ActionAuthorizer \<Rightarrow> Resolved" where
  "WithFallback r a = r\<lparr>res_fallback := Some a\<rparr>"

definition RequiredRole :: "Resolved \<Rightarrow> ActionAuthorizer" where
  "RequiredRole r action =
     (case map_of (res_actionRoles r) action of
        Some need \<Rightarrow> Some need
      | None \<Rightarrow> (case res_fallback r of Some f \<Rightarrow> f action | None \<Rightarrow> None))"

definition DefaultLayer :: Layer where
  "DefaultLayer = \<lparr>lay_Name = ''mantlekeep'', lay_ActionRoles = [], lay_Sealed = [], lay_Roles = []\<rparr>"

definition ScopeLayer :: "string \<Rightarrow> Role gomap \<Rightarrow> string list \<Rightarrow> Layer" where
  "ScopeLayer scope actionRoles sealed =
     \<lparr>lay_Name = ''scope:'' @ scope, lay_ActionRoles = actionRoles, lay_Sealed = sealed, lay_Roles = []\<rparr>"

section \<open>Validation of a layer set\<close>

datatype layer_error =
    UnknownRole string string Role \<comment> \<open>layer, action, role the ladder does not define\<close>
  | BadSeal string string \<comment> \<open>layer, malformed sealed entry\<close>

definition validateSealRef :: "string \<Rightarrow> string \<Rightarrow> layer_error option" where
  "validateSealRef layerName sealed =
     (case CutPrefix sealed ''action:'' of
        None \<Rightarrow> Some (BadSeal layerName sealed)
      | Some name \<Rightarrow> if TrimSpace name = [] then Some (BadSeal layerName sealed) else None)"

fun validate_bindings :: "RoleLadder \<Rightarrow> string \<Rightarrow> Role gomap \<Rightarrow> layer_error option" where
  "validate_bindings ladder layer [] = None"
| "validate_bindings ladder layer ((action, required) # bs) =
     (if map_of ladder required = None then Some (UnknownRole layer action required)
      else validate_bindings ladder layer bs)"

fun validate_seals :: "string \<Rightarrow> string list \<Rightarrow> layer_error option" where
  "validate_seals layer [] = None"
| "validate_seals layer (s # ss) =
     (case validateSealRef layer s of Some e \<Rightarrow> Some e | None \<Rightarrow> validate_seals layer ss)"

fun validate_each :: "RoleLadder \<Rightarrow> Layer list \<Rightarrow> layer_error option" where
  "validate_each ladder [] = None"
| "validate_each ladder (l # ls) =
     (case validate_bindings ladder (lay_Name l) (lay_ActionRoles l) of
        Some e \<Rightarrow> Some e
      | None \<Rightarrow>
          (case validate_seals (lay_Name l) (lay_Sealed l) of
             Some e \<Rightarrow> Some e
           | None \<Rightarrow> validate_each ladder ls))"

definition ValidateLayers :: "RoleLadder \<Rightarrow> Layer list \<Rightarrow> layer_error option" where
  "ValidateLayers ladder layers =
     validate_each (if ladder = [] then DefaultRoleLadder else ladder) layers"

section \<open>Per-scope resolution\<close>

record ScopeResolver =
  sr_base :: "Layer list"
  sr_scopes :: "Layer gomap"
  sr_cache :: "Resolved gomap"
  sr_fallback :: "ActionAuthorizer option"
  sr_ladder :: RoleLadder

definition NewScopeResolver :: "RoleLadder \<Rightarrow> Layer list \<Rightarrow> ScopeResolver" where
  "NewScopeResolver ladder base =
     \<lparr>sr_base = base, sr_scopes = [], sr_cache = [], sr_fallback = None, sr_ladder = ladder\<rparr>"

definition sr_WithFallback :: "ScopeResolver \<Rightarrow> ActionAuthorizer \<Rightarrow> ScopeResolver" where
  "sr_WithFallback p a = p\<lparr>sr_fallback := Some a, sr_cache := []\<rparr>"

definition Has :: "ScopeResolver \<Rightarrow> string \<Rightarrow> bool" where
  "Has p key = (map_of (sr_scopes p) key \<noteq> None)"

definition SetScope :: "ScopeResolver \<Rightarrow> string \<Rightarrow> Layer \<Rightarrow> ScopeResolver" where
  "SetScope p key l = p\<lparr>sr_scopes := gset (sr_scopes p) key l, sr_cache := gdel (sr_cache p) key\<rparr>"

definition resolve_scope :: "ScopeResolver \<Rightarrow> string \<Rightarrow> Resolved" where
  "resolve_scope p scope =
     (let layers = sr_base p @ (case map_of (sr_scopes p) scope of Some l \<Rightarrow> [l] | None \<Rightarrow> []);
          res = Resolve (sr_ladder p) layers
      in case sr_fallback p of Some f \<Rightarrow> WithFallback res f | None \<Rightarrow> res)"

definition For :: "ScopeResolver \<Rightarrow> string \<Rightarrow> Resolved \<times> ScopeResolver" where
  "For p scope =
     (case map_of (sr_cache p) scope of
        Some r \<Rightarrow> (r, p)
      | None \<Rightarrow> (let res = resolve_scope p scope
                 in (res, p\<lparr>sr_cache := gset (sr_cache p) scope res\<rparr>)))"

section \<open>Live resolution and the watcher\<close>

text \<open>
  \<open>hash\<close> stands for \<open>hashLayers\<close>, the SHA-256 of the layers' JSON. \<open>wat_live\<close> is the pointer of the
  \<open>LiveResolver\<close> the watcher swaps; \<open>Reload\<close> takes what \<open>src.Load\<close> returned. The result is the error or
  whether a swap happened, the new watcher, and the revision the \<open>onReload\<close> hook is called with.
\<close>

type_synonym LiveResolver = Resolved

definition live_RequiredRole :: "LiveResolver \<Rightarrow> ActionAuthorizer" where
  "live_RequiredRole cur action = RequiredRole cur action"

record Watcher =
  wat_live :: LiveResolver
  wat_fallback :: "ActionAuthorizer option"
  wat_ladder :: RoleLadder
  wat_lastHash :: string

definition NewWatcher :: "(Layer list \<Rightarrow> string) \<Rightarrow> LiveResolver \<Rightarrow> ActionAuthorizer option \<Rightarrow> RoleLadder
                           \<Rightarrow> Layer list \<Rightarrow> Watcher" where
  "NewWatcher hash live fallback ladder initial =
     \<lparr>wat_live = live, wat_fallback = fallback, wat_ladder = ladder, wat_lastHash = hash initial\<rparr>"

definition rebuild :: "Watcher \<Rightarrow> Layer list \<Rightarrow> Resolved" where
  "rebuild w layers =
     (let res = Resolve (wat_ladder w) layers
      in case wat_fallback w of Some f \<Rightarrow> WithFallback res f | None \<Rightarrow> res)"

definition Reload :: "(Layer list \<Rightarrow> string) \<Rightarrow> string + Layer list \<Rightarrow> Watcher
                       \<Rightarrow> (string + bool) \<times> Watcher \<times> string option" where
  "Reload hash loaded w =
     (case loaded of
        Inl err \<Rightarrow> (Inl err, w, None)
      | Inr layers \<Rightarrow>
          (let h = hash layers
           in if h = wat_lastHash w then (Inr False, w, None)
              else (Inr True, w\<lparr>wat_live := rebuild w layers, wat_lastHash := h\<rparr>, Some h)))"

section \<open>One layer's effect on one action\<close>

definition effective_ladder :: "RoleLadder \<Rightarrow> RoleLadder" where
  "effective_ladder ladder = (if ladder = [] then DefaultRoleLadder else ladder)"

definition override :: "RoleLadder \<Rightarrow> bool \<Rightarrow> Role option \<Rightarrow> Role option \<Rightarrow> Role option" where
  "override ladder sealed old new =
     (case new of
        None \<Rightarrow> old
      | Some need \<Rightarrow>
          (case old of
             Some cur \<Rightarrow> if sealed \<and> \<not> atLeastAsSenior ladder need cur then Some cur else Some need
           | None \<Rightarrow> Some need))"

fun cascade :: "RoleLadder \<Rightarrow> string \<Rightarrow> bool \<times> Role option \<Rightarrow> Layer list \<Rightarrow> bool \<times> Role option" where
  "cascade ladder a s [] = s"
| "cascade ladder a (sealed, cur) (l # ls) =
     cascade ladder a (sealed \<or> seal_key a \<in> set (lay_Sealed l),
                       override ladder sealed cur (map_of (lay_ActionRoles l) a)) ls"

definition view :: "Resolved \<Rightarrow> string \<Rightarrow> bool \<times> Role option" where
  "view r a = (seal_key a \<in> set (res_sealed r), map_of (res_actionRoles r) a)"

lemma seal_key_inject [simp]: "seal_key a = seal_key b \<longleftrightarrow> a = b"
  by (simp add: seal_key_def)

lemma apply_role_frame [simp]:
  "res_sealed (apply_role r k need s) = res_sealed r"
  "res_ladder (apply_role r k need s) = res_ladder r"
  "res_fallback (apply_role r k need s) = res_fallback r"
  by (simp_all add: apply_role_def)

lemma apply_role_lookup:
  "map_of (res_actionRoles (apply_role r k need (seal_key k))) a =
     (if a = k then override (res_ladder r) (seal_key k \<in> set (res_sealed r))
                      (map_of (res_actionRoles r) k) (Some need)
      else map_of (res_actionRoles r) a)"
  by (auto simp: apply_role_def override_def split: option.splits)

lemma apply_roles_frame:
  "res_sealed (foldl (\<lambda>r (k, need). apply_role r k need (seal_key k)) r bs) = res_sealed r \<and>
   res_ladder (foldl (\<lambda>r (k, need). apply_role r k need (seal_key k)) r bs) = res_ladder r \<and>
   res_fallback (foldl (\<lambda>r (k, need). apply_role r k need (seal_key k)) r bs) = res_fallback r"
  by (induction bs arbitrary: r) auto

lemma apply_roles_lookup:
  assumes "wf_map bs"
  shows "map_of (res_actionRoles (foldl (\<lambda>r (k, need). apply_role r k need (seal_key k)) r bs)) a =
    override (res_ladder r) (seal_key a \<in> set (res_sealed r)) (map_of (res_actionRoles r) a) (map_of bs a)"
  using assms
proof (induction bs arbitrary: r)
  case Nil
  then show ?case by (simp add: override_def)
next
  case (Cons b bs)
  obtain k need where b: "b = (k, need)" by (cases b)
  with Cons.prems have k: "map_of bs k = None" and wf: "wf_map bs"
    by (simp_all add: map_of_None_keys)
  show ?case
    using Cons.IH [OF wf, of "apply_role r k need (seal_key k)"] b k
    by (simp add: apply_role_lookup) (simp add: override_def)
qed

lemma resolve_layer_frame [simp]:
  "res_ladder (resolve_layer r l) = res_ladder r"
  "res_fallback (resolve_layer r l) = res_fallback r"
  "res_sealed (resolve_layer r l) = res_sealed r @ lay_Sealed l"
  by (simp_all add: resolve_layer_def Let_def apply_roles_frame)

lemma resolve_layer_view:
  "wf_map (lay_ActionRoles l) \<Longrightarrow> view (resolve_layer r l) a = cascade (res_ladder r) a (view r a) [l]"
  by (simp add: view_def resolve_layer_def Let_def apply_roles_lookup apply_roles_frame)

lemma foldl_resolve_frame [simp]:
  "res_ladder (foldl resolve_layer r ls) = res_ladder r"
  "res_fallback (foldl resolve_layer r ls) = res_fallback r"
  by (induction ls arbitrary: r) simp_all

lemma cascade_append: "cascade ladder a s (xs @ ys) = cascade ladder a (cascade ladder a s xs) ys"
  by (induction ladder a s xs rule: cascade.induct) simp_all

lemma foldl_resolve_view:
  assumes "\<forall>l\<in>set ls. wf_map (lay_ActionRoles l)"
  shows "view (foldl resolve_layer r ls) a = cascade (res_ladder r) a (view r a) ls"
  using assms
proof (induction ls arbitrary: r)
  case (Cons l ls)
  then have "view (foldl resolve_layer r (l # ls)) a
      = cascade (res_ladder r) a (cascade (res_ladder r) a (view r a) [l]) ls"
    by (simp add: resolve_layer_view)
  also have "\<dots> = cascade (res_ladder r) a (view r a) ([l] @ ls)" by (simp only: cascade_append)
  finally show ?case by simp
qed simp

lemma Resolve_frame [simp]:
  "res_ladder (Resolve ladder ls) = effective_ladder ladder"
  "res_fallback (Resolve ladder ls) = None"
  by (simp_all add: Resolve_def Let_def effective_ladder_def)

lemma Resolve_append: "Resolve ladder (pre @ post) = foldl resolve_layer (Resolve ladder pre) post"
  by (simp add: Resolve_def Let_def)

lemma Resolve_view:
  assumes "\<forall>l\<in>set ls. wf_map (lay_ActionRoles l)"
  shows "view (Resolve ladder ls) a = cascade (effective_ladder ladder) a (False, None) ls"
  using assms by (simp add: Resolve_def Let_def foldl_resolve_view effective_ladder_def) (simp add: view_def)

section \<open>The sealed floor\<close>

definition sealed_floor :: "RoleLadder \<Rightarrow> Layer list \<Rightarrow> ActionAuthorizer" where
  "sealed_floor ladder pre a =
     (if seal_key a \<in> set (res_sealed (Resolve ladder pre))
      then map_of (res_actionRoles (Resolve ladder pre)) a else None)"

definition on_floor :: "RoleLadder \<Rightarrow> string \<Rightarrow> Role \<Rightarrow> Resolved \<Rightarrow> bool" where
  "on_floor ladder a cur r \<longleftrightarrow>
     res_ladder r = ladder \<and> seal_key a \<in> set (res_sealed r) \<and>
     (\<exists>need. map_of (res_actionRoles r) a = Some need \<and> stricter ladder need cur)"

lemma apply_role_on_floor:
  "on_floor ladder a cur r \<Longrightarrow> on_floor ladder a cur (apply_role r k need (seal_key k))"
  by (auto simp: on_floor_def apply_role_lookup override_def intro: stricter_trans)
    (auto simp: stricter_def intro: atLeastAsSenior_trans)

lemma apply_roles_on_floor:
  "on_floor ladder a cur r \<Longrightarrow>
     on_floor ladder a cur (foldl (\<lambda>r (k, need). apply_role r k need (seal_key k)) r bs)"
  by (induction bs arbitrary: r) (auto simp: apply_role_on_floor)

lemma resolve_layer_on_floor: "on_floor ladder a cur r \<Longrightarrow> on_floor ladder a cur (resolve_layer r l)"
  using apply_roles_on_floor [of ladder a cur r "lay_ActionRoles l"]
  by (auto simp: resolve_layer_def Let_def on_floor_def)

lemma foldl_on_floor: "on_floor ladder a cur r \<Longrightarrow> on_floor ladder a cur (foldl resolve_layer r ls)"
  by (induction ls arbitrary: r) (auto simp: resolve_layer_on_floor)

lemma floor_kept:
  assumes "sealed_floor ladder pre a = Some cur"
  shows "\<exists>need. map_of (res_actionRoles (Resolve ladder (pre @ post))) a = Some need \<and>
           stricter (effective_ladder ladder) need cur"
proof -
  have "on_floor (effective_ladder ladder) a cur (Resolve ladder pre)"
    using assms by (auto simp: sealed_floor_def on_floor_def split: if_splits)
  then have "on_floor (effective_ladder ladder) a cur (Resolve ladder (pre @ post))"
    by (simp add: Resolve_append foldl_on_floor)
  then show ?thesis by (auto simp: on_floor_def)
qed

interpretation cascade_floor:
  sealed_authorizer "effective_ladder ladder" "sealed_floor ladder pre" "RequiredRole (Resolve ladder (pre @ post))"
  for ladder pre post
  by unfold_locales (drule floor_kept [where post = post], auto simp: RequiredRole_def)

lemma RequiredRole_WithFallback_floor:
  assumes "sealed_floor ladder pre a = Some cur"
  shows "\<exists>need. RequiredRole (case fb of Some f \<Rightarrow> WithFallback (Resolve ladder (pre @ post)) f
                                     | None \<Rightarrow> Resolve ladder (pre @ post)) a = Some need \<and>
           stricter (effective_ladder ladder) need cur"
  using floor_kept [OF assms, of post] by (auto simp: RequiredRole_def WithFallback_def split: option.split)

interpretation scope_floor:
  sealed_authorizer "effective_ladder (sr_ladder p)" "sealed_floor (sr_ladder p) (sr_base p)"
    "RequiredRole (resolve_scope p scope)"
  for p scope
  using RequiredRole_WithFallback_floor by unfold_locales (simp add: resolve_scope_def Let_def)

interpretation rebuild_floor:
  sealed_authorizer "effective_ladder (wat_ladder w)" "sealed_floor (wat_ladder w) pre"
    "live_RequiredRole (rebuild w (pre @ post))"
  for w pre post
  using RequiredRole_WithFallback_floor
  by unfold_locales (simp add: rebuild_def Let_def live_RequiredRole_def)

section \<open>The scope cache\<close>

definition coherent :: "ScopeResolver \<Rightarrow> bool" where
  "coherent p \<longleftrightarrow> (\<forall>scope r. map_of (sr_cache p) scope = Some r \<longrightarrow> r = resolve_scope p scope)"

lemma resolve_scope_cache [simp]: "resolve_scope (p\<lparr>sr_cache := c\<rparr>) scope = resolve_scope p scope"
  by (simp add: resolve_scope_def)

lemma coherent_New: "coherent (NewScopeResolver ladder base)"
  by (simp add: coherent_def NewScopeResolver_def)

lemma coherent_WithFallback: "coherent (sr_WithFallback p a)"
  by (simp add: coherent_def sr_WithFallback_def)

lemma coherent_SetScope: "coherent p \<Longrightarrow> coherent (SetScope p key l)"
  by (auto simp: coherent_def SetScope_def resolve_scope_def split: if_splits)

lemma For_value: "coherent p \<Longrightarrow> fst (For p scope) = resolve_scope p scope"
  by (auto simp: For_def coherent_def Let_def split: option.split)

lemma coherent_For: "coherent p \<Longrightarrow> coherent (snd (For p scope))"
  by (auto simp: For_def coherent_def Let_def split: option.splits if_splits)

lemma For_frame:
  "sr_base (snd (For p scope)) = sr_base p \<and> sr_scopes (snd (For p scope)) = sr_scopes p \<and>
   sr_fallback (snd (For p scope)) = sr_fallback p \<and> sr_ladder (snd (For p scope)) = sr_ladder p"
  by (auto simp: For_def Let_def split: option.split)

section \<open>Validation\<close>

definition valid_layer :: "RoleLadder \<Rightarrow> Layer \<Rightarrow> bool" where
  "valid_layer ladder l \<longleftrightarrow>
     (\<forall>(action, required) \<in> set (lay_ActionRoles l). map_of ladder required \<noteq> None) \<and>
     (\<forall>s \<in> set (lay_Sealed l). \<exists>name. s = seal_key name \<and> (\<exists>c\<in>set name. \<not> is_space c))"

lemma validateSealRef_None:
  "validateSealRef layer s = None \<longleftrightarrow> (\<exists>name. s = seal_key name \<and> (\<exists>c\<in>set name. \<not> is_space c))"
  by (auto simp: validateSealRef_def seal_key_def CutPrefix_Some TrimSpace_empty_iff split: option.splits)
    (auto simp: CutPrefix_def HasPrefix_iff split: if_splits)

lemma validate_bindings_None:
  "validate_bindings ladder layer bs = None \<longleftrightarrow> (\<forall>(action, required) \<in> set bs. map_of ladder required \<noteq> None)"
  by (induction bs) (auto split: if_splits)

lemma validate_seals_None:
  "validate_seals layer ss = None \<longleftrightarrow>
     (\<forall>s \<in> set ss. \<exists>name. s = seal_key name \<and> (\<exists>c\<in>set name. \<not> is_space c))"
proof (induction ss)
  case (Cons s ss)
  then show ?case
    using validateSealRef_None [of layer s] by (cases "validateSealRef layer s") simp_all
qed simp

lemma validate_each_None: "validate_each ladder ls = None \<longleftrightarrow> (\<forall>l\<in>set ls. valid_layer ladder l)"
proof (induction ls)
  case (Cons l ls)
  have "valid_layer ladder l \<longleftrightarrow>
      validate_bindings ladder (lay_Name l) (lay_ActionRoles l) = None \<and>
      validate_seals (lay_Name l) (lay_Sealed l) = None"
    by (simp only: valid_layer_def validate_bindings_None validate_seals_None)
  with Cons show ?case by (auto split: option.split)
qed simp

lemma ValidateLayers_None:
  "ValidateLayers ladder ls = None \<longleftrightarrow> (\<forall>l\<in>set ls. valid_layer (effective_ladder ladder) l)"
  by (simp add: ValidateLayers_def validate_each_None effective_ladder_def)

definition bound_roles_ranked :: "Resolved \<Rightarrow> bool" where
  "bound_roles_ranked r \<longleftrightarrow> (\<forall>a need. map_of (res_actionRoles r) a = Some need \<longrightarrow> map_of (res_ladder r) need \<noteq> None)"

lemma apply_roles_ranked:
  assumes "bound_roles_ranked r" and "\<forall>(action, required) \<in> set bs. map_of (res_ladder r) required \<noteq> None"
  shows "bound_roles_ranked (foldl (\<lambda>r (k, need). apply_role r k need (seal_key k)) r bs)"
  using assms
proof (induction bs arbitrary: r)
  case (Cons b bs)
  obtain k need where b: "b = (k, need)" by (cases b)
  have "bound_roles_ranked (apply_role r k need (seal_key k))"
    using Cons.prems b by (auto simp: bound_roles_ranked_def apply_role_def)
  with Cons b show ?case by simp
qed simp

lemma foldl_resolve_ranked:
  assumes "bound_roles_ranked r" and "\<forall>l\<in>set ls. valid_layer (res_ladder r) l"
  shows "bound_roles_ranked (foldl resolve_layer r ls)"
  using assms
proof (induction ls arbitrary: r)
  case (Cons l ls)
  have "bound_roles_ranked (resolve_layer r l)"
    using apply_roles_ranked [of r "lay_ActionRoles l"] Cons.prems
    by (simp add: resolve_layer_def Let_def bound_roles_ranked_def valid_layer_def)
  with Cons show ?case by simp
qed simp

section \<open>Sequences of reloads\<close>

definition run_reloads :: "(Layer list \<Rightarrow> string) \<Rightarrow> (string + Layer list) list \<Rightarrow> Watcher \<Rightarrow> Watcher" where
  "run_reloads hash loads w = foldl (\<lambda>w l. fst (snd (Reload hash l w))) w loads"

fun last_good :: "Layer list \<Rightarrow> (string + Layer list) list \<Rightarrow> Layer list" where
  "last_good ls [] = ls"
| "last_good ls (Inl e # xs) = last_good ls xs"
| "last_good ls (Inr ls' # xs) = last_good ls' xs"

lemma Reload_frame:
  "wat_ladder (fst (snd (Reload hash l w))) = wat_ladder w \<and>
   wat_fallback (fst (snd (Reload hash l w))) = wat_fallback w"
  by (simp add: Reload_def Let_def split: sum.split)

lemma rebuild_cong:
  "wat_ladder w = wat_ladder w' \<Longrightarrow> wat_fallback w = wat_fallback w' \<Longrightarrow> rebuild w ls = rebuild w' ls"
  by (simp add: rebuild_def)

lemma run_reloads_inv:
  assumes "wat_live w = rebuild w ls" and "wat_lastHash w = hash ls"
    and "inj_on hash (insert ls {x. Inr x \<in> set loads})"
  shows "wat_live (run_reloads hash loads w) = rebuild w (last_good ls loads) \<and>
         wat_lastHash (run_reloads hash loads w) = hash (last_good ls loads)"
  using assms
proof (induction loads arbitrary: w ls)
  case Nil
  then show ?case by (simp add: run_reloads_def)
next
  case (Cons l loads)
  let ?w = "fst (snd (Reload hash l w))"
  have fold: "run_reloads hash (l # loads) w = run_reloads hash loads ?w" by (simp add: run_reloads_def)
  have rb: "rebuild ?w x = rebuild w x" for x by (intro rebuild_cong) (simp_all add: Reload_frame)
  show ?case
  proof (cases l)
    case (Inl e)
    then have "?w = w" by (simp add: Reload_def)
    moreover have "inj_on hash (insert ls {x. Inr x \<in> set loads})"
      by (rule inj_on_subset [OF Cons.prems(3)]) auto
    ultimately show ?thesis using Cons.IH [of w ls] Cons.prems(1,2) fold Inl by simp
  next
    case (Inr ls')
    have same: "hash ls' = hash ls \<longleftrightarrow> ls' = ls"
      using Cons.prems(3) Inr by (auto simp: inj_on_def)
    have "wat_live ?w = rebuild w ls'" and h: "wat_lastHash ?w = hash ls'"
      using Cons.prems(1,2) Inr same by (auto simp: Reload_def Let_def)
    then have "wat_live ?w = rebuild ?w ls'" by (simp only: rb)
    moreover have "inj_on hash (insert ls' {x. Inr x \<in> set loads})"
      by (rule inj_on_subset [OF Cons.prems(3)]) (auto simp: Inr)
    ultimately show ?thesis using Cons.IH [of ?w ls'] h fold rb Inr by (simp only: last_good.simps)
  qed
qed

section \<open>Properties\<close>

text \<open>C10: the cascade refines its per-action specification. For layers whose maps have distinct keys,
  \<open>Resolve\<close> leaves for every action exactly the seal flag and required role of \<open>cascade\<close>, which reads the
  layers' maps only through lookups: the most specific layer wins unless the key is sealed, and the order in
  which Go ranges over a layer's map never matters.\<close>

theorem Resolve_refines_cascade:
  assumes "\<forall>l\<in>set ls. wf_map (lay_ActionRoles l)"
  shows "(seal_key a \<in> set (res_sealed (Resolve ladder ls)), RequiredRole (Resolve ladder ls) a)
    = cascade (effective_ladder ladder) a (False, None) ls"
  using Resolve_view [OF assms, of ladder a]
  by (cases "map_of (res_actionRoles (Resolve ladder ls)) a") (simp_all add: view_def RequiredRole_def)

definition platform_layer :: Layer where
  "platform_layer = \<lparr>lay_Name = ''platform'', lay_ActionRoles = [(''service.deploy'', ''L1-Architect'')],
     lay_Sealed = [''action:service.deploy''], lay_Roles = []\<rparr>"

definition loose_team_layer :: Layer where
  "loose_team_layer = \<lparr>lay_Name = ''team'', lay_ActionRoles = [(''service.deploy'', ''L3-Consumer''),
     (''job.run'', ''L3-Consumer'')], lay_Sealed = [], lay_Roles = []\<rparr>"

theorem Resolve_refines_cascade_witness:
  "RequiredRole (Resolve [] [DefaultLayer, platform_layer, loose_team_layer]) ''service.deploy''
     = Some ''L1-Architect''"
proof -
  have wf: "\<forall>l\<in>set [DefaultLayer, platform_layer, loose_team_layer]. wf_map (lay_ActionRoles l)"
    by (simp add: DefaultLayer_def platform_layer_def loose_team_layer_def)
  then show ?thesis
    using Resolve_refines_cascade [OF wf, of "''service.deploy''" "[]"]
    by (simp add: DefaultLayer_def platform_layer_def loose_team_layer_def seal_key_def override_def
        atLeastAsSenior_def effective_ladder_def DefaultRoleLadder_def)
qed

text \<open>A sealed binding is a floor. If the layers \<open>pre\<close> bind an action to a role and seal it, then after
  any further layers the action still has a required role, and every subject senior enough for it is senior
  enough for the sealed role: no lower layer loosens, removes or un-seals it. The same holds of a per-scope
  resolution and of a cascade rebuilt by a hot reload, each with its fallback attached.\<close>

theorem sealed_floor_never_loosened:
  assumes "sealed_floor ladder pre a = Some cur"
  shows "(\<exists>need. RequiredRole (Resolve ladder (pre @ post)) a = Some need \<and>
           (\<forall>roles. holdsAtLeast (effective_ladder ladder) roles need \<longrightarrow>
                    holdsAtLeast (effective_ladder ladder) roles cur)) \<and>
    (sr_base p = pre \<and> sr_ladder p = ladder \<and> coherent p \<longrightarrow>
       (\<exists>need. RequiredRole (fst (For p scope)) a = Some need \<and>
           (\<forall>roles. holdsAtLeast (effective_ladder ladder) roles need \<longrightarrow>
                    holdsAtLeast (effective_ladder ladder) roles cur))) \<and>
    (wat_ladder w = ladder \<longrightarrow>
       (\<exists>need. live_RequiredRole (rebuild w (pre @ post)) a = Some need \<and>
           (\<forall>roles. holdsAtLeast (effective_ladder ladder) roles need \<longrightarrow>
                    holdsAtLeast (effective_ladder ladder) roles cur)))"
proof (intro conjI impI)
  show "\<exists>need. RequiredRole (Resolve ladder (pre @ post)) a = Some need \<and>
      (\<forall>roles. holdsAtLeast (effective_ladder ladder) roles need \<longrightarrow>
               holdsAtLeast (effective_ladder ladder) roles cur)"
    using cascade_floor.floor_respected [OF assms, of post] stricter_holds by blast
next
  assume p: "sr_base p = pre \<and> sr_ladder p = ladder \<and> coherent p"
  then show "\<exists>need. RequiredRole (fst (For p scope)) a = Some need \<and>
      (\<forall>roles. holdsAtLeast (effective_ladder ladder) roles need \<longrightarrow>
               holdsAtLeast (effective_ladder ladder) roles cur)"
    using scope_floor.floor_respected [of p a cur scope] assms stricter_holds
    by (fastforce simp: For_value)
next
  assume w: "wat_ladder w = ladder"
  then show "\<exists>need. live_RequiredRole (rebuild w (pre @ post)) a = Some need \<and>
      (\<forall>roles. holdsAtLeast (effective_ladder ladder) roles need \<longrightarrow>
               holdsAtLeast (effective_ladder ladder) roles cur)"
    using rebuild_floor.floor_respected [of w pre a cur post] assms stricter_holds by blast
qed

theorem sealed_floor_never_loosened_witness:
  "sealed_floor [] [DefaultLayer, platform_layer] ''service.deploy'' = Some ''L1-Architect'' \<and>
   (\<exists>need. RequiredRole (Resolve [] ([DefaultLayer, platform_layer] @ [loose_team_layer])) ''service.deploy''
        = Some need \<and> \<not> holdsAtLeast (effective_ladder []) [''L3-Consumer''] need)"
proof -
  have f: "sealed_floor [] [DefaultLayer, platform_layer] ''service.deploy'' = Some ''L1-Architect''"
    by (simp add: sealed_floor_def Resolve_def resolve_layer_def apply_role_def DefaultLayer_def
        platform_layer_def seal_key_def Let_def)
  have n: "\<not> holdsAtLeast (effective_ladder []) [''L3-Consumer''] ''L1-Architect''"
    by (simp add: holdsAtLeast_def effective_ladder_def DefaultRoleLadder_def)
  show ?thesis
    using f n conjunct1 [OF sealed_floor_never_loosened [OF f,
        of "[loose_team_layer]" "NewScopeResolver [] []" "[]" "NewWatcher (\<lambda>_. []) undefined None [] []"]]
    by blast
qed

text \<open>A layer set that passes \<open>ValidateLayers\<close> is one the engine can honour: every role the resolved
  cascade requires is ranked by the ladder, so a subject holding that role satisfies it and no validated
  binding denies everyone.\<close>

theorem validated_bindings_satisfiable:
  assumes "ValidateLayers ladder ls = None" and "RequiredRole (Resolve ladder ls) a = Some need"
  shows "holdsAtLeast (effective_ladder ladder) [need] need"
proof -
  let ?r0 = "\<lparr>res_actionRoles = [], res_sealed = [], res_fallback = None,
      res_ladder = effective_ladder ladder\<rparr>"
  have eq: "Resolve ladder ls = foldl resolve_layer ?r0 ls"
    by (simp add: Resolve_def Let_def effective_ladder_def)
  have "bound_roles_ranked (Resolve ladder ls)"
    unfolding eq using assms(1)
    by (intro foldl_resolve_ranked) (simp_all add: bound_roles_ranked_def ValidateLayers_None)
  with assms(2) show ?thesis
    by (auto simp: bound_roles_ranked_def RequiredRole_def dest: holdsAtLeast_self split: option.splits)
qed

theorem validated_bindings_satisfiable_witness:
  "ValidateLayers [] [platform_layer, loose_team_layer] = None \<and>
   holdsAtLeast (effective_ladder []) [''L3-Consumer''] ''L3-Consumer''"
proof -
  have v: "ValidateLayers [] [platform_layer, loose_team_layer] = None" by code_simp
  have r: "RequiredRole (Resolve [] [platform_layer, loose_team_layer]) ''job.run'' = Some ''L3-Consumer''"
    by code_simp
  show ?thesis using v validated_bindings_satisfiable [OF v r] by simp
qed

text \<open>Hot reload always serves the last good configuration. Starting from a cascade built from layers
  \<open>ls\<close>, after any sequence of polls, some of which may fail to load, the live cascade is the rebuilt cascade
  of the last layers that loaded (of \<open>ls\<close> when none did). The content hash is assumed to distinguish the layer
  sets seen, since an equal hash is taken to mean no change.\<close>

theorem Reload_serves_last_good:
  assumes "wat_live w = rebuild w ls" and "wat_lastHash w = hash ls"
    and "inj_on hash (insert ls {x. Inr x \<in> set loads})"
  shows "wat_live (run_reloads hash loads w) = rebuild w (last_good ls loads)"
  using run_reloads_inv [OF assms] by simp

theorem Reload_serves_last_good_witness:
  "wat_live (run_reloads (\<lambda>ls. concat (map lay_Name ls)) [Inl ''offline'', Inr [platform_layer], Inl ''offline'']
      (NewWatcher (\<lambda>ls. concat (map lay_Name ls)) (Resolve [] [DefaultLayer]) None [] [DefaultLayer]))
   = Resolve [] [platform_layer]"
proof -
  let ?w = "NewWatcher (\<lambda>ls. concat (map lay_Name ls)) (Resolve [] [DefaultLayer]) None [] [DefaultLayer]"
  have w: "wat_live ?w = rebuild ?w [DefaultLayer]" "wat_lastHash ?w = concat (map lay_Name [DefaultLayer])"
    by (simp_all add: NewWatcher_def rebuild_def)
  have "inj_on (\<lambda>ls. concat (map lay_Name ls)) (insert [DefaultLayer]
      {x. Inr x \<in> set [Inl ''offline'', Inr [platform_layer], Inl ''offline'']})"
    by (simp add: inj_on_def DefaultLayer_def platform_layer_def)
  from Reload_serves_last_good [OF w this] show ?thesis
    by (simp add: rebuild_def NewWatcher_def)
qed

end
