(* ===== verification/Grants.thy ===== *)
theory Grants
  imports Prelude "HOL-Library.List_Lexorder" "HOL-Library.Char_ord"
begin

text \<open>
  The policy documents, package \<open>grants\<close>: the role grants and approval actions with the platform seal
  (\<open>grants.go\<close>, \<open>merge.go\<close>), the attribute floors (\<open>floors.go\<close>) and reviewable changes (\<open>change.go\<close>).
  Reading and parsing a document is the caller's: \<open>Load\<close> and \<open>LoadFloors\<close> take what \<open>readOverride\<close>,
  \<open>platformDoc\<close> and \<open>productDocs\<close> returned, an error text or the parsed documents in their sorted order.
  A set kept as \<open>map[string]bool\<close> with true values is the list of its keys.

  The lemmas show that the seal keeps product documents away from platform actions they name, that floors
  only grow, and that the changes rendered for an approver turn one document into the other.
\<close>

record FloorRule =
  fr_Kind :: string
  fr_Param :: string
  fr_Values :: "string list"
  fr_Caps :: "string gomap"
  fr_WhenParam :: string
  fr_WhenIn :: "string list"
  fr_WhenValue :: string
  fr_Pattern :: string
  fr_Role :: string
  fr_Message :: string

type_synonym Floors = "FloorRule list gomap"

record Grants =
  gr_RoleActions :: "string list gomap"
  gr_ApprovalActions :: "string list"

record productDoc =
  pd_RoleActions :: "string list gomap"
  pd_ApprovalActions :: "string list"
  pd_Floors :: Floors
  pd_SealedActions :: "string list"
  pd_Source :: string

datatype grants_error =
    DocumentError string
  | SealedGrant string string string \<comment> \<open>source, action, role\<close>

text \<open>Reading a missing key of a map of slices gives the empty slice.\<close>

definition entries :: "'v list gomap \<Rightarrow> string \<Rightarrow> 'v list" where
  "entries m k = (case map_of m k of Some xs \<Rightarrow> xs | None \<Rightarrow> [])"

fun union_walk :: "string list \<Rightarrow> string list \<Rightarrow> string list \<Rightarrow> string list \<times> string list" where
  "union_walk seen out [] = (seen, out)"
| "union_walk seen out (s # ss) =
     (if s \<notin> set seen then union_walk (s # seen) (out @ [s]) ss else union_walk seen out ss)"

definition unionStrings :: "string list \<Rightarrow> string list \<Rightarrow> string list" where
  "unionStrings a b = (let (seen, out) = union_walk [] [] a in snd (union_walk seen out b))"

fun platform_roles :: "Grants \<Rightarrow> string list \<Rightarrow> string list gomap \<Rightarrow> Grants \<times> string list" where
  "platform_roles g sealed [] = (g, sealed)"
| "platform_roles g sealed ((role, acts) # rs) =
     platform_roles
       (g\<lparr>gr_RoleActions := gset (gr_RoleActions g) role (unionStrings (entries (gr_RoleActions g) role) acts)\<rparr>)
       (sealed @ acts) rs"

definition applyPlatformLayer :: "Grants \<Rightarrow> productDoc option \<Rightarrow> Grants \<times> string list" where
  "applyPlatformLayer g plat =
     (case plat of
        None \<Rightarrow> (g, [])
      | Some d \<Rightarrow>
          (let (g', sealed) = platform_roles g [] (pd_RoleActions d)
           in (g'\<lparr>gr_ApprovalActions := unionStrings (gr_ApprovalActions g') (pd_ApprovalActions d)\<rparr>,
               sealed @ pd_SealedActions d)))"

fun refuseSealedActions :: "string \<Rightarrow> string \<Rightarrow> string list \<Rightarrow> string list \<Rightarrow> grants_error option" where
  "refuseSealedActions source role [] sealed = None"
| "refuseSealedActions source role (a # acts) sealed =
     (if a \<in> set sealed then Some (SealedGrant source a role)
      else refuseSealedActions source role acts sealed)"

fun product_roles :: "string \<Rightarrow> string list \<Rightarrow> Grants \<Rightarrow> string list gomap \<Rightarrow> grants_error + Grants" where
  "product_roles source sealed g [] = Inr g"
| "product_roles source sealed g ((role, acts) # rs) =
     (case refuseSealedActions source role acts sealed of
        Some e \<Rightarrow> Inl e
      | None \<Rightarrow> product_roles source sealed
          (g\<lparr>gr_RoleActions := gset (gr_RoleActions g) role
               (unionStrings (entries (gr_RoleActions g) role) acts)\<rparr>) rs)"

fun applyProductLayers :: "Grants \<Rightarrow> string list \<Rightarrow> productDoc list \<Rightarrow> grants_error + Grants" where
  "applyProductLayers g sealed [] = Inr g"
| "applyProductLayers g sealed (d # ds) =
     (case product_roles (pd_Source d) sealed g (pd_RoleActions d) of
        Inl e \<Rightarrow> Inl e
      | Inr g' \<Rightarrow> applyProductLayers
          (g'\<lparr>gr_ApprovalActions := unionStrings (gr_ApprovalActions g') (pd_ApprovalActions d)\<rparr>) sealed ds)"

definition Load :: "string + Grants \<Rightarrow> string + productDoc option \<Rightarrow> string + productDoc list
                     \<Rightarrow> grants_error + Grants" where
  "Load baseline plat docs =
     (case baseline of
        Inl e \<Rightarrow> Inl (DocumentError e)
      | Inr g \<Rightarrow>
          (case plat of
             Inl e \<Rightarrow> Inl (DocumentError e)
           | Inr p \<Rightarrow>
               (let (g', sealed) = applyPlatformLayer g p
                in case docs of
                     Inl e \<Rightarrow> Inl (DocumentError e)
                   | Inr ds \<Rightarrow> applyProductLayers g' sealed ds)))"

section \<open>Floors\<close>

definition mergeFloors :: "Floors \<Rightarrow> Floors \<Rightarrow> Floors" where
  "mergeFloors f rules = foldl (\<lambda>f (action, list). gset f action (entries f action @ list)) f rules"

definition appendLayeredFloors :: "Floors \<Rightarrow> string + productDoc option \<Rightarrow> string + productDoc list
                                    \<Rightarrow> grants_error + Floors" where
  "appendLayeredFloors f plat docs =
     (case plat of
        Inl e \<Rightarrow> Inl (DocumentError e)
      | Inr p \<Rightarrow>
          (let f' = (case p of Some d \<Rightarrow> mergeFloors f (pd_Floors d) | None \<Rightarrow> f)
           in case docs of
                Inl e \<Rightarrow> Inl (DocumentError e)
              | Inr ds \<Rightarrow> Inr (foldl (\<lambda>f d. mergeFloors f (pd_Floors d)) f' ds)))"

definition LoadFloors :: "string + Floors \<Rightarrow> string + productDoc option \<Rightarrow> string + productDoc list
                           \<Rightarrow> grants_error + Floors" where
  "LoadFloors baseline plat docs =
     (case baseline of Inl e \<Rightarrow> Inl (DocumentError e) | Inr f \<Rightarrow> appendLayeredFloors f plat docs)"

section \<open>Changes\<close>

record Change =
  chg_Role :: string
  chg_Action :: string
  chg_Grant :: bool
  chg_Reason :: string

datatype change_error = NoRoleNamed | NoActionNamed | NoReason Change

definition Validate :: "Change \<Rightarrow> change_error option" where
  "Validate c =
     (if TrimSpace (chg_Role c) = [] then Some NoRoleNamed
      else if TrimSpace (chg_Action c) = [] then Some NoActionNamed
      else if TrimSpace (chg_Reason c) = [] then Some (NoReason c)
      else None)"

definition verb :: "Change \<Rightarrow> string" where
  "verb c = (if chg_Grant c then ''granting'' else ''revoking'')"

text \<open>The verb \<open>q\<close> of \<open>fmt\<close> on printable text: a double-quoted literal with quotes and backslashes escaped.\<close>

definition go_quote :: "string \<Rightarrow> string" where
  "go_quote s = CHR 0x22 # concat (map (\<lambda>c. if c \<in> {CHR 0x22, CHR 0x5C} then [CHR 0x5C, c] else [c]) s)
     @ [CHR 0x22]"

definition Describe :: "Change \<Rightarrow> string" where
  "Describe c = verb c @ '' '' @ go_quote (chg_Action c) @ '' '' @ (if chg_Grant c then ''to'' else ''from'')
     @ '' '' @ go_quote (chg_Role c) @ '': '' @ chg_Reason c"

definition sortedKeys :: "string list \<Rightarrow> string list" where
  "sortedKeys ks = sort (remdups ks)"

definition unionRoles :: "Grants \<Rightarrow> Grants \<Rightarrow> string list" where
  "unionRoles before after = sortedKeys (keys (gr_RoleActions before) @ keys (gr_RoleActions after))"

definition role_changes :: "Grants \<Rightarrow> Grants \<Rightarrow> string \<Rightarrow> string \<Rightarrow> Change list" where
  "role_changes before after reason role =
     (let had = entries (gr_RoleActions before) role; has = entries (gr_RoleActions after) role
      in map (\<lambda>a. \<lparr>chg_Role = role, chg_Action = a, chg_Grant = True, chg_Reason = reason\<rparr>)
           (filter (\<lambda>a. a \<notin> set had) (sortedKeys has))
       @ map (\<lambda>a. \<lparr>chg_Role = role, chg_Action = a, chg_Grant = False, chg_Reason = reason\<rparr>)
           (filter (\<lambda>a. a \<notin> set has) (sortedKeys had)))"

definition ChangesFrom :: "Grants \<Rightarrow> Grants \<Rightarrow> string \<Rightarrow> Change list" where
  "ChangesFrom before after reason = concat (map (role_changes before after reason) (unionRoles before after))"

section \<open>Unions\<close>

lemma union_walk_seen:
  "set seen = set out \<Longrightarrow>
     set (fst (union_walk seen out xs)) = set out \<union> set xs \<and>
     set (snd (union_walk seen out xs)) = set out \<union> set xs"
proof (induction seen out xs rule: union_walk.induct)
  case (2 seen out x xs)
  show ?case
  proof (cases "x \<in> set seen")
    case True
    with 2(2) [OF _ "2.prems"] "2.prems" show ?thesis by (simp add: insert_absorb)
  next
    case False
    with 2(1) [OF False] "2.prems" show ?thesis by simp
  qed
qed simp

lemma set_unionStrings [simp]: "set (unionStrings a b) = set a \<union> set b"
  using union_walk_seen [of "[]" "[]" a]
    union_walk_seen [of "fst (union_walk [] [] a)" "snd (union_walk [] [] a)" b]
  by (simp add: unionStrings_def split_beta Let_def)

lemma union_walk_distinct:
  "set seen = set out \<Longrightarrow> distinct out \<Longrightarrow> distinct (snd (union_walk seen out xs))"
  by (induction seen out xs rule: union_walk.induct) auto

lemma distinct_unionStrings: "distinct (unionStrings a b)"
  using union_walk_seen [of "[]" "[]" a] union_walk_distinct [of "[]" "[]" a]
    union_walk_distinct [of "fst (union_walk [] [] a)" "snd (union_walk [] [] a)" b]
  by (simp add: unionStrings_def split_beta Let_def)

lemma entries_gset [simp]: "entries (gset m k v) k' = (if k' = k then v else entries m k')"
  by (simp add: entries_def)

lemma entries_Nil [simp]: "entries [] k = []"
  by (simp add: entries_def)

lemma entries_Cons [simp]: "entries ((k', v) # m) k = (if k = k' then v else entries m k)"
  by (simp add: entries_def)

lemma entries_notin: "k \<notin> set (keys m) \<Longrightarrow> entries m k = []"
  by (simp add: entries_def map_of_None_keys [symmetric])

lemma entries_member: "xs = entries m k \<Longrightarrow> x \<in> set xs \<Longrightarrow> (k, xs) \<in> set m"
  by (auto simp: entries_def map_of_member split: option.splits)

section \<open>What the documents compose to\<close>

definition doc_grants :: "string list gomap \<Rightarrow> string \<Rightarrow> string set" where
  "doc_grants m role = (\<Union>(r, acts) \<in> set m. if r = role then set acts else {})"

lemma doc_grants_wf: "wf_map m \<Longrightarrow> doc_grants m role = set (entries m role)"
proof (induction m)
  case (Cons p m)
  obtain r acts where p: "p = (r, acts)" by (cases p)
  have "doc_grants (p # m) role = (if r = role then set acts else {}) \<union> doc_grants m role"
    by (auto simp: doc_grants_def p split: if_splits)
  with Cons p show ?case by (auto simp: entries_notin)
qed (simp add: doc_grants_def)

lemma doc_grants_Cons:
  "doc_grants ((r, acts) # m) role = (if r = role then set acts else {}) \<union> doc_grants m role"
  by (auto simp: doc_grants_def split: if_splits)

lemma platform_roles_sealed:
  "set (snd (platform_roles g sealed rs)) = set sealed \<union> (\<Union>role. doc_grants rs role)"
proof (induction g sealed rs rule: platform_roles.induct)
  case (2 g sealed role acts rs)
  then show ?case by (auto simp: doc_grants_Cons split: if_splits)
qed (simp add: doc_grants_def)

lemma platform_roles_grants:
  "set (entries (gr_RoleActions (fst (platform_roles g sealed rs))) role)
     = set (entries (gr_RoleActions g) role) \<union> doc_grants rs role"
proof (induction g sealed rs rule: platform_roles.induct)
  case (2 g sealed r acts rs)
  then show ?case by (auto simp: doc_grants_Cons)
qed (simp add: doc_grants_def)

lemma refuseSealedActions_None:
  "refuseSealedActions source role acts sealed = None \<longleftrightarrow> set acts \<inter> set sealed = {}"
  by (induction acts) auto

lemma product_roles_Inr:
  "product_roles source sealed g rs = Inr g' \<Longrightarrow>
     set (entries (gr_RoleActions g') role) = set (entries (gr_RoleActions g) role) \<union> doc_grants rs role \<and>
     doc_grants rs role \<inter> set sealed = {}"
proof (induction source sealed g rs rule: product_roles.induct)
  case (2 source sealed g r acts rs)
  then have no: "refuseSealedActions source r acts sealed = None" by (auto split: option.splits)
  then have disj: "set acts \<inter> set sealed = {}" by (simp only: refuseSealedActions_None)
  from no "2.prems" have "product_roles source sealed
      (g\<lparr>gr_RoleActions := gset (gr_RoleActions g) r (unionStrings (entries (gr_RoleActions g) r) acts)\<rparr>) rs
      = Inr g'" by simp
  from "2.IH" [OF no this] disj show ?case
    by (cases "r = role") (simp_all add: doc_grants_Cons Int_Un_distrib2 Un_ac)
qed (simp add: doc_grants_def)

lemma product_roles_Inl:
  "(\<exists>e. product_roles source sealed g rs = Inl e) \<longleftrightarrow> (\<exists>role. doc_grants rs role \<inter> set sealed \<noteq> {})"
proof (induction source sealed g rs rule: product_roles.induct)
  case (2 source sealed g r acts rs)
  show ?case
  proof (cases "refuseSealedActions source r acts sealed")
    case None
    then have "set acts \<inter> set sealed = {}" by (simp only: refuseSealedActions_None)
    then have "doc_grants ((r, acts) # rs) role \<inter> set sealed = doc_grants rs role \<inter> set sealed" for role
      by (simp add: doc_grants_Cons Int_Un_distrib2)
    with 2 [OF None] None show ?thesis by simp
  next
    case (Some e)
    then have "set acts \<inter> set sealed \<noteq> {}" using refuseSealedActions_None [of source r acts sealed] by simp
    then show ?thesis using Some by (auto simp: doc_grants_Cons intro!: exI [of _ r])
  qed
qed (simp add: doc_grants_def)

lemma applyProductLayers_Inr:
  "applyProductLayers g sealed ds = Inr g' \<Longrightarrow>
     (\<forall>role. set (entries (gr_RoleActions g') role)
               = set (entries (gr_RoleActions g) role) \<union> (\<Union>d\<in>set ds. doc_grants (pd_RoleActions d) role)) \<and>
     (\<forall>d\<in>set ds. \<forall>role. doc_grants (pd_RoleActions d) role \<inter> set sealed = {})"
proof (induction g sealed ds rule: applyProductLayers.induct)
  case (2 g sealed d ds)
  then obtain g1 where g1: "product_roles (pd_Source d) sealed g (pd_RoleActions d) = Inr g1"
    by (auto split: sum.splits)
  with 2 product_roles_Inr [OF g1] show ?case by auto
qed simp

lemma applyProductLayers_Inl:
  "(\<exists>e. applyProductLayers g sealed ds = Inl e) \<longleftrightarrow>
     (\<exists>d\<in>set ds. \<exists>role. doc_grants (pd_RoleActions d) role \<inter> set sealed \<noteq> {})"
proof (induction g sealed ds rule: applyProductLayers.induct)
  case (2 g sealed d ds)
  show ?case
  proof (cases "product_roles (pd_Source d) sealed g (pd_RoleActions d)")
    case (Inl e)
    then show ?thesis using product_roles_Inl [of "pd_Source d" sealed g "pd_RoleActions d"] by auto
  next
    case (Inr g1)
    then have "\<not> (\<exists>role. doc_grants (pd_RoleActions d) role \<inter> set sealed \<noteq> {})"
      using product_roles_Inl [of "pd_Source d" sealed g "pd_RoleActions d"] by simp
    with 2 [OF Inr] Inr show ?thesis by auto
  qed
qed simp

definition platform_seal :: "productDoc \<Rightarrow> string set" where
  "platform_seal d = (\<Union>role. doc_grants (pd_RoleActions d) role) \<union> set (pd_SealedActions d)"

lemma applyPlatformLayer_sealed: "set (snd (applyPlatformLayer g (Some d))) = platform_seal d"
  by (auto simp: applyPlatformLayer_def platform_seal_def Let_def split_beta platform_roles_sealed)

lemma applyPlatformLayer_grants:
  "set (entries (gr_RoleActions (fst (applyPlatformLayer g (Some d)))) role)
     = set (entries (gr_RoleActions g) role) \<union> doc_grants (pd_RoleActions d) role"
  by (simp add: applyPlatformLayer_def Let_def split_beta platform_roles_grants)

lemma platform_roles_wf:
  "wf_map (gr_RoleActions g) \<Longrightarrow> wf_map (gr_RoleActions (fst (platform_roles g sealed rs)))"
  by (induction g sealed rs rule: platform_roles.induct) auto

lemma product_roles_wf:
  "product_roles source sealed g rs = Inr g' \<Longrightarrow> wf_map (gr_RoleActions g) \<Longrightarrow> wf_map (gr_RoleActions g')"
  by (induction source sealed g rs rule: product_roles.induct) (auto split: option.splits)

lemma applyProductLayers_wf:
  "applyProductLayers g sealed ds = Inr g' \<Longrightarrow> wf_map (gr_RoleActions g) \<Longrightarrow> wf_map (gr_RoleActions g')"
proof (induction g sealed ds rule: applyProductLayers.induct)
  case (2 g sealed d ds)
  then obtain g1 where g1: "product_roles (pd_Source d) sealed g (pd_RoleActions d) = Inr g1"
    by (auto split: sum.splits)
  with 2 product_roles_wf [OF g1] show ?case by auto
qed simp

lemma applyPlatformLayer_wf:
  "wf_map (gr_RoleActions g) \<Longrightarrow> wf_map (gr_RoleActions (fst (applyPlatformLayer g plat)))"
  using platform_roles_wf [of g "[]"] by (auto simp: applyPlatformLayer_def split_beta Let_def split: option.split)

lemma Load_wf:
  assumes "Load (Inr base) (Inr plat) (Inr docs) = Inr g" and "wf_map (gr_RoleActions base)"
  shows "wf_map (gr_RoleActions g)"
  using assms applyPlatformLayer_wf [OF assms(2), of plat] applyProductLayers_wf
  by (auto simp: Load_def split_beta Let_def)

section \<open>Floors only grow\<close>

lemma mergeFloors_extends: "\<exists>ext. entries (mergeFloors f rules) a = entries f a @ ext"
proof (induction rules arbitrary: f)
  case (Cons r rules)
  obtain b l where r: "r = (b, l)" by (cases r)
  let ?f = "gset f b (entries f b @ l)"
  obtain ext where "entries (mergeFloors ?f rules) a = entries ?f a @ ext"
    using Cons.IH by blast
  then show ?case by (auto simp: mergeFloors_def r)
qed (simp add: mergeFloors_def)

lemma foldl_mergeFloors_extends:
  "\<exists>ext. entries (foldl (\<lambda>f d. mergeFloors f (pd_Floors d)) f ds) a = entries f a @ ext"
proof (induction ds arbitrary: f)
  case (Cons d ds)
  obtain e1 where "entries (mergeFloors f (pd_Floors d)) a = entries f a @ e1"
    using mergeFloors_extends by blast
  moreover obtain e2 where "entries (foldl (\<lambda>f d. mergeFloors f (pd_Floors d)) f (d # ds)) a
      = entries (mergeFloors f (pd_Floors d)) a @ e2"
    using Cons.IH by auto
  ultimately show ?case by simp
qed simp

lemma mergeFloors_entries:
  "wf_map rules \<Longrightarrow> entries (mergeFloors f rules) a = entries f a @ entries rules a"
proof (induction rules arbitrary: f)
  case (Cons r rules)
  obtain b l where r: "r = (b, l)" by (cases r)
  let ?f = "gset f b (entries f b @ l)"
  have "entries (mergeFloors ?f rules) a = entries ?f a @ entries rules a"
    using Cons r by simp
  then show ?case using Cons.prems r by (auto simp: mergeFloors_def entries_notin)
qed (simp add: mergeFloors_def)

lemma LoadFloors_extends:
  assumes "LoadFloors (Inr f) plat docs = Inr f'"
  shows "\<exists>ext. entries f' a = entries f a @ ext"
proof -
  from assms obtain p ds where "plat = Inr p" "docs = Inr ds" and
    f': "f' = foldl (\<lambda>f d. mergeFloors f (pd_Floors d))
           (case p of Some d \<Rightarrow> mergeFloors f (pd_Floors d) | None \<Rightarrow> f) ds"
    by (auto simp: LoadFloors_def appendLayeredFloors_def Let_def split: sum.splits)
  obtain e1 where e1: "entries (case p of Some d \<Rightarrow> mergeFloors f (pd_Floors d) | None \<Rightarrow> f) a
      = entries f a @ e1"
  proof (cases p)
    case None
    then show ?thesis using that [of "[]"] by simp
  next
    case (Some d)
    then show ?thesis using that mergeFloors_extends [of f "pd_Floors d" a] by auto
  qed
  with f' foldl_mergeFloors_extends show ?thesis by (metis append_assoc)
qed

section \<open>Applying changes\<close>

text \<open>What a writer of the policy source does with one change, on the set of actions of each role.\<close>

definition apply_change :: "(string \<Rightarrow> string set) \<Rightarrow> Change \<Rightarrow> string \<Rightarrow> string set" where
  "apply_change held c =
     held(chg_Role c := (if chg_Grant c then insert (chg_Action c) (held (chg_Role c))
                         else held (chg_Role c) - {chg_Action c}))"

lemma apply_other_role:
  "\<forall>c\<in>set cs. chg_Role c \<noteq> role \<Longrightarrow> foldl apply_change held cs role = held role"
  by (induction cs arbitrary: held) (auto simp: apply_change_def)

lemma apply_grants:
  "foldl apply_change held (map (\<lambda>a. \<lparr>chg_Role = role, chg_Action = a, chg_Grant = True, chg_Reason = w\<rparr>) xs) role
     = held role \<union> set xs"
  by (induction xs arbitrary: held) (auto simp: apply_change_def)

lemma apply_revokes:
  "foldl apply_change held (map (\<lambda>a. \<lparr>chg_Role = role, chg_Action = a, chg_Grant = False, chg_Reason = w\<rparr>) xs) role
     = held role - set xs"
  by (induction xs arbitrary: held) (auto simp: apply_change_def)

lemma set_sortedKeys [simp]: "set (sortedKeys ks) = set ks"
  by (simp add: sortedKeys_def)

lemma role_changes_role: "c \<in> set (role_changes before after reason role) \<Longrightarrow> chg_Role c = role"
  by (auto simp: role_changes_def Let_def)

lemma role_changes_apply:
  assumes "held role = set (entries (gr_RoleActions before) role)"
  shows "foldl apply_change held (role_changes before after reason role) role
    = set (entries (gr_RoleActions after) role)"
  using assms by (auto simp: role_changes_def Let_def apply_grants apply_revokes)

lemma apply_role_changes:
  assumes "distinct roles" and "\<And>r. held r = set (entries (gr_RoleActions before) r)"
  shows "foldl apply_change held (concat (map (role_changes before after reason) roles)) role =
    (if role \<in> set roles then set (entries (gr_RoleActions after) role) else held role)"
proof (cases "role \<in> set roles")
  case True
  then obtain xs ys where split: "roles = xs @ role # ys" by (auto simp: in_set_conv_decomp)
  let ?cs = "\<lambda>rs. concat (map (role_changes before after reason) rs)"
  have other: "role \<notin> set rs \<Longrightarrow> \<forall>c\<in>set (?cs rs). chg_Role c \<noteq> role" for rs
    by (auto dest: role_changes_role)
  from split assms(1) have no: "role \<notin> set xs" "role \<notin> set ys" by auto
  have "foldl apply_change held (?cs xs) role = held role"
    using apply_other_role other no(1) by blast
  then have "foldl apply_change (foldl apply_change held (?cs xs)) (role_changes before after reason role) role
      = set (entries (gr_RoleActions after) role)"
    by (intro role_changes_apply) (simp add: assms(2))
  with no(2) other apply_other_role True split show ?thesis by simp
next
  case False
  then show ?thesis by (auto intro!: apply_other_role dest: role_changes_role)
qed

lemma unionRoles_spec:
  "distinct (unionRoles b a) \<and> set (unionRoles b a) = set (keys (gr_RoleActions b)) \<union> set (keys (gr_RoleActions a))"
  by (simp add: unionRoles_def sortedKeys_def)

section \<open>Properties\<close>

text \<open>The platform seal. Loading succeeds exactly when no product document names a sealed action (one
  the platform grants to any role or lists as sealed), and then the roles holding a sealed action by name are
  those the baseline and the platform gave it to; for every other action the grants are the union of all
  documents.\<close>

theorem Load_seal:
  assumes "sealed = platform_seal plat"
  shows "((\<exists>e. Load (Inr base) (Inr (Some plat)) (Inr docs) = Inl e) \<longleftrightarrow>
            (\<exists>d\<in>set docs. \<exists>role. doc_grants (pd_RoleActions d) role \<inter> sealed \<noteq> {})) \<and>
    (\<forall>g role a. Load (Inr base) (Inr (Some plat)) (Inr docs) = Inr g \<longrightarrow>
       (a \<in> set (entries (gr_RoleActions g) role) \<longleftrightarrow>
          a \<in> set (entries (gr_RoleActions base) role) \<or> a \<in> doc_grants (pd_RoleActions plat) role \<or>
          (a \<notin> sealed \<and> (\<exists>d\<in>set docs. a \<in> doc_grants (pd_RoleActions d) role))))"
proof -
  obtain g0 s0 where p: "applyPlatformLayer base (Some plat) = (g0, s0)" by fastforce
  have s0: "set s0 = sealed" using applyPlatformLayer_sealed [of base plat] p assms by simp
  have load: "Load (Inr base) (Inr (Some plat)) (Inr docs) = applyProductLayers g0 s0 docs"
    by (simp add: Load_def p)
  have g0: "set (entries (gr_RoleActions g0) role)
      = set (entries (gr_RoleActions base) role) \<union> doc_grants (pd_RoleActions plat) role" for role
    using applyPlatformLayer_grants [of base plat role] p by simp
  have "a \<in> set (entries (gr_RoleActions g) role) \<longleftrightarrow>
          a \<in> set (entries (gr_RoleActions base) role) \<or> a \<in> doc_grants (pd_RoleActions plat) role \<or>
          (a \<notin> sealed \<and> (\<exists>d\<in>set docs. a \<in> doc_grants (pd_RoleActions d) role))"
    if "applyProductLayers g0 s0 docs = Inr g" for g role a
  proof -
    note r = applyProductLayers_Inr [OF that]
    have "d \<in> set docs \<Longrightarrow> a \<in> doc_grants (pd_RoleActions d) role \<Longrightarrow> a \<notin> sealed" for d
      using r s0 by blast
    moreover have "a \<in> set (entries (gr_RoleActions g) role) \<longleftrightarrow>
        a \<in> set (entries (gr_RoleActions g0) role) \<or> (\<exists>d\<in>set docs. a \<in> doc_grants (pd_RoleActions d) role)"
      using r by simp
    ultimately show ?thesis using g0 by blast
  qed
  then show ?thesis unfolding load using applyProductLayers_Inl [of g0 s0 docs] s0 by blast
qed

definition sample_platform :: productDoc where
  "sample_platform = \<lparr>pd_RoleActions = [(''L1-Architect'', [''policy.grant''])], pd_ApprovalActions = [],
     pd_Floors = [], pd_SealedActions = [''audit.read''], pd_Source = ''platform.json''\<rparr>"

definition sample_product :: "string list \<Rightarrow> productDoc" where
  "sample_product acts = \<lparr>pd_RoleActions = [(''L3-Consumer'', acts)], pd_ApprovalActions = [],
     pd_Floors = [], pd_SealedActions = [], pd_Source = ''product.json''\<rparr>"

definition no_grants :: Grants where
  "no_grants = \<lparr>gr_RoleActions = [], gr_ApprovalActions = []\<rparr>"

theorem Load_seal_witness:
  "\<exists>e. Load (Inr no_grants) (Inr (Some sample_platform)) (Inr [sample_product [''audit.read'']]) = Inl e"
proof -
  have "doc_grants (pd_RoleActions (sample_product [''audit.read''])) ''L3-Consumer''
      \<inter> platform_seal sample_platform \<noteq> {}"
    by (simp add: doc_grants_def sample_product_def platform_seal_def sample_platform_def)
  then show ?thesis
    using Load_seal [OF refl, of no_grants sample_platform "[sample_product [''audit.read'']]"] by auto
qed

text \<open>A listed change, read off the two documents.\<close>

lemma role_changes_iff:
  "c \<in> set (role_changes before after reason role) \<longleftrightarrow> chg_Role c = role \<and> chg_Reason c = reason \<and>
     (let had = set (entries (gr_RoleActions before) role); has = set (entries (gr_RoleActions after) role)
      in if chg_Grant c then chg_Action c \<in> has - had else chg_Action c \<in> had - has)"
  by (cases c) (auto simp: role_changes_def Let_def)

lemma ChangesFrom_iff:
  "c \<in> set (ChangesFrom before after reason) \<longleftrightarrow> chg_Reason c = reason \<and>
     (let had = set (entries (gr_RoleActions before) (chg_Role c)); has = set (entries (gr_RoleActions after) (chg_Role c))
      in if chg_Grant c then chg_Action c \<in> has - had else chg_Action c \<in> had - has)"
proof -
  have "c \<in> set (ChangesFrom before after reason) \<longleftrightarrow>
      chg_Role c \<in> set (unionRoles before after) \<and> c \<in> set (role_changes before after reason (chg_Role c))"
    by (auto simp: ChangesFrom_def) (simp_all add: role_changes_iff)
  moreover have "entries (gr_RoleActions before) (chg_Role c) = []" "entries (gr_RoleActions after) (chg_Role c) = []"
    if "chg_Role c \<notin> set (unionRoles before after)"
    using that unionRoles_spec [of before after] by (auto simp: entries_notin)
  ultimately show ?thesis
    by (cases "chg_Role c \<in> set (unionRoles before after)") (simp_all add: role_changes_iff)
qed

text \<open>A document that takes an action off the list of those that need approval shows an approver no change at all.\<close>

lemma approval_actions_are_not_compared:
  "ChangesFrom (no_grants\<lparr>gr_ApprovalActions := [''deploy.prod'']\<rparr>) no_grants reason = []"
  by (simp add: ChangesFrom_def unionRoles_def sortedKeys_def no_grants_def)

text \<open>C40: the changes shown to an approver are exactly the difference in what each role may do. For every role, applying
  \<open>ChangesFrom before after\<close> in order to the actions it held before gives the actions it holds after; a change is
  listed exactly when it grants an action the role holds only after, or revokes one it held only before, and each
  carries the stated reason. This is about \<open>RoleActions\<close> alone: the actions a document lists as needing approval
  are not compared, so whatever two documents say of them the list is the same.\<close>

theorem ChangesFrom_round_trip:
  "foldl apply_change (\<lambda>r. set (entries (gr_RoleActions before) r)) (ChangesFrom before after reason)
     = (\<lambda>r. set (entries (gr_RoleActions after) r)) \<and>
   (\<forall>c. c \<in> set (ChangesFrom before after reason) \<longleftrightarrow> chg_Reason c = reason \<and>
     (let had = set (entries (gr_RoleActions before) (chg_Role c)); has = set (entries (gr_RoleActions after) (chg_Role c))
      in if chg_Grant c then chg_Action c \<in> has - had else chg_Action c \<in> had - has)) \<and>
   (\<forall>xs ys. ChangesFrom (before\<lparr>gr_ApprovalActions := xs\<rparr>) (after\<lparr>gr_ApprovalActions := ys\<rparr>) reason
     = ChangesFrom before after reason)"
proof (intro conjI)
  show "foldl apply_change (\<lambda>r. set (entries (gr_RoleActions before) r)) (ChangesFrom before after reason)
     = (\<lambda>r. set (entries (gr_RoleActions after) r))"
  proof
    fix role
    show "foldl apply_change (\<lambda>r. set (entries (gr_RoleActions before) r)) (ChangesFrom before after reason) role
      = set (entries (gr_RoleActions after) role)"
      using unionRoles_spec [of before after]
      by (auto simp: ChangesFrom_def apply_role_changes entries_notin)
  qed
  show "\<forall>c. c \<in> set (ChangesFrom before after reason) \<longleftrightarrow> chg_Reason c = reason \<and>
     (let had = set (entries (gr_RoleActions before) (chg_Role c)); has = set (entries (gr_RoleActions after) (chg_Role c))
      in if chg_Grant c then chg_Action c \<in> has - had else chg_Action c \<in> had - has)"
    by (simp add: ChangesFrom_iff)
  show "\<forall>xs ys. ChangesFrom (before\<lparr>gr_ApprovalActions := xs\<rparr>) (after\<lparr>gr_ApprovalActions := ys\<rparr>) reason
     = ChangesFrom before after reason"
    by (simp add: ChangesFrom_def unionRoles_def role_changes_def [abs_def])
qed

theorem ChangesFrom_round_trip_witness:
  "map (\<lambda>c. (chg_Role c, chg_Action c, chg_Grant c))
     (ChangesFrom (no_grants\<lparr>gr_RoleActions := [(''r'', [''a'', ''b''])]\<rparr>)
                  (no_grants\<lparr>gr_RoleActions := [(''r'', [''b'', ''c''])]\<rparr>) ''why'')
   = [(''r'', ''c'', True), (''r'', ''a'', False)] \<and>
   foldl apply_change (\<lambda>r. set (entries [(''r'', [''a'', ''b''])] r))
     (ChangesFrom (no_grants\<lparr>gr_RoleActions := [(''r'', [''a'', ''b''])]\<rparr>)
                  (no_grants\<lparr>gr_RoleActions := [(''r'', [''b'', ''c''])]\<rparr>) ''why'') ''r'' = {''b'', ''c''}"
  using fun_cong [OF conjunct1 [OF ChangesFrom_round_trip [of "no_grants\<lparr>gr_RoleActions := [(''r'', [''a'', ''b''])]\<rparr>"
      "no_grants\<lparr>gr_RoleActions := [(''r'', [''b'', ''c''])]\<rparr>" "''why''"]], of "''r''"]
  by (simp add: ChangesFrom_def unionRoles_def role_changes_def sortedKeys_def no_grants_def entries_def Let_def)

end
