(* ===== verification/Live_Policy.thy ===== *)
theory Live_Policy
  imports Contracts Grants
begin

text \<open>
  The policy snapshot the engine decides on: \<open>grants_live.go\<close>, \<open>grants_load.go\<close> and \<open>grants_reload.go\<close> of
  \<open>internal/policy\<close>, with the namespace of policy identifiers (\<open>namespace.go\<close>). The process-wide pointer
  \<open>livePolicy\<close> is a value of the model's state; \<open>revisionOf\<close> stands for \<open>RevisionOfDocuments\<close>, the truncated
  SHA-256 of the two documents. A nil document is \<open>None\<close>. The environment variables are arguments. Letters
  are ASCII: \<open>strings.ToLower\<close> changes nothing else.
\<close>

record grantsSnapshot =
  sn_roleActions :: "string list gomap"
  sn_approvalActions :: "string list"
  sn_floors :: Floors
  sn_revision :: string

definition buildSnapshot :: "(Grants \<Rightarrow> Floors \<Rightarrow> string) \<Rightarrow> Grants option \<Rightarrow> Floors option
                              \<Rightarrow> string + grantsSnapshot" where
  "buildSnapshot revisionOf held floors =
     (case (held, floors) of
        (Some h, Some f) \<Rightarrow>
          Inr \<lparr>sn_roleActions = foldl (\<lambda>m (role, actions). gset m role actions)
                  [(''L0-SuperAdmin'', [''*''])] (gr_RoleActions h),
               sn_approvalActions = gr_ApprovalActions h,
               sn_floors = f,
               sn_revision = revisionOf h f\<rparr>
      | _ \<Rightarrow> Inl ''policy snapshot: documents must not be nil'')"

text \<open>What \<open>source.Load\<close> returned: an error, or the documents and the revision the source reports.\<close>

type_synonym loaded_documents = "string + Grants option \<times> Floors option \<times> string"

definition ReloadGrants :: "(Grants \<Rightarrow> Floors \<Rightarrow> string) \<Rightarrow> loaded_documents \<Rightarrow> grantsSnapshot
                             \<Rightarrow> (string \<times> bool \<times> string option) \<times> grantsSnapshot" where
  "ReloadGrants revisionOf loaded current =
     (case loaded of
        Inl err \<Rightarrow> ((sn_revision current, False, Some (''policy reload: '' @ err)), current)
      | Inr (held, floors, revision) \<Rightarrow>
          if revision = sn_revision current then ((sn_revision current, False, None), current)
          else (case buildSnapshot revisionOf held floors of
                  Inl err \<Rightarrow> ((sn_revision current, False, Some (''policy reload: '' @ err)), current)
                | Inr snapshot \<Rightarrow> ((sn_revision snapshot, True, None), snapshot)))"

datatype reload_event = OnReload string | OnRefuse string string

text \<open>\<open>GrantsWatcher.Reload\<close>: the events are the callbacks it fires, when they are registered.\<close>

definition watcher_Reload :: "(Grants \<Rightarrow> Floors \<Rightarrow> string) \<Rightarrow> bool \<Rightarrow> bool \<Rightarrow> loaded_documents \<Rightarrow> grantsSnapshot
                               \<Rightarrow> (string + bool) \<times> reload_event list \<times> grantsSnapshot" where
  "watcher_Reload revisionOf hasOnReload hasOnRefuse loaded current =
     (case ReloadGrants revisionOf loaded current of
        ((inForce, changed, Some err), s) \<Rightarrow>
          (Inl err, if hasOnRefuse then [OnRefuse inForce err] else [], s)
      | ((inForce, changed, None), s) \<Rightarrow>
          (Inr changed, if changed \<and> hasOnReload then [OnReload inForce] else [], s))"

text \<open>\<open>InForce\<close> renders the snapshot as documents. The deep copies it makes have equal values.\<close>

definition InForce :: "grantsSnapshot \<Rightarrow> Grants \<times> Floors" where
  "InForce s =
     (\<lparr>gr_RoleActions = map (\<lambda>(role, actions). (role, sortedKeys actions)) (sn_roleActions s),
       gr_ApprovalActions = sortedKeys (sn_approvalActions s)\<rparr>,
      map (\<lambda>(action, rules). (action, rules)) (sn_floors s))"

section \<open>The policy namespace\<close>

definition to_lower :: "char \<Rightarrow> char" where
  "to_lower c = (let n = of_char c :: nat in if 65 \<le> n \<and> n \<le> 90 then char_of (n + 32) else c)"

definition alnum :: "char \<Rightarrow> bool" where
  "alnum c = (let n = of_char c :: nat in (97 \<le> n \<and> n \<le> 122) \<or> (48 \<le> n \<and> n \<le> 57))"

abbreviation dash :: char where "dash \<equiv> CHR ''-''"

fun identifier_walk :: "string \<Rightarrow> bool \<Rightarrow> string \<Rightarrow> string" where
  "identifier_walk b lastWasDash [] = b"
| "identifier_walk b lastWasDash (r # rs) =
     (if alnum r then identifier_walk (b @ [r]) False rs
      else if \<not> lastWasDash \<and> b \<noteq> [] then identifier_walk (b @ [dash]) True rs
      else identifier_walk b lastWasDash rs)"

definition trim_dashes :: "string \<Rightarrow> string" where
  "trim_dashes s = rev (dropWhile (\<lambda>c. c = dash) (rev (dropWhile (\<lambda>c. c = dash) s)))"

definition defaultNamespace :: string where "defaultNamespace = ''mantlekeep''"

definition go_identifier :: "string \<Rightarrow> string" where
  "go_identifier displayName =
     (let out = trim_dashes (identifier_walk [] False (map to_lower displayName))
      in if out = [] then defaultNamespace else out)"

text \<open>The arguments are the values of the namespace and brand variables; an unset variable is empty.\<close>

definition namespace :: "string \<Rightarrow> string \<Rightarrow> string" where
  "namespace explicit brand =
     (if TrimSpace explicit \<noteq> [] then go_identifier (TrimSpace explicit)
      else if TrimSpace brand \<noteq> [] then go_identifier (TrimSpace brand)
      else defaultNamespace)"

definition policyID :: "string \<Rightarrow> string \<Rightarrow> string" where
  "policyID ns kind = ns @ ''.'' @ kind"

section \<open>Snapshots\<close>

lemma buildSnapshot_entries:
  assumes "buildSnapshot revisionOf (Some h) (Some f) = Inr s" and "wf_map (gr_RoleActions h)"
  shows "entries (sn_roleActions s) role =
    (if role \<in> set (keys (gr_RoleActions h)) then entries (gr_RoleActions h) role
     else if role = ''L0-SuperAdmin'' then [''*''] else [])"
proof -
  have "sn_roleActions s = foldl (\<lambda>m (role, actions). gset m role actions) [(''L0-SuperAdmin'', [''*''])]
      (gr_RoleActions h)" using assms(1) by (auto simp: buildSnapshot_def)
  then show ?thesis
    using foldl_gset_lookup [OF assms(2), of "[(''L0-SuperAdmin'', [''*''])]" role]
      map_of_None_keys [of "gr_RoleActions h" role]
    by (auto simp: entries_def split: option.splits)
qed

lemma ReloadGrants_error_keeps:
  "ReloadGrants revisionOf loaded current = ((inForce, changed, Some e), s) \<Longrightarrow>
     s = current \<and> \<not> changed \<and> inForce = sn_revision current"
  by (auto simp: ReloadGrants_def split: sum.splits if_splits)

lemma keys_InForce: "keys (gr_RoleActions (fst (InForce s))) = keys (sn_roleActions s)"
  by (simp add: InForce_def keys_def split_beta comp_def)

lemma entries_InForce: "set (entries (gr_RoleActions (fst (InForce s))) role) = set (entries (sn_roleActions s) role)"
proof -
  have "set (entries (map (\<lambda>(role, actions). (role, sortedKeys actions)) m) role) = set (entries m role)" for m
    by (induction m) auto
  then show ?thesis by (simp add: InForce_def)
qed

lemma buildSnapshot_names_superadmin:
  assumes "buildSnapshot revisionOf (Some h) (Some f) = Inr s" and "wf_map (gr_RoleActions h)"
  shows "RoleSuperAdmin \<in> set (keys (sn_roleActions s)) \<and> wf_map (sn_roleActions s)"
proof -
  have eq: "sn_roleActions s = foldl (\<lambda>m (role, actions). gset m role actions) [(''L0-SuperAdmin'', [''*''])]
      (gr_RoleActions h)" using assms(1) by (auto simp: buildSnapshot_def)
  have "wf_map m \<Longrightarrow> wf_map (foldl (\<lambda>m (role, actions). gset m role actions) m rs)" for m :: "string list gomap" and rs
    by (induction rs arbitrary: m) auto
  moreover have "k \<in> set (keys m) \<Longrightarrow> k \<in> set (keys (foldl (\<lambda>m (role, actions). gset m role actions) m rs))"
    for k and m :: "string list gomap" and rs
    by (induction rs arbitrary: m) auto
  ultimately show ?thesis unfolding eq by simp
qed

section \<open>Shape of an identifier\<close>

definition slug :: "string \<Rightarrow> bool" where
  "slug s \<longleftrightarrow> (\<forall>c\<in>set s. alnum c \<or> c = dash) \<and> successively (\<lambda>a b. \<not> (a = dash \<and> b = dash)) s \<and>
     (s \<noteq> [] \<longrightarrow> hd s \<noteq> dash)"

lemma slug_Nil: "slug []"
  by (simp add: slug_def)

lemma alnum_not_dash: "alnum c \<Longrightarrow> c \<noteq> dash"
  by (auto simp: alnum_def Let_def)

lemma slug_snoc_alnum: "slug s \<Longrightarrow> alnum c \<Longrightarrow> slug (s @ [c])"
  using alnum_not_dash [of c] by (cases "s = []") (auto simp: slug_def successively_append_iff)

lemma slug_snoc_dash: "slug s \<Longrightarrow> s \<noteq> [] \<Longrightarrow> last s \<noteq> dash \<Longrightarrow> slug (s @ [dash])"
  by (auto simp: slug_def successively_append_iff)

lemma identifier_walk_slug:
  "slug b \<Longrightarrow> (\<not> lastWasDash \<Longrightarrow> b \<noteq> [] \<Longrightarrow> last b \<noteq> dash) \<Longrightarrow> slug (identifier_walk b lastWasDash rs)"
proof (induction b lastWasDash rs rule: identifier_walk.induct)
  case (2 b l r rs)
  consider (a) "alnum r" | (d) "\<not> alnum r" "\<not> l" "b \<noteq> []" | (s) "\<not> alnum r" "l \<or> b = []" by blast
  then show ?case
  proof cases
    case a
    then show ?thesis using 2 slug_snoc_alnum [of b r] alnum_not_dash [of r] by simp
  next
    case d
    then show ?thesis using 2 slug_snoc_dash [of b] by simp
  next
    case s
    then show ?thesis using 2 by auto
  qed
qed simp

lemma slug_front: "slug (s @ t) \<Longrightarrow> slug s"
  by (auto simp: slug_def successively_append_iff)

lemma trim_dashes_slug:
  assumes "slug s"
  shows "slug (trim_dashes s)" and "trim_dashes s \<noteq> [] \<Longrightarrow> last (trim_dashes s) \<noteq> dash"
proof -
  have lead: "dropWhile (\<lambda>c. c = dash) s = s" using assms by (cases s) (auto simp: slug_def)
  let ?d = "dropWhile (\<lambda>c. c = dash) (rev s)"
  have trim: "trim_dashes s = rev ?d" by (simp add: trim_dashes_def lead)
  have "s = rev ?d @ rev (takeWhile (\<lambda>c. c = dash) (rev s))"
    by (metis rev_append rev_rev_ident takeWhile_dropWhile_id)
  then show "slug (trim_dashes s)" using assms slug_front trim by metis
  show "trim_dashes s \<noteq> [] \<Longrightarrow> last (trim_dashes s) \<noteq> dash"
    using hd_dropWhile [of "\<lambda>c. c = dash" "rev s"] by (simp add: trim last_rev)
qed

lemma defaultNamespace_shape: "slug defaultNamespace \<and> defaultNamespace \<noteq> [] \<and> last defaultNamespace \<noteq> dash"
  by (simp add: slug_def defaultNamespace_def alnum_def)

lemma identifier_shape: "slug (go_identifier s) \<and> go_identifier s \<noteq> [] \<and> last (go_identifier s) \<noteq> dash"
proof -
  let ?w = "identifier_walk [] False (map to_lower s)"
  have w: "slug ?w" by (rule identifier_walk_slug) (simp_all add: slug_Nil)
  show ?thesis
  proof (cases "trim_dashes ?w = []")
    case True
    then show ?thesis using defaultNamespace_shape by (simp add: go_identifier_def Let_def)
  next
    case False
    then show ?thesis using trim_dashes_slug [OF w] by (simp add: go_identifier_def Let_def)
  qed
qed

section \<open>Properties\<close>

text \<open>Reloading the policy documents is all or nothing. Whatever the source returns (an error, nil
  documents, documents the builder rejects, the revision already in force), the snapshot afterwards is the
  one before or the complete snapshot of the loaded documents; an error is reported exactly with the old
  snapshot and its revision still in force, and \<open>changed\<close> exactly with a new one.\<close>

theorem ReloadGrants_all_or_nothing:
  "\<exists>inForce changed err s. ReloadGrants revisionOf loaded current = ((inForce, changed, err), s) \<and>
     inForce = sn_revision s \<and> (changed \<longrightarrow> err = None) \<and>
     (if changed
      then \<exists>held floors revision. loaded = Inr (Some held, Some floors, revision) \<and>
             revision \<noteq> sn_revision current \<and> buildSnapshot revisionOf (Some held) (Some floors) = Inr s
      else s = current \<and> (err = None \<longrightarrow> (\<exists>held floors. loaded = Inr (held, floors, sn_revision current))))"
proof (cases loaded)
  case (Inl e)
  then have "ReloadGrants revisionOf loaded current
      = ((sn_revision current, False, Some (''policy reload: '' @ e)), current)"
    by (simp add: ReloadGrants_def)
  then show ?thesis by auto
next
  case (Inr x)
  obtain held floors revision where x: "x = (held, floors, revision)" by (cases x)
  show ?thesis
  proof (cases "revision = sn_revision current \<or> held = None \<or> floors = None")
    case True
    with Inr x show ?thesis by (cases held) (auto simp: ReloadGrants_def buildSnapshot_def)
  next
    case False
    then obtain h f where "held = Some h" "floors = Some f" by auto
    with Inr x False show ?thesis by (auto simp: ReloadGrants_def buildSnapshot_def)
  qed
qed

theorem ReloadGrants_all_or_nothing_witness:
  "fst (ReloadGrants (\<lambda>_ _. ''r2'') (Inr (Some no_grants, Some [], ''r2''))
      \<lparr>sn_roleActions = [], sn_approvalActions = [], sn_floors = [], sn_revision = ''r1''\<rparr>)
     = (''r2'', True, None) \<and>
   (\<exists>inForce changed err s. ReloadGrants (\<lambda>_ _. ''r2'') (Inl ''gone'')
      \<lparr>sn_roleActions = [], sn_approvalActions = [], sn_floors = [], sn_revision = ''r1''\<rparr>
        = ((inForce, changed, err), s) \<and> inForce = ''r1'')"
  using ReloadGrants_all_or_nothing [of "\<lambda>_ _. ''r2''" "Inl ''gone''"
      "\<lparr>sn_roleActions = [], sn_approvalActions = [], sn_floors = [], sn_revision = ''r1''\<rparr>"]
  by (auto simp: ReloadGrants_def buildSnapshot_def)

text \<open>A policy namespace is always a usable identifier: whatever the environment holds, it is not
  empty, made of lower-case letters, digits and dashes, without a leading, trailing or doubled dash.\<close>

theorem namespace_is_identifier:
  "slug (namespace explicit brand) \<and> namespace explicit brand \<noteq> [] \<and> last (namespace explicit brand) \<noteq> dash"
  using identifier_shape defaultNamespace_shape by (simp add: namespace_def)

text \<open>A grant document that names the role L0-SuperAdmin replaces the engine's wildcard for that role
  with the document's list; the wildcard survives exactly when no document names the role.\<close>

theorem superadmin_wildcard_replaced_by_document:
  assumes "buildSnapshot revisionOf (Some h) (Some f) = Inr s" and "wf_map (gr_RoleActions h)"
    and "''*'' \<notin> set (entries (gr_RoleActions h) ''L0-SuperAdmin'')"
  shows "''*'' \<in> set (entries (sn_roleActions s) ''L0-SuperAdmin'') \<longleftrightarrow>
         ''L0-SuperAdmin'' \<notin> set (keys (gr_RoleActions h))"
  using buildSnapshot_entries [OF assms(1,2), of "''L0-SuperAdmin''"] assms(3) by simp

theorem superadmin_wildcard_replaced_by_document_witness:
  "\<exists>s. buildSnapshot (\<lambda>_ _. []) (Some (no_grants\<lparr>gr_RoleActions := [(''L0-SuperAdmin'', [''audit.read''])]\<rparr>))
        (Some []) = Inr s \<and> ''*'' \<notin> set (entries (sn_roleActions s) ''L0-SuperAdmin'')"
proof -
  let ?h = "no_grants\<lparr>gr_RoleActions := [(''L0-SuperAdmin'', [''audit.read''])]\<rparr>"
  obtain s where s: "buildSnapshot (\<lambda>_ _. []) (Some ?h) (Some []) = Inr s"
    by (simp add: buildSnapshot_def)
  have "''*'' \<notin> set (entries (sn_roleActions s) ''L0-SuperAdmin'')"
    using superadmin_wildcard_replaced_by_document [OF s] by simp
  with s show ?thesis by blast
qed

text \<open>What the engine shows is what it decides on. The documents \<open>InForce\<close> renders from a snapshot built
  from documents, loaded again, give a snapshot in which every role holds the same actions, the same actions
  are approval-shaped and the floors are the same.\<close>

theorem InForce_round_trip:
  assumes "buildSnapshot revisionOf (Some h) (Some f) = Inr s" and "wf_map (gr_RoleActions h)"
    and "buildSnapshot revisionOf (Some (fst (InForce s))) (Some (snd (InForce s))) = Inr s'"
  shows "(\<forall>role. set (entries (sn_roleActions s') role) = set (entries (sn_roleActions s) role)) \<and>
         set (sn_approvalActions s') = set (sn_approvalActions s) \<and> sn_floors s' = sn_floors s"
proof -
  note sup = buildSnapshot_names_superadmin [OF assms(1,2)]
  then have wf: "wf_map (gr_RoleActions (fst (InForce s)))" by (simp add: wf_map_def keys_InForce)
  have "set (entries (sn_roleActions s') role) = set (entries (sn_roleActions s) role)" for role
    using buildSnapshot_entries [OF assms(3) wf, of role] sup entries_notin [of role "sn_roleActions s"]
    by (auto simp: keys_InForce entries_InForce split: if_splits)
  moreover have "set (sn_approvalActions s') = set (sn_approvalActions s) \<and> sn_floors s' = sn_floors s"
    using assms(3) by (auto simp: buildSnapshot_def InForce_def)
  ultimately show ?thesis by blast
qed

theorem InForce_round_trip_witness:
  "\<exists>s s'. buildSnapshot (\<lambda>_ _. []) (Some (no_grants\<lparr>gr_RoleActions := [(''r'', [''b'', ''a''])]\<rparr>)) (Some []) = Inr s \<and>
     buildSnapshot (\<lambda>_ _. []) (Some (fst (InForce s))) (Some (snd (InForce s))) = Inr s' \<and>
     set (entries (sn_roleActions s') ''r'') = set (entries (sn_roleActions s) ''r'')"
proof -
  let ?h = "no_grants\<lparr>gr_RoleActions := [(''r'', [''b'', ''a''])]\<rparr>"
  obtain s where s: "buildSnapshot (\<lambda>_ _. []) (Some ?h) (Some []) = Inr s" by (simp add: buildSnapshot_def)
  obtain s' where s': "buildSnapshot (\<lambda>_ _. []) (Some (fst (InForce s))) (Some (snd (InForce s))) = Inr s'"
    by (simp add: buildSnapshot_def)
  have "wf_map (gr_RoleActions ?h)" by simp
  from InForce_round_trip [OF s this s'] s s' show ?thesis by blast
qed

end
