(* ===== verification/Attribute_Floor.thy ===== *)
theory Attribute_Floor
  imports Complex_Main Grants Role_Ladder
begin

text \<open>
  The generic attribute-floor evaluator, \<open>internal/policy/floor.go\<close>. A floor rule's kind is the string the
  document carries, dispatched on as the switch does. Quantities are compared as \<open>float64\<close> values; the
  record \<open>float64\<close> stands for the floating-point operations used (\<open>strconv.ParseFloat\<close>, multiplication,
  comparison and the constants of the factor tables), which the model does not interpret.

  The lemmas characterise when a rule refuses, show that merging further documents never re-admits a refused
  request, and that a rule whose document gives no message refuses nothing.
\<close>

record 'f float64 =
  ParseFloat :: "string \<Rightarrow> 'f option"
  fmul :: "'f \<Rightarrow> 'f \<Rightarrow> 'f"
  fle :: "'f \<Rightarrow> 'f \<Rightarrow> bool"
  fconst :: "rat \<Rightarrow> 'f"

definition floorBinFactor :: "rat gomap" where
  "floorBinFactor = [(''Ki'', 2 ^ 10), (''Mi'', 2 ^ 20), (''Gi'', 2 ^ 30), (''Ti'', 2 ^ 40), (''Pi'', 2 ^ 50)]"

definition floorDecFactor :: "rat gomap" where
  "floorDecFactor = [(''K'', 10 ^ 3), (''M'', 10 ^ 6), (''G'', 10 ^ 9), (''T'', 10 ^ 12), (''P'', 10 ^ 15)]"

definition scaled :: "'f float64 \<Rightarrow> string \<Rightarrow> rat \<Rightarrow> 'f option" where
  "scaled F s f = map_option (\<lambda>n. fmul F n (fconst F f)) (ParseFloat F s)"

definition parseQuantity :: "'f float64 \<Rightarrow> string \<Rightarrow> 'f option" where
  "parseQuantity F s0 =
     (let s = TrimSpace s0; n = length s
      in if s = [] then None
         else if HasSuffix s ''i'' \<and> 3 \<le> n then
           (case map_of floorBinFactor (drop (n - 2) s) of
              Some f \<Rightarrow> scaled F (take (n - 2) s) f
            | None \<Rightarrow> None)
         else if HasSuffix s ''m'' then scaled F (take (n - 1) s) (1 / 1000)
         else (case map_of floorDecFactor (drop (n - 1) s) of
                 Some f \<Rightarrow> scaled F (take (n - 1) s) f
               | None \<Rightarrow> ParseFloat F s))"

text \<open>\<open>None\<close> is the second result false.\<close>

definition quantityLessOrEqual :: "'f float64 \<Rightarrow> string \<Rightarrow> string \<Rightarrow> bool option" where
  "quantityLessOrEqual F a b =
     (case (parseQuantity F a, parseQuantity F b) of
        (Some av, Some bv) \<Rightarrow> Some (fle F av bv)
      | _ \<Rightarrow> None)"

definition floorParamString :: "params \<Rightarrow> string \<Rightarrow> string" where
  "floorParamString p key = (case map_of p key of Some (AStr s) \<Rightarrow> s | _ \<Rightarrow> [])"

definition floorWhenMatches :: "params \<Rightarrow> string \<Rightarrow> string \<Rightarrow> bool" where
  "floorWhenMatches p key want =
     (case map_of p key of
        Some (ABool v) \<Rightarrow> v \<and> want = ''true''
      | Some (AStr v) \<Rightarrow> v = want
      | _ \<Rightarrow> False)"

definition floorParamRawMap :: "params \<Rightarrow> string \<Rightarrow> anyval gomap" where
  "floorParamRawMap p key =
     (case map_of p key of
        Some (AMap m) \<Rightarrow> foldl (\<lambda>out (k, v). gset out k v) [] m
      | Some (AStrMap m) \<Rightarrow> foldl (\<lambda>out (k, v). gset out k (AStr v)) [] m
      | _ \<Rightarrow> [])"

fun floorContains :: "string list \<Rightarrow> string \<Rightarrow> bool" where
  "floorContains [] v = False"
| "floorContains (s # ss) v = (if s = v then True else floorContains ss v)"

fun floorHasPrefix :: "string \<Rightarrow> string list \<Rightarrow> bool" where
  "floorHasPrefix v [] = False"
| "floorHasPrefix v (p # ps) = (if HasPrefix v p then True else floorHasPrefix v ps)"

section \<open>The rule kinds\<close>

definition denyUnlessValueIsListed :: "FloorRule \<Rightarrow> params \<Rightarrow> string" where
  "denyUnlessValueIsListed rule p =
     (if \<not> floorContains (fr_Values rule) (floorParamString p (fr_Param rule)) then fr_Message rule else [])"

definition denyUnlessValueCarriesAnApprovedPrefix :: "FloorRule \<Rightarrow> params \<Rightarrow> string" where
  "denyUnlessValueCarriesAnApprovedPrefix rule p =
     (let v = floorParamString p (fr_Param rule)
      in if v \<noteq> [] \<and> \<not> floorHasPrefix v (fr_Values rule) then fr_Message rule else [])"

definition denyUnlessRequiredPatternIsPresent :: "FloorRule \<Rightarrow> params \<Rightarrow> string" where
  "denyUnlessRequiredPatternIsPresent rule p =
     (let v = floorParamString p (fr_Param rule)
      in if v \<noteq> [] \<and> floorContains (fr_WhenIn rule) (floorParamString p (fr_WhenParam rule)) \<and>
            \<not> Contains v (fr_Pattern rule)
         then fr_Message rule else [])"

definition denyUnlessEntryIsWithinItsCap :: "'f float64 \<Rightarrow> FloorRule \<Rightarrow> string \<Rightarrow> anyval \<Rightarrow> string" where
  "denyUnlessEntryIsWithinItsCap F rule resource raw =
     (case map_of (fr_Caps rule) resource of
        None \<Rightarrow> fr_Message rule @ '' ('' @ resource @ '' has no configured cap)''
      | Some limit \<Rightarrow>
          (case raw of
             AStr want \<Rightarrow>
               (case quantityLessOrEqual F want limit of
                  None \<Rightarrow> fr_Message rule @ '' (unparseable quantity for '' @ resource @ '')''
                | Some withinCap \<Rightarrow>
                    if \<not> withinCap
                    then fr_Message rule @ '' ('' @ resource @ ''='' @ want @ '' exceeds cap '' @ limit @ '')''
                    else [])
           | _ \<Rightarrow> fr_Message rule @ '' (non-string quantity for '' @ resource @ '')''))"

fun cap_walk :: "'f float64 \<Rightarrow> FloorRule \<Rightarrow> anyval gomap \<Rightarrow> string" where
  "cap_walk F rule [] = []"
| "cap_walk F rule ((resource, raw) # es) =
     (let reason = denyUnlessEntryIsWithinItsCap F rule resource raw
      in if reason \<noteq> [] then reason else cap_walk F rule es)"

definition denyUnlessEveryEntryIsWithinItsCap :: "'f float64 \<Rightarrow> FloorRule \<Rightarrow> params \<Rightarrow> string" where
  "denyUnlessEveryEntryIsWithinItsCap F rule p = cap_walk F rule (floorParamRawMap p (fr_Param rule))"

definition denyUnlessCallerHoldsTheRequiredRole :: "RoleLadder \<Rightarrow> FloorRule \<Rightarrow> params \<Rightarrow> Role list \<Rightarrow> string" where
  "denyUnlessCallerHoldsTheRequiredRole ladder rule p roles =
     (if floorWhenMatches p (fr_WhenParam rule) (fr_WhenValue rule) \<and> \<not> holdsAtLeast ladder roles (fr_Role rule)
      then fr_Message rule else [])"

definition evalFloorRule :: "'f float64 \<Rightarrow> RoleLadder \<Rightarrow> FloorRule \<Rightarrow> params \<Rightarrow> Role list \<Rightarrow> string" where
  "evalFloorRule F ladder rule p roles =
     (if fr_Kind rule = ''allowlist'' then denyUnlessValueIsListed rule p
      else if fr_Kind rule = ''prefix_allowlist'' then denyUnlessValueCarriesAnApprovedPrefix rule p
      else if fr_Kind rule = ''required_pattern_when_in'' then denyUnlessRequiredPatternIsPresent rule p
      else if fr_Kind rule = ''capped_map'' then denyUnlessEveryEntryIsWithinItsCap F rule p
      else if fr_Kind rule = ''require_approval_when'' then []
      else if fr_Kind rule = ''required_role_when'' then denyUnlessCallerHoldsTheRequiredRole ladder rule p roles
      else [])"

fun floor_walk :: "'f float64 \<Rightarrow> RoleLadder \<Rightarrow> params \<Rightarrow> Role list \<Rightarrow> FloorRule list \<Rightarrow> string option" where
  "floor_walk F ladder p roles [] = None"
| "floor_walk F ladder p roles (rule # rules) =
     (let reason = evalFloorRule F ladder rule p roles
      in if reason \<noteq> [] then Some reason else floor_walk F ladder p roles rules)"

text \<open>\<open>Some reason\<close> is a denial.\<close>

definition admitFloor :: "'f float64 \<Rightarrow> Floors \<Rightarrow> RoleLadder \<Rightarrow> string \<Rightarrow> params \<Rightarrow> Role list \<Rightarrow> string option" where
  "admitFloor F floors ladder action p roles = floor_walk F ladder p roles (entries floors action)"

section \<open>The approval gate\<close>

fun gate_walk :: "string \<Rightarrow> string \<Rightarrow> params \<Rightarrow> FloorRule list \<Rightarrow> (string \<times> Role list) option" where
  "gate_walk requester subjectID p [] = None"
| "gate_walk requester subjectID p (rule # rules) =
     (if fr_Kind rule \<noteq> ''require_approval_when'' then gate_walk requester subjectID p rules
      else if \<not> floorWhenMatches p (fr_WhenParam rule) (fr_WhenValue rule) then gate_walk requester subjectID p rules
      else if requester \<noteq> [] \<and> requester \<noteq> subjectID then gate_walk requester subjectID p rules
      else Some ((if fr_Message rule = [] then ''this change requires approval by a second person''
                  else fr_Message rule),
                 (if fr_Role rule \<noteq> [] then [fr_Role rule] else [])))"

text \<open>\<open>Some (reason, approvers)\<close> is the first result true.\<close>

definition approvalGate :: "Floors \<Rightarrow> string \<Rightarrow> string \<Rightarrow> string \<Rightarrow> params \<Rightarrow> (string \<times> Role list) option" where
  "approvalGate floors action requester subjectID p = gate_walk requester subjectID p (entries floors action)"

section \<open>When a rule admits\<close>

definition within_cap :: "'f float64 \<Rightarrow> FloorRule \<Rightarrow> string \<Rightarrow> anyval \<Rightarrow> bool" where
  "within_cap F rule resource raw \<longleftrightarrow>
     (\<exists>limit want x y. map_of (fr_Caps rule) resource = Some limit \<and> raw = AStr want \<and>
        parseQuantity F want = Some x \<and> parseQuantity F limit = Some y \<and> fle F x y)"

definition rule_admits :: "'f float64 \<Rightarrow> RoleLadder \<Rightarrow> FloorRule \<Rightarrow> params \<Rightarrow> Role list \<Rightarrow> bool" where
  "rule_admits F ladder rule p roles \<longleftrightarrow>
     (let v = floorParamString p (fr_Param rule)
      in (fr_Kind rule = ''allowlist'' \<longrightarrow> v \<in> set (fr_Values rule)) \<and>
         (fr_Kind rule = ''prefix_allowlist'' \<longrightarrow> v = [] \<or> (\<exists>q\<in>set (fr_Values rule). \<exists>t. v = q @ t)) \<and>
         (fr_Kind rule = ''required_pattern_when_in'' \<longrightarrow>
            v = [] \<or> floorParamString p (fr_WhenParam rule) \<notin> set (fr_WhenIn rule) \<or>
            (\<exists>a b. v = a @ fr_Pattern rule @ b)) \<and>
         (fr_Kind rule = ''capped_map'' \<longrightarrow>
            (\<forall>resource raw. map_of (floorParamRawMap p (fr_Param rule)) resource = Some raw \<longrightarrow>
               within_cap F rule resource raw)) \<and>
         (fr_Kind rule = ''required_role_when'' \<longrightarrow>
            \<not> floorWhenMatches p (fr_WhenParam rule) (fr_WhenValue rule) \<or> holdsAtLeast ladder roles (fr_Role rule)))"

lemma floorContains_iff [simp]: "floorContains xs v \<longleftrightarrow> v \<in> set xs"
  by (induction xs) auto

lemma floorHasPrefix_iff: "floorHasPrefix v ps \<longleftrightarrow> (\<exists>q\<in>set ps. \<exists>t. v = q @ t)"
  by (induction ps) (auto simp: HasPrefix_iff)

lemma wf_copy: "wf_map out \<Longrightarrow> wf_map (foldl (\<lambda>out (k, v). gset out k (f v)) out m)"
  by (induction m arbitrary: out) auto

lemma wf_floorParamRawMap: "wf_map (floorParamRawMap p key)"
  using wf_copy [of "[]" "\<lambda>v :: anyval. v"] wf_copy [of "[]" AStr]
  by (simp add: floorParamRawMap_def split: option.split anyval.split)

lemma entry_reason_empty_iff:
  "denyUnlessEntryIsWithinItsCap F rule resource raw = [] \<longleftrightarrow> within_cap F rule resource raw"
  by (auto simp: denyUnlessEntryIsWithinItsCap_def within_cap_def quantityLessOrEqual_def
      split: option.splits anyval.splits)

lemma cap_walk_empty_iff:
  "cap_walk F rule es = [] \<longleftrightarrow> (\<forall>(resource, raw)\<in>set es. within_cap F rule resource raw)"
proof (induction es)
  case (Cons e es)
  obtain resource raw where e: "e = (resource, raw)" by (cases e)
  with Cons show ?case
    using entry_reason_empty_iff [of F rule resource raw]
    by (cases "within_cap F rule resource raw") (simp_all add: Let_def)
qed simp

lemma capped_map_empty_iff:
  "denyUnlessEveryEntryIsWithinItsCap F rule p = [] \<longleftrightarrow>
     (\<forall>resource raw. map_of (floorParamRawMap p (fr_Param rule)) resource = Some raw \<longrightarrow>
        within_cap F rule resource raw)"
  unfolding denyUnlessEveryEntryIsWithinItsCap_def cap_walk_empty_iff
  using wf_floorParamRawMap [of p "fr_Param rule"] by (fastforce dest: map_of_member member_map_of)

lemma evalFloorRule_empty_iff:
  assumes "fr_Message rule \<noteq> []"
  shows "evalFloorRule F ladder rule p roles = [] \<longleftrightarrow> rule_admits F ladder rule p roles"
proof -
  consider "fr_Kind rule = ''allowlist''" | "fr_Kind rule = ''prefix_allowlist''"
    | "fr_Kind rule = ''required_pattern_when_in''" | "fr_Kind rule = ''capped_map''"
    | "fr_Kind rule = ''required_role_when''"
    | "fr_Kind rule \<notin> {''allowlist'', ''prefix_allowlist'', ''required_pattern_when_in'', ''capped_map'',
        ''required_role_when''}"
    by auto
  then show ?thesis
  proof cases
    case 1
    with assms show ?thesis
      by (simp add: evalFloorRule_def rule_admits_def denyUnlessValueIsListed_def)
  next
    case 2
    with assms show ?thesis
      by (simp add: evalFloorRule_def rule_admits_def denyUnlessValueCarriesAnApprovedPrefix_def
          floorHasPrefix_iff Let_def)
  next
    case 3
    with assms show ?thesis
      by (simp add: evalFloorRule_def rule_admits_def denyUnlessRequiredPatternIsPresent_def
          Contains_iff Let_def)
  next
    case 4
    then show ?thesis by (simp add: evalFloorRule_def rule_admits_def capped_map_empty_iff)
  next
    case 5
    with assms show ?thesis
      by (simp add: evalFloorRule_def rule_admits_def denyUnlessCallerHoldsTheRequiredRole_def)
  next
    case 6
    then show ?thesis by (simp add: evalFloorRule_def rule_admits_def)
  qed
qed

lemma floor_walk_None:
  "floor_walk F ladder p roles rules = None \<longleftrightarrow> (\<forall>rule\<in>set rules. evalFloorRule F ladder rule p roles = [])"
  by (induction rules) (auto simp: Let_def)

lemma floor_walk_append:
  "floor_walk F ladder p roles (xs @ ys) =
     (case floor_walk F ladder p roles xs of Some r \<Rightarrow> Some r | None \<Rightarrow> floor_walk F ladder p roles ys)"
  by (induction xs) (auto simp: Let_def)

lemma gate_walk_append:
  "gate_walk q sid p (xs @ ys) = (case gate_walk q sid p xs of Some r \<Rightarrow> Some r | None \<Rightarrow> gate_walk q sid p ys)"
  by (induction xs) auto

lemma gate_walk_None:
  "gate_walk requester subjectID p rules = None \<longleftrightarrow>
     requester \<noteq> [] \<and> requester \<noteq> subjectID \<or>
     (\<forall>rule\<in>set rules. fr_Kind rule = ''require_approval_when'' \<longrightarrow>
        \<not> floorWhenMatches p (fr_WhenParam rule) (fr_WhenValue rule))"
  by (induction rules) auto

lemma gate_walk_reason: "gate_walk requester subjectID p rules = Some (reason, approvers) \<Longrightarrow> reason \<noteq> []"
  by (induction rules) (auto split: if_splits)

section \<open>Properties\<close>

text \<open>The attribute floor refuses exactly the requests that break one of the action's rules, for rules
  that carry a message: allowlists fail closed on a missing value, prefixes and patterns constrain a supplied
  value, every entry of a capped map must be capped, a string, parseable and within its cap (whatever order the
  map is visited in), and a role condition asks the deployment's ladder. Unknown kinds refuse nothing.\<close>

theorem admitFloor_exact:
  assumes "\<forall>rule\<in>set (entries floors action). fr_Message rule \<noteq> []"
  shows "admitFloor F floors ladder action p roles = None \<longleftrightarrow>
    (\<forall>rule\<in>set (entries floors action). rule_admits F ladder rule p roles)"
  using assms by (simp add: admitFloor_def floor_walk_None evalFloorRule_empty_iff)

definition sample_rule :: "string \<Rightarrow> FloorRule" where
  "sample_rule message = \<lparr>fr_Kind = ''allowlist'', fr_Param = ''cluster'', fr_Values = [''eu-1''], fr_Caps = [],
     fr_WhenParam = [], fr_WhenIn = [], fr_WhenValue = [], fr_Pattern = [], fr_Role = [], fr_Message = message\<rparr>"

definition nat_floats :: "nat float64" where
  "nat_floats = \<lparr>ParseFloat = (\<lambda>s. Some (length s)), fmul = (*), fle = (\<le>), fconst = (\<lambda>q. nat \<lfloor>q\<rfloor>)\<rparr>"

theorem admitFloor_exact_witness:
  "admitFloor nat_floats [(''deploy'', [sample_rule ''unknown cluster''])] DefaultRoleLadder ''deploy''
     [(''cluster'', AStr ''us-9'')] [] \<noteq> None"
proof -
  have m: "\<forall>rule\<in>set (entries [(''deploy'', [sample_rule ''unknown cluster''])] ''deploy''). fr_Message rule \<noteq> []"
    by (simp add: sample_rule_def)
  show ?thesis
    using admitFloor_exact [OF m, of nat_floats DefaultRoleLadder "[(''cluster'', AStr ''us-9'')]" "[]"]
    by (simp add: rule_admits_def sample_rule_def floorParamString_def)
qed

text \<open>Layering floors can only tighten. When the platform and product documents are appended to a
  baseline floor, a request the baseline refuses is refused with the same reason, and a request the baseline
  sends to a second person is still sent there with the same words and approvers.\<close>

theorem LoadFloors_never_loosens:
  assumes "LoadFloors (Inr base) plat docs = Inr floors"
  shows "(\<forall>reason. admitFloor F base ladder action p roles = Some reason \<longrightarrow>
             admitFloor F floors ladder action p roles = Some reason) \<and>
         (\<forall>r. approvalGate base action requester subjectID p = Some r \<longrightarrow>
             approvalGate floors action requester subjectID p = Some r)"
proof -
  obtain ext where "entries floors action = entries base action @ ext"
    using LoadFloors_extends [OF assms] by blast
  then show ?thesis
    by (simp add: admitFloor_def approvalGate_def floor_walk_append gate_walk_append)
qed

theorem LoadFloors_never_loosens_witness:
  "admitFloor nat_floats [(''deploy'', [sample_rule ''unknown cluster'', sample_rule ''later'']), (''x'', [])]
     DefaultRoleLadder ''deploy'' [] [] = Some ''unknown cluster''"
proof -
  have l: "LoadFloors (Inr [(''deploy'', [sample_rule ''unknown cluster''])])
      (Inr (Some (sample_platform\<lparr>pd_Floors := [(''deploy'', [sample_rule ''later'']), (''x'', [])]\<rparr>))) (Inr [])
    = Inr [(''deploy'', [sample_rule ''unknown cluster'', sample_rule ''later'']), (''x'', [])]"
    by (simp add: LoadFloors_def appendLayeredFloors_def mergeFloors_def)
  have "admitFloor nat_floats [(''deploy'', [sample_rule ''unknown cluster''])] DefaultRoleLadder ''deploy'' [] []
      = Some ''unknown cluster''"
    by (simp add: admitFloor_def evalFloorRule_def denyUnlessValueIsListed_def sample_rule_def
        floorParamString_def Let_def)
  then show ?thesis
    using LoadFloors_never_loosens [OF l, of nat_floats DefaultRoleLadder "''deploy''" "[]" "[]"] by blast
qed

text \<open>A floor rule whose document gives no message refuses nothing, unless it is a capped map: the
  evaluator reports a refusal by returning the message, and the empty message reads as satisfied. The field is
  optional in the document, so an allowlist written without a message admits every value.\<close>

theorem rule_without_message_fails_open:
  assumes "fr_Message rule = []" and "fr_Kind rule \<noteq> ''capped_map''"
  shows "evalFloorRule F ladder rule p roles = []"
  using assms
  by (simp add: evalFloorRule_def denyUnlessValueIsListed_def denyUnlessValueCarriesAnApprovedPrefix_def
      denyUnlessRequiredPatternIsPresent_def denyUnlessCallerHoldsTheRequiredRole_def Let_def)

theorem rule_without_message_fails_open_witness:
  "evalFloorRule nat_floats DefaultRoleLadder (sample_rule []) [(''cluster'', AStr ''us-9'')] [] = [] \<and>
   \<not> rule_admits nat_floats DefaultRoleLadder (sample_rule []) [(''cluster'', AStr ''us-9'')] []"
  using rule_without_message_fails_open [of "sample_rule []" nat_floats DefaultRoleLadder]
  by (simp add: sample_rule_def rule_admits_def floorParamString_def)

end
