(* ===== verification/Rbac.thy ===== *)
theory Rbac
  imports Layers Live_Policy Attribute_Floor
begin

text \<open>
  The policy engine: \<open>rbac.go\<close>, \<open>precedence.go\<close>, \<open>order.go\<close> and \<open>provider.go\<close> of \<open>internal/policy\<close>. The
  engine's own state is the record \<open>RBAC\<close>; what it reads from the process (the policy snapshot in force, the
  policy namespace, floating-point arithmetic) is the record \<open>engine_env\<close>. \<open>Evaluate\<close> returns the decision and
  the engine, whose scope cache it may have filled. A set of actions (\<open>map[string]bool\<close> with true values) is
  the list of its keys. A registered product adapter is a value of the record \<open>PolicyProvider\<close>: its code is
  outside the repository, so its answers are arbitrary.
\<close>

record PolicyProvider =
  pp_Name :: string
  pp_Actions :: "string list"
  pp_RoleActions :: "string list gomap"
  pp_Admit :: "PolicyIntent \<Rightarrow> Role list \<Rightarrow> string option" \<comment> \<open>\<open>Some reason\<close>: denied\<close>

record RBAC =
  rb_dyn :: "ActionAuthorizer option"
  rb_scopes :: "ScopeResolver option"
  rb_providers :: "PolicyProvider list"
  rb_byAction :: "PolicyProvider gomap"
  rb_providerRoleActions :: "string list gomap"
  rb_ladder :: RoleLadder

record 'f engine_env =
  env_floats :: "'f float64"
  env_namespace :: string
  env_policy :: grantsSnapshot

section \<open>Construction\<close>

text \<open>A nil ladder and an empty one are both the empty list: \<open>WithRoleLadder\<close> never installs an empty one.\<close>

definition NewRBAC :: RBAC where
  "NewRBAC = \<lparr>rb_dyn = None, rb_scopes = None, rb_providers = [], rb_byAction = [],
     rb_providerRoleActions = [], rb_ladder = DefaultRoleLadder\<rparr>"

definition rankLadder :: "RBAC \<Rightarrow> RoleLadder" where
  "rankLadder r = (if rb_ladder r = [] then DefaultRoleLadder else rb_ladder r)"

definition WithRoleLadder :: "RBAC \<Rightarrow> RoleLadder \<Rightarrow> RBAC" where
  "WithRoleLadder r l = (if 0 < length l then r\<lparr>rb_ladder := l\<rparr> else r)"

definition WithDynamic :: "RBAC \<Rightarrow> ActionAuthorizer option \<Rightarrow> RBAC" where
  "WithDynamic r a = r\<lparr>rb_dyn := a\<rparr>"

definition WithScopes :: "RBAC \<Rightarrow> ScopeResolver option \<Rightarrow> RBAC" where
  "WithScopes r sr = r\<lparr>rb_scopes := sr\<rparr>"

definition WithResolved :: "RBAC \<Rightarrow> Resolved \<Rightarrow> RBAC" where
  "WithResolved r res = r\<lparr>rb_dyn := Some (RequiredRole res)\<rparr>"

definition WithLive :: "RBAC \<Rightarrow> ActionAuthorizer option \<Rightarrow> RBAC" where
  "WithLive r l = r\<lparr>rb_dyn := l\<rparr>"

definition indexProviderActions :: "RBAC \<Rightarrow> PolicyProvider \<Rightarrow> RBAC" where
  "indexProviderActions r p = r\<lparr>rb_byAction := foldl (\<lambda>m a. gset m a p) (rb_byAction r) (pp_Actions p)\<rparr>"

definition foldInProviderRoleActions :: "RBAC \<Rightarrow> PolicyProvider \<Rightarrow> RBAC" where
  "foldInProviderRoleActions r p =
     r\<lparr>rb_providerRoleActions :=
         foldl (\<lambda>m (role, acts). gset m role (entries m role @ acts)) (rb_providerRoleActions r) (pp_RoleActions p)\<rparr>"

text \<open>A nil provider is \<open>None\<close>.\<close>

fun WithProviders :: "RBAC \<Rightarrow> PolicyProvider option list \<Rightarrow> RBAC" where
  "WithProviders r [] = r"
| "WithProviders r (None # ps) = WithProviders r ps"
| "WithProviders r (Some p # ps) =
     WithProviders (foldInProviderRoleActions
       (indexProviderActions (r\<lparr>rb_providers := rb_providers r @ [p]\<rparr>) p) p) ps"

definition KnownActions :: "grantsSnapshot \<Rightarrow> string list" where
  "KnownActions s = sortedKeys (filter (\<lambda>a. a \<noteq> ''*'') (concat (map snd (sn_roleActions s))))"

section \<open>Evaluation\<close>

definition authorizerFor :: "RBAC \<Rightarrow> PolicyInput \<Rightarrow> ActionAuthorizer option \<times> RBAC" where
  "authorizerFor r i =
     (case rb_scopes r of
        Some sr \<Rightarrow>
          if pint_Scope (pin_Intent i) \<noteq> [] \<and> Has sr (pint_Scope (pin_Intent i))
          then (let (res, sr') = For sr (pint_Scope (pin_Intent i))
                in (Some (RequiredRole res), r\<lparr>rb_scopes := Some sr'\<rparr>))
          else (rb_dyn r, r)
      | None \<Rightarrow> (rb_dyn r, r))"

fun grantedByDocument :: "grantsSnapshot \<Rightarrow> RBAC \<Rightarrow> string list \<Rightarrow> string \<Rightarrow> bool" where
  "grantedByDocument s r [] action = False"
| "grantedByDocument s r (role # roles) action =
     (let granted = entries (sn_roleActions s) role
      in if ''*'' \<in> set granted \<or> action \<in> set granted then True
         else if action \<in> set (entries (rb_providerRoleActions r) role) then True
         else grantedByDocument s r roles action)"

definition actionAllowed :: "grantsSnapshot \<Rightarrow> RBAC \<Rightarrow> string list \<Rightarrow> string \<Rightarrow> ActionAuthorizer option \<Rightarrow> bool" where
  "actionAllowed s r roles action dyn =
     (case (case dyn of Some a \<Rightarrow> a action | None \<Rightarrow> None) of
        Some need \<Rightarrow> holdsAtLeast (rankLadder r) roles need
      | None \<Rightarrow> grantedByDocument s r roles action)"

definition deny :: "string \<Rightarrow> DenialCategory \<Rightarrow> string \<Rightarrow> string \<Rightarrow> Decision" where
  "deny ns category step reason =
     (mk_Decision ActionDeny reason)\<lparr>dec_Category := category, dec_Step := step,
        dec_PolicyID := policyID ns ''rbac'', dec_Warnings := [reason]\<rparr>"

definition allow :: "string \<Rightarrow> Decision" where
  "allow ns = (mk_Decision ActionAllow [])\<lparr>dec_PolicyID := policyID ns ''rbac''\<rparr>"

definition Evaluate :: "'f engine_env \<Rightarrow> RBAC \<Rightarrow> PolicyInput \<Rightarrow> Decision \<times> RBAC" where
  "Evaluate env r0 i =
     (let ns = env_namespace env; snap = env_policy env;
          roles = psub_Roles (pin_Subject i); subjectID = psub_ID (pin_Subject i);
          action = pint_Action (pin_Intent i); requester = pint_Requester (pin_Intent i);
          p = pint_Params (pin_Intent i)
      in if pint_Goal (pin_Intent i) = []
         then (deny ns DenialValidation StepGoalStated ''intent_spec.goal is required'', r0)
         else if psub_IsAI (pin_Subject i) \<and> action \<in> set (sn_approvalActions snap)
         then (deny ns DenialSeparationOfDuties StepAINotApproving (''AI agents cannot approve: '' @ action), r0)
         else (let (dyn, r) = authorizerFor r0 i
               in if \<not> actionAllowed snap r roles action dyn
                  then (deny ns DenialActionNotAllowed StepRolePermits (''no role permits action '' @ action), r)
                  else if requester \<noteq> [] \<and> requester = subjectID
                  then (deny ns DenialSeparationOfDuties StepSeparationOfDuties
                          ''separation of duties: the approver cannot be the requester'', r)
                  else (case (case map_of (rb_byAction r) action of
                                Some pr \<Rightarrow> pp_Admit pr (pin_Intent i) roles | None \<Rightarrow> None) of
                          Some reason \<Rightarrow> (deny ns DenialFloor StepProductAdmits reason, r)
                        | None \<Rightarrow>
                            (case admitFloor (env_floats env) (sn_floors snap) (rankLadder r) action p roles of
                               Some reason \<Rightarrow> (deny ns DenialFloor StepAttributeFloor reason, r)
                             | None \<Rightarrow>
                                 (case approvalGate (sn_floors snap) action requester subjectID p of
                                    Some (reason, approvers) \<Rightarrow>
                                      ((mk_Decision ActionRequireApproval reason)
                                         \<lparr>dec_RequiredApprovers := approvers, dec_Step := StepApprovalGate,
                                          dec_PolicyID := policyID ns ''rbac''\<rparr>, r)
                                  | None \<Rightarrow> (allow ns, r))))))"

record StepAuth =
  sa_Subject :: PolicySubject
  sa_Action :: string
  sa_Step :: string
  sa_RunAs :: Role
  sa_Author :: string
  sa_RequireApproval :: bool

definition EvaluateStep :: "string \<Rightarrow> RBAC \<Rightarrow> StepAuth \<Rightarrow> Decision" where
  "EvaluateStep ns r i =
     (let roles = psub_Roles (sa_Subject i); st = sa_Step i
      in if sa_RunAs i \<noteq> [] \<and> \<not> holdsAtLeast (rankLadder r) roles (sa_RunAs i)
         then deny ns DenialActionNotAllowed StepRolePermits
                (''step '' @ st @ '': no role permits it (requires '' @ sa_RunAs i @ '')'')
         else if sa_RequireApproval i \<and> psub_IsAI (sa_Subject i)
         then deny ns DenialSeparationOfDuties StepAINotApproving
                (''step '' @ st @ '': AI agents cannot satisfy separation of duties'')
         else if sa_RequireApproval i \<and> sa_Author i \<noteq> [] \<and> sa_Author i = psub_ID (sa_Subject i)
         then deny ns DenialSeparationOfDuties StepSeparationOfDuties
                (''separation of duties: the author of step '' @ st @ '' cannot trigger it'')
         else allow ns)"

definition HoldsAtLeast :: "Role list \<Rightarrow> Role \<Rightarrow> bool" where
  "HoldsAtLeast roles need = holdsAtLeast DefaultRoleLadder roles need"

definition EvaluationOrder :: "EvaluationStep list" where
  "EvaluationOrder =
     [\<lparr>es_Name = StepGoalStated, es_Outcome = ActionDeny, es_Source = SourceEngine\<rparr>,
      \<lparr>es_Name = StepAINotApproving, es_Outcome = ActionDeny, es_Source = SourceEngine\<rparr>,
      \<lparr>es_Name = StepRolePermits, es_Outcome = ActionDeny, es_Source = SourcePolicy\<rparr>,
      \<lparr>es_Name = StepSeparationOfDuties, es_Outcome = ActionDeny, es_Source = SourceEngine\<rparr>,
      \<lparr>es_Name = StepProductAdmits, es_Outcome = ActionDeny, es_Source = SourcePolicy\<rparr>,
      \<lparr>es_Name = StepAttributeFloor, es_Outcome = ActionDeny, es_Source = SourcePolicy\<rparr>,
      \<lparr>es_Name = StepApprovalGate, es_Outcome = ActionRequireApproval, es_Source = SourcePolicy\<rparr>]"

section \<open>The grant of a role\<close>

definition document_grants :: "grantsSnapshot \<Rightarrow> RBAC \<Rightarrow> Role \<Rightarrow> string \<Rightarrow> bool" where
  "document_grants s r role action \<longleftrightarrow>
     ''*'' \<in> set (entries (sn_roleActions s) role) \<or> action \<in> set (entries (sn_roleActions s) role) \<or>
     action \<in> set (entries (rb_providerRoleActions r) role)"

definition required_role :: "RBAC \<Rightarrow> PolicyIntent \<Rightarrow> Role option" where
  "required_role r intent =
     (case rb_scopes r of
        Some sr \<Rightarrow>
          if pint_Scope intent \<noteq> [] \<and> Has sr (pint_Scope intent)
          then RequiredRole (resolve_scope sr (pint_Scope intent)) (pint_Action intent)
          else (case rb_dyn r of Some a \<Rightarrow> a (pint_Action intent) | None \<Rightarrow> None)
      | None \<Rightarrow> (case rb_dyn r of Some a \<Rightarrow> a (pint_Action intent) | None \<Rightarrow> None))"

definition role_permits :: "grantsSnapshot \<Rightarrow> RBAC \<Rightarrow> PolicyInput \<Rightarrow> bool" where
  "role_permits s r i \<longleftrightarrow>
     (case required_role r (pin_Intent i) of
        Some need \<Rightarrow> holdsAtLeast (rankLadder r) (psub_Roles (pin_Subject i)) need
      | None \<Rightarrow> \<exists>role\<in>set (psub_Roles (pin_Subject i)). document_grants s r role (pint_Action (pin_Intent i)))"

definition coherent_engine :: "RBAC \<Rightarrow> bool" where
  "coherent_engine r \<longleftrightarrow> (\<forall>sr. rb_scopes r = Some sr \<longrightarrow> coherent sr)"

lemma required_role_Requester [simp]:
  "required_role r (intent\<lparr>pint_Requester := q\<rparr>) = required_role r intent"
  by (simp add: required_role_def cong: option.case_cong if_cong)

lemma grantedByDocument_iff:
  "grantedByDocument s r roles action \<longleftrightarrow> (\<exists>role\<in>set roles. document_grants s r role action)"
  by (induction roles) (auto simp: document_grants_def Let_def)

lemma authorizerFor_frame:
  "authorizerFor r i = (dyn, r') \<Longrightarrow>
     rb_dyn r' = rb_dyn r \<and> rb_byAction r' = rb_byAction r \<and> rb_providers r' = rb_providers r \<and>
     rb_providerRoleActions r' = rb_providerRoleActions r \<and> rb_ladder r' = rb_ladder r"
  by (auto simp: authorizerFor_def Let_def split: option.splits if_splits prod.splits)

lemma authorizerFor_cases:
  obtains (scoped) sr where "rb_scopes r = Some sr" "pint_Scope (pin_Intent i) \<noteq> []" "Has sr (pint_Scope (pin_Intent i))"
      "authorizerFor r i = (Some (RequiredRole (fst (For sr (pint_Scope (pin_Intent i))))),
         r\<lparr>rb_scopes := Some (snd (For sr (pint_Scope (pin_Intent i))))\<rparr>)"
      "required_role r (pin_Intent i)
         = RequiredRole (resolve_scope sr (pint_Scope (pin_Intent i))) (pint_Action (pin_Intent i))"
  | (global) "authorizerFor r i = (rb_dyn r, r)"
      "required_role r (pin_Intent i)
         = (case rb_dyn r of Some a \<Rightarrow> a (pint_Action (pin_Intent i)) | None \<Rightarrow> None)"
proof (cases "\<exists>sr. rb_scopes r = Some sr \<and> pint_Scope (pin_Intent i) \<noteq> [] \<and> Has sr (pint_Scope (pin_Intent i))")
  case True
  then obtain sr where sr: "rb_scopes r = Some sr" "pint_Scope (pin_Intent i) \<noteq> []"
    "Has sr (pint_Scope (pin_Intent i))" by blast
  show ?thesis by (rule scoped [OF sr]) (simp_all add: authorizerFor_def required_role_def sr split_beta)
next
  case False
  then show ?thesis
    by (intro global) (auto simp: authorizerFor_def required_role_def split: option.split)
qed

lemma authorizerFor_required:
  assumes "coherent_engine r" and "authorizerFor r i = (dyn, r')"
  shows "(case dyn of Some a \<Rightarrow> a (pint_Action (pin_Intent i)) | None \<Rightarrow> None) = required_role r (pin_Intent i)"
proof (cases rule: authorizerFor_cases [of r i])
  case (scoped sr)
  then show ?thesis using assms by (auto simp: coherent_engine_def For_value)
next
  case global
  then show ?thesis using assms by simp
qed

lemma authorizerFor_coherent:
  assumes "coherent_engine r" and "authorizerFor r i = (dyn, r')"
  shows "coherent_engine r'"
proof (cases rule: authorizerFor_cases [of r i])
  case (scoped sr)
  then show ?thesis using assms by (auto simp: coherent_engine_def coherent_For)
next
  case global
  then show ?thesis using assms by simp
qed

lemma frame_grants:
  "rb_providerRoleActions r' = rb_providerRoleActions r \<Longrightarrow> document_grants s r' role a = document_grants s r role a"
  by (simp add: document_grants_def)

lemma rankLadder_frame: "rb_ladder r' = rb_ladder r \<Longrightarrow> rankLadder r' = rankLadder r"
  by (simp add: rankLadder_def)

lemma actionAllowed_after_authorizerFor:
  assumes "coherent_engine r" and "authorizerFor r i = (dyn, r')"
  shows "actionAllowed s r' (psub_Roles (pin_Subject i)) (pint_Action (pin_Intent i)) dyn = role_permits s r i"
proof -
  note fr = authorizerFor_frame [OF assms(2)]
  show ?thesis
    unfolding actionAllowed_def authorizerFor_required [OF assms] role_permits_def grantedByDocument_iff
    using fr rankLadder_frame [of r' r] frame_grants [of r' r s] by (simp split: option.split)
qed

section \<open>The stages\<close>

text \<open>\<open>objects env r i name\<close>: the stage of that published name refuses the input.\<close>

definition objects :: "'f engine_env \<Rightarrow> RBAC \<Rightarrow> PolicyInput \<Rightarrow> string \<Rightarrow> bool" where
  "objects env r i name \<longleftrightarrow>
     (let snap = env_policy env; subj = pin_Subject i; intent = pin_Intent i
      in (name = StepGoalStated \<and> pint_Goal intent = []) \<or>
         (name = StepAINotApproving \<and> psub_IsAI subj \<and> pint_Action intent \<in> set (sn_approvalActions snap)) \<or>
         (name = StepRolePermits \<and> \<not> role_permits snap r i) \<or>
         (name = StepSeparationOfDuties \<and> pint_Requester intent \<noteq> [] \<and> pint_Requester intent = psub_ID subj) \<or>
         (name = StepProductAdmits \<and>
            (\<exists>pr. map_of (rb_byAction r) (pint_Action intent) = Some pr \<and> pp_Admit pr intent (psub_Roles subj) \<noteq> None)) \<or>
         (name = StepAttributeFloor \<and>
            admitFloor (env_floats env) (sn_floors snap) (rankLadder r) (pint_Action intent) (pint_Params intent)
              (psub_Roles subj) \<noteq> None) \<or>
         (name = StepApprovalGate \<and>
            approvalGate (sn_floors snap) (pint_Action intent) (pint_Requester intent) (psub_ID subj)
              (pint_Params intent) \<noteq> None))"

lemma step_names_distinct:
  "distinct [StepGoalStated, StepAINotApproving, StepRolePermits, StepSeparationOfDuties, StepProductAdmits,
     StepAttributeFloor, StepApprovalGate]"
  by (simp add: step_name_defs)

lemma objects_simps:
  "objects env r i StepGoalStated \<longleftrightarrow> pint_Goal (pin_Intent i) = []"
  "objects env r i StepAINotApproving \<longleftrightarrow>
     psub_IsAI (pin_Subject i) \<and> pint_Action (pin_Intent i) \<in> set (sn_approvalActions (env_policy env))"
  "objects env r i StepRolePermits \<longleftrightarrow> \<not> role_permits (env_policy env) r i"
  "objects env r i StepSeparationOfDuties \<longleftrightarrow>
     pint_Requester (pin_Intent i) \<noteq> [] \<and> pint_Requester (pin_Intent i) = psub_ID (pin_Subject i)"
  "objects env r i StepProductAdmits \<longleftrightarrow>
     (\<exists>pr. map_of (rb_byAction r) (pint_Action (pin_Intent i)) = Some pr \<and>
           pp_Admit pr (pin_Intent i) (psub_Roles (pin_Subject i)) \<noteq> None)"
  "objects env r i StepAttributeFloor \<longleftrightarrow>
     admitFloor (env_floats env) (sn_floors (env_policy env)) (rankLadder r) (pint_Action (pin_Intent i))
       (pint_Params (pin_Intent i)) (psub_Roles (pin_Subject i)) \<noteq> None"
  "objects env r i StepApprovalGate \<longleftrightarrow>
     approvalGate (sn_floors (env_policy env)) (pint_Action (pin_Intent i)) (pint_Requester (pin_Intent i))
       (psub_ID (pin_Subject i)) (pint_Params (pin_Intent i)) \<noteq> None"
  using step_names_distinct by (auto simp: objects_def Let_def)

text \<open>The action and the step of a decision, read off the stages: the form every property below uses.\<close>

definition first_objection :: "'f engine_env \<Rightarrow> RBAC \<Rightarrow> PolicyInput \<Rightarrow> EvaluationStep option" where
  "first_objection env r i = find (\<lambda>st. objects env r i (es_Name st)) EvaluationOrder"

lemma deny_fields [simp]:
  "dec_Action (deny ns c st reason) = ActionDeny" "dec_Step (deny ns c st reason) = st"
  "dec_Category (deny ns c st reason) = c" "dec_PolicyID (deny ns c st reason) = policyID ns ''rbac''"
  "dec_Reason (deny ns c st reason) = reason"
  by (simp_all add: deny_def mk_Decision_def)

lemma allow_fields [simp]:
  "dec_Action (allow ns) = ActionAllow" "dec_Step (allow ns) = []" "dec_PolicyID (allow ns) = policyID ns ''rbac''"
  "dec_Category (allow ns) = DenialNone"
  by (simp_all add: allow_def mk_Decision_def)

lemma Evaluate_frame:
  assumes "coherent_engine r"
  shows "coherent_engine (snd (Evaluate env r i)) \<and> rb_dyn (snd (Evaluate env r i)) = rb_dyn r \<and>
    rb_ladder (snd (Evaluate env r i)) = rb_ladder r \<and> rb_byAction (snd (Evaluate env r i)) = rb_byAction r \<and>
    rb_providerRoleActions (snd (Evaluate env r i)) = rb_providerRoleActions r"
proof -
  obtain dyn r' where a: "authorizerFor r i = (dyn, r')" by fastforce
  have "snd (Evaluate env r i) = r \<or> snd (Evaluate env r i) = r'"
    by (simp add: Evaluate_def Let_def a split: option.split)
  then show ?thesis
    using authorizerFor_frame [OF a] authorizerFor_coherent [OF assms a] assms by auto
qed

lemma Evaluate_first_objection:
  assumes "coherent_engine r"
  shows "case first_objection env r i of
      None \<Rightarrow> fst (Evaluate env r i) = allow (env_namespace env)
    | Some st \<Rightarrow> dec_Action (fst (Evaluate env r i)) = es_Outcome st \<and>
                 dec_Step (fst (Evaluate env r i)) = es_Name st"
proof -
  obtain dyn r' where a: "authorizerFor r i = (dyn, r')" by fastforce
  note fr = authorizerFor_frame [OF a]
  have ladder: "rankLadder r' = rankLadder r" using fr rankLadder_frame by blast
  have by_action: "rb_byAction r' = rb_byAction r" using fr by blast
  define adm where "adm = (case map_of (rb_byAction r) (pint_Action (pin_Intent i)) of
      Some pr \<Rightarrow> pp_Admit pr (pin_Intent i) (psub_Roles (pin_Subject i)) | None \<Rightarrow> None)"
  have adm: "objects env r i StepProductAdmits \<longleftrightarrow> adm \<noteq> None"
    by (simp add: objects_simps adm_def split: option.split)
  define fl where "fl = admitFloor (env_floats env) (sn_floors (env_policy env)) (rankLadder r)
      (pint_Action (pin_Intent i)) (pint_Params (pin_Intent i)) (psub_Roles (pin_Subject i))"
  define gate where "gate = approvalGate (sn_floors (env_policy env)) (pint_Action (pin_Intent i))
      (pint_Requester (pin_Intent i)) (psub_ID (pin_Subject i)) (pint_Params (pin_Intent i))"
  show ?thesis
    unfolding first_objection_def EvaluationOrder_def Evaluate_def Let_def a split
      actionAllowed_after_authorizerFor [OF assms a] ladder by_action adm_def [symmetric] fl_def [symmetric]
      gate_def [symmetric]
    by (cases adm; cases fl; cases gate)
      (simp_all add: objects_simps(1-4,6,7) adm fl_def [symmetric] gate_def [symmetric] mk_Decision_def split_beta)
qed

section \<open>Running the engine\<close>

text \<open>
  What happens to an engine in service: it evaluates inputs, a scope's layer is set, the grant and floor
  documents are swapped, the layer cascade is hot reloaded. \<open>pre\<close> are the layers IT owns, which every reload
  keeps in front of the layers of teams.
\<close>

inductive engine_step :: "RoleLadder \<Rightarrow> Layer list \<Rightarrow> 'f engine_env \<times> RBAC \<Rightarrow> 'f engine_env \<times> RBAC \<Rightarrow> bool"
  for ladder pre where
  evaluated: "engine_step ladder pre (env, r) (env, snd (Evaluate env r i))"
| scope_set: "rb_scopes r = Some sr \<Longrightarrow>
    engine_step ladder pre (env, r) (env, r\<lparr>rb_scopes := Some (SetScope sr key l)\<rparr>)"
| documents_reloaded: "engine_step ladder pre (env, r) (env\<lparr>env_policy := s\<rparr>, r)"
| layers_reloaded: "wat_ladder w = ladder \<Longrightarrow>
    engine_step ladder pre (env, r)
      (env, WithLive r (Some (live_RequiredRole (rebuild w (pre @ post)))))"

inductive_cases engine_stepE: "engine_step ladder pre (env, r) (env', r')"

definition floor_engine :: "RoleLadder \<Rightarrow> Layer list \<Rightarrow> RBAC \<Rightarrow> bool" where
  "floor_engine ladder pre r \<longleftrightarrow> coherent_engine r \<and> rankLadder r = effective_ladder ladder \<and>
     (\<exists>w post. wat_ladder w = ladder \<and> rb_dyn r = Some (live_RequiredRole (rebuild w (pre @ post)))) \<and>
     (\<forall>sr. rb_scopes r = Some sr \<longrightarrow> sr_ladder sr = ladder \<and> (\<exists>team. sr_base sr = pre @ team))"

lemma SetScope_frame:
  "sr_ladder (SetScope p key l) = sr_ladder p" "sr_base (SetScope p key l) = sr_base p"
  by (simp_all add: SetScope_def)

lemma Evaluate_scopes:
  "(\<exists>sr scope. rb_scopes r = Some sr \<and> rb_scopes (snd (Evaluate env r i)) = Some (snd (For sr scope))) \<or>
   rb_scopes (snd (Evaluate env r i)) = rb_scopes r"
proof -
  obtain dyn r' where a: "authorizerFor r i = (dyn, r')" by fastforce
  have "snd (Evaluate env r i) = r \<or> snd (Evaluate env r i) = r'"
    by (simp add: Evaluate_def Let_def a split: option.split)
  then show ?thesis
    using a
  proof (cases rule: authorizerFor_cases [of r i])
    case (scoped sr)
    then have "rb_scopes r' = Some (snd (For sr (pint_Scope (pin_Intent i))))" using a by auto
    then show ?thesis
      using \<open>snd (Evaluate env r i) = r \<or> snd (Evaluate env r i) = r'\<close> scoped(1) by metis
  qed auto
qed

lemma floor_engine_Evaluate: "floor_engine ladder pre r \<Longrightarrow> floor_engine ladder pre (snd (Evaluate env r i))"
proof -
  assume f: "floor_engine ladder pre r"
  then have c: "coherent_engine r" by (simp add: floor_engine_def)
  note fr = Evaluate_frame [OF c, of env i]
  have "rankLadder (snd (Evaluate env r i)) = rankLadder r" using fr rankLadder_frame by blast
  moreover have "sr_ladder sr = ladder \<and> (\<exists>team. sr_base sr = pre @ team)"
    if "rb_scopes (snd (Evaluate env r i)) = Some sr" for sr
    using Evaluate_scopes [of r env i] that f For_frame by (fastforce simp: floor_engine_def)
  ultimately show ?thesis using fr f by (simp add: floor_engine_def)
qed

lemma floor_engine_step:
  assumes "engine_step ladder pre x y" and "floor_engine ladder pre (snd x)"
  shows "floor_engine ladder pre (snd y)"
  using assms
proof (cases rule: engine_step.cases)
  case (scope_set r sr env key l)
  then show ?thesis
    using assms(2)
    by (auto simp: floor_engine_def coherent_engine_def coherent_SetScope rankLadder_def SetScope_frame)
next
  case (layers_reloaded w env r post)
  then have "rankLadder (snd y) = rankLadder r" by (simp add: rankLadder_def WithLive_def)
  then show ?thesis
    using assms(2) layers_reloaded by (auto simp: floor_engine_def coherent_engine_def WithLive_def)
qed (auto intro: floor_engine_Evaluate)

lemma floor_engine_run:
  "(engine_step ladder pre)\<^sup>*\<^sup>* x y \<Longrightarrow> floor_engine ladder pre (snd x) \<Longrightarrow> floor_engine ladder pre (snd y)"
  by (induction rule: rtranclp_induct) (auto intro: floor_engine_step)

lemma floor_engine_required:
  assumes "floor_engine ladder pre r" and "sealed_floor ladder pre (pint_Action intent) = Some cur"
  shows "\<exists>need. required_role r intent = Some need \<and> stricter (effective_ladder ladder) need cur"
proof -
  obtain w post where w: "wat_ladder w = ladder" "rb_dyn r = Some (live_RequiredRole (rebuild w (pre @ post)))"
    using assms(1) by (auto simp: floor_engine_def)
  have dyn: "\<exists>need. live_RequiredRole (rebuild w (pre @ post)) (pint_Action intent) = Some need \<and>
      stricter (effective_ladder ladder) need cur"
    using rebuild_floor.floor_respected [of w pre "pint_Action intent" cur post] assms(2) w(1) by simp
  have "\<exists>need. RequiredRole (resolve_scope sr scope) (pint_Action intent) = Some need \<and>
      stricter (effective_ladder ladder) need cur" if "rb_scopes r = Some sr" for sr scope
  proof -
    from that assms(1) obtain team where base: "sr_ladder sr = ladder" "sr_base sr = pre @ team"
      by (auto simp: floor_engine_def)
    show ?thesis
      using RequiredRole_WithFallback_floor [OF assms(2), where fb = "sr_fallback sr" and
          post = "team @ (case map_of (sr_scopes sr) scope of Some l \<Rightarrow> [l] | None \<Rightarrow> [])"] base
      by (simp add: resolve_scope_def Let_def)
  qed
  then show ?thesis using dyn w(2) by (auto simp: required_role_def split: option.split)
qed

lemma not_denied_role_permits:
  assumes "coherent_engine r" and "dec_Action (fst (Evaluate env r i)) \<noteq> ActionDeny"
  shows "\<not> objects env r i StepGoalStated \<and> \<not> objects env r i StepAINotApproving \<and>
    role_permits (env_policy env) r i \<and> \<not> objects env r i StepSeparationOfDuties \<and>
    \<not> objects env r i StepProductAdmits \<and> \<not> objects env r i StepAttributeFloor"
proof -
  have "es_Outcome st = ActionDeny" if "first_objection env r i = Some st" "es_Name st \<noteq> StepApprovalGate" for st
    using that by (auto simp: first_objection_def EvaluationOrder_def split: if_splits)
  then have "first_objection env r i = None \<or>
      (\<exists>st. first_objection env r i = Some st \<and> es_Name st = StepApprovalGate)"
    using Evaluate_first_objection [OF assms(1), of env i] assms(2) by (cases "first_objection env r i") auto
  moreover have "role_permits (env_policy env) r i \<longleftrightarrow> \<not> objects env r i StepRolePermits"
    by (simp add: objects_simps)
  ultimately show ?thesis
    using step_names_distinct
    by (auto simp: first_objection_def EvaluationOrder_def split: if_splits)
qed

section \<open>Provider grants\<close>

lemma foldIn_entries:
  "set (entries (foldl (\<lambda>m (role, acts). gset m role (entries m role @ acts)) m rs) role)
     = set (entries m role) \<union> doc_grants rs role"
proof (induction rs arbitrary: m)
  case (Cons x rs)
  obtain k acts where "x = (k, acts)" by (cases x)
  with Cons show ?case by (auto simp: doc_grants_Cons)
qed (simp add: doc_grants_def)

lemma WithProviders_role_grants:
  "set (entries (rb_providerRoleActions (WithProviders r ps)) role)
     = set (entries (rb_providerRoleActions r) role) \<union>
       (\<Union>p\<in>{p. Some p \<in> set ps}. doc_grants (pp_RoleActions p) role)"
proof (induction r ps rule: WithProviders.induct)
  case (3 r p ps)
  then show ?case by (auto simp: foldInProviderRoleActions_def indexProviderActions_def foldIn_entries)
qed auto

lemma index_lookup:
  "map_of (foldl (\<lambda>m a. gset m a p) m as) action = (if action \<in> set as then Some p else map_of m action)"
  by (induction as arbitrary: m) auto

lemma WithProviders_owner_kept:
  assumes "\<forall>q. Some q \<in> set ps \<longrightarrow> action \<notin> set (pp_Actions q)"
  shows "map_of (rb_byAction (WithProviders r ps)) action = map_of (rb_byAction r) action"
  using assms
proof (induction r ps rule: WithProviders.induct)
  case (3 r p ps)
  then show ?case by (simp add: foldInProviderRoleActions_def indexProviderActions_def index_lookup)
qed auto

lemma WithProviders_append: "WithProviders r (ps @ qs) = WithProviders (WithProviders r ps) qs"
  by (induction r ps rule: WithProviders.induct) auto

section \<open>Sample values\<close>

definition sample_snapshot :: grantsSnapshot where
  "sample_snapshot = \<lparr>sn_roleActions = [(''L0-SuperAdmin'', [''*'']), (''L2-Operator'', [''service.deploy''])],
     sn_approvalActions = [''deploy.approve''],
     sn_floors = [(''service.deploy'', [(sample_rule ''prod needs a second person'')\<lparr>fr_Kind := ''require_approval_when'',
        fr_WhenParam := ''env'', fr_WhenValue := ''prod''\<rparr>])],
     sn_revision = ''r1''\<rparr>"

definition sample_env :: "nat engine_env" where
  "sample_env = \<lparr>env_floats = nat_floats, env_namespace = ''acme'', env_policy = sample_snapshot\<rparr>"

definition sample_input :: "string \<Rightarrow> Role list \<Rightarrow> string \<Rightarrow> string \<Rightarrow> PolicyInput" where
  "sample_input who roles requester target =
     \<lparr>pin_Subject = \<lparr>psub_ID = who, psub_Roles = roles, psub_IsAI = False, psub_Attrs = []\<rparr>,
      pin_Intent = \<lparr>pint_Action = ''service.deploy'', pint_Resource = ''svc'', pint_Requester = requester,
        pint_Env = target, pint_Goal = ''ship'', pint_Scope = [], pint_Params = [(''env'', AStr target)]\<rparr>\<rparr>"

lemma coherent_NewRBAC: "coherent_engine NewRBAC"
  by (simp add: coherent_engine_def NewRBAC_def)

section \<open>Properties\<close>

text \<open>C7: \<open>Evaluate\<close> asks its questions in the published order. For every engine whose scope cache is coherent
  and every input, the decision is the outcome of the first stage of \<open>EvaluationOrder\<close> that objects, stamped
  with that stage's name, and an allow exactly when no stage objects. In particular the approval gate is
  reached only when nothing has denied.\<close>

theorem Evaluate_follows_published_order:
  assumes "coherent_engine r"
  shows "(case find (\<lambda>st. objects env r i (es_Name st)) EvaluationOrder of
            None \<Rightarrow> fst (Evaluate env r i) = allow (env_namespace env)
          | Some st \<Rightarrow> dec_Action (fst (Evaluate env r i)) = es_Outcome st \<and>
                       dec_Step (fst (Evaluate env r i)) = es_Name st) \<and>
         coherent_engine (snd (Evaluate env r i))"
  using Evaluate_first_objection [OF assms, of env i] Evaluate_frame [OF assms, of env i]
  by (simp only: first_objection_def simp_thms)

theorem Evaluate_follows_published_order_witness:
  "coherent_engine NewRBAC \<and>
   dec_Step (fst (Evaluate sample_env NewRBAC (sample_input ''ann'' [''L2-Operator''] [] ''prod''))) = StepApprovalGate"
proof -
  let ?i = "sample_input ''ann'' [''L2-Operator''] [] ''prod''"
  have "find (\<lambda>st. objects sample_env NewRBAC ?i (es_Name st)) EvaluationOrder
      = Some \<lparr>es_Name = StepApprovalGate, es_Outcome = ActionRequireApproval, es_Source = SourcePolicy\<rparr>"
    unfolding EvaluationOrder_def
    by (simp add: objects_simps sample_env_def sample_input_def sample_snapshot_def NewRBAC_def sample_rule_def
        role_permits_def required_role_def document_grants_def admitFloor_def evalFloorRule_def approvalGate_def
        floorWhenMatches_def Let_def)
  then show ?thesis
    using Evaluate_follows_published_order [OF coherent_NewRBAC, of sample_env ?i] coherent_NewRBAC by simp
qed

text \<open>The precedence rule between grant documents and the layer cascade. With D for ``a document or provider
  grants the action to one of the roles'', L for ``the cascade names a required role'' and H for ``the subject
  holds at least that role'', the role check is (L and H) or (not L and D); it never allows what the older rule
  D or (L and H) refused, and refuses more exactly when D, L and not H.\<close>

theorem actionAllowed_precedence:
  assumes "D = (\<exists>role\<in>set roles. document_grants s r role action)"
    and "named = (case dyn of Some a \<Rightarrow> a action | None \<Rightarrow> None)"
    and "H = (\<exists>need. named = Some need \<and> holdsAtLeast (rankLadder r) roles need)"
  shows "(actionAllowed s r roles action dyn \<longleftrightarrow> (named \<noteq> None \<and> H) \<or> (named = None \<and> D)) \<and>
    ((D \<or> (named \<noteq> None \<and> H)) \<and> \<not> actionAllowed s r roles action dyn \<longleftrightarrow> D \<and> named \<noteq> None \<and> \<not> H)"
  unfolding actionAllowed_def grantedByDocument_iff assms(2) [symmetric] using assms(1,3) by (cases named) auto

theorem actionAllowed_precedence_witness:
  "\<not> actionAllowed sample_snapshot NewRBAC [''L2-Operator''] ''service.deploy'' (Some (\<lambda>_. Some ''L1-Architect''))"
proof -
  have h: "\<not> holdsAtLeast (rankLadder NewRBAC) [''L2-Operator''] ''L1-Architect''"
    by (simp add: holdsAtLeast_def rankLadder_def NewRBAC_def DefaultRoleLadder_def)
  show ?thesis
    using actionAllowed_precedence [OF refl refl refl, where roles = "[''L2-Operator'']" and s = sample_snapshot
        and r = NewRBAC and action = "''service.deploy''" and dyn = "Some (\<lambda>_. Some ''L1-Architect'')"] h by simp
qed

lemma floor_engine_denies:
  assumes f: "floor_engine ladder pre r" and "sealed_floor ladder pre (pint_Action (pin_Intent i)) = Some cur"
    and "\<not> holdsAtLeast (effective_ladder ladder) (psub_Roles (pin_Subject i)) cur"
  shows "dec_Action (fst (Evaluate env r i)) = ActionDeny"
proof (rule ccontr)
  assume not_denied: "dec_Action (fst (Evaluate env r i)) \<noteq> ActionDeny"
  have c: "coherent_engine r" and l: "rankLadder r = effective_ladder ladder" using f by (simp_all add: floor_engine_def)
  obtain need where "required_role r (pin_Intent i) = Some need" "stricter (effective_ladder ladder) need cur"
    using floor_engine_required [OF f assms(2)] by blast
  then show False
    using not_denied_role_permits [OF c not_denied] l assms(3) stricter_holds by (auto simp: role_permits_def)
qed

text \<open>A sealed platform binding holds end to end. Take an engine wired with the deployment's ladder whose
  cascade starts with the platform layers \<open>pre\<close>. After any sequence of evaluations, scope layer changes,
  document reloads and hot reloads of the layers behind \<open>pre\<close>, an input for an action that \<open>pre\<close> binds to a
  role and seals is denied unless the subject is at least as senior as that role, whatever the documents,
  the product adapters and the scope say.\<close>

theorem engine_never_below_sealed_floor:
  assumes "floor_engine ladder pre r0" and "(engine_step ladder pre)\<^sup>*\<^sup>* (env0, r0) (env, r)"
    and "sealed_floor ladder pre (pint_Action (pin_Intent i)) = Some cur"
    and "\<not> holdsAtLeast (effective_ladder ladder) (psub_Roles (pin_Subject i)) cur"
  shows "dec_Action (fst (Evaluate env r i)) = ActionDeny"
  using floor_engine_run [OF assms(2)] assms(1) by (intro floor_engine_denies [OF _ assms(3,4)]) simp

theorem engine_never_below_sealed_floor_witness:
  "dec_Action (fst (Evaluate sample_env
      (WithLive NewRBAC (Some (live_RequiredRole (rebuild (NewWatcher (\<lambda>_. []) (Resolve [] []) None [] [])
          ([platform_layer] @ [loose_team_layer])))))
      (sample_input ''bob'' [''L2-Operator''] [] ''dev''))) = ActionDeny"
proof -
  let ?w = "NewWatcher (\<lambda>_. []) (Resolve [] []) None [] []"
  let ?r = "WithLive NewRBAC (Some (live_RequiredRole (rebuild ?w ([platform_layer] @ [loose_team_layer]))))"
  have w: "wat_ladder ?w = []" by (simp add: NewWatcher_def)
  have f: "floor_engine [] [platform_layer] ?r"
    using w by (auto simp: floor_engine_def coherent_engine_def WithLive_def NewRBAC_def rankLadder_def
        effective_ladder_def intro!: exI [of _ ?w])
  have s: "sealed_floor [] [platform_layer] (pint_Action (pin_Intent (sample_input ''bob'' [''L2-Operator''] [] ''dev'')))
      = Some ''L1-Architect''"
    by (simp add: sealed_floor_def Resolve_def resolve_layer_def apply_role_def platform_layer_def seal_key_def
        sample_input_def Let_def)
  have h: "\<not> holdsAtLeast (effective_ladder [])
      (psub_Roles (pin_Subject (sample_input ''bob'' [''L2-Operator''] [] ''dev''))) ''L1-Architect''"
    by (simp add: holdsAtLeast_def effective_ladder_def DefaultRoleLadder_def sample_input_def)
  show ?thesis
    by (rule engine_never_below_sealed_floor [OF f rtranclp.rtrancl_refl s h])
qed

text \<open>Four eyes. When a request comes back as awaiting approval, the requester submitting the approval
  themselves (the intent naming them as requester) is denied for separation of duties, and a different,
  human subject with the same roles who submits it naming them is allowed: the pending answer can be resolved,
  and only by a second person. The product adapter, if any, is assumed to admit the re-submission.\<close>

theorem approval_takes_a_second_person:
  assumes "coherent_engine r" and "dec_Action (fst (Evaluate env r i)) = ActionRequireApproval"
    and "psub_ID (pin_Subject i) \<noteq> []" and "other \<noteq> psub_ID (pin_Subject i)"
    and "j = i\<lparr>pin_Intent := (pin_Intent i)\<lparr>pint_Requester := psub_ID (pin_Subject i)\<rparr>\<rparr>"
    and "\<forall>pr. map_of (rb_byAction r) (pint_Action (pin_Intent i)) = Some pr \<longrightarrow>
          pp_Admit pr (pin_Intent j) (psub_Roles (pin_Subject i)) = None"
  shows "dec_Action (fst (Evaluate env r j)) = ActionDeny \<and>
         dec_Step (fst (Evaluate env r j)) = StepSeparationOfDuties \<and>
         fst (Evaluate env r (j\<lparr>pin_Subject := (pin_Subject i)\<lparr>psub_ID := other, psub_IsAI := False\<rparr>\<rparr>))
           = allow (env_namespace env)"
proof -
  let ?k = "j\<lparr>pin_Subject := (pin_Subject i)\<lparr>psub_ID := other, psub_IsAI := False\<rparr>\<rparr>"
  have nd: "dec_Action (fst (Evaluate env r i)) \<noteq> ActionDeny" using assms(2) by simp
  note ok = not_denied_role_permits [OF assms(1) nd]
  have rp: "role_permits (env_policy env) r j" "role_permits (env_policy env) r ?k"
    using ok assms(5) by (simp_all add: role_permits_def cong: option.case_cong)
  have fj: "first_objection env r j
      = Some \<lparr>es_Name = StepSeparationOfDuties, es_Outcome = ActionDeny, es_Source = SourceEngine\<rparr>"
    using ok rp(1) assms(3,5) by (auto simp: first_objection_def EvaluationOrder_def objects_simps)
  have gate: "approvalGate (sn_floors (env_policy env)) (pint_Action (pin_Intent i)) (psub_ID (pin_Subject i)) other
      (pint_Params (pin_Intent i)) = None"
    using assms(3,4) by (simp add: approvalGate_def gate_walk_None)
  have fk: "first_objection env r ?k = None"
    using ok rp(2) assms(3-6) gate by (auto simp: first_objection_def EvaluationOrder_def objects_simps)
  show ?thesis
    using Evaluate_first_objection [OF assms(1), of env j] Evaluate_first_objection [OF assms(1), of env ?k] fj fk
    by simp
qed

theorem approval_takes_a_second_person_witness:
  "dec_Action (fst (Evaluate sample_env NewRBAC (sample_input ''ann'' [''L2-Operator''] [] ''prod'')))
     = ActionRequireApproval \<and>
   dec_Action (fst (Evaluate sample_env NewRBAC (sample_input ''ann'' [''L2-Operator''] ''ann'' ''prod''))) = ActionDeny \<and>
   dec_Action (fst (Evaluate sample_env NewRBAC (sample_input ''bob'' [''L2-Operator''] ''ann'' ''prod''))) = ActionAllow"
proof -
  let ?i = "sample_input ''ann'' [''L2-Operator''] [] ''prod''"
  have a: "dec_Action (fst (Evaluate sample_env NewRBAC ?i)) = ActionRequireApproval"
    by (simp add: Evaluate_def Let_def sample_env_def sample_input_def sample_snapshot_def NewRBAC_def sample_rule_def
        authorizerFor_def actionAllowed_def admitFloor_def evalFloorRule_def approvalGate_def floorWhenMatches_def
        mk_Decision_def)
  have n: "psub_ID (pin_Subject ?i) \<noteq> []" "''bob'' \<noteq> psub_ID (pin_Subject ?i)" by (simp_all add: sample_input_def)
  have p: "\<forall>pr. map_of (rb_byAction NewRBAC) (pint_Action (pin_Intent ?i)) = Some pr \<longrightarrow>
      pp_Admit pr (pin_Intent (?i\<lparr>pin_Intent := (pin_Intent ?i)\<lparr>pint_Requester := psub_ID (pin_Subject ?i)\<rparr>\<rparr>))
        (psub_Roles (pin_Subject ?i)) = None" by (simp add: NewRBAC_def)
  show ?thesis
    using approval_takes_a_second_person [OF coherent_NewRBAC a n refl p] a by (simp add: sample_input_def)
qed

text \<open>Triggering one step of a running product is allowed exactly when the subject holds the step's minimum
  role (if it names one) and, for a step that demands approval, the subject is a human other than the step's
  author. An AI never triggers an approval-gated step, whatever its roles.\<close>

theorem EvaluateStep_exact:
  "dec_Action (EvaluateStep ns r i) =
     (if (sa_RunAs i = [] \<or> (\<exists>role\<in>set (psub_Roles (sa_Subject i)). atLeastAsSenior (rankLadder r) role (sa_RunAs i))) \<and>
         (\<not> sa_RequireApproval i \<or>
          \<not> psub_IsAI (sa_Subject i) \<and> (sa_Author i = [] \<or> sa_Author i \<noteq> psub_ID (sa_Subject i)))
      then ActionAllow else ActionDeny)"
  by (simp add: EvaluateStep_def Let_def holdsAtLeast_iff_senior)

definition sample_step_auth :: "Role list \<Rightarrow> bool \<Rightarrow> StepAuth" where
  "sample_step_auth roles ai =
     \<lparr>sa_Subject = \<lparr>psub_ID = ''bob'', psub_Roles = roles, psub_IsAI = ai, psub_Attrs = []\<rparr>, sa_Action = ''flow.trigger'',
      sa_Step = ''publish'', sa_RunAs = ''L2-Operator'', sa_Author = ''ann'', sa_RequireApproval = True\<rparr>"

theorem EvaluateStep_exact_witness:
  "dec_Action (EvaluateStep ''acme'' NewRBAC (sample_step_auth [''L1-Architect''] False)) = ActionAllow \<and>
   dec_Action (EvaluateStep ''acme'' NewRBAC (sample_step_auth [''L1-Architect''] True)) = ActionDeny \<and>
   dec_Action (EvaluateStep ''acme'' NewRBAC (sample_step_auth [''L3-Consumer''] False)) = ActionDeny"
  unfolding EvaluateStep_exact
  by (simp add: sample_step_auth_def rankLadder_def NewRBAC_def atLeastAsSenior_def DefaultRoleLadder_def)

text \<open>Product adapters accumulate. Registering adapters gives every role exactly the grants it had and the
  grants of every adapter, none dropped by a later one and nil adapters skipped, and an action that only one of
  the registered adapters owns is ruled by that adapter.\<close>

theorem WithProviders_accumulate:
  assumes "Some p \<in> set ps" and "action \<in> set (pp_Actions p)"
    and "\<forall>q. Some q \<in> set ps \<and> action \<in> set (pp_Actions q) \<longrightarrow> q = p"
  shows "map_of (rb_byAction (WithProviders r ps)) action = Some p \<and>
    (document_grants s (WithProviders r ps) role a \<longleftrightarrow>
       document_grants s r role a \<or> (\<exists>q. Some q \<in> set ps \<and> a \<in> doc_grants (pp_RoleActions q) role))"
proof
  obtain qs qs' where qs: "ps = qs @ Some p # qs'" "Some p \<notin> set qs'"
    using assms(1) split_list_last by fastforce
  have none: "\<forall>q. Some q \<in> set qs' \<longrightarrow> action \<notin> set (pp_Actions q)" using assms(3) qs by auto
  have "map_of (rb_byAction (WithProviders r (qs @ [Some p]))) action = Some p"
    using assms(2)
    by (simp add: WithProviders_append foldInProviderRoleActions_def indexProviderActions_def index_lookup)
  moreover have "WithProviders r ps = WithProviders (WithProviders r (qs @ [Some p])) qs'"
    unfolding qs WithProviders_append [symmetric] by simp
  ultimately show "map_of (rb_byAction (WithProviders r ps)) action = Some p"
    using WithProviders_owner_kept [OF none, of "WithProviders r (qs @ [Some p])"] by simp
  show "document_grants s (WithProviders r ps) role a \<longleftrightarrow>
      document_grants s r role a \<or> (\<exists>q. Some q \<in> set ps \<and> a \<in> doc_grants (pp_RoleActions q) role)"
    unfolding document_grants_def WithProviders_role_grants by blast
qed

definition sample_provider :: PolicyProvider where
  "sample_provider = \<lparr>pp_Name = ''kafka'', pp_Actions = [''topic.create''],
     pp_RoleActions = [(''L3-Consumer'', [''topic.create''])], pp_Admit = (\<lambda>_ _. None)\<rparr>"

theorem WithProviders_accumulate_witness:
  "map_of (rb_byAction (WithProviders NewRBAC [None, Some sample_provider])) ''topic.create'' = Some sample_provider"
  using WithProviders_accumulate [of sample_provider "[None, Some sample_provider]" "''topic.create''" NewRBAC]
  by (simp add: sample_provider_def)

text \<open>The platform seal does not cover the wildcard. A product document that grants a role the action
  ``*'' passes the seal whenever the platform document does not itself name ``*'', and the engine then treats
  the role as granted every action by document, the sealed ones included.\<close>

theorem product_wildcard_passes_the_seal:
  assumes "wf_map (gr_RoleActions base)" and "''*'' \<notin> platform_seal plat"
    and "d = (sample_product [''*''])\<lparr>pd_RoleActions := [(role, [''*''])]\<rparr>"
  shows "\<exists>g s. Load (Inr base) (Inr (Some plat)) (Inr [d]) = Inr g \<and>
           buildSnapshot revisionOf (Some g) (Some floors) = Inr s \<and>
           (\<forall>action. grantedByDocument s r [role] action)"
proof -
  obtain g0 sealed where p: "applyPlatformLayer base (Some plat) = (g0, sealed)" by fastforce
  have star: "''*'' \<notin> set sealed" using applyPlatformLayer_sealed [of base plat] p assms(2) by simp
  have grants: "doc_grants (pd_RoleActions d) role' = (if role' = role then {''*''} else {})" for role'
    by (auto simp: assms(3) doc_grants_def)
  then have "\<not> (\<exists>e. applyProductLayers g0 sealed [d] = Inl e)"
    unfolding applyProductLayers_Inl using star by auto
  then obtain g where g: "applyProductLayers g0 sealed [d] = Inr g"
    by (cases "applyProductLayers g0 sealed [d]") auto
  then have load: "Load (Inr base) (Inr (Some plat)) (Inr [d]) = Inr g" by (simp add: Load_def p)
  obtain s where s: "buildSnapshot revisionOf (Some g) (Some floors) = Inr s" by (simp add: buildSnapshot_def)
  have "set (entries (gr_RoleActions g) role)
      = set (entries (gr_RoleActions g0) role) \<union> (\<Union>d'\<in>set [d]. doc_grants (pd_RoleActions d') role)"
    using applyProductLayers_Inr [OF g] by blast
  then have "''*'' \<in> set (entries (gr_RoleActions g) role)" by (simp add: grants)
  then have "''*'' \<in> set (entries (sn_roleActions s) role)"
    using buildSnapshot_entries [OF s Load_wf [OF load assms(1)], of role] entries_notin [of role "gr_RoleActions g"]
    by (auto split: if_splits)
  then have "grantedByDocument s r [role] action" for action by simp
  then show ?thesis using load s by blast
qed

theorem product_wildcard_passes_the_seal_witness:
  "\<exists>g s. Load (Inr no_grants) (Inr (Some sample_platform)) (Inr [sample_product [''*'']]) = Inr g \<and>
     buildSnapshot (\<lambda>_ _. []) (Some g) (Some []) = Inr s \<and>
     ''policy.grant'' \<in> platform_seal sample_platform \<and> grantedByDocument s NewRBAC [''L3-Consumer''] ''policy.grant''"
proof -
  have w: "wf_map (gr_RoleActions no_grants)" by (simp add: no_grants_def)
  have s: "platform_seal sample_platform = {''policy.grant'', ''audit.read''}"
    by (auto simp: platform_seal_def doc_grants_def sample_platform_def)
  have n: "''*'' \<notin> platform_seal sample_platform" by (simp add: s)
  have d: "sample_product [''*''] = (sample_product [''*''])\<lparr>pd_RoleActions := [(''L3-Consumer'', [''*''])]\<rparr>"
    by (simp add: sample_product_def)
  show ?thesis
    using product_wildcard_passes_the_seal [OF w n d, of "\<lambda>_ _. []" "[]" NewRBAC] s by blast
qed

end
