(* ===== verification/Identity.thy ===== *)
theory Identity
  imports Contracts Grants
begin

text \<open>
  The identity resolvers of \<open>internal/identity\<close> and the interface the door relies on: a resolver decides
  roles from the verified identity alone, and a subject holding the AI role is always flagged as an AI, so
  that the AI guardrails arm whichever resolver produced it.
\<close>

record Mock =
  mock_subjects :: "Subject gomap"
  mock_origin :: string

definition mk_Subject :: "string \<Rightarrow> Role list \<Rightarrow> Subject" where
  "mk_Subject i roles = \<lparr>sub_ID = i, sub_Roles = roles, sub_ADGroups = [], sub_IsAI = False, sub_Attrs = []\<rparr>"

definition NewMock :: Mock where
  "NewMock = \<lparr>mock_subjects =
       [(''root'', mk_Subject ''root'' [RoleSuperAdmin]),
        (''arch-carol'', mk_Subject ''arch-carol'' [RoleArchitect]),
        (''lead-bob'', mk_Subject ''lead-bob'' [RoleOperator]),
        (''dev-alice'', mk_Subject ''dev-alice'' [RoleConsumer]),
        (''ci-agent'', (mk_Subject ''ci-agent'' [RoleAIAgent])\<lparr>sub_IsAI := True\<rparr>),
        (''ai-agent'', (mk_Subject ''ai-agent'' [RoleAIAgent])\<lparr>sub_IsAI := True\<rparr>)],
     mock_origin = ''the built-in dev directory (a fixed demo set compiled into this binary)''\<rparr>"

fun flag_ai :: "Subject \<Rightarrow> Role list \<Rightarrow> Subject" where
  "flag_ai s [] = s"
| "flag_ai s (role # roles) = flag_ai (if role = RoleAIAgent then s\<lparr>sub_IsAI := True\<rparr> else s) roles"

definition NewMockFrom :: "Role list gomap \<Rightarrow> Mock" where
  "NewMockFrom table =
     \<lparr>mock_subjects = foldl (\<lambda>m (i, roles). gset m i (flag_ai (mk_Subject i roles) roles)) [] table,
      mock_origin = ''a dev directory asserted by this deployment's configuration''\<rparr>"

definition mock_Resolve :: "Mock \<Rightarrow> ExternalIdentity \<Rightarrow> string + Subject" where
  "mock_Resolve m ext =
     (case map_of (mock_subjects m) (ext_ID ext) of
        None \<Rightarrow> Inl (''unknown subject '' @ go_quote (ext_ID ext))
      | Some s \<Rightarrow> Inr s)"

definition Subjects :: "Mock \<Rightarrow> Subject list" where
  "Subjects m = sort_key sub_ID (map snd (mock_subjects m))"

record Gateway =
  gw_table :: "Role list gomap"
  gw_aiGroups :: "string list"

definition NewGateway :: "Role list gomap \<Rightarrow> string list \<Rightarrow> Gateway" where
  "NewGateway table aiGroups = \<lparr>gw_table = table, gw_aiGroups = aiGroups\<rparr>"

text \<open>The set \<open>seen\<close> of the source holds exactly the roles collected so far, so it is read off \<open>roles\<close>.\<close>

fun group_roles :: "Role list \<times> bool \<Rightarrow> Role list \<Rightarrow> Role list \<times> bool" where
  "group_roles (roles, isAI) [] = (roles, isAI)"
| "group_roles (roles, isAI) (r # rs) =
     group_roles (if r \<notin> set roles then roles @ [r] else roles, if r = RoleAIAgent then True else isAI) rs"

fun resolve_groups :: "Gateway \<Rightarrow> Role list \<times> bool \<Rightarrow> string list \<Rightarrow> Role list \<times> bool" where
  "resolve_groups g acc [] = acc"
| "resolve_groups g (roles, isAI) (grp # grps) =
     resolve_groups g (group_roles (roles, if grp \<in> set (gw_aiGroups g) then True else isAI) (entries (gw_table g) grp)) grps"

definition show_groups :: "string list \<Rightarrow> string" where
  "show_groups gs = ''['' @ concat (map (\<lambda>(i, g). if i = 0 then g else CHR '' '' # g) (enumerate 0 gs)) @ '']''"

definition gateway_Resolve :: "Gateway \<Rightarrow> ExternalIdentity \<Rightarrow> string + Subject" where
  "gateway_Resolve g ext =
     (let (roles, isAI) = resolve_groups g ([], False) (ext_Groups ext)
      in if roles = []
         then Inl (''identity '' @ go_quote (ext_ID ext) @ '' has no MantleKeep role for its groups '' @
                   show_groups (ext_Groups ext))
         else Inr \<lparr>sub_ID = ext_ID ext, sub_Roles = roles, sub_ADGroups = ext_Groups ext, sub_IsAI = isAI,
                   sub_Attrs = []\<rparr>)"

section \<open>The interface\<close>

locale identity_resolver =
  fixes resolve :: "ExternalIdentity \<Rightarrow> string + Subject"
  assumes ai_armed: "resolve ext = Inr s \<Longrightarrow> RoleAIAgent \<in> set (sub_Roles s) \<Longrightarrow> sub_IsAI s"
begin

lemma human_has_no_ai_role: "resolve ext = Inr s \<Longrightarrow> \<not> sub_IsAI s \<Longrightarrow> RoleAIAgent \<notin> set (sub_Roles s)"
  using ai_armed by blast

end

lemma group_roles_spec:
  "group_roles (roles, isAI) rs = (roles', isAI') \<Longrightarrow>
     set roles' = set roles \<union> set rs \<and> (distinct roles \<longrightarrow> distinct roles') \<and>
     (isAI' \<longleftrightarrow> isAI \<or> RoleAIAgent \<in> set rs)"
proof (induction "(roles, isAI)" rs arbitrary: roles isAI rule: group_roles.induct)
  case (2 roles isAI r rs)
  then show ?case by (fastforce split: if_splits)
qed auto

lemma resolve_groups_spec:
  "resolve_groups g (roles, isAI) grps = (roles', isAI') \<Longrightarrow>
     set roles' = set roles \<union> (\<Union>grp\<in>set grps. set (entries (gw_table g) grp)) \<and>
     (distinct roles \<longrightarrow> distinct roles') \<and>
     (isAI' \<longleftrightarrow> isAI \<or> (\<exists>grp\<in>set grps. grp \<in> set (gw_aiGroups g) \<or> RoleAIAgent \<in> set (entries (gw_table g) grp)))"
proof (induction grps arbitrary: roles isAI)
  case (Cons grp grps)
  obtain r1 a1 where g1: "group_roles (roles, if grp \<in> set (gw_aiGroups g) then True else isAI)
      (entries (gw_table g) grp) = (r1, a1)" by fastforce
  note s1 = group_roles_spec [OF g1]
  have "resolve_groups g (r1, a1) grps = (roles', isAI')" using Cons.prems g1 by simp
  from Cons.IH [OF this] s1 show ?case by (auto split: if_splits)
qed simp

lemma gateway_Resolve_Inr:
  assumes "gateway_Resolve g ext = Inr s"
  shows "set (sub_Roles s) = (\<Union>grp\<in>set (ext_Groups ext). set (entries (gw_table g) grp)) \<and> sub_Roles s \<noteq> [] \<and>
    distinct (sub_Roles s) \<and> sub_ID s = ext_ID ext \<and>
    (sub_IsAI s \<longleftrightarrow> (\<exists>grp\<in>set (ext_Groups ext). grp \<in> set (gw_aiGroups g) \<or>
                        RoleAIAgent \<in> set (entries (gw_table g) grp)))"
proof -
  obtain roles isAI where r: "resolve_groups g ([], False) (ext_Groups ext) = (roles, isAI)" by fastforce
  show ?thesis using assms resolve_groups_spec [OF r] by (auto simp: gateway_Resolve_def r split: if_splits)
qed

interpretation gateway: identity_resolver "gateway_Resolve g" for g
  by unfold_locales (auto dest!: gateway_Resolve_Inr)

lemma flag_ai_spec:
  "sub_Roles (flag_ai s roles) = sub_Roles s \<and> sub_ID (flag_ai s roles) = sub_ID s \<and>
   (sub_IsAI (flag_ai s roles) \<longleftrightarrow> sub_IsAI s \<or> RoleAIAgent \<in> set roles)"
  by (induction roles arbitrary: s) auto

definition mock_armed :: "Mock \<Rightarrow> bool" where
  "mock_armed m \<longleftrightarrow> (\<forall>(i, s)\<in>set (mock_subjects m). sub_ID s = i \<and> (RoleAIAgent \<in> set (sub_Roles s) \<longrightarrow> sub_IsAI s))"

lemma mock_armed_From: "mock_armed (NewMockFrom table)"
proof -
  have "(\<forall>(i, s)\<in>set m. sub_ID s = i \<and> (RoleAIAgent \<in> set (sub_Roles s) \<longrightarrow> sub_IsAI s)) \<Longrightarrow>
    \<forall>(i, s)\<in>set (foldl (\<lambda>m (i, roles). gset m i (flag_ai (mk_Subject i roles) roles)) m table).
       sub_ID s = i \<and> (RoleAIAgent \<in> set (sub_Roles s) \<longrightarrow> sub_IsAI s)" for m
  proof (induction table arbitrary: m)
    case (Cons t table)
    obtain i roles where t: "t = (i, roles)" by (cases t)
    have "\<forall>(i, s)\<in>set (gset m i (flag_ai (mk_Subject i roles) roles)).
        sub_ID s = i \<and> (RoleAIAgent \<in> set (sub_Roles s) \<longrightarrow> sub_IsAI s)"
    proof (intro ballI)
      fix x assume "x \<in> set (gset m i (flag_ai (mk_Subject i roles) roles))"
      then consider "x = (i, flag_ai (mk_Subject i roles) roles)" | "x \<in> set m" by (blast dest: gset_member)
      then show "case x of (i, s) \<Rightarrow> sub_ID s = i \<and> (RoleAIAgent \<in> set (sub_Roles s) \<longrightarrow> sub_IsAI s)"
        using Cons.prems by cases (auto simp: flag_ai_spec mk_Subject_def)
    qed
    from Cons.IH [OF this] show ?case by (simp add: t)
  qed simp
  from this [of "[]"] show ?thesis by (simp add: mock_armed_def NewMockFrom_def)
qed

lemma mock_armed_Resolve:
  "mock_armed m \<Longrightarrow> mock_Resolve m ext = Inr s \<Longrightarrow> sub_ID s = ext_ID ext \<and> (RoleAIAgent \<in> set (sub_Roles s) \<longrightarrow> sub_IsAI s)"
  by (auto simp: mock_Resolve_def mock_armed_def dest: map_of_SomeD split: option.splits)

interpretation mock: identity_resolver "mock_Resolve (NewMockFrom table)" for table
  using mock_armed_Resolve [OF mock_armed_From] by unfold_locales blast

lemma mock_armed_New: "mock_armed NewMock"
  by (simp add: mock_armed_def NewMock_def mk_Subject_def)

interpretation demo: identity_resolver "mock_Resolve NewMock"
  using mock_armed_Resolve [OF mock_armed_New] by unfold_locales blast

section \<open>Properties\<close>

text \<open>The gateway resolver decides roles from verified groups alone. Resolution fails exactly when no group
  maps to a role; otherwise the subject keeps its id, holds each role some group maps to exactly once and no
  other, and is flagged as an AI exactly when a group is an AI group or maps to the AI role.\<close>

theorem gateway_Resolve_exact:
  "(\<exists>e. gateway_Resolve g ext = Inl e) = (\<forall>grp\<in>set (ext_Groups ext). entries (gw_table g) grp = []) \<and>
   (\<forall>s. gateway_Resolve g ext = Inr s \<longrightarrow>
      sub_ID s = ext_ID ext \<and> distinct (sub_Roles s) \<and>
      (\<forall>role. role \<in> set (sub_Roles s) \<longleftrightarrow> (\<exists>grp\<in>set (ext_Groups ext). role \<in> set (entries (gw_table g) grp))) \<and>
      (sub_IsAI s \<longleftrightarrow> (\<exists>grp\<in>set (ext_Groups ext). grp \<in> set (gw_aiGroups g) \<or>
                          RoleAIAgent \<in> set (entries (gw_table g) grp))))"
proof -
  obtain roles isAI where r: "resolve_groups g ([], False) (ext_Groups ext) = (roles, isAI)" by fastforce
  have "(\<exists>e. gateway_Resolve g ext = Inl e) \<longleftrightarrow> roles = []" by (simp add: gateway_Resolve_def r)
  also have "\<dots> \<longleftrightarrow> set roles = {}" by simp
  also have "\<dots> \<longleftrightarrow> (\<forall>grp\<in>set (ext_Groups ext). entries (gw_table g) grp = [])"
    using resolve_groups_spec [OF r] by simp
  finally have err: "(\<exists>e. gateway_Resolve g ext = Inl e)
      = (\<forall>grp\<in>set (ext_Groups ext). entries (gw_table g) grp = [])" .
  have "gateway_Resolve g ext = Inr s \<Longrightarrow>
      sub_ID s = ext_ID ext \<and> distinct (sub_Roles s) \<and>
      (\<forall>role. role \<in> set (sub_Roles s) \<longleftrightarrow> (\<exists>grp\<in>set (ext_Groups ext). role \<in> set (entries (gw_table g) grp))) \<and>
      (sub_IsAI s \<longleftrightarrow> (\<exists>grp\<in>set (ext_Groups ext). grp \<in> set (gw_aiGroups g) \<or>
                          RoleAIAgent \<in> set (entries (gw_table g) grp)))" for s
    by (drule gateway_Resolve_Inr) auto
  with err show ?thesis by blast
qed

theorem gateway_Resolve_exact_witness:
  "\<exists>e. gateway_Resolve (NewGateway [(''ops'', [''L2-Operator''])] []) \<lparr>ext_ID = ''x'', ext_Groups = [''hr''], ext_Attrs = []\<rparr>
     = Inl e"
  using gateway_Resolve_exact [of "NewGateway [(''ops'', [''L2-Operator''])] []"
      "\<lparr>ext_ID = ''x'', ext_Groups = [''hr''], ext_Attrs = []\<rparr>"]
  by (simp add: NewGateway_def)

end
