(* ===== verification/Directory.thy ===== *)
theory Directory
  imports Identity
begin

text \<open>
  The identity a deployment is assembled with: \<open>app/identity.go\<close>, and what the resolvers of \<open>internal/identity\<close> say about
  themselves. A resolver is the record \<open>directory\<close>: its \<open>Resolve\<close>, and the optional interfaces \<open>SubjectLister\<close> and
  \<open>DirectoryDescriber\<close> when its type has them. \<open>env\<close> is \<open>os.Getenv\<close>: the empty string when a variable is not set.
  A refusal to start (\<open>must\<close>) is the left side of a sum. The chain of resolvers keeps the contract \<open>identity_resolver\<close> of
  its layers, so the door's theorems apply to whatever \<open>BuildIdentity\<close> returns.
\<close>

section \<open>Directories\<close>

record DirectoryDescription =
  dd_Name :: string
  dd_Authoritative :: bool
  dd_Note :: string

record directory =
  dir_Resolve :: "ExternalIdentity \<Rightarrow> string + Subject"
  dir_Subjects :: "(string + Subject list) option"
  dir_Describe :: "DirectoryDescription option"

definition mock_DescribeDirectory :: "Mock \<Rightarrow> DirectoryDescription" where
  "mock_DescribeDirectory m =
     \<lparr>dd_Name = mock_origin m, dd_Authoritative = False,
      dd_Note = ''These identities are ASSERTED, not looked up: nothing here was read from a '' @
        ''directory of record, so this is who this deployment was told about and not who '' @
        ''your organisation employs. Do not read it as a list of who has access.''\<rparr>"

definition gateway_DescribeDirectory :: "Gateway \<Rightarrow> DirectoryDescription" where
  "gateway_DescribeDirectory g =
     \<lparr>dd_Name = ''your SSO gateway's verified groups, mapped to roles by this deployment's configuration'',
      dd_Authoritative = True,
      dd_Note = ''The people live in the identity provider behind the gateway and cannot be '' @
        ''listed from here; roles are decided from the groups it asserts. Ask about one '' @ ''person by id.''\<rparr>"

definition mock_directory :: "Mock \<Rightarrow> directory" where
  "mock_directory m =
     \<lparr>dir_Resolve = mock_Resolve m, dir_Subjects = Some (Inr (Subjects m)), dir_Describe = Some (mock_DescribeDirectory m)\<rparr>"

definition gateway_directory :: "Gateway \<Rightarrow> directory" where
  "gateway_directory g =
     \<lparr>dir_Resolve = gateway_Resolve g, dir_Subjects = None, dir_Describe = Some (gateway_DescribeDirectory g)\<rparr>"

section \<open>The chain of resolvers\<close>

fun chain_walk :: "directory list \<Rightarrow> ExternalIdentity \<Rightarrow> string \<Rightarrow> string + Subject" where
  "chain_walk [] ext lastErr = Inl lastErr"
| "chain_walk (r # rs) ext lastErr =
     (case dir_Resolve r ext of
        Inr s \<Rightarrow> if 0 < length (sub_Roles s) then Inr s else chain_walk rs ext lastErr
      | Inl err \<Rightarrow> chain_walk rs ext err)"

definition chain_Resolve :: "directory list \<Rightarrow> ExternalIdentity \<Rightarrow> string + Subject" where
  "chain_Resolve c ext = chain_walk c ext (''no resolver produced a subject for '' @ go_quote (ext_ID ext))"

datatype listing_error = LayerCannotBeListed nat nat | LayerFailed string \<comment> \<open>layers, the first that cannot; or its error\<close>

fun list_layers :: "nat \<Rightarrow> nat \<Rightarrow> directory list \<Rightarrow> Subject list \<Rightarrow> listing_error + Subject list" where
  "list_layers n position [] listed = Inr listed"
| "list_layers n position (r # rs) listed =
     (case dir_Subjects r of
        None \<Rightarrow> Inl (LayerCannotBeListed n (position + 1))
      | Some (Inl err) \<Rightarrow> Inl (LayerFailed err)
      | Some (Inr extra) \<Rightarrow> list_layers n (position + 1) rs (listed @ extra))"

definition chain_Subjects :: "directory list \<Rightarrow> listing_error + Subject list" where
  "chain_Subjects c = list_layers (length c) 0 c []"

definition undescribed :: DirectoryDescription where
  "undescribed =
     \<lparr>dd_Name = ''several layered resolvers, at least one of which cannot say what it is'', dd_Authoritative = False,
      dd_Note = ''One layer of this deployment's identity chain does not describe itself, '' @
        ''so nothing here can tell you whether the roles below came from a directory '' @ ''of record.''\<rparr>"

fun describe_layers :: "directory list \<Rightarrow> DirectoryDescription \<Rightarrow> DirectoryDescription" where
  "describe_layers [] described = described"
| "describe_layers (r # rs) described =
     (case dir_Describe r of
        None \<Rightarrow> undescribed
      | Some layer \<Rightarrow>
          (let name = (if dd_Name described \<noteq> [] then dd_Name described @ '', layered in front of '' else dd_Name described) @ dd_Name layer;
               note = (if dd_Note layer \<noteq> [] then TrimSpace (dd_Note described @ '' '' @ dd_Note layer) else dd_Note described)
           in describe_layers rs \<lparr>dd_Name = name, dd_Authoritative = dd_Authoritative described \<and> dd_Authoritative layer,
                                  dd_Note = note\<rparr>))"

definition chain_DescribeDirectory :: "directory list \<Rightarrow> DirectoryDescription" where
  "chain_DescribeDirectory c = describe_layers c \<lparr>dd_Name = [], dd_Authoritative = True, dd_Note = []\<rparr>"

definition listing_text :: "listing_error \<Rightarrow> string" where
  "listing_text e = (case e of LayerFailed err \<Rightarrow> err | LayerCannotBeListed n i \<Rightarrow> ''cannot be listed'')"

definition chain_directory :: "directory list \<Rightarrow> directory" where
  "chain_directory c =
     \<lparr>dir_Resolve = chain_Resolve c,
      dir_Subjects = Some (case chain_Subjects c of Inl e \<Rightarrow> Inl (listing_text e) | Inr all \<Rightarrow> Inr all),
      dir_Describe = Some (chain_DescribeDirectory c)\<rparr>"

section \<open>Reading the configuration\<close>

definition splitList :: "string \<Rightarrow> string list" where
  "splitList s = filter (\<lambda>x. x \<noteq> []) (map TrimSpace (split_on CHR '','' s))"

definition group_pair :: "Role list gomap \<Rightarrow> string \<Rightarrow> Role list gomap" where
  "group_pair out pair0 =
     (let pair = TrimSpace pair0
      in if pair = [] then out
         else (case cut_at CHR ''='' pair of
                 None \<Rightarrow> out
               | Some (k, v) \<Rightarrow> gset out (TrimSpace k) (splitList v)))"

definition parseGroupRoles :: "string \<Rightarrow> Role list gomap" where
  "parseGroupRoles s = foldl group_pair [] (split_on CHR '';'' s)"

definition DevSubjectsEnv :: string where
  "DevSubjectsEnv = ''MANTLEKEEP_DEV_SUBJECTS''"

datatype boot_error = ProxyNeedsGroupRoles | DevSubjectsNameNobody

definition buildHumanIdentity :: "(string \<Rightarrow> string) \<Rightarrow> boot_error + directory" where
  "buildHumanIdentity env =
     (if env ''MANTLEKEEP_AUTH'' = ''proxy''
      then (let table = parseGroupRoles (env ''MANTLEKEEP_GROUP_ROLES'')
            in if length table = 0 then Inl ProxyNeedsGroupRoles
               else (let s = env ''MANTLEKEEP_AI_GROUPS''; aiGroups = (if s \<noteq> [] then splitList s else [])
                     in Inr (gateway_directory (NewGateway table aiGroups))))
      else if env DevSubjectsEnv \<noteq> []
      then (let table = parseGroupRoles (env DevSubjectsEnv)
            in if length table = 0 then Inl DevSubjectsNameNobody else Inr (mock_directory (NewMockFrom table)))
      else Inr (mock_directory NewMock))"

definition BuildIdentity :: "(string \<Rightarrow> string) \<Rightarrow> boot_error + directory" where
  "BuildIdentity env =
     (case buildHumanIdentity env of
        Inl e \<Rightarrow> Inl e
      | Inr human \<Rightarrow>
          if env ''MANTLEKEEP_TRANSPORT'' \<in> {''mesh'', ''native''}
          then Inr (chain_directory [gateway_directory (NewGateway (parseGroupRoles (env ''MANTLEKEEP_SERVICE_ROLES'')) []), human])
          else Inr human)"

section \<open>What the chain keeps\<close>

lemma chain_walk_Inr:
  "chain_walk c ext e = Inr s \<longleftrightarrow>
     (\<exists>before r after. c = before @ r # after \<and> dir_Resolve r ext = Inr s \<and> sub_Roles s \<noteq> [] \<and>
        (\<forall>x\<in>set before. \<forall>s'. dir_Resolve x ext = Inr s' \<longrightarrow> sub_Roles s' = []))"
proof (induction c arbitrary: e)
  case (Cons r rs)
  show ?case
  proof (cases "\<exists>s'. dir_Resolve r ext = Inr s' \<and> sub_Roles s' \<noteq> []")
    case True
    then obtain s' where s': "dir_Resolve r ext = Inr s'" "sub_Roles s' \<noteq> []" by blast
    then have "chain_walk (r # rs) ext e = Inr s \<longleftrightarrow> s = s'" by auto
    moreover have "(\<exists>before x after. r # rs = before @ x # after \<and> dir_Resolve x ext = Inr s \<and> sub_Roles s \<noteq> [] \<and>
        (\<forall>y\<in>set before. \<forall>s'. dir_Resolve y ext = Inr s' \<longrightarrow> sub_Roles s' = [])) \<longleftrightarrow> s = s'" (is "?L \<longleftrightarrow> _")
    proof
      assume ?L
      then obtain before x after where x: "r # rs = before @ x # after" "dir_Resolve x ext = Inr s"
        "\<forall>y\<in>set before. \<forall>s'. dir_Resolve y ext = Inr s' \<longrightarrow> sub_Roles s' = []" by blast
      then have "before = []" using s' by (cases before) auto
      then show "s = s'" using x s' by simp
    next
      assume "s = s'"
      then show ?L using s' by (intro exI [of _ "[]"]) auto
    qed
    ultimately show ?thesis by simp
  next
    case False
    then have "\<exists>e'. chain_walk (r # rs) ext e = chain_walk rs ext e'"
      by (cases "dir_Resolve r ext") auto
    then obtain e' where "chain_walk (r # rs) ext e = chain_walk rs ext e'" by blast
    then have "chain_walk (r # rs) ext e = Inr s \<longleftrightarrow>
        (\<exists>before x after. rs = before @ x # after \<and> dir_Resolve x ext = Inr s \<and> sub_Roles s \<noteq> [] \<and>
          (\<forall>y\<in>set before. \<forall>s'. dir_Resolve y ext = Inr s' \<longrightarrow> sub_Roles s' = []))"
      by (simp only: Cons.IH)
    also have "\<dots> \<longleftrightarrow> (\<exists>before x after. r # rs = before @ x # after \<and> dir_Resolve x ext = Inr s \<and> sub_Roles s \<noteq> [] \<and>
          (\<forall>y\<in>set before. \<forall>s'. dir_Resolve y ext = Inr s' \<longrightarrow> sub_Roles s' = []))" (is "?A \<longleftrightarrow> ?B")
    proof
      assume ?A
      then obtain before x after where x: "rs = before @ x # after" "dir_Resolve x ext = Inr s" "sub_Roles s \<noteq> []"
        "\<forall>y\<in>set before. \<forall>s'. dir_Resolve y ext = Inr s' \<longrightarrow> sub_Roles s' = []" by blast
      then show ?B using False by (intro exI [of _ "r # before"]) auto
    next
      assume ?B
      then obtain before x after where x: "r # rs = before @ x # after" "dir_Resolve x ext = Inr s" "sub_Roles s \<noteq> []"
        "\<forall>y\<in>set before. \<forall>s'. dir_Resolve y ext = Inr s' \<longrightarrow> sub_Roles s' = []" by blast
      then obtain b where "before = r # b" using False by (cases before) auto
      then show ?A using x by auto
    qed
    finally show ?thesis .
  qed
qed simp

lemma chain_Resolve_Inr:
  "chain_Resolve c ext = Inr s \<Longrightarrow> \<exists>r\<in>set c. dir_Resolve r ext = Inr s \<and> sub_Roles s \<noteq> []"
  by (auto simp: chain_Resolve_def chain_walk_Inr)

definition armed_directory :: "directory \<Rightarrow> bool" where
  "armed_directory d \<longleftrightarrow> identity_resolver (dir_Resolve d)"

lemma armed_chain: "\<forall>d\<in>set c. armed_directory d \<Longrightarrow> armed_directory (chain_directory c)"
proof -
  assume c: "\<forall>d\<in>set c. armed_directory d"
  have "identity_resolver (chain_Resolve c)"
  proof
    fix ext s
    assume "chain_Resolve c ext = Inr s" and ai: "RoleAIAgent \<in> set (sub_Roles s)"
    then obtain r where "r \<in> set c" "dir_Resolve r ext = Inr s" using chain_Resolve_Inr by blast
    then show "sub_IsAI s" using c ai by (auto simp: armed_directory_def intro: identity_resolver.ai_armed)
  qed
  then show ?thesis by (simp add: armed_directory_def chain_directory_def)
qed

lemma armed_gateway: "armed_directory (gateway_directory g)"
  by (simp add: armed_directory_def gateway_directory_def gateway.identity_resolver_axioms)

definition id_keeping :: "directory \<Rightarrow> bool" where
  "id_keeping d \<longleftrightarrow> (\<forall>ext s. dir_Resolve d ext = Inr s \<longrightarrow> sub_ID s = ext_ID ext)"

lemma armed_mock: "mock_armed m \<Longrightarrow> armed_directory (mock_directory m) \<and> id_keeping (mock_directory m)"
  using mock_armed_Resolve by (auto simp: armed_directory_def id_keeping_def mock_directory_def identity_resolver_def)

lemma id_keeping_gateway: "id_keeping (gateway_directory g)"
  by (auto simp: id_keeping_def gateway_directory_def dest: gateway_Resolve_Inr)

lemma human_identity_contract: "buildHumanIdentity env = Inr d \<Longrightarrow> armed_directory d \<and> id_keeping d"
  using armed_mock [OF mock_armed_New] armed_mock [OF mock_armed_From]
  by (auto simp: buildHumanIdentity_def Let_def armed_gateway id_keeping_gateway split: if_splits)

lemma built_identity_contract:
  assumes "BuildIdentity env = Inr d"
  shows "armed_directory d \<and> id_keeping d"
proof -
  obtain human where h: "buildHumanIdentity env = Inr human" using assms by (auto simp: BuildIdentity_def split: sum.splits)
  note hc = human_identity_contract [OF h]
  let ?c = "[gateway_directory (NewGateway (parseGroupRoles (env ''MANTLEKEEP_SERVICE_ROLES'')) []), human]"
  have "armed_directory (chain_directory ?c)" using hc armed_gateway by (intro armed_chain) auto
  moreover have "id_keeping (chain_directory ?c)"
    using hc id_keeping_gateway by (auto simp: id_keeping_def chain_directory_def dest!: chain_Resolve_Inr)
  ultimately show ?thesis using assms h hc by (auto simp: BuildIdentity_def split: if_splits)
qed

interpretation layered: identity_resolver "chain_Resolve [gateway_directory g, mock_directory (NewMockFrom table)]" for g table
proof -
  have "armed_directory (chain_directory [gateway_directory g, mock_directory (NewMockFrom table)])"
    using armed_mock [OF mock_armed_From] armed_gateway by (intro armed_chain) auto
  then show "identity_resolver (chain_Resolve [gateway_directory g, mock_directory (NewMockFrom table)])"
    by (simp add: armed_directory_def chain_directory_def)
qed

lemma list_layers_Inr:
  "list_layers n i c listed = Inr all \<longleftrightarrow>
     (\<exists>parts. length parts = length c \<and> all = listed @ concat parts \<and>
        (\<forall>j < length c. dir_Subjects (c ! j) = Some (Inr (parts ! j))))"
proof (induction c arbitrary: i listed)
  case (Cons r rs)
  have step: "(\<exists>parts. length parts = length (r # rs) \<and> all = listed @ concat parts \<and>
        (\<forall>j < length (r # rs). dir_Subjects ((r # rs) ! j) = Some (Inr (parts ! j)))) \<longleftrightarrow>
      (\<exists>extra. dir_Subjects r = Some (Inr extra) \<and> (\<exists>parts. length parts = length rs \<and> all = (listed @ extra) @ concat parts \<and>
        (\<forall>j < length rs. dir_Subjects (rs ! j) = Some (Inr (parts ! j)))))" (is "?A \<longleftrightarrow> ?B")
  proof
    assume ?A
    then obtain parts where p: "length parts = length (r # rs)" "all = listed @ concat parts"
      "\<forall>j < length (r # rs). dir_Subjects ((r # rs) ! j) = Some (Inr (parts ! j))" by blast
    obtain extra ps where ps: "parts = extra # ps" using p(1) by (cases parts) auto
    have "dir_Subjects r = Some (Inr extra)" using p(3) [rule_format, of 0] ps by simp
    moreover have "\<forall>j < length rs. dir_Subjects (rs ! j) = Some (Inr (ps ! j))" using p(3) ps by auto
    ultimately show ?B using p ps by auto
  next
    assume ?B
    then obtain extra ps where p: "dir_Subjects r = Some (Inr extra)" "length ps = length rs" "all = (listed @ extra) @ concat ps"
      "\<forall>j < length rs. dir_Subjects (rs ! j) = Some (Inr (ps ! j))" by blast
    have "\<forall>j < length (r # rs). dir_Subjects ((r # rs) ! j) = Some (Inr ((extra # ps) ! j))"
      using p by (auto simp: nth_Cons split: nat.splits)
    then show ?A using p by (intro exI [of _ "extra # ps"]) auto
  qed
  show ?case unfolding step
    by (auto simp: Cons.IH split: option.splits sum.splits)
qed auto

section \<open>Properties\<close>

text \<open>A deployment's roles come from its configuration and from verified groups only. Whatever identity is built, a subject it
  resolves carries the id that was asked about and is flagged as an AI when it holds the AI role, through every layer of
  the chain; and with the gateway configured, the roles are exactly those that one of the two configured tables gives the
  groups of the identity.\<close>

theorem built_identity_decides_roles:
  assumes "BuildIdentity env = Inr d" and "dir_Resolve d ext = Inr s"
  shows "sub_ID s = ext_ID ext \<and> (RoleAIAgent \<in> set (sub_Roles s) \<longrightarrow> sub_IsAI s) \<and>
    (env ''MANTLEKEEP_AUTH'' = ''proxy'' \<longrightarrow> sub_Roles s \<noteq> [] \<and>
      (\<exists>var\<in>{''MANTLEKEEP_SERVICE_ROLES'', ''MANTLEKEEP_GROUP_ROLES''}. \<forall>role.
         role \<in> set (sub_Roles s) \<longleftrightarrow> (\<exists>grp\<in>set (ext_Groups ext). role \<in> set (entries (parseGroupRoles (env var)) grp))))"
proof -
  note bc = built_identity_contract [OF assms(1)]
  have keep: "sub_ID s = ext_ID ext" "RoleAIAgent \<in> set (sub_Roles s) \<Longrightarrow> sub_IsAI s"
    using bc assms(2) by (auto simp: id_keeping_def armed_directory_def intro: identity_resolver.ai_armed)
  have table: "sub_Roles s \<noteq> [] \<and>
      (\<forall>role. role \<in> set (sub_Roles s) \<longleftrightarrow> (\<exists>grp\<in>set (ext_Groups ext). role \<in> set (entries t grp)))"
    if "gateway_Resolve (NewGateway t ai) ext = Inr s" for t ai
    using gateway_Resolve_Inr [OF that] by (auto simp: NewGateway_def)
  have "\<exists>var\<in>{''MANTLEKEEP_SERVICE_ROLES'', ''MANTLEKEEP_GROUP_ROLES''}. \<exists>ai.
      gateway_Resolve (NewGateway (parseGroupRoles (env var)) ai) ext = Inr s" if p: "env ''MANTLEKEEP_AUTH'' = ''proxy''"
  proof -
    obtain ai where h: "buildHumanIdentity env = Inr (gateway_directory (NewGateway (parseGroupRoles (env ''MANTLEKEEP_GROUP_ROLES'')) ai))"
      using assms(1) p by (auto simp: BuildIdentity_def buildHumanIdentity_def Let_def split: sum.splits if_splits)
    show ?thesis
      using assms h
      by (auto simp: BuildIdentity_def gateway_directory_def chain_directory_def split: if_splits dest!: chain_Resolve_Inr) blast+
  qed
  then show ?thesis using keep table by metis
qed

fun sample_vars :: "string \<Rightarrow> string" where
  "sample_vars v = (if v = ''MANTLEKEEP_AUTH'' then ''proxy'' else if v = ''MANTLEKEEP_TRANSPORT'' then ''mesh''
     else if v = ''MANTLEKEEP_GROUP_ROLES'' then ''ops = L2-Operator ;bots=AI-Agent,L3-Consumer''
     else if v = ''MANTLEKEEP_SERVICE_ROLES'' then ''spiffe://svc-a=L3-Consumer''
     else if v = ''MANTLEKEEP_AI_GROUPS'' then ''copilots'' else [])"

declare sample_vars.simps [simp del]

lemma sample_tables:
  "parseGroupRoles (sample_vars ''MANTLEKEEP_GROUP_ROLES'') = [(''ops'', [''L2-Operator'']), (''bots'', [''AI-Agent'', ''L3-Consumer''])]"
  "parseGroupRoles (sample_vars ''MANTLEKEEP_SERVICE_ROLES'') = [(''spiffe://svc-a'', [''L3-Consumer''])]"
  by code_simp+

theorem built_identity_decides_roles_witness:
  "\<exists>d s. BuildIdentity sample_vars = Inr d \<and>
     dir_Resolve d \<lparr>ext_ID = ''copilot'', ext_Groups = [''bots''], ext_Attrs = []\<rparr> = Inr s \<and> sub_ID s = ''copilot'' \<and> sub_IsAI s"
proof -
  let ?ext = "\<lparr>ext_ID = ''copilot'', ext_Groups = [''bots''], ext_Attrs = []\<rparr>"
  let ?g = "NewGateway (parseGroupRoles (sample_vars ''MANTLEKEEP_GROUP_ROLES'')) (splitList (sample_vars ''MANTLEKEEP_AI_GROUPS''))"
  let ?d = "chain_directory [gateway_directory (NewGateway (parseGroupRoles (sample_vars ''MANTLEKEEP_SERVICE_ROLES'')) []), gateway_directory ?g]"
  have ai: "sample_vars ''MANTLEKEEP_AI_GROUPS'' \<noteq> []" by (simp add: sample_vars.simps)
  have b: "BuildIdentity sample_vars = Inr ?d"
    by (simp add: BuildIdentity_def buildHumanIdentity_def Let_def sample_tables ai) (simp add: sample_vars.simps)
  obtain s where s: "dir_Resolve ?d ?ext = Inr s" "sub_Roles s = [''AI-Agent'', ''L3-Consumer'']"
    by (simp add: chain_directory_def chain_Resolve_def gateway_directory_def sample_tables NewGateway_def
        gateway_Resolve_def Let_def entries_def)
  have "RoleAIAgent \<in> set (sub_Roles s)" using s(2) by simp
  then show ?thesis using built_identity_decides_roles [OF b s(1)] b s(1) by auto
qed

text \<open>The service layer in front of the gateway is built without the configured AI groups. An identity the human layer would
  flag as an AI resolves through the service layer, when a service role fits it too, as a human.\<close>

lemma service_role_hides_the_ai_group:
  "\<exists>human built s s'. buildHumanIdentity sample_vars = Inr human \<and> BuildIdentity sample_vars = Inr built \<and>
     dir_Resolve built \<lparr>ext_ID = ''x'', ext_Groups = [''spiffe://svc-a'', ''ops'', ''copilots''], ext_Attrs = []\<rparr> = Inr s \<and> \<not> sub_IsAI s \<and>
     dir_Resolve human \<lparr>ext_ID = ''x'', ext_Groups = [''spiffe://svc-a'', ''ops'', ''copilots''], ext_Attrs = []\<rparr> = Inr s' \<and> sub_IsAI s'"
proof -
  have ai: "sample_vars ''MANTLEKEEP_AI_GROUPS'' \<noteq> []" "splitList (sample_vars ''MANTLEKEEP_AI_GROUPS'') = [''copilots'']"
    by (simp add: sample_vars.simps) code_simp
  have h: "buildHumanIdentity sample_vars = Inr (gateway_directory (NewGateway (parseGroupRoles (sample_vars ''MANTLEKEEP_GROUP_ROLES'')) [''copilots'']))"
    by (simp add: buildHumanIdentity_def Let_def sample_tables ai) (simp add: sample_vars.simps)
  then have "BuildIdentity sample_vars = Inr (chain_directory [gateway_directory (NewGateway (parseGroupRoles (sample_vars ''MANTLEKEEP_SERVICE_ROLES'')) []),
      gateway_directory (NewGateway (parseGroupRoles (sample_vars ''MANTLEKEEP_GROUP_ROLES'')) [''copilots''])])"
    by (simp add: BuildIdentity_def) (simp add: sample_vars.simps)
  with h show ?thesis
    by (simp add: chain_directory_def chain_Resolve_def gateway_directory_def sample_tables NewGateway_def gateway_Resolve_def
        Let_def entries_def)
qed

text \<open>A directory that cannot be listed whole is not listed. The chain lists subjects exactly when every layer can, and then
  it is the lists of all of them in order; behind a gateway layer there is no list, whatever the other layers hold.\<close>

theorem layered_directory_lists_all_or_nothing:
  "(chain_Subjects c = Inr all \<longleftrightarrow>
      (\<exists>parts. length parts = length c \<and> all = concat parts \<and> (\<forall>j < length c. dir_Subjects (c ! j) = Some (Inr (parts ! j))))) \<and>
   (gateway_directory g \<in> set c \<longrightarrow> chain_Subjects c \<noteq> Inr all)"
proof -
  have one: "chain_Subjects c = Inr all \<longleftrightarrow>
      (\<exists>parts. length parts = length c \<and> all = concat parts \<and> (\<forall>j < length c. dir_Subjects (c ! j) = Some (Inr (parts ! j))))"
    by (simp add: chain_Subjects_def list_layers_Inr)
  have "chain_Subjects c \<noteq> Inr all" if g: "gateway_directory g \<in> set c"
  proof
    assume "chain_Subjects c = Inr all"
    then obtain parts where "\<forall>j < length c. dir_Subjects (c ! j) = Some (Inr (parts ! j))" using one by blast
    moreover obtain j where "j < length c" "c ! j = gateway_directory g"
      using g unfolding in_set_conv_nth by blast
    ultimately show False by (auto simp: gateway_directory_def)
  qed
  with one show ?thesis by blast
qed

theorem layered_directory_lists_all_or_nothing_witness:
  "chain_Subjects [mock_directory NewMock, gateway_directory (NewGateway [] [])] \<noteq> Inr []"
proof -
  have "gateway_directory (NewGateway [] []) \<in> set [mock_directory NewMock, gateway_directory (NewGateway [] [])]" by simp
  with layered_directory_lists_all_or_nothing show ?thesis by blast
qed

section \<open>Tables are read back\<close>

definition clean :: "string \<Rightarrow> bool" where
  "clean s \<longleftrightarrow> s \<noteq> [] \<and> (\<forall>c\<in>set s. \<not> is_space c \<and> c \<notin> {CHR '','', CHR '';'', CHR ''=''})"

definition render_pair :: "string \<times> Role list \<Rightarrow> string" where
  "render_pair p = fst p @ ''='' @ join_with '','' (snd p)"

definition render_table :: "Role list gomap \<Rightarrow> string" where
  "render_table t = join_with '';'' (map render_pair t)"

lemma spaceless_TrimSpace: "\<forall>c\<in>set s. \<not> is_space c \<Longrightarrow> TrimSpace s = s"
proof -
  have d: "\<forall>c\<in>set t. \<not> is_space c \<Longrightarrow> dropWhile is_space t = t" for t by (cases t) auto
  show "\<forall>c\<in>set s. \<not> is_space c \<Longrightarrow> TrimSpace s = s" using d [of s] d [of "rev s"] by (simp add: TrimSpace_def)
qed

lemma set_join_with: "set (join_with sep xs) \<subseteq> set sep \<union> \<Union> (set ` set xs)"
  by (induction sep xs rule: join_with.induct) auto

lemma clean_TrimSpace [simp]: "clean s \<Longrightarrow> TrimSpace s = s"
  by (simp add: clean_def spaceless_TrimSpace)

lemma splitList_join: "list_all clean rs \<Longrightarrow> splitList (join_with '','' rs) = rs"
proof (cases "rs = []")
  case False
  assume c: "list_all clean rs"
  then have "split_on CHR '','' (join_with [CHR '','' ] rs) = rs"
    using False by (intro split_join) (auto simp: clean_def list_all_iff)
  moreover have "filter (\<lambda>x. x \<noteq> []) (map TrimSpace rs) = rs"
    using c by (induction rs) (auto simp: clean_def spaceless_TrimSpace)
  ultimately show ?thesis by (simp add: splitList_def)
qed (simp add: splitList_def)

lemma render_pair_chars:
  assumes "clean k" "list_all clean rs" "c \<in> set (render_pair (k, rs))"
  shows "\<not> is_space c \<and> c \<noteq> CHR '';''"
proof -
  have "set (join_with '','' rs) \<subseteq> set '','' \<union> \<Union> (set ` set rs)" by (rule set_join_with)
  then have "c \<in> set k \<or> c \<in> {CHR ''='', CHR '',''} \<or> (\<exists>r\<in>set rs. c \<in> set r)"
    using assms(3) by (auto simp: render_pair_def)
  then show ?thesis using assms(1,2) by (auto simp: clean_def list_all_iff is_space_def)
qed

lemma group_pair_render:
  assumes "clean k" "list_all clean rs"
  shows "group_pair out (render_pair (k, rs)) = gset out k rs"
proof -
  have "TrimSpace (render_pair (k, rs)) = render_pair (k, rs)"
    using render_pair_chars [OF assms] by (intro spaceless_TrimSpace) blast
  moreover have "cut_at CHR ''='' (render_pair (k, rs)) = Some (k, join_with '','' rs)"
  proof -
    have "CHR ''='' \<notin> set k" using assms(1) by (auto simp: clean_def)
    then show ?thesis by (simp add: render_pair_def)
  qed
  moreover have "render_pair (k, rs) \<noteq> []" by (simp add: render_pair_def)
  ultimately show ?thesis using assms by (simp add: group_pair_def splitList_join)
qed

lemma gset_fresh: "k \<notin> set (keys m) \<Longrightarrow> gset m k v = m @ [(k, v)]"
  by (induction m) auto

lemma foldl_gset_fresh: "distinct (keys (m @ t)) \<Longrightarrow> foldl (\<lambda>m (k, v). gset m k v) m t = m @ t"
proof (induction t arbitrary: m)
  case (Cons p t)
  obtain k v where p: "p = (k, v)" by (cases p)
  then have "gset m k v = m @ [(k, v)]" using Cons.prems by (intro gset_fresh) (auto simp: keys_def)
  then show ?case using Cons.IH [of "m @ [(k, v)]"] Cons.prems p by simp
qed simp

text \<open>A table of roles survives its line of configuration: what is written as \<open>group=Role,Role;group2=Role\<close> is read back as
  it was, groups without a role included, when no name holds white space or a separator.\<close>

theorem parseGroupRoles_round_trip:
  assumes "wf_map t" and "\<forall>(group, roles)\<in>set t. clean group \<and> list_all clean roles"
  shows "parseGroupRoles (render_table t) = t"
proof (cases "t = []")
  case False
  have "split_on CHR '';'' (join_with [CHR '';''] (map render_pair t)) = map render_pair t"
    using False assms(2) render_pair_chars by (intro split_join) (fastforce simp: list_all_iff)+
  moreover have "\<forall>(group, roles)\<in>set u. clean group \<and> list_all clean roles \<Longrightarrow>
      foldl group_pair out (map render_pair u) = foldl (\<lambda>m (k, v). gset m k v) out u" for u out
    by (induction u arbitrary: out) (auto simp: group_pair_render)
  ultimately have "parseGroupRoles (render_table t) = foldl (\<lambda>m (k, v). gset m k v) [] t"
    using assms(2) by (simp add: parseGroupRoles_def render_table_def)
  then show ?thesis using foldl_gset_fresh [of "[]" t] assms(1) by (simp add: wf_map_def)
qed (simp add: parseGroupRoles_def render_table_def group_pair_def)

theorem parseGroupRoles_round_trip_witness:
  "parseGroupRoles (render_table [(''ops'', [''L2-Operator'', ''L3-Consumer'']), (''nobody'', [])]) =
     [(''ops'', [''L2-Operator'', ''L3-Consumer'']), (''nobody'', [])]"
proof -
  have w: "wf_map [(''ops'', [''L2-Operator'', ''L3-Consumer'']), (''nobody'', [])]" by simp
  have c: "\<forall>(group, roles)\<in>set [(''ops'', [''L2-Operator'', ''L3-Consumer'']), (''nobody'', [])]. clean group \<and> list_all clean roles"
    by (simp add: clean_def is_space_def)
  show ?thesis by (rule parseGroupRoles_round_trip [OF w c])
qed

end
