(* ===== verification/Safe_Paths.thy ===== *)
theory Safe_Paths
  imports Prelude
begin

text \<open>
  The check a configuration path passes before it is opened: \<open>internal/safeio/safeio.go\<close> of the control plane and its copy
  \<open>internal/safepath/safepath.go\<close> of the estate. \<open>filepath.Clean\<close>, \<open>Join\<close> and \<open>Base\<close> are those of a Unix system. Opening
  the file is a parameter: the function from a cleaned path to its bytes or an error.
\<close>

section \<open>Package filepath\<close>

text \<open>The elements of a path with the dots resolved, the last one first: a parent cancels the element before it, is dropped at
  the root, and is kept where nothing is left to cancel.\<close>

fun clean_elements :: "bool \<Rightarrow> string list \<Rightarrow> string list \<Rightarrow> string list" where
  "clean_elements rooted out [] = out"
| "clean_elements rooted out (e # es) =
     (if e = [] \<or> e = ''.'' then clean_elements rooted out es
      else if e = ''..'' then
        (case out of
           [] \<Rightarrow> if rooted then clean_elements rooted [] es else clean_elements rooted [''..''] es
         | x # xs \<Rightarrow> if x = ''..'' then clean_elements rooted (''..'' # out) es else clean_elements rooted xs es)
      else clean_elements rooted (e # out) es)"

definition filepath_Clean :: "string \<Rightarrow> string" where
  "filepath_Clean path =
     (let rooted = HasPrefix path ''/'';
          body = join_with ''/'' (rev (clean_elements rooted [] (split_on CHR ''/'' path)))
      in if rooted then CHR ''/'' # body else if body = [] then ''.'' else body)"

definition filepath_Join :: "string \<Rightarrow> string \<Rightarrow> string" where
  "filepath_Join dir name =
     (if dir = [] \<and> name = [] then [] else if dir = [] then filepath_Clean name
      else if name = [] then filepath_Clean dir else filepath_Clean (dir @ ''/'' @ name))"

definition filepath_Base :: "string \<Rightarrow> string" where
  "filepath_Base path =
     (if path = [] then ''.''
      else (let stripped = rev (dropWhile (\<lambda>c. c = CHR ''/'') (rev path))
            in if stripped = [] then ''/'' else last (split_on CHR ''/'' stripped)))"

section \<open>The check\<close>

datatype path_error = EmptyPath | EscapesUpward string

definition CleanConfigPath :: "string \<Rightarrow> path_error + string" where
  "CleanConfigPath path =
     (if path = [] then Inl EmptyPath
      else (let clean = filepath_Clean path
            in if clean = ''..'' \<or> HasPrefix clean ''../'' \<or> Contains clean ''/../'' \<or> HasSuffix clean ''/..''
               then Inl (EscapesUpward path) else Inr clean))"

definition safepath_Clean :: "string \<Rightarrow> path_error + string" where
  "safepath_Clean path =
     (if path = [] then Inl EmptyPath
      else (let clean = filepath_Clean path
            in if clean = ''..'' \<or> HasPrefix clean ''../'' \<or> Contains clean ''/../'' \<or> HasSuffix clean ''/..''
               then Inl (EscapesUpward path) else Inr clean))"

datatype read_error = BadPath path_error | Unreadable string

definition ReadConfigFile :: "(string \<Rightarrow> string + string) \<Rightarrow> string \<Rightarrow> read_error + string" where
  "ReadConfigFile os_ReadFile path =
     (case CleanConfigPath path of
        Inl e \<Rightarrow> Inl (BadPath e)
      | Inr clean \<Rightarrow> (case os_ReadFile clean of Inl e \<Rightarrow> Inl (Unreadable e) | Inr data \<Rightarrow> Inr data))"

definition StatConfigPath :: "(string \<Rightarrow> string + 'i) \<Rightarrow> string \<Rightarrow> read_error + 'i" where
  "StatConfigPath os_Stat path =
     (case CleanConfigPath path of
        Inl e \<Rightarrow> Inl (BadPath e)
      | Inr clean \<Rightarrow> (case os_Stat clean of Inl e \<Rightarrow> Inl (Unreadable e) | Inr info \<Rightarrow> Inr info))"

text \<open>Making the directory is a function of the state of the file system, an error or nothing.\<close>

definition EnsureConfigDir :: "(string \<Rightarrow> 'fs \<Rightarrow> string option \<times> 'fs) \<Rightarrow> string \<Rightarrow> 'fs \<Rightarrow> (read_error + string) \<times> 'fs" where
  "EnsureConfigDir os_MkdirAll path fs =
     (case CleanConfigPath path of
        Inl e \<Rightarrow> (Inl (BadPath e), fs)
      | Inr clean \<Rightarrow> (case os_MkdirAll clean fs of (Some e, fs') \<Rightarrow> (Inl (Unreadable e), fs') | (None, fs') \<Rightarrow> (Inr clean, fs')))"

section \<open>The elements of a path\<close>

lemma split_on_member:
  "e \<in> set (split_on sep s) \<longleftrightarrow> sep \<notin> set e \<and>
     (s = e \<or> (\<exists>b. s = e @ sep # b) \<or> (\<exists>a b. s = a @ sep # e @ sep # b) \<or> (\<exists>a. s = a @ sep # e))"
  (is "_ \<longleftrightarrow> ?at e s")
proof (induction "length s" arbitrary: s rule: less_induct)
  case less
  show ?case
  proof (cases "sep \<in> set s")
    case False
    then show ?thesis by (auto simp: split_on_none)
  next
    case True
    then obtain a b where s: "s = a @ sep # b" "sep \<notin> set a" by (metis split_list_first)
    have split: "split_on sep s = a # split_on sep b" using s by (simp add: split_on_append)
    have b: "e \<in> set (split_on sep b) \<longleftrightarrow> ?at e b" using less s by simp
    show ?thesis
    proof
      assume "e \<in> set (split_on sep s)"
      then consider "e = a" | "?at e b" using split b by auto
      then show "?at e s"
      proof cases
        case 1
        then show ?thesis using s by auto
      next
        case 2
        then show ?thesis using s by (metis append.assoc append_Cons)
      qed
    next
      assume at: "?at e s"
      have first: "e = a" if "s = e @ sep # c" for c
        using that s at append_sep_inject [of sep e a c b] by auto
      have later: "\<exists>a'. (a' = [] \<and> b = y) \<or> b = a' @ sep # y" if "s = x @ sep # y" for x y
      proof (cases "sep \<in> set x")
        case False
        then show ?thesis using that s append_sep_inject [of sep x a y b] by auto
      next
        case True
        then obtain x1 x2 where x: "x = x1 @ sep # x2" "sep \<notin> set x1" by (metis split_list_first)
        then have "a @ sep # b = x1 @ sep # (x2 @ sep # y)" using that s by simp
        then have "b = x2 @ sep # y" using append_sep_inject [OF s(2) x(2)] by blast
        then show ?thesis by blast
      qed
      from at consider "s = e" | c where "s = e @ sep # c" | x c where "s = x @ sep # e @ sep # c" | x where "s = x @ sep # e"
        by blast
      then show "e \<in> set (split_on sep s)"
      proof cases
        case 1
        then show ?thesis using at s by auto
      next
        case 2
        then show ?thesis using first split by auto
      next
        case 3
        then have "?at e b" using later [of x "e @ sep # c"] at by auto
        then show ?thesis using b split by auto
      next
        case 4
        then have "?at e b" using later [of x e] at by auto
        then show ?thesis using b split by auto
      qed
    qed
  qed
qed

section \<open>Properties\<close>

text \<open>A configuration path that is accepted walks nowhere upward. What the check of either module hands to the operating system
  is the cleaned form of the path, with no parent element anywhere in it, and a path is refused exactly when it is empty or
  its cleaned form still has one; both modules accept the same paths.\<close>

theorem accepted_paths_never_walk_up:
  "(\<forall>clean. CleanConfigPath path = Inr clean \<longleftrightarrow>
      path \<noteq> [] \<and> clean = filepath_Clean path \<and> ''..'' \<notin> set (split_on CHR ''/'' clean)) \<and>
   safepath_Clean path = CleanConfigPath path \<and>
   (\<forall>f data. ReadConfigFile f path = Inr data \<longrightarrow>
      (\<exists>clean. f clean = Inr data \<and> ''..'' \<notin> set (split_on CHR ''/'' clean)))"
proof -
  have "''..'' \<in> set (split_on CHR ''/'' c) \<longleftrightarrow> c = ''..'' \<or> HasPrefix c ''../'' \<or> Contains c ''/../'' \<or> HasSuffix c ''/..''" for c
    unfolding split_on_member HasPrefix_iff Contains_iff HasSuffix_iff by auto
  then have one: "CleanConfigPath path = Inr clean \<longleftrightarrow>
      path \<noteq> [] \<and> clean = filepath_Clean path \<and> ''..'' \<notin> set (split_on CHR ''/'' clean)" for clean
    by (auto simp: CleanConfigPath_def Let_def)
  moreover have "safepath_Clean path = CleanConfigPath path" by (simp add: safepath_Clean_def CleanConfigPath_def)
  moreover have "\<exists>clean. f clean = Inr data \<and> ''..'' \<notin> set (split_on CHR ''/'' clean)" if "ReadConfigFile f path = Inr data" for f data
    using that one by (auto simp: ReadConfigFile_def split: sum.splits)
  ultimately show ?thesis by blast
qed

theorem accepted_paths_never_walk_up_witness:
  "CleanConfigPath ''conf/../etc//platform.json'' = Inr ''etc/platform.json'' \<and> CleanConfigPath ''a/../../x'' = Inl (EscapesUpward ''a/../../x'') \<and>
   ''..'' \<notin> set (split_on CHR ''/'' ''etc/platform.json'')"
proof -
  have ok: "CleanConfigPath ''conf/../etc//platform.json'' = Inr ''etc/platform.json''" by code_simp
  have bad: "CleanConfigPath ''a/../../x'' = Inl (EscapesUpward ''a/../../x'')" by code_simp
  show ?thesis using accepted_paths_never_walk_up [of "''conf/../etc//platform.json''"] ok bad by blast
qed

end
