(* ===== verification/Json.thy ===== *)
theory Json
  imports Prelude
begin

text \<open>
  The part of \<open>encoding/json\<close> the control plane hashes: flat objects whose values are strings and
  booleans. \<open>esc\<close> is the escaping of one byte (HTML escaping on, as \<open>json.Marshal\<close> has it), \<open>quote\<close> a
  string literal and \<open>marshal_object\<close> an object in the order of its members. Strings are taken to be
  valid UTF-8 without U+2028 and U+2029, on which Go writes the bytes above 127 through unchanged. The
  result of the theory is that marshalling is injective: two different objects never have the same
  bytes, so a digest of the bytes is a digest of the object.
\<close>

datatype jval = JStr string | JBool bool

definition hexdigit :: "nat \<Rightarrow> char" where
  "hexdigit n = ''0123456789abcdef'' ! n"

definition esc_u :: "char \<Rightarrow> string" where
  "esc_u c = [CHR 0x5C, CHR ''u'', CHR ''0'', CHR ''0'',
              hexdigit (of_char c div 16), hexdigit (of_char c mod 16)]"

definition short_esc :: "char \<Rightarrow> char option" where
  "short_esc c = map_of [(CHR 0x22, CHR 0x22), (CHR 0x5C, CHR 0x5C), (CHR 0x08, CHR ''b''),
     (CHR 0x0C, CHR ''f''), (CHR 0x0A, CHR ''n''), (CHR 0x0D, CHR ''r''), (CHR 0x09, CHR ''t'')] c"

definition needs_u :: "char \<Rightarrow> bool" where
  "needs_u c = ((of_char c :: nat) < 32 \<or> c \<in> {CHR ''<'', CHR ''>'', CHR ''&''})"

definition esc :: "char \<Rightarrow> string" where
  "esc c = (case short_esc c of
              Some d \<Rightarrow> [CHR 0x5C, d]
            | None \<Rightarrow> if needs_u c then esc_u c else [c])"

definition quote :: "string \<Rightarrow> string" where
  "quote s = CHR 0x22 # concat (map esc s) @ [CHR 0x22]"

fun marshal_value :: "jval \<Rightarrow> string" where
  "marshal_value (JStr s) = quote s"
| "marshal_value (JBool b) = (if b then ''true'' else ''false'')"

fun marshal_members :: "(string \<times> jval) list \<Rightarrow> string" where
  "marshal_members [] = []"
| "marshal_members [(k, v)] = quote k @ CHR '':'' # marshal_value v"
| "marshal_members ((k, v) # m # ms) =
     quote k @ CHR '':'' # marshal_value v @ CHR '','' # marshal_members (m # ms)"

definition marshal_object :: "(string \<times> jval) list \<Rightarrow> string" where
  "marshal_object ms = CHR ''{'' # marshal_members ms @ ''}''"

section \<open>Decoding one escaped byte\<close>

definition unhex :: "char \<Rightarrow> nat" where
  "unhex c = (let n = of_char c in if n < 58 then n - 48 else n - 87)"

definition unshort :: "char \<Rightarrow> char" where
  "unshort d = (case map_of [(CHR ''b'', CHR 0x08), (CHR ''f'', CHR 0x0C), (CHR ''n'', CHR 0x0A),
      (CHR ''r'', CHR 0x0D), (CHR ''t'', CHR 0x09)] d of Some c \<Rightarrow> c | None \<Rightarrow> d)"

fun unesc :: "string \<Rightarrow> char \<times> string" where
  "unesc (c # d # cs) =
     (if c \<noteq> CHR 0x5C then (c, d # cs)
      else if d \<noteq> CHR ''u'' then (unshort d, cs)
      else (char_of (unhex (cs ! 2) * 16 + unhex (cs ! 3)), drop 4 cs))"
| "unesc [c] = (c, [])"
| "unesc [] = (CHR 0x00, [])"

lemma unhex_hexdigit: "n < 16 \<Longrightarrow> unhex (hexdigit n) = n"
proof -
  assume "n < 16"
  then have "n \<in> set [0..<16]" by simp
  then show ?thesis
    by (auto simp: upt_conv_Cons hexdigit_def unhex_def Let_def nth_Cons')
qed

lemma short_esc_Some:
  "short_esc c = Some d \<Longrightarrow> d \<noteq> CHR ''u'' \<and> unshort d = c"
  by (auto simp: short_esc_def unshort_def split: if_splits)

lemma short_esc_None: "short_esc c = None \<Longrightarrow> c \<noteq> CHR 0x5C \<and> c \<noteq> CHR 0x22"
  by (auto simp: short_esc_def)

lemma unesc_esc: "unesc (esc c @ x) = (c, x)"
proof (cases "short_esc c")
  case (Some d)
  then show ?thesis using short_esc_Some [OF Some] by (simp add: esc_def)
next
  case None
  note plain = short_esc_None [OF None]
  show ?thesis
  proof (cases "needs_u c")
    case True
    have "(of_char c :: nat) < 256" by simp
    then have "(of_char c :: nat) div 16 < 16" and "(of_char c :: nat) mod 16 < 16"
      by (simp_all add: less_mult_imp_div_less)
    with None True show ?thesis
      by (simp add: esc_def esc_u_def unhex_hexdigit)
  next
    case False
    with None plain show ?thesis by (cases x) (simp_all add: esc_def)
  qed
qed

lemma esc_inject [simp]: "esc c @ x = esc d @ y \<longleftrightarrow> c = d \<and> x = y"
  by (metis unesc_esc prod.inject)

lemma esc_nonempty [simp]: "esc c \<noteq> []"
  by (simp add: esc_def esc_u_def split: option.split)

lemma esc_not_quote: "esc c @ x \<noteq> CHR 0x22 # y"
  using short_esc_None [of c] by (auto simp: esc_def esc_u_def split: option.splits if_splits)

section \<open>Marshalling is injective\<close>

lemma escapes_inject:
  "concat (map esc s) @ CHR 0x22 # x = concat (map esc t) @ CHR 0x22 # y \<Longrightarrow> s = t \<and> x = y"
proof (induction s arbitrary: t)
  case Nil
  then show ?case
  proof (cases t)
    case (Cons d t')
    with Nil have "esc d @ (concat (map esc t') @ CHR 0x22 # y) = CHR 0x22 # x" by simp
    then show ?thesis by (simp only: esc_not_quote)
  qed simp
next
  case (Cons c s)
  show ?case
  proof (cases t)
    case Nil
    with Cons.prems have "esc c @ (concat (map esc s) @ CHR 0x22 # x) = CHR 0x22 # y" by simp
    then show ?thesis by (simp only: esc_not_quote)
  next
    case (Cons d t')
    with Cons.prems have "c = d"
      and "concat (map esc s) @ CHR 0x22 # x = concat (map esc t') @ CHR 0x22 # y"
      by simp_all
    with Cons Cons.IH [of t'] show ?thesis by simp
  qed
qed

lemma quote_inject [simp]: "quote s @ x = quote t @ y \<longleftrightarrow> s = t \<and> x = y"
  using escapes_inject [of s x t y] by (auto simp: quote_def)

lemma quote_Cons: "\<exists>r. quote s = CHR 0x22 # r"
  by (simp add: quote_def)

lemma marshal_value_inject: "marshal_value v @ x = marshal_value w @ y \<Longrightarrow> v = w \<and> x = y"
  using quote_Cons
  by (cases v; cases w) (auto simp: quote_def dest: escapes_inject split: if_splits)

lemma marshal_members_Cons:
  "marshal_members ((k, v) # ms) @ ''}'' =
     quote k @ CHR '':'' # marshal_value v @
       (if ms = [] then ''}'' else CHR '','' # marshal_members ms @ ''}'')"
  by (cases ms) auto

lemma marshal_members_inject:
  "marshal_members ms @ ''}'' = marshal_members ns @ ''}'' \<Longrightarrow> ms = ns"
proof (induction ms arbitrary: ns)
  case Nil
  then have "marshal_members ns = []" by simp
  then show ?case by (cases ns rule: marshal_members.cases) (auto simp: quote_def)
next
  case (Cons m ms)
  obtain k v where m: "m = (k, v)" by (cases m)
  show ?case
  proof (cases ns)
    case Nil
    with Cons.prems have "marshal_members (m # ms) = []" by simp
    then show ?thesis by (cases "m # ms" rule: marshal_members.cases) (auto simp: quote_def)
  next
    case (Cons n ns')
    obtain l w where n: "n = (l, w)" by (cases n)
    let ?t = "\<lambda>xs. if xs = [] then ''}'' else CHR '','' # marshal_members xs @ ''}''"
    have "quote k @ CHR '':'' # marshal_value v @ ?t ms = quote l @ CHR '':'' # marshal_value w @ ?t ns'"
      using Cons.prems Cons m n by (simp only: marshal_members_Cons)
    then have "k = l" and "marshal_value v @ ?t ms = marshal_value w @ ?t ns'" by simp_all
    then have "v = w" and tails: "?t ms = ?t ns'" using marshal_value_inject by blast+
    have "ms = ns'"
    proof (cases "ms = [] \<or> ns' = []")
      case True
      with tails show ?thesis by (auto split: if_splits)
    next
      case False
      with tails have "marshal_members ms @ ''}'' = marshal_members ns' @ ''}''" by simp
      then show ?thesis by (rule Cons.IH)
    qed
    with \<open>k = l\<close> \<open>v = w\<close> m n Cons show ?thesis by simp
  qed
qed

theorem marshal_object_inject: "marshal_object ms = marshal_object ns \<longleftrightarrow> ms = ns"
  using marshal_members_inject [of ms ns] by (auto simp: marshal_object_def)

end
