(* ===== verification/Audit_Chain.thy ===== *)
theory Audit_Chain
  imports Contracts Json
begin

text \<open>
  The hash-chained audit log, \<open>internal/audit/audit.go\<close>. The bbolt bucket is the record \<open>Bolt\<close>: its
  sequence counter and its cells in key order (the keys are the zero-padded sequence numbers, so key
  order is numeric order). A cell holds the record its bytes unmarshal to, \<open>None\<close> for bytes that do
  not unmarshal (so \<open>Log\<close> stores the record itself, which is what reading its JSON back gives as long as the strings are
  valid UTF-8). Two parameters stand for library functions: \<open>sha\<close>, the hexadecimal SHA-256 digest of
  a byte string, and \<open>fmt_time\<close>, the RFC 3339 text of an instant. The transaction of \<open>Log\<close> either
  commits or fails with the database's error and leaves the bucket as it was; \<open>db_err\<close> says which.

  The lemmas show that logging is append-only and keeps the chain intact, and that the chain is tamper
  evident: two intact chains of one length with the same head hash hold the same records, unless they
  exhibit a collision of the digest.
\<close>

record Bolt =
  bolt_seq :: nat
  bolt_cells :: "(nat \<times> AuditRecord option) list"

text \<open>The log of a file that did not exist, and what \<open>Open\<close> of the source makes of a path. \<open>opened\<close> is what bbolt
  found there: an error (of the file, its lock or the transaction that creates the bucket), no bucket yet, or the bucket of an
  earlier process, which is continued as it is.\<close>

definition Open :: Bolt where
  "Open = \<lparr>bolt_seq = 0, bolt_cells = []\<rparr>"

definition Open_file :: "string + Bolt option \<Rightarrow> string + Bolt" where
  "Open_file opened =
     (case opened of
        Inl e \<Rightarrow> Inl e
      | Inr bucket \<Rightarrow> Inr (case bucket of None \<Rightarrow> Open | Some b \<Rightarrow> b))"

definition omitempty :: "string \<Rightarrow> string \<Rightarrow> (string \<times> jval) list" where
  "omitempty k v = (if v = [] then [] else [(k, JStr v)])"

definition record_members :: "(int \<Rightarrow> string) \<Rightarrow> AuditRecord \<Rightarrow> (string \<times> jval) list" where
  "record_members fmt_time r =
     [(''Timestamp'', JStr (fmt_time (ar_Timestamp r))), (''IntentID'', JStr (ar_IntentID r)),
      (''SubjectID'', JStr (ar_SubjectID r)), (''Action'', JStr (ar_Action r)),
      (''Decision'', JStr (ar_Decision r)), (''PolicyID'', JStr (ar_PolicyID r)),
      (''IsAI'', JBool (ar_IsAI r))]
     @ omitempty ''Via'' (ar_Via r) @ omitempty ''RunID'' (ar_RunID r)
     @ omitempty ''ParentID'' (ar_ParentID r) @ omitempty ''StepID'' (ar_StepID r)
     @ [(''PrevHash'', JStr (ar_PrevHash r)), (''Hash'', JStr (ar_Hash r))]"

definition marshal_record :: "(int \<Rightarrow> string) \<Rightarrow> AuditRecord \<Rightarrow> string" where
  "marshal_record fmt_time r = marshal_object (record_members fmt_time r)"

definition hashRecord :: "(string \<Rightarrow> string) \<Rightarrow> (int \<Rightarrow> string) \<Rightarrow> AuditRecord \<Rightarrow> string" where
  "hashRecord sha fmt_time r = sha (marshal_record fmt_time (r\<lparr>ar_Hash := []\<rparr>))"

text \<open>The key of the last cell is the largest; \<open>Put\<close> keeps the cells in key order.\<close>

fun bucket_put :: "nat \<Rightarrow> 'v \<Rightarrow> (nat \<times> 'v) list \<Rightarrow> (nat \<times> 'v) list" where
  "bucket_put k v [] = [(k, v)]"
| "bucket_put k v ((k', v') # cs) =
     (if k < k' then (k, v) # (k', v') # cs
      else if k = k' then (k, v) # cs else (k', v') # bucket_put k v cs)"

definition last_hash :: "(nat \<times> AuditRecord option) list \<Rightarrow> string" where
  "last_hash cs =
     (if cs = [] then [] else case snd (last cs) of None \<Rightarrow> [] | Some prev \<Rightarrow> ar_Hash prev)"

definition Log :: "(string \<Rightarrow> string) \<Rightarrow> (int \<Rightarrow> string) \<Rightarrow> string option \<Rightarrow> Bolt \<Rightarrow> AuditRecord
                    \<Rightarrow> (string + AuditRecord) \<times> Bolt" where
  "Log sha fmt_time db_err b rec0 =
     (let rec1 = rec0\<lparr>ar_PrevHash := last_hash (bolt_cells b)\<rparr>;
          rec2 = rec1\<lparr>ar_Hash := hashRecord sha fmt_time rec1\<rparr>;
          s = Suc (bolt_seq b)
      in case db_err of
           Some e \<Rightarrow> (Inl e, b)
         | None \<Rightarrow> (Inr rec2, \<lparr>bolt_seq = s, bolt_cells = bucket_put s (Some rec2) (bolt_cells b)\<rparr>))"

definition Count :: "Bolt \<Rightarrow> nat" where
  "Count b = length (bolt_cells b)"

text \<open>\<open>Records\<close> walks from the newest cell; \<open>Inl\<close> is the first cell that does not unmarshal.\<close>

fun records_walk :: "int \<Rightarrow> AuditRecord list \<Rightarrow> (nat \<times> AuditRecord option) list
                      \<Rightarrow> nat + AuditRecord list" where
  "records_walk limit out [] = Inr out"
| "records_walk limit out ((k, None) # cs) = Inl k"
| "records_walk limit out ((k, Some r) # cs) =
     (if 0 < limit \<and> limit \<le> int (length (out @ [r])) then Inr (out @ [r])
      else records_walk limit (out @ [r]) cs)"

definition Records :: "Bolt \<Rightarrow> int \<Rightarrow> nat + AuditRecord list" where
  "Records b limit = records_walk limit [] (rev (bolt_cells b))"

fun verify_from :: "(string \<Rightarrow> string) \<Rightarrow> (int \<Rightarrow> string) \<Rightarrow> string
                     \<Rightarrow> (nat \<times> AuditRecord option) list \<Rightarrow> bool" where
  "verify_from sha fmt_time prevHash [] = True"
| "verify_from sha fmt_time prevHash ((k, None) # cs) = False"
| "verify_from sha fmt_time prevHash ((k, Some r) # cs) =
     (if ar_PrevHash r \<noteq> prevHash \<or> hashRecord sha fmt_time r \<noteq> ar_Hash r then False
      else verify_from sha fmt_time (ar_Hash r) cs)"

definition Verify :: "(string \<Rightarrow> string) \<Rightarrow> (int \<Rightarrow> string) \<Rightarrow> Bolt \<Rightarrow> bool" where
  "Verify sha fmt_time b = verify_from sha fmt_time [] (bolt_cells b)"

section \<open>The interface of an audit logger\<close>

text \<open>
  What the door relies on (\<open>AuditLogger\<close> in \<open>contracts.go\<close>): a successful \<open>log\<close> appends exactly one
  record with the content it was given, a failed one changes nothing, the trail stays intact.
\<close>

definition same_content :: "AuditRecord \<Rightarrow> AuditRecord \<Rightarrow> bool" where
  "same_content r q \<longleftrightarrow>
     r\<lparr>ar_PrevHash := [], ar_Hash := []\<rparr> = q\<lparr>ar_PrevHash := [], ar_Hash := []\<rparr>"

locale audit_logger =
  fixes log :: "'s \<Rightarrow> AuditRecord \<Rightarrow> (string + AuditRecord) \<times> 's"
    and trail :: "'s \<Rightarrow> AuditRecord list"
    and intact :: "'s \<Rightarrow> bool"
  assumes log_ok: "intact s \<Longrightarrow> log s r = (Inr r', s') \<Longrightarrow>
      trail s' = trail s @ [r'] \<and> same_content r' r \<and> intact s'"
    and log_error: "log s r = (Inl e, s') \<Longrightarrow> s' = s"
begin

lemma log_extends:
  assumes "intact s" and "log s r = (x, s')"
  shows "intact s' \<and> (\<exists>new. trail s' = trail s @ new \<and> length new \<le> 1)"
proof (cases x)
  case (Inl e)
  with assms log_error show ?thesis by fastforce
next
  case (Inr r')
  with assms log_ok show ?thesis by fastforce
qed

end

section \<open>The bucket\<close>

definition wf_bolt :: "Bolt \<Rightarrow> bool" where
  "wf_bolt b \<longleftrightarrow> (\<forall>(k, _) \<in> set (bolt_cells b). k \<le> bolt_seq b)"

definition bolt_trail :: "Bolt \<Rightarrow> AuditRecord list" where
  "bolt_trail b = map (the \<circ> snd) (bolt_cells b)"

definition intact_bolt :: "(string \<Rightarrow> string) \<Rightarrow> (int \<Rightarrow> string) \<Rightarrow> Bolt \<Rightarrow> bool" where
  "intact_bolt sha fmt_time b \<longleftrightarrow> wf_bolt b \<and> Verify sha fmt_time b"

lemma bucket_put_append:
  "(\<forall>(k', _) \<in> set cs. k' < k) \<Longrightarrow> bucket_put k v cs = cs @ [(k, v)]"
  by (induction cs) auto

lemma wf_Open: "wf_bolt Open"
  by (simp add: wf_bolt_def Open_def)

lemma Log_cells:
  assumes "wf_bolt b" and "Log sha fmt_time None b r = (x, b')"
  shows "bolt_cells b' = bolt_cells b @ [(Suc (bolt_seq b), Some (projr x))]"
proof -
  have "\<forall>(k', _) \<in> set (bolt_cells b). k' < Suc (bolt_seq b)"
    using assms(1) by (auto simp: wf_bolt_def le_imp_less_Suc)
  with assms(2) show ?thesis by (auto simp: Log_def Let_def bucket_put_append)
qed

lemma wf_Log: "wf_bolt b \<Longrightarrow> Log sha fmt_time e b r = (x, b') \<Longrightarrow> wf_bolt b'"
proof -
  assume wf: "wf_bolt b" and log: "Log sha fmt_time e b r = (x, b')"
  show ?thesis
  proof (cases e)
    case None
    with log have "bolt_cells b' = bolt_cells b @ [(Suc (bolt_seq b), Some (projr x))]"
      using Log_cells wf by blast
    moreover have "bolt_seq b' = Suc (bolt_seq b)"
      using log None by (auto simp: Log_def Let_def)
    ultimately show ?thesis using wf by (fastforce simp: wf_bolt_def)
  next
    case (Some m)
    with log wf show ?thesis by (auto simp: Log_def Let_def)
  qed
qed

lemma hashRecord_ignores_Hash [simp]:
  "hashRecord sha fmt_time (r\<lparr>ar_Hash := h\<rparr>) = hashRecord sha fmt_time r"
  by (simp add: hashRecord_def)

section \<open>Verification of extended and shortened chains\<close>

lemma last_hash_append [simp]: "last_hash (cs @ [(k, Some r)]) = ar_Hash r"
  by (simp add: last_hash_def)

lemma verify_from_append:
  "verify_from sha fmt_time p (cs @ ds) \<longleftrightarrow>
     verify_from sha fmt_time p cs \<and>
     verify_from sha fmt_time (if cs = [] then p else last_hash cs) ds"
proof (induction cs arbitrary: p)
  case Nil
  then show ?case by simp
next
  case (Cons c cs)
  obtain k x where c: "c = (k, x)" by (cases c)
  show ?case
  proof (cases x)
    case None
    with c show ?thesis by simp
  next
    case (Some r)
    with c Cons.IH [of "ar_Hash r"] show ?thesis by (auto simp: last_hash_def)
  qed
qed

lemma Verify_Log:
  assumes "wf_bolt b" and "Verify sha fmt_time b" and "Log sha fmt_time e b r = (x, b')"
  shows "Verify sha fmt_time b'"
proof (cases e)
  case None
  with assms have cells: "bolt_cells b' = bolt_cells b @ [(Suc (bolt_seq b), Some (projr x))]"
    using Log_cells by blast
  have "x = Inr (r\<lparr>ar_PrevHash := last_hash (bolt_cells b),
      ar_Hash := hashRecord sha fmt_time (r\<lparr>ar_PrevHash := last_hash (bolt_cells b)\<rparr>)\<rparr>)"
    using assms(3) None by (auto simp: Log_def Let_def)
  with assms(2) cells show ?thesis
    by (auto simp: Verify_def verify_from_append last_hash_def)
next
  case (Some m)
  with assms show ?thesis by (auto simp: Log_def Let_def)
qed

interpretation bolt: audit_logger "Log sha fmt_time e" bolt_trail "intact_bolt sha fmt_time"
  for sha fmt_time e
proof unfold_locales
  fix s s' :: Bolt and r r' :: AuditRecord
  assume inv: "intact_bolt sha fmt_time s" and log: "Log sha fmt_time e s r = (Inr r', s')"
  then have e: "e = None" by (cases e) (auto simp: Log_def Let_def)
  have "bolt_cells s' = bolt_cells s @ [(Suc (bolt_seq s), Some r')]"
    using Log_cells [of s sha fmt_time r "Inr r'" s'] inv log e by (simp add: intact_bolt_def)
  then have "bolt_trail s' = bolt_trail s @ [r']" by (simp add: bolt_trail_def)
  moreover have "same_content r' r"
    using log e by (auto simp: Log_def Let_def same_content_def)
  moreover have "intact_bolt sha fmt_time s'"
    using inv log wf_Log Verify_Log by (auto simp: intact_bolt_def)
  ultimately show "bolt_trail s' = bolt_trail s @ [r'] \<and> same_content r' r
      \<and> intact_bolt sha fmt_time s'" by simp
next
  fix s s' :: Bolt and r :: AuditRecord and m :: string
  assume "Log sha fmt_time e s r = (Inl m, s')"
  then show "s' = s" by (auto simp: Log_def Let_def split: option.splits)
qed

section \<open>Tamper evidence\<close>

lemma record_members_lookup:
  "map_of (record_members fmt_time r) ''Via'' = (if ar_Via r = [] then None else Some (JStr (ar_Via r)))"
  "map_of (record_members fmt_time r) ''RunID'' =
     (if ar_RunID r = [] then None else Some (JStr (ar_RunID r)))"
  "map_of (record_members fmt_time r) ''ParentID'' =
     (if ar_ParentID r = [] then None else Some (JStr (ar_ParentID r)))"
  "map_of (record_members fmt_time r) ''StepID'' =
     (if ar_StepID r = [] then None else Some (JStr (ar_StepID r)))"
  "map_of (record_members fmt_time r) ''PrevHash'' = Some (JStr (ar_PrevHash r))"
  "map_of (record_members fmt_time r) ''Hash'' = Some (JStr (ar_Hash r))"
  "map_of (record_members fmt_time r) ''Timestamp'' = Some (JStr (fmt_time (ar_Timestamp r)))"
  "map_of (record_members fmt_time r) ''IntentID'' = Some (JStr (ar_IntentID r))"
  "map_of (record_members fmt_time r) ''SubjectID'' = Some (JStr (ar_SubjectID r))"
  "map_of (record_members fmt_time r) ''Action'' = Some (JStr (ar_Action r))"
  "map_of (record_members fmt_time r) ''Decision'' = Some (JStr (ar_Decision r))"
  "map_of (record_members fmt_time r) ''PolicyID'' = Some (JStr (ar_PolicyID r))"
  "map_of (record_members fmt_time r) ''IsAI'' = Some (JBool (ar_IsAI r))"
  by (simp_all add: record_members_def omitempty_def)

lemma record_members_inject:
  assumes "inj_on fmt_time {ar_Timestamp r, ar_Timestamp q}"
    and eq: "record_members fmt_time r = record_members fmt_time q"
  shows "r = q"
proof -
  note l = record_members_lookup [of fmt_time r, unfolded eq] record_members_lookup [of fmt_time q]
  have "ar_Via r = ar_Via q" using l(1,14) by (auto split: if_splits)
  moreover have "ar_RunID r = ar_RunID q" using l(2,15) by (auto split: if_splits)
  moreover have "ar_ParentID r = ar_ParentID q" using l(3,16) by (auto split: if_splits)
  moreover have "ar_StepID r = ar_StepID q" using l(4,17) by (auto split: if_splits)
  moreover have "ar_PrevHash r = ar_PrevHash q" and "ar_Hash r = ar_Hash q"
    using l(5,6,18,19) by simp_all
  moreover have "fmt_time (ar_Timestamp r) = fmt_time (ar_Timestamp q)" using l(7,20) by simp
  then have "ar_Timestamp r = ar_Timestamp q"
    by (rule inj_onD [OF assms(1)]) simp_all
  moreover have "ar_IntentID r = ar_IntentID q" and "ar_SubjectID r = ar_SubjectID q"
    and "ar_Action r = ar_Action q" using l(8-10,21-23) by simp_all
  moreover have "ar_Decision r = ar_Decision q" and "ar_PolicyID r = ar_PolicyID q"
    and "ar_IsAI r = ar_IsAI q" using l(11-13,24-26) by simp_all
  ultimately show ?thesis by simp
qed

lemma marshal_record_inject:
  "inj_on fmt_time {ar_Timestamp r, ar_Timestamp q} \<Longrightarrow>
     marshal_record fmt_time r = marshal_record fmt_time q \<Longrightarrow> r = q"
  by (simp add: marshal_record_def marshal_object_inject record_members_inject)

definition collision :: "(string \<Rightarrow> string) \<Rightarrow> bool" where
  "collision sha \<longleftrightarrow> (\<exists>x y. x \<noteq> y \<and> sha x = sha y)"

lemma hashRecord_inject:
  assumes "inj_on fmt_time {ar_Timestamp r, ar_Timestamp q}" and "\<not> collision sha"
    and "ar_Hash r = ar_Hash q"
    and "hashRecord sha fmt_time r = hashRecord sha fmt_time q"
  shows "r = q"
proof -
  from assms(2,4) have "marshal_record fmt_time (r\<lparr>ar_Hash := []\<rparr>)
      = marshal_record fmt_time (q\<lparr>ar_Hash := []\<rparr>)"
    by (auto simp: hashRecord_def collision_def)
  then have "r\<lparr>ar_Hash := []\<rparr> = q\<lparr>ar_Hash := []\<rparr>"
    using assms(1) by (intro marshal_record_inject) simp_all
  with assms(3) show ?thesis by (cases r; cases q) simp
qed

lemma verify_snoc:
  "verify_from sha fmt_time [] (cs @ [(k, x)]) \<longleftrightarrow>
     verify_from sha fmt_time [] cs \<and>
     (\<exists>r. x = Some r \<and> ar_PrevHash r = last_hash cs \<and> hashRecord sha fmt_time r = ar_Hash r)"
  by (cases x) (auto simp: verify_from_append last_hash_def)

definition stamps_in :: "int set \<Rightarrow> (nat \<times> AuditRecord option) list \<Rightarrow> bool" where
  "stamps_in T cs \<longleftrightarrow> (\<forall>k r. (k, Some r) \<in> set cs \<longrightarrow> ar_Timestamp r \<in> T)"

lemma stamps_in_append: "stamps_in T (cs @ ds) \<longleftrightarrow> stamps_in T cs \<and> stamps_in T ds"
  by (auto simp: stamps_in_def)

lemma chain_determined:
  assumes "inj_on fmt_time T" and "\<not> collision sha"
  shows "stamps_in T cs \<Longrightarrow> stamps_in T ds \<Longrightarrow> verify_from sha fmt_time [] cs \<Longrightarrow> verify_from sha fmt_time [] ds \<Longrightarrow>
    length cs = length ds \<Longrightarrow> last_hash cs = last_hash ds \<Longrightarrow> map snd cs = map snd ds"
proof (induction cs arbitrary: ds rule: rev_induct)
  case Nil
  then show ?case by simp
next
  case (snoc c cs)
  obtain k x where c: "c = (k, x)" by (cases c)
  obtain ds' l y where ds: "ds = ds' @ [(l, y)]"
    using snoc.prems(5) by (cases ds rule: rev_exhaust) (auto simp: prod_eq_iff)
  obtain r where r: "x = Some r" "ar_PrevHash r = last_hash cs" "hashRecord sha fmt_time r = ar_Hash r"
    and v1: "verify_from sha fmt_time [] cs" using snoc.prems(3) c by (auto simp: verify_snoc)
  obtain q where q: "y = Some q" "ar_PrevHash q = last_hash ds'" "hashRecord sha fmt_time q = ar_Hash q"
    and v2: "verify_from sha fmt_time [] ds'" using snoc.prems(4) ds by (auto simp: verify_snoc)
  have T: "stamps_in T cs" "stamps_in T ds'" "ar_Timestamp r \<in> T" "ar_Timestamp q \<in> T"
    using snoc.prems(1,2) c ds r(1) q(1) by (auto simp: stamps_in_append) (auto simp: stamps_in_def)
  then have "inj_on fmt_time {ar_Timestamp r, ar_Timestamp q}"
    by (intro inj_on_subset [OF assms(1)]) simp
  moreover have "ar_Hash r = ar_Hash q" using snoc.prems(6) c ds r(1) q(1) by simp
  ultimately have "r = q" using hashRecord_inject assms(2) r(3) q(3) by metis
  then have "last_hash cs = last_hash ds'" using r(2) q(2) by simp
  moreover have "length cs = length ds'" using snoc.prems(5) ds by simp
  ultimately have "map snd cs = map snd ds'" using snoc.IH v1 v2 T(1,2) by blast
  with \<open>r = q\<close> r(1) q(1) c ds show ?case by simp
qed

lemma verify_take: "verify_from sha fmt_time p cs \<Longrightarrow> verify_from sha fmt_time p (take n cs)"
  by (metis append_take_drop_id verify_from_append)

section \<open>Reading the trail\<close>

lemma records_walk_all:
  assumes "\<forall>(k, x) \<in> set cs. x \<noteq> None" and "\<not> (0 < limit \<and> limit \<le> int (length out))"
  shows "records_walk limit out cs =
    Inr (let rs = out @ map (the \<circ> snd) cs in if 0 < limit then take (nat limit) rs else rs)"
  using assms
proof (induction cs arbitrary: out)
  case Nil
  then show ?case by (auto simp: Let_def)
next
  case (Cons c cs)
  then obtain k r where c: "c = (k, Some r)" by (cases c) auto
  show ?case
  proof (cases "0 < limit \<and> limit \<le> int (length (out @ [r]))")
    case True
    with Cons.prems have "nat limit = length (out @ [r])" by auto
    with True c show ?thesis by (simp add: Let_def)
  next
    case False
    then have "records_walk limit out (c # cs) = records_walk limit (out @ [r]) cs"
      unfolding c records_walk.simps by (rule if_not_P)
    with Cons.IH [OF _ False] Cons.prems c show ?thesis by (simp add: Let_def)
  qed
qed

lemma verify_no_garbage: "verify_from sha fmt_time p cs \<Longrightarrow> \<forall>(k, x) \<in> set cs. x \<noteq> None"
  by (induction sha fmt_time p cs rule: verify_from.induct) (auto split: if_splits)

lemma Records_intact:
  assumes "Verify sha fmt_time b"
  shows "Records b limit =
    Inr (if 0 < limit then take (nat limit) (rev (bolt_trail b)) else rev (bolt_trail b))"
proof -
  have "\<forall>(k, x) \<in> set (rev (bolt_cells b)). x \<noteq> None"
    using verify_no_garbage assms by (simp add: Verify_def)
  then show ?thesis
    using records_walk_all [of "rev (bolt_cells b)" limit "[]"]
    by (simp add: Records_def Let_def bolt_trail_def rev_map)
qed

section \<open>Properties\<close>

text \<open>C6: an intact audit chain stays intact under \<open>Log\<close>, and \<open>Log\<close> is append-only: a committed call
  adds exactly one record, with the caller's content, at the end of the trail and counts it; a call whose
  transaction fails leaves the bucket as it was.\<close>

theorem Log_appends_and_stays_intact:
  assumes "intact_bolt sha fmt_time b" and "Log sha fmt_time db_err b r = (x, b')"
  shows "intact_bolt sha fmt_time b' \<and>
    (case x of
       Inl e \<Rightarrow> b' = b \<and> db_err = Some e
     | Inr r' \<Rightarrow> bolt_trail b' = bolt_trail b @ [r'] \<and> same_content r' r \<and>
                  Count b' = Suc (Count b) \<and> Records b' 1 = Inr [r'])"
proof (cases x)
  case (Inl e)
  with assms show ?thesis by (auto simp: Log_def Let_def split: option.splits)
next
  case (Inr r')
  with assms have ok: "bolt_trail b' = bolt_trail b @ [r']" "same_content r' r"
    "intact_bolt sha fmt_time b'"
    using bolt.log_ok by metis+
  then have "Records b' 1 = Inr [r']"
    using Records_intact [of sha fmt_time b' 1] by (simp add: intact_bolt_def)
  moreover have "Count b' = Suc (Count b)"
    using arg_cong [OF ok(1), of length] by (simp add: Count_def bolt_trail_def)
  ultimately show ?thesis using ok Inr by simp
qed

definition sample_record :: AuditRecord where
  "sample_record = \<lparr>ar_Timestamp = 0, ar_IntentID = ''INT-1'', ar_SubjectID = ''alice'',
     ar_Action = ''job.run'', ar_Decision = ActionAllow, ar_PolicyID = ''mantlekeep.rbac'',
     ar_IsAI = False, ar_Via = [], ar_RunID = [], ar_ParentID = [], ar_StepID = [],
     ar_PrevHash = [], ar_Hash = []\<rparr>"

lemma intact_Open: "intact_bolt sha fmt_time Open"
  by (simp add: intact_bolt_def wf_Open Verify_def) (simp add: Open_def)

theorem Log_appends_and_stays_intact_witness:
  "intact_bolt id (\<lambda>_. []) (snd (Log id (\<lambda>_. []) None Open sample_record)) \<and>
   Count (snd (Log id (\<lambda>_. []) None Open sample_record)) = 1"
proof -
  obtain x b' where log: "Log id (\<lambda>_. []) None Open sample_record = (x, b')" by fastforce
  have "\<exists>r'. x = Inr r'" using log by (auto simp: Log_def Let_def)
  then show ?thesis
    using Log_appends_and_stays_intact [OF intact_Open log] log
    by (auto simp: Count_def Open_def)
qed

text \<open>C21: the chain is tamper evident. Two intact chains with the same number of records and the same
  head hash hold the same records, or SHA-256 has a collision; so no record of a chain whose length and
  head hash are known can be changed, reordered or replaced without \<open>Verify\<close> reporting it. The time
  format is assumed to distinguish the instants on the two chains.\<close>

theorem chain_tamper_evident:
  assumes "inj_on fmt_time T" and "stamps_in T (bolt_cells b)" and "stamps_in T (bolt_cells b')"
    and "Verify sha fmt_time b" and "Verify sha fmt_time b'"
    and "Count b = Count b'" and "last_hash (bolt_cells b) = last_hash (bolt_cells b')"
  shows "bolt_trail b = bolt_trail b' \<or> collision sha"
proof (cases "collision sha")
  case False
  then have "map snd (bolt_cells b) = map snd (bolt_cells b')"
    by (intro chain_determined [OF assms(1)])
      (use assms in \<open>simp_all add: Verify_def Count_def\<close>)
  then have "map the (map snd (bolt_cells b)) = map the (map snd (bolt_cells b'))" by simp
  then show ?thesis by (simp add: bolt_trail_def)
qed simp

theorem chain_tamper_evident_witness:
  "\<exists>b b'. b = snd (Log id (\<lambda>_. []) None Open sample_record) \<and>
     b' = snd (Log id (\<lambda>_. []) None Open (sample_record\<lparr>ar_Decision := ActionDeny\<rparr>)) \<and>
     Verify id (\<lambda>_. []) b \<and> Verify id (\<lambda>_. []) b' \<and> last_hash (bolt_cells b) \<noteq> last_hash (bolt_cells b')"
proof -
  let ?b = "snd (Log id (\<lambda>_. []) None Open sample_record)"
  let ?b' = "snd (Log id (\<lambda>_. []) None Open (sample_record\<lparr>ar_Decision := ActionDeny\<rparr>))"
  have T: "stamps_in {0} (bolt_cells ?b)" "stamps_in {0} (bolt_cells ?b')"
    by (simp_all add: stamps_in_def Log_def Let_def Open_def sample_record_def)
  have V: "Verify id (\<lambda>_. []) ?b" "Verify id (\<lambda>_. []) ?b'" "Count ?b = Count ?b'"
    by (simp_all add: Verify_def Log_def Let_def Open_def last_hash_def Count_def)
  have d: "bolt_trail ?b \<noteq> bolt_trail ?b'"
    by (simp add: bolt_trail_def Log_def Let_def Open_def sample_record_def)
  have c: "\<not> collision (id :: string \<Rightarrow> string)" by (simp add: collision_def)
  have "last_hash (bolt_cells ?b) \<noteq> last_hash (bolt_cells ?b')"
    using chain_tamper_evident [OF _ T V] d c by auto
  then show ?thesis using V by blast
qed

end
