(* ===== verification/Failsafe.thy ===== *)
theory Failsafe
  imports Contracts Live_Policy
begin

text \<open>
  The failsafe wrapper of the policy engine, \<open>internal/policy/failsafe.go\<close>. The primary evaluator is an
  argument: a function of its own state that returns an error or a decision. The interface \<open>total_policy\<close>
  is what the door gains from the wrapper: evaluation always yields a decision.
\<close>

record 'p Failsafe =
  fs_primary :: 'p
  fs_tripped :: bool

definition NewFailsafe :: "'p \<Rightarrow> 'p Failsafe" where
  "NewFailsafe primary = \<lparr>fs_primary = primary, fs_tripped = False\<rparr>"

definition Trip :: "'p Failsafe \<Rightarrow> 'p Failsafe" where
  "Trip f = f\<lparr>fs_tripped := True\<rparr>"

definition Reset :: "'p Failsafe \<Rightarrow> 'p Failsafe" where
  "Reset f = f\<lparr>fs_tripped := False\<rparr>"

definition Tripped :: "'p Failsafe \<Rightarrow> bool" where
  "Tripped f = fs_tripped f"

definition read_suffixes :: "string list" where
  "read_suffixes = [''.read'', ''.view'', ''.list'', ''.status'', ''.get'']"

fun has_suffix_in :: "string \<Rightarrow> string list \<Rightarrow> bool" where
  "has_suffix_in action [] = False"
| "has_suffix_in action (s # ss) = (if HasSuffix action s then True else has_suffix_in action ss)"

definition isRead :: "string \<Rightarrow> bool" where
  "isRead action = (if action = [] then False else has_suffix_in action read_suffixes)"

definition readOnly :: "string \<Rightarrow> PolicyInput \<Rightarrow> Decision" where
  "readOnly ns i =
     (if isRead (pint_Action (pin_Intent i))
      then (mk_Decision ActionAllow (''failsafe: read-only mode '' @ em_dash @ '' read permitted''))
             \<lparr>dec_PolicyID := policyID ns ''failsafe'',
              dec_Warnings := [''policy degraded to cached read-only mode'']\<rparr>
      else (mk_Decision ActionDeny (''failsafe: read-only mode '' @ em_dash @ '' writes are suspended''))
             \<lparr>dec_Category := DenialFloor, dec_PolicyID := policyID ns ''failsafe'',
              dec_Warnings := [''policy degraded to cached read-only mode'']\<rparr>)"

definition failsafe_Evaluate :: "string \<Rightarrow> ('p \<Rightarrow> PolicyInput \<Rightarrow> (string + Decision) \<times> 'p)
    \<Rightarrow> 'p Failsafe \<Rightarrow> PolicyInput \<Rightarrow> (string + Decision) \<times> 'p Failsafe" where
  "failsafe_Evaluate ns primary f i =
     (if fs_tripped f then (Inr (readOnly ns i), f)
      else (case primary (fs_primary f) i of
              (Inl err, p) \<Rightarrow> (Inr (readOnly ns i), f\<lparr>fs_primary := p\<rparr>)
            | (Inr d, p) \<Rightarrow> (Inr d, f\<lparr>fs_primary := p\<rparr>)))"

section \<open>The interface of a total policy\<close>

locale total_policy =
  fixes evaluate :: "'q \<Rightarrow> PolicyInput \<Rightarrow> (string + Decision) \<times> 'q"
  assumes never_errors: "evaluate q i \<noteq> (Inl err, q')"
begin

lemma decides: "\<exists>d q'. evaluate q i = (Inr d, q')"
  using never_errors by (cases "evaluate q i"; cases "fst (evaluate q i)") auto

end

interpretation failsafe: total_policy "failsafe_Evaluate ns primary" for ns primary
  by unfold_locales (auto simp: failsafe_Evaluate_def split: if_splits prod.splits sum.splits)

lemma isRead_iff: "isRead action \<longleftrightarrow> (\<exists>s\<in>set read_suffixes. \<exists>t. action = t @ s)"
proof -
  have "has_suffix_in action ss \<longleftrightarrow> (\<exists>s\<in>set ss. \<exists>t. action = t @ s)" for ss
    by (induction ss) (auto simp: HasSuffix_iff)
  moreover have "[] \<notin> set read_suffixes" by (simp add: read_suffixes_def)
  ultimately show ?thesis by (auto simp: isRead_def)
qed

lemma readOnly_action: "dec_Action (readOnly ns i) = (if isRead (pint_Action (pin_Intent i)) then ActionAllow else ActionDeny)"
  by (simp add: readOnly_def mk_Decision_def)

section \<open>Properties\<close>

text \<open>The wrapper fails safe, never open and never dead. Evaluation always yields a decision. While the
  primary is healthy and the wrapper is not tripped the decision is the primary's; when it is tripped or the
  primary errs, the decision allows exactly the actions whose name ends in a read suffix and denies every other
  one with a floor denial, and it is marked as degraded.\<close>

theorem Failsafe_fails_safe:
  "\<exists>d f'. failsafe_Evaluate ns primary f i = (Inr d, f') \<and> fs_tripped f' = fs_tripped f \<and>
     (if \<not> fs_tripped f \<and> (\<exists>d' p. primary (fs_primary f) i = (Inr d', p))
      then \<exists>p. primary (fs_primary f) i = (Inr d, p) \<and> fs_primary f' = p
      else (dec_Action d = ActionAllow \<longleftrightarrow> (\<exists>s\<in>set read_suffixes. \<exists>t. pint_Action (pin_Intent i) = t @ s)) \<and>
           (dec_Action d \<noteq> ActionAllow \<longrightarrow> dec_Action d = ActionDeny \<and> dec_Category d = DenialFloor) \<and>
           dec_Warnings d = [''policy degraded to cached read-only mode''])"
proof (cases "\<not> fs_tripped f \<and> (\<exists>d' p. primary (fs_primary f) i = (Inr d', p))")
  case True
  then obtain d p where "primary (fs_primary f) i = (Inr d, p)" by blast
  with True show ?thesis by (simp add: failsafe_Evaluate_def)
next
  case False
  obtain x p where x: "primary (fs_primary f) i = (x, p)" by fastforce
  have "\<exists>f'. failsafe_Evaluate ns primary f i = (Inr (readOnly ns i), f') \<and> fs_tripped f' = fs_tripped f"
    using False x by (cases x) (auto simp: failsafe_Evaluate_def)
  moreover have "(dec_Action (readOnly ns i) = ActionAllow \<longleftrightarrow> isRead (pint_Action (pin_Intent i))) \<and>
      (dec_Action (readOnly ns i) \<noteq> ActionAllow \<longrightarrow>
         dec_Action (readOnly ns i) = ActionDeny \<and> dec_Category (readOnly ns i) = DenialFloor) \<and>
      dec_Warnings (readOnly ns i) = [''policy degraded to cached read-only mode'']"
    by (simp add: readOnly_def mk_Decision_def)
  ultimately show ?thesis unfolding isRead_iff if_not_P [OF False] by blast
qed

theorem Failsafe_fails_safe_witness:
  "\<exists>d f'. failsafe_Evaluate ''acme'' (\<lambda>p i. (Inl ''engine down'', p)) (NewFailsafe ())
       \<lparr>pin_Subject = undefined, pin_Intent = \<lparr>pint_Action = ''audit.read'', pint_Resource = [], pint_Requester = [],
          pint_Env = [], pint_Goal = [], pint_Scope = [], pint_Params = []\<rparr>\<rparr> = (Inr d, f') \<and>
     dec_Action d = ActionAllow"
proof -
  let ?i = "\<lparr>pin_Subject = undefined, pin_Intent = \<lparr>pint_Action = ''audit.read'', pint_Resource = [], pint_Requester = [],
          pint_Env = [], pint_Goal = [], pint_Scope = [], pint_Params = []\<rparr>\<rparr>"
  have "\<exists>s\<in>set read_suffixes. \<exists>t. ''audit.read'' = t @ s"
    by (intro bexI [of _ "''.read''"] exI [of _ "''audit''"]) (simp_all add: read_suffixes_def)
  then show ?thesis
    using Failsafe_fails_safe [of "''acme''" "\<lambda>p i. (Inl ''engine down'', p)" "NewFailsafe ()" ?i]
    by (simp add: NewFailsafe_def) blast
qed

end
