(* ===== verification/Door.thy ===== *)
theory Door
  imports Audit_Chain Identity Failsafe Rbac
begin

text \<open>
  The one door: \<open>internal/sdk/sdk.go\<close>, and \<open>Govern\<close> of \<open>grants/change.go\<close>, which submits policy changes to it.
  The door's three collaborators are arguments (\<open>SDK\<close> holds them as interfaces): an identity resolver, a policy
  evaluator with its state, an audit logger with its state. The clock readings and the random token value are
  arguments too. Inside the locale \<open>door\<close> the door is verified against the collaborators' contracts only; it
  is interpreted on the assembly the control plane ships: the gateway resolver, the policy engine behind the
  failsafe, and the bbolt chain.
\<close>

definition two_hours :: int where "two_hours = 2 * 3600 * 10 ^ 9"

definition submit_input :: "Subject \<Rightarrow> Intent \<Rightarrow> PolicyInput" where
  "submit_input subject intent =
     (let requester = (case map_of (int_Params intent) ''requester'' of Some (AStr s) \<Rightarrow> s | _ \<Rightarrow> []);
          target = (case map_of (int_Params intent) ''env'' of Some (AStr s) \<Rightarrow> s | _ \<Rightarrow> []);
          scope = (case map_of (int_Params intent) ''scope'' of Some (AStr s) \<Rightarrow> s | _ \<Rightarrow> [])
      in \<lparr>pin_Subject = \<lparr>psub_ID = sub_ID subject, psub_Roles = sub_Roles subject, psub_IsAI = sub_IsAI subject,
                          psub_Attrs = sub_Attrs subject\<rparr>,
          pin_Intent = \<lparr>pint_Action = int_Action intent, pint_Resource = int_Resource intent,
                         pint_Requester = requester, pint_Env = target, pint_Goal = spec_Goal (int_Spec intent),
                         pint_Scope = scope, pint_Params = int_Params intent\<rparr>\<rparr>)"

definition decision_record :: "int \<Rightarrow> Intent \<Rightarrow> Subject \<Rightarrow> Decision \<Rightarrow> AuditRecord" where
  "decision_record t intent subject d =
     \<lparr>ar_Timestamp = t, ar_IntentID = int_ID intent, ar_SubjectID = sub_ID subject, ar_Action = int_Action intent,
      ar_Decision = dec_Action d, ar_PolicyID = dec_PolicyID d, ar_IsAI = sub_IsAI subject, ar_Via = int_Via intent,
      ar_RunID = [], ar_ParentID = [], ar_StepID = [], ar_PrevHash = [], ar_Hash = []\<rparr>"

definition issue_token :: "string \<Rightarrow> int \<Rightarrow> Intent \<Rightarrow> Decision \<Rightarrow> ExecutionToken" where
  "issue_token random now intent d =
     \<lparr>tok_Value = random, tok_IntentID = int_ID intent, tok_Scope = int_Resource intent,
      tok_PolicyID = dec_PolicyID d, tok_IssuedAt = now, tok_ExpiresAt = now + two_hours\<rparr>"

definition Submit ::
  "(ExternalIdentity \<Rightarrow> string + Subject) \<Rightarrow> ('p \<Rightarrow> PolicyInput \<Rightarrow> (string + Decision) \<times> 'p)
    \<Rightarrow> ('s \<Rightarrow> AuditRecord \<Rightarrow> (string + AuditRecord) \<times> 's) \<Rightarrow> int \<Rightarrow> int \<Rightarrow> string \<Rightarrow> 'p \<times> 's \<Rightarrow> Intent
    \<Rightarrow> (door_error + ExecutionToken) \<times> 'p \<times> 's" where
  "Submit resolve evaluate logger logged_at now random st intent =
     (let (p, s) = st
      in if spec_Goal (int_Spec intent) = []
         then (Inl (DecisionError ((mk_Decision ActionDeny ''intent rejected: intent_spec.goal is required'')
                      \<lparr>dec_Category := DenialValidation\<rparr>)), p, s)
         else (case resolve \<lparr>ext_ID = sub_ID (int_Subject intent), ext_Groups = sub_ADGroups (int_Subject intent),
                             ext_Attrs = []\<rparr> of
                 Inl err \<Rightarrow>
                   (Inl (DecisionError ((mk_Decision ActionDeny (''intent rejected: unknown subject '' @
                           go_quote (sub_ID (int_Subject intent)) @ '': '' @ err))\<lparr>dec_Category := DenialIdentity\<rparr>)), p, s)
               | Inr subject \<Rightarrow>
                   (case evaluate p (submit_input subject intent) of
                      (Inl err, p') \<Rightarrow> (Inl (Wrapped ''policy error: '' (PlainError err)), p', s)
                    | (Inr decision, p') \<Rightarrow>
                        (case logger s (decision_record logged_at intent subject decision) of
                           (Inl err, s') \<Rightarrow> (Inl (Wrapped ''audit error: '' (PlainError err)), p', s')
                         | (Inr _, s') \<Rightarrow>
                             if dec_Action decision \<noteq> ActionAllow
                             then (Inl (DecisionError decision), p', s')
                             else (Inr (issue_token random now intent decision), p', s')))))"

section \<open>Governed policy changes\<close>

definition ActionGrantPolicy :: string where "ActionGrantPolicy = ''policy.grant''"

definition change_intent :: "Subject \<Rightarrow> string \<Rightarrow> Change \<Rightarrow> Intent" where
  "change_intent actor before change =
     \<lparr>int_ID = [], int_Subject = actor, int_Action = ActionGrantPolicy, int_Resource = [],
      int_Spec = \<lparr>spec_Goal = Describe change, spec_AffectedSystems = [], spec_RiskLevel = RiskUnset,
                  spec_Preconditions = [], spec_Postconditions = [], spec_RollbackPlan = []\<rparr>,
      int_Params = [(''role'', AStr (chg_Role change)), (''target'', AStr (chg_Action change)),
                    (''grant'', ABool (chg_Grant change)), (''reason'', AStr (chg_Reason change)),
                    (''revision'', AStr before)],
      int_SubmittedAt = zero_time, int_TTL = 0, int_Via = []\<rparr>"

datatype govern_error =
    InvalidChange change_error
  | NoDoor
  | ReadOnlySource
  | UnreadableSource string
  | DoorRefused door_error
  | DecisionExpired
  | NotApplied string

text \<open>A nil door or writer is \<open>None\<close>; \<open>loaded\<close> is the revision \<open>source.Load\<close> returned, or its error.\<close>

definition Govern ::
  "('d \<Rightarrow> Intent \<Rightarrow> (door_error + ExecutionToken) \<times> 'd) option \<Rightarrow> Subject \<Rightarrow> string + string
    \<Rightarrow> ('w \<Rightarrow> Change \<Rightarrow> (string + string) \<times> 'w) option \<Rightarrow> int \<Rightarrow> Change \<Rightarrow> 'd \<times> 'w
    \<Rightarrow> (govern_error + string) \<times> 'd \<times> 'w" where
  "Govern door actor loaded writer now change st =
     (let (d, w) = st
      in case Validate change of
           Some e \<Rightarrow> (Inl (InvalidChange e), d, w)
         | None \<Rightarrow>
             (case door of
                None \<Rightarrow> (Inl NoDoor, d, w)
              | Some submit \<Rightarrow>
                  (case writer of
                     None \<Rightarrow> (Inl ReadOnlySource, d, w)
                   | Some write \<Rightarrow>
                       (case loaded of
                          Inl err \<Rightarrow> (Inl (UnreadableSource err), d, w)
                        | Inr before \<Rightarrow>
                            (case submit d (change_intent actor before change) of
                               (Inl err, d') \<Rightarrow> (Inl (DoorRefused err), d', w)
                             | (Inr token, d') \<Rightarrow>
                                 if \<not> Valid token now then (Inl DecisionExpired, d', w)
                                 else (case write w change of
                                         (Inl err, w') \<Rightarrow> (Inl (NotApplied err), d', w')
                                       | (Inr after, w') \<Rightarrow> (Inr after, d', w')))))))"

section \<open>The door against its collaborators' contracts\<close>

definition records :: "AuditRecord \<Rightarrow> int \<Rightarrow> Intent \<Rightarrow> Subject \<Rightarrow> Decision \<Rightarrow> bool" where
  "records r t intent subject d \<longleftrightarrow> same_content r (decision_record t intent subject d)"

lemma records_fields:
  "records r t intent subject d \<Longrightarrow>
     ar_Timestamp r = t \<and> ar_IntentID r = int_ID intent \<and> ar_SubjectID r = sub_ID subject \<and>
     ar_Action r = int_Action intent \<and> ar_Decision r = dec_Action d \<and> ar_PolicyID r = dec_PolicyID d \<and>
     ar_IsAI r = sub_IsAI subject \<and> ar_Via r = int_Via intent"
  by (cases r) (auto simp: records_def same_content_def decision_record_def)

lemma submit_input_eq: "submit_input subject intent = PolicyInputFor subject intent"
  by (simp add: submit_input_def PolicyInputFor_def param_string_def Let_def)

lemma intent_frame:
  "submit_input subject (intent\<lparr>int_Subject := x\<rparr>) = submit_input subject intent"
  "submit_input subject (intent\<lparr>int_TTL := y\<rparr>) = submit_input subject intent"
  "submit_input subject (intent\<lparr>int_SubmittedAt := y\<rparr>) = submit_input subject intent"
  "decision_record t (intent\<lparr>int_Subject := x\<rparr>) = decision_record t intent"
  "decision_record t (intent\<lparr>int_TTL := y\<rparr>) = decision_record t intent"
  "decision_record t (intent\<lparr>int_SubmittedAt := y\<rparr>) = decision_record t intent"
  "issue_token random now (intent\<lparr>int_Subject := x\<rparr>) = issue_token random now intent"
  "issue_token random now (intent\<lparr>int_TTL := y\<rparr>) = issue_token random now intent"
  "issue_token random now (intent\<lparr>int_SubmittedAt := y\<rparr>) = issue_token random now intent"
  by (simp_all add: submit_input_eq PolicyInputFor_def fun_eq_iff decision_record_def issue_token_def)

locale door =
  audit_logger logger trail intact + identity_resolver resolve + total_policy evaluate
  for logger :: "'s \<Rightarrow> AuditRecord \<Rightarrow> (string + AuditRecord) \<times> 's"
    and trail :: "'s \<Rightarrow> AuditRecord list"
    and intact :: "'s \<Rightarrow> bool"
    and resolve :: "ExternalIdentity \<Rightarrow> string + Subject"
    and evaluate :: "'p \<Rightarrow> PolicyInput \<Rightarrow> (string + Decision) \<times> 'p"
begin

lemma outcomes:
  assumes "intact s" and "Submit resolve evaluate logger t now random (p, s) intent = (x, p', s')"
  obtains (rejected) d where "x = Inl (DecisionError d)" "dec_Action d = ActionDeny" "p' = p" "s' = s"
      "spec_Goal (int_Spec intent) = [] \<or> (\<exists>e. resolve \<lparr>ext_ID = sub_ID (int_Subject intent),
          ext_Groups = sub_ADGroups (int_Subject intent), ext_Attrs = []\<rparr> = Inl e)"
  | (audit_failed) e where "x = Inl (Wrapped ''audit error: '' (PlainError e))" "s' = s"
  | (decided) subject d r where "spec_Goal (int_Spec intent) \<noteq> []"
      "resolve \<lparr>ext_ID = sub_ID (int_Subject intent), ext_Groups = sub_ADGroups (int_Subject intent), ext_Attrs = []\<rparr>
         = Inr subject"
      "evaluate p (PolicyInputFor subject intent) = (Inr d, p')"
      "trail s' = trail s @ [r]" "records r t intent subject d" "intact s'"
      "x = (if dec_Action d = ActionAllow then Inr (issue_token random now intent d) else Inl (DecisionError d))"
proof (cases "spec_Goal (int_Spec intent) = []")
  case True
  with assms(2) show ?thesis by (intro rejected) (auto simp: Submit_def mk_Decision_def)
next
  case goal: False
  let ?ext = "\<lparr>ext_ID = sub_ID (int_Subject intent), ext_Groups = sub_ADGroups (int_Subject intent), ext_Attrs = []\<rparr>"
  show ?thesis
  proof (cases "resolve ?ext")
    case (Inl e)
    with assms(2) goal show ?thesis by (intro rejected) (auto simp: Submit_def mk_Decision_def)
  next
    case (Inr subject)
    obtain d p1 where d: "evaluate p (PolicyInputFor subject intent) = (Inr d, p1)" using decides by blast
    obtain y s1 where l: "logger s (decision_record t intent subject d) = (y, s1)" by fastforce
    show ?thesis
    proof (cases y)
      case (Inl e)
      with l log_error have "s1 = s" by blast
      with assms(2) goal Inr d l Inl show ?thesis
        by (intro audit_failed) (auto simp: Submit_def submit_input_eq)
    next
      case logged: (Inr r)
      with l log_ok assms(1) have "trail s1 = trail s @ [r]" "same_content r (decision_record t intent subject d)"
        "intact s1" by blast+
      with assms(2) goal Inr d l logged show ?thesis
        by (intro decided [of subject d r]) (auto simp: Submit_def submit_input_eq records_def split: if_splits)
    qed
  qed
qed

lemma trail_extends:
  assumes "intact s" and "Submit resolve evaluate logger t now random (p, s) intent = (x, p', s')"
  shows "intact s' \<and> (\<exists>new. trail s' = trail s @ new \<and> length new \<le> 1)"
  by (rule outcomes [OF assms]) (use assms(1) in auto)

lemma token_recorded:
  assumes "intact s" and "Submit resolve evaluate logger t now random (p, s) intent = (Inr tok, p', s')"
  obtains subject d r where "resolve \<lparr>ext_ID = sub_ID (int_Subject intent),
        ext_Groups = sub_ADGroups (int_Subject intent), ext_Attrs = []\<rparr> = Inr subject"
    "evaluate p (PolicyInputFor subject intent) = (Inr d, p')" "dec_Action d = ActionAllow"
    "trail s' = trail s @ [r]" "records r t intent subject d" "intact s'"
    "tok = issue_token random now intent d" "spec_Goal (int_Spec intent) \<noteq> []"
  by (rule outcomes [OF assms]) (auto split: if_splits intro: that)

lemma governed_change_recorded:
  assumes "intact s"
    and "Govern (Some (Submit resolve evaluate logger t now random)) actor loaded writer now' change ((p, s), w)
           = (x, (p', s'), w')"
    and "w' \<noteq> w \<or> x = Inr after"
  shows "\<exists>subject r. resolve \<lparr>ext_ID = sub_ID actor, ext_Groups = sub_ADGroups actor, ext_Attrs = []\<rparr> = Inr subject \<and>
           trail s' = trail s @ [r] \<and> intact s' \<and> ar_Action r = ActionGrantPolicy \<and> ar_Decision r = ActionAllow \<and>
           ar_SubjectID r = sub_ID subject \<and> now' < now + two_hours \<and> Validate change = None"
proof -
  from assms(2,3) obtain before tok where
    ok: "Submit resolve evaluate logger t now random (p, s) (change_intent actor before change) = (Inr tok, p', s')"
    "Valid tok now'" "Validate change = None"
    by (auto simp: Govern_def split: option.splits sum.splits prod.splits if_splits)
  obtain subject d r where
    t: "resolve \<lparr>ext_ID = sub_ID (int_Subject (change_intent actor before change)),
        ext_Groups = sub_ADGroups (int_Subject (change_intent actor before change)), ext_Attrs = []\<rparr> = Inr subject"
    "dec_Action d = ActionAllow" "trail s' = trail s @ [r]" "records r t (change_intent actor before change) subject d"
    "intact s'" "tok = issue_token random now (change_intent actor before change) d"
    by (rule token_recorded [OF assms(1) ok(1)])
  then show ?thesis
    using ok(2,3) records_fields [OF t(4)] by (auto simp: change_intent_def Valid_def issue_token_def)
qed

end

section \<open>The assembled door\<close>

text \<open>\<open>RBAC.Evaluate\<close> as the failsafe's primary: it never returns an error.\<close>

definition rbac_Evaluate :: "'f engine_env \<Rightarrow> RBAC \<Rightarrow> PolicyInput \<Rightarrow> (string + Decision) \<times> RBAC" where
  "rbac_Evaluate env r i = (let (d, r') = Evaluate env r i in (Inr d, r'))"

definition door_policy :: "'f engine_env \<Rightarrow> RBAC Failsafe \<Rightarrow> PolicyInput \<Rightarrow> (string + Decision) \<times> RBAC Failsafe" where
  "door_policy env = failsafe_Evaluate (env_namespace env) (rbac_Evaluate env)"

interpretation shipped: door "Log sha fmt_time e" bolt_trail "intact_bolt sha fmt_time" "gateway_Resolve g" "door_policy env"
  for sha fmt_time e g env
proof -
  have "total_policy (door_policy env)"
    unfolding door_policy_def by (rule failsafe.total_policy_axioms)
  then show "door (Log sha fmt_time e) bolt_trail (intact_bolt sha fmt_time) (gateway_Resolve g) (door_policy env)"
    by (intro door.intro bolt.audit_logger_axioms gateway.identity_resolver_axioms)
qed

text \<open>One submission to the assembled door: the database's error, if any, and the clock and random values.\<close>

record submission =
  sm_intent :: Intent
  sm_db_err :: "string option"
  sm_logged_at :: int
  sm_now :: int
  sm_random :: string

definition door_submit :: "(string \<Rightarrow> string) \<Rightarrow> (int \<Rightarrow> string) \<Rightarrow> Gateway \<Rightarrow> 'f engine_env \<Rightarrow> RBAC Failsafe \<times> Bolt
    \<Rightarrow> submission \<Rightarrow> (door_error + ExecutionToken) \<times> RBAC Failsafe \<times> Bolt" where
  "door_submit sha fmt_time g env st m =
     Submit (gateway_Resolve g) (door_policy env) (Log sha fmt_time (sm_db_err m)) (sm_logged_at m) (sm_now m)
       (sm_random m) st (sm_intent m)"

definition door_run :: "(string \<Rightarrow> string) \<Rightarrow> (int \<Rightarrow> string) \<Rightarrow> Gateway \<Rightarrow> 'f engine_env \<Rightarrow> submission list
    \<Rightarrow> RBAC Failsafe \<times> Bolt \<Rightarrow> RBAC Failsafe \<times> Bolt" where
  "door_run sha fmt_time g env ms st = foldl (\<lambda>st m. snd (door_submit sha fmt_time g env st m)) st ms"

lemma door_submit_extends:
  assumes "intact_bolt sha fmt_time b"
  shows "intact_bolt sha fmt_time (snd (snd (door_submit sha fmt_time g env (p, b) m))) \<and>
    (\<exists>new. bolt_trail (snd (snd (door_submit sha fmt_time g env (p, b) m))) = bolt_trail b @ new)"
proof -
  obtain x p' b' where eq: "door_submit sha fmt_time g env (p, b) m = (x, p', b')"
    by (cases "door_submit sha fmt_time g env (p, b) m") auto
  show ?thesis
    using shipped.trail_extends [OF assms eq [unfolded door_submit_def]] eq by auto
qed

lemma door_run_extends:
  "intact_bolt sha fmt_time (snd st) \<Longrightarrow>
     intact_bolt sha fmt_time (snd (door_run sha fmt_time g env ms st)) \<and>
     (\<exists>new. bolt_trail (snd (door_run sha fmt_time g env ms st)) = bolt_trail (snd st) @ new)"
proof (induction ms arbitrary: st)
  case (Cons m ms)
  let ?st = "snd (door_submit sha fmt_time g env st m)"
  have one: "intact_bolt sha fmt_time (snd ?st)" "\<exists>new. bolt_trail (snd ?st) = bolt_trail (snd st) @ new"
    using door_submit_extends [OF Cons.prems, where p = "fst st" and g = g and env = env and m = m] by simp_all
  from Cons.IH [OF one(1)] one(2) show ?case by (auto simp: door_run_def)
qed (simp add: door_run_def)

lemma door_policy_healthy:
  assumes "\<not> fs_tripped f" and "door_policy env f i = (Inr d, f')"
  shows "d = fst (Evaluate env (fs_primary f) i) \<and> fs_primary f' = snd (Evaluate env (fs_primary f) i)"
  using assms by (auto simp: door_policy_def failsafe_Evaluate_def rbac_Evaluate_def split_beta Let_def)

lemma door_policy_tripped:
  assumes "fs_tripped f" and "door_policy env f i = (Inr d, f')"
  shows "d = readOnly (env_namespace env) i"
  using assms by (auto simp: door_policy_def failsafe_Evaluate_def)

lemma AI_denied_approval:
  assumes "psub_IsAI (pin_Subject i)" and "pint_Action (pin_Intent i) \<in> set (sn_approvalActions (env_policy env))"
  shows "dec_Action (fst (Evaluate env r i)) = ActionDeny"
  using assms by (simp add: Evaluate_def Let_def)

lemma Evaluate_allows:
  assumes "dec_Action (fst (Evaluate env r i)) = ActionAllow"
  shows "approvalGate (sn_floors (env_policy env)) (pint_Action (pin_Intent i)) (pint_Requester (pin_Intent i))
      (psub_ID (pin_Subject i)) (pint_Params (pin_Intent i)) = None"
    and "pint_Requester (pin_Intent i) = [] \<or> pint_Requester (pin_Intent i) \<noteq> psub_ID (pin_Subject i)"
  using assms by (auto simp: Evaluate_def Let_def mk_Decision_def split: if_splits option.splits prod.splits)

lemma Submit_allows:
  assumes "Submit resolve evaluate logger logged_at now random (p, s) intent = (Inr token, p', s')"
  obtains subject d p1 where "resolve \<lparr>ext_ID = sub_ID (int_Subject intent), ext_Groups = sub_ADGroups (int_Subject intent),
      ext_Attrs = []\<rparr> = Inr subject" "evaluate p (submit_input subject intent) = (Inr d, p1)" "dec_Action d = ActionAllow"
  using assms by (auto simp: Submit_def Let_def split: if_splits sum.splits prod.splits)

section \<open>Sample values\<close>

definition sample_gateway :: Gateway where
  "sample_gateway = NewGateway [(''ops'', [''L2-Operator'']), (''bots'', [''AI-Agent''])] []"

definition sample_intent :: "string list \<Rightarrow> string \<Rightarrow> string \<Rightarrow> Intent" where
  "sample_intent groups action target =
     \<lparr>int_ID = ''INT-1'', int_Subject = (mk_Subject ''ann'' [''L0-SuperAdmin''])\<lparr>sub_ADGroups := groups\<rparr>,
      int_Action = action, int_Resource = ''svc'',
      int_Spec = \<lparr>spec_Goal = ''ship'', spec_AffectedSystems = [], spec_RiskLevel = RiskLow, spec_Preconditions = [],
                  spec_Postconditions = [], spec_RollbackPlan = []\<rparr>,
      int_Params = [(''env'', AStr target)], int_SubmittedAt = 0, int_TTL = 60, int_Via = []\<rparr>"

definition sample_submission :: "string list \<Rightarrow> string \<Rightarrow> string \<Rightarrow> submission" where
  "sample_submission groups action target =
     \<lparr>sm_intent = sample_intent groups action target, sm_db_err = None, sm_logged_at = 100, sm_now = 101, sm_random = ''c0ffee''\<rparr>"

lemmas sample_door_defs = door_submit_def sample_submission_def sample_intent_def Submit_def gateway_Resolve_def
  sample_gateway_def NewGateway_def mk_Subject_def door_policy_def failsafe_Evaluate_def rbac_Evaluate_def
  NewFailsafe_def submit_input_def Evaluate_def sample_env_def sample_snapshot_def NewRBAC_def authorizerFor_def
  actionAllowed_def admitFloor_def evalFloorRule_def sample_rule_def approvalGate_def floorWhenMatches_def
  mk_Decision_def allow_def deny_def Log_def Let_def

section \<open>Properties\<close>

text \<open>C1: no token without a recorded allow. When the assembled door hands out an execution token, it resolved
  the caller's identity itself, the policy allowed exactly the input built from that subject and the intent, one
  record of that allow (this intent, subject, action and policy) was appended to the chain before the token
  existed, the chain still verifies, and the token names that intent, resource and policy and expires two hours
  after it was issued.\<close>

theorem token_only_after_recorded_allow:
  assumes "intact_bolt sha fmt_time b" and "door_submit sha fmt_time g env (p, b) m = (Inr tok, p', b')"
    and "intent = sm_intent m"
  shows "\<exists>subject d r. gateway_Resolve g \<lparr>ext_ID = sub_ID (int_Subject intent),
             ext_Groups = sub_ADGroups (int_Subject intent), ext_Attrs = []\<rparr> = Inr subject \<and>
           door_policy env p (PolicyInputFor subject intent) = (Inr d, p') \<and> dec_Action d = ActionAllow \<and>
           bolt_trail b' = bolt_trail b @ [r] \<and> Verify sha fmt_time b' \<and>
           ar_IntentID r = int_ID intent \<and> ar_SubjectID r = sub_ID subject \<and> ar_Action r = int_Action intent \<and>
           ar_Decision r = ActionAllow \<and> ar_PolicyID r = tok_PolicyID tok \<and> ar_IsAI r = sub_IsAI subject \<and>
           tok_IntentID tok = int_ID intent \<and> tok_Scope tok = int_Resource intent \<and>
           (\<forall>t. Valid tok t \<longleftrightarrow> t < sm_now m + two_hours)"
proof -
  obtain subject d r where t: "gateway_Resolve g \<lparr>ext_ID = sub_ID (int_Subject intent),
        ext_Groups = sub_ADGroups (int_Subject intent), ext_Attrs = []\<rparr> = Inr subject"
    "door_policy env p (PolicyInputFor subject intent) = (Inr d, p')" "dec_Action d = ActionAllow"
    "bolt_trail b' = bolt_trail b @ [r]" "records r (sm_logged_at m) intent subject d" "intact_bolt sha fmt_time b'"
    "tok = issue_token (sm_random m) (sm_now m) intent d"
    unfolding assms(3) by (rule shipped.token_recorded [OF assms(1) assms(2) [unfolded door_submit_def]])
  show ?thesis
    using t records_fields [OF t(5)] by (auto simp: intact_bolt_def issue_token_def Valid_def)
qed

theorem token_only_after_recorded_allow_witness:
  "\<exists>tok p' b' r. door_submit (\<lambda>s. s) (\<lambda>_. []) sample_gateway sample_env (NewFailsafe NewRBAC, Open)
       (sample_submission [''ops''] ''service.deploy'' ''dev'') = (Inr tok, p', b') \<and>
     bolt_trail b' = [r] \<and> ar_Decision r = ActionAllow \<and> ar_SubjectID r = ''ann''"
proof -
  let ?m = "sample_submission [''ops''] ''service.deploy'' ''dev''"
  obtain tok p' b' where eq: "door_submit (\<lambda>s. s) (\<lambda>_. []) sample_gateway sample_env (NewFailsafe NewRBAC, Open) ?m
      = (Inr tok, p', b')" by (simp add: sample_door_defs)
  have r: "gateway_Resolve sample_gateway \<lparr>ext_ID = ''ann'', ext_Groups = [''ops''], ext_Attrs = []\<rparr> = Inr subject \<Longrightarrow>
      sub_ID subject = ''ann''" for subject by (auto simp: sample_door_defs)
  show ?thesis
    using token_only_after_recorded_allow [OF intact_Open eq refl] eq r
    by (auto simp: sample_submission_def sample_intent_def mk_Subject_def bolt_trail_def Open_def)
qed



text \<open>The evidence of a deployment is append-only. After any sequence of submissions, whatever the
  policy decided and whichever database writes failed, the chain still verifies and what was recorded before
  is an initial part of what is recorded after.\<close>

theorem door_trail_append_only:
  assumes "intact_bolt sha fmt_time b"
  shows "Verify sha fmt_time (snd (door_run sha fmt_time g env ms (p, b))) \<and>
    prefix (bolt_trail b) (bolt_trail (snd (door_run sha fmt_time g env ms (p, b))))"
  using door_run_extends [of sha fmt_time "(p, b)" g env ms] assms by (auto simp: intact_bolt_def)

theorem door_trail_append_only_witness:
  "Verify (\<lambda>s. s) (\<lambda>_. []) (snd (door_run (\<lambda>s. s) (\<lambda>_. []) sample_gateway sample_env
     [sample_submission [''ops''] ''service.deploy'' ''dev'', sample_submission [''bots''] ''deploy.approve'' ''dev'']
     (NewFailsafe NewRBAC, Open)))"
  using door_trail_append_only [OF intact_Open] by blast

text \<open>A caller cannot say what it is allowed to be. The door reads only the claimed id and the verified
  groups of the intent's subject: changing the claimed roles, the AI flag and the attributes changes neither the
  answer, nor the policy engine's state, nor the chain.\<close>

theorem claimed_roles_never_read:
  assumes "sub_ID subject' = sub_ID (int_Subject intent)" and "sub_ADGroups subject' = sub_ADGroups (int_Subject intent)"
  shows "Submit resolve evaluate logger t now random st (intent\<lparr>int_Subject := subject'\<rparr>)
       = Submit resolve evaluate logger t now random st intent"
  using assms by (simp add: Submit_def intent_frame cong: if_cong sum.case_cong prod.case_cong)

theorem claimed_roles_never_read_witness:
  "fst (door_submit (\<lambda>s. s) (\<lambda>_. []) sample_gateway sample_env (NewFailsafe NewRBAC, Open)
     ((sample_submission [''ops''] ''service.deploy'' ''dev'')\<lparr>sm_intent := (sample_intent [''ops''] ''service.deploy'' ''dev'')
        \<lparr>int_Subject := (mk_Subject ''ann'' [])\<lparr>sub_ADGroups := [''ops'']\<rparr>\<rparr>\<rparr>))
   = fst (door_submit (\<lambda>s. s) (\<lambda>_. []) sample_gateway sample_env (NewFailsafe NewRBAC, Open)
     (sample_submission [''ops''] ''service.deploy'' ''dev''))"
proof -
  have "sub_ID ((mk_Subject ''ann'' [])\<lparr>sub_ADGroups := [''ops'']\<rparr>)
      = sub_ID (int_Subject (sample_intent [''ops''] ''service.deploy'' ''dev''))"
    "sub_ADGroups ((mk_Subject ''ann'' [])\<lparr>sub_ADGroups := [''ops'']\<rparr>)
      = sub_ADGroups (int_Subject (sample_intent [''ops''] ''service.deploy'' ''dev''))"
    by (simp_all add: sample_intent_def mk_Subject_def)
  then show ?thesis
    by (simp add: door_submit_def sample_submission_def claimed_roles_never_read)
qed

text \<open>An AI never approves. Through the assembled door, an identity one of whose verified groups maps to the
  AI role (or is listed as an AI group) gets no token for an approval-shaped action, whatever other roles its
  groups give it, unless the failsafe is tripped and the action is named as a read.\<close>

theorem AI_never_approves_through_the_door:
  assumes "intact_bolt sha fmt_time b" and "grp \<in> set (sub_ADGroups (int_Subject (sm_intent m)))"
    and "grp \<in> set (gw_aiGroups g) \<or> RoleAIAgent \<in> set (entries (gw_table g) grp)"
    and "int_Action (sm_intent m) \<in> set (sn_approvalActions (env_policy env))"
    and "\<not> fs_tripped p \<or> \<not> isRead (int_Action (sm_intent m))"
  shows "fst (door_submit sha fmt_time g env (p, b) m) \<noteq> Inr tok"
proof
  assume tok: "fst (door_submit sha fmt_time g env (p, b) m) = Inr tok"
  then obtain p' b' where eq: "door_submit sha fmt_time g env (p, b) m = (Inr tok, p', b')"
    by (cases "door_submit sha fmt_time g env (p, b) m") auto
  obtain subject d where t: "gateway_Resolve g \<lparr>ext_ID = sub_ID (int_Subject (sm_intent m)),
        ext_Groups = sub_ADGroups (int_Subject (sm_intent m)), ext_Attrs = []\<rparr> = Inr subject"
    "door_policy env p (PolicyInputFor subject (sm_intent m)) = (Inr d, p')" "dec_Action d = ActionAllow"
    by (rule shipped.token_recorded [OF assms(1) eq [unfolded door_submit_def]])
  have ai: "psub_IsAI (pin_Subject (PolicyInputFor subject (sm_intent m)))"
    "pint_Action (pin_Intent (PolicyInputFor subject (sm_intent m))) = int_Action (sm_intent m)"
    using gateway_Resolve_Inr [OF t(1)] assms(2,3) by (auto simp: PolicyInputFor_def)
  show False
  proof (cases "fs_tripped p")
    case True
    then have "d = readOnly (env_namespace env) (PolicyInputFor subject (sm_intent m))"
      using door_policy_tripped t(2) by blast
    with t(3) ai(2) assms(5) True show ?thesis by (simp add: readOnly_action)
  next
    case False
    then have "d = fst (Evaluate env (fs_primary p) (PolicyInputFor subject (sm_intent m)))"
      using door_policy_healthy t(2) by blast
    with t(3) ai assms(4) AI_denied_approval [of "PolicyInputFor subject (sm_intent m)" env "fs_primary p"]
    show ?thesis by simp
  qed
qed

theorem AI_never_approves_through_the_door_witness:
  "\<forall>tok. fst (door_submit (\<lambda>s. s) (\<lambda>_. []) sample_gateway sample_env (NewFailsafe NewRBAC, Open)
     (sample_submission [''ops'', ''bots''] ''deploy.approve'' ''dev'')) \<noteq> Inr tok"
  by (intro allI AI_never_approves_through_the_door [OF intact_Open, of "''bots''"])
    (simp_all add: sample_door_defs)

text \<open>A policy change is governed like any other. When \<open>Govern\<close> over the assembled door applies a change (it
  returns a revision, or the writer's state moved), the change was well formed, the door resolved the actor, and
  the chain gained exactly one record: an allow of the policy-grant action by that subject; the decision had not
  expired when the change was written. A refused, awaiting or unreadable change writes nothing.\<close>

theorem Govern_writes_only_after_recorded_allow:
  assumes "intact_bolt sha fmt_time b"
    and "Govern (Some (Submit (gateway_Resolve g) (door_policy env) (Log sha fmt_time e) t now random))
           actor loaded writer now' change ((p, b), w) = (x, (p', b'), w')"
    and "w' \<noteq> w \<or> (\<exists>after. x = Inr after)"
  shows "\<exists>subject r. gateway_Resolve g \<lparr>ext_ID = sub_ID actor, ext_Groups = sub_ADGroups actor, ext_Attrs = []\<rparr>
             = Inr subject \<and>
           bolt_trail b' = bolt_trail b @ [r] \<and> Verify sha fmt_time b' \<and> ar_Action r = ActionGrantPolicy \<and>
           ar_Decision r = ActionAllow \<and> ar_SubjectID r = sub_ID subject \<and> now' < now + two_hours \<and>
           Validate change = None"
proof -
  obtain after where "w' \<noteq> w \<or> x = Inr after" using assms(3) by blast
  from shipped.governed_change_recorded [OF assms(1,2) this] show ?thesis by (auto simp: intact_bolt_def)
qed

definition policy_admin_env :: "nat engine_env" where
  "policy_admin_env = sample_env\<lparr>env_policy := sample_snapshot\<lparr>sn_roleActions := [(''L2-Operator'', [''policy.grant''])]\<rparr>\<rparr>"

definition sample_change :: Change where
  "sample_change = \<lparr>chg_Role = ''L3-Consumer'', chg_Action = ''topic.create'', chg_Grant = True, chg_Reason = ''ticket 7''\<rparr>"

theorem Govern_writes_only_after_recorded_allow_witness:
  "\<exists>x p' b' w' r. Govern (Some (Submit (gateway_Resolve sample_gateway) (door_policy policy_admin_env)
        (Log (\<lambda>s. s) (\<lambda>_. []) None) 100 101 ''c0ffee'')) ((mk_Subject ''ann'' [])\<lparr>sub_ADGroups := [''ops'']\<rparr>) (Inr ''r1'')
        (Some (\<lambda>w c. (Inr ''r2'', w @ [c]))) 102 sample_change ((NewFailsafe NewRBAC, Open), []) = (x, (p', b'), w') \<and>
     w' = [sample_change] \<and> bolt_trail b' = [r] \<and> ar_Decision r = ActionAllow"
proof -
  let ?submit = "Submit (gateway_Resolve sample_gateway) (door_policy policy_admin_env)
      (Log (\<lambda>s. s) (\<lambda>_. []) None) 100 101 ''c0ffee''"
  let ?actor = "(mk_Subject ''ann'' [])\<lparr>sub_ADGroups := [''ops'']\<rparr>"
  have v: "Validate sample_change = None"
    by (simp add: Validate_def sample_change_def TrimSpace_def is_space_def)
  obtain tok p' b' where s: "?submit (NewFailsafe NewRBAC, Open) (change_intent ?actor ''r1'' sample_change)
      = (Inr tok, p', b')" and e: "tok_ExpiresAt tok = 101 + two_hours"
    by (simp add: sample_door_defs policy_admin_env_def change_intent_def ActionGrantPolicy_def Describe_def verb_def
        sample_change_def issue_token_def)
  have g: "Govern (Some ?submit) ?actor (Inr ''r1'') (Some (\<lambda>w c. (Inr ''r2'', w @ [c]))) 102 sample_change
      ((NewFailsafe NewRBAC, Open), []) = (Inr ''r2'', (p', b'), [sample_change])"
    using v s e by (simp add: Govern_def Valid_def two_hours_def)
  have "\<exists>r. bolt_trail b' = bolt_trail Open @ [r] \<and> ar_Decision r = ActionAllow"
    using Govern_writes_only_after_recorded_allow [OF intact_Open g] by auto
  then obtain r where "bolt_trail b' = [r]" "ar_Decision r = ActionAllow" by (auto simp: bolt_trail_def Open_def)
  with g show ?thesis by blast
qed

text \<open>An explanation judges what a submission is judged on. The input \<open>Submit\<close> builds inline is the one the
  exported \<open>PolicyInputFor\<close> builds, for every subject and every intent, whatever types its parameters have.\<close>

theorem Submit_input_is_PolicyInputFor: "submit_input subject intent = PolicyInputFor subject intent"
  by (rule submit_input_eq)

text \<open>The door does not look at an intent's time to live. The answer is the same whatever \<open>TTL\<close> and
  \<open>SubmittedAt\<close> the intent carries, so an intent long past its time to live is decided as if it were fresh.\<close>

theorem Submit_ignores_TTL:
  "Submit resolve evaluate logger t now random st (intent\<lparr>int_TTL := ttl, int_SubmittedAt := submitted\<rparr>)
     = Submit resolve evaluate logger t now random st intent"
  by (simp add: Submit_def intent_frame cong: if_cong sum.case_cong prod.case_cong)

end
