(* ===== verification/Door_Assembly.thy ===== *)
theory Door_Assembly
  imports Notices Directory Safe_Paths Door
begin

text \<open>
  How a door is put together from its configuration: the layer files (\<open>app/policyconfig.go\<close>), the per-scope files
  (\<open>app/policyscopes.go\<close>), the engine and the door (\<open>app/door.go\<close>), the watcher of the grant documents
  (\<open>app/policyreload.go\<close>), the two read sides (\<open>app/explain.go\<close>, \<open>app/policyview.go\<close>), and the assembly of package
  \<open>doorkit\<close>. What a process can read is the record \<open>config_source\<close>: the environment, the files behind the path check, the
  directories, and what the two JSON decoders make of a file's bytes (strict for a layer, lenient for a scope). Lines a boot prints are
  not in the model, the notices of the precedence rule apart. A refusal to start (\<open>must\<close>) is the left side of a sum.
\<close>

section \<open>Layer files\<close>

record layerFile =
  lf_Roles :: "int gomap"
  lf_ActionRoles :: "string gomap"
  lf_Sealed :: "string list"

record config_source =
  cs_env :: "string \<Rightarrow> string"
  cs_ReadFile :: "string \<Rightarrow> string + string"
  cs_ReadDir :: "string \<Rightarrow> string + (string \<times> bool) list" \<comment> \<open>names in order, with whether each is a directory\<close>
  cs_decode :: "string \<Rightarrow> string + layerFile" \<comment> \<open>\<open>Decode\<close> with \<open>DisallowUnknownFields\<close>\<close>
  cs_unmarshal :: "string \<Rightarrow> layerFile option" \<comment> \<open>\<open>json.Unmarshal\<close>\<close>

datatype load_error =
    LayerUnreadable string string read_error \<comment> \<open>name, path\<close>
  | LayerMalformed string string string
  | LayersInvalid layer_error

definition decodeLayerFile :: "config_source \<Rightarrow> string \<Rightarrow> string + layerFile" where
  "decodeLayerFile cs data =
     (case cs_decode cs data of Inl err \<Rightarrow> Inl (''invalid layer config: '' @ err) | Inr raw \<Rightarrow> Inr raw)"

definition toRoleMap :: "string gomap \<Rightarrow> Role gomap" where
  "toRoleMap m = (if length m = 0 then [] else foldl (\<lambda>out (k, v). gset out k v) [] m)"

definition loadLayer :: "config_source \<Rightarrow> string \<Rightarrow> string \<Rightarrow> load_error + Layer option" where
  "loadLayer cs envVar name =
     (let path = cs_env cs envVar
      in if path = [] then Inr None
         else (case ReadConfigFile (cs_ReadFile cs) path of
                 Inl err \<Rightarrow> Inl (LayerUnreadable name path err)
               | Inr data \<Rightarrow>
                   (case decodeLayerFile cs data of
                      Inl err \<Rightarrow> Inl (LayerMalformed name path err)
                    | Inr raw \<Rightarrow>
                        Inr (Some \<lparr>lay_Name = name @ '':'' @ filepath_Base path, lay_ActionRoles = toRoleMap (lf_ActionRoles raw),
                                   lay_Sealed = lf_Sealed raw, lay_Roles = lf_Roles raw\<rparr>))))"

definition platform_var :: string where "platform_var = ''MANTLEKEEP_PLATFORM_CONFIG''"
definition team_var :: string where "team_var = ''MANTLEKEEP_TEAM_CONFIG''"
definition scope_var :: string where "scope_var = ''MANTLEKEEP_SCOPE_CONFIG''"

text \<open>The layers, and the paths that run parallel to them after the first.\<close>

definition currentLayers :: "config_source \<Rightarrow> load_error + Layer list \<times> string list" where
  "currentLayers cs =
     (case loadLayer cs platform_var ''platform'' of
        Inl err \<Rightarrow> Inl err
      | Inr platform \<Rightarrow>
          (let (layers, paths) = (case platform of None \<Rightarrow> ([DefaultLayer], [])
                                  | Some l \<Rightarrow> ([DefaultLayer] @ [l], [] @ [cs_env cs platform_var]))
           in case loadLayer cs team_var ''team'' of
                Inl err \<Rightarrow> Inl err
              | Inr team \<Rightarrow>
                  Inr (case team of None \<Rightarrow> (layers, paths) | Some l \<Rightarrow> (layers @ [l], paths @ [cs_env cs team_var]))))"

definition reportPrecedence :: "grantsSnapshot \<Rightarrow> Layer list \<Rightarrow> string list \<Rightarrow> notice list" where
  "reportPrecedence snap layers paths =
     (let ladder = LadderFrom layers
      in if ValidateLayers ladder layers \<noteq> None then []
         else concat (map (\<lambda>(i, path). PrecedenceNotices snap ladder path (layers ! (i + 1))
                                         (Some (RequiredRole (Resolve ladder (take (i + 2) layers)))))
                    (enumerate 0 paths)))"

section \<open>Scope files\<close>

record scopeLayerFile =
  sf_path :: string
  sf_layer :: Layer

definition scope_entry :: "config_source \<Rightarrow> string \<Rightarrow> scopeLayerFile gomap \<Rightarrow> string \<times> bool \<Rightarrow> scopeLayerFile gomap" where
  "scope_entry cs dir out e =
     (let (file, is_dir) = e
      in if is_dir \<or> \<not> HasSuffix file ''.json'' then out
         else (let name = take (length file - length ''.json'') file; path = filepath_Join dir file
               in case ReadConfigFile (cs_ReadFile cs) path of
                    Inl err \<Rightarrow> out
                  | Inr data \<Rightarrow>
                      (case cs_unmarshal cs data of
                         None \<Rightarrow> out
                       | Some raw \<Rightarrow>
                           gset out name \<lparr>sf_path = path, sf_layer = \<lparr>lay_Name = ''scope:'' @ name,
                             lay_ActionRoles = toRoleMap (lf_ActionRoles raw), lay_Sealed = lf_Sealed raw, lay_Roles = []\<rparr>\<rparr>)))"

definition loadScopes :: "config_source \<Rightarrow> string \<Rightarrow> scopeLayerFile gomap" where
  "loadScopes cs envVar =
     (let dir = cs_env cs envVar
      in if dir = [] then []
         else (case cs_ReadDir cs dir of Inl err \<Rightarrow> [] | Inr es \<Rightarrow> foldl (scope_entry cs dir) [] es))"

definition attachScopes :: "config_source \<Rightarrow> RBAC \<Rightarrow> Layer list \<Rightarrow> ActionAuthorizer option \<Rightarrow> RoleLadder \<Rightarrow> RBAC" where
  "attachScopes cs eng base fallback ladder =
     (let scopes = loadScopes cs scope_var
      in if length scopes = 0 then eng
         else (let sr0 = NewScopeResolver ladder base;
                   sr1 = (case fallback of Some f \<Rightarrow> sr_WithFallback sr0 f | None \<Rightarrow> sr0);
                   sr = foldl (\<lambda>sr (name, scoped). SetScope sr name (sf_layer scoped)) sr1 scopes
               in WithScopes eng (Some sr)))"

section \<open>The engine\<close>

text \<open>The optional product registry is the first of the variadic authorizers, if it is there and not nil.\<close>

definition configuredRBAC :: "config_source \<Rightarrow> ActionAuthorizer option \<Rightarrow> load_error + RBAC" where
  "configuredRBAC cs dyn =
     (case currentLayers cs of
        Inl err \<Rightarrow> Inl err
      | Inr (base, paths) \<Rightarrow>
          (let ladder = LadderFrom base
           in case ValidateLayers ladder base of
                Some err \<Rightarrow> Inl (LayersInvalid err)
              | None \<Rightarrow>
                  (let resolved = (case dyn of Some f \<Rightarrow> WithFallback (Resolve ladder base) f | None \<Rightarrow> Resolve ladder base)
                   in Inr (attachScopes cs (WithResolved (WithRoleLadder NewRBAC ladder) resolved) base dyn ladder))))"

record live_engine =
  le_engine :: RBAC
  le_watcher :: Watcher
  le_polled :: bool

definition liveRBAC :: "(Layer list \<Rightarrow> string) \<Rightarrow> config_source \<Rightarrow> ActionAuthorizer option \<Rightarrow> load_error + live_engine" where
  "liveRBAC hash cs fallback =
     (case currentLayers cs of
        Inl err \<Rightarrow> Inl err
      | Inr (layers, paths) \<Rightarrow>
          (let ladder = LadderFrom layers
           in case ValidateLayers ladder layers of
                Some err \<Rightarrow> Inl (LayersInvalid err)
              | None \<Rightarrow>
                  (let initial = (case fallback of Some f \<Rightarrow> WithFallback (Resolve ladder layers) f | None \<Rightarrow> Resolve ladder layers);
                       w = NewWatcher hash initial fallback ladder layers;
                       eng = WithLive (WithRoleLadder NewRBAC ladder) (Some (live_RequiredRole (wat_live w)))
                   in Inr \<lparr>le_engine = attachScopes cs eng layers fallback ladder, le_watcher = w,
                           le_polled = (cs_env cs platform_var \<noteq> [] \<or> cs_env cs team_var \<noteq> [] \<or>
                                        cs_env cs ''MANTLEKEEP_POLICY_RELOAD'' \<noteq> [])\<rparr>)))"

text \<open>One poll: the layers as the source has them now, and the engine behind the pointer the watcher swapped.\<close>

definition poll :: "(Layer list \<Rightarrow> string) \<Rightarrow> config_source \<Rightarrow> live_engine \<Rightarrow> live_engine" where
  "poll hash cs e =
     (if \<not> le_polled e then e
      else (let loaded = (case currentLayers cs of Inl err \<Rightarrow> Inl ''load'' | Inr (layers, paths) \<Rightarrow> Inr layers);
                w = fst (snd (Reload hash loaded (le_watcher e)))
            in e\<lparr>le_watcher := w, le_engine := WithLive (le_engine e) (Some (live_RequiredRole (wat_live w)))\<rparr>))"

text \<open>\<open>atoi\<close> is \<open>strconv.Atoi\<close>; a period is in nanoseconds.\<close>

definition reloadInterval :: "(string \<Rightarrow> int option) \<Rightarrow> (string \<Rightarrow> string) \<Rightarrow> int" where
  "reloadInterval atoi env =
     (let s = env ''MANTLEKEEP_POLICY_RELOAD''
      in if s \<noteq> [] then (case atoi (TrimSpace s) of Some n \<Rightarrow> if 0 < n then n * 10 ^ 9 else 2 * 10 ^ 9 | None \<Rightarrow> 2 * 10 ^ 9)
         else 2 * 10 ^ 9)"

definition policySourceIsConfigured :: "(string \<Rightarrow> string) \<Rightarrow> bool" where
  "policySourceIsConfigured env =
     list_ex (\<lambda>v. env v \<noteq> []) [''MANTLEKEEP_POLICY_DIR'', ''MANTLEKEEP_PLATFORM_POLICY'', ''MANTLEKEEP_POLICY_GRANTS'', ''MANTLEKEEP_POLICY_FLOORS'']"

section \<open>The door and its read sides\<close>

text \<open>The base engine is the core's own, or the one an adapter injected; \<open>injected\<close> evaluates with the injected one.\<close>

definition base_Evaluate ::
  "'f engine_env \<Rightarrow> ('o \<Rightarrow> PolicyInput \<Rightarrow> (string + Decision) \<times> 'o) \<Rightarrow> RBAC + 'o \<Rightarrow> PolicyInput \<Rightarrow> (string + Decision) \<times> (RBAC + 'o)" where
  "base_Evaluate env injected base i =
     (case base of
        Inl r \<Rightarrow> (case rbac_Evaluate env r i of (d, r') \<Rightarrow> (d, Inl r'))
      | Inr p \<Rightarrow> (case injected p i of (d, p') \<Rightarrow> (d, Inr p')))"

datatype assembly_error = EngineRefused load_error | AuditUnopened string | NoIdentity | NoAuditChain

record 'o built_door =
  bd_identity :: directory
  bd_policy :: "(RBAC + 'o) Failsafe"
  bd_chain :: Bolt
  bd_watching :: bool

definition BuildDoor ::
  "(Layer list \<Rightarrow> string) \<Rightarrow> config_source \<Rightarrow> directory \<Rightarrow> 'o option \<Rightarrow> ActionAuthorizer option \<Rightarrow> string + Bolt
    \<Rightarrow> assembly_error + 'o built_door" where
  "BuildDoor hash cs ids injected dyn opened =
     (case liveRBAC hash cs dyn of
        Inl err \<Rightarrow> Inl (EngineRefused err)
      | Inr live \<Rightarrow>
          (let base = (case injected of Some p \<Rightarrow> Inr p | None \<Rightarrow> Inl (le_engine live))
           in case opened of
                Inl err \<Rightarrow> Inl (AuditUnopened err)
              | Inr b \<Rightarrow> Inr \<lparr>bd_identity = ids, bd_policy = NewFailsafe base, bd_chain = b,
                               bd_watching = policySourceIsConfigured (cs_env cs)\<rparr>))"

datatype explain_error = NothingWired | DoorDoesNotKnow string string | ExplainPolicyError string

text \<open>What an explanation returns beside an error is the subject, when it was resolved.\<close>

definition Explain ::
  "(ExternalIdentity \<Rightarrow> string + Subject) option \<Rightarrow> ('p \<Rightarrow> PolicyInput \<Rightarrow> (string + Decision) \<times> 'p) option \<Rightarrow> Intent \<Rightarrow> 'p
    \<Rightarrow> (explain_error \<times> Subject option + Subject \<times> Decision) \<times> 'p" where
  "Explain resolver evaluator intent p =
     (case (resolver, evaluator) of
        (Some resolve, Some evaluate) \<Rightarrow>
          (case resolve \<lparr>ext_ID = sub_ID (int_Subject intent), ext_Groups = sub_ADGroups (int_Subject intent), ext_Attrs = []\<rparr> of
             Inl err \<Rightarrow> (Inl (DoorDoesNotKnow (sub_ID (int_Subject intent)) err, None), p)
           | Inr subject \<Rightarrow>
               (case evaluate p (PolicyInputFor subject intent) of
                  (Inl err, p') \<Rightarrow> (Inl (ExplainPolicyError err, Some subject), p')
                | (Inr decision, p') \<Rightarrow> (Inr (subject, decision), p')))
      | _ \<Rightarrow> (Inl (NothingWired, None), p))"

definition PolicyInForce_Load :: "(Grants \<Rightarrow> Floors \<Rightarrow> string) \<Rightarrow> grantsSnapshot \<Rightarrow> Grants \<times> Floors \<times> string" where
  "PolicyInForce_Load revisionOf s = (let (held, floors) = InForce s in (held, floors, revisionOf held floors))"

section \<open>Package doorkit\<close>

record 'c kit_door =
  kd_Identity :: directory
  kd_Policy :: "RBAC Failsafe"
  kd_Audit :: 'c

definition NewDoorWithIdentity :: "'c option \<Rightarrow> directory option \<Rightarrow> ActionAuthorizer option \<Rightarrow> assembly_error + 'c kit_door" where
  "NewDoorWithIdentity chain ids dyn =
     (case ids of
        None \<Rightarrow> Inl NoIdentity
      | Some d \<Rightarrow>
          (case chain of
             None \<Rightarrow> Inl NoAuditChain
           | Some c \<Rightarrow>
               (let rbac = (case dyn of Some a \<Rightarrow> WithDynamic NewRBAC (Some a) | None \<Rightarrow> NewRBAC)
                in Inr \<lparr>kd_Identity = d, kd_Policy = NewFailsafe rbac, kd_Audit = c\<rparr>)))"

definition NewDoorWithAudit :: "'c option \<Rightarrow> ActionAuthorizer option \<Rightarrow> assembly_error + 'c kit_door" where
  "NewDoorWithAudit chain dyn = NewDoorWithIdentity chain (Some (mock_directory NewMock)) dyn"

definition NewInMemoryDoorWithIdentity :: "string + 'c \<Rightarrow> directory option \<Rightarrow> ActionAuthorizer option \<Rightarrow> assembly_error + 'c kit_door" where
  "NewInMemoryDoorWithIdentity opened ids dyn =
     (case ids of
        None \<Rightarrow> Inl NoIdentity
      | Some d \<Rightarrow> (case opened of Inl err \<Rightarrow> Inl (AuditUnopened err) | Inr aud \<Rightarrow> NewDoorWithIdentity (Some aud) (Some d) dyn))"

definition NewInMemoryDoor :: "string + 'c \<Rightarrow> ActionAuthorizer option \<Rightarrow> assembly_error + 'c kit_door" where
  "NewInMemoryDoor opened dyn = NewInMemoryDoorWithIdentity opened (Some (mock_directory NewMock)) dyn"

text \<open>The submitter of an assembled door.\<close>

definition kit_Submit ::
  "'c kit_door \<Rightarrow> 'f engine_env \<Rightarrow> ('c \<Rightarrow> AuditRecord \<Rightarrow> (string + AuditRecord) \<times> 'c) \<Rightarrow> int \<Rightarrow> int \<Rightarrow> string \<Rightarrow> RBAC Failsafe \<times> 'c
    \<Rightarrow> Intent \<Rightarrow> (door_error + ExecutionToken) \<times> RBAC Failsafe \<times> 'c" where
  "kit_Submit d env logger logged_at now random = Submit (dir_Resolve (kd_Identity d)) (door_policy env) logger logged_at now random"

section \<open>What loading keeps\<close>

lemma loadLayer_Some:
  "loadLayer cs envVar name = Inr (Some l) \<longleftrightarrow>
     (\<exists>data raw. cs_env cs envVar \<noteq> [] \<and> ReadConfigFile (cs_ReadFile cs) (cs_env cs envVar) = Inr data \<and> cs_decode cs data = Inr raw \<and>
        l = \<lparr>lay_Name = name @ '':'' @ filepath_Base (cs_env cs envVar), lay_ActionRoles = toRoleMap (lf_ActionRoles raw),
             lay_Sealed = lf_Sealed raw, lay_Roles = lf_Roles raw\<rparr>)"
  by (auto simp: loadLayer_def decodeLayerFile_def Let_def split: sum.splits)

lemma loadLayer_None: "loadLayer cs envVar name = Inr None \<longleftrightarrow> cs_env cs envVar = []"
  by (auto simp: loadLayer_def Let_def split: sum.splits)

lemma currentLayers_Inr:
  "currentLayers cs = Inr (layers, paths) \<longleftrightarrow>
     (\<exists>platform team. loadLayer cs platform_var ''platform'' = Inr platform \<and> loadLayer cs team_var ''team'' = Inr team \<and>
        layers = DefaultLayer # (case platform of None \<Rightarrow> [] | Some l \<Rightarrow> [l]) @ (case team of None \<Rightarrow> [] | Some l \<Rightarrow> [l]) \<and>
        paths = (case platform of None \<Rightarrow> [] | Some l \<Rightarrow> [cs_env cs platform_var]) @
                (case team of None \<Rightarrow> [] | Some l \<Rightarrow> [cs_env cs team_var]))"
  by (auto simp: currentLayers_def split: sum.splits option.splits)

lemma LadderFrom_nonempty [simp]: "LadderFrom ls \<noteq> []"
proof (induction ls)
  case (Cons l ls)
  have g: "gset m k v \<noteq> []" for m :: "int gomap" and k v by (cases "(m, k, v)" rule: gset.cases) auto
  have "out \<noteq> [] \<or> xs \<noteq> [] \<Longrightarrow> foldl (\<lambda>out (name, rank). gset out name rank) out xs \<noteq> []" for out and xs :: "int gomap"
  proof (induction xs arbitrary: out)
    case (Cons x xs)
    obtain name rank where "x = (name, rank)" by (cases x)
    then show ?case using Cons.IH [of "gset out name rank"] g by simp
  qed simp
  then show ?case using Cons by simp
qed (simp add: DefaultRoleLadder_def)

lemma effective_LadderFrom [simp]: "effective_ladder (LadderFrom ls) = LadderFrom ls"
  by (simp add: effective_ladder_def)

lemma attachScopes_frame:
  "rb_dyn (attachScopes cs eng base fb ladder) = rb_dyn eng" "rb_ladder (attachScopes cs eng base fb ladder) = rb_ladder eng"
  by (simp_all add: attachScopes_def Let_def WithScopes_def)

lemma attachScopes_coherent:
  assumes "rb_scopes eng = None" and "rb_scopes (attachScopes cs eng base fb ladder) = Some sr"
  shows "coherent sr \<and> sr_ladder sr = ladder \<and> sr_base sr = base"
proof -
  have set_all: "coherent (foldl (\<lambda>sr (name, scoped). SetScope sr name (sf_layer scoped)) p xs) \<and>
      sr_ladder (foldl (\<lambda>sr (name, scoped). SetScope sr name (sf_layer scoped)) p xs) = sr_ladder p \<and>
      sr_base (foldl (\<lambda>sr (name, scoped). SetScope sr name (sf_layer scoped)) p xs) = sr_base p" if "coherent p" for p xs
    using that
  proof (induction xs arbitrary: p)
    case (Cons x xs)
    obtain name scoped where "x = (name, scoped)" by (cases x)
    then show ?case using Cons.IH [OF coherent_SetScope [OF Cons.prems]] by (simp add: SetScope_frame)
  qed simp
  have "coherent (case fb of Some f \<Rightarrow> sr_WithFallback (NewScopeResolver ladder base) f | None \<Rightarrow> NewScopeResolver ladder base)"
    by (simp add: coherent_def NewScopeResolver_def sr_WithFallback_def split: option.split)
  from set_all [OF this] show ?thesis
    using assms by (auto simp: attachScopes_def Let_def WithScopes_def NewScopeResolver_def sr_WithFallback_def split: if_splits option.splits)
qed

text \<open>The engine either build makes stands on the floor of the layers it starts from.\<close>

lemma built_floor_engine:
  assumes "eng = attachScopes cs (WithLive (WithRoleLadder NewRBAC ladder) (Some (live_RequiredRole (rebuild w (pre @ post))))) (pre @ post) fb ladder"
    and "ladder = LadderFrom ls" and "wat_ladder w = ladder"
  shows "floor_engine ladder pre eng"
proof -
  let ?e = "WithLive (WithRoleLadder NewRBAC ladder) (Some (live_RequiredRole (rebuild w (pre @ post))))"
  have l: "0 < length ladder" using assms(2) LadderFrom_nonempty by (metis length_greater_0_conv)
  have e: "rb_scopes ?e = None" "rb_dyn ?e = Some (live_RequiredRole (rebuild w (pre @ post)))" "rb_ladder ?e = ladder"
    using l by (simp_all add: WithLive_def WithRoleLadder_def NewRBAC_def)
  have "rankLadder eng = ladder" using l by (simp add: assms(1) rankLadder_def attachScopes_frame e)
  moreover have "coherent sr \<and> sr_ladder sr = ladder \<and> sr_base sr = pre @ post" if "rb_scopes eng = Some sr" for sr
    using attachScopes_coherent [OF e(1)] that assms(1) by blast
  moreover have "rb_dyn eng = Some (live_RequiredRole (rebuild w (pre @ post)))" by (simp add: assms(1) attachScopes_frame e)
  moreover have "effective_ladder ladder = ladder" by (simp add: assms(2))
  ultimately show ?thesis
    using assms(3) unfolding floor_engine_def coherent_engine_def by metis
qed

text \<open>Every state a live engine gets into: polls of sources whose platform layer, if it loads, is the one the process booted with,
  and evaluations.\<close>

inductive live_step ::
  "(Layer list \<Rightarrow> string) \<Rightarrow> Layer \<Rightarrow> 'f engine_env set \<Rightarrow> live_engine \<Rightarrow> live_engine \<Rightarrow> bool" for hash platform envs where
  polled: "(\<And>l. loadLayer cs platform_var ''platform'' = Inr l \<Longrightarrow> l = Some platform) \<Longrightarrow> live_step hash platform envs e (poll hash cs e)"
| evaluated: "env \<in> envs \<Longrightarrow> live_step hash platform envs e (e\<lparr>le_engine := snd (Evaluate env (le_engine e) i)\<rparr>)"

definition live_ok :: "RoleLadder \<Rightarrow> Layer list \<Rightarrow> live_engine \<Rightarrow> bool" where
  "live_ok ladder pre e \<longleftrightarrow> floor_engine ladder pre (le_engine e) \<and> wat_ladder (le_watcher e) = ladder \<and>
     (\<exists>post. wat_live (le_watcher e) = rebuild (le_watcher e) (pre @ post))"

lemma rebuild_frame [simp]: "rebuild (w\<lparr>wat_live := r\<rparr>) ls = rebuild w ls" "rebuild (w\<lparr>wat_lastHash := h\<rparr>) ls = rebuild w ls"
  by (simp_all add: rebuild_def)

lemma WithLive_floor_engine:
  "floor_engine ladder pre r \<Longrightarrow> wat_ladder w = ladder \<Longrightarrow> wat_live w = rebuild w (pre @ post) \<Longrightarrow>
     floor_engine ladder pre (WithLive r (Some (live_RequiredRole (wat_live w))))"
  by (auto simp: floor_engine_def coherent_engine_def WithLive_def rankLadder_def)

lemma live_ok_poll:
  assumes "live_ok ladder [DefaultLayer, platform] e"
    and "\<And>l. loadLayer cs platform_var ''platform'' = Inr l \<Longrightarrow> l = Some platform"
  shows "live_ok ladder [DefaultLayer, platform] (poll hash cs e)"
proof -
  let ?pre = "[DefaultLayer, platform]"
  define loaded where "loaded = (case currentLayers cs of Inl err \<Rightarrow> Inl ''load'' | Inr (layers, paths) \<Rightarrow> Inr layers)"
  define w where "w = fst (snd (Reload hash loaded (le_watcher e)))"
  have pre: "\<exists>post. layers = ?pre @ post" if l: "loaded = Inr layers" for layers
  proof -
    obtain paths where c: "currentLayers cs = Inr (layers, paths)" using l by (auto simp: loaded_def split: sum.splits prod.splits)
    obtain pl team where "loadLayer cs platform_var ''platform'' = Inr pl"
        "layers = DefaultLayer # (case pl of None \<Rightarrow> [] | Some l \<Rightarrow> [l]) @ (case team of None \<Rightarrow> [] | Some l \<Rightarrow> [l])"
      using c unfolding currentLayers_Inr by blast
    then show ?thesis using assms(2) by auto
  qed
  have "wat_ladder w = ladder \<and> (\<exists>post. wat_live w = rebuild w (?pre @ post))"
    using assms(1) pre by (auto simp: w_def live_ok_def Reload_def Let_def split: sum.splits if_splits)
  then obtain post where w: "wat_ladder w = ladder" "wat_live w = rebuild w (?pre @ post)" by blast
  have "floor_engine ladder ?pre (WithLive (le_engine e) (Some (live_RequiredRole (wat_live w))))"
    using WithLive_floor_engine [OF _ w] assms(1) by (simp add: live_ok_def)
  then have "live_ok ladder ?pre (e\<lparr>le_watcher := w, le_engine := WithLive (le_engine e) (Some (live_RequiredRole (wat_live w)))\<rparr>)"
    using w by (auto simp: live_ok_def)
  then show ?thesis using assms(1) by (simp add: poll_def w_def [symmetric] loaded_def [symmetric] Let_def)
qed

lemma live_ok_step: "live_step hash platform envs e e' \<Longrightarrow> live_ok ladder [DefaultLayer, platform] e \<Longrightarrow> live_ok ladder [DefaultLayer, platform] e'"
proof (induction rule: live_step.induct)
  case (polled cs e)
  then show ?case using live_ok_poll by blast
next
  case (evaluated env e i)
  then show ?case by (auto simp: live_ok_def intro: floor_engine_Evaluate)
qed

lemma live_ok_run: "(live_step hash platform envs)\<^sup>*\<^sup>* e e' \<Longrightarrow> live_ok ladder [DefaultLayer, platform] e \<Longrightarrow> live_ok ladder [DefaultLayer, platform] e'"
  by (induction rule: rtranclp_induct) (auto intro: live_ok_step)

lemma layers_with_platform:
  assumes "currentLayers cs = Inr (layers, paths)" and "loadLayer cs platform_var ''platform'' = Inr (Some platform)"
    and "lay_Roles platform \<noteq> [] \<or> (\<forall>team. loadLayer cs team_var ''team'' = Inr (Some team) \<longrightarrow> lay_Roles team = [])"
  shows "\<exists>post. layers = [DefaultLayer, platform] @ post" "LadderFrom layers = LadderFrom [DefaultLayer, platform]"
proof -
  obtain team where t: "loadLayer cs team_var ''team'' = Inr team"
      "layers = [DefaultLayer, platform] @ (case team of None \<Rightarrow> [] | Some l \<Rightarrow> [l])"
    using assms(1,2) unfolding currentLayers_Inr by auto
  then show "\<exists>post. layers = [DefaultLayer, platform] @ post" by blast
  show "LadderFrom layers = LadderFrom [DefaultLayer, platform]"
    using t assms(3) by (cases team) (auto simp: DefaultLayer_def)
qed

lemma booted_engines_stand_on_the_platform:
  assumes "loadLayer cs platform_var ''platform'' = Inr (Some platform)"
    and "lay_Roles platform \<noteq> [] \<or> (\<forall>team. loadLayer cs team_var ''team'' = Inr (Some team) \<longrightarrow> lay_Roles team = [])"
    and "ladder = LadderFrom [DefaultLayer, platform]"
  shows "configuredRBAC cs dyn = Inr r \<Longrightarrow> floor_engine ladder [DefaultLayer, platform] r"
    and "liveRBAC hash cs dyn = Inr e \<Longrightarrow> live_ok ladder [DefaultLayer, platform] e"
proof -
  let ?pre = "[DefaultLayer, platform]"
  show "floor_engine ladder ?pre r" if r: "configuredRBAC cs dyn = Inr r"
  proof -
    obtain layers paths where c: "currentLayers cs = Inr (layers, paths)" using r by (auto simp: configuredRBAC_def split: sum.splits)
    note lp = layers_with_platform [OF c assms(1,2)]
    obtain post where post: "layers = ?pre @ post" using lp(1) by blast
    define w where "w = NewWatcher (\<lambda>_. []) (Resolve ladder layers) dyn ladder layers"
    have "r = attachScopes cs (WithLive (WithRoleLadder NewRBAC ladder) (Some (live_RequiredRole (rebuild w (?pre @ post))))) (?pre @ post) dyn ladder"
      using r lp(2) by (auto simp: configuredRBAC_def c assms(3) w_def NewWatcher_def rebuild_def post WithResolved_def WithLive_def
          live_RequiredRole_def [abs_def] Let_def split: option.splits)
    then show ?thesis by (rule built_floor_engine [OF _ assms(3)]) (simp add: w_def NewWatcher_def)
  qed
  show "live_ok ladder ?pre e" if e: "liveRBAC hash cs dyn = Inr e"
  proof -
    obtain layers paths where c: "currentLayers cs = Inr (layers, paths)" using e by (auto simp: liveRBAC_def split: sum.splits)
    note lp = layers_with_platform [OF c assms(1,2)]
    obtain post where post: "layers = ?pre @ post" using lp(1) by blast
    have w: "wat_ladder (le_watcher e) = ladder" "wat_live (le_watcher e) = rebuild (le_watcher e) (?pre @ post)"
      using e lp(2) by (auto simp: liveRBAC_def c assms(3) NewWatcher_def rebuild_def post Let_def split: option.splits)
    have "le_engine e = attachScopes cs (WithLive (WithRoleLadder NewRBAC ladder) (Some (live_RequiredRole (wat_live (le_watcher e))))) (?pre @ post) dyn ladder"
      using e lp(2) by (auto simp: liveRBAC_def c assms(3) post Let_def split: option.splits)
    then have "floor_engine ladder ?pre (le_engine e)"
      unfolding w(2) by (rule built_floor_engine [OF _ assms(3) w(1)])
    then show ?thesis using w by (auto simp: live_ok_def)
  qed
qed

section \<open>Properties\<close>

text \<open>C17: the platform's floor survives assembly and every reload. When the platform's layer file binds an action to a role and
  seals it, an engine assembled from the configuration denies the action to every subject not at least that senior,
  whatever the team's file, the scope files, the product registry and the documents say; and a live engine goes on doing so through every
  poll and evaluation while the platform's file stays what it was. The ladder has to be the platform's, or the team's file
  has to declare none.\<close>

theorem assembled_engine_keeps_the_platform_floor:
  assumes "loadLayer cs platform_var ''platform'' = Inr (Some platform)"
    and "lay_Roles platform \<noteq> [] \<or> (\<forall>team. loadLayer cs team_var ''team'' = Inr (Some team) \<longrightarrow> lay_Roles team = [])"
    and "ladder = LadderFrom [DefaultLayer, platform]"
    and "sealed_floor ladder [DefaultLayer, platform] (pint_Action (pin_Intent i)) = Some cur"
    and "\<not> holdsAtLeast ladder (psub_Roles (pin_Subject i)) cur"
  shows "(\<forall>r. configuredRBAC cs dyn = Inr r \<longrightarrow> dec_Action (fst (Evaluate env r i)) = ActionDeny) \<and>
    (\<forall>e e'. liveRBAC hash cs dyn = Inr e \<longrightarrow> (live_step hash platform envs)\<^sup>*\<^sup>* e e' \<longrightarrow>
       dec_Action (fst (Evaluate env (le_engine e') i)) = ActionDeny)"
proof -
  have "dec_Action (fst (Evaluate env r i)) = ActionDeny" if "floor_engine ladder [DefaultLayer, platform] r" for r
    using assms(3,5) by (intro floor_engine_denies [OF that assms(4)]) (simp del: LadderFrom.simps)
  moreover have "floor_engine ladder [DefaultLayer, platform] (le_engine e')"
    if "liveRBAC hash cs dyn = Inr e" "(live_step hash platform envs)\<^sup>*\<^sup>* e e'" for e e'
    using live_ok_run [OF that(2) booted_engines_stand_on_the_platform(2) [OF assms(1,2,3) that(1)]] by (simp add: live_ok_def)
  ultimately show ?thesis using booted_engines_stand_on_the_platform(1) [OF assms(1,2,3)] by blast
qed

text \<open>A law that was declared is never dropped. An engine is built only when every layer file that is named was read and
  decoded without an unknown key and the layers are well formed under the ladder they declare, all roles ranked and
  all seals readable; it then enforces the cascade of exactly those layers, by that ladder.\<close>

theorem configured_engine_enforces_every_declared_layer:
  assumes "configuredRBAC cs dyn = Inr r"
  shows "\<exists>platform team layers.
    loadLayer cs platform_var ''platform'' = Inr platform \<and> (platform = None \<longleftrightarrow> cs_env cs platform_var = []) \<and>
    loadLayer cs team_var ''team'' = Inr team \<and> (team = None \<longleftrightarrow> cs_env cs team_var = []) \<and>
    layers = DefaultLayer # (case platform of None \<Rightarrow> [] | Some l \<Rightarrow> [l]) @ (case team of None \<Rightarrow> [] | Some l \<Rightarrow> [l]) \<and>
    (\<forall>l\<in>set layers. valid_layer (LadderFrom layers) l) \<and> rankLadder r = LadderFrom layers \<and>
    (\<forall>intent. pint_Scope intent = [] \<longrightarrow> required_role r intent =
       RequiredRole (case dyn of Some f \<Rightarrow> WithFallback (Resolve (LadderFrom layers) layers) f
                     | None \<Rightarrow> Resolve (LadderFrom layers) layers) (pint_Action intent))"
proof -
  obtain layers paths where c: "currentLayers cs = Inr (layers, paths)"
    using assms by (auto simp: configuredRBAC_def split: sum.splits)
  obtain platform team where l: "loadLayer cs platform_var ''platform'' = Inr platform" "loadLayer cs team_var ''team'' = Inr team"
      "layers = DefaultLayer # (case platform of None \<Rightarrow> [] | Some l \<Rightarrow> [l]) @ (case team of None \<Rightarrow> [] | Some l \<Rightarrow> [l])"
    using c unfolding currentLayers_Inr by blast
  have none: "platform = None \<longleftrightarrow> cs_env cs platform_var = []" "team = None \<longleftrightarrow> cs_env cs team_var = []"
    using l(1,2) loadLayer_None [of cs platform_var "''platform''"] loadLayer_None [of cs team_var "''team''"] by auto
  let ?ladder = "LadderFrom layers"
  have len: "0 < length ?ladder" using LadderFrom_nonempty by blast
  have v: "\<forall>l\<in>set layers. valid_layer ?ladder l"
    using assms ValidateLayers_None [of ?ladder layers] by (auto simp: configuredRBAC_def c split: option.splits)
  have r: "rb_dyn r = Some (RequiredRole (case dyn of Some f \<Rightarrow> WithFallback (Resolve ?ladder layers) f | None \<Rightarrow> Resolve ?ladder layers))"
      "rb_ladder r = ?ladder"
    using assms len by (auto simp: configuredRBAC_def c attachScopes_frame WithResolved_def WithRoleLadder_def NewRBAC_def
        Let_def split: option.splits)
  have "required_role r intent = (case rb_dyn r of Some a \<Rightarrow> a (pint_Action intent) | None \<Rightarrow> None)" if "pint_Scope intent = []" for intent
    using that by (simp add: required_role_def split: option.split)
  moreover have "rankLadder r = ?ladder" using r(2) len by (simp add: rankLadder_def)
  ultimately show ?thesis using l none v r(1)
    by (intro exI [of _ platform] exI [of _ team] exI [of _ layers]) simp
qed

text \<open>An explanation is what the door would say. Over the resolver and the evaluator of a door, \<open>Explain\<close> leaves the policy
  engine as a submission leaves it, and tells the subject and the decision the submission is ruled by: the door hands out a token
  exactly when the explanation is an allow it could record, refuses with that very decision otherwise, and what
  cannot be resolved or evaluated is an error on both sides.\<close>

theorem explanation_is_what_the_door_would_say:
  assumes "spec_Goal (int_Spec intent) \<noteq> []"
    and "Submit resolve evaluate logger logged_at now random (p, s) intent = (x, p', s')"
    and "Explain (Some resolve) (Some evaluate) intent p = (told, q)"
  shows "q = p' \<and>
    (case told of
       Inr (subject, d) \<Rightarrow>
         (\<exists>e. logger s (decision_record logged_at intent subject d) = (Inl e, s') \<and> (\<forall>token. x \<noteq> Inr token)) \<or>
         (\<exists>r. logger s (decision_record logged_at intent subject d) = (Inr r, s') \<and>
            x = (if dec_Action d = ActionAllow then Inr (issue_token random now intent d) else Inl (DecisionError d)))
     | Inl (DoorDoesNotKnow who err, None) \<Rightarrow>
         p' = p \<and> s' = s \<and> (\<exists>d. x = Inl (DecisionError d) \<and> dec_Category d = DenialIdentity \<and> dec_Action d = ActionDeny)
     | Inl (ExplainPolicyError err, Some subject) \<Rightarrow> s' = s \<and> x = Inl (Wrapped ''policy error: '' (PlainError err))
     | _ \<Rightarrow> False)"
proof (cases "resolve \<lparr>ext_ID = sub_ID (int_Subject intent), ext_Groups = sub_ADGroups (int_Subject intent), ext_Attrs = []\<rparr>")
  case (Inl err)
  then show ?thesis using assms by (auto simp: Submit_def Explain_def mk_Decision_def)
next
  case (Inr subject)
  obtain y q' where e: "evaluate p (PolicyInputFor subject intent) = (y, q')" by fastforce
  show ?thesis
  proof (cases y)
    case (Inl err)
    then show ?thesis using assms \<open>resolve _ = Inr subject\<close> e by (auto simp: Submit_def Explain_def submit_input_eq)
  next
    case d: (Inr d)
    obtain z s1 where l: "logger s (decision_record logged_at intent subject d) = (z, s1)" by fastforce
    show ?thesis
      using assms Inr d e l by (cases z) (auto simp: Submit_def Explain_def submit_input_eq split: if_splits)
  qed
qed

text \<open>The view of the policy in force shows, role by role, what the engine decides by.\<close>

lemma policy_view_is_what_decides:
  assumes "PolicyInForce_Load revisionOf s = (held, floors, r)"
  shows "set (entries (gr_RoleActions held) role) = set (entries (sn_roleActions s) role)"
    and "set (gr_ApprovalActions held) = set (sn_approvalActions s)" and "floors = sn_floors s" and "r = revisionOf held floors"
proof -
  have "map_of (map (\<lambda>(role, actions). (role, sortedKeys actions)) m) role = map_option sortedKeys (map_of m role)" for m :: "string list gomap"
    by (induction m) auto
  then show "set (entries (gr_RoleActions held) role) = set (entries (sn_roleActions s) role)"
    using assms by (cases "map_of (sn_roleActions s) role")
      (auto simp: PolicyInForce_Load_def InForce_def entries_def sortedKeys_def)
qed (use assms in \<open>auto simp: PolicyInForce_Load_def InForce_def sortedKeys_def\<close>)

interpretation kit: door "Log sha fmt_time e" bolt_trail "intact_bolt sha fmt_time"
    "chain_Resolve [gateway_directory g, mock_directory (NewMockFrom table)]" "door_policy env"
  for sha fmt_time e g table env
proof -
  have "total_policy (door_policy env)" unfolding door_policy_def by (rule failsafe.total_policy_axioms)
  then show "door (Log sha fmt_time e) bolt_trail (intact_bolt sha fmt_time)
      (chain_Resolve [gateway_directory g, mock_directory (NewMockFrom table)]) (door_policy env)"
    by (intro door.intro bolt.audit_logger_axioms layered.identity_resolver_axioms)
qed

section \<open>A small deployment\<close>

text \<open>A platform file that seals a deployment at the architect, a team file that would loosen it, and a scope file that
  is not JSON. The content of a file is its path.\<close>

definition sample_platform_file :: layerFile where
  "sample_platform_file = \<lparr>lf_Roles = [], lf_ActionRoles = [(''service.deploy'', ''L1-Architect'')], lf_Sealed = [''action:service.deploy'']\<rparr>"

definition loose_file :: layerFile where
  "loose_file = \<lparr>lf_Roles = [], lf_ActionRoles = [(''service.deploy'', ''L3-Consumer'')], lf_Sealed = []\<rparr>"

definition sample_source :: "layerFile option \<Rightarrow> config_source" where
  "sample_source team =
     \<lparr>cs_env = (\<lambda>v. if v = platform_var then ''platform.json'' else if v = team_var then ''team.json'' else if v = scope_var then ''scopes'' else []),
      cs_ReadFile = (\<lambda>p. Inr p), cs_ReadDir = (\<lambda>d. Inr [(''shop.json'', False)]),
      cs_decode = (\<lambda>data. if data = ''platform.json'' then Inr sample_platform_file
                          else if data = ''team.json'' then (case team of Some f \<Rightarrow> Inr f | None \<Rightarrow> Inl ''unknown field'') else Inl ''eof''),
      cs_unmarshal = (\<lambda>data. None)\<rparr>"

definition sample_platform_layer :: Layer where
  "sample_platform_layer = \<lparr>lay_Name = ''platform:platform.json'', lay_ActionRoles = [(''service.deploy'', ''L1-Architect'')],
     lay_Sealed = [''action:service.deploy''], lay_Roles = []\<rparr>"

definition team_layer_of :: "layerFile \<Rightarrow> Layer" where
  "team_layer_of f = \<lparr>lay_Name = ''team:team.json'', lay_ActionRoles = toRoleMap (lf_ActionRoles f), lay_Sealed = lf_Sealed f, lay_Roles = lf_Roles f\<rparr>"

lemma sample_vars_differ: "platform_var \<noteq> team_var" "scope_var \<noteq> team_var" "scope_var \<noteq> platform_var"
  by code_simp+

lemma sample_files:
  "ReadConfigFile (\<lambda>p. Inr p) ''platform.json'' = Inr ''platform.json''" "ReadConfigFile (\<lambda>p. Inr p) ''team.json'' = Inr ''team.json''"
  "ReadConfigFile (\<lambda>p. Inr p) (filepath_Join ''scopes'' ''shop.json'') = Inr ''scopes/shop.json''"
  "filepath_Base ''platform.json'' = ''platform.json''" "filepath_Base ''team.json'' = ''team.json''"
  by code_simp+

lemma sample_loaded:
  "loadLayer (sample_source team) platform_var ''platform'' = Inr (Some sample_platform_layer)"
  "loadLayer (sample_source (Some f)) team_var ''team'' = Inr (Some (team_layer_of f))"
  "loadLayer (sample_source None) team_var ''team'' = Inl (LayerMalformed ''team'' ''team.json'' ''invalid layer config: unknown field'')"
  "loadScopes (sample_source team) scope_var = []"
  using sample_vars_differ
  by (simp_all add: loadLayer_def sample_source_def sample_files decodeLayerFile_def sample_platform_layer_def team_layer_of_def
      sample_platform_file_def toRoleMap_def loadScopes_def scope_entry_def Let_def split: sum.split)

lemma sample_engine:
  assumes "ladder = LadderFrom [DefaultLayer, sample_platform_layer, team_layer_of f]"
    and "ValidateLayers ladder [DefaultLayer, sample_platform_layer, team_layer_of f] = None"
  shows "configuredRBAC (sample_source (Some f)) None =
    Inr (WithResolved (WithRoleLadder NewRBAC ladder) (Resolve ladder [DefaultLayer, sample_platform_layer, team_layer_of f]))"
proof -
  have c: "currentLayers (sample_source (Some f)) = Inr ([DefaultLayer, sample_platform_layer, team_layer_of f],
      [cs_env (sample_source (Some f)) platform_var, cs_env (sample_source (Some f)) team_var])"
    by (simp add: currentLayers_def sample_loaded)
  show ?thesis using assms by (simp del: LadderFrom.simps add: configuredRBAC_def c Let_def attachScopes_def sample_loaded)
qed

lemma sample_sealed:
  "sealed_floor (LadderFrom [DefaultLayer, sample_platform_layer]) [DefaultLayer, sample_platform_layer] ''service.deploy'' = Some ''L1-Architect''"
  by code_simp

lemma sample_layers_valid:
  "ValidateLayers (LadderFrom [DefaultLayer, sample_platform_layer, team_layer_of loose_file]) [DefaultLayer, sample_platform_layer, team_layer_of loose_file] = None"
  by code_simp

theorem assembled_engine_keeps_the_platform_floor_witness:
  "\<exists>r. configuredRBAC (sample_source (Some loose_file)) None = Inr r \<and>
     dec_Action (fst (Evaluate sample_env r (sample_input ''bob'' [''L2-Operator''] [] ''dev''))) = ActionDeny"
proof -
  let ?i = "sample_input ''bob'' [''L2-Operator''] [] ''dev''"
  have team: "lay_Roles sample_platform_layer \<noteq> [] \<or>
      (\<forall>team. loadLayer (sample_source (Some loose_file)) team_var ''team'' = Inr (Some team) \<longrightarrow> lay_Roles team = [])"
    by (simp add: sample_loaded team_layer_of_def loose_file_def)
  have s: "sealed_floor (LadderFrom [DefaultLayer, sample_platform_layer]) [DefaultLayer, sample_platform_layer] (pint_Action (pin_Intent ?i)) = Some ''L1-Architect''"
    using sample_sealed by (simp add: sample_input_def)
  have h: "\<not> holdsAtLeast (LadderFrom [DefaultLayer, sample_platform_layer]) (psub_Roles (pin_Subject ?i)) ''L1-Architect''"
    by code_simp
  show ?thesis
    using assembled_engine_keeps_the_platform_floor [OF sample_loaded(1) team refl s h, of None sample_env undefined undefined]
      sample_engine [OF refl sample_layers_valid] by blast
qed

theorem configured_engine_enforces_every_declared_layer_witness:
  "\<exists>r. configuredRBAC (sample_source (Some loose_file)) None = Inr r \<and>
     (\<forall>intent. pint_Scope intent = [] \<longrightarrow> required_role r intent =
        RequiredRole (Resolve DefaultRoleLadder [DefaultLayer, sample_platform_layer, team_layer_of loose_file]) (pint_Action intent))"
proof -
  obtain r where r: "configuredRBAC (sample_source (Some loose_file)) None = Inr r"
    using sample_engine [OF refl sample_layers_valid] by blast
  have l: "LadderFrom [DefaultLayer, sample_platform_layer, team_layer_of loose_file] = DefaultRoleLadder"
    by (simp add: DefaultLayer_def sample_platform_layer_def team_layer_of_def loose_file_def)
  show ?thesis
    using configured_engine_enforces_every_declared_layer [OF r] r l by (auto simp: sample_loaded)
qed

theorem explanation_is_what_the_door_would_say_witness:
  "\<exists>subject d q token st. Explain (Some (gateway_Resolve sample_gateway)) (Some (door_policy sample_env))
       (sample_intent [''ops''] ''service.deploy'' ''dev'') (NewFailsafe NewRBAC) = (Inr (subject, d), q) \<and> dec_Action d = ActionAllow \<and>
     Submit (gateway_Resolve sample_gateway) (door_policy sample_env) (\<lambda>s r. (Inr r, s)) 1 2 ''t'' (NewFailsafe NewRBAC, ())
       (sample_intent [''ops''] ''service.deploy'' ''dev'') = (Inr token, st)"
proof -
  let ?i = "sample_intent [''ops''] ''service.deploy'' ''dev''"
  let ?explained = "Explain (Some (gateway_Resolve sample_gateway)) (Some (door_policy sample_env)) ?i (NewFailsafe NewRBAC)"
  have g: "spec_Goal (int_Spec ?i) \<noteq> []" by (simp add: sample_intent_def)
  have "case fst ?explained of Inr (subject, d) \<Rightarrow> dec_Action d = ActionAllow | Inl e \<Rightarrow> False" by code_simp
  then obtain subject d q where e: "?explained = (Inr (subject, d), q)" "dec_Action d = ActionAllow"
    by (cases ?explained) (auto split: sum.splits)
  obtain x p' s' where b: "Submit (gateway_Resolve sample_gateway) (door_policy sample_env) (\<lambda>s r. (Inr r, s)) 1 2 ''t'' (NewFailsafe NewRBAC, ()) ?i
      = (x, p', s')" by (metis prod_cases3)
  have "\<exists>token. x = Inr token"
    using explanation_is_what_the_door_would_say [OF g b e(1)] e(2) by auto
  then show ?thesis using e b by blast
qed

text \<open>Findings. The platform's seal is a statement about roles, and the ladder that orders them is taken from the first layer
  that declares one: a team's file that declares it, under a platform file that does not, turns the order around and the sealed
  action is allowed to the most junior role.\<close>

definition upside_down_file :: layerFile where
  "upside_down_file = \<lparr>lf_Roles = [(''L3-Consumer'', 0), (''L1-Architect'', 1)], lf_ActionRoles = [], lf_Sealed = []\<rparr>"

lemma team_ladder_undoes_the_seal:
  "\<exists>r. configuredRBAC (sample_source (Some upside_down_file)) None = Inr r \<and>
     dec_Action (fst (Evaluate sample_env r (sample_input ''eve'' [''L3-Consumer''] [] ''dev''))) = ActionAllow"
proof -
  have v: "ValidateLayers (LadderFrom [DefaultLayer, sample_platform_layer, team_layer_of upside_down_file])
      [DefaultLayer, sample_platform_layer, team_layer_of upside_down_file] = None" by code_simp
  have "dec_Action (fst (Evaluate sample_env (WithResolved (WithRoleLadder NewRBAC
        (LadderFrom [DefaultLayer, sample_platform_layer, team_layer_of upside_down_file]))
        (Resolve (LadderFrom [DefaultLayer, sample_platform_layer, team_layer_of upside_down_file])
          [DefaultLayer, sample_platform_layer, team_layer_of upside_down_file]))
      (sample_input ''eve'' [''L3-Consumer''] [] ''dev''))) = ActionAllow"
    by code_simp
  then show ?thesis using sample_engine [OF refl v] by blast
qed

text \<open>A team's file with an unknown key stops the process from starting; a scope's file that is not even JSON is dropped, and
  its scope is governed by the base as if it had declared nothing.\<close>

lemma bad_scope_file_is_dropped:
  "\<exists>err. configuredRBAC (sample_source None) None = Inl err"
  "\<exists>r. configuredRBAC (sample_source (Some loose_file)) None = Inr r \<and> rb_scopes r = None"
proof -
  show "\<exists>err. configuredRBAC (sample_source None) None = Inl err"
    by (simp add: configuredRBAC_def currentLayers_def sample_loaded)
  show "\<exists>r. configuredRBAC (sample_source (Some loose_file)) None = Inr r \<and> rb_scopes r = None"
    using sample_engine [OF refl sample_layers_valid] by (simp add: WithResolved_def WithRoleLadder_def NewRBAC_def)
qed

text \<open>The door of package \<open>doorkit\<close>, which \<open>mantlekeep serve\<close> runs, is assembled from no layer file: it allows an operator what
  the engine configured from the same files denies.\<close>

lemma served_door_ignores_the_layers:
  "\<exists>d r. NewInMemoryDoor (Inr b) None = Inr d \<and> configuredRBAC (sample_source (Some loose_file)) None = Inr r \<and>
     dec_Action (fst (Evaluate sample_env (fs_primary (kd_Policy d)) (sample_input ''bob'' [''L2-Operator''] [] ''dev''))) = ActionAllow \<and>
     dec_Action (fst (Evaluate sample_env r (sample_input ''bob'' [''L2-Operator''] [] ''dev''))) = ActionDeny"
proof -
  have a: "dec_Action (fst (Evaluate sample_env NewRBAC (sample_input ''bob'' [''L2-Operator''] [] ''dev''))) = ActionAllow" by code_simp
  have d: "dec_Action (fst (Evaluate sample_env (WithResolved (WithRoleLadder NewRBAC
        (LadderFrom [DefaultLayer, sample_platform_layer, team_layer_of loose_file]))
        (Resolve (LadderFrom [DefaultLayer, sample_platform_layer, team_layer_of loose_file])
          [DefaultLayer, sample_platform_layer, team_layer_of loose_file]))
      (sample_input ''bob'' [''L2-Operator''] [] ''dev''))) = ActionDeny"
    by code_simp
  show ?thesis
    using sample_engine [OF refl sample_layers_valid] a d
    by (simp del: LadderFrom.simps add: NewInMemoryDoor_def NewInMemoryDoorWithIdentity_def NewDoorWithIdentity_def NewFailsafe_def)
qed

text \<open>A binding to a role the ladder does not rank is refused at boot and installed by the next poll, where it refuses everybody.\<close>

definition typo_file :: layerFile where
  "typo_file = \<lparr>lf_Roles = [], lf_ActionRoles = [(''job.run'', ''L1-Architech'')], lf_Sealed = []\<rparr>"

lemma reload_installs_what_boot_refuses:
  "\<exists>err. configuredRBAC (sample_source (Some typo_file)) None = Inl err"
  "le_polled e \<Longrightarrow> wat_ladder (le_watcher e) = DefaultRoleLadder \<Longrightarrow> wat_fallback (le_watcher e) = None \<Longrightarrow> wat_lastHash (le_watcher e) \<noteq> ''new'' \<Longrightarrow>
     case rb_dyn (le_engine (poll (\<lambda>_. ''new'') (sample_source (Some typo_file)) e)) of
       Some a \<Rightarrow> a ''job.run'' = Some ''L1-Architech'' | None \<Rightarrow> False"
proof -
  have c: "currentLayers (sample_source (Some typo_file)) = Inr ([DefaultLayer, sample_platform_layer, team_layer_of typo_file],
      [cs_env (sample_source (Some typo_file)) platform_var, cs_env (sample_source (Some typo_file)) team_var])"
    by (simp add: currentLayers_def sample_loaded)
  have v: "ValidateLayers (LadderFrom [DefaultLayer, sample_platform_layer, team_layer_of typo_file])
      [DefaultLayer, sample_platform_layer, team_layer_of typo_file] \<noteq> None" by code_simp
  then show "\<exists>err. configuredRBAC (sample_source (Some typo_file)) None = Inl err"
    by (auto simp del: LadderFrom.simps simp: configuredRBAC_def c)
  have r: "RequiredRole (Resolve DefaultRoleLadder [DefaultLayer, sample_platform_layer, team_layer_of typo_file]) ''job.run'' = Some ''L1-Architech''"
    by code_simp
  show "case rb_dyn (le_engine (poll (\<lambda>_. ''new'') (sample_source (Some typo_file)) e)) of
       Some a \<Rightarrow> a ''job.run'' = Some ''L1-Architech'' | None \<Rightarrow> False"
    if "le_polled e" "wat_ladder (le_watcher e) = DefaultRoleLadder" "wat_fallback (le_watcher e) = None" "wat_lastHash (le_watcher e) \<noteq> ''new''"
    using that r by (simp add: poll_def c Reload_def rebuild_def Let_def WithLive_def live_RequiredRole_def)
qed

end
