(* ===== verification/Go_Fmt.thy ===== *)
theory Go_Fmt
  imports Prelude
begin

text \<open>
  The renderings of package \<open>fmt\<close> and \<open>time\<close> the estate compares or records: a decimal integer, and the text of a
  \<open>time.Duration\<close> (\<open>168h0m0s\<close>, \<open>1.5s\<close>, \<open>20ms\<close>). Integers are unbounded.
\<close>

definition digit :: "nat \<Rightarrow> char" where
  "digit n = ''0123456789'' ! n"

fun dec_nat :: "nat \<Rightarrow> string" where
  "dec_nat n = (if n < 10 then [digit n] else dec_nat (n div 10) @ [digit (n mod 10)])"

declare dec_nat.simps [simp del]

definition dec_int :: "int \<Rightarrow> string" where
  "dec_int i = (if i < 0 then [CHR 0x2D] else []) @ dec_nat (nat \<bar>i\<bar>)"

text \<open>The last \<open>p\<close> decimal digits of a number, and the fraction they write with trailing zeros left out.\<close>

fun low_digits :: "nat \<Rightarrow> nat \<Rightarrow> string" where
  "low_digits 0 v = []"
| "low_digits (Suc p) v = low_digits p (v div 10) @ [digit (v mod 10)]"

definition fmtFrac :: "nat \<Rightarrow> nat \<Rightarrow> string" where
  "fmtFrac p v = (let ds = rev (dropWhile (\<lambda>c. c = CHR ''0'') (rev (low_digits p v)))
                  in if ds = [] then [] else CHR ''.'' # ds)"

definition duration_String :: "int \<Rightarrow> string" where
  "duration_String d =
     (let u = nat \<bar>d\<bar>; sign = (if d < 0 then [CHR 0x2D] else [])
      in if u = 0 then ''0s''
         else if u < 10 ^ 3 then sign @ dec_nat u @ ''ns''
         else if u < 10 ^ 6 then sign @ dec_nat (u div 10 ^ 3) @ fmtFrac 3 u @ [CHR 0xC2, CHR 0xB5, CHR ''s'']
         else if u < 10 ^ 9 then sign @ dec_nat (u div 10 ^ 6) @ fmtFrac 6 u @ ''ms''
         else (let secs = u div 10 ^ 9; s = dec_nat (secs mod 60) @ fmtFrac 9 u @ ''s''; mins = secs div 60
               in if mins = 0 then sign @ s
                  else if mins div 60 = 0 then sign @ dec_nat (mins mod 60) @ ''m'' @ s
                  else sign @ dec_nat (mins div 60) @ ''h'' @ dec_nat (mins mod 60) @ ''m'' @ s))"

text \<open>A fallible result known to satisfy a test is a value that does.\<close>

lemma case_Inr: "(case x of Inl e \<Rightarrow> False | Inr y \<Rightarrow> P y) \<Longrightarrow> \<exists>y. x = Inr y \<and> P y"
  by (cases x) auto

section \<open>A decimal is read back\<close>

fun parse_nat :: "nat \<Rightarrow> string \<Rightarrow> nat" where
  "parse_nat acc [] = acc"
| "parse_nat acc (c # cs) = parse_nat (10 * acc + (of_char c - 48)) cs"

lemma digit_value: "n < 10 \<Longrightarrow> (of_char (digit n) :: nat) = 48 + n"
proof -
  assume "n < 10"
  then have "n \<in> set [0..<10]" by simp
  then show ?thesis by (auto simp: upt_conv_Cons digit_def nth_Cons')
qed

lemma parse_nat_append: "parse_nat acc (xs @ ys) = parse_nat (parse_nat acc xs) ys"
  by (induction acc xs rule: parse_nat.induct) auto

lemma parse_dec_nat: "parse_nat 0 (dec_nat n) = n"
proof (induction n rule: dec_nat.induct)
  case (1 n)
  show ?case
  proof (cases "n < 10")
    case True
    then show ?thesis by (simp add: dec_nat.simps [of n] digit_value)
  next
    case False
    then show ?thesis
      by (subst dec_nat.simps) (simp add: 1 parse_nat_append digit_value)
  qed
qed

lemma dec_nat_inject [simp]: "dec_nat m = dec_nat n \<longleftrightarrow> m = n"
  by (metis parse_dec_nat)

lemma dec_nat_digits: "c \<in> set (dec_nat n) \<Longrightarrow> 48 \<le> (of_char c :: nat)"
proof (induction n rule: dec_nat.induct)
  case (1 n)
  then show ?case
    by (subst (asm) (2) dec_nat.simps) (auto simp: digit_value split: if_splits)
qed

lemma dec_nat_no_minus: "dec_nat n \<noteq> CHR 0x2D # s"
proof
  assume "dec_nat n = CHR 0x2D # s"
  then have "CHR 0x2D \<in> set (dec_nat n)" by simp
  from dec_nat_digits [OF this] show False by simp
qed

lemma dec_int_inject [simp]: "dec_int i = dec_int j \<longleftrightarrow> i = j"
  by (auto simp: dec_int_def dec_nat_no_minus dec_nat_no_minus [THEN not_sym])

lemma dec_nat_nonempty [simp]: "dec_nat n \<noteq> []"
  by (subst dec_nat.simps) simp

lemma dec_int_nonempty [simp]: "dec_int i \<noteq> []"
  by (simp add: dec_int_def)

end
