(* ===== verification/Governance_Suite.thy ===== *)
theory Governance_Suite
  imports Door_Assembly Go_Fmt
begin

text \<open>
  The conformance suite a deployment must pass: package \<open>governancetest\<close> of \<open>mantlekeep-control\<close>. A subtest is a function to an
  \<open>outcome\<close>: passed, skipped, the findings it reports, or the fault that stopped it (a probe that brought no
  decision). The behavioural checks thread the door's state and the probe counter. A finding holds the data its message is
  rendered from, in the order of the names it lists. The properties say what a green run means
  on the door the control plane assembles; a lemma shows a red deployment one of the checks calls green.
\<close>

section \<open>Deployments and what a check can find\<close>

record gov_Action =
  ga_Name :: string
  ga_Params :: params
  ga_Gated :: bool

type_synonym 'd submit_fn = "'d \<Rightarrow> Intent \<Rightarrow> (door_error + ExecutionToken) \<times> 'd"

record 'd Deployment =
  dp_Door :: "'d submit_fn option"
  dp_Subjects :: "Subject list"
  dp_Actions :: "gov_Action list"

record verdict =
  ve_allowed :: bool
  ve_decision :: Decision

datatype fault = EmptyToken string string | NotADecision string string string

datatype finding =
    NothingGranted nat
  | SealHasNothingToMatch "string list"
  | GateUnwritten string nat
  | GateNeverMatches string nat
  | UnreachableRules "(string \<times> nat) list"
  | NothingReachable "string list"
  | GateFailsOpen "string list"
  | GateNeverReached "(string \<times> Decision) list"
  | NoGatedActionGranted
  | SelfApproval string string
  | NothingToSeparate
  | RefusedForAnotherReason "(string \<times> Decision) list"
  | AINotStopped string string verdict

datatype outcome = Passed | Skipped | Failed "finding list" | Stopped fault

definition requireApprovalWhen :: string where "requireApprovalWhen = ''require_approval_when''"

section \<open>Whether the suite can say anything\<close>

datatype unusable = NoDoorGiven | NoActionsGiven | NamelessSubject | TooFewSubjects nat | OnlyAIs

fun subject_scan :: "Subject list \<Rightarrow> string list \<Rightarrow> nat \<Rightarrow> unusable + string list \<times> nat" where
  "subject_scan [] seen humans = Inr (seen, humans)"
| "subject_scan (s # ss) seen humans =
     (if sub_ID s = [] then Inl NamelessSubject
      else subject_scan ss (if sub_ID s \<in> set seen then seen else sub_ID s # seen) (if \<not> sub_IsAI s then humans + 1 else humans))"

definition refuseUnusableDeployment :: "'d Deployment \<Rightarrow> unusable option" where
  "refuseUnusableDeployment d =
     (case dp_Door d of None \<Rightarrow> Some NoDoorGiven | Some _ \<Rightarrow>
        if length (dp_Actions d) = 0 then Some NoActionsGiven
        else (case subject_scan (dp_Subjects d) [] 0 of
                Inl e \<Rightarrow> Some e
              | Inr (seen, humans) \<Rightarrow>
                  if length seen < 2 then Some (TooFewSubjects (length seen))
                  else if humans = 0 then Some OnlyAIs else None))"

datatype documents_error = GrantsUnreadable string | FloorsUnreadable string | NotInForce string string

definition documentsInForce ::
  "(Grants \<Rightarrow> Floors \<Rightarrow> string) \<Rightarrow> string + Grants \<Rightarrow> string + Floors \<Rightarrow> string \<Rightarrow> documents_error + Grants \<times> Floors" where
  "documentsInForce revisionOf loaded loadedFloors inForce =
     (case loaded of Inl err \<Rightarrow> Inl (GrantsUnreadable err) | Inr held \<Rightarrow>
      (case loadedFloors of Inl err \<Rightarrow> Inl (FloorsUnreadable err) | Inr floors \<Rightarrow>
         (let r = revisionOf held floors in if r \<noteq> inForce then Inl (NotInForce r inForce) else Inr (held, floors))))"

section \<open>Reading the documents\<close>

definition grantedActions :: "Grants \<Rightarrow> string list" where
  "grantedActions held = remdups (concat (map snd (gr_RoleActions held)))"

definition rulesOfKind :: "FloorRule list \<Rightarrow> string \<Rightarrow> FloorRule list" where
  "rulesOfKind rules kind = filter (\<lambda>rule. fr_Kind rule = kind) rules"

definition whenMatches :: "params \<Rightarrow> string \<Rightarrow> string \<Rightarrow> bool" where
  "whenMatches p key want =
     (case map_of p key of
        Some (ABool value) \<Rightarrow> value \<and> want = ''true''
      | Some (AStr value) \<Rightarrow> value = want
      | _ \<Rightarrow> False)"

definition someRoleIsGrantedSomeAction :: "Grants \<Rightarrow> outcome" where
  "someRoleIsGrantedSomeAction held =
     (if length (grantedActions held) = 0 then Failed [NothingGranted (length (gr_RoleActions held))] else Passed)"

definition theAISealHasAmmunition :: "Grants \<Rightarrow> outcome" where
  "theAISealHasAmmunition held =
     (let granted = grantedActions held
      in if length granted = 0 then Skipped
         else if length (gr_ApprovalActions held) = 0 then Failed [SealHasNothingToMatch (sort granted)] else Passed)"

definition reportGateFor :: "gov_Action \<Rightarrow> FloorRule list \<Rightarrow> finding list" where
  "reportGateFor action rules =
     (let approvalRules = rulesOfKind rules requireApprovalWhen
      in if length approvalRules = 0 then [GateUnwritten (ga_Name action) (length rules)]
         else if list_ex (\<lambda>rule. whenMatches (ga_Params action) (fr_WhenParam rule) (fr_WhenValue rule)) approvalRules then []
         else [GateNeverMatches (ga_Name action) (length approvalRules)])"

definition everyGatedActionHasARuleThatFires :: "gov_Action list \<Rightarrow> Floors \<Rightarrow> outcome" where
  "everyGatedActionHasARuleThatFires actions floors =
     (let gated = filter ga_Gated actions;
          found = concat (map (\<lambda>action. reportGateFor action (entries floors (ga_Name action))) gated)
      in if found \<noteq> [] then Failed found else if length gated = 0 then Skipped else Passed)"

definition noFloorRuleIsUnreachable :: "Grants \<Rightarrow> Floors \<Rightarrow> outcome" where
  "noFloorRuleIsUnreachable held floors =
     (let granted = grantedActions held;
          unreachable = filter (\<lambda>(action, n). 0 < n \<and> action \<notin> set granted)
                          (map (\<lambda>(action, rules). (action, length rules)) floors)
      in if length unreachable = 0 then Passed else Failed [UnreachableRules (sort_key fst unreachable)])"

section \<open>Probing the door\<close>

definition refusedForNoGrant :: "verdict \<Rightarrow> bool" where
  "refusedForNoGrant v \<longleftrightarrow> dec_Category (ve_decision v) = DenialActionNotAllowed"

definition awaitingAPerson :: "verdict \<Rightarrow> bool" where
  "awaitingAPerson v \<longleftrightarrow> dec_Action (ve_decision v) = ActionRequireApproval"

definition paramsWith :: "params \<Rightarrow> params \<Rightarrow> params" where
  "paramsWith base overrides =
     foldl (\<lambda>m (k, v). gset m k v) (foldl (\<lambda>m (k, v). gset m k v) [] base) overrides"

definition probe_intent :: "int \<Rightarrow> nat \<Rightarrow> Subject \<Rightarrow> gov_Action \<Rightarrow> params \<Rightarrow> Intent" where
  "probe_intent at_time n subject action extraParams =
     \<lparr>int_ID = ''INT-GOVTEST-'' @ dec_nat n, int_Subject = mk_Subject (sub_ID subject) [], int_Action = ga_Name action,
      int_Resource = ''governancetest/'' @ ga_Name action,
      int_Spec = \<lparr>spec_Goal = ''governance conformance probe: '' @ ga_Name action, spec_AffectedSystems = [], spec_RiskLevel = RiskUnset,
                  spec_Preconditions = [], spec_Postconditions = [], spec_RollbackPlan = []\<rparr>,
      int_Params = paramsWith (ga_Params action) extraParams, int_SubmittedAt = at_time, int_TTL = 0, int_Via = []\<rparr>"

definition zero_Decision :: Decision where "zero_Decision = mk_Decision [] []"

definition probe :: "'d submit_fn \<Rightarrow> int \<Rightarrow> Subject \<Rightarrow> gov_Action \<Rightarrow> params \<Rightarrow> nat \<times> 'd \<Rightarrow> (fault + verdict) \<times> nat \<times> 'd" where
  "probe submit at_time subject action extraParams st =
     (let (n, d) = st
      in case submit d (probe_intent at_time (n + 1) subject action extraParams) of
           (Inr token, d') \<Rightarrow>
             (if tok_Value token = [] then Inl (EmptyToken (ga_Name action) (sub_ID subject))
              else Inr \<lparr>ve_allowed = True, ve_decision = zero_Decision\<rparr>, n + 1, d')
         | (Inl err, d') \<Rightarrow>
             (case find_DecisionError err of
                None \<Rightarrow> Inl (NotADecision (ga_Name action) (sub_ID subject) (error_text err))
              | Some d \<Rightarrow> Inr \<lparr>ve_allowed = False, ve_decision = d\<rparr>, n + 1, d'))"

definition humanSubjects :: "Subject list \<Rightarrow> Subject list" where
  "humanSubjects subjects = filter (\<lambda>s. \<not> sub_IsAI s) subjects"

definition aiSubjects :: "Subject list \<Rightarrow> Subject list" where
  "aiSubjects subjects = filter sub_IsAI subjects"

definition gatedActionsFirst :: "gov_Action list \<Rightarrow> gov_Action list" where
  "gatedActionsFirst actions = filter ga_Gated actions @ filter (\<lambda>a. \<not> ga_Gated a) actions"

definition declaredAction :: "gov_Action list \<Rightarrow> string \<Rightarrow> gov_Action" where
  "declaredAction actions name =
     (case find (\<lambda>a. ga_Name a = name) actions of Some a \<Rightarrow> a | None \<Rightarrow> \<lparr>ga_Name = name, ga_Params = [], ga_Gated = False\<rparr>)"

definition noRequester :: params where "noRequester = [(''requester'', AStr [])]"

definition arrow :: "Subject \<Rightarrow> gov_Action \<Rightarrow> string" where
  "arrow subject action = sub_ID subject @ [CHR 0xE2, CHR 0x86, CHR 0x92] @ ga_Name action"

text \<open>A loop over two lists is a walk over their pairs, the outer list first.\<close>

definition action_pairs :: "gov_Action list \<Rightarrow> Subject list \<Rightarrow> (Subject \<times> gov_Action) list" where
  "action_pairs actions subjects = concat (map (\<lambda>a. map (\<lambda>s. (s, a)) subjects) actions)"

fun reach_walk :: "'d submit_fn \<Rightarrow> int \<Rightarrow> (Subject \<times> gov_Action) list \<Rightarrow> string list \<Rightarrow> nat \<times> 'd \<Rightarrow> outcome \<times> nat \<times> 'd" where
  "reach_walk submit at_time [] refusals st = (Failed [NothingReachable (sort refusals)], st)"
| "reach_walk submit at_time ((s, a) # ps) refusals st =
     (case probe submit at_time s a noRequester st of
        (Inl f, st') \<Rightarrow> (Stopped f, st')
      | (Inr v, st') \<Rightarrow>
          if \<not> refusedForNoGrant v then (Passed, st') else reach_walk submit at_time ps (refusals @ [arrow s a]) st')"

definition someSubjectCanReachSomeAction ::
  "'d submit_fn \<Rightarrow> int \<Rightarrow> Subject list \<Rightarrow> gov_Action list \<Rightarrow> nat \<times> 'd \<Rightarrow> outcome \<times> nat \<times> 'd" where
  "someSubjectCanReachSomeAction submit at_time subjects actions st =
     reach_walk submit at_time (concat (map (\<lambda>s. map (\<lambda>a. (s, a)) actions) subjects)) [] st"

section \<open>The seals\<close>

fun gate_probe :: "'d submit_fn \<Rightarrow> int \<Rightarrow> (Subject \<times> gov_Action) list \<Rightarrow> string list \<Rightarrow> (string \<times> Decision) list \<Rightarrow> nat \<times> 'd
    \<Rightarrow> (fault + outcome + string list \<times> (string \<times> Decision) list) \<times> nat \<times> 'd" where
  "gate_probe submit at_time [] allowed elsewhere st = (Inr (Inr (allowed, elsewhere)), st)"
| "gate_probe submit at_time ((s, a) # ps) allowed elsewhere st =
     (case probe submit at_time s a noRequester st of
        (Inl f, st') \<Rightarrow> (Inl f, st')
      | (Inr v, st') \<Rightarrow>
          if awaitingAPerson v then (Inr (Inl Passed), st')
          else if ve_allowed v then gate_probe submit at_time ps (allowed @ [arrow s a]) elsewhere st'
          else if refusedForNoGrant v then gate_probe submit at_time ps allowed elsewhere st'
          else gate_probe submit at_time ps allowed (elsewhere @ [(arrow s a, ve_decision v)]) st')"

definition aGatedActionWaitsForASecondPerson ::
  "'d submit_fn \<Rightarrow> int \<Rightarrow> Subject list \<Rightarrow> gov_Action list \<Rightarrow> nat \<times> 'd \<Rightarrow> outcome \<times> nat \<times> 'd" where
  "aGatedActionWaitsForASecondPerson submit at_time subjects actions st =
     (let gated = filter ga_Gated actions
      in case gate_probe submit at_time (action_pairs gated (humanSubjects subjects)) [] [] st of
           (Inl f, st') \<Rightarrow> (Stopped f, st')
         | (Inr (Inl outcome), st') \<Rightarrow> (outcome, st')
         | (Inr (Inr (allowed, elsewhere)), st') \<Rightarrow>
             (if length gated = 0 then Skipped
              else if 0 < length allowed then Failed [GateFailsOpen (sort allowed)]
              else if 0 < length elsewhere then Failed [GateNeverReached (sort_key fst elsewhere)]
              else Failed [NoGatedActionGranted], st'))"

fun separation_walk :: "'d submit_fn \<Rightarrow> int \<Rightarrow> (Subject \<times> gov_Action) list \<Rightarrow> (string \<times> Decision) list \<Rightarrow> nat \<times> 'd \<Rightarrow> outcome \<times> nat \<times> 'd" where
  "separation_walk submit at_time [] reached st =
     (if length reached = 0 then Failed [NothingToSeparate] else Failed [RefusedForAnotherReason (sort_key fst reached)], st)"
| "separation_walk submit at_time ((s, a) # ps) reached st =
     (case probe submit at_time s a noRequester st of
        (Inl f, st') \<Rightarrow> (Stopped f, st')
      | (Inr opened, st') \<Rightarrow>
          if refusedForNoGrant opened then separation_walk submit at_time ps reached st'
          else (case probe submit at_time s a [(''requester'', AStr (sub_ID s))] st' of
                  (Inl f, st2) \<Rightarrow> (Stopped f, st2)
                | (Inr approval, st2) \<Rightarrow>
                    if dec_Category (ve_decision approval) = DenialSeparationOfDuties then (Passed, st2)
                    else if ve_allowed approval then (Failed [SelfApproval (sub_ID s) (ga_Name a)], st2)
                    else separation_walk submit at_time ps (reached @ [(arrow s a, ve_decision approval)]) st2))"

definition nobodyApprovesTheirOwnChange ::
  "'d submit_fn \<Rightarrow> int \<Rightarrow> Subject list \<Rightarrow> gov_Action list \<Rightarrow> nat \<times> 'd \<Rightarrow> outcome \<times> nat \<times> 'd" where
  "nobodyApprovesTheirOwnChange submit at_time subjects actions st =
     separation_walk submit at_time (action_pairs (gatedActionsFirst actions) (humanSubjects subjects)) [] st"

fun seal_walk :: "'d submit_fn \<Rightarrow> int \<Rightarrow> gov_Action list \<Rightarrow> (Subject \<times> string) list \<Rightarrow> finding list \<Rightarrow> nat \<times> 'd \<Rightarrow> outcome \<times> nat \<times> 'd" where
  "seal_walk submit at_time actions [] found st = (if found = [] then Passed else Failed found, st)"
| "seal_walk submit at_time actions ((agent, name) # ps) found st =
     (case probe submit at_time agent (declaredAction actions name) noRequester st of
        (Inl f, st') \<Rightarrow> (Stopped f, st')
      | (Inr v, st') \<Rightarrow>
          if dec_Step (ve_decision v) = StepAINotApproving then seal_walk submit at_time actions ps found st'
          else seal_walk submit at_time actions ps (found @ [AINotStopped (sub_ID agent) name v]) st')"

definition anAIIsNeverTheApprover ::
  "'d submit_fn \<Rightarrow> int \<Rightarrow> Subject list \<Rightarrow> gov_Action list \<Rightarrow> Grants \<Rightarrow> nat \<times> 'd \<Rightarrow> outcome \<times> nat \<times> 'd" where
  "anAIIsNeverTheApprover submit at_time subjects actions held st =
     (let agents = aiSubjects subjects
      in if length agents = 0 then (Skipped, st)
         else if length (gr_ApprovalActions held) = 0 then (Skipped, st)
         else seal_walk submit at_time actions
                (concat (map (\<lambda>agent. map (\<lambda>name. (agent, name)) (gr_ApprovalActions held)) agents)) [] st)"

text \<open>The whole run: what refused it, or the outcome of every subtest in order.\<close>

definition gov_Run ::
  "(Grants \<Rightarrow> Floors \<Rightarrow> string) \<Rightarrow> string + Grants \<Rightarrow> string + Floors \<Rightarrow> string \<Rightarrow> int \<Rightarrow> 'd Deployment \<Rightarrow> nat \<times> 'd
    \<Rightarrow> (unusable + documents_error + outcome list) \<times> nat \<times> 'd" where
  "gov_Run revisionOf loaded loadedFloors inForce at_time d st =
     (case refuseUnusableDeployment d of
        Some e \<Rightarrow> (Inl e, st)
      | None \<Rightarrow>
          (case documentsInForce revisionOf loaded loadedFloors inForce of
             Inl e \<Rightarrow> (Inr (Inl e), st)
           | Inr (held, floors) \<Rightarrow>
               (case dp_Door d of
                  None \<Rightarrow> (Inl NoDoorGiven, st)
                | Some submit \<Rightarrow>
                    (let (o5, st5) = someSubjectCanReachSomeAction submit at_time (dp_Subjects d) (dp_Actions d) st;
                         (o6, st6) = aGatedActionWaitsForASecondPerson submit at_time (dp_Subjects d) (dp_Actions d) st5;
                         (o7, st7) = nobodyApprovesTheirOwnChange submit at_time (dp_Subjects d) (dp_Actions d) st6;
                         (o8, st8) = anAIIsNeverTheApprover submit at_time (dp_Subjects d) (dp_Actions d) held st7
                     in (Inr (Inr [someRoleIsGrantedSomeAction held, theAISealHasAmmunition held,
                                   everyGatedActionHasARuleThatFires (dp_Actions d) floors, noFloorRuleIsUnreachable held floors,
                                   o5, o6, o7, o8]), st8)))))"

section \<open>The suite on the assembled door\<close>

lemma whenMatches_engine: "whenMatches p key want = floorWhenMatches p key want"
  by (simp add: whenMatches_def floorWhenMatches_def)

lemma gate_check_passes:
  assumes "everyGatedActionHasARuleThatFires actions floors = Passed" and "action \<in> set actions" and "ga_Gated action"
  shows "\<exists>rule\<in>set (entries floors (ga_Name action)). fr_Kind rule = requireApprovalWhen \<and>
    floorWhenMatches (ga_Params action) (fr_WhenParam rule) (fr_WhenValue rule)"
proof -
  have "reportGateFor action (entries floors (ga_Name action)) = []"
    using assms by (auto simp: everyGatedActionHasARuleThatFires_def Let_def split: if_splits)
  then show ?thesis
    by (auto simp: reportGateFor_def Let_def rulesOfKind_def list_ex_iff whenMatches_engine split: if_splits)
qed

text \<open>The door of a deployment: any directory, the shipped engine behind its failsafe, any chain.\<close>

definition assembled_submit ::
  "directory \<Rightarrow> 'f engine_env \<Rightarrow> ('c \<Rightarrow> AuditRecord \<Rightarrow> (string + AuditRecord) \<times> 'c) \<Rightarrow> int \<Rightarrow> int \<Rightarrow> string \<Rightarrow> (RBAC Failsafe \<times> 'c) submit_fn" where
  "assembled_submit d env logger logged_at now random = Submit (dir_Resolve d) (door_policy env) logger logged_at now random"

lemma assembled_allow:
  assumes "assembled_submit d env logger logged_at now random (f, s) intent = (Inr token, st')" and "\<not> fs_tripped f"
  obtains subject where "dir_Resolve d \<lparr>ext_ID = sub_ID (int_Subject intent), ext_Groups = sub_ADGroups (int_Subject intent), ext_Attrs = []\<rparr> = Inr subject"
    "dec_Action (fst (Evaluate env (fs_primary f) (PolicyInputFor subject intent))) = ActionAllow"
proof -
  obtain p' s' where st: "st' = (p', s')" by (cases st')
  obtain subject dec p1 where a: "dir_Resolve d \<lparr>ext_ID = sub_ID (int_Subject intent), ext_Groups = sub_ADGroups (int_Subject intent),
        ext_Attrs = []\<rparr> = Inr subject"
      "door_policy env f (submit_input subject intent) = (Inr dec, p1)" "dec_Action dec = ActionAllow"
    by (rule Submit_allows [OF assms(1) [unfolded assembled_submit_def st]])
  have "dec_Action (fst (Evaluate env (fs_primary f) (PolicyInputFor subject intent))) = ActionAllow"
    using door_policy_healthy [OF assms(2) a(2)] a(3) by (simp add: submit_input_eq)
  then show ?thesis using that a(1) by blast
qed

lemma door_policy_stays_healthy: "\<not> fs_tripped f \<Longrightarrow> \<not> fs_tripped (snd (door_policy env f i))"
  by (simp add: door_policy_def failsafe_Evaluate_def rbac_Evaluate_def split_beta Let_def)

lemma assembled_stays_healthy:
  assumes "\<not> fs_tripped f"
  shows "\<not> fs_tripped (fst (snd (assembled_submit d env logger logged_at now random (f, s) intent)))"
proof (cases "dir_Resolve d \<lparr>ext_ID = sub_ID (int_Subject intent), ext_Groups = sub_ADGroups (int_Subject intent), ext_Attrs = []\<rparr>")
  case (Inl e)
  then show ?thesis using assms by (simp add: assembled_submit_def Submit_def)
next
  case (Inr u)
  obtain y p1 where e: "door_policy env f (submit_input u intent) = (y, p1)" by (cases "door_policy env f (submit_input u intent)")
  have h: "\<not> fs_tripped p1" using door_policy_stays_healthy [OF assms, of env "submit_input u intent"] e by simp
  show ?thesis
  proof (cases y)
    case (Inl err)
    then show ?thesis using assms h Inr e by (simp add: assembled_submit_def Submit_def)
  next
    case (Inr dec)
    obtain z s1 where "logger s (decision_record logged_at intent u dec) = (z, s1)" by (cases "logger s (decision_record logged_at intent u dec)")
    then show ?thesis using assms h \<open>dir_Resolve _ _ = Inr u\<close> e Inr
      by (cases z) (auto simp: assembled_submit_def Submit_def)
  qed
qed

lemma param_paramsWith:
  "map_of (paramsWith base [(k, v)]) k' = (if k' = k then Some v else map_of (foldl (\<lambda>m (k, v). gset m k v) [] base) k')"
  by (simp add: paramsWith_def)

lemma subject_scan_named: "subject_scan ss seen humans = Inr r \<Longrightarrow> \<forall>s\<in>set ss. sub_ID s \<noteq> []"
  by (induction ss seen humans rule: subject_scan.induct) (auto split: if_splits)

lemma usable_subjects_named: "refuseUnusableDeployment dep = None \<Longrightarrow> s \<in> set (dp_Subjects dep) \<Longrightarrow> sub_ID s \<noteq> []"
  using subject_scan_named by (fastforce simp: refuseUnusableDeployment_def split: option.splits sum.splits if_splits)

lemma probe_stays_healthy:
  assumes "\<not> fs_tripped f" and "probe (assembled_submit d env logger t now random) at_time s a ps (n, f, c) = (v, n', f', c')"
  shows "\<not> fs_tripped f'"
  using assembled_stays_healthy [OF assms(1), of d env logger t now random c "probe_intent at_time (n + 1) s a ps"] assms(2)
  by (auto simp: probe_def split: prod.splits sum.splits option.splits)

lemma probe_allowed:
  assumes "probe submit at_time s a ps (n, d) = (Inr v, st')" and "ve_allowed v"
  obtains token d' where "submit d (probe_intent at_time (n + 1) s a ps) = (Inr token, d')"
  using assms by (auto simp: probe_def split: prod.splits sum.splits option.splits if_splits)

lemma own_change_not_allowed:
  assumes "id_keeping d" and "\<not> fs_tripped f" and "sub_ID s \<noteq> []"
    and "probe (assembled_submit d env logger t now random) at_time s a [(''requester'', AStr (sub_ID s))] (n, f, c) = (Inr v, st')"
  shows "\<not> ve_allowed v"
proof
  let ?i = "probe_intent at_time (n + 1) s a [(''requester'', AStr (sub_ID s))]"
  assume "ve_allowed v"
  then obtain token st1 where "assembled_submit d env logger t now random (f, c) ?i = (Inr token, st1)"
    using probe_allowed [OF assms(4)] by blast
  then obtain subject where r: "dir_Resolve d \<lparr>ext_ID = sub_ID (int_Subject ?i), ext_Groups = sub_ADGroups (int_Subject ?i), ext_Attrs = []\<rparr> = Inr subject"
      "dec_Action (fst (Evaluate env (fs_primary f) (PolicyInputFor subject ?i))) = ActionAllow"
    by (rule assembled_allow [OF _ assms(2)])
  have "sub_ID subject = sub_ID s" using assms(1) r(1) by (fastforce simp: id_keeping_def probe_intent_def mk_Subject_def)
  moreover have "param_string (int_Params ?i) ''requester'' = sub_ID s"
    by (simp add: param_string_def probe_intent_def param_paramsWith)
  ultimately show False
    using Evaluate_allows(2) [OF r(2)] assms(3) by (simp add: PolicyInputFor_def)
qed

lemma separation_never_self_approves:
  assumes "id_keeping d" and "\<not> fs_tripped (fst (snd st))" and "\<forall>(s, a)\<in>set ps. sub_ID s \<noteq> []"
    and "separation_walk (assembled_submit d env logger t now random) at_time ps reached st = (Failed found, st')"
  shows "SelfApproval who what \<notin> set found"
  using assms
proof (induction ps arbitrary: reached st)
  case Nil
  then show ?case by (auto split: if_splits)
next
  case (Cons p ps)
  let ?submit = "assembled_submit d env logger t now random"
  obtain s a where p: "p = (s, a)" by (cases p)
  obtain n f c where st: "st = (n, f, c)" by (metis prod_cases3)
  obtain v n1 f1 c1 where one: "probe ?submit at_time s a noRequester (n, f, c) = (v, n1, f1, c1)" by (metis prod_cases4)
  have h1: "\<not> fs_tripped f1" using probe_stays_healthy [OF _ one] Cons.prems(2) st by simp
  obtain w n2 f2 c2 where two: "probe ?submit at_time s a [(''requester'', AStr (sub_ID s))] (n1, f1, c1) = (w, n2, f2, c2)" by (metis prod_cases4)
  have h2: "\<not> fs_tripped f2" by (rule probe_stays_healthy [OF h1 two])
  have not_allowed: "w = Inr approval \<Longrightarrow> \<not> ve_allowed approval" for approval
    using own_change_not_allowed [OF Cons.prems(1) h1, of s env logger t now random at_time a n1 c1 approval] two Cons.prems(3) p by auto
  show ?case
  proof (cases v)
    case (Inl e)
    then show ?thesis using Cons.prems(4) by (simp add: p st one)
  next
    case (Inr opened)
    show ?thesis
    proof (cases "refusedForNoGrant opened")
      case True
      then show ?thesis using Cons.IH [of "(n1, f1, c1)" reached] Cons.prems h1 by (simp add: p st one Inr)
    next
      case False
      then show ?thesis
        using Cons.IH [of "(n2, f2, c2)"] Cons.prems h2 not_allowed
        by (cases w) (auto simp: p st one two Inr split: if_splits)
    qed
  qed
qed

lemma declaredAction_name [simp]: "ga_Name (declaredAction actions name) = name"
  by (auto simp: declaredAction_def find_Some_iff split: option.split)

lemma sealed_probe:
  assumes "\<not> fs_tripped f" and "dir_Resolve d \<lparr>ext_ID = sub_ID s, ext_Groups = [], ext_Attrs = []\<rparr> = Inr u" and "sub_IsAI u"
    and "ga_Name a \<in> set (sn_approvalActions (env_policy env))" and "\<And>x r. \<exists>y x'. logger x r = (Inr y, x')"
    and "probe (assembled_submit d env logger t now random) at_time s a ps (n, f, c) = (v, st')"
  shows "\<exists>w. v = Inr w \<and> dec_Step (ve_decision w) = StepAINotApproving"
proof -
  let ?i = "probe_intent at_time (n + 1) s a ps"
  obtain dec p1 where e: "door_policy env f (submit_input u ?i) = (Inr dec, p1)" "dec_Step dec = StepAINotApproving" "dec_Action dec = ActionDeny"
    using assms(1,3,4)
    by (simp add: door_policy_def failsafe_Evaluate_def rbac_Evaluate_def Evaluate_def submit_input_eq PolicyInputFor_def probe_intent_def Let_def)
  obtain y c1 where l: "logger c (decision_record t ?i u dec) = (Inr y, c1)" using assms(5) by blast
  have "dir_Resolve d \<lparr>ext_ID = sub_ID (int_Subject ?i), ext_Groups = sub_ADGroups (int_Subject ?i), ext_Attrs = []\<rparr> = Inr u"
    "spec_Goal (int_Spec ?i) \<noteq> []"
    using assms(2) by (simp_all add: probe_intent_def mk_Subject_def)
  then have "assembled_submit d env logger t now random (f, c) ?i = (Inl (DecisionError dec), p1, c1)"
    using e l by (simp add: assembled_submit_def Submit_def)
  then show ?thesis using assms(6) e(2) by (auto simp: probe_def)
qed

lemma seal_walk_passes:
  assumes "\<And>s name. (s, name) \<in> set ps \<Longrightarrow> name \<in> set (sn_approvalActions (env_policy env)) \<and>
      (\<exists>u. dir_Resolve d \<lparr>ext_ID = sub_ID s, ext_Groups = [], ext_Attrs = []\<rparr> = Inr u \<and> sub_IsAI u)"
    and "\<And>x r. \<exists>y x'. logger x r = (Inr y, x')" and "\<not> fs_tripped (fst (snd st))"
  shows "fst (seal_walk (assembled_submit d env logger t now random) at_time actions ps [] st) = Passed"
  using assms(1,3)
proof (induction ps arbitrary: st)
  case (Cons p ps)
  let ?submit = "assembled_submit d env logger t now random"
  obtain s name where p: "p = (s, name)" by (cases p)
  obtain n f c where st: "st = (n, f, c)" by (metis prod_cases3)
  obtain v n1 f1 c1 where one: "probe ?submit at_time s (declaredAction actions name) noRequester (n, f, c) = (v, n1, f1, c1)" by (metis prod_cases4)
  have h: "\<not> fs_tripped f" using Cons.prems(2) st by simp
  obtain u where u: "dir_Resolve d \<lparr>ext_ID = sub_ID s, ext_Groups = [], ext_Attrs = []\<rparr> = Inr u" "sub_IsAI u"
    using Cons.prems(1) [of s name] p by auto
  obtain w where "v = Inr w" "dec_Step (ve_decision w) = StepAINotApproving"
    using sealed_probe [OF h u _ assms(2) one] Cons.prems(1) [of s name] p by auto
  moreover have "fst (seal_walk ?submit at_time actions ps [] (n1, f1, c1)) = Passed"
    using probe_stays_healthy [OF h one] by (intro Cons.IH Cons.prems(1)) auto
  ultimately show ?case by (simp add: p st one)
qed simp

lemma buildSnapshot_holds:
  assumes "buildSnapshot revisionOf (Some held) (Some floors) = Inr s"
  shows "sn_approvalActions s = gr_ApprovalActions held" and "sn_floors s = floors" and "sn_revision s = revisionOf held floors"
proof -
  have "s = \<lparr>sn_roleActions = foldl (\<lambda>m (role, actions). gset m role actions) [(''L0-SuperAdmin'', [''*''])] (gr_RoleActions held),
      sn_approvalActions = gr_ApprovalActions held, sn_floors = floors, sn_revision = revisionOf held floors\<rparr>"
    using assms by (simp add: buildSnapshot_def)
  then show "sn_approvalActions s = gr_ApprovalActions held" and "sn_floors s = floors" and "sn_revision s = revisionOf held floors"
    by simp_all
qed

section \<open>Properties\<close>

text \<open>C34: a green run means the gates hold. When the suite got past its check that the documents it read are those in force, by a
  digest that tells them apart, and found a firing rule for
  every action declared gated, the assembled door issues no token for an intent of a gated action with exactly the parameters
  the action is declared with, apart from the requester, when that is nobody or the intent's own subject. The action's
  rules must not be keyed on the requester, the directory must answer with the id it was asked about, and the failsafe must
  not have been tripped (it then refuses on its own account). Whoever submits it, whatever the roles, layers, scopes and
  adapters, and whether or not the chain takes the record; an intent of the same action with other parameters may pass.\<close>

theorem green_suite_means_gated_actions_wait:
  assumes "documentsInForce revisionOf loaded loadedFloors (sn_revision (env_policy env)) = Inr (held, floors)"
    and "buildSnapshot revisionOf (Some held') (Some floors') = Inr (env_policy env)"
    and "revisionOf held floors = revisionOf held' floors' \<Longrightarrow> floors = floors'"
    and "everyGatedActionHasARuleThatFires (dp_Actions dep) floors = Passed"
    and "action \<in> set (dp_Actions dep)" and "ga_Gated action" and "int_Action intent = ga_Name action"
    and "\<forall>k. k \<noteq> ''requester'' \<longrightarrow> map_of (int_Params intent) k = map_of (ga_Params action) k"
    and "\<forall>rule\<in>set (entries floors (ga_Name action)). fr_WhenParam rule \<noteq> ''requester''"
    and "id_keeping d" and "param_string (int_Params intent) ''requester'' \<in> {[], sub_ID (int_Subject intent)}"
    and "\<not> fs_tripped f"
  shows "fst (assembled_submit d env logger logged_at now random (f, s) intent) \<noteq> Inr token"
proof
  assume "fst (assembled_submit d env logger logged_at now random (f, s) intent) = Inr token"
  then obtain st' where issued: "assembled_submit d env logger logged_at now random (f, s) intent = (Inr token, st')"
    by (cases "assembled_submit d env logger logged_at now random (f, s) intent") auto
  obtain subject where r: "dir_Resolve d \<lparr>ext_ID = sub_ID (int_Subject intent), ext_Groups = sub_ADGroups (int_Subject intent), ext_Attrs = []\<rparr> = Inr subject"
      "dec_Action (fst (Evaluate env (fs_primary f) (PolicyInputFor subject intent))) = ActionAllow"
    by (rule assembled_allow [OF issued assms(12)])
  have "sn_floors (env_policy env) = floors'" "sn_revision (env_policy env) = revisionOf held' floors'"
    by (rule buildSnapshot_holds [OF assms(2)])+
  then have floors: "sn_floors (env_policy env) = floors"
    using assms(1,3) by (auto simp: documentsInForce_def Let_def split: sum.splits if_splits)
  obtain rule where rule: "rule \<in> set (entries floors (ga_Name action))" "fr_Kind rule = requireApprovalWhen"
      "floorWhenMatches (ga_Params action) (fr_WhenParam rule) (fr_WhenValue rule)"
    using gate_check_passes [OF assms(4,5,6)] by blast
  have fires: "floorWhenMatches (int_Params intent) (fr_WhenParam rule) (fr_WhenValue rule)"
    using rule(3) assms(8,9) rule(1) by (simp add: floorWhenMatches_def)
  have "sub_ID subject = sub_ID (int_Subject intent)" using assms(10) r(1) by (fastforce simp: id_keeping_def)
  then have q: "param_string (int_Params intent) ''requester'' \<in> {[], sub_ID subject}" using assms(11) by simp
  have "approvalGate floors (int_Action intent) (param_string (int_Params intent) ''requester'') (sub_ID subject) (int_Params intent) = None"
    using Evaluate_allows(1) [OF r(2)] floors by (simp add: PolicyInputFor_def)
  then show False
    using rule(1,2) fires q assms(7) by (auto simp: approvalGate_def gate_walk_None requireApprovalWhen_def)
qed

text \<open>The assembled door does not fail the seals. Run against it, the suite never reports a self-approval; and when its
  directory knows the deployment's AI subjects as AIs by their ids and the chain takes every record, the check of the AI
  seal passes or has nothing to fire at.\<close>

theorem assembled_door_passes_the_seals:
  assumes "refuseUnusableDeployment dep = None" and "id_keeping d" and "\<not> fs_tripped f"
  shows "(\<forall>found st'. nobodyApprovesTheirOwnChange (assembled_submit d env logger t now random) at_time (dp_Subjects dep) (dp_Actions dep)
        (n, f, c) = (Failed found, st') \<longrightarrow> (\<forall>who what. SelfApproval who what \<notin> set found)) \<and>
    (buildSnapshot revisionOf (Some held) floors = Inr (env_policy env) \<longrightarrow> (\<forall>x r. \<exists>y x'. logger x r = (Inr y, x')) \<longrightarrow>
      (\<forall>s\<in>set (aiSubjects (dp_Subjects dep)). \<exists>u. dir_Resolve d \<lparr>ext_ID = sub_ID s, ext_Groups = [], ext_Attrs = []\<rparr> = Inr u \<and> sub_IsAI u) \<longrightarrow>
      fst (anAIIsNeverTheApprover (assembled_submit d env logger t now random) at_time (dp_Subjects dep) (dp_Actions dep) held (n, f, c))
        \<in> {Passed, Skipped})"
proof (intro conjI allI impI)
  fix found st' who what
  assume run: "nobodyApprovesTheirOwnChange (assembled_submit d env logger t now random) at_time (dp_Subjects dep) (dp_Actions dep) (n, f, c)
      = (Failed found, st')"
  have named: "\<forall>(s, a)\<in>set (action_pairs (gatedActionsFirst (dp_Actions dep)) (humanSubjects (dp_Subjects dep))). sub_ID s \<noteq> []"
    using usable_subjects_named [OF assms(1)] by (auto simp: action_pairs_def humanSubjects_def)
  show "SelfApproval who what \<notin> set found"
    by (rule separation_never_self_approves [OF assms(2) _ named run [unfolded nobodyApprovesTheirOwnChange_def]]) (simp add: assms(3))
next
  assume h: "buildSnapshot revisionOf (Some held) floors = Inr (env_policy env)" "\<forall>x r. \<exists>y x'. logger x r = (Inr y, x')"
    "\<forall>s\<in>set (aiSubjects (dp_Subjects dep)). \<exists>u. dir_Resolve d \<lparr>ext_ID = sub_ID s, ext_Groups = [], ext_Attrs = []\<rparr> = Inr u \<and> sub_IsAI u"
  obtain floors' where f: "floors = Some floors'" using h(1) by (cases floors) (simp_all add: buildSnapshot_def)
  have snap: "sn_approvalActions (env_policy env) = gr_ApprovalActions held"
    by (rule buildSnapshot_holds [OF h(1) [unfolded f]])
  have "fst (seal_walk (assembled_submit d env logger t now random) at_time (dp_Actions dep)
      (concat (map (\<lambda>agent. map (\<lambda>name. (agent, name)) (gr_ApprovalActions held)) (aiSubjects (dp_Subjects dep)))) [] (n, f, c)) = Passed"
    using h(2,3) assms(3) by (intro seal_walk_passes) (auto simp: snap)
  then show "fst (anAIIsNeverTheApprover (assembled_submit d env logger t now random) at_time (dp_Subjects dep) (dp_Actions dep) held (n, f, c))
      \<in> {Passed, Skipped}"
    by (simp add: anAIIsNeverTheApprover_def Let_def)
qed

definition sample_gated_action :: gov_Action where
  "sample_gated_action = \<lparr>ga_Name = ''service.deploy'', ga_Params = [(''env'', AStr ''prod'')], ga_Gated = True\<rparr>"

definition sample_held :: Grants where
  "sample_held = \<lparr>gr_RoleActions = [(''L2-Operator'', [''service.deploy''])], gr_ApprovalActions = [''deploy.approve'']\<rparr>"

definition sample_gov_env :: "nat engine_env" where
  "sample_gov_env = sample_env\<lparr>env_policy := \<lparr>sn_roleActions = [(''L0-SuperAdmin'', [''*'']), (''L2-Operator'', [''service.deploy''])],
     sn_approvalActions = [''deploy.approve''], sn_floors = sn_floors sample_snapshot, sn_revision = ''r1''\<rparr>\<rparr>"

definition sample_deployment :: "(RBAC Failsafe \<times> unit) Deployment" where
  "sample_deployment = \<lparr>dp_Door = Some (assembled_submit (mock_directory NewMock) sample_gov_env (\<lambda>s r. (Inr r, s)) 1 2 ''t''),
     dp_Subjects = [mk_Subject ''lead-bob'' [], mk_Subject ''dev-alice'' [], (mk_Subject ''ci-agent'' [])\<lparr>sub_IsAI := True\<rparr>],
     dp_Actions = [sample_gated_action]\<rparr>"

definition sample_gated_intent :: Intent where
  "sample_gated_intent = (sample_intent [] ''service.deploy'' ''prod'')\<lparr>int_Subject := mk_Subject ''lead-bob'' []\<rparr>"

lemma sample_documents:
  "documentsInForce (\<lambda>_ _. ''r1'') (Inr sample_held) (Inr (sn_floors sample_snapshot)) (sn_revision (env_policy sample_gov_env))
     = Inr (sample_held, sn_floors sample_snapshot)"
  "buildSnapshot (\<lambda>_ _. ''r1'') (Some sample_held) (Some (sn_floors sample_snapshot)) = Inr (env_policy sample_gov_env)"
  "refuseUnusableDeployment sample_deployment = None"
  by (simp_all add: documentsInForce_def sample_gov_env_def buildSnapshot_def sample_held_def refuseUnusableDeployment_def
      sample_deployment_def mk_Subject_def sample_gated_action_def)

theorem green_suite_means_gated_actions_wait_witness:
  "\<forall>token. fst (assembled_submit (mock_directory NewMock) sample_gov_env (\<lambda>s r. (Inr r, s)) 1 2 ''t'' (NewFailsafe NewRBAC, ()) sample_gated_intent) \<noteq> Inr token"
proof
  fix token
  have passed: "everyGatedActionHasARuleThatFires (dp_Actions sample_deployment) (sn_floors sample_snapshot) = Passed"
    by (simp add: sample_deployment_def) code_simp
  have action: "sample_gated_action \<in> set (dp_Actions sample_deployment)" "ga_Gated sample_gated_action"
      "int_Action sample_gated_intent = ga_Name sample_gated_action"
      "\<forall>k. k \<noteq> ''requester'' \<longrightarrow> map_of (int_Params sample_gated_intent) k = map_of (ga_Params sample_gated_action) k"
      "param_string (int_Params sample_gated_intent) ''requester'' \<in> {[], sub_ID (int_Subject sample_gated_intent)}"
    by (simp_all add: sample_deployment_def sample_gated_action_def sample_gated_intent_def sample_intent_def param_string_def)
  have rules: "\<forall>rule\<in>set (entries (sn_floors sample_snapshot) (ga_Name sample_gated_action)). fr_WhenParam rule \<noteq> ''requester''"
    by (simp add: sample_snapshot_def sample_gated_action_def entries_def)
  have ids: "id_keeping (mock_directory NewMock)" using armed_mock [OF mock_armed_New] by simp
  have healthy: "\<not> fs_tripped (NewFailsafe NewRBAC)" by (simp add: NewFailsafe_def)
  show "fst (assembled_submit (mock_directory NewMock) sample_gov_env (\<lambda>s r. (Inr r, s)) 1 2 ''t'' (NewFailsafe NewRBAC, ()) sample_gated_intent) \<noteq> Inr token"
    by (rule green_suite_means_gated_actions_wait [OF sample_documents(1,2) refl passed action(1-4) rules ids action(5) healthy])
qed

theorem assembled_door_passes_the_seals_witness:
  "fst (anAIIsNeverTheApprover (assembled_submit (mock_directory NewMock) sample_gov_env (\<lambda>s r. (Inr r, s)) 1 2 ''t'') 0
     (dp_Subjects sample_deployment) (dp_Actions sample_deployment) sample_held (0, NewFailsafe NewRBAC, ())) \<in> {Passed, Skipped}"
proof -
  have ids: "id_keeping (mock_directory NewMock)" using armed_mock [OF mock_armed_New] by simp
  have healthy: "\<not> fs_tripped (NewFailsafe NewRBAC)" by (simp add: NewFailsafe_def)
  have agents: "\<forall>s\<in>set (aiSubjects (dp_Subjects sample_deployment)). \<exists>u.
      dir_Resolve (mock_directory NewMock) \<lparr>ext_ID = sub_ID s, ext_Groups = [], ext_Attrs = []\<rparr> = Inr u \<and> sub_IsAI u"
    by (simp add: aiSubjects_def sample_deployment_def mk_Subject_def mock_directory_def mock_Resolve_def NewMock_def)
  have logs: "\<forall>x r. \<exists>y x'. (\<lambda>s r. (Inr r, s)) x r = (Inr y, x')" by simp
  show ?thesis
    by (rule conjunct2 [OF assembled_door_passes_the_seals [OF sample_documents(3) ids healthy], THEN mp, THEN mp, THEN mp,
          OF sample_documents(2) logs agents])
qed

text \<open>Findings. The probe sends a subject's id and no groups, so behind the gateway resolver, which decides by groups, every
  subject is unknown; the reachability check takes that refusal for reaching something and passes.\<close>

lemma reachability_passes_when_nobody_is_known:
  assumes "subjects \<noteq> []" and "actions \<noteq> []"
  shows "fst (someSubjectCanReachSomeAction (assembled_submit (gateway_directory g) env logger t now random) at_time subjects actions (n, f, c)) = Passed"
proof -
  obtain s ss a as where l: "subjects = s # ss" "actions = a # as" using assms by (cases subjects; cases actions) auto
  obtain e where "gateway_Resolve g \<lparr>ext_ID = sub_ID s, ext_Groups = [], ext_Attrs = []\<rparr> = Inl e"
    by (simp add: gateway_Resolve_def)
  then show ?thesis
    by (simp add: someSubjectCanReachSomeAction_def l probe_def assembled_submit_def Submit_def gateway_directory_def
        probe_intent_def mk_Subject_def refusedForNoGrant_def mk_Decision_def)
qed

text \<open>The behavioural gate check passes at the first gated action that waits, whatever the door allowed before: a door that
  allows one of two gated actions on one person's word passes it.\<close>

definition half_gated_door :: "unit submit_fn" where
  "half_gated_door d intent =
     ((if int_Action intent = ''topic.create'' then Inl (DecisionError (mk_Decision ActionRequireApproval ''wait''))
       else Inr \<lparr>tok_Value = ''t'', tok_IntentID = [], tok_Scope = [], tok_PolicyID = [], tok_IssuedAt = 0, tok_ExpiresAt = 1\<rparr>), d)"

lemma gate_check_stops_at_the_first_gate:
  "fst (half_gated_door () (probe_intent 0 1 (mk_Subject ''ann'' []) \<lparr>ga_Name = ''topic.delete'', ga_Params = [], ga_Gated = True\<rparr> noRequester))
     \<noteq> Inl e"
  "fst (aGatedActionWaitsForASecondPerson half_gated_door 0 [mk_Subject ''ann'' [], mk_Subject ''bob'' []]
     [\<lparr>ga_Name = ''topic.delete'', ga_Params = [], ga_Gated = True\<rparr>, \<lparr>ga_Name = ''topic.create'', ga_Params = [], ga_Gated = True\<rparr>] (0, ())) = Passed"
proof -
  show "fst (half_gated_door () (probe_intent 0 1 (mk_Subject ''ann'' []) \<lparr>ga_Name = ''topic.delete'', ga_Params = [], ga_Gated = True\<rparr> noRequester)) \<noteq> Inl e"
    by (simp add: half_gated_door_def probe_intent_def)
qed code_simp

end
