(* ===== verification/Estate_Floor.thy ===== *)
theory Estate_Floor
  imports Grants
begin

text \<open>
  The estate's floor: \<open>floor.go\<close>, the tier type of \<open>manifest.go\<close>, the floor types of \<open>fleet.go\<close>, and the
  validation a floor passes before it is in force, \<open>config/validate.go\<close> and \<open>toFloor\<close> of \<open>config/floor.go\<close>, all
  of \<open>mantlekeep-estate\<close>. Tiers, gates and runtimes are strings, as in the code, so that an unknown one is a value
  of the type. A \<open>time.Duration\<close> is its number of nanoseconds; the numbers are only stored and compared. The two
  accounts of a floor, what \<open>validate\<close> refuses and what a resolution reads, meet in the interface \<open>raising_floor\<close>.
\<close>

section \<open>Tiers and gates\<close>

type_synonym Tier = string

definition TierDev :: Tier where "TierDev = ''dev''"
definition TierShared :: Tier where "TierShared = ''shared''"
definition TierProd :: Tier where "TierProd = ''prod''"

definition tier_valid :: "Tier \<Rightarrow> bool" where
  "tier_valid t \<longleftrightarrow> t = TierDev \<or> t = TierShared \<or> t = TierProd"

definition tier_rank :: "Tier \<Rightarrow> int" where
  "tier_rank t = (if t = TierShared then 1 else if t = TierProd then 2 else 0)"

definition tier_Strength :: "Tier \<Rightarrow> int" where
  "tier_Strength t = (if t = TierDev then 1 else if t = TierShared then 2 else if t = TierProd then 3 else 0)"

definition AtLeast :: "Tier \<Rightarrow> Tier \<Rightarrow> Tier" where
  "AtLeast declared minimum = (if tier_Strength declared < tier_Strength minimum then minimum else declared)"

type_synonym Gate = string

definition GateNone :: Gate where "GateNone = ''none''"
definition GateOwningTeam :: Gate where "GateOwningTeam = ''owning-team''"
definition GatePlatform :: Gate where "GatePlatform = ''platform''"

definition gate_Strength :: "Gate \<Rightarrow> int" where
  "gate_Strength g =
     (if g = GateNone then 1 else if g = GateOwningTeam then 2 else if g = GatePlatform then 3 else 0)"

definition DefaultGates :: "Gate gomap" where
  "DefaultGates = [(TierDev, GateNone), (TierShared, GateOwningTeam), (TierProd, GatePlatform)]"

definition DefaultSignatures :: "int gomap" where
  "DefaultSignatures = [(GateNone, 0), (GateOwningTeam, 1), (GatePlatform, 1)]"

definition DefaultEnvTiers :: "Tier gomap" where
  "DefaultEnvTiers = [(''dev'', TierDev), (''sit'', TierShared), (''prod'', TierProd)]"

lemmas tier_names = TierDev_def TierShared_def TierProd_def
lemmas gate_names = GateNone_def GateOwningTeam_def GatePlatform_def

section \<open>The floor\<close>

type_synonym Runtime = string

definition RuntimeEnterprise :: Runtime where "RuntimeEnterprise = ''enterprise''"
definition RuntimeAnalytics :: Runtime where "RuntimeAnalytics = ''analytics''"

record KafkaLimits =
  kl_ProducerBytesPerSec :: int
  kl_ConsumerBytesPerSec :: int
  kl_Retention :: int

record PostgresLimits =
  pl_ConnectionLimit :: int
  pl_StatementTimeout :: int
  pl_IdleInTransactionTimeout :: int

record HarborLimits =
  hl_RobotExpiry :: int

record AppLimits =
  al_Replicas :: int
  al_CPULimit :: string
  al_MemoryMiB :: int

record NodePoolLimits =
  nl_MinNodes :: int
  nl_MaxNodes :: int
  nl_AllowedInstanceTypes :: "string list"

record FleetFloor =
  ff_NodePool :: "NodePoolLimits gomap"
  ff_KubernetesVersions :: "string list"

record AppRule =
  ru_Gate :: Gate
  ru_Prefer :: "string list"

record Floor =
  fl_Kafka :: "KafkaLimits gomap"
  fl_Postgres :: "PostgresLimits gomap"
  fl_Harbor :: "HarborLimits gomap"
  fl_App :: "AppLimits gomap gomap"
  fl_Fleet :: FleetFloor
  fl_EnvTiers :: "Tier gomap"
  fl_Gates :: "Gate gomap"
  fl_Signatures :: "int gomap"
  fl_Apps :: "AppRule gomap"
  fl_Revision :: string

definition DefaultFleetFloor :: FleetFloor where
  "DefaultFleetFloor = \<lparr>ff_NodePool =
     [(TierDev, \<lparr>nl_MinNodes = 0, nl_MaxNodes = 5, nl_AllowedInstanceTypes = [''standard-2'', ''standard-4'']\<rparr>),
      (TierShared, \<lparr>nl_MinNodes = 1, nl_MaxNodes = 20,
         nl_AllowedInstanceTypes = [''standard-2'', ''standard-4'', ''standard-8'']\<rparr>),
      (TierProd, \<lparr>nl_MinNodes = 3, nl_MaxNodes = 50,
         nl_AllowedInstanceTypes = [''standard-4'', ''standard-8'', ''standard-16'']\<rparr>)],
     ff_KubernetesVersions = [''1.28'', ''1.29'']\<rparr>"

definition second :: int where "second = 10 ^ 9"
definition minute :: int where "minute = 60 * second"
definition hour :: int where "hour = 60 * minute"

definition DefaultFloor :: Floor where
  "DefaultFloor = \<lparr>
     fl_Kafka =
       [(TierDev, \<lparr>kl_ProducerBytesPerSec = 10 * 2 ^ 20, kl_ConsumerBytesPerSec = 10 * 2 ^ 20, kl_Retention = 7 * 24 * hour\<rparr>),
        (TierShared, \<lparr>kl_ProducerBytesPerSec = 50 * 2 ^ 20, kl_ConsumerBytesPerSec = 50 * 2 ^ 20, kl_Retention = 30 * 24 * hour\<rparr>),
        (TierProd, \<lparr>kl_ProducerBytesPerSec = 100 * 2 ^ 20, kl_ConsumerBytesPerSec = 100 * 2 ^ 20, kl_Retention = 30 * 24 * hour\<rparr>)],
     fl_Postgres =
       [(TierDev, \<lparr>pl_ConnectionLimit = 20, pl_StatementTimeout = 30 * second, pl_IdleInTransactionTimeout = minute\<rparr>),
        (TierShared, \<lparr>pl_ConnectionLimit = 50, pl_StatementTimeout = 2 * minute, pl_IdleInTransactionTimeout = 5 * minute\<rparr>),
        (TierProd, \<lparr>pl_ConnectionLimit = 100, pl_StatementTimeout = 2 * minute, pl_IdleInTransactionTimeout = 5 * minute\<rparr>)],
     fl_Harbor =
       [(TierDev, \<lparr>hl_RobotExpiry = 90 * 24 * hour\<rparr>), (TierShared, \<lparr>hl_RobotExpiry = 90 * 24 * hour\<rparr>),
        (TierProd, \<lparr>hl_RobotExpiry = 90 * 24 * hour\<rparr>)],
     fl_App =
       [(RuntimeEnterprise,
          [(TierDev, \<lparr>al_Replicas = 1, al_CPULimit = ''500m'', al_MemoryMiB = 512\<rparr>),
           (TierShared, \<lparr>al_Replicas = 2, al_CPULimit = ''1'', al_MemoryMiB = 1024\<rparr>),
           (TierProd, \<lparr>al_Replicas = 3, al_CPULimit = ''2'', al_MemoryMiB = 2048\<rparr>)]),
        (RuntimeAnalytics,
          [(TierDev, \<lparr>al_Replicas = 1, al_CPULimit = ''1'', al_MemoryMiB = 2048\<rparr>),
           (TierShared, \<lparr>al_Replicas = 1, al_CPULimit = ''2'', al_MemoryMiB = 4096\<rparr>),
           (TierProd, \<lparr>al_Replicas = 2, al_CPULimit = ''2'', al_MemoryMiB = 8192\<rparr>)])],
     fl_Fleet = DefaultFleetFloor, fl_EnvTiers = [], fl_Gates = DefaultGates, fl_Signatures = [], fl_Apps = [],
     fl_Revision = []\<rparr>"

definition SignaturesFor :: "Floor \<Rightarrow> Gate \<Rightarrow> int" where
  "SignaturesFor f gate =
     (let required = (case map_of DefaultSignatures gate of Some n \<Rightarrow> n | None \<Rightarrow> 1)
      in case map_of (fl_Signatures f) gate of
           Some configured \<Rightarrow> if required < configured then configured else required
         | None \<Rightarrow> required)"

definition MinTierFor :: "Floor \<Rightarrow> string \<Rightarrow> Tier option" where
  "MinTierFor f env =
     (case map_of (fl_EnvTiers f) env of Some tier \<Rightarrow> Some tier | None \<Rightarrow> map_of DefaultEnvTiers env)"

text \<open>Reading a key that \<open>DefaultGates\<close> does not hold yields the empty gate.\<close>

definition GateFor :: "Floor \<Rightarrow> Tier \<Rightarrow> Gate" where
  "GateFor f tier =
     (case map_of (fl_Gates f) tier of
        Some gate \<Rightarrow> gate
      | None \<Rightarrow> (case map_of DefaultGates tier of Some gate \<Rightarrow> gate | None \<Rightarrow> []))"

definition PreferredClustersFor :: "Floor \<Rightarrow> string \<Rightarrow> string list" where
  "PreferredClustersFor f name = (case map_of (fl_Apps f) name of Some rule \<Rightarrow> ru_Prefer rule | None \<Rightarrow> [])"

definition GateForApp :: "Floor \<Rightarrow> Tier \<Rightarrow> string \<Rightarrow> Gate" where
  "GateForApp f tier name =
     (let fromTier = GateFor f tier
      in case map_of (fl_Apps f) name of
           None \<Rightarrow> fromTier
         | Some rule \<Rightarrow>
             if ru_Gate rule = [] then fromTier
             else if gate_Strength (ru_Gate rule) \<le> gate_Strength fromTier then fromTier
             else ru_Gate rule)"

section \<open>Validation of a floor\<close>

datatype config_error =
    MissingLimits string Tier \<comment> \<open>asset, tier\<close>
  | NotPositive string Tier string int \<comment> \<open>asset, tier, field, value\<close>
  | NoRuntimes
  | NoCPULimit Runtime Tier
  | NoKubernetesVersions
  | PoolBounds Tier int int
  | NoInstanceTypes Tier
  | NoGate Tier
  | UnknownGate Tier Gate
  | WeakerGate Tier Gate Gate
  | UnknownAppGate string Gate
  | NotTeamQualified string
  | WeakerAppGate string Gate Gate Tier
  | UnknownEnvTier string Tier
  | WeakerEnvTier string Tier Tier

definition tiers :: "Tier list" where "tiers = [TierDev, TierShared, TierProd]"

definition positive :: "string \<Rightarrow> Tier \<Rightarrow> string \<Rightarrow> int \<Rightarrow> config_error option" where
  "positive asset tier field v = (if 0 < v then None else Some (NotPositive asset tier field v))"

text \<open>The first check of a list that fails, as a run of \<open>if err := ...; err != nil\<close> returns it.\<close>

fun first_error :: "'e option list \<Rightarrow> 'e option" where
  "first_error [] = None"
| "first_error (c # cs) = (case c of Some e \<Rightarrow> Some e | None \<Rightarrow> first_error cs)"

definition validateKafkaFloor :: "Floor \<Rightarrow> Tier \<Rightarrow> config_error option" where
  "validateKafkaFloor f tier =
     (case map_of (fl_Kafka f) tier of
        None \<Rightarrow> Some (MissingLimits ''kafka'' tier)
      | Some l \<Rightarrow> first_error [positive ''kafka'' tier ''producerBytesPerSec'' (kl_ProducerBytesPerSec l),
                              positive ''kafka'' tier ''consumerBytesPerSec'' (kl_ConsumerBytesPerSec l),
                              positive ''kafka'' tier ''retention'' (kl_Retention l)])"

definition validatePostgresFloor :: "Floor \<Rightarrow> Tier \<Rightarrow> config_error option" where
  "validatePostgresFloor f tier =
     (case map_of (fl_Postgres f) tier of
        None \<Rightarrow> Some (MissingLimits ''postgres'' tier)
      | Some l \<Rightarrow> first_error [positive ''postgres'' tier ''connectionLimit'' (pl_ConnectionLimit l),
                              positive ''postgres'' tier ''statementTimeout'' (pl_StatementTimeout l),
                              positive ''postgres'' tier ''idleInTransactionTimeout'' (pl_IdleInTransactionTimeout l)])"

definition validateHarborFloor :: "Floor \<Rightarrow> Tier \<Rightarrow> config_error option" where
  "validateHarborFloor f tier =
     (case map_of (fl_Harbor f) tier of
        None \<Rightarrow> Some (MissingLimits ''harbor'' tier)
      | Some l \<Rightarrow> positive ''harbor'' tier ''robotExpiry'' (hl_RobotExpiry l))"

definition validateRuntimeTier :: "Runtime \<Rightarrow> AppLimits gomap \<Rightarrow> Tier \<Rightarrow> config_error option" where
  "validateRuntimeTier runtime byTier tier =
     (case map_of byTier tier of
        None \<Rightarrow> Some (MissingLimits (''app runtime '' @ runtime) tier)
      | Some l \<Rightarrow> first_error [positive runtime tier ''replicas'' (al_Replicas l),
                              positive runtime tier ''memoryMiB'' (al_MemoryMiB l),
                              if al_CPULimit l = [] then Some (NoCPULimit runtime tier) else None])"

definition validateAppFloor :: "AppLimits gomap gomap \<Rightarrow> config_error option" where
  "validateAppFloor app =
     (if app = [] then Some NoRuntimes
      else first_error (map (\<lambda>(runtime, byTier). first_error (map (validateRuntimeTier runtime byTier) tiers)) app))"

definition validatePoolTier :: "FleetFloor \<Rightarrow> Tier \<Rightarrow> config_error option" where
  "validatePoolTier fleet tier =
     (case map_of (ff_NodePool fleet) tier of
        None \<Rightarrow> Some (MissingLimits ''fleet nodePool'' tier)
      | Some l \<Rightarrow> first_error [positive ''fleet nodePool'' tier ''maxNodes'' (nl_MaxNodes l),
                              if nl_MinNodes l < 0 \<or> nl_MaxNodes l < nl_MinNodes l
                              then Some (PoolBounds tier (nl_MinNodes l) (nl_MaxNodes l)) else None,
                              if nl_AllowedInstanceTypes l = [] then Some (NoInstanceTypes tier) else None])"

definition validateFleet :: "FleetFloor \<Rightarrow> config_error option" where
  "validateFleet fleet =
     (if ff_KubernetesVersions fleet = [] then Some NoKubernetesVersions
      else first_error (map (validatePoolTier fleet) tiers))"

definition validateFloor :: "Floor \<Rightarrow> config_error option" where
  "validateFloor f =
     first_error
       (map (\<lambda>tier. first_error [validateKafkaFloor f tier, validatePostgresFloor f tier, validateHarborFloor f tier]) tiers
        @ [validateAppFloor (fl_App f), validateFleet (fl_Fleet f)])"

definition validateGateTier :: "Floor \<Rightarrow> Tier \<Rightarrow> config_error option" where
  "validateGateTier f tier =
     (case map_of (fl_Gates f) tier of
        None \<Rightarrow> Some (NoGate tier)
      | Some gate \<Rightarrow>
          if gate_Strength gate = 0 then Some (UnknownGate tier gate)
          else (let builtin = (case map_of DefaultGates tier of Some g \<Rightarrow> g | None \<Rightarrow> [])
                in if gate_Strength gate < gate_Strength builtin then Some (WeakerGate tier gate builtin) else None))"

definition validateGates :: "Floor \<Rightarrow> config_error option" where
  "validateGates f = first_error (map (validateGateTier f) tiers)"

definition validateAppRule :: "Floor \<Rightarrow> string \<Rightarrow> AppRule \<Rightarrow> config_error option" where
  "validateAppRule f name rule =
     (if ru_Gate rule = [] then None
      else if gate_Strength (ru_Gate rule) = 0 then Some (UnknownAppGate name (ru_Gate rule))
      else if \<not> Contains name ''/'' then Some (NotTeamQualified name)
      else first_error (map (\<lambda>tier. if gate_Strength (ru_Gate rule) < gate_Strength (GateFor f tier)
                                    then Some (WeakerAppGate name (ru_Gate rule) (GateFor f tier) tier) else None) tiers))"

definition validateApps :: "Floor \<Rightarrow> config_error option" where
  "validateApps f = first_error (map (\<lambda>(name, rule). validateAppRule f name rule) (fl_Apps f))"

definition validateEnvTier :: "string \<Rightarrow> Tier \<Rightarrow> config_error option" where
  "validateEnvTier env tier =
     (if tier_Strength tier = 0 then Some (UnknownEnvTier env tier)
      else (case map_of DefaultEnvTiers env of
              Some builtin \<Rightarrow> if tier_Strength tier < tier_Strength builtin then Some (WeakerEnvTier env tier builtin) else None
            | None \<Rightarrow> None))"

definition validateEnvTiers :: "Floor \<Rightarrow> config_error option" where
  "validateEnvTiers f = first_error (map (\<lambda>(env, tier). validateEnvTier env tier) (fl_EnvTiers f))"

section \<open>Loading a floor\<close>

text \<open>The authored document, decoded. Its durations are already nanoseconds: the decoder of \<open>duration\<close> is
  \<open>encoding/json\<close> and \<open>time.ParseDuration\<close>. It holds no signatures: the document type has no such field.\<close>

record floorDocument =
  fd_Kafka :: "KafkaLimits gomap"
  fd_Postgres :: "PostgresLimits gomap"
  fd_Harbor :: "HarborLimits gomap"
  fd_App :: "AppLimits gomap gomap"
  fd_Fleet :: FleetFloor
  fd_Gates :: "Gate gomap"
  fd_Apps :: "AppRule gomap"
  fd_EnvTiers :: "Tier gomap"

definition gmerge :: "'v gomap \<Rightarrow> 'v gomap \<Rightarrow> 'v gomap" where
  "gmerge base m = foldl (\<lambda>g (k, v). gset g k v) base m"

definition toFloor :: "floorDocument \<Rightarrow> Floor" where
  "toFloor d = \<lparr>
     fl_Kafka = gmerge [] (fd_Kafka d), fl_Postgres = gmerge [] (fd_Postgres d), fl_Harbor = gmerge [] (fd_Harbor d),
     fl_App = gmerge [] (map (\<lambda>(runtime, byTier). (runtime, gmerge [] byTier)) (fd_App d)),
     fl_Fleet = \<lparr>ff_NodePool = gmerge [] (ff_NodePool (fd_Fleet d)), ff_KubernetesVersions = ff_KubernetesVersions (fd_Fleet d)\<rparr>,
     fl_EnvTiers = gmerge DefaultEnvTiers (fd_EnvTiers d), fl_Gates = gmerge DefaultGates (fd_Gates d),
     fl_Signatures = [], fl_Apps = (if 0 < length (fd_Apps d) then gmerge [] (fd_Apps d) else []), fl_Revision = []\<rparr>"

text \<open>\<open>Parse\<close> of \<open>config/config.go\<close> after the decoding: \<open>revisionOf\<close> is the digest of the document's bytes.\<close>

definition parse_floor :: "string \<Rightarrow> floorDocument \<Rightarrow> config_error + Floor" where
  "parse_floor revision d =
     (let floor = toFloor d
      in case first_error [validateFloor floor, validateGates floor, validateApps floor, validateEnvTiers floor] of
           Some e \<Rightarrow> Inl e
         | None \<Rightarrow> Inr (floor\<lparr>fl_Revision := revision\<rparr>))"

section \<open>What validation guarantees\<close>

lemma first_error_None: "first_error cs = None \<longleftrightarrow> (\<forall>c\<in>set cs. c = None)"
  by (induction cs) (auto split: option.splits)

lemma positive_None: "positive asset tier field v = None \<longleftrightarrow> 0 < v"
  by (simp add: positive_def)

lemma gmerge_lookup: "map_of (gmerge base m) k = (case map_of (rev m) k of Some v \<Rightarrow> Some v | None \<Rightarrow> map_of base k)"
proof (induction m arbitrary: base)
  case (Cons p m)
  obtain k' v' where p: "p = (k', v')" by fastforce
  have "map_of (gmerge base (p # m)) k = map_of (gmerge (gset base k' v') m) k"
    by (simp add: gmerge_def p)
  also have "\<dots> = (case map_of (rev m) k of Some v \<Rightarrow> Some v | None \<Rightarrow> map_of (gset base k' v') k)"
    by (rule Cons.IH)
  also have "\<dots> = (case map_of (rev (p # m)) k of Some v \<Rightarrow> Some v | None \<Rightarrow> map_of base k)"
    by (auto simp: p map_add_def split: option.splits)
  finally show ?case .
qed (simp add: gmerge_def)

lemma map_of_rev_wf: "wf_map m \<Longrightarrow> map_of (rev m) k = map_of m k"
proof (induction m)
  case (Cons p m)
  obtain k' v' where p: "p = (k', v')" by fastforce
  with Cons have "map_of (rev m) k = map_of m k" "k' \<notin> set (keys m)" by simp_all
  then show ?case using map_of_None_keys [of m k'] by (auto simp: p map_add_def split: option.splits)
qed simp

lemma gmerge_wf: "wf_map m \<Longrightarrow> map_of (gmerge base m) k = (case map_of m k of Some v \<Rightarrow> Some v | None \<Rightarrow> map_of base k)"
  by (simp add: gmerge_lookup map_of_rev_wf)

lemma gate_Strength_tiers [simp]:
  "gate_Strength GateNone = 1" "gate_Strength GateOwningTeam = 2" "gate_Strength GatePlatform = 3"
  by (simp_all add: gate_Strength_def gate_names)

lemma tier_Strength_tiers [simp]:
  "tier_Strength TierDev = 1" "tier_Strength TierShared = 2" "tier_Strength TierProd = 3"
  by (simp_all add: tier_Strength_def tier_names)

lemma tier_Strength_known: "tier_Strength t \<noteq> 0 \<longleftrightarrow> t \<in> set tiers"
  by (auto simp: tier_Strength_def tiers_def)

lemma gate_Strength_3: "gate_Strength g = 3 \<longleftrightarrow> g = GatePlatform"
  by (auto simp: gate_Strength_def gate_names)

lemma gate_Strength_le: "gate_Strength g \<le> 3"
  by (simp add: gate_Strength_def)

lemma AtLeast_raises: "tier_Strength minimum \<le> tier_Strength (AtLeast declared minimum)"
  "tier_Strength declared \<le> tier_Strength (AtLeast declared minimum)"
  by (auto simp: AtLeast_def)

lemma default_gate_mono:
  assumes "map_of DefaultGates t = Some g" and "map_of DefaultGates t' = Some g'" and "tier_Strength t \<le> tier_Strength t'"
  shows "gate_Strength g \<le> gate_Strength g'"
  using assms by (auto simp: DefaultGates_def split: if_splits)

lemma default_gate_known: "t \<in> set tiers \<Longrightarrow> \<exists>g. map_of DefaultGates t = Some g"
  by (auto simp: DefaultGates_def tiers_def tier_names)

lemma GateForApp_raises: "gate_Strength (GateFor f tier) \<le> gate_Strength (GateForApp f tier name)"
  by (auto simp: GateForApp_def Let_def split: option.splits)

lemma SignaturesFor_raises: "map_of DefaultSignatures gate = Some n \<Longrightarrow> n \<le> SignaturesFor f gate"
  by (auto simp: SignaturesFor_def split: option.splits)

lemma SignaturesFor_gated: "gate \<noteq> GateNone \<Longrightarrow> 1 \<le> SignaturesFor f gate"
  by (auto simp: SignaturesFor_def DefaultSignatures_def gate_names split: option.splits)

text \<open>The interface between a floor and what is resolved under it: its gates and its environments' minimum
  tiers are the built-in ones or stricter.\<close>

locale raising_floor =
  fixes f :: Floor
  assumes gate_raised: "map_of DefaultGates t = Some g \<Longrightarrow> gate_Strength g \<le> gate_Strength (GateFor f t)"
    and env_raised: "map_of DefaultEnvTiers env = Some t \<Longrightarrow>
      \<exists>t'. MinTierFor f env = Some t' \<and> tier_Strength t \<le> tier_Strength t'"
    and env_known: "MinTierFor f env = Some t \<Longrightarrow> t \<in> set tiers"
begin

lemma prod_is_platform: "GateForApp f TierProd name = GatePlatform"
proof -
  have "3 \<le> gate_Strength (GateFor f TierProd)"
    using gate_raised [of TierProd GatePlatform] by (simp add: DefaultGates_def tier_names)
  then have "gate_Strength (GateForApp f TierProd name) = 3"
    using GateForApp_raises [of f TierProd name] gate_Strength_le [of "GateForApp f TierProd name"] by linarith
  then show ?thesis by (simp add: gate_Strength_3)
qed

lemma environment_gate:
  assumes "map_of DefaultEnvTiers env = Some b" and "map_of DefaultGates b = Some g" and "MinTierFor f env = Some m"
  shows "gate_Strength g \<le> gate_Strength (GateForApp f (AtLeast declared m) name)"
proof -
  let ?t = "AtLeast declared m"
  have m: "m \<in> set tiers" "tier_Strength b \<le> tier_Strength m" using env_known env_raised assms by fastforce+
  then have "tier_Strength ?t \<noteq> 0" using AtLeast_raises(1) [of m declared] by (auto simp: tiers_def)
  then obtain g' where g': "map_of DefaultGates ?t = Some g'"
    using default_gate_known tier_Strength_known by blast
  have "gate_Strength g \<le> gate_Strength g'"
    using default_gate_mono [OF assms(2) g'] m(2) AtLeast_raises(1) [of m declared] by linarith
  also have "\<dots> \<le> gate_Strength (GateFor f ?t)" using gate_raised [OF g'] .
  also have "\<dots> \<le> gate_Strength (GateForApp f ?t name)" by (rule GateForApp_raises)
  finally show ?thesis .
qed

end

interpretation default_floor: raising_floor DefaultFloor
  by unfold_locales
    (auto simp: DefaultFloor_def GateFor_def MinTierFor_def DefaultEnvTiers_def tiers_def split: option.splits if_splits)

lemma validated_gate:
  assumes "validateGates f = None" and "map_of DefaultGates t = Some g"
  shows "gate_Strength g \<le> gate_Strength (GateFor f t)"
proof -
  have "t \<in> set tiers" using assms(2) by (auto simp: DefaultGates_def tiers_def split: if_splits)
  then have "validateGateTier f t = None" using assms(1) by (auto simp: validateGates_def first_error_None)
  then show ?thesis
    using assms(2) by (auto simp: validateGateTier_def GateFor_def Let_def split: option.splits if_splits)
qed

lemma validated_env:
  assumes "validateEnvTiers f = None" and "(env, t) \<in> set (fl_EnvTiers f)"
  shows "t \<in> set tiers" and "map_of DefaultEnvTiers env = Some b \<Longrightarrow> tier_Strength b \<le> tier_Strength t"
proof -
  have "validateEnvTier env t = None" using assms by (fastforce simp: validateEnvTiers_def first_error_None)
  then show "t \<in> set tiers" "map_of DefaultEnvTiers env = Some b \<Longrightarrow> tier_Strength b \<le> tier_Strength t"
    using tier_Strength_known by (auto simp: validateEnvTier_def split: if_splits option.splits)
qed

lemma validated_floor_raises:
  assumes "validateGates f = None" and "validateEnvTiers f = None"
  shows "raising_floor f"
proof
  show "gate_Strength g \<le> gate_Strength (GateFor f t)" if "map_of DefaultGates t = Some g" for t g
    using validated_gate [OF assms(1) that] .
  show "\<exists>t'. MinTierFor f env = Some t' \<and> tier_Strength t \<le> tier_Strength t'"
    if "map_of DefaultEnvTiers env = Some t" for env t
    using that validated_env(2) [OF assms(2) map_of_SomeD] by (cases "map_of (fl_EnvTiers f) env") (auto simp: MinTierFor_def)
  show "t \<in> set tiers" if "MinTierFor f env = Some t" for env t
  proof (cases "map_of (fl_EnvTiers f) env")
    case None
    with that show ?thesis by (auto simp: MinTierFor_def DefaultEnvTiers_def tiers_def split: if_splits)
  next
    case (Some t')
    with that validated_env(1) [OF assms(2) map_of_SomeD] show ?thesis by (simp add: MinTierFor_def)
  qed
qed

lemma revision_frame:
  "validateFloor (f\<lparr>fl_Revision := r\<rparr>) = validateFloor f" "validateGates (f\<lparr>fl_Revision := r\<rparr>) = validateGates f"
  "validateApps (f\<lparr>fl_Revision := r\<rparr>) = validateApps f" "validateEnvTiers (f\<lparr>fl_Revision := r\<rparr>) = validateEnvTiers f"
proof -
  have g: "GateFor (f\<lparr>fl_Revision := r\<rparr>) = GateFor f" by (rule ext) (simp add: GateFor_def)
  have "validateAppRule (f\<lparr>fl_Revision := r\<rparr>) = validateAppRule f" by (intro ext) (simp only: validateAppRule_def g)
  then show "validateApps (f\<lparr>fl_Revision := r\<rparr>) = validateApps f" by (simp add: validateApps_def)
  have "validateGateTier (f\<lparr>fl_Revision := r\<rparr>) = validateGateTier f" by (intro ext) (simp add: validateGateTier_def)
  then show "validateGates (f\<lparr>fl_Revision := r\<rparr>) = validateGates f" by (simp add: validateGates_def)
  have "validateKafkaFloor (f\<lparr>fl_Revision := r\<rparr>) = validateKafkaFloor f"
    "validatePostgresFloor (f\<lparr>fl_Revision := r\<rparr>) = validatePostgresFloor f"
    "validateHarborFloor (f\<lparr>fl_Revision := r\<rparr>) = validateHarborFloor f"
    by (intro ext, simp add: validateKafkaFloor_def validatePostgresFloor_def validateHarborFloor_def)+
  then show "validateFloor (f\<lparr>fl_Revision := r\<rparr>) = validateFloor f" by (simp add: validateFloor_def)
qed (simp add: validateEnvTiers_def)

lemma parse_floor_Inr:
  assumes "parse_floor revision d = Inr f"
  shows "validateFloor f = None" "validateGates f = None" "validateApps f = None" "validateEnvTiers f = None"
    "fl_Revision f = revision"
proof -
  have n: "first_error [validateFloor (toFloor d), validateGates (toFloor d), validateApps (toFloor d),
      validateEnvTiers (toFloor d)] = None" and f: "f = (toFloor d)\<lparr>fl_Revision := revision\<rparr>"
    using assms by (auto simp: parse_floor_def Let_def simp del: first_error.simps split: option.splits)
  show "validateFloor f = None" "validateGates f = None" "validateApps f = None" "validateEnvTiers f = None"
    "fl_Revision f = revision"
    using n by (simp_all add: f revision_frame first_error_None del: first_error.simps)
qed

lemma validated_quota:
  assumes "validateFloor f = None" and "t \<in> set tiers"
  shows "\<exists>l. map_of (fl_Kafka f) t = Some l \<and> 0 < kl_ProducerBytesPerSec l \<and> 0 < kl_ConsumerBytesPerSec l \<and> 0 < kl_Retention l"
    and "\<exists>l. map_of (fl_Postgres f) t = Some l \<and> 0 < pl_ConnectionLimit l \<and> 0 < pl_StatementTimeout l \<and>
      0 < pl_IdleInTransactionTimeout l"
    and "\<exists>l. map_of (fl_Harbor f) t = Some l \<and> 0 < hl_RobotExpiry l"
proof -
  have "validateKafkaFloor f t = None" "validatePostgresFloor f t = None" "validateHarborFloor f t = None"
    using assms by (auto simp: validateFloor_def first_error_None simp del: first_error.simps)
  then show "\<exists>l. map_of (fl_Kafka f) t = Some l \<and> 0 < kl_ProducerBytesPerSec l \<and> 0 < kl_ConsumerBytesPerSec l \<and> 0 < kl_Retention l"
    "\<exists>l. map_of (fl_Postgres f) t = Some l \<and> 0 < pl_ConnectionLimit l \<and> 0 < pl_StatementTimeout l \<and>
      0 < pl_IdleInTransactionTimeout l"
    "\<exists>l. map_of (fl_Harbor f) t = Some l \<and> 0 < hl_RobotExpiry l"
    by (auto simp: validateKafkaFloor_def validatePostgresFloor_def validateHarborFloor_def first_error_None positive_None
        simp del: first_error.simps split: option.splits)
qed

lemma validated_runtime:
  assumes "validateFloor f = None" and "map_of (fl_App f) runtime = Some byTier" and "t \<in> set tiers"
  shows "\<exists>l. map_of byTier t = Some l \<and> 0 < al_Replicas l \<and> 0 < al_MemoryMiB l \<and> al_CPULimit l \<noteq> []"
proof -
  have "validateAppFloor (fl_App f) = None"
    using assms(1) by (simp add: validateFloor_def first_error_None del: first_error.simps)
  then have "validateRuntimeTier runtime byTier t = None"
    using map_of_SomeD [OF assms(2)] assms(3)
    by (fastforce simp: validateAppFloor_def first_error_None simp del: first_error.simps split: if_splits)
  then show ?thesis
    by (auto simp: validateRuntimeTier_def first_error_None positive_None simp del: first_error.simps split: option.splits if_splits)
qed

lemma validated_some:
  assumes "validateFloor f = None"
  shows "fl_App f \<noteq> []" and "ff_KubernetesVersions (fl_Fleet f) \<noteq> []"
proof -
  have "validateAppFloor (fl_App f) = None" "validateFleet (fl_Fleet f) = None"
    using assms by (simp_all add: validateFloor_def first_error_None del: first_error.simps)
  then show "fl_App f \<noteq> []" "ff_KubernetesVersions (fl_Fleet f) \<noteq> []"
    by (auto simp: validateAppFloor_def validateFleet_def)
qed

lemma validated_pool:
  assumes "validateFloor f = None" and "t \<in> set tiers"
  shows "\<exists>l. map_of (ff_NodePool (fl_Fleet f)) t = Some l \<and> 0 < nl_MaxNodes l \<and> 0 \<le> nl_MinNodes l \<and>
    nl_MinNodes l \<le> nl_MaxNodes l \<and> nl_AllowedInstanceTypes l \<noteq> []"
proof -
  have "validateFleet (fl_Fleet f) = None"
    using assms(1) by (simp add: validateFloor_def first_error_None del: first_error.simps)
  then have "validatePoolTier (fl_Fleet f) t = None"
    using assms(2) by (fastforce simp: validateFleet_def first_error_None simp del: first_error.simps split: if_splits)
  then show ?thesis
    by (auto simp: validatePoolTier_def first_error_None positive_None simp del: first_error.simps split: option.splits if_splits)
qed

lemma validated_rule:
  assumes "validateApps f = None" and "(name, rule) \<in> set (fl_Apps f)" and "ru_Gate rule \<noteq> []" and "t \<in> set tiers"
  shows "Contains name ''/''" and "gate_Strength (GateFor f t) \<le> gate_Strength (ru_Gate rule)"
proof -
  have "validateAppRule f name rule = None"
    using assms(1,2) by (fastforce simp: validateApps_def first_error_None simp del: first_error.simps)
  then have "Contains name ''/''" and n: "\<forall>tier\<in>set tiers. \<not> gate_Strength (ru_Gate rule) < gate_Strength (GateFor f tier)"
    using assms(3) unfolding validateAppRule_def
    by (auto simp: first_error_None Ball_def image_iff simp del: first_error.simps split: if_splits)
  then show "Contains name ''/''" "gate_Strength (GateFor f t) \<le> gate_Strength (ru_Gate rule)"
    using assms(4) by (auto simp: not_less)
qed

section \<open>Properties\<close>

text \<open>C23: A configuration can raise the floor and never lower it. When \<open>Parse\<close> accepts a document, whatever it says:
  every built-in gate is in force or a stricter one, production always waits for the platform; a rule naming an
  application never costs it less attention than its tier, and one that sets a gate names a team's application and is at
  least as strict as the gate of every tier; an environment the code ships a minimum for is governed
  at that minimum or above, so an application placed there costs at least the gate of that minimum, whatever tier
  its manifest declares; and no gate needs fewer signatures than built in. Every tier has positive limits for topics,
  databases and registries, for every runtime the document lists (it lists at least one) positive replicas and memory and a CPU limit,
  and for node pools a positive maximum, a minimum between zero and it, and instance types to choose from.\<close>

theorem parsed_floor_only_raises:
  assumes "parse_floor revision d = Inr f"
  shows "(\<forall>t g. map_of DefaultGates t = Some g \<longrightarrow> gate_Strength g \<le> gate_Strength (GateFor f t)) \<and>
    GateForApp f TierProd name = GatePlatform \<and>
    gate_Strength (GateFor f tier) \<le> gate_Strength (GateForApp f tier name) \<and>
    (\<forall>(app, rule)\<in>set (fl_Apps f). ru_Gate rule \<noteq> [] \<longrightarrow>
       Contains app ''/'' \<and> (\<forall>t\<in>set tiers. gate_Strength (GateFor f t) \<le> gate_Strength (ru_Gate rule))) \<and>
    (\<forall>env b g. map_of DefaultEnvTiers env = Some b \<and> map_of DefaultGates b = Some g \<longrightarrow>
       (\<exists>m. MinTierFor f env = Some m \<and> gate_Strength g \<le> gate_Strength (GateForApp f (AtLeast declared m) name))) \<and>
    (\<forall>gate n. map_of DefaultSignatures gate = Some n \<longrightarrow> n \<le> SignaturesFor f gate) \<and>
    fl_App f \<noteq> [] \<and> ff_KubernetesVersions (fl_Fleet f) \<noteq> [] \<and>
    (\<forall>t\<in>set tiers.
       (\<exists>l. map_of (fl_Kafka f) t = Some l \<and> 0 < kl_ProducerBytesPerSec l \<and> 0 < kl_ConsumerBytesPerSec l \<and> 0 < kl_Retention l) \<and>
       (\<exists>l. map_of (fl_Postgres f) t = Some l \<and> 0 < pl_ConnectionLimit l \<and> 0 < pl_StatementTimeout l \<and>
          0 < pl_IdleInTransactionTimeout l) \<and>
       (\<exists>l. map_of (fl_Harbor f) t = Some l \<and> 0 < hl_RobotExpiry l) \<and>
       (\<forall>runtime byTier. map_of (fl_App f) runtime = Some byTier \<longrightarrow>
          (\<exists>l. map_of byTier t = Some l \<and> 0 < al_Replicas l \<and> 0 < al_MemoryMiB l \<and> al_CPULimit l \<noteq> [])) \<and>
       (\<exists>l. map_of (ff_NodePool (fl_Fleet f)) t = Some l \<and> 0 < nl_MaxNodes l \<and> 0 \<le> nl_MinNodes l \<and>
          nl_MinNodes l \<le> nl_MaxNodes l \<and> nl_AllowedInstanceTypes l \<noteq> []))"
proof -
  note v = parse_floor_Inr [OF assms]
  have rf: "raising_floor f" using validated_floor_raises v(2,4) by blast
  have env: "\<exists>m. MinTierFor f env = Some m \<and> gate_Strength g \<le> gate_Strength (GateForApp f (AtLeast declared m) name)"
    if "map_of DefaultEnvTiers env = Some b" "map_of DefaultGates b = Some g" for env b g
    using raising_floor.env_raised [OF rf that(1)] raising_floor.environment_gate [OF rf that] by blast
  have rule: "Contains app ''/'' \<and> (\<forall>t\<in>set tiers. gate_Strength (GateFor f t) \<le> gate_Strength (ru_Gate rule))"
    if "(app, rule) \<in> set (fl_Apps f)" "ru_Gate rule \<noteq> []" for app rule
    using validated_rule [OF v(3) that] by (auto simp: tiers_def)
  show ?thesis
    using raising_floor.gate_raised [OF rf] raising_floor.prod_is_platform [OF rf] GateForApp_raises env rule
      SignaturesFor_raises validated_quota [OF v(1)] validated_runtime [OF v(1)] validated_some [OF v(1)] validated_pool [OF v(1)]
    by (intro conjI allI impI ballI; (elim conjE)?; (unfold split_paired_all case_prod_conv)?) blast+
qed

definition sample_document :: floorDocument where
  "sample_document = \<lparr>fd_Kafka = fl_Kafka DefaultFloor, fd_Postgres = fl_Postgres DefaultFloor,
     fd_Harbor = fl_Harbor DefaultFloor, fd_App = fl_App DefaultFloor, fd_Fleet = fl_Fleet DefaultFloor,
     fd_Gates = [(TierDev, GateOwningTeam)],
     fd_Apps = [(''payments/checkout'', \<lparr>ru_Gate = GatePlatform, ru_Prefer = []\<rparr>)], fd_EnvTiers = [(''uat'', TierShared)]\<rparr>"

lemma sample_document_accepted: "\<exists>f. parse_floor ''r1'' sample_document = Inr f"
proof -
  have "case parse_floor ''r1'' sample_document of Inl _ \<Rightarrow> False | Inr _ \<Rightarrow> True" by code_simp
  then show ?thesis by (cases "parse_floor ''r1'' sample_document") auto
qed

theorem parsed_floor_only_raises_witness:
  "\<exists>f m. parse_floor ''r1'' sample_document = Inr f \<and> MinTierFor f ''sit'' = Some m \<and>
     gate_Strength GateOwningTeam \<le> gate_Strength (GateForApp f (AtLeast TierDev m) ''payments/checkout'')"
proof -
  obtain f where f: "parse_floor ''r1'' sample_document = Inr f" using sample_document_accepted by blast
  have "map_of DefaultEnvTiers ''sit'' = Some TierShared" "map_of DefaultGates TierShared = Some GateOwningTeam"
    by (simp_all add: DefaultEnvTiers_def DefaultGates_def tier_names)
  then show ?thesis using f parsed_floor_only_raises [OF f, of "''payments/checkout''" TierDev TierDev] by blast
qed

end
