(* ===== verification/Placement.thy ===== *)
theory Placement
  imports Complex_Main Live_Policy
begin

text \<open>
  Where an application runs: \<open>placement.go\<close> and \<open>namespace.go\<close> of \<open>mantlekeep-estate\<close>, and the cluster registry,
  \<open>fleet/registry.go\<close>. A \<open>Placer\<close> is the record of the Go struct. A reported capacity is a finite \<open>float64\<close>,
  hence a rational; it is only compared, with the value the literal \<open>0.10\<close> has as a \<open>float64\<close>.
  \<open>strings.EqualFold\<close> and \<open>ToLower\<close> are modelled on ASCII. The lemmas show that capacity and preference never
  reach past legality, and give the exact order in which a cluster is chosen.
\<close>

section \<open>Clusters, claims, placers\<close>

type_synonym Residency = string
type_synonym NamespacePattern = string

record Cluster =
  cl_Name :: string
  cl_Provider :: string
  cl_Region :: string
  cl_Env :: string
  cl_Purpose :: string
  cl_Residency :: Residency
  cl_Labels :: "string gomap"
  cl_Namespace :: NamespacePattern
  cl_Reachable :: bool

record Placement =
  plc_Env :: string
  plc_Purpose :: string
  plc_Residency :: Residency
  plc_Requires :: "string gomap"

record Capacity =
  cap_Cluster :: string
  cap_AllocatablePct :: rat

record Placer =
  pr_clusters :: "Cluster list"
  pr_capacity :: "rat gomap"
  pr_minFree :: rat

definition float_0_10 :: rat where "float_0_10 = 3602879701896397 / 36028797018963968"

definition NewPlacer :: "Cluster list \<Rightarrow> Placer" where
  "NewPlacer clusters = \<lparr>pr_clusters = clusters, pr_capacity = [], pr_minFree = float_0_10\<rparr>"

fun namespaceOf_walk :: "string \<Rightarrow> Cluster list \<Rightarrow> NamespacePattern" where
  "namespaceOf_walk cluster [] = []"
| "namespaceOf_walk cluster (c # cs) = (if cl_Name c = cluster then cl_Namespace c else namespaceOf_walk cluster cs)"

definition namespaceOf :: "Placer \<Rightarrow> string \<Rightarrow> NamespacePattern" where
  "namespaceOf p cluster = namespaceOf_walk cluster (pr_clusters p)"

definition WithCapacity :: "Placer \<Rightarrow> Capacity list \<Rightarrow> Placer" where
  "WithCapacity p reports =
     p\<lparr>pr_capacity := foldl (\<lambda>m r. gset m (cap_Cluster r) (cap_AllocatablePct r)) (pr_capacity p) reports\<rparr>"

record PlacementDecision =
  dcs_Cluster :: string
  dcs_Env :: string
  dcs_Reason :: string
  dcs_Considered :: "string list"
  dcs_Sticky :: bool

datatype placement_error =
    EmptyClaim
  | NoLegalCluster Placement
  | EveryClusterFull Placement rat

section \<open>Legality\<close>

definition EqualFold :: "string \<Rightarrow> string \<Rightarrow> bool" where
  "EqualFold s t \<longleftrightarrow> map to_lower s = map to_lower t"

definition labelled :: "Cluster \<Rightarrow> string \<Rightarrow> string" where
  "labelled c key =
     (case map_of (cl_Labels c) key of
        Some v \<Rightarrow> v
      | None \<Rightarrow>
          (let k = map to_lower (TrimSpace key)
           in if k = ''env'' \<or> k = ''environment'' then cl_Env c
              else if k = ''purpose'' then cl_Purpose c
              else if k = ''region'' then cl_Region c
              else if k = ''provider'' then cl_Provider c
              else if k = ''residency'' then cl_Residency c
              else []))"

definition legalFor :: "Placement \<Rightarrow> Cluster \<Rightarrow> bool" where
  "legalFor claim c =
     (if plc_Env claim \<noteq> [] \<and> \<not> EqualFold (cl_Env c) (plc_Env claim) then False
      else if \<not> list_all (\<lambda>(key, want). want \<noteq> [] \<and> EqualFold (labelled c key) want) (plc_Requires claim) then False
      else if plc_Purpose claim \<noteq> [] \<and> \<not> EqualFold (cl_Purpose c) (plc_Purpose claim) then False
      else if plc_Residency claim = [] then False
      else if \<not> EqualFold (cl_Residency c) (plc_Residency claim) then False
      else cl_Reachable c)"

definition legalClusters :: "Placer \<Rightarrow> Placement \<Rightarrow> Cluster list" where
  "legalClusters p claim = filter (legalFor claim) (pr_clusters p)"

definition namesOf :: "Cluster list \<Rightarrow> string list" where
  "namesOf clusters = sort (map cl_Name clusters)"

section \<open>Choosing\<close>

fun staysPut :: "Cluster list \<Rightarrow> string \<Rightarrow> string list \<Rightarrow> PlacementDecision option" where
  "staysPut [] current considered = None"
| "staysPut (c # cs) current considered =
     (if current = [] then None
      else if cl_Name c = current
      then Some \<lparr>dcs_Cluster = current, dcs_Env = cl_Env c, dcs_Reason = ''already placed here and still permitted'',
                  dcs_Considered = considered, dcs_Sticky = True\<rparr>
      else staysPut cs current considered)"

text \<open>A cluster below the capacity floor; one nobody reported on is not.\<close>

definition full :: "Placer \<Rightarrow> Cluster \<Rightarrow> bool" where
  "full p c = (case map_of (pr_capacity p) (cl_Name c) of Some free \<Rightarrow> free < pr_minFree p | None \<Rightarrow> False)"

text \<open>The inner loop of \<open>firstPreferred\<close>: it stops at the first cluster of the name, whether or not it has room.\<close>

fun named_with_room :: "Placer \<Rightarrow> string \<Rightarrow> Cluster list \<Rightarrow> Cluster option" where
  "named_with_room p name [] = None"
| "named_with_room p name (c # cs) =
     (if cl_Name c \<noteq> name then named_with_room p name cs else if full p c then None else Some c)"

fun firstPreferred :: "Placer \<Rightarrow> Cluster list \<Rightarrow> string list \<Rightarrow> Cluster option" where
  "firstPreferred p legal [] = None"
| "firstPreferred p legal (name # names) =
     (case named_with_room p name legal of Some c \<Rightarrow> Some c | None \<Rightarrow> firstPreferred p legal names)"

definition free_of :: "Placer \<Rightarrow> Cluster \<Rightarrow> rat" where
  "free_of p c = (case map_of (pr_capacity p) (cl_Name c) of Some free \<Rightarrow> free | None \<Rightarrow> 0)"

text \<open>The loop of \<open>emptiest\<close>; \<open>best = None\<close> is the zero cluster with \<open>found\<close> false.\<close>

fun emptiest_walk :: "Placer \<Rightarrow> Cluster option \<Rightarrow> rat \<Rightarrow> Cluster list \<Rightarrow> Cluster option" where
  "emptiest_walk p best bestFree [] = best"
| "emptiest_walk p best bestFree (c # cs) =
     (if full p c then emptiest_walk p best bestFree cs
      else if bestFree < free_of p c then emptiest_walk p (Some c) (free_of p c) cs
      else emptiest_walk p best bestFree cs)"

definition emptiest :: "Placer \<Rightarrow> Cluster list \<Rightarrow> Cluster option" where
  "emptiest p legal = emptiest_walk p None (- 1) legal"

definition reasonFor :: "Placer \<Rightarrow> Cluster \<Rightarrow> string \<Rightarrow> string" where
  "reasonFor p best current =
     (let reason = (if map_of (pr_capacity p) (cl_Name best) = None
                    then ''permitted; no capacity reported, so chosen by name'' else ''the emptiest permitted cluster'')
      in if current \<noteq> [] then ''moved: '' @ reason @ '' (the previous cluster is no longer permitted)'' else reason)"

fun join :: "string \<Rightarrow> string list \<Rightarrow> string" where
  "join sep [] = []"
| "join sep [s] = s"
| "join sep (s # t # ss) = s @ sep @ join sep (t # ss)"

definition PlaceWith :: "Placer \<Rightarrow> Placement \<Rightarrow> string \<Rightarrow> string list \<Rightarrow> placement_error + PlacementDecision" where
  "PlaceWith p claim current prefer =
     (if plc_Env claim = [] \<and> plc_Requires claim = [] then Inl EmptyClaim
      else (let legal = legalClusters p claim; considered = namesOf legal
            in if legal = [] then Inl (NoLegalCluster claim)
               else (case staysPut legal current considered of
                       Some stayed \<Rightarrow> Inr stayed
                     | None \<Rightarrow>
                         (case firstPreferred p legal prefer of
                            Some chosen \<Rightarrow>
                              Inr \<lparr>dcs_Cluster = cl_Name chosen, dcs_Env = cl_Env chosen,
                                   dcs_Reason = ''preferred by the platform for this workload'',
                                   dcs_Considered = considered, dcs_Sticky = False\<rparr>
                          | None \<Rightarrow>
                              (case emptiest p legal of
                                 None \<Rightarrow> Inl (EveryClusterFull claim (pr_minFree p))
                               | Some best \<Rightarrow>
                                   (let reason = reasonFor p best current;
                                        reason' = (if 0 < length prefer
                                                   then ''no preferred cluster ('' @ join '', '' prefer @
                                                        '') could take this workload '' @ em_dash @ '' '' @ reason
                                                   else reason)
                                    in Inr \<lparr>dcs_Cluster = cl_Name best, dcs_Env = cl_Env best, dcs_Reason = reason',
                                            dcs_Considered = considered, dcs_Sticky = False\<rparr>))))))"

definition Place :: "Placer \<Rightarrow> Placement \<Rightarrow> string \<Rightarrow> placement_error + PlacementDecision" where
  "Place p claim current = PlaceWith p claim current []"

section \<open>Namespaces\<close>

datatype namespace_error = UnknownPlaceholder NamespacePattern | NotANamespace NamespacePattern string

definition placeholderOwns :: string where "placeholderOwns = ''{owns}''"
definition placeholderEnv :: string where "placeholderEnv = ''{env}''"
definition maxNamespace :: nat where "maxNamespace = 63"

text \<open>\<open>strings.NewReplacer\<close> of the two placeholders: left to right, without rescanning what was inserted.\<close>

fun replace_placeholders :: "string \<Rightarrow> string \<Rightarrow> string \<Rightarrow> string" where
  "replace_placeholders owns env [] = []"
| "replace_placeholders owns env (c # s) =
     (if HasPrefix (c # s) placeholderOwns then owns @ replace_placeholders owns env (drop 5 s)
      else if HasPrefix (c # s) placeholderEnv then env @ replace_placeholders owns env (drop 4 s)
      else c # replace_placeholders owns env s)"

definition ns_Validate :: "NamespacePattern \<Rightarrow> namespace_error option" where
  "ns_Validate p =
     (let rest = replace_placeholders [] [] p
      in if CHR ''{'' \<in> set rest \<or> CHR ''}'' \<in> set rest then Some (UnknownPlaceholder p) else None)"

definition namespaceLabel :: "string \<Rightarrow> bool" where
  "namespaceLabel s \<longleftrightarrow> s \<noteq> [] \<and> alnum (hd s) \<and> alnum (last s) \<and> list_all (\<lambda>c. alnum c \<or> c = dash) s"

definition Render :: "NamespacePattern \<Rightarrow> string \<Rightarrow> string \<Rightarrow> namespace_error + string" where
  "Render p owns env =
     (if p = [] then Inr owns
      else (case ns_Validate p of
              Some e \<Rightarrow> Inl e
            | None \<Rightarrow>
                (let ns = replace_placeholders owns env p
                 in if maxNamespace < length ns \<or> \<not> namespaceLabel ns then Inl (NotANamespace p ns) else Inr ns)))"

section \<open>The cluster registry\<close>

record registry_entry =
  ce_Name :: string
  ce_Provider :: string
  ce_Region :: string
  ce_Env :: string
  ce_Purpose :: string
  ce_Residency :: string
  ce_Namespace :: string

datatype fleet_error =
    NoClusters
  | NamelessCluster
  | ClusterListedTwice string
  | ClusterWithoutEnv string
  | ClusterWithoutResidency string
  | ClusterNamespace string namespace_error

definition parse_cluster :: "registry_entry \<Rightarrow> Cluster" where
  "parse_cluster e =
     \<lparr>cl_Name = ce_Name e, cl_Provider = ce_Provider e, cl_Region = ce_Region e, cl_Env = ce_Env e,
      cl_Purpose = ce_Purpose e, cl_Residency = ce_Residency e, cl_Labels = [], cl_Namespace = ce_Namespace e,
      cl_Reachable = False\<rparr>"

fun parse_clusters :: "string list \<Rightarrow> Cluster list \<Rightarrow> registry_entry list \<Rightarrow> fleet_error + Cluster list" where
  "parse_clusters seen clusters [] = Inr clusters"
| "parse_clusters seen clusters (e # es) =
     (if ce_Name e = [] then Inl NamelessCluster
      else if ce_Name e \<in> set seen then Inl (ClusterListedTwice (ce_Name e))
      else if ce_Env e = [] then Inl (ClusterWithoutEnv (ce_Name e))
      else if ce_Residency e = [] then Inl (ClusterWithoutResidency (ce_Name e))
      else (case ns_Validate (ce_Namespace e) of
              Some err \<Rightarrow> Inl (ClusterNamespace (ce_Name e) err)
            | None \<Rightarrow> parse_clusters (ce_Name e # seen) (clusters @ [parse_cluster e]) es))"

text \<open>\<open>Parse\<close> of the registry document, after \<open>encoding/json\<close> has decoded it.\<close>

definition fleet_Parse :: "registry_entry list \<Rightarrow> fleet_error + Cluster list" where
  "fleet_Parse doc = (if doc = [] then Inl NoClusters else parse_clusters [] [] doc)"

definition MarkReachable :: "Cluster list \<Rightarrow> bool gomap \<Rightarrow> Cluster list" where
  "MarkReachable clusters reachable =
     map (\<lambda>c. c\<lparr>cl_Reachable := (case map_of reachable (cl_Name c) of Some b \<Rightarrow> b | None \<Rightarrow> False)\<rparr>) clusters"

definition AssumeReachable :: "Cluster list \<Rightarrow> bool gomap" where
  "AssumeReachable clusters = foldl (\<lambda>up c. gset up (cl_Name c) True) [] clusters"

section \<open>What the loops compute\<close>

lemma EqualFold_refl [simp]: "EqualFold s s"
  by (simp add: EqualFold_def)

lemma legalFor_iff:
  "legalFor claim c \<longleftrightarrow>
     cl_Reachable c \<and> plc_Residency claim \<noteq> [] \<and> EqualFold (cl_Residency c) (plc_Residency claim) \<and>
     (plc_Env claim = [] \<or> EqualFold (cl_Env c) (plc_Env claim)) \<and>
     (plc_Purpose claim = [] \<or> EqualFold (cl_Purpose c) (plc_Purpose claim)) \<and>
     (\<forall>(key, want)\<in>set (plc_Requires claim). want \<noteq> [] \<and> EqualFold (labelled c key) want)"
  by (auto simp: legalFor_def list_all_iff)

lemma staysPut_None: "staysPut cs current considered = None \<longleftrightarrow> current = [] \<or> current \<notin> cl_Name ` set cs"
  by (induction cs) auto

lemma staysPut_Some:
  assumes "staysPut cs current considered = Some d"
  shows "current \<noteq> [] \<and> (\<exists>c\<in>set cs. cl_Name c = current \<and> d = \<lparr>dcs_Cluster = current, dcs_Env = cl_Env c,
    dcs_Reason = ''already placed here and still permitted'', dcs_Considered = considered, dcs_Sticky = True\<rparr>)"
  using assms by (induction cs) (auto split: if_splits)

lemma named_with_room_Some:
  "named_with_room p name cs = Some c \<Longrightarrow> c \<in> set cs \<and> cl_Name c = name \<and> \<not> full p c"
  by (induction cs) (auto split: if_splits)

text \<open>Whether a cluster is full depends on its name only, so a second entry of a name has room when the first has.\<close>

lemma named_with_room_None:
  "named_with_room p name cs = None \<longleftrightarrow> (\<forall>c\<in>set cs. cl_Name c = name \<longrightarrow> full p c)"
  by (induction cs) (auto simp: full_def)

lemma firstPreferred_Some:
  assumes "firstPreferred p legal prefer = Some c"
  shows "c \<in> set legal \<and> \<not> full p c \<and> (\<exists>earlier later. prefer = earlier @ cl_Name c # later \<and>
     (\<forall>name\<in>set earlier. \<forall>c'\<in>set legal. cl_Name c' = name \<longrightarrow> full p c'))"
  using assms
proof (induction "prefer")
  case (Cons name names)
  show ?case
  proof (cases "named_with_room p name legal")
    case None
    with Cons obtain earlier later where "c \<in> set legal" "\<not> full p c" "names = earlier @ cl_Name c # later"
      "\<forall>n\<in>set earlier. \<forall>c'\<in>set legal. cl_Name c' = n \<longrightarrow> full p c'" by auto
    moreover have "\<forall>c'\<in>set legal. cl_Name c' = name \<longrightarrow> full p c'" using None named_with_room_None by blast
    ultimately show ?thesis by (intro conjI exI [of _ "name # earlier"] exI [of _ later]) auto
  next
    case (Some c')
    with Cons.prems named_with_room_Some [OF Some] show ?thesis
      by (intro conjI exI [of _ "[]"] exI [of _ names]) auto
  qed
qed simp

lemma firstPreferred_None:
  "firstPreferred p legal prefer = None \<longleftrightarrow> (\<forall>c\<in>set legal. cl_Name c \<in> set prefer \<longrightarrow> full p c)"
  by (induction "prefer") (auto simp: named_with_room_None dest: named_with_room_Some split: option.splits)

lemma emptiest_walk_Some:
  assumes "emptiest_walk p best bestFree cs = Some c" and "\<forall>b. best = Some b \<longrightarrow> free_of p b = bestFree"
  shows "(best = Some c \<or> c \<in> set cs \<and> \<not> full p c) \<and> bestFree \<le> free_of p c \<and>
    (\<forall>c'\<in>set cs. full p c' \<or> free_of p c' \<le> free_of p c)"
  using assms
proof (induction cs arbitrary: best bestFree)
  case (Cons d cs)
  show ?case
  proof (cases "full p d \<or> \<not> bestFree < free_of p d")
    case True
    with Cons.prems have "emptiest_walk p best bestFree cs = Some c" by (simp split: if_splits)
    from Cons.IH [OF this Cons.prems(2)] True show ?thesis by auto
  next
    case False
    with Cons.prems have "emptiest_walk p (Some d) (free_of p d) cs = Some c" by auto
    from Cons.IH [OF this] False show ?thesis by auto
  qed
qed auto

lemma emptiest_walk_None:
  "emptiest_walk p best bestFree cs = None \<longleftrightarrow> best = None \<and> (\<forall>c\<in>set cs. full p c \<or> free_of p c \<le> bestFree)"
proof (induction cs arbitrary: best bestFree)
  case (Cons d cs)
  show ?case
    by (cases "full p d"; cases "bestFree < free_of p d") (simp_all add: Cons.IH not_less not_le)
qed simp

definition sane_capacity :: "Placer \<Rightarrow> bool" where
  "sane_capacity p \<longleftrightarrow> (\<forall>(name, free)\<in>set (pr_capacity p). 0 \<le> free)"

lemma emptiest_None:
  assumes "sane_capacity p"
  shows "emptiest p legal = None \<longleftrightarrow> (\<forall>c\<in>set legal. full p c)"
proof -
  have "\<not> free_of p c \<le> - 1" for c
  proof -
    have "0 \<le> free_of p c"
      using assms by (auto simp: sane_capacity_def free_of_def dest: map_of_SomeD split: option.splits)
    then show ?thesis by linarith
  qed
  then show ?thesis by (simp add: emptiest_def emptiest_walk_None)
qed

lemma PlaceWith_cases:
  assumes "PlaceWith p claim current prefer = Inr d"
  obtains (sticky) c where "c \<in> set (legalClusters p claim)" "current \<noteq> []" "cl_Name c = current"
      "dcs_Cluster d = current" "dcs_Env d = cl_Env c" "dcs_Sticky d"
    | (preferred) c where "current \<notin> cl_Name ` set (legalClusters p claim) \<or> current = []"
      "firstPreferred p (legalClusters p claim) prefer = Some c"
      "dcs_Cluster d = cl_Name c" "dcs_Env d = cl_Env c" "\<not> dcs_Sticky d"
    | (roomiest) c where "current \<notin> cl_Name ` set (legalClusters p claim) \<or> current = []"
      "firstPreferred p (legalClusters p claim) prefer = None" "emptiest p (legalClusters p claim) = Some c"
      "dcs_Cluster d = cl_Name c" "dcs_Env d = cl_Env c" "\<not> dcs_Sticky d"
proof (cases "staysPut (legalClusters p claim) current (namesOf (legalClusters p claim))")
  case (Some d')
  with assms have "d' = d" by (auto simp: PlaceWith_def Let_def split: if_splits)
  with staysPut_Some [OF Some] sticky show ?thesis by fastforce
next
  case None
  note stay = None
  then have cur: "current \<notin> cl_Name ` set (legalClusters p claim) \<or> current = []" using staysPut_None by blast
  show ?thesis
  proof (cases "firstPreferred p (legalClusters p claim) prefer")
    case (Some c)
    with assms stay have "dcs_Cluster d = cl_Name c" "dcs_Env d = cl_Env c" "\<not> dcs_Sticky d"
      by (auto simp: PlaceWith_def Let_def split: if_splits)
    with preferred cur Some show ?thesis by blast
  next
    case None
    then obtain c where c: "emptiest p (legalClusters p claim) = Some c"
      using assms stay by (cases "emptiest p (legalClusters p claim)") (auto simp: PlaceWith_def Let_def split: if_splits)
    with assms stay None have "dcs_Cluster d = cl_Name c" "dcs_Env d = cl_Env c" "\<not> dcs_Sticky d"
      by (auto simp: PlaceWith_def Let_def split: if_splits)
    with roomiest cur None c show ?thesis by blast
  qed
qed

lemma emptiest_Some:
  assumes "emptiest p legal = Some c"
  shows "c \<in> set legal \<and> \<not> full p c \<and> (\<forall>c'\<in>set legal. full p c' \<or> free_of p c' \<le> free_of p c)"
  using emptiest_walk_Some [OF assms [unfolded emptiest_def]] by simp

lemma PlaceWith_considered:
  assumes "PlaceWith p claim current prefer = Inr d"
  shows "dcs_Considered d = namesOf (legalClusters p claim)"
  using assms by (auto simp: PlaceWith_def Let_def dest!: staysPut_Some split: if_splits option.splits)

lemma PlaceWith_placed:
  assumes "PlaceWith p claim current prefer = Inr d"
  shows "\<exists>c\<in>set (legalClusters p claim). dcs_Cluster d = cl_Name c \<and> dcs_Env d = cl_Env c"
  using assms
proof (cases rule: PlaceWith_cases)
  case (preferred c)
  then show ?thesis using firstPreferred_Some by blast
next
  case (roomiest c)
  then show ?thesis using emptiest_Some by blast
qed auto

lemma legalClusters_WithCapacity: "legalClusters (WithCapacity p reports) claim = legalClusters p claim"
  by (simp add: legalClusters_def WithCapacity_def)

section \<open>The interface of a placer\<close>

text \<open>What the resolver relies on: a decision names a cluster of the fleet that is legal for the claim.\<close>

locale placing =
  fixes place :: "'p \<Rightarrow> Placement \<Rightarrow> string \<Rightarrow> string list \<Rightarrow> 'e + PlacementDecision"
    and fleet :: "'p \<Rightarrow> Cluster list"
  assumes placed_legal: "place p claim current plans = Inr d \<Longrightarrow>
      \<exists>c\<in>set (fleet p). legalFor claim c \<and> dcs_Cluster d = cl_Name c \<and> dcs_Env d = cl_Env c"
begin

lemma placed_in_jurisdiction:
  assumes "place p claim current plans = Inr d"
  shows "\<exists>c\<in>set (fleet p). dcs_Cluster d = cl_Name c \<and> cl_Reachable c \<and> plc_Residency claim \<noteq> [] \<and>
     EqualFold (cl_Residency c) (plc_Residency claim)"
  using placed_legal [OF assms] by (auto simp: legalFor_iff)

lemma placed_in_environment:
  assumes "place p claim current plans = Inr d" and "plc_Env claim \<noteq> []"
  shows "EqualFold (dcs_Env d) (plc_Env claim)"
  using placed_legal [OF assms(1)] assms(2) by (auto simp: legalFor_iff)

end

interpretation placer: placing PlaceWith pr_clusters
  by unfold_locales (use PlaceWith_placed in \<open>fastforce simp: legalClusters_def\<close>)

section \<open>The registry\<close>

lemma parse_clusters_Inr:
  assumes "parse_clusters seen clusters es = Inr cs"
  shows "\<exists>new. cs = clusters @ new \<and> new = map parse_cluster es \<and> distinct (map ce_Name es) \<and>
     set (map ce_Name es) \<inter> set seen = {} \<and> (\<forall>e\<in>set es. ce_Name e \<noteq> [] \<and> ce_Env e \<noteq> [] \<and> ce_Residency e \<noteq> [])"
  using assms
proof (induction seen clusters es rule: parse_clusters.induct)
  case (2 seen clusters e es)
  then have "ce_Name e \<notin> set seen" "ce_Name e \<noteq> []" "ce_Env e \<noteq> []" "ce_Residency e \<noteq> []"
    "parse_clusters (ce_Name e # seen) (clusters @ [parse_cluster e]) es = Inr cs"
    by (auto split: if_splits option.splits)
  with 2 show ?case by (fastforce split: if_splits option.splits)
qed simp

lemma unreachable_fleet_places_nothing:
  assumes "\<forall>c\<in>set (pr_clusters p). \<not> cl_Reachable c"
  shows "PlaceWith p claim current plans \<noteq> Inr d"
  using placer.placed_in_jurisdiction [of p claim current plans d] assms by blast

lemma set_keys_AssumeReachable: "map_of (AssumeReachable cs) n = (if n \<in> cl_Name ` set cs then Some True else None)"
proof -
  have "map_of (foldl (\<lambda>up c. gset up (cl_Name c) True) up cs) n = (if n \<in> cl_Name ` set cs then Some True else map_of up n)" for up
    by (induction cs arbitrary: up) auto
  then show ?thesis by (simp add: AssumeReachable_def)
qed

section \<open>Namespace patterns\<close>

lemma alnum_dash_chars: "alnum c \<or> c = dash \<Longrightarrow> c \<noteq> CHR ''{'' \<and> c \<noteq> CHR ''}'' \<and> c \<noteq> CHR ''/''"
  by (auto simp: alnum_def Let_def)

section \<open>Properties\<close>

definition sample_cluster :: "string \<Rightarrow> string \<Rightarrow> Cluster" where
  "sample_cluster name residency = \<lparr>cl_Name = name, cl_Provider = ''on-prem'', cl_Region = ''r1'', cl_Env = ''prod'',
     cl_Purpose = ''app'', cl_Residency = residency, cl_Labels = [], cl_Namespace = [], cl_Reachable = True\<rparr>"

definition sample_placer :: Placer where
  "sample_placer = WithCapacity (NewPlacer [sample_cluster ''eu-1'' ''EU'', sample_cluster ''eu-2'' ''eu'', sample_cluster ''us-1'' ''us''])
     [\<lparr>cap_Cluster = ''eu-1'', cap_AllocatablePct = 1 / 20\<rparr>, \<lparr>cap_Cluster = ''us-1'', cap_AllocatablePct = 9 / 10\<rparr>]"

definition sample_claim :: Placement where
  "sample_claim = \<lparr>plc_Env = ''prod'', plc_Purpose = [], plc_Residency = ''eu'', plc_Requires = []\<rparr>"

lemma sample_placements:
  "(case PlaceWith sample_placer sample_claim [] [''us-1'', ''eu-1''] of Inr d \<Rightarrow> dcs_Cluster d | Inl e \<Rightarrow> []) = ''eu-2''"
  "(case PlaceWith sample_placer sample_claim ''eu-1'' [''eu-2''] of Inr d \<Rightarrow> dcs_Cluster d | Inl e \<Rightarrow> []) = ''eu-1''"
  "map cl_Name (legalClusters sample_placer sample_claim) = [''eu-1'', ''eu-2'']"
  "map cl_Name (legalClusters sample_placer (sample_claim\<lparr>plc_Residency := ''ch''\<rparr>)) = []"
  by code_simp+

lemma sample_placed: "\<exists>d. PlaceWith sample_placer sample_claim [] [''us-1'', ''eu-1''] = Inr d"
  using sample_placements(1) by (cases "PlaceWith sample_placer sample_claim [] [''us-1'', ''eu-1'']") auto

text \<open>C16: data never leaves its jurisdiction. Whatever the reported capacity, wherever the application runs today and
  whatever clusters the platform prefers, a placement that succeeds is on a cluster of the fleet that the platform
  could read and whose residency is the one the claim names; a claim that names no residency is placed nowhere. The
  clusters listed as considered are those that satisfy the claim, and no capacity report changes which they are.\<close>

theorem PlaceWith_keeps_jurisdiction:
  assumes "PlaceWith p claim current plans = Inr d"
  shows "(\<exists>c\<in>set (pr_clusters p). dcs_Cluster d = cl_Name c \<and> dcs_Env d = cl_Env c \<and> cl_Reachable c \<and>
      plc_Residency claim \<noteq> [] \<and> EqualFold (cl_Residency c) (plc_Residency claim) \<and>
      (plc_Env claim = [] \<or> EqualFold (cl_Env c) (plc_Env claim)) \<and>
      (\<forall>(key, want)\<in>set (plc_Requires claim). want \<noteq> [] \<and> EqualFold (labelled c key) want)) \<and>
    set (dcs_Considered d) = {cl_Name c | c. c \<in> set (pr_clusters p) \<and> legalFor claim c} \<and>
    legalClusters (WithCapacity p reports) claim = legalClusters p claim"
proof (intro conjI)
  show "\<exists>c\<in>set (pr_clusters p). dcs_Cluster d = cl_Name c \<and> dcs_Env d = cl_Env c \<and> cl_Reachable c \<and>
      plc_Residency claim \<noteq> [] \<and> EqualFold (cl_Residency c) (plc_Residency claim) \<and>
      (plc_Env claim = [] \<or> EqualFold (cl_Env c) (plc_Env claim)) \<and>
      (\<forall>(key, want)\<in>set (plc_Requires claim). want \<noteq> [] \<and> EqualFold (labelled c key) want)"
    using placer.placed_legal [OF assms] legalFor_iff by blast
  show "set (dcs_Considered d) = {cl_Name c | c. c \<in> set (pr_clusters p) \<and> legalFor claim c}"
    by (auto simp: PlaceWith_considered [OF assms] namesOf_def legalClusters_def)
qed (rule legalClusters_WithCapacity)

theorem PlaceWith_keeps_jurisdiction_witness:
  "\<exists>d c. PlaceWith sample_placer sample_claim [] [''us-1'', ''eu-1''] = Inr d \<and> c \<in> set (pr_clusters sample_placer) \<and>
     dcs_Cluster d = cl_Name c \<and> EqualFold (cl_Residency c) ''eu''"
proof -
  obtain d where d: "PlaceWith sample_placer sample_claim [] [''us-1'', ''eu-1''] = Inr d" using sample_placed by blast
  show ?thesis using d PlaceWith_keeps_jurisdiction [OF d, of "[]"] by (auto simp: sample_claim_def)
qed

text \<open>Legality, then stickiness, then preference, then capacity. An application that runs on a still legal
  cluster stays there. Otherwise it goes to the first preferred cluster that is legal and has room; and only when
  no preferred cluster is both, to a legal cluster with room than which no legal one with room has more reported
  free capacity.\<close>

theorem PlaceWith_order:
  assumes "PlaceWith p claim current plans = Inr d"
  shows "let legal = set (legalClusters p claim) in
    if current \<noteq> [] \<and> current \<in> cl_Name ` legal then dcs_Cluster d = current \<and> dcs_Sticky d
    else \<not> dcs_Sticky d \<and>
      (if \<exists>c\<in>legal. cl_Name c \<in> set plans \<and> \<not> full p c
       then \<exists>earlier later. plans = earlier @ dcs_Cluster d # later \<and>
              (\<exists>c\<in>legal. cl_Name c = dcs_Cluster d \<and> \<not> full p c) \<and>
              (\<forall>c\<in>legal. cl_Name c \<in> set earlier \<longrightarrow> full p c)
       else \<exists>c\<in>legal. cl_Name c = dcs_Cluster d \<and> \<not> full p c \<and>
              (\<forall>c'\<in>legal. full p c' \<or> free_of p c' \<le> free_of p c))"
  using assms
proof (cases rule: PlaceWith_cases)
  case (sticky c)
  then show ?thesis by (auto simp: Let_def)
next
  case (preferred c)
  note c = firstPreferred_Some [OF preferred(2)]
  then have "\<exists>c\<in>set (legalClusters p claim). cl_Name c \<in> set plans \<and> \<not> full p c" by auto
  then show ?thesis using preferred c by (auto simp: Let_def)
next
  case (roomiest c)
  have "\<not> (\<exists>c\<in>set (legalClusters p claim). cl_Name c \<in> set plans \<and> \<not> full p c)"
    using roomiest(2) firstPreferred_None by blast
  then show ?thesis using roomiest emptiest_Some [OF roomiest(3)] by (auto simp: Let_def)
qed

theorem PlaceWith_order_witness:
  "\<exists>d. PlaceWith sample_placer sample_claim ''eu-1'' [''eu-2''] = Inr d \<and> dcs_Cluster d = ''eu-1'' \<and> dcs_Sticky d"
proof -
  obtain d where d: "PlaceWith sample_placer sample_claim ''eu-1'' [''eu-2''] = Inr d"
    using sample_placements(2) by (cases "PlaceWith sample_placer sample_claim ''eu-1'' [''eu-2'']") auto
  have "''eu-1'' \<in> set (map cl_Name (legalClusters sample_placer sample_claim))" by (simp only: sample_placements(3)) simp
  then have "''eu-1'' \<in> cl_Name ` set (legalClusters sample_placer sample_claim)" by simp
  with d PlaceWith_order [OF d] show ?thesis by (simp add: Let_def)
qed

text \<open>A placement is refused exactly when there is nowhere to go: the claim says nothing about where it belongs, no
  cluster is legal for it, or it does not already run on a legal cluster and every legal one is reported below the
  capacity floor. Reported shares are assumed not to be negative.\<close>

theorem PlaceWith_refuses_exactly:
  assumes "sane_capacity p"
  shows "(\<exists>e. PlaceWith p claim current plans = Inl e) \<longleftrightarrow>
     plc_Env claim = [] \<and> plc_Requires claim = [] \<or> legalClusters p claim = [] \<or>
     (current = [] \<or> current \<notin> cl_Name ` set (legalClusters p claim)) \<and>
     (\<forall>c\<in>set (legalClusters p claim). full p c)"
proof (cases "plc_Env claim = [] \<and> plc_Requires claim = [] \<or> legalClusters p claim = []")
  case True
  then have "\<exists>e. PlaceWith p claim current plans = Inl e" by (auto simp: PlaceWith_def Let_def)
  with True show ?thesis by blast
next
  case False
  let ?legal = "legalClusters p claim"
  have "(\<exists>e. PlaceWith p claim current plans = Inl e) \<longleftrightarrow>
      staysPut ?legal current (namesOf ?legal) = None \<and> firstPreferred p ?legal plans = None \<and> emptiest p ?legal = None"
    using False
    by (cases "staysPut ?legal current (namesOf ?legal)"; cases "firstPreferred p ?legal plans"; cases "emptiest p ?legal")
      (simp_all add: PlaceWith_def Let_def)
  then show ?thesis
    using False by (simp only: staysPut_None firstPreferred_None emptiest_None [OF assms]) blast
qed

theorem PlaceWith_refuses_exactly_witness:
  "sane_capacity sample_placer \<and>
   (\<exists>e. PlaceWith sample_placer (sample_claim\<lparr>plc_Residency := ''ch''\<rparr>) ''us-1'' [] = Inl e)"
proof
  show s: "sane_capacity sample_placer" by (simp add: sane_capacity_def sample_placer_def WithCapacity_def NewPlacer_def)
  have "legalClusters sample_placer (sample_claim\<lparr>plc_Residency := ''ch''\<rparr>) = []" using sample_placements(4) by simp
  then show "\<exists>e. PlaceWith sample_placer (sample_claim\<lparr>plc_Residency := ''ch''\<rparr>) ''us-1'' [] = Inl e"
    using PlaceWith_refuses_exactly [OF s] by blast
qed

text \<open>Reachability is measured, never declared. A registry document that parses lists every cluster once, each with
  an environment and a residency, and as unreachable, so nothing can be placed on it before a prober has answered;
  after \<open>MarkReachable\<close> only clusters that answered are placed on.\<close>

theorem fleet_Parse_places_nothing_unprobed:
  assumes "fleet_Parse doc = Inr clusters"
  shows "map cl_Name clusters = map ce_Name doc \<and> distinct (map cl_Name clusters) \<and>
    (\<forall>c\<in>set clusters. cl_Name c \<noteq> [] \<and> cl_Env c \<noteq> [] \<and> cl_Residency c \<noteq> []) \<and>
    (\<forall>claim current plans d. PlaceWith (NewPlacer clusters) claim current plans \<noteq> Inr d) \<and>
    (\<forall>claim current plans d.
       PlaceWith (NewPlacer (MarkReachable clusters answered)) claim current plans = Inr d \<longrightarrow>
       map_of answered (dcs_Cluster d) = Some True)"
proof -
  have cs: "clusters = map parse_cluster doc" "distinct (map ce_Name doc)"
    "\<forall>e\<in>set doc. ce_Name e \<noteq> [] \<and> ce_Env e \<noteq> [] \<and> ce_Residency e \<noteq> []"
    using parse_clusters_Inr [of "[]" "[]" doc clusters] assms by (auto simp: fleet_Parse_def split: if_splits)
  have names: "map cl_Name clusters = map ce_Name doc" by (simp add: cs(1) parse_cluster_def)
  have none: "PlaceWith (NewPlacer clusters) claim current plans \<noteq> Inr d" for claim current plans d
    by (rule unreachable_fleet_places_nothing) (auto simp: cs(1) parse_cluster_def NewPlacer_def)
  have probed: "map_of answered (dcs_Cluster d) = Some True"
    if "PlaceWith (NewPlacer (MarkReachable clusters answered)) claim current plans = Inr d" for claim current plans d
    using placer.placed_in_jurisdiction [OF that]
    by (auto simp: NewPlacer_def MarkReachable_def split: option.splits)
  have dist: "distinct (map cl_Name clusters)" by (simp only: names cs(2))
  have filled: "\<forall>c\<in>set clusters. cl_Name c \<noteq> [] \<and> cl_Env c \<noteq> [] \<and> cl_Residency c \<noteq> []"
    using cs(1,3) by (auto simp: parse_cluster_def)
  show ?thesis using names dist filled none probed by blast
qed

theorem fleet_Parse_places_nothing_unprobed_witness:
  "\<exists>clusters. fleet_Parse [\<lparr>ce_Name = ''eu-1'', ce_Provider = [], ce_Region = [], ce_Env = ''prod'', ce_Purpose = [],
       ce_Residency = ''eu'', ce_Namespace = ''{owns}-{env}''\<rparr>] = Inr clusters \<and> map cl_Name clusters = [''eu-1''] \<and>
     (\<exists>e. PlaceWith (NewPlacer clusters) sample_claim [] [''eu-1''] = Inl e)"
proof -
  obtain clusters where c: "fleet_Parse [\<lparr>ce_Name = ''eu-1'', ce_Provider = [], ce_Region = [], ce_Env = ''prod'',
      ce_Purpose = [], ce_Residency = ''eu'', ce_Namespace = ''{owns}-{env}''\<rparr>] = Inr clusters"
    by (simp add: fleet_Parse_def ns_Validate_def Let_def HasPrefix_def placeholderOwns_def placeholderEnv_def)
  show ?thesis
    using c fleet_Parse_places_nothing_unprobed [OF c, of "[]"]
    by (cases "PlaceWith (NewPlacer clusters) sample_claim [] [''eu-1'']") auto
qed

text \<open>A namespace rendered from a pattern is one Kubernetes takes: between 1 and 63 characters, lower-case letters,
  digits and dashes, neither starting nor ending with a dash. With no pattern it is the manifest's own name.\<close>

theorem Render_is_a_label:
  assumes "Render pattern owns env = Inr ns"
  shows "pattern = [] \<and> ns = owns \<or>
    1 \<le> length ns \<and> length ns \<le> 63 \<and> alnum (hd ns) \<and> alnum (last ns) \<and> (\<forall>c\<in>set ns. alnum c \<or> c = dash)"
  using assms
  by (auto simp: Render_def Let_def namespaceLabel_def maxNamespace_def list_all_iff Suc_le_eq
      split: if_splits option.splits)

theorem Render_is_a_label_witness:
  "\<exists>ns. Render ''{owns}-{env}'' ''payments'' ''prod'' = Inr ns \<and> ns = ''payments-prod'' \<and> length ns \<le> 63"
proof -
  have "Render ''{owns}-{env}'' ''payments'' ''prod'' = Inr ''payments-prod''"
    by (simp add: Render_def ns_Validate_def namespaceLabel_def maxNamespace_def Let_def HasPrefix_def placeholderOwns_def
        placeholderEnv_def alnum_def)
  from Render_is_a_label [OF this] this show ?thesis by simp
qed

end
