(* ===== verification/Estate_Manifest.thy ===== *)
theory Estate_Manifest
  imports Estate_Floor Placement
begin

text \<open>
  A team's declaration: \<open>manifest.go\<close>, \<open>labels.go\<close> and \<open>governed_fields.go\<close> of \<open>mantlekeep-estate\<close>. A manifest
  arrives decoded: the strict JSON decoder, which refuses unknown fields, is \<open>encoding/json\<close>. Its strings are
  valid UTF-8, so the runes of a value are its bytes that are not continuation bytes. The regular expression of a
  name is the predicate \<open>valid_name\<close>. The lemmas show what a manifest that validates guarantees to the resolver.
\<close>

section \<open>Shapes\<close>

type_synonym Labels = "string gomap"

record Item =
  it_Name :: string
  it_Tier :: Tier

record App =
  app_Name :: string
  app_Runtime :: Runtime
  app_Image :: string
  app_Placement :: Placement
  app_Tier :: Tier
  app_Labels :: Labels

record KafkaSection =
  ks_Cluster :: string
  ks_Topics :: "Item list"
  ks_ConsumesFrom :: "string list"

record PostgresBind =
  pb_Cluster :: string
  pb_Database :: string
  pb_Schema :: string
  pb_Readers :: "string list"
  pb_Tier :: Tier

record HarborSection =
  hs_Project :: string
  hs_Robots :: "Item list"
  hs_Tier :: Tier

record Manifest =
  man_Team :: string
  man_Owns :: string
  man_Tier :: Tier
  man_Classification :: string
  man_Apps :: "App list"
  man_Kafka :: "KafkaSection option"
  man_Postgres :: "PostgresBind list"
  man_Harbor :: "HarborSection option"
  man_Labels :: Labels

datatype manifest_error =
    BadTeam string
  | BadOwns string
  | BadTier string Tier \<comment> \<open>what, tier\<close>
  | LowersTier string Tier Tier \<comment> \<open>what, tier, the manifest's tier\<close>
  | BadItemName string string \<comment> \<open>kind, name\<close>
  | BadAppName string
  | BadRuntime string Runtime
  | NoImage string
  | ImageCarriesTag string string
  | NoEnvironment string
  | NoResidency string
  | IncompleteBinding
  | BadLabelName string string \<comment> \<open>what, key\<close>
  | LabelNamesGovernedField string string
  | EmptyLabel string string
  | LongLabel string string
  | ControlCharacter string string
  | RedefinesLabel string string string \<comment> \<open>what, key, team\<close>

section \<open>Names\<close>

definition lower_letter :: "char \<Rightarrow> bool" where
  "lower_letter c = (let n = of_char c :: nat in 97 \<le> n \<and> n \<le> 122)"

text \<open>\<open>^[a-z][a-z0-9-]{1,30}$\<close>\<close>

definition valid_name :: "string \<Rightarrow> bool" where
  "valid_name s \<longleftrightarrow>
     2 \<le> length s \<and> length s \<le> 31 \<and> lower_letter (hd s) \<and> list_all (\<lambda>c. alnum c \<or> c = dash) (tl s)"

text \<open>
  The JSON names of every field reachable from a manifest or a resolved change, folded to lower case. The reflection
  walk runs over the shapes of the declared types: a struct with its tagged fields, a pointer, slice or array of a
  shape, and everything else (basic types, maps and interfaces), which has no fields.
\<close>

datatype go_type =
    GoStruct string "(string \<times> go_type) list" \<comment> \<open>the type's name, the json tag and type of each field\<close>
  | GoRef go_type \<comment> \<open>a pointer, slice or array\<close>
  | GoOther

fun collectFieldNames :: "go_type \<Rightarrow> string list \<times> string list \<Rightarrow> string list \<times> string list"
  and collect_fields :: "(string \<times> go_type) list \<Rightarrow> string list \<times> string list \<Rightarrow> string list \<times> string list" where
  "collectFieldNames (GoRef t) st = collectFieldNames t st"
| "collectFieldNames GoOther st = st"
| "collectFieldNames (GoStruct n fs) (names, visited) =
     (if n \<in> set visited then (names, visited) else collect_fields fs (names, visited @ [n]))"
| "collect_fields [] st = st"
| "collect_fields ((tag, t) # fs) (names, visited) =
     (let declared = takeWhile (\<lambda>c. c \<noteq> CHR '','') tag
      in collect_fields fs (collectFieldNames t
           (if declared \<noteq> [] \<and> declared \<noteq> ''-'' then List.insert (map to_lower declared) names else names, visited)))"

definition shape_Item :: go_type where
  "shape_Item = GoStruct ''Item'' [(''name'', GoOther), (''tier,omitempty'', GoOther)]"

definition shape_Manifest :: go_type where
  "shape_Manifest = GoStruct ''Manifest''
     [(''team'', GoOther), (''owns'', GoOther), (''tier,omitempty'', GoOther), (''classification,omitempty'', GoOther),
      (''apps,omitempty'', GoRef (GoStruct ''App''
         [(''name'', GoOther), (''runtime'', GoOther), (''image'', GoOther),
          (''placement'', GoStruct ''Placement''
             [(''env'', GoOther), (''purpose,omitempty'', GoOther), (''residency,omitempty'', GoOther),
              (''requires,omitempty'', GoOther)]),
          (''tier,omitempty'', GoOther), (''labels,omitempty'', GoOther)])),
      (''kafka,omitempty'', GoRef (GoStruct ''KafkaSection''
         [(''cluster,omitempty'', GoOther), (''topics,omitempty'', GoRef shape_Item),
          (''consumesFrom,omitempty'', GoRef GoOther)])),
      (''postgres,omitempty'', GoRef (GoStruct ''PostgresBind''
         [(''cluster'', GoOther), (''database'', GoOther), (''schema,omitempty'', GoOther),
          (''readers,omitempty'', GoRef GoOther), (''tier,omitempty'', GoOther)])),
      (''harbor,omitempty'', GoRef (GoStruct ''HarborSection''
         [(''project,omitempty'', GoOther), (''robots,omitempty'', GoRef shape_Item), (''tier,omitempty'', GoOther)])),
      (''labels,omitempty'', GoOther)]"

definition shape_DesiredItem :: go_type where
  "shape_DesiredItem = GoStruct ''DesiredItem''
     [(''asset'', GoOther), (''kind'', GoOther), (''name'', GoOther), (''team,omitempty'', GoOther), (''tier'', GoOther),
      (''gate'', GoOther), (''cluster,omitempty'', GoOther),
      (''slot,omitempty'', GoStruct ''Slot'' [(''cluster'', GoOther), (''namespace,omitempty'', GoOther), (''name'', GoOther)]),
      (''limits'', GoOther), (''readers,omitempty'', GoRef GoOther), (''image,omitempty'', GoOther),
      (''runtime,omitempty'', GoOther), (''digest,omitempty'', GoOther),
      (''placement,omitempty'', GoRef (GoStruct ''PlacementDecision''
         [(''cluster'', GoOther), (''env,omitempty'', GoOther), (''reason'', GoOther), (''considered'', GoRef GoOther),
          (''sticky'', GoOther)])),
      (''state,omitempty'', GoOther), (''labels,omitempty'', GoOther)]"

definition fieldNamesReachableFrom :: "go_type list \<Rightarrow> string list" where
  "fieldNamesReachableFrom roots = fst (fold (\<lambda>root st. collectFieldNames root st) roots ([], []))"

definition governedFieldNames :: "string list" where
  "governedFieldNames = fieldNamesReachableFrom [shape_Manifest, shape_DesiredItem]"

lemma governedFieldNames_code [code]:
  "governedFieldNames =
     [''state'', ''sticky'', ''considered'', ''reason'', ''digest'', ''limits'', ''namespace'', ''slot'',
      ''gate'', ''kind'', ''asset'', ''robots'', ''project'', ''harbor'', ''readers'', ''schema'',
      ''database'', ''postgres'', ''consumesfrom'', ''topics'', ''cluster'', ''kafka'', ''labels'',
      ''requires'', ''residency'', ''purpose'', ''env'', ''placement'', ''image'', ''runtime'', ''name'',
      ''apps'', ''classification'', ''tier'', ''owns'', ''team'']"
  by code_simp

definition governsFieldNamed :: "string \<Rightarrow> bool" where
  "governsFieldNamed candidate \<longleftrightarrow> map to_lower candidate \<in> set governedFieldNames"

section \<open>Labels\<close>

definition maxLabelValue :: nat where "maxLabelValue = 128"

definition continuation :: "char \<Rightarrow> bool" where
  "continuation c = (let n = of_char c :: nat in 128 \<le> n \<and> n \<le> 191)"

definition rune_count :: "string \<Rightarrow> nat" where
  "rune_count s = length (filter (\<lambda>c. \<not> continuation c) s)"

definition control :: "char \<Rightarrow> bool" where
  "control c = (let n = of_char c :: nat in n < 32 \<or> n = 127)"

definition validateLabelValue :: "string \<Rightarrow> string \<Rightarrow> string \<Rightarrow> manifest_error option" where
  "validateLabelValue what key v =
     (if v = [] then Some (EmptyLabel what key)
      else if maxLabelValue < rune_count v then Some (LongLabel what key)
      else if list_ex control v then Some (ControlCharacter what key)
      else None)"

definition label_keys :: "Labels \<Rightarrow> string list" where
  "label_keys l = sort (keys l)"

definition labels_clone :: "Labels \<Rightarrow> Labels" where
  "labels_clone l = (if l = [] then [] else gmerge [] l)"

definition validateLabel :: "string \<Rightarrow> Labels \<Rightarrow> string \<Rightarrow> manifest_error option" where
  "validateLabel what l key =
     (if \<not> valid_name key then Some (BadLabelName what key)
      else if governsFieldNamed key then Some (LabelNamesGovernedField what key)
      else validateLabelValue what key (case map_of l key of Some v \<Rightarrow> v | None \<Rightarrow> []))"

definition labels_validate :: "string \<Rightarrow> Labels \<Rightarrow> manifest_error option" where
  "labels_validate what l = first_error (map (validateLabel what l) (label_keys l))"

definition labelsFor :: "Manifest \<Rightarrow> App \<Rightarrow> Labels" where
  "labelsFor m app = gmerge (gmerge [] (man_Labels m)) (app_Labels app)"

definition validateAppLabels :: "Manifest \<Rightarrow> App \<Rightarrow> manifest_error option" where
  "validateAppLabels m app =
     (let what = ''app '' @ app_Name app
      in first_error (labels_validate what (app_Labels app) #
           map (\<lambda>key. if map_of (man_Labels m) key \<noteq> None then Some (RedefinesLabel what key (man_Team m)) else None)
             (label_keys (app_Labels app))))"

definition validateLabels :: "Manifest \<Rightarrow> manifest_error option" where
  "validateLabels m =
     first_error (labels_validate (''team '' @ man_Team m) (man_Labels m) # map (validateAppLabels m) (man_Apps m))"

section \<open>Validation\<close>

definition checkTier :: "Manifest \<Rightarrow> string \<Rightarrow> Tier \<Rightarrow> manifest_error option" where
  "checkTier m what tier =
     (if tier = [] then None
      else if \<not> tier_valid tier then Some (BadTier what tier)
      else if tier_rank tier < tier_rank (man_Tier m) then Some (LowersTier what tier (man_Tier m))
      else None)"

definition checkItem :: "Manifest \<Rightarrow> string \<Rightarrow> Item \<Rightarrow> manifest_error option" where
  "checkItem m what item =
     (if \<not> valid_name (it_Name item) then Some (BadItemName what (it_Name item))
      else if it_Tier item \<noteq> [] \<and> \<not> tier_valid (it_Tier item) then Some (BadTier (what @ '' '' @ it_Name item) (it_Tier item))
      else if it_Tier item \<noteq> [] \<and> tier_rank (it_Tier item) < tier_rank (man_Tier m)
      then Some (LowersTier (what @ '' '' @ it_Name item) (it_Tier item) (man_Tier m))
      else None)"

definition checkItems :: "Manifest \<Rightarrow> string \<Rightarrow> Item list \<Rightarrow> manifest_error option" where
  "checkItems m kind items = first_error (map (checkItem m kind) items)"

definition validatePlacement :: "App \<Rightarrow> manifest_error option" where
  "validatePlacement app =
     (if plc_Env (app_Placement app) = [] then Some (NoEnvironment (app_Name app))
      else if plc_Residency (app_Placement app) = [] then Some (NoResidency (app_Name app))
      else None)"

definition validateApp :: "Manifest \<Rightarrow> App \<Rightarrow> manifest_error option" where
  "validateApp m app =
     (if \<not> valid_name (app_Name app) then Some (BadAppName (app_Name app))
      else if \<not> valid_name (app_Runtime app) then Some (BadRuntime (app_Name app) (app_Runtime app))
      else if app_Image app = [] then Some (NoImage (app_Name app))
      else if CHR '':'' \<in> set (app_Image app) \<or> CHR ''@'' \<in> set (app_Image app)
      then Some (ImageCarriesTag (app_Name app) (app_Image app))
      else (case checkTier m (''app '' @ app_Name app) (app_Tier app) of
              Some e \<Rightarrow> Some e
            | None \<Rightarrow> validatePlacement app))"

definition validatePostgres :: "Manifest \<Rightarrow> PostgresBind \<Rightarrow> manifest_error option" where
  "validatePostgres m bind =
     (if pb_Cluster bind = [] \<or> pb_Database bind = [] then Some IncompleteBinding
      else checkTier m (''postgres binding '' @ pb_Cluster bind @ ''/'' @ pb_Database bind) (pb_Tier bind))"

definition validateDeclarations :: "Manifest \<Rightarrow> manifest_error option" where
  "validateDeclarations m =
     first_error
       (map (validateApp m) (man_Apps m)
        @ [case man_Kafka m of None \<Rightarrow> None | Some k \<Rightarrow> checkItems m ''kafka topic'' (ks_Topics k),
           case man_Harbor m of None \<Rightarrow> None | Some h \<Rightarrow> checkItems m ''harbor robot'' (hs_Robots h)]
        @ map (validatePostgres m) (man_Postgres m))"

definition man_validate :: "Manifest \<Rightarrow> manifest_error option" where
  "man_validate m =
     (if \<not> valid_name (man_Team m) then Some (BadTeam (man_Team m))
      else if \<not> valid_name (man_Owns m) then Some (BadOwns (man_Owns m))
      else if \<not> tier_valid (man_Tier m) then Some (BadTier ''manifest'' (man_Tier m))
      else (case validateDeclarations m of Some e \<Rightarrow> Some e | None \<Rightarrow> validateLabels m))"

definition ParseManifest :: "Manifest \<Rightarrow> manifest_error + Manifest" where
  "ParseManifest decoded =
     (let m = (if man_Tier decoded = [] then decoded\<lparr>man_Tier := TierDev\<rparr> else decoded)
      in case man_validate m of Some e \<Rightarrow> Inl e | None \<Rightarrow> Inr m)"

definition tierOf :: "Manifest \<Rightarrow> Item \<Rightarrow> Tier" where
  "tierOf m item = (if it_Tier item \<noteq> [] then it_Tier item else man_Tier m)"

section \<open>What validation guarantees\<close>

lemma tier_valid_tiers: "tier_valid t \<longleftrightarrow> t \<in> set tiers"
  by (simp add: tier_valid_def tiers_def)

text \<open>The two rankings of the code, \<open>rank\<close> and \<open>Strength\<close>, order the valid tiers alike.\<close>

lemma rank_Strength: "tier_valid t \<Longrightarrow> tier_Strength t = tier_rank t + 1"
  by (auto simp: tier_valid_def tier_rank_def tier_Strength_def tier_names)

lemma checkTier_None:
  "checkTier m what tier = None \<longleftrightarrow> tier = [] \<or> tier_valid tier \<and> tier_rank (man_Tier m) \<le> tier_rank tier"
  by (auto simp: checkTier_def)

lemma checkItem_None:
  "checkItem m what item = None \<longleftrightarrow> valid_name (it_Name item) \<and> checkTier m what (it_Tier item) = None"
  by (auto simp: checkItem_def checkTier_def)

lemma validateLabelValue_None:
  "validateLabelValue what key v = None \<longleftrightarrow> v \<noteq> [] \<and> rune_count v \<le> 128 \<and> (\<forall>c\<in>set v. \<not> control c)"
  by (auto simp: validateLabelValue_def maxLabelValue_def list_ex_iff)

lemma labels_validate_None:
  "labels_validate what l = None \<longleftrightarrow>
     (\<forall>key\<in>set (keys l). valid_name key \<and> \<not> governsFieldNamed key \<and>
        (\<exists>v. map_of l key = Some v \<and> v \<noteq> [] \<and> rune_count v \<le> 128 \<and> (\<forall>c\<in>set v. \<not> control c)))"
proof -
  have "validateLabel what l key = None \<longleftrightarrow> valid_name key \<and> \<not> governsFieldNamed key \<and>
      (\<exists>v. map_of l key = Some v \<and> v \<noteq> [] \<and> rune_count v \<le> 128 \<and> (\<forall>c\<in>set v. \<not> control c))" for key
    by (auto simp: validateLabel_def validateLabelValue_None split: option.splits)
  then show ?thesis by (simp add: labels_validate_def first_error_None label_keys_def)
qed

lemma man_validate_None:
  assumes "man_validate m = None"
  shows "valid_name (man_Team m)" "valid_name (man_Owns m)" "tier_valid (man_Tier m)"
    "app \<in> set (man_Apps m) \<Longrightarrow> validateApp m app = None"
    "app \<in> set (man_Apps m) \<Longrightarrow> validateAppLabels m app = None"
    "man_Kafka m = Some k \<Longrightarrow> topic \<in> set (ks_Topics k) \<Longrightarrow> checkItem m ''kafka topic'' topic = None"
    "man_Harbor m = Some h \<Longrightarrow> robot \<in> set (hs_Robots h) \<Longrightarrow> checkItem m ''harbor robot'' robot = None"
    "bind \<in> set (man_Postgres m) \<Longrightarrow> validatePostgres m bind = None"
    "labels_validate (''team '' @ man_Team m) (man_Labels m) = None"
  using assms
  by (auto simp: man_validate_def validateDeclarations_def validateLabels_def checkItems_def first_error_None
      simp del: first_error.simps split: if_splits option.splits)

lemma validateApp_None:
  assumes "validateApp m app = None"
  shows "valid_name (app_Name app)" "valid_name (app_Runtime app)" "app_Image app \<noteq> []"
    "CHR '':'' \<notin> set (app_Image app)" "CHR ''@'' \<notin> set (app_Image app)"
    "app_Tier app = [] \<or> tier_valid (app_Tier app) \<and> tier_rank (man_Tier m) \<le> tier_rank (app_Tier app)"
    "plc_Env (app_Placement app) \<noteq> []" "plc_Residency (app_Placement app) \<noteq> []"
  using assms by (auto simp: validateApp_def validatePlacement_def checkTier_None split: if_splits option.splits)

lemma validateAppLabels_None:
  assumes "validateAppLabels m app = None"
  shows "labels_validate (''app '' @ app_Name app) (app_Labels app) = None"
    "set (keys (app_Labels app)) \<inter> set (keys (man_Labels m)) = {}"
  using assms
  by (auto simp: validateAppLabels_def Let_def first_error_None label_keys_def map_of_None_keys simp del: first_error.simps)

lemma tierOf_valid:
  assumes "checkItem m what item = None" and "tier_valid (man_Tier m)"
  shows "tier_valid (tierOf m item) \<and> tier_rank (man_Tier m) \<le> tier_rank (tierOf m item)"
  using assms by (auto simp: checkItem_None checkTier_None tierOf_def)

lemma labelsFor_lookup:
  assumes "wf_map (man_Labels m)" and "wf_map (app_Labels app)"
    and "set (keys (app_Labels app)) \<inter> set (keys (man_Labels m)) = {}"
  shows "map_of (labelsFor m app) key =
    (case map_of (man_Labels m) key of Some v \<Rightarrow> Some v | None \<Rightarrow> map_of (app_Labels app) key)"
proof (cases "map_of (man_Labels m) key")
  case None
  then show ?thesis using assms by (simp add: labelsFor_def gmerge_wf split: option.splits)
next
  case (Some v)
  then have "key \<in> set (keys (man_Labels m))" by (metis map_of_None_keys option.distinct(1))
  then have "map_of (app_Labels app) key = None" using assms(3) map_of_None_keys by blast
  with Some show ?thesis using assms by (simp add: labelsFor_def gmerge_wf)
qed

lemma ParseManifest_Inr:
  assumes "ParseManifest decoded = Inr m"
  shows "man_validate m = None" "m = decoded \<or> m = decoded\<lparr>man_Tier := TierDev\<rparr> \<and> man_Tier decoded = []"
  using assms by (auto simp: ParseManifest_def Let_def split: option.splits if_splits)

definition sample_app :: App where
  "sample_app = \<lparr>app_Name = ''checkout'', app_Runtime = ''enterprise'', app_Image = ''harbor/payments/checkout'',
     app_Placement = sample_claim, app_Tier = [], app_Labels = [(''surface'', ''beta'')]\<rparr>"

definition sample_manifest :: Manifest where
  "sample_manifest = \<lparr>man_Team = ''payments'', man_Owns = ''payments'', man_Tier = [], man_Classification = [],
     man_Apps = [sample_app],
     man_Kafka = Some \<lparr>ks_Cluster = ''k1'', ks_Topics = [\<lparr>it_Name = ''orders'', it_Tier = ''prod''\<rparr>], ks_ConsumesFrom = []\<rparr>,
     man_Postgres = [], man_Harbor = None, man_Labels = [(''stream'', ''alpha'')]\<rparr>"

lemma sample_manifest_parses: "\<exists>m. ParseManifest sample_manifest = Inr m"
proof -
  have "case ParseManifest sample_manifest of Inl e \<Rightarrow> False | Inr m \<Rightarrow> True" by code_simp
  then show ?thesis by (cases "ParseManifest sample_manifest") auto
qed

section \<open>Properties\<close>

text \<open>An item of a manifest may raise its consequence and never lower it. In every manifest that parses, each
  topic, each robot, each application and each database binding is at the manifest's tier or above, and each of
  those tiers is one the engine knows; an undeclared tier is the playground; every application names an environment
  and a residency, and an image without a tag or a digest.\<close>

theorem ParseManifest_only_raises:
  assumes "ParseManifest decoded = Inr m"
  shows "tier_valid (man_Tier m) \<and> (man_Tier decoded = [] \<longrightarrow> man_Tier m = TierDev) \<and>
    (\<forall>k topic. man_Kafka m = Some k \<and> topic \<in> set (ks_Topics k) \<longrightarrow>
       tier_valid (tierOf m topic) \<and> tier_rank (man_Tier m) \<le> tier_rank (tierOf m topic)) \<and>
    (\<forall>h robot. man_Harbor m = Some h \<and> robot \<in> set (hs_Robots h) \<longrightarrow>
       tier_valid (tierOf m robot) \<and> tier_rank (man_Tier m) \<le> tier_rank (tierOf m robot)) \<and>
    (\<forall>b\<in>set (man_Postgres m). pb_Tier b = [] \<or> tier_valid (pb_Tier b) \<and> tier_rank (man_Tier m) \<le> tier_rank (pb_Tier b)) \<and>
    (\<forall>a\<in>set (man_Apps m).
       (app_Tier a = [] \<or> tier_valid (app_Tier a) \<and> tier_rank (man_Tier m) \<le> tier_rank (app_Tier a)) \<and>
       plc_Env (app_Placement a) \<noteq> [] \<and> plc_Residency (app_Placement a) \<noteq> [] \<and>
       app_Image a \<noteq> [] \<and> CHR '':'' \<notin> set (app_Image a) \<and> CHR ''@'' \<notin> set (app_Image a))"
proof -
  note v = man_validate_None [OF ParseManifest_Inr(1) [OF assms]]
  have b: "pb_Tier b = [] \<or> tier_valid (pb_Tier b) \<and> tier_rank (man_Tier m) \<le> tier_rank (pb_Tier b)"
    if "b \<in> set (man_Postgres m)" for b
    using v(8) [OF that] by (auto simp: validatePostgres_def checkTier_None split: if_splits)
  show ?thesis
  proof (intro conjI allI impI ballI)
    show "man_Tier m = TierDev" if "man_Tier decoded = []"
      using assms that by (auto simp: ParseManifest_def Let_def split: option.splits)
  qed (use v(3) b validateApp_None [OF v(4)] tierOf_valid [OF v(6) v(3)] tierOf_valid [OF v(7) v(3)] in blast)+
qed

theorem ParseManifest_only_raises_witness:
  "\<exists>m k. ParseManifest sample_manifest = Inr m \<and> man_Tier m = TierDev \<and> man_Kafka m = Some k \<and>
     tier_valid (tierOf m \<lparr>it_Name = ''orders'', it_Tier = ''prod''\<rparr>)"
proof -
  obtain m where m: "ParseManifest sample_manifest = Inr m" using sample_manifest_parses by blast
  have k: "\<exists>k. man_Kafka m = Some k \<and> \<lparr>it_Name = ''orders'', it_Tier = ''prod''\<rparr> \<in> set (ks_Topics k)"
    using ParseManifest_Inr(2) [OF m] by (auto simp: sample_manifest_def)
  have "man_Tier sample_manifest = []" by (simp add: sample_manifest_def)
  with m k ParseManifest_only_raises [OF m] show ?thesis by blast
qed

text \<open>A label describes and never decides. In every manifest that parses, no label of an application carries the
  name of a field the engine governs, in any case of letters; its value is one printable line of at most 128
  characters; and an application's label never restates its team's: on every key the team declared, the
  application is reported under the team's value.\<close>

theorem labels_never_shadow:
  assumes "ParseManifest decoded = Inr m" and "a \<in> set (man_Apps m)"
    and "wf_map (man_Labels m)" and "wf_map (app_Labels a)"
  shows "\<forall>key v. map_of (labelsFor m a) key = Some v \<longrightarrow>
      map to_lower key \<notin> set governedFieldNames \<and> v \<noteq> [] \<and> rune_count v \<le> 128 \<and> (\<forall>c\<in>set v. \<not> control c) \<and>
      (\<forall>tv. map_of (man_Labels m) key = Some tv \<longrightarrow> v = tv)"
proof (intro allI impI)
  fix key v
  assume l: "map_of (labelsFor m a) key = Some v"
  note v = man_validate_None [OF ParseManifest_Inr(1) [OF assms(1)]]
  note a = validateAppLabels_None [OF v(5) [OF assms(2)]]
  have look: "map_of (labelsFor m a) key =
      (case map_of (man_Labels m) key of Some v \<Rightarrow> Some v | None \<Rightarrow> map_of (app_Labels a) key)"
    by (rule labelsFor_lookup [OF assms(3,4) a(2)])
  have keys: "map_of ls key = Some v \<Longrightarrow> key \<in> set (keys ls)" for ls :: Labels
    by (metis map_of_None_keys option.distinct(1))
  have "\<exists>what ls. labels_validate what ls = None \<and> map_of ls key = Some v"
    using l look a(1) v(9) by (cases "map_of (man_Labels m) key") auto
  then show "map to_lower key \<notin> set governedFieldNames \<and> v \<noteq> [] \<and> rune_count v \<le> 128 \<and> (\<forall>c\<in>set v. \<not> control c) \<and>
      (\<forall>tv. map_of (man_Labels m) key = Some tv \<longrightarrow> v = tv)"
    using keys l look by (fastforce simp: labels_validate_None governsFieldNamed_def)
qed

theorem labels_never_shadow_witness:
  "\<exists>m. ParseManifest sample_manifest = Inr m \<and> map_of (labelsFor m sample_app) ''surface'' = Some ''beta'' \<and>
     map to_lower ''surface'' \<notin> set governedFieldNames"
proof -
  obtain m where m: "ParseManifest sample_manifest = Inr m" using sample_manifest_parses by blast
  have f: "sample_app \<in> set (man_Apps m)" "man_Labels m = [(''stream'', ''alpha'')]" "wf_map (man_Labels m)"
    "wf_map (app_Labels sample_app)"
    using ParseManifest_Inr(2) [OF m] by (auto simp: sample_manifest_def sample_app_def)
  have "map_of (labelsFor m sample_app) ''surface'' = Some ''beta''"
    by (simp add: labelsFor_def f(2) gmerge_def sample_app_def)
  with m labels_never_shadow [OF m f(1,3,4)] show ?thesis by blast
qed

end
