(* ===== verification/Estate_Resolve.thy ===== *)
theory Estate_Resolve
  imports Estate_Manifest
begin

text \<open>
  A manifest with the floor applied: \<open>resolve.go\<close> and \<open>slot.go\<close> of \<open>mantlekeep-estate\<close>. The limits an item carries,
  \<open>any\<close> in the code, are the datatype \<open>limits\<close> of the types the code stores there. A nil placer is \<open>None\<close>; the
  map of where applications already run answers the empty string for an application it does not hold. The lemmas
  show that every resolved change is gated and limited by the floor at a tier the manifest cannot lower, with the
  exception the last theorem states.
\<close>

section \<open>Slots and resolved changes\<close>

record Slot =
  sl_Cluster :: string
  sl_Namespace :: string
  sl_Name :: string

definition slot_Key :: "Slot \<Rightarrow> string" where
  "slot_Key s = sl_Cluster s @ ''/'' @ sl_Namespace s @ ''/'' @ sl_Name s"

definition slot_Empty :: "Slot \<Rightarrow> bool" where
  "slot_Empty s \<longleftrightarrow> sl_Cluster s = [] \<and> sl_Namespace s = [] \<and> sl_Name s = []"

definition zero_Slot :: Slot where
  "zero_Slot = \<lparr>sl_Cluster = [], sl_Namespace = [], sl_Name = []\<rparr>"

datatype limits =
    NoLimits
  | LKafka KafkaLimits
  | LPostgres PostgresLimits
  | LHarbor HarborLimits
  | LApp AppLimits
  | LNodePool NodePoolLimits
  | LControlPlane "string list"

record DesiredItem =
  di_Asset :: string
  di_Kind :: string
  di_Name :: string
  di_Team :: string
  di_Tier :: Tier
  di_Gate :: Gate
  di_Cluster :: string
  di_Slot :: Slot
  di_Limits :: limits
  di_Readers :: "string list"
  di_Image :: string
  di_Runtime :: string
  di_Digest :: string
  di_Placement :: "PlacementDecision option"
  di_State :: "string gomap"
  di_Labels :: Labels

record Desired =
  des_Team :: string
  des_Owns :: string
  des_Changes :: "DesiredItem list"

definition zero_DesiredItem :: DesiredItem where
  "zero_DesiredItem = \<lparr>di_Asset = [], di_Kind = [], di_Name = [], di_Team = [], di_Tier = [], di_Gate = [],
     di_Cluster = [], di_Slot = zero_Slot, di_Limits = NoLimits, di_Readers = [], di_Image = [], di_Runtime = [],
     di_Digest = [], di_Placement = None, di_State = [], di_Labels = []\<rparr>"

datatype resolve_error =
    NoFloorFor string Tier \<comment> \<open>asset, tier\<close>
  | RuntimeNotConfigured Runtime
  | EnvironmentNotRuled string string \<comment> \<open>app, environment\<close>
  | NoFleet string
  | PlacementRefused string placement_error
  | PlacedElsewhere string string string string \<comment> \<open>app, declared environment, actual environment, cluster\<close>
  | NamespaceRefused string string namespace_error

section \<open>Resolution\<close>

definition orTier :: "Tier \<Rightarrow> Tier \<Rightarrow> Tier" where
  "orTier declared fallback = (if declared \<noteq> [] then declared else fallback)"

definition orName :: "string \<Rightarrow> string \<Rightarrow> string" where
  "orName declared fallback = (if declared \<noteq> [] then declared else fallback)"

text \<open>A loop that appends one result per element, or returns the first error.\<close>

fun collect :: "('a \<Rightarrow> 'e + 'b) \<Rightarrow> 'a list \<Rightarrow> 'e + 'b list" where
  "collect f [] = Inr []"
| "collect f (x # xs) =
     (case f x of Inl e \<Rightarrow> Inl e | Inr y \<Rightarrow> (case collect f xs of Inl e \<Rightarrow> Inl e | Inr ys \<Rightarrow> Inr (y # ys)))"

definition resolveTopic :: "Manifest \<Rightarrow> Floor \<Rightarrow> KafkaSection \<Rightarrow> Item \<Rightarrow> resolve_error + DesiredItem" where
  "resolveTopic m f k topic =
     (let tier = tierOf m topic
      in case map_of (fl_Kafka f) tier of
           None \<Rightarrow> Inl (NoFloorFor ''kafka'' tier)
         | Some l \<Rightarrow> Inr (zero_DesiredItem\<lparr>di_Asset := ''kafka'', di_Kind := ''topic'',
             di_Name := man_Owns m @ ''.'' @ it_Name topic, di_Tier := tier, di_Gate := GateFor f tier,
             di_Cluster := ks_Cluster k, di_Limits := LKafka l, di_Labels := labels_clone (man_Labels m)\<rparr>))"

definition resolveKafka :: "Manifest \<Rightarrow> Floor \<Rightarrow> resolve_error + DesiredItem list" where
  "resolveKafka m f =
     (case man_Kafka m of
        None \<Rightarrow> Inr []
      | Some k \<Rightarrow>
          (case map_of (fl_Kafka f) (man_Tier m) of
             None \<Rightarrow> Inl (NoFloorFor ''kafka'' (man_Tier m))
           | Some l \<Rightarrow>
               (let boundary = zero_DesiredItem\<lparr>di_Asset := ''kafka'', di_Kind := ''boundary'',
                      di_Name := man_Owns m @ ''.'', di_Tier := man_Tier m, di_Gate := GateFor f (man_Tier m),
                      di_Cluster := ks_Cluster k, di_Limits := LKafka l, di_Labels := labels_clone (man_Labels m)\<rparr>
                in case collect (resolveTopic m f k) (ks_Topics k) of
                     Inl e \<Rightarrow> Inl e | Inr topics \<Rightarrow> Inr (boundary # topics))))"

definition resolveBinding :: "Manifest \<Rightarrow> Floor \<Rightarrow> PostgresBind \<Rightarrow> resolve_error + DesiredItem" where
  "resolveBinding m f b =
     (let tier = orTier (pb_Tier b) (man_Tier m)
      in case map_of (fl_Postgres f) tier of
           None \<Rightarrow> Inl (NoFloorFor ''postgres'' tier)
         | Some l \<Rightarrow> Inr (zero_DesiredItem\<lparr>di_Asset := ''postgres'', di_Kind := ''schema'',
             di_Name := pb_Database b @ ''.'' @ orName (pb_Schema b) (man_Owns m), di_Tier := tier,
             di_Gate := GateFor f tier, di_Cluster := pb_Cluster b, di_Limits := LPostgres l,
             di_Readers := pb_Readers b, di_Labels := labels_clone (man_Labels m)\<rparr>))"

definition resolvePostgres :: "Manifest \<Rightarrow> Floor \<Rightarrow> resolve_error + DesiredItem list" where
  "resolvePostgres m f = collect (resolveBinding m f) (man_Postgres m)"

definition resolveRobot :: "Manifest \<Rightarrow> Floor \<Rightarrow> string \<Rightarrow> Item \<Rightarrow> resolve_error + DesiredItem" where
  "resolveRobot m f project robot =
     (let tier = tierOf m robot
      in case map_of (fl_Harbor f) tier of
           None \<Rightarrow> Inl (NoFloorFor ''harbor'' tier)
         | Some l \<Rightarrow> Inr (zero_DesiredItem\<lparr>di_Asset := ''harbor'', di_Kind := ''robot'',
             di_Name := project @ ''/'' @ it_Name robot, di_Tier := tier, di_Gate := GateFor f tier,
             di_Limits := LHarbor l, di_Labels := labels_clone (man_Labels m)\<rparr>))"

definition resolveHarbor :: "Manifest \<Rightarrow> Floor \<Rightarrow> resolve_error + DesiredItem list" where
  "resolveHarbor m f =
     (case man_Harbor m of
        None \<Rightarrow> Inr []
      | Some h \<Rightarrow>
          (let tier = orTier (hs_Tier h) (man_Tier m)
           in case map_of (fl_Harbor f) tier of
                None \<Rightarrow> Inl (NoFloorFor ''harbor'' tier)
              | Some l \<Rightarrow>
                  (let project = orName (hs_Project h) (man_Owns m);
                       item = zero_DesiredItem\<lparr>di_Asset := ''harbor'', di_Kind := ''project'', di_Name := project,
                         di_Tier := tier, di_Gate := GateFor f tier, di_Limits := LHarbor l,
                         di_Labels := labels_clone (man_Labels m)\<rparr>
                   in case collect (resolveRobot m f project) (hs_Robots h) of
                        Inl e \<Rightarrow> Inl e | Inr robots \<Rightarrow> Inr (item # robots))))"

definition appFloor :: "Manifest \<Rightarrow> Floor \<Rightarrow> App \<Rightarrow> resolve_error + Tier \<times> AppLimits" where
  "appFloor m f app =
     (case map_of (fl_App f) (app_Runtime app) of
        None \<Rightarrow> Inl (RuntimeNotConfigured (app_Runtime app))
      | Some byTier \<Rightarrow>
          (case MinTierFor f (plc_Env (app_Placement app)) of
             None \<Rightarrow> Inl (EnvironmentNotRuled (app_Name app) (plc_Env (app_Placement app)))
           | Some minimum \<Rightarrow>
               (let tier = AtLeast (orTier (app_Tier app) (man_Tier m)) minimum
                in case map_of byTier tier of
                     None \<Rightarrow> Inl (NoFloorFor (app_Runtime app) tier)
                   | Some l \<Rightarrow> Inr (tier, l))))"

definition placeApp :: "App \<Rightarrow> Placer option \<Rightarrow> string \<Rightarrow> string list \<Rightarrow> resolve_error + PlacementDecision" where
  "placeApp app placer sticky plans =
     (case placer of
        None \<Rightarrow> Inl (NoFleet (app_Name app))
      | Some p \<Rightarrow>
          (case PlaceWith p (app_Placement app) sticky plans of
             Inl e \<Rightarrow> Inl (PlacementRefused (app_Name app) e)
           | Inr d \<Rightarrow>
               if dcs_Env d \<noteq> [] \<and> dcs_Env d \<noteq> plc_Env (app_Placement app)
               then Inl (PlacedElsewhere (app_Name app) (plc_Env (app_Placement app)) (dcs_Env d) (dcs_Cluster d))
               else Inr d))"

definition resolveApp :: "Manifest \<Rightarrow> Floor \<Rightarrow> Placer option \<Rightarrow> string gomap \<Rightarrow> App \<Rightarrow> resolve_error + DesiredItem" where
  "resolveApp m f placer placed app =
     (case appFloor m f app of
        Inl e \<Rightarrow> Inl e
      | Inr (tier, l) \<Rightarrow>
          (let qualified = man_Team m @ ''/'' @ app_Name app;
               sticky = (case map_of placed (app_Name app) of Some c \<Rightarrow> c | None \<Rightarrow> [])
           in case placeApp app placer sticky (PreferredClustersFor f qualified) of
                Inl e \<Rightarrow> Inl e
              | Inr d \<Rightarrow>
                  (case Render (case placer of Some p \<Rightarrow> namespaceOf p (dcs_Cluster d) | None \<Rightarrow> []) (man_Owns m) (dcs_Env d) of
                     Inl e \<Rightarrow> Inl (NamespaceRefused (app_Name app) (dcs_Cluster d) e)
                   | Inr ns \<Rightarrow>
                       (let deployment = man_Owns m @ ''-'' @ app_Name app
                        in Inr (zero_DesiredItem\<lparr>di_Asset := ''app'', di_Kind := ''deployment'', di_Name := deployment,
                             di_Tier := tier, di_Team := man_Team m, di_Gate := GateForApp f tier qualified,
                             di_Cluster := dcs_Cluster d, di_Limits := LApp l, di_Image := app_Image app,
                             di_Runtime := app_Runtime app,
                             di_Slot := \<lparr>sl_Cluster = dcs_Cluster d, sl_Namespace = ns, sl_Name = deployment\<rparr>,
                             di_Placement := Some d, di_Labels := labelsFor m app\<rparr>)))))"

definition resolveApps :: "Manifest \<Rightarrow> Floor \<Rightarrow> Placer option \<Rightarrow> string gomap \<Rightarrow> resolve_error + DesiredItem list" where
  "resolveApps m f placer placed = collect (resolveApp m f placer placed) (man_Apps m)"

definition ResolveWith :: "Manifest \<Rightarrow> Floor \<Rightarrow> Placer option \<Rightarrow> string gomap \<Rightarrow> resolve_error + Desired" where
  "ResolveWith m f placer placed =
     (case collect (\<lambda>section. section m f) [resolveKafka, resolvePostgres, resolveHarbor] of
        Inl e \<Rightarrow> Inl e
      | Inr sections \<Rightarrow>
          (case resolveApps m f placer placed of
             Inl e \<Rightarrow> Inl e
           | Inr apps \<Rightarrow> Inr \<lparr>des_Team = man_Team m, des_Owns = man_Owns m, des_Changes = concat sections @ apps\<rparr>))"

definition est_Resolve :: "Manifest \<Rightarrow> Floor \<Rightarrow> resolve_error + Desired" where
  "est_Resolve m f = ResolveWith m f None []"

definition NeedsGate :: "Desired \<Rightarrow> bool" where
  "NeedsGate d \<longleftrightarrow> list_ex (\<lambda>c. di_Gate c \<noteq> GateNone) (des_Changes d)"

section \<open>Promotions\<close>

record Promotion =
  prm_Team :: string
  prm_App :: string
  prm_Repository :: string
  prm_Digest :: string
  prm_To :: Slot
  prm_Tier :: Tier

datatype promotion_error =
    NoTeamOrApp
  | NoRepository
  | RepositoryCarriesTag string
  | NoTargetSlot
  | NotADigest string
  | BadPromotionTier Tier
  | PromotionRuntime Runtime
  | PromotionFloor Runtime Tier

definition promotion_Validate :: "Promotion \<Rightarrow> promotion_error option" where
  "promotion_Validate p =
     (if prm_Team p = [] \<or> prm_App p = [] then Some NoTeamOrApp
      else if prm_Repository p = [] then Some NoRepository
      else if CHR '':'' \<in> set (prm_Repository p) \<or> CHR ''@'' \<in> set (prm_Repository p)
      then Some (RepositoryCarriesTag (prm_Repository p))
      else if sl_Cluster (prm_To p) = [] \<or> sl_Name (prm_To p) = [] then Some NoTargetSlot
      else if \<not> HasPrefix (prm_Digest p) ''sha256:'' then Some (NotADigest (prm_Digest p))
      else if \<not> tier_valid (prm_Tier p) then Some (BadPromotionTier (prm_Tier p))
      else None)"

definition promotion_AsChange :: "Promotion \<Rightarrow> Floor \<Rightarrow> Runtime \<Rightarrow> promotion_error + DesiredItem" where
  "promotion_AsChange p f runtime =
     (case promotion_Validate p of
        Some e \<Rightarrow> Inl e
      | None \<Rightarrow>
          (case map_of (fl_App f) runtime of
             None \<Rightarrow> Inl (PromotionRuntime runtime)
           | Some byTier \<Rightarrow>
               (case map_of byTier (prm_Tier p) of
                  None \<Rightarrow> Inl (PromotionFloor runtime (prm_Tier p))
                | Some l \<Rightarrow> Inr (zero_DesiredItem\<lparr>di_Asset := ''app'', di_Kind := ''deployment'',
                    di_Name := sl_Name (prm_To p), di_Slot := prm_To p, di_Tier := prm_Tier p,
                    di_Gate := GateFor f (prm_Tier p), di_Cluster := sl_Cluster (prm_To p), di_Limits := LApp l,
                    di_Image := prm_Repository p, di_Digest := prm_Digest p, di_Runtime := runtime\<rparr>))))"

section \<open>What a resolved change carries\<close>

lemma collect_Inr: "collect f xs = Inr ys \<longleftrightarrow> list_all2 (\<lambda>x y. f x = Inr y) xs ys"
proof (induction xs arbitrary: ys)
  case (Cons x xs)
  show ?case
  proof (cases ys)
    case Nil
    then show ?thesis by (auto split: sum.splits)
  next
    case (Cons y ys')
    then show ?thesis using Cons.IH [of ys'] by (auto split: sum.splits)
  qed
qed auto

lemma collect_member:
  assumes "collect f xs = Inr ys" and "y \<in> set ys"
  shows "\<exists>x\<in>set xs. f x = Inr y"
  using assms by (induction xs arbitrary: ys) (auto split: sum.splits)

lemma collect_total: "(\<And>x. x \<in> set xs \<Longrightarrow> \<exists>y. f x = Inr y) \<Longrightarrow> \<exists>ys. collect f xs = Inr ys"
proof (induction xs)
  case (Cons x xs)
  then obtain y ys where "f x = Inr y" "collect f xs = Inr ys" by fastforce
  then show ?case by simp
qed simp

lemma collect_map:
  assumes "collect f xs = Inr ys" and "\<And>x y. x \<in> set xs \<Longrightarrow> f x = Inr y \<Longrightarrow> g y = h x"
  shows "map g ys = map h xs"
  using assms(1) unfolding collect_Inr
  by (intro nth_equalityI) (auto simp: list_all2_conv_all_nth assms(2))

text \<open>The floor's limits for the change's own tier, and a gate at least the floor's for that tier.\<close>

definition floored :: "Floor \<Rightarrow> DesiredItem \<Rightarrow> bool" where
  "floored f c \<longleftrightarrow> gate_Strength (GateFor f (di_Tier c)) \<le> gate_Strength (di_Gate c) \<and>
     (case di_Limits c of
        LKafka l \<Rightarrow> di_Asset c = ''kafka'' \<and> map_of (fl_Kafka f) (di_Tier c) = Some l
      | LPostgres l \<Rightarrow> di_Asset c = ''postgres'' \<and> map_of (fl_Postgres f) (di_Tier c) = Some l
      | LHarbor l \<Rightarrow> di_Asset c = ''harbor'' \<and> map_of (fl_Harbor f) (di_Tier c) = Some l
      | LApp l \<Rightarrow> di_Asset c = ''app'' \<and>
          (case map_of (fl_App f) (di_Runtime c) of Some byTier \<Rightarrow> map_of byTier (di_Tier c) = Some l | None \<Rightarrow> False)
      | _ \<Rightarrow> False)"

text \<open>The tier of a change is one the engine knows and not below the manifest's.\<close>

definition at_least_manifest :: "Manifest \<Rightarrow> Tier \<Rightarrow> bool" where
  "at_least_manifest m tier \<longleftrightarrow> tier_valid tier \<and> tier_rank (man_Tier m) \<le> tier_rank tier"

lemma resolveTopic_Inr:
  assumes "resolveTopic m f k topic = Inr c"
  shows "floored f c" "di_Tier c = tierOf m topic" "di_Name c = man_Owns m @ ''.'' @ it_Name topic" "di_Asset c = ''kafka''"
  using assms by (auto simp: resolveTopic_def Let_def floored_def zero_DesiredItem_def split: option.splits)

lemma resolveRobot_Inr:
  assumes "resolveRobot m f project robot = Inr c"
  shows "floored f c" "di_Tier c = tierOf m robot" "di_Name c = project @ ''/'' @ it_Name robot" "di_Asset c = ''harbor''"
  using assms by (auto simp: resolveRobot_def Let_def floored_def zero_DesiredItem_def split: option.splits)

lemma resolveBinding_Inr:
  assumes "resolveBinding m f b = Inr c"
  shows "floored f c" "di_Tier c = orTier (pb_Tier b) (man_Tier m)"
    "di_Name c = pb_Database b @ ''.'' @ orName (pb_Schema b) (man_Owns m)" "di_Asset c = ''postgres''"
    "di_Readers c = pb_Readers b"
  using assms by (auto simp: resolveBinding_def Let_def floored_def zero_DesiredItem_def split: option.splits)

lemma resolveKafka_Inr:
  assumes "resolveKafka m f = Inr cs" and "man_Kafka m = Some k"
  shows "\<exists>boundary topics. cs = boundary # topics \<and> collect (resolveTopic m f k) (ks_Topics k) = Inr topics \<and>
     floored f boundary \<and> di_Tier boundary = man_Tier m \<and> di_Name boundary = man_Owns m @ ''.'' \<and> di_Asset boundary = ''kafka''"
  using assms by (auto simp: resolveKafka_def Let_def floored_def zero_DesiredItem_def split: option.splits sum.splits)

lemma resolveHarbor_Inr:
  assumes "resolveHarbor m f = Inr cs" and "man_Harbor m = Some h"
  shows "\<exists>project robots. cs = project # robots \<and>
     collect (resolveRobot m f (orName (hs_Project h) (man_Owns m))) (hs_Robots h) = Inr robots \<and>
     floored f project \<and> di_Tier project = orTier (hs_Tier h) (man_Tier m) \<and>
     di_Name project = orName (hs_Project h) (man_Owns m) \<and> di_Asset project = ''harbor''"
  using assms by (auto simp: resolveHarbor_def Let_def floored_def zero_DesiredItem_def split: option.splits sum.splits)

lemma appFloor_Inr:
  assumes "appFloor m f app = Inr (tier, l)"
  shows "\<exists>byTier minimum. map_of (fl_App f) (app_Runtime app) = Some byTier \<and> map_of byTier tier = Some l \<and>
     MinTierFor f (plc_Env (app_Placement app)) = Some minimum \<and>
     tier = AtLeast (orTier (app_Tier app) (man_Tier m)) minimum"
  using assms by (auto simp: appFloor_def Let_def split: option.splits)

lemma placeApp_Inr:
  assumes "placeApp app placer sticky plans = Inr d"
  shows "\<exists>p. placer = Some p \<and> PlaceWith p (app_Placement app) sticky plans = Inr d \<and>
     (dcs_Env d = [] \<or> dcs_Env d = plc_Env (app_Placement app))"
  using assms by (auto simp: placeApp_def split: option.splits sum.splits if_splits)

text \<open>The namespace and deployment name an application runs under.\<close>

lemma resolveApp_Inr:
  assumes "resolveApp m f placer placed app = Inr c"
  shows "\<exists>p tier l d ns. placer = Some p \<and> appFloor m f app = Inr (tier, l) \<and>
     placeApp app placer (case map_of placed (app_Name app) of Some s \<Rightarrow> s | None \<Rightarrow> [])
       (PreferredClustersFor f (man_Team m @ ''/'' @ app_Name app)) = Inr d \<and>
     Render (namespaceOf p (dcs_Cluster d)) (man_Owns m) (dcs_Env d) = Inr ns \<and>
     di_Asset c = ''app'' \<and> di_Tier c = tier \<and> di_Limits c = LApp l \<and> di_Runtime c = app_Runtime app \<and>
     di_Gate c = GateForApp f tier (man_Team m @ ''/'' @ app_Name app) \<and> di_Placement c = Some d \<and>
     di_Name c = man_Owns m @ ''-'' @ app_Name app \<and> di_Cluster c = dcs_Cluster d \<and> di_Image c = app_Image app \<and>
     di_Slot c = \<lparr>sl_Cluster = dcs_Cluster d, sl_Namespace = ns, sl_Name = di_Name c\<rparr> \<and> di_Labels c = labelsFor m app"
proof -
  obtain tier l where a: "appFloor m f app = Inr (tier, l)"
    using assms by (auto simp: resolveApp_def split: sum.splits)
  obtain d where d: "placeApp app placer (case map_of placed (app_Name app) of Some s \<Rightarrow> s | None \<Rightarrow> [])
       (PreferredClustersFor f (man_Team m @ ''/'' @ app_Name app)) = Inr d"
    using assms a by (auto simp: resolveApp_def Let_def split: sum.splits)
  obtain p where p: "placer = Some p" using placeApp_Inr [OF d] by blast
  obtain ns where ns: "Render (namespaceOf p (dcs_Cluster d)) (man_Owns m) (dcs_Env d) = Inr ns"
    using assms a d p by (auto simp: resolveApp_def Let_def split: sum.splits)
  show ?thesis using assms a d ns by (auto simp: p resolveApp_def Let_def zero_DesiredItem_def)
qed

lemma resolveApp_floored: "resolveApp m f placer placed app = Inr c \<Longrightarrow> floored f c"
  using GateForApp_raises
  by (fastforce dest!: resolveApp_Inr appFloor_Inr simp: floored_def)

lemma ResolveWith_Inr:
  assumes "ResolveWith m f placer placed = Inr d"
  shows "\<exists>ks ps hs apps. resolveKafka m f = Inr ks \<and> resolvePostgres m f = Inr ps \<and> resolveHarbor m f = Inr hs \<and>
     resolveApps m f placer placed = Inr apps \<and>
     d = \<lparr>des_Team = man_Team m, des_Owns = man_Owns m, des_Changes = ks @ ps @ hs @ apps\<rparr>"
  using assms by (auto simp: ResolveWith_def split: sum.splits)

lemma at_least_manifest_items:
  assumes "man_validate m = None"
  shows "at_least_manifest m (man_Tier m)"
    and "man_Kafka m = Some k \<Longrightarrow> topic \<in> set (ks_Topics k) \<Longrightarrow> at_least_manifest m (tierOf m topic)"
    and "man_Harbor m = Some h \<Longrightarrow> robot \<in> set (hs_Robots h) \<Longrightarrow> at_least_manifest m (tierOf m robot)"
    and "bind \<in> set (man_Postgres m) \<Longrightarrow> at_least_manifest m (orTier (pb_Tier bind) (man_Tier m))"
    and "app \<in> set (man_Apps m) \<Longrightarrow> at_least_manifest m (orTier (app_Tier app) (man_Tier m))"
proof -
  note v = man_validate_None [OF assms]
  show "at_least_manifest m (man_Tier m)" using v(3) by (simp add: at_least_manifest_def)
  show "at_least_manifest m (tierOf m topic)" if "man_Kafka m = Some k" "topic \<in> set (ks_Topics k)"
    using tierOf_valid [OF v(6) [OF that] v(3)] by (simp add: at_least_manifest_def)
  show "at_least_manifest m (tierOf m robot)" if "man_Harbor m = Some h" "robot \<in> set (hs_Robots h)"
    using tierOf_valid [OF v(7) [OF that] v(3)] by (simp add: at_least_manifest_def)
  show "at_least_manifest m (orTier (pb_Tier bind) (man_Tier m))" if "bind \<in> set (man_Postgres m)"
    using v(8) [OF that] v(3)
    by (auto simp: validatePostgres_def checkTier_None at_least_manifest_def orTier_def split: if_splits)
  show "at_least_manifest m (orTier (app_Tier app) (man_Tier m))" if "app \<in> set (man_Apps m)"
    using validateApp_None(6) [OF v(4) [OF that]] v(3) by (auto simp: at_least_manifest_def orTier_def)
qed

lemma at_least_manifest_AtLeast:
  assumes "at_least_manifest m tier" and "minimum \<in> set tiers"
  shows "at_least_manifest m (AtLeast tier minimum)"
  using assms rank_Strength [of tier] rank_Strength [of minimum]
  by (auto simp: at_least_manifest_def AtLeast_def tier_valid_tiers)

lemma resolvedApp_tier:
  assumes "man_validate m = None" and "raising_floor f" and "app \<in> set (man_Apps m)"
    and "resolveApp m f placer placed app = Inr c"
  shows "at_least_manifest m (di_Tier c)"
  using resolveApp_Inr [OF assms(4)] at_least_manifest_items(5) [OF assms(1,3)]
    raising_floor.env_known [OF assms(2)] at_least_manifest_AtLeast
  by (fastforce dest!: appFloor_Inr)

text \<open>Where each change of a resolved manifest comes from.\<close>

definition from_manifest :: "Manifest \<Rightarrow> Floor \<Rightarrow> Placer option \<Rightarrow> string gomap \<Rightarrow> DesiredItem \<Rightarrow> bool" where
  "from_manifest m f placer placed c \<longleftrightarrow>
     (\<exists>k topic. man_Kafka m = Some k \<and> (di_Asset c = ''kafka'' \<and> di_Tier c = man_Tier m \<or> topic \<in> set (ks_Topics k) \<and> resolveTopic m f k topic = Inr c)) \<or>
     (\<exists>b\<in>set (man_Postgres m). resolveBinding m f b = Inr c) \<or>
     (\<exists>h. man_Harbor m = Some h \<and> (di_Asset c = ''harbor'' \<and> di_Tier c = orTier (hs_Tier h) (man_Tier m) \<or>
        (\<exists>robot\<in>set (hs_Robots h). resolveRobot m f (orName (hs_Project h) (man_Owns m)) robot = Inr c))) \<or>
     (\<exists>app\<in>set (man_Apps m). resolveApp m f placer placed app = Inr c)"

lemma resolved_change_origin:
  assumes "ResolveWith m f placer placed = Inr d" and "c \<in> set (des_Changes d)"
  shows "floored f c \<and> from_manifest m f placer placed c"
proof -
  obtain ks ps hs apps where r: "resolveKafka m f = Inr ks" "resolvePostgres m f = Inr ps" "resolveHarbor m f = Inr hs"
    "resolveApps m f placer placed = Inr apps" and d: "des_Changes d = ks @ ps @ hs @ apps"
    using ResolveWith_Inr [OF assms(1)] by auto
  consider "c \<in> set ks" | "c \<in> set ps" | "c \<in> set hs" | "c \<in> set apps" using assms(2) d by auto
  then show ?thesis
  proof cases
    case 1
    then obtain k where k: "man_Kafka m = Some k" using r(1) by (auto simp: resolveKafka_def split: option.splits)
    from 1 resolveKafka_Inr [OF r(1) k] k show ?thesis
      by (auto simp: from_manifest_def dest: resolveTopic_Inr(1) dest!: collect_member)
  next
    case 2
    with r(2) show ?thesis
      by (auto simp: resolvePostgres_def from_manifest_def dest!: collect_member dest: resolveBinding_Inr(1))
  next
    case 3
    then obtain h where h: "man_Harbor m = Some h" using r(3) by (auto simp: resolveHarbor_def split: option.splits)
    from 3 resolveHarbor_Inr [OF r(3) h] h show ?thesis
      by (auto simp: from_manifest_def dest: resolveRobot_Inr(1) dest!: collect_member)
  next
    case 4
    with r(4) show ?thesis
      by (auto simp: resolveApps_def from_manifest_def dest!: collect_member dest: resolveApp_floored)
  qed
qed

lemma from_manifest_cases:
  assumes "from_manifest m f placer placed c"
  obtains (boundary) "di_Asset c = ''kafka''" "di_Tier c = man_Tier m"
  | (topic) k topic where "man_Kafka m = Some k" "topic \<in> set (ks_Topics k)" "resolveTopic m f k topic = Inr c"
  | (binding) b where "b \<in> set (man_Postgres m)" "resolveBinding m f b = Inr c"
  | (project) h where "man_Harbor m = Some h" "di_Asset c = ''harbor''" "di_Tier c = orTier (hs_Tier h) (man_Tier m)"
  | (robot) h robot where "man_Harbor m = Some h" "robot \<in> set (hs_Robots h)"
      "resolveRobot m f (orName (hs_Project h) (man_Owns m)) robot = Inr c"
  | (app) app where "app \<in> set (man_Apps m)" "resolveApp m f placer placed app = Inr c"
  using assms unfolding from_manifest_def by blast

lemma resolved_app_origin:
  assumes "ResolveWith m f placer placed = Inr d" and "c \<in> set (des_Changes d)" and "di_Asset c = ''app''"
  shows "\<exists>app\<in>set (man_Apps m). resolveApp m f placer placed app = Inr c"
proof -
  have "from_manifest m f placer placed c" using resolved_change_origin [OF assms(1,2)] ..
  then show ?thesis
    using assms(3) resolveTopic_Inr(4) resolveRobot_Inr(4) resolveBinding_Inr(4)
    by (cases rule: from_manifest_cases) auto
qed

lemma resolved_tier_known:
  assumes "man_validate m = None" and "raising_floor f" and "from_manifest m f placer placed c"
    and "\<forall>h. man_Harbor m = Some h \<longrightarrow> hs_Tier h = []"
  shows "at_least_manifest m (di_Tier c)"
  using assms(3)
proof (cases rule: from_manifest_cases)
  case boundary
  then show ?thesis using at_least_manifest_items(1) [OF assms(1)] by simp
next
  case topic
  then show ?thesis using at_least_manifest_items(2) [OF assms(1)] resolveTopic_Inr(2) by metis
next
  case binding
  then show ?thesis using at_least_manifest_items(4) [OF assms(1)] resolveBinding_Inr(2) by metis
next
  case project
  then show ?thesis using at_least_manifest_items(1) [OF assms(1)] assms(4) by (simp add: orTier_def)
next
  case robot
  then show ?thesis using at_least_manifest_items(3) [OF assms(1)] resolveRobot_Inr(2) by metis
next
  case app
  then show ?thesis using resolvedApp_tier [OF assms(1,2)] by blast
qed

section \<open>Samples\<close>

definition sample_harbor :: HarborSection where
  "sample_harbor = \<lparr>hs_Project = [], hs_Robots = [\<lparr>it_Name = ''puller'', it_Tier = []\<rparr>], hs_Tier = ''dev''\<rparr>"

definition sample_resolved :: "resolve_error + Desired" where
  "sample_resolved =
     (case ParseManifest sample_manifest of
        Inl e \<Rightarrow> Inl (NoFleet [])
      | Inr m \<Rightarrow>
          (case parse_floor ''r1'' sample_document of
             Inl e \<Rightarrow> Inl (NoFleet [])
           | Inr f \<Rightarrow> ResolveWith m f (Some sample_placer) []))"

lemma sample_resolves:
  "\<exists>m f d. ParseManifest sample_manifest = Inr m \<and> parse_floor ''r1'' sample_document = Inr f \<and>
     ResolveWith m f (Some sample_placer) [] = Inr d \<and>
     map di_Name (des_Changes d) = [''payments.'', ''payments.orders'', ''payments-checkout''] \<and>
     map di_Gate (des_Changes d) = [''owning-team'', ''platform'', ''platform''] \<and>
     map di_Cluster (des_Changes d) = [''k1'', ''k1'', ''eu-2''] \<and> di_Asset (des_Changes d ! 2) = ''app'' \<and> 2 < length (des_Changes d)"
proof -
  have "case sample_resolved of Inl e \<Rightarrow> False
    | Inr d \<Rightarrow> map di_Name (des_Changes d) = [''payments.'', ''payments.orders'', ''payments-checkout''] \<and>
        map di_Gate (des_Changes d) = [''owning-team'', ''platform'', ''platform''] \<and>
        map di_Cluster (des_Changes d) = [''k1'', ''k1'', ''eu-2''] \<and> di_Asset (des_Changes d ! 2) = ''app'' \<and> 2 < length (des_Changes d)"
    by code_simp
  then show ?thesis by (auto simp: sample_resolved_def split: sum.splits)
qed

definition sample_prod_manifest :: Manifest where
  "sample_prod_manifest = sample_manifest\<lparr>man_Tier := TierProd, man_Apps := [], man_Harbor := Some sample_harbor\<rparr>"

lemma sample_harbor_resolves:
  "case ParseManifest sample_prod_manifest of
     Inl e \<Rightarrow> False
   | Inr m \<Rightarrow> (case est_Resolve m DefaultFloor of
        Inl e \<Rightarrow> False
      | Inr d \<Rightarrow> list_ex (\<lambda>c. di_Asset c = ''harbor'' \<and> di_Tier c = TierDev \<and> di_Gate c = GateNone) (des_Changes d))"
  by code_simp

definition sample_promotion :: Promotion where
  "sample_promotion = \<lparr>prm_Team = ''payments'', prm_App = ''checkout'', prm_Repository = ''harbor/payments/checkout'',
     prm_Digest = ''sha256:abc'', prm_To = \<lparr>sl_Cluster = ''eu-2'', sl_Namespace = ''payments'', sl_Name = ''payments-checkout''\<rparr>,
     prm_Tier = TierProd\<rparr>"

lemma sample_promotion_resolves: "\<exists>c. promotion_AsChange sample_promotion DefaultFloor RuntimeEnterprise = Inr c"
proof -
  have "case promotion_AsChange sample_promotion DefaultFloor RuntimeEnterprise of Inl e \<Rightarrow> False | Inr c \<Rightarrow> True" by code_simp
  then show ?thesis by (cases "promotion_AsChange sample_promotion DefaultFloor RuntimeEnterprise") auto
qed

section \<open>Properties\<close>

text \<open>C14: nothing a team declares escapes the floor. Under a floor read from a document, every change a parsed
  manifest resolves to carries the floor's limits for its own tier and a gate at least the floor's for that tier. Where
  the harbor section names no tier of its own (the one declaration validation does not check), its tier is one the
  engine knows and not below the manifest's; where it does, nothing is said of the tier.\<close>

theorem resolved_changes_are_floored:
  assumes "ParseManifest decoded = Inr m" and "parse_floor revision doc = Inr f"
    and "ResolveWith m f placer placed = Inr d" and "c \<in> set (des_Changes d)"
  shows "floored f c \<and>
    ((\<forall>h. man_Harbor m = Some h \<longrightarrow> hs_Tier h = []) \<longrightarrow> tier_valid (di_Tier c) \<and> tier_rank (man_Tier m) \<le> tier_rank (di_Tier c))"
proof -
  have rf: "raising_floor f" using validated_floor_raises [OF parse_floor_Inr(2,4) [OF assms(2)]] .
  show ?thesis
    using resolved_change_origin [OF assms(3,4)] resolved_tier_known [OF ParseManifest_Inr(1) [OF assms(1)] rf]
    by (auto simp: at_least_manifest_def)
qed

theorem resolved_changes_are_floored_witness:
  "\<exists>m f d c. ParseManifest sample_manifest = Inr m \<and> parse_floor ''r1'' sample_document = Inr f \<and>
     ResolveWith m f (Some sample_placer) [] = Inr d \<and> c \<in> set (des_Changes d) \<and> di_Name c = ''payments-checkout'' \<and> floored f c"
proof -
  obtain m f d where r: "ParseManifest sample_manifest = Inr m" "parse_floor ''r1'' sample_document = Inr f"
    "ResolveWith m f (Some sample_placer) [] = Inr d" and n: "''payments-checkout'' \<in> set (map di_Name (des_Changes d))"
    using sample_resolves by fastforce
  from n obtain c where "c \<in> set (des_Changes d)" "di_Name c = ''payments-checkout''" by auto
  then show ?thesis using r resolved_changes_are_floored [OF r] by blast
qed

text \<open>An application runs only where its environment allows, at that environment's attention. A change for an
  application comes from one application of the manifest; its decision is for exactly the declared environment, on a
  reachable cluster of the fleet whose residency is the declared one; the slot is that cluster; and its gate is at
  least the built-in gate of the environment's minimum tier, so that nothing is deployed to \<open>prod\<close> below the
  platform's gate, whatever tier the manifest names.\<close>

theorem resolved_app_runs_where_declared:
  assumes "ParseManifest decoded = Inr m" and "parse_floor revision doc = Inr f"
    and "ResolveWith m f placer placed = Inr d" and "c \<in> set (des_Changes d)" and "di_Asset c = ''app''"
  shows "\<exists>app\<in>set (man_Apps m). \<exists>p decision k. placer = Some p \<and> di_Placement c = Some decision \<and>
    dcs_Env decision = plc_Env (app_Placement app) \<and>
    k \<in> set (pr_clusters p) \<and> cl_Name k = sl_Cluster (di_Slot c) \<and> cl_Reachable k \<and>
    EqualFold (cl_Residency k) (plc_Residency (app_Placement app)) \<and>
    sl_Name (di_Slot c) = man_Owns m @ ''-'' @ app_Name app \<and>
    (\<forall>b g. map_of DefaultEnvTiers (plc_Env (app_Placement app)) = Some b \<and> map_of DefaultGates b = Some g \<longrightarrow>
       gate_Strength g \<le> gate_Strength (di_Gate c)) \<and>
    (plc_Env (app_Placement app) = ''prod'' \<longrightarrow> di_Gate c = GatePlatform)"
proof -
  have rf: "raising_floor f" using validated_floor_raises [OF parse_floor_Inr(2,4) [OF assms(2)]] .
  obtain app where app: "app \<in> set (man_Apps m)" "resolveApp m f placer placed app = Inr c"
    using resolved_app_origin [OF assms(3-5)] by blast
  obtain p tier l decision plans sticky where r: "placer = Some p" "appFloor m f app = Inr (tier, l)"
    "placeApp app placer sticky plans = Inr decision" "di_Placement c = Some decision" "di_Tier c = tier"
    "di_Gate c = GateForApp f tier (man_Team m @ ''/'' @ app_Name app)" "di_Name c = man_Owns m @ ''-'' @ app_Name app"
    "sl_Cluster (di_Slot c) = dcs_Cluster decision" "sl_Name (di_Slot c) = di_Name c"
    using resolveApp_Inr [OF app(2)] by auto
  obtain minimum where t: "MinTierFor f (plc_Env (app_Placement app)) = Some minimum"
    "tier = AtLeast (orTier (app_Tier app) (man_Tier m)) minimum" using appFloor_Inr [OF r(2)] by auto
  have e: "plc_Env (app_Placement app) \<noteq> []"
    using validateApp_None(7) [OF man_validate_None(4) [OF ParseManifest_Inr(1) [OF assms(1)] app(1)]] .
  have pl: "PlaceWith p (app_Placement app) sticky plans = Inr decision"
    "dcs_Env decision = [] \<or> dcs_Env decision = plc_Env (app_Placement app)"
    using placeApp_Inr [OF r(3)] r(1) by auto
  have env: "dcs_Env decision = plc_Env (app_Placement app)"
    using pl(2) placer.placed_in_environment [OF pl(1) e] e by (auto simp: EqualFold_def)
  have gate: "gate_Strength g \<le> gate_Strength (di_Gate c)"
    if "map_of DefaultEnvTiers (plc_Env (app_Placement app)) = Some b" "map_of DefaultGates b = Some g" for b g
    using raising_floor.environment_gate [OF rf that t(1)] by (simp add: r(6) t(2))
  have "di_Gate c = GatePlatform" if "plc_Env (app_Placement app) = ''prod''"
    using gate [of TierProd GatePlatform] gate_Strength_le [of "di_Gate c"]
    by (simp add: that DefaultEnvTiers_def DefaultGates_def tier_names gate_Strength_3 [symmetric])
  then show ?thesis using placer.placed_in_jurisdiction [OF pl(1)] app(1) r env gate by (metis (no_types, lifting))
qed

theorem resolved_app_runs_where_declared_witness:
  "\<exists>m f d c. ParseManifest sample_manifest = Inr m \<and> parse_floor ''r1'' sample_document = Inr f \<and>
     ResolveWith m f (Some sample_placer) [] = Inr d \<and> c \<in> set (des_Changes d) \<and> di_Asset c = ''app'' \<and>
     di_Gate c = GatePlatform"
proof -
  obtain m f d where r: "ParseManifest sample_manifest = Inr m" "parse_floor ''r1'' sample_document = Inr f"
    "ResolveWith m f (Some sample_placer) [] = Inr d" and c: "di_Asset (des_Changes d ! 2) = ''app''" "2 < length (des_Changes d)"
    using sample_resolves by blast
  then have c': "des_Changes d ! 2 \<in> set (des_Changes d)" by simp
  have "plc_Env (app_Placement app) = ''prod''" if "app \<in> set (man_Apps m)" for app
    using that ParseManifest_Inr(2) [OF r(1)] by (auto simp: sample_manifest_def sample_app_def sample_claim_def)
  then show ?thesis using resolved_app_runs_where_declared [OF r c' c(1)] r c(1) c' by blast
qed

text \<open>Resolution leaves no declaration out and adds none. The changes of a resolved manifest are, in order, the
  boundary of its Kafka section and each topic, each database binding, the registry project and each robot, and each
  application, every one under the name the manifest's namespace gives it.\<close>

theorem resolve_covers_every_declaration:
  assumes "ResolveWith m f placer placed = Inr d"
  shows "des_Team d = man_Team m \<and> des_Owns d = man_Owns m \<and>
    map di_Name (des_Changes d) =
      (case man_Kafka m of None \<Rightarrow> []
       | Some k \<Rightarrow> (man_Owns m @ ''.'') # map (\<lambda>t. man_Owns m @ ''.'' @ it_Name t) (ks_Topics k)) @
      map (\<lambda>b. pb_Database b @ ''.'' @ orName (pb_Schema b) (man_Owns m)) (man_Postgres m) @
      (case man_Harbor m of None \<Rightarrow> []
       | Some h \<Rightarrow> (let project = orName (hs_Project h) (man_Owns m)
                    in project # map (\<lambda>r. project @ ''/'' @ it_Name r) (hs_Robots h))) @
      map (\<lambda>a. man_Owns m @ ''-'' @ app_Name a) (man_Apps m)"
proof -
  obtain ks ps hs apps where r: "resolveKafka m f = Inr ks" "resolvePostgres m f = Inr ps" "resolveHarbor m f = Inr hs"
    "resolveApps m f placer placed = Inr apps" and d: "d = \<lparr>des_Team = man_Team m, des_Owns = man_Owns m, des_Changes = ks @ ps @ hs @ apps\<rparr>"
    using ResolveWith_Inr [OF assms] by auto
  have "map di_Name ks = (case man_Kafka m of None \<Rightarrow> []
       | Some k \<Rightarrow> (man_Owns m @ ''.'') # map (\<lambda>t. man_Owns m @ ''.'' @ it_Name t) (ks_Topics k))"
    using r(1) resolveKafka_Inr [OF r(1)] collect_map [where g = di_Name] resolveTopic_Inr(3)
    by (cases "man_Kafka m") (fastforce simp: resolveKafka_def)+
  moreover have "map di_Name ps = map (\<lambda>b. pb_Database b @ ''.'' @ orName (pb_Schema b) (man_Owns m)) (man_Postgres m)"
    by (rule collect_map [OF r(2) [unfolded resolvePostgres_def]]) (rule resolveBinding_Inr(3))
  moreover have "map di_Name hs = (case man_Harbor m of None \<Rightarrow> []
       | Some h \<Rightarrow> (let project = orName (hs_Project h) (man_Owns m)
                    in project # map (\<lambda>r. project @ ''/'' @ it_Name r) (hs_Robots h)))"
    using r(3) resolveHarbor_Inr [OF r(3)] collect_map [where g = di_Name] resolveRobot_Inr(3)
    by (cases "man_Harbor m") (fastforce simp: resolveHarbor_def Let_def)+
  moreover have "map di_Name apps = map (\<lambda>a. man_Owns m @ ''-'' @ app_Name a) (man_Apps m)"
    by (rule collect_map [OF r(4) [unfolded resolveApps_def]]) (use resolveApp_Inr in blast)
  ultimately show ?thesis by (simp add: d)
qed

theorem resolve_covers_every_declaration_witness:
  "\<exists>m f d. ParseManifest sample_manifest = Inr m \<and> ResolveWith m f (Some sample_placer) [] = Inr d \<and>
     map di_Name (des_Changes d) = [''payments.'', ''payments.orders'', ''payments-checkout'']"
proof -
  obtain m f d where r: "ParseManifest sample_manifest = Inr m" "ResolveWith m f (Some sample_placer) [] = Inr d"
    using sample_resolves by blast
  have "m = sample_manifest\<lparr>man_Tier := TierDev\<rparr>" using ParseManifest_Inr(2) [OF r(1)] r(1)
    by (auto simp: ParseManifest_def sample_manifest_def Let_def split: option.splits)
  then show ?thesis using r resolve_covers_every_declaration [OF r(2)]
    by (intro exI [of _ m] exI [of _ f] exI [of _ d]) (simp add: sample_manifest_def sample_app_def)
qed

text \<open>Resolving without a fleet ends in a result exactly when nothing needs one. Under a floor read from a document,
  a parsed manifest resolves if and only if it declares no application and, where it has a registry section, the
  floor knows that section's tier; the floor's validation covers every other lookup.\<close>

theorem est_Resolve_exact:
  assumes "ParseManifest decoded = Inr m" and "parse_floor revision doc = Inr f"
  shows "(\<exists>d. est_Resolve m f = Inr d) \<longleftrightarrow>
    man_Apps m = [] \<and> (\<forall>h. man_Harbor m = Some h \<longrightarrow> map_of (fl_Harbor f) (orTier (hs_Tier h) (man_Tier m)) \<noteq> None)"
proof
  assume "\<exists>d. est_Resolve m f = Inr d"
  then obtain hs apps where h: "resolveHarbor m f = Inr hs" and a: "resolveApps m f None [] = Inr apps"
    unfolding est_Resolve_def using ResolveWith_Inr by metis
  have "man_Apps m = []"
    using a resolveApp_Inr [of m f None "[]"] by (cases "man_Apps m") (auto simp: resolveApps_def split: sum.splits)
  then show "man_Apps m = [] \<and> (\<forall>h. man_Harbor m = Some h \<longrightarrow> map_of (fl_Harbor f) (orTier (hs_Tier h) (man_Tier m)) \<noteq> None)"
    using h by (auto simp: resolveHarbor_def Let_def split: option.splits)
next
  assume h: "man_Apps m = [] \<and> (\<forall>h. man_Harbor m = Some h \<longrightarrow> map_of (fl_Harbor f) (orTier (hs_Tier h) (man_Tier m)) \<noteq> None)"
  note v = at_least_manifest_items [OF ParseManifest_Inr(1) [OF assms(1)], unfolded at_least_manifest_def tier_valid_tiers]
  note q = validated_quota [OF parse_floor_Inr(1) [OF assms(2)]]
  have "\<exists>ks. resolveKafka m f = Inr ks"
  proof (cases "man_Kafka m")
    case (Some k)
    have "\<exists>c. resolveTopic m f k topic = Inr c" if "topic \<in> set (ks_Topics k)" for topic
      using q(1) [of "tierOf m topic"] v(2) [OF Some that] by (auto simp: resolveTopic_def Let_def)
    then obtain ts where "collect (resolveTopic m f k) (ks_Topics k) = Inr ts" using collect_total by blast
    then show ?thesis using q(1) [of "man_Tier m"] v(1) Some by (auto simp: resolveKafka_def Let_def)
  qed (simp add: resolveKafka_def)
  moreover have "\<exists>ps. resolvePostgres m f = Inr ps"
    unfolding resolvePostgres_def
  proof (rule collect_total)
    show "\<exists>c. resolveBinding m f b = Inr c" if "b \<in> set (man_Postgres m)" for b
      using q(2) [of "orTier (pb_Tier b) (man_Tier m)"] v(4) [OF that] by (auto simp: resolveBinding_def Let_def)
  qed
  moreover have "\<exists>hs. resolveHarbor m f = Inr hs"
  proof (cases "man_Harbor m")
    case (Some h')
    have "\<exists>rs. collect (resolveRobot m f (orName (hs_Project h') (man_Owns m))) (hs_Robots h') = Inr rs"
    proof (rule collect_total)
      show "\<exists>c. resolveRobot m f project robot = Inr c" if "robot \<in> set (hs_Robots h')" for robot project
        using q(3) [of "tierOf m robot"] v(3) [OF Some that] by (auto simp: resolveRobot_def Let_def)
    qed
    then show ?thesis using h Some by (auto simp: resolveHarbor_def Let_def)
  qed (simp add: resolveHarbor_def)
  ultimately show "\<exists>d. est_Resolve m f = Inr d"
    using h by (auto simp: est_Resolve_def ResolveWith_def resolveApps_def)
qed

theorem est_Resolve_exact_witness:
  "\<exists>m f. ParseManifest sample_manifest = Inr m \<and> parse_floor ''r1'' sample_document = Inr f \<and> man_Apps m \<noteq> [] \<and>
     (\<nexists>d. est_Resolve m f = Inr d)"
proof -
  obtain m f where r: "ParseManifest sample_manifest = Inr m" "parse_floor ''r1'' sample_document = Inr f"
    using sample_resolves by blast
  have "man_Apps m \<noteq> []" using ParseManifest_Inr(2) [OF r(1)] by (auto simp: sample_manifest_def)
  then show ?thesis using r est_Resolve_exact [OF r] by blast
qed

text \<open>The harbor section is the one declaration whose tier is never checked: a manifest of the \<open>prod\<close> tier whose
  registry section says \<open>dev\<close> parses and resolves to a project with the playground's tier and no gate.\<close>

theorem harbor_section_lowers_tier:
  "\<exists>decoded m d c. ParseManifest decoded = Inr m \<and> man_Tier m = TierProd \<and> est_Resolve m DefaultFloor = Inr d \<and>
     c \<in> set (des_Changes d) \<and> di_Asset c = ''harbor'' \<and> di_Tier c = TierDev \<and> di_Gate c = GateNone"
proof -
  obtain m where m: "ParseManifest sample_prod_manifest = Inr m"
    using sample_harbor_resolves by (metis (no_types, lifting) sum.case(1) sum.exhaust)
  obtain d where d: "est_Resolve m DefaultFloor = Inr d"
    using sample_harbor_resolves by (metis (no_types, lifting) m sum.case sum.exhaust)
  have e: "list_ex (\<lambda>c. di_Asset c = ''harbor'' \<and> di_Tier c = TierDev \<and> di_Gate c = GateNone) (des_Changes d)"
    using sample_harbor_resolves by (simp only: m d sum.case)
  have "man_Tier m = TierProd" using ParseManifest_Inr(2) [OF m] by (auto simp: sample_prod_manifest_def tier_names)
  then show ?thesis using m d e unfolding list_ex_iff by blast
qed

text \<open>A promotion deploys exactly the bytes that were tested. A promotion becomes a change only if it names a
  content digest and a repository with neither a tag nor a digest in it, so the reference that is deployed has one
  digest; the change keeps the digest, the repository and the target slot, and is gated and limited by the floor at
  the promotion's tier; no other promotion is accepted.\<close>

theorem promotion_binds_the_digest:
  "case promotion_AsChange p f runtime of
     Inr c \<Rightarrow> HasPrefix (prm_Digest p) ''sha256:'' \<and> di_Digest c = prm_Digest p \<and> di_Image c = prm_Repository p \<and>
       CHR '':'' \<notin> set (di_Image c) \<and> CHR ''@'' \<notin> set (di_Image c) \<and> di_Image c \<noteq> [] \<and> di_Slot c = prm_To p \<and>
       di_Tier c = prm_Tier p \<and> floored f c
   | Inl e \<Rightarrow> promotion_Validate p = Some e \<or>
       map_of (fl_App f) runtime = None \<or> (\<exists>byTier. map_of (fl_App f) runtime = Some byTier \<and> map_of byTier (prm_Tier p) = None)"
  by (auto simp: promotion_AsChange_def promotion_Validate_def zero_DesiredItem_def floored_def
      split: option.splits sum.splits if_splits)

end
