(* ===== verification/Approvals.thy ===== *)
theory Approvals
  imports Estate_Resolve Go_Fmt
begin

text \<open>
  Changes waiting for people: \<open>approval.go\<close>, \<open>signature.go\<close>, \<open>approvals_memory.go\<close> and \<open>approvals_collect.go\<close> of
  \<open>mantlekeep-estate\<close>. A store is the record \<open>Approvals\<close> of its operations over a state of any type, with the optional
  \<open>Signer\<close> method as an option; the in-memory store is a map from ids to approvals. Every operation runs under the
  store's lock, so it is one function from a state to a state, and every reading of the clock is an argument. Slices are
  values, so the copies the code takes of a signature list are the list itself. The random part of an id is an argument.
\<close>

section \<open>The record\<close>

datatype ApprovalState = ApprovalUnset | ApprovalPending | ApprovalApproved | ApprovalDeclined | ApprovalExpired

record Signature =
  sg_By :: string
  sg_At :: int
  sg_Reference :: string

record Approval =
  apr_ID :: string
  apr_Team :: string
  apr_Change :: DesiredItem
  apr_Requester :: string
  apr_RequiredRoles :: "string list"
  apr_RequiredSignatures :: int
  apr_FloorRevision :: string
  apr_Reason :: string
  apr_State :: ApprovalState
  apr_ApprovedBy :: string
  apr_Signatures :: "Signature list"
  apr_DeclinedBy :: string
  apr_DeclinedReason :: string
  apr_CreatedAt :: int
  apr_DecidedAt :: int
  apr_ExpiresAt :: int

datatype approval_error =
    ApprovalNotFound
  | ApprovalNotPending
  | SelfApproval
  | FloorMoved string string \<comment> \<open>the revision requested under, the revision now\<close>
  | ApprovalExists string
  | DuplicateSignature
  | AIApproval
  | SignaturesOutstandingError string
  | StoreCannotCollectSignatures int string \<comment> \<open>how many were asked for, on which approval\<close>
  | NoApprovalStore
  | DeclineNeedsReason
  | StoreFailed string \<comment> \<open>a store's own failure\<close>

definition apr_Pending :: "Approval \<Rightarrow> int \<Rightarrow> bool" where
  "apr_Pending a now \<longleftrightarrow> apr_State a = ApprovalPending \<and> now < apr_ExpiresAt a"

definition approvalID :: "string \<Rightarrow> string \<Rightarrow> int \<Rightarrow> string \<Rightarrow> string" where
  "approvalID team name unixNano random =
     ''APR-'' @ team @ ''-'' @ name @ ''-'' @ dec_int unixNano @ ''-'' @ take 12 random"

section \<open>Signatures\<close>

definition SignaturesRequired :: "Approval \<Rightarrow> int" where
  "SignaturesRequired a = (if apr_RequiredSignatures a < 1 then 1 else apr_RequiredSignatures a)"

definition CollectedSignatures :: "Approval \<Rightarrow> Signature list" where
  "CollectedSignatures a =
     (if 0 < length (apr_Signatures a) then apr_Signatures a
      else if apr_ApprovedBy a \<noteq> [] then [\<lparr>sg_By = apr_ApprovedBy a, sg_At = apr_DecidedAt a, sg_Reference = []\<rparr>]
      else [])"

definition SignaturesOutstanding :: "Approval \<Rightarrow> int" where
  "SignaturesOutstanding a =
     (let outstanding = SignaturesRequired a - int (length (CollectedSignatures a))
      in if outstanding < 0 then 0 else outstanding)"

definition HasSignatureFrom :: "Approval \<Rightarrow> string \<Rightarrow> bool" where
  "HasSignatureFrom a approver \<longleftrightarrow> list_ex (\<lambda>s. sg_By s = approver) (CollectedSignatures a)"

definition Signatories :: "Approval \<Rightarrow> string list" where
  "Signatories a = map sg_By (CollectedSignatures a)"

definition StillNeeded :: "Approval \<Rightarrow> string" where
  "StillNeeded a =
     (let outstanding = SignaturesOutstanding a
      in if outstanding = 0 then ''nothing: every required signature has been collected''
         else dec_int outstanding @ '' more signature'' @ (if 1 < outstanding then ''s'' else [])
              @ (if 0 < length (apr_RequiredRoles a)
                 then '' from somebody holding one of: '' @ join '', '' (apr_RequiredRoles a)
                 else '' from a second party the door will accept (this record names no role, so '' @
                      ''the door decides from the directory)'')
              @ (if 0 < length (Signatories a) then ''; already signed by '' @ join '', '' (Signatories a) else []))"

section \<open>The port and the in-memory store\<close>

record 's Approvals =
  aps_Open :: "'s \<Rightarrow> Approval \<Rightarrow> approval_error option \<times> 's"
  aps_Get :: "int \<Rightarrow> 's \<Rightarrow> string \<Rightarrow> approval_error + Approval"
  aps_Decide :: "int \<Rightarrow> 's \<Rightarrow> Approval \<Rightarrow> approval_error option \<times> 's"
  aps_Pending :: "int \<Rightarrow> 's \<Rightarrow> string \<Rightarrow> approval_error + Approval list"
  aps_Sign :: "(int \<Rightarrow> 's \<Rightarrow> string \<Rightarrow> Signature \<Rightarrow> (approval_error + Approval) \<times> 's) option"

type_synonym approval_map = "Approval gomap"

definition mem_Open :: "approval_map \<Rightarrow> Approval \<Rightarrow> approval_error option \<times> approval_map" where
  "mem_Open by a =
     (case map_of by (apr_ID a) of
        Some _ \<Rightarrow> (Some (ApprovalExists (apr_ID a)), by)
      | None \<Rightarrow> (None, gset by (apr_ID a) a))"

definition mem_Get :: "int \<Rightarrow> approval_map \<Rightarrow> string \<Rightarrow> approval_error + Approval" where
  "mem_Get now by aid =
     (case map_of by aid of
        None \<Rightarrow> Inl ApprovalNotFound
      | Some a \<Rightarrow>
          Inr (if apr_State a = ApprovalPending \<and> \<not> now < apr_ExpiresAt a then a\<lparr>apr_State := ApprovalExpired\<rparr> else a))"

definition mem_Decide :: "int \<Rightarrow> approval_map \<Rightarrow> Approval \<Rightarrow> approval_error option \<times> approval_map" where
  "mem_Decide now by a =
     (case map_of by (apr_ID a) of
        None \<Rightarrow> (Some ApprovalNotFound, by)
      | Some current \<Rightarrow>
          if \<not> apr_Pending current now then (Some ApprovalNotPending, by)
          else if apr_State a = ApprovalApproved \<and> 0 < SignaturesOutstanding a
          then (Some (SignaturesOutstandingError (StillNeeded a)), by)
          else (None, gset by (apr_ID a) a))"

text \<open>The record after one more signature, decided when the set is complete.\<close>

definition add_signature :: "Approval \<Rightarrow> Signature \<Rightarrow> Approval" where
  "add_signature a sg =
     (let a' = a\<lparr>apr_Signatures := apr_Signatures a @ [sg]\<rparr>
      in if SignaturesOutstanding a' = 0
         then a'\<lparr>apr_State := ApprovalApproved, apr_ApprovedBy := sg_By sg, apr_DecidedAt := sg_At sg\<rparr>
         else a')"

definition mem_Sign :: "int \<Rightarrow> approval_map \<Rightarrow> string \<Rightarrow> Signature \<Rightarrow> (approval_error + Approval) \<times> approval_map" where
  "mem_Sign now by aid sg =
     (case map_of by aid of
        None \<Rightarrow> (Inl ApprovalNotFound, by)
      | Some a \<Rightarrow>
          if \<not> apr_Pending a now then (Inl ApprovalNotPending, by)
          else if sg_By sg = apr_Requester a then (Inl SelfApproval, by)
          else if HasSignatureFrom a (sg_By sg) then (Inl DuplicateSignature, by)
          else (Inr (add_signature a sg), gset by aid (add_signature a sg)))"

text \<open>Newest first. The order of equal creation times, which the code leaves to the map, is that of the list.\<close>

definition mem_Pending :: "int \<Rightarrow> approval_map \<Rightarrow> string \<Rightarrow> approval_error + Approval list" where
  "mem_Pending now by team =
     Inr (sort_key (\<lambda>a. - apr_CreatedAt a)
            (filter (\<lambda>a. apr_Pending a now \<and> (team = [] \<or> apr_Team a = team)) (map snd by)))"

definition MemoryApprovals :: "approval_map Approvals" where
  "MemoryApprovals = \<lparr>aps_Open = mem_Open, aps_Get = mem_Get, aps_Decide = mem_Decide, aps_Pending = mem_Pending,
     aps_Sign = Some mem_Sign\<rparr>"

section \<open>Collecting one signature\<close>

definition collectSignature ::
  "'s Approvals \<Rightarrow> int \<Rightarrow> 's \<Rightarrow> Approval \<Rightarrow> Signature \<Rightarrow> (approval_error + Approval) \<times> 's" where
  "collectSignature store now st a sg =
     (case aps_Sign store of
        Some sign \<Rightarrow> sign now st (apr_ID a) sg
      | None \<Rightarrow>
          if 1 < SignaturesRequired a
          then (Inl (StoreCannotCollectSignatures (SignaturesRequired a) (apr_ID a)), st)
          else (let a' = a\<lparr>apr_Signatures := [sg], apr_State := ApprovalApproved, apr_ApprovedBy := sg_By sg,
                           apr_DecidedAt := sg_At sg\<rparr>
                in case aps_Decide store now st a' of
                     (Some e, st') \<Rightarrow> (Inl e, st')
                   | (None, st') \<Rightarrow> (Inr a', st')))"

section \<open>A record in order\<close>

text \<open>The invariant of a record: distinct people signed, the requester did not, a pending record still needs somebody,
  and an approved one was signed by exactly as many as it requires, the last of whom is the approver.\<close>

definition apr_ok :: "Approval \<Rightarrow> bool" where
  "apr_ok a \<longleftrightarrow> distinct (Signatories a) \<and> apr_Requester a \<notin> set (Signatories a) \<and>
     (apr_State a = ApprovalPending \<longrightarrow>
        apr_ApprovedBy a = [] \<and> int (length (apr_Signatures a)) < SignaturesRequired a) \<and>
     (apr_State a = ApprovalApproved \<longrightarrow>
        int (length (Signatories a)) = SignaturesRequired a \<and> apr_ApprovedBy a = last (Signatories a))"

definition fresh :: "Approval \<Rightarrow> bool" where
  "fresh a \<longleftrightarrow> apr_State a = ApprovalPending \<and> apr_Signatures a = [] \<and> apr_ApprovedBy a = []"

lemma SignaturesRequired_pos: "1 \<le> SignaturesRequired a"
  by (simp add: SignaturesRequired_def)

lemma fresh_ok: "fresh a \<Longrightarrow> apr_ok a"
  using SignaturesRequired_pos [of a] by (simp add: fresh_def apr_ok_def Signatories_def CollectedSignatures_def)

lemma collected_pending:
  assumes "apr_ok a" and "apr_State a = ApprovalPending"
  shows "CollectedSignatures a = apr_Signatures a" and "Signatories a = map sg_By (apr_Signatures a)"
  using assms by (simp_all add: apr_ok_def CollectedSignatures_def Signatories_def)

lemma HasSignatureFrom_iff: "HasSignatureFrom a p \<longleftrightarrow> p \<in> set (Signatories a)"
  by (auto simp: HasSignatureFrom_def Signatories_def list_ex_iff)

lemma SignaturesRequired_upd [simp]:
  "SignaturesRequired (a\<lparr>apr_Signatures := sgs\<rparr>) = SignaturesRequired a"
  "SignaturesRequired (a\<lparr>apr_State := st\<rparr>) = SignaturesRequired a"
  "SignaturesRequired (a\<lparr>apr_ApprovedBy := by\<rparr>) = SignaturesRequired a"
  "SignaturesRequired (a\<lparr>apr_DecidedAt := t\<rparr>) = SignaturesRequired a"
  by (simp_all add: SignaturesRequired_def)

text \<open>What one more signature makes of a record: approved exactly when the set is complete.\<close>

lemma add_signature_cases:
  "add_signature a sg =
     (if int (length (apr_Signatures a)) + 1 < SignaturesRequired a
      then a\<lparr>apr_Signatures := apr_Signatures a @ [sg]\<rparr>
      else a\<lparr>apr_Signatures := apr_Signatures a @ [sg], apr_State := ApprovalApproved, apr_ApprovedBy := sg_By sg,
             apr_DecidedAt := sg_At sg\<rparr>)"
  by (auto simp: add_signature_def Let_def SignaturesOutstanding_def CollectedSignatures_def)

lemma add_signature_fields [simp]:
  "apr_ID (add_signature a sg) = apr_ID a" "apr_Requester (add_signature a sg) = apr_Requester a"
  "apr_Change (add_signature a sg) = apr_Change a" "apr_Team (add_signature a sg) = apr_Team a"
  "apr_FloorRevision (add_signature a sg) = apr_FloorRevision a"
  "apr_RequiredSignatures (add_signature a sg) = apr_RequiredSignatures a"
  "apr_ExpiresAt (add_signature a sg) = apr_ExpiresAt a"
  "apr_Signatures (add_signature a sg) = apr_Signatures a @ [sg]"
  "SignaturesRequired (add_signature a sg) = SignaturesRequired a"
  by (auto simp: add_signature_cases)

lemma Signatories_add: "Signatories (add_signature a sg) = map sg_By (apr_Signatures a) @ [sg_By sg]"
  by (simp add: Signatories_def CollectedSignatures_def)

lemma add_signature_ok:
  assumes "apr_ok a" and "apr_State a = ApprovalPending" and "sg_By sg \<noteq> apr_Requester a" and "\<not> HasSignatureFrom a (sg_By sg)"
  shows "apr_ok (add_signature a sg)"
proof -
  have s: "Signatories a = map sg_By (apr_Signatures a)" using collected_pending(2) [OF assms(1,2)] .
  have st: "apr_State (add_signature a sg) =
      (if int (length (apr_Signatures a)) + 1 < SignaturesRequired a then ApprovalPending else ApprovalApproved)"
    "apr_ApprovedBy (add_signature a sg) =
      (if int (length (apr_Signatures a)) + 1 < SignaturesRequired a then [] else sg_By sg)"
    using assms(1,2) by (auto simp: add_signature_cases apr_ok_def)
  show ?thesis
    using assms by (auto simp: apr_ok_def [of "add_signature a sg"] Signatories_add st apr_ok_def [of a] s HasSignatureFrom_iff)
qed

section \<open>The interface of a store\<close>

text \<open>What the manager relies on. \<open>view\<close> reads the record a state holds under an id.\<close>

locale approvals_store =
  fixes store :: "'s Approvals"
    and view :: "'s \<Rightarrow> string \<Rightarrow> Approval option"
  assumes open_ok: "aps_Open store s a = (None, s') \<Longrightarrow> view s (apr_ID a) = None \<and> view s' = (view s)(apr_ID a \<mapsto> a)"
    and open_error: "aps_Open store s a = (Some e, s') \<Longrightarrow> view s' = view s"
    and get_ok: "aps_Get store t s i = Inr a \<Longrightarrow>
      \<exists>r. view s i = Some r \<and> (a = r \<or> apr_State r = ApprovalPending \<and> \<not> apr_Pending r t \<and> a = r\<lparr>apr_State := ApprovalExpired\<rparr>)"
    and decide_ok: "aps_Decide store t s a = (None, s') \<Longrightarrow>
      (\<exists>r. view s (apr_ID a) = Some r \<and> apr_Pending r t) \<and> view s' = (view s)(apr_ID a \<mapsto> a)"
    and decide_error: "aps_Decide store t s a = (Some e, s') \<Longrightarrow> view s' = view s"
begin

lemma open_keeps:
  assumes "aps_Open store s a = (e, s')" and "view s i = Some r"
  shows "view s' i = Some r"
  using assms open_ok open_error by (cases e) fastforce+

lemma decide_keeps_decided:
  assumes "aps_Decide store t s a = (e, s')" and "view s i = Some r" and "\<not> apr_Pending r t"
  shows "view s' i = Some r"
  using assms decide_ok decide_error by (cases e) fastforce+

definition sound :: "'s \<Rightarrow> bool" where
  "sound s \<longleftrightarrow> (\<forall>i r. view s i = Some r \<longrightarrow> apr_ok r)"

lemma open_sound: "aps_Open store s a = (e, s') \<Longrightarrow> sound s \<Longrightarrow> apr_ok a \<Longrightarrow> sound s'"
  using open_ok open_error unfolding sound_def by (cases e) (fastforce split: if_splits)+

lemma decide_sound: "aps_Decide store t s a = (e, s') \<Longrightarrow> sound s \<Longrightarrow> apr_ok a \<Longrightarrow> sound s'"
  using decide_ok decide_error unfolding sound_def by (cases e) (fastforce split: if_splits)+

end

text \<open>A store that appends one signature atomically, with every rule checked against the record it holds.\<close>

locale signing_store = approvals_store store view
  for store :: "'s Approvals" and view :: "'s \<Rightarrow> string \<Rightarrow> Approval option" +
  fixes sign :: "int \<Rightarrow> 's \<Rightarrow> string \<Rightarrow> Signature \<Rightarrow> (approval_error + Approval) \<times> 's"
  assumes signer: "aps_Sign store = Some sign"
    and sign_ok: "sign t s i sg = (Inr a, s') \<Longrightarrow>
      (\<exists>r. view s i = Some r \<and> apr_Pending r t \<and> sg_By sg \<noteq> apr_Requester r \<and> \<not> HasSignatureFrom r (sg_By sg) \<and>
         a = add_signature r sg) \<and> view s' = (view s)(i \<mapsto> a)"
    and sign_error: "sign t s i sg = (Inl e, s') \<Longrightarrow> view s' = view s"
    and sign_total: "view s i = Some r \<Longrightarrow> apr_Pending r t \<Longrightarrow> sg_By sg \<noteq> apr_Requester r \<Longrightarrow>
      \<not> HasSignatureFrom r (sg_By sg) \<Longrightarrow> \<exists>s'. sign t s i sg = (Inr (add_signature r sg), s')"
begin

lemma sign_keeps_decided:
  assumes "sign t s i sg = (x, s')" and "view s j = Some r" and "\<not> apr_Pending r t"
  shows "view s' j = Some r"
  using assms sign_ok sign_error by (cases x) fastforce+

lemma sign_sound:
  assumes "sign t s i sg = (x, s')" and "sound s"
  shows "sound s'"
proof (cases x)
  case (Inl e)
  with sign_error assms show ?thesis by (simp add: sound_def)
next
  case (Inr a)
  with sign_ok assms(1) obtain r where r: "view s i = Some r" "apr_Pending r t" "sg_By sg \<noteq> apr_Requester r"
    "\<not> HasSignatureFrom r (sg_By sg)" "a = add_signature r sg" "view s' = (view s)(i \<mapsto> a)" by blast
  then have "apr_ok a" using add_signature_ok assms(2) by (simp add: sound_def apr_Pending_def)
  then show ?thesis using assms(2) r(6) by (auto simp: sound_def)
qed

lemma collect_is_sign: "collectSignature store t s a sg = sign t s (apr_ID a) sg"
  by (simp add: collectSignature_def signer)

end

interpretation mem: signing_store MemoryApprovals map_of mem_Sign
proof
  show "\<And>s a s'. aps_Open MemoryApprovals s a = (None, s') \<Longrightarrow> map_of s (apr_ID a) = None \<and> map_of s' = (map_of s)(apr_ID a \<mapsto> a)"
    by (auto simp: MemoryApprovals_def mem_Open_def split: option.splits)
qed (auto simp: MemoryApprovals_def mem_Open_def mem_Get_def mem_Decide_def mem_Sign_def apr_Pending_def fun_eq_iff
      split: option.splits if_splits)

section \<open>Every history of the in-memory store\<close>

text \<open>One step of the world around the store. The clock advances; a request is opened pending and unsigned; anybody signs;
  somebody reads a record; or somebody declines one as the manager does (\<open>man_Decline\<close>): with a record read at any
  earlier moment, other operations having come between, and only if it read as pending. A state is the time, the store and
  the records that have been read.\<close>

type_synonym store_world = "int \<times> approval_map \<times> Approval set"

definition declined_record :: "Approval \<Rightarrow> string \<Rightarrow> string \<Rightarrow> int \<Rightarrow> Approval" where
  "declined_record a who reason t =
     a\<lparr>apr_State := ApprovalDeclined, apr_DeclinedBy := who, apr_DeclinedReason := reason, apr_DecidedAt := t\<rparr>"

inductive store_step :: "store_world \<Rightarrow> store_world \<Rightarrow> bool" where
  tick: "t \<le> t' \<Longrightarrow> store_step (t, s, R) (t', s, R)"
| opened: "fresh a \<Longrightarrow> mem_Open s a = (e, s') \<Longrightarrow> store_step (t, s, R) (t, s', R)"
| signed: "mem_Sign t s i sg = (x, s') \<Longrightarrow> store_step (t, s, R) (t, s', R)"
| get: "mem_Get t s i = Inr a \<Longrightarrow> store_step (t, s, R) (t, s, insert a R)"
| declined: "a \<in> R \<Longrightarrow> apr_Pending a t0 \<Longrightarrow> mem_Decide t s (declined_record a who reason t1) = (e, s') \<Longrightarrow>
    store_step (t, s, R) (t, s', R)"

inductive_cases store_stepE: "store_step (t, s, R) (t', s', R')"

lemma mem_ops: "aps_Open MemoryApprovals = mem_Open" "aps_Decide MemoryApprovals = mem_Decide"
  "aps_Get MemoryApprovals = mem_Get" "aps_Sign MemoryApprovals = Some mem_Sign"
  by (simp_all add: MemoryApprovals_def)

text \<open>What is read of a sound store is in order, and so is the record a decline makes of it.\<close>

lemma settled_signatories: "Signatories (a\<lparr>apr_State := st\<rparr>) = Signatories a"
  "Signatories (declined_record a who reason t) = Signatories a"
  by (simp_all add: declined_record_def Signatories_def CollectedSignatures_def)

lemma apr_ok_expired: "apr_ok a \<Longrightarrow> apr_ok (a\<lparr>apr_State := ApprovalExpired\<rparr>)"
  unfolding apr_ok_def settled_signatories by simp

lemma apr_ok_declined: "apr_ok a \<Longrightarrow> apr_ok (declined_record a who reason t)"
  unfolding apr_ok_def settled_signatories by (simp add: declined_record_def)

lemma read_in_order: "mem_Get t s i = Inr a \<Longrightarrow> mem.sound s \<Longrightarrow> apr_ok a"
  using mem.get_ok [of t s i a] apr_ok_expired by (auto simp: mem_ops mem.sound_def)

definition world_sound :: "store_world \<Rightarrow> bool" where
  "world_sound w \<longleftrightarrow> mem.sound (fst (snd w)) \<and> (\<forall>a\<in>snd (snd w). apr_ok a)"

lemma store_step_sound:
  assumes "store_step w w'" and "world_sound w"
  shows "world_sound w'"
  using assms
proof (cases rule: store_step.cases)
  case (opened a s e s' t R)
  then show ?thesis using mem.open_sound [of s a e s'] fresh_ok assms(2) by (simp add: mem_ops world_sound_def)
next
  case (signed t s i sg x s' R)
  then show ?thesis using mem.sign_sound assms(2) by (simp add: world_sound_def)
next
  case (get t s i a R)
  then show ?thesis using read_in_order assms(2) by (simp add: world_sound_def)
next
  case (declined a R t0 t s who reason t1 e s')
  then have "apr_ok (declined_record a who reason t1)" using assms(2) apr_ok_declined by (simp add: world_sound_def)
  then show ?thesis using mem.decide_sound [of t s "declined_record a who reason t1" e s'] declined assms(2)
    by (simp add: mem_ops world_sound_def)
qed (simp add: world_sound_def)

lemma store_steps_sound: "store_step\<^sup>*\<^sup>* w w' \<Longrightarrow> world_sound w \<Longrightarrow> world_sound w'"
  by (induction rule: rtranclp_induct) (auto intro: store_step_sound)

lemma store_step_keeps_decided:
  assumes "store_step w w'" and "map_of (fst (snd w)) i = Some r" and "\<not> apr_Pending r (fst w)"
  shows "map_of (fst (snd w')) i = Some r \<and> \<not> apr_Pending r (fst w')"
  using assms(1)
proof (cases rule: store_step.cases)
  case (tick t t' s R)
  then show ?thesis using assms by (auto simp: apr_Pending_def)
next
  case (opened a s e s' t R)
  then show ?thesis using mem.open_keeps [of s a e s' i r] assms by (simp add: mem_ops)
next
  case (signed t s j sg x s' R)
  then show ?thesis using mem.sign_keeps_decided [of t s j sg x s' i r] assms by simp
next
  case (get t s j a R)
  then show ?thesis using assms by simp
next
  case (declined a R t0 t s who reason t1 e s')
  then show ?thesis using mem.decide_keeps_decided [of t s "declined_record a who reason t1" e s' i r] assms by (simp add: mem_ops)
qed

text \<open>Signing with one signature after another.\<close>

fun sign_all :: "int \<Rightarrow> approval_map \<Rightarrow> string \<Rightarrow> Signature list \<Rightarrow> approval_map" where
  "sign_all t s i [] = s"
| "sign_all t s i (sg # sgs) = sign_all t (snd (mem_Sign t s i sg)) i sgs"

lemma sign_all_decided:
  assumes "map_of s i = Some r" and "\<not> apr_Pending r t"
  shows "map_of (sign_all t s i sgs) i = Some r"
  using assms(1)
proof (induction sgs arbitrary: s)
  case (Cons sg sgs)
  have "map_of (snd (mem_Sign t s i sg)) i = Some r"
    using mem.sign_keeps_decided [of t s i sg "fst (mem_Sign t s i sg)" "snd (mem_Sign t s i sg)" i r] Cons.prems assms(2) by simp
  with Cons.IH show ?case by simp
qed simp

lemma sign_all_collects:
  assumes "map_of s i = Some r" and "apr_Pending r t" and "apr_ok r" and "distinct (map sg_By sgs)"
    and "\<forall>sg\<in>set sgs. sg_By sg \<noteq> apr_Requester r \<and> sg_By sg \<notin> set (Signatories r)"
  shows "\<exists>r'. map_of (sign_all t s i sgs) i = Some r' \<and>
     apr_Signatures r' = take (nat (SignaturesRequired r)) (apr_Signatures r @ sgs) \<and> apr_Change r' = apr_Change r \<and>
     apr_State r' = (if SignaturesRequired r \<le> int (length (apr_Signatures r @ sgs)) then ApprovalApproved else ApprovalPending)"
  using assms
proof (induction sgs arbitrary: s r)
  case Nil
  then show ?case by (auto simp: apr_ok_def apr_Pending_def)
next
  case (Cons sg sgs)
  let ?r = "add_signature r sg"
  have pending: "apr_State r = ApprovalPending" using Cons.prems(2) by (simp add: apr_Pending_def)
  have new: "sg_By sg \<noteq> apr_Requester r" "\<not> HasSignatureFrom r (sg_By sg)"
    using Cons.prems(5) by (auto simp: HasSignatureFrom_iff)
  have ok: "apr_ok ?r" using add_signature_ok [OF Cons.prems(3) pending new] .
  have s1: "mem_Sign t s i sg = (Inr ?r, gset s i ?r)" using Cons.prems(1,2) new by (simp add: mem_Sign_def)
  show ?case
  proof (cases "int (length (apr_Signatures r)) + 1 < SignaturesRequired r")
    case True
    then have r: "?r = r\<lparr>apr_Signatures := apr_Signatures r @ [sg]\<rparr>" by (simp add: add_signature_cases)
    have "apr_Pending ?r t" using Cons.prems(2) r by (simp add: apr_Pending_def)
    moreover have "set (Signatories ?r) = insert (sg_By sg) (set (Signatories r))"
      using collected_pending(2) [OF Cons.prems(3) pending] by (simp add: Signatories_add)
    then have "\<forall>x\<in>set sgs. sg_By x \<noteq> apr_Requester ?r \<and> sg_By x \<notin> set (Signatories ?r)"
      using Cons.prems(4,5) by (auto simp: image_iff)
    ultimately show ?thesis using Cons.IH [of "gset s i ?r" ?r] Cons.prems(4) ok by (simp add: s1)
  next
    case False
    then have r: "apr_State ?r = ApprovalApproved" by (simp add: add_signature_cases)
    have n: "int (length (apr_Signatures r)) < SignaturesRequired r" using Cons.prems(3) pending by (simp add: apr_ok_def)
    with False have e: "nat (SignaturesRequired r) = Suc (length (apr_Signatures r))" by linarith
    have "map_of (sign_all t (gset s i ?r) i sgs) i = Some ?r"
      using sign_all_decided [of "gset s i ?r" i ?r t sgs] r by (simp add: apr_Pending_def)
    then show ?thesis using s1 e r n by auto
  qed
qed

section \<open>Properties\<close>

definition sample_approval :: Approval where
  "sample_approval = \<lparr>apr_ID = ''APR-1'', apr_Team = ''payments'', apr_Change = zero_DesiredItem, apr_Requester = ''ann'',
     apr_RequiredRoles = [''L0-SuperAdmin''], apr_RequiredSignatures = 2, apr_FloorRevision = ''r1'', apr_Reason = ''prod'',
     apr_State = ApprovalPending, apr_ApprovedBy = [], apr_Signatures = [], apr_DeclinedBy = [], apr_DeclinedReason = [],
     apr_CreatedAt = 0, apr_DecidedAt = 0, apr_ExpiresAt = 100\<rparr>"

definition by_person :: "string \<Rightarrow> Signature" where
  "by_person p = \<lparr>sg_By = p, sg_At = 7, sg_Reference = []\<rparr>"

definition sample_store :: approval_map where
  "sample_store = [(''APR-1'', sample_approval)]"

lemma sample_fresh: "fresh sample_approval" "apr_Pending sample_approval 5" "SignaturesRequired sample_approval = 2"
  "apr_Signatures sample_approval = []" "apr_ApprovedBy sample_approval = []" "apr_ID sample_approval = ''APR-1''"
  "apr_Requester sample_approval = ''ann''"
  by (simp_all add: fresh_def sample_approval_def apr_Pending_def SignaturesRequired_def)

lemma sample_opened: "store_step\<^sup>*\<^sup>* (5, [], {}) (5, sample_store, {})"
proof (rule r_into_rtranclp)
  have "mem_Open [] sample_approval = (None, sample_store)"
    by (simp add: mem_Open_def sample_store_def sample_fresh)
  then show "store_step (5, [], {}) (5, sample_store, {})" by (rule opened [OF sample_fresh(1)])
qed

text \<open>C11: separation of duties over every history of the store as the manager drives it. From an empty store, whatever
  sequence of openings, signatures by anybody, reads, and declines of what was read happens as time passes, the people who signed
  a record are distinct and none of them is the requester; a record is approved only when exactly as many people as it
  requires have signed, the last of whom is recorded as the approver, and a pending record still waits for somebody.
  \<open>Decide\<close> itself trusts the record a caller submits (\<open>Decide_trusts_the_submitted_record\<close>), so nothing is said of a
  caller that marks a record approved by hand.\<close>

theorem approvals_take_distinct_people:
  assumes "store_step\<^sup>*\<^sup>* (t0, [], {}) (t, s, reads)" and "map_of s i = Some r"
  shows "distinct (Signatories r) \<and> apr_Requester r \<notin> set (Signatories r) \<and> 1 \<le> SignaturesRequired r \<and>
    (apr_State r = ApprovalApproved \<longrightarrow>
       int (card (set (Signatories r))) = SignaturesRequired r \<and> apr_ApprovedBy r = last (Signatories r)) \<and>
    (apr_State r = ApprovalPending \<longrightarrow> 0 < SignaturesOutstanding r)"
proof -
  have "world_sound (t, s, reads)" using store_steps_sound [OF assms(1)] by (simp add: world_sound_def mem.sound_def)
  then have ok: "apr_ok r" using assms(2) by (simp add: world_sound_def mem.sound_def)
  have "0 < SignaturesOutstanding r" if "apr_State r = ApprovalPending"
    using ok that collected_pending(1) [OF ok that] by (simp add: apr_ok_def SignaturesOutstanding_def)
  then show ?thesis using ok SignaturesRequired_pos [of r] by (simp add: apr_ok_def distinct_card)
qed

theorem approvals_take_distinct_people_witness:
  "\<exists>r. store_step\<^sup>*\<^sup>* (5, [], {}) (5, sample_store, {}) \<and> map_of sample_store ''APR-1'' = Some r \<and> 0 < SignaturesOutstanding r \<and>
     distinct (Signatories r)"
proof -
  have r: "map_of sample_store ''APR-1'' = Some sample_approval" by (simp add: sample_store_def)
  have "apr_State sample_approval = ApprovalPending" by (simp add: sample_approval_def)
  with approvals_take_distinct_people [OF sample_opened r] r sample_opened show ?thesis by blast
qed

text \<open>A decision is final, and approving twice cannot apply twice. A record that is no longer pending, because it
  was approved or declined or its time ran out, is the same record after any further history; every later signature
  and every later decision on it is refused and changes nothing.\<close>

theorem decided_approvals_are_final:
  assumes "store_step\<^sup>*\<^sup>* (t, s, reads) (t', s', reads')" and "map_of s i = Some r" and "\<not> apr_Pending r t"
  shows "map_of s' i = Some r \<and> mem_Sign t' s' i sg = (Inl ApprovalNotPending, s') \<and>
    (apr_ID a = i \<longrightarrow> mem_Decide t' s' a = (Some ApprovalNotPending, s') \<and> mem_Open s' a = (Some (ApprovalExists i), s'))"
proof -
  have "map_of (fst (snd (t', s', reads'))) i = Some r \<and> \<not> apr_Pending r (fst (t', s', reads'))"
    using assms(1)
  proof (induction rule: rtranclp_induct)
    case base
    then show ?case using assms(2,3) by simp
  next
    case (step w w')
    then show ?case using store_step_keeps_decided by blast
  qed
  then show ?thesis by (auto simp: mem_Sign_def mem_Decide_def mem_Open_def)
qed

theorem decided_approvals_are_final_witness:
  "mem_Sign 200 sample_store ''APR-1'' (by_person ''bob'') = (Inl ApprovalNotPending, sample_store)"
proof -
  have r: "map_of sample_store ''APR-1'' = Some sample_approval" by (simp add: sample_store_def)
  have n: "\<not> apr_Pending sample_approval 150" by (simp add: sample_approval_def apr_Pending_def)
  have st: "store_step\<^sup>*\<^sup>* (150, sample_store, {}) (200, sample_store, {})" by (intro r_into_rtranclp tick) simp
  from decided_approvals_are_final [OF st r n] show ?thesis by blast
qed

text \<open>C32: a required set completes, in whatever order people sign. When enough distinct people other than the requester
  sign an open request before it expires, it ends approved and holds exactly the first as many signatures as it
  requires; a signature more is never collected, and with fewer it stays pending.\<close>

theorem required_set_completes:
  assumes "map_of s i = Some r" and "fresh r" and "apr_Pending r t" and "distinct (map sg_By sgs)"
    and "\<forall>sg\<in>set sgs. sg_By sg \<noteq> apr_Requester r"
  shows "\<exists>r'. map_of (sign_all t s i sgs) i = Some r' \<and> apr_Change r' = apr_Change r \<and>
    apr_Signatures r' = take (nat (SignaturesRequired r)) sgs \<and>
    apr_State r' = (if SignaturesRequired r \<le> int (length sgs) then ApprovalApproved else ApprovalPending)"
  using sign_all_collects [OF assms(1,3) fresh_ok [OF assms(2)] assms(4)] assms(2,5)
  by (auto simp: fresh_def Signatories_def CollectedSignatures_def)

theorem required_set_completes_witness:
  "\<exists>r'. map_of (sign_all 5 sample_store ''APR-1'' [by_person ''bob'', by_person ''cyd'', by_person ''dee'']) ''APR-1'' = Some r' \<and>
     apr_Signatures r' = [by_person ''bob'', by_person ''cyd''] \<and> apr_State r' = ApprovalApproved"
proof -
  have r: "map_of sample_store ''APR-1'' = Some sample_approval" by (simp add: sample_store_def)
  have d: "distinct (map sg_By [by_person ''bob'', by_person ''cyd'', by_person ''dee''])"
    "\<forall>sg\<in>set [by_person ''bob'', by_person ''cyd'', by_person ''dee'']. sg_By sg \<noteq> apr_Requester sample_approval"
    by (simp_all add: by_person_def sample_fresh)
  from required_set_completes [OF r sample_fresh(1,2) d] sample_fresh(3) show ?thesis
    by (auto simp: numeral_2_eq_2)
qed

text \<open>The optional signer changes nothing for a change that needs one person. For an unsigned pending record that
  requires one signature and a signer other than the requester, collecting through \<open>Sign\<close> and through the older
  \<open>Decide\<close> yield the same answer and the same store; a store with no signer refuses to collect one of several
  signatures and is left as it was.\<close>

theorem collecting_without_signer_agrees:
  assumes "map_of s (apr_ID a) = Some a" and "fresh a" and "apr_Pending a t" and "sg_By sg \<noteq> apr_Requester a"
  shows "(SignaturesRequired a = 1 \<longrightarrow>
      collectSignature (MemoryApprovals\<lparr>aps_Sign := None\<rparr>) t s a sg = collectSignature MemoryApprovals t s a sg \<and>
      (\<exists>r. collectSignature MemoryApprovals t s a sg = (Inr r, gset s (apr_ID a) r) \<and> apr_State r = ApprovalApproved)) \<and>
    (1 < SignaturesRequired a \<longrightarrow>
      collectSignature (MemoryApprovals\<lparr>aps_Sign := None\<rparr>) t s a sg =
        (Inl (StoreCannotCollectSignatures (SignaturesRequired a) (apr_ID a)), s))"
  using assms
  by (auto simp: collectSignature_def MemoryApprovals_def mem_Sign_def mem_Decide_def fresh_def HasSignatureFrom_def
      CollectedSignatures_def add_signature_cases SignaturesOutstanding_def Let_def)

theorem collecting_without_signer_agrees_witness:
  "\<exists>r. collectSignature (MemoryApprovals\<lparr>aps_Sign := None\<rparr>) 5 [(''APR-1'', sample_approval\<lparr>apr_RequiredSignatures := 0\<rparr>)]
      (sample_approval\<lparr>apr_RequiredSignatures := 0\<rparr>) (by_person ''bob'') = (Inr r, [(''APR-1'', r)]) \<and> apr_State r = ApprovalApproved"
proof -
  let ?a = "sample_approval\<lparr>apr_RequiredSignatures := 0\<rparr>"
  have h: "map_of [(''APR-1'', ?a)] (apr_ID ?a) = Some ?a" "fresh ?a" "apr_Pending ?a 5" "sg_By (by_person ''bob'') \<noteq> apr_Requester ?a"
    "SignaturesRequired ?a = 1" "apr_ID ?a = ''APR-1''"
    by (simp_all add: sample_approval_def fresh_def apr_Pending_def by_person_def SignaturesRequired_def)
  show ?thesis using collecting_without_signer_agrees [OF h(1-4)] h(5,6) by auto
qed

text \<open>The store's guard on decisions reads the count and the signatures of the record it is handed, not of the one it
  holds. A caller that writes a count of zero and its own name into the approver field marks a change approved that
  requires two signatures and has none, and the requester may do it.\<close>

theorem Decide_trusts_the_submitted_record:
  "\<exists>a s'. SignaturesOutstanding sample_approval = 2 \<and> mem_Decide 5 sample_store a = (None, s') \<and>
     map_of s' ''APR-1'' = Some a \<and> apr_State a = ApprovalApproved \<and> apr_Signatures a = [] \<and> apr_ApprovedBy a = apr_Requester sample_approval"
proof -
  let ?a = "sample_approval\<lparr>apr_RequiredSignatures := 0, apr_State := ApprovalApproved, apr_ApprovedBy := ''ann''\<rparr>"
  have "mem_Decide 5 sample_store ?a = (None, [(''APR-1'', ?a)])"
    by (simp add: mem_Decide_def sample_store_def sample_approval_def apr_Pending_def SignaturesOutstanding_def
        CollectedSignatures_def SignaturesRequired_def)
  moreover have "SignaturesOutstanding sample_approval = 2"
    by (simp add: sample_approval_def SignaturesOutstanding_def CollectedSignatures_def SignaturesRequired_def)
  moreover have "apr_State ?a = ApprovalApproved" "apr_Signatures ?a = []" "apr_ApprovedBy ?a = apr_Requester sample_approval"
    by (simp_all add: sample_approval_def)
  ultimately show ?thesis by (intro exI [of _ ?a] exI [of _ "[(''APR-1'', ?a)]"]) simp
qed

end
