(* ===== verification/Test_Suite.thy ===== *)
theory Test_Suite
  imports Go_Fmt
begin

text \<open>
  What the conformance suites of the repository share. A case of a suite is the list of its assertions that failed, in
  order, each by the label its definition gives it: \<open>require\<close> is an assertion that stops the case (\<open>t.Fatalf\<close>),
  \<open>expect\<close> one that does not (\<open>t.Errorf\<close>), and \<open>None\<close> is a case that was skipped. \<open>race\<close> runs one operation
  of each of several goroutines in the order the schedule gives: each takes effect at one point under the lock of
  what it is called on, so a schedule is a permutation of the goroutines.
\<close>

type_synonym case_outcome = "string list option"

definition require :: "bool \<Rightarrow> string \<Rightarrow> string list \<Rightarrow> string list" where
  "require b what rest = (if b then rest else [what])"

definition expect :: "bool \<Rightarrow> string \<Rightarrow> string list \<Rightarrow> string list" where
  "expect b what rest = (if b then rest else what # rest)"

text \<open>An operation that must succeed before the case goes on.\<close>

definition succeeds :: "'e option \<times> 's \<Rightarrow> string \<Rightarrow> ('s \<Rightarrow> string list) \<Rightarrow> string list" where
  "succeeds r what rest = (case r of (Some e, s) \<Rightarrow> [what] | (None, s) \<Rightarrow> rest s)"

definition returns :: "'e + 'a \<Rightarrow> string \<Rightarrow> ('a \<Rightarrow> string list) \<Rightarrow> string list" where
  "returns r what rest = (case r of Inl e \<Rightarrow> [what] | Inr a \<Rightarrow> rest a)"

definition yields :: "('e + 'a) \<times> 's \<Rightarrow> string \<Rightarrow> ('a \<Rightarrow> 's \<Rightarrow> string list) \<Rightarrow> string list" where
  "yields r what rest = (case r of (Inl e, s) \<Rightarrow> [what] | (Inr a, s) \<Rightarrow> rest a s)"

fun race :: "('s \<Rightarrow> nat \<Rightarrow> bool \<times> 's) \<Rightarrow> nat list \<Rightarrow> 's \<Rightarrow> nat list \<times> 's" where
  "race attempt [] s = ([], s)"
| "race attempt (n # ns) s =
     (let (accepted, s1) = attempt s n; (others, s2) = race attempt ns s1
      in (if accepted then n # others else others, s2))"

definition schedule :: "nat \<Rightarrow> nat list \<Rightarrow> bool" where
  "schedule n order \<longleftrightarrow> distinct order \<and> set order = {0..<n}"

definition all_passed :: "(string \<times> case_outcome) list \<Rightarrow> bool" where
  "all_passed outcomes \<longleftrightarrow> list_all (\<lambda>(_, r). r = Some []) outcomes"

lemma require_Nil [simp]: "require b what rest = [] \<longleftrightarrow> b \<and> rest = []"
  by (simp add: require_def)

lemma expect_Nil [simp]: "expect b what rest = [] \<longleftrightarrow> b \<and> rest = []"
  by (simp add: expect_def)

lemma succeeds_Nil [simp]: "succeeds r what rest = [] \<longleftrightarrow> (\<exists>s. r = (None, s) \<and> rest s = [])"
  by (cases r) (auto simp: succeeds_def split: option.splits)

lemma returns_Nil [simp]: "returns r what rest = [] \<longleftrightarrow> (\<exists>a. r = Inr a \<and> rest a = [])"
  by (cases r) (auto simp: returns_def)

lemma yields_Nil [simp]: "yields r what rest = [] \<longleftrightarrow> (\<exists>a s. r = (Inr a, s) \<and> rest a s = [])"
  by (cases r) (auto simp: yields_def split: sum.splits)

lemma schedule_length: "schedule n order \<Longrightarrow> length order = n"
  using distinct_card by (fastforce simp: schedule_def)

lemma schedule_Cons:
  assumes "schedule n order" and "0 < n"
  obtains k ks where "order = k # ks"
  using assms schedule_length by (cases order) fastforce+

text \<open>Once everybody is refused, nothing changes any more.\<close>

lemma race_refused:
  assumes "\<And>n. attempt s n = (False, s)"
  shows "race attempt ns s = ([], s)"
  using assms by (induction ns) auto

end
