(* ===== verification/Approvals_Suite.thy ===== *)
theory Approvals_Suite
  imports Approvals Test_Suite
begin

text \<open>
  The conformance suite of an approval store: package \<open>approvalstest\<close> of \<open>mantlekeep-estate\<close>, over any store of the port and
  the fresh state its factory builds. \<open>c k\<close> is the \<open>k\<close>-th reading of the clock in a case, by the case or by the store,
  and \<open>order\<close> the schedule of its goroutines. The properties say that the in-memory store passes every case under
  every schedule, what passing rules out, and what it does not.
\<close>

section \<open>Fixtures\<close>

definition day :: int where "day = 24 * 60 * 60 * 10 ^ 9"

definition approverBob :: string where "approverBob = ''lead-bob''"

definition approval_fixture :: "(nat \<Rightarrow> int) \<Rightarrow> nat \<Rightarrow> string \<Rightarrow> string \<Rightarrow> Approval" where
  "approval_fixture c k aid team =
     \<lparr>apr_ID = aid, apr_Team = team, apr_Change = zero_DesiredItem, apr_Requester = ''dev-alice'', apr_RequiredRoles = [],
      apr_RequiredSignatures = 0, apr_FloorRevision = [], apr_Reason = [], apr_State = ApprovalPending, apr_ApprovedBy = [],
      apr_Signatures = [], apr_DeclinedBy = [], apr_DeclinedReason = [], apr_CreatedAt = c k, apr_DecidedAt = zero_time,
      apr_ExpiresAt = c (k + 1) + day\<rparr>"

definition needing :: "(nat \<Rightarrow> int) \<Rightarrow> nat \<Rightarrow> string \<Rightarrow> string \<Rightarrow> int \<Rightarrow> Approval" where
  "needing c k aid team signatures =
     (approval_fixture c k aid team)\<lparr>apr_RequiredSignatures := signatures, apr_RequiredRoles := [''L1-Architect'', ''L2-Lead'']\<rparr>"

definition signedBy :: "int \<Rightarrow> string \<Rightarrow> Signature" where
  "signedBy t approver = \<lparr>sg_By = approver, sg_At = t, sg_Reference = ''CHG-'' @ approver\<rparr>"

definition racer :: "nat \<Rightarrow> string" where "racer n = ''approver-'' @ dec_nat n"

section \<open>One decision\<close>

definition readBack :: "'s Approvals \<Rightarrow> 's \<Rightarrow> (nat \<Rightarrow> int) \<Rightarrow> string list" where
  "readBack store s0 c =
     succeeds (aps_Open store s0 (approval_fixture c 0 ''AP-1'' ''payments'')) ''opening'' (\<lambda>s.
     returns (aps_Get store (c 2) s ''AP-1'') ''reading back'' (\<lambda>found.
     require (apr_State found = ApprovalPending) ''a freshly opened approval is pending'' []))"

definition decide_attempt :: "'s Approvals \<Rightarrow> (nat \<Rightarrow> int) \<Rightarrow> 's \<Rightarrow> nat \<Rightarrow> bool \<times> 's" where
  "decide_attempt store c s n =
     (let decided = (approval_fixture c (2 + 3 * n) ''AP-RACE'' ''payments'')\<lparr>apr_State := ApprovalApproved,
                      apr_ApprovedBy := racer n\<rparr>
      in case aps_Decide store (c (4 + 3 * n)) s decided of (e, s') \<Rightarrow> (e = None, s'))"

definition onlyOneWins :: "'s Approvals \<Rightarrow> 's \<Rightarrow> (nat \<Rightarrow> int) \<Rightarrow> nat list \<Rightarrow> string list" where
  "onlyOneWins store s0 c order =
     succeeds (aps_Open store s0 (approval_fixture c 0 ''AP-RACE'' ''payments'')) ''opening'' (\<lambda>s.
     require (length (fst (race (decide_attempt store c) order s)) = 1) ''exactly one decision may win'' [])"

definition noSecondDecision :: "'s Approvals \<Rightarrow> 's \<Rightarrow> (nat \<Rightarrow> int) \<Rightarrow> string list" where
  "noSecondDecision store s0 c =
     succeeds (aps_Open store s0 (approval_fixture c 0 ''AP-2'' ''payments'')) ''opening'' (\<lambda>s.
     let approved = (approval_fixture c 2 ''AP-2'' ''payments'')\<lparr>apr_State := ApprovalApproved, apr_ApprovedBy := approverBob\<rparr>
     in succeeds (aps_Decide store (c 4) s approved) ''the first decision must be accepted'' (\<lambda>s.
     let declined = (approval_fixture c 5 ''AP-2'' ''payments'')\<lparr>apr_State := ApprovalDeclined, apr_DeclinedBy := ''lead-carol''\<rparr>
     in require (fst (aps_Decide store (c 7) s declined) \<noteq> None) ''a decided approval was decided again'' []))"

definition listsPending :: "'s Approvals \<Rightarrow> 's \<Rightarrow> (nat \<Rightarrow> int) \<Rightarrow> string list" where
  "listsPending store s0 c =
     succeeds (aps_Open store s0 (approval_fixture c 0 ''AP-A'' ''payments'')) ''opening AP-A'' (\<lambda>s.
     succeeds (aps_Open store s (approval_fixture c 2 ''AP-B'' ''payments'')) ''opening AP-B'' (\<lambda>s.
     succeeds (aps_Open store s (approval_fixture c 4 ''AP-C'' ''treasury'')) ''opening AP-C'' (\<lambda>s.
     returns (aps_Pending store (c 6) s ''payments'') ''listing one team'' (\<lambda>forTeam.
     require (length forTeam = 2) ''payments has 2 waiting'' (
     returns (aps_Pending store (c 7) s []) ''listing every team'' (\<lambda>everybody.
     require (length everybody = 3) ''three approvals are waiting overall'' (
     let approved = (approval_fixture c 8 ''AP-A'' ''payments'')\<lparr>apr_State := ApprovalApproved, apr_ApprovedBy := approverBob\<rparr>
     in succeeds (aps_Decide store (c 10) s approved) ''deciding'' (\<lambda>s.
     returns (aps_Pending store (c 11) s ''payments'') ''a decided approval must leave the queue'' (\<lambda>forTeam.
     require (length forTeam = 1) ''a decided approval must leave the queue'' [])))))))))"

section \<open>Opening\<close>

definition openRefusesATakenID :: "'s Approvals \<Rightarrow> 's \<Rightarrow> (nat \<Rightarrow> int) \<Rightarrow> string list" where
  "openRefusesATakenID store s0 c =
     succeeds (aps_Open store s0 (approval_fixture c 0 ''AP-TAKEN'' ''payments'')) ''opening'' (\<lambda>s.
     require (case fst (aps_Open store s (approval_fixture c 2 ''AP-TAKEN'' ''payments'')) of
                Some (ApprovalExists _) \<Rightarrow> True | _ \<Rightarrow> False)
       ''a taken id was opened a second time'' [])"

definition openKeepsADecidedApproval :: "'s Approvals \<Rightarrow> 's \<Rightarrow> (nat \<Rightarrow> int) \<Rightarrow> string list" where
  "openKeepsADecidedApproval store s0 c =
     succeeds (aps_Open store s0 (approval_fixture c 0 ''AP-DECIDED'' ''payments'')) ''opening'' (\<lambda>s.
     let approved = (approval_fixture c 2 ''AP-DECIDED'' ''payments'')\<lparr>apr_State := ApprovalApproved, apr_ApprovedBy := approverBob\<rparr>
     in succeeds (aps_Decide store (c 4) s approved) ''deciding'' (\<lambda>s.
     let reopened = (approval_fixture c 5 ''AP-DECIDED'' ''payments'')\<lparr>apr_Requester := approverBob\<rparr>;
         s = snd (aps_Open store s reopened)
     in returns (aps_Get store (c 7) s ''AP-DECIDED'') ''reading back'' (\<lambda>after.
     require (apr_State after = ApprovalApproved \<and> apr_ApprovedBy after = approverBob \<and> apr_Requester after = ''dev-alice'')
       ''a decided approval was overwritten by Open'' [])))"

section \<open>A set of signatures\<close>

definition zero_Approval :: Approval where
  "zero_Approval = \<lparr>apr_ID = [], apr_Team = [], apr_Change = zero_DesiredItem, apr_Requester = [], apr_RequiredRoles = [],
     apr_RequiredSignatures = 0, apr_FloorRevision = [], apr_Reason = [], apr_State = ApprovalUnset, apr_ApprovedBy = [],
     apr_Signatures = [], apr_DeclinedBy = [], apr_DeclinedReason = [], apr_CreatedAt = zero_time, apr_DecidedAt = zero_time,
     apr_ExpiresAt = zero_time\<rparr>"

text \<open>A reading whose error the case ignores is the zero value.\<close>

definition or_zero :: "approval_error + Approval \<Rightarrow> Approval" where
  "or_zero r = (case r of Inl _ \<Rightarrow> zero_Approval | Inr a \<Rightarrow> a)"

definition signerOrSkip ::
  "'s Approvals \<Rightarrow> ((int \<Rightarrow> 's \<Rightarrow> string \<Rightarrow> Signature \<Rightarrow> (approval_error + Approval) \<times> 's) \<Rightarrow> string list) \<Rightarrow> case_outcome" where
  "signerOrSkip store body = (case aps_Sign store of None \<Rightarrow> None | Some sign \<Rightarrow> Some (body sign))"

definition partialSetStaysPending :: "'s Approvals \<Rightarrow> 's \<Rightarrow> (nat \<Rightarrow> int) \<Rightarrow> case_outcome" where
  "partialSetStaysPending store s0 c = signerOrSkip store (\<lambda>sign.
     succeeds (aps_Open store s0 (needing c 0 ''AP-PARTIAL'' ''payments'' 2)) ''opening'' (\<lambda>s.
     yields (sign (c 3) s ''AP-PARTIAL'' (signedBy (c 2) approverBob)) ''the first of two signatures must be accepted'' (\<lambda>after s.
     require (apr_State after = ApprovalPending) ''a change whose set is incomplete must still be waiting'' (
     expect (apr_ApprovedBy after = []) ''approvedBy with a signature still outstanding'' (
     returns (aps_Get store (c 4) s ''AP-PARTIAL'') ''reading back'' (\<lambda>found.
     require (Signatories found = [approverBob]) ''want the one person who signed'' (
     expect (SignaturesOutstanding found = 1) ''outstanding, want 1'' (
     let needed = StillNeeded found
     in expect (Contains needed ''1 more signature'') ''StillNeeded does not mention how many'' (
     expect (Contains needed ''L1-Architect'') ''StillNeeded does not mention the role'' (
     expect (Contains needed approverBob) ''StillNeeded does not mention who signed'' (
     returns (aps_Pending store (c 5) s ''payments'') ''a partially signed change must stay in the queue'' (\<lambda>waiting.
     require (length waiting = 1) ''a partially signed change must stay in the queue'' []))))))))))))"

fun signUpTo :: "(int \<Rightarrow> 's \<Rightarrow> string \<Rightarrow> Signature \<Rightarrow> (approval_error + Approval) \<times> 's) \<Rightarrow> (nat \<Rightarrow> int) \<Rightarrow> nat \<Rightarrow> string
    \<Rightarrow> string list \<Rightarrow> 's \<Rightarrow> ('s \<Rightarrow> string list) \<Rightarrow> string list" where
  "signUpTo sign c k aid [] s rest = rest s"
| "signUpTo sign c k aid (approver # approvers) s rest =
     yields (sign (c (k + 1)) s aid (signedBy (c k) approver)) (''signature from '' @ approver) (\<lambda>after s.
     require (apr_State after = ApprovalPending) ''the set completed early'' (signUpTo sign c (k + 2) aid approvers s rest))"

definition assertEverySignatureIsAttributable :: "Approval \<Rightarrow> string list \<Rightarrow> string list" where
  "assertEverySignatureIsAttributable decided rest =
     foldr (\<lambda>sg rest. expect (sg_Reference sg \<noteq> []) (''lost its reference: '' @ sg_By sg)
                        (expect (sg_At sg \<noteq> zero_time) (''has no time: '' @ sg_By sg) rest))
       (apr_Signatures decided) rest"

definition lastSignatureDecides :: "'s Approvals \<Rightarrow> 's \<Rightarrow> (nat \<Rightarrow> int) \<Rightarrow> case_outcome" where
  "lastSignatureDecides store s0 c = signerOrSkip store (\<lambda>sign.
     succeeds (aps_Open store s0 (needing c 0 ''AP-COMPLETE'' ''payments'' 3)) ''opening'' (\<lambda>s.
     signUpTo sign c 2 ''AP-COMPLETE'' [approverBob, ''arch-carol''] s (\<lambda>s.
     yields (sign (c 7) s ''AP-COMPLETE'' (signedBy (c 6) ''sec-dave'')) ''the completing signature'' (\<lambda>decided s.
     require (apr_State decided = ApprovalApproved) ''the set is complete'' (
     expect (apr_ApprovedBy decided = ''sec-dave'') ''want the completing signer'' (
     expect (apr_DecidedAt decided \<noteq> zero_time) ''decidedAt is zero on a completed set'' (
     require (length (Signatories decided) = 3) ''the whole set is the record of who agreed'' (
     assertEverySignatureIsAttributable decided (
     expect (case aps_Pending store (c 8) s ''payments'' of Inl _ \<Rightarrow> True | Inr waiting \<Rightarrow> length waiting = 0)
       ''a completed change stayed in the queue'' [])))))))))"

definition oldSingleSignatureRecordReadsBack :: "'s Approvals \<Rightarrow> 's \<Rightarrow> (nat \<Rightarrow> int) \<Rightarrow> string list" where
  "oldSingleSignatureRecordReadsBack store s0 c =
     (let legacy = (approval_fixture c 0 ''AP-LEGACY'' ''payments'')\<lparr>apr_State := ApprovalApproved, apr_ApprovedBy := approverBob,
                     apr_DecidedAt := c 2\<rparr>
      in succeeds (aps_Open store s0 legacy) ''opening'' (\<lambda>s.
      returns (aps_Get store (c 3) s ''AP-LEGACY'') ''reading back'' (\<lambda>found.
      expect (SignaturesRequired found = 1) ''required on a record written before the field existed'' (
      require (Signatories found = [approverBob]) ''want the person in ApprovedBy'' (
      expect (SignaturesOutstanding found = 0) ''outstanding on a record that was approved'' (
      expect (HasSignatureFrom found approverBob) ''the historical signer does not register as having signed'' (
      expect (Contains (StillNeeded found) ''nothing'') ''StillNeeded on a fully approved record'' [])))))))"

section \<open>What can never fill a slot\<close>

definition noSignerTwice :: "'s Approvals \<Rightarrow> 's \<Rightarrow> (nat \<Rightarrow> int) \<Rightarrow> case_outcome" where
  "noSignerTwice store s0 c = signerOrSkip store (\<lambda>sign.
     succeeds (aps_Open store s0 (needing c 0 ''AP-TWICE'' ''payments'' 2)) ''opening'' (\<lambda>s.
     yields (sign (c 3) s ''AP-TWICE'' (signedBy (c 2) approverBob)) ''first signature'' (\<lambda>_ s.
     let (again, s) = sign (c 5) s ''AP-TWICE'' (signedBy (c 4) approverBob)
     in require (again = Inl DuplicateSignature) ''one person filled two slots of a two-person set'' (
     let found = or_zero (aps_Get store (c 6) s ''AP-TWICE'')
     in require (length (Signatories found) = 1 \<and> apr_State found = ApprovalPending)
          ''the refused repeat must leave the request waiting for somebody else'' []))))"

definition noRequesterSignature :: "'s Approvals \<Rightarrow> 's \<Rightarrow> (nat \<Rightarrow> int) \<Rightarrow> case_outcome" where
  "noRequesterSignature store s0 c = signerOrSkip store (\<lambda>sign.
     let waiting = needing c 0 ''AP-SELF'' ''payments'' 2
     in succeeds (aps_Open store s0 waiting) ''opening'' (\<lambda>s.
     let (own, s) = sign (c 3) s ''AP-SELF'' (signedBy (c 2) (apr_Requester waiting))
     in require (own = Inl SelfApproval) ''the requester signed their own change'' (
     let found = or_zero (aps_Get store (c 4) s ''AP-SELF'')
     in require (length (Signatories found) = 0) ''the signature of the requester was recorded anyway'' [])))"

definition sign_attempt ::
  "(int \<Rightarrow> 's \<Rightarrow> string \<Rightarrow> Signature \<Rightarrow> (approval_error + Approval) \<times> 's) \<Rightarrow> (nat \<Rightarrow> int) \<Rightarrow> 's \<Rightarrow> nat \<Rightarrow> bool \<times> 's" where
  "sign_attempt sign c s n =
     (case sign (c (3 + 2 * n)) s ''AP-SET-RACE'' (signedBy (c (2 + 2 * n)) (racer n)) of
        (Inl _, s') \<Rightarrow> (False, s') | (Inr _, s') \<Rightarrow> (True, s'))"

definition exactlyTheRequiredNumberWin :: "'s Approvals \<Rightarrow> 's \<Rightarrow> (nat \<Rightarrow> int) \<Rightarrow> nat list \<Rightarrow> case_outcome" where
  "exactlyTheRequiredNumberWin store s0 c order = signerOrSkip store (\<lambda>sign.
     succeeds (aps_Open store s0 (needing c 0 ''AP-SET-RACE'' ''payments'' 3)) ''opening'' (\<lambda>s.
     let (accepted, s) = race (sign_attempt sign c) order s
     in require (length accepted = 3) ''distinct signers were accepted, want exactly 3'' (
     returns (aps_Get store (c 34) s ''AP-SET-RACE'') ''reading back'' (\<lambda>found.
     require (apr_State found = ApprovalApproved) ''not approved with every slot filled'' (
     require (length (Signatories found) = 3) ''a signature that was accepted and not stored'' (
     require (distinct (Signatories found)) ''one person filled two slots under concurrency'' (
     require (fst (sign (c 36) s ''AP-SET-RACE'' (signedBy (c 35) ''approver-late'')) = Inl ApprovalNotPending)
       ''a signature was accepted after the set completed'' [])))))))"

definition noApprovalWithSignaturesOutstanding :: "'s Approvals \<Rightarrow> 's \<Rightarrow> (nat \<Rightarrow> int) \<Rightarrow> case_outcome" where
  "noApprovalWithSignaturesOutstanding store s0 c = signerOrSkip store (\<lambda>_.
     succeeds (aps_Open store s0 (needing c 0 ''AP-SHORTCUT'' ''payments'' 2)) ''opening'' (\<lambda>s.
     let shortcut = (needing c 2 ''AP-SHORTCUT'' ''payments'' 2)\<lparr>apr_State := ApprovalApproved, apr_ApprovedBy := approverBob,
                      apr_Signatures := [signedBy (c 4) approverBob]\<rparr>;
         (e, s) = aps_Decide store (c 5) s shortcut
     in require (case e of Some (SignaturesOutstandingError _) \<Rightarrow> True | _ \<Rightarrow> False) ''a record was approved with 1 of 2 signatures'' (
     let declined = (needing c 6 ''AP-SHORTCUT'' ''payments'' 2)\<lparr>apr_State := ApprovalDeclined, apr_DeclinedBy := approverBob,
                      apr_DeclinedReason := ''the rollback plan does not cover the schema change'',
                      apr_Signatures := [signedBy (c 8) approverBob]\<rparr>
     in succeeds (aps_Decide store (c 9) s declined) ''a decline on a partially signed change must be accepted'' (\<lambda>s.
     let found = or_zero (aps_Get store (c 10) s ''AP-SHORTCUT'')
     in expect (length (Signatories found) = 1) ''the decline dropped the signature already collected'' []))))"

text \<open>The whole run. Each case starts from a fresh store; its clock is \<open>c\<close>, and \<open>order\<close> its schedule.\<close>

definition approvals_Run :: "'s Approvals \<Rightarrow> 's \<Rightarrow> (nat \<Rightarrow> int) \<Rightarrow> nat list \<Rightarrow> (string \<times> case_outcome) list" where
  "approvals_Run store s0 c order =
     [(''a pending approval can be read back'', Some (readBack store s0 c)),
      (''only ONE decision wins under concurrency'', Some (onlyOneWins store s0 c order)),
      (''a decided approval cannot be decided again'', Some (noSecondDecision store s0 c)),
      (''pending lists what is waiting'', Some (listsPending store s0 c)),
      (''an id cannot be opened twice'', Some (openRefusesATakenID store s0 c)),
      (''opening a taken id keeps the decided approval'', Some (openKeepsADecidedApproval store s0 c)),
      (''a partial set stays pending and says who is still needed'', partialSetStaysPending store s0 c),
      (''the completing signature decides the record'', lastSignatureDecides store s0 c),
      (''the same person cannot fill two slots'', noSignerTwice store s0 c),
      (''the requester cannot fill a slot'', noRequesterSignature store s0 c),
      (''concurrent distinct signers fill EXACTLY the required number of slots'', exactlyTheRequiredNumberWin store s0 c order),
      (''a record cannot be decided approved with signatures outstanding'', noApprovalWithSignaturesOutstanding store s0 c),
      (''a record written before signatures were a list still reads as approved'', Some (oldSingleSignatureRecordReadsBack store s0 c))]"

section \<open>The in-memory store passes\<close>

text \<open>A case takes less than a day, whatever the clock does in between, and no instant is the zero time.\<close>

definition working_clock :: "(nat \<Rightarrow> int) \<Rightarrow> bool" where
  "working_clock c \<longleftrightarrow> (\<forall>i j. c j < c i + day) \<and> (\<forall>k. c k \<noteq> zero_time)"

lemma in_time [simp]: "working_clock c \<Longrightarrow> c j < c i + day"
  and not_zero [simp]: "working_clock c \<Longrightarrow> c k \<noteq> zero_time"
  by (simp_all add: working_clock_def)

lemma suite_store_ops [simp]:
  "aps_Open MemoryApprovals = mem_Open" "aps_Get MemoryApprovals = mem_Get" "aps_Decide MemoryApprovals = mem_Decide"
  "aps_Pending MemoryApprovals = mem_Pending" "aps_Sign MemoryApprovals = Some mem_Sign"
  by (simp_all add: MemoryApprovals_def)

lemmas fixture_defs = approval_fixture_def needing_def signedBy_def approverBob_def

lemmas store_defs = mem_Open_def mem_Get_def mem_Decide_def mem_Sign_def mem_Pending_def apr_Pending_def add_signature_cases
  SignaturesRequired_def CollectedSignatures_def SignaturesOutstanding_def Signatories_def HasSignatureFrom_def

lemma racer_inject [simp]: "racer m = racer n \<longleftrightarrow> m = n"
  and racer_nonempty [simp]: "racer n \<noteq> []"
  and racer_not_requester [simp]: "racer n \<noteq> ''dev-alice''"
  by (simp_all add: racer_def)

lemma dec_int_one [simp]: "dec_int 1 = ''1''"
  by code_simp

lemma one_decision_cases:
  assumes "working_clock c"
  shows "readBack MemoryApprovals [] c = []" and "noSecondDecision MemoryApprovals [] c = []"
    and "openRefusesATakenID MemoryApprovals [] c = []" and "openKeepsADecidedApproval MemoryApprovals [] c = []"
    and "oldSingleSignatureRecordReadsBack MemoryApprovals [] c = []"
  using assms
  by (simp_all add: readBack_def noSecondDecision_def openRefusesATakenID_def openKeepsADecidedApproval_def Let_def
      oldSingleSignatureRecordReadsBack_def fixture_defs store_defs StillNeeded_def HasPrefix_def)

lemma listing_case: "working_clock c \<Longrightarrow> listsPending MemoryApprovals [] c = []"
  by (simp add: listsPending_def Let_def fixture_defs store_defs)

lemma set_cases:
  assumes "working_clock c"
  shows "partialSetStaysPending MemoryApprovals [] c = Some []" and "lastSignatureDecides MemoryApprovals [] c = Some []"
    and "noSignerTwice MemoryApprovals [] c = Some []" and "noRequesterSignature MemoryApprovals [] c = Some []"
    and "noApprovalWithSignaturesOutstanding MemoryApprovals [] c = Some []"
  using assms
  by (simp_all add: partialSetStaysPending_def lastSignatureDecides_def noSignerTwice_def noRequesterSignature_def Let_def
      noApprovalWithSignaturesOutstanding_def signerOrSkip_def assertEverySignatureIsAttributable_def or_zero_def
      fixture_defs store_defs StillNeeded_def HasPrefix_def)

text \<open>Whoever comes first decides, and everybody after is refused.\<close>

lemma decide_after_decision:
  assumes "map_of s ''AP-RACE'' = Some r" and "apr_State r \<noteq> ApprovalPending"
  shows "decide_attempt MemoryApprovals c s n = (False, s)"
  using assms by (simp add: decide_attempt_def Let_def fixture_defs mem_Decide_def apr_Pending_def)

lemma one_wins:
  assumes "working_clock c" and "schedule 16 order"
  shows "onlyOneWins MemoryApprovals [] c order = []"
proof -
  obtain k ks where order: "order = k # ks" using schedule_Cons [OF assms(2)] by auto
  let ?s = "[(''AP-RACE'', approval_fixture c 0 ''AP-RACE'' ''payments'')]"
  obtain r where first: "decide_attempt MemoryApprovals c ?s k = (True, [(''AP-RACE'', r)])" "apr_State r \<noteq> ApprovalPending"
    using assms(1) by (simp add: decide_attempt_def Let_def fixture_defs store_defs)
  have "race (decide_attempt MemoryApprovals c) ks [(''AP-RACE'', r)] = ([], [(''AP-RACE'', r)])"
    using first(2) by (intro race_refused decide_after_decision) auto
  moreover have "mem_Open [] (approval_fixture c 0 ''AP-RACE'' ''payments'') = (None, ?s)"
    by (simp add: mem_Open_def approval_fixture_def)
  ultimately show ?thesis by (simp add: onlyOneWins_def order first)
qed

text \<open>Distinct signers take the slots in the order they come: after each of them the record holds those accepted so far, and
  it is decided when three are in.\<close>

definition collecting :: "(nat \<Rightarrow> int) \<Rightarrow> approval_map \<Rightarrow> nat list \<Rightarrow> bool" where
  "collecting c s ns \<longleftrightarrow> (\<exists>r. s = [(''AP-SET-RACE'', r)] \<and> apr_Requester r = ''dev-alice'' \<and> apr_RequiredSignatures r = 3 \<and>
     apr_ExpiresAt r = c 1 + day \<and> map sg_By (apr_Signatures r) = map racer ns \<and>
     (if length ns < 3 then apr_State r = ApprovalPending \<and> apr_ApprovedBy r = []
      else apr_State r = ApprovalApproved \<and> length ns = 3))"

lemma sign_collects:
  assumes "working_clock c" and "collecting c s ns" and "n \<notin> set ns"
  shows "if length ns < 3 then \<exists>s'. sign_attempt mem_Sign c s n = (True, s') \<and> collecting c s' (ns @ [n])
    else sign_attempt mem_Sign c s n = (False, s)"
proof -
  obtain r where r: "s = [(''AP-SET-RACE'', r)]" "apr_Requester r = ''dev-alice''" "apr_RequiredSignatures r = 3"
      "apr_ExpiresAt r = c 1 + day" "map sg_By (apr_Signatures r) = map racer ns"
      "if length ns < 3 then apr_State r = ApprovalPending \<and> apr_ApprovedBy r = [] else apr_State r = ApprovalApproved \<and> length ns = 3"
    using assms(2) by (auto simp: collecting_def)
  have len: "length (apr_Signatures r) = length ns" using arg_cong [OF r(5), of length] by simp
  have "racer n \<notin> set (map sg_By (apr_Signatures r))" unfolding r(5) using assms(3) by auto
  then have new: "\<not> list_ex (\<lambda>sg. sg_By sg = racer n) (apr_Signatures r)"
    by (auto simp: list_ex_iff image_iff)
  show ?thesis
    using assms(1) r len new
    by (auto simp: sign_attempt_def mem_Sign_def signedBy_def apr_Pending_def add_signature_cases HasSignatureFrom_def
        CollectedSignatures_def SignaturesRequired_def collecting_def)
qed

lemma race_collects:
  assumes "working_clock c"
  shows "collecting c s ns \<Longrightarrow> distinct (ns @ ks) \<Longrightarrow>
    \<exists>s'. race (sign_attempt mem_Sign c) ks s = (take (3 - length ns) ks, s') \<and> collecting c s' (ns @ take (3 - length ns) ks)"
proof (induction ks arbitrary: s ns)
  case (Cons k ks)
  show ?case
  proof (cases "length ns < 3")
    case True
    then obtain s1 where one: "sign_attempt mem_Sign c s k = (True, s1)" "collecting c s1 (ns @ [k])"
      using sign_collects [OF assms Cons.prems(1), of k] Cons.prems(2) by auto
    obtain s' where "race (sign_attempt mem_Sign c) ks s1 = (take (2 - length ns) ks, s')"
        "collecting c s' ((ns @ [k]) @ take (2 - length ns) ks)"
      using Cons.IH [OF one(2)] Cons.prems(2) by auto
    moreover have "take (3 - length ns) (k # ks) = k # take (2 - length ns) ks"
      using True by (simp add: take_Cons')
    ultimately show ?thesis using one(1) by simp
  next
    case False
    then have "sign_attempt mem_Sign c s k = (False, s)"
      using sign_collects [OF assms Cons.prems(1), of k] Cons.prems(2) by auto
    then show ?thesis using Cons.IH [OF Cons.prems(1)] Cons.prems(2) False by auto
  qed
qed simp

lemma required_number_wins:
  assumes "working_clock c" and "schedule 16 order"
  shows "exactlyTheRequiredNumberWin MemoryApprovals [] c order = Some []"
proof -
  let ?s = "[(''AP-SET-RACE'', needing c 0 ''AP-SET-RACE'' ''payments'' 3)]"
  have "collecting c ?s []" by (simp add: collecting_def fixture_defs)
  then obtain s where race: "race (sign_attempt mem_Sign c) order ?s = (take 3 order, s)" "collecting c s (take 3 order)"
    using race_collects [OF assms(1), of ?s "[]" order] assms(2) by (auto simp: schedule_def)
  have three: "length (take 3 order) = 3" using schedule_length [OF assms(2)] by simp
  obtain r where r: "s = [(''AP-SET-RACE'', r)]" "apr_State r = ApprovalApproved"
      "map sg_By (apr_Signatures r) = map racer (take 3 order)"
    using race(2) three by (auto simp: collecting_def)
  have sigs: "Signatories r = map racer (take 3 order)"
    using r(3) arg_cong [OF r(3), of length] three by (auto simp: Signatories_def CollectedSignatures_def)
  have dist: "distinct (Signatories r)"
    unfolding sigs using assms(2) by (auto simp: distinct_map inj_on_def schedule_def)
  have opened: "mem_Open [] (needing c 0 ''AP-SET-RACE'' ''payments'' 3) = (None, ?s)"
    by (simp add: mem_Open_def fixture_defs)
  have len: "length (Signatories r) = 3" unfolding sigs using three by simp
  show ?thesis
    unfolding exactlyTheRequiredNumberWin_def signerOrSkip_def
    using three r(1,2) dist len by (simp add: opened race(1) mem_Get_def mem_Sign_def apr_Pending_def)
qed

section \<open>Properties\<close>

text \<open>C27: the in-memory store keeps the contract the repository ships as a suite. From a fresh store every one of the thirteen
  cases passes and none is skipped, whatever the readings of the clock within a day, and whichever way the sixteen goroutines of a race
  are scheduled: one decision wins, and exactly as many distinct signatures as the change requires.\<close>

theorem memory_approvals_pass_the_suite:
  assumes "working_clock c" and "schedule 16 order"
  shows "all_passed (approvals_Run MemoryApprovals [] c order)"
  using one_decision_cases [OF assms(1)] listing_case [OF assms(1)] set_cases [OF assms(1)] one_wins [OF assms]
    required_number_wins [OF assms]
  by (simp add: all_passed_def approvals_Run_def)

lemma sample_clock: "working_clock (\<lambda>k. int k mod 7)"
  by (auto simp: working_clock_def day_def zero_time_def)

theorem memory_approvals_pass_the_suite_witness:
  "all_passed (approvals_Run MemoryApprovals [] (\<lambda>k. int k mod 7) [15, 14, 13, 12, 11, 10, 9, 8, 7, 6, 5, 4, 3, 2, 1, 0])"
proof -
  have "schedule 16 [15, 14, 13, 12, 11, 10, 9, 8, 7, 6, 5, 4, 3, 2, 1, 0]" by code_simp
  then show ?thesis by (rule memory_approvals_pass_the_suite [OF sample_clock])
qed

text \<open>The suite tells a broken store apart: one whose \<open>Open\<close> overwrites, one that does not look at the record it decides, and one
  that counts a second signature of the same person, each fail the case written for it.\<close>

definition overwriting_store :: "approval_map Approvals" where
  "overwriting_store = MemoryApprovals\<lparr>aps_Open := (\<lambda>by a. (None, gset by (apr_ID a) a))\<rparr>"

definition last_word_store :: "approval_map Approvals" where
  "last_word_store = MemoryApprovals\<lparr>aps_Decide := (\<lambda>now by a. (None, gset by (apr_ID a) a))\<rparr>"

definition counting_store :: "approval_map Approvals" where
  "counting_store = MemoryApprovals\<lparr>aps_Sign := Some (\<lambda>now by aid sg. case map_of by aid of None \<Rightarrow> (Inl ApprovalNotFound, by)
     | Some a \<Rightarrow> (Inr (add_signature a sg), gset by aid (add_signature a sg)))\<rparr>"

lemma race_accepts_all: "(\<And>s n. fst (attempt s n)) \<Longrightarrow> fst (race attempt ns s) = ns"
  by (induction ns arbitrary: s) (auto simp: split_beta Let_def)

lemma suite_catches_broken_stores:
  "openRefusesATakenID overwriting_store [] c \<noteq> []" "openKeepsADecidedApproval overwriting_store [] c \<noteq> []"
  "schedule 16 order \<Longrightarrow> onlyOneWins last_word_store [] c order \<noteq> []"
  "noSignerTwice counting_store [] c \<noteq> Some []"
proof -
  show "schedule 16 order \<Longrightarrow> onlyOneWins last_word_store [] c order \<noteq> []"
    using race_accepts_all [of "decide_attempt last_word_store c" order] schedule_length [of 16 order]
    by (simp add: onlyOneWins_def decide_attempt_def last_word_store_def Let_def)
qed (simp_all add: openRefusesATakenID_def openKeepsADecidedApproval_def noSignerTwice_def overwriting_store_def counting_store_def
    signerOrSkip_def Let_def fixture_defs store_defs)

end
