(* ===== verification/Fleet.thy ===== *)
theory Fleet
  imports Estate_Resolve Go_Fmt
begin

text \<open>
  Changes to the runtime itself: \<open>fleet.go\<close> of \<open>mantlekeep-estate\<close> (its ownership of fields and the comparison of
  fleet state are in the theory Drift). An operation is a string, known or not; its consequence is code. A node count
  is an unbounded integer, read from a request by \<open>strconv.Atoi\<close> with the range of a 64-bit int. JSON decoding is
  outside the model: a decoded manifest is the input.
\<close>

section \<open>Consequence\<close>

datatype Consequence = ConsequenceReversible | ConsequenceDisruptive | ConsequenceIrreversible

type_synonym FleetOperation = string

definition OperationRegisterCluster :: FleetOperation where "OperationRegisterCluster = ''register-cluster''"
definition OperationRemoveCluster :: FleetOperation where "OperationRemoveCluster = ''remove-cluster''"
definition OperationScaleNodePool :: FleetOperation where "OperationScaleNodePool = ''scale-node-pool''"
definition OperationChangeNodeInstanceType :: FleetOperation where
  "OperationChangeNodeInstanceType = ''change-node-instance-type''"
definition OperationChangeStorageClass :: FleetOperation where "OperationChangeStorageClass = ''change-storage-class''"
definition OperationSwapNetworkPlugin :: FleetOperation where "OperationSwapNetworkPlugin = ''swap-network-plugin''"
definition OperationSwapIngressController :: FleetOperation where
  "OperationSwapIngressController = ''swap-ingress-controller''"
definition OperationUpgradeKubernetes :: FleetOperation where "OperationUpgradeKubernetes = ''upgrade-kubernetes''"

definition kindControlPlane :: string where "kindControlPlane = ''control-plane''"

lemmas operation_names = OperationRegisterCluster_def OperationRemoveCluster_def OperationScaleNodePool_def
  OperationChangeNodeInstanceType_def OperationChangeStorageClass_def OperationSwapNetworkPlugin_def
  OperationSwapIngressController_def OperationUpgradeKubernetes_def

definition fleetConsequences :: "Consequence gomap" where
  "fleetConsequences =
     [(OperationScaleNodePool, ConsequenceReversible), (OperationChangeNodeInstanceType, ConsequenceDisruptive),
      (OperationRegisterCluster, ConsequenceDisruptive), (OperationChangeStorageClass, ConsequenceIrreversible),
      (OperationSwapNetworkPlugin, ConsequenceIrreversible), (OperationSwapIngressController, ConsequenceIrreversible),
      (OperationUpgradeKubernetes, ConsequenceIrreversible), (OperationRemoveCluster, ConsequenceIrreversible)]"

definition ConsequenceOf :: "FleetOperation \<Rightarrow> Consequence option" where
  "ConsequenceOf operation = map_of fleetConsequences operation"

definition oneStepLighter :: "Tier \<Rightarrow> Tier" where
  "oneStepLighter tier = (if tier = TierProd then TierShared else TierDev)"

definition TierForFleetOperation :: "FleetOperation \<Rightarrow> Tier \<Rightarrow> Tier" where
  "TierForFleetOperation operation cluster =
     (case map_of fleetConsequences operation of
        None \<Rightarrow> TierProd
      | Some ConsequenceIrreversible \<Rightarrow> TierProd
      | Some ConsequenceDisruptive \<Rightarrow> cluster
      | Some ConsequenceReversible \<Rightarrow> oneStepLighter cluster)"

section \<open>Versions and numbers\<close>

text \<open>\<open>strings.SplitN\<close> with a one byte separator: at most \<open>n\<close> parts, the last of which is the rest.\<close>

fun splitN :: "nat \<Rightarrow> char \<Rightarrow> string \<Rightarrow> string list" where
  "splitN 0 sep s = []"
| "splitN (Suc 0) sep s = [s]"
| "splitN (Suc (Suc n)) sep s =
     (let h = takeWhile (\<lambda>c. c \<noteq> sep) s; t = dropWhile (\<lambda>c. c \<noteq> sep) s
      in if t = [] then [s] else h # splitN (Suc n) sep (tl t))"

definition is_digit :: "char \<Rightarrow> bool" where
  "is_digit c = (let n = of_char c :: nat in 48 \<le> n \<and> n \<le> 57)"

definition digits :: "string \<Rightarrow> bool" where
  "digits s \<longleftrightarrow> s \<noteq> [] \<and> list_all is_digit s"

text \<open>\<open>^[0-9]+[.][0-9]+([.][0-9]+)?$\<close>\<close>

definition kubernetesVersion :: "string \<Rightarrow> bool" where
  "kubernetesVersion s \<longleftrightarrow>
     (let parts = splitN 4 (CHR ''.'') s in (length parts = 2 \<or> length parts = 3) \<and> list_all digits parts)"

text \<open>\<open>strconv.Atoi\<close> on a 64-bit platform: an optional sign and digits, in the range of an int64.\<close>

definition Atoi :: "string \<Rightarrow> int option" where
  "Atoi s =
     (let neg = (take 1 s = [CHR 0x2D]); body = (if neg \<or> take 1 s = ''+'' then drop 1 s else s);
          v = (if neg then - int (parse_nat 0 body) else int (parse_nat 0 body))
      in if digits body \<and> - (2 ^ 63) \<le> v \<and> v < 2 ^ 63 then Some v else None)"

definition minorLine :: "string \<Rightarrow> string" where
  "minorLine version =
     (let parts = splitN 3 (CHR ''.'') version
      in if length parts < 2 then version else parts ! 0 @ ''.'' @ parts ! 1)"

definition minorRank :: "string \<Rightarrow> int" where
  "minorRank version =
     (let parts = splitN 2 (CHR ''.'') (minorLine version)
      in if length parts \<noteq> 2 then -1
         else (case (Atoi (parts ! 0), Atoi (parts ! 1)) of
                 (Some major, Some minor) \<Rightarrow> major * 1000 + minor
               | _ \<Rightarrow> -1))"

section \<open>A cluster as declared\<close>

record NodePool =
  np_Name :: string
  np_Size :: int
  np_InstanceType :: string

record FleetManifest =
  fm_Cluster :: string
  fm_Team :: string
  fm_Tier :: Tier
  fm_KubernetesVersion :: string
  fm_StorageClass :: string
  fm_NetworkPlugin :: string
  fm_IngressController :: string
  fm_NodePools :: "NodePool list"

datatype fleet_manifest_error =
    BadClusterName string
  | BadFleetTeam string
  | NoTier string
  | BadFleetTier Tier
  | UnpinnedVersion string
  | BadStorageClass string
  | BadNetworkPlugin string
  | BadIngressController string
  | BadPoolName string
  | PoolTwice string
  | NegativePool string int
  | BadInstanceType string string

fun validateNodePools :: "string list \<Rightarrow> NodePool list \<Rightarrow> fleet_manifest_error option" where
  "validateNodePools seen [] = None"
| "validateNodePools seen (p # ps) =
     (if \<not> valid_name (np_Name p) then Some (BadPoolName (np_Name p))
      else if np_Name p \<in> set seen then Some (PoolTwice (np_Name p))
      else if np_Size p < 0 then Some (NegativePool (np_Name p) (np_Size p))
      else if \<not> valid_name (np_InstanceType p) then Some (BadInstanceType (np_Name p) (np_InstanceType p))
      else validateNodePools (np_Name p # seen) ps)"

definition fleet_validate :: "FleetManifest \<Rightarrow> fleet_manifest_error option" where
  "fleet_validate f =
     (if \<not> valid_name (fm_Cluster f) then Some (BadClusterName (fm_Cluster f))
      else if \<not> valid_name (fm_Team f) then Some (BadFleetTeam (fm_Team f))
      else if fm_Tier f = [] then Some (NoTier (fm_Cluster f))
      else if \<not> tier_valid (fm_Tier f) then Some (BadFleetTier (fm_Tier f))
      else if \<not> kubernetesVersion (fm_KubernetesVersion f) then Some (UnpinnedVersion (fm_KubernetesVersion f))
      else if \<not> valid_name (fm_StorageClass f) then Some (BadStorageClass (fm_StorageClass f))
      else if \<not> valid_name (fm_NetworkPlugin f) then Some (BadNetworkPlugin (fm_NetworkPlugin f))
      else if fm_IngressController f \<noteq> [] \<and> \<not> valid_name (fm_IngressController f)
      then Some (BadIngressController (fm_IngressController f))
      else validateNodePools [] (fm_NodePools f))"

definition ParseFleetManifest :: "FleetManifest \<Rightarrow> fleet_manifest_error + FleetManifest" where
  "ParseFleetManifest decoded = (case fleet_validate decoded of Some e \<Rightarrow> Inl e | None \<Rightarrow> Inr decoded)"

definition fleet_allows :: "FleetFloor \<Rightarrow> string \<Rightarrow> bool" where
  "fleet_allows f version \<longleftrightarrow> list_ex (\<lambda>allowed. minorLine allowed = minorLine version) (ff_KubernetesVersions f)"

definition allowsInstanceType :: "NodePoolLimits \<Rightarrow> string \<Rightarrow> bool" where
  "allowsInstanceType l instance_type \<longleftrightarrow> list_ex (\<lambda>allowed. allowed = instance_type) (nl_AllowedInstanceTypes l)"

section \<open>The declared cluster, resolved\<close>

datatype fleet_resolve_error =
    FleetManifestInvalid fleet_manifest_error
  | NoPoolFloor Tier
  | VersionUnsupported string
  | PoolTooLarge string int int \<comment> \<open>pool, size, maximum\<close>
  | PoolTooSmall string int int
  | PoolTypeRefused string string
  | WrongCluster string string
  | Unclassified FleetOperation
  | NoSuchPool string
  | NotANumber string
  | ScaleOutside string int
  | TypeRefused string
  | NotPinned string
  | Downgrade string string
  | BadValue string

definition fleet_slot :: "string \<Rightarrow> string \<Rightarrow> Slot" where
  "fleet_slot cluster n = \<lparr>sl_Cluster = cluster, sl_Namespace = [], sl_Name = n\<rparr>"

definition cluster_state :: "FleetManifest \<Rightarrow> string gomap" where
  "cluster_state c =
     (let st = [(''storageClass'', fm_StorageClass c), (''networkPlugin'', fm_NetworkPlugin c)]
      in if fm_IngressController c \<noteq> [] then gset st ''ingressController'' (fm_IngressController c) else st)"

definition pool_state :: "NodePool \<Rightarrow> NodePoolLimits \<Rightarrow> string gomap" where
  "pool_state p l = [(''nodePoolSize'', dec_int (np_Size p)), (''instanceType'', np_InstanceType p),
     (''nodePoolMaxNodes'', dec_int (nl_MaxNodes l))]"

definition fleet_item :: "FleetManifest \<Rightarrow> Floor \<Rightarrow> FleetOperation \<Rightarrow> DesiredItem" where
  "fleet_item c f operation =
     (let tier = TierForFleetOperation operation (fm_Tier c)
      in zero_DesiredItem\<lparr>di_Asset := ''fleet'', di_Cluster := fm_Cluster c, di_Tier := tier, di_Gate := GateFor f tier\<rparr>)"

definition cluster_item :: "FleetManifest \<Rightarrow> Floor \<Rightarrow> DesiredItem" where
  "cluster_item c f = (fleet_item c f OperationChangeStorageClass)
     \<lparr>di_Kind := ''cluster'', di_Name := fm_Cluster c, di_Slot := fleet_slot (fm_Cluster c) ''cluster'', di_State := cluster_state c\<rparr>"

definition control_plane_item :: "FleetManifest \<Rightarrow> Floor \<Rightarrow> DesiredItem" where
  "control_plane_item c f = (fleet_item c f OperationUpgradeKubernetes)
     \<lparr>di_Kind := kindControlPlane, di_Name := fm_Cluster c @ ''/'' @ kindControlPlane,
      di_Slot := fleet_slot (fm_Cluster c) kindControlPlane,
      di_Limits := LControlPlane (ff_KubernetesVersions (fl_Fleet f)),
      di_State := (let st = [(''kubernetesVersion'', fm_KubernetesVersion c)]
                   in if length (filter (\<lambda>ch. ch = CHR ''.'') (fm_KubernetesVersion c)) = 2
                      then gset st ''kubernetesPatch'' (fm_KubernetesVersion c) else st)\<rparr>"

definition pool_item :: "FleetManifest \<Rightarrow> Floor \<Rightarrow> NodePoolLimits \<Rightarrow> NodePool \<Rightarrow> fleet_resolve_error + DesiredItem" where
  "pool_item c f l p =
     (if nl_MaxNodes l < np_Size p then Inl (PoolTooLarge (np_Name p) (np_Size p) (nl_MaxNodes l))
      else if np_Size p < nl_MinNodes l then Inl (PoolTooSmall (np_Name p) (np_Size p) (nl_MinNodes l))
      else if \<not> allowsInstanceType l (np_InstanceType p) then Inl (PoolTypeRefused (np_Name p) (np_InstanceType p))
      else Inr ((fleet_item c f OperationChangeNodeInstanceType)
        \<lparr>di_Kind := ''node-pool'', di_Name := fm_Cluster c @ ''/'' @ np_Name p, di_Slot := fleet_slot (fm_Cluster c) (np_Name p),
         di_Limits := LNodePool l, di_State := pool_state p l\<rparr>))"

definition ResolveFleet :: "FleetManifest \<Rightarrow> Floor \<Rightarrow> fleet_resolve_error + Desired" where
  "ResolveFleet c f =
     (case fleet_validate c of
        Some e \<Rightarrow> Inl (FleetManifestInvalid e)
      | None \<Rightarrow>
          (case map_of (ff_NodePool (fl_Fleet f)) (fm_Tier c) of
             None \<Rightarrow> Inl (NoPoolFloor (fm_Tier c))
           | Some l \<Rightarrow>
               if \<not> fleet_allows (fl_Fleet f) (fm_KubernetesVersion c) then Inl (VersionUnsupported (fm_KubernetesVersion c))
               else (case collect (pool_item c f l) (fm_NodePools c) of
                       Inl e \<Rightarrow> Inl e
                     | Inr pools \<Rightarrow> Inr \<lparr>des_Team = fm_Team c, des_Owns = fm_Cluster c,
                         des_Changes = cluster_item c f # control_plane_item c f # pools\<rparr>)))"

section \<open>One requested change\<close>

record FleetChange =
  fc_Cluster :: string
  fc_Operation :: FleetOperation
  fc_NodePool :: string
  fc_To :: string

definition fm_pool :: "FleetManifest \<Rightarrow> string \<Rightarrow> NodePool option" where
  "fm_pool f n = find (\<lambda>p. np_Name p = n) (fm_NodePools f)"

definition fieldFor :: "FleetOperation \<Rightarrow> string" where
  "fieldFor operation =
     (if operation = OperationSwapNetworkPlugin then ''networkPlugin''
      else if operation = OperationSwapIngressController then ''ingressController'' else ''storageClass'')"

definition applyToNodePool ::
  "FleetChange \<Rightarrow> FleetManifest \<Rightarrow> NodePoolLimits \<Rightarrow> DesiredItem \<Rightarrow> fleet_resolve_error + DesiredItem" where
  "applyToNodePool ch c l item =
     (case fm_pool c (fc_NodePool ch) of
        None \<Rightarrow> Inl (NoSuchPool (fc_NodePool ch))
      | Some p \<Rightarrow>
          (let it = item\<lparr>di_Kind := ''node-pool'', di_Name := fm_Cluster c @ ''/'' @ np_Name p,
                 di_Slot := fleet_slot (fm_Cluster c) (np_Name p), di_Limits := LNodePool l, di_State := pool_state p l\<rparr>
           in if fc_Operation ch = OperationScaleNodePool
              then (case Atoi (fc_To ch) of
                      None \<Rightarrow> Inl (NotANumber (fc_To ch))
                    | Some n \<Rightarrow>
                        if nl_MaxNodes l < n \<or> n < nl_MinNodes l then Inl (ScaleOutside (np_Name p) n)
                        else Inr (it\<lparr>di_State := gset (di_State it) ''nodePoolSize'' (dec_int n)\<rparr>))
              else if \<not> allowsInstanceType l (fc_To ch) then Inl (TypeRefused (fc_To ch))
              else Inr (it\<lparr>di_State := gset (di_State it) ''instanceType'' (fc_To ch)\<rparr>)))"

definition applyToControlPlane :: "FleetChange \<Rightarrow> FleetManifest \<Rightarrow> Floor \<Rightarrow> DesiredItem \<Rightarrow> fleet_resolve_error + DesiredItem" where
  "applyToControlPlane ch c f item =
     (if \<not> kubernetesVersion (fc_To ch) then Inl (NotPinned (fc_To ch))
      else if \<not> fleet_allows (fl_Fleet f) (fc_To ch) then Inl (VersionUnsupported (fc_To ch))
      else if minorRank (fc_To ch) < minorRank (fm_KubernetesVersion c)
      then Inl (Downgrade (fm_KubernetesVersion c) (fc_To ch))
      else Inr (item\<lparr>di_Kind := kindControlPlane, di_Name := fm_Cluster c @ ''/'' @ kindControlPlane,
        di_Slot := fleet_slot (fm_Cluster c) kindControlPlane,
        di_Limits := LControlPlane (ff_KubernetesVersions (fl_Fleet f)), di_State := [(''kubernetesVersion'', fc_To ch)]\<rparr>))"

definition applyToClusterField :: "FleetChange \<Rightarrow> FleetManifest \<Rightarrow> DesiredItem \<Rightarrow> fleet_resolve_error + DesiredItem" where
  "applyToClusterField ch c item =
     (if \<not> valid_name (fc_To ch) then Inl (BadValue (fc_To ch))
      else Inr (item\<lparr>di_Kind := ''cluster'', di_Name := fm_Cluster c, di_Slot := fleet_slot (fm_Cluster c) ''cluster'',
        di_State := gset (cluster_state c) (fieldFor (fc_Operation ch)) (fc_To ch)\<rparr>))"

definition applyToClusterLifecycle :: "FleetChange \<Rightarrow> FleetManifest \<Rightarrow> DesiredItem \<Rightarrow> DesiredItem" where
  "applyToClusterLifecycle ch c item =
     item\<lparr>di_Kind := ''cluster'', di_Name := fm_Cluster c, di_Slot := fleet_slot (fm_Cluster c) ''cluster'',
       di_State := [(''clusterLifecycle'', if fc_Operation ch = OperationRemoveCluster then ''removed'' else ''registered'')]\<rparr>"

definition fleet_AsChange :: "FleetChange \<Rightarrow> FleetManifest \<Rightarrow> Floor \<Rightarrow> fleet_resolve_error + DesiredItem" where
  "fleet_AsChange ch c f =
     (case fleet_validate c of
        Some e \<Rightarrow> Inl (FleetManifestInvalid e)
      | None \<Rightarrow>
          if fc_Cluster ch \<noteq> fm_Cluster c then Inl (WrongCluster (fc_Cluster ch) (fm_Cluster c))
          else if ConsequenceOf (fc_Operation ch) = None then Inl (Unclassified (fc_Operation ch))
          else (case map_of (ff_NodePool (fl_Fleet f)) (fm_Tier c) of
                  None \<Rightarrow> Inl (NoPoolFloor (fm_Tier c))
                | Some l \<Rightarrow>
                    (let item = fleet_item c f (fc_Operation ch)
                     in if fc_Operation ch \<in> {OperationScaleNodePool, OperationChangeNodeInstanceType}
                        then applyToNodePool ch c l item
                        else if fc_Operation ch = OperationUpgradeKubernetes then applyToControlPlane ch c f item
                        else if fc_Operation ch \<in> {OperationChangeStorageClass, OperationSwapNetworkPlugin,
                                                    OperationSwapIngressController}
                        then applyToClusterField ch c item
                        else if fc_Operation ch \<in> {OperationRegisterCluster, OperationRemoveCluster}
                        then Inr (applyToClusterLifecycle ch c item)
                        else Inr item)))"

section \<open>What resolution guarantees\<close>

lemma fleet_item_sel [simp]:
  "di_Asset (fleet_item c f op) = ''fleet''" "di_Cluster (fleet_item c f op) = fm_Cluster c"
  "di_Tier (fleet_item c f op) = TierForFleetOperation op (fm_Tier c)"
  "di_Gate (fleet_item c f op) = GateFor f (TierForFleetOperation op (fm_Tier c))"
  by (simp_all add: fleet_item_def Let_def zero_DesiredItem_def)

lemma validateNodePools_None:
  "validateNodePools seen ps = None \<Longrightarrow>
     distinct (map np_Name ps) \<and> set (map np_Name ps) \<inter> set seen = {} \<and> (\<forall>p\<in>set ps. 0 \<le> np_Size p \<and> valid_name (np_Name p))"
  by (induction seen ps rule: validateNodePools.induct) (auto split: if_splits)

lemma fleet_validate_None:
  assumes "fleet_validate c = None"
  shows "tier_valid (fm_Tier c)" "kubernetesVersion (fm_KubernetesVersion c)" "distinct (map np_Name (fm_NodePools c))"
    "valid_name (fm_Cluster c)"
  using assms validateNodePools_None [of "[]" "fm_NodePools c"] by (auto simp: fleet_validate_def split: if_splits)

lemma pool_item_Inr:
  assumes "pool_item c f l p = Inr i"
  shows "nl_MinNodes l \<le> np_Size p" "np_Size p \<le> nl_MaxNodes l" "np_InstanceType p \<in> set (nl_AllowedInstanceTypes l)"
    "di_Kind i = ''node-pool''" "di_Slot i = fleet_slot (fm_Cluster c) (np_Name p)" "di_Name i = fm_Cluster c @ ''/'' @ np_Name p"
    "di_Tier i = fm_Tier c" "di_Gate i = GateFor f (fm_Tier c)" "di_Limits i = LNodePool l" "di_State i = pool_state p l"
    "di_Asset i = ''fleet''"
  using assms
  by (auto simp: pool_item_def allowsInstanceType_def list_ex_iff TierForFleetOperation_def fleetConsequences_def operation_names
      split: if_splits)

lemma cluster_items:
  "di_Kind (cluster_item c f) = ''cluster''" "di_Slot (cluster_item c f) = fleet_slot (fm_Cluster c) ''cluster''"
  "di_Tier (cluster_item c f) = TierProd" "di_Gate (cluster_item c f) = GateFor f TierProd"
  "di_Kind (control_plane_item c f) = ''control-plane''" "di_Slot (control_plane_item c f) = fleet_slot (fm_Cluster c) ''control-plane''"
  "di_Tier (control_plane_item c f) = TierProd" "di_Gate (control_plane_item c f) = GateFor f TierProd"
  by (simp_all add: cluster_item_def control_plane_item_def kindControlPlane_def TierForFleetOperation_def
      fleetConsequences_def operation_names)

lemma ResolveFleet_Inr:
  assumes "ResolveFleet c f = Inr d"
  shows "\<exists>l pools. fleet_validate c = None \<and> map_of (ff_NodePool (fl_Fleet f)) (fm_Tier c) = Some l \<and>
     fleet_allows (fl_Fleet f) (fm_KubernetesVersion c) \<and> collect (pool_item c f l) (fm_NodePools c) = Inr pools \<and>
     des_Changes d = cluster_item c f # control_plane_item c f # pools"
  using assms by (auto simp: ResolveFleet_def split: option.splits sum.splits if_splits)

lemma fleet_slot_inject [simp]: "fleet_slot c n = fleet_slot c' n' \<longleftrightarrow> c = c' \<and> n = n'"
  by (simp add: fleet_slot_def)

lemma irreversible_gate:
  assumes "raising_floor f" and "ConsequenceOf op = Some ConsequenceIrreversible"
  shows "GateFor f (TierForFleetOperation op t) = GatePlatform"
proof -
  have "TierForFleetOperation op t = TierProd"
    using assms(2) by (simp add: TierForFleetOperation_def ConsequenceOf_def)
  moreover have "3 \<le> gate_Strength (GateFor f TierProd)"
    using raising_floor.gate_raised [OF assms(1), of TierProd GatePlatform] by (simp add: DefaultGates_def tier_names)
  ultimately show ?thesis using gate_Strength_le [of "GateFor f TierProd"] gate_Strength_3 by fastforce
qed

text \<open>What an accepted request resolves to, by the kind of thing it changes.\<close>

lemma fleet_AsChange_Inr:
  assumes "fleet_AsChange ch c f = Inr item"
  shows "fleet_validate c = None" "fc_Cluster ch = fm_Cluster c" "\<exists>k. ConsequenceOf (fc_Operation ch) = Some k"
    "di_Tier item = TierForFleetOperation (fc_Operation ch) (fm_Tier c)" "di_Gate item = GateFor f (di_Tier item)"
    "di_Cluster item = fm_Cluster c" "di_Asset item = ''fleet''"
proof -
  obtain l where l: "map_of (ff_NodePool (fl_Fleet f)) (fm_Tier c) = Some l" "fleet_validate c = None"
    "fc_Cluster ch = fm_Cluster c" "ConsequenceOf (fc_Operation ch) \<noteq> None"
    using assms by (auto simp: fleet_AsChange_def split: option.splits if_splits)
  then show "fleet_validate c = None" "fc_Cluster ch = fm_Cluster c" "\<exists>k. ConsequenceOf (fc_Operation ch) = Some k" by auto
  show "di_Tier item = TierForFleetOperation (fc_Operation ch) (fm_Tier c)" "di_Gate item = GateFor f (di_Tier item)"
    "di_Cluster item = fm_Cluster c" "di_Asset item = ''fleet''"
    using assms l
    by (auto simp: fleet_AsChange_def applyToNodePool_def applyToControlPlane_def applyToClusterField_def
        applyToClusterLifecycle_def Let_def split: option.splits if_splits)
qed

lemma fleet_AsChange_pool:
  assumes "fleet_AsChange ch c f = Inr item"
    and "fc_Operation ch = OperationScaleNodePool \<or> fc_Operation ch = OperationChangeNodeInstanceType"
  shows "\<exists>l p. map_of (ff_NodePool (fl_Fleet f)) (fm_Tier c) = Some l \<and> fm_pool c (fc_NodePool ch) = Some p \<and>
     applyToNodePool ch c l (fleet_item c f (fc_Operation ch)) = Inr item"
  using assms by (auto simp: fleet_AsChange_def applyToNodePool_def split: option.splits if_splits)

lemma fleet_AsChange_cluster:
  assumes "fleet_AsChange ch c f = Inr item"
    and "fc_Operation ch \<noteq> OperationScaleNodePool" "fc_Operation ch \<noteq> OperationChangeNodeInstanceType"
  shows "di_Kind item = ''cluster'' \<and> di_Slot item = fleet_slot (fm_Cluster c) ''cluster'' \<or>
    di_Kind item = ''control-plane'' \<and> di_Slot item = fleet_slot (fm_Cluster c) ''control-plane''"
proof -
  let ?op = "fc_Operation ch" and ?i = "fleet_item c f (fc_Operation ch)"
  have known: "?op \<in> {OperationUpgradeKubernetes, OperationChangeStorageClass, OperationSwapNetworkPlugin,
      OperationSwapIngressController, OperationRegisterCluster, OperationRemoveCluster}"
    using fleet_AsChange_Inr(3) [OF assms(1)] assms(2,3)
    by (auto simp: ConsequenceOf_def fleetConsequences_def split: if_splits)
  let ?r = "if ?op = OperationUpgradeKubernetes then applyToControlPlane ch c f ?i
         else if ?op \<in> {OperationChangeStorageClass, OperationSwapNetworkPlugin, OperationSwapIngressController}
         then applyToClusterField ch c ?i
         else if ?op \<in> {OperationRegisterCluster, OperationRemoveCluster} then Inr (applyToClusterLifecycle ch c ?i)
         else Inr ?i"
  obtain l where l: "map_of (ff_NodePool (fl_Fleet f)) (fm_Tier c) = Some l" "fleet_validate c = None"
    "fc_Cluster ch = fm_Cluster c" "ConsequenceOf ?op \<noteq> None"
    using assms(1) by (auto simp: fleet_AsChange_def split: option.splits if_splits)
  have "fleet_AsChange ch c f = ?r"
    unfolding fleet_AsChange_def using l assms(2,3) by (simp only: option.case Let_def insert_iff empty_iff if_False not_True_eq_False simp_thms)
  then have "?r = Inr item" using assms(1) by simp
  with known show ?thesis
    by (auto simp: applyToControlPlane_def applyToClusterField_def applyToClusterLifecycle_def kindControlPlane_def
        split: if_splits)
qed

lemma fm_pool_Some: "fm_pool c n = Some p \<Longrightarrow> p \<in> set (fm_NodePools c) \<and> np_Name p = n"
  by (auto simp: fm_pool_def find_Some_iff)

section \<open>Properties\<close>

definition sample_cluster_manifest :: FleetManifest where
  "sample_cluster_manifest = \<lparr>fm_Cluster = ''eu-1'', fm_Team = ''platform'', fm_Tier = TierProd, fm_KubernetesVersion = ''1.28'',
     fm_StorageClass = ''gold'', fm_NetworkPlugin = ''cilium'', fm_IngressController = [],
     fm_NodePools = [\<lparr>np_Name = ''workers'', np_Size = 5, np_InstanceType = ''standard-4''\<rparr>]\<rparr>"

definition sample_change :: "FleetOperation \<Rightarrow> string \<Rightarrow> string \<Rightarrow> FleetChange" where
  "sample_change operation pool to = \<lparr>fc_Cluster = ''eu-1'', fc_Operation = operation, fc_NodePool = pool, fc_To = to\<rparr>"

lemma sample_fleet:
  "case ResolveFleet sample_cluster_manifest DefaultFloor of Inl e \<Rightarrow> False | Inr d \<Rightarrow> True"
  "case fleet_AsChange (sample_change OperationScaleNodePool ''workers'' ''8'') sample_cluster_manifest DefaultFloor of
     Inl e \<Rightarrow> False | Inr i \<Rightarrow> di_Tier i = TierShared"
  "case fleet_AsChange (sample_change OperationUpgradeKubernetes [] ''1.29.4'') sample_cluster_manifest DefaultFloor of
     Inl e \<Rightarrow> False | Inr i \<Rightarrow> True"
  "case parse_floor ''r1'' sample_document of Inl e \<Rightarrow> False
   | Inr f \<Rightarrow> (case fleet_AsChange (sample_change OperationUpgradeKubernetes [] ''1.29'') sample_cluster_manifest f of
        Inl e \<Rightarrow> False | Inr i \<Rightarrow> True)"
  by code_simp+

lemma sample_upgrade:
  "\<exists>f i. parse_floor ''r1'' sample_document = Inr f \<and>
     fleet_AsChange (sample_change OperationUpgradeKubernetes [] ''1.29'') sample_cluster_manifest f = Inr i"
proof -
  obtain f where f: "parse_floor ''r1'' sample_document = Inr f"
    and u: "case fleet_AsChange (sample_change OperationUpgradeKubernetes [] ''1.29'') sample_cluster_manifest f of
        Inl e \<Rightarrow> False | Inr i \<Rightarrow> True"
    using case_Inr [OF sample_fleet(4)] by blast
  from f case_Inr [OF u] show ?thesis by blast
qed

text \<open>The attention a change to the runtime costs is a property of the change, and no request reaches it. Under a floor
  read from a document, an accepted request is for the cluster it was resolved against and a classified operation; it
  is gated by the floor at the tier of its consequence: an irreversible operation at the platform's gate on every
  cluster, a disruptive one at the cluster's own tier, a reversible one a step lighter, and never an unknown one.\<close>

theorem fleet_change_costs_its_consequence:
  assumes "parse_floor revision doc = Inr f" and "fleet_AsChange ch c f = Inr item"
  shows "fc_Cluster ch = fm_Cluster c \<and> di_Gate item = GateFor f (di_Tier item) \<and>
    (case ConsequenceOf (fc_Operation ch) of
       Some ConsequenceIrreversible \<Rightarrow> di_Tier item = TierProd \<and> di_Gate item = GatePlatform
     | Some ConsequenceDisruptive \<Rightarrow> di_Tier item = fm_Tier c
     | Some ConsequenceReversible \<Rightarrow> di_Tier item = oneStepLighter (fm_Tier c)
     | None \<Rightarrow> False)"
proof -
  note r = fleet_AsChange_Inr [OF assms(2)]
  have rf: "raising_floor f" using validated_floor_raises [OF parse_floor_Inr(2,4) [OF assms(1)]] .
  show ?thesis using r irreversible_gate [OF rf, of "fc_Operation ch" "fm_Tier c"]
    by (auto simp: ConsequenceOf_def TierForFleetOperation_def split: option.splits Consequence.splits)
qed

theorem fleet_change_costs_its_consequence_witness:
  "\<exists>f i. parse_floor ''r1'' sample_document = Inr f \<and>
     fleet_AsChange (sample_change OperationUpgradeKubernetes [] ''1.29'') sample_cluster_manifest f = Inr i \<and> di_Gate i = GatePlatform"
proof -
  obtain f i where r: "parse_floor ''r1'' sample_document = Inr f"
    "fleet_AsChange (sample_change OperationUpgradeKubernetes [] ''1.29'') sample_cluster_manifest f = Inr i"
    using sample_upgrade by blast
  have "ConsequenceOf (fc_Operation (sample_change OperationUpgradeKubernetes [] ''1.29'')) = Some ConsequenceIrreversible"
    by (simp add: ConsequenceOf_def fleetConsequences_def operation_names sample_change_def)
  then show ?thesis using fleet_change_costs_its_consequence [OF r] r by auto
qed

text \<open>A light gate on the runtime is safe because the floor bounds the magnitude. An accepted scale asks for a number of
  nodes between the floor's minimum and maximum for the cluster's tier, and the change records that number; an
  accepted change of machines names a type the floor allows; an accepted upgrade names a pinned version on a minor
  line the floor supports and not below the cluster's.\<close>

theorem fleet_change_stays_within_the_floor:
  assumes "fleet_AsChange ch c f = Inr item"
  shows "(fc_Operation ch = OperationScaleNodePool \<longrightarrow>
      (\<exists>l n. map_of (ff_NodePool (fl_Fleet f)) (fm_Tier c) = Some l \<and> Atoi (fc_To ch) = Some n \<and> nl_MinNodes l \<le> n \<and>
         n \<le> nl_MaxNodes l \<and> map_of (di_State item) ''nodePoolSize'' = Some (dec_int n) \<and> di_Limits item = LNodePool l)) \<and>
    (fc_Operation ch = OperationChangeNodeInstanceType \<longrightarrow>
      (\<exists>l. map_of (ff_NodePool (fl_Fleet f)) (fm_Tier c) = Some l \<and> fc_To ch \<in> set (nl_AllowedInstanceTypes l) \<and>
         map_of (di_State item) ''instanceType'' = Some (fc_To ch))) \<and>
    (fc_Operation ch = OperationUpgradeKubernetes \<longrightarrow>
      kubernetesVersion (fc_To ch) \<and> minorLine (fc_To ch) \<in> minorLine ` set (ff_KubernetesVersions (fl_Fleet f)) \<and>
      minorRank (fm_KubernetesVersion c) \<le> minorRank (fc_To ch))"
proof (intro conjI impI)
  assume op: "fc_Operation ch = OperationScaleNodePool"
  then show "\<exists>l n. map_of (ff_NodePool (fl_Fleet f)) (fm_Tier c) = Some l \<and> Atoi (fc_To ch) = Some n \<and> nl_MinNodes l \<le> n \<and>
         n \<le> nl_MaxNodes l \<and> map_of (di_State item) ''nodePoolSize'' = Some (dec_int n) \<and> di_Limits item = LNodePool l"
    using fleet_AsChange_pool [OF assms] by (fastforce simp: applyToNodePool_def Let_def split: option.splits if_splits)
next
  assume op: "fc_Operation ch = OperationChangeNodeInstanceType"
  then have "fc_Operation ch \<noteq> OperationScaleNodePool" by (simp add: operation_names)
  with op show "\<exists>l. map_of (ff_NodePool (fl_Fleet f)) (fm_Tier c) = Some l \<and> fc_To ch \<in> set (nl_AllowedInstanceTypes l) \<and>
         map_of (di_State item) ''instanceType'' = Some (fc_To ch)"
    using fleet_AsChange_pool [OF assms]
    by (fastforce simp: applyToNodePool_def Let_def allowsInstanceType_def list_ex_iff split: option.splits if_splits)
next
  assume op: "fc_Operation ch = OperationUpgradeKubernetes"
  then have "applyToControlPlane ch c f (fleet_item c f (fc_Operation ch)) = Inr item"
    using assms by (auto simp: fleet_AsChange_def operation_names split: option.splits if_splits)
  then show "kubernetesVersion (fc_To ch)"
    and "minorLine (fc_To ch) \<in> minorLine ` set (ff_KubernetesVersions (fl_Fleet f))"
    and "minorRank (fm_KubernetesVersion c) \<le> minorRank (fc_To ch)"
    by (auto simp: applyToControlPlane_def fleet_allows_def list_ex_iff image_iff split: if_splits) metis
qed

theorem fleet_change_stays_within_the_floor_witness:
  "\<exists>i. fleet_AsChange (sample_change OperationScaleNodePool ''workers'' ''8'') sample_cluster_manifest DefaultFloor = Inr i \<and>
     map_of (di_State i) ''nodePoolSize'' = Some (dec_int 8)"
proof -
  obtain i where i: "fleet_AsChange (sample_change OperationScaleNodePool ''workers'' ''8'') sample_cluster_manifest DefaultFloor = Inr i"
    using case_Inr [OF sample_fleet(2)] by blast
  have "Atoi ''8'' = Some 8" by code_simp
  then show ?thesis using fleet_change_stays_within_the_floor [OF i] i by (auto simp: sample_change_def)
qed

text \<open>A resolved cluster is one slot per thing, each gated for the heaviest change to it. The resolved changes have
  distinct kinds and slots, every pool is within the floor's bounds for its size and machines, and whatever request
  on the same cluster is accepted, the item of the resolved cluster with the same kind and slot has a tier at least
  the request's, so correcting drift never costs less attention than asking for the change.\<close>

theorem resolved_cluster_carries_the_heaviest_gate:
  assumes "ResolveFleet c f = Inr d"
  shows "distinct (map (\<lambda>i. (di_Kind i, di_Slot i)) (des_Changes d)) \<and>
    (\<forall>p\<in>set (fm_NodePools c). \<exists>l. map_of (ff_NodePool (fl_Fleet f)) (fm_Tier c) = Some l \<and> nl_MinNodes l \<le> np_Size p \<and>
       np_Size p \<le> nl_MaxNodes l \<and> np_InstanceType p \<in> set (nl_AllowedInstanceTypes l)) \<and>
    (\<forall>ch item. fleet_AsChange ch c f = Inr item \<longrightarrow>
       (\<exists>i\<in>set (des_Changes d). di_Kind i = di_Kind item \<and> di_Slot i = di_Slot item \<and>
          tier_rank (di_Tier item) \<le> tier_rank (di_Tier i)))"
proof (intro conjI ballI allI impI)
  obtain l pools where r: "fleet_validate c = None" "map_of (ff_NodePool (fl_Fleet f)) (fm_Tier c) = Some l"
    "collect (pool_item c f l) (fm_NodePools c) = Inr pools" and d: "des_Changes d = cluster_item c f # control_plane_item c f # pools"
    using ResolveFleet_Inr [OF assms] by blast
  note v = fleet_validate_None [OF r(1)]
  have all2: "list_all2 (\<lambda>p i. pool_item c f l p = Inr i) (fm_NodePools c) pools" using r(3) by (simp add: collect_Inr)
  have slots: "map (\<lambda>i. (di_Kind i, di_Slot i)) pools = map (\<lambda>p. (''node-pool'', fleet_slot (fm_Cluster c) (np_Name p))) (fm_NodePools c)"
    by (rule collect_map [OF r(3)]) (simp add: pool_item_Inr(4,5))
  have "distinct (map (\<lambda>p. (''node-pool'', fleet_slot (fm_Cluster c) (np_Name p))) (fm_NodePools c))"
    using v(3) by (simp add: distinct_map inj_on_def)
  then have "distinct (map (\<lambda>i. (di_Kind i, di_Slot i)) pools)" by (simp only: slots)
  moreover have "di_Kind i = ''node-pool''" if "i \<in> set pools" for i
    using collect_member [OF r(3) that] pool_item_Inr(4) by blast
  ultimately show "distinct (map (\<lambda>i. (di_Kind i, di_Slot i)) (des_Changes d))"
    by (fastforce simp: d cluster_items)
  show "\<exists>l. map_of (ff_NodePool (fl_Fleet f)) (fm_Tier c) = Some l \<and> nl_MinNodes l \<le> np_Size p \<and> np_Size p \<le> nl_MaxNodes l \<and>
      np_InstanceType p \<in> set (nl_AllowedInstanceTypes l)" if "p \<in> set (fm_NodePools c)" for p
    using that all2 r(2) pool_item_Inr(1-3) by (fastforce simp: list_all2_iff in_set_conv_nth set_zip)
  fix ch item
  assume ch: "fleet_AsChange ch c f = Inr item"
  show "\<exists>i\<in>set (des_Changes d). di_Kind i = di_Kind item \<and> di_Slot i = di_Slot item \<and> tier_rank (di_Tier item) \<le> tier_rank (di_Tier i)"
  proof (cases "fc_Operation ch = OperationScaleNodePool \<or> fc_Operation ch = OperationChangeNodeInstanceType")
    case True
    then obtain l' p where p: "fm_pool c (fc_NodePool ch) = Some p" "applyToNodePool ch c l' (fleet_item c f (fc_Operation ch)) = Inr item"
      using fleet_AsChange_pool [OF ch] by blast
    then have k: "di_Kind item = ''node-pool''" "di_Slot item = fleet_slot (fm_Cluster c) (np_Name p)"
      by (auto simp: applyToNodePool_def Let_def split: option.splits if_splits)
    have "p \<in> set (fm_NodePools c)" using fm_pool_Some p(1) by blast
    then obtain i where i: "i \<in> set pools" "pool_item c f l p = Inr i"
      using all2 by (fastforce simp: list_all2_conv_all_nth in_set_conv_nth)
    have "tier_rank (TierForFleetOperation (fc_Operation ch) (fm_Tier c)) \<le> tier_rank (fm_Tier c)"
      using True v(1)
      by (auto simp: TierForFleetOperation_def fleetConsequences_def operation_names oneStepLighter_def tier_valid_def
          tier_rank_def tier_names)
    then show ?thesis using i k pool_item_Inr [OF i(2)] fleet_AsChange_Inr(4) [OF ch] by (auto simp: d)
  next
    case False
    then have "di_Kind item = ''cluster'' \<and> di_Slot item = fleet_slot (fm_Cluster c) ''cluster'' \<or>
        di_Kind item = ''control-plane'' \<and> di_Slot item = fleet_slot (fm_Cluster c) ''control-plane''"
      using fleet_AsChange_cluster [OF ch] by blast
    moreover have "tier_rank (di_Tier item) \<le> tier_rank TierProd"
      by (simp add: tier_rank_def tier_names)
    ultimately show ?thesis by (auto simp: d cluster_items)
  qed
qed

theorem resolved_cluster_carries_the_heaviest_gate_witness:
  "\<exists>d item i. ResolveFleet sample_cluster_manifest DefaultFloor = Inr d \<and>
     fleet_AsChange (sample_change OperationScaleNodePool ''workers'' ''8'') sample_cluster_manifest DefaultFloor = Inr item \<and>
     i \<in> set (des_Changes d) \<and> di_Slot i = di_Slot item \<and> tier_rank (di_Tier item) \<le> tier_rank (di_Tier i)"
proof -
  obtain d where d: "ResolveFleet sample_cluster_manifest DefaultFloor = Inr d" using case_Inr [OF sample_fleet(1)] by blast
  obtain item where item: "fleet_AsChange (sample_change OperationScaleNodePool ''workers'' ''8'') sample_cluster_manifest DefaultFloor = Inr item"
    using case_Inr [OF sample_fleet(2)] by blast
  from resolved_cluster_carries_the_heaviest_gate [OF d] item d show ?thesis by blast
qed

end
