(* ===== verification/Drift.thy ===== *)
theory Drift
  imports Fleet
begin

text \<open>
  Approved state against reality: the data and the comparison of \<open>reconcile.go\<close>, \<open>ownership.go\<close> and
  \<open>config/ownership.go\<close>, with the fleet's fields from \<open>fleet.go\<close>. A pointer that may be nil is an option. What an
  adapter reports in \<open>Limits\<close> is the datatype \<open>limits\<close> of the values the code stores there; any other value is a
  different constructor, which the comparison ignores as the code does. The closure \<open>compare\<close> that appends to a list
  is a function from a comparison to the differences it appends.
\<close>

section \<open>Ownership of fields\<close>

record Ownership =
  own_Governed :: "bool gomap"
  own_Watched :: "bool gomap"

definition Owns :: "Ownership \<Rightarrow> string \<Rightarrow> bool" where
  "Owns o1 field \<longleftrightarrow> map_of (own_Governed o1) field = Some True"

definition Watches :: "Ownership \<Rightarrow> string \<Rightarrow> bool" where
  "Watches o1 field \<longleftrightarrow> map_of (own_Watched o1) field = Some True"

definition ownership_with :: "Ownership \<Rightarrow> Ownership \<Rightarrow> Ownership" where
  "ownership_with o1 other =
     (let governed = foldl (\<lambda>m field. gset m field True) (own_Governed o1) (keys (own_Governed other))
      in \<lparr>own_Governed = governed,
          own_Watched = foldl (\<lambda>m field. if map_of governed field \<noteq> Some True then gset m field True else m)
                          (own_Watched o1) (keys (own_Watched other))\<rparr>)"

definition FleetOwnership :: Ownership where
  "FleetOwnership =
     \<lparr>own_Governed = map (\<lambda>f. (f, True)) [''kubernetesVersion'', ''storageClass'', ''networkPlugin'', ''ingressController'',
        ''instanceType'', ''nodePoolMaxNodes''],
      own_Watched = map (\<lambda>f. (f, True)) [''nodePoolSize'', ''kubernetesPatch'']\<rparr>"

definition DefaultOwnership :: Ownership where
  "DefaultOwnership = ownership_with
     \<lparr>own_Governed = map (\<lambda>f. (f, True)) [''digest'', ''image'', ''runtime'', ''retention'', ''producerBytesPerSec'',
        ''consumerBytesPerSec'', ''connectionLimit'', ''statementTimeout'', ''robotExpiry'', ''cpuLimit'', ''memoryMiB''],
      own_Watched = [(''replicas'', True)]\<rparr>
     FleetOwnership"

record ownershipDocument =
  od_Governed :: "string list"
  od_Watched :: "string list"

definition promote_field :: "Ownership \<Rightarrow> string \<Rightarrow> Ownership" where
  "promote_field o1 field =
     \<lparr>own_Governed = gset (own_Governed o1) field True, own_Watched = gdel (own_Watched o1) field\<rparr>"

definition watch_field :: "Ownership \<Rightarrow> string \<Rightarrow> Ownership" where
  "watch_field o1 field =
     (if map_of (own_Governed o1) field = Some True then o1
      else o1\<lparr>own_Watched := gset (own_Watched o1) field True\<rparr>)"

definition mergeOntoDefault :: "ownershipDocument \<Rightarrow> Ownership" where
  "mergeOntoDefault d = foldl watch_field (foldl promote_field DefaultOwnership (od_Governed d)) (od_Watched d)"

section \<open>What was observed\<close>

record Writer =
  wr_Manager :: string
  wr_Operation :: string
  wr_At :: int
  wr_Fields :: "string list"

record ObservedItem =
  ob_Asset :: string
  ob_Kind :: string
  ob_Name :: string
  ob_Cluster :: string
  ob_Slot :: Slot
  ob_Limits :: limits
  ob_Readers :: "string list"
  ob_Image :: string
  ob_Writers :: "Writer list"
  ob_Digest :: string
  ob_Runtime :: string
  ob_State :: "string gomap"

type_synonym Observed = "ObservedItem list"

definition observed_key :: "ObservedItem \<Rightarrow> string" where
  "observed_key i =
     (if \<not> slot_Empty (ob_Slot i) then ob_Asset i @ ''/'' @ ob_Kind i @ ''/'' @ slot_Key (ob_Slot i)
      else ob_Asset i @ ''/'' @ ob_Kind i @ ''/'' @ ob_Name i)"

definition desired_key :: "DesiredItem \<Rightarrow> string" where
  "desired_key d =
     (if \<not> slot_Empty (di_Slot d) then di_Asset d @ ''/'' @ di_Kind d @ ''/'' @ slot_Key (di_Slot d)
      else di_Asset d @ ''/'' @ di_Kind d @ ''/'' @ di_Name d)"

definition observed_index :: "Observed \<Rightarrow> ObservedItem gomap" where
  "observed_index obs = foldl (\<lambda>m i. gset m (observed_key i) i) [] obs"

section \<open>Drift\<close>

datatype DriftKind = DriftAbsent | DriftChanged | DriftUnexpected

record Difference =
  df_Field :: string
  df_Approved :: string
  df_Observed :: string
  df_Governed :: bool

record Drift =
  dr_Kind :: DriftKind
  dr_Desired :: "DesiredItem option"
  dr_Observed :: "ObservedItem option"
  dr_Detail :: string
  dr_Differences :: "Difference list"

definition Ungoverned :: "Drift \<Rightarrow> bool" where
  "Ungoverned d \<longleftrightarrow> dr_Kind d = DriftUnexpected \<or> dr_Kind d = DriftAbsent \<or> list_ex df_Governed (dr_Differences d)"

definition Correctable :: "Drift \<Rightarrow> bool" where
  "Correctable d =
     (case dr_Desired d of
        None \<Rightarrow> False
      | Some w \<Rightarrow> dr_Kind d \<noteq> DriftUnexpected \<and> Ungoverned d \<and> di_Gate w = GateNone)"

definition compare_field :: "Ownership \<Rightarrow> string \<Rightarrow> string \<Rightarrow> string \<Rightarrow> Difference list" where
  "compare_field own field approved observed =
     (if approved = [] \<or> approved = observed then []
      else if \<not> Owns own field \<and> \<not> Watches own field then []
      else [\<lparr>df_Field = field, df_Approved = approved,
             df_Observed = (if observed = [] then ''(absent)'' else observed), df_Governed = Owns own field\<rparr>])"

definition state_value :: "string gomap \<Rightarrow> string \<Rightarrow> string" where
  "state_value m field = (case map_of m field of Some v \<Rightarrow> v | None \<Rightarrow> [])"

definition fleetDifferences :: "Ownership \<Rightarrow> DesiredItem \<Rightarrow> ObservedItem \<Rightarrow> Difference list" where
  "fleetDifferences own want got =
     concat (map (\<lambda>field.
         let approved = state_value (di_State want) field; observed = state_value (ob_State got) field
         in if field = ''kubernetesVersion''
            then compare_field own field (minorLine approved) (minorLine observed)
            else compare_field own field approved observed)
       (sort (keys (di_State want))))"

definition compareLimits :: "Ownership \<Rightarrow> DesiredItem \<Rightarrow> ObservedItem \<Rightarrow> Difference list" where
  "compareLimits own want got =
     (case (di_Limits want, ob_Limits got) of
        (LApp w, LApp g) \<Rightarrow>
          compare_field own ''replicas'' (dec_int (al_Replicas w)) (dec_int (al_Replicas g)) @
          compare_field own ''cpuLimit'' (al_CPULimit w) (al_CPULimit g) @
          compare_field own ''memoryMiB'' (dec_int (al_MemoryMiB w)) (dec_int (al_MemoryMiB g))
      | (LKafka w, LKafka g) \<Rightarrow>
          compare_field own ''retention'' (duration_String (kl_Retention w)) (duration_String (kl_Retention g)) @
          compare_field own ''producerBytesPerSec'' (dec_int (kl_ProducerBytesPerSec w)) (dec_int (kl_ProducerBytesPerSec g)) @
          compare_field own ''consumerBytesPerSec'' (dec_int (kl_ConsumerBytesPerSec w)) (dec_int (kl_ConsumerBytesPerSec g))
      | (LPostgres w, LPostgres g) \<Rightarrow>
          compare_field own ''connectionLimit'' (dec_int (pl_ConnectionLimit w)) (dec_int (pl_ConnectionLimit g)) @
          compare_field own ''statementTimeout'' (duration_String (pl_StatementTimeout w)) (duration_String (pl_StatementTimeout g))
      | (LHarbor w, LHarbor g) \<Rightarrow>
          compare_field own ''robotExpiry'' (duration_String (hl_RobotExpiry w)) (duration_String (hl_RobotExpiry g))
      | _ \<Rightarrow> [])"

definition differs :: "DesiredItem \<Rightarrow> ObservedItem \<Rightarrow> Ownership \<Rightarrow> Difference list" where
  "differs want got own =
     compare_field own ''digest'' (di_Digest want) (ob_Digest got) @
     compare_field own ''image'' (di_Image want) (ob_Image got) @
     compare_field own ''runtime'' (di_Runtime want) (ob_Runtime got) @
     fleetDifferences own want got @ compareLimits own want got"

definition summarise :: "Difference list \<Rightarrow> string" where
  "summarise ds = join ''; '' (map (\<lambda>d. df_Field d @ '' is '' @ go_quote (df_Observed d) @ '', approved '' @
     go_quote (df_Approved d) @ '' ('' @ (if df_Governed d then ''governed'' else ''watched'') @ '')'') ds)"

definition driftKey :: "Drift \<Rightarrow> string" where
  "driftKey d = (case dr_Desired d of
     Some w \<Rightarrow> desired_key w
   | None \<Rightarrow> (case dr_Observed d of Some g \<Rightarrow> observed_key g | None \<Rightarrow> []))"

text \<open>What one approved change, and one observed item, contribute to the report.\<close>

definition absent_drift :: "DesiredItem \<Rightarrow> Drift" where
  "absent_drift want = \<lparr>dr_Kind = DriftAbsent, dr_Desired = Some want, dr_Observed = None,
     dr_Detail = ''approved but absent'', dr_Differences = []\<rparr>"

definition changed_drift :: "DesiredItem \<Rightarrow> ObservedItem \<Rightarrow> Difference list \<Rightarrow> Drift" where
  "changed_drift want got ds = \<lparr>dr_Kind = DriftChanged, dr_Desired = Some want, dr_Observed = Some got,
     dr_Detail = summarise ds, dr_Differences = ds\<rparr>"

definition surplus_drift :: "ObservedItem \<Rightarrow> Drift" where
  "surplus_drift got = \<lparr>dr_Kind = DriftUnexpected, dr_Desired = None, dr_Observed = Some got,
     dr_Detail = ''exists but was never approved'', dr_Differences = []\<rparr>"

definition wanted_drift :: "Ownership \<Rightarrow> ObservedItem gomap \<Rightarrow> DesiredItem \<Rightarrow> Drift list" where
  "wanted_drift own actual want =
     (case map_of actual (desired_key want) of
        None \<Rightarrow> [absent_drift want]
      | Some got \<Rightarrow>
          (let ds = differs want got own in if 0 < length ds then [changed_drift want got ds] else []))"

definition unexpected_drift :: "string list \<Rightarrow> ObservedItem \<Rightarrow> Drift list" where
  "unexpected_drift seen got = (if observed_key got \<notin> set seen then [surplus_drift got] else [])"

definition DiffOwned :: "DesiredItem list \<Rightarrow> Observed \<Rightarrow> Ownership \<Rightarrow> Drift list" where
  "DiffOwned changes obs own =
     sort_key driftKey
       (concat (map (wanted_drift own (observed_index obs)) changes) @
        concat (map (unexpected_drift (map desired_key changes)) obs))"

definition Diff :: "DesiredItem list \<Rightarrow> Observed \<Rightarrow> Drift list" where
  "Diff changes obs = DiffOwned changes obs DefaultOwnership"

section \<open>Laws of ownership\<close>

lemma foldl_gset_True: "map_of (foldl (\<lambda>m f. gset m f True) m fs) k = (if k \<in> set fs then Some True else map_of m k)"
  by (induction fs arbitrary: m) auto

lemma foldl_watch_lookup:
  "map_of (foldl (\<lambda>m f. if map_of g f \<noteq> Some True then gset m f True else m) m fs) k =
     (if k \<in> set fs \<and> map_of g k \<noteq> Some True then Some True else map_of m k)"
  by (induction fs arbitrary: m) auto

lemma promote_all:
  "map_of (own_Governed (foldl promote_field o1 fs)) k = (if k \<in> set fs then Some True else map_of (own_Governed o1) k)"
  "map_of (own_Watched (foldl promote_field o1 fs)) k = (if k \<in> set fs then None else map_of (own_Watched o1) k)"
  by (induction fs arbitrary: o1) (auto simp: promote_field_def)

lemma watch_all:
  "own_Governed (foldl watch_field o1 fs) = own_Governed o1"
  "map_of (own_Watched (foldl watch_field o1 fs)) k =
     (if k \<in> set fs \<and> map_of (own_Governed o1) k \<noteq> Some True then Some True else map_of (own_Watched o1) k)"
proof (induction fs arbitrary: o1)
  case (Cons f fs)
  { case 1
    show ?case using Cons.IH(1) [of "watch_field o1 f"] by (simp add: watch_field_def)
  next
    case 2
    show ?case using Cons.IH(2) [of "watch_field o1 f"] by (auto simp: watch_field_def)
  }
qed simp_all

lemma Owns_merged: "Owns (mergeOntoDefault d) f \<longleftrightarrow> f \<in> set (od_Governed d) \<or> Owns DefaultOwnership f"
  by (auto simp: Owns_def mergeOntoDefault_def watch_all(1) promote_all(1))

lemma Watches_merged:
  "Watches (mergeOntoDefault d) f \<longleftrightarrow>
     \<not> Owns (mergeOntoDefault d) f \<and> f \<in> set (od_Watched d) \<or> f \<notin> set (od_Governed d) \<and> Watches DefaultOwnership f"
  by (auto simp: Watches_def Owns_def mergeOntoDefault_def watch_all promote_all)

lemma default_owned: "Owns DefaultOwnership f \<longleftrightarrow>
    f \<in> {''digest'', ''image'', ''runtime'', ''retention'', ''producerBytesPerSec'', ''consumerBytesPerSec'', ''connectionLimit'',
         ''statementTimeout'', ''robotExpiry'', ''cpuLimit'', ''memoryMiB'', ''kubernetesVersion'', ''storageClass'',
         ''networkPlugin'', ''ingressController'', ''instanceType'', ''nodePoolMaxNodes''}"
  by (auto simp: Owns_def DefaultOwnership_def ownership_with_def FleetOwnership_def Let_def)

lemma default_watched: "Watches DefaultOwnership f \<longleftrightarrow> f \<in> {''replicas'', ''nodePoolSize'', ''kubernetesPatch''}"
  by (auto simp: Watches_def DefaultOwnership_def ownership_with_def FleetOwnership_def Let_def)

section \<open>Laws of the comparison\<close>

lemma compare_field_same [simp]: "compare_field own field x x = []"
  by (simp add: compare_field_def)

lemma compare_field_owned:
  "approved \<noteq> [] \<Longrightarrow> approved \<noteq> observed \<Longrightarrow> Owns own field \<Longrightarrow>
     \<exists>d\<in>set (compare_field own field approved observed). df_Field d = field \<and> df_Governed d"
  by (simp add: compare_field_def)

lemma compare_field_declared: "d \<in> set (compare_field own field a b) \<Longrightarrow>
    df_Field d = field \<and> df_Approved d = a \<and> a \<noteq> b \<and> df_Governed d = Owns own field \<and> (Owns own field \<or> Watches own field)"
  by (auto simp: compare_field_def split: if_splits)

lemma foldl_index_None:
  "map_of (foldl (\<lambda>m i. gset m (observed_key i) i) m obs) k = None \<longleftrightarrow> map_of m k = None \<and> k \<notin> observed_key ` set obs"
  by (induction obs arbitrary: m) auto

lemma foldl_index_Some:
  "map_of (foldl (\<lambda>m i. gset m (observed_key i) i) m obs) k = Some i \<Longrightarrow>
     map_of m k = Some i \<or> i \<in> set obs \<and> observed_key i = k"
proof (induction obs arbitrary: m)
  case (Cons j obs)
  then show ?case using Cons.IH [of "gset m (observed_key j) j"] by (auto split: if_splits)
qed simp

lemma index_None: "map_of (observed_index obs) k = None \<longleftrightarrow> k \<notin> observed_key ` set obs"
  by (simp add: observed_index_def foldl_index_None)

lemma index_Some: "map_of (observed_index obs) k = Some i \<Longrightarrow> i \<in> set obs \<and> observed_key i = k"
  using foldl_index_Some [of "[]" obs k i] by (simp add: observed_index_def)

lemma index_distinct:
  assumes "distinct (map observed_key obs)" and "i \<in> set obs"
  shows "map_of (observed_index obs) (observed_key i) = Some i"
proof -
  obtain j where j: "map_of (observed_index obs) (observed_key i) = Some j"
    using assms(2) index_None [of obs "observed_key i"] by (cases "map_of (observed_index obs) (observed_key i)") auto
  have "j \<in> set obs \<and> observed_key j = observed_key i" using index_Some [OF j] .
  then show ?thesis using assms j by (metis distinct_map inj_on_eq_iff)
qed

lemma drift_fields [simp]:
  "dr_Kind (absent_drift w) = DriftAbsent" "dr_Desired (absent_drift w) = Some w" "dr_Observed (absent_drift w) = None"
  "dr_Differences (absent_drift w) = []"
  "dr_Kind (changed_drift w g ds) = DriftChanged" "dr_Desired (changed_drift w g ds) = Some w"
  "dr_Observed (changed_drift w g ds) = Some g" "dr_Differences (changed_drift w g ds) = ds"
  "dr_Kind (surplus_drift g) = DriftUnexpected" "dr_Desired (surplus_drift g) = None" "dr_Observed (surplus_drift g) = Some g"
  "dr_Differences (surplus_drift g) = []"
  by (simp_all add: absent_drift_def changed_drift_def surplus_drift_def)

text \<open>The members of the report.\<close>

lemma DiffOwned_mem:
  "d \<in> set (DiffOwned changes obs own) \<longleftrightarrow>
     (\<exists>w\<in>set changes. map_of (observed_index obs) (desired_key w) = None \<and> d = absent_drift w) \<or>
     (\<exists>w\<in>set changes. \<exists>g. map_of (observed_index obs) (desired_key w) = Some g \<and> 0 < length (differs w g own) \<and>
        d = changed_drift w g (differs w g own)) \<or>
     (\<exists>g\<in>set obs. observed_key g \<notin> desired_key ` set changes \<and> d = surplus_drift g)"
proof -
  have "d \<in> set (wanted_drift own actual w) \<longleftrightarrow> map_of actual (desired_key w) = None \<and> d = absent_drift w \<or>
      (\<exists>g. map_of actual (desired_key w) = Some g \<and> 0 < length (differs w g own) \<and> d = changed_drift w g (differs w g own))"
    for actual w by (auto simp: wanted_drift_def Let_def split: option.splits)
  then show ?thesis by (auto simp: DiffOwned_def unexpected_drift_def split: if_splits)
qed

section \<open>Properties\<close>

definition sample_want :: DesiredItem where
  "sample_want = zero_DesiredItem\<lparr>di_Asset := ''app'', di_Kind := ''deployment'', di_Name := ''payments-checkout'',
     di_Gate := ''none'', di_Digest := ''sha256:a'', di_Limits := LPostgres \<lparr>pl_ConnectionLimit = 10, pl_StatementTimeout = 5,
     pl_IdleInTransactionTimeout = 7\<rparr>\<rparr>"

definition sample_got :: "string \<Rightarrow> ObservedItem" where
  "sample_got dig = \<lparr>ob_Asset = ''app'', ob_Kind = ''deployment'', ob_Name = ''payments-checkout'', ob_Cluster = [],
     ob_Slot = zero_Slot, ob_Limits = LPostgres \<lparr>pl_ConnectionLimit = 10, pl_StatementTimeout = 5,
     pl_IdleInTransactionTimeout = 9000\<rparr>, ob_Readers = [], ob_Image = [], ob_Writers = [], ob_Digest = dig, ob_Runtime = [],
     ob_State = []\<rparr>"

lemma sample_keys: "desired_key sample_want = ''app/deployment/payments-checkout''"
  "observed_key (sample_got dig) = ''app/deployment/payments-checkout''"
  by (simp_all add: desired_key_def observed_key_def sample_want_def sample_got_def zero_DesiredItem_def zero_Slot_def slot_Empty_def)

text \<open>What is compared, listed on its own: the artifact, image and runtime; every recorded fact of a cluster, its version
  by its minor line only; and the limits of each kind of asset, when both sides have limits of that kind. The
  idle-in-transaction timeout of a database is not compared, nor are readers, writers or placements.\<close>

inductive compared :: "DesiredItem \<Rightarrow> ObservedItem \<Rightarrow> string \<Rightarrow> string \<Rightarrow> string \<Rightarrow> bool" for w g where
  "compared w g ''digest'' (di_Digest w) (ob_Digest g)"
| "compared w g ''image'' (di_Image w) (ob_Image g)"
| "compared w g ''runtime'' (di_Runtime w) (ob_Runtime g)"
| "''kubernetesVersion'' \<in> set (keys (di_State w)) \<Longrightarrow>
    compared w g ''kubernetesVersion'' (minorLine (state_value (di_State w) ''kubernetesVersion''))
      (minorLine (state_value (ob_State g) ''kubernetesVersion''))"
| "f \<in> set (keys (di_State w)) \<Longrightarrow> f \<noteq> ''kubernetesVersion'' \<Longrightarrow>
    compared w g f (state_value (di_State w) f) (state_value (ob_State g) f)"
| "di_Limits w = LApp a \<Longrightarrow> ob_Limits g = LApp b \<Longrightarrow>
    compared w g ''replicas'' (dec_int (al_Replicas a)) (dec_int (al_Replicas b))"
| "di_Limits w = LApp a \<Longrightarrow> ob_Limits g = LApp b \<Longrightarrow> compared w g ''cpuLimit'' (al_CPULimit a) (al_CPULimit b)"
| "di_Limits w = LApp a \<Longrightarrow> ob_Limits g = LApp b \<Longrightarrow>
    compared w g ''memoryMiB'' (dec_int (al_MemoryMiB a)) (dec_int (al_MemoryMiB b))"
| "di_Limits w = LKafka k \<Longrightarrow> ob_Limits g = LKafka l \<Longrightarrow>
    compared w g ''retention'' (duration_String (kl_Retention k)) (duration_String (kl_Retention l))"
| "di_Limits w = LKafka k \<Longrightarrow> ob_Limits g = LKafka l \<Longrightarrow>
    compared w g ''producerBytesPerSec'' (dec_int (kl_ProducerBytesPerSec k)) (dec_int (kl_ProducerBytesPerSec l))"
| "di_Limits w = LKafka k \<Longrightarrow> ob_Limits g = LKafka l \<Longrightarrow>
    compared w g ''consumerBytesPerSec'' (dec_int (kl_ConsumerBytesPerSec k)) (dec_int (kl_ConsumerBytesPerSec l))"
| "di_Limits w = LPostgres p \<Longrightarrow> ob_Limits g = LPostgres q \<Longrightarrow>
    compared w g ''connectionLimit'' (dec_int (pl_ConnectionLimit p)) (dec_int (pl_ConnectionLimit q))"
| "di_Limits w = LPostgres p \<Longrightarrow> ob_Limits g = LPostgres q \<Longrightarrow>
    compared w g ''statementTimeout'' (duration_String (pl_StatementTimeout p)) (duration_String (pl_StatementTimeout q))"
| "di_Limits w = LHarbor h \<Longrightarrow> ob_Limits g = LHarbor r \<Longrightarrow>
    compared w g ''robotExpiry'' (duration_String (hl_RobotExpiry h)) (duration_String (hl_RobotExpiry r))"

text \<open>What is reported of a pair: each compared field that was approved with a value, was observed with another, and is
  governed or watched, with both values and whether it is governed.\<close>

definition reported :: "Ownership \<Rightarrow> DesiredItem \<Rightarrow> ObservedItem \<Rightarrow> Difference \<Rightarrow> bool" where
  "reported own w g e \<longleftrightarrow> (\<exists>f a b. compared w g f a b \<and> a \<noteq> [] \<and> a \<noteq> b \<and> (Owns own f \<or> Watches own f) \<and>
     e = \<lparr>df_Field = f, df_Approved = a, df_Observed = (if b = [] then ''(absent)'' else b), df_Governed = Owns own f\<rparr>)"

lemma compare_field_mem: "e \<in> set (compare_field own f a b) \<longleftrightarrow> a \<noteq> [] \<and> a \<noteq> b \<and> (Owns own f \<or> Watches own f) \<and>
    e = \<lparr>df_Field = f, df_Approved = a, df_Observed = (if b = [] then ''(absent)'' else b), df_Governed = Owns own f\<rparr>"
  by (auto simp: compare_field_def)

lemma fleetDifferences_mem: "e \<in> set (fleetDifferences own w g) \<longleftrightarrow>
    (''kubernetesVersion'' \<in> set (keys (di_State w)) \<and> e \<in> set (compare_field own ''kubernetesVersion''
       (minorLine (state_value (di_State w) ''kubernetesVersion'')) (minorLine (state_value (ob_State g) ''kubernetesVersion'')))) \<or>
    (\<exists>f\<in>set (keys (di_State w)). f \<noteq> ''kubernetesVersion'' \<and>
       e \<in> set (compare_field own f (state_value (di_State w) f) (state_value (ob_State g) f)))"
  by (auto simp: fleetDifferences_def Let_def split: if_splits)

lemma compareLimits_mem: "e \<in> set (compareLimits own w g) \<longleftrightarrow>
    (\<exists>a b. di_Limits w = LApp a \<and> ob_Limits g = LApp b \<and>
       (e \<in> set (compare_field own ''replicas'' (dec_int (al_Replicas a)) (dec_int (al_Replicas b))) \<or>
        e \<in> set (compare_field own ''cpuLimit'' (al_CPULimit a) (al_CPULimit b)) \<or>
        e \<in> set (compare_field own ''memoryMiB'' (dec_int (al_MemoryMiB a)) (dec_int (al_MemoryMiB b))))) \<or>
    (\<exists>k l. di_Limits w = LKafka k \<and> ob_Limits g = LKafka l \<and>
       (e \<in> set (compare_field own ''retention'' (duration_String (kl_Retention k)) (duration_String (kl_Retention l))) \<or>
        e \<in> set (compare_field own ''producerBytesPerSec'' (dec_int (kl_ProducerBytesPerSec k)) (dec_int (kl_ProducerBytesPerSec l))) \<or>
        e \<in> set (compare_field own ''consumerBytesPerSec'' (dec_int (kl_ConsumerBytesPerSec k)) (dec_int (kl_ConsumerBytesPerSec l))))) \<or>
    (\<exists>p q. di_Limits w = LPostgres p \<and> ob_Limits g = LPostgres q \<and>
       (e \<in> set (compare_field own ''connectionLimit'' (dec_int (pl_ConnectionLimit p)) (dec_int (pl_ConnectionLimit q))) \<or>
        e \<in> set (compare_field own ''statementTimeout'' (duration_String (pl_StatementTimeout p)) (duration_String (pl_StatementTimeout q))))) \<or>
    (\<exists>h r. di_Limits w = LHarbor h \<and> ob_Limits g = LHarbor r \<and>
       e \<in> set (compare_field own ''robotExpiry'' (duration_String (hl_RobotExpiry h)) (duration_String (hl_RobotExpiry r))))"
  by (cases "di_Limits w"; cases "ob_Limits g"; simp add: compareLimits_def)

lemma differs_witness: "e \<in> set (compare_field own f a b) \<Longrightarrow> compared w g f a b \<Longrightarrow>
    \<exists>f a b. compared w g f a b \<and> e \<in> set (compare_field own f a b)"
  by blast

lemma differs_compared:
  "e \<in> set (differs w g own) \<longleftrightarrow> (\<exists>f a b. compared w g f a b \<and> e \<in> set (compare_field own f a b))"
proof
  assume "e \<in> set (differs w g own)"
  then consider "e \<in> set (compare_field own ''digest'' (di_Digest w) (ob_Digest g))"
    | "e \<in> set (compare_field own ''image'' (di_Image w) (ob_Image g))"
    | "e \<in> set (compare_field own ''runtime'' (di_Runtime w) (ob_Runtime g))"
    | "e \<in> set (fleetDifferences own w g)" | "e \<in> set (compareLimits own w g)"
    unfolding differs_def by auto
  then show "\<exists>f a b. compared w g f a b \<and> e \<in> set (compare_field own f a b)"
  proof cases
    case 4
    then show ?thesis unfolding fleetDifferences_mem
      by (elim disjE conjE bexE) (erule differs_witness, rule compared.intros, assumption+)+
  next
    case 5
    then show ?thesis unfolding compareLimits_mem
      by (elim disjE conjE exE) (erule differs_witness, rule compared.intros, assumption+)+
  qed (erule differs_witness, rule compared.intros)+
next
  assume "\<exists>f a b. compared w g f a b \<and> e \<in> set (compare_field own f a b)"
  then obtain f a b where "compared w g f a b" and e: "e \<in> set (compare_field own f a b)" by blast
  then show "e \<in> set (differs w g own)"
    by cases (use e in \<open>auto simp: differs_def compareLimits_def fleetDifferences_mem\<close>)
qed

lemma differs_reported: "set (differs w g own) = Collect (reported own w g)"
  by (auto simp: differs_compared reported_def compare_field_mem)

lemma differs_some: "0 < length (differs w g own) \<longleftrightarrow> (\<exists>e. reported own w g e)"
  using differs_reported [of w g own] by (cases "differs w g own") auto

lemma index_snoc: "map_of (observed_index (obs @ [i])) k = (if observed_key i = k then Some i else map_of (observed_index obs) k)"
  by (simp add: observed_index_def)

lemma index_last:
  "map_of (observed_index obs) k = Some g \<longleftrightarrow>
     (\<exists>pre post. obs = pre @ g # post \<and> observed_key g = k \<and> k \<notin> observed_key ` set post)"
proof (induction obs rule: rev_induct)
  case Nil
  then show ?case by (simp add: observed_index_def)
next
  case (snoc i obs)
  have split: "obs @ [i] = pre @ g # post \<longleftrightarrow>
      post = [] \<and> obs = pre \<and> i = g \<or> (\<exists>ys. post = ys @ [i] \<and> obs = pre @ g # ys)" for pre post
    by (cases post rule: rev_cases) auto
  show ?case
  proof (cases "observed_key i = k")
    case True
    have "(\<exists>pre post. obs @ [i] = pre @ g # post \<and> observed_key g = k \<and> k \<notin> observed_key ` set post) \<longleftrightarrow> i = g"
      unfolding split using True by (intro iffI, fastforce) (intro exI [of _ obs] exI [of _ "[]"], simp)
    with True show ?thesis by (simp add: index_snoc)
  next
    case False
    have "(\<exists>pre post. obs @ [i] = pre @ g # post \<and> observed_key g = k \<and> k \<notin> observed_key ` set post) \<longleftrightarrow>
        (\<exists>pre post. obs = pre @ g # post \<and> observed_key g = k \<and> k \<notin> observed_key ` set post)" (is "?l \<longleftrightarrow> ?r")
    proof
      assume ?l
      then obtain pre post where l: "obs @ [i] = pre @ g # post" "observed_key g = k" "k \<notin> observed_key ` set post" by blast
      from l(1) [unfolded split] l(2) False obtain ys where "post = ys @ [i]" "obs = pre @ g # ys" by blast
      with l(2,3) show ?r by (intro exI [of _ pre] exI [of _ ys]) simp
    next
      assume ?r
      then obtain pre post where "obs = pre @ g # post" "observed_key g = k" "k \<notin> observed_key ` set post" by blast
      with False show ?l by (intro exI [of _ pre] exI [of _ "post @ [i]"]) auto
    qed
    with False snoc.IH show ?thesis by (simp add: index_snoc)
  qed
qed

text \<open>C25: the drift report is complete and sound. It is sorted by identity; it lists an approved change as absent exactly
  when nothing of its identity was observed, an observed item as unexpected exactly when nothing of its identity was
  approved, and an approved change and the last item observed under its identity as changed exactly when a compared field
  that is governed or watched was approved with a value and observed with another. The fields compared are those of
  \<open>compared\<close>, and a changed pair lists exactly those differences, each with both values and whether it is
  governed. A database's idle-in-transaction timeout is not among them, so a change of it is never reported
  (\<open>idle_timeout_drift_is_invisible\<close>).\<close>

theorem drift_report_exact:
  "sorted (map driftKey (DiffOwned changes obs own)) \<and>
   ((\<exists>d\<in>set (DiffOwned changes obs own). dr_Kind d = DriftAbsent \<and> dr_Desired d = Some w) \<longleftrightarrow>
      w \<in> set changes \<and> desired_key w \<notin> observed_key ` set obs) \<and>
   ((\<exists>d\<in>set (DiffOwned changes obs own). dr_Kind d = DriftUnexpected \<and> dr_Observed d = Some g) \<longleftrightarrow>
      g \<in> set obs \<and> observed_key g \<notin> desired_key ` set changes) \<and>
   ((\<exists>d\<in>set (DiffOwned changes obs own). dr_Kind d = DriftChanged \<and> dr_Desired d = Some w \<and> dr_Observed d = Some g) \<longleftrightarrow>
      w \<in> set changes \<and> (\<exists>pre post. obs = pre @ g # post \<and> observed_key g = desired_key w \<and> desired_key w \<notin> observed_key ` set post) \<and>
      (\<exists>e. reported own w g e)) \<and>
   (\<forall>d\<in>set (DiffOwned changes obs own). dr_Kind d = DriftChanged \<and> dr_Desired d = Some w \<and> dr_Observed d = Some g \<longrightarrow>
      set (dr_Differences d) = Collect (reported own w g))"
proof (intro conjI)
  show "sorted (map driftKey (DiffOwned changes obs own))" by (simp add: DiffOwned_def)
  show "(\<exists>d\<in>set (DiffOwned changes obs own). dr_Kind d = DriftAbsent \<and> dr_Desired d = Some w) \<longleftrightarrow>
      w \<in> set changes \<and> desired_key w \<notin> observed_key ` set obs"
    unfolding Bex_def DiffOwned_mem index_None [symmetric] by (rule iffI) (auto intro!: exI [of _ "absent_drift w"])
  show "(\<exists>d\<in>set (DiffOwned changes obs own). dr_Kind d = DriftUnexpected \<and> dr_Observed d = Some g) \<longleftrightarrow>
      g \<in> set obs \<and> observed_key g \<notin> desired_key ` set changes"
    unfolding Bex_def DiffOwned_mem by (rule iffI) (auto intro!: exI [of _ "surplus_drift g"])
  show "(\<exists>d\<in>set (DiffOwned changes obs own). dr_Kind d = DriftChanged \<and> dr_Desired d = Some w \<and> dr_Observed d = Some g) \<longleftrightarrow>
      w \<in> set changes \<and> (\<exists>pre post. obs = pre @ g # post \<and> observed_key g = desired_key w \<and> desired_key w \<notin> observed_key ` set post) \<and>
      (\<exists>e. reported own w g e)"
    unfolding Bex_def DiffOwned_mem index_last [symmetric] differs_some [symmetric]
    by (rule iffI) (auto intro!: exI [of _ "changed_drift w g (differs w g own)"])
  show "\<forall>d\<in>set (DiffOwned changes obs own). dr_Kind d = DriftChanged \<and> dr_Desired d = Some w \<and> dr_Observed d = Some g \<longrightarrow>
      set (dr_Differences d) = Collect (reported own w g)"
    unfolding Ball_def DiffOwned_mem by (auto simp: differs_reported)
qed

theorem drift_report_exact_witness:
  "\<exists>d\<in>set (DiffOwned [sample_want] [sample_got ''sha256:b''] DefaultOwnership). dr_Kind d = DriftChanged \<and>
     \<lparr>df_Field = ''digest'', df_Approved = ''sha256:a'', df_Observed = ''sha256:b'', df_Governed = True\<rparr> \<in> set (dr_Differences d)"
proof -
  let ?g = "sample_got ''sha256:b''"
  let ?e = "\<lparr>df_Field = ''digest'', df_Approved = ''sha256:a'', df_Observed = ''sha256:b'', df_Governed = True\<rparr>"
  have "compared sample_want ?g ''digest'' ''sha256:a'' ''sha256:b''"
    using compared.intros(1) [of sample_want ?g] by (simp add: sample_want_def sample_got_def)
  moreover have "Owns DefaultOwnership ''digest''" by (simp add: default_owned)
  ultimately have e: "reported DefaultOwnership sample_want ?g ?e" unfolding reported_def by fastforce
  have "[?g] = [] @ ?g # [] \<and> observed_key ?g = desired_key sample_want \<and> desired_key sample_want \<notin> observed_key ` set []"
    by (simp add: sample_keys)
  with e drift_report_exact [of "[sample_want]" "[?g]" DefaultOwnership sample_want ?g]
  show ?thesis by (metis list.set_intros(1) mem_Collect_eq)
qed

text \<open>The reconciler closes on its own only what nobody had to approve. A drift of the report is correctable exactly
  when it concerns an approved change without a gate that is absent or differs in a field the engine owns; nothing
  unexpected is, nothing gated is, and nothing that differs only in fields somebody else owns is.\<close>

theorem only_ungated_drift_is_correctable:
  assumes "d \<in> set (DiffOwned changes obs own)"
  shows "Correctable d \<longleftrightarrow>
    (\<exists>w\<in>set changes. dr_Desired d = Some w \<and> di_Gate w = GateNone \<and>
       (dr_Kind d = DriftAbsent \<or> dr_Kind d = DriftChanged \<and> (\<exists>f\<in>set (dr_Differences d). df_Governed f)))"
  using assms unfolding DiffOwned_mem by (auto simp: Correctable_def Ungoverned_def list_ex_iff)

theorem only_ungated_drift_is_correctable_witness:
  "\<exists>d. d \<in> set (DiffOwned [sample_want] [] DefaultOwnership) \<and> Correctable d"
proof -
  have d: "absent_drift sample_want \<in> set (DiffOwned [sample_want] [] DefaultOwnership)"
    by (simp add: DiffOwned_mem observed_index_def)
  have "di_Gate sample_want = GateNone" by (simp add: sample_want_def GateNone_def)
  then show ?thesis using only_ungated_drift_is_correctable [OF d] d by auto
qed

text \<open>A config document may extend what is governed and can remove nothing. Whatever a document lists, every field
  the engine governs by default stays governed, every field it watches is still watched or has been promoted, every
  listed field is governed or watched, a field in both lists is governed, and no field is both.\<close>

theorem config_never_ungoverns:
  "(Owns DefaultOwnership f \<longrightarrow> Owns (mergeOntoDefault doc) f) \<and>
   (Watches DefaultOwnership f \<longrightarrow> Watches (mergeOntoDefault doc) f \<or> f \<in> set (od_Governed doc)) \<and>
   (f \<in> set (od_Governed doc) \<longrightarrow> Owns (mergeOntoDefault doc) f) \<and>
   (f \<in> set (od_Watched doc) \<longrightarrow> Owns (mergeOntoDefault doc) f \<noteq> Watches (mergeOntoDefault doc) f) \<and>
   (Owns (mergeOntoDefault doc) f \<longrightarrow> \<not> Watches (mergeOntoDefault doc) f)"
  by (auto simp: Owns_merged Watches_merged default_owned default_watched)

theorem config_never_ungoverns_witness:
  "Owns (mergeOntoDefault \<lparr>od_Governed = [''replicas''], od_Watched = [''digest'', ''replicas'']\<rparr>) ''digest'' \<and>
   Owns (mergeOntoDefault \<lparr>od_Governed = [''replicas''], od_Watched = [''digest'', ''replicas'']\<rparr>) ''replicas''"
  using config_never_ungoverns [of "''digest''" "\<lparr>od_Governed = [''replicas''], od_Watched = [''digest'', ''replicas'']\<rparr>"]
    config_never_ungoverns [of "''replicas''" "\<lparr>od_Governed = [''replicas''], od_Watched = [''digest'', ''replicas'']\<rparr>"]
  by (simp add: default_owned)

text \<open>An artifact nobody approved is always reported. Under the ownership of any config document, if an approved
  change names a digest and what is observed under its identity has another digest or none, the report holds a drift
  of that change that the engine owns, which names the digest field; when the change was gated it is escalated.\<close>

theorem unapproved_artifact_is_reported:
  assumes "w \<in> set changes" and "di_Digest w \<noteq> []"
    and "map_of (observed_index obs) (desired_key w) = Some g" and "ob_Digest g \<noteq> di_Digest w"
  shows "\<exists>d\<in>set (DiffOwned changes obs (mergeOntoDefault doc)). dr_Desired d = Some w \<and> dr_Observed d = Some g \<and> Ungoverned d \<and>
    ''digest'' \<in> df_Field ` set (dr_Differences d) \<and> (di_Gate w \<noteq> GateNone \<longrightarrow> \<not> Correctable d)"
proof -
  let ?ds = "differs w g (mergeOntoDefault doc)"
  have "Owns (mergeOntoDefault doc) ''digest''" by (simp add: Owns_merged default_owned)
  then obtain f where f: "f \<in> set ?ds" "df_Field f = ''digest''" "df_Governed f"
    using compare_field_owned [OF assms(2) assms(4) [symmetric], of "mergeOntoDefault doc"] by (fastforce simp: differs_def)
  let ?d = "changed_drift w g ?ds"
  have "0 < length ?ds" using f(1) by (cases ?ds) auto
  then have "?d \<in> set (DiffOwned changes obs (mergeOntoDefault doc))" using assms(1,3) unfolding DiffOwned_mem by blast
  moreover have "Ungoverned ?d" using f by (auto simp: Ungoverned_def list_ex_iff)
  moreover have "di_Gate w \<noteq> GateNone \<longrightarrow> \<not> Correctable ?d" by (simp add: Correctable_def)
  moreover have "''digest'' \<in> df_Field ` set ?ds" using f(1,2) by force
  ultimately show ?thesis by (intro bexI [of _ ?d]) auto
qed

theorem unapproved_artifact_is_reported_witness:
  "\<exists>d\<in>set (DiffOwned [sample_want] [sample_got []] (mergeOntoDefault \<lparr>od_Governed = [], od_Watched = [''digest'']\<rparr>)).
     Ungoverned d \<and> ''digest'' \<in> df_Field ` set (dr_Differences d)"
proof -
  have h: "di_Digest sample_want \<noteq> []" "map_of (observed_index [sample_got []]) (desired_key sample_want) = Some (sample_got [])"
    "ob_Digest (sample_got []) \<noteq> di_Digest sample_want"
    by (simp_all add: sample_keys observed_index_def) (simp_all add: sample_want_def sample_got_def)
  show ?thesis using unapproved_artifact_is_reported [OF _ h, of "[sample_want]"] by fastforce
qed

text \<open>One limit of the floor is never checked again. The comparison of a database's limits leaves out the idle
  transaction timeout: an observed timeout of 9000 against an approved one of 7 is no difference under any ownership.\<close>

theorem idle_timeout_drift_is_invisible:
  "di_Limits sample_want \<noteq> ob_Limits (sample_got ''sha256:a'') \<and> differs sample_want (sample_got ''sha256:a'') own = [] \<and>
   DiffOwned [sample_want] [sample_got ''sha256:a''] own = []"
proof -
  have d: "differs sample_want (sample_got ''sha256:a'') own = []"
    by (simp add: differs_def sample_want_def sample_got_def fleetDifferences_def compareLimits_def zero_DesiredItem_def
        compare_field_def)
  moreover have "map_of (observed_index [sample_got ''sha256:a'']) (desired_key sample_want) = Some (sample_got ''sha256:a'')"
    by (simp add: sample_keys observed_index_def)
  moreover have "di_Limits sample_want \<noteq> ob_Limits (sample_got ''sha256:a'')" by (simp add: sample_want_def sample_got_def)
  ultimately show ?thesis
    by (simp add: DiffOwned_def wanted_drift_def unexpected_drift_def sample_keys)
qed

end
