(* ===== verification/Adapters.thy ===== *)
theory Adapters
  imports Drift Contracts
begin

text \<open>
  The adapters that execute for the door: the port of \<open>reconcile.go\<close> and its pass over a drift report, the guards of
  \<open>guarded.go\<close>, the read-only wrapper of \<open>readonly.go\<close>, the in-memory adapter of \<open>memory/memory.go\<close> and the manifest
  store of \<open>manifests.go\<close>. An adapter is the record \<open>Port\<close> of its operations over a state of any type: what it provisioned,
  and whatever else it reads, the clock included. An error is its text. \<open>time_text\<close> prints an instant. A method under a
  lock is one function from a state to a state.
\<close>

section \<open>The port\<close>

record 'p Port =
  po_Asset :: string
  po_Observe :: "'p \<Rightarrow> string \<Rightarrow> string + Observed"
  po_Apply :: "ExecutionToken \<Rightarrow> DesiredItem \<Rightarrow> 'p \<Rightarrow> string option \<times> 'p"

record Outcome =
  oc_Corrected :: "Drift list"
  oc_Escalated :: "Drift list"
  oc_Failed :: "Drift list"

fun port_Reconcile :: "'p Port \<Rightarrow> ExecutionToken \<Rightarrow> Drift list \<Rightarrow> 'p \<Rightarrow> Outcome \<times> 'p" where
  "port_Reconcile port token [] p = (\<lparr>oc_Corrected = [], oc_Escalated = [], oc_Failed = []\<rparr>, p)"
| "port_Reconcile port token (d # ds) p =
     (if \<not> Correctable d
      then (let (o1, p') = port_Reconcile port token ds p in (o1\<lparr>oc_Escalated := d # oc_Escalated o1\<rparr>, p'))
      else (case dr_Desired d of
              None \<Rightarrow> port_Reconcile port token ds p
            | Some want \<Rightarrow>
                (case po_Apply port token want p of
                   (Some err, p1) \<Rightarrow>
                     (let (o1, p') = port_Reconcile port token ds p1
                      in (o1\<lparr>oc_Failed := d\<lparr>dr_Detail := dr_Detail d @ ''; correction failed: '' @ err\<rparr> # oc_Failed o1\<rparr>, p'))
                 | (None, p1) \<Rightarrow>
                     (let (o1, p') = port_Reconcile port token ds p1 in (o1\<lparr>oc_Corrected := d # oc_Corrected o1\<rparr>, p')))))"

section \<open>Guards\<close>

record 'p Approved =
  av_Asset :: string
  av_Kinds :: "string list"
  av_Observe :: "'p \<Rightarrow> string \<Rightarrow> string + Observed"
  av_ApplyApproved :: "ExecutionToken \<Rightarrow> DesiredItem \<Rightarrow> 'p \<Rightarrow> string option \<times> 'p"

definition kindSet :: "string list \<Rightarrow> bool gomap" where
  "kindSet kinds = foldl (\<lambda>m k. gset m k True) [] kinds"

definition guarded_Apply ::
  "(int \<Rightarrow> string) \<Rightarrow> ('p \<Rightarrow> int) \<Rightarrow> 'p Approved \<Rightarrow> ExecutionToken \<Rightarrow> DesiredItem \<Rightarrow> 'p \<Rightarrow> string option \<times> 'p" where
  "guarded_Apply time_text clock g token change p =
     (let asset = av_Asset g;
          elsewhere = asset @ '': '' @ di_Asset change @ ''/'' @ di_Kind change @ '' is not this adapter'' @ [CHR 0x27] @ ''s concern''
      in if tok_Value token = []
         then (Some (asset @ '': refusing to apply '' @ go_quote (di_Name change) @ '' with no execution token '' @ em_dash @
                 '' the door decides, the adapter executes''), p)
         else if \<not> Valid token (clock p)
         then (Some (asset @ '': refusing to apply '' @ go_quote (di_Name change) @ '' '' @ em_dash @
                 '' the execution token for intent '' @ go_quote (tok_IntentID token) @ '' expired at '' @
                 time_text (tok_ExpiresAt token)), p)
         else if di_Asset change \<noteq> asset then (Some elsewhere, p)
         else if 0 < length (kindSet (av_Kinds g)) \<and> map_of (kindSet (av_Kinds g)) (di_Kind change) \<noteq> Some True
         then (Some elsewhere, p)
         else av_ApplyApproved g token change p)"

definition Guarded :: "(int \<Rightarrow> string) \<Rightarrow> ('p \<Rightarrow> int) \<Rightarrow> 'p Approved \<Rightarrow> 'p Port" where
  "Guarded time_text clock g =
     \<lparr>po_Asset = av_Asset g, po_Observe = av_Observe g, po_Apply = guarded_Apply time_text clock g\<rparr>"

definition ReadOnly :: "'p Port \<Rightarrow> 'p Port" where
  "ReadOnly port =
     \<lparr>po_Asset = po_Asset port, po_Observe = po_Observe port,
      po_Apply = (\<lambda>token change p. (Some (po_Asset port @ '': this deployment is read-only '' @ em_dash @ '' '' @
        go_quote (di_Name change) @ '' was governed and recorded, but no adapter here can change anything''), p))\<rparr>"

section \<open>The adapter that provisions nothing\<close>

record MemPort =
  mp_byKey :: "ObservedItem gomap"
  mp_now :: int

definition as_observed :: "DesiredItem \<Rightarrow> ObservedItem" where
  "as_observed c = \<lparr>ob_Asset = di_Asset c, ob_Kind = di_Kind c, ob_Name = di_Name c, ob_Cluster = di_Cluster c,
     ob_Slot = di_Slot c, ob_Limits = di_Limits c, ob_Readers = di_Readers c, ob_Image = di_Image c, ob_Writers = [],
     ob_Digest = di_Digest c, ob_Runtime = di_Runtime c, ob_State = di_State c\<rparr>"

definition memport_Apply ::
  "(int \<Rightarrow> string) \<Rightarrow> string \<Rightarrow> ExecutionToken \<Rightarrow> DesiredItem \<Rightarrow> MemPort \<Rightarrow> string option \<times> MemPort" where
  "memport_Apply time_text asset token change p =
     (if tok_Value token = []
      then (Some (''memory: refusing change '' @ go_quote (di_Name change) @ '' with no execution token '' @ em_dash @
              '' an adapter that acts without one is acting with no decision behind it''), p)
      else if \<not> Valid token (mp_now p)
      then (Some (''memory: refusing change '' @ go_quote (di_Name change) @ '' '' @ em_dash @ '' execution token '' @
              go_quote (tok_IntentID token) @ '' expired at '' @ time_text (tok_ExpiresAt token)), p)
      else if di_Asset change \<noteq> asset
      then (Some (''memory: this adapter provisions '' @ go_quote asset @ '', not '' @ go_quote (di_Asset change)), p)
      else (None, p\<lparr>mp_byKey := gset (mp_byKey p) (desired_key change) (as_observed change)\<rparr>))"

definition memport_Observe :: "string \<Rightarrow> MemPort \<Rightarrow> string \<Rightarrow> string + Observed" where
  "memport_Observe team p asked = (if asked \<noteq> team then Inr [] else Inr (map snd (mp_byKey p)))"

definition memory_Port :: "(int \<Rightarrow> string) \<Rightarrow> string \<Rightarrow> string \<Rightarrow> MemPort Port" where
  "memory_Port time_text asset team =
     \<lparr>po_Asset = asset, po_Observe = memport_Observe team, po_Apply = memport_Apply time_text asset\<rparr>"

definition PlantDrift :: "ObservedItem \<Rightarrow> MemPort \<Rightarrow> MemPort" where
  "PlantDrift item p = p\<lparr>mp_byKey := gset (mp_byKey p) (observed_key item) item\<rparr>"

section \<open>Declared manifests\<close>

definition Remember :: "Manifest gomap \<Rightarrow> Manifest \<Rightarrow> Manifest gomap" where
  "Remember byTeam m = gset byTeam (man_Team m) m"

definition Recall :: "Manifest gomap \<Rightarrow> string \<Rightarrow> Manifest option" where
  "Recall byTeam team = map_of byTeam team"

section \<open>The interface of an adapter\<close>

text \<open>What the door relies on: without a live token of its own, or for another asset, an adapter answers with an error
  and its world is as it was. \<open>clock\<close> is the time the adapter reads.\<close>

locale token_port =
  fixes port :: "'p Port"
    and clock :: "'p \<Rightarrow> int"
  assumes refuses: "tok_Value token = [] \<or> \<not> Valid token (clock p) \<or> di_Asset change \<noteq> po_Asset port \<Longrightarrow>
    \<exists>err. po_Apply port token change p = (Some err, p)"
begin

lemma applied_under_live_token:
  assumes "po_Apply port token change p = (x, p')" and "x = None \<or> p' \<noteq> p"
  shows "tok_Value token \<noteq> [] \<and> Valid token (clock p) \<and> di_Asset change = po_Asset port"
  using assms refuses [of token p change] by auto

lemma dead_token_reconciles_nothing:
  assumes "tok_Value token = [] \<or> \<not> Valid token (clock p)"
  shows "snd (port_Reconcile port token ds p) = p \<and> oc_Corrected (fst (port_Reconcile port token ds p)) = []"
proof (induction ds)
  case (Cons d ds)
  show ?case
  proof (cases "Correctable d")
    case True
    then obtain w where w: "dr_Desired d = Some w" by (cases "dr_Desired d") (auto simp: Correctable_def)
    obtain err where "po_Apply port token w p = (Some err, p)" using refuses assms by blast
    then show ?thesis using Cons.IH True w by (simp add: case_prod_beta Let_def)
  qed (use Cons.IH in \<open>simp add: case_prod_beta Let_def\<close>)
qed simp

end

interpretation guarded: token_port "Guarded time_text clock g" clock for time_text clock g
  by unfold_locales (auto simp: Guarded_def guarded_Apply_def Let_def)

interpretation memory_port: token_port "memory_Port time_text asset team" mp_now for time_text asset team
  by unfold_locales (auto simp: memory_Port_def memport_Apply_def)

interpretation readonly: token_port "ReadOnly port" clock for port clock
  by unfold_locales (auto simp: ReadOnly_def)

section \<open>One pass of the reconciler\<close>

definition correctable_wants :: "Drift list \<Rightarrow> DesiredItem list" where
  "correctable_wants ds = concat (map (\<lambda>d. case dr_Desired d of Some w \<Rightarrow> [w] | None \<Rightarrow> []) (filter Correctable ds))"

lemma Correctable_desired: "Correctable d \<Longrightarrow> \<exists>w. dr_Desired d = Some w"
  by (cases "dr_Desired d") (auto simp: Correctable_def)

lemma port_Reconcile_escalates: "oc_Escalated (fst (port_Reconcile port token ds p)) = filter (\<lambda>d. \<not> Correctable d) ds"
proof (induction ds arbitrary: p)
  case (Cons d ds)
  show ?case
  proof (cases "Correctable d")
    case True
    then obtain w where "dr_Desired d = Some w" using Correctable_desired by blast
    with True Cons.IH show ?thesis
      by (cases "po_Apply port token w p"; cases "fst (po_Apply port token w p)") (simp_all add: case_prod_beta Let_def)
  qed (use Cons.IH in \<open>simp add: case_prod_beta Let_def\<close>)
qed simp

lemma memory_reconciles:
  assumes "tok_Value token \<noteq> []" and "Valid token (mp_now p)" and "\<forall>w\<in>set (correctable_wants ds). di_Asset w = asset"
  shows "port_Reconcile (memory_Port time_text asset team) token ds p =
    (\<lparr>oc_Corrected = filter Correctable ds, oc_Escalated = filter (\<lambda>d. \<not> Correctable d) ds, oc_Failed = []\<rparr>,
     p\<lparr>mp_byKey := foldl (\<lambda>m w. gset m (desired_key w) (as_observed w)) (mp_byKey p) (correctable_wants ds)\<rparr>)"
  using assms(2,3)
proof (induction ds arbitrary: p)
  case Nil
  then show ?case by (simp add: correctable_wants_def)
next
  case (Cons d ds)
  show ?case
  proof (cases "Correctable d")
    case False
    then have ws: "correctable_wants (d # ds) = correctable_wants ds" by (simp add: correctable_wants_def)
    then show ?thesis using Cons.IH [of p] Cons.prems False by simp
  next
    case True
    then obtain w where w: "dr_Desired d = Some w" using Correctable_desired by blast
    let ?p = "p\<lparr>mp_byKey := gset (mp_byKey p) (desired_key w) (as_observed w)\<rparr>"
    have ws: "correctable_wants (d # ds) = w # correctable_wants ds" using True w by (simp add: correctable_wants_def)
    then have "di_Asset w = asset" using Cons.prems(2) by simp
    then have "po_Apply (memory_Port time_text asset team) token w p = (None, ?p)"
      using assms(1) Cons.prems(1) by (simp add: memory_Port_def memport_Apply_def)
    moreover have "port_Reconcile (memory_Port time_text asset team) token ds ?p =
        (\<lparr>oc_Corrected = filter Correctable ds, oc_Escalated = filter (\<lambda>d. \<not> Correctable d) ds, oc_Failed = []\<rparr>,
         ?p\<lparr>mp_byKey := foldl (\<lambda>m w. gset m (desired_key w) (as_observed w)) (mp_byKey ?p) (correctable_wants ds)\<rparr>)"
      using Cons.IH [of ?p] Cons.prems ws by simp
    ultimately show ?thesis using True w ws by simp
  qed
qed

lemma observed_key_as_observed [simp]: "observed_key (as_observed w) = desired_key w"
  by (simp add: observed_key_def desired_key_def as_observed_def)

lemma differs_as_observed [simp]: "differs w (as_observed w) own = []"
  by (auto simp: differs_def as_observed_def fleetDifferences_def compareLimits_def Let_def split: limits.split)

text \<open>An adapter's map in order: one entry per key, each under its own identity.\<close>

definition keyed :: "ObservedItem gomap \<Rightarrow> bool" where
  "keyed m \<longleftrightarrow> wf_map m \<and> (\<forall>(k, i)\<in>set m. k = observed_key i)"

lemma keyed_gset: "keyed m \<Longrightarrow> keyed (gset m (observed_key i) i)"
  unfolding keyed_def using gset_member by fast

lemma keyed_foldl: "keyed m \<Longrightarrow> keyed (foldl (\<lambda>m w. gset m (desired_key w) (as_observed w)) m ws)"
proof (induction ws arbitrary: m)
  case (Cons w ws)
  then show ?case using keyed_gset [of m "as_observed w"] by simp
qed simp

lemma keyed_index:
  assumes "keyed m"
  shows "map_of (observed_index (map snd m)) k = map_of m k"
proof -
  have "map observed_key (map snd m) = keys m" using assms by (auto simp: keyed_def keys_def)
  then have d: "distinct (map observed_key (map snd m))" using assms by (simp add: keyed_def wf_map_def)
  show ?thesis
  proof (cases "map_of m k")
    case None
    then have "k \<notin> observed_key ` set (map snd m)" using assms by (force simp: map_of_None_keys keyed_def keys_def)
    then show ?thesis using None index_None by metis
  next
    case (Some i)
    then have "(k, i) \<in> set m" by (rule map_of_SomeD)
    then have "i \<in> set (map snd m)" "k = observed_key i" using assms by (force simp: keyed_def)+
    then show ?thesis using index_distinct [OF d, of i] Some by simp
  qed
qed

lemma foldl_applied_lookup:
  "map_of (foldl (\<lambda>m w. gset m (desired_key w) (as_observed w)) m ws) k =
     (if k \<in> desired_key ` set ws
      then map_of (foldl (\<lambda>m w. gset m (desired_key w) (as_observed w)) [] ws) k else map_of m k)"
proof (induction ws arbitrary: m)
  case (Cons w ws)
  show ?case using Cons [of "gset m (desired_key w) (as_observed w)"] Cons [of "gset [] (desired_key w) (as_observed w)"]
    by (auto simp del: gset.simps)
qed simp

lemma foldl_applied_Some:
  assumes "w \<in> set ws" and "inj_on desired_key (set ws)"
  shows "map_of (foldl (\<lambda>m w. gset m (desired_key w) (as_observed w)) m ws) (desired_key w) = Some (as_observed w)"
  using assms
proof (induction ws arbitrary: m)
  case (Cons x ws)
  show ?case
  proof (cases "w \<in> set ws")
    case True
    then show ?thesis using Cons by simp
  next
    case False
    then have "w = x" using Cons.prems(1) by simp
    moreover have "desired_key x \<notin> desired_key ` set ws" using Cons.prems(2) False \<open>w = x\<close> by (auto dest: inj_onD)
    ultimately show ?thesis by (simp add: foldl_applied_lookup [of _ ws])
  qed
qed simp

lemma correctable_want_iff:
  "w \<in> set (correctable_wants (DiffOwned changes obs own)) \<longleftrightarrow>
     w \<in> set changes \<and> di_Gate w = GateNone \<and>
       (case map_of (observed_index obs) (desired_key w) of None \<Rightarrow> True | Some g \<Rightarrow> list_ex df_Governed (differs w g own))"
proof
  assume "w \<in> set (correctable_wants (DiffOwned changes obs own))"
  then obtain d where d: "d \<in> set (DiffOwned changes obs own)" "Correctable d" "dr_Desired d = Some w"
    by (fastforce simp: correctable_wants_def split: option.splits)
  then show "w \<in> set changes \<and> di_Gate w = GateNone \<and>
       (case map_of (observed_index obs) (desired_key w) of None \<Rightarrow> True | Some g \<Rightarrow> list_ex df_Governed (differs w g own))"
    by (auto simp: DiffOwned_mem Correctable_def Ungoverned_def)
next
  assume w: "w \<in> set changes \<and> di_Gate w = GateNone \<and>
       (case map_of (observed_index obs) (desired_key w) of None \<Rightarrow> True | Some g \<Rightarrow> list_ex df_Governed (differs w g own))"
  have "\<exists>d. d \<in> set (DiffOwned changes obs own) \<and> Correctable d \<and> dr_Desired d = Some w"
  proof (cases "map_of (observed_index obs) (desired_key w)")
    case None
    then have "absent_drift w \<in> set (DiffOwned changes obs own)" using w unfolding DiffOwned_mem by blast
    then show ?thesis using w by (intro exI [of _ "absent_drift w"]) (simp add: Correctable_def Ungoverned_def)
  next
    case (Some g)
    then have g: "list_ex df_Governed (differs w g own)" using w by simp
    then have "0 < length (differs w g own)" by (cases "differs w g own") auto
    then have "changed_drift w g (differs w g own) \<in> set (DiffOwned changes obs own)"
      using w Some unfolding DiffOwned_mem by blast
    then show ?thesis using w g
      by (intro exI [of _ "changed_drift w g (differs w g own)"]) (simp add: Correctable_def Ungoverned_def)
  qed
  then obtain d where d: "d \<in> set (DiffOwned changes obs own)" "Correctable d" "dr_Desired d = Some w" by blast
  then show "w \<in> set (correctable_wants (DiffOwned changes obs own))"
    by (auto simp: correctable_wants_def intro!: bexI [of _ d])
qed

section \<open>Properties\<close>

definition sample_token :: ExecutionToken where
  "sample_token = \<lparr>tok_Value = ''t'', tok_IntentID = ''i'', tok_Scope = [], tok_PolicyID = [], tok_IssuedAt = 0, tok_ExpiresAt = 100\<rparr>"

definition sample_memory :: MemPort where
  "sample_memory = \<lparr>mp_byKey = [(''app/deployment/payments-checkout'', sample_got [])], mp_now = 50\<rparr>"

lemma sample_fields: "di_Asset sample_want = ''app''" "di_Kind sample_want = ''deployment''" "di_Gate sample_want = GateNone"
  "di_Digest sample_want = ''sha256:a''" "ob_Digest (sample_got d) = d"
  by (simp_all add: sample_want_def zero_DesiredItem_def GateNone_def sample_got_def)

text \<open>C26: nothing is executed without a decision. Whatever backend an adapter wraps, if the guarded adapter reports
  success or its world changes, the token it was handed has a value and had not expired, the change is for the
  adapter's own asset and one of its kinds, and what happened is what the backend does with that token and change.\<close>

theorem guarded_executes_only_decisions:
  assumes "po_Apply (Guarded time_text clock g) token change p = (x, p')" and "x = None \<or> p' \<noteq> p"
  shows "tok_Value token \<noteq> [] \<and> clock p < tok_ExpiresAt token \<and> di_Asset change = av_Asset g \<and>
    (av_Kinds g = [] \<or> di_Kind change \<in> set (av_Kinds g)) \<and> av_ApplyApproved g token change p = (x, p')"
proof -
  have k: "map_of (kindSet ks) k = (if k \<in> set ks then Some True else None)" for ks k
    using foldl_gset_True [of "[]" ks k] by (simp add: kindSet_def)
  then have n: "kindSet ks = [] \<longleftrightarrow> ks = []" for ks by (metis kindSet_def foldl_Nil list.set_intros(1) map_of.simps(1) neq_Nil_conv option.distinct(1))
  show ?thesis
    using guarded.applied_under_live_token [OF assms] assms
    by (auto simp: Guarded_def guarded_Apply_def Let_def Valid_def k n split: if_splits)
qed

definition sample_backend :: "MemPort Approved" where
  "sample_backend = \<lparr>av_Asset = ''app'', av_Kinds = [''deployment''], av_Observe = memport_Observe ''payments'',
     av_ApplyApproved = memport_Apply (\<lambda>t. []) ''app''\<rparr>"

theorem guarded_executes_only_decisions_witness:
  "\<exists>p'. po_Apply (Guarded (\<lambda>t. []) mp_now sample_backend) sample_token sample_want sample_memory = (None, p') \<and>
     di_Kind sample_want \<in> set (av_Kinds sample_backend)"
proof -
  let ?p' = "sample_memory\<lparr>mp_byKey := gset (mp_byKey sample_memory) (desired_key sample_want) (as_observed sample_want)\<rparr>"
  have e: "po_Apply (Guarded (\<lambda>t. []) mp_now sample_backend) sample_token sample_want sample_memory = (None, ?p')"
    by (simp add: Guarded_def guarded_Apply_def sample_backend_def memport_Apply_def sample_token_def sample_memory_def
        sample_fields Valid_def kindSet_def)
  have "None = None \<or> ?p' \<noteq> sample_memory" by simp
  from guarded_executes_only_decisions [OF e this] e show ?thesis by (auto simp: sample_backend_def)
qed

text \<open>A pass of the reconciler corrects and escalates exactly along the line of the gate, and a dead token corrects
  nothing. Whatever the adapter, the escalated drifts are those of the report that are not correctable, in order; and
  under an empty or expired token the guarded adapter's world is unchanged and nothing is reported corrected.\<close>

theorem reconcile_escalates_what_is_gated:
  "oc_Escalated (fst (port_Reconcile port token ds q)) = filter (\<lambda>d. \<not> Correctable d) ds \<and>
   (tok_Value token = [] \<or> tok_ExpiresAt token \<le> clock p \<longrightarrow>
      snd (port_Reconcile (Guarded time_text clock g) token ds p) = p \<and>
      oc_Corrected (fst (port_Reconcile (Guarded time_text clock g) token ds p)) = [])"
  using port_Reconcile_escalates guarded.dead_token_reconciles_nothing [of token clock p] by (auto simp: Valid_def)

theorem reconcile_escalates_what_is_gated_witness:
  "snd (port_Reconcile (Guarded (\<lambda>t. []) mp_now sample_backend) (sample_token\<lparr>tok_Value := []\<rparr>) [absent_drift sample_want] sample_memory)
     = sample_memory"
proof -
  have "tok_Value (sample_token\<lparr>tok_Value := []\<rparr>) = [] \<or> tok_ExpiresAt (sample_token\<lparr>tok_Value := []\<rparr>) \<le> mp_now sample_memory"
    by simp
  from reconcile_escalates_what_is_gated [where clock = mp_now, THEN conjunct2, THEN mp, OF this] show ?thesis by (rule conjunct1)
qed

text \<open>One pass converges. Let the approved changes have distinct identities and be the adapter's, let the in-memory
  adapter hold one item per identity, and let the token be live. After one pass over the drift report of what the
  adapter shows, every correctable drift was corrected, nothing failed, the adapter shows each corrected change
  exactly as it was approved, and the new report has nothing correctable in it; what was gated was not touched.\<close>

theorem reconcile_converges:
  assumes "inj_on desired_key (set changes)" and "\<forall>w\<in>set changes. di_Asset w = asset" and "keyed (mp_byKey p)"
    and "tok_Value token \<noteq> []" and "mp_now p < tok_ExpiresAt token"
    and "port_Reconcile (memory_Port time_text asset team) token (DiffOwned changes (map snd (mp_byKey p)) own) p = (o1, p')"
  shows "oc_Failed o1 = [] \<and> oc_Corrected o1 = filter Correctable (DiffOwned changes (map snd (mp_byKey p)) own) \<and>
    (\<forall>d\<in>set (oc_Corrected o1). \<exists>w. dr_Desired d = Some w \<and> map_of (mp_byKey p') (desired_key w) = Some (as_observed w)) \<and>
    (\<forall>d\<in>set (DiffOwned changes (map snd (mp_byKey p')) own). \<not> Correctable d) \<and>
    (\<forall>w\<in>set changes. di_Gate w \<noteq> GateNone \<longrightarrow> map_of (mp_byKey p') (desired_key w) = map_of (mp_byKey p) (desired_key w))"
proof -
  define obs where "obs = map snd (mp_byKey p)"
  define ws where "ws = correctable_wants (DiffOwned changes obs own)"
  have sub: "set ws \<subseteq> set changes" by (auto simp: ws_def correctable_want_iff)
  have inj: "inj_on desired_key (set ws)" using assms(1) sub by (rule inj_on_subset)
  have res: "o1 = \<lparr>oc_Corrected = filter Correctable (DiffOwned changes obs own),
      oc_Escalated = filter (\<lambda>d. \<not> Correctable d) (DiffOwned changes obs own), oc_Failed = []\<rparr>"
    "mp_byKey p' = foldl (\<lambda>m w. gset m (desired_key w) (as_observed w)) (mp_byKey p) ws"
    using memory_reconciles [OF assms(4), of p "DiffOwned changes obs own" asset time_text team] assms(2,5,6) sub
    by (simp_all add: obs_def [symmetric] ws_def [symmetric] Valid_def subset_iff)
  have new: "map_of (mp_byKey p') (desired_key w) = Some (as_observed w)" if "w \<in> set ws" for w
    using foldl_applied_Some [OF that inj] by (simp add: res(2))
  have old: "map_of (mp_byKey p') (desired_key w) = map_of (mp_byKey p) (desired_key w)" if "w \<in> set changes" "w \<notin> set ws" for w
  proof -
    have "desired_key w \<notin> desired_key ` set ws" using that sub assms(1) by (auto dest: inj_onD)
    then show ?thesis by (simp add: res(2) foldl_applied_lookup [of "mp_byKey p"])
  qed
  have look: "map_of (observed_index (map snd (mp_byKey p'))) k = map_of (mp_byKey p') k" for k
    using keyed_index keyed_foldl [OF assms(3), of ws] by (simp add: res(2))
  have corrected: "\<exists>w. dr_Desired d = Some w \<and> map_of (mp_byKey p') (desired_key w) = Some (as_observed w)"
    if d: "d \<in> set (oc_Corrected o1)" for d
  proof -
    have c: "Correctable d" "d \<in> set (DiffOwned changes obs own)" using d by (auto simp: res(1))
    then obtain w where w: "dr_Desired d = Some w" using Correctable_desired by blast
    then have "w \<in> set ws" using c by (auto simp: ws_def correctable_wants_def intro!: bexI [of _ d])
    then show ?thesis using new w by blast
  qed
  have settled: "\<not> Correctable d" if d: "d \<in> set (DiffOwned changes (map snd (mp_byKey p')) own)" for d
  proof
    assume c: "Correctable d"
    then obtain w where w: "dr_Desired d = Some w" using Correctable_desired by blast
    then have "w \<in> set (correctable_wants (DiffOwned changes (map snd (mp_byKey p')) own))"
      using c d by (auto simp: correctable_wants_def intro!: bexI [of _ d])
    then have i: "w \<in> set changes" "di_Gate w = GateNone"
      "case map_of (mp_byKey p') (desired_key w) of None \<Rightarrow> True | Some g \<Rightarrow> list_ex df_Governed (differs w g own)"
      by (auto simp: correctable_want_iff look)
    show False
    proof (cases "w \<in> set ws")
      case True
      then show False using i(3) new by simp
    next
      case False
      then have "\<not> (case map_of (mp_byKey p') (desired_key w) of None \<Rightarrow> True | Some g \<Rightarrow> list_ex df_Governed (differs w g own))"
        using i(1,2) by (simp add: ws_def correctable_want_iff obs_def keyed_index [OF assms(3)] old)
      with i(3) show False by contradiction
    qed
  qed
  have untouched: "map_of (mp_byKey p') (desired_key w) = map_of (mp_byKey p) (desired_key w)"
    if "w \<in> set changes" "di_Gate w \<noteq> GateNone" for w
    using old [OF that(1)] that(2) by (auto simp: ws_def correctable_want_iff)
  show ?thesis using corrected settled untouched by (auto simp: res(1) obs_def)
qed

theorem reconcile_converges_witness:
  "\<exists>o1 p'. port_Reconcile (memory_Port (\<lambda>t. []) ''app'' ''payments'') sample_token
       (DiffOwned [sample_want] (map snd (mp_byKey sample_memory)) DefaultOwnership) sample_memory = (o1, p') \<and>
     map_of (mp_byKey p') (desired_key sample_want) = Some (as_observed sample_want)"
proof -
  let ?ds = "DiffOwned [sample_want] (map snd (mp_byKey sample_memory)) DefaultOwnership"
  obtain o1 p' where r: "port_Reconcile (memory_Port (\<lambda>t. []) ''app'' ''payments'') sample_token ?ds sample_memory = (o1, p')"
    by fastforce
  have k: "keyed (mp_byKey sample_memory)" by (simp add: sample_memory_def keyed_def sample_keys)
  have a: "inj_on desired_key (set [sample_want])" "\<forall>w\<in>set [sample_want]. di_Asset w = ''app''"
    "tok_Value sample_token \<noteq> []" "mp_now sample_memory < tok_ExpiresAt sample_token"
    by (simp_all add: sample_fields sample_token_def sample_memory_def)
  note c = reconcile_converges [OF a(1,2) k a(3,4) r]
  have "Owns DefaultOwnership ''digest''" by (simp add: default_owned)
  then have "list_ex df_Governed (differs sample_want (sample_got []) DefaultOwnership)"
    by (simp add: differs_def compare_field_def sample_fields)
  then have "sample_want \<in> set (correctable_wants ?ds)"
    unfolding correctable_want_iff
    by (simp add: keyed_index [OF k] sample_fields) (simp add: sample_memory_def sample_keys)
  then obtain d where "d \<in> set ?ds" "Correctable d" "dr_Desired d = Some sample_want"
    by (fastforce simp: correctable_wants_def split: option.splits)
  then have "d \<in> set (oc_Corrected o1)" using c by simp
  then show ?thesis using c r \<open>dr_Desired d = Some sample_want\<close> by fastforce
qed

end
