(* ===== verification/Manager.thy ===== *)
theory Manager
  imports Approvals Adapters
begin

text \<open>
  The manager that puts the door in front of every adapter: \<open>manager.go\<close>, \<open>transform.go\<close> and \<open>read.go\<close> of
  \<open>mantlekeep-estate\<close>, and the read side of \<open>service.go\<close>. What a deployment configures is the record \<open>wiring\<close>: the door,
  the adapters by asset, the optional approval store, transform, manifest store and recorder, all acting on one world of
  any type, from which the floor, the fleet, the clock and the random suffix of an id are read. Beside the world the
  operations carry a trace of the calls the code makes to the outside, in order; nothing reads it. Ranging over the map of
  adapters visits them in list order.
\<close>

section \<open>The wiring\<close>

record Discovery =
  dsc_Slot :: Slot
  dsc_Kind :: DriftKind
  dsc_Detail :: string
  dsc_Observed :: int

record 'w wiring =
  wi_door :: "Intent \<Rightarrow> 'w \<Rightarrow> (door_error + ExecutionToken) \<times> 'w"
  wi_ports :: "'w Port gomap"
  wi_floorOf :: "'w \<Rightarrow> Floor"
  wi_placerOf :: "'w \<Rightarrow> Placer option"
  wi_ownership :: Ownership
  wi_approvals :: "'w Approvals option"
  wi_transform :: "(string \<Rightarrow> DesiredItem \<Rightarrow> 'w \<Rightarrow> string + DesiredItem) option"
  wi_remember :: "(Manifest \<Rightarrow> 'w \<Rightarrow> string option \<times> 'w) option"
  wi_discoveries :: "(Discovery \<Rightarrow> 'w \<Rightarrow> string option \<times> 'w) option"
  wi_now :: "'w \<Rightarrow> int"
  wi_random :: "'w \<Rightarrow> string"

text \<open>\<open>NewManager\<close>: everything optional is absent, the floor is fixed and there is no fleet.\<close>

definition NewManager ::
  "(Intent \<Rightarrow> 'w \<Rightarrow> (door_error + ExecutionToken) \<times> 'w) \<Rightarrow> Floor \<Rightarrow> 'w Port list \<Rightarrow> ('w \<Rightarrow> int) \<Rightarrow> ('w \<Rightarrow> string) \<Rightarrow> 'w wiring" where
  "NewManager door fl ports now random =
     \<lparr>wi_door = door, wi_ports = foldl (\<lambda>m p. gset m (po_Asset p) p) [] ports, wi_floorOf = (\<lambda>w. fl),
      wi_placerOf = (\<lambda>w. None), wi_ownership = DefaultOwnership, wi_approvals = None, wi_transform = None,
      wi_remember = None, wi_discoveries = None, wi_now = now, wi_random = random\<rparr>"

definition RecordDiscoveriesTo :: "(Discovery \<Rightarrow> 'w \<Rightarrow> string option \<times> 'w) \<Rightarrow> 'w wiring \<Rightarrow> 'w wiring" where
  "RecordDiscoveriesTo recorder m = m\<lparr>wi_discoveries := Some recorder\<rparr>"

definition GovernFields :: "Ownership \<Rightarrow> 'w wiring \<Rightarrow> 'w wiring" where
  "GovernFields own m = m\<lparr>wi_ownership := own\<rparr>"

definition RememberManifestsIn :: "(Manifest \<Rightarrow> 'w \<Rightarrow> string option \<times> 'w) \<Rightarrow> 'w wiring \<Rightarrow> 'w wiring" where
  "RememberManifestsIn store m = m\<lparr>wi_remember := Some store\<rparr>"

definition FloorFrom :: "('w \<Rightarrow> Floor) \<Rightarrow> 'w wiring \<Rightarrow> 'w wiring" where
  "FloorFrom provider m = m\<lparr>wi_floorOf := provider\<rparr>"

definition AwaitApprovalIn :: "'w Approvals \<Rightarrow> 'w wiring \<Rightarrow> 'w wiring" where
  "AwaitApprovalIn store m = m\<lparr>wi_approvals := Some store\<rparr>"

definition TransformChangesWith :: "(string \<Rightarrow> DesiredItem \<Rightarrow> 'w \<Rightarrow> string + DesiredItem) \<Rightarrow> 'w wiring \<Rightarrow> 'w wiring" where
  "TransformChangesWith transform m = m\<lparr>wi_transform := Some transform\<rparr>"

definition PlaceOn :: "Placer option \<Rightarrow> 'w wiring \<Rightarrow> 'w wiring" where
  "PlaceOn placer m = m\<lparr>wi_placerOf := (\<lambda>w. placer)\<rparr>"

definition PlaceOnLive :: "('w \<Rightarrow> Placer option) \<Rightarrow> 'w wiring \<Rightarrow> 'w wiring" where
  "PlaceOnLive provider m = m\<lparr>wi_placerOf := provider\<rparr>"

datatype call =
    Asked Intent "door_error + ExecutionToken"
  | Executed ExecutionToken DesiredItem "string option"
  | Opened Approval "approval_error option"
  | Signed string Signature "approval_error + Approval"
  | Remembered Manifest "string option"
  | Discovered Discovery

type_synonym 'w state = "call list \<times> 'w"

record Result =
  rs_Change :: DesiredItem
  rs_Refused :: string
  rs_Failed :: string
  rs_Approval :: string
  rs_Outstanding :: string

record ApplyOutcome =
  ao_Applied :: "Result list"
  ao_Refused :: "Result list"
  ao_Failed :: "Result list"

record acting =
  act_subject :: Subject
  act_requester :: string

datatype manager_error =
    ResolveFailed resolve_error
  | StoreFailure string
  | ObserveFailed string string \<comment> \<open>asset, the adapter's error\<close>
  | ApprovalRefused approval_error
  | ReadRefused door_error
  | NoFootprintReader
  | UnknownTeam

definition result_for :: "DesiredItem \<Rightarrow> Result" where
  "result_for c = \<lparr>rs_Change = c, rs_Refused = [], rs_Failed = [], rs_Approval = [], rs_Outstanding = []\<rparr>"

definition res_Applied :: "Result \<Rightarrow> bool" where
  "res_Applied r \<longleftrightarrow> rs_Refused r = [] \<and> rs_Failed r = [] \<and> rs_Outstanding r = []"

section \<open>Where applications run\<close>

definition shortName :: "string \<Rightarrow> string \<Rightarrow> string" where
  "shortName deployment team =
     (case CutPrefix deployment (team @ ''-'') of Some rest \<Rightarrow> rest | None \<Rightarrow> deployment)"

definition placed_items :: "string \<Rightarrow> string gomap \<Rightarrow> Observed \<Rightarrow> string gomap" where
  "placed_items team placed obs =
     foldl (\<lambda>m i. if ob_Asset i = ''app'' \<and> sl_Cluster (ob_Slot i) \<noteq> []
                  then gset m (shortName (ob_Name i) team) (sl_Cluster (ob_Slot i)) else m) placed obs"

definition placedFor :: "'w wiring \<Rightarrow> 'w \<Rightarrow> string \<Rightarrow> string gomap" where
  "placedFor m w team =
     foldl (\<lambda>placed (_, port). case po_Observe port w team of
                                 Inl err \<Rightarrow> placed | Inr obs \<Rightarrow> placed_items team placed obs) [] (wi_ports m)"

section \<open>One change\<close>

definition requesterFor :: "string \<Rightarrow> DesiredItem \<Rightarrow> string" where
  "requesterFor requester c = (if di_Gate c = GateNone then [] else requester)"

definition intentFor :: "'w wiring \<Rightarrow> 'w \<Rightarrow> acting \<Rightarrow> string \<Rightarrow> DesiredItem \<Rightarrow> string \<Rightarrow> Intent" where
  "intentFor m w who team c floorRevision =
     \<lparr>int_ID = ''ESTATE-'' @ team @ ''-'' @ di_Name c @ ''-'' @ dec_int (wi_now m w),
      int_Subject = act_subject who, int_Action = ''estate.apply'', int_Resource = ''team/'' @ team,
      int_Spec = \<lparr>spec_Goal = ''provision '' @ di_Asset c @ '' '' @ di_Kind c @ '' '' @ go_quote (di_Name c) @ '' for '' @ team,
                  spec_AffectedSystems = [], spec_RiskLevel = RiskUnset, spec_Preconditions = [],
                  spec_Postconditions = [], spec_RollbackPlan = []\<rparr>,
      int_Params = [(''requester'', AStr (requesterFor (act_requester who) c)), (''asset'', AStr (di_Asset c)),
                    (''kind'', AStr (di_Kind c)), (''name'', AStr (di_Name c)), (''tier'', AStr (di_Tier c)),
                    (''gate'', AStr (di_Gate c)), (''cluster'', AStr (di_Cluster c)), (''scope'', AStr team),
                    (''floorRevision'', AStr floorRevision)],
      int_SubmittedAt = wi_now m w, int_TTL = 5 * 60 * 10 ^ 9, int_Via = []\<rparr>"

definition approvalWindow :: int where "approvalWindow = 7 * 24 * 3600 * 10 ^ 9"

definition approval_for :: "'w wiring \<Rightarrow> 'w \<Rightarrow> Subject \<Rightarrow> string \<Rightarrow> DesiredItem \<Rightarrow> Floor \<Rightarrow> Refused \<Rightarrow> Approval" where
  "approval_for m w actor team c fl r =
     (let now = wi_now m w
      in \<lparr>apr_ID = approvalID team (di_Name c) now (wi_random m w), apr_Team = team, apr_Change = c,
          apr_Requester = sub_ID actor, apr_RequiredRoles = ref_RequiredApprovers r,
          apr_RequiredSignatures = SignaturesFor fl (di_Gate c), apr_FloorRevision = fl_Revision fl,
          apr_Reason = ref_Reason r, apr_State = ApprovalPending, apr_ApprovedBy = [], apr_Signatures = [],
          apr_DeclinedBy = [], apr_DeclinedReason = [], apr_CreatedAt = now, apr_DecidedAt = zero_time,
          apr_ExpiresAt = now + approvalWindow\<rparr>)"

definition openApproval ::
  "'w wiring \<Rightarrow> 'w Approvals \<Rightarrow> Subject \<Rightarrow> string \<Rightarrow> DesiredItem \<Rightarrow> Floor \<Rightarrow> Refused \<Rightarrow> 'w state \<Rightarrow> (approval_error + string) \<times> 'w state" where
  "openApproval m store actor team c fl r st =
     (let (tr, w) = st; a = approval_for m w actor team c fl r; (e, w') = aps_Open store w a
      in (case e of Some err \<Rightarrow> Inl err | None \<Rightarrow> Inr (apr_ID a), tr @ [Opened a e], w'))"

definition applyOne ::
  "'w wiring \<Rightarrow> acting \<Rightarrow> string \<Rightarrow> DesiredItem \<Rightarrow> Floor \<Rightarrow> 'w state \<Rightarrow> Result \<times> 'w state" where
  "applyOne m who team c fl st =
     (let (tr, w) = st; r = result_for c
      in case map_of (wi_ports m) (di_Asset c) of
           None \<Rightarrow> (r\<lparr>rs_Failed := ''no adapter is registered for asset '' @ go_quote (di_Asset c)\<rparr>, st)
         | Some port \<Rightarrow>
             (let intent = intentFor m w who team c (fl_Revision fl); (answer, w1) = wi_door m intent w;
                  st1 = (tr @ [Asked intent answer], w1)
              in case answer of
                   Inl err \<Rightarrow>
                     (case (wi_approvals m, find_Refused err) of
                        (Some store, Some refused) \<Rightarrow>
                          if Pending refused
                          then (case openApproval m store (act_subject who) team c fl refused st1 of
                                  (Inr ident, st2) \<Rightarrow> (r\<lparr>rs_Refused := error_text err, rs_Approval := ident\<rparr>, st2)
                                | (Inl e, st2) \<Rightarrow> (r\<lparr>rs_Refused := error_text err\<rparr>, st2))
                          else (r\<lparr>rs_Refused := error_text err\<rparr>, st1)
                      | _ \<Rightarrow> (r\<lparr>rs_Refused := error_text err\<rparr>, st1))
                 | Inr token \<Rightarrow>
                     (let (e, w2) = po_Apply port token c w1
                      in (case e of Some msg \<Rightarrow> r\<lparr>rs_Failed := msg\<rparr> | None \<Rightarrow> r,
                          fst st1 @ [Executed token c e], w2))))"

definition transformChange :: "'w wiring \<Rightarrow> string \<Rightarrow> DesiredItem \<Rightarrow> 'w \<Rightarrow> string + DesiredItem" where
  "transformChange m team c w =
     (case wi_transform m of
        None \<Rightarrow> Inr c
      | Some transform \<Rightarrow>
          (case transform team c w of
             Inl e \<Rightarrow> Inl e
           | Inr c' \<Rightarrow>
               if desired_key c' \<noteq> desired_key c
               then Inl (''the transform changed the identity of this change from '' @ go_quote (desired_key c) @ '' to '' @
                         go_quote (desired_key c') @ '' '' @ em_dash @ '' a transform may rewrite what a change is, never '' @
                         ''which change it is, or the door rules on one resource and the adapter is handed another'')
               else Inr c'))"

definition transformThenApply ::
  "'w wiring \<Rightarrow> acting \<Rightarrow> string \<Rightarrow> DesiredItem \<Rightarrow> Floor \<Rightarrow> 'w state \<Rightarrow> Result \<times> 'w state" where
  "transformThenApply m who team c fl st =
     (case transformChange m team c (snd st) of
        Inl e \<Rightarrow> ((result_for c)\<lparr>rs_Failed := ''the change was not submitted: '' @ e\<rparr>, st)
      | Inr c' \<Rightarrow> applyOne m who team c' fl st)"

section \<open>A manifest applied, and reconciled\<close>

definition sort_result :: "ApplyOutcome \<Rightarrow> Result \<Rightarrow> ApplyOutcome" where
  "sort_result o1 r =
     (if rs_Refused r \<noteq> [] then o1\<lparr>ao_Refused := ao_Refused o1 @ [r]\<rparr>
      else if rs_Failed r \<noteq> [] then o1\<lparr>ao_Failed := ao_Failed o1 @ [r]\<rparr>
      else o1\<lparr>ao_Applied := ao_Applied o1 @ [r]\<rparr>)"

definition no_outcome :: ApplyOutcome where
  "no_outcome = \<lparr>ao_Applied = [], ao_Refused = [], ao_Failed = []\<rparr>"

fun apply_changes ::
  "'w wiring \<Rightarrow> acting \<Rightarrow> string \<Rightarrow> Floor \<Rightarrow> DesiredItem list \<Rightarrow> ApplyOutcome \<times> 'w state \<Rightarrow> ApplyOutcome \<times> 'w state" where
  "apply_changes m who team fl [] acc = acc"
| "apply_changes m who team fl (c # cs) (o1, st) =
     (let (r, st') = transformThenApply m who team c fl st in apply_changes m who team fl cs (sort_result o1 r, st'))"

definition man_Apply :: "'w wiring \<Rightarrow> Subject \<Rightarrow> Manifest \<Rightarrow> 'w state \<Rightarrow> (manager_error + ApplyOutcome) \<times> 'w state" where
  "man_Apply m actor manifest st =
     (let (tr, w) = st; fl = wi_floorOf m w
      in case ResolveWith manifest fl (wi_placerOf m w) (placedFor m w (man_Team manifest)) of
           Inl e \<Rightarrow> (Inl (ResolveFailed e), st)
         | Inr desired \<Rightarrow>
             (let (err, st1) = (case wi_remember m of
                                  None \<Rightarrow> (None, st)
                                | Some remember \<Rightarrow> (let (e, w1) = remember manifest w in (e, tr @ [Remembered manifest e], w1)))
              in case err of
                   Some e \<Rightarrow> (Inl (StoreFailure e), st1)
                 | None \<Rightarrow>
                     (let (o1, st2) = apply_changes m \<lparr>act_subject = actor, act_requester = []\<rparr> (man_Team manifest) fl
                                        (des_Changes desired) (no_outcome, st1)
                      in (Inr o1, st2))))"

fun observe_ports :: "'w \<Rightarrow> string \<Rightarrow> (string \<times> 'w Port) list \<Rightarrow> manager_error + Observed" where
  "observe_ports w team [] = Inr []"
| "observe_ports w team ((_, port) # ports) =
     (case po_Observe port w team of
        Inl e \<Rightarrow> Inl (ObserveFailed (po_Asset port) e)
      | Inr seen \<Rightarrow> (case observe_ports w team ports of Inl e \<Rightarrow> Inl e | Inr rest \<Rightarrow> Inr (seen @ rest)))"

definition observeAll :: "'w \<Rightarrow> 'w Port gomap \<Rightarrow> string \<Rightarrow> manager_error + Observed" where
  "observeAll w ports team =
     (case observe_ports w team ports of Inl e \<Rightarrow> Inl e | Inr obs \<Rightarrow> Inr (sort_key observed_key obs))"

definition discovery_for :: "'w wiring \<Rightarrow> 'w \<Rightarrow> Drift \<Rightarrow> Discovery" where
  "discovery_for m w d =
     \<lparr>dsc_Slot = (case dr_Desired d of
                    Some c \<Rightarrow> di_Slot c
                  | None \<Rightarrow> (case dr_Observed d of Some g \<Rightarrow> ob_Slot g | None \<Rightarrow> zero_Slot)),
      dsc_Kind = dr_Kind d, dsc_Detail = dr_Detail d, dsc_Observed = wi_now m w\<rparr>"

text \<open>The error of a recorder is dropped.\<close>

definition recordDiscovery :: "'w wiring \<Rightarrow> Drift \<Rightarrow> 'w state \<Rightarrow> 'w state" where
  "recordDiscovery m d st =
     (case wi_discoveries m of
        None \<Rightarrow> st
      | Some record_discovery \<Rightarrow>
          (let (tr, w) = st; disc = discovery_for m w d in (tr @ [Discovered disc], snd (record_discovery disc w))))"

fun reconcile_drifts ::
  "'w wiring \<Rightarrow> acting \<Rightarrow> string \<Rightarrow> Floor \<Rightarrow> Drift list \<Rightarrow> ApplyOutcome \<times> Drift list \<times> 'w state \<Rightarrow> ApplyOutcome \<times> Drift list \<times> 'w state" where
  "reconcile_drifts m who team fl [] acc = acc"
| "reconcile_drifts m who team fl (d # ds) (o1, escalated, st) =
     (let st1 = recordDiscovery m d st
      in case (Correctable d, dr_Desired d) of
           (True, Some c) \<Rightarrow>
             (let (r, st2) = transformThenApply m who team c fl st1
              in reconcile_drifts m who team fl ds (sort_result o1 r, escalated, st2))
         | _ \<Rightarrow> reconcile_drifts m who team fl ds (o1, escalated @ [d], st1))"

definition man_Reconcile ::
  "'w wiring \<Rightarrow> Subject \<Rightarrow> Manifest \<Rightarrow> 'w state \<Rightarrow> (manager_error + ApplyOutcome \<times> Drift list) \<times> 'w state" where
  "man_Reconcile m actor manifest st =
     (let (tr, w) = st; fl = wi_floorOf m w
      in case ResolveWith manifest fl (wi_placerOf m w) (placedFor m w (man_Team manifest)) of
           Inl e \<Rightarrow> (Inl (ResolveFailed e), st)
         | Inr desired \<Rightarrow>
             (case observeAll w (wi_ports m) (man_Team manifest) of
                Inl e \<Rightarrow> (Inl e, st)
              | Inr obs \<Rightarrow>
                  (let (o1, escalated, st') =
                         reconcile_drifts m \<lparr>act_subject = actor, act_requester = []\<rparr> (man_Team manifest) fl
                           (DiffOwned (des_Changes desired) obs (wi_ownership m)) (no_outcome, [], st)
                   in (Inr (o1, escalated), st'))))"

section \<open>A person approves or declines\<close>

definition ApproveCiting ::
  "'w wiring \<Rightarrow> Subject \<Rightarrow> string \<Rightarrow> string \<Rightarrow> 'w state \<Rightarrow> (approval_error + Result) \<times> 'w state" where
  "ApproveCiting m approver ident reference st =
     (let (tr, w) = st
      in case wi_approvals m of
           None \<Rightarrow> (Inl NoApprovalStore, st)
         | Some store \<Rightarrow>
             (case aps_Get store (wi_now m w) w ident of
                Inl e \<Rightarrow> (Inl e, st)
              | Inr a \<Rightarrow>
                  (let fl = wi_floorOf m w
                   in if \<not> apr_Pending a (wi_now m w) then (Inl ApprovalNotPending, st)
                      else if sub_IsAI approver then (Inl AIApproval, st)
                      else if apr_Requester a = sub_ID approver then (Inl SelfApproval, st)
                      else if HasSignatureFrom a (sub_ID approver) then (Inl DuplicateSignature, st)
                      else if fl_Revision fl \<noteq> apr_FloorRevision a
                      then (Inl (FloorMoved (apr_FloorRevision a) (fl_Revision fl)), st)
                      else (let sg = \<lparr>sg_By = sub_ID approver, sg_At = wi_now m w, sg_Reference = reference\<rparr>;
                                (x, w1) = collectSignature store (wi_now m w) w a sg; st1 = (tr @ [Signed ident sg x], w1)
                            in case x of
                                 Inl e \<Rightarrow> (Inl e, st1)
                               | Inr signed \<Rightarrow>
                                   if 0 < SignaturesOutstanding signed
                                   then (Inr ((result_for (apr_Change signed))
                                           \<lparr>rs_Approval := apr_ID signed, rs_Outstanding := StillNeeded signed\<rparr>), st1)
                                   else (let (r, st2) = applyOne m \<lparr>act_subject = approver, act_requester = apr_Requester signed\<rparr>
                                                          (apr_Team signed) (apr_Change signed) fl st1
                                         in (Inr r, st2))))))"

definition man_Approve :: "'w wiring \<Rightarrow> Subject \<Rightarrow> string \<Rightarrow> 'w state \<Rightarrow> (approval_error + Result) \<times> 'w state" where
  "man_Approve m approver ident st = ApproveCiting m approver ident [] st"

definition man_Decline :: "'w wiring \<Rightarrow> Subject \<Rightarrow> string \<Rightarrow> string \<Rightarrow> 'w \<Rightarrow> approval_error option \<times> 'w" where
  "man_Decline m approver ident reason w =
     (case wi_approvals m of
        None \<Rightarrow> (Some NoApprovalStore, w)
      | Some store \<Rightarrow>
          if reason = [] then (Some DeclineNeedsReason, w)
          else (case aps_Get store (wi_now m w) w ident of
                  Inl e \<Rightarrow> (Some e, w)
                | Inr a \<Rightarrow>
                    if \<not> apr_Pending a (wi_now m w) then (Some ApprovalNotPending, w)
                    else aps_Decide store (wi_now m w) w
                           (a\<lparr>apr_State := ApprovalDeclined, apr_DeclinedBy := sub_ID approver,
                              apr_DeclinedReason := reason, apr_DecidedAt := wi_now m w\<rparr>)))"

definition PendingApprovals :: "'w wiring \<Rightarrow> string \<Rightarrow> 'w \<Rightarrow> approval_error + Approval list" where
  "PendingApprovals m team w =
     (case wi_approvals m of None \<Rightarrow> Inr [] | Some store \<Rightarrow> aps_Pending store (wi_now m w) w team)"

section \<open>The read side\<close>

record Footprint =
  fp_Team :: string
  fp_ObservedAt :: int
  fp_Manifest :: Manifest
  fp_Desired :: Desired
  fp_Declared :: bool
  fp_Observed :: Observed
  fp_Drifts :: "Drift list"

definition undeclared :: "string \<Rightarrow> Manifest" where
  "undeclared team = \<lparr>man_Team = team, man_Owns = team, man_Tier = [], man_Classification = [], man_Apps = [],
     man_Kafka = None, man_Postgres = [], man_Harbor = None, man_Labels = []\<rparr>"

text \<open>The service's \<open>Footprint\<close>; \<open>recall\<close> is its manifest store, and its other settings are those of a wiring.\<close>

definition service_Manifest :: "('w \<Rightarrow> string \<Rightarrow> string + Manifest option) \<Rightarrow> 'w \<Rightarrow> string \<Rightarrow> manager_error + Manifest" where
  "service_Manifest recall w team =
     (case recall w team of
        Inl e \<Rightarrow> Inl (StoreFailure e)
      | Inr None \<Rightarrow> Inl UnknownTeam
      | Inr (Some m) \<Rightarrow> Inr m)"

definition service_Footprint ::
  "'w wiring \<Rightarrow> ('w \<Rightarrow> string \<Rightarrow> string + Manifest option) \<Rightarrow> string \<Rightarrow> 'w \<Rightarrow> manager_error + Footprint" where
  "service_Footprint s recall team w =
     (let found = service_Manifest recall w team
      in case (case found of
                 Inr m \<Rightarrow> Inr (m, True)
               | Inl UnknownTeam \<Rightarrow> Inr (undeclared team, False)
               | Inl e \<Rightarrow> Inl e) of
           Inl e \<Rightarrow> Inl e
         | Inr (manifest, declared) \<Rightarrow>
             (case (if declared
                    then ResolveWith manifest (wi_floorOf s w) (wi_placerOf s w) (placedFor s w (man_Team manifest))
                    else Inr \<lparr>des_Team = [], des_Owns = [], des_Changes = []\<rparr>) of
                Inl e \<Rightarrow> Inl (ResolveFailed e)
              | Inr desired \<Rightarrow>
                  (case observeAll w (wi_ports s) team of
                     Inl e \<Rightarrow> Inl e
                   | Inr obs \<Rightarrow> Inr \<lparr>fp_Team = team, fp_ObservedAt = wi_now s w, fp_Manifest = manifest, fp_Desired = desired,
                        fp_Declared = declared, fp_Observed = obs,
                        fp_Drifts = DiffOwned (des_Changes desired) obs (wi_ownership s)\<rparr>)))"

definition intentForRead :: "'w wiring \<Rightarrow> 'w \<Rightarrow> Subject \<Rightarrow> string \<Rightarrow> Intent" where
  "intentForRead m w actor team =
     \<lparr>int_ID = ''ESTATE-READ-'' @ team @ ''-'' @ dec_int (wi_now m w), int_Subject = actor, int_Action = ''estate.read'',
      int_Resource = ''team/'' @ team,
      int_Spec = \<lparr>spec_Goal = ''read the estate of '' @ team, spec_AffectedSystems = [], spec_RiskLevel = RiskUnset,
                  spec_Preconditions = [], spec_Postconditions = [], spec_RollbackPlan = []\<rparr>,
      int_Params = [(''scope'', AStr team)], int_SubmittedAt = wi_now m w, int_TTL = 60 * 10 ^ 9, int_Via = []\<rparr>"

definition man_Footprint ::
  "'w wiring \<Rightarrow> ('w \<Rightarrow> string \<Rightarrow> manager_error + Footprint) option \<Rightarrow> Subject \<Rightarrow> string \<Rightarrow> 'w state \<Rightarrow> (manager_error + Footprint) \<times> 'w state" where
  "man_Footprint m reader actor team st =
     (case reader of
        None \<Rightarrow> (Inl NoFootprintReader, st)
      | Some footprint \<Rightarrow>
          (let (tr, w) = st; intent = intentForRead m w actor team; (answer, w1) = wi_door m intent w;
               st1 = (tr @ [Asked intent answer], w1)
           in case answer of Inl err \<Rightarrow> (Inl (ReadRefused err), st1) | Inr token \<Rightarrow> (footprint w1 team, st1)))"

section \<open>What one change leaves in the trace\<close>

text \<open>The calls made for a change \<open>c\<close> asked as \<open>intent\<close>: refused, with or without an approval opened for it; or allowed
  and executed under the token of that answer.\<close>

inductive change_calls :: "Intent \<Rightarrow> DesiredItem \<Rightarrow> call list \<Rightarrow> bool" for intent c where
  refused: "change_calls intent c [Asked intent (Inl err)]"
| opened: "apr_Change a = c \<Longrightarrow> fresh a \<Longrightarrow> find_Refused err = Some r \<Longrightarrow> Pending r \<Longrightarrow>
    change_calls intent c [Asked intent (Inl err), Opened a e]"
| executed: "change_calls intent c [Asked intent (Inr token), Executed token c e]"

inductive_cases change_callsE: "change_calls intent c seg"

lemma fresh_approval_for: "fresh (approval_for m w actor team c fl r)" "apr_Change (approval_for m w actor team c fl r) = c"
  by (simp_all add: approval_for_def fresh_def Let_def)

lemma applyOne_cases:
  assumes "applyOne m who team c fl (tr, w) = (r, tr', w')"
  obtains (no_adapter) "map_of (wi_ports m) (di_Asset c) = None" "tr' = tr" "w' = w" "rs_Failed r \<noteq> []" "rs_Refused r = []"
      "rs_Change r = c" "rs_Approval r = []" "rs_Outstanding r = []"
  | (refused) err seg w1 where "tr' = tr @ seg" "change_calls (intentFor m w who team c (fl_Revision fl)) c seg"
      "hd seg = Asked (intentFor m w who team c (fl_Revision fl)) (Inl err)" "rs_Refused r = error_text err" "rs_Failed r = []"
      "rs_Change r = c" "rs_Outstanding r = []" "rs_Approval r \<noteq> [] \<longrightarrow> (\<exists>q. find_Refused err = Some q \<and> Pending q)"
      "wi_door m (intentFor m w who team c (fl_Revision fl)) w = (Inl err, w1)"
  | (executed) token e w1 where
      "tr' = tr @ [Asked (intentFor m w who team c (fl_Revision fl)) (Inr token), Executed token c e]"
      "rs_Change r = c" "rs_Refused r = []" "rs_Failed r = (case e of Some msg \<Rightarrow> msg | None \<Rightarrow> [])" "rs_Approval r = []"
      "rs_Outstanding r = []" "wi_door m (intentFor m w who team c (fl_Revision fl)) w = (Inr token, w1)"
proof (cases "map_of (wi_ports m) (di_Asset c)")
  case None
  with assms no_adapter show ?thesis by (auto simp: applyOne_def result_for_def)
next
  case (Some port)
  let ?i = "intentFor m w who team c (fl_Revision fl)"
  obtain answer w1 where d: "wi_door m ?i w = (answer, w1)" by fastforce
  show ?thesis
  proof (cases answer)
    case (Inr token)
    obtain e w2 where p: "po_Apply port token c w1 = (e, w2)" by fastforce
    have "tr' = tr @ [Asked ?i (Inr token), Executed token c e]"
      "r = (case e of Some msg \<Rightarrow> (result_for c)\<lparr>rs_Failed := msg\<rparr> | None \<Rightarrow> result_for c)"
      using assms Some d Inr p by (simp_all add: applyOne_def Let_def)
    then show ?thesis using executed [of token e w1] d Inr by (cases e) (simp_all add: result_for_def)
  next
    case (Inl err)
    show ?thesis
    proof (cases "wi_approvals m \<noteq> None \<and> (\<exists>q. find_Refused err = Some q \<and> Pending q)")
      case False
      with assms Some d Inl have "tr' = tr @ [Asked ?i (Inl err)]" "r = (result_for c)\<lparr>rs_Refused := error_text err\<rparr>"
        by (auto simp: applyOne_def Let_def split: option.splits if_splits)
      then show ?thesis using refused [of "[Asked ?i (Inl err)]" err w1] change_calls.refused d Inl by (simp add: result_for_def)
    next
      case True
      then obtain store q where q: "wi_approvals m = Some store" "find_Refused err = Some q" "Pending q" by blast
      let ?a = "approval_for m w1 (act_subject who) team c fl q"
      obtain e w2 where o: "aps_Open store w1 ?a = (e, w2)" by fastforce
      have "tr' = tr @ [Asked ?i (Inl err), Opened ?a e]" "rs_Refused r = error_text err" "rs_Failed r = []" "rs_Change r = c"
        "rs_Outstanding r = []"
        using assms Some d Inl q o by (auto simp: applyOne_def openApproval_def result_for_def Let_def split: option.splits)
      moreover have "change_calls ?i c [Asked ?i (Inl err), Opened ?a e]"
        using change_calls.opened [OF fresh_approval_for(2,1) q(2,3)] .
      ultimately show ?thesis using refused [of "[Asked ?i (Inl err), Opened ?a e]" err w1] q d Inl by simp
    qed
  qed
qed

section \<open>Governed traces\<close>

definition names_change :: "Intent \<Rightarrow> DesiredItem \<Rightarrow> bool" where
  "names_change i c \<longleftrightarrow> int_Action i = ''estate.apply'' \<and> param_string (int_Params i) ''asset'' = di_Asset c \<and>
     param_string (int_Params i) ''kind'' = di_Kind c \<and> param_string (int_Params i) ''name'' = di_Name c \<and>
     param_string (int_Params i) ''tier'' = di_Tier c \<and> param_string (int_Params i) ''gate'' = di_Gate c \<and>
     param_string (int_Params i) ''cluster'' = di_Cluster c"

lemma names_change_intentFor: "names_change (intentFor m w who team c revision) c"
  by (simp add: names_change_def intentFor_def param_string_def)

text \<open>Every execution comes right after the door's answer to an intent naming that change, under the answer's token.\<close>

definition governed :: "call list \<Rightarrow> bool" where
  "governed tr \<longleftrightarrow> (\<forall>pre token c e post. tr = pre @ Executed token c e # post \<longrightarrow>
     (\<exists>before intent. pre = before @ [Asked intent (Inr token)] \<and> names_change intent c))"

lemma governed_Nil [simp]: "governed []"
  by (simp add: governed_def)

lemma governed_append:
  assumes "governed a" and "governed b"
  shows "governed (a @ b)"
  unfolding governed_def
proof (intro allI impI)
  fix pre token c e post
  assume "a @ b = pre @ Executed token c e # post"
  then have "(\<exists>us. pre = a @ us \<and> b = us @ Executed token c e # post) \<or> (\<exists>us. a = pre @ Executed token c e # us)"
    unfolding append_eq_append_conv2 by (metis append_Nil append_Nil2 append_eq_Cons_conv)
  then consider us where "pre = a @ us" "b = us @ Executed token c e # post"
    | us where "a = pre @ Executed token c e # us" by blast
  then show "\<exists>before intent. pre = before @ [Asked intent (Inr token)] \<and> names_change intent c"
  proof cases
    case 1
    with assms(2) obtain before intent where "us = before @ [Asked intent (Inr token)]" "names_change intent c"
      unfolding governed_def by blast
    with 1 show ?thesis by (intro exI [of _ "a @ before"]) auto
  next
    case 2
    with assms(1) show ?thesis unfolding governed_def by blast
  qed
qed

lemma governed_single: "(\<And>token c e. x \<noteq> Executed token c e) \<Longrightarrow> governed [x]"
  by (auto simp: governed_def Cons_eq_append_conv)

lemma governed_pair: "names_change intent c \<Longrightarrow> governed [Asked intent (Inr token), Executed token c e]"
  by (auto simp: governed_def append_eq_Cons_conv Cons_eq_append_conv)

lemma change_calls_governed:
  assumes "change_calls intent c seg" and "names_change intent c"
  shows "governed seg"
  using assms(1)
proof (cases rule: change_calls.cases)
  case (refused err)
  then show ?thesis by (simp add: governed_single)
next
  case (opened a err r e)
  then show ?thesis
    using governed_append [OF governed_single governed_single, of "Asked intent (Inl err)" "Opened a e"] by simp
next
  case (executed token e)
  then show ?thesis using governed_pair [OF assms(2)] by simp
qed

lemma applyOne_governed:
  assumes "applyOne m who team c fl (tr, w) = (r, tr', w')"
  shows "\<exists>seg. tr' = tr @ seg \<and> governed seg"
  using assms
proof (cases rule: applyOne_cases)
  case no_adapter
  then show ?thesis by (intro exI [of _ "[]"]) simp
next
  case (refused err seg w1)
  then show ?thesis using change_calls_governed [OF refused(2) names_change_intentFor] by (intro exI [of _ seg]) simp
next
  case (executed token e w1)
  then show ?thesis using governed_pair [OF names_change_intentFor]
    by (intro exI [of _ "[Asked (intentFor m w who team c (fl_Revision fl)) (Inr token), Executed token c e]"]) simp
qed

end
