(* ===== verification/Governing.thy ===== *)
theory Governing
  imports Manager "HOL-Library.Multiset"
begin

text \<open>
  What the manager guarantees, for any door, adapters, transform and stores it is wired to: the calls it makes are
  governed, a gated change is executed only after the required people approved it, nothing is lost between a manifest
  and the outcome, and a corrected drift is one the door was asked about.
\<close>

section \<open>Extensions of the trace\<close>

text \<open>What an operation adds to the trace is governed on its own, and satisfies \<open>P\<close> of every execution.\<close>

definition adds :: "(ExecutionToken \<Rightarrow> DesiredItem \<Rightarrow> bool) \<Rightarrow> 'w state \<Rightarrow> 'w state \<Rightarrow> bool" where
  "adds P st st' \<longleftrightarrow> (\<exists>seg. fst st' = fst st @ seg \<and> governed seg \<and> (\<forall>token c e. Executed token c e \<in> set seg \<longrightarrow> P token c))"

lemma adds_refl [simp]: "adds P st st"
  by (auto simp: adds_def intro: exI [of _ "[]"])

lemma adds_trans:
  assumes "adds P a b" and "adds P b c"
  shows "adds P a c"
proof -
  obtain s1 s2 where s: "fst b = fst a @ s1" "governed s1" "fst c = fst b @ s2" "governed s2"
    and p: "\<And>token d e. Executed token d e \<in> set s1 \<Longrightarrow> P token d" "\<And>token d e. Executed token d e \<in> set s2 \<Longrightarrow> P token d"
    using assms unfolding adds_def by blast
  then have "fst c = fst a @ s1 @ s2" by simp
  moreover have "P token d" if "Executed token d e \<in> set (s1 @ s2)" for token d e
    using that p [of token d e] unfolding set_append Un_iff by blast
  moreover have "governed (s1 @ s2)" using governed_append s by blast
  ultimately show ?thesis unfolding adds_def by blast
qed

lemma adds_world: "fst st = fst st' \<Longrightarrow> adds P st st'"
  by (auto simp: adds_def intro: exI [of _ "[]"])

lemma adds_mono: "adds P a b \<Longrightarrow> (\<And>t c. P t c \<Longrightarrow> Q t c) \<Longrightarrow> adds Q a b"
  unfolding adds_def by blast

lemma addsD: "adds P (tr, w) (tr @ seg, w') \<Longrightarrow> Executed token c e \<in> set seg \<Longrightarrow> P token c"
  unfolding adds_def fst_conv same_append_eq by blast

text \<open>A call that executes nothing.\<close>

lemma adds_call: "(\<And>token c e. x \<noteq> Executed token c e) \<Longrightarrow> adds P (tr, w) (tr @ [x], w')"
  using governed_single [of x] by (auto simp: adds_def)

lemma adds_change_calls:
  assumes "change_calls intent c seg" and "names_change intent c" and "\<And>token. Asked intent (Inr token) \<in> set seg \<Longrightarrow> P token c"
  shows "adds P (tr, w) (tr @ seg, w')"
proof -
  have "\<forall>token d e. Executed token d e \<in> set seg \<longrightarrow> P token d"
    using assms(1) by (rule change_callsE) (use assms(3) in auto)
  then show ?thesis using change_calls_governed [OF assms(1,2)] unfolding adds_def by auto
qed

text \<open>One change: what is asked for it, and under which answer it is executed.\<close>

lemma applyOne_adds:
  assumes "applyOne m who team c fl st = (r, st')"
    and "\<And>w token w'. wi_door m (intentFor m w who team c (fl_Revision fl)) w = (Inr token, w') \<Longrightarrow> P token c"
  shows "adds P st st'"
proof -
  obtain tr w tr' w' where st: "st = (tr, w)" "st' = (tr', w')" by fastforce
  let ?i = "intentFor m w who team c (fl_Revision fl)"
  have a: "applyOne m who team c fl (tr, w) = (r, tr', w')" using assms(1) st by simp
  show ?thesis
  proof (cases rule: applyOne_cases [OF a])
    case 1
    then show ?thesis by (simp add: st)
  next
    case (2 err seg w1)
    have "adds P (tr, w) (tr @ seg, w')"
    proof (rule adds_change_calls [OF 2(2) names_change_intentFor])
      fix token
      assume "Asked ?i (Inr token) \<in> set seg"
      with 2(2,3) show "P token c" by (auto elim: change_callsE)
    qed
    then show ?thesis using 2(1) st by simp
  next
    case (3 token e w1)
    then have "P token c" using assms(2) by blast
    then have "adds P (tr, w) (tr @ [Asked ?i (Inr token), Executed token c e], w')"
      using adds_change_calls [OF change_calls.executed names_change_intentFor] by simp
    then show ?thesis using 3(1) st by simp
  qed
qed

text \<open>What a transform may hand on.\<close>

definition transformed :: "'w wiring \<Rightarrow> string \<Rightarrow> DesiredItem \<Rightarrow> DesiredItem \<Rightarrow> bool" where
  "transformed m team c c' \<longleftrightarrow> (\<exists>w. transformChange m team c w = Inr c')"

lemma transformChange_Inr:
  "transformChange m team c w = Inr c' \<longleftrightarrow>
     (case wi_transform m of None \<Rightarrow> c' = c | Some f \<Rightarrow> f team c w = Inr c' \<and> desired_key c' = desired_key c)"
  by (auto simp: transformChange_def split: option.splits sum.splits)

lemma transformed_iff:
  "transformed m team c c' \<longleftrightarrow>
     (case wi_transform m of None \<Rightarrow> c' = c | Some f \<Rightarrow> (\<exists>w. f team c w = Inr c') \<and> desired_key c' = desired_key c)"
  by (simp add: transformed_def transformChange_Inr split: option.split)

lemma transformThenApply_cases:
  assumes "transformThenApply m who team c fl st = (r, st')"
  obtains e where "transformChange m team c (snd st) = Inl e" "st' = st" "r = (result_for c)\<lparr>rs_Failed := ''the change was not submitted: '' @ e\<rparr>"
  | c' where "transformed m team c c'" "applyOne m who team c' fl st = (r, st')" "transformChange m team c (snd st) = Inr c'"
  using assms by (auto simp: transformThenApply_def transformed_def split: sum.splits)

lemma transformThenApply_adds:
  assumes "transformThenApply m who team c fl st = (r, st')"
    and "\<And>c' w token w'. transformed m team c c' \<Longrightarrow>
      wi_door m (intentFor m w who team c' (fl_Revision fl)) w = (Inr token, w') \<Longrightarrow> P token c'"
  shows "adds P st st'"
  using assms(1)
proof (cases rule: transformThenApply_cases)
  case (2 c')
  show ?thesis by (rule applyOne_adds [OF 2(2)]) (rule assms(2) [OF 2(1)])
qed simp

lemma apply_changes_adds:
  assumes "apply_changes m who team fl cs (o1, st) = (o2, st')"
    and "\<And>c c' w token w'. c \<in> set cs \<Longrightarrow> transformed m team c c' \<Longrightarrow>
      wi_door m (intentFor m w who team c' (fl_Revision fl)) w = (Inr token, w') \<Longrightarrow> P token c'"
  shows "adds P st st'"
  using assms
proof (induction cs arbitrary: o1 st)
  case (Cons c cs)
  obtain r st1 where t: "transformThenApply m who team c fl st = (r, st1)" by (rule prod.exhaust)
  have "adds P st st1" using transformThenApply_adds [OF t] Cons.prems(2) by (metis list.set_intros(1))
  moreover have "adds P st1 st'"
  proof (rule Cons.IH [of "sort_result o1 r" st1])
    show "apply_changes m who team fl cs (sort_result o1 r, st1) = (o2, st')" using Cons.prems(1) t by simp
  qed (rule Cons.prems(2) [OF list.set_intros(2)])
  ultimately show ?case by (rule adds_trans)
qed simp

lemma recordDiscovery_adds: "adds P st (recordDiscovery m d st)"
  by (cases st) (auto simp: recordDiscovery_def Let_def split: option.splits intro: adds_call)

lemma reconcile_drifts_adds:
  assumes "reconcile_drifts m who team fl ds (o1, esc, st) = (o2, esc', st')"
    and "\<And>d c c' w token w'. d \<in> set ds \<Longrightarrow> Correctable d \<Longrightarrow> dr_Desired d = Some c \<Longrightarrow> transformed m team c c' \<Longrightarrow>
      wi_door m (intentFor m w who team c' (fl_Revision fl)) w = (Inr token, w') \<Longrightarrow> P token c'"
  shows "adds P st st'"
  using assms
proof (induction ds arbitrary: o1 esc st)
  case (Cons d ds)
  let ?st = "recordDiscovery m d st"
  show ?case
  proof (cases "\<exists>c. Correctable d \<and> dr_Desired d = Some c")
    case True
    then obtain c where c: "Correctable d" "dr_Desired d = Some c" by blast
    obtain r st1 where t: "transformThenApply m who team c fl ?st = (r, st1)" by (rule prod.exhaust)
    have "adds P ?st st1" using transformThenApply_adds [OF t] Cons.prems(2) c by (metis list.set_intros(1))
    moreover have "adds P st1 st'"
    proof (rule Cons.IH [of "sort_result o1 r" esc st1])
      show "reconcile_drifts m who team fl ds (sort_result o1 r, esc, st1) = (o2, esc', st')" using Cons.prems(1) t c by simp
    qed (rule Cons.prems(2) [OF list.set_intros(2)])
    ultimately show ?thesis using adds_trans recordDiscovery_adds by blast
  next
    case False
    then have n: "\<not> Correctable d" by (auto simp: Correctable_def split: option.splits)
    have "adds P ?st st'"
    proof (rule Cons.IH [of o1 "esc @ [d]" ?st])
      show "reconcile_drifts m who team fl ds (o1, esc @ [d], ?st) = (o2, esc', st')" using Cons.prems(1) n by simp
    qed (rule Cons.prems(2) [OF list.set_intros(2)])
    then show ?thesis using adds_trans recordDiscovery_adds by blast
  qed
qed simp

section \<open>The operations\<close>

lemma man_Apply_adds:
  assumes "man_Apply m actor manifest st = (r, st')"
    and "\<And>desired c c' w token w'. ResolveWith manifest (wi_floorOf m (snd st)) (wi_placerOf m (snd st))
        (placedFor m (snd st) (man_Team manifest)) = Inr desired \<Longrightarrow> c \<in> set (des_Changes desired) \<Longrightarrow>
      transformed m (man_Team manifest) c c' \<Longrightarrow>
      wi_door m (intentFor m w \<lparr>act_subject = actor, act_requester = []\<rparr> (man_Team manifest) c'
        (fl_Revision (wi_floorOf m (snd st)))) w = (Inr token, w') \<Longrightarrow> P token c'"
  shows "adds P st st'"
proof -
  obtain tr w where st: "st = (tr, w)" by fastforce
  let ?who = "\<lparr>act_subject = actor, act_requester = []\<rparr>" and ?fl = "wi_floorOf m w"
  show ?thesis
  proof (cases "ResolveWith manifest ?fl (wi_placerOf m w) (placedFor m w (man_Team manifest))")
    case (Inl e)
    then show ?thesis using assms(1) st by (simp add: man_Apply_def)
  next
    case (Inr desired)
    obtain err st1 where m1: "(case wi_remember m of None \<Rightarrow> (None, (tr, w))
        | Some remember \<Rightarrow> (let (e, w1) = remember manifest w in (e, tr @ [Remembered manifest e], w1))) = (err, st1)" by (rule prod.exhaust)
    have a1: "adds P st st1"
      using m1 st by (auto simp: Let_def split: option.splits prod.splits intro: adds_call)
    show ?thesis
    proof (cases err)
      case (Some e)
      then show ?thesis using assms(1) st Inr m1 a1 by (simp add: man_Apply_def Let_def)
    next
      case None
      obtain o1 st2 where ac: "apply_changes m ?who (man_Team manifest) ?fl (des_Changes desired) (no_outcome, st1) = (o1, st2)"
        by (rule prod.exhaust)
      have "adds P st1 st2" by (rule apply_changes_adds [OF ac]) (use assms(2) Inr st in auto)
      moreover have "st' = st2" using assms(1) st Inr m1 ac None by (simp add: man_Apply_def Let_def)
      ultimately show ?thesis using a1 adds_trans by blast
    qed
  qed
qed

lemma man_Reconcile_adds:
  assumes "man_Reconcile m actor manifest st = (r, st')"
    and "\<And>desired obs d c c' w token w'. ResolveWith manifest (wi_floorOf m (snd st)) (wi_placerOf m (snd st))
        (placedFor m (snd st) (man_Team manifest)) = Inr desired \<Longrightarrow>
      observeAll (snd st) (wi_ports m) (man_Team manifest) = Inr obs \<Longrightarrow>
      d \<in> set (DiffOwned (des_Changes desired) obs (wi_ownership m)) \<Longrightarrow> Correctable d \<Longrightarrow> dr_Desired d = Some c \<Longrightarrow>
      transformed m (man_Team manifest) c c' \<Longrightarrow>
      wi_door m (intentFor m w \<lparr>act_subject = actor, act_requester = []\<rparr> (man_Team manifest) c'
        (fl_Revision (wi_floorOf m (snd st)))) w = (Inr token, w') \<Longrightarrow> P token c'"
  shows "adds P st st'"
proof -
  obtain tr w where st: "st = (tr, w)" by fastforce
  let ?who = "\<lparr>act_subject = actor, act_requester = []\<rparr>" and ?fl = "wi_floorOf m w"
  show ?thesis
  proof (cases "ResolveWith manifest ?fl (wi_placerOf m w) (placedFor m w (man_Team manifest))")
    case (Inl e)
    then show ?thesis using assms(1) st by (simp add: man_Reconcile_def)
  next
    case (Inr desired)
    note res = Inr
    show ?thesis
    proof (cases "observeAll w (wi_ports m) (man_Team manifest)")
      case (Inl e)
      then show ?thesis using assms(1) st res by (simp add: man_Reconcile_def)
    next
      case (Inr obs)
      let ?ds = "DiffOwned (des_Changes desired) obs (wi_ownership m)"
      obtain o1 esc st2 where rd: "reconcile_drifts m ?who (man_Team manifest) ?fl ?ds (no_outcome, [], st) = (o1, esc, st2)"
        using prod_cases3 by blast
      have "adds P st st2" by (rule reconcile_drifts_adds [OF rd]) (use assms(2) res Inr st in auto)
      moreover have "st' = st2" using assms(1) st res Inr rd by (simp add: man_Reconcile_def)
      ultimately show ?thesis by simp
    qed
  qed
qed

lemma man_Footprint_adds: "man_Footprint m reader actor team st = (r, st') \<Longrightarrow> adds P st st'"
  by (cases st) (auto simp: man_Footprint_def Let_def split: option.splits prod.splits sum.splits intro: adds_call)

text \<open>What an approval went through before its change is handed to the door.\<close>

lemma ApproveCiting_cases:
  assumes "ApproveCiting m approver ident reference (tr, w) = (r, st')"
  obtains (refused) e where "r = Inl e" "st' = (tr, w)"
  | (unsigned) e store a w1 where "wi_approvals m = Some store" "aps_Get store (wi_now m w) w ident = Inr a"
      "collectSignature store (wi_now m w) w a \<lparr>sg_By = sub_ID approver, sg_At = wi_now m w, sg_Reference = reference\<rparr> = (Inl e, w1)"
      "r = Inl e" "st' = (tr @ [Signed ident \<lparr>sg_By = sub_ID approver, sg_At = wi_now m w, sg_Reference = reference\<rparr> (Inl e)], w1)"
  | (signed) store a signed w1 where "wi_approvals m = Some store" "aps_Get store (wi_now m w) w ident = Inr a"
      "apr_Pending a (wi_now m w)" "\<not> sub_IsAI approver" "apr_Requester a \<noteq> sub_ID approver"
      "\<not> HasSignatureFrom a (sub_ID approver)" "fl_Revision (wi_floorOf m w) = apr_FloorRevision a"
      "collectSignature store (wi_now m w) w a \<lparr>sg_By = sub_ID approver, sg_At = wi_now m w, sg_Reference = reference\<rparr> = (Inr signed, w1)"
      "0 < SignaturesOutstanding signed"
      "st' = (tr @ [Signed ident \<lparr>sg_By = sub_ID approver, sg_At = wi_now m w, sg_Reference = reference\<rparr> (Inr signed)], w1)"
  | (complete) store a signed w1 x where "wi_approvals m = Some store" "aps_Get store (wi_now m w) w ident = Inr a"
      "apr_Pending a (wi_now m w)" "\<not> sub_IsAI approver" "apr_Requester a \<noteq> sub_ID approver"
      "\<not> HasSignatureFrom a (sub_ID approver)" "fl_Revision (wi_floorOf m w) = apr_FloorRevision a"
      "collectSignature store (wi_now m w) w a \<lparr>sg_By = sub_ID approver, sg_At = wi_now m w, sg_Reference = reference\<rparr> = (Inr signed, w1)"
      "\<not> 0 < SignaturesOutstanding signed" "r = Inr x"
      "applyOne m \<lparr>act_subject = approver, act_requester = apr_Requester signed\<rparr> (apr_Team signed) (apr_Change signed)
         (wi_floorOf m w) (tr @ [Signed ident \<lparr>sg_By = sub_ID approver, sg_At = wi_now m w, sg_Reference = reference\<rparr> (Inr signed)], w1)
       = (x, st')"
proof (cases "wi_approvals m")
  case None
  with assms have "r = Inl NoApprovalStore" "st' = (tr, w)" by (simp_all add: ApproveCiting_def)
  then show ?thesis using refused by blast
next
  case (Some store)
  note store = Some
  show ?thesis
  proof (cases "aps_Get store (wi_now m w) w ident")
    case (Inl e)
    with assms store have "r = Inl e" "st' = (tr, w)" by (simp_all add: ApproveCiting_def)
    then show ?thesis using refused by blast
  next
    case (Inr a)
    note a = Inr
    let ?sg = "\<lparr>sg_By = sub_ID approver, sg_At = wi_now m w, sg_Reference = reference\<rparr>"
    obtain x w1 where c: "collectSignature store (wi_now m w) w a ?sg = (x, w1)" by (rule prod.exhaust)
    show ?thesis
    proof (cases "apr_Pending a (wi_now m w) \<and> \<not> sub_IsAI approver \<and> apr_Requester a \<noteq> sub_ID approver \<and>
        \<not> HasSignatureFrom a (sub_ID approver) \<and> fl_Revision (wi_floorOf m w) = apr_FloorRevision a")
      case False
      then have "\<exists>e. r = Inl e \<and> st' = (tr, w)"
        using assms store a unfolding ApproveCiting_def by (auto simp: Let_def split: if_splits)
      then show ?thesis using refused by blast
    next
      case True
      note ok = True
      show ?thesis
      proof (cases x)
        case (Inl e)
        with assms store a c ok show ?thesis using unsigned [of store a e w1] by (simp add: ApproveCiting_def Let_def)
      next
        case (Inr sgd)
        note sgd = Inr
        let ?st1 = "(tr @ [Signed ident ?sg (Inr sgd)], w1)"
        obtain y st2 where ap: "applyOne m \<lparr>act_subject = approver, act_requester = apr_Requester sgd\<rparr> (apr_Team sgd)
            (apr_Change sgd) (wi_floorOf m w) ?st1 = (y, st2)" by (rule prod.exhaust)
        show ?thesis
        proof (cases "0 < SignaturesOutstanding sgd")
          case True
          with assms store a c ok sgd have "st' = ?st1" by (simp add: ApproveCiting_def Let_def)
          with True store a c ok sgd show ?thesis using signed [of store a sgd w1] by simp
        next
          case False
          with assms store a c ok sgd ap have "r = Inr y" "st' = st2" by (simp_all add: ApproveCiting_def Let_def)
          with False store a c ok sgd ap show ?thesis using complete [of store a sgd w1 y] by simp
        qed
      qed
    qed
  qed
qed

lemma ApproveCiting_adds:
  assumes "ApproveCiting m approver ident reference st = (r, st')"
    and "\<And>store a signed w1 w2 token w3. wi_approvals m = Some store \<Longrightarrow> aps_Get store (wi_now m (snd st)) (snd st) ident = Inr a \<Longrightarrow>
      apr_Pending a (wi_now m (snd st)) \<Longrightarrow> \<not> sub_IsAI approver \<Longrightarrow> apr_Requester a \<noteq> sub_ID approver \<Longrightarrow>
      \<not> HasSignatureFrom a (sub_ID approver) \<Longrightarrow> fl_Revision (wi_floorOf m (snd st)) = apr_FloorRevision a \<Longrightarrow>
      collectSignature store (wi_now m (snd st)) (snd st) a
        \<lparr>sg_By = sub_ID approver, sg_At = wi_now m (snd st), sg_Reference = reference\<rparr> = (Inr signed, w1) \<Longrightarrow>
      \<not> 0 < SignaturesOutstanding signed \<Longrightarrow>
      wi_door m (intentFor m w2 \<lparr>act_subject = approver, act_requester = apr_Requester signed\<rparr> (apr_Team signed)
        (apr_Change signed) (fl_Revision (wi_floorOf m (snd st)))) w2 = (Inr token, w3) \<Longrightarrow> P token (apr_Change signed)"
  shows "adds P st st'"
proof -
  obtain tr w where st: "st = (tr, w)" by fastforce
  have h: "ApproveCiting m approver ident reference (tr, w) = (r, st')" using assms(1) st by simp
  show ?thesis
  proof (cases rule: ApproveCiting_cases [OF h])
    case (4 store a signed w1 x)
    have "adds P (tr @ [Signed ident \<lparr>sg_By = sub_ID approver, sg_At = wi_now m w, sg_Reference = reference\<rparr> (Inr signed)], w1) st'"
      by (rule applyOne_adds [OF 4(11)]) (use assms(2) 4(1-9) st in auto)
    moreover have "adds P (tr, w) (tr @ [Signed ident \<lparr>sg_By = sub_ID approver, sg_At = wi_now m w, sg_Reference = reference\<rparr> (Inr signed)], w1)"
      by (rule adds_call) simp
    ultimately show ?thesis using adds_trans unfolding st by blast
  qed (simp_all add: st adds_call)
qed

section \<open>Any sequence of operations\<close>

text \<open>A step of a deployment: an operation of the manager, by anybody, or anything at all that happens to the world
  outside it.\<close>

inductive man_op :: "'w wiring \<Rightarrow> 'w state \<Rightarrow> 'w state \<Rightarrow> bool" for m where
  apply_op: "man_Apply m actor manifest st = (r, st') \<Longrightarrow> man_op m st st'"
| reconcile_op: "man_Reconcile m actor manifest st = (r, st') \<Longrightarrow> man_op m st st'"
| approve_op: "ApproveCiting m approver ident reference st = (r, st') \<Longrightarrow> man_op m st st'"
| decline_op: "man_Decline m approver ident reason w = (e, w') \<Longrightarrow> man_op m (tr, w) (tr, w')"
| read_op: "man_Footprint m reader actor team st = (r, st') \<Longrightarrow> man_op m st st'"
| outside: "man_op m (tr, w) (tr, w')"

inductive_cases man_opE: "man_op m st st'"

lemma man_op_adds:
  assumes "man_op m st st'"
  shows "adds (\<lambda>t c. True) st st'"
  using assms
proof (cases rule: man_op.cases)
  case (apply_op actor manifest r)
  then show ?thesis by (rule man_Apply_adds) simp
next
  case (reconcile_op actor manifest r)
  then show ?thesis by (rule man_Reconcile_adds) simp
next
  case (approve_op approver ident reference r)
  then show ?thesis by (rule ApproveCiting_adds) simp
next
  case (read_op reader actor team r)
  then show ?thesis by (rule man_Footprint_adds)
qed (simp_all add: adds_world)

lemma man_ops_adds: "(man_op m)\<^sup>*\<^sup>* st st' \<Longrightarrow> adds (\<lambda>t c. True) st st'"
  by (induction rule: rtranclp_induct) (auto intro: adds_trans man_op_adds)

section \<open>Approvals behind the manager\<close>

text \<open>The in-memory approvals as the first part of a world, and an adapter as the second.\<close>

definition first_store :: "'s Approvals \<Rightarrow> ('s \<times> 'x) Approvals" where
  "first_store store =
     \<lparr>aps_Open = (\<lambda>(s, x) a. let (e, s') = aps_Open store s a in (e, s', x)),
      aps_Get = (\<lambda>now (s, x) i. aps_Get store now s i),
      aps_Decide = (\<lambda>now (s, x) a. let (e, s') = aps_Decide store now s a in (e, s', x)),
      aps_Pending = (\<lambda>now (s, x) team. aps_Pending store now s team),
      aps_Sign = map_option (\<lambda>sign now (s, x) i sg. let (r, s') = sign now s i sg in (r, s', x)) (aps_Sign store)\<rparr>"

definition second_port :: "'p Port \<Rightarrow> ('s \<times> 'p) Port" where
  "second_port port =
     \<lparr>po_Asset = po_Asset port, po_Observe = (\<lambda>(s, p) team. po_Observe port p team),
      po_Apply = (\<lambda>token c (s, p). let (e, p') = po_Apply port token c p in (e, s, p'))\<rparr>"

text \<open>Records are filed under their own id, and every operation of the store keeps it so.\<close>

definition filed :: "approval_map \<Rightarrow> bool" where
  "filed s \<longleftrightarrow> (\<forall>i a. map_of s i = Some a \<longrightarrow> apr_ID a = i)"

lemma filed_gset: "filed s \<Longrightarrow> apr_ID a = i \<Longrightarrow> filed (gset s i a)"
  by (auto simp: filed_def)

lemma filed_ops:
  assumes "filed s"
  shows "filed (snd (mem_Open s a))" and "filed (snd (mem_Decide t s a))" and "filed (snd (mem_Sign t s i sg))"
proof -
  show "filed (snd (mem_Open s a))" using assms filed_gset [OF assms, of a] by (simp add: mem_Open_def split: option.split)
  show "filed (snd (mem_Decide t s a))" using assms filed_gset [OF assms, of a] by (simp add: mem_Decide_def split: option.split)
  show "filed (snd (mem_Sign t s i sg))"
  proof (cases "map_of s i")
    case None
    then show ?thesis using assms by (simp add: mem_Sign_def)
  next
    case (Some a)
    then have "apr_ID (add_signature a sg) = i" using assms by (simp add: filed_def)
    then have "filed (gset s i (add_signature a sg))" by (rule filed_gset [OF assms])
    then show ?thesis using assms Some by (simp add: mem_Sign_def)
  qed
qed

lemma first_store_ops:
  "aps_Get (first_store MemoryApprovals) t (s, x) i = mem_Get t s i"
  "collectSignature (first_store MemoryApprovals) t (s, x) a sg = (let (r, s') = mem_Sign t s (apr_ID a) sg in (r, s', x))"
  by (simp_all add: first_store_def MemoryApprovals_def collectSignature_def)

lemma collected_from_memory:
  assumes "filed s" and "mem_Get t s i = Inr a" and "apr_Pending a t"
    and "collectSignature (first_store MemoryApprovals) t (s, x) a sg = (Inr a', w1)"
  shows "map_of s i = Some a" and "a' = add_signature a sg"
proof -
  show m: "map_of s i = Some a" using assms(2,3) by (auto simp: mem_Get_def apr_Pending_def split: option.splits if_splits)
  then have "apr_ID a = i" using assms(1) by (simp add: filed_def)
  then show "a' = add_signature a sg"
    using assms(4) m by (auto simp: first_store_ops mem_Sign_def split: if_splits)
qed

text \<open>A door that does not let a change behind one of the gates \<open>G\<close> pass on its requester's word alone.\<close>

definition withholds :: "Gate set \<Rightarrow> (Intent \<Rightarrow> 'w \<Rightarrow> (door_error + ExecutionToken) \<times> 'w) \<Rightarrow> bool" where
  "withholds G door \<longleftrightarrow>
     (\<forall>intent w token w'. door intent w = (Inr token, w') \<and> int_Action intent = ''estate.apply'' \<and>
        param_string (int_Params intent) ''gate'' \<in> G \<longrightarrow>
        param_string (int_Params intent) ''requester'' \<noteq> [] \<and>
        param_string (int_Params intent) ''requester'' \<noteq> sub_ID (int_Subject intent))"

lemma intentFor_params:
  "int_Action (intentFor m w who team c revision) = ''estate.apply''"
  "int_Subject (intentFor m w who team c revision) = act_subject who"
  "param_string (int_Params (intentFor m w who team c revision)) ''gate'' = di_Gate c"
  "param_string (int_Params (intentFor m w who team c revision)) ''requester'' = requesterFor (act_requester who) c"
  by (simp_all add: intentFor_def param_string_def)

lemma withheld:
  assumes "withholds G (wi_door m)" and "act_requester who = []"
    and "wi_door m (intentFor m w who team c revision) w = (Inr token, w')"
  shows "di_Gate c \<notin> G"
proof
  assume "di_Gate c \<in> G"
  then have "param_string (int_Params (intentFor m w who team c revision)) ''requester'' \<noteq> []"
    using assms(1,3) unfolding withholds_def by (metis intentFor_params(1,3))
  then show False using assms(2) by (simp add: intentFor_params requesterFor_def)
qed

lemmas withheld_unasked = withheld [where who = "\<lparr>act_subject = actor, act_requester = []\<rparr>" for actor, simplified]

section \<open>Accounting\<close>

definition results :: "ApplyOutcome \<Rightarrow> Result list" where
  "results o1 = ao_Applied o1 @ ao_Refused o1 @ ao_Failed o1"

definition result_key :: "Result \<Rightarrow> string" where
  "result_key r = desired_key (rs_Change r)"

lemma results_sort: "mset (map result_key (results (sort_result o1 r))) = add_mset (result_key r) (mset (map result_key (results o1)))"
  by (simp add: results_def sort_result_def)

lemma result_for_fields [simp]: "rs_Change (result_for c) = c" "rs_Refused (result_for c) = []" "rs_Failed (result_for c) = []"
  "rs_Outstanding (result_for c) = []" "rs_Approval (result_for c) = []"
  by (simp_all add: result_for_def)

text \<open>Every answer of the door's refusal says something.\<close>

definition speaks :: "(Intent \<Rightarrow> 'w \<Rightarrow> (door_error + ExecutionToken) \<times> 'w) \<Rightarrow> bool" where
  "speaks door \<longleftrightarrow> (\<forall>intent w err w'. door intent w = (Inl err, w') \<longrightarrow> error_text err \<noteq> [])"

lemma speaksD: "speaks door \<Longrightarrow> door intent w = (Inl err, w') \<Longrightarrow> error_text err \<noteq> []"
  unfolding speaks_def by (elim allE impE)

lemma transformThenApply_result:
  assumes "transformThenApply m who team c fl (tr, w) = (r, tr', w')"
  shows "result_key r = desired_key c" and "\<exists>seg. tr' = tr @ seg"
    and "speaks (wi_door m) \<Longrightarrow> rs_Refused r = [] \<Longrightarrow> rs_Failed r = [] \<Longrightarrow> \<exists>token e. Executed token (rs_Change r) e \<in> set tr'"
proof -
  have "result_key r = desired_key c \<and> (\<exists>seg. tr' = tr @ seg) \<and> (speaks (wi_door m) \<longrightarrow> rs_Refused r = [] \<longrightarrow> rs_Failed r = [] \<longrightarrow>
      (\<exists>token e. Executed token (rs_Change r) e \<in> set tr'))"
    using assms
  proof (cases rule: transformThenApply_cases)
    case (1 e)
    then show ?thesis by (simp add: result_key_def)
  next
    case (2 c')
    have k: "desired_key c' = desired_key c" using 2(1) by (auto simp: transformed_iff split: option.splits)
    show ?thesis
      using 2(2)
    proof (cases rule: applyOne_cases)
      case no_adapter
      then show ?thesis using k by (simp add: result_key_def)
    next
      case (refused err seg w1)
      have "speaks (wi_door m) \<Longrightarrow> rs_Refused r \<noteq> []" using speaksD refused(4,9) by metis
      then show ?thesis using refused k by (simp add: result_key_def)
    next
      case (executed token e w1)
      then show ?thesis using k by (auto simp: result_key_def)
    qed
  qed
  then show "result_key r = desired_key c" and "\<exists>seg. tr' = tr @ seg"
    and "speaks (wi_door m) \<Longrightarrow> rs_Refused r = [] \<Longrightarrow> rs_Failed r = [] \<Longrightarrow> \<exists>token e. Executed token (rs_Change r) e \<in> set tr'"
    by blast+
qed

definition executed_all :: "Result list \<Rightarrow> call list \<Rightarrow> bool" where
  "executed_all rs tr \<longleftrightarrow> (\<forall>r\<in>set rs. \<exists>token e. Executed token (rs_Change r) e \<in> set tr)"

lemma apply_changes_accounts:
  assumes "apply_changes m who team fl cs (o1, tr, w) = (o2, tr', w')"
  shows "mset (map result_key (results o2)) = mset (map result_key (results o1)) + mset (map desired_key cs) \<and>
    (speaks (wi_door m) \<longrightarrow> executed_all (ao_Applied o1) tr \<longrightarrow> executed_all (ao_Applied o2) tr')"
  using assms
proof (induction cs arbitrary: o1 tr w)
  case (Cons c cs)
  obtain r tr1 w1 where t: "transformThenApply m who team c fl (tr, w) = (r, tr1, w1)" using prod_cases3 by blast
  note tr = transformThenApply_result [OF t]
  have rest: "apply_changes m who team fl cs (sort_result o1 r, tr1, w1) = (o2, tr', w')" using Cons.prems t by simp
  have "executed_all (ao_Applied (sort_result o1 r)) tr1" if h: "speaks (wi_door m)" "executed_all (ao_Applied o1) tr"
  proof -
    have "executed_all (ao_Applied o1) tr1" using h(2) tr(2) by (fastforce simp: executed_all_def)
    then show ?thesis using tr(3) [OF h(1)] by (auto simp: sort_result_def executed_all_def)
  qed
  with Cons.IH [OF rest] results_sort [of o1 r] show ?case by (simp add: tr(1))
qed simp

section \<open>Properties\<close>

text \<open>A deployment to apply them to: approvals and one Kafka adapter in memory, and a door that asks a second person for
  every gated change.\<close>

definition sample_submit :: "Intent \<Rightarrow> 'w \<Rightarrow> (door_error + ExecutionToken) \<times> 'w" where
  "sample_submit intent w =
     (let requester = param_string (int_Params intent) ''requester''
      in (if param_string (int_Params intent) ''gate'' \<noteq> GateNone \<and> (requester = [] \<or> requester = sub_ID (int_Subject intent))
          then Inl (RefusedError \<lparr>ref_Action = ActionRequireApproval, ref_Reason = ''a second person'',
                      ref_RequiredApprovers = [''L0''], ref_PolicyID = ''p''\<rparr>)
          else Inr sample_token, w))"

definition sample_wiring :: "(approval_map \<times> MemPort) wiring" where
  "sample_wiring =
     AwaitApprovalIn (first_store MemoryApprovals)
       (NewManager sample_submit DefaultFloor [second_port (memory_Port (\<lambda>t. []) ''kafka'' ''payments'')] (\<lambda>w. 50) (\<lambda>w. ''r''))"

definition kafka_manifest :: Manifest where
  "kafka_manifest = sample_manifest\<lparr>man_Tier := TierDev, man_Apps := []\<rparr>"

definition empty_world :: "approval_map \<times> MemPort" where
  "empty_world = ([], \<lparr>mp_byKey = [], mp_now = 50\<rparr>)"

definition person :: "string \<Rightarrow> Subject" where
  "person who = \<lparr>sub_ID = who, sub_Roles = [], sub_ADGroups = [], sub_IsAI = False, sub_Attrs = []\<rparr>"

definition applied_state :: "(approval_map \<times> MemPort) state" where
  "applied_state = snd (man_Apply sample_wiring (person ''ann'') kafka_manifest ([], empty_world))"

definition approved_state :: "(approval_map \<times> MemPort) state" where
  "approved_state = snd (ApproveCiting sample_wiring (person ''bob'') ''APR-payments-payments.orders-50-r'' ''JIRA-1'' applied_state)"

definition executed_changes :: "call list \<Rightarrow> DesiredItem list" where
  "executed_changes tr = concat (map (\<lambda>x. case x of Executed token c e \<Rightarrow> [c] | _ \<Rightarrow> []) tr)"

lemma executed_changes_iff: "c \<in> set (executed_changes tr) \<longleftrightarrow> (\<exists>token e. Executed token c e \<in> set tr)"
  unfolding executed_changes_def by (force split: call.splits)

lemma sample_history:
  "map di_Name (executed_changes (fst applied_state)) = [''payments.'']"
  "map fst (fst (snd applied_state)) = [''APR-payments-payments.orders-50-r'']"
  "map di_Name (executed_changes (drop (length (fst applied_state)) (fst approved_state))) = [''payments.orders'']"
  "map di_Gate (executed_changes (drop (length (fst applied_state)) (fst approved_state))) = [GatePlatform]"
  "list_all (\<lambda>(i, a). apr_ID a = i) (fst (snd applied_state))"
  by code_simp+

lemma sample_ops: "man_op sample_wiring ([], empty_world) applied_state" "man_op sample_wiring applied_state approved_state"
  unfolding applied_state_def approved_state_def
  by (rule man_op.apply_op [OF surjective_pairing], rule man_op.approve_op [OF surjective_pairing])

lemma sample_approved_adds: "\<exists>seg. fst approved_state = fst applied_state @ seg \<and> executed_changes seg \<noteq> [] \<and>
    map di_Gate (executed_changes seg) = [GatePlatform]"
proof -
  obtain seg where "fst approved_state = fst applied_state @ seg"
    using man_op_adds [OF sample_ops(2)] unfolding adds_def by blast
  moreover from this have "drop (length (fst applied_state)) (fst approved_state) = seg" by simp
  ultimately show ?thesis using sample_history(4) by (intro exI [of _ seg]) auto
qed

text \<open>C2: nothing reaches an asset without the door's answer to that very change. Whatever door, adapters, stores and
  transform a manager is wired to, and whatever sequence of applications, reconciliations, approvals, reads and outside
  events a deployment goes through, the call immediately before every execution is the door's allow, with that token, of
  an intent that names the executed change's asset, kind, name, tier, gate and cluster.\<close>

theorem every_execution_was_asked:
  assumes "(man_op m)\<^sup>*\<^sup>* ([], w0) (tr, w)" and "tr = pre @ Executed token c e # post"
  shows "\<exists>before intent. pre = before @ [Asked intent (Inr token)] \<and> names_change intent c"
proof -
  have "governed tr" using man_ops_adds [OF assms(1)] by (auto simp: adds_def)
  then show ?thesis using assms(2) unfolding governed_def by blast
qed

theorem every_execution_was_asked_witness:
  "\<exists>tr w before intent token c e post. (man_op sample_wiring)\<^sup>*\<^sup>* ([], empty_world) (tr, w) \<and>
     tr = before @ Asked intent (Inr token) # Executed token c e # post \<and> names_change intent c"
proof -
  obtain tr w where st: "applied_state = (tr, w)" by (rule prod.exhaust)
  have r: "(man_op sample_wiring)\<^sup>*\<^sup>* ([], empty_world) (tr, w)" using sample_ops(1) unfolding st by (rule r_into_rtranclp)
  have "executed_changes tr \<noteq> []" using sample_history(1) unfolding st fst_conv by auto
  then obtain c where "c \<in> set (executed_changes tr)" by (meson last_in_set)
  then obtain token e where "Executed token c e \<in> set tr" unfolding executed_changes_iff by blast
  then obtain pre post where tr: "tr = pre @ Executed token c e # post" by (meson split_list)
  obtain before intent where "pre = before @ [Asked intent (Inr token)]" "names_change intent c"
    using every_execution_was_asked [OF r tr] by blast
  then have "tr = before @ Asked intent (Inr token) # Executed token c e # post" "names_change intent c" using tr by simp_all
  then show ?thesis using r by blast
qed

text \<open>C3: a gated change takes the people its gate asks for. Behind a door that does not take a requester's own word for
  a gate, and with the approvals in memory, a call of the manager that executes a change behind that gate is neither an
  application of a manifest nor a reconciliation nor a footprint, whoever makes it. It is an approval, and the approver
  of that very call is a human, is not the requester and has not signed before; the request the call names was pending,
  for exactly that change, under the floor in force, and with this approver's signature the required number is complete.\<close>

theorem gated_change_takes_approval:
  assumes "withholds G (wi_door m)" and "filed s" and "wi_approvals m = Some (first_store MemoryApprovals)"
    and "Executed token c e \<in> set seg" and "di_Gate c \<in> G"
  shows "(ApproveCiting m approver ident reference (tr, s, x) = (r, tr @ seg, w') \<longrightarrow>
      (\<exists>a. map_of s ident = Some a \<and> apr_Change a = c \<and> apr_Pending a (wi_now m (s, x)) \<and>
        apr_FloorRevision a = fl_Revision (wi_floorOf m (s, x)) \<and> \<not> sub_IsAI approver \<and>
        sub_ID approver \<noteq> apr_Requester a \<and> sub_ID approver \<notin> set (Signatories a) \<and>
        SignaturesRequired a \<le> int (length (apr_Signatures a)) + 1)) \<and>
    (\<forall>actor manifest r w'. man_Apply m actor manifest (tr, s, x) \<noteq> (r, tr @ seg, w')) \<and>
    (\<forall>actor manifest r w'. man_Reconcile m actor manifest (tr, s, x) \<noteq> (r, tr @ seg, w')) \<and>
    (\<forall>reader actor team r w'. man_Footprint m reader actor team (tr, s, x) \<noteq> (r, tr @ seg, w'))"
    (is "(_ \<longrightarrow> ?approved c) \<and> _")
proof (intro conjI allI impI)
  let ?ungated = "\<lambda>token c. di_Gate c \<notin> G"
  have no: "\<not> adds ?ungated (tr, s, x) (tr @ seg, w')" for w'
    using assms(5) by (auto dest: addsD [OF _ assms(4)])
  show "man_Apply m actor manifest (tr, s, x) \<noteq> (r, tr @ seg, w')" for actor manifest r w'
  proof
    assume "man_Apply m actor manifest (tr, s, x) = (r, tr @ seg, w')"
    then have "adds ?ungated (tr, s, x) (tr @ seg, w')"
      by (rule man_Apply_adds) (drule withheld_unasked [OF assms(1)], simp)
    then show False using no [of w'] by simp
  qed
  show "man_Reconcile m actor manifest (tr, s, x) \<noteq> (r, tr @ seg, w')" for actor manifest r w'
  proof
    assume "man_Reconcile m actor manifest (tr, s, x) = (r, tr @ seg, w')"
    then have "adds ?ungated (tr, s, x) (tr @ seg, w')"
      by (rule man_Reconcile_adds) (drule withheld_unasked [OF assms(1)], simp)
    then show False using no [of w'] by simp
  qed
  show "man_Footprint m reader actor team (tr, s, x) \<noteq> (r, tr @ seg, w')" for reader actor team r w'
    using no [of w'] by (auto dest: man_Footprint_adds)
next
  assume "ApproveCiting m approver ident reference (tr, s, x) = (r, tr @ seg, w')"
  then have "adds (\<lambda>token c. ?approved c) (tr, s, x) (tr @ seg, w')"
  proof (rule ApproveCiting_adds, unfold snd_conv)
    fix store a signed w1 w2 token w3
    let ?sg = "\<lparr>sg_By = sub_ID approver, sg_At = wi_now m (s, x), sg_Reference = reference\<rparr>"
    assume st: "wi_approvals m = Some store" and g: "aps_Get store (wi_now m (s, x)) (s, x) ident = Inr a"
      and p: "apr_Pending a (wi_now m (s, x))" "\<not> sub_IsAI approver" "apr_Requester a \<noteq> sub_ID approver"
        "\<not> HasSignatureFrom a (sub_ID approver)" "fl_Revision (wi_floorOf m (s, x)) = apr_FloorRevision a"
      and c: "collectSignature store (wi_now m (s, x)) (s, x) a ?sg = (Inr signed, w1)"
      and o: "\<not> 0 < SignaturesOutstanding signed"
    have store: "store = first_store MemoryApprovals" using st assms(3) by simp
    note m = collected_from_memory [OF assms(2) g [unfolded store first_store_ops] p(1) c [unfolded store]]
    have "SignaturesRequired a \<le> int (length (apr_Signatures a)) + 1"
      using o m(2) by (auto simp: SignaturesOutstanding_def CollectedSignatures_def Let_def split: if_splits)
    then show "?approved (apr_Change signed)"
      using m p by (intro exI [of _ a]) (auto simp: HasSignatureFrom_iff)
  qed
  from addsD [OF this assms(4)] show "?approved c" .
qed

lemma sample_withholds: "withholds {GatePlatform, GateOwningTeam} (wi_door sample_wiring)"
  by (auto simp: withholds_def sample_wiring_def AwaitApprovalIn_def NewManager_def sample_submit_def Let_def gate_names split: if_splits)

theorem gated_change_takes_approval_witness:
  "\<exists>a. map_of (fst (snd applied_state)) ''APR-payments-payments.orders-50-r'' = Some a \<and> di_Gate (apr_Change a) = GatePlatform \<and>
     apr_Requester a \<noteq> ''bob'' \<and> ''bob'' \<notin> set (Signatories a)"
proof -
  obtain tr s x where st: "applied_state = (tr, s, x)" using prod_cases3 by blast
  obtain seg where seg: "fst approved_state = tr @ seg" "map di_Gate (executed_changes seg) = [GatePlatform]"
    using sample_approved_adds [unfolded st fst_conv] by (elim exE conjE) (rule that)
  let ?id = "''APR-payments-payments.orders-50-r''"
  have op: "ApproveCiting sample_wiring (person ''bob'') ?id ''JIRA-1'' (tr, s, x) =
      (fst (ApproveCiting sample_wiring (person ''bob'') ?id ''JIRA-1'' (tr, s, x)), tr @ seg, snd approved_state)"
    using seg(1) unfolding approved_state_def st [symmetric] by (metis prod.collapse)
  obtain c where c: "c \<in> set (executed_changes seg)" "di_Gate c = GatePlatform" using seg(2) by (cases "executed_changes seg") auto
  then obtain token e where e: "Executed token c e \<in> set seg" unfolding executed_changes_iff by blast
  have "list_all (\<lambda>(i, a). apr_ID a = i) s" using sample_history(5) unfolding st snd_conv fst_conv .
  then have k: "filed s" by (auto simp: filed_def list_all_iff dest!: map_of_SomeD)
  have a: "wi_approvals sample_wiring = Some (first_store MemoryApprovals)" by (simp add: sample_wiring_def AwaitApprovalIn_def)
  have g: "di_Gate c \<in> {GatePlatform, GateOwningTeam}" using c(2) by simp
  have who: "sub_ID (person ''bob'') = ''bob''" by code_simp
  from gated_change_takes_approval [OF sample_withholds k a e g, THEN conjunct1, rule_format, OF op, unfolded who]
  show ?thesis unfolding st snd_conv fst_conv using c(2) by fastforce
qed

text \<open>A manifest leaves no change out. Every change the manifest resolves to comes back exactly once, by identity, as
  applied, refused or failed, and when the door's refusals say something, a change reported as applied was executed.\<close>

theorem apply_accounts_for_every_change:
  assumes "man_Apply m actor manifest (tr, w) = (Inr o1, tr', w')"
  shows "\<exists>desired. ResolveWith manifest (wi_floorOf m w) (wi_placerOf m w) (placedFor m w (man_Team manifest)) = Inr desired \<and>
    mset (map result_key (ao_Applied o1 @ ao_Refused o1 @ ao_Failed o1)) = mset (map desired_key (des_Changes desired)) \<and>
    (speaks (wi_door m) \<longrightarrow> (\<forall>r\<in>set (ao_Applied o1). \<exists>token e. Executed token (rs_Change r) e \<in> set tr'))"
proof -
  obtain desired where d: "ResolveWith manifest (wi_floorOf m w) (wi_placerOf m w) (placedFor m w (man_Team manifest)) = Inr desired"
    using assms by (cases "ResolveWith manifest (wi_floorOf m w) (wi_placerOf m w) (placedFor m w (man_Team manifest))")
      (auto simp: man_Apply_def)
  obtain err tr1 w1 where m1: "(case wi_remember m of None \<Rightarrow> (None, (tr, w))
        | Some remember \<Rightarrow> (let (e, w1) = remember manifest w in (e, tr @ [Remembered manifest e], w1))) = (err, tr1, w1)"
    using prod_cases3 by blast
  have "err = None" using assms d m1 by (cases err) (simp_all add: man_Apply_def Let_def)
  moreover obtain o2 tr2 w2 where ac: "apply_changes m \<lparr>act_subject = actor, act_requester = []\<rparr> (man_Team manifest)
      (wi_floorOf m w) (des_Changes desired) (no_outcome, tr1, w1) = (o2, tr2, w2)" using prod_cases3 by blast
  ultimately have "o2 = o1" "tr2 = tr'" using assms d m1 by (simp_all add: man_Apply_def Let_def)
  then show ?thesis using apply_changes_accounts [OF ac] d
    by (simp add: no_outcome_def results_def executed_all_def)
qed

lemma sample_applies:
  "case man_Apply sample_wiring (person ''ann'') kafka_manifest ([], empty_world) of
     (Inl e, st) \<Rightarrow> False
   | (Inr o1, tr, w) \<Rightarrow> length (ao_Applied o1 @ ao_Refused o1 @ ao_Failed o1) = 2"
  by code_simp

theorem apply_accounts_for_every_change_witness:
  "\<exists>o1 tr w (desired :: Desired). man_Apply sample_wiring (person ''ann'') kafka_manifest ([], empty_world) = (Inr o1, tr, w) \<and>
     length (des_Changes desired) = 2 \<and>
     mset (map result_key (ao_Applied o1 @ ao_Refused o1 @ ao_Failed o1)) = mset (map desired_key (des_Changes desired))"
proof -
  obtain x tr w where a: "man_Apply sample_wiring (person ''ann'') kafka_manifest ([], empty_world) = (x, tr, w)"
    using prod_cases3 by blast
  obtain o1 where o: "x = Inr o1" "length (ao_Applied o1 @ ao_Refused o1 @ ao_Failed o1) = 2"
    using sample_applies unfolding a by (cases x) auto
  from apply_accounts_for_every_change [OF a [unfolded o(1) empty_world_def]] obtain desired :: Desired where
    "mset (map result_key (ao_Applied o1 @ ao_Refused o1 @ ao_Failed o1)) = mset (map desired_key (des_Changes desired))" by (elim exE conjE) (rule that)
  moreover from this have "length (des_Changes desired) = 2" using o(2) by (metis length_map size_mset)
  ultimately show ?thesis using a o(1) by blast
qed

text \<open>A transform runs before the door, and never after a person has approved. It rewrites a change only into one of
  the same identity, and the rewritten change is the one the door is asked about and the adapter is handed; when it fails
  or changes the identity, nothing is called and the change is reported as failed. An approval does not depend on it.\<close>

theorem transform_runs_before_the_door:
  assumes "transformThenApply m who team c fl (tr, w) = (r, tr', w')"
  shows "(\<exists>e. transformChange m team c w = Inl e \<and> tr' = tr \<and> w' = w \<and> rs_Failed r \<noteq> [] \<and> rs_Change r = c) \<or>
    (\<exists>c' seg. (case wi_transform m of None \<Rightarrow> c' = c | Some f \<Rightarrow> f team c w = Inr c' \<and> desired_key c' = desired_key c) \<and>
       rs_Change r = c' \<and> tr' = tr @ seg \<and>
       (seg = [] \<and> map_of (wi_ports m) (di_Asset c') = None \<or> change_calls (intentFor m w who team c' (fl_Revision fl)) c' seg))"
    (is "?fails \<or> ?runs")
  using assms
proof (cases rule: transformThenApply_cases)
  case (1 e)
  then have ?fails by simp
  then show ?thesis ..
next
  case (2 c')
  have t: "case wi_transform m of None \<Rightarrow> c' = c | Some f \<Rightarrow> f team c w = Inr c' \<and> desired_key c' = desired_key c"
    using 2(3) by (simp add: transformChange_Inr)
  show ?thesis
    using 2(2)
  proof (cases rule: applyOne_cases)
    case no_adapter
    then have ?runs using t by (intro exI [of _ c'] exI [of _ "[]"]) simp
    then show ?thesis ..
  next
    case (refused err seg w1)
    then have ?runs using t by (intro exI [of _ c'] exI [of _ seg]) simp
    then show ?thesis ..
  next
    case (executed token e w1)
    let ?seg = "[Asked (intentFor m w who team c' (fl_Revision fl)) (Inr token), Executed token c' e]"
    have "change_calls (intentFor m w who team c' (fl_Revision fl)) c' ?seg" by (rule change_calls.executed)
    then have ?runs using t executed(1,2) by (intro exI [of _ c'] exI [of _ ?seg]) simp
    then show ?thesis ..
  qed
qed

definition upgrade_image :: "string \<Rightarrow> DesiredItem \<Rightarrow> 'w \<Rightarrow> string + DesiredItem" where
  "upgrade_image team c w = (if di_Kind c = ''topic'' then Inr (c\<lparr>di_Image := ''v2''\<rparr>) else Inr (c\<lparr>di_Name := ''other''\<rparr>))"

theorem transform_runs_before_the_door_witness:
  "\<exists>r tr w. transformThenApply (sample_wiring\<lparr>wi_transform := Some upgrade_image\<rparr>) \<lparr>act_subject = person ''ann'', act_requester = []\<rparr> ''payments''
       sample_want DefaultFloor ([], empty_world) = (r, tr, w) \<and> rs_Failed r \<noteq> [] \<and> tr = []"
proof -
  let ?m = "sample_wiring\<lparr>wi_transform := Some upgrade_image\<rparr>" and ?who = "\<lparr>act_subject = person ''ann'', act_requester = []\<rparr>"
  obtain r tr w where t: "transformThenApply ?m ?who ''payments'' sample_want DefaultFloor ([], empty_world) = (r, tr, w)"
    using prod_cases3 by blast
  have "desired_key (sample_want\<lparr>di_Name := ''other''\<rparr>) \<noteq> desired_key sample_want" by code_simp
  then have n: "\<not> transformed ?m ''payments'' sample_want c'" for c'
    by (auto simp: transformed_iff upgrade_image_def sample_want_def zero_DesiredItem_def)
  have "rs_Failed r \<noteq> [] \<and> tr = []"
    using transform_runs_before_the_door [OF t [unfolded empty_world_def]] n by (auto simp: transformed_iff)
  then show ?thesis using t by blast
qed

lemma correctable_origin:
  assumes "d \<in> set (DiffOwned changes obs own)" and "Correctable d" and "dr_Desired d = Some c"
  shows "c \<in> set changes \<and> di_Gate c = GateNone \<and> dr_Kind d \<noteq> DriftUnexpected"
  using assms unfolding DiffOwned_mem by (auto simp: Correctable_def)

text \<open>A reconciliation without anybody present executes ungated corrections only. With no transform, every change a
  pass executes is one the manifest resolves to, has no gate, and is missing or differs in a governed field from what was
  observed. A gated change and a resource nobody declared are never touched.\<close>

theorem reconcile_pass_executes_ungated:
  assumes "man_Reconcile m actor manifest (tr, w) = (r, tr @ seg, w')" and "wi_transform m = None"
    and "Executed token c e \<in> set seg"
  shows "\<exists>desired obs d. ResolveWith manifest (wi_floorOf m w) (wi_placerOf m w) (placedFor m w (man_Team manifest)) = Inr desired \<and>
    observeAll w (wi_ports m) (man_Team manifest) = Inr obs \<and> d \<in> set (DiffOwned (des_Changes desired) obs (wi_ownership m)) \<and>
    dr_Desired d = Some c \<and> c \<in> set (des_Changes desired) \<and> di_Gate c = GateNone \<and> dr_Kind d \<noteq> DriftUnexpected"
    (is "?ungated c")
proof -
  have "adds (\<lambda>token c. ?ungated c) (tr, w) (tr @ seg, w')"
  proof (rule man_Reconcile_adds [OF assms(1)], unfold snd_conv)
    fix desired obs d c c'
    assume a: "ResolveWith manifest (wi_floorOf m w) (wi_placerOf m w) (placedFor m w (man_Team manifest)) = Inr desired"
      "observeAll w (wi_ports m) (man_Team manifest) = Inr obs" "d \<in> set (DiffOwned (des_Changes desired) obs (wi_ownership m))"
      "Correctable d" "dr_Desired d = Some c" and t: "transformed m (man_Team manifest) c c'"
    have "c' = c" using t assms(2) by (simp add: transformed_iff)
    moreover have "c \<in> set (des_Changes desired)" "di_Gate c = GateNone" "dr_Kind d \<noteq> DriftUnexpected"
      using correctable_origin [OF a(3-5)] by auto
    ultimately show "?ungated c'" using a by blast
  qed
  from addsD [OF this assms(3)] show ?thesis .
qed

definition reconciled_state :: "(approval_map \<times> MemPort) state" where
  "reconciled_state = snd (man_Reconcile sample_wiring (person ''ann'') kafka_manifest ([], empty_world))"

lemma sample_reconciles: "map di_Name (executed_changes (fst reconciled_state)) = [''payments.'']"
  by code_simp

theorem reconcile_pass_executes_ungated_witness:
  "\<exists>r tr w token c e. man_Reconcile sample_wiring (person ''ann'') kafka_manifest ([], empty_world) = (r, tr, w) \<and>
     Executed token c e \<in> set tr \<and> di_Name c = ''payments.'' \<and> di_Gate c = GateNone"
proof -
  obtain r tr w where a: "man_Reconcile sample_wiring (person ''ann'') kafka_manifest ([], empty_world) = (r, tr, w)"
    using prod_cases3 by blast
  then have st: "reconciled_state = (tr, w)" by (simp add: reconciled_state_def)
  obtain c where c: "c \<in> set (executed_changes tr)" "di_Name c = ''payments.''"
    using sample_reconciles unfolding st fst_conv by (cases "executed_changes tr") auto
  then obtain token e where e: "Executed token c e \<in> set tr" unfolding executed_changes_iff by blast
  have a': "man_Reconcile sample_wiring (person ''ann'') kafka_manifest ([], [], \<lparr>mp_byKey = [], mp_now = 50\<rparr>) = (r, [] @ tr, w)"
    using a by (simp add: empty_world_def)
  have t: "wi_transform sample_wiring = None" by (simp add: sample_wiring_def AwaitApprovalIn_def NewManager_def)
  have "di_Gate c = GateNone" using reconcile_pass_executes_ungated [OF a' t e] by (elim exE conjE)
  then show ?thesis using a e c(2) by blast
qed

text \<open>An application of a team that owns another name does not stay where it runs. The deployment is named after what
  the manifest owns, and the name is recovered by trimming the team: a running application of a manifest whose two names
  agree stays on its cluster, and the same application of one whose names differ is moved, although its cluster is
  legal for it, reachable and reported.\<close>

definition owning :: "string \<Rightarrow> Manifest" where
  "owning owned = sample_manifest\<lparr>man_Tier := TierDev, man_Owns := owned, man_Kafka := None\<rparr>"

definition running :: "string \<Rightarrow> MemPort" where
  "running name = \<lparr>mp_byKey = [(name, (sample_got [])\<lparr>ob_Name := name,
     ob_Slot := \<lparr>sl_Cluster = ''eu-1'', sl_Namespace = ''payments'', sl_Name = name\<rparr>\<rparr>)], mp_now = 50\<rparr>"

definition app_wiring :: "MemPort wiring" where
  "app_wiring =
     PlaceOn (Some sample_placer)
       (NewManager sample_submit DefaultFloor [memory_Port (\<lambda>t. []) ''app'' ''payments''] (\<lambda>w. 50) (\<lambda>w. ''r''))"

definition resolved_clusters :: "Manifest \<Rightarrow> MemPort \<Rightarrow> string list" where
  "resolved_clusters manifest w =
     (case ResolveWith manifest DefaultFloor (wi_placerOf app_wiring w) (placedFor app_wiring w (man_Team manifest)) of
        Inl e \<Rightarrow> [] | Inr d \<Rightarrow> map di_Cluster (des_Changes d))"

theorem running_app_moves_when_names_differ:
  "resolved_clusters (owning ''payments'') (running ''payments-checkout'') = [''eu-1''] \<and>
   resolved_clusters (owning ''shop'') (running ''shop-checkout'') = [''eu-2''] \<and>
   ''eu-1'' \<in> cl_Name ` set (legalClusters sample_placer sample_claim)"
proof -
  have "resolved_clusters (owning ''payments'') (running ''payments-checkout'') = [''eu-1'']" by code_simp
  moreover have "resolved_clusters (owning ''shop'') (running ''shop-checkout'') = [''eu-2'']" by code_simp
  moreover have "''eu-1'' \<in> set (map cl_Name (legalClusters sample_placer sample_claim))"
    by (simp only: sample_placements(3)) simp
  ultimately show ?thesis by simp
qed

end
