(* ===== verification/Admission.thy ===== *)
theory Admission
  imports Governing
begin

text \<open>
  Which applications may exist in which environment: \<open>admission.go\<close>, \<open>admission_memory.go\<close>, \<open>admission_refusal.go\<close>,
  \<open>admission_onboarding.go\<close> and \<open>admission_before_door.go\<close> of \<open>mantlekeep-estate\<close>. A store is the record \<open>Admissions\<close> of
  its operations over a state of any type; the in-memory store is a map, and each of its operations, which run under one
  lock, is one function. Readings of the clock are arguments, and \<open>time_text\<close> prints an instant.
\<close>

section \<open>The record\<close>

datatype AdmissionState = AdmissionUnset | AdmissionAdmitted | AdmissionRevoked | AdmissionExpired

record Admission =
  adm_Team :: string
  adm_App :: string
  adm_Env :: string
  adm_State :: AdmissionState
  adm_Reason :: string
  adm_Reference :: string
  adm_DecidedBy :: string
  adm_DecidedAt :: int
  adm_ExpiresAt :: int

datatype admission_error =
    AdmissionNotFound
  | AlreadyAdmitted
  | NothingToRevoke
  | AdmissionUnattributable string
  | AdmissionStoreError string

definition Admitted :: "Admission \<Rightarrow> int \<Rightarrow> bool" where
  "Admitted a now \<longleftrightarrow> (if adm_State a \<noteq> AdmissionAdmitted then False else adm_ExpiresAt a = zero_time \<or> now < adm_ExpiresAt a)"

definition lapsed :: "Admission \<Rightarrow> int \<Rightarrow> bool" where
  "lapsed a now \<longleftrightarrow>
     (if adm_State a = AdmissionExpired then True
      else adm_State a = AdmissionAdmitted \<and> adm_ExpiresAt a \<noteq> zero_time \<and> \<not> now < adm_ExpiresAt a)"

definition adm_Validate :: "Admission \<Rightarrow> admission_error option" where
  "adm_Validate a =
     (let subject = adm_Team a @ ''/'' @ adm_App a @ '' in '' @ go_quote (adm_Env a);
          unattributable = (\<lambda>why. Some (AdmissionUnattributable (''estate: this admission could not be attributed: '' @ why)))
      in if adm_Team a = [] \<or> adm_App a = [] \<or> adm_Env a = []
         then unattributable (''an admission needs a team, an app and an environment, got '' @ go_quote (adm_Team a) @ ''/'' @
                go_quote (adm_App a) @ '' in '' @ go_quote (adm_Env a))
         else if adm_Reference a = []
         then unattributable (subject @ '' has no reference '' @ em_dash @ '' the reference is what the chain '' @
                ''cites, so without one no auditor can be told why this app is here'')
         else if adm_DecidedBy a = []
         then unattributable (subject @ '' names nobody who decided it '' @ em_dash @ '' a refusal derived from '' @
                ''this record could not say who to ask'')
         else if adm_Reason a = []
         then unattributable (subject @ '' carries no reason '' @ em_dash @ '' a refusal must be able to quote '' @
                ''the gatekeeper rather than paraphrase them'')
         else None)"

section \<open>The port and the in-memory store\<close>

record 's Admissions =
  ads_Get :: "int \<Rightarrow> 's \<Rightarrow> string \<Rightarrow> string \<Rightarrow> string \<Rightarrow> admission_error + Admission"
  ads_Admit :: "int \<Rightarrow> 's \<Rightarrow> Admission \<Rightarrow> admission_error option \<times> 's"
  ads_Revoke :: "int \<Rightarrow> 's \<Rightarrow> Admission \<Rightarrow> admission_error option \<times> 's"
  ads_AdmittedIn :: "int \<Rightarrow> 's \<Rightarrow> string \<Rightarrow> admission_error + Admission list"

type_synonym admission_map = "Admission gomap"

definition admissionKey :: "string \<Rightarrow> string \<Rightarrow> string \<Rightarrow> string" where
  "admissionKey team app env = team @ ''/'' @ app @ ''@'' @ env"

definition key_of :: "Admission \<Rightarrow> string" where
  "key_of a = admissionKey (adm_Team a) (adm_App a) (adm_Env a)"

definition madm_Get :: "int \<Rightarrow> admission_map \<Rightarrow> string \<Rightarrow> string \<Rightarrow> string \<Rightarrow> admission_error + Admission" where
  "madm_Get now by team app env =
     (case map_of by (admissionKey team app env) of
        None \<Rightarrow> Inl AdmissionNotFound
      | Some a \<Rightarrow> Inr (if lapsed a now then a\<lparr>adm_State := AdmissionExpired\<rparr> else a))"

definition madm_Admit :: "int \<Rightarrow> admission_map \<Rightarrow> Admission \<Rightarrow> admission_error option \<times> admission_map" where
  "madm_Admit now by a =
     (case adm_Validate a of
        Some e \<Rightarrow> (Some e, by)
      | None \<Rightarrow>
          (let k = key_of a
           in if (case map_of by k of Some current \<Rightarrow> Admitted current now | None \<Rightarrow> False) then (Some AlreadyAdmitted, by)
              else (None, gset by k (a\<lparr>adm_State := AdmissionAdmitted\<rparr>))))"

definition madm_Revoke :: "int \<Rightarrow> admission_map \<Rightarrow> Admission \<Rightarrow> admission_error option \<times> admission_map" where
  "madm_Revoke now by a =
     (case adm_Validate a of
        Some e \<Rightarrow> (Some e, by)
      | None \<Rightarrow>
          (let k = key_of a
           in case map_of by k of
                None \<Rightarrow> (Some AdmissionNotFound, by)
              | Some current \<Rightarrow>
                  if \<not> Admitted current now then (Some NothingToRevoke, by)
                  else (None, gset by k (a\<lparr>adm_State := AdmissionRevoked\<rparr>))))"

definition madm_AdmittedIn :: "int \<Rightarrow> admission_map \<Rightarrow> string \<Rightarrow> admission_error + Admission list" where
  "madm_AdmittedIn now by env =
     Inr (sort_key key_of (filter (\<lambda>a. Admitted a now \<and> (env = [] \<or> adm_Env a = env)) (map snd by)))"

definition MemoryAdmissions :: "admission_map Admissions" where
  "MemoryAdmissions = \<lparr>ads_Get = madm_Get, ads_Admit = madm_Admit, ads_Revoke = madm_Revoke, ads_AdmittedIn = madm_AdmittedIn\<rparr>"

section \<open>The question\<close>

datatype refusal_cause = CauseNotAdmitted | CauseNeverOnboarded | CauseStoreUnreachable

record NotAdmitted =
  na_Team :: string
  na_App :: string
  na_Env :: string
  na_Reason :: string
  na_Reference :: string
  na_Cause :: refusal_cause

definition na_Error :: "NotAdmitted \<Rightarrow> string" where
  "na_Error n =
     (let where_to = na_Team n @ ''/'' @ na_App n @ '' is not admitted to environment '' @ go_quote (na_Env n)
      in if na_Reference n = []
         then ''estate: '' @ where_to @ '': '' @ na_Reason n @ '' '' @ em_dash @ '' admitting an app to an environment is itself a '' @
              ''governed act, so ask the platform to admit it and the record id it creates becomes '' @
              ''the reference for this app''
         else ''estate: '' @ where_to @ '': '' @ na_Reason n @ '' (reference '' @ na_Reference n @ '') '' @ em_dash @
              '' quote that reference to whoever owns this environment'')"

fun admission_text :: "admission_error \<Rightarrow> string" where
  "admission_text AdmissionNotFound = ''estate: no admission record for this app in this environment''"
| "admission_text AlreadyAdmitted = ''estate: this app is already admitted to this environment '' @ em_dash @
     '' revoke it first if the decision has changed, so both acts stay on the chain''"
| "admission_text NothingToRevoke = ''estate: this app is not admitted to this environment, so there is nothing to revoke''"
| "admission_text (AdmissionUnattributable e) = e"
| "admission_text (AdmissionStoreError e) = e"

text \<open>The store is read at \<open>read_at\<close>, and the record is judged at \<open>now\<close>. \<open>None\<close> is admitted.\<close>

definition RequireAdmission ::
  "(int \<Rightarrow> string) \<Rightarrow> 's Admissions option \<Rightarrow> int \<Rightarrow> int \<Rightarrow> 's \<Rightarrow> string \<Rightarrow> string \<Rightarrow> string \<Rightarrow> NotAdmitted option" where
  "RequireAdmission time_text store read_at now s team app env =
     (let refuse = (\<lambda>cause reason reference. Some \<lparr>na_Team = team, na_App = app, na_Env = env, na_Reason = reason,
                       na_Reference = reference, na_Cause = cause\<rparr>)
      in case store of
           None \<Rightarrow> refuse CauseStoreUnreachable (''no admission store is configured, so no app can be confirmed as onboarded '' @
                      ''anywhere '' @ em_dash @ '' this refuses rather than waving everything through'') []
         | Some st \<Rightarrow>
             if env = []
             then refuse CauseNotAdmitted ''this change names no environment, so there is nothing to check it against'' []
             else (case ads_Get st read_at s team app env of
                     Inl AdmissionNotFound \<Rightarrow> refuse CauseNeverOnboarded ''this app has never been onboarded to this environment'' []
                   | Inl err \<Rightarrow> refuse CauseStoreUnreachable (''the admission store could not answer ('' @ admission_text err @
                                  ''), and an unconfirmed admission is refused rather than assumed'') []
                   | Inr a \<Rightarrow>
                       if Admitted a now then None
                       else refuse CauseNotAdmitted
                              (if lapsed a now
                               then ''its admission lapsed at '' @ time_text (adm_ExpiresAt a) @ '' and was not renewed; it was granted '' @
                                    ''because: '' @ adm_Reason a
                               else adm_Reason a)
                              (adm_Reference a)))"

section \<open>Onboarding\<close>

definition admissionActionAdmit :: string where "admissionActionAdmit = ''estate.admit''"

definition admissionActionRevoke :: string where "admissionActionRevoke = ''estate.revoke''"

definition admissionIntent :: "Admission \<Rightarrow> string \<Rightarrow> Subject \<Rightarrow> Intent" where
  "admissionIntent a action gatekeeper =
     \<lparr>int_ID = ''ADMIT-'' @ adm_Team a @ ''-'' @ adm_App a @ ''-'' @ adm_Env a @ ''-'' @ dec_int (adm_DecidedAt a),
      int_Subject = gatekeeper, int_Action = action, int_Resource = ''team/'' @ adm_Team a,
      int_Spec = \<lparr>spec_Goal = action @ '' '' @ adm_Team a @ ''/'' @ adm_App a @ '' in environment '' @ go_quote (adm_Env a),
                  spec_AffectedSystems = [], spec_RiskLevel = RiskUnset, spec_Preconditions = [],
                  spec_Postconditions = [], spec_RollbackPlan = []\<rparr>,
      int_Params = [(''app'', AStr (adm_App a)), (''env'', AStr (adm_Env a)), (''reference'', AStr (adm_Reference a)),
                    (''reason'', AStr (adm_Reason a)), (''scope'', AStr (adm_Team a))],
      int_SubmittedAt = adm_DecidedAt a, int_TTL = 5 * 60 * 10 ^ 9, int_Via = []\<rparr>"

datatype onboarding_error =
    OnboardingRefused admission_error \<comment> \<open>by the record's validation or by the store\<close>
  | OnboardingDenied string door_error \<comment> \<open>what was asked, and the door's answer\<close>

definition governedAdmissionChange ::
  "(Intent \<Rightarrow> 'w \<Rightarrow> (door_error + ExecutionToken) \<times> 'w) \<Rightarrow> Subject \<Rightarrow> int \<Rightarrow> Admission \<Rightarrow> string
    \<Rightarrow> ('w \<Rightarrow> Admission \<Rightarrow> admission_error option \<times> 'w) \<Rightarrow> 'w \<Rightarrow> onboarding_error option \<times> 'w" where
  "governedAdmissionChange door gatekeeper now admission action write w =
     (let a = admission\<lparr>adm_DecidedBy := sub_ID gatekeeper, adm_DecidedAt := now\<rparr>
      in case adm_Validate a of
           Some e \<Rightarrow> (Some (OnboardingRefused e), w)
         | None \<Rightarrow>
             (case door (admissionIntent a action gatekeeper) w of
                (Inl err, w1) \<Rightarrow> (Some (OnboardingDenied (action @ '' '' @ adm_Team a @ ''/'' @ adm_App a @ '' in '' @ go_quote (adm_Env a)) err), w1)
              | (Inr _, w1) \<Rightarrow> (let (e, w2) = write w1 a in (map_option OnboardingRefused e, w2))))"

definition AdmitApp ::
  "(Intent \<Rightarrow> 'w \<Rightarrow> (door_error + ExecutionToken) \<times> 'w) \<Rightarrow> 'w Admissions \<Rightarrow> ('w \<Rightarrow> int) \<Rightarrow> Subject \<Rightarrow> Admission \<Rightarrow> 'w
    \<Rightarrow> onboarding_error option \<times> 'w" where
  "AdmitApp door store clock gatekeeper admission w =
     governedAdmissionChange door gatekeeper (clock w) admission admissionActionAdmit (\<lambda>w1. ads_Admit store (clock w1) w1) w"

definition RevokeApp ::
  "(Intent \<Rightarrow> 'w \<Rightarrow> (door_error + ExecutionToken) \<times> 'w) \<Rightarrow> 'w Admissions \<Rightarrow> ('w \<Rightarrow> int) \<Rightarrow> Subject \<Rightarrow> Admission \<Rightarrow> 'w
    \<Rightarrow> onboarding_error option \<times> 'w" where
  "RevokeApp door store clock gatekeeper admission w =
     governedAdmissionChange door gatekeeper (clock w) admission admissionActionRevoke (\<lambda>w1. ads_Revoke store (clock w1) w1) w"

section \<open>The check before the door\<close>

definition admissionEnvironmentOf :: "DesiredItem \<Rightarrow> string \<times> bool" where
  "admissionEnvironmentOf c =
     (if di_Asset c \<noteq> ''app'' then ([], False)
      else case di_Placement c of None \<Rightarrow> ([], True) | Some d \<Rightarrow> (dcs_Env d, True))"

definition check_Transform ::
  "(int \<Rightarrow> string) \<Rightarrow> 'w Admissions option \<Rightarrow> ('w \<Rightarrow> int) \<Rightarrow> string \<Rightarrow> DesiredItem \<Rightarrow> 'w \<Rightarrow> string + DesiredItem" where
  "check_Transform time_text store clock team change w =
     (let (env, governs) = admissionEnvironmentOf change
      in if \<not> governs then Inr change
         else (case RequireAdmission time_text store (clock w) (clock w) w team (di_Name change) env of
                 Some n \<Rightarrow> Inl (na_Error n)
               | None \<Rightarrow> Inr change))"

section \<open>The interface of a store\<close>

text \<open>What the question relies on. \<open>view\<close> reads the record a state holds under a key.\<close>

lemma adm_Validate_None:
  "adm_Validate a = None \<longleftrightarrow> adm_Team a \<noteq> [] \<and> adm_App a \<noteq> [] \<and> adm_Env a \<noteq> [] \<and> adm_Reference a \<noteq> [] \<and>
     adm_DecidedBy a \<noteq> [] \<and> adm_Reason a \<noteq> []"
  by (simp add: adm_Validate_def Let_def)

lemma Admitted_not_lapsed: "Admitted a now \<Longrightarrow> t \<le> now \<Longrightarrow> \<not> lapsed a t"
  by (auto simp: Admitted_def lapsed_def split: if_splits)

definition standing :: "Admission \<Rightarrow> bool" where
  "standing a \<longleftrightarrow> adm_Validate a = None \<and> (adm_State a = AdmissionAdmitted \<or> adm_State a = AdmissionRevoked)"

locale admissions_store =
  fixes store :: "'s Admissions" and view :: "'s \<Rightarrow> string \<Rightarrow> Admission option"
  assumes get: "ads_Get store t s team app env =
      (case view s (admissionKey team app env) of
         None \<Rightarrow> Inl AdmissionNotFound | Some a \<Rightarrow> Inr (if lapsed a t then a\<lparr>adm_State := AdmissionExpired\<rparr> else a))"
    and admit_ok: "ads_Admit store t s a = (None, s') \<Longrightarrow> adm_Validate a = None \<and>
      (\<forall>c. view s (key_of a) = Some c \<longrightarrow> \<not> Admitted c t) \<and> view s' = (view s)(key_of a \<mapsto> a\<lparr>adm_State := AdmissionAdmitted\<rparr>)"
    and admit_error: "ads_Admit store t s a = (Some e, s') \<Longrightarrow> view s' = view s"
    and revoke_ok: "ads_Revoke store t s a = (None, s') \<Longrightarrow> adm_Validate a = None \<and>
      (\<exists>c. view s (key_of a) = Some c \<and> Admitted c t) \<and> view s' = (view s)(key_of a \<mapsto> a\<lparr>adm_State := AdmissionRevoked\<rparr>)"
    and revoke_error: "ads_Revoke store t s a = (Some e, s') \<Longrightarrow> view s' = view s"
begin

lemma admitted_iff:
  assumes "t \<le> now"
  shows "RequireAdmission time_text (Some store) t now s team app env = None \<longleftrightarrow>
    env \<noteq> [] \<and> (\<exists>a. view s (admissionKey team app env) = Some a \<and> Admitted a now)"
proof (cases "view s (admissionKey team app env)")
  case None
  then show ?thesis by (simp add: RequireAdmission_def get)
next
  case (Some a)
  have "Admitted (a\<lparr>adm_State := AdmissionExpired\<rparr>) now = False" by (simp add: Admitted_def)
  then show ?thesis using Some Admitted_not_lapsed [OF _ assms, of a] by (auto simp: RequireAdmission_def get)
qed

definition sound :: "'s \<Rightarrow> bool" where
  "sound s \<longleftrightarrow> (\<forall>k a. view s k = Some a \<longrightarrow> key_of a = k \<and> standing a)"

lemma sound_upd: "sound s \<Longrightarrow> view s' = (view s)(key_of a \<mapsto> a') \<Longrightarrow> key_of a' = key_of a \<Longrightarrow> standing a' \<Longrightarrow> sound s'"
  by (simp add: sound_def)

lemma admit_sound:
  assumes "ads_Admit store t s a = (e, s')" and "sound s"
  shows "sound s'"
proof (cases e)
  case None
  have "standing (a\<lparr>adm_State := AdmissionAdmitted\<rparr>)" "key_of (a\<lparr>adm_State := AdmissionAdmitted\<rparr>) = key_of a"
    using admit_ok assms(1) None by (simp_all add: standing_def adm_Validate_None key_of_def)
  then show ?thesis using sound_upd assms admit_ok None by blast
qed (use assms admit_error in \<open>simp add: sound_def\<close>)

lemma revoke_sound:
  assumes "ads_Revoke store t s a = (e, s')" and "sound s"
  shows "sound s'"
proof (cases e)
  case None
  have "standing (a\<lparr>adm_State := AdmissionRevoked\<rparr>)" "key_of (a\<lparr>adm_State := AdmissionRevoked\<rparr>) = key_of a"
    using revoke_ok assms(1) None by (simp_all add: standing_def adm_Validate_None key_of_def)
  then show ?thesis using sound_upd assms revoke_ok None by blast
qed (use assms revoke_error in \<open>simp add: sound_def\<close>)

lemma admit_keeps_live:
  assumes "ads_Admit store t s a = (e, s')" and "view s k = Some c" and "Admitted c t"
  shows "view s' k = Some c"
proof (cases e)
  case None
  then have "k \<noteq> key_of a" using assms admit_ok by blast
  then show ?thesis using assms admit_ok None by auto
qed (use assms admit_error in simp)

lemma never_deleted:
  assumes "ads_Admit store t s a = (e, s') \<or> ads_Revoke store t s a = (e, s')" and "view s k \<noteq> None"
  shows "view s' k \<noteq> None"
  using assms admit_ok admit_error revoke_ok revoke_error by (cases e) (auto split: if_splits)

end

interpretation madm: admissions_store MemoryAdmissions map_of
  by unfold_locales
    (auto simp: MemoryAdmissions_def madm_Get_def madm_Admit_def madm_Revoke_def Let_def fun_eq_iff split: option.splits if_splits)

section \<open>Every history of a store\<close>

text \<open>The clock advances, or anybody calls an operation of the in-memory store with any record.\<close>

inductive adm_step :: "int \<times> admission_map \<Rightarrow> int \<times> admission_map \<Rightarrow> bool" where
  time_passes: "t \<le> t' \<Longrightarrow> adm_step (t, s) (t', s)"
| admits: "madm_Admit t s a = (e, s') \<Longrightarrow> adm_step (t, s) (t, s')"
| revokes: "madm_Revoke t s a = (e, s') \<Longrightarrow> adm_step (t, s) (t, s')"

inductive_cases adm_stepE: "adm_step w w'"

lemma madm_ops: "ads_Get MemoryAdmissions = madm_Get" "ads_Admit MemoryAdmissions = madm_Admit"
  "ads_Revoke MemoryAdmissions = madm_Revoke"
  by (simp_all add: MemoryAdmissions_def)

lemmas madm_facts = madm.admit_sound [unfolded madm_ops] madm.revoke_sound [unfolded madm_ops]

lemma adm_step_sound: "adm_step w w' \<Longrightarrow> madm.sound (snd w) \<Longrightarrow> madm.sound (snd w')"
  by (erule adm_stepE) (auto dest: madm_facts)

lemma adm_step_keeps: "adm_step w w' \<Longrightarrow> map_of (snd w) k \<noteq> None \<Longrightarrow> map_of (snd w') k \<noteq> None"
  by (erule adm_stepE)
    (simp_all, insert madm.never_deleted [unfolded madm_ops, OF disjI1] madm.never_deleted [unfolded madm_ops, OF disjI2], blast+)

lemma adm_steps_sound: "adm_step\<^sup>*\<^sup>* w w' \<Longrightarrow> madm.sound (snd w) \<Longrightarrow> madm.sound (snd w')"
  by (induction rule: rtranclp_induct) (auto intro: adm_step_sound)

section \<open>A store within a world\<close>

definition lift_admissions :: "('w \<Rightarrow> 's) \<Rightarrow> ('w \<Rightarrow> 's \<Rightarrow> 'w) \<Rightarrow> 's Admissions \<Rightarrow> 'w Admissions" where
  "lift_admissions get put store =
     \<lparr>ads_Get = (\<lambda>now w. ads_Get store now (get w)),
      ads_Admit = (\<lambda>now w a. let (e, s') = ads_Admit store now (get w) a in (e, put w s')),
      ads_Revoke = (\<lambda>now w a. let (e, s') = ads_Revoke store now (get w) a in (e, put w s')),
      ads_AdmittedIn = (\<lambda>now w env. ads_AdmittedIn store now (get w) env)\<rparr>"


section \<open>Properties\<close>

definition sample_admission :: Admission where
  "sample_admission = \<lparr>adm_Team = ''payments'', adm_App = ''payments-checkout'', adm_Env = ''prod'', adm_State = AdmissionUnset,
     adm_Reason = ''pci review done'', adm_Reference = ''OPS-7'', adm_DecidedBy = ''eve'', adm_DecidedAt = 3, adm_ExpiresAt = zero_time\<rparr>"

definition sample_admissions :: admission_map where
  "sample_admissions = [(''payments/payments-checkout@prod'', sample_admission\<lparr>adm_State := AdmissionAdmitted\<rparr>)]"

text \<open>A key names its team, application and environment as long as no team has the separator \<open>/\<close> in its name and
  no application the separator \<open>@\<close>; with separators in names two applications can share a key
  (\<open>separator_in_a_name_admits_another_application\<close>).\<close>

definition plain_names :: "string \<Rightarrow> string \<Rightarrow> bool" where
  "plain_names team app \<longleftrightarrow> CHR ''/'' \<notin> set team \<and> CHR ''@'' \<notin> set app"

lemma split_at_first: "x \<notin> set xs \<Longrightarrow> x \<notin> set ys \<Longrightarrow> xs @ x # r = ys @ x # r' \<longleftrightarrow> xs = ys \<and> r = r'"
proof (induction xs arbitrary: ys)
  case Nil
  then show ?case by (cases ys) auto
next
  case (Cons a xs)
  then show ?case by (cases ys) auto
qed

lemma admissionKey_inj:
  "plain_names team app \<Longrightarrow> plain_names team' app' \<Longrightarrow>
     admissionKey team app env = admissionKey team' app' env' \<longleftrightarrow> team = team' \<and> app = app' \<and> env = env'"
  by (simp add: plain_names_def admissionKey_def split_at_first)

text \<open>The record of an application in an environment, in a store that has come about by the store's own operations.\<close>

lemma named_record:
  assumes "adm_step\<^sup>*\<^sup>* (t0, []) (t, s)" and "\<forall>a\<in>ran (map_of s). plain_names (adm_Team a) (adm_App a)" and "plain_names team app"
  shows "map_of s (admissionKey team app env) = Some a \<longleftrightarrow>
    a \<in> ran (map_of s) \<and> adm_Team a = team \<and> adm_App a = app \<and> adm_Env a = env"
proof -
  have "madm.sound s" using adm_steps_sound [OF assms(1)] by (simp add: madm.sound_def)
  then have key: "map_of s k = Some b \<Longrightarrow> k = admissionKey (adm_Team b) (adm_App b) (adm_Env b)" for k b
    by (auto simp: madm.sound_def key_of_def)
  show ?thesis
  proof
    assume m: "map_of s (admissionKey team app env) = Some a"
    then have "a \<in> ran (map_of s)" by (auto intro: ranI)
    with key [OF m] assms(2,3) show "a \<in> ran (map_of s) \<and> adm_Team a = team \<and> adm_App a = app \<and> adm_Env a = env"
      by (simp add: admissionKey_inj)
  next
    assume "a \<in> ran (map_of s) \<and> adm_Team a = team \<and> adm_App a = app \<and> adm_Env a = env"
    then show "map_of s (admissionKey team app env) = Some a" using key by (auto simp: ran_def)
  qed
qed

text \<open>C35: the question whether an application may be in an environment fails closed. In any store that came about by its own
  operations, and with names free of the two separators of its keys, the answer is yes exactly when the store holds a record
  of that very team, application and environment that is live at the time of asking; with no store,
  no environment, or a store that cannot answer it is no, and the refusal of a revoked application quotes the words and
  the reference of whoever revoked it.\<close>

theorem RequireAdmission_fails_closed:
  assumes "adm_step\<^sup>*\<^sup>* (t0, []) (now, s)" and "read_at \<le> now"
    and "\<forall>a\<in>ran (map_of s). plain_names (adm_Team a) (adm_App a)" and "plain_names team app"
  shows "(RequireAdmission time_text (Some MemoryAdmissions) read_at now s team app env = None \<longleftrightarrow>
      env \<noteq> [] \<and> (\<exists>a\<in>ran (map_of s). adm_Team a = team \<and> adm_App a = app \<and> adm_Env a = env \<and> Admitted a now)) \<and>
    RequireAdmission time_text (None :: admission_map Admissions option) read_at now s team app env \<noteq> None \<and>
    (ads_Get store read_at w team app env = Inl e \<longrightarrow> RequireAdmission time_text (Some store) read_at now w team app env \<noteq> None) \<and>
    (\<forall>a\<in>ran (map_of s). adm_Team a = team \<and> adm_App a = app \<and> adm_Env a = env \<and> env \<noteq> [] \<and> adm_State a = AdmissionRevoked \<longrightarrow>
      (\<exists>n. RequireAdmission time_text (Some MemoryAdmissions) read_at now s team app env = Some n \<and>
         na_Reason n = adm_Reason a \<and> na_Reference n = adm_Reference a \<and> na_Cause n = CauseNotAdmitted))"
proof (intro conjI ballI impI)
  note named = named_record [OF assms(1,3,4), of env]
  show "RequireAdmission time_text (Some MemoryAdmissions) read_at now s team app env = None \<longleftrightarrow>
      env \<noteq> [] \<and> (\<exists>a\<in>ran (map_of s). adm_Team a = team \<and> adm_App a = app \<and> adm_Env a = env \<and> Admitted a now)"
    unfolding madm.admitted_iff [OF assms(2)] named by blast
  show "RequireAdmission time_text (Some store) read_at now w team app env \<noteq> None" if "ads_Get store read_at w team app env = Inl e"
    using that by (cases e) (simp_all add: RequireAdmission_def)
  fix a assume a: "a \<in> ran (map_of s)"
    "adm_Team a = team \<and> adm_App a = app \<and> adm_Env a = env \<and> env \<noteq> [] \<and> adm_State a = AdmissionRevoked"
  then have "map_of s (admissionKey team app env) = Some a" using named by simp
  then show "\<exists>n. RequireAdmission time_text (Some MemoryAdmissions) read_at now s team app env = Some n \<and>
       na_Reason n = adm_Reason a \<and> na_Reference n = adm_Reference a \<and> na_Cause n = CauseNotAdmitted"
    using a(2) by (auto simp: RequireAdmission_def madm.get lapsed_def Admitted_def)
qed (simp add: RequireAdmission_def)

lemma sample_admissions_reached: "adm_step\<^sup>*\<^sup>* (5, []) (5, sample_admissions)"
proof -
  have "madm_Admit 5 [] sample_admission = (None, sample_admissions)"
    by (simp add: madm_Admit_def adm_Validate_def sample_admission_def sample_admissions_def key_of_def admissionKey_def Let_def)
  then show ?thesis by (intro r_into_rtranclp admits)
qed

lemma sample_admissions_record:
  "ran (map_of sample_admissions) = {sample_admission\<lparr>adm_State := AdmissionAdmitted\<rparr>}"
  by (auto simp: sample_admissions_def ran_def split: if_splits)

theorem RequireAdmission_fails_closed_witness:
  "RequireAdmission (\<lambda>t. []) (Some MemoryAdmissions) 5 6 sample_admissions ''payments'' ''payments-checkout'' ''prod'' = None \<and>
   RequireAdmission (\<lambda>t. []) (Some MemoryAdmissions) 5 6 sample_admissions ''payments'' ''payments-checkout'' ''dev'' \<noteq> None"
proof -
  have r: "adm_step\<^sup>*\<^sup>* (5, []) (6, sample_admissions)"
    by (rule rtranclp.rtrancl_into_rtrancl [OF sample_admissions_reached time_passes]) simp
  have p: "\<forall>a\<in>ran (map_of sample_admissions). plain_names (adm_Team a) (adm_App a)"
    "plain_names ''payments'' ''payments-checkout''" and "(5 :: int) \<le> 6"
    by (simp_all add: sample_admissions_record sample_admission_def plain_names_def)
  note iff = RequireAdmission_fails_closed [OF r this(3) p, where time_text = "\<lambda>t. []", THEN conjunct1]
  from iff [of "''prod''"] iff [of "''dev''"] show ?thesis
    by (simp add: sample_admissions_record sample_admission_def Admitted_def)
qed

text \<open>The inventory stays explainable. In every state the store can reach, each record is filed under its own team,
  application and environment, is admitted or revoked and never half-way, and says who decided it, why, and on which
  reference; no operation deletes a record, so a revocation stays readable; and admitting what is live changes nothing.\<close>

theorem admissions_stay_explainable:
  assumes "adm_step\<^sup>*\<^sup>* (t0, []) (t, s)" and "map_of s k = Some a"
  shows "k = admissionKey (adm_Team a) (adm_App a) (adm_Env a) \<and>
    (adm_State a = AdmissionAdmitted \<or> adm_State a = AdmissionRevoked) \<and>
    adm_DecidedBy a \<noteq> [] \<and> adm_Reason a \<noteq> [] \<and> adm_Reference a \<noteq> [] \<and>
    (adm_step (t, s) (t', s') \<longrightarrow> map_of s' k \<noteq> None) \<and>
    (Admitted a t \<longrightarrow> map_of (snd (madm_Admit t s b)) k = Some a)"
proof -
  have "madm.sound s" using adm_steps_sound [OF assms(1)] by (simp add: madm.sound_def)
  then have ok: "key_of a = k" "standing a" using assms(2) by (simp_all add: madm.sound_def)
  have "map_of s' k \<noteq> None" if "adm_step (t, s) (t', s')" using adm_step_keeps [OF that] assms(2) by simp
  moreover have "map_of (snd (madm_Admit t s b)) k = Some a" if "Admitted a t"
    using madm.admit_keeps_live [unfolded madm_ops, OF surjective_pairing assms(2) that] .
  ultimately show ?thesis using ok by (auto simp: key_of_def standing_def adm_Validate_None)
qed

theorem admissions_stay_explainable_witness:
  "\<exists>a. map_of sample_admissions ''payments/payments-checkout@prod'' = Some a \<and>
     map_of (snd (madm_Admit 5 sample_admissions (sample_admission\<lparr>adm_Reason := ''again''\<rparr>))) ''payments/payments-checkout@prod'' = Some a"
proof -
  note r = sample_admissions_reached
  have m: "map_of sample_admissions ''payments/payments-checkout@prod'' = Some (sample_admission\<lparr>adm_State := AdmissionAdmitted\<rparr>)"
    by (simp add: sample_admissions_def)
  have l: "Admitted (sample_admission\<lparr>adm_State := AdmissionAdmitted\<rparr>) 5" by (simp add: Admitted_def sample_admission_def)
  show ?thesis using admissions_stay_explainable [OF r m] l m by blast
qed

text \<open>Onboarding is governed before it is written. When an application is admitted, the door allowed an intent of exactly
  this gatekeeper for exactly this team, application, environment and reference, and the record written next names that
  gatekeeper and that instant, whatever the caller put there; when the door refuses, the store is not called.\<close>

theorem onboarding_follows_the_door:
  assumes "AdmitApp door store clock gatekeeper admission w = (e, w')"
  shows "let a = admission\<lparr>adm_DecidedBy := sub_ID gatekeeper, adm_DecidedAt := clock w\<rparr>;
             intent = admissionIntent a ''estate.admit'' gatekeeper
    in (e = None \<longrightarrow> (\<exists>token w1. door intent w = (Inr token, w1) \<and> ads_Admit store (clock w1) w1 a = (None, w'))) \<and>
       (\<forall>why err. e = Some (OnboardingDenied why err) \<longrightarrow> door intent w = (Inl err, w')) \<and>
       (adm_Validate a \<noteq> None \<longrightarrow> e \<noteq> None \<and> w' = w) \<and>
       int_Subject intent = gatekeeper \<and> int_Action intent = ''estate.admit'' \<and>
       param_string (int_Params intent) ''app'' = adm_App admission \<and> param_string (int_Params intent) ''env'' = adm_Env admission \<and>
       param_string (int_Params intent) ''scope'' = adm_Team admission \<and>
       param_string (int_Params intent) ''reference'' = adm_Reference admission"
  using assms
  by (auto simp: AdmitApp_def governedAdmissionChange_def Let_def admissionActionAdmit_def admissionIntent_def param_string_def
      split: option.splits prod.splits sum.splits)

definition open_door :: "Intent \<Rightarrow> 'w \<Rightarrow> (door_error + ExecutionToken) \<times> 'w" where
  "open_door intent w = (Inr sample_token, w)"

theorem onboarding_follows_the_door_witness:
  "AdmitApp open_door MemoryAdmissions (\<lambda>w. 3) (person ''eve'') sample_admission [] = (None, sample_admissions) \<and>
   (\<exists>token w1. open_door (admissionIntent sample_admission ''estate.admit'' (person ''eve'')) [] = (Inr token, w1) \<and>
      ads_Admit MemoryAdmissions 3 w1 sample_admission = (None, sample_admissions))"
proof -
  have a: "AdmitApp open_door MemoryAdmissions (\<lambda>w. 3) (person ''eve'') sample_admission [] = (None, sample_admissions)"
    by (simp add: AdmitApp_def governedAdmissionChange_def Let_def adm_Validate_def sample_admission_def person_def
        open_door_def madm_ops madm_Admit_def key_of_def admissionKey_def sample_admissions_def)
  have s: "sample_admission\<lparr>adm_DecidedBy := sub_ID (person ''eve''), adm_DecidedAt := 3\<rparr> = sample_admission"
    by (simp add: sample_admission_def person_def)
  show ?thesis using onboarding_follows_the_door [OF a] a unfolding s Let_def by blast
qed


text \<open>A deployment whose world is its approvals, its admissions and one application adapter, with the check wired in.\<close>

definition admissions_of :: "approval_map \<times> admission_map \<times> MemPort \<Rightarrow> admission_map" where
  "admissions_of w = fst (snd w)"

definition put_admissions :: "approval_map \<times> admission_map \<times> MemPort \<Rightarrow> admission_map \<Rightarrow> approval_map \<times> admission_map \<times> MemPort" where
  "put_admissions w s = (fst w, s, snd (snd w))"

definition world_admissions :: "(approval_map \<times> admission_map \<times> MemPort) Admissions" where
  "world_admissions = lift_admissions admissions_of put_admissions MemoryAdmissions"

definition checked_wiring :: "(approval_map \<times> admission_map \<times> MemPort) wiring" where
  "checked_wiring =
     AwaitApprovalIn (first_store MemoryApprovals)
       (TransformChangesWith (check_Transform (\<lambda>t. []) (Some world_admissions) (\<lambda>w. 50))
         (PlaceOn (Some sample_placer)
           (NewManager sample_submit DefaultFloor [second_port (second_port (memory_Port (\<lambda>t. []) ''app'' ''payments''))]
             (\<lambda>w. 50) (\<lambda>w. ''r''))))"

definition onboarded_world :: "approval_map \<times> admission_map \<times> MemPort" where
  "onboarded_world = ([], sample_admissions, \<lparr>mp_byKey = [], mp_now = 50\<rparr>)"





text \<open>The check can be routed around through an approval. An application admitted when its change was requested and
  revoked before it was approved is executed on approval, although at that moment the same check refuses it: the approval
  path never runs the transform.\<close>

definition requested_state :: "(approval_map \<times> admission_map \<times> MemPort) state" where
  "requested_state = snd (man_Apply checked_wiring (person ''ann'') (owning ''payments'') ([], onboarded_world))"

definition revoked_world :: "approval_map \<times> admission_map \<times> MemPort" where
  "revoked_world = snd (RevokeApp open_door world_admissions (\<lambda>w. 50) (person ''eve'') sample_admission (snd requested_state))"

theorem approval_executes_a_revoked_application:
  "RequireAdmission (\<lambda>t. []) (Some world_admissions) 50 50 revoked_world ''payments'' ''payments-checkout'' ''prod'' \<noteq> None \<and>
   map di_Name (executed_changes (fst requested_state)) = [] \<and>
   map di_Name (executed_changes (fst (snd (ApproveCiting checked_wiring (person ''bob'')
     ''APR-payments-payments-checkout-50-r'' [] (fst requested_state, revoked_world))))) = [''payments-checkout'']"
proof -
  have "case RequireAdmission (\<lambda>t. []) (Some world_admissions) 50 50 revoked_world ''payments'' ''payments-checkout'' ''prod'' of
      None \<Rightarrow> False | Some n \<Rightarrow> True" by code_simp
  then have "RequireAdmission (\<lambda>t. []) (Some world_admissions) 50 50 revoked_world ''payments'' ''payments-checkout'' ''prod'' \<noteq> None"
    by (auto split: option.splits)
  moreover have "map di_Name (executed_changes (fst requested_state)) = []" by code_simp
  moreover have "map di_Name (executed_changes (fst (snd (ApproveCiting checked_wiring (person ''bob'')
      ''APR-payments-payments-checkout-50-r'' [] (fst requested_state, revoked_world))))) = [''payments-checkout'']" by code_simp
  ultimately show ?thesis by blast
qed

end
