(* ===== verification/Admission_Suite.thy ===== *)
theory Admission_Suite
  imports Admission Test_Suite
begin

text \<open>
  The conformance suite of an admission store: package \<open>admissiontest\<close> of \<open>mantlekeep-estate\<close>, over any store of the port and
  the fresh state its factory builds. \<open>c k\<close> is the \<open>k\<close>-th reading of the clock in a case, and \<open>order\<close> the schedule of its
  goroutines. The property says that the in-memory store passes every case under every schedule and any readings of the clock.
\<close>

section \<open>Fixtures\<close>

definition admitted_fixture :: "int \<Rightarrow> string \<Rightarrow> string \<Rightarrow> string \<Rightarrow> Admission" where
  "admitted_fixture t team app env =
     \<lparr>adm_Team = team, adm_App = app, adm_Env = env, adm_State = AdmissionAdmitted,
      adm_Reason = ''onboarded with the platform team for the '' @ env @ '' footprint'',
      adm_Reference = ''CHG-'' @ env @ ''-4471'', adm_DecidedBy = ''platform-dana'', adm_DecidedAt = t, adm_ExpiresAt = zero_time\<rparr>"

definition revoked_fixture :: "int \<Rightarrow> string \<Rightarrow> string \<Rightarrow> string \<Rightarrow> Admission" where
  "revoked_fixture t team app env =
     (admitted_fixture t team app env)\<lparr>adm_State := AdmissionRevoked,
        adm_Reason := ''decommissioned when the service moved to the new ledger'', adm_Reference := ''CHG-'' @ env @ ''-9902''\<rparr>"

definition appCheckout :: string where "appCheckout = ''payments-checkout''"

definition appSpike :: string where "appSpike = ''payments-spike''"

definition checkout :: "int \<Rightarrow> string \<Rightarrow> Admission" where
  "checkout t env = admitted_fixture t ''payments'' appCheckout env"

section \<open>The cases\<close>

definition readsBack :: "'s Admissions \<Rightarrow> 's \<Rightarrow> (nat \<Rightarrow> int) \<Rightarrow> string list" where
  "readsBack store s0 c =
     succeeds (ads_Admit store (c 1) s0 (checkout (c 0) ''uat'')) ''admitting'' (\<lambda>s.
     returns (ads_Get store (c 2) s ''payments'' appCheckout ''uat'') ''reading back'' (\<lambda>record.
     require (Admitted record (c 3)) ''a freshly onboarded app must read as admitted'' (
     require (adm_Reference record \<noteq> [] \<and> adm_DecidedBy record \<noteq> []) ''the store must keep the reference and the decider'' [])))"

definition unknownIsRefused :: "'s Admissions \<Rightarrow> 's \<Rightarrow> (nat \<Rightarrow> int) \<Rightarrow> string list" where
  "unknownIsRefused store s0 c =
     require (ads_Get store (c 0) s0 ''payments'' ''payments-ghost'' ''uat'' = Inl AdmissionNotFound)
       ''an app with no record must report ErrAdmissionNotFound'' []"

definition admit_attempt :: "'s Admissions \<Rightarrow> (nat \<Rightarrow> int) \<Rightarrow> 's \<Rightarrow> nat \<Rightarrow> bool \<times> 's" where
  "admit_attempt store c s n =
     (let record = (checkout (c (2 * n)) ''uat'')\<lparr>adm_Reference := ''CHG-RACE-'' @ dec_nat n\<rparr>
      in case ads_Admit store (c (2 * n + 1)) s record of (e, s') \<Rightarrow> (e = None, s'))"

definition onlyOneAdmitWins :: "'s Admissions \<Rightarrow> 's \<Rightarrow> (nat \<Rightarrow> int) \<Rightarrow> nat list \<Rightarrow> string list" where
  "onlyOneAdmitWins store s0 c order =
     require (length (fst (race (admit_attempt store c) order s0)) = 1) ''exactly one onboarding may win'' []"

definition noSilentReadmission :: "'s Admissions \<Rightarrow> 's \<Rightarrow> (nat \<Rightarrow> int) \<Rightarrow> string list" where
  "noSilentReadmission store s0 c =
     succeeds (ads_Admit store (c 1) s0 (checkout (c 0) ''uat'')) ''admitting'' (\<lambda>s.
     let (e, s) = ads_Admit store (c 3) s ((checkout (c 2) ''uat'')\<lparr>adm_Reference := ''CHG-UAT-0002''\<rparr>)
     in require (e = Some AlreadyAdmitted) ''re-admitting a live admission must fail'' (
     returns (ads_Get store (c 4) s ''payments'' appCheckout ''uat'') ''reading back'' (\<lambda>record.
     require (adm_Reference record = ''CHG-uat-4471'') ''the FIRST reference must survive'' [])))"

definition nothingToRevoke :: "'s Admissions \<Rightarrow> 's \<Rightarrow> (nat \<Rightarrow> int) \<Rightarrow> string list" where
  "nothingToRevoke store s0 c =
     (let (e, s) = ads_Revoke store (c 1) s0 (revoked_fixture (c 0) ''payments'' appCheckout ''uat'')
      in require (e \<noteq> None) ''revoking an app that was never admitted reported success'' (
      require (e = Some AdmissionNotFound \<or> e = Some NothingToRevoke) ''a revoke with nothing to revoke must say so'' (
      succeeds (ads_Admit store (c 3) s (checkout (c 2) ''uat'')) ''admitting'' (\<lambda>s.
      succeeds (ads_Revoke store (c 5) s (revoked_fixture (c 4) ''payments'' appCheckout ''uat'')) ''the first revocation must be accepted'' (\<lambda>s.
      let (e, s) = ads_Revoke store (c 7) s
             ((revoked_fixture (c 6) ''payments'' appCheckout ''uat'')\<lparr>adm_Reason := ''tidying up the inventory''\<rparr>)
      in require (e = Some NothingToRevoke) ''a second revocation must be refused'' (
      returns (ads_Get store (c 8) s ''payments'' appCheckout ''uat'') ''reading back'' (\<lambda>record.
      require (adm_Reason record \<noteq> ''tidying up the inventory'') ''the second revocation overwrote the reason'' [])))))))"

definition revokedSaysWhy :: "'s Admissions \<Rightarrow> 's \<Rightarrow> (nat \<Rightarrow> int) \<Rightarrow> string list" where
  "revokedSaysWhy store s0 c =
     succeeds (ads_Admit store (c 1) s0 (checkout (c 0) ''uat'')) ''admitting'' (\<lambda>s.
     succeeds (ads_Revoke store (c 3) s (revoked_fixture (c 2) ''payments'' appCheckout ''uat'')) ''revoking'' (\<lambda>s.
     returns (ads_Get store (c 4) s ''payments'' appCheckout ''uat'') ''a revoked admission must still be readable'' (\<lambda>record.
     require (\<not> Admitted record (c 5)) ''a revoked app still reads as admitted'' (
     require (adm_Reason record \<noteq> [] \<and> adm_Reference record \<noteq> []) ''a revocation must carry the reason and the reference'' []))))"

definition reAdmissionIsAllowed :: "'s Admissions \<Rightarrow> 's \<Rightarrow> (nat \<Rightarrow> int) \<Rightarrow> string list" where
  "reAdmissionIsAllowed store s0 c =
     succeeds (ads_Admit store (c 1) s0 (checkout (c 0) ''uat'')) ''admitting'' (\<lambda>s.
     succeeds (ads_Revoke store (c 3) s (revoked_fixture (c 2) ''payments'' appCheckout ''uat'')) ''revoking'' (\<lambda>s.
     let back = (checkout (c 4) ''uat'')\<lparr>adm_Reference := ''CHG-UAT-7788'', adm_Reason := ''brought back for the migration cutover''\<rparr>
     in succeeds (ads_Admit store (c 5) s back) ''re-onboarding a revoked app must be accepted'' (\<lambda>s.
     returns (ads_Get store (c 6) s ''payments'' appCheckout ''uat'') ''reading back'' (\<lambda>record.
     require (Admitted record (c 7) \<and> adm_Reference record = ''CHG-UAT-7788'') ''the app must be admitted under the NEW reference'' []))))"

definition expiryIsHonoured :: "'s Admissions \<Rightarrow> 's \<Rightarrow> (nat \<Rightarrow> int) \<Rightarrow> string list" where
  "expiryIsHonoured store s0 c =
     (let lapsing = (admitted_fixture (c 0) ''payments'' appSpike ''uat'')\<lparr>adm_ExpiresAt := c 1 - 60 * 10 ^ 9\<rparr>
      in succeeds (ads_Admit store (c 2) s0 lapsing) ''admitting'' (\<lambda>s.
      returns (ads_Get store (c 3) s ''payments'' appSpike ''uat'') ''reading back'' (\<lambda>record.
      require (\<not> Admitted record (c 4)) ''a lapsed admission still reads as admitted'' (
      require (adm_State record = AdmissionExpired) ''a lapsed admission must read as expired'' (
      returns (ads_AdmittedIn store (c 5) s ''uat'') ''listing'' (\<lambda>live.
      require (\<not> list_ex (\<lambda>entry. adm_App entry = appSpike) live) ''a lapsed admission is still listed as admitted'' []))))))"

text \<open>The last name is four characters of three bytes each.\<close>

definition environments :: "string list" where
  "environments = [''sit'', ''dev'', ''uat'', ''prod'', ''uat'', ''UAT'', ''pre-prod-2'', ''canary-tokyo'', ''regulator-sandbox'',
     [CHR 0xE5, CHR 0xAE, CHR 0xA2, CHR 0xE6, CHR 0x88, CHR 0xB6, CHR 0xE9, CHR 0xA9, CHR 0x97, CHR 0xE6, CHR 0x94, CHR 0xB6]]"

fun admit_each :: "'s Admissions \<Rightarrow> (nat \<Rightarrow> int) \<Rightarrow> nat \<Rightarrow> string list \<Rightarrow> 's \<Rightarrow> ('s \<Rightarrow> string list) \<Rightarrow> string list" where
  "admit_each store c k [] s rest = rest s"
| "admit_each store c k (env # envs) s rest =
     (let (e, s) = ads_Admit store (c (k + 1)) s (checkout (c k) env)
      in require (e = None \<or> e = Some AlreadyAdmitted) (''admitting to env '' @ env) (admit_each store c (k + 2) envs s rest))"

fun get_each :: "'s Admissions \<Rightarrow> (nat \<Rightarrow> int) \<Rightarrow> nat \<Rightarrow> string list \<Rightarrow> 's \<Rightarrow> string list \<Rightarrow> string list" where
  "get_each store c k [] s rest = rest"
| "get_each store c k (env # envs) s rest =
     returns (ads_Get store (c k) s ''payments'' appCheckout env) (''env must be storable verbatim: '' @ env) (\<lambda>record.
     require (adm_Env record = env) (''env was rewritten: '' @ env) (get_each store c (k + 1) envs s rest))"

definition envIsOpaque :: "'s Admissions \<Rightarrow> 's \<Rightarrow> (nat \<Rightarrow> int) \<Rightarrow> string list" where
  "envIsOpaque store s0 c =
     admit_each store c 0 environments s0 (\<lambda>s.
     get_each store c 20 environments s (
     succeeds (ads_Revoke store (c 31) s (revoked_fixture (c 30) ''payments'' appCheckout ''UAT'')) ''revoking from UAT'' (\<lambda>s.
     returns (ads_Get store (c 32) s ''payments'' appCheckout ''uat'') ''reading back'' (\<lambda>lower.
     require (Admitted lower (c 33)) ''the store folded case'' (
     require (ads_Get store (c 34) s ''payments'' appCheckout ''prod-dr'' = Inl AdmissionNotFound)
       ''an environment nobody onboarded this app to must have no record'' [])))))"

definition manglings :: "(string \<times> (Admission \<Rightarrow> Admission)) list" where
  "manglings = [(''no reference'', \<lambda>a. a\<lparr>adm_Reference := []\<rparr>), (''no decider'', \<lambda>a. a\<lparr>adm_DecidedBy := []\<rparr>),
     (''no reason'', \<lambda>a. a\<lparr>adm_Reason := []\<rparr>), (''no environment'', \<lambda>a. a\<lparr>adm_Env := []\<rparr>), (''no app'', \<lambda>a. a\<lparr>adm_App := []\<rparr>)]"

fun refuse_each :: "'s Admissions \<Rightarrow> (nat \<Rightarrow> int) \<Rightarrow> nat \<Rightarrow> (string \<times> (Admission \<Rightarrow> Admission)) list \<Rightarrow> 's \<Rightarrow> string list" where
  "refuse_each store c k [] s = []"
| "refuse_each store c k ((what, mangle) # ms) s =
     (let (e, s) = ads_Admit store (c (k + 1)) s (mangle (checkout (c k) ''uat''))
      in expect (case e of Some (AdmissionUnattributable _) \<Rightarrow> True | _ \<Rightarrow> False) (''must be refused as unattributable: '' @ what)
           (refuse_each store c (k + 2) ms s))"

definition attributionIsRequired :: "'s Admissions \<Rightarrow> 's \<Rightarrow> (nat \<Rightarrow> int) \<Rightarrow> string list" where
  "attributionIsRequired store s0 c = refuse_each store c 0 manglings s0"

definition listsOneEnv :: "'s Admissions \<Rightarrow> 's \<Rightarrow> (nat \<Rightarrow> int) \<Rightarrow> string list" where
  "listsOneEnv store s0 c =
     succeeds (ads_Admit store (c 1) s0 (admitted_fixture (c 0) ''payments'' appCheckout ''uat'')) ''admitting'' (\<lambda>s.
     succeeds (ads_Admit store (c 3) s (admitted_fixture (c 2) ''payments'' ''payments-ledger'' ''uat'')) ''admitting'' (\<lambda>s.
     succeeds (ads_Admit store (c 5) s (admitted_fixture (c 4) ''treasury'' ''treasury-reporting'' ''canary-tokyo'')) ''admitting'' (\<lambda>s.
     returns (ads_AdmittedIn store (c 6) s ''uat'') ''listing one environment'' (\<lambda>inUAT.
     require (length inUAT = 2) ''uat has 2 admitted apps'' (
     returns (ads_AdmittedIn store (c 7) s []) ''listing every environment'' (\<lambda>everywhere.
     require (length everywhere = 3) ''three apps are admitted overall'' (
     succeeds (ads_Revoke store (c 9) s (revoked_fixture (c 8) ''payments'' ''payments-ledger'' ''uat'')) ''revoking'' (\<lambda>s.
     returns (ads_AdmittedIn store (c 10) s ''uat'') ''a revoked admission must leave the inventory'' (\<lambda>inUAT.
     require (length inUAT = 1) ''a revoked admission must leave the inventory'' [])))))))))"

definition admissions_Run :: "'s Admissions \<Rightarrow> 's \<Rightarrow> (nat \<Rightarrow> int) \<Rightarrow> nat list \<Rightarrow> (string \<times> case_outcome) list" where
  "admissions_Run store s0 c order =
     [(''an admitted app reads back as admitted'', Some (readsBack store s0 c)),
      (''an app nobody onboarded is not admitted'', Some (unknownIsRefused store s0 c)),
      (''only ONE admission wins under concurrency'', Some (onlyOneAdmitWins store s0 c order)),
      (''a live admission is never overwritten'', Some (noSilentReadmission store s0 c)),
      (''revoking what is not admitted is refused'', Some (nothingToRevoke store s0 c)),
      (''a revoked app is no longer admitted and says why'', Some (revokedSaysWhy store s0 c)),
      (''a revoked app can be onboarded again'', Some (reAdmissionIsAllowed store s0 c)),
      (''a lapsed admission does not read as admitted'', Some (expiryIsHonoured store s0 c)),
      (''the environment is an opaque string'', Some (envIsOpaque store s0 c)),
      (''an unattributable admission is refused'', Some (attributionIsRequired store s0 c)),
      (''what is admitted in one environment can be listed'', Some (listsOneEnv store s0 c))]"

section \<open>The in-memory store passes\<close>

lemma madm_operations [simp]:
  "ads_Get MemoryAdmissions = madm_Get" "ads_Admit MemoryAdmissions = madm_Admit" "ads_Revoke MemoryAdmissions = madm_Revoke"
  "ads_AdmittedIn MemoryAdmissions = madm_AdmittedIn"
  by (simp_all add: MemoryAdmissions_def)

lemmas admission_fixtures = admitted_fixture_def revoked_fixture_def checkout_def appCheckout_def appSpike_def

lemmas admission_ops = madm_Get_def madm_Admit_def madm_Revoke_def madm_AdmittedIn_def adm_Validate_def key_of_def
  admissionKey_def Admitted_def lapsed_def

lemma one_app_cases:
  shows "readsBack MemoryAdmissions [] c = []" and "unknownIsRefused MemoryAdmissions [] c = []"
    and "noSilentReadmission MemoryAdmissions [] c = []" and "nothingToRevoke MemoryAdmissions [] c = []"
    and "revokedSaysWhy MemoryAdmissions [] c = []" and "reAdmissionIsAllowed MemoryAdmissions [] c = []"
  by (simp_all add: readsBack_def unknownIsRefused_def noSilentReadmission_def nothingToRevoke_def revokedSaysWhy_def
      reAdmissionIsAllowed_def Let_def admission_fixtures admission_ops)

lemma listing_cases: "listsOneEnv MemoryAdmissions [] c = []"
  by (simp add: listsOneEnv_def Let_def admission_fixtures admission_ops)

lemma attribution_case: "attributionIsRequired MemoryAdmissions [] c = []"
  by (simp add: attributionIsRequired_def manglings_def Let_def admission_fixtures madm_Admit_def adm_Validate_def)

text \<open>A case takes less than a minute backwards: the clock is not set back by that much, and no instant is near the zero time.\<close>

definition steady_clock :: "(nat \<Rightarrow> int) \<Rightarrow> bool" where
  "steady_clock c \<longleftrightarrow> (\<forall>i j. c i - 60 * 10 ^ 9 \<le> c j) \<and> (\<forall>k. c k - 60 * 10 ^ 9 \<noteq> zero_time)"

lemma expiry_case:
  assumes "steady_clock c"
  shows "expiryIsHonoured MemoryAdmissions [] c = []"
proof -
  have "\<not> c j < c 1 - 60 * 10 ^ 9" "c 1 - 60 * 10 ^ 9 \<noteq> zero_time" for j
    using assms by (simp_all add: steady_clock_def not_less)
  then show ?thesis
    by (simp add: expiryIsHonoured_def Let_def admission_fixtures admission_ops)
qed

lemma one_admit_wins:
  assumes "schedule 16 order"
  shows "onlyOneAdmitWins MemoryAdmissions [] c order = []"
proof -
  obtain k ks where order: "order = k # ks" using schedule_Cons [OF assms] by auto
  obtain r where first: "admit_attempt MemoryAdmissions c [] k = (True, [(admissionKey ''payments'' appCheckout ''uat'', r)])"
      "adm_State r = AdmissionAdmitted" "adm_ExpiresAt r = zero_time"
    by (simp add: admit_attempt_def Let_def admission_fixtures admission_ops)
  have "race (admit_attempt MemoryAdmissions c) ks [(admissionKey ''payments'' appCheckout ''uat'', r)]
      = ([], [(admissionKey ''payments'' appCheckout ''uat'', r)])"
    using first(2,3)
    by (intro race_refused) (simp add: admit_attempt_def Let_def admission_fixtures admission_ops)
  then show ?thesis by (simp add: onlyOneAdmitWins_def order first)
qed

text \<open>Environments are names and nothing more: the application is live in exactly those it was admitted to.\<close>

definition live_record :: "string \<Rightarrow> Admission \<Rightarrow> bool" where
  "live_record env r \<longleftrightarrow> adm_State r = AdmissionAdmitted \<and> adm_ExpiresAt r = zero_time \<and> adm_Env r = env"

definition live_in :: "admission_map \<Rightarrow> string set \<Rightarrow> bool" where
  "live_in s E \<longleftrightarrow> (\<forall>env. case map_of s (admissionKey ''payments'' appCheckout env) of
     Some r \<Rightarrow> env \<in> E \<and> live_record env r | None \<Rightarrow> env \<notin> E)"

lemma live_in_lookup: "live_in s E \<Longrightarrow> env \<in> E \<Longrightarrow> \<exists>r. map_of s (admissionKey ''payments'' appCheckout env) = Some r \<and> live_record env r"
  and live_in_absent: "live_in s E \<Longrightarrow> env \<notin> E \<Longrightarrow> map_of s (admissionKey ''payments'' appCheckout env) = None"
  by (auto simp: live_in_def split: option.splits dest: spec [of _ env])

lemma checkout_valid: "env \<noteq> [] \<Longrightarrow> adm_Validate (checkout t env) = None"
  by (simp add: adm_Validate_None admission_fixtures)

lemma checkout_admitted:
  assumes "live_in s E" and "env \<noteq> []"
  shows "(madm_Admit now s (checkout t env) = (Some AlreadyAdmitted, s) \<and> env \<in> E) \<or>
    (\<exists>s'. madm_Admit now s (checkout t env) = (None, s') \<and> live_in s' (insert env E))"
proof (cases "env \<in> E")
  case True
  then obtain r where "map_of s (admissionKey ''payments'' appCheckout env) = Some r" "live_record env r"
    using live_in_lookup assms(1) by blast
  then show ?thesis using True checkout_valid [OF assms(2)]
    by (simp add: madm_Admit_def Let_def key_of_def checkout_def admitted_fixture_def live_record_def Admitted_def)
next
  case False
  then have none: "map_of s (admissionKey ''payments'' appCheckout env) = None" by (rule live_in_absent [OF assms(1)])
  let ?s = "gset s (admissionKey ''payments'' appCheckout env) (checkout t env)"
  have "madm_Admit now s (checkout t env) = (None, ?s)"
    using none checkout_valid [OF assms(2)] by (simp add: madm_Admit_def Let_def key_of_def checkout_def admitted_fixture_def)
  moreover have "live_in ?s (insert env E)"
    unfolding live_in_def
  proof
    fix e
    have "admissionKey ''payments'' appCheckout env = admissionKey ''payments'' appCheckout e \<longleftrightarrow> e = env"
      by (auto simp: admissionKey_def)
    then show "case map_of ?s (admissionKey ''payments'' appCheckout e) of
        Some r \<Rightarrow> e \<in> insert env E \<and> live_record e r | None \<Rightarrow> e \<notin> insert env E"
      using spec [OF assms(1) [unfolded live_in_def], of e]
      by (cases "e = env") (auto simp: checkout_def admitted_fixture_def live_record_def split: option.splits)
  qed
  ultimately show ?thesis by blast
qed

lemma admit_each_passes:
  assumes "\<forall>e\<in>set envs. e \<noteq> []" and "live_in s E"
  shows "\<exists>s'. live_in s' (E \<union> set envs) \<and> admit_each MemoryAdmissions c k envs s rest = rest s'"
  using assms
proof (induction envs arbitrary: s E k)
  case (Cons env envs)
  have ne: "env \<noteq> []" "\<forall>e\<in>set envs. e \<noteq> []" using Cons.prems(1) by auto
  obtain e s1 where one: "madm_Admit (c (k + 1)) s (checkout (c k) env) = (e, s1)" "e = None \<or> e = Some AlreadyAdmitted"
      "live_in s1 (insert env E)"
    using checkout_admitted [OF Cons.prems(2) ne(1), of "c (k + 1)" "c k"] Cons.prems(2) by (auto simp: insert_absorb)
  obtain s' where "live_in s' (insert env E \<union> set envs)" "admit_each MemoryAdmissions c (k + 2) envs s1 rest = rest s'"
    using Cons.IH [OF ne(2) one(3)] by blast
  then show ?case using one(1,2) by (auto simp: require_def)
qed auto

lemma get_each_passes:
  "live_in s E \<Longrightarrow> set envs \<subseteq> E \<Longrightarrow> get_each MemoryAdmissions c k envs s rest = rest"
proof (induction envs arbitrary: k)
  case (Cons env envs)
  obtain r where "map_of s (admissionKey ''payments'' appCheckout env) = Some r" "live_record env r"
    using live_in_lookup [OF Cons.prems(1)] Cons.prems(2) by auto
  then show ?case
    using Cons by (simp add: returns_def require_def madm_Get_def live_record_def lapsed_def)
qed simp

lemma opaque_case: "envIsOpaque MemoryAdmissions [] c = []"
proof -
  let ?rest = "\<lambda>s. get_each MemoryAdmissions c 20 environments s (
     succeeds (ads_Revoke MemoryAdmissions (c 31) s (revoked_fixture (c 30) ''payments'' appCheckout ''UAT'')) ''revoking from UAT'' (\<lambda>s.
     returns (ads_Get MemoryAdmissions (c 32) s ''payments'' appCheckout ''uat'') ''reading back'' (\<lambda>lower.
     require (Admitted lower (c 33)) ''the store folded case'' (
     require (ads_Get MemoryAdmissions (c 34) s ''payments'' appCheckout ''prod-dr'' = Inl AdmissionNotFound)
       ''an environment nobody onboarded this app to must have no record'' []))))"
  have "\<forall>e\<in>set environments. e \<noteq> []" "live_in [] {}" by (simp_all add: environments_def live_in_def)
  then obtain s where s: "live_in s (set environments)" "admit_each MemoryAdmissions c 0 environments [] ?rest = ?rest s"
    using admit_each_passes [of environments "[]" "{}" c 0 ?rest] by auto
  have names: "''UAT'' \<in> set environments" "''uat'' \<in> set environments" "''prod-dr'' \<notin> set environments"
    by (simp_all add: environments_def)
  obtain upper lower where r: "map_of s (admissionKey ''payments'' appCheckout ''UAT'') = Some upper" "live_record ''UAT'' upper"
      "map_of s (admissionKey ''payments'' appCheckout ''uat'') = Some lower" "live_record ''uat'' lower"
    using live_in_lookup [OF s(1)] names by blast
  have key: "admissionKey ''payments'' appCheckout ''UAT'' \<noteq> admissionKey ''payments'' appCheckout ''uat''"
      "admissionKey ''payments'' appCheckout ''UAT'' \<noteq> admissionKey ''payments'' appCheckout ''prod-dr''"
    by (simp_all add: admissionKey_def)
  have valid: "adm_Validate (revoked_fixture t ''payments'' appCheckout ''UAT'') = None"
      "key_of (revoked_fixture t ''payments'' appCheckout ''UAT'') = admissionKey ''payments'' appCheckout ''UAT''" for t
    by (simp_all add: adm_Validate_None key_of_def admission_fixtures)
  have "?rest s = []"
    using r key live_in_absent [OF s(1) names(3)]
    by (simp add: get_each_passes [OF s(1)] succeeds_def returns_def require_def madm_Revoke_def madm_Get_def valid Let_def
        live_record_def Admitted_def lapsed_def)
  then show ?thesis unfolding envIsOpaque_def using s(2) by simp
qed

section \<open>Properties\<close>

text \<open>The in-memory admission store keeps the contract the repository ships as a suite. From a fresh store all eleven cases pass,
  whichever way the sixteen onboardings of the race are scheduled and whatever the clock reads short of going back
  a minute: one onboarding wins, a live admission is not overwritten, a lapsed one is not admitted, and environments are compared byte by byte.\<close>

theorem memory_admissions_pass_the_suite:
  assumes "steady_clock c" and "schedule 16 order"
  shows "all_passed (admissions_Run MemoryAdmissions [] c order)"
  using one_app_cases [of c] listing_cases [of c] attribution_case [of c] opaque_case [of c] expiry_case [OF assms(1)]
    one_admit_wins [OF assms(2), of c]
  by (simp add: all_passed_def admissions_Run_def)

theorem memory_admissions_pass_the_suite_witness:
  "all_passed (admissions_Run MemoryAdmissions [] (\<lambda>k. int k mod 7) [8, 9, 10, 11, 12, 13, 14, 15, 0, 1, 2, 3, 4, 5, 6, 7])"
proof -
  have order: "schedule 16 [8, 9, 10, 11, 12, 13, 14, 15, 0, 1, 2, 3, 4, 5, 6, 7]" by code_simp
  have clock: "steady_clock (\<lambda>k. int k mod 7)"
    unfolding steady_clock_def zero_time_def by (auto intro: order_trans [of _ 0])
  show ?thesis by (rule memory_admissions_pass_the_suite [OF clock order])
qed

text \<open>What the suite does not try: a name that contains a separator of the store's key. An application onboarded to one environment
  is admitted to another, under a name nobody onboarded.\<close>

lemma separator_in_a_name_admits_another_application:
  "\<exists>s. madm_Admit 0 [] (admitted_fixture 0 ''payments'' ''checkout@eu'' ''uat'') = (None, s) \<and>
     RequireAdmission time_text (Some MemoryAdmissions) 1 1 s ''payments'' ''checkout'' ''eu@uat'' = None"
  by (simp add: admitted_fixture_def RequireAdmission_def admission_ops Let_def)

end
