(* ===== verification/Chain_Suite.thy ===== *)
theory Chain_Suite
  imports Audit_Chain Test_Suite
begin

text \<open>
  The conformance suite of an audit chain: package \<open>chaintest\<close> of \<open>mantlekeep-control\<close>, over any chain given by its \<open>Log\<close> and
  its \<open>Verify\<close> (which answers whether the chain verifies without an error) and the fresh chain its factory builds. \<open>c k\<close> is
  the \<open>k\<close>-th reading of the clock in a case and \<open>order\<close> the schedule of the writers. The property says that the
  shipped chain passes under every schedule, whichever appends the database fails.
\<close>

definition chain_record :: "int \<Rightarrow> string \<Rightarrow> AuditRecord" where
  "chain_record t intentID =
     \<lparr>ar_Timestamp = t, ar_IntentID = intentID, ar_SubjectID = ''root'', ar_Action = ''job.run'', ar_Decision = ActionAllow,
      ar_PolicyID = ''test.rbac'', ar_IsAI = False, ar_Via = [], ar_RunID = [], ar_ParentID = [], ar_StepID = [],
      ar_PrevHash = [], ar_Hash = []\<rparr>"

definition hashSet :: "('s \<Rightarrow> AuditRecord \<Rightarrow> (string + AuditRecord) \<times> 's) \<Rightarrow> 's \<Rightarrow> (nat \<Rightarrow> int) \<Rightarrow> string list" where
  "hashSet log s0 c =
     yields (log s0 (chain_record (c 0) ''INT-1'')) ''appending'' (\<lambda>stored s.
     require (ar_Hash stored \<noteq> []) ''a stored record must carry its hash'' [])"

definition linked :: "('s \<Rightarrow> AuditRecord \<Rightarrow> (string + AuditRecord) \<times> 's) \<Rightarrow> ('s \<Rightarrow> bool) \<Rightarrow> 's \<Rightarrow> (nat \<Rightarrow> int) \<Rightarrow> string list" where
  "linked log verify s0 c =
     yields (log s0 (chain_record (c 0) ''INT-1'')) ''appending the first'' (\<lambda>first s.
     yields (log s (chain_record (c 1) ''INT-2'')) ''appending the second'' (\<lambda>second s.
     require (ar_PrevHash second = ar_Hash first) ''the second record must link the first'' (
     require (verify s) ''a chain of two honest records must verify'' [])))"

text \<open>The writers of the race: the stored record of each that was accepted, in the order of the schedule.\<close>

fun log_race ::
  "('s \<Rightarrow> AuditRecord \<Rightarrow> (string + AuditRecord) \<times> 's) \<Rightarrow> (nat \<Rightarrow> AuditRecord) \<Rightarrow> nat list \<Rightarrow> 's \<Rightarrow> (nat \<times> AuditRecord) list \<times> 's" where
  "log_race log rec [] s = ([], s)"
| "log_race log rec (n # ns) s =
     (case log s (rec n) of
        (Inl e, s1) \<Rightarrow> log_race log rec ns s1
      | (Inr stored, s1) \<Rightarrow> (let (others, s2) = log_race log rec ns s1 in ((n, stored) # others, s2)))"

text \<open>The two arrays, indexed by writer: a writer that failed left both of its cells empty.\<close>

definition writer_cells :: "(nat \<times> AuditRecord) list \<Rightarrow> nat \<Rightarrow> string \<times> string" where
  "writer_cells stored n = (case map_of stored n of None \<Rightarrow> ([], []) | Some r \<Rightarrow> (ar_Hash r, ar_PrevHash r))"

fun fork_scan :: "string list \<Rightarrow> (string \<times> string) list \<Rightarrow> string option" where
  "fork_scan seen [] = None"
| "fork_scan seen ((hash, prev) # cells) =
     (if hash = [] then fork_scan seen cells
      else if prev \<in> set seen then Some prev else fork_scan (prev # seen) cells)"

definition noFork ::
  "('s \<Rightarrow> AuditRecord \<Rightarrow> (string + AuditRecord) \<times> 's) \<Rightarrow> ('s \<Rightarrow> bool) \<Rightarrow> 's \<Rightarrow> (nat \<Rightarrow> int) \<Rightarrow> nat list \<Rightarrow> string list" where
  "noFork log verify s0 c order =
     (let (stored, s) = log_race log (\<lambda>n. chain_record (c n) (''INT-'' @ dec_nat n)) order s0
      in require (fork_scan [] (map (writer_cells stored) [0..<24]) = None) ''two records claim the same predecessor'' (
         require (verify s) ''the chain must verify after concurrent appends'' []))"

definition emptyVerifies :: "('s \<Rightarrow> bool) \<Rightarrow> 's \<Rightarrow> string list" where
  "emptyVerifies verify s0 = require (verify s0) ''an empty chain must verify'' []"

definition chain_Run ::
  "('s \<Rightarrow> AuditRecord \<Rightarrow> (string + AuditRecord) \<times> 's) \<Rightarrow> ('s \<Rightarrow> bool) \<Rightarrow> 's \<Rightarrow> (nat \<Rightarrow> int) \<Rightarrow> nat list
    \<Rightarrow> (string \<times> case_outcome) list" where
  "chain_Run log verify s0 c order =
     [(''a record comes back with its hash set'', Some (hashSet log s0 c)),
      (''each record links the one before it'', Some (linked log verify s0 c)),
      (''concurrent appends do not fork the chain'', Some (noFork log verify s0 c order)),
      (''an empty chain verifies'', Some (emptyVerifies verify s0))]"

section \<open>The shipped chain\<close>

text \<open>The chain of package \<open>audit\<close> over a database whose answer to the \<open>k\<close>-th append is \<open>db k\<close>.\<close>

definition numbered_Log ::
  "(string \<Rightarrow> string) \<Rightarrow> (int \<Rightarrow> string) \<Rightarrow> (nat \<Rightarrow> string option) \<Rightarrow> Bolt \<times> nat \<Rightarrow> AuditRecord \<Rightarrow> (string + AuditRecord) \<times> Bolt \<times> nat" where
  "numbered_Log sha fmt_time db s r = (let (x, b) = Log sha fmt_time (db (snd s)) (fst s) r in (x, b, Suc (snd s)))"

definition numbered_Verify :: "(string \<Rightarrow> string) \<Rightarrow> (int \<Rightarrow> string) \<Rightarrow> Bolt \<times> nat \<Rightarrow> bool" where
  "numbered_Verify sha fmt_time s = Verify sha fmt_time (fst s)"

lemma hash_tells_intents_apart:
  assumes "\<not> collision sha" and "ar_IntentID r \<noteq> ar_IntentID q"
  shows "hashRecord sha fmt_time r \<noteq> hashRecord sha fmt_time q"
proof
  assume "hashRecord sha fmt_time r = hashRecord sha fmt_time q"
  then have "marshal_record fmt_time (r\<lparr>ar_Hash := []\<rparr>) = marshal_record fmt_time (q\<lparr>ar_Hash := []\<rparr>)"
    using assms(1) by (auto simp: hashRecord_def collision_def)
  then have "record_members fmt_time (r\<lparr>ar_Hash := []\<rparr>) = record_members fmt_time (q\<lparr>ar_Hash := []\<rparr>)"
    by (simp add: marshal_record_def marshal_object_inject)
  then have "map_of (record_members fmt_time (r\<lparr>ar_Hash := []\<rparr>)) ''IntentID'' = map_of (record_members fmt_time (q\<lparr>ar_Hash := []\<rparr>)) ''IntentID''"
    by simp
  then show False using assms(2) by (simp add: record_members_lookup)
qed

text \<open>What the writers leave: each accepted record is linked to the one accepted before it, and is the writer's own.\<close>

lemma log_race_links:
  assumes "wf_bolt b" and "Verify sha fmt_time b" and "log_race (numbered_Log sha fmt_time db) rec ns (b, k) = (stored, b', k')"
  shows "map (ar_PrevHash \<circ> snd) stored = take (length stored) (last_hash (bolt_cells b) # map (ar_Hash \<circ> snd) stored) \<and>
    subseq (map fst stored) ns \<and> Verify sha fmt_time b' \<and>
    (\<forall>(n, r)\<in>set stored. ar_IntentID r = ar_IntentID (rec n) \<and> ar_Hash r = hashRecord sha fmt_time r)"
  using assms
proof (induction ns arbitrary: b k stored)
  case (Cons n ns)
  obtain x b1 where one: "Log sha fmt_time (db k) b (rec n) = (x, b1)" by (metis surj_pair)
  have step: "numbered_Log sha fmt_time db (b, k) (rec n) = (x, b1, Suc k)" by (simp add: numbered_Log_def one)
  have ok: "wf_bolt b1" "Verify sha fmt_time b1"
    using wf_Log [OF Cons.prems(1) one] Verify_Log [OF Cons.prems(1,2) one] by simp_all
  show ?case
  proof (cases x)
    case (Inl e)
    then have "b1 = b" using one by (auto simp: Log_def Let_def split: option.splits)
    moreover have "log_race (numbered_Log sha fmt_time db) rec ns (b1, Suc k) = (stored, b', k')"
      using Cons.prems(3) step Inl by simp
    ultimately show ?thesis using Cons.IH [OF ok] by (auto intro: list_emb_Cons)
  next
    case (Inr r)
    then have db: "db k = None" using one by (cases "db k") (auto simp: Log_def Let_def)
    obtain others where rest: "log_race (numbered_Log sha fmt_time db) rec ns (b1, Suc k) = (others, b', k')" "stored = (n, r) # others"
      using Cons.prems(3) step Inr by (auto split: prod.splits)
    have r: "ar_PrevHash r = last_hash (bolt_cells b)" "ar_IntentID r = ar_IntentID (rec n)" "ar_Hash r = hashRecord sha fmt_time r"
      using one Inr db by (auto simp: Log_def Let_def)
    have "last_hash (bolt_cells b1) = ar_Hash r"
      using Log_cells [OF Cons.prems(1) one [unfolded db]] Inr by simp
    then show ?thesis using Cons.IH [OF ok rest(1)] r by (auto simp: rest(2) take_Cons')
  qed
qed simp

lemma subseq_keeps_distinct: "subseq xs ys \<Longrightarrow> distinct ys \<Longrightarrow> distinct xs \<and> set xs \<subseteq> set ys"
  by (induction rule: list_emb.induct) auto

lemma fork_scan_None:
  "fork_scan seen cells = None \<longleftrightarrow>
     distinct (map snd (filter (\<lambda>(hash, _). hash \<noteq> []) cells)) \<and> set (map snd (filter (\<lambda>(hash, _). hash \<noteq> []) cells)) \<inter> set seen = {}"
  by (induction seen cells rule: fork_scan.induct) auto

lemma no_fork_scan:
  assumes "distinct (map (ar_PrevHash \<circ> snd) stored)"
  shows "fork_scan [] (map (writer_cells stored) [0..<n]) = None"
proof -
  have inj: "inj_on (ar_PrevHash \<circ> snd) (set stored)" using assms by (simp add: distinct_map)
  have "i = j" if "map_of stored i = Some r" "map_of stored j = Some q" "ar_PrevHash r = ar_PrevHash q" for i j r q
    using inj_onD [OF inj, of "(i, r)" "(j, q)"] map_of_SomeD [OF that(1)] map_of_SomeD [OF that(2)] that(3) by simp
  then have one: "i = j" if "fst (writer_cells stored i) \<noteq> []" "fst (writer_cells stored j) \<noteq> []"
      "snd (writer_cells stored i) = snd (writer_cells stored j)" for i j
    using that by (auto simp: writer_cells_def split: option.splits)
  have "distinct (map snd (filter (\<lambda>(hash, _). hash \<noteq> []) (map (writer_cells stored) ks)))" if "distinct ks" for ks
    using that
  proof (induction ks)
    case (Cons k ks)
    have "snd (writer_cells stored k) \<noteq> snd (writer_cells stored x)"
      if "x \<in> set ks" "fst (writer_cells stored k) \<noteq> []" "fst (writer_cells stored x) \<noteq> []" for x
      using one [of k x] that Cons.prems by auto
    then show ?case using Cons by (auto simp: case_prod_beta filter_map)
  qed simp
  then show ?thesis by (simp add: fork_scan_None)
qed

lemma shipped_chain_does_not_fork:
  assumes "\<not> collision sha" and "\<forall>x. sha x \<noteq> []" and "schedule 24 order"
  shows "noFork (numbered_Log sha fmt_time db) (numbered_Verify sha fmt_time) (Open, k) c order = []"
proof -
  let ?rec = "\<lambda>n. chain_record (c n) (''INT-'' @ dec_nat n)"
  obtain stored b' k' where race: "log_race (numbered_Log sha fmt_time db) ?rec order (Open, k) = (stored, b', k')"
    by (metis prod_cases3)
  have facts: "map (ar_PrevHash \<circ> snd) stored = take (length stored) ([] # map (ar_Hash \<circ> snd) stored)"
      "subseq (map fst stored) order" "Verify sha fmt_time b'"
      "\<forall>(n, r)\<in>set stored. ar_IntentID r = ''INT-'' @ dec_nat n \<and> ar_Hash r = hashRecord sha fmt_time r"
    using log_race_links [OF wf_Open _ race] by (auto simp: Verify_def Open_def last_hash_def chain_record_def)
  have writers: "distinct (map fst stored)"
    using subseq_keeps_distinct [OF facts(2)] assms(3) by (simp add: schedule_def)
  have "inj_on (ar_Hash \<circ> snd) (set stored)"
  proof (rule inj_onI)
    fix x y assume "x \<in> set stored" "y \<in> set stored" "(ar_Hash \<circ> snd) x = (ar_Hash \<circ> snd) y"
    moreover obtain i r j q where xy: "x = (i, r)" "y = (j, q)" by (cases x; cases y)
    ultimately have mem: "(i, r) \<in> set stored" "(j, q) \<in> set stored" and h: "ar_Hash r = ar_Hash q" by auto
    have "ar_IntentID r = ar_IntentID q"
      using hash_tells_intents_apart [OF assms(1), of r q fmt_time] bspec [OF facts(4) mem(1)] bspec [OF facts(4) mem(2)] h by auto
    then have "fst x = fst y" using bspec [OF facts(4) mem(1)] bspec [OF facts(4) mem(2)] xy by auto
    then show "x = y" using writers mem xy inj_onD [of fst "set stored" x y] by (simp add: distinct_map)
  qed
  moreover have "distinct stored" using writers by (simp add: distinct_map)
  moreover have "[] \<notin> (ar_Hash \<circ> snd) ` set stored"
  proof
    assume "[] \<in> (ar_Hash \<circ> snd) ` set stored"
    then obtain n r where "(n, r) \<in> set stored" "ar_Hash r = []" by auto
    then have "hashRecord sha fmt_time r = []" using facts(4) by auto
    then show False using assms(2) by (simp add: hashRecord_def)
  qed
  ultimately have "distinct ([] # map (ar_Hash \<circ> snd) stored)" by (simp add: distinct_map)
  then have "distinct (map (ar_PrevHash \<circ> snd) stored)" unfolding facts(1) by (rule distinct_take)
  then show ?thesis using facts(3) unfolding noFork_def race by (simp add: no_fork_scan numbered_Verify_def)
qed

section \<open>Properties\<close>

text \<open>C20: the shipped chain keeps the contract the repository ships as a suite. With a digest that is never empty and that nobody
  has a collision of, twenty-four concurrent writers never make two records claim one predecessor and the chain verifies,
  in every order in which they are served and whichever of them the database fails; with a database that fails none, all
  four cases pass.\<close>

theorem shipped_chain_passes_the_suite:
  assumes "\<not> collision sha" and "\<forall>x. sha x \<noteq> []" and "schedule 24 order"
  shows "noFork (numbered_Log sha fmt_time db) (numbered_Verify sha fmt_time) (Open, 0) c order = [] \<and>
    ((\<forall>k. db k = None) \<longrightarrow>
       all_passed (chain_Run (numbered_Log sha fmt_time db) (numbered_Verify sha fmt_time) (Open, 0) c order))"
proof -
  note race = shipped_chain_does_not_fork [OF assms, of fmt_time db 0 c]
  have one: "hashRecord sha fmt_time r \<noteq> []" for r using assms(2) by (simp add: hashRecord_def)
  have "all_passed (chain_Run (numbered_Log sha fmt_time db) (numbered_Verify sha fmt_time) (Open, 0) c order)"
    if "\<forall>k. db k = None"
    using that race one
    by (simp add: all_passed_def chain_Run_def hashSet_def linked_def emptyVerifies_def numbered_Log_def numbered_Verify_def
        Log_def Open_def Verify_def last_hash_def Let_def)
  then show ?thesis using race by blast
qed

theorem shipped_chain_passes_the_suite_witness:
  "all_passed (chain_Run (numbered_Log (\<lambda>x. CHR ''h'' # x) (\<lambda>_. []) (\<lambda>_. None)) (numbered_Verify (\<lambda>x. CHR ''h'' # x) (\<lambda>_. []))
     (Open, 0) int (rev [0..<24]))"
proof -
  have "\<not> collision (\<lambda>x. CHR ''h'' # x)" "schedule 24 (rev [0..<24])" by (auto simp: collision_def schedule_def)
  then show ?thesis using shipped_chain_passes_the_suite [of "\<lambda>x. CHR ''h'' # x" "rev [0..<24]" "\<lambda>_. []" "\<lambda>_. None" int] by simp
qed

end
