(* ===== verification/Estate_Door.thy ===== *)
theory Estate_Door
  imports Governing Door
begin

text \<open>
  The two halves together: the manager of \<open>mantlekeep-estate\<close> wired to the assembled door of \<open>mantlekeep-control\<close> in the
  same process, as \<open>Options.Door\<close> of \<open>serve/serve.go\<close> allows. The door's part of the world is the engine behind its
  failsafe and the audit log; the rest of the world gives the clock, the random token values and the database's errors.
\<close>

type_synonym 'y estate_world = "approval_map \<times> (RBAC Failsafe \<times> Bolt) \<times> 'y"

record 'y surroundings =
  su_db_err :: "'y \<Rightarrow> string option"
  su_now :: "'y \<Rightarrow> int"
  su_random :: "'y \<Rightarrow> string"

definition inprocess_door ::
  "(string \<Rightarrow> string) \<Rightarrow> (int \<Rightarrow> string) \<Rightarrow> Gateway \<Rightarrow> 'f engine_env \<Rightarrow> 'y surroundings \<Rightarrow> Intent \<Rightarrow> 'y estate_world
    \<Rightarrow> (door_error + ExecutionToken) \<times> 'y estate_world" where
  "inprocess_door sha fmt_time g env su intent w =
     (let (s, st, y) = w;
          (answer, st') = door_submit sha fmt_time g env st
            \<lparr>sm_intent = intent, sm_db_err = su_db_err su y, sm_logged_at = su_now su y, sm_now = su_now su y,
             sm_random = su_random su y\<rparr>
      in (answer, s, st', y))"

section \<open>What the engine's allow means\<close>

lemma estate_apply_is_a_write: "\<not> isRead ''estate.apply''"
  by code_simp

lemma door_policy_allows:
  assumes "door_policy env f i = (Inr d, f')" and "dec_Action d = ActionAllow" and "pint_Action (pin_Intent i) = ''estate.apply''"
  shows "\<exists>r. d = fst (Evaluate env r i)"
proof (cases "fs_tripped f")
  case True
  then show ?thesis
    using door_policy_tripped [OF True assms(1)] assms(2,3) estate_apply_is_a_write by (simp add: readOnly_action)
next
  case False
  then show ?thesis using door_policy_healthy [OF False assms(1)] by blast
qed

lemma Submit_refuses:
  assumes "Submit resolve evaluate logger logged_at now random st intent = (Inl err, st')"
  shows "find_Refused err = None" and "error_text err \<noteq> []"
  using assms by (auto simp: Submit_def Let_def split: if_splits sum.splits prod.splits)

lemma inprocess_answer:
  assumes "inprocess_door sha fmt_time g env su intent (s, (p, b), y) = (answer, w')"
  obtains p' b' where "Submit (gateway_Resolve g) (door_policy env) (Log sha fmt_time (su_db_err su y)) (su_now su y) (su_now su y)
      (su_random su y) (p, b) intent = (answer, p', b')" "w' = (s, (p', b'), y)"
  using assms by (auto simp: inprocess_door_def door_submit_def Let_def split: prod.splits)

section \<open>Properties\<close>

text \<open>The deployment's floor rules ask for a second person for every change behind one of the gates \<open>G\<close>.\<close>

definition gate_ruled :: "Gate set \<Rightarrow> 'f engine_env \<Rightarrow> bool" where
  "gate_ruled G env \<longleftrightarrow>
     (\<forall>gate\<in>G. \<exists>rule\<in>set (entries (sn_floors (env_policy env)) ''estate.apply'').
        fr_Kind rule = ''require_approval_when'' \<and> fr_WhenParam rule = ''gate'' \<and> fr_WhenValue rule = gate)"

lemma param_string_Some: "param_string p key = v \<Longrightarrow> v \<noteq> [] \<Longrightarrow> map_of p key = Some (AStr v)"
  by (auto simp: param_string_def split: option.splits anyval.splits)

lemma submit_withholds:
  assumes "gate_ruled G env" and "[] \<notin> G"
    and sub: "Submit (gateway_Resolve g) (door_policy env) logger t now random (p, b) intent = (Inr token, p', b')"
    and a: "int_Action intent = ''estate.apply''" and gate: "param_string (int_Params intent) ''gate'' \<in> G"
  shows "param_string (int_Params intent) ''requester'' \<noteq> [] \<and>
    param_string (int_Params intent) ''requester'' \<noteq> sub_ID (int_Subject intent)"
proof -
  obtain subject dec p1 where r: "gateway_Resolve g \<lparr>ext_ID = sub_ID (int_Subject intent),
      ext_Groups = sub_ADGroups (int_Subject intent), ext_Attrs = []\<rparr> = Inr subject"
    and e: "door_policy env p (submit_input subject intent) = (Inr dec, p1)" "dec_Action dec = ActionAllow"
    by (rule Submit_allows [OF sub])
  let ?i = "submit_input subject intent"
  have fields: "pint_Action (pin_Intent ?i) = ''estate.apply''" "pint_Params (pin_Intent ?i) = int_Params intent"
    "pint_Requester (pin_Intent ?i) = param_string (int_Params intent) ''requester''"
    "psub_ID (pin_Subject ?i) = sub_ID (int_Subject intent)"
    using a gateway_Resolve_Inr [OF r] by (simp_all add: submit_input_def param_string_def)
  obtain r where "dec = fst (Evaluate env r ?i)" using door_policy_allows [OF e fields(1)] by blast
  then have allowed: "dec_Action (fst (Evaluate env r ?i)) = ActionAllow" using e(2) by simp
  obtain rule where rule: "rule \<in> set (entries (sn_floors (env_policy env)) ''estate.apply'')"
    "fr_Kind rule = ''require_approval_when''" "fr_WhenParam rule = ''gate''"
    "fr_WhenValue rule = param_string (int_Params intent) ''gate''"
    using assms(1) gate unfolding gate_ruled_def by blast
  have "map_of (int_Params intent) ''gate'' = Some (AStr (param_string (int_Params intent) ''gate''))"
    by (rule param_string_Some [OF refl]) (use gate assms(2) in auto)
  then have "floorWhenMatches (int_Params intent) (fr_WhenParam rule) (fr_WhenValue rule)"
    using rule(3,4) by (simp add: floorWhenMatches_def)
  then show ?thesis
    using Evaluate_allows(1) [OF allowed] rule(1,2) unfolding approvalGate_def gate_walk_None fields by blast
qed

text \<open>C19: the shipped door does what the estate relies on. Under floor rules that ask for a second person behind the gates
  \<open>G\<close>, the control plane's door, with its failsafe tripped or not, never lets an \<open>estate.apply\<close> behind such a gate pass
  unless the intent names a requester and the submitting identity is somebody else; and no refusal of it is silent.\<close>

theorem shipped_door_withholds_gated_changes:
  assumes "gate_ruled G env" and "[] \<notin> G"
  shows "withholds G (inprocess_door sha fmt_time g env su) \<and> speaks (inprocess_door sha fmt_time g env su)"
proof -
  have "param_string (int_Params intent) ''requester'' \<noteq> [] \<and>
      param_string (int_Params intent) ''requester'' \<noteq> sub_ID (int_Subject intent)"
    if d: "inprocess_door sha fmt_time g env su intent w = (Inr token, w')" and a: "int_Action intent = ''estate.apply''"
      and gate: "param_string (int_Params intent) ''gate'' \<in> G" for intent w token w'
  proof -
    obtain s p b y where w: "w = (s, (p, b), y)" by (metis surj_pair)
    show ?thesis
      by (rule inprocess_answer [OF d [unfolded w]]) (rule submit_withholds [OF assms _ a gate])
  qed
  moreover have "error_text err \<noteq> []" if d: "inprocess_door sha fmt_time g env su intent w = (Inl err, w')" for intent w err w'
  proof -
    obtain s p b y where w: "w = (s, (p, b), y)" by (metis surj_pair)
    show ?thesis by (rule inprocess_answer [OF d [unfolded w]]) (rule Submit_refuses(2))
  qed
  ultimately show ?thesis unfolding withholds_def speaks_def by blast
qed

definition estate_env :: "nat engine_env" where
  "estate_env = sample_env\<lparr>env_policy := sample_snapshot\<lparr>sn_floors := [(''estate.apply'',
     [(sample_rule ''a second person'')\<lparr>fr_Kind := ''require_approval_when'', fr_WhenParam := ''gate'', fr_WhenValue := GatePlatform\<rparr>])]\<rparr>\<rparr>"

theorem shipped_door_withholds_gated_changes_witness:
  "withholds {GatePlatform} (inprocess_door (\<lambda>s. s) (\<lambda>t. []) sample_gateway estate_env
     \<lparr>su_db_err = (\<lambda>y. None), su_now = (\<lambda>y. 7), su_random = (\<lambda>y. ''r'')\<rparr>)"
proof -
  have r: "gate_ruled {GatePlatform} estate_env" by (simp add: gate_ruled_def estate_env_def)
  have n: "[] \<notin> {GatePlatform}" by (simp add: GatePlatform_def)
  from shipped_door_withholds_gated_changes [OF r n] show ?thesis by blast
qed

text \<open>Wired to the door in its own process, the manager never records a change for approval. The door reports a change
  that awaits a person as a decision, and the manager opens an approval only for the refusal type of the remote client;
  so a refused change carries no approval, whatever the door decided, and the calls it makes open none.\<close>

theorem inprocess_refusal_opens_no_approval:
  "\<exists>seg. fst (snd (applyOne (m\<lparr>wi_door := inprocess_door sha fmt_time g env su\<rparr>) who team c fl (tr, w))) = tr @ seg \<and>
     rs_Approval (fst (applyOne (m\<lparr>wi_door := inprocess_door sha fmt_time g env su\<rparr>) who team c fl (tr, w))) = [] \<and>
     list_all (\<lambda>x. case x of Opened a e \<Rightarrow> False | _ \<Rightarrow> True) seg"
proof -
  let ?m = "m\<lparr>wi_door := inprocess_door sha fmt_time g env su\<rparr>"
  obtain r tr' w' where a: "applyOne ?m who team c fl (tr, w) = (r, tr', w')" using prod_cases3 by blast
  have none: "find_Refused err = None" if d: "inprocess_door sha fmt_time g env su intent v = (Inl err, v')" for intent v err v'
  proof -
    obtain s p b y where v: "v = (s, (p, b), y)" by (metis surj_pair)
    show ?thesis by (rule inprocess_answer [OF d [unfolded v]]) (rule Submit_refuses(1))
  qed
  show ?thesis
    using a
  proof (cases rule: applyOne_cases)
    case no_adapter
    then show ?thesis by (simp add: a)
  next
    case (refused err seg w1)
    have "inprocess_door sha fmt_time g env su (intentFor ?m w who team c (fl_Revision fl)) w = (Inl err, w1)"
      using refused(9) by simp
    then have n: "find_Refused err = None" by (rule none)
    with refused(8) have "rs_Approval r = []" by auto
    moreover have "list_all (\<lambda>x. case x of Opened a e \<Rightarrow> False | _ \<Rightarrow> True) seg"
      using refused(2)
    proof (cases rule: change_calls.cases)
      case (opened a err' r' e)
      then show ?thesis using refused(3) n by simp
    qed simp_all
    ultimately show ?thesis using refused(1) a by simp
  next
    case (executed token e w1)
    then show ?thesis by (simp add: a)
  qed
qed

end
