(* ===== verification/Dag_Order.thy ===== *)
theory Dag_Order
  imports Contracts Grants "HOL-Library.Multiset"
begin

text \<open>
  Ordering a workflow: \<open>orchestrator/dag.go\<close>. \<open>Layers\<close> is Kahn's algorithm one frontier at a time, on the graph
  record the source builds. Reading a missing key of a map of integers gives zero (\<open>waiting\<close>).

  The lemmas show that a successful result is a topological layering that contains every step once, and that
  failure means exactly a duplicated name, an unknown dependency or a cycle.
\<close>

record dependencyGraph =
  dg_byName :: "Step gomap"
  dg_waitingOn :: "int gomap"
  dg_unblocks :: "string list gomap"

datatype dag_error =
    DuplicateStep string
  | UnknownDependency string string \<comment> \<open>step, dependency\<close>
  | WorkflowCycle int \<comment> \<open>steps that cannot be ordered\<close>

definition waiting :: "dependencyGraph \<Rightarrow> string \<Rightarrow> int" where
  "waiting g name = (case map_of (dg_waitingOn g) name of Some n \<Rightarrow> n | None \<Rightarrow> 0)"

definition set_waiting :: "dependencyGraph \<Rightarrow> string \<Rightarrow> int \<Rightarrow> dependencyGraph" where
  "set_waiting g name n = g\<lparr>dg_waitingOn := gset (dg_waitingOn g) name n\<rparr>"

fun index_steps :: "dependencyGraph \<Rightarrow> Step list \<Rightarrow> dag_error + dependencyGraph" where
  "index_steps g [] = Inr g"
| "index_steps g (s # ss) =
     (if map_of (dg_byName g) (step_Name s) \<noteq> None then Inl (DuplicateStep (step_Name s))
      else index_steps (set_waiting (g\<lparr>dg_byName := gset (dg_byName g) (step_Name s) s\<rparr>) (step_Name s) 0) ss)"

fun link_deps :: "dependencyGraph \<Rightarrow> string \<Rightarrow> string list \<Rightarrow> dag_error + dependencyGraph" where
  "link_deps g name [] = Inr g"
| "link_deps g name (dep # deps) =
     (if map_of (dg_byName g) dep = None then Inl (UnknownDependency name dep)
      else (let g' = set_waiting g name (waiting g name + 1)
            in link_deps (g'\<lparr>dg_unblocks := gset (dg_unblocks g') dep (entries (dg_unblocks g') dep @ [name])\<rparr>) name deps))"

fun link_steps :: "dependencyGraph \<Rightarrow> Step list \<Rightarrow> dag_error + dependencyGraph" where
  "link_steps g [] = Inr g"
| "link_steps g (s # ss) =
     (case link_deps g (step_Name s) (step_DependsOn s) of Inl e \<Rightarrow> Inl e | Inr g' \<Rightarrow> link_steps g' ss)"

definition newDependencyGraph :: "DAG \<Rightarrow> dag_error + dependencyGraph" where
  "newDependencyGraph dag =
     (case index_steps \<lparr>dg_byName = [], dg_waitingOn = [], dg_unblocks = []\<rparr> (dag_Steps dag) of
        Inl e \<Rightarrow> Inl e
      | Inr g \<Rightarrow> link_steps g (dag_Steps dag))"

definition readyNow :: "dependencyGraph \<Rightarrow> Step list \<Rightarrow> string list" where
  "readyNow g steps = map step_Name (filter (\<lambda>s. waiting g (step_Name s) = 0) steps)"

definition zero_Step :: Step where
  "zero_Step = \<lparr>step_Name = [], step_DependsOn = [], step_Runtime = [], step_Image = [], step_Memory = [],
     step_Command = [], step_Compensation = []\<rparr>"

definition step_named :: "dependencyGraph \<Rightarrow> string \<Rightarrow> Step" where
  "step_named g name = (case map_of (dg_byName g) name of Some s \<Rightarrow> s | None \<Rightarrow> zero_Step)"

definition mark_consumed :: "dependencyGraph \<Rightarrow> string list \<Rightarrow> dependencyGraph" where
  "mark_consumed g frontier = foldl (\<lambda>g name. set_waiting g name (- 1)) g frontier"

definition release :: "dependencyGraph \<Rightarrow> string list \<Rightarrow> dependencyGraph" where
  "release g dependants =
     foldl (\<lambda>g d. if 0 < waiting g d then set_waiting g d (waiting g d - 1) else g) g dependants"

definition consume :: "dependencyGraph \<Rightarrow> string list \<Rightarrow> Step list \<times> dependencyGraph" where
  "consume g frontier =
     (map (step_named g) frontier,
      foldl (\<lambda>g name. release g (entries (dg_unblocks g) name)) (mark_consumed g frontier) frontier)"

function layers_loop :: "dependencyGraph \<Rightarrow> Step list \<Rightarrow> int \<Rightarrow> Step list list \<Rightarrow> dag_error + Step list list" where
  "layers_loop g steps remaining levels =
     (if 0 < remaining
      then (let frontier = readyNow g steps
            in if frontier = [] then Inl (WorkflowCycle remaining)
               else (let (level, g') = consume g frontier
                     in layers_loop g' steps (remaining - int (length frontier)) (levels @ [level])))
      else Inr levels)"
  by pat_completeness auto

termination
  by (relation "measure (\<lambda>(g, steps, remaining, levels). nat remaining)") (auto simp: nat_mono_iff)

declare layers_loop.simps [simp del]

definition Layers :: "DAG \<Rightarrow> dag_error + Step list list" where
  "Layers dag =
     (case newDependencyGraph dag of
        Inl e \<Rightarrow> Inl e
      | Inr g \<Rightarrow> layers_loop g (dag_Steps dag) (int (length (dag_Steps dag))) [])"

section \<open>Building the graph\<close>

abbreviation names :: "Step list \<Rightarrow> string list" where
  "names ss \<equiv> map step_Name ss"

lemma waiting_set [simp]: "waiting (set_waiting g n v) m = (if m = n then v else waiting g m)"
  by (simp add: waiting_def set_waiting_def)

lemma set_waiting_frame [simp]:
  "dg_byName (set_waiting g n v) = dg_byName g" "dg_unblocks (set_waiting g n v) = dg_unblocks g"
  by (simp_all add: set_waiting_def)

lemma waiting_frame [simp]:
  "waiting (g\<lparr>dg_byName := b\<rparr>) n = waiting g n" "waiting (g\<lparr>dg_unblocks := u\<rparr>) n = waiting g n"
  by (simp_all add: waiting_def)

lemma index_steps_Inr:
  assumes "index_steps g ss = Inr g'"
  shows "distinct (names ss) \<and> (\<forall>s\<in>set ss. map_of (dg_byName g) (step_Name s) = None) \<and>
    (\<forall>n. map_of (dg_byName g') n = (if n \<in> set (names ss) then map_of (zip (names ss) ss) n else map_of (dg_byName g) n)) \<and>
    (\<forall>n. waiting g' n = (if n \<in> set (names ss) then 0 else waiting g n)) \<and> dg_unblocks g' = dg_unblocks g"
  using assms
proof (induction g ss rule: index_steps.induct)
  case (2 g s ss)
  let ?g = "set_waiting (g\<lparr>dg_byName := gset (dg_byName g) (step_Name s) s\<rparr>) (step_Name s) 0"
  from "2.prems" have fresh: "map_of (dg_byName g) (step_Name s) = None" and rest: "index_steps ?g ss = Inr g'"
    by (auto split: if_splits)
  from "2.IH" fresh rest have
    ih: "distinct (names ss)" "\<forall>s'\<in>set ss. map_of (dg_byName ?g) (step_Name s') = None"
      "\<forall>n. map_of (dg_byName g') n = (if n \<in> set (names ss) then map_of (zip (names ss) ss) n else map_of (dg_byName ?g) n)"
      "\<forall>n. waiting g' n = (if n \<in> set (names ss) then 0 else waiting ?g n)" "dg_unblocks g' = dg_unblocks ?g"
    by blast+
  have ne: "step_Name s' \<noteq> step_Name s" "map_of (dg_byName g) (step_Name s') = None" if "s' \<in> set ss" for s'
    using ih(2) that by (auto split: if_splits)
  have "step_Name s \<notin> set (names ss)"
  proof
    assume "step_Name s \<in> set (names ss)"
    then obtain s' where "s' \<in> set ss" "step_Name s' = step_Name s" by auto
    with ne(1) show False by blast
  qed
  with ih ne fresh show ?case by auto
qed simp

lemma index_steps_Inl:
  "(\<exists>e. index_steps g ss = Inl e) \<longleftrightarrow>
     \<not> distinct (names ss) \<or> (\<exists>s\<in>set ss. map_of (dg_byName g) (step_Name s) \<noteq> None)"
proof (induction g ss rule: index_steps.induct)
  case (2 g s ss)
  show ?case
  proof (cases "map_of (dg_byName g) (step_Name s)")
    case None
    let ?g = "set_waiting (g\<lparr>dg_byName := gset (dg_byName g) (step_Name s) s\<rparr>) (step_Name s) 0"
    have "(\<exists>s'\<in>set ss. map_of (dg_byName ?g) (step_Name s') \<noteq> None) \<longleftrightarrow>
        step_Name s \<in> set (names ss) \<or> (\<exists>s'\<in>set ss. map_of (dg_byName g) (step_Name s') \<noteq> None)"
      by (simp add: image_iff del: not_None_eq) metis
    moreover have "(\<exists>e. index_steps g (s # ss) = Inl e) \<longleftrightarrow> (\<exists>e. index_steps ?g ss = Inl e)"
      using None by simp
    moreover have "(\<exists>e. index_steps ?g ss = Inl e) \<longleftrightarrow>
        \<not> distinct (names ss) \<or> (\<exists>s'\<in>set ss. map_of (dg_byName ?g) (step_Name s') \<noteq> None)"
      using "2.IH" None by blast
    ultimately show ?thesis using None by auto
  qed auto
qed simp

lemma link_deps_Inr:
  "link_deps g name deps = Inr g' \<Longrightarrow>
     dg_byName g' = dg_byName g \<and> (\<forall>d\<in>set deps. map_of (dg_byName g) d \<noteq> None) \<and>
     (\<forall>n. waiting g' n = waiting g n + (if n = name then int (length deps) else 0)) \<and>
     (\<forall>d n. count_list (entries (dg_unblocks g') d) n
            = count_list (entries (dg_unblocks g) d) n + (if n = name then count_list deps d else 0))"
proof (induction g name deps rule: link_deps.induct)
  case (2 g name dep deps)
  let ?g = "set_waiting g name (waiting g name + 1)"
  let ?h = "?g\<lparr>dg_unblocks := gset (dg_unblocks ?g) dep (entries (dg_unblocks ?g) dep @ [name])\<rparr>"
  from "2.prems" have known: "map_of (dg_byName g) dep \<noteq> None" and rest: "link_deps ?h name deps = Inr g'"
    by (auto simp: Let_def split: if_splits)
  from "2.IH" [OF known refl rest] known show ?case by auto
qed simp

lemma link_deps_Inl:
  "(\<exists>e. link_deps g name deps = Inl e) \<longleftrightarrow> (\<exists>d\<in>set deps. map_of (dg_byName g) d = None)"
proof (induction g name deps rule: link_deps.induct)
  case (2 g name dep deps)
  show ?case
  proof (cases "map_of (dg_byName g) dep")
    case (Some s)
    with "2.IH" show ?thesis by (auto simp: Let_def)
  qed simp
qed simp

lemma link_steps_Inr:
  "link_steps g ss = Inr g' \<Longrightarrow>
     dg_byName g' = dg_byName g \<and> (\<forall>s\<in>set ss. \<forall>d\<in>set (step_DependsOn s). map_of (dg_byName g) d \<noteq> None) \<and>
     (\<forall>n. waiting g' n = waiting g n + (\<Sum>s\<leftarrow>ss. if step_Name s = n then int (length (step_DependsOn s)) else 0)) \<and>
     (\<forall>d n. count_list (entries (dg_unblocks g') d) n
        = count_list (entries (dg_unblocks g) d) n + (\<Sum>s\<leftarrow>ss. if step_Name s = n then count_list (step_DependsOn s) d else 0))"
proof (induction g ss rule: link_steps.induct)
  case (2 g s ss)
  obtain h where h: "link_deps g (step_Name s) (step_DependsOn s) = Inr h"
    using "2.prems" by (cases "link_deps g (step_Name s) (step_DependsOn s)") simp_all
  with "2.prems" have rest: "link_steps h ss = Inr g'" by simp
  note ih = "2.IH" [OF h rest] and one = link_deps_Inr [OF h]
  show ?case
  proof (intro conjI allI)
    show "dg_byName g' = dg_byName g" using ih one by simp
    show "\<forall>x\<in>set (s # ss). \<forall>d\<in>set (step_DependsOn x). map_of (dg_byName g) d \<noteq> None"
      using ih one by simp
    show "waiting g' n = waiting g n
        + (\<Sum>x\<leftarrow>s # ss. if step_Name x = n then int (length (step_DependsOn x)) else 0)" for n
      using ih one by simp
    show "count_list (entries (dg_unblocks g') d) n = count_list (entries (dg_unblocks g) d) n
        + (\<Sum>x\<leftarrow>s # ss. if step_Name x = n then count_list (step_DependsOn x) d else 0)" for d n
      using ih one by simp
  qed
qed simp

lemma link_steps_Inl:
  "(\<exists>e. link_steps g ss = Inl e) \<longleftrightarrow> (\<exists>s\<in>set ss. \<exists>d\<in>set (step_DependsOn s). map_of (dg_byName g) d = None)"
proof (induction g ss rule: link_steps.induct)
  case (2 g s ss)
  show ?case
  proof (cases "link_deps g (step_Name s) (step_DependsOn s)")
    case (Inl e)
    then show ?thesis using link_deps_Inl [of g "step_Name s" "step_DependsOn s"] by auto
  next
    case (Inr h)
    then have "\<not> (\<exists>d\<in>set (step_DependsOn s). map_of (dg_byName g) d = None)"
      using link_deps_Inl [of g "step_Name s" "step_DependsOn s"] by auto
    moreover have "dg_byName h = dg_byName g" using link_deps_Inr [OF Inr] by blast
    ultimately show ?thesis using "2.IH" [OF Inr] Inr by auto
  qed
qed simp

lemma sum_by_name:
  fixes f :: "Step \<Rightarrow> 'a::comm_monoid_add"
  assumes "distinct (names ss)" and "s \<in> set ss"
  shows "(\<Sum>x\<leftarrow>ss. if step_Name x = step_Name s then f x else 0) = f s"
  using assms
proof (induction ss)
  case (Cons y ss)
  have none: "(\<Sum>x\<leftarrow>xs. if step_Name x = n then f x else 0) = 0" if "n \<notin> set (names xs)" for xs n
    using that by (induction xs) auto
  show ?case
  proof (cases "s = y")
    case True
    with Cons.prems none [of "step_Name y" ss] show ?thesis by simp
  next
    case False
    with Cons.prems have "s \<in> set ss" "step_Name y \<noteq> step_Name s" by auto
    with Cons show ?thesis by simp
  qed
qed simp

lemma map_of_zip_names: "distinct (names ss) \<Longrightarrow> s \<in> set ss \<Longrightarrow> map_of (zip (names ss) ss) (step_Name s) = Some s"
  by (rule map_of_is_SomeI) (simp_all add: map_fst_zip, metis (no_types) in_set_conv_nth in_set_zip length_map nth_map fst_conv snd_conv)

text \<open>\<open>tracks steps C g\<close>: with the steps named in \<open>C\<close> consumed, every other step waits on exactly its unconsumed
  dependencies, counted with multiplicity.\<close>

definition tracks :: "Step list \<Rightarrow> string set \<Rightarrow> dependencyGraph \<Rightarrow> bool" where
  "tracks steps C g \<longleftrightarrow> (\<forall>s\<in>set steps.
     map_of (dg_byName g) (step_Name s) = Some s \<and>
     waiting g (step_Name s) =
       (if step_Name s \<in> C then - 1 else int (length (filter (\<lambda>d. d \<notin> C) (step_DependsOn s)))) \<and>
     (\<forall>d. count_list (entries (dg_unblocks g) d) (step_Name s) = count_list (step_DependsOn s) d))"

definition known_deps :: "Step list \<Rightarrow> bool" where
  "known_deps steps \<longleftrightarrow> (\<forall>s\<in>set steps. set (step_DependsOn s) \<subseteq> set (names steps))"

abbreviation empty_graph :: dependencyGraph where
  "empty_graph \<equiv> \<lparr>dg_byName = [], dg_waitingOn = [], dg_unblocks = []\<rparr>"

lemma index_steps_known:
  assumes "index_steps empty_graph steps = Inr g"
  shows "map_of (dg_byName g) d = None \<longleftrightarrow> d \<notin> set (names steps)"
proof -
  note i = index_steps_Inr [OF assms]
  have "d \<in> set (names steps) \<Longrightarrow> map_of (zip (names steps) steps) d \<noteq> None"
    by (simp add: map_of_zip_is_None)
  with i show ?thesis by auto
qed

lemma newDependencyGraph_Inr:
  assumes "newDependencyGraph dag = Inr g"
  shows "distinct (names (dag_Steps dag)) \<and> known_deps (dag_Steps dag) \<and> tracks (dag_Steps dag) {} g"
proof -
  obtain h where h: "index_steps empty_graph (dag_Steps dag) = Inr h" and l: "link_steps h (dag_Steps dag) = Inr g"
    using assms by (auto simp: newDependencyGraph_def split: sum.splits)
  note i = index_steps_Inr [OF h] and k = link_steps_Inr [OF l]
  have d: "distinct (names (dag_Steps dag))" using i by blast
  have "known_deps (dag_Steps dag)"
    using k index_steps_known [OF h] by (auto simp: known_deps_def)
  moreover have "tracks (dag_Steps dag) {} g"
    unfolding tracks_def
  proof (intro ballI conjI allI)
    fix s assume s: "s \<in> set (dag_Steps dag)"
    show "map_of (dg_byName g) (step_Name s) = Some s"
      using i k s map_of_zip_names [OF d s] by simp
    have "waiting h (step_Name s) = 0" using i s by simp
    then show "waiting g (step_Name s) = (if step_Name s \<in> {} then - 1
        else int (length (filter (\<lambda>d. d \<notin> {}) (step_DependsOn s))))"
      using k sum_by_name [OF d s, of "\<lambda>x. int (length (step_DependsOn x))"] by simp
    show "count_list (entries (dg_unblocks g) n) (step_Name s) = count_list (step_DependsOn s) n" for n
      using i k sum_by_name [OF d s, of "\<lambda>x. count_list (step_DependsOn x) n"] by simp
  qed
  ultimately show ?thesis using d by blast
qed

lemma newDependencyGraph_Inl:
  "(\<exists>e. newDependencyGraph dag = Inl e) \<longleftrightarrow> \<not> distinct (names (dag_Steps dag)) \<or> \<not> known_deps (dag_Steps dag)"
proof (cases "index_steps empty_graph (dag_Steps dag)")
  case (Inl e)
  then show ?thesis using index_steps_Inl [of empty_graph "dag_Steps dag"] by (auto simp: newDependencyGraph_def)
next
  case (Inr h)
  then have "distinct (names (dag_Steps dag))" using index_steps_Inr by blast
  with Inr show ?thesis
    using link_steps_Inl [of h "dag_Steps dag"] index_steps_known [OF Inr]
    by (auto simp: newDependencyGraph_def known_deps_def)
qed

section \<open>Consuming a frontier\<close>

lemma mark_consumed_frame [simp]:
  "dg_byName (mark_consumed g ns) = dg_byName g" "dg_unblocks (mark_consumed g ns) = dg_unblocks g"
  by (induction ns arbitrary: g) (simp_all add: mark_consumed_def)

lemma waiting_mark_consumed: "waiting (mark_consumed g ns) n = (if n \<in> set ns then - 1 else waiting g n)"
  by (induction ns arbitrary: g) (simp_all add: mark_consumed_def)

lemma release_Cons:
  "release g (d # ds) = release (if 0 < waiting g d then set_waiting g d (waiting g d - 1) else g) ds"
  by (simp add: release_def)

lemma release_frame [simp]: "dg_byName (release g ds) = dg_byName g" "dg_unblocks (release g ds) = dg_unblocks g"
  by (induction ds arbitrary: g) (simp_all add: release_Cons, simp_all add: release_def)

lemma waiting_release:
  "waiting (release g ds) n =
     (if waiting g n \<le> 0 then waiting g n else max 0 (waiting g n - int (count_list ds n)))"
proof (induction ds arbitrary: g)
  case Nil
  then show ?case by (simp add: release_def)
next
  case (Cons d ds)
  show ?case unfolding release_Cons Cons.IH by auto
qed

lemma waiting_release_all:
  "waiting (foldl (\<lambda>g name. release g (entries (dg_unblocks g) name)) g ns) n =
     (if waiting g n \<le> 0 then waiting g n
      else max 0 (waiting g n - int (\<Sum>m\<leftarrow>ns. count_list (entries (dg_unblocks g) m) n)))"
proof (induction ns arbitrary: g)
  case (Cons m ns)
  then show ?case by (auto simp: waiting_release)
qed simp

lemma release_all_frame:
  "dg_byName (foldl (\<lambda>g name. release g (entries (dg_unblocks g) name)) g ns) = dg_byName g \<and>
   dg_unblocks (foldl (\<lambda>g name. release g (entries (dg_unblocks g) name)) g ns) = dg_unblocks g"
  by (induction ns arbitrary: g) simp_all

lemma sum_count_list: "distinct ns \<Longrightarrow> (\<Sum>m\<leftarrow>ns. count_list ds m) = length (filter (\<lambda>d. d \<in> set ns) ds)"
proof (induction ds)
  case (Cons d ds)
  have "(\<Sum>m\<leftarrow>ns. count_list (d # ds) m) = (\<Sum>m\<leftarrow>ns. count_list ds m) + (\<Sum>m\<leftarrow>ns. if d = m then 1 else 0)"
    by (induction ns) auto
  moreover have "(\<Sum>m\<leftarrow>ns. if d = m then 1 else 0) = (if d \<in> set ns then 1 else 0 :: nat)"
    using Cons.prems by (induction ns) auto
  ultimately show ?case using Cons by simp
qed simp

lemma filter_split_length:
  "length (filter (\<lambda>d. d \<notin> C) ds) = length (filter (\<lambda>d. d \<notin> C \<and> d \<in> F) ds) + length (filter (\<lambda>d. d \<notin> C \<union> F) ds)"
  by (induction ds) auto

definition ready :: "string set \<Rightarrow> Step \<Rightarrow> bool" where
  "ready C s \<longleftrightarrow> step_Name s \<notin> C \<and> set (step_DependsOn s) \<subseteq> C"

lemma tracks_ready:
  assumes "tracks steps C g" and "s \<in> set steps"
  shows "waiting g (step_Name s) = 0 \<longleftrightarrow> ready C s"
  using assms by (auto simp: tracks_def ready_def filter_empty_conv)

lemma readyNow_eq: "tracks steps C g \<Longrightarrow> readyNow g steps = names (filter (ready C) steps)"
  unfolding readyNow_def by (rule arg_cong [where f = names]) (auto intro: filter_cong simp: tracks_ready)

lemma consume_level:
  assumes "tracks steps C g"
  shows "fst (consume g (readyNow g steps)) = filter (ready C) steps"
proof -
  have "step_named g (step_Name s) = s" if "s \<in> set steps" for s
    using assms that by (simp add: tracks_def step_named_def)
  then have "map (step_named g) (names ss) = ss" if "set ss \<subseteq> set steps" for ss
    using that by (induction ss) auto
  then show ?thesis by (simp add: consume_def readyNow_eq [OF assms])
qed

lemma consume_tracks:
  assumes tr: "tracks steps C g" and dist: "distinct (names steps)"
  shows "tracks steps (C \<union> set (readyNow g steps)) (snd (consume g (readyNow g steps)))"
  unfolding tracks_def
proof (intro ballI conjI allI)
  let ?F = "readyNow g steps" and ?h = "mark_consumed g (readyNow g steps)"
  fix s assume s: "s \<in> set steps"
  note frame = release_all_frame [of ?h ?F]
  show "map_of (dg_byName (snd (consume g ?F))) (step_Name s) = Some s"
    using tr s frame by (simp add: tracks_def consume_def)
  have un: "count_list (entries (dg_unblocks g) m) (step_Name s) = count_list (step_DependsOn s) m" for m
    using tr s by (simp add: tracks_def)
  then show "count_list (entries (dg_unblocks (snd (consume g ?F))) d) (step_Name s) = count_list (step_DependsOn s) d" for d
    using frame by (simp add: consume_def)
  have dF: "distinct ?F" using dist by (simp add: readyNow_def distinct_map_filter)
  have F_notin: "n \<in> set ?F \<Longrightarrow> n \<notin> C" for n by (auto simp: readyNow_eq [OF tr] ready_def)
  have w: "waiting (snd (consume g ?F)) (step_Name s) =
      (if waiting ?h (step_Name s) \<le> 0 then waiting ?h (step_Name s)
       else max 0 (waiting ?h (step_Name s) - int (length (filter (\<lambda>d. d \<in> set ?F) (step_DependsOn s)))))"
    by (simp add: consume_def waiting_release_all un sum_count_list [OF dF])
  show "waiting (snd (consume g ?F)) (step_Name s) = (if step_Name s \<in> C \<union> set ?F then - 1
      else int (length (filter (\<lambda>d. d \<notin> C \<union> set ?F) (step_DependsOn s))))"
  proof (cases "step_Name s \<in> C \<union> set ?F")
    case True
    then have "waiting ?h (step_Name s) = - 1" using tr s by (auto simp: waiting_mark_consumed tracks_def)
    with True show ?thesis by (simp add: w)
  next
    case False
    then have h: "waiting ?h (step_Name s) = int (length (filter (\<lambda>d. d \<notin> C) (step_DependsOn s)))"
      using tr s by (simp add: waiting_mark_consumed tracks_def)
    have "filter (\<lambda>d. d \<in> set ?F) (step_DependsOn s) = filter (\<lambda>d. d \<notin> C \<and> d \<in> set ?F) (step_DependsOn s)"
      using F_notin by (intro filter_cong) auto
    then have eq: "length (filter (\<lambda>d. d \<notin> C) (step_DependsOn s)) = length (filter (\<lambda>d. d \<in> set ?F) (step_DependsOn s))
        + length (filter (\<lambda>d. d \<notin> C \<union> set ?F) (step_DependsOn s))"
      using filter_split_length [of C "step_DependsOn s" "set ?F"] by (simp only:)
    have "(if int (a + b) \<le> 0 then int (a + b) else max 0 (int (a + b) - int a)) = int b" for a b :: nat
      by (simp add: max_def)
    then show ?thesis unfolding w h eq if_not_P [OF False] .
  qed
qed

section \<open>The loop\<close>

definition ok_levels :: "Step list list \<Rightarrow> bool" where
  "ok_levels levels \<longleftrightarrow> (\<forall>i<length levels. \<forall>s\<in>set (levels ! i). \<forall>d\<in>set (step_DependsOn s).
     \<exists>j<i. d \<in> set (names (levels ! j)))"

lemma ok_levels_snoc:
  assumes "ok_levels levels" and "\<forall>s\<in>set level. set (step_DependsOn s) \<subseteq> set (names (concat levels))"
  shows "ok_levels (levels @ [level])"
  unfolding ok_levels_def
proof (intro allI impI ballI)
  fix i s d
  assume i: "i < length (levels @ [level])" and s: "s \<in> set ((levels @ [level]) ! i)" and d: "d \<in> set (step_DependsOn s)"
  show "\<exists>j<i. d \<in> set (names ((levels @ [level]) ! j))"
  proof (cases "i < length levels")
    case True
    with s have "s \<in> set (levels ! i)" by (simp add: nth_append)
    from assms(1) [unfolded ok_levels_def, rule_format, OF True this d]
    obtain j where "j < i" "d \<in> set (names (levels ! j))" by blast
    with True show ?thesis by (intro exI [of _ j]) (simp add: nth_append)
  next
    case False
    with i have "i = length levels" by simp
    with s assms(2) d have "d \<in> set (names (concat levels))" by auto
    then obtain l where "l \<in> set levels" "d \<in> set (names l)" by auto
    then obtain j where "j < length levels" "d \<in> set (names (levels ! j))" by (metis in_set_conv_nth)
    with \<open>i = length levels\<close> show ?thesis by (intro exI [of _ j]) (simp add: nth_append)
  qed
qed

definition layered :: "Step list \<Rightarrow> Step list list \<Rightarrow> bool" where
  "layered steps levels \<longleftrightarrow> ok_levels levels \<and> (\<forall>l\<in>set levels. l \<noteq> [] \<and> subseq l steps) \<and>
     mset (concat levels) = mset (filter (\<lambda>s. step_Name s \<in> set (names (concat levels))) steps)"

lemma layered_snoc:
  assumes l: "layered steps levels" and C: "C = set (names (concat levels))" and ne: "filter (ready C) steps \<noteq> []"
    and dist: "distinct (names steps)"
  shows "layered steps (levels @ [filter (ready C) steps])"
proof -
  let ?L = "filter (ready C) steps"
  have "ok_levels (levels @ [?L])" using l C by (intro ok_levels_snoc) (auto simp: layered_def ready_def)
  moreover have "mset (concat (levels @ [?L]))
      = mset (filter (\<lambda>s. step_Name s \<in> C) steps) + mset ?L"
    using l C by (simp add: layered_def)
  moreover have "mset (filter (\<lambda>s. step_Name s \<in> C) ss) + mset (filter (ready C) ss)
      = mset (filter (\<lambda>s. step_Name s \<in> C \<or> ready C s) ss)" for ss
    by (induction ss) (auto simp: ready_def)
  moreover have "step_Name s \<in> C \<or> ready C s \<longleftrightarrow> step_Name s \<in> set (names (concat (levels @ [?L])))"
    if "s \<in> set steps" for s
    using that C dist by (auto simp: inj_on_def distinct_map)
  ultimately have "mset (concat (levels @ [?L]))
      = mset (filter (\<lambda>s. step_Name s \<in> set (names (concat (levels @ [?L])))) steps)"
    by (metis (no_types, lifting) filter_cong)
  with \<open>ok_levels (levels @ [?L])\<close> show ?thesis
    using l ne by (simp add: layered_def del: concat_append)
qed

definition stuck :: "Step list \<Rightarrow> string set \<Rightarrow> bool" where
  "stuck steps C \<longleftrightarrow> (\<exists>s\<in>set steps. step_Name s \<notin> C) \<and>
     (\<forall>s\<in>set steps. step_Name s \<notin> C \<longrightarrow> \<not> set (step_DependsOn s) \<subseteq> C)"

lemma layers_loop_outcome:
  assumes "tracks steps (set (names (concat levels))) g" and "layered steps levels" and "distinct (names steps)"
    and "remaining = int (length (filter (\<lambda>s. step_Name s \<notin> set (names (concat levels))) steps))"
  shows "case layers_loop g steps remaining levels of
      Inr out \<Rightarrow> layered steps out \<and> (\<forall>s\<in>set steps. step_Name s \<in> set (names (concat out)))
    | Inl e \<Rightarrow> \<exists>C. stuck steps C"
  using assms
proof (induction g steps remaining levels rule: layers_loop.induct)
  case (1 g steps remaining levels)
  let ?C = "set (names (concat levels))" and ?F = "readyNow g steps"
  have F: "?F = names (filter (ready ?C) steps)" using readyNow_eq "1.prems"(1) by blast
  show ?case
  proof (cases "0 < remaining")
    case False
    with "1.prems" show ?thesis by (subst layers_loop.simps) (simp add: filter_empty_conv)
  next
    case rem: True
    show ?thesis
    proof (cases "?F = []")
      case True
      have "filter (\<lambda>s. step_Name s \<notin> ?C) steps \<noteq> []" using rem "1.prems"(4) by auto
      moreover have "filter (ready ?C) steps = []" using True F by simp
      ultimately have "stuck steps ?C" by (auto simp: stuck_def ready_def filter_empty_conv)
      with rem True show ?thesis by (subst layers_loop.simps) auto
    next
      case False
      obtain level g' where c: "consume g ?F = (level, g')" by fastforce
      have level: "level = filter (ready ?C) steps" using consume_level [OF "1.prems"(1)] c by simp
      have C': "set (names (concat (levels @ [level]))) = ?C \<union> set ?F" by (auto simp: level F)
      have "tracks steps (set (names (concat (levels @ [level])))) g'"
        using consume_tracks [OF "1.prems"(1,3)] c by (simp only: C') simp
      moreover have "layered steps (levels @ [level])"
        using layered_snoc [OF "1.prems"(2) refl _ "1.prems"(3)] False F level by simp
      moreover have "length (filter (\<lambda>s. step_Name s \<notin> ?C) ss)
          = length (filter (ready ?C) ss) + length (filter (\<lambda>s. step_Name s \<notin> ?C \<and> \<not> ready ?C s) ss)" for ss
        by (induction ss) (auto simp: ready_def)
      moreover have "filter (\<lambda>s. step_Name s \<notin> ?C \<and> \<not> ready ?C s) steps
          = filter (\<lambda>s. step_Name s \<notin> set (names (concat (levels @ [level])))) steps"
        using "1.prems"(3) unfolding C' F by (intro filter_cong) (auto simp: distinct_map inj_on_def)
      ultimately have "case layers_loop g' steps (remaining - int (length ?F)) (levels @ [level]) of
          Inr out \<Rightarrow> layered steps out \<and> (\<forall>s\<in>set steps. step_Name s \<in> set (names (concat out)))
        | Inl e \<Rightarrow> \<exists>C. stuck steps C"
        using "1.IH" [OF rem refl False c [symmetric] refl] "1.prems"(3,4) F by simp
      then show ?thesis using rem False c by (subst layers_loop.simps) simp
    qed
  qed
qed

lemma Layers_Inr:
  assumes "Layers dag = Inr levels"
  shows "distinct (names (dag_Steps dag)) \<and> known_deps (dag_Steps dag) \<and> layered (dag_Steps dag) levels \<and>
    mset (concat levels) = mset (dag_Steps dag)"
proof -
  obtain g where g: "newDependencyGraph dag = Inr g"
    and l: "layers_loop g (dag_Steps dag) (int (length (dag_Steps dag))) [] = Inr levels"
    using assms by (auto simp: Layers_def split: sum.splits)
  note n = newDependencyGraph_Inr [OF g]
  have "layered (dag_Steps dag) []" by (simp add: layered_def ok_levels_def)
  then have out: "layered (dag_Steps dag) levels" "\<forall>s\<in>set (dag_Steps dag). step_Name s \<in> set (names (concat levels))"
    using layers_loop_outcome [of "dag_Steps dag" "[]" g "int (length (dag_Steps dag))"] n l by simp_all
  then have "mset (concat levels) = mset (dag_Steps dag)"
    unfolding layered_def by (metis (no_types, lifting) filter_True)
  with n out show ?thesis by blast
qed

lemma Layers_Inl:
  assumes "Layers dag = Inl e"
  shows "\<not> distinct (names (dag_Steps dag)) \<or> \<not> known_deps (dag_Steps dag) \<or> (\<exists>C. stuck (dag_Steps dag) C)"
proof (cases "newDependencyGraph dag")
  case (Inl e')
  then show ?thesis using newDependencyGraph_Inl [of dag] by blast
next
  case (Inr g)
  with assms have l: "layers_loop g (dag_Steps dag) (int (length (dag_Steps dag))) [] = Inl e" by (simp add: Layers_def)
  have "layered (dag_Steps dag) []" by (simp add: layered_def ok_levels_def)
  then show ?thesis
    using layers_loop_outcome [of "dag_Steps dag" "[]" g "int (length (dag_Steps dag))"] newDependencyGraph_Inr [OF Inr] l
    by simp
qed

section \<open>Cycles\<close>

definition depends :: "Step list \<Rightarrow> (string \<times> string) set" where
  "depends steps = {(d, step_Name s) | d s. s \<in> set steps \<and> d \<in> set (step_DependsOn s)}"

definition level_of :: "Step list list \<Rightarrow> string \<Rightarrow> nat" where
  "level_of levels n = length (takeWhile (\<lambda>l. n \<notin> set (names l)) levels)"

lemma level_of_le: "j < length levels \<Longrightarrow> n \<in> set (names (levels ! j)) \<Longrightarrow> level_of levels n \<le> j"
proof (rule ccontr)
  assume "j < length levels" and n: "n \<in> set (names (levels ! j))" and "\<not> level_of levels n \<le> j"
  then have "j < length (takeWhile (\<lambda>l. n \<notin> set (names l)) levels)" by (simp add: level_of_def)
  then have "n \<notin> set (names (levels ! j))"
    using nth_mem set_takeWhileD takeWhile_nth by metis
  with n show False by blast
qed

lemma level_of_member:
  assumes "n \<in> set (names (concat levels))"
  shows "level_of levels n < length levels \<and> n \<in> set (names (levels ! level_of levels n))"
proof -
  obtain l where "l \<in> set levels" "n \<in> set (names l)" using assms by auto
  then obtain j where "j < length levels" "n \<in> set (names (levels ! j))" by (metis in_set_conv_nth)
  then have lt: "level_of levels n < length levels" using level_of_le le_less_trans by blast
  with nth_length_takeWhile [of "\<lambda>l. n \<notin> set (names l)" levels] show ?thesis by (simp add: level_of_def)
qed

lemma layered_acyclic:
  assumes "layered steps levels" and "mset (concat levels) = mset steps" and "distinct (names steps)"
  shows "acyclic (depends steps)"
proof (rule acyclicI_order [where f = "\<lambda>n. - int (level_of levels n)"])
  fix d n assume "(d, n) \<in> depends steps"
  then obtain s where s: "s \<in> set steps" "n = step_Name s" "d \<in> set (step_DependsOn s)" by (auto simp: depends_def)
  have eq: "set (concat levels) = set steps" using assms(2) by (metis set_mset_mset)
  with s have "n \<in> set (names (concat levels))" by simp
  then have i: "level_of levels n < length levels" "n \<in> set (names (levels ! level_of levels n))"
    using level_of_member by blast+
  then obtain s' where s': "s' \<in> set (levels ! level_of levels n)" "step_Name s' = n" by auto
  with i(1) have "s' \<in> set (concat levels)" using nth_mem by fastforce
  with eq have "s' \<in> set steps" by simp
  with s s'(2) assms(3) have "s' = s" by (simp add: distinct_map inj_on_def)
  with assms(1) i(1) s'(1) s(3) obtain j where "j < level_of levels n" "d \<in> set (names (levels ! j))"
    unfolding layered_def ok_levels_def by blast
  then have "level_of levels d < level_of levels n"
    using level_of_le [of j levels d] i(1) by simp
  then show "- int (level_of levels n) < - int (level_of levels d)" by simp
qed

lemma finite_depends: "finite (depends steps)"
proof -
  have "depends steps \<subseteq> (\<Union>s\<in>set steps. (\<lambda>d. (d, step_Name s)) ` set (step_DependsOn s))"
    by (auto simp: depends_def)
  then show ?thesis by (rule finite_subset) simp
qed

lemma stuck_not_acyclic:
  assumes "stuck steps C" and "known_deps steps"
  shows "\<not> acyclic (depends steps)"
proof
  assume "acyclic (depends steps)"
  then have wf: "wf (depends steps)" using finite_depends finite_acyclic_wf by blast
  obtain s where "s \<in> set steps" "step_Name s \<notin> C" using assms(1) by (auto simp: stuck_def)
  then have "step_Name s \<in> set (names steps) - C" by simp
  from wfE_min [OF wf this] obtain z where z: "z \<in> set (names steps) - C"
    "\<And>y. (y, z) \<in> depends steps \<Longrightarrow> y \<notin> set (names steps) - C" by blast
  then obtain t where t: "t \<in> set steps" "step_Name t = z" by auto
  then obtain d where d: "d \<in> set (step_DependsOn t)" "d \<notin> C" using assms(1) z(1) by (auto simp: stuck_def)
  then have "(d, z) \<in> depends steps" using t by (auto simp: depends_def)
  moreover have "d \<in> set (names steps)" using assms(2) t d by (auto simp: known_deps_def)
  ultimately show False using z(2) d(2) by blast
qed

section \<open>Properties\<close>

text \<open>A layering is a correct schedule. When \<open>Layers\<close> succeeds, its levels hold every step of the workflow
  exactly once, every dependency of a step is the name of a step in a strictly earlier level (so steps of a level
  are independent), no level is empty, and the order inside a level is the input order.\<close>

theorem Layers_schedules_every_step:
  assumes "Layers dag = Inr levels"
  shows "mset (concat levels) = mset (dag_Steps dag) \<and>
    (\<forall>i<length levels. \<forall>s\<in>set (levels ! i). \<forall>d\<in>set (step_DependsOn s).
       \<exists>j<i. \<exists>s'\<in>set (levels ! j). step_Name s' = d) \<and>
    (\<forall>level\<in>set levels. level \<noteq> [] \<and> subseq level (dag_Steps dag))"
proof -
  have l: "layered (dag_Steps dag) levels" and m: "mset (concat levels) = mset (dag_Steps dag)"
    using Layers_Inr [OF assms] by blast+
  have "\<exists>j<i. \<exists>s'\<in>set (levels ! j). step_Name s' = d"
    if h: "i < length levels" "s \<in> set (levels ! i)" "d \<in> set (step_DependsOn s)" for i s d
  proof -
    obtain j where "j < i" "d \<in> set (names (levels ! j))"
      using l h unfolding layered_def ok_levels_def by blast
    then show ?thesis by auto
  qed
  then show ?thesis using l m unfolding layered_def by blast
qed

definition sample_step :: "string \<Rightarrow> string list \<Rightarrow> Step" where
  "sample_step name deps = zero_Step\<lparr>step_Name := name, step_DependsOn := deps\<rparr>"

definition diamond :: DAG where
  "diamond = \<lparr>dag_Name = ''d'', dag_Steps = [sample_step ''d'' [''b'', ''c''], sample_step ''a'' [],
     sample_step ''b'' [''a''], sample_step ''c'' [''a'']]\<rparr>"

lemma Layers_diamond:
  "Layers diamond = Inr [[sample_step ''a'' []], [sample_step ''b'' [''a''], sample_step ''c'' [''a'']],
     [sample_step ''d'' [''b'', ''c'']]]"
  by code_simp

theorem Layers_schedules_every_step_witness:
  "\<exists>levels. Layers diamond = Inr levels \<and> mset (concat levels) = mset (dag_Steps diamond) \<and> length levels = 3"
  using Layers_schedules_every_step [OF Layers_diamond] Layers_diamond by simp

text \<open>A workflow is refused exactly when it cannot be ordered: \<open>Layers\<close> returns an error if and only if two
  steps share a name, a step depends on a name no step has, or the dependency relation has a cycle. In particular
  the loop never reports a cycle that is not there, and it always terminates.\<close>

theorem Layers_refuses_exactly_unorderable:
  "(\<exists>e. Layers dag = Inl e) \<longleftrightarrow>
     \<not> distinct (map step_Name (dag_Steps dag)) \<or>
     (\<exists>s\<in>set (dag_Steps dag). \<exists>d\<in>set (step_DependsOn s). d \<notin> set (map step_Name (dag_Steps dag))) \<or>
     \<not> acyclic (depends (dag_Steps dag))"
proof (cases "Layers dag")
  case (Inl e)
  have "\<not> distinct (names (dag_Steps dag)) \<or> \<not> known_deps (dag_Steps dag) \<or> \<not> acyclic (depends (dag_Steps dag))"
    using Layers_Inl [OF Inl] stuck_not_acyclic by blast
  with Inl show ?thesis by (auto simp: known_deps_def)
next
  case (Inr levels)
  have "distinct (names (dag_Steps dag)) \<and> known_deps (dag_Steps dag) \<and> acyclic (depends (dag_Steps dag))"
    using Layers_Inr [OF Inr] layered_acyclic by blast
  with Inr show ?thesis by (auto simp: known_deps_def)
qed

theorem Layers_refuses_exactly_unorderable_witness:
  "\<exists>e. Layers \<lparr>dag_Name = ''loop'', dag_Steps = [sample_step ''a'' [''b''], sample_step ''b'' [''a'']]\<rparr> = Inl e"
proof -
  let ?d = "\<lparr>dag_Name = ''loop'', dag_Steps = [sample_step ''a'' [''b''], sample_step ''b'' [''a'']]\<rparr>"
  have "(''a'', ''b'') \<in> depends (dag_Steps ?d)" "(''b'', ''a'') \<in> depends (dag_Steps ?d)"
    unfolding depends_def mem_Collect_eq
    by (rule exI [of _ "''a''"], rule exI [of _ "sample_step ''b'' [''a'']"], simp add: sample_step_def)
      (rule exI [of _ "''b''"], rule exI [of _ "sample_step ''a'' [''b'']"], simp add: sample_step_def)
  then have "\<not> acyclic (depends (dag_Steps ?d))" by (meson acyclic_def trancl.r_into_trancl trancl_trans)
  then show ?thesis using Layers_refuses_exactly_unorderable [of ?d] by blast
qed

end
