(* ===== verification/Workflow.thy ===== *)
theory Workflow
  imports Dag_Order
begin

text \<open>
  The workflow engine: \<open>orchestrator/events.go\<close>, \<open>orchestrator/port.go\<close> and \<open>orchestrator/orchestrator.go\<close>. The
  step runner is outside the repository: \<open>run_result\<close> and \<open>comp_result\<close> say what its \<open>Run\<close> and \<open>Compensate\<close> return
  for a step, an error or a detail, and are arbitrary. The goroutines of a level interleave: \<open>run_step\<close> is a
  relation with one transition per atomic action (a step announces its start; a step finishes under the lock and
  folds its outcome into the shared \<open>levelRun\<close>; the level barrier opens the next level), so its reachable
  configurations are those of every schedule. The engine's clock is a function of the number of events.
\<close>

datatype EventKind = RunStarted | StepStarted | StepSucceeded | StepFailed | StepCompensated | RunFailed | RunSucceeded

record Event =
  ev_Seq :: nat
  ev_At :: int
  ev_Run :: string
  ev_Step :: string
  ev_Kind :: EventKind
  ev_Detail :: string

record MemStore =
  ms_seq :: nat
  ms_all :: "Event list"

definition NewMemStore :: MemStore where
  "NewMemStore = \<lparr>ms_seq = 0, ms_all = []\<rparr>"

definition Append :: "MemStore \<Rightarrow> Event \<Rightarrow> Event \<times> MemStore" where
  "Append m e =
     (let s = Suc (ms_seq m); e' = e\<lparr>ev_Seq := s\<rparr>
      in (e', \<lparr>ms_seq = s, ms_all = ms_all m @ [e']\<rparr>))"

definition Events :: "MemStore \<Rightarrow> string \<Rightarrow> Event list" where
  "Events m run = filter (\<lambda>e. run = [] \<or> ev_Run e = run) (ms_all m)"

definition emit :: "(nat \<Rightarrow> int) \<Rightarrow> MemStore \<Rightarrow> string \<Rightarrow> string \<Rightarrow> EventKind \<Rightarrow> string \<Rightarrow> MemStore" where
  "emit clock m run step kind detail =
     snd (Append m \<lparr>ev_Seq = 0, ev_At = clock (ms_seq m), ev_Run = run, ev_Step = step, ev_Kind = kind, ev_Detail = detail\<rparr>)"

record levelRun =
  lr_completed :: "Step list"
  lr_failed :: string
  lr_failErr :: string

text \<open>The second half of \<open>runStep\<close>, which runs under the lock.\<close>

definition fold_outcome :: "(nat \<Rightarrow> int) \<Rightarrow> string \<Rightarrow> Step \<Rightarrow> string + string \<Rightarrow> levelRun \<times> MemStore \<Rightarrow> levelRun \<times> MemStore" where
  "fold_outcome clock dagName s outcome st =
     (let (run, m) = st
      in case outcome of
           Inl rerr \<Rightarrow>
             (if lr_failed run = [] then run\<lparr>lr_failed := step_Name s, lr_failErr := rerr\<rparr> else run,
              emit clock m dagName (step_Name s) StepFailed rerr)
         | Inr detail \<Rightarrow>
             (run\<lparr>lr_completed := lr_completed run @ [s]\<rparr>,
              emit clock m dagName (step_Name s) StepSucceeded detail))"

record config =
  cf_todo :: "Step list list" \<comment> \<open>levels not reached\<close>
  cf_pending :: "Step list" \<comment> \<open>goroutines of the level that have not announced their start\<close>
  cf_inflight :: "Step list" \<comment> \<open>goroutines inside the runner\<close>
  cf_run :: levelRun
  cf_store :: MemStore

inductive run_step :: "(Step \<Rightarrow> string + string) \<Rightarrow> (nat \<Rightarrow> int) \<Rightarrow> string \<Rightarrow> config \<Rightarrow> config \<Rightarrow> bool"
  for run_result clock dagName where
  starts: "s \<in> set (cf_pending c) \<Longrightarrow>
    run_step run_result clock dagName c
      (c\<lparr>cf_pending := remove1 s (cf_pending c), cf_inflight := cf_inflight c @ [s],
         cf_store := emit clock (cf_store c) dagName (step_Name s) StepStarted (step_Runtime s)\<rparr>)"
| finishes: "s \<in> set (cf_inflight c) \<Longrightarrow>
    fold_outcome clock dagName s (run_result s) (cf_run c, cf_store c) = (run', m') \<Longrightarrow>
    run_step run_result clock dagName c
      (c\<lparr>cf_inflight := remove1 s (cf_inflight c), cf_run := run', cf_store := m'\<rparr>)"
| next_level: "cf_pending c = [] \<Longrightarrow> cf_inflight c = [] \<Longrightarrow> lr_failed (cf_run c) = [] \<Longrightarrow> cf_todo c = level # rest \<Longrightarrow>
    run_step run_result clock dagName c (c\<lparr>cf_todo := rest, cf_pending := level\<rparr>)"

inductive_cases run_stepE: "run_step run_result clock dagName c c'"

definition run_done :: "config \<Rightarrow> bool" where
  "run_done c \<longleftrightarrow> cf_pending c = [] \<and> cf_inflight c = [] \<and> (cf_todo c = [] \<or> lr_failed (cf_run c) \<noteq> [])"

definition initial :: "Step list list \<Rightarrow> MemStore \<Rightarrow> config" where
  "initial levels m = \<lparr>cf_todo = levels, cf_pending = [], cf_inflight = [],
     cf_run = \<lparr>lr_completed = [], lr_failed = [], lr_failErr = []\<rparr>, cf_store = m\<rparr>"

text \<open>\<open>runLevels\<close>: some schedule of the levels ends in the given shared state and event store.\<close>

inductive runLevels :: "(Step \<Rightarrow> string + string) \<Rightarrow> (nat \<Rightarrow> int) \<Rightarrow> string \<Rightarrow> Step list list \<Rightarrow> MemStore \<Rightarrow> levelRun \<times> MemStore \<Rightarrow> bool"
  for run_result clock dagName levels m where
  "(run_step run_result clock dagName)\<^sup>*\<^sup>* (initial levels m) c \<Longrightarrow> run_done c \<Longrightarrow>
     runLevels run_result clock dagName levels m (cf_run c, cf_store c)"

fun compensate_all :: "(Step \<Rightarrow> string + string) \<Rightarrow> (nat \<Rightarrow> int) \<Rightarrow> string \<Rightarrow> Step list \<Rightarrow> MemStore \<Rightarrow> MemStore" where
  "compensate_all comp_result clock dagName [] m = m"
| "compensate_all comp_result clock dagName (s # ss) m =
     (case comp_result s of
        Inl cerr \<Rightarrow> compensate_all comp_result clock dagName ss
                      (emit clock m dagName (step_Name s) StepCompensated (''compensation error: '' @ cerr))
      | Inr detail \<Rightarrow> compensate_all comp_result clock dagName ss (emit clock m dagName (step_Name s) StepCompensated detail))"

definition compensate :: "(Step \<Rightarrow> string + string) \<Rightarrow> (nat \<Rightarrow> int) \<Rightarrow> string \<Rightarrow> Step list \<Rightarrow> MemStore \<Rightarrow> MemStore" where
  "compensate comp_result clock dagName completed m = compensate_all comp_result clock dagName (rev completed) m"

datatype run_error =
    TokenInvalid string
  | WorkflowRejected dag_error
  | WorkflowFailed string string string \<comment> \<open>workflow, step, error\<close>

text \<open>\<open>Run\<close>: \<open>t0\<close>, \<open>t1\<close> and \<open>t2\<close> are the readings of the clock for the start, the token check and the end.\<close>

inductive Run :: "(Step \<Rightarrow> string + string) \<Rightarrow> (Step \<Rightarrow> string + string) \<Rightarrow> (nat \<Rightarrow> int) \<Rightarrow> int \<Rightarrow> int \<Rightarrow> int
    \<Rightarrow> ExecutionToken \<Rightarrow> DAG \<Rightarrow> MemStore \<Rightarrow> RunResult \<times> run_error option \<times> MemStore \<Rightarrow> bool"
  for run_result comp_result clock t0 t1 t2 token dag m where
  refused: "tok_Value token = [] \<or> \<not> Valid token t1 \<Longrightarrow>
    Run run_result comp_result clock t0 t1 t2 token dag m
      (\<lparr>rr_DAGName = dag_Name dag, rr_Success = False, rr_FailedStep = [], rr_StartedAt = t0, rr_FinishedAt = t2\<rparr>,
       Some (TokenInvalid (dag_Name dag)), m)"
| rejected: "tok_Value token \<noteq> [] \<Longrightarrow> Valid token t1 \<Longrightarrow> Layers dag = Inl e \<Longrightarrow>
    Run run_result comp_result clock t0 t1 t2 token dag m
      (\<lparr>rr_DAGName = dag_Name dag, rr_Success = False, rr_FailedStep = [], rr_StartedAt = t0, rr_FinishedAt = t2\<rparr>,
       Some (WorkflowRejected e), m)"
| failed: "tok_Value token \<noteq> [] \<Longrightarrow> Valid token t1 \<Longrightarrow> Layers dag = Inr levels \<Longrightarrow>
    runLevels run_result clock (dag_Name dag) levels
      (emit clock m (dag_Name dag) [] RunStarted (''intent '' @ tok_IntentID token)) (run, m1) \<Longrightarrow>
    lr_failed run \<noteq> [] \<Longrightarrow>
    m2 = emit clock (compensate comp_result clock (dag_Name dag) (lr_completed run) m1) (dag_Name dag) (lr_failed run)
           RunFailed (lr_failErr run) \<Longrightarrow>
    Run run_result comp_result clock t0 t1 t2 token dag m
      (\<lparr>rr_DAGName = dag_Name dag, rr_Success = False, rr_FailedStep = lr_failed run, rr_StartedAt = t0, rr_FinishedAt = t2\<rparr>,
       Some (WorkflowFailed (dag_Name dag) (lr_failed run) (lr_failErr run)), m2)"
| succeeded: "tok_Value token \<noteq> [] \<Longrightarrow> Valid token t1 \<Longrightarrow> Layers dag = Inr levels \<Longrightarrow>
    runLevels run_result clock (dag_Name dag) levels
      (emit clock m (dag_Name dag) [] RunStarted (''intent '' @ tok_IntentID token)) (run, m1) \<Longrightarrow>
    lr_failed run = [] \<Longrightarrow>
    Run run_result comp_result clock t0 t1 t2 token dag m
      (\<lparr>rr_DAGName = dag_Name dag, rr_Success = True, rr_FailedStep = [], rr_StartedAt = t0, rr_FinishedAt = t2\<rparr>,
       None, emit clock m1 (dag_Name dag) [] RunSucceeded [])"

inductive_cases RunE: "Run run_result comp_result clock t0 t1 t2 token dag m out"

section \<open>The interface of an event store\<close>

locale event_store =
  fixes append :: "'s \<Rightarrow> Event \<Rightarrow> Event \<times> 's"
    and all_events :: "'s \<Rightarrow> Event list"
  assumes appended: "append s e = (e', s') \<Longrightarrow>
      all_events s' = all_events s @ [e'] \<and> e'\<lparr>ev_Seq := 0\<rparr> = e\<lparr>ev_Seq := 0\<rparr>"
begin

lemma appended_kind:
  "append s e = (e', s') \<Longrightarrow> ev_Kind e' = ev_Kind e \<and> ev_Step e' = ev_Step e \<and> ev_Run e' = ev_Run e \<and> ev_Detail e' = ev_Detail e"
  using appended by (cases e; cases e') fastforce

end

interpretation mem: event_store Append ms_all
  by unfold_locales (auto simp: Append_def Let_def)

lemma emit_appends:
  obtains e where "ms_all (emit clock m run step kind detail) = ms_all m @ [e]" "ev_Kind e = kind" "ev_Step e = step"
    "ev_Run e = run" "ev_Detail e = detail"
proof -
  let ?e = "\<lparr>ev_Seq = 0, ev_At = clock (ms_seq m), ev_Run = run, ev_Step = step, ev_Kind = kind, ev_Detail = detail\<rparr>"
  obtain e m' where a: "Append m ?e = (e, m')" by fastforce
  then show ?thesis
    using mem.appended [OF a] mem.appended_kind [OF a] by (intro that [of e]) (simp_all add: emit_def)
qed

section \<open>What a trail says\<close>

definition of_kind :: "EventKind \<Rightarrow> Event list \<Rightarrow> string list" where
  "of_kind k t = map ev_Step (filter (\<lambda>e. ev_Kind e = k) t)"

definition first_failure :: "Event list \<Rightarrow> string" where
  "first_failure t = (case of_kind StepFailed t of [] \<Rightarrow> [] | n # _ \<Rightarrow> n)"

text \<open>A step may start when every step it depends on has succeeded, and so has every step of the levels before its own.
  Every start in a trail comes when the step may start.\<close>

definition may_start :: "Step list list \<Rightarrow> string \<Rightarrow> string set \<Rightarrow> bool" where
  "may_start levels n over \<longleftrightarrow>
     (\<forall>s\<in>set (concat levels). step_Name s = n \<longrightarrow> set (step_DependsOn s) \<subseteq> over) \<and>
     (\<exists>before level after. levels = before @ level # after \<and> n \<in> set (names level) \<and> set (names (concat before)) \<subseteq> over)"

lemma may_start_mono: "may_start levels n over \<Longrightarrow> over \<subseteq> wider \<Longrightarrow> may_start levels n wider"
  unfolding may_start_def by (intro conjI) (blast intro: subset_trans, elim conjE exE, intro exI conjI, assumption+, blast)

definition starts_in_order :: "Step list list \<Rightarrow> Event list \<Rightarrow> bool" where
  "starts_in_order levels t \<longleftrightarrow> (\<forall>pre e post. t = pre @ e # post \<and> ev_Kind e = StepStarted \<longrightarrow>
     may_start levels (ev_Step e) (set (of_kind StepSucceeded pre)))"

lemma of_kind_append [simp]: "of_kind k (t @ u) = of_kind k t @ of_kind k u"
  by (simp add: of_kind_def)

lemma of_kind_Cons [simp]: "of_kind k (e # t) = (if ev_Kind e = k then ev_Step e # of_kind k t else of_kind k t)"
  by (simp add: of_kind_def)

lemma of_kind_Nil [simp]: "of_kind k [] = []"
  by (simp add: of_kind_def)

lemma starts_in_order_snoc:
  "starts_in_order levels (t @ [e]) \<longleftrightarrow> starts_in_order levels t \<and>
     (ev_Kind e = StepStarted \<longrightarrow> may_start levels (ev_Step e) (set (of_kind StepSucceeded t)))"
proof
  assume l: "starts_in_order levels (t @ [e])"
  have "starts_in_order levels t"
    unfolding starts_in_order_def
  proof (intro allI impI)
    fix pre x post assume "t = pre @ x # post \<and> ev_Kind x = StepStarted"
    then have "t @ [e] = pre @ x # (post @ [e]) \<and> ev_Kind x = StepStarted" by simp
    with l show "may_start levels (ev_Step x) (set (of_kind StepSucceeded pre))" unfolding starts_in_order_def by blast
  qed
  with l show "starts_in_order levels t \<and> (ev_Kind e = StepStarted \<longrightarrow> may_start levels (ev_Step e) (set (of_kind StepSucceeded t)))"
    unfolding starts_in_order_def by blast
next
  assume r: "starts_in_order levels t \<and> (ev_Kind e = StepStarted \<longrightarrow> may_start levels (ev_Step e) (set (of_kind StepSucceeded t)))"
  show "starts_in_order levels (t @ [e])"
    unfolding starts_in_order_def
  proof (intro allI impI)
    fix pre x post assume a: "t @ [e] = pre @ x # post \<and> ev_Kind x = StepStarted"
    show "may_start levels (ev_Step x) (set (of_kind StepSucceeded pre))"
    proof (cases post rule: rev_cases)
      case Nil
      with a r show ?thesis by simp
    next
      case (snoc ys y)
      with a have "t = pre @ x # ys" by simp
      with a r show ?thesis unfolding starts_in_order_def by blast
    qed
  qed
qed

lemma starts_in_order_Cons:
  assumes "starts_in_order levels t" and "ev_Kind e \<noteq> StepStarted"
  shows "starts_in_order levels (e # t)"
  using assms(1)
proof (induction t rule: rev_induct)
  case Nil
  then show ?case using assms(2) starts_in_order_snoc [of levels "[]" e] by (simp add: starts_in_order_def)
next
  case (snoc x t)
  then show ?case
    using starts_in_order_snoc [of levels "e # t" x] by (auto simp: starts_in_order_snoc intro: may_start_mono)
qed

lemma starts_in_order_append:
  "of_kind StepStarted u = [] \<Longrightarrow> starts_in_order levels (t @ u) \<longleftrightarrow> starts_in_order levels t"
proof (induction u rule: rev_induct)
  case (snoc x u)
  then have "ev_Kind x \<noteq> StepStarted" "of_kind StepStarted u = []" by (auto split: if_splits)
  with snoc.IH show ?case using starts_in_order_snoc [of levels "t @ u" x] by simp
qed simp

section \<open>The invariant of a run\<close>

definition run_inv :: "Step list list \<Rightarrow> Event list \<Rightarrow> config \<Rightarrow> bool" where
  "run_inv levels t c \<longleftrightarrow> (\<exists>past. levels = past @ cf_todo c \<and>
     of_kind StepSucceeded t = names (lr_completed (cf_run c)) \<and>
     lr_failed (cf_run c) = first_failure t \<and>
     mset (of_kind StepStarted t) + mset (names (cf_pending c)) = mset (names (concat past)) \<and>
     (of_kind StepFailed t = [] \<longrightarrow>
        set (concat past) = set (cf_pending c) \<union> set (cf_inflight c) \<union> set (lr_completed (cf_run c))) \<and>
     set (cf_pending c) \<union> set (cf_inflight c) \<union> set (lr_completed (cf_run c)) \<subseteq> set (concat past) \<and>
     (\<forall>s\<in>set (cf_pending c) \<union> set (cf_inflight c). may_start levels (step_Name s) (set (names (lr_completed (cf_run c))))) \<and>
     set (of_kind StepFailed t) \<subseteq> set (names (concat past)) \<and>
     starts_in_order levels t \<and> of_kind StepCompensated t = [])"

definition named :: "Step list list \<Rightarrow> bool" where
  "named levels \<longleftrightarrow> distinct (names (concat levels)) \<and> [] \<notin> set (names (concat levels))"

lemma first_failure_Nil:
  assumes "[] \<notin> set (of_kind StepFailed t)"
  shows "first_failure t = [] \<longleftrightarrow> of_kind StepFailed t = []"
  using assms by (cases "of_kind StepFailed t") (auto simp: first_failure_def)

lemma run_inv_initial: "run_inv levels [] (initial levels m)"
  by (simp add: run_inv_def initial_def first_failure_def starts_in_order_def)

lemma step_by_name:
  "named levels \<Longrightarrow> s \<in> set (concat levels) \<Longrightarrow> s' \<in> set (concat levels) \<Longrightarrow> step_Name s = step_Name s' \<Longrightarrow> s = s'"
  unfolding named_def distinct_map inj_on_def by blast

lemma run_inv_starts:
  assumes inv: "run_inv levels t c" and nm: "named levels" and s: "s \<in> set (cf_pending c)"
    and e: "ev_Kind e = StepStarted" "ev_Step e = step_Name s"
  shows "run_inv levels (t @ [e]) (c\<lparr>cf_pending := remove1 s (cf_pending c), cf_inflight := cf_inflight c @ [s], cf_store := m\<rparr>)"
proof -
  obtain past where p: "levels = past @ cf_todo c" "of_kind StepSucceeded t = names (lr_completed (cf_run c))"
    "lr_failed (cf_run c) = first_failure t"
    "mset (of_kind StepStarted t) + mset (names (cf_pending c)) = mset (names (concat past))"
    "of_kind StepFailed t = [] \<longrightarrow>
        set (concat past) = set (cf_pending c) \<union> set (cf_inflight c) \<union> set (lr_completed (cf_run c))"
    "set (cf_pending c) \<union> set (cf_inflight c) \<union> set (lr_completed (cf_run c)) \<subseteq> set (concat past)"
    "\<forall>s\<in>set (cf_pending c) \<union> set (cf_inflight c). may_start levels (step_Name s) (set (names (lr_completed (cf_run c))))"
    "set (of_kind StepFailed t) \<subseteq> set (names (concat past))"
    "starts_in_order levels t" "of_kind StepCompensated t = []"
    using inv unfolding run_inv_def by blast
  let ?c = "c\<lparr>cf_pending := remove1 s (cf_pending c), cf_inflight := cf_inflight c @ [s], cf_store := m\<rparr>"
  have sets: "set (cf_pending ?c) \<union> set (cf_inflight ?c) = set (cf_pending c) \<union> set (cf_inflight c)"
    using s set_remove1_subset [of s "cf_pending c"] by (auto simp: in_set_remove1)
  have "mset (cf_pending c) = add_mset s (mset (remove1 s (cf_pending c)))" using s by simp
  then have "mset (names (cf_pending c)) = add_mset (step_Name s) (mset (names (remove1 s (cf_pending c))))"
    by (metis image_mset_add_mset mset_map)
  then have ms: "mset (of_kind StepStarted (t @ [e])) + mset (names (cf_pending ?c)) = mset (names (concat past))"
    using p(4) e by simp
  have "may_start levels (step_Name s) (set (names (lr_completed (cf_run c))))" using p(7) s by blast
  then have "starts_in_order levels (t @ [e])" using p(2,9) e by (simp add: starts_in_order_snoc)
  then show ?thesis
    unfolding run_inv_def sets
    using p ms e by (intro exI [of _ past]) (simp add: first_failure_def sets [simplified])
qed

lemma run_inv_finishes:
  assumes inv: "run_inv levels t c" and nm: "named levels" and s: "s \<in> set (cf_inflight c)"
    and e: "ev_Step e = step_Name s" "ev_Kind e = (case outcome of Inl _ \<Rightarrow> StepFailed | Inr _ \<Rightarrow> StepSucceeded)"
    and f: "run' = (case outcome of
       Inl rerr \<Rightarrow> if lr_failed (cf_run c) = [] then (cf_run c)\<lparr>lr_failed := step_Name s, lr_failErr := rerr\<rparr> else cf_run c
     | Inr _ \<Rightarrow> (cf_run c)\<lparr>lr_completed := lr_completed (cf_run c) @ [s]\<rparr>)"
  shows "run_inv levels (t @ [e]) (c\<lparr>cf_inflight := remove1 s (cf_inflight c), cf_run := run', cf_store := m\<rparr>)"
proof -
  obtain past where p: "levels = past @ cf_todo c" "of_kind StepSucceeded t = names (lr_completed (cf_run c))"
    "lr_failed (cf_run c) = first_failure t"
    "mset (of_kind StepStarted t) + mset (names (cf_pending c)) = mset (names (concat past))"
    "of_kind StepFailed t = [] \<longrightarrow>
        set (concat past) = set (cf_pending c) \<union> set (cf_inflight c) \<union> set (lr_completed (cf_run c))"
    "set (cf_pending c) \<union> set (cf_inflight c) \<union> set (lr_completed (cf_run c)) \<subseteq> set (concat past)"
    "\<forall>s\<in>set (cf_pending c) \<union> set (cf_inflight c). may_start levels (step_Name s) (set (names (lr_completed (cf_run c))))"
    "set (of_kind StepFailed t) \<subseteq> set (names (concat past))"
    "starts_in_order levels t" "of_kind StepCompensated t = []"
    using inv unfolding run_inv_def by blast
  have sub: "set (remove1 s (cf_inflight c)) \<subseteq> set (cf_inflight c)" by (rule set_remove1_subset)
  have keep: "x \<in> set (remove1 s (cf_inflight c))" if "x \<in> set (cf_inflight c)" "x \<noteq> s" for x
    using that by (simp add: in_set_remove1)
  have sp: "s \<in> set (concat past)" using p(6) s by auto
  have ord: "starts_in_order levels (t @ [e])"
    using p(9) e(2) by (simp add: starts_in_order_snoc split: sum.splits)
  show ?thesis
  proof (cases outcome)
    case (Inr detail)
    then have sets: "set (cf_pending c) \<union> set (remove1 s (cf_inflight c)) \<union> set (lr_completed (cf_run c) @ [s])
        = set (cf_pending c) \<union> set (cf_inflight c) \<union> set (lr_completed (cf_run c))"
      using s sub keep by auto
    have deps: "\<forall>x\<in>set (cf_pending c) \<union> set (remove1 s (cf_inflight c)).
        may_start levels (step_Name x) (set (names (lr_completed (cf_run c) @ [s])))"
      using p(7) sub by (auto intro: may_start_mono)
    show ?thesis
      unfolding run_inv_def
      using p Inr e f ord sets deps by (intro exI [of _ past]) (simp add: first_failure_def)
  next
    case (Inl rerr)
    have ne: "[] \<notin> set (of_kind StepFailed t)" using p(1,8) nm by (auto simp: named_def)
    have ff: "first_failure (t @ [e]) = lr_failed run'"
      using first_failure_Nil [OF ne] p(3) e f Inl
      by (cases "of_kind StepFailed t") (auto simp: first_failure_def)
    have "lr_completed run' = lr_completed (cf_run c)" using f Inl by simp
    moreover have "\<forall>x\<in>set (cf_pending c) \<union> set (remove1 s (cf_inflight c)).
        may_start levels (step_Name x) (set (names (lr_completed (cf_run c))))" using p(7) sub by auto
    moreover have "set (cf_pending c) \<union> set (remove1 s (cf_inflight c)) \<union> set (lr_completed (cf_run c)) \<subseteq> set (concat past)"
      using p(6) sub by auto
    ultimately show ?thesis
      unfolding run_inv_def
      using p Inl e ord ff sp by (intro exI [of _ past]) simp
  qed
qed

lemma run_inv_next_level:
  assumes inv: "run_inv levels t c" and nm: "named levels" and ok: "ok_levels levels"
    and n: "cf_pending c = []" "cf_inflight c = []" "lr_failed (cf_run c) = []" "cf_todo c = level # rest"
  shows "run_inv levels t (c\<lparr>cf_todo := rest, cf_pending := level\<rparr>)"
proof -
  obtain past where p: "levels = past @ cf_todo c" "of_kind StepSucceeded t = names (lr_completed (cf_run c))"
    "lr_failed (cf_run c) = first_failure t"
    "mset (of_kind StepStarted t) + mset (names (cf_pending c)) = mset (names (concat past))"
    "of_kind StepFailed t = [] \<longrightarrow>
        set (concat past) = set (cf_pending c) \<union> set (cf_inflight c) \<union> set (lr_completed (cf_run c))"
    "set (of_kind StepFailed t) \<subseteq> set (names (concat past))"
    "starts_in_order levels t" "of_kind StepCompensated t = []"
    using inv unfolding run_inv_def by blast
  have "[] \<notin> set (of_kind StepFailed t)" using p(1,6) nm by (auto simp: named_def)
  then have nf: "of_kind StepFailed t = []" using first_failure_Nil p(3) n(3) by metis
  then have allc: "set (concat past) = set (lr_completed (cf_run c))" using p(5) n by simp
  have deps: "set (step_DependsOn s) \<subseteq> set (names (lr_completed (cf_run c)))" if s: "s \<in> set level" for s
  proof
    fix d assume d: "d \<in> set (step_DependsOn s)"
    have "levels ! length past = level" "length past < length levels" using p(1) n(4) by simp_all
    with ok s d obtain j where j: "j < length past" "d \<in> set (names (levels ! j))"
      unfolding ok_levels_def by blast
    then have "d \<in> set (names (past ! j))" using p(1) by (simp add: nth_append)
    then obtain x where "x \<in> set (past ! j)" "d = step_Name x" by auto
    with j(1) have "x \<in> set (concat past)" using nth_mem by fastforce
    with allc \<open>d = step_Name x\<close> show "d \<in> set (names (lr_completed (cf_run c)))" by simp
  qed
  have "may_start levels (step_Name s) (set (names (lr_completed (cf_run c))))" if s: "s \<in> set level" for s
    unfolding may_start_def
  proof (intro conjI ballI impI exI)
    have inl: "s \<in> set (concat levels)" using p(1) n(4) s by auto
    fix s' assume "s' \<in> set (concat levels)" "step_Name s' = step_Name s"
    then have "s' = s" by (rule step_by_name [OF nm _ inl])
    with deps s show "set (step_DependsOn s') \<subseteq> set (names (lr_completed (cf_run c)))" by simp
  next
    show "levels = past @ level # rest" using p(1) n(4) by simp
    show "step_Name s \<in> set (names level)" using s by simp
    show "set (names (concat past)) \<subseteq> set (names (lr_completed (cf_run c)))" using allc by simp
  qed
  then show ?thesis
    unfolding run_inv_def
    using p n nf allc by (intro exI [of _ "past @ [level]"]) (auto simp: Un_commute)
qed

lemma run_step_inv:
  assumes "run_step run_result clock dagName c c'" and "run_inv levels t c" and "named levels" and "ok_levels levels"
    and "ms_all (cf_store c) = pre @ t"
  shows "\<exists>t'. run_inv levels t' c' \<and> ms_all (cf_store c') = pre @ t'"
  using assms(1)
proof (cases rule: run_step.cases)
  case (starts s)
  obtain e where e: "ms_all (emit clock (cf_store c) dagName (step_Name s) StepStarted (step_Runtime s))
      = ms_all (cf_store c) @ [e]" "ev_Kind e = StepStarted" "ev_Step e = step_Name s" by (rule emit_appends)
  from run_inv_starts [OF assms(2,3) starts(2) e(2,3)] starts(1) e(1) assms(5) show ?thesis
    by (intro exI [of _ "t @ [e]"]) simp
next
  case (finishes s run' m')
  let ?k = "case run_result s of Inl _ \<Rightarrow> StepFailed | Inr _ \<Rightarrow> StepSucceeded"
  let ?d = "case run_result s of Inl x \<Rightarrow> x | Inr x \<Rightarrow> x"
  have m': "m' = emit clock (cf_store c) dagName (step_Name s) ?k ?d"
    and run': "run' = (case run_result s of
       Inl rerr \<Rightarrow> if lr_failed (cf_run c) = [] then (cf_run c)\<lparr>lr_failed := step_Name s, lr_failErr := rerr\<rparr> else cf_run c
     | Inr _ \<Rightarrow> (cf_run c)\<lparr>lr_completed := lr_completed (cf_run c) @ [s]\<rparr>)"
    using finishes(3) by (auto simp: fold_outcome_def split: sum.splits)
  obtain e where e: "ms_all m' = ms_all (cf_store c) @ [e]" "ev_Kind e = ?k" "ev_Step e = step_Name s"
    unfolding m' by (rule emit_appends)
  from run_inv_finishes [OF assms(2,3) finishes(2) e(3,2) run'] finishes(1) e(1) assms(5) show ?thesis
    by (intro exI [of _ "t @ [e]"]) simp
next
  case (next_level level rest)
  from run_inv_next_level [OF assms(2-4) next_level(2-5)] next_level(1) assms(5) show ?thesis
    by (intro exI [of _ t]) simp
qed

lemma run_steps_inv:
  assumes "(run_step run_result clock dagName)\<^sup>*\<^sup>* (initial levels m) c" and "named levels" and "ok_levels levels"
  shows "\<exists>t. run_inv levels t c \<and> ms_all (cf_store c) = ms_all m @ t"
  using assms(1)
proof (induction rule: rtranclp_induct)
  case base
  have "ms_all (cf_store (initial levels m)) = ms_all m @ []" by (simp add: initial_def)
  then show ?case using run_inv_initial by blast
next
  case (step c c')
  then show ?case using run_step_inv assms(2,3) by blast
qed

lemma runLevels_trail:
  assumes "runLevels run_result clock dagName levels m (run, m1)" and "named levels" and "ok_levels levels"
  shows "\<exists>t. ms_all m1 = ms_all m @ t \<and> of_kind StepSucceeded t = names (lr_completed run) \<and>
    lr_failed run = first_failure t \<and> distinct (of_kind StepStarted t) \<and> starts_in_order levels t \<and>
    of_kind StepCompensated t = [] \<and>
    (lr_failed run = [] \<longrightarrow> of_kind StepFailed t = [] \<and> set (lr_completed run) = set (concat levels))"
  using assms(1)
proof (cases rule: runLevels.cases)
  case (1 c)
  obtain t where t: "run_inv levels t c" "ms_all (cf_store c) = ms_all m @ t"
    using run_steps_inv [OF 1(3) assms(2,3)] by blast
  obtain past where p: "levels = past @ cf_todo c" "of_kind StepSucceeded t = names (lr_completed (cf_run c))"
    "lr_failed (cf_run c) = first_failure t"
    "mset (of_kind StepStarted t) + mset (names (cf_pending c)) = mset (names (concat past))"
    "of_kind StepFailed t = [] \<longrightarrow>
        set (concat past) = set (cf_pending c) \<union> set (cf_inflight c) \<union> set (lr_completed (cf_run c))"
    "set (of_kind StepFailed t) \<subseteq> set (names (concat past))"
    "starts_in_order levels t" "of_kind StepCompensated t = []"
    using t(1) unfolding run_inv_def by blast
  have "distinct (names (concat past))" using assms(2) p(1) by (simp add: named_def)
  then have "distinct (of_kind StepStarted t)"
    using p(4) 1(4) by (simp add: run_done_def) (metis mset_eq_imp_distinct_iff mset_map)
  moreover have "[] \<notin> set (of_kind StepFailed t)" using p(1,6) assms(2) by (auto simp: named_def)
  then have "lr_failed (cf_run c) = [] \<longrightarrow> of_kind StepFailed t = []" using first_failure_Nil p(3) by metis
  moreover have "lr_failed (cf_run c) = [] \<longrightarrow> set (lr_completed (cf_run c)) = set (concat levels)"
    using 1(4) p(1,5) \<open>lr_failed (cf_run c) = [] \<longrightarrow> of_kind StepFailed t = []\<close> by (auto simp: run_done_def)
  ultimately show ?thesis using p t(2) 1(1,2) by (intro exI [of _ t]) simp
qed

section \<open>Runs end\<close>

definition work_left :: "config \<Rightarrow> nat" where
  "work_left c = 3 * length (concat (cf_todo c)) + length (cf_todo c) + 2 * length (cf_pending c) + length (cf_inflight c)"

lemma run_step_decreases: "run_step run_result clock dagName c c' \<Longrightarrow> work_left c' < work_left c"
proof (induction rule: run_step.induct)
  case (starts s c)
  then have "length (cf_pending c) = Suc (length (remove1 s (cf_pending c)))" by (simp add: length_remove1) (metis Suc_pred length_pos_if_in_set)
  then show ?case by (simp add: work_left_def)
next
  case (finishes s c run' m')
  then have "length (cf_inflight c) = Suc (length (remove1 s (cf_inflight c)))" by (simp add: length_remove1) (metis Suc_pred length_pos_if_in_set)
  then show ?case by (simp add: work_left_def)
next
  case (next_level c level rest)
  then show ?case by (simp add: work_left_def)
qed

lemma run_step_progress:
  assumes "\<not> run_done c"
  shows "\<exists>c'. run_step run_result clock dagName c c'"
proof -
  consider s where "s \<in> set (cf_pending c)" | s where "s \<in> set (cf_inflight c)"
    | level rest where "cf_pending c = []" "cf_inflight c = []" "lr_failed (cf_run c) = []" "cf_todo c = level # rest"
    using assms by (cases "cf_pending c"; cases "cf_inflight c"; cases "cf_todo c") (auto simp: run_done_def)
  then show ?thesis
  proof cases
    case 2
    obtain run' m' where "fold_outcome clock dagName s (run_result s) (cf_run c, cf_store c) = (run', m')" by fastforce
    from run_step.finishes [of s c clock dagName run_result, OF 2 this] show ?thesis by blast
  qed (blast intro: run_step.starts run_step.next_level)+
qed

lemma run_reaches_done: "\<exists>c'. (run_step run_result clock dagName)\<^sup>*\<^sup>* c c' \<and> run_done c'"
proof (induction c rule: measure_induct_rule [of work_left])
  case (less c)
  show ?case
  proof (cases "run_done c")
    case False
    then obtain c1 where s: "run_step run_result clock dagName c c1" using run_step_progress by blast
    with less run_step_decreases obtain c' where "(run_step run_result clock dagName)\<^sup>*\<^sup>* c1 c'" "run_done c'" by blast
    with s show ?thesis by (meson converse_rtranclp_into_rtranclp)
  qed blast
qed

lemma compensate_trail:
  "\<exists>t. ms_all (compensate_all comp_result clock dagName ss m) = ms_all m @ t \<and> of_kind StepCompensated t = names ss \<and>
     (\<forall>k. k \<noteq> StepCompensated \<longrightarrow> of_kind k t = [])"
proof (induction ss arbitrary: m)
  case (Cons s ss)
  obtain d where d: "compensate_all comp_result clock dagName (s # ss) m
      = compensate_all comp_result clock dagName ss (emit clock m dagName (step_Name s) StepCompensated d)"
    by (cases "comp_result s") auto
  obtain e where e: "ms_all (emit clock m dagName (step_Name s) StepCompensated d) = ms_all m @ [e]"
    "ev_Kind e = StepCompensated" "ev_Step e = step_Name s" by (rule emit_appends)
  obtain t where "ms_all (compensate_all comp_result clock dagName ss (emit clock m dagName (step_Name s) StepCompensated d))
      = ms_all (emit clock m dagName (step_Name s) StepCompensated d) @ t" "of_kind StepCompensated t = names ss"
    "\<forall>k. k \<noteq> StepCompensated \<longrightarrow> of_kind k t = []"
    using Cons.IH by blast
  then show ?case using d e by (intro exI [of _ "e # t"]) (auto simp: of_kind_def)
qed simp

lemma Layers_named:
  assumes "Layers dag = Inr levels" and "\<forall>s\<in>set (dag_Steps dag). step_Name s \<noteq> []"
  shows "named levels" and "ok_levels levels" and "set (concat levels) = set (dag_Steps dag)"
proof -
  note L = Layers_Inr [OF assms(1)]
  show seteq: "set (concat levels) = set (dag_Steps dag)" using L by (metis set_mset_mset)
  have "mset (names (concat levels)) = mset (names (dag_Steps dag))" using L by (metis mset_map)
  then show "named levels"
    using L seteq assms(2) unfolding named_def by (metis (no_types, lifting) imageE list.set_map mset_eq_imp_distinct_iff)
  show "ok_levels levels" using L by (simp add: layered_def)
qed

lemma failed_trail:
  assumes "runLevels run_result clock dagName levels m0 (run, m1)" and "named levels" and "ok_levels levels"
    and "ms_all m0 = ms_all m @ [e0]" and "ev_Kind e0 = RunStarted" and "lr_failed run \<noteq> []"
  shows "\<exists>t. ms_all (emit clock (compensate comp_result clock dagName (lr_completed run) m1) dagName (lr_failed run)
          RunFailed (lr_failErr run)) = ms_all m @ t \<and> distinct (of_kind StepStarted t) \<and>
    starts_in_order levels t \<and> lr_failed run = hd (of_kind StepFailed t) \<and> of_kind StepFailed t \<noteq> [] \<and>
    of_kind StepCompensated t = rev (of_kind StepSucceeded t)"
proof -
  obtain t where t: "ms_all m1 = ms_all m @ [e0] @ t" "of_kind StepSucceeded t = names (lr_completed run)"
    "lr_failed run = first_failure t" "distinct (of_kind StepStarted t)" "starts_in_order levels t"
    "of_kind StepCompensated t = []"
    using runLevels_trail [OF assms(1-3)] assms(4) by auto
  obtain u where u: "ms_all (compensate comp_result clock dagName (lr_completed run) m1) = ms_all m1 @ u"
    "of_kind StepCompensated u = rev (names (lr_completed run))" "\<forall>k. k \<noteq> StepCompensated \<longrightarrow> of_kind k u = []"
    using compensate_trail [of comp_result clock dagName "rev (lr_completed run)" m1]
    by (auto simp: compensate_def rev_map)
  obtain e1 where e1: "ms_all (emit clock (compensate comp_result clock dagName (lr_completed run) m1) dagName
        (lr_failed run) RunFailed (lr_failErr run))
      = ms_all (compensate comp_result clock dagName (lr_completed run) m1) @ [e1]"
    "ev_Kind e1 = RunFailed" by (rule emit_appends)
  let ?t = "[e0] @ t @ u @ [e1]"
  have fl: "of_kind StepFailed t \<noteq> []" "lr_failed run = hd (of_kind StepFailed t)"
    using assms(6) t(3) by (cases "of_kind StepFailed t"; simp add: first_failure_def)+
  have starts: "starts_in_order levels ?t"
    using starts_in_order_Cons [OF t(5), of e0] starts_in_order_append [of "u @ [e1]" levels "e0 # t"]
      assms(5) e1(2) u(3) by simp
  have kinds: "of_kind StepStarted ?t = of_kind StepStarted t" "of_kind StepFailed ?t = of_kind StepFailed t"
    "of_kind StepSucceeded ?t = names (lr_completed run)" "of_kind StepCompensated ?t = rev (names (lr_completed run))"
    using assms(5) e1(2) u(2,3) t(2,6) by simp_all
  have all: "ms_all (emit clock (compensate comp_result clock dagName (lr_completed run) m1) dagName (lr_failed run)
      RunFailed (lr_failErr run)) = ms_all m @ ?t" using e1(1) u(1) t(1) by simp
  show ?thesis
    by (intro exI [of _ ?t] conjI all starts) (use kinds t(4) fl in simp_all)
qed

lemma succeeded_trail:
  assumes "runLevels run_result clock dagName levels m0 (run, m1)" and "named levels" and "ok_levels levels"
    and "ms_all m0 = ms_all m @ [e0]" and "ev_Kind e0 = RunStarted" and "lr_failed run = []"
  shows "\<exists>t. ms_all (emit clock m1 dagName [] RunSucceeded []) = ms_all m @ t \<and> distinct (of_kind StepStarted t) \<and>
    starts_in_order levels t \<and> set (of_kind StepSucceeded t) = set (names (concat levels)) \<and>
    of_kind StepFailed t = [] \<and> of_kind StepCompensated t = []"
proof -
  obtain t where t: "ms_all m1 = ms_all m @ [e0] @ t" "of_kind StepSucceeded t = names (lr_completed run)"
    "distinct (of_kind StepStarted t)" "starts_in_order levels t" "of_kind StepCompensated t = []"
    "of_kind StepFailed t = []" "set (lr_completed run) = set (concat levels)"
    using runLevels_trail [OF assms(1-3)] assms(4,6) by auto
  obtain e1 where e1: "ms_all (emit clock m1 dagName [] RunSucceeded []) = ms_all m1 @ [e1]" "ev_Kind e1 = RunSucceeded"
    by (rule emit_appends)
  let ?t = "[e0] @ t @ [e1]"
  have starts: "starts_in_order levels ?t"
    using starts_in_order_Cons [OF t(4), of e0] starts_in_order_append [of "[e1]" levels "e0 # t"]
      assms(5) e1(2) by simp
  show ?thesis
    using t assms(5) e1 starts by (intro exI [of _ ?t]) simp
qed

section \<open>Properties\<close>

text \<open>No token, nothing executes. A run without a valid execution token (an empty value, or one that has
  expired), or of a workflow that cannot be ordered, has exactly one outcome: an error, no success, and an
  event store in which not one event was written.\<close>

theorem Run_refuses_without_token:
  assumes "tok_Value token = [] \<or> \<not> Valid token t1 \<or> Layers dag = Inl e"
  shows "Run run_result comp_result clock t0 t1 t2 token dag m (res, err, m') \<longleftrightarrow>
    res = \<lparr>rr_DAGName = dag_Name dag, rr_Success = False, rr_FailedStep = [], rr_StartedAt = t0, rr_FinishedAt = t2\<rparr> \<and>
    err = Some (if tok_Value token = [] \<or> \<not> Valid token t1 then TokenInvalid (dag_Name dag)
                else WorkflowRejected e) \<and> m' = m"
proof
  assume "Run run_result comp_result clock t0 t1 t2 token dag m (res, err, m')"
  then show "res = \<lparr>rr_DAGName = dag_Name dag, rr_Success = False, rr_FailedStep = [], rr_StartedAt = t0, rr_FinishedAt = t2\<rparr> \<and>
    err = Some (if tok_Value token = [] \<or> \<not> Valid token t1 then TokenInvalid (dag_Name dag)
                else WorkflowRejected e) \<and> m' = m"
    using assms by (cases rule: Run.cases) auto
next
  assume "res = \<lparr>rr_DAGName = dag_Name dag, rr_Success = False, rr_FailedStep = [], rr_StartedAt = t0, rr_FinishedAt = t2\<rparr> \<and>
    err = Some (if tok_Value token = [] \<or> \<not> Valid token t1 then TokenInvalid (dag_Name dag)
                else WorkflowRejected e) \<and> m' = m"
  then show "Run run_result comp_result clock t0 t1 t2 token dag m (res, err, m')"
    using assms by (cases "tok_Value token = [] \<or> \<not> Valid token t1") (auto intro: Run.refused Run.rejected)
qed

definition sample_token :: ExecutionToken where
  "sample_token = \<lparr>tok_Value = ''c0ffee'', tok_IntentID = ''INT-1'', tok_Scope = ''svc'', tok_PolicyID = ''acme.rbac'',
     tok_IssuedAt = 0, tok_ExpiresAt = 100\<rparr>"

theorem Run_refuses_without_token_witness:
  "\<not> (\<exists>res m'. Run (\<lambda>_. Inr []) (\<lambda>_. Inr []) int 5 200 6 sample_token diamond NewMemStore (res, None, m'))"
proof -
  have h: "tok_Value sample_token = [] \<or> \<not> Valid sample_token 200 \<or> Layers diamond = Inl (WorkflowCycle 0)"
    by (simp add: sample_token_def Valid_def)
  show ?thesis using Run_refuses_without_token [OF h] by blast
qed

text \<open>C13: the trail of a run, over every interleaving of a level's steps. Take a workflow whose steps have non-empty
  names and that can be ordered, and any run of it under a valid token. The events are appended to the store; no step
  starts twice; a step starts only when each step it depends on has succeeded, and only when every step of the levels before
  its own has (so the levels run in order, and none after one with a failed step).
  If the run reports success then every step
  succeeded and none failed. If it reports failure then it names the step that failed first, and the steps
  compensated are exactly the steps that had succeeded, in the reverse of the order in which they succeeded,
  whatever the compensations themselves returned.\<close>

theorem Run_trail:
  assumes "Run run_result comp_result clock t0 t1 t2 token dag m (res, err, m')"
    and "tok_Value token \<noteq> []" and "Valid token t1" and "Layers dag = Inr levels"
    and "\<forall>s\<in>set (dag_Steps dag). step_Name s \<noteq> []"
  shows "\<exists>t. ms_all m' = ms_all m @ t \<and> distinct (of_kind StepStarted t) \<and> starts_in_order levels t \<and>
    (if rr_Success res
     then err = None \<and> set (of_kind StepSucceeded t) = set (map step_Name (dag_Steps dag)) \<and>
          of_kind StepFailed t = [] \<and> of_kind StepCompensated t = []
     else err \<noteq> None \<and> rr_FailedStep res = hd (of_kind StepFailed t) \<and> of_kind StepFailed t \<noteq> [] \<and>
          of_kind StepCompensated t = rev (of_kind StepSucceeded t))"
proof -
  note L = Layers_named [OF assms(4,5)]
  obtain e0 where e0: "ms_all (emit clock m (dag_Name dag) [] RunStarted (''intent '' @ tok_IntentID token)) = ms_all m @ [e0]"
    "ev_Kind e0 = RunStarted" by (rule emit_appends)
  from assms(1) show ?thesis
  proof (cases rule: Run.cases)
    case (failed levels' run m1)
    then have "runLevels run_result clock (dag_Name dag) levels
        (emit clock m (dag_Name dag) [] RunStarted (''intent '' @ tok_IntentID token)) (run, m1)" using assms(4) by simp
    from failed_trail [OF this L(1,2) e0, of comp_result] failed show ?thesis by fastforce
  next
    case (succeeded levels' run m1)
    then have "runLevels run_result clock (dag_Name dag) levels
        (emit clock m (dag_Name dag) [] RunStarted (''intent '' @ tok_IntentID token)) (run, m1)" using assms(4) by simp
    from succeeded_trail [OF this L(1,2) e0] succeeded L(3) show ?thesis by fastforce
  qed (use assms in auto)
qed

lemma Run_of_runLevels:
  assumes "tok_Value token \<noteq> []" and "Valid token t1" and "Layers dag = Inr levels"
    and "runLevels run_result clock (dag_Name dag) levels
      (emit clock m (dag_Name dag) [] RunStarted (''intent '' @ tok_IntentID token)) (run, m1)"
  shows "\<exists>res err m'. Run run_result comp_result clock t0 t1 t2 token dag m (res, err, m') \<and>
     rr_Success res = (lr_failed run = [])"
proof (cases "lr_failed run = []")
  case True
  with Run.succeeded [OF assms] show ?thesis by fastforce
next
  case False
  with Run.failed [OF assms False refl] show ?thesis by fastforce
qed

lemma runLevels_exists: "\<exists>run m1. runLevels run_result clock dagName levels m (run, m1)"
proof -
  obtain c where "(run_step run_result clock dagName)\<^sup>*\<^sup>* (initial levels m) c" "run_done c"
    using run_reaches_done by blast
  then show ?thesis using runLevels.intros by blast
qed

theorem Run_trail_witness:
  "\<exists>res err m' t. Run (\<lambda>s. if step_Name s = ''c'' then Inl ''boom'' else Inr []) (\<lambda>_. Inr ''undone'') int 5 6 7
       sample_token diamond NewMemStore (res, err, m') \<and> ms_all m' = t \<and>
     (if rr_Success res then of_kind StepFailed t = [] else of_kind StepCompensated t = rev (of_kind StepSucceeded t))"
proof -
  let ?r = "\<lambda>s. if step_Name s = ''c'' then Inl ''boom'' else Inr []"
  have v: "tok_Value sample_token \<noteq> []" "Valid sample_token 6" by (simp_all add: sample_token_def Valid_def)
  have n: "\<forall>s\<in>set (dag_Steps diamond). step_Name s \<noteq> []" by (simp add: diamond_def sample_step_def)
  obtain run m1 where "runLevels ?r int (dag_Name diamond) [[sample_step ''a'' []],
      [sample_step ''b'' [''a''], sample_step ''c'' [''a'']], [sample_step ''d'' [''b'', ''c'']]]
      (emit int NewMemStore (dag_Name diamond) [] RunStarted (''intent '' @ tok_IntentID sample_token)) (run, m1)"
    using runLevels_exists by blast
  from Run_of_runLevels [OF v Layers_diamond this] obtain res err m' where
    r: "Run ?r (\<lambda>_. Inr ''undone'') int 5 6 7 sample_token diamond NewMemStore (res, err, m')" by blast
  from Run_trail [OF r v Layers_diamond n] obtain t where t: "ms_all m' = ms_all NewMemStore @ t"
    "if rr_Success res then of_kind StepFailed t = [] else of_kind StepCompensated t = rev (of_kind StepSucceeded t)"
    by (metis (full_types))
  then have "ms_all m' = t" by (simp add: NewMemStore_def)
  with t(2) r show ?thesis by blast
qed

text \<open>C36: a governed run always ends. Under a valid token and an orderable workflow, every schedule makes finitely
  many transitions, a configuration that is not finished can always move, and so \<open>Run\<close> has an outcome: whatever the
  runner returns for the steps, no schedule deadlocks at a level barrier or runs for ever.\<close>

theorem Run_always_ends:
  "wfP (\<lambda>c' c. run_step run_result clock dagName c c') \<and>
   (\<forall>c. \<not> run_done c \<longrightarrow> (\<exists>c'. run_step run_result clock dagName c c')) \<and>
   (\<exists>out. Run run_result comp_result clock t0 t1 t2 token dag m out)"
proof (intro conjI)
  show "wfP (\<lambda>c' c. run_step run_result clock dagName c c')"
    by (rule wfp_if_convertible_to_nat [where f = work_left]) (rule run_step_decreases)
  show "\<forall>c. \<not> run_done c \<longrightarrow> (\<exists>c'. run_step run_result clock dagName c c')"
    using run_step_progress by blast
  show "\<exists>out. Run run_result comp_result clock t0 t1 t2 token dag m out"
  proof (cases "tok_Value token = [] \<or> \<not> Valid token t1")
    case True
    then show ?thesis by (blast intro: Run.refused)
  next
    case ok: False
    show ?thesis
    proof (cases "Layers dag")
      case (Inl e)
      with ok show ?thesis by (blast intro: Run.rejected)
    next
      case (Inr levels)
      obtain run m1 where "runLevels run_result clock (dag_Name dag) levels
          (emit clock m (dag_Name dag) [] RunStarted (''intent '' @ tok_IntentID token)) (run, m1)"
        using runLevels_exists by blast
      from Run_of_runLevels [OF _ _ Inr this] ok show ?thesis by blast
    qed
  qed
qed

theorem Run_always_ends_witness:
  "\<exists>out. Run (\<lambda>_. Inl ''boom'') (\<lambda>_. Inr []) int 5 6 7 sample_token diamond NewMemStore out"
  using Run_always_ends [of "\<lambda>_. Inl ''boom''" int "''d''" "\<lambda>_. Inr []" 5 6 7 sample_token diamond NewMemStore] by blast

text \<open>A failing step with an empty name is reported as success. The engine remembers a failure as the name of
  the step, with the empty name for none: for a workflow of one step named by the empty string whose run returns
  an error, every run under a valid token reports success, although the trail holds the failure.\<close>

theorem empty_name_failure_reported_as_success:
  assumes "dag_Steps dag = [s]" and "step_Name s = []" and "step_DependsOn s = []" and "run_result s = Inl rerr"
    and "tok_Value token \<noteq> []" and "Valid token t1"
    and "Run run_result comp_result clock t0 t1 t2 token dag m (res, err, m')"
  shows "rr_Success res \<and> err = None"
proof -
  have L: "Layers dag = Inr [[s]]"
    using assms(1-3) by (simp add: Layers_def newDependencyGraph_def layers_loop.simps readyNow_def consume_def
        step_named_def set_waiting_def waiting_def)
  have keep: "lr_failed (cf_run c) = [] \<and> set (cf_pending c) \<union> set (cf_inflight c) \<union> set (concat (cf_todo c)) \<subseteq> {s}"
    if "(run_step run_result clock (dag_Name dag))\<^sup>*\<^sup>* (initial [[s]] m0) c" for c m0
    using that
  proof (induction rule: rtranclp_induct)
    case base
    then show ?case by (simp add: initial_def)
  next
    case (step c c')
    from step(2) show ?case
    proof (cases rule: run_step.cases)
      case (starts x)
      with step(3) show ?thesis using set_remove1_subset [of x "cf_pending c"] by auto
    next
      case (finishes x run' m1)
      with step(3) have "x = s" by auto
      with finishes(3) assms(2,4) step(3) have "lr_failed run' = []" by (auto simp: fold_outcome_def split: if_splits)
      with finishes step(3) show ?thesis using set_remove1_subset [of x "cf_inflight c"] by auto
    next
      case (next_level level rest)
      with step(3) show ?thesis by auto
    qed
  qed
  from assms(7) show ?thesis
  proof (cases rule: Run.cases)
    case (failed levels run m1)
    then show ?thesis using L keep by (auto elim!: runLevels.cases)
  qed (use assms(5,6) L in auto)
qed

theorem empty_name_failure_reported_as_success_witness:
  "\<exists>res err m'. Run (\<lambda>_. Inl ''boom'') (\<lambda>_. Inr []) int 5 6 7 sample_token
      \<lparr>dag_Name = ''x'', dag_Steps = [zero_Step]\<rparr> NewMemStore (res, err, m') \<and> rr_Success res"
proof -
  let ?d = "\<lparr>dag_Name = ''x'', dag_Steps = [zero_Step]\<rparr>"
  have v: "tok_Value sample_token \<noteq> []" "Valid sample_token 6" by (simp_all add: sample_token_def Valid_def)
  have L: "Layers ?d = Inr [[zero_Step]]" by code_simp
  obtain run m1 where "runLevels (\<lambda>_. Inl ''boom'') int (dag_Name ?d) [[zero_Step]]
      (emit int NewMemStore (dag_Name ?d) [] RunStarted (''intent '' @ tok_IntentID sample_token)) (run, m1)"
    using runLevels_exists by blast
  from Run_of_runLevels [OF v L this] obtain res err m' where
    r: "Run (\<lambda>_. Inl ''boom'') (\<lambda>_. Inr []) int 5 6 7 sample_token ?d NewMemStore (res, err, m')" by blast
  from empty_name_failure_reported_as_success [OF _ _ _ _ v r, of zero_Step "''boom''"] r show ?thesis
    by (auto simp: zero_Step_def)
qed

end
