(* ===== verification/Kv_Store.thy ===== *)
theory Kv_Store
  imports Grants
begin

text \<open>
  The key-value \<open>Store\<close> port (\<open>contracts.go\<close>) and its in-memory driver, \<open>internal/store/mem.go\<close>. A store is
  its three operations on a state; the locale \<open>kv_store\<close> states what its clients rely on. A value is of
  any type: the bytes a client stores are modelled by what they decode to.
\<close>

record ('s, 'v) Store =
  st_Put :: "'s \<Rightarrow> string \<Rightarrow> 'v \<Rightarrow> string option \<times> 's" \<comment> \<open>\<open>Some\<close>: the error\<close>
  st_Get :: "'s \<Rightarrow> string \<Rightarrow> string + 'v option" \<comment> \<open>\<open>Inr None\<close>: nil bytes, no error\<close>
  st_List :: "'s \<Rightarrow> string \<Rightarrow> string + string list"

record 'v Mem =
  mem_data :: "'v gomap"

definition NewMem :: "'v Mem" where
  "NewMem = \<lparr>mem_data = []\<rparr>"

definition mem_Put :: "'v Mem \<Rightarrow> string \<Rightarrow> 'v \<Rightarrow> string option \<times> 'v Mem" where
  "mem_Put m key value = (None, m\<lparr>mem_data := gset (mem_data m) key value\<rparr>)"

definition mem_Get :: "'v Mem \<Rightarrow> string \<Rightarrow> string + 'v option" where
  "mem_Get m key =
     (case map_of (mem_data m) key of
        None \<Rightarrow> Inl (''key '' @ go_quote key @ '' not found'')
      | Some v \<Rightarrow> Inr (Some v))"

definition mem_List :: "'v Mem \<Rightarrow> string \<Rightarrow> string + string list" where
  "mem_List m p = Inr (filter (\<lambda>k. HasPrefix k p) (keys (mem_data m)))"

definition mem_store :: "('v Mem, 'v) Store" where
  "mem_store = \<lparr>st_Put = mem_Put, st_Get = mem_Get, st_List = mem_List\<rparr>"

definition mem_view :: "'v Mem \<Rightarrow> string \<Rightarrow> 'v option" where
  "mem_view m = map_of (mem_data m)"

section \<open>The interface\<close>

locale kv_store =
  fixes store :: "('s, 'v) Store"
    and view :: "'s \<Rightarrow> string \<Rightarrow> 'v option"
  assumes put_ok: "st_Put store s k v = (None, s') \<Longrightarrow> view s' = (view s)(k \<mapsto> v)"
    and put_error: "st_Put store s k v = (Some e, s') \<Longrightarrow> view s' = view s"
    and get_present: "view s k = Some v \<Longrightarrow> st_Get store s k = Inr (Some v)"
    and get_absent: "view s k = None \<Longrightarrow> st_Get store s k = Inr None \<or> (\<exists>e. st_Get store s k = Inl e)"
    and list_keys: "\<exists>ks. st_List store s p = Inr ks \<and> set ks = {k. HasPrefix k p \<and> view s k \<noteq> None}"
begin

lemma get_after_put:
  assumes "st_Put store s k v = (None, s')"
  shows "st_Get store s' k = Inr (Some v)"
  using get_present put_ok [OF assms] by simp

lemma put_other: "st_Put store s k v = (r, s') \<Longrightarrow> k' \<noteq> k \<Longrightarrow> view s' k' = view s k'"
  using put_ok put_error by (cases r) fastforce+

lemma put_cases:
  assumes "st_Put store s k v = (r, s')"
  shows "view s' = view s \<or> view s' = (view s)(k \<mapsto> v)"
  using assms put_ok put_error by (cases r) blast+

end

interpretation mem_kv: kv_store mem_store mem_view
  by unfold_locales
    (auto simp: mem_store_def mem_view_def mem_Put_def mem_Get_def mem_List_def fun_eq_iff map_of_None_keys
      split: option.splits)

end
