(* ===== verification/Artifact_Registry.thy ===== *)
theory Artifact_Registry
  imports Contracts Grants Kv_Store
begin

text \<open>
  The governed artifact registry: package \<open>registry\<close> (\<open>registry.go\<close>, \<open>lifecycle.go\<close>, \<open>resolve.go\<close>, \<open>promote.go\<close>,
  \<open>dependents.go\<close>, \<open>source.go\<close>). A registry works on any store: its operations take and return the store's state,
  and its lemmas are proved in the locale \<open>registry_store\<close> from the store's contract.

  The bytes under a key are a \<open>blob\<close>: the JSON of an entry, or other bytes, which do not decode as one. Two
  parameters of a registry stand for \<open>encoding/json\<close>: \<open>rg_compact\<close>, the text a raw message is written as (\<open>None\<close>
  when it is not JSON, and marshalling fails), and \<open>rg_bytes\<close>, the text of a whole entry. The parameter \<open>sha\<close> is the
  hexadecimal SHA-256. Every reading of the clock is an argument.
\<close>

datatype Status = StatusDraft | StatusInReview | StatusPublished | StatusDeprecated | StatusDemised

record Version =
  ver_Version :: string
  ver_Env :: string
  ver_Status :: Status
  ver_Ref :: string
  ver_Manifest :: string
  ver_Provenance :: "string gomap"
  ver_Default :: bool
  ver_ProposedBy :: string
  ver_ApprovedBy :: string
  ver_ChangeRef :: string
  ver_TestPassed :: bool
  ver_TestedAt :: int
  ver_TestRef :: string
  ver_PublishedAt :: int
  ver_UpdatedAt :: int

record Entry =
  ent_Name :: string
  ent_Kind :: string
  ent_Title :: string
  ent_Owner :: string
  ent_Versions :: "Version list"

record PromotionPolicy =
  pp_RequiresApproval :: bool
  pp_RequireSoD :: bool
  pp_RequireTestBeforePromote :: bool

definition LooseDev :: PromotionPolicy where
  "LooseDev = \<lparr>pp_RequiresApproval = False, pp_RequireSoD = False, pp_RequireTestBeforePromote = False\<rparr>"

definition SealedProd :: PromotionPolicy where
  "SealedProd = \<lparr>pp_RequiresApproval = True, pp_RequireSoD = True, pp_RequireTestBeforePromote = True\<rparr>"

datatype blob = JEntry Entry | Raw string

record 's Registry =
  rg_store :: "('s, blob) Store"
  rg_env :: string
  rg_policy :: PromotionPolicy
  rg_compact :: "string \<Rightarrow> string option"
  rg_bytes :: "Entry \<Rightarrow> string"

definition reg_New :: "('s, blob) Store \<Rightarrow> string \<Rightarrow> PromotionPolicy \<Rightarrow> (string \<Rightarrow> string option) \<Rightarrow> (Entry \<Rightarrow> string) \<Rightarrow> 's Registry" where
  "reg_New store env policy compact bytes =
     \<lparr>rg_store = store, rg_env = env, rg_policy = policy, rg_compact = compact, rg_bytes = bytes\<rparr>"

record Registration =
  reg_Name :: string
  reg_Kind :: string
  reg_Title :: string
  reg_Owner :: string
  reg_Version :: string
  reg_Ref :: string
  reg_Manifest :: string

datatype registry_error =
    NameAndVersionRequired
  | VersionExists string string
  | EntryNotFound string
  | VersionNotFound string string
  | WrongStatus string string Status
  | Untested string string
  | ApproverIsProposer string
  | StillUsed string string "string list"
  | DefaultNotPublished
  | StrictPinUnavailable string string
  | NoDefaultSet string string
  | NotJson
  | BadEntry
  | StoreFailed string
  | FetchFailed string

section \<open>Entries\<close>

definition entryPrefix :: string where "entryPrefix = ''registry/''"
definition pinPrefix :: string where "pinPrefix = ''registry-pin/''"

definition safeName :: "string \<Rightarrow> string" where
  "safeName name = ReplaceByte (CHR 0x2F) (CHR ''_'') name"

definition zero_Version :: Version where
  "zero_Version = \<lparr>ver_Version = [], ver_Env = [], ver_Status = StatusDraft, ver_Ref = [], ver_Manifest = [],
     ver_Provenance = [], ver_Default = False, ver_ProposedBy = [], ver_ApprovedBy = [], ver_ChangeRef = [],
     ver_TestPassed = False, ver_TestedAt = zero_time, ver_TestRef = [], ver_PublishedAt = zero_time, ver_UpdatedAt = zero_time\<rparr>"

text \<open>\<open>indexOf\<close>: \<open>None\<close> is the result -1.\<close>

fun index_from :: "nat \<Rightarrow> Version list \<Rightarrow> string \<Rightarrow> nat option" where
  "index_from i [] version = None"
| "index_from i (v # vs) version = (if ver_Version v = version then Some i else index_from (Suc i) vs version)"

definition indexOf :: "Entry \<Rightarrow> string \<Rightarrow> nat option" where
  "indexOf e version = index_from 0 (ent_Versions e) version"

definition reg_get :: "'s Registry \<Rightarrow> 's \<Rightarrow> string \<Rightarrow> registry_error + Entry option" where
  "reg_get r s name =
     (case st_Get (rg_store r) s (entryPrefix @ safeName name) of
        Inl err \<Rightarrow> Inr None
      | Inr None \<Rightarrow> Inr None
      | Inr (Some (Raw t)) \<Rightarrow> Inl BadEntry
      | Inr (Some (JEntry e)) \<Rightarrow> Inr (Some e))"

text \<open>\<open>json.Marshal\<close> of an entry: raw messages are written compacted, empty ones are omitted.\<close>

definition marshal_version :: "'s Registry \<Rightarrow> Version \<Rightarrow> Version option" where
  "marshal_version r v =
     (if ver_Manifest v = [] then Some v
      else map_option (\<lambda>m. v\<lparr>ver_Manifest := m\<rparr>) (rg_compact r (ver_Manifest v)))"

definition marshal_entry :: "'s Registry \<Rightarrow> Entry \<Rightarrow> Entry option" where
  "marshal_entry r e =
     (if \<exists>v\<in>set (ent_Versions e). marshal_version r v = None then None
      else Some (e\<lparr>ent_Versions := map (\<lambda>v. the (marshal_version r v)) (ent_Versions e)\<rparr>))"

definition reg_save :: "'s Registry \<Rightarrow> 's \<Rightarrow> Entry \<Rightarrow> registry_error option \<times> 's" where
  "reg_save r s e =
     (case marshal_entry r e of
        None \<Rightarrow> (Some NotJson, s)
      | Some e' \<Rightarrow>
          (case st_Put (rg_store r) s (entryPrefix @ safeName (ent_Name e)) (JEntry e') of
             (Some err, s') \<Rightarrow> (Some (StoreFailed err), s')
           | (None, s') \<Rightarrow> (None, s')))"

definition Register :: "'s Registry \<Rightarrow> int \<Rightarrow> Registration \<Rightarrow> 's \<Rightarrow> (registry_error + Entry) \<times> 's" where
  "Register r now reg s =
     (if TrimSpace (reg_Name reg) = [] \<or> TrimSpace (reg_Version reg) = [] then (Inl NameAndVersionRequired, s)
      else (case reg_get r s (reg_Name reg) of
              Inl err \<Rightarrow> (Inl err, s)
            | Inr found \<Rightarrow>
                (let e = (case found of
                            Some e \<Rightarrow> e
                          | None \<Rightarrow> \<lparr>ent_Name = reg_Name reg, ent_Kind = reg_Kind reg, ent_Title = reg_Title reg,
                                     ent_Owner = reg_Owner reg, ent_Versions = []\<rparr>)
                 in if indexOf e (reg_Version reg) \<noteq> None
                    then (Inl (VersionExists (reg_Name reg) (reg_Version reg)), s)
                    else (let e' = e\<lparr>ent_Versions := ent_Versions e @
                                [zero_Version\<lparr>ver_Version := reg_Version reg, ver_Env := rg_env r, ver_Status := StatusDraft,
                                   ver_Ref := reg_Ref reg, ver_Manifest := reg_Manifest reg, ver_UpdatedAt := now\<rparr>]\<rparr>
                          in case reg_save r s e' of
                               (Some err, s') \<Rightarrow> (Inl err, s')
                             | (None, s') \<Rightarrow> (Inr e', s')))))"

definition reg_Get :: "'s Registry \<Rightarrow> 's \<Rightarrow> string \<Rightarrow> registry_error + Entry option" where
  "reg_Get r s name = reg_get r s name"

definition list_entry :: "'s Registry \<Rightarrow> 's \<Rightarrow> string \<Rightarrow> Entry option" where
  "list_entry r s k =
     (case st_Get (rg_store r) s k of
        Inr (Some (JEntry e)) \<Rightarrow> Some (e\<lparr>ent_Versions := map (\<lambda>v. v\<lparr>ver_Manifest := []\<rparr>) (ent_Versions e)\<rparr>)
      | _ \<Rightarrow> None)"

definition reg_List :: "'s Registry \<Rightarrow> 's \<Rightarrow> registry_error + Entry list" where
  "reg_List r s =
     (case st_List (rg_store r) s entryPrefix of
        Inl err \<Rightarrow> Inl (StoreFailed err)
      | Inr ks \<Rightarrow> Inr (sort_key ent_Name (List.map_filter (list_entry r s) ks)))"

section \<open>Lifecycle\<close>

definition transition :: "'s Registry \<Rightarrow> int \<Rightarrow> string \<Rightarrow> string \<Rightarrow> (Version \<Rightarrow> registry_error + Version) \<Rightarrow> 's
    \<Rightarrow> (registry_error + Version) \<times> 's" where
  "transition r now name version fn s =
     (case reg_get r s name of
        Inl err \<Rightarrow> (Inl err, s)
      | Inr None \<Rightarrow> (Inl (EntryNotFound name), s)
      | Inr (Some e) \<Rightarrow>
          (case indexOf e version of
             None \<Rightarrow> (Inl (VersionNotFound name version), s)
           | Some idx \<Rightarrow>
               (case fn (ent_Versions e ! idx) of
                  Inl err \<Rightarrow> (Inl err, s)
                | Inr v \<Rightarrow>
                    (let v' = v\<lparr>ver_UpdatedAt := now\<rparr>;
                         e' = e\<lparr>ent_Versions := (ent_Versions e)[idx := v']\<rparr>
                     in case reg_save r s e' of
                          (Some err, s') \<Rightarrow> (Inl err, s')
                        | (None, s') \<Rightarrow> (Inr v', s')))))"

definition link_fn :: "string \<Rightarrow> Version \<Rightarrow> registry_error + Version" where
  "link_fn changeRef v = Inr (v\<lparr>ver_ChangeRef := changeRef\<rparr>)"

definition LinkChange :: "'s Registry \<Rightarrow> int \<Rightarrow> string \<Rightarrow> string \<Rightarrow> string \<Rightarrow> 's \<Rightarrow> (registry_error + Version) \<times> 's" where
  "LinkChange r now name version changeRef = transition r now name version (link_fn changeRef)"

definition test_fn :: "string \<Rightarrow> string \<Rightarrow> bool \<Rightarrow> string \<Rightarrow> int \<Rightarrow> Version \<Rightarrow> registry_error + Version" where
  "test_fn name version passed ref t v =
     (if ver_Status v \<noteq> StatusDraft then Inl (WrongStatus name version (ver_Status v))
      else Inr (v\<lparr>ver_TestPassed := passed, ver_TestedAt := t, ver_TestRef := ref\<rparr>))"

definition RecordTest :: "'s Registry \<Rightarrow> int \<Rightarrow> int \<Rightarrow> string \<Rightarrow> string \<Rightarrow> bool \<Rightarrow> string \<Rightarrow> 's \<Rightarrow> (registry_error + Version) \<times> 's" where
  "RecordTest r t now name version passed ref = transition r now name version (test_fn name version passed ref t)"

definition propose_fn :: "PromotionPolicy \<Rightarrow> string \<Rightarrow> string \<Rightarrow> string \<Rightarrow> int \<Rightarrow> Version \<Rightarrow> registry_error + Version" where
  "propose_fn P name version proposedBy t v =
     (if ver_Status v \<noteq> StatusDraft then Inl (WrongStatus name version (ver_Status v))
      else if pp_RequireTestBeforePromote P \<and> \<not> ver_TestPassed v then Inl (Untested name version)
      else (let v1 = v\<lparr>ver_ProposedBy := proposedBy\<rparr>
            in if pp_RequiresApproval P then Inr (v1\<lparr>ver_Status := StatusInReview\<rparr>)
               else Inr (v1\<lparr>ver_Status := StatusPublished, ver_PublishedAt := t\<rparr>)))"

definition ProposePromote :: "'s Registry \<Rightarrow> int \<Rightarrow> int \<Rightarrow> string \<Rightarrow> string \<Rightarrow> string \<Rightarrow> 's \<Rightarrow> (registry_error + Version) \<times> 's" where
  "ProposePromote r t now name version proposedBy =
     transition r now name version (propose_fn (rg_policy r) name version proposedBy t)"

definition approve_fn :: "PromotionPolicy \<Rightarrow> string \<Rightarrow> string \<Rightarrow> string \<Rightarrow> int \<Rightarrow> Version \<Rightarrow> registry_error + Version" where
  "approve_fn P name version approver t v =
     (if ver_Status v \<noteq> StatusInReview then Inl (WrongStatus name version (ver_Status v))
      else if pp_RequireSoD P \<and> approver = ver_ProposedBy v then Inl (ApproverIsProposer approver)
      else Inr (v\<lparr>ver_Status := StatusPublished, ver_ApprovedBy := approver, ver_PublishedAt := t\<rparr>))"

definition Approve :: "'s Registry \<Rightarrow> int \<Rightarrow> int \<Rightarrow> string \<Rightarrow> string \<Rightarrow> string \<Rightarrow> 's \<Rightarrow> (registry_error + Version) \<times> 's" where
  "Approve r t now name version approver =
     transition r now name version (approve_fn (rg_policy r) name version approver t)"

definition reject_fn :: "string \<Rightarrow> string \<Rightarrow> Version \<Rightarrow> registry_error + Version" where
  "reject_fn name version v =
     (if ver_Status v \<noteq> StatusInReview then Inl (WrongStatus name version (ver_Status v))
      else Inr (v\<lparr>ver_Status := StatusDraft, ver_ProposedBy := []\<rparr>))"

definition Reject :: "'s Registry \<Rightarrow> int \<Rightarrow> string \<Rightarrow> string \<Rightarrow> 's \<Rightarrow> (registry_error + Version) \<times> 's" where
  "Reject r now name version = transition r now name version (reject_fn name version)"

definition deprecate_fn :: "string \<Rightarrow> string \<Rightarrow> Version \<Rightarrow> registry_error + Version" where
  "deprecate_fn name version v =
     (if ver_Status v \<noteq> StatusPublished then Inl (WrongStatus name version (ver_Status v))
      else Inr (v\<lparr>ver_Status := StatusDeprecated\<rparr>))"

definition Deprecate :: "'s Registry \<Rightarrow> int \<Rightarrow> string \<Rightarrow> string \<Rightarrow> 's \<Rightarrow> (registry_error + Version) \<times> 's" where
  "Deprecate r now name version = transition r now name version (deprecate_fn name version)"

definition pinKey :: "string \<Rightarrow> string \<Rightarrow> string \<Rightarrow> string" where
  "pinKey name version consumer =
     pinPrefix @ safeName name @ ''/'' @ safeName version @ ''/'' @ safeName consumer"

definition Pin :: "'s Registry \<Rightarrow> string \<Rightarrow> string \<Rightarrow> string \<Rightarrow> 's \<Rightarrow> string option \<times> 's" where
  "Pin r name version consumer s = st_Put (rg_store r) s (pinKey name version consumer) (Raw consumer)"

definition Unpin :: "'s Registry \<Rightarrow> string \<Rightarrow> string \<Rightarrow> string \<Rightarrow> 's \<Rightarrow> string option \<times> 's" where
  "Unpin r name version consumer s = st_Put (rg_store r) s (pinKey name version consumer) (Raw [])"

definition pinned_by :: "'s Registry \<Rightarrow> 's \<Rightarrow> string \<Rightarrow> string option" where
  "pinned_by r s k =
     (case st_Get (rg_store r) s k of
        Inr (Some b) \<Rightarrow> (let t = (case b of Raw t \<Rightarrow> t | JEntry e \<Rightarrow> rg_bytes r e) in if t = [] then None else Some t)
      | _ \<Rightarrow> None)"

definition Dependents :: "'s Registry \<Rightarrow> 's \<Rightarrow> string \<Rightarrow> string \<Rightarrow> registry_error + string list" where
  "Dependents r s name version =
     (case st_List (rg_store r) s (pinPrefix @ safeName name @ ''/'' @ safeName version @ ''/'') of
        Inl err \<Rightarrow> Inl (StoreFailed err)
      | Inr ks \<Rightarrow> Inr (sort (List.map_filter (pinned_by r s) ks)))"

definition demise_fn :: "string \<Rightarrow> string \<Rightarrow> Version \<Rightarrow> registry_error + Version" where
  "demise_fn name version v =
     (if ver_Status v \<noteq> StatusDeprecated \<and> ver_Status v \<noteq> StatusPublished
      then Inl (WrongStatus name version (ver_Status v))
      else Inr (v\<lparr>ver_Status := StatusDemised, ver_Default := False\<rparr>))"

definition Demise :: "'s Registry \<Rightarrow> int \<Rightarrow> string \<Rightarrow> string \<Rightarrow> bool \<Rightarrow> 's \<Rightarrow> (registry_error + Version) \<times> 's" where
  "Demise r now name version force s =
     (if \<not> force
      then (case Dependents r s name version of
              Inl err \<Rightarrow> (Inl err, s)
            | Inr dep \<Rightarrow> if 0 < length dep then (Inl (StillUsed name version dep), s)
                         else transition r now name version (demise_fn name version) s)
      else transition r now name version (demise_fn name version) s)"

definition SetDefault :: "'s Registry \<Rightarrow> int \<Rightarrow> string \<Rightarrow> string \<Rightarrow> 's \<Rightarrow> registry_error option \<times> 's" where
  "SetDefault r now name version s =
     (case reg_get r s name of
        Inl err \<Rightarrow> (Some err, s)
      | Inr None \<Rightarrow> (Some (EntryNotFound name), s)
      | Inr (Some e) \<Rightarrow>
          (case indexOf e version of
             None \<Rightarrow> (Some (VersionNotFound name version), s)
           | Some idx \<Rightarrow>
               if ver_Status (ent_Versions e ! idx) \<noteq> StatusPublished then (Some DefaultNotPublished, s)
               else (let vs = map (\<lambda>v. v\<lparr>ver_Default := False\<rparr>) (ent_Versions e);
                         vs' = vs[idx := (vs ! idx)\<lparr>ver_Default := True, ver_UpdatedAt := now\<rparr>]
                     in reg_save r s (e\<lparr>ent_Versions := vs'\<rparr>))))"

section \<open>Resolution\<close>

datatype ResolutionMode = StrictPin | DefaultFallback

record Resolution =
  rs_Name :: string
  rs_Requested :: string
  rs_Resolved :: Version
  rs_Substituted :: bool
  rs_Reason :: string

definition defaultVersion :: "Entry \<Rightarrow> Version option" where
  "defaultVersion e = find (\<lambda>v. ver_Default v \<and> ver_Status v = StatusPublished) (ent_Versions e)"

definition fallback :: "Entry \<Rightarrow> string \<Rightarrow> string \<Rightarrow> ResolutionMode \<Rightarrow> registry_error + Resolution" where
  "fallback e name requested mode =
     (if mode \<noteq> DefaultFallback then Inl (StrictPinUnavailable name requested)
      else (case defaultVersion e of
              None \<Rightarrow> Inl (NoDefaultSet name requested)
            | Some d \<Rightarrow> Inr \<lparr>rs_Name = name, rs_Requested = requested, rs_Resolved = d, rs_Substituted = True,
                 rs_Reason = ''requested '' @ name @ ''@'' @ requested @ '' unavailable; fell back to default '' @ ver_Version d\<rparr>))"

definition reg_Resolve :: "'s Registry \<Rightarrow> 's \<Rightarrow> string \<Rightarrow> string \<Rightarrow> ResolutionMode \<Rightarrow> registry_error + Resolution" where
  "reg_Resolve r s name requested mode =
     (case reg_get r s name of
        Inl err \<Rightarrow> Inl err
      | Inr None \<Rightarrow> Inl (EntryNotFound name)
      | Inr (Some e) \<Rightarrow>
          (case indexOf e requested of
             Some idx \<Rightarrow>
               (let v = ent_Versions e ! idx
                in case ver_Status v of
                     StatusPublished \<Rightarrow> Inr \<lparr>rs_Name = name, rs_Requested = requested, rs_Resolved = v,
                                             rs_Substituted = False, rs_Reason = []\<rparr>
                   | StatusDeprecated \<Rightarrow> Inr \<lparr>rs_Name = name, rs_Requested = requested, rs_Resolved = v,
                                              rs_Substituted = False,
                                              rs_Reason = name @ ''@'' @ requested @ '' is deprecated '' @ em_dash @ '' plan to migrate''\<rparr>
                   | _ \<Rightarrow> fallback e name requested mode)
           | None \<Rightarrow> fallback e name requested mode))"

section \<open>Promotion and ingestion\<close>

definition provenance_fn :: "string gomap \<Rightarrow> Version \<Rightarrow> registry_error + Version" where
  "provenance_fn prov v = Inr (v\<lparr>ver_Provenance := prov\<rparr>)"

definition Promote :: "'s Registry \<Rightarrow> int \<Rightarrow> int \<Rightarrow> Entry \<Rightarrow> Version \<Rightarrow> 's \<Rightarrow> registry_error option \<times> 's" where
  "Promote target t now entry version s =
     (let reg = \<lparr>reg_Name = ent_Name entry, reg_Kind = ent_Kind entry, reg_Title = ent_Title entry,
                 reg_Owner = ent_Owner entry, reg_Version = ver_Version version, reg_Ref = ver_Ref version,
                 reg_Manifest = ver_Manifest version\<rparr>
      in case Register target t reg s of
           (Inl err, s1) \<Rightarrow> (Some err, s1)
         | (Inr _, s1) \<Rightarrow>
             (let prov = foldl (\<lambda>m (k, v). gset m k v) [(''promotedFrom'', ver_Env version)] (ver_Provenance version)
              in case transition target now (ent_Name entry) (ver_Version version) (provenance_fn prov) s1 of
                   (Inl err, s2) \<Rightarrow> (Some err, s2)
                 | (Inr _, s2) \<Rightarrow> (None, s2)))"

record Artifact =
  art_Bytes :: string
  art_Digest :: string
  art_Manifest :: string
  art_Provenance :: "string gomap"

record SourceRequest =
  sreq_Data :: string
  sreq_Repo :: string
  sreq_Ref :: string
  sreq_Opts :: "string gomap"

definition digest :: "(string \<Rightarrow> string) \<Rightarrow> string \<Rightarrow> string" where
  "digest sha b = ''sha256:'' @ sha b"

definition upload_Fetch :: "(string \<Rightarrow> string) \<Rightarrow> SourceRequest \<Rightarrow> registry_error + Artifact" where
  "upload_Fetch sha req =
     (if length (sreq_Data req) = 0 then Inl (FetchFailed ''upload source: no data'')
      else Inr \<lparr>art_Bytes = sreq_Data req, art_Digest = digest sha (sreq_Data req), art_Manifest = [],
                art_Provenance = [(''source'', ''upload''),
                   (''by'', case map_of (sreq_Opts req) ''by'' of Some b \<Rightarrow> b | None \<Rightarrow> [])]\<rparr>)"

type_synonym GitCloner = "string \<Rightarrow> string \<Rightarrow> string + string \<times> string \<times> string"

text \<open>The cloner is injected: bytes, commit and descriptor for a repository and ref. A nil cloner is \<open>None\<close>.\<close>

definition git_Fetch :: "(string \<Rightarrow> string) \<Rightarrow> GitCloner option \<Rightarrow> SourceRequest \<Rightarrow> registry_error + Artifact" where
  "git_Fetch sha cloner req =
     (case cloner of
        None \<Rightarrow> Inl (FetchFailed ''git source: no cloner injected'')
      | Some clone \<Rightarrow>
          if sreq_Repo req = [] then Inl (FetchFailed ''git source: repo is required'')
          else (case clone (sreq_Repo req) (sreq_Ref req) of
                  Inl err \<Rightarrow> Inl (FetchFailed (''git source: '' @ err))
                | Inr (b, commit, descriptor) \<Rightarrow>
                    Inr \<lparr>art_Bytes = b, art_Digest = digest sha b, art_Manifest = descriptor,
                         art_Provenance = [(''source'', ''git''), (''repo'', sreq_Repo req), (''ref'', sreq_Ref req),
                                           (''commit'', commit)]\<rparr>))"

definition Ingest :: "'s Registry \<Rightarrow> int \<Rightarrow> int \<Rightarrow> (SourceRequest \<Rightarrow> registry_error + Artifact) \<Rightarrow> SourceRequest \<Rightarrow> Registration
    \<Rightarrow> 's \<Rightarrow> (registry_error + Version) \<times> 's" where
  "Ingest r t now fetch req reg s =
     (case fetch req of
        Inl err \<Rightarrow> (Inl err, s)
      | Inr art \<Rightarrow>
          (let reg1 = reg\<lparr>reg_Ref := art_Digest art\<rparr>;
               reg2 = (if length (reg_Manifest reg1) = 0 then reg1\<lparr>reg_Manifest := art_Manifest art\<rparr> else reg1)
           in case Register r t reg2 s of
                (Inl err, s1) \<Rightarrow> (Inl err, s1)
              | (Inr _, s1) \<Rightarrow> transition r now (reg_Name reg2) (reg_Version reg2) (provenance_fn (art_Provenance art)) s1))"

section \<open>Sound versions and entries\<close>

fun status_rank :: "Status \<Rightarrow> nat" where
  "status_rank StatusDraft = 0"
| "status_rank StatusInReview = 1"
| "status_rank StatusPublished = 2"
| "status_rank StatusDeprecated = 3"
| "status_rank StatusDemised = 4"

definition version_ok :: "PromotionPolicy \<Rightarrow> Version \<Rightarrow> bool" where
  "version_ok P v \<longleftrightarrow>
     (pp_RequiresApproval P \<and> pp_RequireSoD P \<and> 2 \<le> status_rank (ver_Status v) \<longrightarrow> ver_ApprovedBy v \<noteq> ver_ProposedBy v) \<and>
     (pp_RequireTestBeforePromote P \<and> 1 \<le> status_rank (ver_Status v) \<longrightarrow> ver_TestPassed v) \<and>
     (ver_Default v \<longrightarrow> ver_Status v \<in> {StatusPublished, StatusDeprecated})"

definition entry_ok :: "PromotionPolicy \<Rightarrow> Entry \<Rightarrow> bool" where
  "entry_ok P e \<longleftrightarrow> distinct (map ver_Version (ent_Versions e)) \<and> (\<forall>v\<in>set (ent_Versions e). version_ok P v) \<and>
     length (filter ver_Default (ent_Versions e)) \<le> 1"

text \<open>\<open>keeps v v'\<close>: the version is the same release, and once published it never goes back.\<close>

definition keeps :: "Version \<Rightarrow> Version \<Rightarrow> bool" where
  "keeps v v' \<longleftrightarrow> ver_Version v' = ver_Version v \<and> ver_Ref v' = ver_Ref v \<and> ver_Env v' = ver_Env v \<and>
     (2 \<le> status_rank (ver_Status v) \<longrightarrow> status_rank (ver_Status v) \<le> status_rank (ver_Status v'))"

definition fn_ok :: "PromotionPolicy \<Rightarrow> (Version \<Rightarrow> registry_error + Version) \<Rightarrow> bool" where
  "fn_ok P fn \<longleftrightarrow> (\<forall>v v'. version_ok P v \<longrightarrow> fn v = Inr v' \<longrightarrow>
     version_ok P v' \<and> keeps v v' \<and> (ver_Default v' \<longrightarrow> ver_Default v))"

lemma keeps_refl: "keeps v v"
  by (simp add: keeps_def)

lemma keeps_trans: "keeps u v \<Longrightarrow> keeps v w \<Longrightarrow> keeps u w"
  by (auto simp: keeps_def)

lemma fn_ok_lifecycle:
  "fn_ok P (link_fn c)" "fn_ok P (test_fn name version passed ref t)" "fn_ok P (propose_fn P name version by t)"
  "fn_ok P (approve_fn P name version ap t)" "fn_ok P (reject_fn name version)" "fn_ok P (deprecate_fn name version)"
  "fn_ok P (demise_fn name version)" "fn_ok P (provenance_fn prov)"
  by (auto simp: fn_ok_def version_ok_def keeps_def link_fn_def test_fn_def propose_fn_def approve_fn_def reject_fn_def
      deprecate_fn_def demise_fn_def provenance_fn_def Let_def split: if_splits)

lemma version_ok_stamp [simp]: "version_ok P (v\<lparr>ver_UpdatedAt := t\<rparr>) = version_ok P v"
  "version_ok P (v\<lparr>ver_Manifest := m\<rparr>) = version_ok P v"
  by (simp_all add: version_ok_def)

lemma keeps_stamp [simp]: "keeps v (w\<lparr>ver_UpdatedAt := t\<rparr>) = keeps v w" "keeps v (w\<lparr>ver_Manifest := m\<rparr>) = keeps v w"
  by (simp_all add: keeps_def)

lemma index_from_Some:
  "index_from i vs version = Some k \<Longrightarrow> i \<le> k \<and> k - i < length vs \<and> ver_Version (vs ! (k - i)) = version"
proof (induction i vs version rule: index_from.induct)
  case (2 i v vs version)
  then show ?case by (cases "ver_Version v = version") (auto simp: nth_Cons' Suc_diff_le split: if_splits)
qed simp

lemma index_from_None: "index_from i vs version = None \<longleftrightarrow> version \<notin> set (map ver_Version vs)"
  by (induction i vs version rule: index_from.induct) auto

lemma indexOf_Some: "indexOf e version = Some k \<Longrightarrow> k < length (ent_Versions e) \<and> ver_Version (ent_Versions e ! k) = version"
  using index_from_Some [of 0 "ent_Versions e" version k] by (simp add: indexOf_def)

lemma indexOf_None: "indexOf e version = None \<longleftrightarrow> version \<notin> set (map ver_Version (ent_Versions e))"
  by (simp add: indexOf_def index_from_None)

lemma marshal_version_Some:
  "marshal_version r v = Some v' \<Longrightarrow> \<exists>m. v' = v\<lparr>ver_Manifest := m\<rparr>"
  by (auto simp: marshal_version_def split: if_splits) (metis Version.surjective Version.update_convs(5))

lemma marshal_entry_Some:
  assumes "marshal_entry r e = Some e'"
  shows "\<exists>f. e' = e\<lparr>ent_Versions := map f (ent_Versions e)\<rparr> \<and> (\<forall>v\<in>set (ent_Versions e). \<exists>m. f v = v\<lparr>ver_Manifest := m\<rparr>)"
proof -
  have all: "\<forall>v\<in>set (ent_Versions e). marshal_version r v \<noteq> None"
    and e': "e' = e\<lparr>ent_Versions := map (\<lambda>v. the (marshal_version r v)) (ent_Versions e)\<rparr>"
    using assms by (auto simp: marshal_entry_def split: if_splits)
  have "\<exists>m. the (marshal_version r v) = v\<lparr>ver_Manifest := m\<rparr>" if "v \<in> set (ent_Versions e)" for v
    using all that marshal_version_Some [of r v] by fastforce
  with e' show ?thesis by blast
qed

lemma filter_update_length:
  "i < length xs \<Longrightarrow> (P v \<Longrightarrow> P (xs ! i)) \<Longrightarrow> length (filter P (xs[i := v])) \<le> length (filter P xs)"
proof (induction xs arbitrary: i)
  case (Cons x xs)
  then show ?case by (cases i) (auto simp: le_SucI)
qed simp

lemma map_update_same: "i < length xs \<Longrightarrow> f v = f (xs ! i) \<Longrightarrow> map f (xs[i := v]) = map f xs"
  by (metis list_update_id map_update)

lemma entry_ok_marshal:
  assumes "marshal_entry r e = Some e'" and "entry_ok P e"
  shows "entry_ok P e' \<and> ent_Name e' = ent_Name e"
proof -
  obtain f where e': "e' = e\<lparr>ent_Versions := map f (ent_Versions e)\<rparr>"
    and f: "\<And>v. v \<in> set (ent_Versions e) \<Longrightarrow> \<exists>m. f v = v\<lparr>ver_Manifest := m\<rparr>"
    using marshal_entry_Some [OF assms(1)] by blast
  have ver: "ver_Version (f v) = ver_Version v" "ver_Default (f v) = ver_Default v" "version_ok P (f v) = version_ok P v"
    if "v \<in> set (ent_Versions e)" for v using f [OF that] by auto
  then have "map ver_Version (map f (ent_Versions e)) = map ver_Version (ent_Versions e)" by simp
  moreover have "length (filter ver_Default (map f vs)) = length (filter ver_Default vs)"
    if "set vs \<subseteq> set (ent_Versions e)" for vs using that ver(2) by (induction vs) auto
  moreover have "\<forall>v\<in>set (map f (ent_Versions e)). version_ok P v" using assms(2) ver(3) by (auto simp: entry_ok_def)
  ultimately show ?thesis using assms(2) by (simp add: entry_ok_def e' del: map_map set_map)
qed

definition entry_keeps :: "Entry \<Rightarrow> Entry \<Rightarrow> bool" where
  "entry_keeps e e' \<longleftrightarrow> ent_Name e' = ent_Name e \<and> (\<forall>v\<in>set (ent_Versions e). \<exists>v'\<in>set (ent_Versions e'). keeps v v')"

lemma entry_keeps_refl: "entry_keeps e e"
  by (auto simp: entry_keeps_def intro: keeps_refl)

lemma entry_keeps_trans: "entry_keeps a b \<Longrightarrow> entry_keeps b c \<Longrightarrow> entry_keeps a c"
  by (auto simp: entry_keeps_def) (meson keeps_trans)

lemma entry_keeps_marshal: "marshal_entry r e = Some e' \<Longrightarrow> entry_keeps e e'"
proof -
  assume "marshal_entry r e = Some e'"
  then obtain f where e': "e' = e\<lparr>ent_Versions := map f (ent_Versions e)\<rparr>"
    and f: "\<And>v. v \<in> set (ent_Versions e) \<Longrightarrow> \<exists>m. f v = v\<lparr>ver_Manifest := m\<rparr>"
    using marshal_entry_Some by blast
  have "keeps v (f v)" if "v \<in> set (ent_Versions e)" for v
    using f [OF that] keeps_refl by auto
  then show ?thesis by (auto simp: entry_keeps_def e')
qed

lemma entry_transition_ok:
  assumes ok: "entry_ok P e" and fn: "fn_ok P fn" and i: "indexOf e version = Some idx"
    and v: "fn (ent_Versions e ! idx) = Inr v"
  shows "entry_ok P (e\<lparr>ent_Versions := (ent_Versions e)[idx := v\<lparr>ver_UpdatedAt := t\<rparr>]\<rparr>) \<and>
    entry_keeps e (e\<lparr>ent_Versions := (ent_Versions e)[idx := v\<lparr>ver_UpdatedAt := t\<rparr>]\<rparr>)"
proof -
  let ?w = "v\<lparr>ver_UpdatedAt := t\<rparr>"
  have idx: "idx < length (ent_Versions e)" using indexOf_Some [OF i] by simp
  then have "version_ok P (ent_Versions e ! idx)" using ok by (simp add: entry_ok_def)
  then have w: "version_ok P ?w" "keeps (ent_Versions e ! idx) ?w" "ver_Default ?w \<Longrightarrow> ver_Default (ent_Versions e ! idx)"
    using fn [unfolded fn_ok_def, rule_format, OF _ v] by simp_all
  have "map ver_Version ((ent_Versions e)[idx := ?w]) = map ver_Version (ent_Versions e)"
    using idx w(2) by (intro map_update_same) (simp_all add: keeps_def)
  moreover have "length (filter ver_Default ((ent_Versions e)[idx := ?w])) \<le> length (filter ver_Default (ent_Versions e))"
    using filter_update_length [OF idx, of ver_Default ?w] w(3) by blast
  moreover have "\<forall>x\<in>set ((ent_Versions e)[idx := ?w]). version_ok P x"
    using ok w(1) set_update_subset_insert [of "ent_Versions e" idx ?w] by (auto simp: entry_ok_def)
  moreover have "\<exists>x'\<in>set ((ent_Versions e)[idx := ?w]). keeps x x'" if "x \<in> set (ent_Versions e)" for x
  proof -
    obtain j where j: "j < length (ent_Versions e)" "x = ent_Versions e ! j" using \<open>x \<in> _\<close> by (metis in_set_conv_nth)
    then have "keeps x ((ent_Versions e)[idx := ?w] ! j)" using w(2) keeps_refl by (cases "j = idx") simp_all
    moreover have "(ent_Versions e)[idx := ?w] ! j \<in> set ((ent_Versions e)[idx := ?w])" using j(1) by (intro nth_mem) simp
    ultimately show ?thesis by blast
  qed
  ultimately show ?thesis using ok by (simp add: entry_ok_def entry_keeps_def)
qed

section \<open>Histories\<close>

datatype reg_op =
    OpRegister int Registration
  | OpLinkChange int string string string
  | OpRecordTest int int string string bool string
  | OpPropose int int string string string
  | OpApprove int int string string string
  | OpReject int string string
  | OpDeprecate int string string
  | OpDemise int string string bool
  | OpSetDefault int string string
  | OpPin string string string
  | OpUnpin string string string
  | OpPromote int int Entry Version
  | OpIngest int int "registry_error + Artifact" Registration

fun reg_exec :: "'s Registry \<Rightarrow> reg_op \<Rightarrow> 's \<Rightarrow> 's" where
  "reg_exec r (OpRegister now reg) s = snd (Register r now reg s)"
| "reg_exec r (OpLinkChange now name version c) s = snd (LinkChange r now name version c s)"
| "reg_exec r (OpRecordTest t now name version passed ref) s = snd (RecordTest r t now name version passed ref s)"
| "reg_exec r (OpPropose t now name version by) s = snd (ProposePromote r t now name version by s)"
| "reg_exec r (OpApprove t now name version approver) s = snd (Approve r t now name version approver s)"
| "reg_exec r (OpReject now name version) s = snd (Reject r now name version s)"
| "reg_exec r (OpDeprecate now name version) s = snd (Deprecate r now name version s)"
| "reg_exec r (OpDemise now name version force) s = snd (Demise r now name version force s)"
| "reg_exec r (OpSetDefault now name version) s = snd (SetDefault r now name version s)"
| "reg_exec r (OpPin name version consumer) s = snd (Pin r name version consumer s)"
| "reg_exec r (OpUnpin name version consumer) s = snd (Unpin r name version consumer s)"
| "reg_exec r (OpPromote t now entry version) s = snd (Promote r t now entry version s)"
| "reg_exec r (OpIngest t now fetched reg) s = snd (Ingest r t now (\<lambda>_. fetched)
     \<lparr>sreq_Data = [], sreq_Repo = [], sreq_Ref = [], sreq_Opts = []\<rparr> reg s)"

definition reg_run :: "'s Registry \<Rightarrow> reg_op list \<Rightarrow> 's \<Rightarrow> 's" where
  "reg_run r ops s = foldl (\<lambda>s op. reg_exec r op s) s ops"

lemma entry_not_pin: "entryPrefix @ x \<noteq> pinPrefix @ y"
  by (simp add: entryPrefix_def pinPrefix_def)

section \<open>A registry over any store\<close>

locale registry_store = kv_store "rg_store r" view
  for r :: "'s Registry" and view :: "'s \<Rightarrow> string \<Rightarrow> blob option"
begin

definition sound :: "'s \<Rightarrow> bool" where
  "sound s \<longleftrightarrow> (\<forall>k e. view s k = Some (JEntry e) \<longrightarrow> k = entryPrefix @ safeName (ent_Name e) \<and> entry_ok (rg_policy r) e)"

definition carries :: "'s \<Rightarrow> 's \<Rightarrow> bool" where
  "carries s s' \<longleftrightarrow> (\<forall>k e. view s k = Some (JEntry e) \<longrightarrow> (\<exists>e'. view s' k = Some (JEntry e') \<and> entry_keeps e e'))"

definition good :: "'s \<Rightarrow> 's \<Rightarrow> bool" where
  "good s s' \<longleftrightarrow> sound s' \<and> carries s s'"

lemma good_refl: "sound s \<Longrightarrow> good s s"
  by (auto simp: good_def carries_def intro: entry_keeps_refl)

lemma good_trans: "good s t \<Longrightarrow> good t u \<Longrightarrow> good s u"
  by (auto simp: good_def carries_def) (meson entry_keeps_trans)

lemma reg_get_Some:
  assumes "reg_get r s name = Inr (Some e)"
  shows "view s (entryPrefix @ safeName name) = Some (JEntry e)"
proof (cases "view s (entryPrefix @ safeName name)")
  case None
  with get_absent [OF None] assms show ?thesis by (auto simp: reg_get_def)
next
  case (Some b)
  with get_present [OF Some] assms show ?thesis by (auto simp: reg_get_def split: blob.splits)
qed

lemma reg_get_None:
  assumes "reg_get r s name = Inr None"
  shows "view s (entryPrefix @ safeName name) = None"
proof (rule ccontr)
  assume "view s (entryPrefix @ safeName name) \<noteq> None"
  then obtain b where "view s (entryPrefix @ safeName name) = Some b" by blast
  with get_present assms show False by (auto simp: reg_get_def split: blob.splits)
qed

lemma reg_get_view: "view s (entryPrefix @ safeName name) = Some (JEntry e) \<Longrightarrow> reg_get r s name = Inr (Some e)"
  using get_present by (simp add: reg_get_def)

lemma reg_save_good:
  assumes "sound s" and "reg_save r s e = (x, s')" and "entry_ok (rg_policy r) e"
    and "\<And>old. view s (entryPrefix @ safeName (ent_Name e)) = Some (JEntry old) \<Longrightarrow> entry_keeps old e"
    and "\<And>t. view s (entryPrefix @ safeName (ent_Name e)) \<noteq> Some (Raw t)"
  shows "good s s'"
proof (cases "marshal_entry r e")
  case None
  with assms(1,2) show ?thesis by (simp add: reg_save_def good_refl)
next
  case (Some e')
  let ?k = "entryPrefix @ safeName (ent_Name e)"
  have e': "entry_ok (rg_policy r) e'" "ent_Name e' = ent_Name e" "entry_keeps e e'"
    using entry_ok_marshal [OF Some assms(3)] entry_keeps_marshal [OF Some] by blast+
  have "view s' = view s \<or> view s' = (view s)(?k \<mapsto> JEntry e')"
    using assms(2) Some put_cases by (auto simp: reg_save_def split: prod.splits option.splits)
  then show ?thesis
  proof
    assume "view s' = view s"
    with good_refl [OF assms(1)] show ?thesis by (simp add: good_def sound_def carries_def)
  next
    assume v: "view s' = (view s)(?k \<mapsto> JEntry e')"
    have "sound s'" using assms(1) e' v by (auto simp: sound_def)
    moreover have "carries s s'"
      unfolding carries_def
    proof (intro allI impI)
      fix k old assume k: "view s k = Some (JEntry old)"
      show "\<exists>e''. view s' k = Some (JEntry e'') \<and> entry_keeps old e''"
      proof (cases "k = ?k")
        case True
        with k assms(4) e'(3) v show ?thesis by (auto intro: entry_keeps_trans)
      next
        case False
        with k v show ?thesis by (auto intro: entry_keeps_refl)
      qed
    qed
    ultimately show ?thesis by (simp add: good_def)
  qed
qed

lemma sound_key:
  assumes "sound s" and "reg_get r s name = Inr (Some e)"
  shows "safeName (ent_Name e) = safeName name \<and> entry_ok (rg_policy r) e \<and>
    view s (entryPrefix @ safeName (ent_Name e)) = Some (JEntry e)"
proof -
  have v: "view s (entryPrefix @ safeName name) = Some (JEntry e)" by (rule reg_get_Some [OF assms(2)])
  then have "entryPrefix @ safeName name = entryPrefix @ safeName (ent_Name e) \<and> entry_ok (rg_policy r) e"
    using assms(1) unfolding sound_def by blast
  with v show ?thesis by simp
qed

lemma transition_good:
  assumes "sound s" and "fn_ok (rg_policy r) fn"
  shows "good s (snd (transition r now name version fn s))"
proof (cases "\<exists>e idx v. reg_get r s name = Inr (Some e) \<and> indexOf e version = Some idx \<and> fn (ent_Versions e ! idx) = Inr v")
  case False
  then have "snd (transition r now name version fn s) = s"
    by (auto simp: transition_def split: sum.splits option.splits)
  with good_refl [OF assms(1)] show ?thesis by simp
next
  case True
  then obtain e idx v where e: "reg_get r s name = Inr (Some e)" "indexOf e version = Some idx"
    "fn (ent_Versions e ! idx) = Inr v" by blast
  let ?e = "e\<lparr>ent_Versions := (ent_Versions e)[idx := v\<lparr>ver_UpdatedAt := now\<rparr>]\<rparr>"
  obtain x s' where sv: "reg_save r s ?e = (x, s')" by fastforce
  note key = sound_key [OF assms(1) e(1)]
  have ok: "entry_ok (rg_policy r) ?e" "entry_keeps e ?e"
    using entry_transition_ok [OF _ assms(2) e(2,3), of now] key by blast+
  have "good s s'" by (rule reg_save_good [OF assms(1) sv ok(1)]) (use key ok(2) in auto)
  moreover have "snd (transition r now name version fn s) = s'"
    using e sv by (simp add: transition_def Let_def split: option.split)
  ultimately show ?thesis by simp
qed

lemma Register_good:
  assumes "sound s"
  shows "good s (snd (Register r now reg s))"
proof (cases "\<exists>found. reg_get r s (reg_Name reg) = Inr found \<and> \<not> (TrimSpace (reg_Name reg) = [] \<or> TrimSpace (reg_Version reg) = [])")
  case False
  then have "snd (Register r now reg s) = s" by (auto simp: Register_def split: sum.splits)
  with good_refl [OF assms] show ?thesis by simp
next
  case True
  then obtain found where f: "reg_get r s (reg_Name reg) = Inr found"
    "\<not> (TrimSpace (reg_Name reg) = [] \<or> TrimSpace (reg_Version reg) = [])" by blast
  define e where "e = (case found of Some e \<Rightarrow> e | None \<Rightarrow> \<lparr>ent_Name = reg_Name reg, ent_Kind = reg_Kind reg,
      ent_Title = reg_Title reg, ent_Owner = reg_Owner reg, ent_Versions = []\<rparr>)"
  let ?v = "zero_Version\<lparr>ver_Version := reg_Version reg, ver_Env := rg_env r, ver_Status := StatusDraft,
      ver_Ref := reg_Ref reg, ver_Manifest := reg_Manifest reg, ver_UpdatedAt := now\<rparr>"
  let ?e = "e\<lparr>ent_Versions := ent_Versions e @ [?v]\<rparr>"
  have e: "entry_ok (rg_policy r) e" "safeName (ent_Name e) = safeName (reg_Name reg)"
    using f(1) sound_key [OF assms] by (auto simp: e_def entry_ok_def split: option.splits)
  have at: "view s (entryPrefix @ safeName (ent_Name e)) = map_option JEntry found"
    using f(1) reg_get_Some reg_get_None e(2) by (cases found) auto
  show ?thesis
  proof (cases "indexOf e (reg_Version reg)")
    case (Some i)
    then have "snd (Register r now reg s) = s" using f by (simp add: Register_def e_def [symmetric] Let_def)
    with good_refl [OF assms] show ?thesis by simp
  next
    case None
    obtain x s' where sv: "reg_save r s ?e = (x, s')" by fastforce
    have vok: "version_ok (rg_policy r) ?v" "\<not> ver_Default ?v" by (simp_all add: version_ok_def zero_Version_def)
    have "entry_ok (rg_policy r) ?e"
      using e(1) None vok by (auto simp: entry_ok_def indexOf_None)
    moreover have "entry_keeps e ?e" by (auto simp: entry_keeps_def intro: keeps_refl)
    moreover have "old = e" if "view s (entryPrefix @ safeName (ent_Name e)) = Some (JEntry old)" for old
      using that at by (auto simp: e_def split: option.splits)
    ultimately have "good s s'"
      using at by (intro reg_save_good [OF assms sv]) (auto split: option.splits)
    moreover have "snd (Register r now reg s) = s'"
      using f None sv by (simp add: Register_def e_def [symmetric] Let_def split: option.split)
    ultimately show ?thesis by simp
  qed
qed

lemma SetDefault_good:
  assumes "sound s"
  shows "good s (snd (SetDefault r now name version s))"
proof (cases "\<exists>e idx. reg_get r s name = Inr (Some e) \<and> indexOf e version = Some idx \<and>
    ver_Status (ent_Versions e ! idx) = StatusPublished")
  case False
  then have "snd (SetDefault r now name version s) = s"
    by (auto simp: SetDefault_def split: sum.splits option.splits)
  with good_refl [OF assms] show ?thesis by simp
next
  case True
  then obtain e idx where e: "reg_get r s name = Inr (Some e)" "indexOf e version = Some idx"
    "ver_Status (ent_Versions e ! idx) = StatusPublished" by blast
  let ?vs = "map (\<lambda>v. v\<lparr>ver_Default := False\<rparr>) (ent_Versions e)"
  let ?v = "(?vs ! idx)\<lparr>ver_Default := True, ver_UpdatedAt := now\<rparr>"
  let ?e = "e\<lparr>ent_Versions := ?vs[idx := ?v]\<rparr>"
  obtain x s' where sv: "reg_save r s ?e = (x, s')" by fastforce
  note key = sound_key [OF assms e(1)]
  have idx: "idx < length (ent_Versions e)" using indexOf_Some [OF e(2)] by simp
  have vok: "version_ok (rg_policy r) v" if "v \<in> set (ent_Versions e)" for v using key that by (simp add: entry_ok_def)
  have "version_ok (rg_policy r) ?v"
    using vok [of "ent_Versions e ! idx"] idx e(3) by (simp add: version_ok_def)
  moreover have "\<forall>v\<in>set ?vs. version_ok (rg_policy r) v" using vok by (auto simp: version_ok_def)
  ultimately have all: "\<forall>v\<in>set (?vs[idx := ?v]). version_ok (rg_policy r) v"
    using set_update_subset_insert [of ?vs idx ?v] by blast
  have vers: "map ver_Version (?vs[idx := ?v]) = map ver_Version (ent_Versions e)"
    using idx by (subst map_update_same) (simp_all add: comp_def)
  have none: "filter ver_Default (map (\<lambda>v. v\<lparr>ver_Default := False\<rparr>) us) = []" for us by (induction us) auto
  have "length (filter ver_Default (us[i := w])) \<le> Suc (length (filter ver_Default us))" for us i w
    by (induction us arbitrary: i) (auto split: nat.split)
  from this [of ?vs idx ?v] have one: "length (filter ver_Default (?vs[idx := ?v])) \<le> 1" by (simp only: none) simp
  have "entry_ok (rg_policy r) ?e" using key all vers one by (simp add: entry_ok_def)
  moreover have "entry_keeps e ?e"
  proof -
    have "\<exists>x'\<in>set (?vs[idx := ?v]). keeps x x'" if x: "x \<in> set (ent_Versions e)" for x
    proof -
      obtain j where j: "j < length (ent_Versions e)" "x = ent_Versions e ! j" using x by (metis in_set_conv_nth)
      then have "keeps x (?vs[idx := ?v] ! j)" by (cases "j = idx") (simp_all add: keeps_def)
      moreover have "?vs[idx := ?v] ! j \<in> set (?vs[idx := ?v])" using j(1) by (intro nth_mem) simp
      ultimately show ?thesis by blast
    qed
    then show ?thesis by (simp add: entry_keeps_def)
  qed
  ultimately have "good s s'" by (intro reg_save_good [OF assms sv]) (use key in auto)
  moreover have "snd (SetDefault r now name version s) = s'"
    using e sv by (simp add: SetDefault_def Let_def)
  ultimately show ?thesis by simp
qed

lemma pin_put_good:
  assumes "sound s" and "st_Put (rg_store r) s (pinKey name version consumer) (Raw t) = (x, s')"
  shows "good s s'"
proof -
  have key: "k \<noteq> pinKey name version consumer" if "view s k = Some (JEntry e)" for k e
  proof -
    have "k = entryPrefix @ safeName (ent_Name e)" using that assms(1) unfolding sound_def by blast
    then show ?thesis unfolding pinKey_def using entry_not_pin by metis
  qed
  have "view s' = view s \<or> view s' = (view s)(pinKey name version consumer \<mapsto> Raw t)" by (rule put_cases [OF assms(2)])
  then show ?thesis
  proof
    assume "view s' = view s"
    with good_refl [OF assms(1)] show ?thesis by (simp add: good_def sound_def carries_def)
  next
    assume "view s' = (view s)(pinKey name version consumer \<mapsto> Raw t)"
    with assms(1) key show ?thesis
      by (auto simp: good_def sound_def carries_def intro: entry_keeps_refl)
  qed
qed

lemma Demise_good: "sound s \<Longrightarrow> good s (snd (Demise r now name version force s))"
  using transition_good [OF _ fn_ok_lifecycle(7)] good_refl
  by (auto simp: Demise_def split: sum.split)

lemma Register_then_good:
  assumes "sound s" and "Register r t reg s = (x, s1)" and "fn_ok (rg_policy r) fn"
  shows "good s (snd (transition r now name version fn s1))" and "good s s1"
proof -
  show g: "good s s1" using Register_good [OF assms(1), of t reg] assms(2) by simp
  then have "sound s1" by (simp add: good_def)
  then show "good s (snd (transition r now name version fn s1))" using transition_good [OF _ assms(3)] good_trans [OF g] by blast
qed

lemma Promote_good: "sound s \<Longrightarrow> good s (snd (Promote r t now entry version s))"
  using Register_then_good [OF _ _ fn_ok_lifecycle(8)]
  by (auto simp: Promote_def Let_def split: prod.split sum.split) (metis snd_conv)+

lemma Ingest_good: "sound s \<Longrightarrow> good s (snd (Ingest r t now fetch req reg s))"
  using Register_then_good [OF _ _ fn_ok_lifecycle(8)] good_refl
  by (auto simp: Ingest_def Let_def split: prod.split sum.split)

lemma reg_exec_good:
  assumes "sound s"
  shows "good s (reg_exec r op s)"
proof (cases op)
  case (OpPin name version consumer)
  then show ?thesis using pin_put_good [OF assms] by (cases "Pin r name version consumer s") (simp add: Pin_def)
next
  case (OpUnpin name version consumer)
  then show ?thesis using pin_put_good [OF assms] by (cases "Unpin r name version consumer s") (simp add: Unpin_def)
qed (simp_all add: assms Register_good SetDefault_good Demise_good Promote_good Ingest_good LinkChange_def RecordTest_def
    ProposePromote_def Approve_def Reject_def Deprecate_def transition_good fn_ok_lifecycle)

lemma reg_run_good: "sound s \<Longrightarrow> good s (reg_run r ops s)"
proof (induction ops arbitrary: s)
  case Nil
  then show ?case by (simp add: reg_run_def good_refl)
next
  case (Cons op ops)
  have g: "good s (reg_exec r op s)" by (rule reg_exec_good [OF Cons.prems])
  then have "sound (reg_exec r op s)" by (simp add: good_def)
  from good_trans [OF g Cons.IH [OF this]] show ?case by (simp add: reg_run_def)
qed

lemma run_entry_ok: "sound s \<Longrightarrow> reg_get r (reg_run r ops s) name = Inr (Some e) \<Longrightarrow> entry_ok (rg_policy r) e"
  using sound_key reg_run_good unfolding good_def by blast

lemma run_entry_keeps:
  assumes "sound s" and "reg_get r s name = Inr (Some e)"
  shows "\<exists>e'. reg_get r (reg_run r ops s) name = Inr (Some e') \<and> entry_keeps e e'"
  using reg_run_good [OF assms(1), of ops] reg_get_Some [OF assms(2)] reg_get_view
  unfolding good_def carries_def by blast

lemma Dependents_pinned:
  assumes "Pin r name version consumer s = (None, s')" and "consumer \<noteq> []"
  shows "\<exists>deps. Dependents r s' name version = Inr deps \<and> consumer \<in> set deps"
proof -
  let ?p = "pinPrefix @ safeName name @ ''/'' @ safeName version @ ''/''"
  have put: "st_Put (rg_store r) s (pinKey name version consumer) (Raw consumer) = (None, s')"
    using assms(1) by (simp add: Pin_def)
  obtain ks where ks: "st_List (rg_store r) s' ?p = Inr ks" "set ks = {k. HasPrefix k ?p \<and> view s' k \<noteq> None}"
    using list_keys by blast
  have "HasPrefix (pinKey name version consumer) ?p"
    using HasPrefix_append [of ?p "safeName consumer"] by (simp add: pinKey_def)
  then have "pinKey name version consumer \<in> set ks" using ks(2) put_ok [OF put] by simp
  moreover have "pinned_by r s' (pinKey name version consumer) = Some consumer"
    using get_after_put [OF put] assms(2) by (simp add: pinned_by_def)
  ultimately have "consumer \<in> set (List.map_filter (pinned_by r s') ks)"
    by (force simp: List.map_filter_def)
  then show ?thesis using ks(1) by (simp add: Dependents_def)
qed

lemma reg_save_stores:
  assumes "reg_save r s e = (None, s')"
  shows "\<exists>m. marshal_entry r e = Some m \<and> view s' (entryPrefix @ safeName (ent_Name e)) = Some (JEntry m)"
  using assms put_ok by (auto simp: reg_save_def split: option.splits prod.splits)

lemma Register_stores:
  assumes "sound s" and "Register r now reg s = (Inr e, s')"
  shows "\<exists>vs f. ent_Versions e = vs @ [zero_Version\<lparr>ver_Version := reg_Version reg, ver_Env := rg_env r,
      ver_Status := StatusDraft, ver_Ref := reg_Ref reg, ver_Manifest := reg_Manifest reg, ver_UpdatedAt := now\<rparr>] \<and>
    reg_get r s' (reg_Name reg) = Inr (Some (e\<lparr>ent_Versions := map f (ent_Versions e)\<rparr>)) \<and>
    (\<forall>v\<in>set (ent_Versions e). \<exists>m. f v = v\<lparr>ver_Manifest := m\<rparr>) \<and> distinct (map ver_Version (ent_Versions e))"
proof -
  from assms(2) obtain found where f: "reg_get r s (reg_Name reg) = Inr found"
    by (auto simp: Register_def split: if_splits sum.splits)
  define e0 where "e0 = (case found of Some e \<Rightarrow> e | None \<Rightarrow> \<lparr>ent_Name = reg_Name reg, ent_Kind = reg_Kind reg,
      ent_Title = reg_Title reg, ent_Owner = reg_Owner reg, ent_Versions = []\<rparr>)"
  let ?v = "zero_Version\<lparr>ver_Version := reg_Version reg, ver_Env := rg_env r, ver_Status := StatusDraft,
      ver_Ref := reg_Ref reg, ver_Manifest := reg_Manifest reg, ver_UpdatedAt := now\<rparr>"
  have e: "e = e0\<lparr>ent_Versions := ent_Versions e0 @ [?v]\<rparr>" and i: "indexOf e0 (reg_Version reg) = None"
    and sv: "reg_save r s e = (None, s')"
    using assms(2) f by (auto simp: Register_def Let_def e0_def [symmetric] split: if_splits option.splits prod.splits)
  have e0: "entry_ok (rg_policy r) e0" "safeName (ent_Name e0) = safeName (reg_Name reg)"
    using f sound_key [OF assms(1)] by (auto simp: e0_def entry_ok_def split: option.splits)
  obtain m where m: "marshal_entry r e = Some m" "view s' (entryPrefix @ safeName (ent_Name e)) = Some (JEntry m)"
    using reg_save_stores [OF sv] by blast
  have "reg_get r s' (reg_Name reg) = Inr (Some m)" using m(2) e e0(2) by (intro reg_get_view) simp
  moreover obtain g where "m = e\<lparr>ent_Versions := map g (ent_Versions e)\<rparr>"
    "\<forall>v\<in>set (ent_Versions e). \<exists>m. g v = v\<lparr>ver_Manifest := m\<rparr>"
    using marshal_entry_Some [OF m(1)] by blast
  moreover have "distinct (map ver_Version (ent_Versions e))"
    using e e0(1) i by (simp add: entry_ok_def indexOf_None)
  ultimately show ?thesis using e by auto
qed

lemma transition_stores:
  assumes "sound s" and "transition r now name version fn s = (Inr v', s')"
  shows "\<exists>e idx v f. reg_get r s name = Inr (Some e) \<and> indexOf e version = Some idx \<and> fn (ent_Versions e ! idx) = Inr v \<and>
    v' = v\<lparr>ver_UpdatedAt := now\<rparr> \<and>
    reg_get r s' name = Inr (Some (e\<lparr>ent_Versions := map f ((ent_Versions e)[idx := v'])\<rparr>)) \<and>
    (\<forall>x\<in>set ((ent_Versions e)[idx := v']). \<exists>m. f x = x\<lparr>ver_Manifest := m\<rparr>)"
proof -
  from assms(2) obtain e idx v where e: "reg_get r s name = Inr (Some e)" "indexOf e version = Some idx"
    "fn (ent_Versions e ! idx) = Inr v" "v' = v\<lparr>ver_UpdatedAt := now\<rparr>"
    and sv: "reg_save r s (e\<lparr>ent_Versions := (ent_Versions e)[idx := v']\<rparr>) = (None, s')"
    by (auto simp: transition_def Let_def split: sum.splits option.splits prod.splits)
  let ?e = "e\<lparr>ent_Versions := (ent_Versions e)[idx := v']\<rparr>"
  obtain m where m: "marshal_entry r ?e = Some m" "view s' (entryPrefix @ safeName (ent_Name ?e)) = Some (JEntry m)"
    using reg_save_stores [OF sv] by blast
  obtain g where g: "m = ?e\<lparr>ent_Versions := map g (ent_Versions ?e)\<rparr>"
    "\<forall>x\<in>set (ent_Versions ?e). \<exists>m. g x = x\<lparr>ver_Manifest := m\<rparr>"
    using marshal_entry_Some [OF m(1)] by blast
  have "reg_get r s' name = Inr (Some m)"
    using m(2) sound_key [OF assms(1) e(1)] by (intro reg_get_view) simp
  with e g show ?thesis by (intro exI [of _ e] exI [of _ idx] exI [of _ v] exI [of _ g]) simp
qed

lemma fresh_draft_transition:
  assumes "sound s" and "Register r t reg s = (Inr e0, s1)"
    and "transition r now (reg_Name reg) (reg_Version reg) (provenance_fn prov) s1 = (Inr v', s')"
  shows "ver_Version v' = reg_Version reg \<and> ver_Ref v' = reg_Ref reg \<and> ver_Env v' = rg_env r \<and>
    ver_Status v' = StatusDraft \<and> ver_Provenance v' = prov \<and> \<not> ver_Default v' \<and>
    (\<exists>e v. reg_get r s' (reg_Name reg) = Inr (Some e) \<and> v \<in> set (ent_Versions e) \<and> (\<exists>m. v = v'\<lparr>ver_Manifest := m\<rparr>))"
proof -
  let ?n = "zero_Version\<lparr>ver_Version := reg_Version reg, ver_Env := rg_env r,
      ver_Status := StatusDraft, ver_Ref := reg_Ref reg, ver_Manifest := reg_Manifest reg, ver_UpdatedAt := t\<rparr>"
  obtain vs f where R: "ent_Versions e0 = vs @ [?n]"
    "reg_get r s1 (reg_Name reg) = Inr (Some (e0\<lparr>ent_Versions := map f (ent_Versions e0)\<rparr>))"
    "\<forall>v\<in>set (ent_Versions e0). \<exists>m. f v = v\<lparr>ver_Manifest := m\<rparr>" "distinct (map ver_Version (ent_Versions e0))"
    using Register_stores [OF assms(1,2)] by blast
  have "sound s1" using Register_good [OF assms(1), of t reg] assms(2) by (simp add: good_def)
  from transition_stores [OF this assms(3)] obtain e idx v g where
    T: "reg_get r s1 (reg_Name reg) = Inr (Some e)" "indexOf e (reg_Version reg) = Some idx"
      "provenance_fn prov (ent_Versions e ! idx) = Inr v" "v' = v\<lparr>ver_UpdatedAt := now\<rparr>"
      "reg_get r s' (reg_Name reg) = Inr (Some (e\<lparr>ent_Versions := map g ((ent_Versions e)[idx := v'])\<rparr>))"
      "\<forall>x\<in>set ((ent_Versions e)[idx := v']). \<exists>m. g x = x\<lparr>ver_Manifest := m\<rparr>" by blast
  have e: "ent_Versions e = map f (ent_Versions e0)" using T(1) R(2) by auto
  have idx: "idx < length (ent_Versions e0)" "ver_Version (ent_Versions e ! idx) = reg_Version reg"
    using indexOf_Some [OF T(2)] e by (simp, blast)
  obtain m0 where "f (ent_Versions e0 ! idx) = (ent_Versions e0 ! idx)\<lparr>ver_Manifest := m0\<rparr>"
    using R(3) idx(1) nth_mem by blast
  then have at: "ent_Versions e ! idx = (ent_Versions e0 ! idx)\<lparr>ver_Manifest := m0\<rparr>" using e idx(1) by simp
  then have "ver_Version (ent_Versions e0 ! idx) = ver_Version (ent_Versions e0 ! length vs)" using idx(2) R(1) by simp
  then have "map ver_Version (ent_Versions e0) ! idx = map ver_Version (ent_Versions e0) ! length vs"
  proof -
    have "length vs < length (ent_Versions e0)" using R(1) by simp
    with idx(1) \<open>ver_Version (ent_Versions e0 ! idx) = ver_Version (ent_Versions e0 ! length vs)\<close> show ?thesis
      by (simp only: nth_map)
  qed
  then have "idx = length vs" using nth_eq_iff_index_eq [OF R(4), of idx "length vs"] idx(1) R(1) by simp
  then have "ent_Versions e0 ! idx = ?n" using R(1) by simp
  then have v': "v' = (?n\<lparr>ver_Manifest := m0\<rparr>)\<lparr>ver_Provenance := prov, ver_UpdatedAt := now\<rparr>"
    using T(3,4) at by (simp add: provenance_fn_def)
  have "v' \<in> set ((ent_Versions e)[idx := v'])" using idx(1) e by (intro set_update_memI) simp
  then have "\<exists>m. g v' = v'\<lparr>ver_Manifest := m\<rparr>" "g v' \<in> set (map g ((ent_Versions e)[idx := v']))" using T(6) by auto
  then have "\<exists>e v. reg_get r s' (reg_Name reg) = Inr (Some e) \<and> v \<in> set (ent_Versions e) \<and> (\<exists>m. v = v'\<lparr>ver_Manifest := m\<rparr>)"
    using T(5) by (intro exI [of _ "e\<lparr>ent_Versions := map g ((ent_Versions e)[idx := v'])\<rparr>"] exI [of _ "g v'"]) simp
  moreover have "ver_Version v' = reg_Version reg \<and> ver_Ref v' = reg_Ref reg \<and> ver_Env v' = rg_env r \<and>
    ver_Status v' = StatusDraft \<and> ver_Provenance v' = prov \<and> \<not> ver_Default v'" by (simp add: v' zero_Version_def)
  ultimately show ?thesis by blast
qed

end

section \<open>The registry on the in-memory store\<close>

definition mem_Registry :: "string \<Rightarrow> PromotionPolicy \<Rightarrow> (string \<Rightarrow> string option) \<Rightarrow> (Entry \<Rightarrow> string) \<Rightarrow> blob Mem Registry" where
  "mem_Registry env policy compact bytes = reg_New mem_store env policy compact bytes"

interpretation mem_registry: registry_store "mem_Registry env policy compact bytes" mem_view
  for env policy compact bytes
proof -
  have "kv_store (rg_store (mem_Registry env policy compact bytes)) mem_view"
    by (simp add: mem_Registry_def reg_New_def mem_kv.kv_store_axioms)
  then show "registry_store (mem_Registry env policy compact bytes) mem_view" by (rule registry_store.intro)
qed

abbreviation prod :: "blob Mem Registry" where
  "prod \<equiv> mem_Registry ''prod'' SealedProd Some (\<lambda>_. [])"

definition sample_registration :: Registration where
  "sample_registration = \<lparr>reg_Name = ''lint'', reg_Kind = ''tool'', reg_Title = [], reg_Owner = ''core'',
     reg_Version = ''1.0'', reg_Ref = ''sha256:ab'', reg_Manifest = []\<rparr>"

lemma sound_NewMem: "mem_registry.sound env policy compact bytes NewMem"
  by (simp add: mem_registry.sound_def NewMem_def mem_view_def)

lemma mem_registry_fields [simp]:
  "rg_policy (mem_Registry env policy compact bytes) = policy" "rg_env (mem_Registry env policy compact bytes) = env"
  by (simp_all add: mem_Registry_def reg_New_def)

lemmas sample_registry_defs = mem_Registry_def reg_New_def Register_def transition_def RecordTest_def test_fn_def
  ProposePromote_def propose_fn_def Approve_def approve_fn_def reg_get_def reg_save_def marshal_entry_def
  marshal_version_def mem_store_def mem_Get_def mem_Put_def NewMem_def indexOf_def SealedProd_def
  sample_registration_def zero_Version_def safeName_def ReplaceByte_def entryPrefix_def TrimSpace_def is_space_def
  Let_def

section \<open>Properties\<close>

text \<open>C12: the registry's invariant. Starting from an empty store, after any sequence of registrations, tests,
  proposals, approvals, rejections, deprecations, demises, default changes, pins, promotions and ingestions, failed
  ones included, every entry read back has distinct versions and at most one default, which is published or
  deprecated; under a policy that requires approval and separation of duties no version got past review with its
  proposer as approver; and under test-before-promote no version left draft without a passing test on record.\<close>

theorem registry_invariant:
  assumes "reg_get (mem_Registry env policy compact bytes) (reg_run (mem_Registry env policy compact bytes) ops NewMem) name
      = Inr (Some e)"
  shows "distinct (map ver_Version (ent_Versions e)) \<and> length (filter ver_Default (ent_Versions e)) \<le> 1 \<and>
    (\<forall>v\<in>set (ent_Versions e).
       (ver_Default v \<longrightarrow> ver_Status v \<in> {StatusPublished, StatusDeprecated}) \<and>
       (pp_RequiresApproval policy \<and> pp_RequireSoD policy \<and> ver_Status v \<in> {StatusPublished, StatusDeprecated, StatusDemised}
          \<longrightarrow> ver_ApprovedBy v \<noteq> ver_ProposedBy v) \<and>
       (pp_RequireTestBeforePromote policy \<and> ver_Status v \<noteq> StatusDraft \<longrightarrow> ver_TestPassed v))"
proof -
  have ok: "entry_ok policy e"
    using mem_registry.run_entry_ok [OF sound_NewMem assms] by simp
  have "(ver_Default v \<longrightarrow> ver_Status v \<in> {StatusPublished, StatusDeprecated}) \<and>
       (pp_RequiresApproval policy \<and> pp_RequireSoD policy \<and> ver_Status v \<in> {StatusPublished, StatusDeprecated, StatusDemised}
          \<longrightarrow> ver_ApprovedBy v \<noteq> ver_ProposedBy v) \<and>
       (pp_RequireTestBeforePromote policy \<and> ver_Status v \<noteq> StatusDraft \<longrightarrow> ver_TestPassed v)"
    if "v \<in> set (ent_Versions e)" for v
    using ok that unfolding entry_ok_def version_ok_def by (cases "ver_Status v") force+
  with ok show ?thesis by (simp add: entry_ok_def)
qed

definition sample_ops :: "reg_op list" where
  "sample_ops = [OpRegister 1 sample_registration, OpRecordTest 2 2 ''lint'' ''1.0'' True ''run-1'',
     OpPropose 3 3 ''lint'' ''1.0'' ''ann'', OpApprove 4 4 ''lint'' ''1.0'' ''ann'', OpApprove 5 5 ''lint'' ''1.0'' ''bob'']"

theorem registry_invariant_witness:
  "\<exists>e v. reg_get prod (reg_run prod sample_ops NewMem) ''lint'' = Inr (Some e) \<and> ent_Versions e = [v] \<and>
     ver_Status v = StatusPublished \<and> ver_ApprovedBy v \<noteq> ver_ProposedBy v"
proof -
  obtain e v where e: "reg_get prod (reg_run prod sample_ops NewMem) ''lint'' = Inr (Some e)" "ent_Versions e = [v]"
    "ver_Status v = StatusPublished"
    by (simp add: sample_registry_defs sample_ops_def reg_run_def)
  from registry_invariant [OF e(1)] e show ?thesis by (simp add: SealedProd_def)
qed

text \<open>A version is immutable evidence. Whatever operations follow, a version that is on record stays on record
  under its name with the same environment and the same content digest, and once it was published it never goes back to review or
  draft: its status only moves on to deprecated and demised.\<close>

theorem registered_version_is_kept:
  assumes "reg_get (mem_Registry env policy compact bytes) (reg_run (mem_Registry env policy compact bytes) ops NewMem) name
      = Inr (Some e)" and "v \<in> set (ent_Versions e)"
  shows "\<exists>e' v'. reg_get (mem_Registry env policy compact bytes)
        (reg_run (mem_Registry env policy compact bytes) (ops @ later) NewMem) name = Inr (Some e') \<and>
      ent_Name e' = ent_Name e \<and> v' \<in> set (ent_Versions e') \<and> ver_Version v' = ver_Version v \<and> ver_Ref v' = ver_Ref v \<and>
      ver_Env v' = ver_Env v \<and>
      (ver_Status v \<in> {StatusPublished, StatusDeprecated, StatusDemised} \<longrightarrow>
         status_rank (ver_Status v) \<le> status_rank (ver_Status v'))"
proof -
  let ?r = "mem_Registry env policy compact bytes"
  have "mem_registry.sound env policy compact bytes (reg_run ?r ops NewMem)"
    using mem_registry.reg_run_good [OF sound_NewMem] by (simp add: mem_registry.good_def)
  from mem_registry.run_entry_keeps [OF this assms(1), of later] obtain e' where
    e': "reg_get ?r (reg_run ?r later (reg_run ?r ops NewMem)) name = Inr (Some e')" "entry_keeps e e'" by blast
  then obtain v' where v': "v' \<in> set (ent_Versions e')" "keeps v v'" "ent_Name e' = ent_Name e"
    using assms(2) by (auto simp: entry_keeps_def)
  have run: "reg_run ?r (ops @ later) NewMem = reg_run ?r later (reg_run ?r ops NewMem)" by (simp add: reg_run_def)
  show ?thesis unfolding run using e'(1) v' by (intro exI [of _ e'] exI [of _ v']) (auto simp: keeps_def)
qed

theorem registered_version_is_kept_witness:
  "\<exists>e' v'. reg_get prod (reg_run prod ([OpRegister 1 sample_registration] @ sample_ops) NewMem) ''lint'' = Inr (Some e') \<and>
     v' \<in> set (ent_Versions e') \<and> ver_Ref v' = ''sha256:ab''"
proof -
  obtain e v where e: "reg_get prod (reg_run prod [OpRegister 1 sample_registration] NewMem) ''lint'' = Inr (Some e)"
    "v \<in> set (ent_Versions e)" "ver_Ref v = ''sha256:ab''"
    by (simp add: sample_registry_defs reg_run_def)
  from registered_version_is_kept [OF e(1,2), of sample_ops] e(3) show ?thesis by auto
qed

text \<open>Resolution never substitutes silently. For an entry with distinct versions, a requested version that is
  published or deprecated resolves to itself, unmarked; anything else is an error under strict pinning, and under
  fallback resolves to a published default, marked as substituted with a reason, or is an error.\<close>

theorem reg_Resolve_never_silent:
  assumes "reg_get r s name = Inr (Some e)" and "distinct (map ver_Version (ent_Versions e))"
  shows "(\<forall>v\<in>set (ent_Versions e). ver_Version v = requested \<and> ver_Status v \<in> {StatusPublished, StatusDeprecated} \<longrightarrow>
            (\<exists>reason. reg_Resolve r s name requested mode = Inr \<lparr>rs_Name = name, rs_Requested = requested, rs_Resolved = v,
               rs_Substituted = False, rs_Reason = reason\<rparr> \<and> (reason = [] \<longleftrightarrow> ver_Status v = StatusPublished))) \<and>
    ((\<forall>v\<in>set (ent_Versions e). ver_Version v = requested \<longrightarrow> ver_Status v \<notin> {StatusPublished, StatusDeprecated}) \<longrightarrow>
       (mode = StrictPin \<longrightarrow> reg_Resolve r s name requested mode = Inl (StrictPinUnavailable name requested)) \<and>
       (\<forall>x. reg_Resolve r s name requested mode = Inr x \<longrightarrow>
          rs_Substituted x \<and> rs_Reason x \<noteq> [] \<and> rs_Resolved x \<in> set (ent_Versions e) \<and>
          ver_Default (rs_Resolved x) \<and> ver_Status (rs_Resolved x) = StatusPublished))"
proof (intro conjI ballI impI allI)
  fix v assume v: "v \<in> set (ent_Versions e)" "ver_Version v = requested \<and> ver_Status v \<in> {StatusPublished, StatusDeprecated}"
  then obtain idx where i: "indexOf e requested = Some idx" by (cases "indexOf e requested") (auto simp: indexOf_None)
  obtain j where j: "j < length (ent_Versions e)" "v = ent_Versions e ! j" using v(1) by (metis in_set_conv_nth)
  have "idx = j"
    using indexOf_Some [OF i] j v(2) nth_eq_iff_index_eq [OF assms(2), of idx j] by simp
  then show "\<exists>reason. reg_Resolve r s name requested mode = Inr \<lparr>rs_Name = name, rs_Requested = requested, rs_Resolved = v,
      rs_Substituted = False, rs_Reason = reason\<rparr> \<and> (reason = [] \<longleftrightarrow> ver_Status v = StatusPublished)"
    using v(2) i j(2) assms(1) by (cases "ver_Status v") (simp_all add: reg_Resolve_def)
next
  assume u: "\<forall>v\<in>set (ent_Versions e). ver_Version v = requested \<longrightarrow> ver_Status v \<notin> {StatusPublished, StatusDeprecated}"
  have eq: "reg_Resolve r s name requested mode = fallback e name requested mode"
  proof (cases "indexOf e requested")
    case (Some idx)
    with u indexOf_Some [OF Some] have "ver_Status (ent_Versions e ! idx) \<notin> {StatusPublished, StatusDeprecated}" by simp
    with Some assms(1) show ?thesis by (cases "ver_Status (ent_Versions e ! idx)") (simp_all add: reg_Resolve_def)
  qed (simp add: reg_Resolve_def assms(1))
  show "mode = StrictPin \<Longrightarrow> reg_Resolve r s name requested mode = Inl (StrictPinUnavailable name requested)"
    unfolding eq by (simp add: fallback_def)
  fix x assume "reg_Resolve r s name requested mode = Inr x"
  then obtain d where d: "defaultVersion e = Some d" "rs_Resolved x = d" "rs_Substituted x" "rs_Reason x \<noteq> []"
    by (auto simp: eq fallback_def split: if_splits option.splits)
  from d(1) have "d \<in> set (ent_Versions e)" "ver_Default d \<and> ver_Status d = StatusPublished"
    by (auto simp: defaultVersion_def find_Some_iff)
  with d show "rs_Substituted x" "rs_Reason x \<noteq> []" "rs_Resolved x \<in> set (ent_Versions e)"
    "ver_Default (rs_Resolved x)" "ver_Status (rs_Resolved x) = StatusPublished" by simp_all
qed

theorem reg_Resolve_never_silent_witness:
  "reg_Resolve prod (reg_run prod [OpRegister 1 sample_registration] NewMem) ''lint'' ''1.0'' StrictPin
     = Inl (StrictPinUnavailable ''lint'' ''1.0'')"
proof -
  obtain e where e: "reg_get prod (reg_run prod [OpRegister 1 sample_registration] NewMem) ''lint'' = Inr (Some e)"
    "distinct (map ver_Version (ent_Versions e))"
    "\<forall>v\<in>set (ent_Versions e). ver_Version v = ''1.0'' \<longrightarrow> ver_Status v \<notin> {StatusPublished, StatusDeprecated}"
    by (simp add: sample_registry_defs reg_run_def)
  show ?thesis using reg_Resolve_never_silent [OF e(1,2), of "''1.0''" StrictPin] e(3) by simp
qed

text \<open>A demise cannot pull a version out from under a consumer. Once a consumer has pinned a version, an unforced
  demise of that version fails, names the dependents with the consumer among them, and leaves the store as it is.\<close>

theorem pinned_version_not_demised:
  assumes "Pin (mem_Registry env policy compact bytes) name version consumer s = (None, s')" and "consumer \<noteq> []"
  shows "\<exists>deps. Demise (mem_Registry env policy compact bytes) now name version False s'
             = (Inl (StillUsed name version deps), s') \<and> consumer \<in> set deps"
  using mem_registry.Dependents_pinned [OF assms] by (auto simp: Demise_def)

theorem pinned_version_not_demised_witness:
  "\<exists>s' deps. Pin prod ''lint'' ''1.0'' ''flow-a'' NewMem = (None, s') \<and>
     Demise prod 9 ''lint'' ''1.0'' False s' = (Inl (StillUsed ''lint'' ''1.0'' deps), s') \<and> ''flow-a'' \<in> set deps"
proof -
  obtain s' where p: "Pin prod ''lint'' ''1.0'' ''flow-a'' NewMem = (None, s')"
    by (simp add: Pin_def sample_registry_defs)
  from pinned_version_not_demised [OF p, of 9] p show ?thesis by simp
qed

text \<open>Promotion hands up the same bytes. When a version is promoted into a target registry in any state its
  operations can reach, the target holds a fresh draft of that name and version with the same content digest, in the
  target's own environment, not a default and with nothing approved. Its provenance is the version's own, and
  ``promotedFrom'' is the environment it came from only when the version's provenance does not already carry that
  key: on a second hop the older origin overwrites the immediate one.\<close>

theorem Promote_carries_digest:
  assumes "Promote (mem_Registry env policy compact bytes) t now entry version
      (reg_run (mem_Registry env policy compact bytes) ops NewMem) = (None, s')"
    and "wf_map (ver_Provenance version)"
  shows "\<exists>e v. reg_get (mem_Registry env policy compact bytes) s' (ent_Name entry) = Inr (Some e) \<and> v \<in> set (ent_Versions e) \<and>
      ver_Version v = ver_Version version \<and> ver_Ref v = ver_Ref version \<and> ver_Env v = env \<and>
      ver_Status v = StatusDraft \<and> \<not> ver_Default v \<and>
      (\<forall>k. map_of (ver_Provenance v) k =
         (case map_of (ver_Provenance version) k of Some x \<Rightarrow> Some x
          | None \<Rightarrow> if k = ''promotedFrom'' then Some (ver_Env version) else None))"
proof -
  let ?r = "mem_Registry env policy compact bytes" and ?s = "reg_run (mem_Registry env policy compact bytes) ops NewMem"
  let ?reg = "\<lparr>reg_Name = ent_Name entry, reg_Kind = ent_Kind entry, reg_Title = ent_Title entry,
      reg_Owner = ent_Owner entry, reg_Version = ver_Version version, reg_Ref = ver_Ref version,
      reg_Manifest = ver_Manifest version\<rparr>"
  let ?prov = "foldl (\<lambda>m (k, v). gset m k v) [(''promotedFrom'', ver_Env version)] (ver_Provenance version)"
  have sound: "mem_registry.sound env policy compact bytes ?s"
    using mem_registry.reg_run_good [OF sound_NewMem] by (simp add: mem_registry.good_def)
  from assms(1) obtain e0 s1 v' where reg: "Register ?r t ?reg ?s = (Inr e0, s1)"
    and tr: "transition ?r now (reg_Name ?reg) (reg_Version ?reg) (provenance_fn ?prov) s1 = (Inr v', s')"
    by (auto simp: Promote_def Let_def split: prod.splits sum.splits)
  note f = mem_registry.fresh_draft_transition [OF sound reg tr]
  then obtain e v m where "reg_get ?r s' (ent_Name entry) = Inr (Some e)" "v \<in> set (ent_Versions e)" "v = v'\<lparr>ver_Manifest := m\<rparr>"
    by auto
  moreover have "map_of ?prov k = (case map_of (ver_Provenance version) k of Some x \<Rightarrow> Some x
      | None \<Rightarrow> if k = ''promotedFrom'' then Some (ver_Env version) else None)" for k
    using foldl_gset_lookup [OF assms(2), of "[(''promotedFrom'', ver_Env version)]" k] by (simp split: option.split)
  ultimately show ?thesis using f by (intro exI [of _ e] exI [of _ v]) simp
qed

definition sit_version :: Version where
  "sit_version = zero_Version\<lparr>ver_Version := ''1.0'', ver_Env := ''sit'', ver_Ref := ''sha256:ab'',
     ver_Provenance := [(''promotedFrom'', ''dev'')]\<rparr>"

definition lint_entry :: Entry where
  "lint_entry = \<lparr>ent_Name = ''lint'', ent_Kind = ''tool'', ent_Title = [], ent_Owner = [], ent_Versions = [sit_version]\<rparr>"

theorem Promote_carries_digest_witness:
  "\<exists>s' e v. Promote prod 1 2 lint_entry sit_version NewMem = (None, s') \<and>
     reg_get prod s' ''lint'' = Inr (Some e) \<and> v \<in> set (ent_Versions e) \<and> ver_Ref v = ''sha256:ab'' \<and>
     map_of (ver_Provenance v) ''promotedFrom'' = Some ''dev'' \<and> ver_Env sit_version = ''sit''"
proof -
  obtain s' where p: "Promote prod 1 2 lint_entry sit_version (reg_run prod [] NewMem) = (None, s')"
    by (simp add: Promote_def provenance_fn_def sample_registry_defs lint_entry_def sit_version_def reg_run_def)
  have w: "wf_map (ver_Provenance sit_version)" by (simp add: sit_version_def)
  from Promote_carries_digest [OF p w] obtain e v where
    "reg_get prod s' ''lint'' = Inr (Some e)" "v \<in> set (ent_Versions e)" "ver_Ref v = ''sha256:ab''"
    "map_of (ver_Provenance v) ''promotedFrom'' = Some ''dev''"
    by (auto simp: lint_entry_def sit_version_def)
  then show ?thesis using p by (simp add: reg_run_def sit_version_def) blast
qed

text \<open>The registry content-addresses what arrived, never what it was told. An ingestion that succeeds records a
  draft whose digest is the digest of the fetched bytes, whatever digest the caller put in the registration, and
  whose provenance is the fetcher's; the upload adapter fails exactly on empty data.\<close>

theorem Ingest_content_addresses:
  assumes "Ingest (mem_Registry env policy compact bytes) t now (upload_Fetch sha) req reg
      (reg_run (mem_Registry env policy compact bytes) ops NewMem) = (Inr v, s')"
  shows "sreq_Data req \<noteq> [] \<and> ver_Ref v = ''sha256:'' @ sha (sreq_Data req) \<and> ver_Status v = StatusDraft \<and>
    ver_Version v = reg_Version reg \<and> map_of (ver_Provenance v) ''source'' = Some ''upload'' \<and>
    (\<exists>e x. reg_get (mem_Registry env policy compact bytes) s' (reg_Name reg) = Inr (Some e) \<and>
           x \<in> set (ent_Versions e) \<and> ver_Version x = reg_Version reg \<and> ver_Ref x = ''sha256:'' @ sha (sreq_Data req))"
proof -
  let ?r = "mem_Registry env policy compact bytes" and ?s = "reg_run (mem_Registry env policy compact bytes) ops NewMem"
  have sound: "mem_registry.sound env policy compact bytes ?s"
    using mem_registry.reg_run_good [OF sound_NewMem] by (simp add: mem_registry.good_def)
  from assms obtain art where art: "upload_Fetch sha req = Inr art"
    by (auto simp: Ingest_def split: sum.splits)
  define reg2 where "reg2 = (if length (reg_Manifest (reg\<lparr>reg_Ref := art_Digest art\<rparr>)) = 0
      then reg\<lparr>reg_Ref := art_Digest art, reg_Manifest := art_Manifest art\<rparr> else reg\<lparr>reg_Ref := art_Digest art\<rparr>)"
  from assms art obtain e0 s1 where R: "Register ?r t reg2 ?s = (Inr e0, s1)"
    and T: "transition ?r now (reg_Name reg2) (reg_Version reg2) (provenance_fn (art_Provenance art)) s1 = (Inr v, s')"
    by (auto simp: Ingest_def Let_def reg2_def split: prod.splits sum.splits if_splits)
  have r2: "reg_Name reg2 = reg_Name reg" "reg_Version reg2 = reg_Version reg" "reg_Ref reg2 = art_Digest art"
    by (simp_all add: reg2_def)
  have a: "sreq_Data req \<noteq> []" "art_Digest art = ''sha256:'' @ sha (sreq_Data req)"
    "map_of (art_Provenance art) ''source'' = Some ''upload''"
    using art by (auto simp: upload_Fetch_def digest_def split: if_splits)
  note f = mem_registry.fresh_draft_transition [OF sound R T, unfolded r2]
  then obtain e x m where "reg_get ?r s' (reg_Name reg) = Inr (Some e)" "x \<in> set (ent_Versions e)" "x = v\<lparr>ver_Manifest := m\<rparr>"
    by blast
  with f a show ?thesis by auto
qed

theorem Ingest_content_addresses_witness:
  "\<exists>v s'. Ingest prod 1 2 (upload_Fetch (\<lambda>b. b)) \<lparr>sreq_Data = ''wasm'', sreq_Repo = [], sreq_Ref = [], sreq_Opts = []\<rparr>
      sample_registration NewMem = (Inr v, s') \<and> ver_Ref v = ''sha256:wasm''"
proof -
  obtain v s' where i: "Ingest prod 1 2 (upload_Fetch (\<lambda>b. b)) \<lparr>sreq_Data = ''wasm'', sreq_Repo = [], sreq_Ref = [], sreq_Opts = []\<rparr>
      sample_registration (reg_run prod [] NewMem) = (Inr v, s')"
    by (simp add: Ingest_def upload_Fetch_def provenance_fn_def sample_registry_defs reg_run_def)
  from Ingest_content_addresses [OF i] i show ?thesis by (auto simp: reg_run_def)
qed

text \<open>Two names can be one artifact. The key of an entry replaces every slash of the name by an underscore, so a
  name with a slash and the same name with an underscore read the same entry: what is registered under one is found,
  and is governed, under the other.\<close>

theorem slash_and_underscore_share_an_entry:
  "reg_get r s (a @ ''/'' @ b) = reg_get r s (a @ ''_'' @ b) \<and>
   Dependents r s (a @ ''/'' @ b) version = Dependents r s (a @ ''_'' @ b) version"
  by (simp add: reg_get_def Dependents_def safeName_def ReplaceByte_def)

theorem slash_and_underscore_share_an_entry_witness:
  "\<exists>e. reg_get prod (snd (Register prod 1 (sample_registration\<lparr>reg_Name := ''team/lint''\<rparr>) NewMem)) ''team_lint'' = Inr (Some e) \<and>
     ent_Name e = ''team/lint''"
  using slash_and_underscore_share_an_entry [of prod "snd (Register prod 1 (sample_registration\<lparr>reg_Name := ''team/lint''\<rparr>) NewMem)"
      "''team''" "''lint''"]
  by (simp add: sample_registry_defs)

end
