(* ===== verification/Kafka_Grant.thy ===== *)
theory Kafka_Grant
  imports Complex_Main Contracts Go_Fmt
begin

text \<open>
  The Kafka adapter, package \<open>kafkagrant\<close> of \<open>mantlekeep-kafka\<close>: \<open>grant.go\<close>, \<open>boundary.go\<close>, \<open>plan.go\<close>, \<open>admin.go\<close>,
  \<open>artifact.go\<close> and \<open>adapter.go\<close>. A team is onboarded once, with prefixed rules over its namespace and a quota, and every
  topic it provisions afterwards has to fall under the prefix of that namespace.

  The cluster is a value of any type, read and changed only through the record \<open>KafkaAdmin\<close>, the interface \<open>Admin\<close> of the
  package: an operation that changes the cluster returns its error and the cluster after it, an operation that reads
  returns an error or what it read. The enumerations of package \<open>kmsg\<close> are the constants the code names, and any other
  value. Errors keep the sentinel the code wraps and the values its text quotes. A \<open>float64\<close> quota is the rational it
  stands for; the conversion of an \<open>int64\<close> to it, which rounds beyond 53 bits, is \<open>float64_of_int\<close>.
\<close>

section \<open>The vocabulary of the protocol and the errors\<close>

datatype ACLOperation = OpRead | OpWrite | OpDescribe | OpCreate | OpAll | OpOther nat
datatype ACLResourceType = ResTopic | ResGroup | ResOther nat
datatype ACLPattern = PatPrefixed | PatLiteral | PatOther nat
datatype ACLPermission = PermAllow | PermOther nat

datatype GrantError =
    ErrInvalidGrant string
  | ErrOutsideBoundary string string \<comment> \<open>the topic and the prefix\<close>
  | ErrNotApproved string
  | ErrTopicExists
  | KerrTopicAlreadyExists \<comment> \<open>the broker's own error value\<close>
  | GrantPlain string
  | GrantWrap string GrantError
  | GrantJoin GrantError GrantError \<comment> \<open>two errors wrapped by one\<close>

text \<open>\<open>errors.Is\<close> against a sentinel: the chain of wrapped errors is searched.\<close>

fun wraps :: "(GrantError \<Rightarrow> bool) \<Rightarrow> GrantError \<Rightarrow> bool" where
  "wraps t (GrantWrap m e) = (t (GrantWrap m e) \<or> wraps t e)"
| "wraps t (GrantJoin a b) = (t (GrantJoin a b) \<or> wraps t a \<or> wraps t b)"
| "wraps t e = t e"

definition is_ErrTopicExists :: "GrantError \<Rightarrow> bool" where
  "is_ErrTopicExists = wraps (\<lambda>e. e = ErrTopicExists)"

section \<open>Principals, quotas, boundaries and grants\<close>

type_synonym Principal = string

definition principal_split :: "Principal \<Rightarrow> (string \<times> string) option" where
  "principal_split p =
     (case cut_at CHR '':'' p of
        None \<Rightarrow> None
      | Some (typ, name) \<Rightarrow> if typ = [] \<or> name = [] then None else Some (typ, name))"

definition principal_Type :: "Principal \<Rightarrow> string" where
  "principal_Type p = (case principal_split p of None \<Rightarrow> [] | Some (typ, name) \<Rightarrow> typ)"

definition principal_Name :: "Principal \<Rightarrow> string" where
  "principal_Name p = (case principal_split p of None \<Rightarrow> [] | Some (typ, name) \<Rightarrow> name)"

definition principal_Validate :: "Principal \<Rightarrow> GrantError option" where
  "principal_Validate p = (if principal_split p = None then Some (ErrInvalidGrant (''principal '' @ p)) else None)"

record KafkaQuota =
  quo_ProducerByteRate :: int
  quo_ConsumerByteRate :: int

definition quota_Validate :: "KafkaQuota \<Rightarrow> GrantError option" where
  "quota_Validate q =
     (if quo_ProducerByteRate q \<le> 0 \<or> quo_ConsumerByteRate q \<le> 0
      then Some (ErrInvalidGrant (''quota '' @ dec_int (quo_ProducerByteRate q) @ ''/'' @ dec_int (quo_ConsumerByteRate q)))
      else None)"

record Boundary =
  bou_Principal :: Principal
  bou_Prefix :: string
  bou_Quota :: KafkaQuota

record Grant =
  gra_Principal :: Principal
  gra_Prefix :: string
  gra_Topic :: string
  gra_Partitions :: int
  gra_ReplicationFactor :: int
  gra_RetentionMillis :: int

text \<open>\<open>covers\<close>, and the checks on names. Every byte of a rune beyond ASCII is outside the alphabet, so the walk over
  runes fails exactly when a byte is outside it.\<close>

definition covers :: "string \<Rightarrow> string \<Rightarrow> bool" where
  "covers pre name = (if pre = [] then False else HasPrefix name pre)"

definition legal_name_char :: "char \<Rightarrow> bool" where
  "legal_name_char c =
     (let n = (of_char c :: nat)
      in (97 \<le> n \<and> n \<le> 122) \<or> (65 \<le> n \<and> n \<le> 90) \<or> (48 \<le> n \<and> n \<le> 57) \<or>
         c = CHR ''.'' \<or> c = CHR ''_'' \<or> c = CHR ''-'')"

definition validateNameCharacters :: "string \<Rightarrow> string \<Rightarrow> GrantError option" where
  "validateNameCharacters v kind = (if list_all legal_name_char v then None else Some (ErrInvalidGrant (kind @ '' '' @ v)))"

definition validatePrefix :: "string \<Rightarrow> GrantError option" where
  "validatePrefix pre =
     (if pre = [] then Some (ErrInvalidGrant ''prefix must not be empty'')
      else if pre = ''*'' \<or> Contains pre ''*'' then Some (ErrInvalidGrant (''prefix must not contain a wildcard: '' @ pre))
      else validateNameCharacters pre ''prefix'')"

definition maxResourceNameLength :: nat where "maxResourceNameLength = 249"

definition validateResourceName :: "string \<Rightarrow> string \<Rightarrow> GrantError option" where
  "validateResourceName name kind =
     (if name = [] then Some (ErrInvalidGrant (kind @ '' name must not be empty''))
      else if name = ''.'' \<or> name = ''..'' then Some (ErrInvalidGrant (kind @ '' name is reserved: '' @ name))
      else if length name > maxResourceNameLength then Some (ErrInvalidGrant (kind @ '' name is too long: '' @ name))
      else validateNameCharacters name kind)"

definition boundary_Validate :: "Boundary \<Rightarrow> GrantError option" where
  "boundary_Validate b =
     (case principal_Validate (bou_Principal b) of
        Some e \<Rightarrow> Some e
      | None \<Rightarrow>
          (case validatePrefix (bou_Prefix b) of
             Some e \<Rightarrow> Some e
           | None \<Rightarrow> quota_Validate (bou_Quota b)))"

definition grant_Validate :: "Grant \<Rightarrow> GrantError option" where
  "grant_Validate g =
     (case principal_Validate (gra_Principal g) of
        Some e \<Rightarrow> Some e
      | None \<Rightarrow>
          (case validatePrefix (gra_Prefix g) of
             Some e \<Rightarrow> Some e
           | None \<Rightarrow>
               (case validateResourceName (gra_Topic g) ''topic'' of
                  Some e \<Rightarrow> Some e
                | None \<Rightarrow>
                    if gra_RetentionMillis g < 0
                    then Some (ErrInvalidGrant (''retention '' @ dec_int (gra_RetentionMillis g)))
                    else if \<not> covers (gra_Prefix g) (gra_Topic g)
                    then Some (ErrOutsideBoundary (gra_Topic g) (gra_Prefix g))
                    else None)))"

section \<open>What is written to the cluster\<close>

record ACLBinding =
  acl_Principal :: Principal
  acl_Host :: string
  acl_ResourceType :: ACLResourceType
  acl_ResourceName :: string
  acl_Pattern :: ACLPattern
  acl_Operation :: ACLOperation
  acl_Permission :: ACLPermission

record QuotaValue =
  qv_Key :: string
  qv_Value :: rat

record QuotaAlteration =
  qa_EntityType :: string
  qa_EntityName :: string
  qa_Values :: "QuotaValue list"

record TopicSpec =
  top_Name :: string
  top_Partitions :: int
  top_ReplicationFactor :: int
  top_Configs :: "string gomap"

definition TopicOperations :: "ACLOperation list" where "TopicOperations = [OpRead, OpWrite, OpDescribe]"
definition GroupOperations :: "ACLOperation list" where "GroupOperations = [OpRead]"

abbreviation QuotaEntityTypeUser :: string where "QuotaEntityTypeUser \<equiv> ''user''"
abbreviation ProducerByteRateKey :: string where "ProducerByteRateKey \<equiv> ''producer_byte_rate''"
abbreviation ConsumerByteRateKey :: string where "ConsumerByteRateKey \<equiv> ''consumer_byte_rate''"
abbreviation RetentionMillisConfig :: string where "RetentionMillisConfig \<equiv> ''retention.ms''"
abbreviation anyHost :: string where "anyHost \<equiv> ''*''"

definition prefixedAllow :: "Boundary \<Rightarrow> ACLResourceType \<Rightarrow> ACLOperation \<Rightarrow> ACLBinding" where
  "prefixedAllow b resourceType op =
     \<lparr>acl_Principal = bou_Principal b, acl_Host = anyHost, acl_ResourceType = resourceType,
      acl_ResourceName = bou_Prefix b, acl_Pattern = PatPrefixed, acl_Operation = op, acl_Permission = PermAllow\<rparr>"

definition PlanBoundaryACLs :: "Boundary \<Rightarrow> GrantError + ACLBinding list" where
  "PlanBoundaryACLs b =
     (case boundary_Validate b of
        Some e \<Rightarrow> Inl e
      | None \<Rightarrow> Inr (map (prefixedAllow b ResTopic) TopicOperations @ map (prefixedAllow b ResGroup) GroupOperations))"

text \<open>\<open>float64(n)\<close>: the nearest number of 53 significant bits, ties to the even one.\<close>

fun bit_length :: "nat \<Rightarrow> nat" where
  "bit_length n = (if n = 0 then 0 else Suc (bit_length (n div 2)))"

declare bit_length.simps [simp del]

definition round53 :: "nat \<Rightarrow> nat" where
  "round53 n =
     (if n < 2 ^ 53 then n
      else (let e = bit_length n - 53; q = n div 2 ^ e; r = n mod 2 ^ e; half = 2 ^ (e - 1)
            in (if r > half \<or> (r = half \<and> odd q) then q + 1 else q) * 2 ^ e))"

definition float64_of_int :: "int \<Rightarrow> rat" where
  "float64_of_int n = of_int (sgn n * int (round53 (nat \<bar>n\<bar>)))"

definition PlanQuota :: "Boundary \<Rightarrow> GrantError + QuotaAlteration" where
  "PlanQuota b =
     (case boundary_Validate b of
        Some e \<Rightarrow> Inl e
      | None \<Rightarrow> Inr
          \<lparr>qa_EntityType = QuotaEntityTypeUser, qa_EntityName = principal_Name (bou_Principal b),
           qa_Values = [\<lparr>qv_Key = ProducerByteRateKey, qv_Value = float64_of_int (quo_ProducerByteRate (bou_Quota b))\<rparr>,
                        \<lparr>qv_Key = ConsumerByteRateKey, qv_Value = float64_of_int (quo_ConsumerByteRate (bou_Quota b))\<rparr>]\<rparr>)"

definition PlanTopic :: "Grant \<Rightarrow> GrantError + TopicSpec" where
  "PlanTopic g =
     (case grant_Validate g of
        Some e \<Rightarrow> Inl e
      | None \<Rightarrow> Inr
          \<lparr>top_Name = gra_Topic g, top_Partitions = gra_Partitions g, top_ReplicationFactor = gra_ReplicationFactor g,
           top_Configs = (if gra_RetentionMillis g > 0
                          then [(RetentionMillisConfig, dec_int (gra_RetentionMillis g))] else [])\<rparr>)"

section \<open>The artifacts and the adapter\<close>

record BoundaryArtifact =
  ba_IntentID :: string
  ba_PolicyID :: string
  ba_Principal :: Principal
  ba_Prefix :: string
  ba_ACLs :: "ACLBinding list"
  ba_Quota :: "QuotaValue list"
  ba_ObservedAt :: int

definition GrantsCreate :: "BoundaryArtifact \<Rightarrow> bool" where
  "GrantsCreate a =
     list_ex (\<lambda>b. acl_Permission b = PermAllow \<and> (acl_Operation b = OpCreate \<or> acl_Operation b = OpAll)) (ba_ACLs a)"

record TopicArtifact =
  ta_IntentID :: string
  ta_PolicyID :: string
  ta_Topic :: string
  ta_Config :: "string gomap"
  ta_AlreadyExisted :: bool
  ta_ObservedAt :: int

definition ta_RetentionMillis :: "TopicArtifact \<Rightarrow> string option" where
  "ta_RetentionMillis a = map_of (ta_Config a) RetentionMillisConfig"

record 'w KafkaAdmin =
  ka_CreateACLs :: "'w \<Rightarrow> ACLBinding list \<Rightarrow> GrantError option \<times> 'w"
  ka_DescribeACLs :: "'w \<Rightarrow> Principal \<Rightarrow> string \<Rightarrow> ACLPattern \<Rightarrow> GrantError + ACLBinding list"
  ka_AlterClientQuota :: "'w \<Rightarrow> QuotaAlteration \<Rightarrow> GrantError option \<times> 'w"
  ka_DescribeClientQuota :: "'w \<Rightarrow> string \<Rightarrow> string \<Rightarrow> GrantError + QuotaValue list"
  ka_CreateTopic :: "'w \<Rightarrow> TopicSpec \<Rightarrow> GrantError option \<times> 'w"
  ka_DescribeTopicConfig :: "'w \<Rightarrow> string \<Rightarrow> GrantError + string gomap"

definition checkToken :: "int \<Rightarrow> ExecutionToken \<Rightarrow> GrantError option" where
  "checkToken now tk =
     (if tok_IntentID tk = [] then Some (ErrNotApproved ''no intent id'')
      else if \<not> Valid tk now then Some (ErrNotApproved (''expired token for intent '' @ tok_IntentID tk))
      else None)"

definition readBoundary :: "'w KafkaAdmin \<Rightarrow> int \<Rightarrow> 'w \<Rightarrow> ExecutionToken \<Rightarrow> Boundary \<Rightarrow> GrantError + BoundaryArtifact" where
  "readBoundary admin now w tk b =
     (case ka_DescribeACLs admin w (bou_Principal b) (bou_Prefix b) PatPrefixed of
        Inl e \<Rightarrow> Inl (GrantWrap (''read back acls for '' @ bou_Principal b) e)
      | Inr acls \<Rightarrow>
          (case ka_DescribeClientQuota admin w QuotaEntityTypeUser (principal_Name (bou_Principal b)) of
             Inl e \<Rightarrow> Inl (GrantWrap (''read back quota for '' @ bou_Principal b) e)
           | Inr quota \<Rightarrow> Inr
               \<lparr>ba_IntentID = tok_IntentID tk, ba_PolicyID = tok_PolicyID tk, ba_Principal = bou_Principal b,
                ba_Prefix = bou_Prefix b, ba_ACLs = acls, ba_Quota = quota, ba_ObservedAt = now\<rparr>))"

text \<open>\<open>now\<close> is the clock at the token check and \<open>observed\<close> at the read back.\<close>

definition OnboardTeam ::
  "'w KafkaAdmin \<Rightarrow> int \<Rightarrow> int \<Rightarrow> 'w \<Rightarrow> ExecutionToken \<Rightarrow> Boundary \<Rightarrow> (GrantError + BoundaryArtifact) \<times> 'w" where
  "OnboardTeam admin now observed w tk b =
     (case checkToken now tk of
        Some e \<Rightarrow> (Inl e, w)
      | None \<Rightarrow>
          (case PlanBoundaryACLs b of
             Inl e \<Rightarrow> (Inl e, w)
           | Inr bindings \<Rightarrow>
               (case PlanQuota b of
                  Inl e \<Rightarrow> (Inl e, w)
                | Inr alteration \<Rightarrow>
                    (case ka_AlterClientQuota admin w alteration of
                       (Some e, w1) \<Rightarrow> (Inl (GrantWrap (''set quota for '' @ bou_Principal b) e), w1)
                     | (None, w1) \<Rightarrow>
                         (case ka_CreateACLs admin w1 bindings of
                            (Some e, w2) \<Rightarrow>
                              (Inl (GrantWrap (''create acls for '' @ bou_Principal b @ '' on '' @ bou_Prefix b) e), w2)
                          | (None, w2) \<Rightarrow> (readBoundary admin observed w2 tk b, w2))))))"

definition Provision ::
  "'w KafkaAdmin \<Rightarrow> int \<Rightarrow> int \<Rightarrow> 'w \<Rightarrow> ExecutionToken \<Rightarrow> Grant \<Rightarrow> (GrantError + TopicArtifact) \<times> 'w" where
  "Provision admin now observed w tk g =
     (case checkToken now tk of
        Some e \<Rightarrow> (Inl e, w)
      | None \<Rightarrow>
          (case PlanTopic g of
             Inl e \<Rightarrow> (Inl e, w)
           | Inr spec \<Rightarrow>
               (let (err, w1) = ka_CreateTopic admin w spec
                in (case (case err of None \<Rightarrow> None | Some e \<Rightarrow> if \<not> is_ErrTopicExists e then Some e else None) of
                      Some e \<Rightarrow> (Inl (GrantWrap (''create topic '' @ gra_Topic g) e), w1)
                    | None \<Rightarrow>
                        (case ka_DescribeTopicConfig admin w1 (gra_Topic g) of
                           Inl e \<Rightarrow> (Inl (GrantWrap (''read back topic '' @ gra_Topic g) e), w1)
                         | Inr config \<Rightarrow> (Inr
                             \<lparr>ta_IntentID = tok_IntentID tk, ta_PolicyID = tok_PolicyID tk, ta_Topic = gra_Topic g,
                              ta_Config = config, ta_AlreadyExisted = (err \<noteq> None), ta_ObservedAt = observed\<rparr>, w1))))))"

section \<open>Names, prefixes and principals\<close>

lemma covers_iff: "covers pre name \<longleftrightarrow> pre \<noteq> [] \<and> (\<exists>t. name = pre @ t)"
  by (auto simp: covers_def HasPrefix_iff)

lemma legal_no_wildcard: "list_all legal_name_char s \<Longrightarrow> \<not> Contains s ''*''"
  by (induction s) (auto simp: HasPrefix_def legal_name_char_def Let_def)

lemma validatePrefix_None: "validatePrefix pre = None \<longleftrightarrow> pre \<noteq> [] \<and> list_all legal_name_char pre"
proof -
  have "\<not> list_all legal_name_char ''*''" by (simp add: legal_name_char_def Let_def)
  then show ?thesis
    using legal_no_wildcard [of pre] by (auto simp: validatePrefix_def validateNameCharacters_def)
qed

lemma validateResourceName_None:
  "validateResourceName name kind = None \<longleftrightarrow>
     name \<noteq> [] \<and> name \<noteq> ''.'' \<and> name \<noteq> ''..'' \<and> length name \<le> 249 \<and> list_all legal_name_char name"
  by (auto simp: validateResourceName_def validateNameCharacters_def maxResourceNameLength_def)

lemma principal_split_Some:
  "principal_split p = Some (t, n) \<longleftrightarrow> p = t @ CHR '':'' # n \<and> CHR '':'' \<notin> set t \<and> t \<noteq> [] \<and> n \<noteq> []"
proof
  assume "principal_split p = Some (t, n)"
  then have "cut_at CHR '':'' p = Some (t, n)" "t \<noteq> []" "n \<noteq> []"
    by (auto simp: principal_split_def split: option.splits if_splits)
  with cut_at_SomeD show "p = t @ CHR '':'' # n \<and> CHR '':'' \<notin> set t \<and> t \<noteq> [] \<and> n \<noteq> []" by blast
qed (auto simp: principal_split_def)

lemma principal_Validate_None:
  "principal_Validate p = None \<longleftrightarrow>
     principal_Type p \<noteq> [] \<and> principal_Name p \<noteq> [] \<and> p = principal_Type p @ CHR '':'' # principal_Name p"
  by (cases "principal_split p")
     (auto simp: principal_Validate_def principal_Type_def principal_Name_def principal_split_Some)

text \<open>Exactly what a boundary and a grant have to be.\<close>

lemma boundary_Validate_None:
  "boundary_Validate b = None \<longleftrightarrow>
     principal_Validate (bou_Principal b) = None \<and> bou_Prefix b \<noteq> [] \<and> list_all legal_name_char (bou_Prefix b) \<and>
     0 < quo_ProducerByteRate (bou_Quota b) \<and> 0 < quo_ConsumerByteRate (bou_Quota b)"
proof -
  have "validatePrefix (bou_Prefix b) = None \<longleftrightarrow> bou_Prefix b \<noteq> [] \<and> list_all legal_name_char (bou_Prefix b)"
    by (rule validatePrefix_None)
  then show ?thesis by (auto simp: boundary_Validate_def quota_Validate_def split: option.splits)
qed

lemma grant_Validate_None:
  "grant_Validate g = None \<longleftrightarrow>
     principal_Validate (gra_Principal g) = None \<and> list_all legal_name_char (gra_Prefix g) \<and>
     validateResourceName (gra_Topic g) ''topic'' = None \<and> 0 \<le> gra_RetentionMillis g \<and>
     covers (gra_Prefix g) (gra_Topic g)"
proof -
  have "validatePrefix (gra_Prefix g) = None \<longleftrightarrow> gra_Prefix g \<noteq> [] \<and> list_all legal_name_char (gra_Prefix g)"
    by (rule validatePrefix_None)
  then show ?thesis by (auto simp: grant_Validate_def covers_iff split: option.splits)
qed

text \<open>A boundary's prefix has no bound on its length, a topic's name has one of 249 bytes: a team can be onboarded with a
  prefix in which it can never have a topic.\<close>

lemma long_prefix_holds_no_topic:
  "gra_Prefix g = bou_Prefix b \<Longrightarrow> length (bou_Prefix b) > 249 \<Longrightarrow> grant_Validate g \<noteq> None"
  by (auto simp: grant_Validate_None covers_iff validateResourceName_None)

section \<open>A quota is written as it was approved, up to the precision of the wire\<close>

lemma bit_length_bounds: "0 < n \<Longrightarrow> 0 < bit_length n \<and> 2 ^ (bit_length n - 1) \<le> n"
proof (induction n rule: bit_length.induct)
  case (1 n)
  show ?case
  proof (cases "n div 2 = 0")
    case True
    with 1 have "n = 1" by auto
    then show ?thesis by (simp add: bit_length.simps [of "Suc 0"] bit_length.simps [of 0])
  next
    case False
    then have "0 < bit_length (n div 2)" "2 ^ (bit_length (n div 2) - 1) \<le> n div 2" using 1 by auto
    moreover have "(2::nat) ^ bit_length (n div 2) = 2 * 2 ^ (bit_length (n div 2) - 1)"
      using calculation(1) by (metis Suc_pred' power_Suc)
    ultimately show ?thesis using 1 by (simp add: bit_length.simps [of n])
  qed
qed

lemma bit_length_upper: "n < 2 ^ bit_length n"
proof (induction n rule: bit_length.induct)
  case (1 n)
  then show ?case by (cases "n = 0") (auto simp: bit_length.simps [of n])
qed

lemma round_to_multiple:
  fixes n p h :: nat
  assumes "p = 2 * h" "0 < h" and q: "q = n div p" and r: "r = n mod p"
  shows "\<bar>int ((if r > h \<or> (r = h \<and> odd q) then q + 1 else q) * p) - int n\<bar> \<le> int h"
proof -
  have n: "n = q * p + r" using q r by simp
  have "r < p" using assms by simp
  then show ?thesis using n assms(1) by (auto simp: algebra_simps)
qed

lemma round53_near: "\<bar>int (round53 n) - int n\<bar> * 2 ^ 53 \<le> int n"
proof (cases "n < 2 ^ 53")
  case True
  then show ?thesis by (simp add: round53_def)
next
  case False
  define e where "e = bit_length n - 53"
  have pos: "0 < n" using False by (metis gr0I zero_less_numeral zero_less_power)
  have low: "2 ^ (bit_length n - 1) \<le> n" and "n < 2 ^ bit_length n"
    using bit_length_bounds [OF pos] bit_length_upper [of n] by auto
  then have "(2::nat) ^ 53 < 2 ^ bit_length n" using False by linarith
  then have "53 < bit_length n" by (simp only: power_strict_increasing_iff)
  then have e: "0 < e" "bit_length n - 1 = (e - 1) + 53" by (auto simp: e_def)
  have p: "(2::nat) ^ e = 2 * 2 ^ (e - 1)" using e(1) by (metis Suc_pred' power_Suc)
  have "\<bar>int (round53 n) - int n\<bar> \<le> int (2 ^ (e - 1))"
    using round_to_multiple [OF p _ refl refl, of n] False
    unfolding round53_def Let_def e_def [symmetric] by (simp only: if_False) simp
  moreover have "int (2 ^ (e - 1)) * 2 ^ 53 \<le> int n"
    using low unfolding e(2) power_add by (metis of_nat_le_iff of_nat_mult of_nat_numeral of_nat_power)
  ultimately show ?thesis by (meson mult_right_mono order_trans zero_le_numeral zero_le_power)
qed

section \<open>What onboarding permits\<close>

text \<open>What a list of allow bindings grants by itself, as \<open>boundary.go\<close> documents it: an allow binding for every host permits its principal its
  operation, or every operation, on the resources of its type whose name has the prefix of a prefixed binding, or is the
  name of a literal one. There are no deny bindings here, the adapter writes none; a broker
  that also holds deny bindings of somebody else permits less, and one lets whoever may read or write also describe.\<close>

definition binding_permits :: "ACLBinding \<Rightarrow> Principal \<Rightarrow> ACLResourceType \<Rightarrow> string \<Rightarrow> ACLOperation \<Rightarrow> bool" where
  "binding_permits b p rt name op =
     (acl_Permission b = PermAllow \<and> acl_Principal b = p \<and> acl_Host b = anyHost \<and> acl_ResourceType b = rt \<and>
      (case acl_Pattern b of
         PatPrefixed \<Rightarrow> HasPrefix name (acl_ResourceName b)
       | PatLiteral \<Rightarrow> name = acl_ResourceName b \<or> acl_ResourceName b = ''*''
       | PatOther n \<Rightarrow> False) \<and>
      (acl_Operation b = op \<or> acl_Operation b = OpAll))"

definition acls_permit :: "ACLBinding list \<Rightarrow> Principal \<Rightarrow> ACLResourceType \<Rightarrow> string \<Rightarrow> ACLOperation \<Rightarrow> bool" where
  "acls_permit bs p rt name op = list_ex (\<lambda>b. binding_permits b p rt name op) bs"

lemma prefixedAllow_permits:
  "binding_permits (prefixedAllow b rt' op') p rt name op \<longleftrightarrow>
     p = bou_Principal b \<and> rt = rt' \<and> HasPrefix name (bou_Prefix b) \<and> (op = op' \<or> op' = OpAll)"
  by (auto simp: binding_permits_def prefixedAllow_def)

lemma PlanBoundaryACLs_Inr:
  "PlanBoundaryACLs b = Inr bs \<longleftrightarrow>
     boundary_Validate b = None \<and>
     bs = [prefixedAllow b ResTopic OpRead, prefixedAllow b ResTopic OpWrite, prefixedAllow b ResTopic OpDescribe,
           prefixedAllow b ResGroup OpRead]"
  by (auto simp: PlanBoundaryACLs_def TopicOperations_def GroupOperations_def split: option.splits)

lemma PlanTopic_Inr:
  "PlanTopic g = Inr spec \<longleftrightarrow>
     grant_Validate g = None \<and>
     spec = \<lparr>top_Name = gra_Topic g, top_Partitions = gra_Partitions g, top_ReplicationFactor = gra_ReplicationFactor g,
             top_Configs = (if gra_RetentionMillis g > 0
                            then [(RetentionMillisConfig, dec_int (gra_RetentionMillis g))] else [])\<rparr>"
  by (auto simp: PlanTopic_def split: option.splits)

definition team_operations :: "(ACLResourceType \<times> ACLOperation) set" where
  "team_operations = {(ResTopic, OpRead), (ResTopic, OpWrite), (ResTopic, OpDescribe), (ResGroup, OpRead)}"

lemma plan_permits:
  assumes "PlanBoundaryACLs b = Inr bs"
  shows "acls_permit bs p rt name op \<longleftrightarrow>
           p = bou_Principal b \<and> covers (bou_Prefix b) name \<and> (rt, op) \<in> team_operations"
proof -
  have "bou_Prefix b \<noteq> []" using assms by (simp add: PlanBoundaryACLs_Inr boundary_Validate_None)
  then show ?thesis
    using assms by (auto simp: PlanBoundaryACLs_Inr acls_permit_def prefixedAllow_permits team_operations_def covers_def)
qed

lemma operations_without_creation: "(rt, OpCreate) \<notin> team_operations" "(rt, OpAll) \<notin> team_operations"
  by (auto simp: team_operations_def)

text \<open>A boundary that plans its rules also plans its quota, keyed on the name inside the principal.\<close>

lemma PlanQuota_of_plan:
  "PlanBoundaryACLs b = Inr bs \<Longrightarrow>
   \<exists>q. PlanQuota b = Inr q \<and> qa_EntityName q = principal_Name (bou_Principal b) \<and> qa_EntityName q \<noteq> []"
proof -
  assume "PlanBoundaryACLs b = Inr bs"
  then have ok: "boundary_Validate b = None" by (simp add: PlanBoundaryACLs_Inr)
  then have "principal_Name (bou_Principal b) \<noteq> []" by (simp add: boundary_Validate_None principal_Validate_None)
  with ok show ?thesis by (simp add: PlanQuota_def)
qed

section \<open>The adapter\<close>

lemma checkToken_None: "checkToken now tk = None \<longleftrightarrow> tok_IntentID tk \<noteq> [] \<and> Valid tk now"
  by (simp add: checkToken_def)

lemma Provision_unfold:
  "Provision admin now obs w tk g = (r, w') \<Longrightarrow>
     (w' = w \<and> isl r \<and> (checkToken now tk \<noteq> None \<or> grant_Validate g \<noteq> None)) \<or>
     (\<exists>spec err. checkToken now tk = None \<and> PlanTopic g = Inr spec \<and> ka_CreateTopic admin w spec = (err, w') \<and>
        (\<forall>a. r = Inr a \<longrightarrow> ta_IntentID a = tok_IntentID tk \<and> ta_Topic a = gra_Topic g \<and>
                ka_DescribeTopicConfig admin w' (gra_Topic g) = Inr (ta_Config a) \<and>
                (err = None \<or> (\<exists>e. err = Some e \<and> is_ErrTopicExists e)) \<and> ta_AlreadyExisted a = (err \<noteq> None)) \<and>
        (isl r \<longrightarrow> (\<exists>e. err = Some e \<and> \<not> is_ErrTopicExists e) \<or> isl (ka_DescribeTopicConfig admin w' (gra_Topic g))))"
  by (auto simp: Provision_def PlanTopic_def Let_def split: option.splits sum.splits if_splits prod.splits)

lemma OnboardTeam_unfold:
  "OnboardTeam admin now obs w tk b = (r, w') \<Longrightarrow>
     (w' = w \<and> isl r \<and> (checkToken now tk \<noteq> None \<or> boundary_Validate b \<noteq> None)) \<or>
     (\<exists>bs q err w1. checkToken now tk = None \<and> PlanBoundaryACLs b = Inr bs \<and> PlanQuota b = Inr q \<and>
        ka_AlterClientQuota admin w q = (err, w1) \<and>
        (case err of
           Some e \<Rightarrow> isl r \<and> w' = w1
         | None \<Rightarrow> (\<exists>err2. ka_CreateACLs admin w1 bs = (err2, w') \<and>
                      (\<forall>a. r = Inr a \<longrightarrow> err2 = None \<and> readBoundary admin obs w' tk b = Inr a))))"
  by (auto simp: OnboardTeam_def PlanBoundaryACLs_def PlanQuota_def split: option.splits sum.splits prod.splits)

lemma float64_of_int_pos: "0 < n \<Longrightarrow> 0 < float64_of_int n"
proof -
  assume n: "0 < n"
  have "0 < round53 (nat n)"
  proof (rule ccontr)
    assume "\<not> 0 < round53 (nat n)"
    then have "int (nat n) * 2 ^ 53 \<le> int (nat n)" using round53_near [of "nat n"] by simp
    then show False using n by simp
  qed
  then show ?thesis using n by (simp add: float64_of_int_def)
qed

text \<open>A quota of up to 53 bits is written exactly.\<close>

lemma float64_of_int_exact: "0 \<le> n \<Longrightarrow> n < 2 ^ 53 \<Longrightarrow> float64_of_int n = of_int n"
  by (cases "n = 0") (auto simp: float64_of_int_def round53_def nat_less_iff)

lemma planned_quota_is_positive:
  assumes "PlanQuota b = Inr q"
  shows "qa_EntityName q = principal_Name (bou_Principal b)" "qa_EntityName q \<noteq> []"
    "list_all (\<lambda>v. 0 < qv_Value v) (qa_Values q)"
proof -
  have ok: "boundary_Validate b = None" using assms by (auto simp: PlanQuota_def split: option.splits)
  then have "principal_Name (bou_Principal b) \<noteq> []" "0 < quo_ProducerByteRate (bou_Quota b)"
      "0 < quo_ConsumerByteRate (bou_Quota b)"
    by (simp_all add: boundary_Validate_None principal_Validate_None)
  with ok assms show "qa_EntityName q = principal_Name (bou_Principal b)" "qa_EntityName q \<noteq> []"
    "list_all (\<lambda>v. 0 < qv_Value v) (qa_Values q)"
    by (auto simp: PlanQuota_def float64_of_int_pos)
qed

text \<open>A retried grant converges: where the broker says the topic is there and reads its configuration back, the call
  succeeds, changes nothing further and reports what the cluster holds.\<close>

lemma Provision_of_an_existing_topic:
  assumes "checkToken now tk = None" "PlanTopic g = Inr spec"
    and "ka_CreateTopic admin w spec = (Some e, w)" "is_ErrTopicExists e"
    and "ka_DescribeTopicConfig admin w (gra_Topic g) = Inr config"
  shows "Provision admin now obs w tk g =
           (Inr \<lparr>ta_IntentID = tok_IntentID tk, ta_PolicyID = tok_PolicyID tk, ta_Topic = gra_Topic g,
                 ta_Config = config, ta_AlreadyExisted = True, ta_ObservedAt = obs\<rparr>, w)"
  using assms by (simp add: Provision_def)

text \<open>Onboarding permits exactly the namespace. Whenever onboarding a team succeeds or changes the cluster at all, it was
  called under a live token with an intent; it first set positive quotas for the name inside the principal, and only when
  the cluster took them did it ask for the rules; and these let that principal read, write and describe the topics under
  its prefix and read the consumer groups under it, and permit nothing else: no other principal, no other name, and no
  creation of a topic.\<close>

theorem onboarding_permits_exactly_the_namespace:
  assumes "OnboardTeam admin now obs w tk b = (r, w')" and "w' \<noteq> w \<or> \<not> isl r"
  shows "tok_IntentID tk \<noteq> [] \<and> now < tok_ExpiresAt tk \<and>
         (\<exists>q bs err w1. ka_AlterClientQuota admin w q = (err, w1) \<and>
            qa_EntityName q = principal_Name (bou_Principal b) \<and> qa_EntityName q \<noteq> [] \<and>
            list_all (\<lambda>v. 0 < qv_Value v) (qa_Values q) \<and>
            w' = (if err = None then snd (ka_CreateACLs admin w1 bs) else w1) \<and>
            (\<forall>p rt name op. acls_permit bs p rt name op \<longleftrightarrow>
               p = bou_Principal b \<and> bou_Prefix b \<noteq> [] \<and> HasPrefix name (bou_Prefix b) \<and>
               (rt, op) \<in> {(ResTopic, OpRead), (ResTopic, OpWrite), (ResTopic, OpDescribe), (ResGroup, OpRead)}))"
proof -
  obtain bs q err w1 where p: "checkToken now tk = None" "PlanBoundaryACLs b = Inr bs" "PlanQuota b = Inr q"
      "ka_AlterClientQuota admin w q = (err, w1)"
    and c: "case err of Some e \<Rightarrow> isl r \<and> w' = w1
            | None \<Rightarrow> (\<exists>err2. ka_CreateACLs admin w1 bs = (err2, w') \<and>
                         (\<forall>a. r = Inr a \<longrightarrow> err2 = None \<and> readBoundary admin obs w' tk b = Inr a))"
    using OnboardTeam_unfold [OF assms(1)] assms(2) by blast
  have "w' = (if err = None then snd (ka_CreateACLs admin w1 bs) else w1)" using c by (auto split: option.splits)
  moreover have "tok_IntentID tk \<noteq> []" "now < tok_ExpiresAt tk" using p(1) by (auto simp: checkToken_None Valid_def)
  moreover have "\<forall>p rt name op. acls_permit bs p rt name op \<longleftrightarrow>
      p = bou_Principal b \<and> bou_Prefix b \<noteq> [] \<and> HasPrefix name (bou_Prefix b) \<and>
      (rt, op) \<in> {(ResTopic, OpRead), (ResTopic, OpWrite), (ResTopic, OpDescribe), (ResGroup, OpRead)}"
    using plan_permits [OF p(2)] by (auto simp: covers_def team_operations_def)
  ultimately show ?thesis using p(4) planned_quota_is_positive [OF p(3)] by blast
qed

text \<open>C39: Provisioning stays inside the boundary. Whenever provisioning a topic succeeds or changes the cluster at all, it was
  called under a live token with an intent, and the one change it asked for is the creation of a topic of the granted name,
  which falls under the granted prefix and is a legal Kafka name; the rules the principal was onboarded with already
  permit it to read, write and describe that topic, and nothing more.\<close>

theorem provisioning_stays_inside_the_boundary:
  assumes "Provision admin now obs w tk g = (r, w')" and "w' \<noteq> w \<or> \<not> isl r"
    and "PlanBoundaryACLs b = Inr bs" "bou_Principal b = gra_Principal g" "bou_Prefix b = gra_Prefix g"
  shows "tok_IntentID tk \<noteq> [] \<and> now < tok_ExpiresAt tk \<and>
         (\<exists>spec. w' = snd (ka_CreateTopic admin w spec) \<and> top_Name spec = gra_Topic g \<and>
            length (top_Name spec) \<le> 249 \<and> list_all legal_name_char (top_Name spec) \<and>
            (\<exists>rest. top_Name spec = gra_Prefix g @ rest) \<and>
            (\<forall>op. acls_permit bs (gra_Principal g) ResTopic (top_Name spec) op \<longleftrightarrow>
                    op \<in> {OpRead, OpWrite, OpDescribe}))"
proof -
  obtain spec err where p: "checkToken now tk = None" "PlanTopic g = Inr spec" "ka_CreateTopic admin w spec = (err, w')"
    using Provision_unfold [OF assms(1)] assms(2) by (elim disjE exE conjE) auto
  then have v: "grant_Validate g = None" and n: "top_Name spec = gra_Topic g" by (auto simp: PlanTopic_Inr)
  then have cov: "covers (gra_Prefix g) (gra_Topic g)"
    and leg: "length (gra_Topic g) \<le> 249" "list_all legal_name_char (gra_Topic g)"
    by (auto simp: grant_Validate_None validateResourceName_None)
  have perm: "acls_permit bs (gra_Principal g) ResTopic (top_Name spec) op \<longleftrightarrow> op \<in> {OpRead, OpWrite, OpDescribe}" for op
    using plan_permits [OF assms(3)] cov assms(4,5) n by (auto simp: team_operations_def)
  have "tok_IntentID tk \<noteq> [] \<and> now < tok_ExpiresAt tk" using p(1) by (auto simp: checkToken_None Valid_def)
  moreover have "w' = snd (ka_CreateTopic admin w spec)" using p(3) by simp
  moreover have "\<exists>rest. top_Name spec = gra_Prefix g @ rest" using cov n by (auto simp: covers_iff)
  ultimately show ?thesis using n leg perm by metis
qed

text \<open>A team, its first topic, and a cluster that is the bindings, quotas and topics it holds.\<close>

record Cluster =
  clu_ACLs :: "ACLBinding list"
  clu_Quotas :: "QuotaAlteration list"
  clu_Topics :: "TopicSpec list"

definition sample_cluster_admin :: "Cluster KafkaAdmin" where
  "sample_cluster_admin =
     \<lparr>ka_CreateACLs = (\<lambda>w bs. (None, w\<lparr>clu_ACLs := clu_ACLs w @ bs\<rparr>)),
      ka_DescribeACLs = (\<lambda>w p name pat. Inr (filter (\<lambda>b. acl_Principal b = p \<and> acl_ResourceName b = name \<and>
                                                    acl_Pattern b = pat) (clu_ACLs w))),
      ka_AlterClientQuota = (\<lambda>w q. (None, w\<lparr>clu_Quotas := q # clu_Quotas w\<rparr>)),
      ka_DescribeClientQuota = (\<lambda>w typ name. Inr (concat (map qa_Values (filter (\<lambda>q. qa_EntityName q = name) (clu_Quotas w))))),
      ka_CreateTopic = (\<lambda>w t. if list_ex (\<lambda>u. top_Name u = top_Name t) (clu_Topics w) then (Some ErrTopicExists, w)
                             else (None, w\<lparr>clu_Topics := t # clu_Topics w\<rparr>)),
      ka_DescribeTopicConfig = (\<lambda>w n. case filter (\<lambda>t. top_Name t = n) (clu_Topics w) of
                                        [] \<Rightarrow> Inl (GrantPlain ''unknown topic'') | t # _ \<Rightarrow> Inr (top_Configs t))\<rparr>"

definition sample_empty_cluster :: Cluster where
  "sample_empty_cluster = \<lparr>clu_ACLs = [], clu_Quotas = [], clu_Topics = []\<rparr>"

definition sample_token :: ExecutionToken where
  "sample_token = \<lparr>tok_Value = ''t'', tok_IntentID = ''i-1'', tok_Scope = [], tok_PolicyID = ''p'', tok_IssuedAt = 0,
     tok_ExpiresAt = 100\<rparr>"

definition sample_boundary :: Boundary where
  "sample_boundary = \<lparr>bou_Principal = ''User:pay'', bou_Prefix = ''pay.'',
     bou_Quota = \<lparr>quo_ProducerByteRate = 4, quo_ConsumerByteRate = 8\<rparr>\<rparr>"

definition sample_grant :: Grant where
  "sample_grant = \<lparr>gra_Principal = ''User:pay'', gra_Prefix = ''pay.'', gra_Topic = ''pay.v1'', gra_Partitions = 3,
     gra_ReplicationFactor = -1, gra_RetentionMillis = 0\<rparr>"

lemmas kafka_samples = sample_cluster_admin_def sample_empty_cluster_def sample_token_def sample_boundary_def sample_grant_def

definition sample_plan :: "ACLBinding list" where
  "sample_plan = map (prefixedAllow sample_boundary ResTopic) TopicOperations @ map (prefixedAllow sample_boundary ResGroup) GroupOperations"

lemma sample_boundary_ok: "boundary_Validate sample_boundary = None"
  by code_simp

lemma sample_plan: "PlanBoundaryACLs sample_boundary = Inr sample_plan"
  by (simp add: PlanBoundaryACLs_def sample_plan_def sample_boundary_ok)

lemma sample_token_ok: "checkToken 10 sample_token = None"
  by code_simp

lemma sample_onboarding: "\<not> isl (fst (OnboardTeam sample_cluster_admin 10 11 sample_empty_cluster sample_token sample_boundary))"
  by (simp add: OnboardTeam_def sample_token_ok sample_plan PlanQuota_def sample_boundary_ok readBoundary_def
      sample_cluster_admin_def)

lemma sample_provisioning: "\<not> isl (fst (Provision sample_cluster_admin 10 11 sample_empty_cluster sample_token sample_grant))"
  by code_simp

theorem onboarding_permits_exactly_the_namespace_witness:
  "tok_IntentID sample_token \<noteq> [] \<and> (10::int) < tok_ExpiresAt sample_token"
proof -
  let ?x = "OnboardTeam sample_cluster_admin 10 11 sample_empty_cluster sample_token sample_boundary"
  have "?x = (fst ?x, snd ?x)" by simp
  from onboarding_permits_exactly_the_namespace [OF this disjI2 [OF sample_onboarding]] show ?thesis by blast
qed

theorem provisioning_stays_inside_the_boundary_witness:
  "tok_IntentID sample_token \<noteq> [] \<and> (10::int) < tok_ExpiresAt sample_token"
proof -
  let ?x = "Provision sample_cluster_admin 10 11 sample_empty_cluster sample_token sample_grant"
  have x: "?x = (fst ?x, snd ?x)" by simp
  have "bou_Principal sample_boundary = gra_Principal sample_grant" "bou_Prefix sample_boundary = gra_Prefix sample_grant"
    by (simp_all add: kafka_samples)
  from provisioning_stays_inside_the_boundary [OF x disjI2 [OF sample_provisioning] sample_plan this]
  show ?thesis by blast
qed

end
