(* ===== verification/Kafka_Franz.thy ===== *)
theory Kafka_Franz
  imports Kafka_Grant
begin

text \<open>
  The Kafka adapter over a live cluster, package \<open>franz\<close> of \<open>mantlekeep-kafka\<close>: \<open>acls.go\<close>, \<open>aclgroup.go\<close>, \<open>quotas.go\<close>,
  \<open>admin.go\<close> and \<open>errors.go\<close>. The client library \<open>kadm\<close> is not part of the repository: it is the record \<open>KadmClient\<close>, a
  parameter of every definition, whose requests and answers are the fields the code sets and reads. An \<open>ACLBuilder\<close> is
  what the code puts into the library's builder. What a request with that builder writes, the combination of every name
  and every operation in it, is the library's documented behaviour and is stated by \<open>builder_bindings\<close>.
\<close>

section \<open>The client library\<close>

record ACLBuilder =
  kb_Pattern :: ACLPattern
  kb_Operations :: "ACLOperation list" \<comment> \<open>none in a filter: any operation\<close>
  kb_Allow :: "string list"
  kb_AllowHosts :: "string list"
  kb_Deny :: "string list"
  kb_DenyHosts :: "string list"
  kb_Topics :: "string list"
  kb_Groups :: "string list"

definition NewACLs :: ACLBuilder where
  "NewACLs = \<lparr>kb_Pattern = PatLiteral, kb_Operations = [], kb_Allow = [], kb_AllowHosts = [], kb_Deny = [],
     kb_DenyHosts = [], kb_Topics = [], kb_Groups = []\<rparr>"

record KadmCreateACLsResult =
  kr_Type :: ACLResourceType
  kr_Name :: string
  kr_Operation :: ACLOperation
  kr_Err :: "GrantError option"

record KadmDescribedACL =
  kd_Principal :: string
  kd_Host :: string
  kd_Type :: ACLResourceType
  kd_Name :: string
  kd_Pattern :: ACLPattern
  kd_Operation :: ACLOperation
  kd_Permission :: ACLPermission

record KadmDescribeACLsResult =
  kdr_Err :: "GrantError option"
  kdr_Described :: "KadmDescribedACL list"

record KadmAlterQuotaEntry =
  kq_Entity :: "(string \<times> string) list"
  kq_Ops :: "(string \<times> rat) list"

record KadmResourceConfig =
  kc_Err :: "GrantError option"
  kc_Configs :: "(string \<times> string option) list" \<comment> \<open>no value for a sensitive one\<close>

record ('w, 'r) KadmClient =
  cl_CreateACLs :: "'w \<Rightarrow> ACLBuilder \<Rightarrow> (GrantError + KadmCreateACLsResult list) \<times> 'w"
  cl_DescribeACLs :: "'w \<Rightarrow> ACLBuilder \<Rightarrow> GrantError + KadmDescribeACLsResult list"
  cl_AlterClientQuotas :: "'w \<Rightarrow> KadmAlterQuotaEntry list \<Rightarrow> (GrantError + GrantError option list) \<times> 'w"
  cl_DescribeClientQuotas :: "'w \<Rightarrow> bool \<Rightarrow> (string \<times> string) list \<Rightarrow> GrantError + (string \<times> rat) list list"
  cl_CreateTopic :: "'w \<Rightarrow> int \<Rightarrow> int \<Rightarrow> string gomap \<Rightarrow> string \<Rightarrow> GrantError option \<times> 'w"
  cl_DescribeTopicConfigs :: "'w \<Rightarrow> string \<Rightarrow> GrantError + 'r"
  cl_On :: "'r \<Rightarrow> string \<Rightarrow> GrantError + KadmResourceConfig"

section \<open>Grouping the bindings of a request\<close>

record aclGroupKey =
  gk_principal :: Principal
  gk_host :: string
  gk_resource :: ACLResourceType
  gk_pattern :: ACLPattern
  gk_permission :: ACLPermission

record aclGroup =
  gr_key :: aclGroupKey
  gr_names :: "string list"
  gr_operations :: "ACLOperation list"

definition addName :: "string \<Rightarrow> aclGroup \<Rightarrow> aclGroup" where
  "addName n g = (if n \<in> set (gr_names g) then g else g\<lparr>gr_names := gr_names g @ [n]\<rparr>)"

definition addOperation :: "ACLOperation \<Rightarrow> aclGroup \<Rightarrow> aclGroup" where
  "addOperation p g = (if p \<in> set (gr_operations g) then g else g\<lparr>gr_operations := gr_operations g @ [p]\<rparr>)"

definition group_key :: "ACLBinding \<Rightarrow> aclGroupKey" where
  "group_key b = \<lparr>gk_principal = acl_Principal b, gk_host = acl_Host b, gk_resource = acl_ResourceType b,
     gk_pattern = acl_Pattern b, gk_permission = acl_Permission b\<rparr>"

text \<open>The body of the loop: the group of the binding's key is found through the index, or appended to the ordered list.\<close>

fun group_binding :: "aclGroup list \<Rightarrow> ACLBinding \<Rightarrow> aclGroup list" where
  "group_binding [] b =
     [addOperation (acl_Operation b) (addName (acl_ResourceName b) \<lparr>gr_key = group_key b, gr_names = [], gr_operations = []\<rparr>)]"
| "group_binding (g # gs) b =
     (if gr_key g = group_key b then addOperation (acl_Operation b) (addName (acl_ResourceName b) g) # gs
      else g # group_binding gs b)"

definition groupBindings :: "ACLBinding list \<Rightarrow> aclGroup list" where
  "groupBindings bs = foldl group_binding [] bs"

definition group_builder :: "aclGroup \<Rightarrow> GrantError + ACLBuilder" where
  "group_builder g =
     (let k = gr_key g
      in if gk_permission k \<noteq> PermAllow then Inl (GrantPlain ''refusing to write a binding other than ALLOW'')
         else if gk_pattern k \<noteq> PatPrefixed \<and> gk_pattern k \<noteq> PatLiteral
         then Inl (GrantPlain ''only LITERAL and PREFIXED can be created'')
         else (let b = NewACLs\<lparr>kb_Pattern := gk_pattern k, kb_Operations := gr_operations g, kb_Allow := [gk_principal k],
                               kb_AllowHosts := [gk_host k]\<rparr>
               in case gk_resource k of
                    ResTopic \<Rightarrow> Inr (b\<lparr>kb_Topics := gr_names g\<rparr>)
                  | ResGroup \<Rightarrow> Inr (b\<lparr>kb_Groups := gr_names g\<rparr>)
                  | ResOther n \<Rightarrow> Inl (GrantPlain ''resource type is not part of the namespace model'')))"

section \<open>The administration interface\<close>

fun first_failed :: "KadmCreateACLsResult list \<Rightarrow> GrantError option" where
  "first_failed [] = None"
| "first_failed (r # rs) =
     (case kr_Err r of Some e \<Rightarrow> Some (GrantWrap (''create acl on '' @ kr_Name r) e) | None \<Rightarrow> first_failed rs)"

fun write_groups :: "('w, 'r) KadmClient \<Rightarrow> 'w \<Rightarrow> aclGroup list \<Rightarrow> GrantError option \<times> 'w" where
  "write_groups c w [] = (None, w)"
| "write_groups c w (g # gs) =
     (case group_builder g of
        Inl e \<Rightarrow> (Some e, w)
      | Inr builder \<Rightarrow>
          (case cl_CreateACLs c w builder of
             (Inl e, w1) \<Rightarrow> (Some e, w1)
           | (Inr results, w1) \<Rightarrow>
               (case first_failed results of
                  Some e \<Rightarrow> (Some e, w1)
                | None \<Rightarrow> write_groups c w1 gs)))"

definition franz_CreateACLs :: "('w, 'r) KadmClient \<Rightarrow> 'w \<Rightarrow> ACLBinding list \<Rightarrow> GrantError option \<times> 'w" where
  "franz_CreateACLs c w bs = write_groups c w (groupBindings bs)"

definition described_binding :: "KadmDescribedACL \<Rightarrow> ACLBinding" where
  "described_binding d = \<lparr>acl_Principal = kd_Principal d, acl_Host = kd_Host d, acl_ResourceType = kd_Type d,
     acl_ResourceName = kd_Name d, acl_Pattern = kd_Pattern d, acl_Operation = kd_Operation d,
     acl_Permission = kd_Permission d\<rparr>"

fun collect_described :: "Principal \<Rightarrow> KadmDescribeACLsResult list \<Rightarrow> ACLBinding list \<Rightarrow> GrantError + ACLBinding list" where
  "collect_described p [] acc = Inr acc"
| "collect_described p (r # rs) acc =
     (case kdr_Err r of
        Some e \<Rightarrow> Inl (GrantWrap (''describe acls for '' @ p) e)
      | None \<Rightarrow> collect_described p rs (acc @ map described_binding (kdr_Described r)))"

definition franz_DescribeACLs ::
  "('w, 'r) KadmClient \<Rightarrow> 'w \<Rightarrow> Principal \<Rightarrow> string \<Rightarrow> ACLPattern \<Rightarrow> GrantError + ACLBinding list" where
  "franz_DescribeACLs c w p resourceName pat =
     (case cl_DescribeACLs c w
             (NewACLs\<lparr>kb_Topics := [resourceName], kb_Groups := [resourceName], kb_Pattern := pat, kb_Operations := [],
                      kb_Allow := [p], kb_AllowHosts := [], kb_Deny := [p], kb_DenyHosts := []\<rparr>) of
        Inl e \<Rightarrow> Inl e
      | Inr results \<Rightarrow> collect_described p results [])"

fun first_error :: "string \<Rightarrow> GrantError option list \<Rightarrow> GrantError option" where
  "first_error m [] = None"
| "first_error m (r # rs) = (case r of Some e \<Rightarrow> Some (GrantWrap m e) | None \<Rightarrow> first_error m rs)"

definition franz_AlterClientQuota :: "('w, 'r) KadmClient \<Rightarrow> 'w \<Rightarrow> QuotaAlteration \<Rightarrow> GrantError option \<times> 'w" where
  "franz_AlterClientQuota c w q =
     (case cl_AlterClientQuotas c w [\<lparr>kq_Entity = [(qa_EntityType q, qa_EntityName q)],
                                     kq_Ops = map (\<lambda>v. (qv_Key v, qv_Value v)) (qa_Values q)\<rparr>] of
        (Inl e, w1) \<Rightarrow> (Some e, w1)
      | (Inr results, w1) \<Rightarrow> (first_error (''alter quota for '' @ qa_EntityName q) results, w1))"

text \<open>The match is exact and strict, so a default-tier quota is not reported.\<close>

definition franz_DescribeClientQuota :: "('w, 'r) KadmClient \<Rightarrow> 'w \<Rightarrow> string \<Rightarrow> string \<Rightarrow> GrantError + QuotaValue list" where
  "franz_DescribeClientQuota c w entityType entityName =
     (case cl_DescribeClientQuotas c w True [(entityType, entityName)] of
        Inl e \<Rightarrow> Inl e
      | Inr described \<Rightarrow> Inr (concat (map (map (\<lambda>(k, v). \<lparr>qv_Key = k, qv_Value = v\<rparr>)) described)))"

definition mapCreateTopicError :: "GrantError option \<Rightarrow> GrantError option" where
  "mapCreateTopicError err =
     (case err of
        None \<Rightarrow> None
      | Some e \<Rightarrow> if wraps (\<lambda>x. x = KerrTopicAlreadyExists) e then Some (GrantJoin ErrTopicExists e) else Some e)"

definition franz_CreateTopic :: "('w, 'r) KadmClient \<Rightarrow> 'w \<Rightarrow> TopicSpec \<Rightarrow> GrantError option \<times> 'w" where
  "franz_CreateTopic c w spec =
     (let configs = foldl (\<lambda>m (k, v). gset m k v) [] (top_Configs spec);
          (err, w1) = cl_CreateTopic c w (top_Partitions spec) (top_ReplicationFactor spec) configs (top_Name spec)
      in (mapCreateTopicError err, w1))"

definition franz_DescribeTopicConfig :: "('w, 'r) KadmClient \<Rightarrow> 'w \<Rightarrow> string \<Rightarrow> GrantError + string gomap" where
  "franz_DescribeTopicConfig c w topic =
     (case cl_DescribeTopicConfigs c w topic of
        Inl e \<Rightarrow> Inl e
      | Inr resources \<Rightarrow>
          (case cl_On c resources topic of
             Inl e \<Rightarrow> Inl e
           | Inr resource \<Rightarrow>
               (case kc_Err resource of
                  Some e \<Rightarrow> Inl e
                | None \<Rightarrow> Inr (foldl (\<lambda>m (k, v). gset m k (case v of None \<Rightarrow> [] | Some x \<Rightarrow> x)) [] (kc_Configs resource)))))"

definition franz_Admin :: "('w, 'r) KadmClient \<Rightarrow> 'w KafkaAdmin" where
  "franz_Admin c =
     \<lparr>ka_CreateACLs = franz_CreateACLs c, ka_DescribeACLs = franz_DescribeACLs c,
      ka_AlterClientQuota = franz_AlterClientQuota c, ka_DescribeClientQuota = franz_DescribeClientQuota c,
      ka_CreateTopic = franz_CreateTopic c, ka_DescribeTopicConfig = franz_DescribeTopicConfig c\<rparr>"

section \<open>What a list of bindings is written as\<close>

text \<open>A request with a builder that names its principals and hosts, as every builder of this package does, and denies nothing
  stands for one binding per principal, host, name and operation in it.\<close>

definition builder_bindings :: "ACLBuilder \<Rightarrow> ACLBinding set" where
  "builder_bindings b =
     {\<lparr>acl_Principal = p, acl_Host = h, acl_ResourceType = rt, acl_ResourceName = n, acl_Pattern = kb_Pattern b,
       acl_Operation = op, acl_Permission = PermAllow\<rparr> | p h rt n op.
       p \<in> set (kb_Allow b) \<and> h \<in> set (kb_AllowHosts b) \<and> op \<in> set (kb_Operations b) \<and>
       (rt = ResTopic \<and> n \<in> set (kb_Topics b) \<or> rt = ResGroup \<and> n \<in> set (kb_Groups b))}"

text \<open>The bindings a group stands for, whatever its builder refuses.\<close>

definition group_bindings :: "aclGroup \<Rightarrow> ACLBinding set" where
  "group_bindings g = {b. group_key b = gr_key g \<and> acl_ResourceName b \<in> set (gr_names g) \<and>
                          acl_Operation b \<in> set (gr_operations g)}"

lemma builder_writes_its_group:
  "group_builder g = Inr builder \<Longrightarrow> builder_bindings builder = group_bindings g"
proof -
  assume b: "group_builder g = Inr builder"
  have "x \<in> builder_bindings builder \<longleftrightarrow> x \<in> group_bindings g" for x
    using b
    by (cases x; cases "gr_key g")
       (auto simp: group_builder_def builder_bindings_def group_bindings_def group_key_def NewACLs_def Let_def
             split: if_splits ACLResourceType.splits)
  then show ?thesis by blast
qed

text \<open>The names and the operations gathered under a key.\<close>

fun names_of :: "aclGroup list \<Rightarrow> aclGroupKey \<Rightarrow> string set" where
  "names_of [] k = {}"
| "names_of (g # gs) k = (if gr_key g = k then set (gr_names g) else names_of gs k)"

fun operations_of :: "aclGroup list \<Rightarrow> aclGroupKey \<Rightarrow> ACLOperation set" where
  "operations_of [] k = {}"
| "operations_of (g # gs) k = (if gr_key g = k then set (gr_operations g) else operations_of gs k)"

lemma addName_simps [simp]:
  "gr_key (addName n g) = gr_key g" "set (gr_names (addName n g)) = insert n (set (gr_names g))"
  "gr_operations (addName n g) = gr_operations g"
  by (auto simp: addName_def)

lemma addOperation_simps [simp]:
  "gr_key (addOperation x g) = gr_key g" "gr_names (addOperation x g) = gr_names g"
  "set (gr_operations (addOperation x g)) = insert x (set (gr_operations g))"
  by (auto simp: addOperation_def)

lemma names_of_group_binding:
  "names_of (group_binding gs b) k = (if k = group_key b then insert (acl_ResourceName b) (names_of gs k) else names_of gs k)"
proof (induction gs b rule: group_binding.induct)
  case (2 g gs b)
  show ?case by (cases "gr_key g = group_key b"; cases "gr_key g = k") (use 2 in simp_all)
qed simp

lemma operations_of_group_binding:
  "operations_of (group_binding gs b) k =
     (if k = group_key b then insert (acl_Operation b) (operations_of gs k) else operations_of gs k)"
proof (induction gs b rule: group_binding.induct)
  case (2 g gs b)
  show ?case by (cases "gr_key g = group_key b"; cases "gr_key g = k") (use 2 in simp_all)
qed simp

lemma keys_group_binding: "gr_key ` set (group_binding gs b) = insert (group_key b) (gr_key ` set gs)"
  by (induction gs b rule: group_binding.induct) auto

lemma distinct_group_binding: "distinct (map gr_key gs) \<Longrightarrow> distinct (map gr_key (group_binding gs b))"
proof (induction gs b rule: group_binding.induct)
  case (2 g gs b)
  then show ?case using keys_group_binding [of gs b] by auto
qed simp

lemma foldl_group_binding:
  "names_of (foldl group_binding gs bs) k = names_of gs k \<union> acl_ResourceName ` {b \<in> set bs. group_key b = k}"
  "operations_of (foldl group_binding gs bs) k = operations_of gs k \<union> acl_Operation ` {b \<in> set bs. group_key b = k}"
  "distinct (map gr_key gs) \<Longrightarrow> distinct (map gr_key (foldl group_binding gs bs))"
  by (induction bs arbitrary: gs)
     (auto simp: names_of_group_binding operations_of_group_binding distinct_group_binding)

lemma in_groups_iff:
  "distinct (map gr_key gs) \<Longrightarrow>
     (\<exists>g \<in> set gs. b \<in> group_bindings g) \<longleftrightarrow>
     acl_ResourceName b \<in> names_of gs (group_key b) \<and> acl_Operation b \<in> operations_of gs (group_key b)"
proof (induction gs)
  case (Cons g gs)
  have "gr_key g = group_key b \<Longrightarrow> \<not> (\<exists>h \<in> set gs. b \<in> group_bindings h)"
    using Cons.prems by (auto simp: group_bindings_def)
  with Cons show ?case by (auto simp: group_bindings_def)
qed simp

text \<open>Grouping writes every combination, under one key, of a name and an operation that occur in the list.\<close>

lemma grouping_writes:
  "(\<exists>g \<in> set (groupBindings bs). b \<in> group_bindings g) \<longleftrightarrow>
     (\<exists>x \<in> set bs. group_key x = group_key b \<and> acl_ResourceName x = acl_ResourceName b) \<and>
     (\<exists>y \<in> set bs. group_key y = group_key b \<and> acl_Operation y = acl_Operation b)"
  unfolding groupBindings_def in_groups_iff [OF foldl_group_binding(3) [of "[]", simplified]] foldl_group_binding(1,2)
  by (auto simp: image_iff; metis)

lemma binding_eqI:
  "group_key x = group_key (y :: ACLBinding) \<Longrightarrow> acl_ResourceName x = acl_ResourceName y \<Longrightarrow>
   acl_Operation x = acl_Operation y \<Longrightarrow> x = y"
  by (cases x; cases y) (auto simp: group_key_def)

text \<open>So no binding of a list is lost, and a list whose bindings agree on the name where they agree on the key is written
  exactly. A plan is such a list.\<close>

lemma grouping_of_one_name:
  assumes "\<And>x y. x \<in> set bs \<Longrightarrow> y \<in> set bs \<Longrightarrow> group_key x = group_key y \<Longrightarrow> acl_ResourceName x = acl_ResourceName y"
  shows "(\<exists>g \<in> set (groupBindings bs). b \<in> group_bindings g) \<longleftrightarrow> b \<in> set bs"
  unfolding grouping_writes using assms binding_eqI by metis

lemma plan_is_written_exactly:
  assumes "PlanBoundaryACLs b = Inr bs"
  shows "(\<exists>g \<in> set (groupBindings bs). x \<in> group_bindings g) \<longleftrightarrow> x \<in> set bs"
  by (rule grouping_of_one_name) (use assms in \<open>auto simp: PlanBoundaryACLs_Inr prefixedAllow_def\<close>)

text \<open>Two bindings of the same key and different names are written as four: the name is left out of the key although the
  operation sets of the two differ, so a principal that was to read one name and write another may do both to both.\<close>

definition topic_binding :: "string \<Rightarrow> ACLOperation \<Rightarrow> ACLBinding" where
  "topic_binding n op = \<lparr>acl_Principal = ''User:pay'', acl_Host = anyHost, acl_ResourceType = ResTopic,
     acl_ResourceName = n, acl_Pattern = PatLiteral, acl_Operation = op, acl_Permission = PermAllow\<rparr>"

lemma grouping_can_widen:
  "topic_binding ''a'' OpWrite \<notin> set [topic_binding ''a'' OpRead, topic_binding ''b'' OpWrite] \<and>
   (\<exists>g \<in> set (groupBindings [topic_binding ''a'' OpRead, topic_binding ''b'' OpWrite]).
      topic_binding ''a'' OpWrite \<in> group_bindings g)"
  unfolding grouping_writes by (simp add: topic_binding_def group_key_def)

section \<open>What onboarding asks of a cluster\<close>

text \<open>A client whose every request to change the cluster is written down before it is passed on. What the client then does
  and answers is open.\<close>

datatype client_request = AskQuota "KadmAlterQuotaEntry list" | AskACLs ACLBuilder | AskTopic string

definition recording :: "('w, 'r) KadmClient \<Rightarrow> ('w \<times> client_request list, 'r) KadmClient" where
  "recording c =
     \<lparr>cl_CreateACLs = (\<lambda>(w, sent) builder. let (x, w') = cl_CreateACLs c w builder in (x, w', sent @ [AskACLs builder])),
      cl_DescribeACLs = (\<lambda>(w, sent). cl_DescribeACLs c w),
      cl_AlterClientQuotas = (\<lambda>(w, sent) entries. let (x, w') = cl_AlterClientQuotas c w entries in (x, w', sent @ [AskQuota entries])),
      cl_DescribeClientQuotas = (\<lambda>(w, sent). cl_DescribeClientQuotas c w),
      cl_CreateTopic = (\<lambda>(w, sent) partitions replication configs name.
         let (x, w') = cl_CreateTopic c w partitions replication configs name in (x, w', sent @ [AskTopic name])),
      cl_DescribeTopicConfigs = (\<lambda>(w, sent). cl_DescribeTopicConfigs c w),
      cl_On = cl_On c\<rparr>"

text \<open>Everything onboarding a team asks for, in order: its quota; reading, writing and describing the topics under its prefix;
  reading the groups under it. Each builder names one principal and one host and denies nothing, so no default of
  the library fills a list in.\<close>

definition namespace_builder :: "Boundary \<Rightarrow> ACLOperation list \<Rightarrow> string list \<Rightarrow> string list \<Rightarrow> ACLBuilder" where
  "namespace_builder b ops topics groups =
     \<lparr>kb_Pattern = PatPrefixed, kb_Operations = ops, kb_Allow = [bou_Principal b], kb_AllowHosts = [anyHost], kb_Deny = [],
      kb_DenyHosts = [], kb_Topics = topics, kb_Groups = groups\<rparr>"

definition onboarding_requests :: "Boundary \<Rightarrow> client_request list" where
  "onboarding_requests b =
     [AskQuota [\<lparr>kq_Entity = [(''user'', principal_Name (bou_Principal b))],
        kq_Ops = [(ProducerByteRateKey, float64_of_int (quo_ProducerByteRate (bou_Quota b))),
                  (ConsumerByteRateKey, float64_of_int (quo_ConsumerByteRate (bou_Quota b)))]\<rparr>],
      AskACLs (namespace_builder b [OpRead, OpWrite, OpDescribe] [bou_Prefix b] []),
      AskACLs (namespace_builder b [OpRead] [] [bou_Prefix b])]"

lemma plan_groups:
  "PlanBoundaryACLs b = Inr bs \<Longrightarrow> map group_builder (groupBindings bs) =
     [Inr (namespace_builder b [OpRead, OpWrite, OpDescribe] [bou_Prefix b] []), Inr (namespace_builder b [OpRead] [] [bou_Prefix b])]"
  by (simp add: PlanBoundaryACLs_Inr groupBindings_def prefixedAllow_def group_key_def addName_def addOperation_def
      group_builder_def Let_def namespace_builder_def NewACLs_def)

text \<open>The requests of a list of groups are sent in order, and all of them unless one is refused.\<close>

lemma write_groups_sends:
  "write_groups (recording c) (w, sent) gs = (err, w', sent') \<Longrightarrow> map group_builder gs = map Inr builders \<Longrightarrow>
     \<exists>asked rest. builders = asked @ rest \<and> sent' = sent @ map AskACLs asked \<and> (rest \<noteq> [] \<longrightarrow> err \<noteq> None)"
proof (induction gs arbitrary: w sent builders)
  case Nil
  then show ?case by simp
next
  case (Cons g gs)
  then obtain b bs where b: "builders = b # bs" "group_builder g = Inr b" "map group_builder gs = map Inr bs"
    by (cases builders) auto
  obtain x w1 where x: "cl_CreateACLs c w b = (x, w1)" by (rule prod.exhaust)
  show ?case
  proof (cases "(\<exists>e. x = Inl e) \<or> (\<exists>results e. x = Inr results \<and> first_failed results = Some e)")
    case True
    then have "sent' = sent @ map AskACLs [b]" "err \<noteq> None"
      using Cons.prems(1) b(2) x by (elim disjE exE; auto simp: recording_def Let_def)+
    then show ?thesis using b(1) by (intro exI [of _ "[b]"] exI [of _ bs]) simp
  next
    case False
    then have "write_groups (recording c) (w1, sent @ [AskACLs b]) gs = (err, w', sent')"
      using Cons.prems(1) b(2) x by (cases x) (auto simp: recording_def Let_def split: option.splits)
    from Cons.IH [OF this b(3)] obtain asked rest where
      "bs = asked @ rest" "sent' = (sent @ [AskACLs b]) @ map AskACLs asked" "rest \<noteq> [] \<longrightarrow> err \<noteq> None" by blast
    then show ?thesis using b(1) by (intro exI [of _ "b # asked"] exI [of _ rest]) simp
  qed
qed

lemma quota_request:
  assumes "PlanQuota b = Inr q" and "franz_AlterClientQuota (recording c) (w, sent) q = (err, w', sent')"
  shows "sent' = sent @ [hd (onboarding_requests b)]"
  using assms
  by (auto simp: PlanQuota_def franz_AlterClientQuota_def recording_def Let_def onboarding_requests_def
      split: option.splits sum.splits prod.splits)

lemma namespace_bindings:
  "x \<in> builder_bindings (namespace_builder b ops topics groups) \<longleftrightarrow>
     acl_Principal x = bou_Principal b \<and> acl_Host x = anyHost \<and> acl_Pattern x = PatPrefixed \<and> acl_Permission x = PermAllow \<and>
     acl_Operation x \<in> set ops \<and> (acl_ResourceType x = ResTopic \<and> acl_ResourceName x \<in> set topics \<or>
       acl_ResourceType x = ResGroup \<and> acl_ResourceName x \<in> set groups)"
  by (cases x) (auto simp: builder_bindings_def namespace_builder_def)

lemma plan_bindings:
  "PlanBoundaryACLs b = Inr bs \<Longrightarrow> x \<in> set bs \<longleftrightarrow>
     acl_Principal x = bou_Principal b \<and> acl_Host x = anyHost \<and> acl_Pattern x = PatPrefixed \<and> acl_Permission x = PermAllow \<and>
     acl_ResourceName x = bou_Prefix b \<and> (acl_ResourceType x, acl_Operation x) \<in> team_operations"
  unfolding PlanBoundaryACLs_Inr team_operations_def prefixedAllow_def
  by (cases x; elim conjE; simp; argo)

lemma asked_bindings:
  assumes "PlanBoundaryACLs b = Inr bs"
  shows "{x. \<exists>builder. AskACLs builder \<in> set (onboarding_requests b) \<and> x \<in> builder_bindings builder} = set bs"
proof (rule set_eqI)
  fix x
  have "(\<exists>builder. AskACLs builder \<in> set (onboarding_requests b) \<and> x \<in> builder_bindings builder) \<longleftrightarrow>
      x \<in> builder_bindings (namespace_builder b [OpRead, OpWrite, OpDescribe] [bou_Prefix b] []) \<or>
      x \<in> builder_bindings (namespace_builder b [OpRead] [] [bou_Prefix b])"
    unfolding onboarding_requests_def by auto
  then show "x \<in> {x. \<exists>builder. AskACLs builder \<in> set (onboarding_requests b) \<and> x \<in> builder_bindings builder} \<longleftrightarrow> x \<in> set bs"
    unfolding mem_Collect_eq namespace_bindings plan_bindings [OF assms] team_operations_def by auto
qed

text \<open>C38: what onboarding a team asks a cluster for, through the client library and whatever that answers. The requests sent are an initial part
  of exactly three, in this order: the team's quota, keyed on the name in its principal; one that allows its principal, from any host, to
  read, write and describe the topics under its prefix; one that allows it to read the groups under it. No topic is created and nothing is
  denied. A success means that all three were sent, and one is sent only under a live token and for a valid boundary. Grouping loses no binding of
  the plan and adds none: the bindings the two requests stand for, one per principal, host, name and operation they list,
  are those of \<open>PlanBoundaryACLs\<close>. What a cluster permits afterwards depends on the rules it already has, and nothing is said of it.\<close>

theorem onboarding_asks_for_exactly_the_namespace:
  assumes "OnboardTeam (franz_Admin (recording c)) now obs (w, []) tk b = (r, w', sent)"
  shows "(\<exists>rest. onboarding_requests b = sent @ rest \<and> (rest \<noteq> [] \<longrightarrow> isl r)) \<and>
    (sent \<noteq> [] \<longrightarrow> tok_IntentID tk \<noteq> [] \<and> Valid tk now \<and> boundary_Validate b = None) \<and>
    (\<forall>bs. PlanBoundaryACLs b = Inr bs \<longrightarrow>
      {x. \<exists>builder. AskACLs builder \<in> set (onboarding_requests b) \<and> x \<in> builder_bindings builder} = set bs)"
proof -
  note plan = asked_bindings [of b]
  from OnboardTeam_unfold [OF assms] show ?thesis
  proof (elim disjE exE conjE)
    assume "(w', sent) = (w, [])" "isl r"
    then show ?thesis using plan by auto
  next
    fix bs q err w1s
    assume ok: "checkToken now tk = None" "PlanBoundaryACLs b = Inr bs" "PlanQuota b = Inr q"
      and quota: "ka_AlterClientQuota (franz_Admin (recording c)) (w, []) q = (err, w1s)"
      and rest: "case err of
           Some e \<Rightarrow> isl r \<and> (w', sent) = w1s
         | None \<Rightarrow> (\<exists>err2. ka_CreateACLs (franz_Admin (recording c)) w1s bs = (err2, w', sent) \<and>
                      (\<forall>a. r = Inr a \<longrightarrow> err2 = None \<and> readBoundary (franz_Admin (recording c)) obs (w', sent) tk b = Inr a))"
    have valid: "tok_IntentID tk \<noteq> [] \<and> Valid tk now \<and> boundary_Validate b = None"
      using ok(1,2) by (simp add: checkToken_None PlanBoundaryACLs_Inr)
    obtain w1 sent1 where w1s: "w1s = (w1, sent1)" by fastforce
    have s1: "sent1 = [hd (onboarding_requests b)]"
      using quota_request [OF ok(3), of c w "[]"] quota by (simp add: franz_Admin_def w1s)
    show ?thesis
    proof (cases err)
      case (Some e)
      then have "sent = [hd (onboarding_requests b)]" "isl r" using rest w1s s1 by simp_all
      then show ?thesis using plan valid by (auto simp: onboarding_requests_def)
    next
      case None
      then obtain err2 where e2: "write_groups (recording c) (w1, sent1) (groupBindings bs) = (err2, w', sent)"
          "\<forall>a. r = Inr a \<longrightarrow> err2 = None"
        using rest by (auto simp: franz_Admin_def franz_CreateACLs_def w1s)
      let ?builders = "[namespace_builder b [OpRead, OpWrite, OpDescribe] [bou_Prefix b] [], namespace_builder b [OpRead] [] [bou_Prefix b]]"
      have "map group_builder (groupBindings bs) = map Inr ?builders" using plan_groups [OF ok(2)] by simp
      from write_groups_sends [OF e2(1) this] obtain asked more where a: "?builders = asked @ more"
          "sent = sent1 @ map AskACLs asked" "more \<noteq> [] \<longrightarrow> err2 \<noteq> None" by blast
      have "onboarding_requests b = [hd (onboarding_requests b)] @ map AskACLs ?builders" by (simp add: onboarding_requests_def)
      also have "\<dots> = sent @ map AskACLs more" unfolding a(1) by (simp add: a(2) s1)
      finally have "onboarding_requests b = sent @ map AskACLs more" .
      moreover have "more \<noteq> [] \<longrightarrow> isl r" using a(3) e2(2) by (cases r) auto
      ultimately show ?thesis using plan valid by auto
    qed
  qed (use plan in auto)
qed

section \<open>A topic that exists\<close>

text \<open>What the adapter asks of whoever creates its topics: a broker that answers that the topic is there is reported as
  the sentinel the adapter takes for success.\<close>

locale topic_port =
  fixes create :: "'w \<Rightarrow> TopicSpec \<Rightarrow> GrantError option \<times> 'w"
    and answers_exists :: "'w \<Rightarrow> TopicSpec \<Rightarrow> bool"
  assumes exists_is_reported: "answers_exists w t \<Longrightarrow> \<exists>e. fst (create w t) = Some e \<and> is_ErrTopicExists e"
begin

lemma existing_topic_is_success:
  assumes "ka_CreateTopic admin = create" "checkToken now tk = None" "PlanTopic g = Inr spec" "answers_exists w spec"
    and "ka_DescribeTopicConfig admin (snd (create w spec)) (gra_Topic g) = Inr config"
  shows "\<exists>a. Provision admin now obs w tk g = (Inr a, snd (create w spec)) \<and> ta_AlreadyExisted a \<and> ta_Config a = config"
proof -
  obtain e where "fst (create w spec) = Some e" "is_ErrTopicExists e" using exists_is_reported [OF assms(4)] by blast
  then show ?thesis using assms by (simp add: Provision_def Let_def split_beta)
qed

end

definition broker_answers_exists :: "('w, 'r) KadmClient \<Rightarrow> 'w \<Rightarrow> TopicSpec \<Rightarrow> bool" where
  "broker_answers_exists c w t =
     (case fst (cl_CreateTopic c w (top_Partitions t) (top_ReplicationFactor t)
                  (foldl (\<lambda>m (k, v). gset m k v) [] (top_Configs t)) (top_Name t)) of
        None \<Rightarrow> False
      | Some e \<Rightarrow> wraps (\<lambda>x. x = KerrTopicAlreadyExists) e)"

interpretation franz: topic_port "franz_CreateTopic c" "broker_answers_exists c" for c :: "('w, 'r) KadmClient"
  by unfold_locales
     (auto simp: franz_CreateTopic_def broker_answers_exists_def mapCreateTopicError_def is_ErrTopicExists_def Let_def
           split: option.splits prod.splits)

lemma mapCreateTopicError_exact:
  "(\<exists>e'. mapCreateTopicError (Some e) = Some e' \<and> is_ErrTopicExists e') \<longleftrightarrow>
     wraps (\<lambda>x. x = KerrTopicAlreadyExists) e \<or> is_ErrTopicExists e"
  by (auto simp: mapCreateTopicError_def is_ErrTopicExists_def)

text \<open>A grant converges. Over the client library, provisioning a topic of which the broker answers that it exists is a
  success that says so and reports the configuration the cluster holds, so repeating a grant never fails for the topic
  being there.\<close>

theorem repeated_grant_converges:
  assumes "checkToken now tk = None" "PlanTopic g = Inr spec" "broker_answers_exists c w spec"
    and "franz_DescribeTopicConfig c (snd (franz_CreateTopic c w spec)) (gra_Topic g) = Inr config"
  shows "\<exists>a. Provision (franz_Admin c) now obs w tk g = (Inr a, snd (franz_CreateTopic c w spec)) \<and>
             ta_AlreadyExisted a \<and> ta_Config a = config"
  by (rule franz.existing_topic_is_success) (use assms in \<open>simp_all add: franz_Admin_def\<close>)

text \<open>A client over the sample cluster, which does what the library documents.\<close>

definition builder_list :: "ACLBuilder \<Rightarrow> ACLBinding list" where
  "builder_list b =
     concat (map (\<lambda>p. concat (map (\<lambda>h. concat (map (\<lambda>(rt, n). map (\<lambda>op.
        \<lparr>acl_Principal = p, acl_Host = h, acl_ResourceType = rt, acl_ResourceName = n, acl_Pattern = kb_Pattern b,
         acl_Operation = op, acl_Permission = PermAllow\<rparr>) (kb_Operations b))
        (map (Pair ResTopic) (kb_Topics b) @ map (Pair ResGroup) (kb_Groups b)))) (kb_AllowHosts b))) (kb_Allow b))"

lemma set_builder_list: "set (builder_list b) = builder_bindings b"
  by (auto simp: builder_list_def builder_bindings_def image_iff)

definition sample_client :: "(Cluster, unit) KadmClient" where
  "sample_client =
     \<lparr>cl_CreateACLs = (\<lambda>w b. (Inr [], w\<lparr>clu_ACLs := clu_ACLs w @ builder_list b\<rparr>)),
      cl_DescribeACLs = (\<lambda>w b. Inr []),
      cl_AlterClientQuotas = (\<lambda>w es. (Inr [], w)),
      cl_DescribeClientQuotas = (\<lambda>w s cs. Inr []),
      cl_CreateTopic = (\<lambda>w parts repl configs n. (Some KerrTopicAlreadyExists, w)),
      cl_DescribeTopicConfigs = (\<lambda>w n. Inr ()),
      cl_On = (\<lambda>r n. Inr \<lparr>kc_Err = None, kc_Configs = [(''retention.ms'', Some ''5'')]\<rparr>)\<rparr>"

lemma sample_recorded_answers:
  "fst (franz_AlterClientQuota (recording sample_client) ws q) = None" "franz_DescribeACLs (recording sample_client) ws p n pat = Inr []"
  "franz_DescribeClientQuota (recording sample_client) ws t n = Inr []"
  by (cases ws; simp add: franz_AlterClientQuota_def franz_DescribeACLs_def franz_DescribeClientQuota_def sample_client_def
      recording_def Let_def)+

lemma sample_groups_written: "fst (franz_CreateACLs (recording sample_client) ws sample_plan) = None"
  by (cases ws) (simp add: franz_CreateACLs_def sample_plan_def TopicOperations_def GroupOperations_def groupBindings_def prefixedAllow_def
      group_key_def addName_def addOperation_def group_builder_def Let_def sample_client_def recording_def)

lemma sample_onboarding_asks:
  "\<not> isl (fst (OnboardTeam (franz_Admin (recording sample_client)) 10 11 (sample_empty_cluster, []) sample_token sample_boundary))"
proof -
  obtain w1 where q: "franz_AlterClientQuota (recording sample_client) (sample_empty_cluster, [])
      (projr (PlanQuota sample_boundary)) = (None, w1)" using sample_recorded_answers(1) by (metis prod.collapse)
  obtain w2 where g: "franz_CreateACLs (recording sample_client) w1 sample_plan = (None, w2)"
    using sample_groups_written by (metis prod.collapse)
  show ?thesis
    using q g by (simp add: OnboardTeam_def sample_token_ok sample_plan PlanQuota_def sample_boundary_ok readBoundary_def franz_Admin_def
        sample_recorded_answers)
qed

theorem onboarding_asks_for_exactly_the_namespace_witness:
  "\<exists>a w'. OnboardTeam (franz_Admin (recording sample_client)) 10 11 (sample_empty_cluster, []) sample_token sample_boundary
     = (Inr a, w', onboarding_requests sample_boundary)"
proof -
  obtain r w' sent where o: "OnboardTeam (franz_Admin (recording sample_client)) 10 11 (sample_empty_cluster, []) sample_token sample_boundary
      = (r, w', sent)" by (rule prod_cases3)
  then have r: "\<not> isl r" using sample_onboarding_asks by simp
  then have "sent = onboarding_requests sample_boundary" using onboarding_asks_for_exactly_the_namespace [OF o] by auto
  with o r show ?thesis by (cases r) auto
qed

theorem repeated_grant_converges_witness:
  "\<exists>a. Provision (franz_Admin sample_client) 10 11 sample_empty_cluster sample_token sample_grant =
         (Inr a, snd (franz_CreateTopic sample_client sample_empty_cluster
            \<lparr>top_Name = ''pay.v1'', top_Partitions = 3, top_ReplicationFactor = -1, top_Configs = []\<rparr>)) \<and>
       ta_AlreadyExisted a \<and> ta_Config a = [(''retention.ms'', ''5'')]"
proof (rule repeated_grant_converges)
  show "checkToken 10 sample_token = None" by (rule sample_token_ok)
  show "PlanTopic sample_grant = Inr \<lparr>top_Name = ''pay.v1'', top_Partitions = 3, top_ReplicationFactor = -1, top_Configs = []\<rparr>"
    by code_simp
qed (simp_all add: broker_answers_exists_def sample_client_def franz_DescribeTopicConfig_def)

end
