(* ===== verification/Door_Server.thy ===== *)
theory Door_Server
  imports Door Live_Policy
begin

text \<open>
  The door over HTTP, package \<open>doorserver\<close> of \<open>mantlekeep-control\<close>: \<open>doorserver.go\<close>, \<open>identity.go\<close>, \<open>authenticate.go\<close>,
  \<open>govern_response.go\<close>, \<open>decision_log.go\<close> and \<open>audit.go\<close>. The server identifies the caller, decides for whom it may act, and
  hands the request to the door it fronts; the door's parts (\<open>doorkit.Door\<close>) are the record \<open>DoorPorts\<close> over the door's
  state.

  A request is its headers, the session cookie if it has one, and its body as the JSON decoder returns it; header names
  are compared without regard to case. A reply is the status and the fields of the JSON object, a field that is not
  written being its zero value, which is what a client decodes. \<open>strings.ToLower\<close> is modelled on ASCII. The handlers that
  answer requests return the lines they log, and the random and clock values they draw are arguments.
\<close>

section \<open>Requests and replies\<close>

record governRequest =
  gq_Action :: string
  gq_Resource :: string
  gq_Goal :: string
  gq_Env :: string
  gq_Params :: params

record HttpRequest =
  rq_Header :: "string gomap"
  rq_SessionCookie :: "string option"
  rq_Govern :: "string + governRequest" \<comment> \<open>the body of a governed request, or the decoder's error\<close>
  rq_User :: "string option" \<comment> \<open>the user of a login body, if it decodes\<close>

definition same_header :: "string \<Rightarrow> string \<Rightarrow> bool" where
  "same_header a b \<longleftrightarrow> map to_lower a = map to_lower b"

fun header_Get :: "string gomap \<Rightarrow> string \<Rightarrow> string" where
  "header_Get [] n = []"
| "header_Get ((k, v) # h) n = (if same_header k n then v else header_Get h n)"

fun header_Set :: "string gomap \<Rightarrow> string \<Rightarrow> string \<Rightarrow> string gomap" where
  "header_Set [] n v = [(n, v)]"
| "header_Set ((k, w) # h) n v = (if same_header k n then (n, v) # h else (k, w) # header_Set h n v)"

record wireReason =
  wrn_Code :: string
  wrn_Message :: string

record WireReply =
  wr_Status :: nat
  wr_Outcome :: string
  wr_IntentID :: string
  wr_Token :: string
  wr_PolicyID :: string
  wr_ExpiresAt :: string
  wr_Reasons :: "wireReason list"
  wr_RequiredApprovers :: "string list"

definition mk_reply :: "nat \<Rightarrow> string \<Rightarrow> wireReason list \<Rightarrow> WireReply" where
  "mk_reply status outcome reasons =
     \<lparr>wr_Status = status, wr_Outcome = outcome, wr_IntentID = [], wr_Token = [], wr_PolicyID = [], wr_ExpiresAt = [],
      wr_Reasons = reasons, wr_RequiredApprovers = []\<rparr>"

definition mk_reason :: "string \<Rightarrow> string \<Rightarrow> wireReason" where
  "mk_reason code m = \<lparr>wrn_Code = code, wrn_Message = m\<rparr>"

section \<open>The denial taxonomy\<close>

abbreviation codeFloor :: string where "codeFloor \<equiv> ''DENY_FLOOR''"
abbreviation codeSeparationDuties :: string where "codeSeparationDuties \<equiv> ''DENY_SEPARATION_OF_DUTIES''"
abbreviation codeIdentity :: string where "codeIdentity \<equiv> ''DENY_IDENTITY''"
abbreviation codeActionNotAllowed :: string where "codeActionNotAllowed \<equiv> ''DENY_ACTION_NOT_ALLOWED''"
abbreviation codeValidation :: string where "codeValidation \<equiv> ''DENY_VALIDATION''"
abbreviation codePolicyError :: string where "codePolicyError \<equiv> ''DENY_POLICY_ERROR''"

definition categoryToWireCode :: "DenialCategory \<Rightarrow> string option" where
  "categoryToWireCode c =
     (case c of
        DenialNone \<Rightarrow> None
      | DenialFloor \<Rightarrow> Some codeFloor
      | DenialSeparationOfDuties \<Rightarrow> Some codeSeparationDuties
      | DenialIdentity \<Rightarrow> Some codeIdentity
      | DenialActionNotAllowed \<Rightarrow> Some codeActionNotAllowed
      | DenialValidation \<Rightarrow> Some codeValidation
      | DenialPolicyError \<Rightarrow> Some codePolicyError)"

definition denialCode :: "string \<Rightarrow> string" where
  "denialCode reason =
     (let r = map to_lower reason
      in if Contains r ''separation of duties'' \<or> Contains r ''may not be the requester'' \<or> Contains r ''approve their own''
         then codeSeparationDuties
         else if Contains r ''unknown subject'' \<or> Contains r ''unauthenticated'' \<or> Contains r ''no caller identity'' \<or>
                 Contains r ''not permitted to act''
         then codeIdentity
         else if Contains r ''goal is required'' \<or> Contains r ''malformed'' \<or> Contains r ''is required''
         then codeValidation
         else if Contains r ''no role permits'' \<or> Contains r ''not allowed'' \<or> Contains r ''not permitted''
         then codeActionNotAllowed
         else if Contains r ''exceeds'' \<or> Contains r ''cap'' \<or> Contains r ''unapproved'' \<or> Contains r ''not an approved'' \<or>
                 Contains r ''requires an elevated'' \<or> Contains r ''floor'' \<or> Contains r ''pinned'' \<or> Contains r ''sha256''
         then codeFloor
         else codePolicyError)"

definition wireCodeFor :: "Decision \<Rightarrow> string" where
  "wireCodeFor d = (case categoryToWireCode (dec_Category d) of Some code \<Rightarrow> code | None \<Rightarrow> denialCode (dec_Reason d))"

definition statusForDeny :: "string \<Rightarrow> nat" where
  "statusForDeny code = (if code = codeIdentity then 401 else if code = codeValidation then 400 else 403)"

text \<open>\<open>rfc3339\<close> is \<open>time.Time.Format\<close> with that layout.\<close>

definition writeAllow :: "(int \<Rightarrow> string) \<Rightarrow> ExecutionToken \<Rightarrow> WireReply" where
  "writeAllow rfc3339 tk =
     \<lparr>wr_Status = 200, wr_Outcome = ''allow'', wr_IntentID = tok_IntentID tk, wr_Token = tok_Value tk,
      wr_PolicyID = tok_PolicyID tk, wr_ExpiresAt = rfc3339 (tok_ExpiresAt tk), wr_Reasons = [], wr_RequiredApprovers = []\<rparr>"

definition writeDecision :: "Decision \<Rightarrow> string \<Rightarrow> WireReply" where
  "writeDecision d intentID =
     (let code = wireCodeFor d;
          body = (mk_reply (statusForDeny code) (dec_Action d) [mk_reason code (dec_Reason d)])
                   \<lparr>wr_IntentID := intentID, wr_PolicyID := dec_PolicyID d\<rparr>
      in if dec_Action d = ActionRequireApproval
         then body\<lparr>wr_Status := 200, wr_RequiredApprovers := dec_RequiredApprovers d\<rparr>
         else body)"

section \<open>Who is calling\<close>

record 'd DoorPorts =
  dp_Submit :: "'d \<Rightarrow> Intent \<Rightarrow> (door_error + ExecutionToken) \<times> 'd"
  dp_Resolve :: "ExternalIdentity \<Rightarrow> string + Subject"
  dp_Verify :: "'d \<Rightarrow> string + bool"
  dp_Records :: "('d \<Rightarrow> int \<Rightarrow> string + AuditRecord list) option" \<comment> \<open>a logger that can list\<close>

record 'd ServerOptions =
  so_Door :: "'d DoorPorts option"
  so_TrustedUserHeader :: string
  so_TrustedGroupsHeader :: string
  so_DelegatedSubjectHeader :: string
  so_Delegators :: "string list"
  so_DevLogin :: bool
  so_Authenticator :: "(HttpRequest \<Rightarrow> string + string) option"

record 'd Server =
  sv_door :: "'d DoorPorts"
  sv_sessions :: "string gomap"
  sv_options :: "'d ServerOptions"

definition credentialHeaderNames :: "string list" where
  "credentialHeaderNames = [''authorization'', ''proxy-authorization'', ''cookie'', ''set-cookie'', ''x-api-key'', ''api-key'',
     ''x-auth-token'']"

datatype server_error =
    ErrMissingDoor
  | ErrNoIdentitySource
  | CredentialHeader string string \<comment> \<open>the option and the name\<close>
  | TrustRefused string \<comment> \<open>the address\<close>

definition checkIdentityHeader :: "string \<Rightarrow> string \<Rightarrow> server_error option" where
  "checkIdentityHeader opt name =
     (if map to_lower (TrimSpace name) \<in> set credentialHeaderNames then Some (CredentialHeader opt name) else None)"

definition NewServer :: "'d ServerOptions \<Rightarrow> server_error + 'd Server" where
  "NewServer o1 =
     (case so_Door o1 of
        None \<Rightarrow> Inl ErrMissingDoor
      | Some d \<Rightarrow>
          if so_TrustedUserHeader o1 = [] \<and> \<not> so_DevLogin o1 then Inl ErrNoIdentitySource
          else (case checkIdentityHeader ''TrustedUserHeader'' (so_TrustedUserHeader o1) of
                  Some e \<Rightarrow> Inl e
                | None \<Rightarrow>
                    (case checkIdentityHeader ''TrustedGroupsHeader'' (so_TrustedGroupsHeader o1) of
                       Some e \<Rightarrow> Inl e
                     | None \<Rightarrow>
                         (case checkIdentityHeader ''DelegatedSubjectHeader'' (so_DelegatedSubjectHeader o1) of
                            Some e \<Rightarrow> Inl e
                          | None \<Rightarrow> Inr \<lparr>sv_door = d, sv_sessions = [], sv_options = o1\<rparr>))))"

definition authenticatedCaller :: "'d Server \<Rightarrow> HttpRequest \<Rightarrow> string option" where
  "authenticatedCaller s rq =
     (case so_Authenticator (sv_options s) of
        Some authenticate \<Rightarrow>
          (case authenticate rq of
             Inl e \<Rightarrow> None
           | Inr who \<Rightarrow> if TrimSpace who = [] then None else Some who)
      | None \<Rightarrow>
          (let who = TrimSpace (header_Get (rq_Header rq) (so_TrustedUserHeader (sv_options s)))
           in if so_TrustedUserHeader (sv_options s) \<noteq> [] \<and> who \<noteq> [] then Some who
              else if so_DevLogin (sv_options s)
              then (case rq_SessionCookie rq of None \<Rightarrow> None | Some c \<Rightarrow> map_of (sv_sessions s) c)
              else None))"

definition isDelegator :: "'d Server \<Rightarrow> string \<Rightarrow> bool" where
  "isDelegator s callerID = list_ex (\<lambda>permitted. permitted = callerID) (so_Delegators (sv_options s))"

definition assertedGroups :: "'d Server \<Rightarrow> HttpRequest \<Rightarrow> string list" where
  "assertedGroups s rq =
     (if so_TrustedGroupsHeader (sv_options s) = [] then []
      else (let raw = header_Get (rq_Header rq) (so_TrustedGroupsHeader (sv_options s))
            in if TrimSpace raw = [] then []
               else filter (\<lambda>name. name \<noteq> []) (map TrimSpace (split_on CHR '','' raw))))"

definition resolveUser :: "'d Server \<Rightarrow> HttpRequest \<Rightarrow> string \<Rightarrow> Subject option" where
  "resolveUser s rq userID =
     (case dp_Resolve (sv_door s) \<lparr>ext_ID = userID, ext_Groups = assertedGroups s rq, ext_Attrs = []\<rparr> of
        Inl e \<Rightarrow> None
      | Inr subject \<Rightarrow> Some subject)"

record caller =
  ca_subject :: Subject
  ca_via :: string

datatype caller_error = ErrUnauthenticated | ErrDelegationRefused

definition caller_error_text :: "caller_error \<Rightarrow> string" where
  "caller_error_text e = (case e of ErrUnauthenticated \<Rightarrow> ''unauthenticated: no caller identity''
                          | ErrDelegationRefused \<Rightarrow> ''caller is not permitted to act for another subject'')"

definition resolveCaller :: "'d Server \<Rightarrow> HttpRequest \<Rightarrow> caller_error + caller" where
  "resolveCaller s rq =
     (case authenticatedCaller s rq of
        None \<Rightarrow> Inl ErrUnauthenticated
      | Some authenticated \<Rightarrow>
          (let delegatedID = (if so_DelegatedSubjectHeader (sv_options s) \<noteq> []
                              then TrimSpace (header_Get (rq_Header rq) (so_DelegatedSubjectHeader (sv_options s))) else [])
           in if delegatedID = [] \<or> delegatedID = authenticated
              then (case resolveUser s rq authenticated of
                      None \<Rightarrow> Inl ErrUnauthenticated
                    | Some subject \<Rightarrow> Inr \<lparr>ca_subject = subject, ca_via = []\<rparr>)
              else if \<not> isDelegator s authenticated then Inl ErrDelegationRefused
              else (case resolveUser s rq delegatedID of
                      None \<Rightarrow> Inl ErrUnauthenticated
                    | Some subject \<Rightarrow> Inr \<lparr>ca_subject = subject, ca_via = authenticated\<rparr>)))"

section \<open>What is logged\<close>

record decisionLog =
  dl_outcome :: DecisionAction
  dl_action :: string
  dl_subject :: string
  dl_via :: string
  dl_policyID :: string
  dl_category :: DenialCategory
  dl_reason :: string

datatype log_level = LevelInfo | LevelWarn

definition category_text :: "DenialCategory \<Rightarrow> string" where
  "category_text c =
     (case c of DenialNone \<Rightarrow> [] | DenialFloor \<Rightarrow> ''floor'' | DenialSeparationOfDuties \<Rightarrow> ''separation_of_duties''
      | DenialIdentity \<Rightarrow> ''identity'' | DenialActionNotAllowed \<Rightarrow> ''action_not_allowed''
      | DenialValidation \<Rightarrow> ''validation'' | DenialPolicyError \<Rightarrow> ''policy_error'')"

definition emit :: "decisionLog \<Rightarrow> log_level \<times> (string \<times> string) list" where
  "emit d =
     (let attrs = [(''outcome'', dl_outcome d), (''action'', dl_action d), (''subject'', dl_subject d),
                   (''policyId'', dl_policyID d)] @ (if dl_via d \<noteq> [] then [(''via'', dl_via d)] else [])
      in if dl_outcome d = ActionAllow then (LevelInfo, attrs)
         else (LevelWarn, attrs @ [(''category'', category_text (dl_category d)), (''reason'', dl_reason d)]))"

section \<open>The handlers\<close>

definition governed_intent :: "string \<Rightarrow> caller \<Rightarrow> governRequest \<Rightarrow> Intent" where
  "governed_intent intentID actor body =
     \<lparr>int_ID = intentID, int_Subject = ca_subject actor, int_Action = gq_Action body, int_Resource = gq_Resource body,
      int_Spec = \<lparr>spec_Goal = gq_Goal body, spec_AffectedSystems = [], spec_RiskLevel = RiskUnset,
                  spec_Preconditions = [], spec_Postconditions = [], spec_RollbackPlan = []\<rparr>,
      int_Params = (if gq_Env body \<noteq> [] then gset (gq_Params body) ''env'' (AStr (gq_Env body)) else gq_Params body),
      int_SubmittedAt = zero_time, int_TTL = 0, int_Via = ca_via actor\<rparr>"

definition handleGovern ::
  "'d Server \<Rightarrow> (int \<Rightarrow> string) \<Rightarrow> string \<Rightarrow> 'd \<Rightarrow> HttpRequest \<Rightarrow> WireReply \<times> (log_level \<times> (string \<times> string) list) list \<times> 'd" where
  "handleGovern s rfc3339 intentID d rq =
     (case resolveCaller s rq of
        Inl e \<Rightarrow> (mk_reply (if e = ErrDelegationRefused then 403 else 401) ''deny''
                    [mk_reason codeIdentity (caller_error_text e)], [], d)
      | Inr actor \<Rightarrow>
          (case rq_Govern rq of
             Inl err \<Rightarrow> (mk_reply 400 ''deny'' [mk_reason codeValidation (''malformed request: '' @ err)], [], d)
           | Inr body \<Rightarrow>
               (case dp_Submit (sv_door s) d (governed_intent intentID actor body) of
                  (Inl err, d') \<Rightarrow>
                    (case find_DecisionError err of
                       Some decision \<Rightarrow>
                         (writeDecision decision intentID,
                          [emit \<lparr>dl_outcome = dec_Action decision, dl_action = gq_Action body,
                                 dl_subject = sub_ID (ca_subject actor), dl_via = ca_via actor,
                                 dl_policyID = dec_PolicyID decision, dl_category = dec_Category decision,
                                 dl_reason = dec_Reason decision\<rparr>], d')
                     | None \<Rightarrow> (mk_reply 500 ''error'' [mk_reason codePolicyError (error_text err)], [], d'))
                | (Inr token, d') \<Rightarrow>
                    (writeAllow rfc3339 token,
                     [emit \<lparr>dl_outcome = ActionAllow, dl_action = gq_Action body, dl_subject = sub_ID (ca_subject actor),
                            dl_via = ca_via actor, dl_policyID = tok_PolicyID token, dl_category = DenialNone,
                            dl_reason = []\<rparr>], d'))))"

definition session_create :: "string gomap \<Rightarrow> string \<Rightarrow> string \<Rightarrow> string gomap" where
  "session_create store token userID = gset store token userID"

datatype login_reply = LoginBad | LoginUnknown string | LoggedIn string string \<comment> \<open>the user and the cookie\<close>

definition handleDevLogin :: "'d Server \<Rightarrow> string \<Rightarrow> HttpRequest \<Rightarrow> login_reply \<times> 'd Server" where
  "handleDevLogin s random rq =
     (case rq_User rq of
        None \<Rightarrow> (LoginBad, s)
      | Some user \<Rightarrow>
          if user = [] then (LoginBad, s)
          else (case resolveUser s rq user of
                  None \<Rightarrow> (LoginUnknown user, s)
                | Some _ \<Rightarrow> (LoggedIn user random, s\<lparr>sv_sessions := session_create (sv_sessions s) random user\<rparr>)))"

record WireRecord =
  wrec_timestamp :: int
  wrec_subject :: string
  wrec_action :: string
  wrec_decision :: string
  wrec_policy :: string
  wrec_is_ai :: bool
  wrec_via :: string
  wrec_hash :: string
  wrec_prev_hash :: string

definition wireRecord :: "AuditRecord \<Rightarrow> WireRecord" where
  "wireRecord r =
     \<lparr>wrec_timestamp = ar_Timestamp r, wrec_subject = ar_SubjectID r, wrec_action = ar_Action r,
      wrec_decision = ar_Decision r, wrec_policy = ar_PolicyID r, wrec_is_ai = ar_IsAI r, wrec_via = ar_Via r,
      wrec_hash = ar_Hash r, wrec_prev_hash = ar_PrevHash r\<rparr>"

definition auditRecordLimit :: int where "auditRecordLimit = 500"

datatype audit_reply =
    AuditError nat string
  | AuditView bool nat "WireRecord list" \<comment> \<open>intact, count and records\<close>

definition handleAudit :: "'d Server \<Rightarrow> 'd \<Rightarrow> HttpRequest \<Rightarrow> audit_reply" where
  "handleAudit s d rq =
     (case resolveCaller s rq of
        Inl e \<Rightarrow> AuditError 401 (caller_error_text e)
      | Inr actor \<Rightarrow>
          (case dp_Verify (sv_door s) d of
             Inl e \<Rightarrow> AuditError 500 (''cannot verify the chain: '' @ e)
           | Inr intact \<Rightarrow>
               (case dp_Records (sv_door s) of
                  None \<Rightarrow> AuditView intact 0 []
                | Some list_records \<Rightarrow>
                    (case list_records d auditRecordLimit of
                       Inl e \<Rightarrow> AuditError 500 (''cannot read the chain: '' @ e)
                     | Inr stored \<Rightarrow> AuditView intact (length (map wireRecord stored)) (map wireRecord stored)))))"

section \<open>Where the server may listen\<close>

text \<open>\<open>net.SplitHostPort\<close>; \<open>None\<close> is its error.\<close>

definition SplitHostPort :: "string \<Rightarrow> (string \<times> string) option" where
  "SplitHostPort s =
     (if s \<noteq> [] \<and> hd s = CHR ''[''
      then (let inner = takeWhile (\<lambda>c. c \<noteq> CHR '']'') (tl s); rest = dropWhile (\<lambda>c. c \<noteq> CHR '']'') (tl s)
            in case rest of
                 _ # c # port \<Rightarrow>
                   if c = CHR '':'' \<and> CHR '':'' \<notin> set port \<and> CHR ''['' \<notin> set inner \<and> CHR ''['' \<notin> set port \<and>
                      CHR '']'' \<notin> set port
                   then Some (inner, port) else None
               | _ \<Rightarrow> None)
      else (let host = takeWhile (\<lambda>c. c \<noteq> CHR '':'') s; rest = dropWhile (\<lambda>c. c \<noteq> CHR '':'') s
            in case rest of
                 [] \<Rightarrow> None
               | _ # port \<Rightarrow> if CHR '':'' \<in> set port \<or> CHR ''['' \<in> set s \<or> CHR '']'' \<in> set s then None else Some (host, port)))"

definition loopbackOnly :: "string \<Rightarrow> bool" where
  "loopbackOnly addr =
     (case SplitHostPort (TrimSpace addr) of
        None \<Rightarrow> False
      | Some (host, port) \<Rightarrow> map to_lower host \<in> {''localhost'', ''127.0.0.1'', ''::1'', ''[::1]''})"

definition checkIdentityTier :: "'d ServerOptions \<Rightarrow> string \<Rightarrow> bool \<Rightarrow> server_error option" where
  "checkIdentityTier o1 addr trustHeaderChosen =
     (if so_Authenticator o1 \<noteq> None then None
      else if so_TrustedUserHeader o1 = [] \<and> \<not> so_DevLogin o1 then None
      else if loopbackOnly addr then None
      else if \<not> trustHeaderChosen then Some (TrustRefused addr)
      else None)"

section \<open>Configuration\<close>

lemma NewServer_Inr:
  "NewServer o1 = Inr s \<Longrightarrow>
     so_Door o1 = Some (sv_door s) \<and> sv_options s = o1 \<and> sv_sessions s = [] \<and>
     (so_TrustedUserHeader o1 \<noteq> [] \<or> so_DevLogin o1) \<and>
     list_all (\<lambda>h. map to_lower (TrimSpace h) \<notin> set credentialHeaderNames)
       [so_TrustedUserHeader o1, so_TrustedGroupsHeader o1, so_DelegatedSubjectHeader o1]"
  by (auto simp: NewServer_def checkIdentityHeader_def split: option.splits if_splits)

text \<open>A deployment that identifies its callers by an authenticator alone is refused, although the authenticator replaces the
  two tiers it would have to enable.\<close>

lemma authenticator_alone_is_refused:
  "so_Door o1 = Some d \<Longrightarrow> so_Authenticator o1 = Some a \<Longrightarrow> so_TrustedUserHeader o1 = [] \<Longrightarrow> \<not> so_DevLogin o1 \<Longrightarrow>
     NewServer o1 = Inl ErrNoIdentitySource"
  by (simp add: NewServer_def)

lemma authenticator_is_the_only_path:
  "so_Authenticator (sv_options s) = Some a \<Longrightarrow> authenticatedCaller s rq = Some who \<Longrightarrow> a rq = Inr who"
  by (auto simp: authenticatedCaller_def split: sum.splits if_splits)

lemma loopbackOnly_needs_a_host: "\<not> loopbackOnly '':8080''" "loopbackOnly ''localhost:8080''" "loopbackOnly ''[::1]:8080''"
  "\<not> loopbackOnly ''0.0.0.0:8080''"
  by code_simp+

lemma checkIdentityTier_refuses:
  "checkIdentityTier o1 addr False = None \<Longrightarrow>
     so_Authenticator o1 \<noteq> None \<or> (so_TrustedUserHeader o1 = [] \<and> \<not> so_DevLogin o1) \<or> loopbackOnly addr"
  by (auto simp: checkIdentityTier_def split: if_splits)

section \<open>The denial codes\<close>

text \<open>A stamped category decides the code whatever the words, and different categories have different codes.\<close>

lemma stamped_category_decides:
  "dec_Category d \<noteq> DenialNone \<Longrightarrow> wireCodeFor d = wireCodeFor (d\<lparr>dec_Reason := words\<rparr>)"
  by (cases "dec_Category d") (simp_all add: wireCodeFor_def categoryToWireCode_def)

lemma categoryToWireCode_inject:
  "categoryToWireCode a = categoryToWireCode b \<longleftrightarrow> a = b"
  by (cases a; cases b) (simp_all add: categoryToWireCode_def)

lemma statusForDeny_is_4xx: "statusForDeny code \<in> {400, 401, 403}"
  by (simp add: statusForDeny_def)

section \<open>For whom the server asks\<close>

lemma resolveCaller_Inr:
  assumes "resolveCaller s rq = Inr actor"
  obtains authenticated user where "authenticatedCaller s rq = Some authenticated"
    "dp_Resolve (sv_door s) \<lparr>ext_ID = user, ext_Groups = assertedGroups s rq, ext_Attrs = []\<rparr> = Inr (ca_subject actor)"
    "(user = authenticated \<and> ca_via actor = []) \<or>
     (user \<noteq> authenticated \<and> authenticated \<in> set (so_Delegators (sv_options s)) \<and> ca_via actor = authenticated \<and>
      so_DelegatedSubjectHeader (sv_options s) \<noteq> [] \<and>
      user = TrimSpace (header_Get (rq_Header rq) (so_DelegatedSubjectHeader (sv_options s))))"
  using assms
  by (auto simp: resolveCaller_def resolveUser_def isDelegator_def list_ex_iff Let_def split: option.splits if_splits sum.splits)

lemma handleGovern_submits:
  assumes "handleGovern s f i d rq = (reply, lines, d')" and "wr_Outcome reply = ''allow'' \<or> d' \<noteq> d"
  obtains actor body where "resolveCaller s rq = Inr actor" "rq_Govern rq = Inr body"
    "d' = snd (dp_Submit (sv_door s) d (governed_intent i actor body))"
proof (cases "resolveCaller s rq")
  case (Inl e)
  with assms show ?thesis by (auto simp: handleGovern_def mk_reply_def)
next
  case actor: (Inr actor)
  show ?thesis
  proof (cases "rq_Govern rq")
    case (Inl e)
    with assms actor show ?thesis by (auto simp: handleGovern_def mk_reply_def)
  next
    case (Inr body)
    have "d' = snd (dp_Submit (sv_door s) d (governed_intent i actor body))"
      using assms(1) actor Inr by (auto simp: handleGovern_def split: sum.splits prod.splits option.splits)
    then show ?thesis using actor Inr that by blast
  qed
qed

text \<open>How the answer of the door is told: a token, a decision by its own words and code, and a fault of the server.\<close>

lemma handleGovern_answers:
  assumes "resolveCaller s rq = Inr actor" "rq_Govern rq = Inr body"
    and "dp_Submit (sv_door s) d (governed_intent i actor body) = (answer, d')"
  shows "fst (handleGovern s f i d rq) =
           (case answer of
              Inr token \<Rightarrow> writeAllow f token
            | Inl err \<Rightarrow> (case find_DecisionError err of
                            Some dec \<Rightarrow> writeDecision dec i
                          | None \<Rightarrow> mk_reply 500 ''error'' [mk_reason codePolicyError (error_text err)]))"
    and "snd (snd (handleGovern s f i d rq)) = d'"
  using assms by (auto simp: handleGovern_def split: sum.splits option.splits)

section \<open>The server over the assembled door\<close>

definition shipped_ports ::
  "(string \<Rightarrow> string) \<Rightarrow> (int \<Rightarrow> string) \<Rightarrow> Gateway \<Rightarrow> 'f engine_env \<Rightarrow> string option \<Rightarrow> int \<Rightarrow> int \<Rightarrow> string
    \<Rightarrow> (RBAC Failsafe \<times> Bolt) DoorPorts" where
  "shipped_ports sha fmt_time g env db_err logged_at now random =
     \<lparr>dp_Submit = Submit (gateway_Resolve g) (door_policy env) (Log sha fmt_time db_err) logged_at now random,
      dp_Resolve = gateway_Resolve g,
      dp_Verify = (\<lambda>st. Inr (Verify sha fmt_time (snd st))),
      dp_Records = Some (\<lambda>st limit. case Records (snd st) limit of Inl k \<Rightarrow> Inl ''unreadable record'' | Inr rs \<Rightarrow> Inr rs)\<rparr>"

lemma submit_over_shipped:
  "dp_Submit (shipped_ports sha fmt_time g env db_err t now random) st intent =
     Submit (gateway_Resolve g) (door_policy env) (Log sha fmt_time db_err) t now random st intent"
  by (simp add: shipped_ports_def)

lemma allow_is_a_token:
  assumes "resolveCaller s rq = Inr actor" "rq_Govern rq = Inr body"
    and "sv_door s = shipped_ports sha fmt_time g env db_err t now random"
    and "handleGovern s f i (p, b) rq = (reply, lines, p', b')" and "wr_Outcome reply = ''allow''"
  obtains token where "Submit (gateway_Resolve g) (door_policy env) (Log sha fmt_time db_err) t now random (p, b)
      (governed_intent i actor body) = (Inr token, p', b')" "reply = writeAllow f token"
proof -
  obtain answer p1 b1 where sub: "Submit (gateway_Resolve g) (door_policy env) (Log sha fmt_time db_err) t now random (p, b)
      (governed_intent i actor body) = (answer, p1, b1)"
    using prod_cases3 by blast
  have dp: "dp_Submit (sv_door s) (p, b) (governed_intent i actor body) = (answer, p1, b1)"
    unfolding assms(3) submit_over_shipped by (rule sub)
  note h = handleGovern_answers [OF assms(1,2) dp, where f = f]
  have st: "(p', b') = (p1, b1)" using h(2) assms(4) by simp
  show ?thesis
  proof (cases answer)
    case (Inl err)
    then have "dec_Action dec \<noteq> ActionAllow" if "find_DecisionError err = Some dec" for dec
      using sub that by (auto simp: Submit_def Let_def mk_Decision_def split: if_splits sum.splits prod.splits)
    then have False
      using h(1) assms(4,5) Inl
      by (auto simp: writeDecision_def mk_reply_def Let_def ActionAllow_def split: option.splits if_splits)
    then show ?thesis ..
  next
    case (Inr token)
    with sub st h(1) assms(4) that show ?thesis by simp
  qed
qed

text \<open>C5: Whoever acts over HTTP is on the chain. When a governed request is allowed over the assembled door, exactly one record was
  appended to the intact chain, an allow of the requested action under the id the reply names. Either its subject is the
  caller that authenticated, and nothing was carried; or the caller that authenticated is recorded as the carrier, it is
  one of the permitted delegators, and the subject is the person it named. With an authenticator, the caller is whom that
  one verified.\<close>

theorem allow_over_http_is_on_the_chain:
  assumes "sv_door s = shipped_ports sha fmt_time g env db_err t now random" and "intact_bolt sha fmt_time b"
    and "handleGovern s f i (p, b) rq = (reply, lines, p', b')" and "wr_Outcome reply = ''allow''"
  shows "\<exists>r body authenticated. bolt_trail b' = bolt_trail b @ [r] \<and> intact_bolt sha fmt_time b' \<and>
           rq_Govern rq = Inr body \<and> ar_Action r = gq_Action body \<and> ar_Decision r = ActionAllow \<and>
           ar_IntentID r = i \<and> wr_IntentID reply = i \<and> wr_Token reply = random \<and>
           authenticatedCaller s rq = Some authenticated \<and>
           (ar_Via r = [] \<and> ar_SubjectID r = authenticated \<or>
            ar_Via r = authenticated \<and> authenticated \<in> set (so_Delegators (sv_options s)) \<and>
            ar_SubjectID r = TrimSpace (header_Get (rq_Header rq) (so_DelegatedSubjectHeader (sv_options s)))) \<and>
           (case so_Authenticator (sv_options s) of None \<Rightarrow> True | Some verify \<Rightarrow> verify rq = Inr authenticated)"
proof -
  obtain actor body where rc: "resolveCaller s rq = Inr actor" and body: "rq_Govern rq = Inr body"
    by (rule handleGovern_submits [OF assms(3)]) (use assms(4) in auto)
  let ?in = "governed_intent i actor body"
  obtain token where sub: "Submit (gateway_Resolve g) (door_policy env) (Log sha fmt_time db_err) t now random (p, b) ?in
      = (Inr token, p', b')" and reply: "reply = writeAllow f token"
    by (rule allow_is_a_token [OF rc body assms(1,3,4)])
  obtain subject d r where tr: "gateway_Resolve g \<lparr>ext_ID = sub_ID (int_Subject ?in),
        ext_Groups = sub_ADGroups (int_Subject ?in), ext_Attrs = []\<rparr> = Inr subject"
      "dec_Action d = ActionAllow" "bolt_trail b' = bolt_trail b @ [r]" "records r t ?in subject d"
      "intact_bolt sha fmt_time b'" "token = issue_token random now ?in d"
    by (rule shipped.token_recorded [OF assms(2) sub])
  obtain authenticated user where a: "authenticatedCaller s rq = Some authenticated"
      "dp_Resolve (sv_door s) \<lparr>ext_ID = user, ext_Groups = assertedGroups s rq, ext_Attrs = []\<rparr> = Inr (ca_subject actor)"
      "(user = authenticated \<and> ca_via actor = []) \<or>
       (user \<noteq> authenticated \<and> authenticated \<in> set (so_Delegators (sv_options s)) \<and> ca_via actor = authenticated \<and>
        so_DelegatedSubjectHeader (sv_options s) \<noteq> [] \<and>
        user = TrimSpace (header_Get (rq_Header rq) (so_DelegatedSubjectHeader (sv_options s))))"
    by (rule resolveCaller_Inr [OF rc])
  have "sub_ID (ca_subject actor) = user"
    using a(2) gateway_Resolve_Inr by (fastforce simp: assms(1) shipped_ports_def)
  then have ids: "sub_ID subject = user" "ar_Via r = ca_via actor" "ar_SubjectID r = user"
    using gateway_Resolve_Inr [OF tr(1)] records_fields [OF tr(4)] by (auto simp: governed_intent_def)
  have fields: "ar_Action r = gq_Action body" "ar_Decision r = ActionAllow" "ar_IntentID r = i" "wr_IntentID reply = i"
      "wr_Token reply = random"
    using records_fields [OF tr(4)] tr(2,6) reply by (simp_all add: governed_intent_def writeAllow_def issue_token_def)
  have "case so_Authenticator (sv_options s) of None \<Rightarrow> True | Some verify \<Rightarrow> verify rq = Inr authenticated"
    using authenticator_is_the_only_path [OF _ a(1)] by (simp split: option.split)
  moreover have "ar_Via r = [] \<and> ar_SubjectID r = authenticated \<or>
      ar_Via r = authenticated \<and> authenticated \<in> set (so_Delegators (sv_options s)) \<and>
      ar_SubjectID r = TrimSpace (header_Get (rq_Header rq) (so_DelegatedSubjectHeader (sv_options s)))"
    using a(3) ids by auto
  ultimately show ?thesis
    using tr(3,5) body a(1) fields by (intro exI [of _ r] exI [of _ body] exI [of _ authenticated]) simp
qed

text \<open>What the audit view then shows: the chain verifies, and its newest record comes first.\<close>

lemma audit_view_of_an_intact_chain:
  assumes "sv_door s = shipped_ports sha fmt_time g env db_err t now random" "intact_bolt sha fmt_time b"
    and "resolveCaller s rq = Inr actor"
  shows "handleAudit s (p, b) rq =
           AuditView True (min 500 (length (bolt_trail b))) (map wireRecord (take 500 (rev (bolt_trail b))))"
proof -
  have v: "Verify sha fmt_time b" using assms(2) by (simp add: intact_bolt_def)
  show ?thesis
    using v Records_intact [OF v, of 500] assms(1,3) by (simp add: handleAudit_def shipped_ports_def auditRecordLimit_def min.commute)
qed

text \<open>A server behind a gateway, with one service that may act for people, and a request of that service.\<close>

definition sample_options :: "(RBAC Failsafe \<times> Bolt) DoorPorts \<Rightarrow> (RBAC Failsafe \<times> Bolt) ServerOptions" where
  "sample_options ports =
     \<lparr>so_Door = Some ports, so_TrustedUserHeader = ''X-User'', so_TrustedGroupsHeader = ''X-Caller-Groups'',
      so_DelegatedSubjectHeader = ''X-On-Behalf-Of'', so_Delegators = [''estate''], so_DevLogin = False,
      so_Authenticator = None\<rparr>"

definition sample_server :: "(RBAC Failsafe \<times> Bolt) Server" where
  "sample_server =
     (let ports = shipped_ports (\<lambda>s. s) (\<lambda>t. []) sample_gateway sample_env None 7 8 ''r''
      in \<lparr>sv_door = ports, sv_sessions = [], sv_options = sample_options ports\<rparr>)"

definition sample_request :: HttpRequest where
  "sample_request =
     \<lparr>rq_Header = [(''X-User'', ''estate''), (''X-On-Behalf-Of'', ''ann''), (''X-Caller-Groups'', ''ops'')],
      rq_SessionCookie = None,
      rq_Govern = Inr \<lparr>gq_Action = ''service.deploy'', gq_Resource = ''svc'', gq_Goal = ''ship'', gq_Env = ''dev'', gq_Params = []\<rparr>,
      rq_User = None\<rparr>"

lemmas sample_server_defs = sample_server_def sample_options_def sample_request_def

lemma sample_actor:
  "resolveCaller sample_server sample_request =
     Inr \<lparr>ca_subject = \<lparr>sub_ID = ''ann'', sub_Roles = [''L2-Operator''], sub_ADGroups = [''ops''], sub_IsAI = False, sub_Attrs = []\<rparr>,
          ca_via = ''estate''\<rparr>"
  by (simp add: resolveCaller_def authenticatedCaller_def resolveUser_def assertedGroups_def isDelegator_def sample_server_defs
      shipped_ports_def same_header_def to_lower_def TrimSpace_def is_space_def gateway_Resolve_def sample_gateway_def
      NewGateway_def entries_def Let_def)

theorem allow_over_http_is_on_the_chain_witness:
  "\<exists>reply lines p' b' r. handleGovern sample_server (\<lambda>t. []) ''INT-7'' (NewFailsafe NewRBAC, Open) sample_request =
       (reply, lines, p', b') \<and> bolt_trail b' = [r] \<and> ar_Decision r = ActionAllow \<and> ar_IntentID r = ''INT-7''"
proof -
  let ?x = "handleGovern sample_server (\<lambda>t. []) ''INT-7'' (NewFailsafe NewRBAC, Open) sample_request"
  obtain reply lines p' b' where eq: "?x = (reply, lines, p', b')" using prod_cases4 by blast
  have "wr_Outcome (fst ?x) = ''allow''"
    unfolding handleGovern_def sample_actor
    by (simp add: sample_server_defs shipped_ports_def governed_intent_def sample_door_defs writeAllow_def issue_token_def)
  then have ok: "wr_Outcome reply = ''allow''" using eq by simp
  have ports: "sv_door sample_server = shipped_ports (\<lambda>s. s) (\<lambda>t. []) sample_gateway sample_env None 7 8 ''r''"
    by (simp add: sample_server_def Let_def)
  have "bolt_trail Open = []" by (simp add: bolt_trail_def Open_def)
  then show ?thesis
    using allow_over_http_is_on_the_chain [OF ports intact_Open eq ok] eq by (metis append_Nil)
qed

end
