(* ===== verification/Door_Client.thy ===== *)
theory Door_Client
  imports Estate_Door Door_Server Go_Fmt
begin

text \<open>
  The estate's client of a remote door, package \<open>doorclient\<close> of \<open>mantlekeep-estate\<close> (\<open>doorclient.go\<close>), and the pair it forms
  with the server of theory \<open>Door_Server\<close>.

  \<open>json_any\<close> is what a parameter becomes on the way: marshalled by the client and unmarshalled by the server. Strings and
  booleans stay, a string map becomes a map of values, and \<open>num\<close> says what becomes of a value of any other type. Building
  the request and exchanging it is an argument, \<open>transport\<close>, that answers with a reply, with a body that does not decode,
  or not at all; the last stands for a request that could not be built as well (a parameter JSON cannot express, a header value
  HTTP does not allow), which the code returns as an error too. The client's clock and the parser of a timestamp (\<open>time.Parse\<close>, \<open>None\<close> its error) are arguments too.
\<close>

section \<open>Construction\<close>

record DoorClient =
  dc_baseURL :: string
  dc_serviceAccount :: string
  dc_callerHeader :: string

definition NewClient :: "string \<Rightarrow> string \<Rightarrow> DoorClient" where
  "NewClient baseURL serviceAccount =
     \<lparr>dc_baseURL = rev (dropWhile (\<lambda>c. c = CHR ''/'') (rev baseURL)), dc_serviceAccount = serviceAccount, dc_callerHeader = []\<rparr>"


definition client_credentialHeaderNames :: "string list" where
  "client_credentialHeaderNames =
     [''authorization'', ''proxy-authorization'', ''cookie'', ''set-cookie'', ''x-api-key'', ''api-key'', ''x-auth-token'',
      ''x-access-token'']"

definition checkCallerHeader :: "string \<Rightarrow> bool" where
  "checkCallerHeader name \<longleftrightarrow> name = [] \<or> map to_lower name \<notin> set client_credentialHeaderNames"

text \<open>\<open>None\<close> is the error that the header names a credential.\<close>

definition NewWithOptions :: "string \<Rightarrow> string \<Rightarrow> (DoorClient \<Rightarrow> DoorClient) list \<Rightarrow> DoorClient option" where
  "NewWithOptions baseURL serviceAccount options =
     (let client = foldl (\<lambda>c option. option c) (NewClient baseURL serviceAccount) options
      in if checkCallerHeader (dc_callerHeader client) then Some client else None)"

section \<open>One submission\<close>

abbreviation onBehalfOfHeader :: string where "onBehalfOfHeader \<equiv> ''X-On-Behalf-Of''"
abbreviation groupsHeader :: string where "groupsHeader \<equiv> ''X-Caller-Groups''"

function json_any :: "(string \<Rightarrow> anyval) \<Rightarrow> anyval \<Rightarrow> anyval" where
  "json_any num (AStr s) = AStr s"
| "json_any num (ABool b) = ABool b"
| "json_any num (AMap m) = AMap (map (\<lambda>kv. (fst kv, json_any num (snd kv))) m)"
| "json_any num (AStrMap m) = AMap (map (\<lambda>kv. (fst kv, AStr (snd kv))) m)"
| "json_any num (AOther t) = num t"
  by pat_completeness auto

termination
proof (relation "measure (\<lambda>(num, v). size v)", goal_cases)
  case (2 num m kv)
  then show ?case
    by (induction m) (auto simp: less_Suc_eq_le split: prod.splits)
qed simp

definition json_params :: "(string \<Rightarrow> anyval) \<Rightarrow> params \<Rightarrow> params" where
  "json_params num ps = map (\<lambda>kv. (fst kv, json_any num (snd kv))) ps"

definition client_headers :: "DoorClient \<Rightarrow> Intent \<Rightarrow> string gomap" where
  "client_headers c intent =
     (let h1 = header_Set (header_Set [] ''Content-Type'' ''application/json'') ''Authorization'' (''Bearer '' @ dc_serviceAccount c);
          h2 = (if dc_callerHeader c \<noteq> [] then header_Set h1 (dc_callerHeader c) (dc_serviceAccount c) else h1);
          h3 = (if sub_ID (int_Subject intent) \<noteq> [] then header_Set h2 onBehalfOfHeader (sub_ID (int_Subject intent)) else h2)
      in if sub_ADGroups (int_Subject intent) \<noteq> []
         then header_Set h3 groupsHeader (join_with '','' (sub_ADGroups (int_Subject intent))) else h3)"

text \<open>The door's request shape has no id and no scope field, so the server drops the two; the client sends no environment.\<close>

definition client_request :: "(string \<Rightarrow> anyval) \<Rightarrow> DoorClient \<Rightarrow> Intent \<Rightarrow> HttpRequest" where
  "client_request num c intent =
     \<lparr>rq_Header = client_headers c intent, rq_SessionCookie = None,
      rq_Govern = Inr \<lparr>gq_Action = int_Action intent, gq_Resource = int_Resource intent, gq_Goal = spec_Goal (int_Spec intent),
                       gq_Env = [], gq_Params = json_params num (int_Params intent)\<rparr>,
      rq_User = None\<rparr>"

definition summary :: "WireReply \<Rightarrow> string" where
  "summary r = (case wr_Reasons r of [] \<Rightarrow> [] | [x] \<Rightarrow> wrn_Message x | xs \<Rightarrow> join_with ''; '' (map wrn_Message xs))"

definition rolesFrom :: "string list \<Rightarrow> Role list" where
  "rolesFrom names = (if names = [] then [] else map (\<lambda>n. n) names)"

definition refusal :: "WireReply \<Rightarrow> door_error" where
  "refusal r =
     (if wr_Outcome r = []
      then PlainError (''door answered HTTP '' @ dec_nat (wr_Status r) @ '' with no outcome: '' @ summary r)
      else (let reason = summary r
            in RefusedError \<lparr>ref_Action = wr_Outcome r, ref_Reason = (if reason = [] then ''no reason given'' else reason),
                             ref_RequiredApprovers = rolesFrom (wr_RequiredApprovers r), ref_PolicyID = []\<rparr>))"

datatype http_result =
    Unreachable string
  | Unreadable nat string \<comment> \<open>the status, and why the body does not decode\<close>
  | Answered WireReply

definition client_Submit ::
  "(string \<Rightarrow> anyval) \<Rightarrow> (string \<Rightarrow> int option) \<Rightarrow> DoorClient \<Rightarrow> (HttpRequest \<Rightarrow> 'w \<Rightarrow> http_result \<times> 'w) \<Rightarrow> ('w \<Rightarrow> int) \<Rightarrow> Intent
    \<Rightarrow> 'w \<Rightarrow> (door_error + ExecutionToken) \<times> 'w" where
  "client_Submit num parse c transport clock intent w =
     (case transport (client_request num c intent) w of
        (Unreachable e, w1) \<Rightarrow> (Inl (Wrapped ''door unreachable: '' (PlainError e)), w1)
      | (Unreadable status e, w1) \<Rightarrow> (Inl (Wrapped (''door unreadable: HTTP '' @ dec_nat status @ '': '') (PlainError e)), w1)
      | (Answered r, w1) \<Rightarrow>
          if wr_Status r \<noteq> 200 \<or> wr_Outcome r \<noteq> ActionAllow then (Inl (refusal r), w1)
          else if wr_Token r = []
          then (Inl (PlainError (''door: allowed intent '' @ int_ID intent @ '' but issued no execution token'')), w1)
          else (Inr \<lparr>tok_Value = wr_Token r,
                     tok_IntentID = (if wr_IntentID r = [] then int_ID intent else wr_IntentID r),
                     tok_Scope = int_Resource intent, tok_PolicyID = [], tok_IssuedAt = clock w1,
                     tok_ExpiresAt = (case parse (wr_ExpiresAt r) of Some t \<Rightarrow> t | None \<Rightarrow> zero_time)\<rparr>, w1))"

section \<open>Headers and lists on the wire\<close>


lemma header_Get_Set: "header_Get (header_Set h n v) m = (if same_header n m then v else header_Get h m)"
  by (induction h n v rule: header_Set.induct) (auto simp: same_header_def)







text \<open>A group whose name has a comma arrives as two.\<close>

lemma group_with_a_comma_arrives_as_two:
  "filter (\<lambda>name. name \<noteq> []) (map TrimSpace (split_on CHR '','' (join_with '','' [''guests,platform-admins'']))) =
     [''guests'', ''platform-admins'']"
  by code_simp

section \<open>The client and the server as a pair\<close>






text \<open>A client built by \<open>New\<close>, the one \<open>serve\<close> dials, names itself in no header: whatever header a door reads its callers from,
  other than the four the client sets for something else, it finds nobody there.\<close>

lemma client_without_caller_header_is_nobody:
  assumes "\<not> same_header ''Content-Type'' h" "\<not> same_header ''Authorization'' h" "\<not> same_header onBehalfOfHeader h" "\<not> same_header groupsHeader h"
  shows "header_Get (client_headers (NewClient baseURL serviceAccount) intent) h = []"
  using assms by (simp add: client_headers_def NewClient_def Let_def header_Get_Set)





definition spoken :: "string \<Rightarrow> string" where
  "spoken reason = (if reason = [] then ''no reason given'' else reason)"

definition told_refusal :: "door_error \<Rightarrow> Refused" where
  "told_refusal err =
     (case find_DecisionError err of
        Some d \<Rightarrow> \<lparr>ref_Action = dec_Action d, ref_Reason = spoken (dec_Reason d),
                   ref_RequiredApprovers = (if dec_Action d = ActionRequireApproval then dec_RequiredApprovers d else []),
                   ref_PolicyID = []\<rparr>
      | None \<Rightarrow> \<lparr>ref_Action = ''error'', ref_Reason = spoken (error_text err), ref_RequiredApprovers = [], ref_PolicyID = []\<rparr>)"


lemma rolesFrom_id [simp]: "rolesFrom rs = rs"
  by (simp add: rolesFrom_def)





section \<open>The pair over the assembled door\<close>



lemma actions_speak [simp]: "ActionDeny \<noteq> []" "ActionRequireApproval \<noteq> []" "ActionAllow \<noteq> []"
  "[] \<noteq> ActionDeny" "[] \<noteq> ActionRequireApproval" "[] \<noteq> ActionAllow"
  by (simp_all add: action_defs)






text \<open>What is lost on the way back: the token of a remote door names no policy, and a fault of the door (its policy engine
  or its audit log failing) comes back as a typed refusal, like a decision.\<close>

lemma remote_token_names_no_policy:
  "client_Submit num parse c transport clock intent w = (Inr token, w') \<Longrightarrow> tok_PolicyID token = []"
  by (auto simp: client_Submit_def split: prod.splits http_result.splits if_splits)

lemma fault_is_told_as_a_refusal:
  "find_DecisionError err = None \<Longrightarrow> DecisionFrom (Some (RefusedError (told_refusal err))) \<noteq> None"
  by (simp add: DecisionFrom_def)

section \<open>Gates behind a remote door\<close>

text \<open>Values of other types (numbers, lists, null) do not come out of JSON as strings.\<close>

definition keeps_kinds :: "(string \<Rightarrow> anyval) \<Rightarrow> bool" where
  "keeps_kinds num \<longleftrightarrow> (\<forall>t x. num t \<noteq> AStr x)"

lemma json_any_string: "keeps_kinds num \<Longrightarrow> json_any num v = AStr x \<longleftrightarrow> v = AStr x"
  by (cases v) (auto simp: keeps_kinds_def)




section \<open>Samples\<close>
















end
