(* ===== verification/Estate_Api.thy ===== *)
theory Estate_Api
  imports Governing Door_Client
begin

text \<open>
  The estate over HTTP: package \<open>api\<close> of \<open>mantlekeep-estate\<close> (\<open>handler.go\<close>, \<open>caller.go\<close>, \<open>status.go\<close>) and the choice of a
  caller resolver and a door in \<open>serve\<close> (\<open>identity.go\<close>, \<open>door.go\<close>, and of \<open>serve.go\<close> the reading of the environment, the
  capacity endpoints, the wiring of the manager and the reloads).

  A handler is a function of the manager's wiring, the decoded request and the state of theory \<open>Manager\<close>; it returns the
  status, the body, and the state. What reading or decoding a body can give is a datatype, the path value of a route is an
  argument. Error texts are the values they are made of. What the handlers log is not in the model.
\<close>

section \<open>Bodies\<close>

datatype manifest_body =
    BodyUnread string
  | BodyUndecodable string
  | BodyDecoded Manifest

datatype text_body =
    BodyEmpty
  | BodyMalformed string
  | BodyText string \<comment> \<open>the one field of the body\<close>

datatype api_error =
    CallerError string
  | BodyError string
  | JsonError string
  | ManifestError manifest_error
  | TeamMismatch string string
  | ManagerError manager_error
  | ApprovalError approval_error
  | NotReadable string \<comment> \<open>\<open>unknownTeam\<close> of this team\<close>

datatype api_body =
    ErrorBody api_error
  | OutcomeBody ApplyOutcome
  | ReconcileBody ApplyOutcome "Drift list"
  | FootprintBody Footprint
  | PendingBody "Approval list"
  | ResultBody Result
  | DeclinedBody string

type_synonym api_reply = "nat \<times> api_body"

section \<open>Who is calling\<close>

abbreviation UserHeader :: string where "UserHeader \<equiv> ''X-Caller''"
abbreviation GroupsHeader :: string where "GroupsHeader \<equiv> ''X-Caller-Groups''"

definition api_assertedGroups :: "HttpRequest \<Rightarrow> string list" where
  "api_assertedGroups rq =
     (let raw = header_Get (rq_Header rq) GroupsHeader
      in if TrimSpace raw = [] then []
         else filter (\<lambda>name. name \<noteq> []) (map TrimSpace (split_on CHR '','' raw)))"

definition HeaderCallers :: "HttpRequest \<Rightarrow> string + Subject" where
  "HeaderCallers rq =
     (let name = TrimSpace (header_Get (rq_Header rq) UserHeader)
      in if name = [] then Inl ''no identity on the request''
         else Inr \<lparr>sub_ID = name, sub_Roles = [], sub_ADGroups = api_assertedGroups rq, sub_IsAI = False, sub_Attrs = []\<rparr>)"

text \<open>\<open>resolveCallers\<close>: a supplied resolver wins; \<open>trust\<close> is that the variable naming the decision is set to true.\<close>

definition resolveCallers ::
  "string \<Rightarrow> bool \<Rightarrow> (HttpRequest \<Rightarrow> string + Subject) option \<Rightarrow> string + (HttpRequest \<Rightarrow> string + Subject)" where
  "resolveCallers addr trust supplied =
     (case supplied of
        Some r \<Rightarrow> Inr r
      | None \<Rightarrow>
          if loopbackOnly addr then Inr HeaderCallers
          else if \<not> trust then Inl (''identity: refusing to trust the header on '' @ addr)
          else Inr HeaderCallers)"

section \<open>Statuses\<close>

text \<open>\<open>strings.Cut\<close> at a colon and a space.\<close>

fun cut_colon_space :: "string \<Rightarrow> (string \<times> string) option" where
  "cut_colon_space (c # d # s) =
     (if c = CHR '':'' \<and> d = CHR '' '' then Some ([], s)
      else (case cut_colon_space (d # s) of None \<Rightarrow> None | Some (a, b) \<Rightarrow> Some (c # a, b)))"
| "cut_colon_space s = None"

definition decisionIn :: "string \<Rightarrow> string" where
  "decisionIn words =
     (case cut_colon_space words of
        None \<Rightarrow> []
      | Some (decision, _) \<Rightarrow> if decision = ActionDeny \<or> decision = ActionRequireApproval then decision else [])"

fun refused_status :: "bool \<Rightarrow> Result list \<Rightarrow> nat" where
  "refused_status saw [] = (if saw then 409 else 403)"
| "refused_status saw (r # rs) =
     (if decisionIn (rs_Refused r) = ActionRequireApproval then refused_status True rs
      else if decisionIn (rs_Refused r) = ActionDeny then refused_status saw rs
      else 502)"

definition statusFor :: "ApplyOutcome \<Rightarrow> nat" where
  "statusFor o1 =
     (if ao_Refused o1 = [] then 200
      else if ao_Applied o1 \<noteq> [] \<or> ao_Failed o1 \<noteq> [] then 200
      else refused_status False (ao_Refused o1))"

definition applyFailureStatus :: "manager_error \<Rightarrow> nat" where
  "applyFailureStatus e = (case e of StoreFailure m \<Rightarrow> 500 | _ \<Rightarrow> 400)"

definition statusForApproval :: "approval_error \<Rightarrow> nat" where
  "statusForApproval e =
     (case e of
        ApprovalNotFound \<Rightarrow> 404
      | ApprovalNotPending \<Rightarrow> 409
      | SelfApproval \<Rightarrow> 403 | FloorMoved a b \<Rightarrow> 403 | DuplicateSignature \<Rightarrow> 403 | AIApproval \<Rightarrow> 403
      | StoreCannotCollectSignatures n i \<Rightarrow> 501 | SignaturesOutstandingError m \<Rightarrow> 501
      | _ \<Rightarrow> 502)"

section \<open>The handlers\<close>

definition api_apply ::
  "'w wiring \<Rightarrow> string + Subject \<Rightarrow> string \<Rightarrow> manifest_body \<Rightarrow> 'w state \<Rightarrow> api_reply \<times> 'w state" where
  "api_apply m caller team body st =
     (case caller of
        Inl e \<Rightarrow> ((401, ErrorBody (CallerError e)), st)
      | Inr actor \<Rightarrow>
          (case body of
             BodyUnread e \<Rightarrow> ((400, ErrorBody (BodyError e)), st)
           | BodyUndecodable e \<Rightarrow> ((400, ErrorBody (JsonError e)), st)
           | BodyDecoded decoded \<Rightarrow>
               (case ParseManifest decoded of
                  Inl e \<Rightarrow> ((400, ErrorBody (ManifestError e)), st)
                | Inr manifest \<Rightarrow>
                    if man_Team manifest \<noteq> team then ((400, ErrorBody (TeamMismatch (man_Team manifest) team)), st)
                    else (case man_Apply m actor manifest st of
                            (Inl e, st') \<Rightarrow> ((applyFailureStatus e, ErrorBody (ManagerError e)), st')
                          | (Inr o1, st') \<Rightarrow> ((statusFor o1, OutcomeBody o1), st')))))"

definition api_read ::
  "'w wiring \<Rightarrow> ('w \<Rightarrow> string \<Rightarrow> manager_error + Footprint) option \<Rightarrow> string + Subject \<Rightarrow> string \<Rightarrow> 'w state
    \<Rightarrow> api_reply \<times> 'w state" where
  "api_read m reader caller team st =
     (case caller of
        Inl e \<Rightarrow> ((401, ErrorBody (CallerError e)), st)
      | Inr actor \<Rightarrow>
          (case man_Footprint m reader actor team st of
             (Inl (ReadRefused e), st') \<Rightarrow> ((404, ErrorBody (NotReadable team)), st')
           | (Inl UnknownTeam, st') \<Rightarrow> ((404, ErrorBody (NotReadable team)), st')
           | (Inl e, st') \<Rightarrow> ((500, ErrorBody (ManagerError e)), st')
           | (Inr fp, st') \<Rightarrow> ((200, FootprintBody fp), st')))"

definition api_reconcile ::
  "'w wiring \<Rightarrow> ('w \<Rightarrow> string \<Rightarrow> string + Manifest option) \<Rightarrow> string + Subject \<Rightarrow> string \<Rightarrow> 'w state
    \<Rightarrow> api_reply \<times> 'w state" where
  "api_reconcile m recall caller team st =
     (case caller of
        Inl e \<Rightarrow> ((401, ErrorBody (CallerError e)), st)
      | Inr actor \<Rightarrow>
          (case service_Manifest recall (snd st) team of
             Inl UnknownTeam \<Rightarrow> ((404, ErrorBody (ManagerError UnknownTeam)), st)
           | Inl e \<Rightarrow> ((500, ErrorBody (ManagerError e)), st)
           | Inr manifest \<Rightarrow>
               (case man_Reconcile m actor manifest st of
                  (Inl e, st') \<Rightarrow> ((502, ErrorBody (ManagerError e)), st')
                | (Inr (o1, escalated), st') \<Rightarrow> ((statusFor o1, ReconcileBody o1 escalated), st'))))"

text \<open>The route over all teams has no team in its path: the value is empty.\<close>

definition api_pendingApprovals :: "'w wiring \<Rightarrow> string + Subject \<Rightarrow> string \<Rightarrow> 'w \<Rightarrow> api_reply" where
  "api_pendingApprovals m caller team w =
     (case caller of
        Inl e \<Rightarrow> (401, ErrorBody (CallerError e))
      | Inr _ \<Rightarrow>
          (case PendingApprovals m team w of
             Inl e \<Rightarrow> (502, ErrorBody (ApprovalError e))
           | Inr waiting \<Rightarrow> (200, PendingBody waiting)))"

definition api_approve ::
  "'w wiring \<Rightarrow> string + Subject \<Rightarrow> string \<Rightarrow> text_body \<Rightarrow> 'w state \<Rightarrow> api_reply \<times> 'w state" where
  "api_approve m caller ident body st =
     (case caller of
        Inl e \<Rightarrow> ((401, ErrorBody (CallerError e)), st)
      | Inr approver \<Rightarrow>
          (case body of
             BodyMalformed e \<Rightarrow> ((400, ErrorBody (BodyError e)), st)
           | _ \<Rightarrow>
               (case ApproveCiting m approver ident (case body of BodyText t \<Rightarrow> t | _ \<Rightarrow> []) st of
                  (Inl e, st') \<Rightarrow> ((statusForApproval e, ErrorBody (ApprovalError e)), st')
                | (Inr result, st') \<Rightarrow> ((200, ResultBody result), st'))))"

definition api_decline ::
  "'w wiring \<Rightarrow> string + Subject \<Rightarrow> string \<Rightarrow> text_body \<Rightarrow> 'w state \<Rightarrow> api_reply \<times> 'w state" where
  "api_decline m caller ident body st =
     (case caller of
        Inl e \<Rightarrow> ((401, ErrorBody (CallerError e)), st)
      | Inr approver \<Rightarrow>
          (case body of
             BodyMalformed e \<Rightarrow> ((400, ErrorBody (BodyError e)), st)
           | _ \<Rightarrow>
               (let (err, w') = man_Decline m approver ident (case body of BodyText t \<Rightarrow> t | _ \<Rightarrow> []) (snd st); st' = (fst st, w')
                in case err of
                     Some e \<Rightarrow> ((statusForApproval e, ErrorBody (ApprovalError e)), st')
                   | None \<Rightarrow> ((200, DeclinedBody ident), st'))))"

section \<open>What a status says\<close>

lemma cut_colon_space_append:
  "CHR '':'' \<notin> set a \<Longrightarrow> cut_colon_space (a @ '': '' @ s) = Some (a, s)"
  by (induction a rule: cut_colon_space.induct) auto

lemma decisionIn_decision:
  "a = ActionDeny \<or> a = ActionRequireApproval \<Longrightarrow> decisionIn (a @ '': '' @ reason) = a"
proof -
  assume a: "a = ActionDeny \<or> a = ActionRequireApproval"
  then have "CHR '':'' \<notin> set a" by (auto simp: action_defs)
  then show ?thesis using a cut_colon_space_append by (simp add: decisionIn_def)
qed

lemma decisionIn_values: "decisionIn words \<in> {[], ActionDeny, ActionRequireApproval}"
  by (auto simp: decisionIn_def split: option.splits)

text \<open>The words of a door that did not answer, and of a fault of the door, are no decision.\<close>

lemma no_decision_words:
  "decisionIn (error_text (Wrapped ''door unreachable: '' e)) = []"
  "decisionIn (error_text (Wrapped ''policy error: '' e)) = []"
  "decisionIn (error_text (Wrapped ''audit error: '' e)) = []"
  "decisionIn (error_text (RefusedError (r\<lparr>ref_Action := ''error''\<rparr>))) = []"
  by (simp_all add: decisionIn_def action_defs)

lemma refused_status_values:
  "refused_status saw rs =
     (if list_ex (\<lambda>r. decisionIn (rs_Refused r) = []) rs then 502
      else if saw \<or> list_ex (\<lambda>r. decisionIn (rs_Refused r) = ActionRequireApproval) rs then 409 else 403)"
proof (induction rs arbitrary: saw)
  case (Cons r rs)
  then show ?case using decisionIn_values [of "rs_Refused r"] by (auto simp: action_defs)
qed simp

section \<open>What a handler does\<close>

lemma api_apply_cases:
  assumes "api_apply m caller team body st = (reply, st')"
  obtains (nothing) e where "st' = st" "fst reply \<in> {400, 401}" "snd reply = ErrorBody e"
  | (applied) actor decoded manifest r where "caller = Inr actor" "body = BodyDecoded decoded" "ParseManifest decoded = Inr manifest"
      "man_Team manifest = team" "man_Apply m actor manifest st = (r, st')"
      "reply = (case r of Inl e \<Rightarrow> (applyFailureStatus e, ErrorBody (ManagerError e)) | Inr o1 \<Rightarrow> (statusFor o1, OutcomeBody o1))"
  using assms
  by (auto simp: api_apply_def split: sum.splits manifest_body.splits if_splits prod.splits)

text \<open>The reply to a refused read is the one for a team nobody declared, whatever the door said.\<close>

lemma refused_read_is_an_unknown_team:
  assumes "wi_door m (intentForRead m (snd st) actor team) (snd st) = (Inl err, w')" and "reader \<noteq> None"
  shows "fst (api_read m reader (Inr actor) team st) = (404, ErrorBody (NotReadable team))"
  using assms by (auto simp: api_read_def man_Footprint_def split_beta Let_def split: option.splits)

text \<open>A decline without a reason, which the caller has to mend, is answered as a fault behind the server.\<close>

lemma decline_without_reason_is_a_gateway_error:
  "wi_approvals m \<noteq> None \<Longrightarrow>
     fst (api_decline m (Inr approver) ident BodyEmpty st) = (502, ErrorBody (ApprovalError DeclineNeedsReason))"
  by (auto simp: api_decline_def man_Decline_def statusForApproval_def split: option.splits)

text \<open>The list of pending changes is the same for everyone who is somebody.\<close>

lemma pending_list_ignores_the_caller:
  "api_pendingApprovals m (Inr a) team w = api_pendingApprovals m (Inr b) team w"
  by (simp add: api_pendingApprovals_def)

lemma reconcile_drifts_asks_nothing:
  "list_all (\<lambda>d. \<not> Correctable d) ds \<Longrightarrow>
     \<exists>st'. reconcile_drifts m who team fl ds (o1, es0, st) = (o1, es0 @ ds, st') \<and>
       (\<exists>seg. fst st' = fst st @ seg \<and> list_all (\<lambda>x. case x of Discovered d \<Rightarrow> True | _ \<Rightarrow> False) seg)"
proof (induction ds arbitrary: es0 st)
  case (Cons d ds)
  let ?st = "recordDiscovery m d st"
  have r: "\<exists>seg. fst ?st = fst st @ seg \<and> list_all (\<lambda>x. case x of Discovered d \<Rightarrow> True | _ \<Rightarrow> False) seg"
    by (auto simp: recordDiscovery_def Let_def split: option.splits prod.splits)
  obtain st' seg where ih: "reconcile_drifts m who team fl ds (o1, es0 @ [d], ?st) = (o1, (es0 @ [d]) @ ds, st')"
      "fst st' = fst ?st @ seg" "list_all (\<lambda>x. case x of Discovered d \<Rightarrow> True | _ \<Rightarrow> False) seg"
    using Cons.IH [of "es0 @ [d]" ?st] Cons.prems by auto
  have "reconcile_drifts m who team fl (d # ds) (o1, es0, st) = (o1, es0 @ d # ds, st')"
    using ih(1) Cons.prems by (simp add: Let_def)
  moreover obtain seg' where "fst ?st = fst st @ seg'" "list_all (\<lambda>x. case x of Discovered d \<Rightarrow> True | _ \<Rightarrow> False) seg'"
    using r by blast
  ultimately show ?case using ih(2,3) by (intro exI [of _ st']) auto
qed auto

text \<open>A reconciliation answers every caller with the drift of any team, and asks the door nothing, when nothing in it may be
  corrected: the read the door rules on elsewhere is not ruled on here.\<close>

lemma reconcile_reveals_drift_unasked:
  assumes "service_Manifest recall (snd st) team = Inr manifest"
    and "ResolveWith manifest (wi_floorOf m (snd st)) (wi_placerOf m (snd st)) (placedFor m (snd st) (man_Team manifest)) = Inr desired"
    and "observeAll (snd st) (wi_ports m) (man_Team manifest) = Inr obs"
    and "list_all (\<lambda>d. \<not> Correctable d) (DiffOwned (des_Changes desired) obs (wi_ownership m))"
  shows "\<exists>st' seg. api_reconcile m recall (Inr actor) team st =
           ((200, ReconcileBody no_outcome (DiffOwned (des_Changes desired) obs (wi_ownership m))), st') \<and>
           fst st' = fst st @ seg \<and> list_all (\<lambda>x. case x of Discovered d \<Rightarrow> True | _ \<Rightarrow> False) seg"
proof -
  let ?ds = "DiffOwned (des_Changes desired) obs (wi_ownership m)"
  let ?who = "\<lparr>act_subject = actor, act_requester = []\<rparr>"
  obtain st' seg where r: "reconcile_drifts m ?who (man_Team manifest) (wi_floorOf m (snd st)) ?ds (no_outcome, [], st)
        = (no_outcome, ?ds, st')"
      "fst st' = fst st @ seg" "list_all (\<lambda>x. case x of Discovered d \<Rightarrow> True | _ \<Rightarrow> False) seg"
    using reconcile_drifts_asks_nothing [OF assms(4), of m ?who "man_Team manifest" "wi_floorOf m (snd st)" no_outcome "[]" st]
    by auto
  have "api_reconcile m recall (Inr actor) team st = ((200, ReconcileBody no_outcome ?ds), st')"
    using assms(1-3) r(1)
    by (cases st) (simp add: api_reconcile_def man_Reconcile_def Let_def statusFor_def no_outcome_def)
  with r(2,3) show ?thesis by blast
qed

section \<open>Properties\<close>

lemma intentFor_subject:
  "int_Subject (intentFor m w who team c revision) = act_subject who"
  "param_string (int_Params (intentFor m w who team c revision)) ''scope'' = team"
  by (simp_all add: intentFor_def param_string_def)

text \<open>Nobody acts through the interface as anybody but themselves. Without a caller on the transport a declaration changes
  nothing and is answered 401; with one, whatever it executes was allowed by the door for an intent that names the change,
  the team of the path, and the caller as its subject, whoever the body may name.\<close>

theorem declarations_act_as_the_caller:
  assumes "api_apply m caller team body st = (reply, st')"
  shows "(isl caller \<longrightarrow> st' = st \<and> fst reply = 401) \<and>
         (\<exists>seg. fst st' = fst st @ seg \<and>
            (\<forall>token c e. Executed token c e \<in> set seg \<longrightarrow>
               (\<exists>i w w1. wi_door m i w = (Inr token, w1) \<and> caller = Inr (int_Subject i) \<and> names_change i c \<and>
                         param_string (int_Params i) ''scope'' = team)))"
  using assms
proof (cases rule: api_apply_cases)
  case (nothing e)
  then show ?thesis using assms by (cases caller) (auto simp: api_apply_def)
next
  case (applied actor decoded manifest r)
  let ?P = "\<lambda>token c. \<exists>i w w1. wi_door m i w = (Inr token, w1) \<and> caller = Inr (int_Subject i) \<and> names_change i c \<and>
      param_string (int_Params i) ''scope'' = team"
  have "adds ?P st st'"
  proof (rule man_Apply_adds [OF applied(5)])
    fix c' w token w'
    let ?i = "intentFor m w \<lparr>act_subject = actor, act_requester = []\<rparr> (man_Team manifest) c' (fl_Revision (wi_floorOf m (snd st)))"
    assume d: "wi_door m ?i w = (Inr token, w')"
    show "?P token c'"
      by (rule exI [of _ ?i], rule exI [of _ w], rule exI [of _ w'])
         (use d applied(1,4) in \<open>simp add: intentFor_subject names_change_intentFor\<close>)
  qed
  then show ?thesis using applied(1) by (auto simp: adds_def)
qed

definition api_sample :: "api_reply \<times> (approval_map \<times> MemPort) state" where
  "api_sample = api_apply sample_wiring (Inr (person ''ann'')) ''payments'' (BodyDecoded kafka_manifest) ([], empty_world)"

lemma api_sample_runs: "map di_Name (executed_changes (fst (snd api_sample))) = [''payments.'']"
  by code_simp

theorem declarations_act_as_the_caller_witness:
  "\<exists>c e i token w w1. Executed token c e \<in> set (fst (snd api_sample)) \<and> di_Name c = ''payments.'' \<and>
     wi_door sample_wiring i w = (Inr token, w1) \<and> int_Subject i = person ''ann''"
proof -
  obtain reply st' where a: "api_sample = (reply, st')" by (rule prod.exhaust)
  obtain c where c: "c \<in> set (executed_changes (fst st'))" "di_Name c = ''payments.''"
    using api_sample_runs unfolding a snd_conv by (cases "executed_changes (fst st')") auto
  then obtain token e where e: "Executed token c e \<in> set (fst st')" unfolding executed_changes_iff by blast
  obtain seg where seg: "fst st' = [] @ seg"
    "\<forall>token c e. Executed token c e \<in> set seg \<longrightarrow>
       (\<exists>i w w1. wi_door sample_wiring i w = (Inr token, w1) \<and> Inr (person ''ann'') = (Inr (int_Subject i) :: string + Subject) \<and>
          names_change i c \<and> param_string (int_Params i) ''scope'' = ''payments'')"
    using declarations_act_as_the_caller [OF a [unfolded api_sample_def]] unfolding fst_conv by blast
  then have "\<exists>i w w1. wi_door sample_wiring i w = (Inr token, w1) \<and> Inr (person ''ann'') = (Inr (int_Subject i) :: string + Subject)"
    using e by fastforce
  then obtain i w w1 where "wi_door sample_wiring i w = (Inr token, w1)" "int_Subject i = person ''ann''" by auto
  then show ?thesis unfolding a snd_conv using e c(2) by blast
qed

definition runs_nothing :: "call list \<Rightarrow> bool" where
  "runs_nothing seg \<longleftrightarrow> (\<forall>token c e. Executed token c e \<notin> set seg)"

lemma runs_nothing_append [simp]: "runs_nothing (a @ b) \<longleftrightarrow> runs_nothing a \<and> runs_nothing b"
  by (auto simp: runs_nothing_def)

lemma refused_change_ran_nothing:
  assumes "transformThenApply m who team c fl st = (r, st')" and "rs_Refused r \<noteq> []"
  shows "\<exists>seg. fst st' = fst st @ seg \<and> runs_nothing seg"
  using assms(1)
proof (cases rule: transformThenApply_cases)
  case (1 e)
  then show ?thesis by (auto simp: runs_nothing_def intro: exI [of _ "[]"])
next
  case (2 c')
  obtain tr w tr' w' where st: "st = (tr, w)" "st' = (tr', w')" by (cases st; cases st')
  show ?thesis
    using 2(2) [unfolded st]
  proof (cases rule: applyOne_cases)
    case no_adapter
    then show ?thesis using assms(2) by simp
  next
    case (refused err seg w1)
    have "runs_nothing seg" using refused(2) by (cases rule: change_calls.cases) (use refused(3) in \<open>auto simp: runs_nothing_def\<close>)
    then show ?thesis using refused(1) st by auto
  next
    case (executed token e w1)
    then show ?thesis using assms(2) by simp
  qed
qed

lemma apply_changes_ran_nothing:
  assumes "apply_changes m who team fl cs (o1, st) = (o2, st')" and "ao_Applied o2 = []" "ao_Failed o2 = []"
  shows "ao_Applied o1 = [] \<and> ao_Failed o1 = [] \<and> (\<exists>seg. fst st' = fst st @ seg \<and> runs_nothing seg)"
  using assms
proof (induction cs arbitrary: o1 st)
  case (Cons c cs)
  obtain r st1 where t: "transformThenApply m who team c fl st = (r, st1)" by (rule prod.exhaust)
  then have "apply_changes m who team fl cs (sort_result o1 r, st1) = (o2, st')" using Cons.prems(1) by simp
  from Cons.IH [OF this Cons.prems(2,3)] obtain seg where ih: "ao_Applied (sort_result o1 r) = []"
      "ao_Failed (sort_result o1 r) = []" "fst st' = fst st1 @ seg" "runs_nothing seg" by blast
  then have r: "rs_Refused r \<noteq> []" "ao_Applied o1 = []" "ao_Failed o1 = []"
    by (auto simp: sort_result_def split: if_splits)
  obtain seg1 where "fst st1 = fst st @ seg1" "runs_nothing seg1" using refused_change_ran_nothing [OF t r(1)] by blast
  then show ?case using ih r by auto
qed (auto simp: runs_nothing_def)

lemma man_Apply_Inr:
  assumes "man_Apply m actor manifest st = (Inr o1, st')"
  obtains desired :: Desired and st1 seg1 where "apply_changes m \<lparr>act_subject = actor, act_requester = []\<rparr> (man_Team manifest) (wi_floorOf m (snd st))
      (des_Changes desired) (no_outcome, st1) = (o1, st')" "fst st1 = fst st @ seg1" "runs_nothing seg1"
proof (cases "wi_remember m")
  case None
  then show ?thesis
    using assms that [of _ st "[]"]
    by (auto simp: man_Apply_def Let_def runs_nothing_def split: sum.splits prod.splits)
next
  case (Some remember)
  obtain e w1 where r: "remember manifest (snd st) = (e, w1)" by (rule prod.exhaust)
  then show ?thesis
    using assms Some that [of _ "(fst st @ [Remembered manifest e], w1)" "[Remembered manifest e]"]
    by (auto simp: man_Apply_def Let_def runs_nothing_def split: sum.splits prod.splits option.splits)
qed

text \<open>A status other than 200 means that nothing ran. Whenever a declaration is answered with anything but 200, no adapter
  was called for it. If the outcome was refused as a whole, the status tells the door's decisions apart: 502 when some
  refusal is no decision of the door, else 409 when a change awaits a person, else 403.\<close>

theorem refusal_status_means_nothing_ran:
  assumes "api_apply m caller team body st = (reply, st')" and "fst reply \<noteq> 200"
  shows "(\<exists>seg. fst st' = fst st @ seg \<and> runs_nothing seg) \<and>
         (case snd reply of
            OutcomeBody o1 \<Rightarrow>
              ao_Applied o1 = [] \<and> ao_Failed o1 = [] \<and>
              fst reply = (if list_ex (\<lambda>r. decisionIn (rs_Refused r) = []) (ao_Refused o1) then 502
                           else if list_ex (\<lambda>r. decisionIn (rs_Refused r) = ActionRequireApproval) (ao_Refused o1) then 409
                           else 403)
          | _ \<Rightarrow> True)"
  using assms(1)
proof (cases rule: api_apply_cases)
  case (nothing e)
  then show ?thesis by (auto simp: runs_nothing_def intro: exI [of _ "[]"])
next
  case (applied actor decoded manifest r)
  let ?fl = "wi_floorOf m (snd st)" and ?who = "\<lparr>act_subject = actor, act_requester = []\<rparr>"
  show ?thesis
  proof (cases r)
    case (Inl e)
    have "\<exists>seg. fst st' = fst st @ seg \<and> runs_nothing seg"
      using applied(5) Inl
      by (auto simp: man_Apply_def Let_def runs_nothing_def split: sum.splits prod.splits option.splits intro: exI [of _ "[]"])
    then show ?thesis using applied(6) Inl by simp
  next
    case (Inr o1)
    then have o1: "reply = (statusFor o1, OutcomeBody o1)" using applied(6) by simp
    with assms(2) have e: "ao_Applied o1 = []" "ao_Failed o1 = []" "ao_Refused o1 \<noteq> []"
      by (auto simp: statusFor_def split: if_splits)
    obtain desired :: Desired and st1 seg1 where a: "apply_changes m ?who (man_Team manifest) ?fl (des_Changes desired) (no_outcome, st1) = (o1, st')"
        "fst st1 = fst st @ seg1" "runs_nothing seg1"
      by (rule man_Apply_Inr [OF applied(5) [unfolded Inr]])
    then show ?thesis
      using apply_changes_ran_nothing [OF a(1) e(1,2)] e o1 by (auto simp: statusFor_def refused_status_values)
  qed
qed

definition denying :: "Intent \<Rightarrow> 'w \<Rightarrow> (door_error + ExecutionToken) \<times> 'w" where
  "denying intent w = (Inl (RefusedError \<lparr>ref_Action = ActionDeny, ref_Reason = ''no'', ref_RequiredApprovers = [], ref_PolicyID = []\<rparr>), w)"

definition api_denied :: "api_reply \<times> (approval_map \<times> MemPort) state" where
  "api_denied = api_apply (sample_wiring\<lparr>wi_door := denying\<rparr>) (Inr (person ''ann'')) ''payments'' (BodyDecoded kafka_manifest) ([], empty_world)"

lemma api_denied_status: "fst (fst api_denied) = 403"
  by code_simp

theorem refusal_status_means_nothing_ran_witness:
  "fst (fst api_denied) = 403 \<and> runs_nothing (fst (snd api_denied))"
proof -
  obtain reply st' where a: "api_denied = (reply, st')" by (rule prod.exhaust)
  have s: "fst reply = 403" using api_denied_status unfolding a fst_conv .
  then have "fst reply \<noteq> 200" by simp
  from refusal_status_means_nothing_ran [OF a [unfolded api_denied_def] this] s show ?thesis
    unfolding a fst_conv snd_conv by auto
qed

end
