(* ===== verification/Estate_Serve.thy ===== *)
theory Estate_Serve
  imports Estate_Api
begin

text \<open>
  What the estate service keeps alive while it runs: \<open>config/live.go\<close> (the document in force and its reloads),
  \<open>fleet/capacity.go\<close> (free capacity read from kube-state-metrics), and of \<open>serve/serve.go\<close> and \<open>serve/door.go\<close> the choice
  of a door and a store, the wiring of the manager and of the read side, the reloads on a signal, the endpoints of the
  capacity metrics and the names the environment is read under.

  Reading a file gives its error or its decoded document with the digest of its bytes; a metrics endpoint gives an error,
  or the status and the lines of its body. Every read may give something else than the last, so both are arguments of each
  step. \<open>strconv.ParseFloat\<close> is an argument whose values are rationals: the infinities and NaN are not modelled, nor is the
  rounding of the sums. Flags, the HTTP server, the signals themselves and the logging are not in the model.
\<close>

section \<open>The configuration in force\<close>

record Config =
  cfg_Floor :: Floor
  cfg_Ownership :: Ownership

datatype live_error =
    NoPath
  | UnreadableFile string
  | InvalidDocument config_error
  | BuiltInCode

type_synonym config_document = "string \<times> floorDocument \<times> ownershipDocument"

definition config_Parse :: "config_document \<Rightarrow> live_error + Config" where
  "config_Parse doc =
     (let (r, fd, od) = doc
      in case parse_floor r fd of
           Inl e \<Rightarrow> Inl (InvalidDocument e)
         | Inr fl \<Rightarrow> Inr \<lparr>cfg_Floor = fl, cfg_Ownership = mergeOntoDefault od\<rparr>)"

definition config_Load :: "(string \<Rightarrow> string + config_document) \<Rightarrow> string \<Rightarrow> live_error + Config" where
  "config_Load read path =
     (if path = [] then Inl NoPath
      else (case read path of Inl e \<Rightarrow> Inl (UnreadableFile e) | Inr doc \<Rightarrow> config_Parse doc))"

record Live =
  lv_path :: string
  lv_current :: Config

definition OpenLive :: "(string \<Rightarrow> string + config_document) \<Rightarrow> string \<Rightarrow> live_error + Live" where
  "OpenLive read path =
     (case config_Load read path of Inl e \<Rightarrow> Inl e | Inr loaded \<Rightarrow> Inr \<lparr>lv_path = path, lv_current = loaded\<rparr>)"

definition NewLive :: "Config \<Rightarrow> Live" where
  "NewLive loaded = \<lparr>lv_path = [], lv_current = loaded\<rparr>"

definition live_Current :: "Live \<Rightarrow> Config" where "live_Current l = lv_current l"
definition live_Floor :: "Live \<Rightarrow> Floor" where "live_Floor l = cfg_Floor (lv_current l)"
definition live_Path :: "Live \<Rightarrow> string" where "live_Path l = lv_path l"

text \<open>The configuration in force, the error if there was one, and the holder after it.\<close>

definition live_Reload :: "(string \<Rightarrow> string + config_document) \<Rightarrow> Live \<Rightarrow> Config \<times> live_error option \<times> Live" where
  "live_Reload read l =
     (if lv_path l = [] then (live_Current l, Some BuiltInCode, l)
      else (case config_Load read (lv_path l) of
              Inl e \<Rightarrow> (live_Current l, Some e, l)
            | Inr loaded \<Rightarrow> (loaded, None, l\<lparr>lv_current := loaded\<rparr>)))"

section \<open>Capacity\<close>

definition contains_memory :: "string \<Rightarrow> bool" where
  "contains_memory line = Contains line (''resource='' @ [CHR 0x22] @ ''memory'' @ [CHR 0x22])"

text \<open>What follows the last space of a line.\<close>

definition after_last_space :: "string \<Rightarrow> string option" where
  "after_last_space line =
     (if CHR '' '' \<in> set line then Some (rev (takeWhile (\<lambda>c. c \<noteq> CHR '' '') (rev line))) else None)"

definition memoryValue :: "(string \<Rightarrow> rat option) \<Rightarrow> string \<Rightarrow> rat option" where
  "memoryValue parse_float line =
     (if \<not> contains_memory line then None
      else (case after_last_space line of None \<Rightarrow> None | Some v \<Rightarrow> parse_float (TrimSpace v)))"

text \<open>A scanner's error comes with the lines it gave before it.\<close>

fun readMemory :: "(string \<Rightarrow> rat option) \<Rightarrow> string list \<Rightarrow> rat \<times> rat \<Rightarrow> rat \<times> rat" where
  "readMemory parse_float [] acc = acc"
| "readMemory parse_float (line # lines) (allocatable, requested) =
     (if line = [] \<or> hd line = CHR ''#'' then readMemory parse_float lines (allocatable, requested)
      else (case memoryValue parse_float line of
              None \<Rightarrow> readMemory parse_float lines (allocatable, requested)
            | Some v \<Rightarrow>
                if HasPrefix line ''kube_node_status_allocatable'' then readMemory parse_float lines (allocatable + v, requested)
                else if HasPrefix line ''kube_pod_container_resource_requests''
                then readMemory parse_float lines (allocatable, requested + v)
                else readMemory parse_float lines (allocatable, requested)))"

record ksm_response =
  kr_status :: nat
  kr_lines :: "string list"
  kr_scan_error :: "string option"

definition ksm_free :: "(string \<Rightarrow> rat option) \<Rightarrow> string + ksm_response \<Rightarrow> string + rat" where
  "ksm_free parse_float answer =
     (case answer of
        Inl e \<Rightarrow> Inl e
      | Inr r \<Rightarrow>
          if kr_status r \<noteq> 200 then Inl ''ksm: the endpoint did not return 200''
          else (case kr_scan_error r of
                  Some e \<Rightarrow> Inl e
                | None \<Rightarrow>
                    (let (allocatable, requested) = readMemory parse_float (kr_lines r) (0, 0)
                     in if allocatable \<le> 0 then Inl ''ksm: the endpoint reported no allocatable memory''
                        else (let free = (allocatable - requested) / allocatable in Inr (if free < 0 then 0 else free)))))"

fun ksm_Read ::
  "(string \<Rightarrow> rat option) \<Rightarrow> (string \<Rightarrow> string + ksm_response) \<Rightarrow> string gomap \<Rightarrow> Capacity list \<times> string list" where
  "ksm_Read parse_float fetch [] = ([], [])"
| "ksm_Read parse_float fetch ((cluster, endpoint) # rest) =
     (let (reports, unread) = ksm_Read parse_float fetch rest
      in case ksm_free parse_float (fetch endpoint) of
           Inl e \<Rightarrow> (reports, cluster # unread)
         | Inr free \<Rightarrow> (\<lparr>cap_Cluster = cluster, cap_AllocatablePct = free\<rparr> # reports, unread))"

definition ksm_pair :: "string gomap \<Rightarrow> string \<Rightarrow> string gomap" where
  "ksm_pair endpoints pair0 =
     (let pair = TrimSpace pair0
      in if pair = [] then endpoints
         else (case cut_at CHR ''='' pair of
                 None \<Rightarrow> endpoints
               | Some (cluster, url) \<Rightarrow> if cluster = [] \<or> url = [] then endpoints else gset endpoints cluster url))"

definition parseKSM :: "string \<Rightarrow> string gomap" where
  "parseKSM spec = foldl ksm_pair [] (split_on CHR '','' spec)"

definition placerBuilder ::
  "(string \<Rightarrow> rat option) \<Rightarrow> string \<Rightarrow> (string \<Rightarrow> string + ksm_response) \<Rightarrow> Cluster list \<Rightarrow> Placer \<times> string list" where
  "placerBuilder parse_float ksmSpec fetch clusters =
     (let placer = NewPlacer clusters; endpoints = parseKSM ksmSpec
      in if endpoints = [] then (placer, [])
         else (let (reports, unread) = ksm_Read parse_float fetch endpoints in (WithCapacity placer reports, unread)))"

section \<open>The reloads of a running service\<close>

definition reloadFloor :: "(string \<Rightarrow> string + config_document) \<Rightarrow> Live \<Rightarrow> Live" where
  "reloadFloor read l = snd (snd (live_Reload read l))"

text \<open>\<open>load\<close> is what \<open>fleet.Load\<close> gives for the path now.\<close>

definition reloadFleet ::
  "fleet_error + Cluster list \<Rightarrow> (Cluster list \<Rightarrow> Placer \<times> string list) \<Rightarrow> Placer \<Rightarrow> Placer" where
  "reloadFleet load build livePlacer =
     (case load of
        Inl e \<Rightarrow> livePlacer
      | Inr refreshed \<Rightarrow> fst (build (MarkReachable refreshed (AssumeReachable refreshed))))"

section \<open>Wiring\<close>

type_synonym 'w submitter = "Intent \<Rightarrow> 'w \<Rightarrow> (door_error + ExecutionToken) \<times> 'w"

record 'w Options =
  sop_Ports :: "'w Port list"
  sop_Transform :: "(string \<Rightarrow> DesiredItem \<Rightarrow> 'w \<Rightarrow> string + DesiredItem) option"
  sop_Approvals :: "'w Approvals option"
  sop_Door :: "'w submitter option"

definition doorFor :: "'w Options \<Rightarrow> 'w submitter \<Rightarrow> 'w submitter" where
  "doorFor options dial = (case sop_Door options of Some d \<Rightarrow> d | None \<Rightarrow> dial)"

definition doorLabel :: "'w Options \<Rightarrow> string \<Rightarrow> string" where
  "doorLabel options doorURL = (case sop_Door options of Some d \<Rightarrow> ''in-process'' | None \<Rightarrow> doorURL)"

definition approvalsFor :: "'w Options \<Rightarrow> 'w Approvals \<Rightarrow> 'w Approvals" where
  "approvalsFor options memory = (case sop_Approvals options of Some a \<Rightarrow> a | None \<Rightarrow> memory)"

record 'w managerParts =
  mp_door :: "'w submitter"
  mp_settings :: Config
  mp_store :: "Manifest \<Rightarrow> 'w \<Rightarrow> string option \<times> 'w"
  mp_approvals :: "'w Approvals"
  mp_floor :: "'w \<Rightarrow> Floor"
  mp_placer :: "'w \<Rightarrow> Placer"
  mp_now :: "'w \<Rightarrow> int"
  mp_random :: "'w \<Rightarrow> string"

text \<open>Handing the manager no transform leaves it without one.\<close>

definition managerFor :: "'w Options \<Rightarrow> 'w managerParts \<Rightarrow> 'w wiring" where
  "managerFor options built =
     (let m1 = NewManager (mp_door built) (cfg_Floor (mp_settings built)) (sop_Ports options) (mp_now built) (mp_random built);
          m2 = AwaitApprovalIn (mp_approvals built) (RememberManifestsIn (mp_store built)
                 (GovernFields (cfg_Ownership (mp_settings built)) (FloorFrom (mp_floor built) m1)));
          m3 = PlaceOnLive (\<lambda>w. Some (mp_placer built w)) m2
      in case sop_Transform options of None \<Rightarrow> m3 | Some transform \<Rightarrow> TransformChangesWith transform m3)"

text \<open>The read side \<open>Run\<close> builds: \<open>NewService(...).FloorFrom(...).PlaceOnLive(...)\<close>, as the settings of a wiring.\<close>

definition serviceFor :: "'w Options \<Rightarrow> 'w managerParts \<Rightarrow> 'w wiring" where
  "serviceFor options built =
     PlaceOnLive (\<lambda>w. Some (mp_placer built w)) (FloorFrom (mp_floor built)
       (NewManager (mp_door built) (cfg_Floor (mp_settings built)) (sop_Ports options) (mp_now built) (mp_random built)))"

section \<open>The environment\<close>

abbreviation defaultBrand :: string where "defaultBrand \<equiv> ''MANTLEKEEP''"

definition to_upper :: "char \<Rightarrow> char" where
  "to_upper c = (let n = of_char c :: nat in if 97 \<le> n \<and> n \<le> 122 then char_of (n - 32) else c)"

text \<open>\<open>env\<close> is \<open>os.Getenv\<close>: the empty string for a variable that is not set.\<close>

definition brandPrefix :: "(string \<Rightarrow> string) \<Rightarrow> string" where
  "brandPrefix env =
     (let brand = TrimSpace (env ''MANTLEKEEP_BRAND'') in if brand \<noteq> [] then map to_upper brand else defaultBrand)"

definition envOr :: "(string \<Rightarrow> string) \<Rightarrow> string \<Rightarrow> string \<Rightarrow> string" where
  "envOr env name fallback =
     (let suffix = (case CutPrefix name (defaultBrand @ ''_'') of Some rest \<Rightarrow> rest | None \<Rightarrow> name);
          branded = TrimSpace (env (brandPrefix env @ ''_'' @ suffix));
          plain_value = TrimSpace (env (defaultBrand @ ''_'' @ suffix))
      in if branded \<noteq> [] then branded else if plain_value \<noteq> [] then plain_value else fallback)"

section \<open>What comes into force\<close>

inductive live_history :: "Live \<Rightarrow> bool" where
  opened: "OpenLive read path = Inr l \<Longrightarrow> live_history l"
| reloaded: "live_history l \<Longrightarrow> live_Reload read l = (now, failed, l') \<Longrightarrow> live_history l'"

lemma config_Load_Inr: "config_Load read path = Inr loaded \<Longrightarrow> path \<noteq> [] \<and> (\<exists>doc. config_Parse doc = Inr loaded)"
  by (auto simp: config_Load_def split: if_splits sum.splits)

text \<open>Validate, then swap: what a reload reports is what is in force after it, and a failed one changed nothing.\<close>

lemma live_Reload_swaps:
  assumes "live_Reload read l = (now, failed, l')"
  shows "now = live_Current l'" and "lv_path l' = lv_path l"
    and "(case failed of Some e \<Rightarrow> l' = l | None \<Rightarrow> config_Load read (lv_path l) = Inr (lv_current l'))"
  using assms by (auto simp: live_Reload_def live_Current_def split: if_splits sum.splits)

text \<open>Whatever the file said at each reload, the configuration in force is one \<open>Parse\<close> accepted.\<close>

lemma live_history_parsed: "live_history l \<Longrightarrow> lv_path l \<noteq> [] \<and> (\<exists>doc. config_Parse doc = Inr (lv_current l))"
proof (induction rule: live_history.induct)
  case (opened read path l)
  then show ?case using config_Load_Inr by (fastforce simp: OpenLive_def split: sum.splits)
next
  case (reloaded l read now failed l')
  note swap = live_Reload_swaps [OF reloaded.hyps(2)]
  show ?case
  proof (cases failed)
    case None
    then show ?thesis using swap config_Load_Inr by fastforce
  next
    case (Some e)
    then show ?thesis using swap reloaded.IH by simp
  qed
qed

lemma config_Parse_Inr:
  assumes "config_Parse doc = Inr loaded"
  shows "\<exists>r fd od. parse_floor r fd = Inr (cfg_Floor loaded) \<and> cfg_Ownership loaded = mergeOntoDefault od"
  using assms by (cases doc) (force simp: config_Parse_def split: sum.splits)

lemma live_floor_raises:
  assumes "live_history l"
  shows "raising_floor (live_Floor l)" and "validateFloor (live_Floor l) = None"
    and "Owns DefaultOwnership f \<Longrightarrow> Owns (cfg_Ownership (live_Current l)) f"
proof -
  obtain doc where "config_Parse doc = Inr (lv_current l)" using live_history_parsed [OF assms] by blast
  then obtain r fd od where p: "parse_floor r fd = Inr (live_Floor l)"
    and o: "cfg_Ownership (live_Current l) = mergeOntoDefault od"
    using config_Parse_Inr by (fastforce simp: live_Floor_def live_Current_def)
  show "raising_floor (live_Floor l)" using validated_floor_raises parse_floor_Inr(2,4) [OF p] by blast
  show "validateFloor (live_Floor l) = None" by (rule parse_floor_Inr(1) [OF p])
  show "Owns (cfg_Ownership (live_Current l)) f" if "Owns DefaultOwnership f" using that by (simp add: o Owns_merged)
qed

section \<open>What capacity can and cannot do\<close>

abbreviation reported :: "Capacity list \<Rightarrow> rat gomap" where
  "reported reports \<equiv> map (\<lambda>r. (cap_Cluster r, cap_AllocatablePct r)) reports"

lemma ksm_Read_exact:
  "reported (fst (ksm_Read pf fetch endpoints)) =
     concat (map (\<lambda>(c, e). case ksm_free pf (fetch e) of Inl _ \<Rightarrow> [] | Inr free \<Rightarrow> [(c, free)]) endpoints)"
  "snd (ksm_Read pf fetch endpoints) =
     concat (map (\<lambda>(c, e). case ksm_free pf (fetch e) of Inl _ \<Rightarrow> [c] | Inr free \<Rightarrow> []) endpoints)"
  by (induction pf fetch endpoints rule: ksm_Read.induct) (auto simp: split_beta split: sum.splits)

lemma ksm_Read_unread:
  "c \<in> set (snd (ksm_Read pf fetch endpoints)) \<longleftrightarrow> (\<exists>e err. (c, e) \<in> set endpoints \<and> ksm_free pf (fetch e) = Inl err)"
  by (induction pf fetch endpoints rule: ksm_Read.induct) (auto simp: split_beta split: sum.splits)

lemma keys_concat:
  assumes "\<And>x y. y \<in> set (g x) \<Longrightarrow> fst y = fst x"
  shows "set (keys (concat (map g m))) \<subseteq> set (keys m)"
proof
  fix k assume "k \<in> set (keys (concat (map g m)))"
  then obtain x y where "x \<in> set m" "y \<in> set (g x)" "k = fst y" by (auto simp: keys_def)
  with assms [of y x] show "k \<in> set (keys m)" by (simp add: keys_def)
qed

lemma keys_of_reports:
  assumes "wf_map endpoints"
  shows "wf_map (reported (fst (ksm_Read pf fetch endpoints)))"
    and "map_of (reported (fst (ksm_Read pf fetch endpoints))) c =
      (case map_of endpoints c of None \<Rightarrow> None
       | Some e \<Rightarrow> (case ksm_free pf (fetch e) of Inl _ \<Rightarrow> None | Inr free \<Rightarrow> Some free))"
proof -
  let ?g = "\<lambda>(c, e). case ksm_free pf (fetch e) of Inl _ \<Rightarrow> [] | Inr free \<Rightarrow> [(c, free)]"
  have tag: "y \<in> set (?g x) \<Longrightarrow> fst y = fst x" for x y by (cases x) (auto split: sum.splits)
  have sub: "set (keys (concat (map ?g m))) \<subseteq> set (keys m)" for m by (rule keys_concat) (rule tag)
  show "wf_map (reported (fst (ksm_Read pf fetch endpoints)))"
    using assms unfolding ksm_Read_exact
  proof (induction endpoints)
    case (Cons x m)
    then show ?case using sub [of m] by (cases x) (auto split: sum.splits)
  qed simp
  show "map_of (reported (fst (ksm_Read pf fetch endpoints))) c =
      (case map_of endpoints c of None \<Rightarrow> None
       | Some e \<Rightarrow> (case ksm_free pf (fetch e) of Inl _ \<Rightarrow> None | Inr free \<Rightarrow> Some free))"
    using assms unfolding ksm_Read_exact
  proof (induction endpoints)
    case (Cons x m)
    have "c \<notin> set (keys m) \<Longrightarrow> map_of (concat (map ?g m)) c = None"
      using sub [of m] by (auto simp: map_of_None_keys)
    with Cons show ?case by (cases x) (auto split: sum.splits)
  qed simp
qed

definition named_endpoints :: "string gomap \<Rightarrow> bool" where
  "named_endpoints m \<longleftrightarrow> wf_map m \<and> (\<forall>(c, url)\<in>set m. c \<noteq> [] \<and> url \<noteq> [])"

lemma ksm_pair_named: "named_endpoints m \<Longrightarrow> named_endpoints (ksm_pair m p)"
  by (auto simp: named_endpoints_def ksm_pair_def Let_def split: option.splits dest!: gset_member)

lemma parseKSM_named: "named_endpoints (parseKSM spec)"
proof -
  have step: "named_endpoints (foldl ksm_pair m ps)" if "named_endpoints m" for m ps
    using that by (induction ps arbitrary: m) (simp_all add: ksm_pair_named)
  have "named_endpoints []" by (simp add: named_endpoints_def)
  from step [OF this] show ?thesis by (simp add: parseKSM_def)
qed

lemma readMemory_bounds:
  assumes "\<And>s v. pf s = Some v \<Longrightarrow> 0 \<le> v" and "0 \<le> a" and "0 \<le> q" and "readMemory pf lines (a, q) = (a', q')"
  shows "a \<le> a' \<and> q \<le> q'"
  using assms(2-)
proof (induction lines arbitrary: a q)
  case (Cons line lines)
  show ?case
  proof (cases "line = [] \<or> hd line = CHR ''#''")
    case True
    with Cons show ?thesis by auto
  next
    case False
    show ?thesis
    proof (cases "memoryValue pf line")
      case None
      with False Cons show ?thesis by auto
    next
      case (Some v)
      then have v: "0 \<le> v" using assms(1) by (auto simp: memoryValue_def split: if_splits option.splits)
      consider "readMemory pf lines (a + v, q) = (a', q')" | "readMemory pf lines (a, q + v) = (a', q')"
        | "readMemory pf lines (a, q) = (a', q')"
        using Cons.prems(3) False Some by (auto split: if_splits)
      then show ?thesis
      proof cases
        case 1
        then show ?thesis using Cons.IH [of "a + v" q] Cons.prems(1,2) v by simp
      next
        case 2
        then show ?thesis using Cons.IH [of a "q + v"] Cons.prems(1,2) v by simp
      next
        case 3
        then show ?thesis using Cons.IH [of a q] Cons.prems(1,2) by simp
      qed
    qed
  qed
qed simp

lemma ksm_free_share:
  assumes "\<And>s v. pf s = Some v \<Longrightarrow> 0 \<le> v" and "ksm_free pf answer = Inr free"
  shows "0 \<le> free \<and> free \<le> 1"
proof -
  obtain r where answer: "answer = Inr r" using assms(2) by (auto simp: ksm_free_def split: sum.splits)
  obtain a q where m: "readMemory pf (kr_lines r) (0, 0) = (a, q)" by fastforce
  have "0 < a" and free: "free = (if (a - q) / a < 0 then 0 else (a - q) / a)"
    using assms(2) by (auto simp: ksm_free_def answer m Let_def not_le split: if_splits option.splits)
  have "0 \<le> q" using readMemory_bounds [OF assms(1) _ _ m] by auto
  then have "(a - q) / a \<le> 1" using \<open>0 < a\<close> by (simp add: field_simps)
  then show ?thesis using free by auto
qed

text \<open>The read side is built without the configuration's ownership, so it reports drift under the built-in one.\<close>

lemma read_side_ignores_configured_ownership:
  "wi_ownership (serviceFor options built) = DefaultOwnership"
  "wi_ownership (managerFor options built) = cfg_Ownership (mp_settings built)"
  by (auto simp: serviceFor_def managerFor_def Let_def NewManager_def PlaceOnLive_def FloorFrom_def GovernFields_def
      RememberManifestsIn_def AwaitApprovalIn_def TransformChangesWith_def split: option.splits)

lemma options_reach_the_manager:
  "wi_door (managerFor options built) = mp_door built"
  "wi_floorOf (managerFor options built) = mp_floor built"
  "wi_placerOf (managerFor options built) w = Some (mp_placer built w)"
  "wi_approvals (managerFor options built) = Some (mp_approvals built)"
  "wi_transform (managerFor options built) = sop_Transform options"
  "wi_remember (managerFor options built) = Some (mp_store built)"
  by (auto simp: managerFor_def Let_def NewManager_def PlaceOnLive_def FloorFrom_def GovernFields_def
      RememberManifestsIn_def AwaitApprovalIn_def TransformChangesWith_def split: option.splits)

lemma WithCapacity_lookup:
  assumes "wf_map (reported reports)"
  shows "map_of (pr_capacity (WithCapacity (NewPlacer cs) reports)) c = map_of (reported reports) c"
proof -
  have "foldl (\<lambda>m r. gset m (cap_Cluster r) (cap_AllocatablePct r)) m rs = foldl (\<lambda>m (k, v). gset m k v) m (reported rs)"
    for m rs by (induction rs arbitrary: m) simp_all
  then show ?thesis
    using foldl_gset_lookup [OF assms, of "[]" c] by (simp add: WithCapacity_def NewPlacer_def split: option.splits)
qed

lemma placerBuilder_capacity:
  "map_of (pr_capacity (fst (placerBuilder pf spec fetch cs))) c =
     (case map_of (parseKSM spec) c of None \<Rightarrow> None
      | Some e \<Rightarrow> (case ksm_free pf (fetch e) of Inl _ \<Rightarrow> None | Inr free \<Rightarrow> Some free))"
proof (cases "parseKSM spec = []")
  case True
  then show ?thesis by (simp add: placerBuilder_def Let_def NewPlacer_def)
next
  case False
  have "wf_map (parseKSM spec)" using parseKSM_named [of spec] by (simp add: named_endpoints_def)
  from keys_of_reports [OF this, of pf fetch] WithCapacity_lookup False show ?thesis
    by (simp add: placerBuilder_def Let_def split_beta)
qed

section \<open>Properties\<close>

text \<open>C15: a running service never governs below what the code ships. Over any boot and any sequence of reloads, whatever
  the file said at each of them, the floor in force waits for the platform in production, gates every tier and every
  environment the code knows at least as strictly as built in, asks for no fewer signatures, and corrects every field
  the code corrects; a reload reports what is in force after it, and one that failed changed nothing.\<close>

theorem live_config_never_loosens:
  assumes "live_history l"
  shows "GateForApp (live_Floor l) TierProd name = GatePlatform \<and>
    (\<forall>t g. map_of DefaultGates t = Some g \<longrightarrow> gate_Strength g \<le> gate_Strength (GateForApp (live_Floor l) t name)) \<and>
    (\<forall>env b g. map_of DefaultEnvTiers env = Some b \<and> map_of DefaultGates b = Some g \<longrightarrow>
       (\<exists>m. MinTierFor (live_Floor l) env = Some m \<and>
          gate_Strength g \<le> gate_Strength (GateForApp (live_Floor l) (AtLeast declared m) name))) \<and>
    (\<forall>gate n. map_of DefaultSignatures gate = Some n \<longrightarrow> n \<le> SignaturesFor (live_Floor l) gate) \<and>
    (\<forall>f. Owns DefaultOwnership f \<longrightarrow> Owns (cfg_Ownership (live_Current l)) f) \<and>
    (\<forall>read now failed l'. live_Reload read l = (now, failed, l') \<longrightarrow> now = live_Current l' \<and> (failed \<noteq> None \<longrightarrow> l' = l))"
proof -
  note rf = live_floor_raises(1) [OF assms]
  have env: "\<exists>m. MinTierFor (live_Floor l) env = Some m \<and>
      gate_Strength g \<le> gate_Strength (GateForApp (live_Floor l) (AtLeast declared m) name)"
    if "map_of DefaultEnvTiers env = Some b" "map_of DefaultGates b = Some g" for env b g
    using raising_floor.env_raised [OF rf that(1)] raising_floor.environment_gate [OF rf that] by blast
  have gate: "gate_Strength g \<le> gate_Strength (GateForApp (live_Floor l) t name)" if "map_of DefaultGates t = Some g" for t g
    using raising_floor.gate_raised [OF rf that] GateForApp_raises [of "live_Floor l" t name] by linarith
  have swap: "now = live_Current l' \<and> (failed \<noteq> None \<longrightarrow> l' = l)" if "live_Reload read l = (now, failed, l')"
    for read now failed l'
    using live_Reload_swaps [OF that] by auto
  show ?thesis
  proof (intro conjI allI impI)
    show "GateForApp (live_Floor l) TierProd name = GatePlatform" by (rule raising_floor.prod_is_platform [OF rf])
    show "\<exists>m. MinTierFor (live_Floor l) env = Some m \<and>
        gate_Strength g \<le> gate_Strength (GateForApp (live_Floor l) (AtLeast declared m) name)"
      if "map_of DefaultEnvTiers env = Some b \<and> map_of DefaultGates b = Some g" for env b g
      using env that by simp
    show "n \<le> SignaturesFor (live_Floor l) g" if "map_of DefaultSignatures g = Some n" for g n
      using SignaturesFor_raises that by simp
    show "Owns (cfg_Ownership (live_Current l)) f" if "Owns DefaultOwnership f" for f
      by (rule live_floor_raises(3) [OF assms that])
  qed (use gate swap in blast)+
qed

definition sample_file :: "string \<Rightarrow> string + config_document" where
  "sample_file path = Inr (''r1'', sample_document, \<lparr>od_Governed = [''replicas''], od_Watched = []\<rparr>)"

theorem live_config_never_loosens_witness:
  "\<exists>l. OpenLive sample_file ''/etc/estate.json'' = Inr l \<and>
     (let l' = reloadFloor (\<lambda>path. Inl ''file does not exist'') l
      in l' = l \<and> GateForApp (live_Floor l') TierProd ''payments/ledger'' = GatePlatform)"
proof -
  obtain f where f: "parse_floor ''r1'' sample_document = Inr f" using sample_document_accepted by blast
  let ?c = "\<lparr>cfg_Floor = f, cfg_Ownership = mergeOntoDefault \<lparr>od_Governed = [''replicas''], od_Watched = []\<rparr>\<rparr>"
  let ?l = "\<lparr>lv_path = ''/etc/estate.json'', lv_current = ?c\<rparr>"
  have o: "OpenLive sample_file ''/etc/estate.json'' = Inr ?l"
    by (simp add: OpenLive_def config_Load_def config_Parse_def sample_file_def f)
  have r: "live_Reload (\<lambda>path. Inl ''file does not exist'') ?l = (?c, Some (UnreadableFile ''file does not exist''), ?l)"
    by (simp add: live_Reload_def config_Load_def live_Current_def)
  have "live_history ?l" by (rule live_history.opened [OF o])
  from live_config_never_loosens [OF this, of "''payments/ledger''" TierDev] o r show ?thesis
    by (simp add: reloadFloor_def)
qed

text \<open>Reported capacity ranks clusters and does nothing else. The placer the service builds admits exactly the
  clusters it would admit with no report, and knows a free share for a cluster exactly when the flag names an endpoint
  for it whose answer could be read: a silent endpoint leaves its cluster unknown, never full; the clusters told as
  unread are exactly the silent ones. When the samples are not negative, every share is between 0 and 1.\<close>

theorem capacity_only_ranks:
  assumes "\<And>s v. pf s = Some v \<Longrightarrow> 0 \<le> v" and "placerBuilder pf spec fetch cs = (p, unread)"
  shows "(\<forall>claim. legalClusters p claim = legalClusters (NewPlacer cs) claim) \<and>
    (\<forall>c free. map_of (pr_capacity p) c = Some free \<longleftrightarrow>
       (\<exists>e. map_of (parseKSM spec) c = Some e \<and> ksm_free pf (fetch e) = Inr free)) \<and>
    (\<forall>c. c \<in> set unread \<longleftrightarrow> (\<exists>e err. map_of (parseKSM spec) c = Some e \<and> ksm_free pf (fetch e) = Inl err)) \<and>
    (\<forall>c free. map_of (pr_capacity p) c = Some free \<longrightarrow> 0 \<le> free \<and> free \<le> 1)"
proof -
  have wf: "wf_map (parseKSM spec)" using parseKSM_named [of spec] by (simp add: named_endpoints_def)
  have known: "map_of (pr_capacity p) c = Some free \<longleftrightarrow>
      (\<exists>e. map_of (parseKSM spec) c = Some e \<and> ksm_free pf (fetch e) = Inr free)" for c free
    using placerBuilder_capacity [of pf spec fetch cs c] assms(2) by (auto split: option.splits sum.splits)
  have legal: "legalClusters p claim = legalClusters (NewPlacer cs) claim" for claim
    using assms(2) legalClusters_WithCapacity by (auto simp: placerBuilder_def Let_def split_beta split: if_splits)
  have "unread = snd (ksm_Read pf fetch (parseKSM spec))"
    using assms(2) by (auto simp: placerBuilder_def Let_def split_beta split: if_splits)
  then have silent: "c \<in> set unread \<longleftrightarrow> (\<exists>e err. (c, e) \<in> set (parseKSM spec) \<and> ksm_free pf (fetch e) = Inl err)" for c
    using ksm_Read_unread by blast
  have unread_iff: "c \<in> set unread \<longleftrightarrow> (\<exists>e err. map_of (parseKSM spec) c = Some e \<and> ksm_free pf (fetch e) = Inl err)" for c
    unfolding silent using member_map_of [OF wf, of c] map_of_member [of "parseKSM spec" c] by blast
  have share: "0 \<le> free \<and> free \<le> 1" if k: "map_of (pr_capacity p) c = Some free" for c free
  proof -
    obtain e where "ksm_free pf (fetch e) = Inr free" using known [of c free] k by blast
    then show ?thesis using ksm_free_share [of pf "fetch e" free] assms(1) by simp
  qed
  show ?thesis
  proof (intro conjI)
    show "\<forall>c free. map_of (pr_capacity p) c = Some free \<longrightarrow> 0 \<le> free \<and> free \<le> 1" using share by blast
  qed (simp_all only: legal known unread_iff simp_thms)
qed

definition sample_metrics :: "string \<Rightarrow> string + ksm_response" where
  "sample_metrics url =
     (if url = ''http://us'' then Inl ''connection refused''
      else Inr \<lparr>kr_status = 200,
        kr_lines = [''kube_node_status_allocatable{resource='' @ [CHR 0x22] @ ''memory'' @ [CHR 0x22] @ ''} 4'',
                    ''kube_pod_container_resource_requests{resource='' @ [CHR 0x22] @ ''memory'' @ [CHR 0x22] @ ''} 1''],
        kr_scan_error = None\<rparr>)"

definition sample_float :: "string \<Rightarrow> rat option" where
  "sample_float s = (if s = ''4'' then Some 4 else if s = ''1'' then Some 1 else None)"

lemma sample_endpoints: "parseKSM ''eu=http://eu, us=http://us,bad'' = [(''eu'', ''http://eu''), (''us'', ''http://us'')]"
  by code_simp

lemma sample_free: "ksm_free sample_float (sample_metrics ''http://eu'') = Inr (3 / 4)"
  by code_simp

theorem capacity_only_ranks_witness:
  "let (p, unread) = placerBuilder sample_float ''eu=http://eu, us=http://us,bad'' sample_metrics []
   in map_of (pr_capacity p) ''eu'' = Some (3 / 4) \<and> map_of (pr_capacity p) ''us'' = None \<and> ''us'' \<in> set unread \<and>
     (3 / 4 :: rat) \<le> 1"
proof -
  let ?spec = "''eu=http://eu, us=http://us,bad''"
  obtain p unread where b: "placerBuilder sample_float ?spec sample_metrics [] = (p, unread)" by fastforce
  have nonneg: "0 \<le> v" if "sample_float s = Some v" for s v using that by (auto simp: sample_float_def split: if_splits)
  have us: "ksm_free sample_float (sample_metrics ''http://us'') = Inl ''connection refused''"
    by (simp add: ksm_free_def sample_metrics_def)
  note all = capacity_only_ranks [OF nonneg b, unfolded sample_endpoints]
  have eu: "map_of (pr_capacity p) ''eu'' = Some (3 / 4)" using all sample_free by simp
  moreover have "map_of (pr_capacity p) ''us'' = None"
  proof (cases "map_of (pr_capacity p) ''us''")
    case (Some free)
    then show ?thesis using all us by simp
  qed simp
  moreover have "''us'' \<in> set unread" using all us by simp
  ultimately show ?thesis using b by simp
qed

end
