(* ===== verification/Discoveries.thy ===== *)
theory Discoveries
  imports Estate_Door
begin

text \<open>
  \<open>mantlekeep-estate/discovery.go\<close>: what a reconciliation found, written onto the hash chain beside the decisions. The
  recorder is stated over any logger and tied to the chain of \<open>Audit_Chain\<close>; with the manager wired to the door in its own
  process both write to one chain, and a reconciliation leaves one record per drift on it, in the order of the report.

  \<open>Timestamp.UTC()\<close> changes how an instant prints, not which it is; the chain prints every stamp in UTC.
\<close>

section \<open>The recorder\<close>

definition kind_text :: "DriftKind \<Rightarrow> string" where
  "kind_text k = (case k of DriftAbsent \<Rightarrow> ''absent'' | DriftChanged \<Rightarrow> ''changed'' | DriftUnexpected \<Rightarrow> ''unexpected'')"

record 's ChainRecorder =
  cr_Audit :: "('s \<Rightarrow> AuditRecord \<Rightarrow> (string + AuditRecord) \<times> 's) option"
  cr_Subject :: string

definition discovery_record :: "string \<Rightarrow> Discovery \<Rightarrow> AuditRecord" where
  "discovery_record subject d =
     \<lparr>ar_Timestamp = dsc_Observed d, ar_IntentID = ''DISCOVERY-'' @ slot_Key (dsc_Slot d),
      ar_SubjectID = (if subject = [] then ''reconciler'' else subject), ar_Action = ''footprint.discovered'',
      ar_Decision = kind_text (dsc_Kind d), ar_PolicyID = ''reconciler'', ar_IsAI = False, ar_Via = [], ar_RunID = [],
      ar_ParentID = [], ar_StepID = [], ar_PrevHash = [], ar_Hash = []\<rparr>"

definition chain_Record :: "'s ChainRecorder \<Rightarrow> Discovery \<Rightarrow> 's \<Rightarrow> string option \<times> 's" where
  "chain_Record c d s =
     (case cr_Audit c of
        None \<Rightarrow> (Some (''discovery: no audit logger configured '' @ em_dash @ '' an unrecorded discovery is '' @
                   ''the same as never having looked''), s)
      | Some logger \<Rightarrow>
          (case logger s (discovery_record (cr_Subject c) d) of (Inl e, s') \<Rightarrow> (Some e, s') | (Inr r, s') \<Rightarrow> (None, s')))"

text \<open>Over any logger: a recorded discovery is one more record of the trail, a failed one leaves it as it was.\<close>

context audit_logger
begin

lemma chain_Record_appends:
  assumes "intact s" and "chain_Record \<lparr>cr_Audit = Some log, cr_Subject = subject\<rparr> d s = (e, s')"
  shows "intact s' \<and> (case e of
      Some err \<Rightarrow> s' = s
    | None \<Rightarrow> \<exists>r. trail s' = trail s @ [r] \<and> same_content r (discovery_record subject d))"
proof -
  obtain x s1 where l: "log s (discovery_record subject d) = (x, s1)" by fastforce
  show ?thesis
  proof (cases x)
    case (Inl err)
    with log_error [of s _ err s1] l assms show ?thesis by (auto simp: chain_Record_def)
  next
    case (Inr r)
    with log_ok [OF assms(1)] l assms(2) show ?thesis by (auto simp: chain_Record_def)
  qed
qed

end

text \<open>What such a record says of a drift is its slot and its kind. A topic, a database or a robot has no slot.\<close>

lemma slotless_discoveries_are_alike:
  assumes "dsc_Slot d = zero_Slot" and "dsc_Slot d' = zero_Slot" and "dsc_Kind d = dsc_Kind d'" and "dsc_Observed d = dsc_Observed d'"
  shows "discovery_record subject d = discovery_record subject d' \<and> ar_IntentID (discovery_record subject d) = ''DISCOVERY-//''"
  using assms by (simp add: discovery_record_def slot_Key_def zero_Slot_def)

section \<open>Beside the decisions\<close>

definition chain_of :: "'y estate_world \<Rightarrow> Bolt" where
  "chain_of w = snd (fst (snd w))"

definition inprocess_recorder ::
  "(string \<Rightarrow> string) \<Rightarrow> (int \<Rightarrow> string) \<Rightarrow> 'y surroundings \<Rightarrow> string \<Rightarrow> Discovery \<Rightarrow> 'y estate_world \<Rightarrow> string option \<times> 'y estate_world" where
  "inprocess_recorder sha fmt_time su subject d w =
     (let (s, (p, b), y) = w;
          (e, b') = chain_Record \<lparr>cr_Audit = Some (Log sha fmt_time (su_db_err su y)), cr_Subject = subject\<rparr> d b
      in (e, (s, (p, b'), y)))"

definition recording_manager ::
  "(string \<Rightarrow> string) \<Rightarrow> (int \<Rightarrow> string) \<Rightarrow> Gateway \<Rightarrow> 'f engine_env \<Rightarrow> 'y surroundings \<Rightarrow> string \<Rightarrow> 'y estate_world wiring \<Rightarrow> 'y estate_world wiring" where
  "recording_manager sha fmt_time g env su subject m =
     RecordDiscoveriesTo (inprocess_recorder sha fmt_time su subject) (m\<lparr>wi_door := inprocess_door sha fmt_time g env su\<rparr>)"

text \<open>The chain stays intact and grows by records of which the discoveries are \<open>ds\<close>.\<close>

definition is_discovery :: "AuditRecord \<Rightarrow> bool" where
  "is_discovery r \<longleftrightarrow> ar_Action r = ''footprint.discovered''"

definition found :: "AuditRecord \<Rightarrow> string \<times> string" where
  "found r = (ar_IntentID r, ar_Decision r)"

definition drift_slot :: "Drift \<Rightarrow> Slot" where
  "drift_slot d = (case dr_Desired d of Some c \<Rightarrow> di_Slot c
                   | None \<Rightarrow> (case dr_Observed d of Some g \<Rightarrow> ob_Slot g | None \<Rightarrow> zero_Slot))"

definition told :: "Drift \<Rightarrow> string \<times> string" where
  "told d = (''DISCOVERY-'' @ slot_Key (drift_slot d), kind_text (dr_Kind d))"

definition grows :: "(string \<Rightarrow> string) \<Rightarrow> (int \<Rightarrow> string) \<Rightarrow> (string \<times> string) list \<Rightarrow> Bolt \<Rightarrow> Bolt \<Rightarrow> bool" where
  "grows sha fmt_time ds b b' \<longleftrightarrow> (intact_bolt sha fmt_time b \<longrightarrow>
     intact_bolt sha fmt_time b' \<and> (\<exists>new. bolt_trail b' = bolt_trail b @ new \<and> map found (filter is_discovery new) = ds))"

lemma grows_refl [simp]: "grows sha fmt_time [] b b"
  by (simp add: grows_def)

lemma grows_trans: "grows sha fmt_time ds b b' \<Longrightarrow> grows sha fmt_time es b' b'' \<Longrightarrow> grows sha fmt_time (ds @ es) b b''"
  unfolding grows_def by (metis append.assoc filter_append map_append)

lemma grows_D: "grows sha fmt_time [] b b' \<Longrightarrow> grows sha fmt_time es b' b'' \<Longrightarrow> grows sha fmt_time es b b''"
  using grows_trans [of sha fmt_time "[]"] by simp

lemma door_grows:
  assumes "inprocess_door sha fmt_time g env su intent w = (answer, w')" and "int_Action intent = ''estate.apply''"
  shows "grows sha fmt_time [] (chain_of w) (chain_of w')"
proof -
  obtain s p b y where w: "w = (s, (p, b), y)" by (metis surj_pair)
  show ?thesis
  proof (rule inprocess_answer [OF assms(1) [unfolded w]])
    fix p' b'
    assume sub: "Submit (gateway_Resolve g) (door_policy env) (Log sha fmt_time (su_db_err su y)) (su_now su y) (su_now su y)
        (su_random su y) (p, b) intent = (answer, p', b')" and w': "w' = (s, (p', b'), y)"
    show ?thesis
    proof (cases "intact_bolt sha fmt_time b")
      case True
      show ?thesis
      proof (rule shipped.outcomes [OF True sub])
        fix subject d r
        assume "bolt_trail b' = bolt_trail b @ [r]" "records r (su_now su y) intent subject d" "intact_bolt sha fmt_time b'"
        then show ?thesis using records_fields assms(2) by (fastforce simp: grows_def chain_of_def w w' is_discovery_def)
      qed (simp_all add: chain_of_def w w')
    next
      case False
      then show ?thesis by (simp add: grows_def chain_of_def w w')
    qed
  qed
qed

lemma same_content_discovery:
  "same_content r (discovery_record subject d) \<Longrightarrow>
     is_discovery r \<and> found r = (''DISCOVERY-'' @ slot_Key (dsc_Slot d), kind_text (dsc_Kind d))"
  by (cases r) (simp add: same_content_def discovery_record_def is_discovery_def found_def)

lemma recorder_grows:
  assumes "\<forall>y. su_db_err su y = None" and "inprocess_recorder sha fmt_time su subject d w = (e, w')"
  shows "grows sha fmt_time [(''DISCOVERY-'' @ slot_Key (dsc_Slot d), kind_text (dsc_Kind d))] (chain_of w) (chain_of w')"
proof -
  obtain s p b y where w: "w = (s, (p, b), y)" by (metis surj_pair)
  obtain b' where r: "chain_Record \<lparr>cr_Audit = Some (Log sha fmt_time None), cr_Subject = subject\<rparr> d b = (e, b')"
    and w': "w' = (s, (p, b'), y)"
    using assms by (auto simp: inprocess_recorder_def w split: prod.splits)
  have "e = None" using r by (auto simp: chain_Record_def Log_def Let_def)
  then have "intact_bolt sha fmt_time b' \<and>
      (\<exists>x. bolt_trail b' = bolt_trail b @ [x] \<and> same_content x (discovery_record subject d))" if "intact_bolt sha fmt_time b"
    using bolt.chain_Record_appends [OF that r] by simp
  then show ?thesis using same_content_discovery by (fastforce simp: grows_def chain_of_def w w')
qed

text \<open>The adapters of the estate execute; none of them writes the chain.\<close>

definition leave_chain :: "'y estate_world Port gomap \<Rightarrow> bool" where
  "leave_chain ports \<longleftrightarrow>
     (\<forall>(asset, port)\<in>set ports. \<forall>token c w e w'. po_Apply port token c w = (e, w') \<longrightarrow> chain_of w' = chain_of w)"

lemma applyOne_grows:
  assumes "leave_chain (wi_ports m)"
    and "applyOne (recording_manager sha fmt_time g env su subject m) who team c fl st = (r, st')"
  shows "grows sha fmt_time [] (chain_of (snd st)) (chain_of (snd st'))"
proof -
  let ?m = "recording_manager sha fmt_time g env su subject m"
  let ?i = "intentFor ?m (snd st) who team c (fl_Revision fl)"
  obtain tr w where st: "st = (tr, w)" by (rule prod.exhaust)
  obtain answer w1 where d: "inprocess_door sha fmt_time g env su ?i w = (answer, w1)" by (rule prod.exhaust)
  have door: "grows sha fmt_time [] (chain_of w) (chain_of w1)" by (rule door_grows [OF d]) (simp add: intentFor_def)
  have m: "wi_ports ?m = wi_ports m" "wi_door ?m = inprocess_door sha fmt_time g env su"
    by (simp_all add: recording_manager_def RecordDiscoveriesTo_def)
  have silent: "find_Refused err = None" if "answer = Inl err" for err
  proof -
    obtain s p b y where w: "w = (s, (p, b), y)" by (metis surj_pair)
    show ?thesis by (rule inprocess_answer [OF d [unfolded w that]]) (rule Submit_refuses(1))
  qed
  show ?thesis
  proof (cases "map_of (wi_ports m) (di_Asset c)")
    case None
    with assms(2) st m show ?thesis by (simp add: applyOne_def)
  next
    case (Some port)
    show ?thesis
    proof (cases answer)
      case (Inl err)
      with assms(2) st m d Some silent show ?thesis by (auto simp: applyOne_def Let_def door split: option.splits)
    next
      case (Inr token)
      obtain e w2 where a: "po_Apply port token c w1 = (e, w2)" by (rule prod.exhaust)
      have "chain_of w2 = chain_of w1" using assms(1) a map_of_member [OF Some] unfolding leave_chain_def by blast
      moreover have "snd st' = w2" using assms(2) st m d Some Inr a by (auto simp: applyOne_def Let_def)
      ultimately show ?thesis using door st by simp
    qed
  qed
qed

lemma transformThenApply_grows:
  assumes "leave_chain (wi_ports m)"
    and "transformThenApply (recording_manager sha fmt_time g env su subject m) who team c fl st = (r, st')"
  shows "grows sha fmt_time [] (chain_of (snd st)) (chain_of (snd st'))"
  using assms(2) by (cases rule: transformThenApply_cases) (simp, rule applyOne_grows [OF assms(1)])

lemma recordDiscovery_grows:
  assumes "\<forall>y. su_db_err su y = None"
  shows "grows sha fmt_time [told d] (chain_of (snd st))
     (chain_of (snd (recordDiscovery (recording_manager sha fmt_time g env su subject m) d st)))"
proof -
  let ?m = "recording_manager sha fmt_time g env su subject m"
  obtain tr w where st: "st = (tr, w)" by (rule prod.exhaust)
  obtain e w' where r: "inprocess_recorder sha fmt_time su subject (discovery_for ?m w d) w = (e, w')" by (rule prod.exhaust)
  have "snd (recordDiscovery ?m d st) = w'"
    using r by (simp add: recordDiscovery_def st Let_def recording_manager_def RecordDiscoveriesTo_def)
  moreover have "told d = (''DISCOVERY-'' @ slot_Key (dsc_Slot (discovery_for ?m w d)), kind_text (dsc_Kind (discovery_for ?m w d)))"
    by (simp add: told_def discovery_for_def drift_slot_def)
  ultimately show ?thesis using recorder_grows [OF assms r] st by simp
qed

lemma reconcile_drifts_grows:
  assumes "leave_chain (wi_ports m)" and "\<forall>y. su_db_err su y = None"
    and "reconcile_drifts (recording_manager sha fmt_time g env su subject m) who team fl ds (o1, kept, st) = (o2, kept', st')"
  shows "grows sha fmt_time (map told ds) (chain_of (snd st)) (chain_of (snd st'))"
  using assms(3)
proof (induction ds arbitrary: o1 kept st)
  case (Cons d ds)
  let ?m = "recording_manager sha fmt_time g env su subject m"
  let ?st = "recordDiscovery ?m d st"
  have head: "grows sha fmt_time [told d] (chain_of (snd st)) (chain_of (snd ?st))" by (rule recordDiscovery_grows [OF assms(2)])
  have tail: "grows sha fmt_time (map told ds) (chain_of (snd ?st)) (chain_of (snd st'))"
  proof (cases "\<exists>c. Correctable d \<and> dr_Desired d = Some c")
    case True
    then obtain c where c: "Correctable d" "dr_Desired d = Some c" by blast
    obtain r st1 where t: "transformThenApply ?m who team c fl ?st = (r, st1)" by (rule prod.exhaust)
    then have "reconcile_drifts ?m who team fl ds (sort_result o1 r, kept, st1) = (o2, kept', st')" using Cons.prems c by simp
    from grows_D [OF transformThenApply_grows [OF assms(1) t] Cons.IH [OF this]] show ?thesis .
  next
    case False
    then have "\<not> Correctable d" by (auto simp: Correctable_def split: option.splits)
    then have "reconcile_drifts ?m who team fl ds (o1, kept @ [d], ?st) = (o2, kept', st')" using Cons.prems by simp
    then show ?thesis by (rule Cons.IH)
  qed
  from grows_trans [OF head tail] show ?case by simp
qed simp

section \<open>Properties\<close>

text \<open>What nobody approved is on the same chain as what somebody did. When the manager's recorder writes to the door's
  chain and the database takes every record, a reconciliation leaves the chain intact and adds, among the door's
  decisions on its corrections, exactly one discovery for every drift of the report, in the order of the report, each
  naming the slot and the kind of the drift, whether it was then corrected, refused or left to a person.\<close>

theorem every_drift_is_on_the_chain:
  assumes "intact_bolt sha fmt_time (chain_of w)" and "leave_chain (wi_ports m)" and "\<forall>y. su_db_err su y = None"
    and "m' = recording_manager sha fmt_time g env su subject m"
    and "man_Reconcile m' actor manifest (tr, w) = (Inr (o1, escalated), st')"
  shows "\<exists>desired obs new.
    ResolveWith manifest (wi_floorOf m' w) (wi_placerOf m' w) (placedFor m' w (man_Team manifest)) = Inr desired \<and>
    observeAll w (wi_ports m') (man_Team manifest) = Inr obs \<and>
    Verify sha fmt_time (chain_of (snd st')) \<and> bolt_trail (chain_of (snd st')) = bolt_trail (chain_of w) @ new \<and>
    map found (filter is_discovery new) = map told (DiffOwned (des_Changes desired) obs (wi_ownership m'))"
proof -
  obtain desired obs where r: "ResolveWith manifest (wi_floorOf m' w) (wi_placerOf m' w) (placedFor m' w (man_Team manifest)) = Inr desired"
      "observeAll w (wi_ports m') (man_Team manifest) = Inr obs"
    and d: "reconcile_drifts m' \<lparr>act_subject = actor, act_requester = []\<rparr> (man_Team manifest) (wi_floorOf m' w)
        (DiffOwned (des_Changes desired) obs (wi_ownership m')) (no_outcome, [], (tr, w)) = (o1, escalated, st')"
    using assms(5) by (auto simp: man_Reconcile_def Let_def split: sum.splits prod.splits)
  from reconcile_drifts_grows [OF assms(2,3) d [unfolded assms(4)]] assms(1) r show ?thesis
    unfolding grows_def by (auto simp: intact_bolt_def assms(4))
qed

definition idle_port :: "string \<Rightarrow> 'w Port" where
  "idle_port asset = \<lparr>po_Asset = asset, po_Observe = (\<lambda>w team. Inr []), po_Apply = (\<lambda>token c w. (None, w))\<rparr>"

definition recorded_wiring :: "unit estate_world wiring" where
  "recorded_wiring = NewManager (\<lambda>intent w. (Inl (PlainError ''unused''), w)) DefaultFloor [idle_port ''kafka''] (\<lambda>w. 50) (\<lambda>w. ''r'')"

definition still :: "unit surroundings" where
  "still = \<lparr>su_db_err = (\<lambda>y. None), su_now = (\<lambda>y. 7), su_random = (\<lambda>y. ''r'')\<rparr>"

definition recorded_pass :: "(manager_error + ApplyOutcome \<times> Drift list) \<times> unit estate_world state" where
  "recorded_pass =
     man_Reconcile (recording_manager (\<lambda>s. s) (\<lambda>t. []) sample_gateway estate_env still [] recorded_wiring)
       (person ''ann'') kafka_manifest ([], ([], (NewFailsafe NewRBAC, Open), ()))"

lemma sample_pass_returns: "case fst recorded_pass of Inl _ \<Rightarrow> False | Inr _ \<Rightarrow> True"
  by code_simp

lemma sample_pass_drifts:
  "case ResolveWith kafka_manifest DefaultFloor None [] of
     Inl _ \<Rightarrow> False
   | Inr d \<Rightarrow> map told (DiffOwned (des_Changes d) [] DefaultOwnership) \<noteq> [] \<and>
              hd (map told (DiffOwned (des_Changes d) [] DefaultOwnership)) = (''DISCOVERY-//'', ''absent'')"
  by code_simp

theorem every_drift_is_on_the_chain_witness:
  "\<exists>r\<in>set (bolt_trail (chain_of (snd (snd recorded_pass)))). found r = (''DISCOVERY-//'', ''absent'')"
proof -
  let ?m = "recording_manager (\<lambda>s. s) (\<lambda>t. []) sample_gateway estate_env still [] recorded_wiring"
  let ?w = "([], (NewFailsafe NewRBAC, Open), ()) :: unit estate_world"
  obtain o1 kept where r: "fst recorded_pass = Inr (o1, kept)"
    using sample_pass_returns by (auto split: sum.splits)
  then have a: "man_Reconcile ?m (person ''ann'') kafka_manifest ([], ?w) = (Inr (o1, kept), snd recorded_pass)"
    unfolding recorded_pass_def by (metis prod.collapse)
  have i: "intact_bolt (\<lambda>s. s) (\<lambda>t. []) (chain_of ?w)" by (simp add: chain_of_def intact_Open)
  have l: "leave_chain (wi_ports recorded_wiring)"
    by (simp add: leave_chain_def recorded_wiring_def NewManager_def idle_port_def)
  have e: "\<forall>y. su_db_err still y = None" by (simp add: still_def)
  have w: "wi_floorOf ?m ?w = DefaultFloor" "wi_placerOf ?m ?w = None" "wi_ownership ?m = DefaultOwnership"
    "placedFor ?m ?w team = []" "observeAll ?w (wi_ports ?m) team = Inr []" for team
    by (simp_all add: recording_manager_def RecordDiscoveriesTo_def recorded_wiring_def NewManager_def idle_port_def
        placedFor_def placed_items_def observeAll_def)
  from every_drift_is_on_the_chain [OF i l e refl a, unfolded w] obtain desired new where
    d: "ResolveWith kafka_manifest DefaultFloor None [] = Inr desired"
    and n: "bolt_trail (chain_of (snd (snd recorded_pass))) = bolt_trail (chain_of ?w) @ new"
      "map found (filter is_discovery new) = map told (DiffOwned (des_Changes desired) [] DefaultOwnership)"
    by auto
  have "(''DISCOVERY-//'', ''absent'') \<in> set (map found (filter is_discovery new))"
    using sample_pass_drifts unfolding n(2) d sum.case by (metis hd_in_set)
  then show ?thesis unfolding n(1) by auto
qed

end
