(* ===== verification/Policy_Store.thy ===== *)
theory Policy_Store
  imports Door Go_Fmt "HOL-Library.Countable"
begin

text \<open>
  Policy kept in a database: the revision of a pair of documents (\<open>grants/loader.go\<close>) and the module
  \<open>mantlekeep-policy-postgres\<close>, which loads the documents, applies one approved change to them and keeps the history
  (\<open>change.go\<close>, \<open>document.go\<close>, \<open>loader.go\<close>, \<open>policy.go\<close>, \<open>writer.go\<close>), over the seam \<open>Store\<close> (\<open>store.go\<close>), with the
  statements of \<open>sqlstore\<close> on its two tables.

  \<open>encoding/json\<close> and Postgres' \<open>jsonb\<close> are the parameter record \<open>codec\<close>; what the code relies on is \<open>codec_ok\<close>: a document
  reads back as what was written, up to the order of its map, equal documents are written alike, and \<open>jsonb\<close> keeps what a
  document says (strings are valid UTF-8 without NUL). A nil map and an empty one are one value of the model, which is what
  \<open>decode\<close> makes of them. A transaction under the lock on the one row is one step; each step consumes the next entry of a
  list of faults, which says where the database fails it. A commit that fails may have taken effect.
\<close>

section \<open>Revisions\<close>

definition revision_input :: "string list \<Rightarrow> string" where
  "revision_input documents = concat (map (\<lambda>d. dec_nat (length d) @ '':'' @ d) documents)"

definition RevisionOf :: "(string \<Rightarrow> string) \<Rightarrow> string list \<Rightarrow> string" where
  "RevisionOf sha documents = take 16 (sha (revision_input documents))"

record codec =
  cd_marshal_grants :: "Grants \<Rightarrow> string"
  cd_marshal_floors :: "Floors \<Rightarrow> string"
  cd_unmarshal_grants :: "string \<Rightarrow> string + Grants"
  cd_unmarshal_floors :: "string \<Rightarrow> string + Floors"
  cd_jsonb :: "string \<Rightarrow> string"

definition RevisionOfDocuments :: "(string \<Rightarrow> string) \<Rightarrow> codec \<Rightarrow> Grants \<Rightarrow> Floors \<Rightarrow> string" where
  "RevisionOfDocuments sha cd held floors = RevisionOf sha [cd_marshal_grants cd held, cd_marshal_floors cd floors]"

text \<open>\<open>EnvSource.Load\<close>; \<open>documents\<close> and \<open>floor_documents\<close> are what the environment's files gave.\<close>

definition EnvSource_Load ::
  "(string \<Rightarrow> string) \<Rightarrow> codec \<Rightarrow> grants_error + Grants \<Rightarrow> grants_error + Floors \<Rightarrow> grants_error + Grants \<times> Floors \<times> string" where
  "EnvSource_Load sha cd documents floor_documents =
     (case documents of
        Inl e \<Rightarrow> Inl e
      | Inr held \<Rightarrow>
          (case floor_documents of
             Inl e \<Rightarrow> Inl e
           | Inr floors \<Rightarrow> Inr (held, floors, RevisionOfDocuments sha cd held floors)))"

section \<open>One change to a document\<close>

definition grantAction :: "Grants \<Rightarrow> string \<Rightarrow> string \<Rightarrow> Grants" where
  "grantAction document role action =
     (let actions = entries (gr_RoleActions document) role
      in if action \<in> set actions then document
         else document\<lparr>gr_RoleActions := gset (gr_RoleActions document) role (actions @ [action])\<rparr>)"

definition revokeAction :: "Grants \<Rightarrow> string \<Rightarrow> string \<Rightarrow> Grants" where
  "revokeAction document role action =
     (case map_of (gr_RoleActions document) role of
        None \<Rightarrow> document
      | Some actions \<Rightarrow>
          (let remaining = filter (\<lambda>candidate. candidate \<noteq> action) actions
           in if length remaining = length actions then document
              else if remaining = [] then document\<lparr>gr_RoleActions := gdel (gr_RoleActions document) role\<rparr>
              else document\<lparr>gr_RoleActions := gset (gr_RoleActions document) role remaining\<rparr>))"

definition applyChange :: "Grants \<Rightarrow> Change \<Rightarrow> Grants" where
  "applyChange document change =
     (if chg_Grant change then grantAction document (chg_Role change) (chg_Action change)
      else revokeAction document (chg_Role change) (chg_Action change))"

section \<open>The seam onto the rows\<close>

record Snapshot =
  ps_GrantsDoc :: string
  ps_FloorsDoc :: string
  ps_StoredRevision :: string

record Entry =
  en_Snapshot :: Snapshot
  en_Change :: Change
  en_ParentRevision :: string

datatype store_error =
    NoPolicy
  | RevisionConflict string
  | CorruptDocument string
  | MissingDocument
  | MissingReason
  | DatabaseError string
  | CommitError string
  | ReadFailed store_error
  | GaveUp store_error

text \<open>\<open>errors.Is\<close> with \<open>ErrRevisionConflict\<close>, through the wrapping.\<close>

fun is_conflict :: "store_error \<Rightarrow> bool" where
  "is_conflict (RevisionConflict m) = True"
| "is_conflict (ReadFailed e) = is_conflict e"
| "is_conflict (GaveUp e) = is_conflict e"
| "is_conflict e = False"

text \<open>The function handed to \<open>Update\<close> assigns the revision it rendered to a variable of its caller: the variable is
  threaded through the update.\<close>

type_synonym rendering = "Snapshot \<Rightarrow> string \<Rightarrow> (store_error + Entry) \<times> string"

record 's PolicyStore =
  st_Head :: "'s \<Rightarrow> store_error + Snapshot"
  st_Update :: "rendering \<Rightarrow> string \<Rightarrow> 's \<Rightarrow> store_error option \<times> string \<times> 's"

section \<open>Decoding and encoding\<close>

definition decode :: "codec \<Rightarrow> Snapshot \<Rightarrow> store_error + Grants \<times> Floors" where
  "decode cd s =
     (case cd_unmarshal_grants cd (ps_GrantsDoc s) of
        Inl e \<Rightarrow> Inl (CorruptDocument (''grants: '' @ e))
      | Inr held \<Rightarrow>
          (case cd_unmarshal_floors cd (ps_FloorsDoc s) of
             Inl e \<Rightarrow> Inl (CorruptDocument (''floors: '' @ e))
           | Inr floors \<Rightarrow> Inr (held, floors)))"

definition encode :: "(string \<Rightarrow> string) \<Rightarrow> codec \<Rightarrow> Grants \<times> Floors \<Rightarrow> Snapshot \<times> string" where
  "encode sha cd decoded =
     (let grantsDoc = cd_marshal_grants cd (fst decoded); floorsDoc = cd_marshal_floors cd (snd decoded);
          revision = RevisionOf sha [grantsDoc, floorsDoc]
      in (\<lparr>ps_GrantsDoc = grantsDoc, ps_FloorsDoc = floorsDoc, ps_StoredRevision = revision\<rparr>, revision))"

definition Encode ::
  "(string \<Rightarrow> string) \<Rightarrow> codec \<Rightarrow> Grants option \<Rightarrow> Floors option \<Rightarrow> store_error + Snapshot \<times> string" where
  "Encode sha cd policyGrants policyFloors =
     (case (policyGrants, policyFloors) of
        (Some g, Some f) \<Rightarrow>
          (case decode cd (fst (encode sha cd (g, f))) of
             Inl e \<Rightarrow> Inl e
           | Inr normalised \<Rightarrow> Inr (encode sha cd normalised))
      | _ \<Rightarrow> Inl MissingDocument)"

section \<open>Loading and writing\<close>

definition policy_Load ::
  "(string \<Rightarrow> string) \<Rightarrow> codec \<Rightarrow> 's PolicyStore \<Rightarrow> 's \<Rightarrow> store_error + Grants \<times> Floors \<times> string" where
  "policy_Load sha cd store s =
     (case st_Head store s of
        Inl e \<Rightarrow> Inl (ReadFailed e)
      | Inr snapshot \<Rightarrow>
          (case decode cd snapshot of
             Inl e \<Rightarrow> Inl e
           | Inr decoded \<Rightarrow> Inr (fst decoded, snd decoded, snd (encode sha cd decoded))))"

definition render_change :: "(string \<Rightarrow> string) \<Rightarrow> codec \<Rightarrow> Change \<Rightarrow> rendering" where
  "render_change sha cd change head applied =
     (case decode cd head of
        Inl e \<Rightarrow> (Inl e, applied)
      | Inr decoded \<Rightarrow>
          (let (next_snapshot, revision) = encode sha cd (applyChange (fst decoded) change, snd decoded)
           in (Inr \<lparr>en_Snapshot = next_snapshot, en_Change = change, en_ParentRevision = ps_StoredRevision head\<rparr>, revision)))"

definition writeOnce ::
  "(string \<Rightarrow> string) \<Rightarrow> codec \<Rightarrow> 's PolicyStore \<Rightarrow> Change \<Rightarrow> 's \<Rightarrow> (store_error + string) \<times> 's" where
  "writeOnce sha cd store change s =
     (case st_Update store (render_change sha cd change) [] s of
        (Some e, _, s') \<Rightarrow> (Inl e, s')
      | (None, applied, s') \<Rightarrow> (Inr applied, s'))"

definition maxWriteAttempts :: nat where "maxWriteAttempts = 5"

text \<open>\<open>n\<close> attempts are left; \<open>lastConflict\<close> is nil until an attempt conflicted, which the first one does before the loop
  can end.\<close>

fun write_attempts ::
  "(string \<Rightarrow> string) \<Rightarrow> codec \<Rightarrow> 's PolicyStore \<Rightarrow> Change \<Rightarrow> nat \<Rightarrow> store_error \<Rightarrow> 's \<Rightarrow> (store_error + string) \<times> 's" where
  "write_attempts sha cd store change 0 lastConflict s = (Inl (GaveUp lastConflict), s)"
| "write_attempts sha cd store change (Suc n) lastConflict s =
     (case writeOnce sha cd store change s of
        (Inr revision, s') \<Rightarrow> (Inr revision, s')
      | (Inl e, s') \<Rightarrow> if is_conflict e then write_attempts sha cd store change n e s' else (Inl e, s'))"

definition policy_Write ::
  "(string \<Rightarrow> string) \<Rightarrow> codec \<Rightarrow> 's PolicyStore \<Rightarrow> Change \<Rightarrow> 's \<Rightarrow> (store_error + string) \<times> 's" where
  "policy_Write sha cd store change s = write_attempts sha cd store change maxWriteAttempts (RevisionConflict []) s"

section \<open>The two tables\<close>

record HistoryRow =
  hi_Parent :: string
  hi_Snapshot :: Snapshot
  hi_Change :: Change

text \<open>Where the database fails one call; a failed commit says whether it took effect.\<close>

record faults =
  fl_begin :: "string option"
  fl_read :: "string option"
  fl_write :: "string option"
  fl_count :: "string option"
  fl_record :: "string option"
  fl_commit :: "(string \<times> bool) option"

definition no_faults :: faults where
  "no_faults = \<lparr>fl_begin = None, fl_read = None, fl_write = None, fl_count = None, fl_record = None, fl_commit = None\<rparr>"

record PolicyDb =
  db_head :: "Snapshot option"
  db_history :: "HistoryRow list"
  db_faults :: "faults list"
  db_unreadable :: "string option" \<comment> \<open>what reading the head outside a transaction fails with\<close>

definition next_faults :: "PolicyDb \<Rightarrow> faults \<times> PolicyDb" where
  "next_faults d = (case db_faults d of [] \<Rightarrow> (no_faults, d) | f # fs \<Rightarrow> (f, d\<lparr>db_faults := fs\<rparr>))"

definition jsonb_row :: "codec \<Rightarrow> Snapshot \<Rightarrow> Snapshot" where
  "jsonb_row cd s = s\<lparr>ps_GrantsDoc := cd_jsonb cd (ps_GrantsDoc s), ps_FloorsDoc := cd_jsonb cd (ps_FloorsDoc s)\<rparr>"

definition sql_Head :: "PolicyDb \<Rightarrow> store_error + Snapshot" where
  "sql_Head d =
     (case db_unreadable d of
        Some e \<Rightarrow> Inl (DatabaseError e)
      | None \<Rightarrow> (case db_head d of None \<Rightarrow> Inl NoPolicy | Some s \<Rightarrow> Inr s))"

text \<open>The update statement: what it changes, and how many rows that were.\<close>

definition update_head :: "Snapshot \<Rightarrow> string \<Rightarrow> Snapshot option \<Rightarrow> Snapshot option \<times> nat" where
  "update_head new revision head =
     (case head of
        Some h \<Rightarrow> if ps_StoredRevision h = revision then (Some new, 1) else (head, 0)
      | None \<Rightarrow> (None, 0))"

definition commit :: "faults \<Rightarrow> PolicyDb \<Rightarrow> PolicyDb \<Rightarrow> store_error option \<times> PolicyDb" where
  "commit f before after =
     (case fl_commit f of
        None \<Rightarrow> (None, after)
      | Some (e, landed) \<Rightarrow> (Some (CommitError e), if landed then after else before))"

definition sql_Update :: "codec \<Rightarrow> rendering \<Rightarrow> string \<Rightarrow> PolicyDb \<Rightarrow> store_error option \<times> string \<times> PolicyDb" where
  "sql_Update cd apply_fn applied d0 =
     (let (f, d) = next_faults d0
      in case fl_begin f of Some e \<Rightarrow> (Some (DatabaseError e), applied, d) | None \<Rightarrow>
         case fl_read f of Some e \<Rightarrow> (Some (DatabaseError e), applied, d) | None \<Rightarrow>
         case db_head d of None \<Rightarrow> (Some NoPolicy, applied, d) | Some head \<Rightarrow>
         (case apply_fn head applied of
            (Inl e, applied') \<Rightarrow> (Some e, applied', d)
          | (Inr entry, applied') \<Rightarrow>
              (let new = jsonb_row cd (en_Snapshot entry);
                   (head', changed) = update_head new (ps_StoredRevision head) (db_head d)
               in case fl_write f of Some e \<Rightarrow> (Some (DatabaseError e), applied', d) | None \<Rightarrow>
                  case fl_count f of Some e \<Rightarrow> (Some (DatabaseError e), applied', d) | None \<Rightarrow>
                  if changed \<noteq> 1 then (Some (RevisionConflict (ps_StoredRevision head)), applied', d)
                  else case fl_record f of Some e \<Rightarrow> (Some (DatabaseError e), applied', d) | None \<Rightarrow>
                  (let row = \<lparr>hi_Parent = en_ParentRevision entry, hi_Snapshot = new, hi_Change = en_Change entry\<rparr>;
                       (e, d') = commit f d (d\<lparr>db_head := head', db_history := db_history d @ [row]\<rparr>)
                   in (e, applied', d')))))"

definition sqlstore :: "codec \<Rightarrow> PolicyDb PolicyStore" where
  "sqlstore cd = \<lparr>st_Head = sql_Head, st_Update = sql_Update cd\<rparr>"

text \<open>\<open>Seed\<close>: true when it created the policy.\<close>

definition Seed :: "codec \<Rightarrow> Snapshot \<Rightarrow> string \<Rightarrow> PolicyDb \<Rightarrow> (store_error + bool) \<times> PolicyDb" where
  "Seed cd snapshot reason d0 =
     (if ps_GrantsDoc snapshot = [] \<or> ps_FloorsDoc snapshot = [] then (Inl MissingDocument, d0)
      else if TrimSpace reason = [] then (Inl MissingReason, d0)
      else
        (let (f, d) = next_faults d0
         in case fl_begin f of Some e \<Rightarrow> (Inl (DatabaseError e), d) | None \<Rightarrow>
            case fl_write f of Some e \<Rightarrow> (Inl (DatabaseError e), d) | None \<Rightarrow>
            case fl_count f of Some e \<Rightarrow> (Inl (DatabaseError e), d) | None \<Rightarrow>
            if db_head d \<noteq> None then (Inr False, d)
            else case fl_record f of Some e \<Rightarrow> (Inl (DatabaseError e), d) | None \<Rightarrow>
            (let row = \<lparr>hi_Parent = [], hi_Snapshot = jsonb_row cd snapshot,
                        hi_Change = \<lparr>chg_Role = [], chg_Action = [], chg_Grant = False, chg_Reason = reason\<rparr>\<rparr>;
                 (e, d') = commit f d (d\<lparr>db_head := Some (jsonb_row cd snapshot), db_history := db_history d @ [row]\<rparr>)
             in case e of Some err \<Rightarrow> (Inl err, d') | None \<Rightarrow> (Inr True, d'))))"

section \<open>A revision says which documents\<close>

lemma dec_nat_no_colon: "CHR '':'' \<notin> set (dec_nat n)"
proof (induction n rule: dec_nat.induct)
  case (1 n)
  have d: "digit k \<noteq> CHR '':''" if "k < 10" for k
    using nth_mem [of k "''0123456789''"] that by (auto simp: digit_def)
  have "CHR '':'' \<noteq> digit n" if "n < 10" using d [OF that] by simp
  moreover have "CHR '':'' \<noteq> digit (n mod 10)" using d [of "n mod 10"] by simp
  ultimately show ?case using 1 by (subst dec_nat.simps) auto
qed

lemma revision_input_inject: "revision_input ds = revision_input es \<Longrightarrow> ds = es"
proof (induction ds arbitrary: es)
  case Nil
  then show ?case by (cases es) (auto simp: revision_input_def)
next
  case (Cons d ds)
  then obtain e es' where es: "es = e # es'" by (cases es) (auto simp: revision_input_def)
  have "dec_nat (length d) @ CHR '':'' # (d @ revision_input ds) = dec_nat (length e) @ CHR '':'' # (e @ revision_input es')"
    using Cons.prems es by (simp add: revision_input_def)
  then have "dec_nat (length d) = dec_nat (length e) \<and> d @ revision_input ds = e @ revision_input es'"
    using append_sep_inject [OF dec_nat_no_colon dec_nat_no_colon] by blast
  then have "d = e" "revision_input ds = revision_input es'" by auto
  with Cons.IH es show ?case by simp
qed

definition same_grants :: "Grants \<Rightarrow> Grants \<Rightarrow> bool" where
  "same_grants g h \<longleftrightarrow> map_of (gr_RoleActions g) = map_of (gr_RoleActions h) \<and> gr_ApprovalActions g = gr_ApprovalActions h"

definition same_floors :: "Floors \<Rightarrow> Floors \<Rightarrow> bool" where
  "same_floors f h \<longleftrightarrow> map_of f = map_of h"

definition codec_ok :: "codec \<Rightarrow> bool" where
  "codec_ok cd \<longleftrightarrow>
     (\<forall>g. \<exists>h. cd_unmarshal_grants cd (cd_marshal_grants cd g) = Inr h \<and> same_grants g h) \<and>
     (\<forall>f. \<exists>h. cd_unmarshal_floors cd (cd_marshal_floors cd f) = Inr h \<and> same_floors f h) \<and>
     (\<forall>g h. same_grants g h \<longrightarrow> cd_marshal_grants cd g = cd_marshal_grants cd h) \<and>
     (\<forall>f h. same_floors f h \<longrightarrow> cd_marshal_floors cd f = cd_marshal_floors cd h) \<and>
     (\<forall>d g. cd_unmarshal_grants cd d = Inr g \<longrightarrow> (\<exists>h. cd_unmarshal_grants cd (cd_jsonb cd d) = Inr h \<and> same_grants g h)) \<and>
     (\<forall>d f. cd_unmarshal_floors cd d = Inr f \<longrightarrow> (\<exists>h. cd_unmarshal_floors cd (cd_jsonb cd d) = Inr h \<and> same_floors f h))"

lemma same_refl [simp]: "same_grants g g" "same_floors f f"
  by (simp_all add: same_grants_def same_floors_def)

lemma same_trans:
  "same_grants a b \<Longrightarrow> same_grants b c \<Longrightarrow> same_grants a c" "same_floors f g \<Longrightarrow> same_floors g h \<Longrightarrow> same_floors f h"
  by (simp_all add: same_grants_def same_floors_def)

lemma same_marshal:
  assumes "codec_ok cd" and "same_grants g h" and "same_floors e f"
  shows "encode sha cd (g, e) = encode sha cd (h, f)" and "RevisionOfDocuments sha cd g e = RevisionOfDocuments sha cd h f"
proof -
  have "cd_marshal_grants cd g = cd_marshal_grants cd h" "cd_marshal_floors cd e = cd_marshal_floors cd f"
    using assms by (auto simp: codec_ok_def)
  then show "encode sha cd (g, e) = encode sha cd (h, f)" "RevisionOfDocuments sha cd g e = RevisionOfDocuments sha cd h f"
    by (simp_all add: encode_def RevisionOfDocuments_def)
qed

lemma encode_revision:
  "snd (encode sha cd (g, f)) = RevisionOfDocuments sha cd g f"
  "ps_StoredRevision (fst (encode sha cd (g, f))) = RevisionOfDocuments sha cd g f"
  by (simp_all add: encode_def RevisionOfDocuments_def Let_def)

text \<open>What is written reads back as the same documents, before and after the database normalised it.\<close>

lemma decode_encode:
  assumes "codec_ok cd"
  shows "\<exists>h k. decode cd (fst (encode sha cd (g, f))) = Inr (h, k) \<and> same_grants g h \<and> same_floors f k"
proof -
  obtain h k where "cd_unmarshal_grants cd (cd_marshal_grants cd g) = Inr h" "same_grants g h"
    "cd_unmarshal_floors cd (cd_marshal_floors cd f) = Inr k" "same_floors f k"
    using assms unfolding codec_ok_def by blast
  then show ?thesis by (simp add: decode_def encode_def Let_def)
qed

lemma decode_jsonb:
  assumes "codec_ok cd" and "decode cd s = Inr (g, f)"
  shows "\<exists>h k. decode cd (jsonb_row cd s) = Inr (h, k) \<and> same_grants g h \<and> same_floors f k"
proof -
  have "cd_unmarshal_grants cd (ps_GrantsDoc s) = Inr g" "cd_unmarshal_floors cd (ps_FloorsDoc s) = Inr f"
    using assms(2) by (auto simp: decode_def split: sum.splits)
  then obtain h k where "cd_unmarshal_grants cd (cd_jsonb cd (ps_GrantsDoc s)) = Inr h" "same_grants g h"
    "cd_unmarshal_floors cd (cd_jsonb cd (ps_FloorsDoc s)) = Inr k" "same_floors f k"
    using assms(1) unfolding codec_ok_def by blast
  then show ?thesis by (simp add: decode_def jsonb_row_def)
qed

lemma stored_encode:
  assumes "codec_ok cd"
  shows "\<exists>h k. decode cd (jsonb_row cd (fst (encode sha cd (g, f)))) = Inr (h, k) \<and> same_grants g h \<and> same_floors f k"
  using decode_encode [OF assms, of sha g f] decode_jsonb [OF assms] same_trans by blast

section \<open>One change\<close>

definition held :: "Grants \<Rightarrow> string \<Rightarrow> string set" where
  "held g role = set (entries (gr_RoleActions g) role)"

lemma held_same: "same_grants g h \<Longrightarrow> held g = held h"
  by (rule ext) (simp add: held_def same_grants_def entries_def)

text \<open>Editing the document is the change to who may do what that the approver saw.\<close>

lemma applyChange_refines: "held (applyChange g c) = apply_change (held g) c"
proof (rule ext)
  fix role
  show "held (applyChange g c) role = apply_change (held g) c role"
  proof (cases "chg_Grant c")
    case True
    then show ?thesis by (auto simp: applyChange_def grantAction_def apply_change_def held_def Let_def)
  next
    case False
    show ?thesis
    proof (cases "map_of (gr_RoleActions g) (chg_Role c)")
      case None
      then show ?thesis using False by (auto simp: applyChange_def revokeAction_def apply_change_def held_def entries_def)
    next
      case (Some actions)
      let ?r = "filter (\<lambda>a. a \<noteq> chg_Action c) actions"
      have full: "chg_Action c \<notin> set actions" if "length ?r = length actions"
      proof
        assume "chg_Action c \<in> set actions"
        then have "length ?r < length actions" by (rule length_filter_less) simp
        with that show False by simp
      qed
      have e: "entries (gr_RoleActions g) (chg_Role c) = actions" using Some by (simp add: entries_def)
      have del: "entries (gdel m k) k' = (if k' = k then [] else entries m k')" for m :: "string list gomap" and k k'
        by (simp add: entries_def)
      have r: "applyChange g c = (if length ?r = length actions then g
          else if ?r = [] then g\<lparr>gr_RoleActions := gdel (gr_RoleActions g) (chg_Role c)\<rparr>
          else g\<lparr>gr_RoleActions := gset (gr_RoleActions g) (chg_Role c) ?r\<rparr>)"
        using False Some by (simp add: applyChange_def revokeAction_def Let_def)
      have a: "apply_change (held g) c role = (if role = chg_Role c then set ?r else held g role)"
        using False by (auto simp: apply_change_def held_def e)
      consider "length ?r = length actions" | "length ?r \<noteq> length actions" "?r = []" | "length ?r \<noteq> length actions" "?r \<noteq> []"
        by blast
      then show ?thesis
      proof cases
        case 1
        then have "set ?r = set actions" using full by (auto simp: filter_id_conv)
        with 1 show ?thesis by (simp only: r a) (simp add: held_def e)
      next
        case 2
        then show ?thesis by (simp only: r a) (simp add: held_def del)
      next
        case 3
        then show ?thesis by (simp only: r a) (simp add: held_def)
      qed
    qed
  qed
qed

lemma applyChange_approvals: "gr_ApprovalActions (applyChange g c) = gr_ApprovalActions g"
  by (simp add: applyChange_def grantAction_def revokeAction_def Let_def split: option.splits)

text \<open>A grant and its revoke give the document back, byte for byte, when the action was not held and the role had no empty
  entry.\<close>

lemma grant_revoke_document:
  assumes "action \<notin> held g role" and "map_of (gr_RoleActions g) role \<noteq> Some []"
  shows "same_grants (revokeAction (grantAction g role action) role action) g"
proof -
  let ?m = "gr_RoleActions g" and ?as = "entries (gr_RoleActions g) role"
  have n: "action \<notin> set ?as" using assms(1) by (simp add: held_def)
  have f: "filter (\<lambda>c. c \<noteq> action) ?as = ?as" using n by (auto simp: filter_id_conv)
  have g: "grantAction g role action = g\<lparr>gr_RoleActions := gset ?m role (?as @ [action])\<rparr>"
    using n by (simp add: grantAction_def Let_def)
  show ?thesis
  proof (cases "?as = []")
    case True
    then have "map_of ?m role = None" using assms(2) by (auto simp: entries_def split: option.splits)
    then show ?thesis using True by (auto simp: g revokeAction_def same_grants_def)
  next
    case False
    then have "map_of ?m role = Some ?as" by (auto simp: entries_def split: option.splits)
    then show ?thesis using False f by (auto simp: g revokeAction_def same_grants_def Let_def)
  qed
qed

section \<open>The interface of a policy store\<close>

text \<open>
  What \<open>Store\<close> in \<open>store.go\<close> promises a writer: an update that reports success stored exactly the entry the rendering made of
  the head, with its history row; one that reports a conflict stored nothing; any other failed update stored nothing, or the
  whole entry. A store keeps a snapshot in its own rendering of the documents, under the same revision.
\<close>

definition row_of :: "(Snapshot \<Rightarrow> Snapshot) \<Rightarrow> Entry \<Rightarrow> HistoryRow" where
  "row_of kept e = \<lparr>hi_Parent = en_ParentRevision e, hi_Snapshot = kept (en_Snapshot e), hi_Change = en_Change e\<rparr>"

text \<open>The rows of a change: how the policy and the history of \<open>s'\<close> come from those of \<open>s\<close>.\<close>

fun linked :: "string \<Rightarrow> HistoryRow list \<Rightarrow> bool" where
  "linked parent [] = True"
| "linked parent (r # rs) = (hi_Parent r = parent \<and> linked (ps_StoredRevision (hi_Snapshot r)) rs)"

definition explained :: "Snapshot option \<times> HistoryRow list \<Rightarrow> bool" where
  "explained c \<longleftrightarrow> linked [] (snd c) \<and>
     (case fst c of None \<Rightarrow> snd c = [] | Some h \<Rightarrow> snd c \<noteq> [] \<and> hi_Snapshot (last (snd c)) = h)"

lemma linked_append:
  "linked p (rs @ [r]) \<longleftrightarrow> linked p rs \<and>
     hi_Parent r = (if rs = [] then p else ps_StoredRevision (hi_Snapshot (last rs)))"
  by (induction rs arbitrary: p) auto

locale policy_store =
  fixes store :: "'s PolicyStore"
    and contents :: "'s \<Rightarrow> Snapshot option \<times> HistoryRow list"
    and kept :: "Snapshot \<Rightarrow> Snapshot"
  assumes update_done: "st_Update store f x s = (None, y, s') \<Longrightarrow>
      \<exists>h e. fst (contents s) = Some h \<and> f h x = (Inr e, y) \<and>
        contents s' = (Some (kept (en_Snapshot e)), snd (contents s) @ [row_of kept e])"
    and update_conflict: "st_Update store f x s = (Some err, y, s') \<Longrightarrow> is_conflict err \<Longrightarrow> contents s' = contents s"
    and update_failed: "st_Update store f x s = (Some err, y, s') \<Longrightarrow>
      contents s' = contents s \<or>
      (\<exists>h e. fst (contents s) = Some h \<and> f h x = (Inr e, y) \<and>
        contents s' = (Some (kept (en_Snapshot e)), snd (contents s) @ [row_of kept e]))"
    and head_reads: "st_Head store s = Inr h \<Longrightarrow> fst (contents s) = Some h"
    and kept_revision: "ps_StoredRevision (kept h) = ps_StoredRevision h"
begin

text \<open>One change of the policy: the head decoded, changed, rendered and kept, and the row that says so.\<close>

definition changed_by :: "(string \<Rightarrow> string) \<Rightarrow> codec \<Rightarrow> Change \<Rightarrow> string \<Rightarrow> 's \<Rightarrow> 's \<Rightarrow> bool" where
  "changed_by sha cd change revision s s' \<longleftrightarrow>
     (\<exists>h g f. fst (contents s) = Some h \<and> decode cd h = Inr (g, f) \<and>
        revision = RevisionOfDocuments sha cd (applyChange g change) f \<and>
        contents s' = (Some (kept (fst (encode sha cd (applyChange g change, f)))),
          snd (contents s) @ [\<lparr>hi_Parent = ps_StoredRevision h,
            hi_Snapshot = kept (fst (encode sha cd (applyChange g change, f))), hi_Change = change\<rparr>]))"

lemma render_change_Inr:
  assumes "render_change sha cd change h x = (Inr e, y)"
  shows "\<exists>g f. decode cd h = Inr (g, f) \<and> y = RevisionOfDocuments sha cd (applyChange g change) f \<and>
    en_Snapshot e = fst (encode sha cd (applyChange g change, f)) \<and> en_Change e = change \<and>
    en_ParentRevision e = ps_StoredRevision h"
  using assms encode_revision by (auto simp: render_change_def Let_def split: sum.splits prod.splits) (metis snd_conv)

lemma writeOnce_lands:
  assumes "writeOnce sha cd store change s = (x, s')"
  shows "case x of
      Inr revision \<Rightarrow> changed_by sha cd change revision s s'
    | Inl e \<Rightarrow> (contents s' = contents s) \<or> (\<not> is_conflict e \<and> (\<exists>revision. changed_by sha cd change revision s s'))"
proof -
  obtain err y where u: "st_Update store (render_change sha cd change) [] s = (err, y, s')"
    and x: "x = (case err of Some e \<Rightarrow> Inl e | None \<Rightarrow> Inr y)"
    using assms by (auto simp: writeOnce_def split: prod.splits option.splits)
  have landed: "changed_by sha cd change y s s'"
    if "fst (contents s) = Some h" "render_change sha cd change h [] = (Inr e, y)"
      "contents s' = (Some (kept (en_Snapshot e)), snd (contents s) @ [row_of kept e])" for h e
    using render_change_Inr [OF that(2)] that(1,3) unfolding changed_by_def row_of_def by auto
  show ?thesis
  proof (cases err)
    case None
    then show ?thesis using update_done u landed x by fastforce
  next
    case (Some e)
    have "contents s' = contents s \<or> changed_by sha cd change y s s'"
      using update_failed [OF u [unfolded Some]] landed by blast
    moreover have "contents s' = contents s" if "is_conflict e" by (rule update_conflict [OF u [unfolded Some] that])
    ultimately show ?thesis using x Some by auto
  qed
qed

lemma same_contents_change:
  "contents s1 = contents s \<Longrightarrow> changed_by sha cd change revision s1 s' = changed_by sha cd change revision s s'"
  by (simp add: changed_by_def)

lemma policy_Write_lands:
  assumes "policy_Write sha cd store change s = (x, s')"
  shows "case x of
      Inr revision \<Rightarrow> changed_by sha cd change revision s s'
    | Inl e \<Rightarrow> contents s' = contents s \<or> (\<exists>revision. changed_by sha cd change revision s s')"
proof -
  have "case x of
      Inr revision \<Rightarrow> changed_by sha cd change revision s s'
    | Inl e \<Rightarrow> contents s' = contents s \<or> (\<exists>revision. changed_by sha cd change revision s s')"
    if "write_attempts sha cd store change n c s = (x, s')" for n c s
    using that
  proof (induction n arbitrary: c s)
    case (Suc n)
    obtain y s1 where w: "writeOnce sha cd store change s = (y, s1)" by (rule prod.exhaust)
    note one = writeOnce_lands [OF w]
    show ?case
    proof (cases y)
      case (Inr revision)
      then show ?thesis using Suc.prems one w by auto
    next
      case (Inl e)
      show ?thesis
      proof (cases "is_conflict e")
        case True
        then have c: "contents s1 = contents s" using one Inl by auto
        have "write_attempts sha cd store change n e s1 = (x, s')" using Suc.prems w Inl True by simp
        from Suc.IH [OF this] show ?thesis unfolding same_contents_change [OF c] c .
      next
        case False
        then show ?thesis using Suc.prems one w Inl by auto
      qed
    qed
  qed auto
  with assms show ?thesis unfolding policy_Write_def by blast
qed

lemma changed_by_explained:
  assumes "changed_by sha cd change revision s s'" and "explained (contents s)"
  shows "explained (contents s')"
  using assms by (auto simp: changed_by_def explained_def linked_append kept_revision)

lemma policy_Write_explained:
  assumes "policy_Write sha cd store change s = (x, s')" and "explained (contents s)"
  shows "explained (contents s')"
  using policy_Write_lands [OF assms(1)] changed_by_explained assms(2) by (auto split: sum.splits)

lemma policy_Load_Inr:
  assumes "policy_Load sha cd store s = Inr (g, f, r)"
  shows "\<exists>h. fst (contents s) = Some h \<and> decode cd h = Inr (g, f) \<and> r = RevisionOfDocuments sha cd g f"
  using assms head_reads by (auto simp: policy_Load_def encode_revision split: sum.splits)

end

section \<open>The tables keep the contract\<close>

definition db_contents :: "PolicyDb \<Rightarrow> Snapshot option \<times> HistoryRow list" where
  "db_contents d = (db_head d, db_history d)"

lemma next_faults_contents [simp]: "db_contents (snd (next_faults d)) = db_contents d"
  by (auto simp: next_faults_def db_contents_def split: list.splits)

lemma jsonb_row_revision [simp]: "ps_StoredRevision (jsonb_row cd h) = ps_StoredRevision h"
  by (simp add: jsonb_row_def)

lemma sql_Update_cases:
  assumes "sql_Update cd f x d0 = (err, y, d')"
  obtains (nothing) e where "err = Some e" "db_contents d' = db_contents d0"
  | (landed) h e where "db_head d0 = Some h" "f h x = (Inr e, y)"
      "db_contents d' = (Some (jsonb_row cd (en_Snapshot e)), db_history d0 @ [row_of (jsonb_row cd) e])"
      "err = None \<or> (\<exists>m. err = Some (CommitError m))"
proof -
  obtain fl d where n: "next_faults d0 = (fl, d)" by (rule prod.exhaust)
  then have c: "db_head d = db_head d0" "db_history d = db_history d0" "db_contents d = db_contents d0"
    using next_faults_contents [of d0] by (auto simp: db_contents_def)
  consider (rejected) e where "err = Some e" "d' = d"
    | (committed) h e where "db_head d = Some h" "f h x = (Inr e, y)"
      "(err, d') = commit fl d (d\<lparr>db_head := Some (jsonb_row cd (en_Snapshot e)),
         db_history := db_history d @ [row_of (jsonb_row cd) e]\<rparr>)"
    using assms
    by (auto simp: sql_Update_def n Let_def update_head_def row_of_def split: option.splits sum.splits prod.splits if_splits)
  then show ?thesis
  proof cases
    case rejected
    show ?thesis by (rule nothing [of e]) (use rejected c in simp_all)
  next
    case committed
    consider (in_force) "db_contents d' = (Some (jsonb_row cd (en_Snapshot e)), db_history d0 @ [row_of (jsonb_row cd) e])"
        "err = None \<or> (\<exists>m. err = Some (CommitError m))"
      | (lost) m where "err = Some m" "d' = d"
      using committed(3) c by (auto simp: commit_def db_contents_def split: option.splits if_splits)
    then show ?thesis
    proof cases
      case in_force
      show ?thesis by (rule landed [of h e]) (use committed in_force c in simp_all)
    next
      case (lost m)
      show ?thesis by (rule nothing [of m]) (use lost c in simp_all)
    qed
  qed
qed

lemma sql_Update_never_conflicts:
  assumes "sql_Update cd f x d0 = (Some err, y, d')" and "\<And>h e z. f h x = (Inl e, z) \<Longrightarrow> \<not> is_conflict e"
  shows "\<not> is_conflict err"
  using assms
  by (auto simp: sql_Update_def Let_def update_head_def commit_def split: option.splits sum.splits prod.splits if_splits)

interpretation sql: policy_store "sqlstore cd" db_contents "jsonb_row cd" for cd
proof unfold_locales
  show "\<exists>h e. fst (db_contents s) = Some h \<and> f h x = (Inr e, y) \<and>
      db_contents s' = (Some (jsonb_row cd (en_Snapshot e)), snd (db_contents s) @ [row_of (jsonb_row cd) e])"
    if "st_Update (sqlstore cd) f x s = (None, y, s')" for f x s y s'
    using that unfolding sqlstore_def PolicyStore.simps
    by (cases rule: sql_Update_cases) (auto simp: db_contents_def)
  show "db_contents s' = db_contents s"
    if "st_Update (sqlstore cd) f x s = (Some err, y, s')" "is_conflict err" for f x s err y s'
    using that(1) unfolding sqlstore_def PolicyStore.simps
    by (cases rule: sql_Update_cases) (use that(2) in auto)
  show "db_contents s' = db_contents s \<or>
      (\<exists>h e. fst (db_contents s) = Some h \<and> f h x = (Inr e, y) \<and>
        db_contents s' = (Some (jsonb_row cd (en_Snapshot e)), snd (db_contents s) @ [row_of (jsonb_row cd) e]))"
    if "st_Update (sqlstore cd) f x s = (Some err, y, s')" for f x s err y s'
    using that unfolding sqlstore_def PolicyStore.simps
    by (cases rule: sql_Update_cases) (auto simp: db_contents_def)
  show "fst (db_contents s) = Some h" if "st_Head (sqlstore cd) s = Inr h" for s h
    using that by (auto simp: sqlstore_def sql_Head_def db_contents_def split: option.splits)
qed simp

text \<open>Under the lock a write never conflicts: the loop of \<open>Write\<close> makes one attempt.\<close>

lemma write_is_one_attempt: "policy_Write sha cd (sqlstore cd) change d = writeOnce sha cd (sqlstore cd) change d"
proof -
  obtain x d' where w: "writeOnce sha cd (sqlstore cd) change d = (x, d')" by (rule prod.exhaust)
  have "\<not> is_conflict e" if e: "x = Inl e" for e
  proof -
    obtain y where u: "sql_Update cd (render_change sha cd change) [] d = (Some e, y, d')"
      using w e by (auto simp: writeOnce_def sqlstore_def split: prod.splits option.splits)
    show ?thesis
      by (rule sql_Update_never_conflicts [OF u])
        (auto simp: render_change_def decode_def Let_def split: sum.splits prod.splits)
  qed
  then show ?thesis using w by (auto simp: policy_Write_def maxWriteAttempts_def numeral_eq_Suc split: sum.splits)
qed

lemma loaded_after_change:
  assumes ok: "codec_ok cd" and c: "sql.changed_by cd sha cd change r d d'"
    and b: "policy_Load sha cd (sqlstore cd) d = Inr (g, f, r0)" and a: "policy_Load sha cd (sqlstore cd) d' = Inr (g', f', r')"
  shows "same_grants (applyChange g change) g' \<and> same_floors f f' \<and> r' = r"
proof -
  obtain h where h: "fst (db_contents d) = Some h" "decode cd h = Inr (g, f)" using sql.policy_Load_Inr [OF b] by blast
  obtain h' where h': "fst (db_contents d') = Some h'" "decode cd h' = Inr (g', f')" "r' = RevisionOfDocuments sha cd g' f'"
    using sql.policy_Load_Inr [OF a] by blast
  have k: "h' = jsonb_row cd (fst (encode sha cd (applyChange g change, f)))" and r: "r = RevisionOfDocuments sha cd (applyChange g change) f"
    using c h h'(1) by (auto simp: sql.changed_by_def)
  then have s: "same_grants (applyChange g change) g'" "same_floors f f'"
    using stored_encode [OF ok, of sha "applyChange g change" f] h'(2) by auto
  then show ?thesis using same_marshal(2) [OF ok s] h'(3) r by simp
qed

lemma Seed_cases:
  assumes "Seed cd snapshot reason d0 = (x, d')"
  obtains (nothing) "db_contents d' = db_contents d0" "x \<noteq> Inr True"
  | (landed) "db_head d0 = None" "TrimSpace reason \<noteq> []"
      "db_contents d' = (Some (jsonb_row cd snapshot), db_history d0 @ [\<lparr>hi_Parent = [], hi_Snapshot = jsonb_row cd snapshot,
         hi_Change = \<lparr>chg_Role = [], chg_Action = [], chg_Grant = False, chg_Reason = reason\<rparr>\<rparr>])"
proof -
  obtain fl d where n: "next_faults d0 = (fl, d)" by (rule prod.exhaust)
  then have c: "db_head d = db_head d0" "db_history d = db_history d0" "db_contents d = db_contents d0"
    using next_faults_contents [of d0] by (auto simp: db_contents_def)
  let ?row = "\<lparr>hi_Parent = [], hi_Snapshot = jsonb_row cd snapshot,
         hi_Change = \<lparr>chg_Role = [], chg_Action = [], chg_Grant = False, chg_Reason = reason\<rparr>\<rparr>"
  consider "d' = d0 \<or> d' = d" "x \<noteq> Inr True"
    | "db_head d0 = None" "TrimSpace reason \<noteq> []" "db_contents d' = (Some (jsonb_row cd snapshot), db_history d0 @ [?row])"
    using assms c
    by (auto simp: Seed_def n Let_def commit_def db_contents_def split: option.splits if_splits prod.splits)
  then show ?thesis
  proof cases
    case 1
    show ?thesis by (rule nothing) (use 1 c in auto)
  next
    case 2
    then show ?thesis by (rule landed)
  qed
qed

text \<open>A snapshot whose stored revision is the one of its documents.\<close>

definition true_revision :: "(string \<Rightarrow> string) \<Rightarrow> codec \<Rightarrow> Snapshot \<Rightarrow> bool" where
  "true_revision sha cd h \<longleftrightarrow> (\<exists>g f. decode cd h = Inr (g, f) \<and> ps_StoredRevision h = RevisionOfDocuments sha cd g f)"

lemma true_revision_encode:
  assumes "codec_ok cd"
  shows "true_revision sha cd (jsonb_row cd (fst (encode sha cd (g, f))))"
proof -
  obtain h k where r: "decode cd (jsonb_row cd (fst (encode sha cd (g, f)))) = Inr (h, k)" "same_grants g h" "same_floors f k"
    using stored_encode [OF assms] by blast
  then show ?thesis using same_marshal(2) [OF assms r(2,3)] by (auto simp: true_revision_def encode_revision)
qed

lemma Encode_Inr:
  assumes "codec_ok cd" and "Encode sha cd (Some g) (Some f) = Inr (snap, r)"
  shows "snap = fst (encode sha cd (g, f))" and "r = RevisionOfDocuments sha cd g f"
proof -
  obtain h k where d: "decode cd (fst (encode sha cd (g, f))) = Inr (h, k)" "same_grants g h" "same_floors f k"
    using decode_encode [OF assms(1)] by blast
  then have "(snap, r) = encode sha cd (g, f)"
    using assms(2) same_marshal(1) [OF assms(1) d(2,3)] by (simp add: Encode_def)
  then show "snap = fst (encode sha cd (g, f))" "r = RevisionOfDocuments sha cd g f"
    using encode_revision(1) [of sha cd g f] by (metis fst_conv, metis snd_conv)
qed

text \<open>The life of the tables: seeding with what \<open>Encode\<close> rendered, governed writes, and whatever the database does next
  (its faults, an unreadable head).\<close>

inductive policy_step :: "(string \<Rightarrow> string) \<Rightarrow> codec \<Rightarrow> PolicyDb \<Rightarrow> PolicyDb \<Rightarrow> bool" for sha cd where
  seeds: "Encode sha cd (Some g) (Some f) = Inr (snap, r) \<Longrightarrow> Seed cd snap reason d = (x, d') \<Longrightarrow> policy_step sha cd d d'"
| writes: "policy_Write sha cd (sqlstore cd) change d = (y, d') \<Longrightarrow> policy_step sha cd d d'"
| weather: "db_contents d' = db_contents d \<Longrightarrow> policy_step sha cd d d'"

definition accountable :: "(string \<Rightarrow> string) \<Rightarrow> codec \<Rightarrow> Snapshot option \<times> HistoryRow list \<Rightarrow> bool" where
  "accountable sha cd c \<longleftrightarrow> explained c \<and> (\<forall>row\<in>set (snd c). true_revision sha cd (hi_Snapshot row))"

lemma policy_step_accountable:
  assumes "codec_ok cd" and "policy_step sha cd d d'" and "accountable sha cd (db_contents d)"
  shows "accountable sha cd (db_contents d')"
  using assms(2)
proof cases
  case (seeds g f snap r reason x)
  from seeds(2) show ?thesis
  proof (cases rule: Seed_cases)
    case nothing
    then show ?thesis using assms(3) by simp
  next
    case landed
    then have "db_history d = []" using assms(3) by (simp add: accountable_def explained_def db_contents_def)
    then show ?thesis
      using landed true_revision_encode [OF assms(1)] Encode_Inr(1) [OF assms(1) seeds(1)]
      by (simp add: accountable_def explained_def)
  qed
next
  case (writes change y)
  have e: "explained (db_contents d')" using sql.policy_Write_explained [OF writes] assms(3) by (simp add: accountable_def)
  have "db_contents d' = db_contents d \<or> (\<exists>revision. sql.changed_by cd sha cd change revision d d')"
    using sql.policy_Write_lands [OF writes] by (auto split: sum.splits)
  then show ?thesis
  proof
    assume "\<exists>revision. sql.changed_by cd sha cd change revision d d'"
    then obtain g f row where "snd (db_contents d') = snd (db_contents d) @ [row]"
      "hi_Snapshot row = jsonb_row cd (fst (encode sha cd (applyChange g change, f)))"
      by (auto simp: sql.changed_by_def)
    then show ?thesis using e assms(3) true_revision_encode [OF assms(1)] by (auto simp: accountable_def)
  qed (use assms(3) in simp)
next
  case weather
  then show ?thesis using assms(3) by simp
qed

section \<open>A codec and tables to try them on\<close>

text \<open>Documents written as a number in unary after one letter: a map is written by its sorted keys.\<close>

definition canon :: "'v gomap \<Rightarrow> 'v gomap" where
  "canon m = map (\<lambda>k. (k, the (map_of m k))) (sorted_list_of_set (dom (map_of m)))"

lemma map_of_canon: "map_of (canon m) = map_of m"
proof
  fix k
  have "finite (dom (map_of m))" by (rule finite_dom_map_of)
  then show "map_of (canon m) k = map_of m k"
    by (cases "map_of m k") (auto simp: canon_def map_of_map_restrict restrict_map_def)
qed

definition rule_fields :: "FloorRule \<Rightarrow> string list \<times> string list \<times> string list \<times> string gomap" where
  "rule_fields r = ([fr_Kind r, fr_Param r, fr_WhenParam r, fr_WhenValue r, fr_Pattern r, fr_Role r, fr_Message r],
     fr_Values r, fr_WhenIn r, fr_Caps r)"

definition fields_rule :: "string list \<times> string list \<times> string list \<times> string gomap \<Rightarrow> FloorRule" where
  "fields_rule t = (case t of (s, values, whenIn, caps) \<Rightarrow>
     \<lparr>fr_Kind = s ! 0, fr_Param = s ! 1, fr_Values = values, fr_Caps = caps, fr_WhenParam = s ! 2, fr_WhenIn = whenIn,
      fr_WhenValue = s ! 3, fr_Pattern = s ! 4, fr_Role = s ! 5, fr_Message = s ! 6\<rparr>)"

lemma fields_rule_inverse: "fields_rule (rule_fields r) = r"
  by (simp add: fields_rule_def rule_fields_def)

definition unary :: "'a::countable \<Rightarrow> string" where
  "unary x = CHR ''d'' # replicate (to_nat x) CHR ''x''"

definition of_unary :: "string \<Rightarrow> 'a::countable" where
  "of_unary s = from_nat (length s - 1)"

lemma of_unary_inverse [simp]: "of_unary (unary x) = x"
  by (simp add: unary_def of_unary_def)

definition sample_codec :: codec where
  "sample_codec =
     \<lparr>cd_marshal_grants = (\<lambda>g. unary (canon (gr_RoleActions g), gr_ApprovalActions g)),
      cd_marshal_floors = (\<lambda>f. unary (map (map_prod (\<lambda>k. k) (map rule_fields)) (canon f))),
      cd_unmarshal_grants = (\<lambda>d. Inr (case of_unary d of (roles, approvals) \<Rightarrow>
        \<lparr>gr_RoleActions = roles, gr_ApprovalActions = approvals\<rparr>)),
      cd_unmarshal_floors = (\<lambda>d. Inr (map (map_prod (\<lambda>k. k) (map fields_rule)) (of_unary d))),
      cd_jsonb = (\<lambda>d. d)\<rparr>"

lemma canon_same: "map_of m = map_of m' \<Longrightarrow> canon m = canon m'"
  by (simp add: canon_def)

lemma sample_codec_ok: "codec_ok sample_codec"
proof -
  have f: "map (map_prod (\<lambda>k. k) (map fields_rule)) (map (map_prod (\<lambda>k. k) (map rule_fields)) m) = m" for m :: Floors
    by (induction m) (auto simp: map_prod_def fields_rule_inverse o_def)
  show ?thesis
    unfolding codec_ok_def sample_codec_def
    by (auto simp: same_grants_def same_floors_def map_of_canon f simp del: map_map cong: canon_same)
qed

text \<open>A database that does not fail takes every change of a policy it holds.\<close>

lemma healthy_write:
  assumes "codec_ok cd" and "db_head d = Some h" and "decode cd h = Inr (g, f)" and "db_faults d = []"
  shows "\<exists>r d' h' g' f'. policy_Write sha cd (sqlstore cd) change d = (Inr r, d') \<and> db_head d' = Some h' \<and>
    decode cd h' = Inr (g', f') \<and> db_faults d' = [] \<and> db_unreadable d' = db_unreadable d"
proof -
  let ?e = "fst (encode sha cd (applyChange g change, f))"
  obtain g' f' where "decode cd (jsonb_row cd ?e) = Inr (g', f')" using stored_encode [OF assms(1)] by blast
  then show ?thesis
    using assms(2-4) unfolding write_is_one_attempt
    by (simp add: writeOnce_def sqlstore_def sql_Update_def next_faults_def no_faults_def render_change_def Let_def split_beta
        update_head_def commit_def)
qed

lemma healthy_load:
  "db_head d = Some h \<Longrightarrow> decode cd h = Inr (g, f) \<Longrightarrow> db_unreadable d = None \<Longrightarrow>
     \<exists>r. policy_Load sha cd (sqlstore cd) d = Inr (g, f, r)"
  by (simp add: policy_Load_def sqlstore_def sql_Head_def)

definition empty_db :: PolicyDb where
  "empty_db = \<lparr>db_head = None, db_history = [], db_faults = [], db_unreadable = None\<rparr>"

definition sample_policy :: Grants where
  "sample_policy = no_grants\<lparr>gr_RoleActions := [(''ops'', [''job.run''])]\<rparr>"

definition nosha :: "string \<Rightarrow> string" where "nosha s = s"

lemma sample_encode:
  obtains snap r where "Encode nosha sample_codec (Some sample_policy) (Some []) = Inr (snap, r)"
    "EnvSource_Load nosha sample_codec (Inr sample_policy) (Inr []) = Inr (sample_policy, [], r)"
proof -
  obtain h k where "decode sample_codec (fst (encode nosha sample_codec (sample_policy, []))) = Inr (h, k)"
    using decode_encode [OF sample_codec_ok] by blast
  then obtain snap r where e: "Encode nosha sample_codec (Some sample_policy) (Some []) = Inr (snap, r)"
    by (simp add: Encode_def) (metis surj_pair)
  then show ?thesis
    using that Encode_Inr(2) [OF sample_codec_ok e] by (simp add: EnvSource_Load_def)
qed

lemma sample_seed:
  assumes "Encode nosha sample_codec (Some sample_policy) (Some []) = Inr (snap, r)"
  obtains d' :: PolicyDb and g' :: Grants and f' where "Seed sample_codec snap ''imported'' empty_db = (Inr True, d')" "db_head d' = Some (jsonb_row sample_codec snap)"
    "db_faults d' = []" "db_unreadable d' = None" "decode sample_codec (jsonb_row sample_codec snap) = Inr (g', f')"
    "same_grants sample_policy g'"
proof -
  have s: "snap = fst (encode nosha sample_codec (sample_policy, []))" by (rule Encode_Inr(1) [OF sample_codec_ok assms])
  have n: "ps_GrantsDoc snap \<noteq> []" "ps_FloorsDoc snap \<noteq> []" by (simp_all add: s encode_def Let_def sample_codec_def unary_def)
  obtain g' f' where d: "decode sample_codec (jsonb_row sample_codec snap) = Inr (g', f')" "same_grants sample_policy g'"
    using stored_encode [OF sample_codec_ok] unfolding s by blast
  have t: "TrimSpace ''imported'' \<noteq> []" by code_simp
  obtain d' where s: "Seed sample_codec snap ''imported'' empty_db = (Inr True, d')"
    using n t by (simp add: Seed_def next_faults_def empty_db_def no_faults_def Let_def commit_def)
  then have "db_head d' = Some (jsonb_row sample_codec snap)" "db_faults d' = []" "db_unreadable d' = None"
    using n t by (auto simp: Seed_def next_faults_def empty_db_def no_faults_def Let_def commit_def)
  with s d show ?thesis by (intro that)
qed

section \<open>Properties\<close>

text \<open>C8: what a governed change writes is the change that was approved. When \<open>Write\<close> reports success over the tables, the
  policy read afterwards gives every role the actions of the one before with exactly that change applied, the approval
  actions and the floors are untouched, the revision it reports is the one readers compute, and the history gained one row:
  the change, the revision it was applied to, and the policy now in force. A failed write left everything as it was, unless
  the commit itself failed, which may have put the whole change in force.\<close>

theorem written_policy_is_the_approved_change:
  assumes "codec_ok cd" and "policy_Load sha cd (sqlstore cd) d = Inr (g, f, r)"
    and "policy_Write sha cd (sqlstore cd) change d = (x, d')"
  shows "case x of
      Inl e \<Rightarrow> db_contents d' = db_contents d \<or> (\<exists>m. e = CommitError m)
    | Inr r' \<Rightarrow>
        (\<forall>g' f' r''. policy_Load sha cd (sqlstore cd) d' = Inr (g', f', r'') \<longrightarrow>
           r'' = r' \<and> held g' = apply_change (held g) change \<and> gr_ApprovalActions g' = gr_ApprovalActions g \<and> same_floors f f') \<and>
        (\<exists>h h'. db_head d = Some h \<and> db_head d' = Some h' \<and> ps_StoredRevision h' = r' \<and>
           db_history d' = db_history d @ [\<lparr>hi_Parent = ps_StoredRevision h, hi_Snapshot = h', hi_Change = change\<rparr>])"
proof (cases x)
  case (Inl e)
  obtain y where u: "sql_Update cd (render_change sha cd change) [] d = (Some e, y, d')"
    using assms(3) Inl unfolding write_is_one_attempt by (auto simp: writeOnce_def sqlstore_def split: prod.splits option.splits)
  show ?thesis using u by (cases rule: sql_Update_cases) (simp_all add: Inl)
next
  case (Inr r')
  then have c: "sql.changed_by cd sha cd change r' d d'" using sql.policy_Write_lands [OF assms(3)] by simp
  have read: "r'' = r' \<and> held g' = apply_change (held g) change \<and> gr_ApprovalActions g' = gr_ApprovalActions g \<and> same_floors f f'"
    if "policy_Load sha cd (sqlstore cd) d' = Inr (g', f', r'')" for g' f' r''
  proof -
    have s: "same_grants (applyChange g change) g'" "same_floors f f'" "r'' = r'"
      using loaded_after_change [OF assms(1) c assms(2) that] by simp_all
    then show ?thesis
      using held_same [OF s(1)] applyChange_refines [of g change] applyChange_approvals [of g change]
      by (simp add: same_grants_def)
  qed
  have "\<exists>h h'. db_head d = Some h \<and> db_head d' = Some h' \<and> ps_StoredRevision h' = r' \<and>
      db_history d' = db_history d @ [\<lparr>hi_Parent = ps_StoredRevision h, hi_Snapshot = h', hi_Change = change\<rparr>]"
    using c by (auto simp: sql.changed_by_def db_contents_def encode_revision)
  with read Inr show ?thesis by simp
qed

theorem written_policy_is_the_approved_change_witness:
  "\<exists>d d' g g' f f' r r'. policy_Load nosha sample_codec (sqlstore sample_codec) d = Inr (g, f, r) \<and>
     policy_Load nosha sample_codec (sqlstore sample_codec) d' = Inr (g', f', r') \<and>
     ''job.stop'' \<notin> held g ''ops'' \<and> held g' ''ops'' = {''job.run'', ''job.stop''}"
proof -
  let ?c = "\<lparr>chg_Role = ''ops'', chg_Action = ''job.stop'', chg_Grant = True, chg_Reason = ''why''\<rparr>"
  obtain snap r0 where e: "Encode nosha sample_codec (Some sample_policy) (Some []) = Inr (snap, r0)" by (rule sample_encode)
  obtain d :: PolicyDb and g :: Grants and f where d: "db_head d = Some (jsonb_row sample_codec snap)" "db_faults d = []" "db_unreadable d = None"
    "decode sample_codec (jsonb_row sample_codec snap) = Inr (g, f)" "same_grants sample_policy g"
    by (rule sample_seed [OF e])
  obtain r where l: "policy_Load nosha sample_codec (sqlstore sample_codec) d = Inr (g, f, r)"
    using healthy_load [OF d(1,4,3)] by blast
  obtain r1 and d' :: PolicyDb and h' :: Snapshot and g' :: Grants and f' where w: "policy_Write nosha sample_codec (sqlstore sample_codec) ?c d = (Inr r1, d')"
    "db_head d' = Some h'" "decode sample_codec h' = Inr (g', f')" "db_unreadable d' = None"
    using healthy_write [OF sample_codec_ok d(1,4,2)] d(3) by metis
  obtain r' where l': "policy_Load nosha sample_codec (sqlstore sample_codec) d' = Inr (g', f', r')"
    using healthy_load [OF w(2,3,4)] by blast
  have "held g' = apply_change (held g) ?c"
    using written_policy_is_the_approved_change [OF sample_codec_ok l w(1)] l' by simp
  moreover have "held g ''ops'' = {''job.run''}"
    using fun_cong [OF held_same [OF d(5)], of "''ops''"] by (simp add: held_def sample_policy_def no_grants_def)
  ultimately have "held g' ''ops'' = {''job.run'', ''job.stop''}" "''job.stop'' \<notin> held g ''ops''" by (auto simp: apply_change_def)
  then show ?thesis using l l' by blast
qed

text \<open>A revision says what the policy is, not how it came about. Granting a role an action it did not hold and revoking it
  again, through the door's writer and over the tables, returns to the revision it started from, when the role's entry was
  not an empty list; the history keeps both changes.\<close>

theorem grant_and_revoke_restore_the_revision:
  assumes "codec_ok cd" and "policy_Load sha cd (sqlstore cd) d = Inr (g, f, r)"
    and "action \<notin> held g role" and "map_of (gr_RoleActions g) role \<noteq> Some []"
    and "policy_Write sha cd (sqlstore cd) \<lparr>chg_Role = role, chg_Action = action, chg_Grant = True, chg_Reason = why\<rparr> d = (Inr r1, d1)"
    and "policy_Load sha cd (sqlstore cd) d1 = Inr (g1, f1, r1')"
    and "policy_Write sha cd (sqlstore cd) \<lparr>chg_Role = role, chg_Action = action, chg_Grant = False, chg_Reason = why'\<rparr> d1 = (Inr r2, d2)"
  shows "r2 = r \<and> (\<exists>a b. db_history d2 = db_history d @ [a, b] \<and> chg_Grant (hi_Change a) \<and> \<not> chg_Grant (hi_Change b))"
proof -
  have c1: "sql.changed_by cd sha cd \<lparr>chg_Role = role, chg_Action = action, chg_Grant = True, chg_Reason = why\<rparr> r1 d d1"
    and c2: "sql.changed_by cd sha cd \<lparr>chg_Role = role, chg_Action = action, chg_Grant = False, chg_Reason = why'\<rparr> r2 d1 d2"
    using sql.policy_Write_lands [OF assms(5)] sql.policy_Write_lands [OF assms(7)] by simp_all
  have s1: "same_grants (grantAction g role action) g1" "same_floors f f1"
    using loaded_after_change [OF assms(1) c1 assms(2,6)] by (simp_all add: applyChange_def)
  have "same_grants (revokeAction g1 role action) (revokeAction (grantAction g role action) role action)"
    using s1(1) by (auto simp: revokeAction_def same_grants_def Let_def split: option.splits)
  then have s2: "same_grants (revokeAction g1 role action) g" using grant_revoke_document [OF assms(3,4)] same_trans(1) by blast
  have f: "same_floors f1 f" using s1(2) by (simp add: same_floors_def)
  obtain h1 where "fst (db_contents d1) = Some h1" "decode cd h1 = Inr (g1, f1)" using sql.policy_Load_Inr [OF assms(6)] by blast
  then have "r2 = RevisionOfDocuments sha cd (revokeAction g1 role action) f1"
    using c2 by (auto simp: sql.changed_by_def applyChange_def)
  moreover have "r = RevisionOfDocuments sha cd g f" using sql.policy_Load_Inr [OF assms(2)] by blast
  moreover have "\<exists>a b. db_history d2 = db_history d @ [a, b] \<and> chg_Grant (hi_Change a) \<and> \<not> chg_Grant (hi_Change b)"
    using c1 c2 by (auto simp: sql.changed_by_def db_contents_def)
  ultimately show ?thesis using same_marshal(2) [OF assms(1) s2 f] by simp
qed

theorem grant_and_revoke_restore_the_revision_witness:
  "\<exists>d d2 g f r why why' r1 d1. policy_Load nosha sample_codec (sqlstore sample_codec) d = Inr (g, f, r) \<and>
     policy_Write nosha sample_codec (sqlstore sample_codec)
       \<lparr>chg_Role = ''ops'', chg_Action = ''job.stop'', chg_Grant = True, chg_Reason = why\<rparr> d = (Inr r1, d1) \<and>
     policy_Write nosha sample_codec (sqlstore sample_codec)
       \<lparr>chg_Role = ''ops'', chg_Action = ''job.stop'', chg_Grant = False, chg_Reason = why'\<rparr> d1 = (Inr r, d2)"
proof -
  let ?c = "\<lambda>b. \<lparr>chg_Role = ''ops'', chg_Action = ''job.stop'', chg_Grant = b, chg_Reason = ''why''\<rparr>"
  obtain snap r0 where e: "Encode nosha sample_codec (Some sample_policy) (Some []) = Inr (snap, r0)" by (rule sample_encode)
  obtain d :: PolicyDb and g :: Grants and f where d: "db_head d = Some (jsonb_row sample_codec snap)" "db_faults d = []" "db_unreadable d = None"
    "decode sample_codec (jsonb_row sample_codec snap) = Inr (g, f)" "same_grants sample_policy g"
    by (rule sample_seed [OF e])
  obtain r where l: "policy_Load nosha sample_codec (sqlstore sample_codec) d = Inr (g, f, r)"
    using healthy_load [OF d(1,4,3)] by blast
  obtain r1 and d1 :: PolicyDb and h1 :: Snapshot and g1 :: Grants and f1 where w1: "policy_Write nosha sample_codec (sqlstore sample_codec) (?c True) d = (Inr r1, d1)"
    "db_head d1 = Some h1" "decode sample_codec h1 = Inr (g1, f1)" "db_unreadable d1 = None" "db_faults d1 = []"
    using healthy_write [OF sample_codec_ok d(1,4,2)] d(3) by metis
  obtain r1' where l1: "policy_Load nosha sample_codec (sqlstore sample_codec) d1 = Inr (g1, f1, r1')"
    using healthy_load [OF w1(2,3,4)] by blast
  obtain r2 d2 where w2: "policy_Write nosha sample_codec (sqlstore sample_codec) (?c False) d1 = (Inr r2, d2)"
    using healthy_write [OF sample_codec_ok w1(2,3,5)] by metis
  have o: "map_of (gr_RoleActions g) ''ops'' = Some [''job.run'']"
    using d(5) by (simp add: same_grants_def sample_policy_def no_grants_def fun_eq_iff) metis
  then have n: "''job.stop'' \<notin> held g ''ops''" "map_of (gr_RoleActions g) ''ops'' \<noteq> Some []" by (simp_all add: held_def entries_def)
  have "r2 = r" using grant_and_revoke_restore_the_revision [OF sample_codec_ok l n w1(1) l1 w2] by blast
  then show ?thesis using l w1(1) w2 by blast
qed

text \<open>C9: the history explains the policy. Whatever seeds, governed writes and database failures a deployment goes through,
  commits that failed after taking effect included, the rows of the history form one chain from the seed, each applied to the
  revision of the one before it, the policy in force is that of the last row, there is one exactly when there is a policy,
  and no row's revision is stale: it is the one computed from the row's own documents.\<close>

theorem history_explains_the_policy:
  assumes "codec_ok cd" and "(policy_step sha cd)\<^sup>*\<^sup>* d0 d" and "db_head d0 = None" and "db_history d0 = []"
  shows "linked [] (db_history d) \<and>
    (case db_head d of None \<Rightarrow> db_history d = []
     | Some h \<Rightarrow> db_history d \<noteq> [] \<and> hi_Snapshot (last (db_history d)) = h) \<and>
    (\<forall>row\<in>set (db_history d). \<exists>g f. decode cd (hi_Snapshot row) = Inr (g, f) \<and>
       ps_StoredRevision (hi_Snapshot row) = RevisionOfDocuments sha cd g f)"
proof -
  have "accountable sha cd (db_contents d)"
    using assms(2)
  proof (induction rule: rtranclp_induct)
    case base
    then show ?case using assms(3,4) by (simp add: accountable_def explained_def db_contents_def)
  next
    case (step y z)
    then show ?case using policy_step_accountable [OF assms(1)] by blast
  qed
  then show ?thesis by (cases "db_head d") (simp_all add: accountable_def explained_def true_revision_def db_contents_def)
qed

theorem history_explains_the_policy_witness:
  "\<exists>d. (policy_step nosha sample_codec)\<^sup>*\<^sup>* empty_db d \<and> length (db_history d) = 1 \<and> linked [] (db_history d)"
proof -
  obtain snap r where e: "Encode nosha sample_codec (Some sample_policy) (Some []) = Inr (snap, r)" by (rule sample_encode)
  obtain d :: PolicyDb and g :: Grants and f where d: "Seed sample_codec snap ''imported'' empty_db = (Inr True, d)" by (rule sample_seed [OF e])
  have s: "(policy_step nosha sample_codec)\<^sup>*\<^sup>* empty_db d" using policy_step.seeds [OF e d] by (rule r_into_rtranclp)
  have n: "length (db_history d) = 1"
    using d by (cases rule: Seed_cases) (auto simp: db_contents_def empty_db_def)
  have "db_head empty_db = None" "db_history empty_db = []" by (simp_all add: empty_db_def)
  from history_explains_the_policy [OF sample_codec_ok s this] s n show ?thesis by blast
qed

text \<open>A migration from files to the database can be proved equivalent. Seeding empty tables with what \<open>Encode\<close> rendered of
  a policy makes readers load that policy, under the revision \<open>Encode\<close> reported, which is the one the file source reports for
  it; seeding tables that hold a policy changes nothing.\<close>

theorem migration_keeps_the_revision:
  assumes "codec_ok cd" and "EnvSource_Load sha cd (Inr g) (Inr f) = Inr (g, f, r0)"
    and "Encode sha cd (Some g) (Some f) = Inr (snap, r)" and "Seed cd snap reason d = (x, d')"
  shows "r = r0 \<and>
    (x = Inr True \<longrightarrow> db_head d = None \<and>
       (\<forall>g' f' r'. policy_Load sha cd (sqlstore cd) d' = Inr (g', f', r') \<longrightarrow> same_grants g g' \<and> same_floors f f' \<and> r' = r0)) \<and>
    (db_head d \<noteq> None \<longrightarrow> db_contents d' = db_contents d)"
  using assms(4)
proof (cases rule: Seed_cases)
  case nothing
  then show ?thesis using assms(2) Encode_Inr(2) [OF assms(1,3)] by (simp add: EnvSource_Load_def)
next
  case landed
  have r: "r = r0" using assms(2) Encode_Inr(2) [OF assms(1,3)] by (simp add: EnvSource_Load_def)
  have "same_grants g g' \<and> same_floors f f' \<and> r' = r0"
    if l: "policy_Load sha cd (sqlstore cd) d' = Inr (g', f', r')" for g' f' r'
  proof -
    have h: "decode cd (jsonb_row cd snap) = Inr (g', f')" "r' = RevisionOfDocuments sha cd g' f'"
      using sql.policy_Load_Inr [OF l] landed(3) by auto
    then have s: "same_grants g g'" "same_floors f f'"
      using stored_encode [OF assms(1), of sha g f] Encode_Inr(1) [OF assms(1,3)] by auto
    then show ?thesis using same_marshal(2) [OF assms(1) s] h(2) assms(2) by (simp add: EnvSource_Load_def)
  qed
  then show ?thesis using r landed(1) by blast
qed

theorem migration_keeps_the_revision_witness:
  "\<exists>snap r d g f. EnvSource_Load nosha sample_codec (Inr sample_policy) (Inr []) = Inr (sample_policy, [], r) \<and>
     Seed sample_codec snap ''imported'' empty_db = (Inr True, d) \<and> policy_Load nosha sample_codec (sqlstore sample_codec) d = Inr (g, f, r)"
proof -
  obtain snap r where e: "Encode nosha sample_codec (Some sample_policy) (Some []) = Inr (snap, r)"
    "EnvSource_Load nosha sample_codec (Inr sample_policy) (Inr []) = Inr (sample_policy, [], r)" by (rule sample_encode)
  obtain d :: PolicyDb and g :: Grants and f where d: "Seed sample_codec snap ''imported'' empty_db = (Inr True, d)"
    "db_head d = Some (jsonb_row sample_codec snap)" "db_unreadable d = None"
    "decode sample_codec (jsonb_row sample_codec snap) = Inr (g, f)"
    by (rule sample_seed [OF e(1)])
  obtain r' where l: "policy_Load nosha sample_codec (sqlstore sample_codec) d = Inr (g, f, r')"
    using healthy_load [OF d(2,4,3)] by blast
  then have "r' = r" using migration_keeps_the_revision [OF sample_codec_ok e(2,1) d(1)] by blast
  then show ?thesis using e(2) d(1) l by blast
qed

text \<open>The store as the writer \<open>Govern\<close> is handed; \<open>why\<close> prints an error.\<close>

definition governed_writer ::
  "(string \<Rightarrow> string) \<Rightarrow> codec \<Rightarrow> (store_error \<Rightarrow> string) \<Rightarrow> PolicyDb \<Rightarrow> Change \<Rightarrow> (string + string) \<times> PolicyDb" where
  "governed_writer sha cd why d c =
     (case policy_Write sha cd (sqlstore cd) c d of (Inl e, d') \<Rightarrow> (Inl (why e), d') | (Inr r, d') \<Rightarrow> (Inr r, d'))"

text \<open>What the chain keeps of a governed policy change is that there was one: its record is the same whatever role, action or
  revision the change was about, so the two records cannot be joined on the revision.\<close>

lemma chain_does_not_name_the_change:
  "decision_record t (change_intent actor before c) subject d = decision_record t (change_intent actor before' c') subject d"
  by (simp add: decision_record_def change_intent_def)

text \<open>C24: nobody changes who may do what without the door. When a change governed by the assembled door moved the tables of the
  policy store, the trail of the intact chain ends with its allow, of the resolved actor, under \<open>policy.grant\<close>, and the
  history of the store with that very change, applied to the revision the policy column held.\<close>

theorem policy_change_is_on_both_records:
  assumes "intact_bolt sha fmt_time b"
    and "Govern (Some (Submit (gateway_Resolve gw) (door_policy env) (Log sha fmt_time db_err) t now random)) actor loaded
      (Some (governed_writer sha cd why)) now' change ((p, b), d) = (x, (p', b'), d')"
    and "db_contents d' \<noteq> db_contents d"
  shows "\<exists>subject entry h row. gateway_Resolve gw \<lparr>ext_ID = sub_ID actor, ext_Groups = sub_ADGroups actor, ext_Attrs = []\<rparr> = Inr subject \<and>
    bolt_trail b' = bolt_trail b @ [entry] \<and> intact_bolt sha fmt_time b' \<and> ar_Action entry = ActionGrantPolicy \<and>
    ar_Decision entry = ActionAllow \<and> ar_SubjectID entry = sub_ID subject \<and>
    db_head d = Some h \<and> db_history d' = db_history d @ [row] \<and> hi_Change row = change \<and> hi_Parent row = ps_StoredRevision h"
proof -
  have moved: "d' \<noteq> d" using assms(3) by auto
  then have "\<exists>z. governed_writer sha cd why d change = (z, d')"
    using assms(2) by (auto simp: Govern_def split: option.splits sum.splits prod.splits if_splits)
  then obtain y where "policy_Write sha cd (sqlstore cd) change d = (y, d')"
    by (auto simp: governed_writer_def split: prod.splits sum.splits)
  from sql.policy_Write_lands [OF this] obtain r where "sql.changed_by cd sha cd change r d d'"
    using assms(3) by (auto split: sum.splits)
  then obtain h row where "db_head d = Some h" "db_history d' = db_history d @ [row]" "hi_Change row = change"
    "hi_Parent row = ps_StoredRevision h"
    by (auto simp: sql.changed_by_def db_contents_def)
  then show ?thesis using shipped.governed_change_recorded [OF assms(1,2)] moved by blast
qed

theorem policy_change_is_on_both_records_witness:
  "\<exists>d d' x p' b' row entry. Govern (Some (Submit (gateway_Resolve sample_gateway) (door_policy policy_admin_env)
        (Log nosha (\<lambda>_. []) None) 100 101 ''c0ffee'')) ((mk_Subject ''ann'' [])\<lparr>sub_ADGroups := [''ops'']\<rparr>) (Inr ''r1'')
        (Some (governed_writer nosha sample_codec (\<lambda>e. ''not written''))) 102 sample_change ((NewFailsafe NewRBAC, Open), d) = (x, (p', b'), d') \<and>
     bolt_trail b' = [entry] \<and> ar_Decision entry = ActionAllow \<and> last (db_history d') = row \<and> hi_Change row = sample_change"
proof -
  let ?submit = "Submit (gateway_Resolve sample_gateway) (door_policy policy_admin_env) (Log nosha (\<lambda>_. []) None) 100 101 ''c0ffee''"
  let ?actor = "(mk_Subject ''ann'' [])\<lparr>sub_ADGroups := [''ops'']\<rparr>"
  have v: "Validate sample_change = None"
    by (simp add: Validate_def sample_change_def TrimSpace_def is_space_def)
  obtain tok p' b' where s: "?submit (NewFailsafe NewRBAC, Open) (change_intent ?actor ''r1'' sample_change)
      = (Inr tok, p', b')" and e: "tok_ExpiresAt tok = 101 + two_hours"
    by (simp add: sample_door_defs policy_admin_env_def change_intent_def ActionGrantPolicy_def Describe_def verb_def
        sample_change_def issue_token_def)
  obtain snap r0 where enc: "Encode nosha sample_codec (Some sample_policy) (Some []) = Inr (snap, r0)" by (rule sample_encode)
  obtain d :: PolicyDb and g :: Grants and f where d: "db_head d = Some (jsonb_row sample_codec snap)" "db_faults d = []"
    "decode sample_codec (jsonb_row sample_codec snap) = Inr (g, f)"
    by (rule sample_seed [OF enc])
  obtain r d' where w: "policy_Write nosha sample_codec (sqlstore sample_codec) sample_change d = (Inr r, d')"
    using healthy_write [OF sample_codec_ok d(1,3,2)] by metis
  have g: "Govern (Some ?submit) ?actor (Inr ''r1'') (Some (governed_writer nosha sample_codec (\<lambda>e. ''not written''))) 102 sample_change ((NewFailsafe NewRBAC, Open), d)
      = (Inr r, (p', b'), d')"
    using v s e w by (simp add: Govern_def Valid_def two_hours_def governed_writer_def)
  have "\<exists>row. snd (db_contents d') = snd (db_contents d) @ [row]"
    using sql.policy_Write_lands [OF w] by (auto simp: sql.changed_by_def)
  then have moved: "db_contents d' \<noteq> db_contents d" by auto
  obtain entry row where "bolt_trail b' = bolt_trail Open @ [entry]" "ar_Decision entry = ActionAllow"
    "db_history d' = db_history d @ [row]" "hi_Change row = sample_change"
    using policy_change_is_on_both_records [OF intact_Open g moved] by blast
  then show ?thesis using g by (intro exI conjI) (auto simp: bolt_trail_def Open_def)
qed

end
