(* ===== verification/Bolt_Stores.thy ===== *)
theory Bolt_Stores
  imports Kv_Store Workflow Go_Fmt
begin

text \<open>
  The drivers of \<open>internal/store\<close> behind the Store port and the event store: the registry of drivers (\<open>store.go\<close>), the
  embedded database (\<open>bolt.go\<close>, \<open>events.go\<close>) and the driver in another process (\<open>subprocess.go\<close>). The library bbolt is
  not part of the repository: a bucket is the record \<open>Bucket\<close> of what the code calls, and \<open>bbolt\<close> states the documented
  behaviour it relies on. JSON of an event and base64 are parameters too, with decoding after encoding as their law. The
  properties say that both databases are the in-memory ones, event by event and key by key, and up to which sequence number.
\<close>

section \<open>The library\<close>

record 's Bucket =
  bk_Put :: "'s \<Rightarrow> string \<Rightarrow> string \<Rightarrow> string option \<times> 's"
  bk_Get :: "'s \<Rightarrow> string \<Rightarrow> string option"
  bk_Cells :: "'s \<Rightarrow> (string \<times> string) list" \<comment> \<open>what a cursor visits\<close>
  bk_NextSequence :: "'s \<Rightarrow> nat \<times> 's"
  bk_Commit :: "'s \<Rightarrow> string option" \<comment> \<open>the error of the commit\<close>

text \<open>A read-write transaction: the error of the body or of the commit rolls everything back.\<close>

definition Update :: "'s Bucket \<Rightarrow> ('s \<Rightarrow> (string + 'a) \<times> 's) \<Rightarrow> 's \<Rightarrow> (string + 'a) \<times> 's" where
  "Update B body s =
     (case body s of
        (Inl e, _) \<Rightarrow> (Inl e, s)
      | (Inr a, s') \<Rightarrow> (case bk_Commit B s' of Some e \<Rightarrow> (Inl e, s) | None \<Rightarrow> (Inr a, s')))"

text \<open>Keys are in byte order and distinct; \<open>Put\<close> refuses the empty key, and a refused one changes nothing; the sequence counts up
  from what it was and is not part of the cells.\<close>

definition bbolt :: "'s Bucket \<Rightarrow> ('s \<Rightarrow> nat) \<Rightarrow> bool" where
  "bbolt B seq \<longleftrightarrow>
     (\<forall>s. sorted_wrt (<) (map fst (bk_Cells B s)) \<and> bk_Get B s = map_of (bk_Cells B s)) \<and>
     (\<forall>s k v s'. bk_Put B s k v = (None, s') \<longrightarrow> k \<noteq> [] \<and> map_of (bk_Cells B s') = (map_of (bk_Cells B s))(k \<mapsto> v) \<and> seq s' = seq s) \<and>
     (\<forall>s n s'. bk_NextSequence B s = (n, s') \<longrightarrow> n = Suc (seq s) \<and> seq s' = n \<and> bk_Cells B s' = bk_Cells B s)"

lemma bbolt_cells: "bbolt B seq \<Longrightarrow> sorted_wrt (<) (map fst (bk_Cells B s)) \<and> bk_Get B s = map_of (bk_Cells B s)"
  and bbolt_put: "bbolt B seq \<Longrightarrow> bk_Put B s k v = (None, s') \<Longrightarrow>
    k \<noteq> [] \<and> map_of (bk_Cells B s') = (map_of (bk_Cells B s))(k \<mapsto> v) \<and> seq s' = seq s"
  and bbolt_next: "bbolt B seq \<Longrightarrow> bk_NextSequence B s = (n, s') \<Longrightarrow> n = Suc (seq s) \<and> seq s' = n \<and> bk_Cells B s' = bk_Cells B s"
  by (auto simp: bbolt_def)

section \<open>Keys and values\<close>

definition bolt_Put :: "'s Bucket \<Rightarrow> 's \<Rightarrow> string \<Rightarrow> string \<Rightarrow> string option \<times> 's" where
  "bolt_Put B s key value =
     (case Update B (\<lambda>s. case bk_Put B s key value of (None, s') \<Rightarrow> (Inr (), s') | (Some e, s') \<Rightarrow> (Inl e, s')) s of
        (Inl e, s') \<Rightarrow> (Some e, s')
      | (Inr _, s') \<Rightarrow> (None, s'))"

text \<open>Appending to a nil slice copies the bytes, and of no bytes makes a nil slice.\<close>

definition bolt_Get :: "'s Bucket \<Rightarrow> 's \<Rightarrow> string \<Rightarrow> string + string option" where
  "bolt_Get B s key =
     (case bk_Get B s key of
        None \<Rightarrow> Inl (''key '' @ go_quote key @ '' not found'')
      | Some v \<Rightarrow> Inr (if v = [] then None else Some v))"

definition bolt_List :: "'s Bucket \<Rightarrow> 's \<Rightarrow> string \<Rightarrow> string + string list" where
  "bolt_List B s p = Inr (takeWhile (\<lambda>k. HasPrefix k p) (dropWhile (\<lambda>k. k < p) (map fst (bk_Cells B s))))"

definition bolt_Store :: "'s Bucket \<Rightarrow> ('s, string) Store" where
  "bolt_Store B = \<lparr>st_Put = bolt_Put B, st_Get = bolt_Get B, st_List = bolt_List B\<rparr>"

section \<open>Events\<close>

definition pad16 :: "nat \<Rightarrow> string" where
  "pad16 n = replicate (16 - length (dec_nat n)) CHR ''0'' @ dec_nat n"

definition max_int :: nat where "max_int = 2 ^ 63 - 1"

definition bev_Append :: "'s Bucket \<Rightarrow> (Event \<Rightarrow> string) \<Rightarrow> 's \<Rightarrow> Event \<Rightarrow> (string + Event) \<times> 's" where
  "bev_Append B enc s e =
     Update B (\<lambda>s. let (n, s1) = bk_NextSequence B s
                    in if max_int < n then (Inl (''event sequence '' @ dec_nat n @ '' exceeds max int''), s1)
                       else let e' = e\<lparr>ev_Seq := n\<rparr>
                            in case bk_Put B s1 (pad16 n) (enc e') of
                                 (Some err, s2) \<Rightarrow> (Inl err, s2)
                               | (None, s2) \<Rightarrow> (Inr e', s2)) s"

fun events_walk :: "(string \<Rightarrow> string + Event) \<Rightarrow> string \<Rightarrow> (string \<times> string) list \<Rightarrow> Event list \<Rightarrow> string + Event list" where
  "events_walk dec run [] out = Inr out"
| "events_walk dec run ((k, v) # cells) out =
     (case dec v of
        Inl err \<Rightarrow> Inl err
      | Inr e \<Rightarrow> events_walk dec run cells (if run = [] \<or> ev_Run e = run then out @ [e] else out))"

definition bev_Events :: "'s Bucket \<Rightarrow> (string \<Rightarrow> string + Event) \<Rightarrow> 's \<Rightarrow> string \<Rightarrow> string + Event list" where
  "bev_Events B dec s run = events_walk dec run (bk_Cells B s) []"

section \<open>The registry of drivers\<close>

type_synonym 'st opener = "string \<Rightarrow> string + 'st"

definition drv_Register :: "'st opener gomap \<Rightarrow> string \<Rightarrow> 'st opener \<Rightarrow> 'st opener gomap" where
  "drv_Register openers name opener = gset openers name opener"

definition drv_Available :: "'st opener gomap \<Rightarrow> string list" where
  "drv_Available openers = sort (keys openers)"

datatype open_error = DriverNotBuiltIn string "string list" | OpenFailed string

definition drv_Open :: "'st opener gomap \<Rightarrow> string \<Rightarrow> string \<Rightarrow> open_error + 'st" where
  "drv_Open openers name dsn =
     (case map_of openers name of
        None \<Rightarrow> Inl (DriverNotBuiltIn name (drv_Available openers))
      | Some opener \<Rightarrow> (case opener dsn of Inl e \<Rightarrow> Inl (OpenFailed e) | Inr st \<Rightarrow> Inr st))"

section \<open>A driver in another process\<close>

record subReq =
  sq_Op :: string
  sq_Key :: string
  sq_Value :: string
  sq_Prefix :: string

record subResp =
  sp_OK :: bool
  sp_Value :: string
  sp_Keys :: "string list"
  sp_Err :: string

datatype exchange = WriteFailed string | ConnectionClosed | BadReply string | Reply subResp

text \<open>\<open>driver\<close> is the process at the other end: what one line sent to it comes to, and its state after.\<close>

definition sub_call :: "('d \<Rightarrow> subReq \<Rightarrow> exchange \<times> 'd) \<Rightarrow> 'd \<Rightarrow> subReq \<Rightarrow> (string + subResp) \<times> 'd" where
  "sub_call driver d req =
     (case driver d req of
        (WriteFailed err, d') \<Rightarrow> (Inl (''write to driver: '' @ err), d')
      | (ConnectionClosed, d') \<Rightarrow> (Inl ''driver closed the connection'', d')
      | (BadReply err, d') \<Rightarrow> (Inl (''bad driver reply: '' @ err), d')
      | (Reply resp, d') \<Rightarrow> (if sp_Err resp \<noteq> [] then Inl (sp_Err resp) else Inr resp, d'))"

definition sub_Put :: "(string \<Rightarrow> string) \<Rightarrow> ('d \<Rightarrow> subReq \<Rightarrow> exchange \<times> 'd) \<Rightarrow> 'd \<Rightarrow> string \<Rightarrow> string \<Rightarrow> string option \<times> 'd" where
  "sub_Put b64 driver d key value =
     (case sub_call driver d \<lparr>sq_Op = ''put'', sq_Key = key, sq_Value = b64 value, sq_Prefix = []\<rparr> of
        (Inl err, d') \<Rightarrow> (Some err, d')
      | (Inr _, d') \<Rightarrow> (None, d'))"

definition sub_Get :: "(string \<Rightarrow> string + string) \<Rightarrow> ('d \<Rightarrow> subReq \<Rightarrow> exchange \<times> 'd) \<Rightarrow> 'd \<Rightarrow> string \<Rightarrow> (string + string) \<times> 'd" where
  "sub_Get unb64 driver d key =
     (case sub_call driver d \<lparr>sq_Op = ''get'', sq_Key = key, sq_Value = [], sq_Prefix = []\<rparr> of
        (Inl err, d') \<Rightarrow> (Inl err, d')
      | (Inr resp, d') \<Rightarrow> (unb64 (sp_Value resp), d'))"

definition sub_List :: "('d \<Rightarrow> subReq \<Rightarrow> exchange \<times> 'd) \<Rightarrow> 'd \<Rightarrow> string \<Rightarrow> (string + string list) \<times> 'd" where
  "sub_List driver d p =
     (case sub_call driver d \<lparr>sq_Op = ''list'', sq_Key = [], sq_Value = [], sq_Prefix = p\<rparr> of
        (Inl err, d') \<Rightarrow> (Inl err, d')
      | (Inr resp, d') \<Rightarrow> (Inr (sp_Keys resp), d'))"

section \<open>What a prefix selects\<close>

lemma below_extensions: "p \<le> p @ (r :: string)"
  by (induction p) auto

lemma between_prefixes: "p \<le> k \<Longrightarrow> k \<le> p @ r \<Longrightarrow> take (length p) k = (p :: string)"
proof (induction p arbitrary: k)
  case (Cons a p)
  then show ?case by (cases k) auto
qed simp

lemma prefix_interval:
  assumes "p \<le> k" and "k \<le> k'" and "HasPrefix k' p"
  shows "HasPrefix k p"
proof -
  have "k' = p @ drop (length p) k'" using assms(3) by (metis HasPrefix_def append_take_drop_id)
  then show ?thesis using between_prefixes [of p k "drop (length p) k'"] assms(1,2) by (simp add: HasPrefix_def)
qed

lemma prefix_least: "HasPrefix k p \<Longrightarrow> p \<le> k"
  using below_extensions [of p "drop (length p) k"] by (metis HasPrefix_def append_take_drop_id)

text \<open>The walk from \<open>Seek\<close> while the prefix lasts visits every key with the prefix.\<close>

lemma seek_walk:
  "sorted_wrt (<) ks \<Longrightarrow> takeWhile (\<lambda>k. HasPrefix k p) (dropWhile (\<lambda>k. k < p) ks) = filter (\<lambda>k. HasPrefix k p) (ks :: string list)"
proof (induction ks)
  case (Cons k ks)
  show ?case
  proof (cases "k < p")
    case True
    then have "\<not> HasPrefix k p" using prefix_least leD by blast
    then show ?thesis using Cons True by simp
  next
    case False
    have rest: "dropWhile (\<lambda>k. k < p) ks = ks"
      using Cons.prems False by (cases ks) (auto simp: not_less intro: less_imp_le order_trans)
    show ?thesis
    proof (cases "HasPrefix k p")
      case True
      then show ?thesis using Cons rest False by simp
    next
      case none: False
      then have "\<not> HasPrefix k' p" if "k' \<in> set ks" for k'
        using that prefix_interval [of p k k'] Cons.prems False by (auto simp: not_less intro: less_imp_le)
      then show ?thesis using none False by (auto simp: filter_empty_conv)
    qed
  qed
qed simp

lemma sorted_cells_unique:
  assumes "sorted_wrt (<) (map fst xs)" and "sorted_wrt (<) (map fst ys)" and "map_of xs = map_of (ys :: (string \<times> 'v) list)"
  shows "xs = ys"
proof -
  have s: "sorted (map fst xs)" "distinct (map fst xs)" "sorted (map fst ys)" "distinct (map fst ys)"
    using assms(1,2) by (simp_all add: strict_sorted_iff)
  have eq: "set xs = set ys" using assms(3) map_of_inject_set [OF s(2,4)] by simp
  have "inj_on fst (set xs \<union> set ys)" using s(2) eq by (simp add: distinct_map)
  then show ?thesis using map_sorted_distinct_set_unique [OF _ s eq] by blast
qed

lemma sorted_cells_snoc:
  assumes "sorted_wrt (<) (map fst xs)" and "sorted_wrt (<) (map fst ys)" and "map_of ys = (map_of xs)(k \<mapsto> v)"
    and "\<forall>k'\<in>set (map fst xs). k' < (k :: string)"
  shows "ys = xs @ [(k, v)]"
proof (rule sorted_cells_unique [OF assms(2)])
  show "sorted_wrt (<) (map fst (xs @ [(k, v)]))" using assms(1,4) by (simp add: sorted_wrt_append)
  have "map_of xs k = None" using assms(4) by (force simp: map_of_eq_None_iff)
  then show "map_of ys = map_of (xs @ [(k, v)])" by (auto simp: assms(3) fun_eq_iff map_add_def split: option.split)
qed

section \<open>Padded numbers in byte order\<close>

lemma less_snoc: "length xs = length ys \<Longrightarrow> xs < ys \<Longrightarrow> xs @ [a] < ys @ [b :: char]"
  by (induction xs ys rule: list_induct2) auto

lemma less_snoc_last: "a < b \<Longrightarrow> xs @ [a] < xs @ [b :: char]"
  by (induction xs) auto

lemma length_low_digits [simp]: "length (low_digits p v) = p"
  by (induction p arbitrary: v) auto

lemma digit_less: "m < n \<Longrightarrow> n < 10 \<Longrightarrow> digit m < digit n"
proof -
  assume a: "m < n" "n < 10"
  have "(of_char (digit m) :: nat) < of_char (digit n)" using a by (simp add: digit_value)
  then show ?thesis by (simp add: less_char_def)
qed

lemma low_digits_less: "m < n \<Longrightarrow> n < 10 ^ p \<Longrightarrow> low_digits p m < low_digits p n"
proof (induction p arbitrary: m n)
  case (Suc p)
  show ?case
  proof (cases "m div 10 < n div 10")
    case True
    then have "low_digits p (m div 10) < low_digits p (n div 10)" using Suc by (intro Suc.IH) (simp_all add: less_mult_imp_div_less)
    then show ?thesis by (simp add: less_snoc)
  next
    case False
    then have "m div 10 = n div 10" using Suc.prems(1) by (simp add: div_le_mono le_antisym less_imp_le not_less)
    moreover have "m mod 10 < n mod 10" using Suc.prems(1) calculation by (metis div_mult_mod_eq nat_add_left_cancel_less)
    ultimately show ?thesis by (simp add: less_snoc_last digit_less)
  qed
qed simp

lemma low_digits_dec:
  "n < 10 ^ p \<Longrightarrow> 0 < p \<Longrightarrow> low_digits p n = replicate (p - length (dec_nat n)) CHR ''0'' @ dec_nat n \<and> length (dec_nat n) \<le> p"
proof (induction p arbitrary: n)
  case (Suc p)
  have zeros: "low_digits q 0 = replicate q CHR ''0''" for q
    by (induction q) (simp_all add: digit_def replicate_append_same)
  show ?case
  proof (cases "n < 10")
    case True
    then show ?thesis by (simp add: dec_nat.simps [of n] zeros)
  next
    case False
    have "n div 10 < 10 ^ p" using Suc.prems by (simp add: less_mult_imp_div_less)
    moreover have "0 < p" using False Suc.prems(1) by (cases p) auto
    ultimately show ?thesis using Suc.IH [of "n div 10"] False by (subst (1 2 3) dec_nat.simps) simp
  qed
qed simp

lemma pad16_less: "m < n \<Longrightarrow> n < 10 ^ 16 \<Longrightarrow> pad16 m < pad16 n"
  using low_digits_less [of m n 16] low_digits_dec [of m 16] low_digits_dec [of n 16] by (simp add: pad16_def)

section \<open>The durable event store\<close>

text \<open>The database holds the events of the in-memory store, under their padded numbers.\<close>

definition holds_events :: "'s Bucket \<Rightarrow> ('s \<Rightarrow> nat) \<Rightarrow> (Event \<Rightarrow> string) \<Rightarrow> 's \<Rightarrow> MemStore \<Rightarrow> bool" where
  "holds_events B seq enc s m \<longleftrightarrow>
     bk_Cells B s = map (\<lambda>e. (pad16 (ev_Seq e), enc e)) (ms_all m) \<and> seq s = ms_seq m \<and> (\<forall>e\<in>set (ms_all m). ev_Seq e \<le> ms_seq m)"

lemma bev_Append_error: "bev_Append B enc s e = (Inl err, s') \<Longrightarrow> s' = s"
  by (auto simp: bev_Append_def Update_def Let_def split: prod.splits sum.splits option.splits if_splits)

lemma bev_Append_step:
  assumes "bbolt B seq" and "holds_events B seq enc s m" and "bev_Append B enc s e = (Inr e', s')" and "Suc (ms_seq m) < 10 ^ 16"
  shows "\<exists>m'. Append m e = (e', m') \<and> holds_events B seq enc s' m'"
proof -
  obtain n s1 where next_seq: "bk_NextSequence B s = (n, s1)" by (cases "bk_NextSequence B s")
  have n: "n = Suc (ms_seq m)" "seq s1 = n" "bk_Cells B s1 = bk_Cells B s"
    using bbolt_next [OF assms(1) next_seq] assms(2) by (auto simp: holds_events_def)
  have put: "bk_Put B s1 (pad16 n) (enc (e\<lparr>ev_Seq := n\<rparr>)) = (None, s')" "e' = e\<lparr>ev_Seq := n\<rparr>"
    using assms(3) by (auto simp: bev_Append_def Update_def Let_def next_seq split: prod.splits sum.splits option.splits if_splits)
  have cells: "map_of (bk_Cells B s') = (map_of (bk_Cells B s))(pad16 n \<mapsto> enc e')" "seq s' = n"
      "sorted_wrt (<) (map fst (bk_Cells B s))" "sorted_wrt (<) (map fst (bk_Cells B s'))"
    using bbolt_put [OF assms(1) put(1)] bbolt_cells [OF assms(1)] put(2) n by auto
  have below: "\<forall>k\<in>set (map fst (bk_Cells B s)). k < pad16 n"
    using assms(2,4) pad16_less n(1) by (auto simp: holds_events_def intro!: pad16_less)
  have "bk_Cells B s' = bk_Cells B s @ [(pad16 n, enc e')]"
    by (rule sorted_cells_snoc [OF cells(3,4,1) below])
  then show ?thesis
    using assms(2) put(2) n(1) cells(2) by (auto simp: Append_def Let_def holds_events_def)
qed

lemma events_walk_all:
  assumes "\<forall>e\<in>set es. dec (enc e) = Inr e"
  shows "events_walk dec run (map (\<lambda>e. (key e, enc e)) es) out = Inr (out @ filter (\<lambda>e. run = [] \<or> ev_Run e = run) es)"
  using assms by (induction es arbitrary: out) auto

text \<open>A history of appends, with the answer to each; the in-memory store takes the accepted ones.\<close>

fun bev_history :: "'s Bucket \<Rightarrow> (Event \<Rightarrow> string) \<Rightarrow> 's \<Rightarrow> Event list \<Rightarrow> (string + Event) list \<times> 's" where
  "bev_history B enc s [] = ([], s)"
| "bev_history B enc s (e # es) =
     (let (r, s1) = bev_Append B enc s e; (rs, s2) = bev_history B enc s1 es in (r # rs, s2))"

fun mem_history :: "MemStore \<Rightarrow> (Event \<times> (string + Event)) list \<Rightarrow> Event list \<times> MemStore" where
  "mem_history m [] = ([], m)"
| "mem_history m ((e, Inl _) # es) = mem_history m es"
| "mem_history m ((e, Inr _) # es) = (let (e', m1) = Append m e; (rest, m2) = mem_history m1 es in (e' # rest, m2))"

definition answers :: "(string + Event) list \<Rightarrow> Event list" where
  "answers rs = map projr (filter (\<lambda>r. \<not> isl r) rs)"

lemma answers_simps [simp]: "answers [] = []" "answers (Inl x # rs) = answers rs" "answers (Inr e # rs) = e # answers rs"
  by (simp_all add: answers_def)

lemma bev_history_holds:
  assumes "bbolt B seq"
  shows "holds_events B seq enc s m \<Longrightarrow> ms_seq m + length es < 10 ^ 16 \<Longrightarrow> bev_history B enc s es = (rs, s') \<Longrightarrow>
    \<exists>m'. mem_history m (zip es rs) = (answers rs, m') \<and> holds_events B seq enc s' m'"
proof (induction es arbitrary: s m rs)
  case (Cons e es)
  obtain r s1 where one: "bev_Append B enc s e = (r, s1)" by (cases "bev_Append B enc s e")
  obtain rs1 where rest: "bev_history B enc s1 es = (rs1, s')" "rs = r # rs1"
    using Cons.prems(3) one by (auto split: prod.splits)
  show ?case
  proof (cases r)
    case (Inl err)
    then have "s1 = s" using bev_Append_error one by metis
    then show ?thesis using Cons.IH [OF Cons.prems(1) _ rest(1) [unfolded \<open>s1 = s\<close>]] Cons.prems(2) Inl rest(2) by auto
  next
    case (Inr e')
    obtain m1 where m1: "Append m e = (e', m1)" "holds_events B seq enc s1 m1"
      using bev_Append_step [OF assms Cons.prems(1) one [unfolded Inr]] Cons.prems(2) by auto
    have "ms_seq m1 = Suc (ms_seq m)" using m1(1) by (auto simp: Append_def Let_def)
    then obtain m' where "mem_history m1 (zip es rs1) = (answers rs1, m')" "holds_events B seq enc s' m'"
      using Cons.IH [OF m1(2) _ rest(1)] Cons.prems(2) by auto
    then show ?thesis using m1(1) Inr rest(2) by simp
  qed
qed simp

section \<open>The durable key-value store\<close>

fun put_history :: "('s \<Rightarrow> string \<Rightarrow> string \<Rightarrow> string option \<times> 's) \<Rightarrow> 's \<Rightarrow> (string \<times> string) list \<Rightarrow> string option list \<times> 's" where
  "put_history put s [] = ([], s)"
| "put_history put s ((k, v) # ps) = (let (e, s1) = put s k v; (es, s2) = put_history put s1 ps in (e # es, s2))"

definition accepted :: "(string \<times> string) list \<Rightarrow> string option list \<Rightarrow> (string \<times> string) list" where
  "accepted ps es = map fst (filter (\<lambda>(_, e). e = None) (zip ps es))"

lemma bolt_Put_view:
  assumes "bbolt B seq" and "bolt_Put B s k v = (e, s')"
  shows "map_of (bk_Cells B s') = (if e = None then (map_of (bk_Cells B s))(k \<mapsto> v) else map_of (bk_Cells B s))"
  using assms by (fastforce simp: bolt_Put_def Update_def bbolt_def split: prod.splits sum.splits option.splits)

lemma put_history_view:
  assumes "bbolt B seq"
  shows "map_of (bk_Cells B s) = mem_view m \<Longrightarrow> put_history (bolt_Put B) s ps = (es, s') \<Longrightarrow>
    map_of (bk_Cells B s') = mem_view (snd (put_history mem_Put m (accepted ps es)))"
proof (induction ps arbitrary: s m es)
  case (Cons p ps)
  obtain k v where p: "p = (k, v)" by (cases p)
  obtain e s1 where one: "bolt_Put B s k v = (e, s1)" by (cases "bolt_Put B s k v")
  obtain es1 where rest: "put_history (bolt_Put B) s1 ps = (es1, s')" "es = e # es1"
    using Cons.prems(2) one p by (auto split: prod.splits)
  show ?case
    using Cons.IH [OF _ rest(1)] bolt_Put_view [OF assms one] Cons.prems(1) p rest(2)
    by (auto simp: accepted_def mem_Put_def mem_view_def fun_eq_iff split_beta split: if_splits)
qed (simp add: accepted_def)

lemma mem_history_all: "mem_history m es = (out, m') \<Longrightarrow> ms_all m' = ms_all m @ out"
  by (induction m es arbitrary: out m' rule: mem_history.induct) (fastforce simp: Append_def Let_def split: prod.splits)+

lemma wf_put_history: "wf_map (mem_data m) \<Longrightarrow> wf_map (mem_data (snd (put_history mem_Put m ps)))"
  by (induction ps arbitrary: m) (auto simp: mem_Put_def split_beta)

section \<open>Properties\<close>

text \<open>C28: the durable event store is the in-memory one. Whatever events are appended to an empty database, and whichever of them it
  fails, every run reads back as from an in-memory store that was given the accepted ones: the same events, numbered and ordered
  alike. It holds up to \<open>10\<^sup>1\<^sup>6\<close> events, where the sixteen digits of a key run out.\<close>

theorem durable_events_are_the_in_memory_events:
  assumes "bbolt B seq" and "bk_Cells B s = []" and "seq s = 0" and "length es < 10 ^ 16"
    and "bev_history B enc s es = (rs, s')" and "\<forall>e\<in>set (answers rs). dec (enc e) = Inr e"
  shows "\<exists>m. mem_history NewMemStore (zip es rs) = (answers rs, m) \<and> (\<forall>run. bev_Events B dec s' run = Inr (Events m run))"
proof -
  have "holds_events B seq enc s NewMemStore" using assms(2,3) by (simp add: holds_events_def NewMemStore_def)
  then obtain m where m: "mem_history NewMemStore (zip es rs) = (answers rs, m)" "holds_events B seq enc s' m"
    using bev_history_holds [OF assms(1) _ _ assms(5)] assms(4) by (fastforce simp: NewMemStore_def)
  have "ms_all m = answers rs" using mem_history_all [OF m(1)] by (simp add: NewMemStore_def)
  then have "bev_Events B dec s' run = Inr (Events m run)" for run
    using m(2) events_walk_all [of "ms_all m" dec enc run "\<lambda>e. pad16 (ev_Seq e)" "[]"] assms(6)
    by (simp add: bev_Events_def holds_events_def Events_def)
  then show ?thesis using m(1) by blast
qed

text \<open>The embedded database is the in-memory store. After any puts into an empty database, whichever it refuses, every key
  reads as in an in-memory store given the accepted ones, an empty value as nil; the keys under a prefix are the same, in
  byte order; and the empty key is never stored.\<close>

theorem embedded_store_is_the_in_memory_store:
  assumes "bbolt B seq" and "bk_Cells B s = []" and "put_history (bolt_Put B) s ps = (es, s')"
    and "m = snd (put_history mem_Put NewMem (accepted ps es))"
  shows "bolt_Get B s' k = (case mem_Get m k of Inl e \<Rightarrow> Inl e | Inr v \<Rightarrow> Inr (if v = Some [] then None else v)) \<and>
    bolt_List B s' p = map_sum id sort (mem_List m p)"
proof -
  have view: "map_of (bk_Cells B s') = mem_view m"
    using put_history_view [OF assms(1) _ assms(3), of NewMem] assms(2,4) by (simp add: mem_view_def NewMem_def)
  have get: "bolt_Get B s' k = (case mem_Get m k of Inl e \<Rightarrow> Inl e | Inr v \<Rightarrow> Inr (if v = Some [] then None else v))"
    using bbolt_cells [OF assms(1), of s'] view by (auto simp: bolt_Get_def mem_Get_def mem_view_def split: option.splits)
  have sorted: "sorted_wrt (<) (map fst (bk_Cells B s'))" using bbolt_cells [OF assms(1)] by blast
  have wf: "distinct (keys (mem_data m))"
    using wf_put_history [of NewMem] assms(4) by (simp add: NewMem_def wf_map_def)
  have "set (map fst (bk_Cells B s')) = set (keys (mem_data m))"
    using view dom_map_of_conv_image_fst [of "bk_Cells B s'"] by (simp add: set_keys mem_view_def)
  then have same: "map fst (bk_Cells B s') = sort (keys (mem_data m))"
    using sorted wf by (intro sorted_distinct_set_unique) (simp_all add: strict_sorted_iff)
  have "bolt_List B s' p = map_sum id sort (mem_List m p)"
    unfolding bolt_List_def seek_walk [OF sorted] by (simp add: mem_List_def same filter_sort)
  with get show ?thesis by blast
qed

text \<open>A bucket kept as a list of writes, the newest first.\<close>

definition sample_bucket :: "(nat \<times> (string \<times> string) list) Bucket" where
  "sample_bucket = \<lparr>bk_Put = (\<lambda>(n, w) k v. if k = [] then (Some ''key required'', (n, w)) else (None, (n, (k, v) # w))),
     bk_Get = (\<lambda>(n, w) k. map_of w k),
     bk_Cells = (\<lambda>(n, w). map (\<lambda>k. (k, the (map_of w k))) (sort (remdups (map fst w)))),
     bk_NextSequence = (\<lambda>(n, w). (Suc n, (Suc n, w))), bk_Commit = (\<lambda>(n, w). if n = 2 then Some ''disk full'' else None)\<rparr>"

lemma map_of_listed: "map_of (map (\<lambda>k. (k, f k)) ks) k' = (if k' \<in> set ks then Some (f k') else None)"
  by (induction ks) auto

lemma sample_bucket_is_bbolt: "bbolt sample_bucket fst"
proof -
  have view: "map_of (bk_Cells sample_bucket s) = map_of (snd s)" for s
  proof
    fix k
    have "k \<in> fst ` set (snd s) \<longleftrightarrow> (\<exists>v. map_of (snd s) k = Some v)"
      using map_of_eq_None_iff [of "snd s" k] by auto
    then show "map_of (bk_Cells sample_bucket s) k = map_of (snd s) k"
      by (cases s; cases "map_of (snd s) k") (simp_all add: sample_bucket_def map_of_listed)
  qed
  have "sorted_wrt (<) (map fst (bk_Cells sample_bucket s))" for s
    by (cases s) (simp add: sample_bucket_def comp_def strict_sorted_iff)
  moreover have "bk_Get sample_bucket s = map_of (bk_Cells sample_bucket s)" for s
    unfolding view by (cases s) (simp add: sample_bucket_def fun_eq_iff)
  moreover have "bk_Cells sample_bucket s' = bk_Cells sample_bucket s \<and> n = Suc (fst s) \<and> fst s' = n"
    if "bk_NextSequence sample_bucket s = (n, s')" for s n s'
    using that by (cases s) (auto simp: sample_bucket_def)
  ultimately show ?thesis
    unfolding bbolt_def view by (auto simp: sample_bucket_def split: if_splits)
qed

definition sample_event :: "string \<Rightarrow> Event" where
  "sample_event run = \<lparr>ev_Seq = 0, ev_At = 0, ev_Run = run, ev_Step = [], ev_Kind = RunStarted, ev_Detail = []\<rparr>"

definition sample_dec :: "string \<Rightarrow> string + Event" where
  "sample_dec v = Inr ((sample_event (drop 1 v))\<lparr>ev_Seq := 1\<rparr>)"

text \<open>The second append is lost to the disk, and only the first is in the timeline.\<close>

theorem durable_events_are_the_in_memory_events_witness:
  "bev_Events sample_bucket sample_dec (1, [(pad16 1, ''1nightly'')]) ''nightly'' = Inr [(sample_event ''nightly'')\<lparr>ev_Seq := 1\<rparr>]"
proof -
  let ?enc = "\<lambda>e. CHR ''1'' # ev_Run e"
  let ?es = "[sample_event ''nightly'', sample_event ''late'']"
  let ?rs = "[Inr ((sample_event ''nightly'')\<lparr>ev_Seq := 1\<rparr>), Inl ''disk full''] :: (string + Event) list"
  have h: "bev_history sample_bucket ?enc (0, []) ?es = (?rs, (1, [(pad16 1, ''1nightly'')]))"
    by (simp add: bev_Append_def Update_def sample_bucket_def sample_event_def max_int_def Let_def pad16_def)
  have c: "bk_Cells sample_bucket (0, []) = []" by (simp add: sample_bucket_def)
  obtain m where m: "mem_history NewMemStore (zip ?es ?rs) = (answers ?rs, m)"
      "\<forall>run. bev_Events sample_bucket sample_dec (1, [(pad16 1, ''1nightly'')]) run = Inr (Events m run)"
    using durable_events_are_the_in_memory_events [OF sample_bucket_is_bbolt c _ _ h, of sample_dec]
    by (auto simp: sample_dec_def sample_event_def)
  have "ms_all m = [(sample_event ''nightly'')\<lparr>ev_Seq := 1\<rparr>]"
    using mem_history_all [OF m(1)] by (simp add: NewMemStore_def)
  then show ?thesis using m(2) by (simp add: Events_def sample_event_def)
qed

theorem embedded_store_is_the_in_memory_store_witness:
  "bolt_List sample_bucket (0, [(''a/2'', ''y''), (''b'', []), (''a/1'', ''x'')]) ''a/'' = Inr [''a/1'', ''a/2''] \<and>
   bolt_Get sample_bucket (0, [(''a/2'', ''y''), (''b'', []), (''a/1'', ''x'')]) ''b'' = Inr None"
proof -
  let ?ps = "[(''a/1'', ''x''), ([], ''z''), (''b'', []), (''a/2'', ''y'')]"
  have h: "put_history (bolt_Put sample_bucket) (0, []) ?ps
      = ([None, Some ''key required'', None, None], (0, [(''a/2'', ''y''), (''b'', []), (''a/1'', ''x'')]))"
    by (simp add: bolt_Put_def Update_def sample_bucket_def)
  have c: "bk_Cells sample_bucket (0, []) = []" by (simp add: sample_bucket_def)
  have m: "snd (put_history mem_Put NewMem (accepted ?ps [None, Some ''key required'', None, None]))
      = \<lparr>mem_data = [(''a/1'', ''x''), (''b'', []), (''a/2'', ''y'')]\<rparr>"
    by (simp add: accepted_def mem_Put_def NewMem_def)
  have "map_sum id sort (mem_List \<lparr>mem_data = [(''a/1'', ''x''), (''b'', []), (''a/2'', ''y'')]\<rparr> ''a/'') = Inr [''a/1'', ''a/2'']"
    "mem_Get \<lparr>mem_data = [(''a/1'', ''x''), (''b'', []), (''a/2'', ''y'')]\<rparr> ''b'' = Inr (Some [])"
    by (simp_all add: mem_List_def mem_Get_def HasPrefix_def)
  then show ?thesis
    using embedded_store_is_the_in_memory_store [OF sample_bucket_is_bbolt c h m [symmetric], of "''b''" "''a/''"] by simp
qed

text \<open>Findings. The padding has sixteen digits and the guard on the sequence allows nineteen: from \<open>10\<^sup>1\<^sup>6\<close> on the cursor no longer
  visits the events in the order of their numbers, and no append fails.\<close>

lemma order_of_events_breaks_before_the_guard:
  "pad16 (10 ^ 16) < pad16 (10 ^ 16 - 1)" "\<not> max_int < 10 ^ 16"
  by (simp_all add: pad16_def dec_nat.simps digit_def max_int_def)

text \<open>The \<open>ok\<close> of a driver's reply is read by nothing: a reply that says no and gives no reason is a success.\<close>

lemma reply_that_is_not_ok_is_a_success:
  assumes "driver d \<lparr>sq_Op = ''put'', sq_Key = k, sq_Value = b64 v, sq_Prefix = []\<rparr>
      = (Reply \<lparr>sp_OK = False, sp_Value = [], sp_Keys = [], sp_Err = []\<rparr>, d')"
  shows "sub_Put b64 driver d k v = (None, d')"
  using assms by (simp add: sub_Put_def sub_call_def)

end
