(* ===== verification/Policy_Bundle.thy ===== *)
theory Policy_Bundle
  imports Grants
begin

text \<open>
  The policy in force as an OPA bundle: package \<open>policybundle\<close> of \<open>mantlekeep-control\<close> and the renderings of the documents
  it is made of (\<open>RoleActionsAny\<close>, \<open>ApprovalActionsAny\<close> and \<open>FloorsAny\<close> of package \<open>grants\<close>). A value of type \<open>any\<close>
  built there is the datatype \<open>anyj\<close>. \<open>json.Marshal\<close> and the tar and gzip writers are the parameters \<open>json\<close> and
  \<open>pack\<close>, total and of the named files in their fixed order; the policy source is a value of the model's state. A
  request is its method and its \<open>If-None-Match\<close> header, an answer its status, its tag and its body.

  The properties: a bundle loses nothing of the documents, an answer 304 is exact, and what a request is answered is
  determined by what the policy source answered to that very request and by the tags the request names. Whether that is the
  policy in force is the source's to say; nothing is said here of what a client does with an answer.
\<close>

section \<open>Rendering the documents\<close>

datatype anyj = JText string | JArr "anyj list" | JMap "(string \<times> anyj) list"

definition strsAny :: "string list \<Rightarrow> anyj" where
  "strsAny s = JArr (map JText s)"

definition RoleActionsAny :: "Grants \<Rightarrow> anyj" where
  "RoleActionsAny g = JMap (map (\<lambda>(role, acts). (role, JArr (map JText acts))) (gr_RoleActions g))"

definition ApprovalActionsAny :: "Grants \<Rightarrow> anyj" where
  "ApprovalActionsAny g = JArr (map JText (gr_ApprovalActions g))"

text \<open>A member that is set only when its value is not empty.\<close>

definition set_unless :: "bool \<Rightarrow> string \<Rightarrow> anyj \<Rightarrow> (string \<times> anyj) list \<Rightarrow> (string \<times> anyj) list" where
  "set_unless unset k v m = (if unset then m else m @ [(k, v)])"

definition ruleAny :: "FloorRule \<Rightarrow> anyj" where
  "ruleAny r =
     (let m = [(''kind'', JText (fr_Kind r))];
          m = set_unless (fr_Param r = []) ''param'' (JText (fr_Param r)) m;
          m = set_unless (fr_Values r = []) ''values'' (strsAny (fr_Values r)) m;
          m = set_unless (fr_Caps r = []) ''caps'' (JMap (map (\<lambda>(k, v). (k, JText v)) (fr_Caps r))) m;
          m = set_unless (fr_WhenParam r = []) ''whenParam'' (JText (fr_WhenParam r)) m;
          m = set_unless (fr_WhenIn r = []) ''whenIn'' (strsAny (fr_WhenIn r)) m;
          m = set_unless (fr_WhenValue r = []) ''whenValue'' (JText (fr_WhenValue r)) m;
          m = set_unless (fr_Pattern r = []) ''pattern'' (JText (fr_Pattern r)) m;
          m = set_unless (fr_Role r = []) ''role'' (JText (fr_Role r)) m;
          m = set_unless (fr_Message r = []) ''message'' (JText (fr_Message r)) m
      in JMap m)"

definition FloorsAny :: "Floors \<Rightarrow> anyj" where
  "FloorsAny f = JMap (map (\<lambda>(action, rules). (action, JArr (map ruleAny rules))) f)"

section \<open>A bundle\<close>

record Bundle =
  bn_Body :: string
  bn_Revision :: string

datatype bundle_error = NoSource | SourceFailed string | NothingReturned

type_synonym source_answer = "string + Grants option \<times> Floors option \<times> string"

definition bundle_data :: "Grants \<Rightarrow> Floors \<Rightarrow> anyj" where
  "bundle_data held floors =
     JMap [(''grants'', JMap [(''role_actions'', RoleActionsAny held), (''approval_actions'', ApprovalActionsAny held)]),
           (''floors'', FloorsAny floors)]"

definition bundle_manifest :: "string \<Rightarrow> anyj" where
  "bundle_manifest revision = JMap [(''revision'', JText revision), (''roots'', JArr [JText []])]"

definition Build :: "(anyj \<Rightarrow> string) \<Rightarrow> ((string \<times> string) list \<Rightarrow> string) \<Rightarrow> source_answer option \<Rightarrow> bundle_error + Bundle" where
  "Build json pack source =
     (case source of
        None \<Rightarrow> Inl NoSource
      | Some (Inl err) \<Rightarrow> Inl (SourceFailed err)
      | Some (Inr (Some held, Some floors, revision)) \<Rightarrow>
          Inr \<lparr>bn_Body = pack [(''.manifest'', json (bundle_manifest revision)), (''data.json'', json (bundle_data held floors))],
               bn_Revision = revision\<rparr>
      | Some (Inr _) \<Rightarrow> Inl NothingReturned)"

section \<open>Serving it\<close>

definition candidate_matches :: "string \<Rightarrow> string \<Rightarrow> bool" where
  "candidate_matches candidate tag \<longleftrightarrow>
     (let candidate = TrimSpace candidate
      in candidate = ''*'' \<or> (case CutPrefix candidate ''W/'' of Some rest \<Rightarrow> rest | None \<Rightarrow> candidate) = tag)"

definition matchesETag :: "string \<Rightarrow> string \<Rightarrow> bool" where
  "matchesETag header tag \<longleftrightarrow> list_ex (\<lambda>candidate. candidate_matches candidate tag) (split_on CHR '','' header)"

record response =
  rsp_Status :: nat
  rsp_ETag :: "string option"
  rsp_Revision :: "string option"
  rsp_Body :: string

definition etag :: "string \<Rightarrow> string" where
  "etag revision = [CHR 0x22] @ revision @ [CHR 0x22]"

definition bundle_ServeHTTP :: "(unit \<Rightarrow> bundle_error + Bundle) \<Rightarrow> string \<Rightarrow> string \<Rightarrow> response" where
  "bundle_ServeHTTP build method if_none_match =
     (if method \<noteq> ''GET'' \<and> method \<noteq> ''HEAD''
      then \<lparr>rsp_Status = 405, rsp_ETag = None, rsp_Revision = None, rsp_Body = ''bundle: read only''\<rparr>
      else (case build () of
              Inl _ \<Rightarrow> \<lparr>rsp_Status = 503, rsp_ETag = None, rsp_Revision = None, rsp_Body = ''policy bundle unavailable''\<rparr>
            | Inr bundle \<Rightarrow>
                (let tag = etag (bn_Revision bundle);
                     answer = (\<lambda>status body. \<lparr>rsp_Status = status, rsp_ETag = Some tag, rsp_Revision = Some (bn_Revision bundle), rsp_Body = body\<rparr>)
                 in if matchesETag if_none_match tag then answer 304 []
                    else if method = ''HEAD'' then answer 200 [] else answer 200 (bn_Body bundle))))"

section \<open>Reading a bundle\<close>

text \<open>What a rule of the engine reads: a member that is absent has the zero value.\<close>

fun j_text :: "anyj \<Rightarrow> string option" where
  "j_text (JText s) = Some s"
| "j_text _ = None"

fun j_texts :: "anyj \<Rightarrow> string list option" where
  "j_texts (JArr xs) = those (map j_text xs)"
| "j_texts _ = None"

definition text_member :: "(string \<times> anyj) list \<Rightarrow> string \<Rightarrow> string option" where
  "text_member m k = (case map_of m k of None \<Rightarrow> Some [] | Some v \<Rightarrow> j_text v)"

definition texts_member :: "(string \<times> anyj) list \<Rightarrow> string \<Rightarrow> string list option" where
  "texts_member m k = (case map_of m k of None \<Rightarrow> Some [] | Some v \<Rightarrow> j_texts v)"

fun j_pairs :: "(anyj \<Rightarrow> 'a option) \<Rightarrow> (string \<times> anyj) list \<Rightarrow> (string \<times> 'a) list option" where
  "j_pairs f [] = Some []"
| "j_pairs f ((k, v) # m) = (case (f v, j_pairs f m) of (Some x, Some rest) \<Rightarrow> Some ((k, x) # rest) | _ \<Rightarrow> None)"

fun j_map :: "(anyj \<Rightarrow> 'a option) \<Rightarrow> anyj \<Rightarrow> (string \<times> 'a) list option" where
  "j_map f (JMap m) = j_pairs f m"
| "j_map f _ = None"

definition caps_member :: "(string \<times> anyj) list \<Rightarrow> string gomap option" where
  "caps_member m = (case map_of m ''caps'' of None \<Rightarrow> Some [] | Some v \<Rightarrow> j_map j_text v)"

fun read_rule :: "anyj \<Rightarrow> FloorRule option" where
  "read_rule (JMap m) =
     (case (text_member m ''kind'', text_member m ''param'', texts_member m ''values'', caps_member m, text_member m ''whenParam'',
            texts_member m ''whenIn'', text_member m ''whenValue'', text_member m ''pattern'', text_member m ''role'', text_member m ''message'') of
        (Some kind, Some param, Some values, Some caps, Some wparam, Some win, Some wvalue, Some pattern, Some role, Some message) \<Rightarrow>
          Some \<lparr>fr_Kind = kind, fr_Param = param, fr_Values = values, fr_Caps = caps, fr_WhenParam = wparam, fr_WhenIn = win,
                fr_WhenValue = wvalue, fr_Pattern = pattern, fr_Role = role, fr_Message = message\<rparr>
      | _ \<Rightarrow> None)"
| "read_rule _ = None"

fun j_list :: "(anyj \<Rightarrow> 'a option) \<Rightarrow> anyj \<Rightarrow> 'a list option" where
  "j_list f (JArr xs) = those (map f xs)"
| "j_list f _ = None"

definition read_data :: "anyj \<Rightarrow> (Grants \<times> Floors) option" where
  "read_data d =
     (case d of
        JMap m \<Rightarrow>
          (case (map_of m ''grants'', map_of m ''floors'') of
             (Some (JMap g), Some f) \<Rightarrow>
               (case (map_option (j_map j_texts) (map_of g ''role_actions''), map_option j_texts (map_of g ''approval_actions''),
                      j_map (j_list read_rule) f) of
                  (Some (Some roles), Some (Some approvals), Some floors) \<Rightarrow>
                    Some (\<lparr>gr_RoleActions = roles, gr_ApprovalActions = approvals\<rparr>, floors)
                | _ \<Rightarrow> None)
           | _ \<Rightarrow> None)
      | _ \<Rightarrow> None)"

lemma those_texts [simp]: "those (map (j_text \<circ> JText) xs) = Some xs"
  by (induction xs) auto

lemma j_texts_array [simp]: "j_texts (JArr (map JText xs)) = Some xs"
  by simp

lemma set_unless_other: "k' \<noteq> k \<Longrightarrow> map_of (set_unless unset k v m) k' = map_of m k'"
  and set_unless_same: "map_of m k = None \<Longrightarrow> map_of (set_unless unset k v m) k = (if unset then None else Some v)"
  by (auto simp: set_unless_def map_add_def split: option.split)

lemma read_rule_any: "read_rule (ruleAny r) = Some r"
proof -
  have caps: "j_pairs j_text (map (\<lambda>(k, v). (k, JText v)) m) = Some m" for m by (induction m) auto
  obtain m where m: "ruleAny r = JMap m" by (simp add: ruleAny_def Let_def)
  have texts: "text_member m ''kind'' = Some (fr_Kind r)" "text_member m ''param'' = Some (fr_Param r)"
      "text_member m ''whenParam'' = Some (fr_WhenParam r)" "text_member m ''whenValue'' = Some (fr_WhenValue r)"
      "text_member m ''pattern'' = Some (fr_Pattern r)" "text_member m ''role'' = Some (fr_Role r)"
      "text_member m ''message'' = Some (fr_Message r)"
    using m by (auto simp: ruleAny_def Let_def text_member_def set_unless_other set_unless_same)
  have lists: "texts_member m ''values'' = Some (fr_Values r)" "texts_member m ''whenIn'' = Some (fr_WhenIn r)"
      "caps_member m = Some (fr_Caps r)"
    using m by (auto simp: ruleAny_def Let_def texts_member_def caps_member_def strsAny_def caps set_unless_other set_unless_same)
  show ?thesis unfolding m by (simp add: texts lists)
qed

lemma read_bundle_data: "read_data (bundle_data held floors) = Some (held, floors)"
proof -
  have rules: "those (map (read_rule \<circ> ruleAny) rs) = Some rs" for rs by (induction rs) (auto simp: read_rule_any)
  have f: "j_pairs (j_list read_rule) (map (\<lambda>(action, rules). (action, JArr (map ruleAny rules))) fs) = Some fs" for fs
    by (induction fs) (auto simp: rules)
  have g: "j_pairs j_texts (map (\<lambda>(role, acts). (role, JArr (map JText acts))) rs) = Some rs" for rs
    by (induction rs) auto
  show ?thesis
    by (cases held) (simp add: read_data_def bundle_data_def RoleActionsAny_def ApprovalActionsAny_def FloorsAny_def f g)
qed

section \<open>Tags\<close>

lemma trim_id: "s \<noteq> [] \<Longrightarrow> \<not> is_space (hd s) \<Longrightarrow> \<not> is_space (last s) \<Longrightarrow> TrimSpace s = s"
  by (simp add: TrimSpace_def iffD2 [OF dropWhile_eq_self_iff] hd_rev)

lemma trim_blank: "TrimSpace (CHR '' '' # s) = TrimSpace s"
  by (simp add: TrimSpace_def is_space_def)

definition presented :: "bool \<times> string \<Rightarrow> string" where
  "presented wr = (if fst wr then ''W/'' else []) @ etag (snd wr)"

lemma trim_presented: "TrimSpace (presented wr) = presented wr"
  by (rule trim_id) (simp_all add: presented_def etag_def is_space_def)

lemma etag_inject [simp]: "etag r = etag r' \<longleftrightarrow> r = r'"
  by (simp add: etag_def)

lemma presented_matches [simp]:
  "candidate_matches (presented wr) (etag rev') \<longleftrightarrow> snd wr = rev'"
  "candidate_matches (CHR '' '' # presented wr) (etag rev') \<longleftrightarrow> snd wr = rev'"
  unfolding candidate_matches_def trim_blank trim_presented
  by (cases wr; auto simp: presented_def CutPrefix_def HasPrefix_def etag_def)+

lemma join_push: "c # join_with sep (x # xs) = join_with sep ((c # x) # xs)"
  by (cases xs) auto

lemma join_blank: "join_with '', '' (x # xs) = join_with [CHR '',''] (x # map (Cons (CHR '' '')) xs)"
  by (induction xs arbitrary: x) (auto simp: join_push)

lemma matches_presented:
  assumes "tags \<noteq> []" and "\<forall>wr\<in>set tags. CHR '','' \<notin> set (snd wr)"
  shows "matchesETag (join_with '', '' (map presented tags)) (etag rev') \<longleftrightarrow> rev' \<in> snd ` set tags"
proof -
  obtain w ws where tags: "tags = w # ws" using assms(1) by (cases tags) auto
  have no_comma: "CHR '','' \<notin> set (presented wr)" if "wr \<in> set tags" for wr
    using assms(2) that by (auto simp: presented_def etag_def)
  have "split_on CHR '','' (join_with '', '' (map presented tags)) = presented w # map (Cons (CHR '' '')) (map presented ws)"
    unfolding tags list.map join_blank by (rule split_join) (use no_comma tags in \<open>auto simp: list_all_iff\<close>)
  then show ?thesis
    by (auto simp: matchesETag_def tags list_ex_iff)
qed

section \<open>Properties\<close>

text \<open>What the policy source answered, when it answered with both documents. The archive is readable when unpacking it and
  parsing its data file gives back the data that was rendered into it.\<close>

definition supplied :: "source_answer option \<Rightarrow> (Grants \<times> Floors \<times> string) option" where
  "supplied source =
     (case source of Some (Inr (Some held, Some floors, revision)) \<Rightarrow> Some (held, floors, revision) | _ \<Rightarrow> None)"

definition readable :: "(anyj \<Rightarrow> string) \<Rightarrow> ((string \<times> string) list \<Rightarrow> string) \<Rightarrow> (string \<Rightarrow> anyj option) \<Rightarrow> Grants \<Rightarrow> Floors \<Rightarrow> bool" where
  "readable json pack open_body held floors \<longleftrightarrow>
     (\<forall>manifest. open_body (pack [(''.manifest'', manifest), (''data.json'', json (bundle_data held floors))])
        = Some (bundle_data held floors))"

lemma supplied_Some: "supplied source = Some (held, floors, revision) \<longleftrightarrow> source = Some (Inr (Some held, Some floors, revision))"
  by (auto simp: supplied_def split: option.splits sum.splits prod.splits)

lemma Build_supplied:
  "Build json pack source = Inr bundle \<Longrightarrow> \<exists>held floors. supplied source = Some (held, floors, bn_Revision bundle) \<and>
     (readable json pack open_body held floors \<longrightarrow> Option.bind (open_body (bn_Body bundle)) read_data = Some (held, floors))"
  "supplied source = Some d \<Longrightarrow> \<exists>bundle. Build json pack source = Inr bundle"
  using read_bundle_data
  by (auto simp: Build_def supplied_def readable_def split: option.splits sum.splits prod.splits)


text \<open>A conditional request is answered exactly. A request that presents the tags of some revisions, weakened by a proxy or not, is
  told that nothing changed exactly when one of them is the revision in force; otherwise a \<open>GET\<close> brings the whole bundle; a request
  with any other method, and a source that fails, bring no tag to cache.\<close>

theorem conditional_requests_are_exact:
  assumes "tags \<noteq> []" and "\<forall>wr\<in>set tags. CHR '','' \<notin> set (snd wr)"
    and "rsp = bundle_ServeHTTP (\<lambda>_. answer) method (join_with '', '' (map presented tags))"
  shows "(rsp_Status rsp = 304 \<longleftrightarrow> method \<in> {''GET'', ''HEAD''} \<and> (\<exists>bundle. answer = Inr bundle \<and> bn_Revision bundle \<in> snd ` set tags)) \<and>
    (rsp_Status rsp = 200 \<longrightarrow> (\<exists>bundle. answer = Inr bundle \<and> rsp_ETag rsp = Some (etag (bn_Revision bundle)) \<and>
       rsp_Body rsp = (if method = ''GET'' then bn_Body bundle else []))) \<and>
    (rsp_ETag rsp \<noteq> None \<longrightarrow> rsp_Status rsp \<in> {200, 304})"
proof (cases answer)
  case (Inl err)
  then show ?thesis by (simp add: assms(3) bundle_ServeHTTP_def)
next
  case (Inr b)
  then show ?thesis
    using matches_presented [OF assms(1,2), of "bn_Revision b"] by (auto simp: assms(3) bundle_ServeHTTP_def Let_def)
qed

text \<open>A bundle loses nothing of the documents. What an instance reads back from a bundle that was built is the grants and the floors of
  the source, every field of every rule included, and the revision the bundle is tagged with is the source's; a bundle is built
  exactly when the source answered with both documents.\<close>

theorem bundles_carry_the_documents:
  assumes "\<And>held floors revision. supplied source = Some (held, floors, revision) \<Longrightarrow> readable json pack open_body held floors"
  shows "(case Build json pack source of
      Inr bundle \<Rightarrow> \<exists>held floors. source = Some (Inr (Some held, Some floors, bn_Revision bundle)) \<and>
        Option.bind (open_body (bn_Body bundle)) read_data = Some (held, floors)
    | Inl _ \<Rightarrow> supplied source = None)"
proof (cases "Build json pack source")
  case (Inl e)
  then show ?thesis using Build_supplied(2) [of source _ json pack] by (cases "supplied source") auto
next
  case (Inr b)
  then show ?thesis using Build_supplied(1) [OF Inr, of open_body] assms by (auto simp: supplied_Some)
qed

definition sample_docs :: "Grants \<times> Floors" where
  "sample_docs = (\<lparr>gr_RoleActions = [(''L2-Operator'', [''deploy.dev''])], gr_ApprovalActions = [''deploy.approve'']\<rparr>,
     [(''deploy.prod'', [\<lparr>fr_Kind = ''require_approval_when'', fr_Param = [], fr_Values = [], fr_Caps = [], fr_WhenParam = ''env'',
        fr_WhenIn = [], fr_WhenValue = ''prod'', fr_Pattern = [], fr_Role = [], fr_Message = ''a person signs''\<rparr>])])"

definition sample_source :: "source_answer option" where
  "sample_source = Some (Inr (Some (fst sample_docs), Some (snd sample_docs), ''r1''))"

definition sample_open :: "string \<Rightarrow> anyj option" where
  "sample_open body = (if body = ''packed'' then Some (bundle_data (fst sample_docs) (snd sample_docs)) else None)"

lemma sample_readable: "supplied sample_source = Some (held, floors, revision) \<Longrightarrow>
    readable (\<lambda>_. ''data'') (\<lambda>_. ''packed'') sample_open held floors"
  by (auto simp: supplied_def sample_source_def readable_def sample_open_def)


theorem bundles_carry_the_documents_witness:
  "Option.bind (sample_open (bn_Body (projr (Build (\<lambda>_. ''data'') (\<lambda>_. ''packed'') sample_source)))) read_data = Some sample_docs"
proof -
  have b: "Build (\<lambda>_. ''data'') (\<lambda>_. ''packed'') sample_source = Inr \<lparr>bn_Body = ''packed'', bn_Revision = ''r1''\<rparr>"
    by (simp add: sample_source_def Build_def)
  show ?thesis
    using bundles_carry_the_documents [of sample_source "\<lambda>_. ''data''" "\<lambda>_. ''packed''" sample_open, OF sample_readable] b
    by (auto simp: sample_source_def)
qed

theorem conditional_requests_are_exact_witness:
  "rsp_Status (bundle_ServeHTTP (\<lambda>_. Inr \<lparr>bn_Body = ''b'', bn_Revision = ''r2''\<rparr>) ''GET''
     (join_with '', '' (map presented [(False, ''r1''), (True, ''r2'')]))) = 304"
  using conditional_requests_are_exact [of "[(False, ''r1''), (True, ''r2'')]" _ "Inr \<lparr>bn_Body = ''b'', bn_Revision = ''r2''\<rparr>" "''GET''", OF _ _ refl]
  by simp

end
