(* ===== verification/Tool_Test.thy ===== *)
theory Tool_Test
  imports Fleet Artifact_Registry Safe_Paths
begin

text \<open>
  The local test loop of a draft tool: the typed handle to the sandbox (\<open>internal/kernel/kernel.go\<close>) and the glue that runs a
  draft in it and records the outcome (\<open>internal/tooltest/tooltest.go\<close>). The host is the record \<open>scan_host\<close>: the file
  operations \<open>Scan\<close> uses and the execution of a program, as functions of the state of the host. The time limit is handed to the
  execution, which is where a killed program becomes an exit code. An error a function only passes on is its text.
\<close>

section \<open>The host\<close>

datatype run_error = ExitError int | OtherError

record 'w scan_host =
  sh_MkdirAll :: "string \<Rightarrow> 'w \<Rightarrow> string option \<times> 'w"
  sh_CreateTemp :: "string \<Rightarrow> string \<Rightarrow> 'w \<Rightarrow> (string + string) \<times> 'w" \<comment> \<open>directory, pattern\<close>
  sh_Write :: "string \<Rightarrow> string \<Rightarrow> 'w \<Rightarrow> string option \<times> 'w"
  sh_Close :: "string \<Rightarrow> 'w \<Rightarrow> string option \<times> 'w"
  sh_Remove :: "string \<Rightarrow> 'w \<Rightarrow> 'w"
  sh_Exec :: "int \<Rightarrow> string \<Rightarrow> string list \<Rightarrow> 'w \<Rightarrow> (string \<times> string \<times> run_error option) \<times> 'w"
    \<comment> \<open>limit in nanoseconds, program, arguments; output, error output, error\<close>

definition osRun :: "'w scan_host \<Rightarrow> int \<Rightarrow> string \<Rightarrow> string list \<Rightarrow> 'w \<Rightarrow> (string \<times> string \<times> int) \<times> 'w" where
  "osRun H limit name args w =
     (let ((out, err, e), w') = sh_Exec H limit name args w
      in ((out, err, case e of None \<Rightarrow> 0 | Some (ExitError code) \<Rightarrow> code | Some OtherError \<Rightarrow> - 1), w'))"

section \<open>The handle\<close>

record Kernel =
  kn_bin :: string
  kn_timeout :: int




definition Available :: "(string \<Rightarrow> string + 'i) \<Rightarrow> Kernel \<Rightarrow> bool" where
  "Available os_Stat k \<longleftrightarrow> \<not> isl (os_Stat (kn_bin k))"


section \<open>Scanning\<close>

record ScanResult =
  sr_Ran :: bool
  sr_Clean :: bool
  sr_Findings :: int
  sr_Report :: string
  sr_Err :: string

definition Summary :: "ScanResult \<Rightarrow> string" where
  "Summary r =
     (if \<not> sr_Ran r then ''kernel scan error: '' @ sr_Err r
      else if sr_Clean r then ''kernel scan: clean''
      else ''kernel scan: '' @ dec_int (sr_Findings r) @ '' finding(s)'')"

definition firstLine :: "string \<Rightarrow> string" where
  "firstLine b = TrimSpace (takeWhile (\<lambda>c. c \<noteq> CHR 0x0A) b)"

definition findings_in :: "string \<Rightarrow> int option" where
  "findings_in line =
     (case CutPrefix (TrimSpace line) ''SOVEREIGN_SCAN_FINDINGS='' of None \<Rightarrow> None | Some v \<Rightarrow> Atoi (TrimSpace v))"

fun findings_walk :: "string list \<Rightarrow> int" where
  "findings_walk [] = 0"
| "findings_walk (line # lines) = (case findings_in line of Some n \<Rightarrow> n | None \<Rightarrow> findings_walk lines)"

definition parseFindings :: "string \<Rightarrow> int" where
  "parseFindings stdout = findings_walk (split_on CHR 0x0A stdout)"

definition scan_outcome :: "string \<times> string \<times> int \<Rightarrow> ScanResult" where
  "scan_outcome answer =
     (case answer of (stdout, stderr, exit) \<Rightarrow>
        if exit = 0 then \<lparr>sr_Ran = True, sr_Clean = True, sr_Findings = 0, sr_Report = stdout, sr_Err = []\<rparr>
        else if exit = 1 then \<lparr>sr_Ran = True, sr_Clean = False, sr_Findings = parseFindings stdout, sr_Report = stdout, sr_Err = []\<rparr>
        else \<lparr>sr_Ran = False, sr_Clean = False, sr_Findings = 0, sr_Report = [], sr_Err = firstLine stderr\<rparr>)"



definition kernel_Verify :: "'w scan_host \<Rightarrow> Kernel \<Rightarrow> string \<Rightarrow> 'w \<Rightarrow> (bool \<times> string) \<times> 'w" where
  "kernel_Verify H k modulePath w =
     (let ((stdout, stderr, _), w) = osRun H (kn_timeout k) (kn_bin k) [''verify'', modulePath] w
      in if Contains stdout ''SOVEREIGN_VERIFY_PASS'' then ((True, ''verified by the sovereign kernel''), w)
         else (let line = firstLine stdout; line = (if line = [] then firstLine stderr else line) in ((False, line), w)))"

section \<open>Testing a draft\<close>



section \<open>What the host documents\<close>







section \<open>What the gate sees\<close>

lemma index_from_cong: "map ver_Version vs = map ver_Version ws \<Longrightarrow> index_from i vs version = index_from i ws version"
proof (induction vs arbitrary: ws i)
  case (Cons v vs)
  then show ?case by (cases ws) auto
qed simp





context registry_store
begin

lemma recorded_test_decides:
  assumes "sound s" and "RecordTest r t now name version passed ref s = (Inr v, s')"
  shows "ver_Status v = StatusDraft \<and> ver_TestPassed v = passed \<and> ver_TestRef v = ref \<and>
    (\<exists>e idx. reg_get r s' name = Inr (Some e) \<and> indexOf e version = Some idx \<and>
       ver_Status (ent_Versions e ! idx) = StatusDraft \<and> ver_TestPassed (ent_Versions e ! idx) = passed)"
proof -
  obtain e idx v0 f where e: "indexOf e version = Some idx" "test_fn name version passed ref t (ent_Versions e ! idx) = Inr v0"
      "v = v0\<lparr>ver_UpdatedAt := now\<rparr>"
      "reg_get r s' name = Inr (Some (e\<lparr>ent_Versions := map f ((ent_Versions e)[idx := v])\<rparr>))"
      "\<forall>x\<in>set ((ent_Versions e)[idx := v]). \<exists>m. f x = x\<lparr>ver_Manifest := m\<rparr>"
    using transition_stores [OF assms(1) assms(2) [unfolded RecordTest_def]] by blast
  let ?e = "e\<lparr>ent_Versions := map f ((ent_Versions e)[idx := v])\<rparr>"
  have v: "ver_Status v = StatusDraft" "ver_TestPassed v = passed" "ver_TestRef v = ref"
      "ver_Version v = ver_Version (ent_Versions e ! idx)"
    using e(2,3) by (auto simp: test_fn_def split: if_splits)
  have idx: "idx < length (ent_Versions e)" using indexOf_Some [OF e(1)] by blast
  then obtain m where m: "f v = v\<lparr>ver_Manifest := m\<rparr>" using e(5) by (meson set_update_memI)
  have "map ver_Version (ent_Versions ?e) = map ver_Version ((ent_Versions e)[idx := v])"
  proof -
    have "ver_Version (f x) = ver_Version x" if "x \<in> set ((ent_Versions e)[idx := v])" for x
      using bspec [OF e(5) that] by (elim exE) simp
    then show ?thesis by simp
  qed
  also have "\<dots> = map ver_Version (ent_Versions e)" by (rule map_update_same [OF idx v(4)])
  finally have same: "map ver_Version (ent_Versions ?e) = map ver_Version (ent_Versions e)" .
  have "indexOf ?e version = Some idx" using e(1) index_from_cong [OF same] unfolding indexOf_def by metis
  moreover have "ent_Versions ?e ! idx = v\<lparr>ver_Manifest := m\<rparr>" using idx m by simp
  ultimately have "ver_Status (ent_Versions ?e ! idx) = StatusDraft \<and> ver_TestPassed (ent_Versions ?e ! idx) = passed" using v by simp
  then show ?thesis using v e(4) \<open>indexOf ?e version = Some idx\<close> by blast
qed

end

section \<open>Properties\<close>










section \<open>What the handle reads\<close>

text \<open>A verification is decided by the text alone: whatever code the kernel exits with, output that contains the word is a pass.\<close>

lemma verification_ignores_the_exit_code:
  "osRun H (kn_timeout k) (kn_bin k) [''verify'', modulePath] w = ((stdout, stderr, code), w') \<Longrightarrow>
     fst (fst (kernel_Verify H k modulePath w)) = Contains stdout ''SOVEREIGN_VERIFY_PASS''"
  by (simp add: kernel_Verify_def Let_def)

text \<open>A report of findings whose count cannot be read is evidence of none.\<close>

lemma unreadable_count_is_evidence_of_none:
  "Summary (scan_outcome (''SOVEREIGN_SCAN_FINDINGS=many'', [], 1)) = ''kernel scan: 0 finding(s)''"
  by (simp add: Summary_def scan_outcome_def parseFindings_def findings_in_def CutPrefix_def HasPrefix_def TrimSpace_def is_space_def
      Atoi_def digits_def is_digit_def dec_int_def dec_nat.simps digit_def Let_def)

end
