(* ===== verification/Policy_Files.thy ===== *)
theory Policy_Files
  imports Grants Safe_Paths "HOL-Library.Multiset"
begin

text \<open>
  Where the policy documents come from: the platform document and the product documents of package \<open>grants\<close>
  (\<open>grants/merge.go\<close>), the baselines with their overrides (\<open>grants/grants.go\<close>, \<open>grants/floors.go\<close>) and the source that loads both
  (\<open>EnvSource\<close> of \<open>grants/loader.go\<close>), on top of the merging of the theory \<open>Grants\<close>. What a process sees of its host at one
  moment is the record \<open>policy_host\<close>: the environment, the kind of a path, directory listings, file bytes, and what
  \<open>json.Unmarshal\<close> makes of bytes as each of the three document types. The map a document leaves out is the empty map, which is what
  \<open>baselineGrants\<close> and \<open>LoadFloors\<close> put in place of nil. Paths are those of a Unix system. Errors are their texts.
\<close>

record policy_host =
  ph_env :: "string \<Rightarrow> string"
  ph_Stat :: "string \<Rightarrow> string + bool" \<comment> \<open>whether the path is a directory\<close>
  ph_ReadDir :: "string \<Rightarrow> string + (string \<times> bool) list" \<comment> \<open>names, with whether each is a directory\<close>
  ph_ReadFile :: "string \<Rightarrow> string + string"
  ph_doc :: "string \<Rightarrow> string + productDoc"
  ph_grants :: "string \<Rightarrow> string + Grants"
  ph_floors :: "string \<Rightarrow> string + Floors"

definition read_error_text :: "read_error \<Rightarrow> string" where
  "read_error_text e =
     (case e of
        BadPath EmptyPath \<Rightarrow> ''config path is empty''
      | BadPath (EscapesUpward p) \<Rightarrow> ''config path '' @ go_quote p @ '' escapes upward via '' @ go_quote ''..''
      | Unreadable err \<Rightarrow> err)"

definition read_file :: "policy_host \<Rightarrow> string \<Rightarrow> string + string" where
  "read_file h path = map_sum read_error_text id (ReadConfigFile (ph_ReadFile h) path)"

text \<open>\<open>%w\<close>: the text put before an error that is passed on.\<close>

definition wrapping :: "string \<Rightarrow> string + 'a \<Rightarrow> string + 'a" where
  "wrapping words r = map_sum (\<lambda>err. words @ err) id r"

section \<open>The platform document\<close>

definition readOverride :: "policy_host \<Rightarrow> string \<Rightarrow> string + string" where
  "readOverride h v = (if 0 < length v \<and> v ! 0 = CHR ''{'' then Inr v else read_file h v)"

definition platformDoc :: "policy_host \<Rightarrow> string + productDoc option" where
  "platformDoc h =
     (let v = ph_env h ''MANTLEKEEP_PLATFORM_POLICY''
      in if v = [] then Inr None
         else wrapping (''platform policy '' @ go_quote v @ '': '')
                (case readOverride h v of
                   Inl err \<Rightarrow> Inl err
                 | Inr b \<Rightarrow> (case ph_doc h b of Inl err \<Rightarrow> Inl err | Inr d \<Rightarrow> Inr (Some (d\<lparr>pd_Source := v\<rparr>)))))"

section \<open>The product documents\<close>

definition jsonFilesIn :: "policy_host \<Rightarrow> string \<Rightarrow> string + string list" where
  "jsonFilesIn h dir =
     (case ph_ReadDir h dir of
        Inl err \<Rightarrow> Inl err
      | Inr ents \<Rightarrow> Inr (map (\<lambda>(name, _). filepath_Join dir name)
                          (filter (\<lambda>(name, is_dir). \<not> is_dir \<and> HasSuffix name ''.json'') ents)))"

text \<open>What one entry of the list adds.\<close>

definition entry_files :: "policy_host \<Rightarrow> string \<Rightarrow> string + string list" where
  "entry_files h p =
     (if p = [] then Inr []
      else (case StatConfigPath (ph_Stat h) p of
              Inl e \<Rightarrow> Inl (''policy source '' @ go_quote p @ '': '' @ read_error_text e)
            | Inr is_dir \<Rightarrow> if \<not> is_dir then Inr [p] else jsonFilesIn h p))"

fun paths_walk :: "policy_host \<Rightarrow> string list \<Rightarrow> string list \<Rightarrow> string + string list" where
  "paths_walk h acc [] = Inr acc"
| "paths_walk h acc (p # ps) = (case entry_files h p of Inl err \<Rightarrow> Inl err | Inr fs \<Rightarrow> paths_walk h (acc @ fs) ps)"

definition policyDocPaths :: "policy_host \<Rightarrow> string \<Rightarrow> string + string list" where
  "policyDocPaths h pathList = map_sum id sort (paths_walk h [] (split_on CHR '':'' pathList))"

definition readPolicyDoc :: "policy_host \<Rightarrow> string \<Rightarrow> string + productDoc" where
  "readPolicyDoc h path =
     (case read_file h path of
        Inl err \<Rightarrow> Inl err
      | Inr b \<Rightarrow> (case ph_doc h b of
                    Inl err \<Rightarrow> Inl (''policy doc '' @ go_quote path @ '': '' @ err)
                  | Inr d \<Rightarrow> Inr (d\<lparr>pd_Source := path\<rparr>)))"

fun docs_walk :: "policy_host \<Rightarrow> productDoc list \<Rightarrow> string list \<Rightarrow> string + productDoc list" where
  "docs_walk h docs [] = Inr docs"
| "docs_walk h docs (f # fs) = (case readPolicyDoc h f of Inl err \<Rightarrow> Inl err | Inr d \<Rightarrow> docs_walk h (docs @ [d]) fs)"

definition productDocs :: "policy_host \<Rightarrow> string + productDoc list" where
  "productDocs h =
     (let v = ph_env h ''MANTLEKEEP_POLICY_DIR''
      in if v = [] then Inr []
         else (case policyDocPaths h v of Inl err \<Rightarrow> Inl err | Inr files \<Rightarrow> docs_walk h [] files))"

section \<open>The documents in force\<close>

definition baselineGrants :: "string \<Rightarrow> policy_host \<Rightarrow> string + Grants" where
  "baselineGrants defaultDoc h =
     (let v = ph_env h ''MANTLEKEEP_POLICY_GRANTS''
      in case (if v \<noteq> [] then wrapping ''policy grants override: '' (readOverride h v) else Inr defaultDoc) of
           Inl err \<Rightarrow> Inl err
         | Inr doc \<Rightarrow> wrapping ''policy grants: '' (ph_grants h doc))"

definition baselineFloors :: "string \<Rightarrow> policy_host \<Rightarrow> string + Floors" where
  "baselineFloors defaultFloorsDoc h =
     (let v = ph_env h ''MANTLEKEEP_POLICY_FLOORS''
      in case (if v \<noteq> [] then wrapping ''policy floors override: '' (readOverride h v) else Inr defaultFloorsDoc) of
           Inl err \<Rightarrow> Inl err
         | Inr doc \<Rightarrow> wrapping ''policy floors: '' (ph_floors h doc))"

definition env_Load :: "string \<Rightarrow> policy_host \<Rightarrow> grants_error + Grants" where
  "env_Load defaultDoc h =
     Load (baselineGrants defaultDoc h) (wrapping ''policy grants: '' (platformDoc h)) (wrapping ''policy grants: '' (productDocs h))"

definition env_LoadFloors :: "string \<Rightarrow> policy_host \<Rightarrow> grants_error + Floors" where
  "env_LoadFloors defaultFloorsDoc h =
     LoadFloors (baselineFloors defaultFloorsDoc h) (wrapping ''policy floors: '' (platformDoc h))
       (wrapping ''policy floors: '' (productDocs h))"

text \<open>\<open>EnvSource.Load\<close> reads the documents once for the grants and again for the floors: what the host shows may have
  changed in between. The revision is left to the theory of the policy store.\<close>

definition env_source :: "string \<Rightarrow> string \<Rightarrow> policy_host \<Rightarrow> policy_host \<Rightarrow> grants_error + Grants \<times> Floors" where
  "env_source defaultDoc defaultFloorsDoc first second =
     (case env_Load defaultDoc first of
        Inl e \<Rightarrow> Inl e
      | Inr held \<Rightarrow> (case env_LoadFloors defaultFloorsDoc second of Inl e \<Rightarrow> Inl e | Inr floors \<Rightarrow> Inr (held, floors)))"

section \<open>The files a host names\<close>

definition names_doc :: "policy_host \<Rightarrow> string \<Rightarrow> bool" where
  "names_doc h f \<longleftrightarrow>
     (\<exists>p\<in>set (split_on CHR '':'' (ph_env h ''MANTLEKEEP_POLICY_DIR'')). p \<noteq> [] \<and>
        (StatConfigPath (ph_Stat h) p = Inr False \<and> f = p \<or>
         StatConfigPath (ph_Stat h) p = Inr True \<and>
           (\<exists>ents name. ph_ReadDir h p = Inr ents \<and> (name, False) \<in> set ents \<and> HasSuffix name ''.json'' \<and>
              f = filepath_Join p name)))"

lemma wrapping_simps [simp]: "wrapping w (Inl e) = Inl (w @ e)" "wrapping w (Inr x) = Inr x"
  by (simp_all add: wrapping_def)

lemma wrapping_Inr [simp]: "wrapping w r = Inr x \<longleftrightarrow> r = Inr x"
  by (cases r) simp_all

lemma isl_wrapping [simp]: "isl (wrapping w r) \<longleftrightarrow> isl r"
  by (cases r) simp_all

lemma paths_walk_Inr:
  "paths_walk h acc ps = Inr fs \<longleftrightarrow>
     (\<forall>p\<in>set ps. \<not> isl (entry_files h p)) \<and> fs = acc @ concat (map (\<lambda>p. projr (entry_files h p)) ps)"
  by (induction h acc ps rule: paths_walk.induct) (auto split: sum.splits)

lemma docs_walk_Inr:
  "docs_walk h docs fs = Inr ds \<longleftrightarrow>
     (\<forall>f\<in>set fs. \<not> isl (readPolicyDoc h f)) \<and> ds = docs @ map (\<lambda>f. projr (readPolicyDoc h f)) fs"
  by (induction h docs fs rule: docs_walk.induct) (auto split: sum.splits)

lemma entry_files_of_nothing [simp]: "entry_files h [] = Inr []"
  by (simp add: entry_files_def)

lemma entry_files_member:
  "\<not> isl (entry_files h p) \<Longrightarrow> f \<in> set (projr (entry_files h p)) \<longleftrightarrow> p \<noteq> [] \<and>
     (StatConfigPath (ph_Stat h) p = Inr False \<and> f = p \<or>
      StatConfigPath (ph_Stat h) p = Inr True \<and>
        (\<exists>ents name. ph_ReadDir h p = Inr ents \<and> (name, False) \<in> set ents \<and> HasSuffix name ''.json'' \<and> f = filepath_Join p name))"
  by (force simp: entry_files_def jsonFilesIn_def split: sum.splits if_splits)

text \<open>The documents are read from the sorted list of the files named, and an unset list names none.\<close>

definition named_files :: "policy_host \<Rightarrow> string list" where
  "named_files h = concat (map (\<lambda>p. projr (entry_files h p)) (split_on CHR '':'' (ph_env h ''MANTLEKEEP_POLICY_DIR'')))"

definition all_listed :: "policy_host \<Rightarrow> bool" where
  "all_listed h \<longleftrightarrow> (\<forall>p\<in>set (split_on CHR '':'' (ph_env h ''MANTLEKEEP_POLICY_DIR'')). \<not> isl (entry_files h p))"

lemma productDocs_Inr:
  "productDocs h = Inr docs \<longleftrightarrow>
     all_listed h \<and> (\<forall>f\<in>set (named_files h). \<not> isl (readPolicyDoc h f)) \<and>
     docs = map (\<lambda>f. projr (readPolicyDoc h f)) (sort (named_files h))"
proof -
  let ?v = "ph_env h ''MANTLEKEEP_POLICY_DIR''"
  let ?walk = "case policyDocPaths h ?v of Inl err \<Rightarrow> Inl err | Inr files \<Rightarrow> docs_walk h [] files"
  have paths: "policyDocPaths h ?v = Inr files \<longleftrightarrow> all_listed h \<and> files = sort (named_files h)" for files
  proof -
    have "policyDocPaths h ?v = Inr files \<longleftrightarrow> (\<exists>fs. paths_walk h [] (split_on CHR '':'' ?v) = Inr fs \<and> files = sort fs)"
      by (cases "paths_walk h [] (split_on CHR '':'' ?v)") (auto simp: policyDocPaths_def)
    then show ?thesis by (simp add: paths_walk_Inr all_listed_def named_files_def)
  qed
  have empty_path: "?walk = Inr []" if "?v = []"
  proof -
    have "all_listed h" "named_files h = []" using that by (simp_all add: all_listed_def named_files_def)
    then have "policyDocPaths h ?v = Inr []" using paths [of "[]"] by simp
    then show ?thesis by simp
  qed
  have "productDocs h = ?walk"
  proof (cases "?v = []")
    case True
    then show ?thesis using empty_path by (simp add: productDocs_def)
  qed (simp add: productDocs_def)
  moreover have "?walk = Inr docs \<longleftrightarrow> (\<exists>files. policyDocPaths h ?v = Inr files \<and> docs_walk h [] files = Inr docs)"
    by (cases "policyDocPaths h ?v") simp_all
  ultimately show ?thesis by (auto simp: paths docs_walk_Inr)
qed

lemma set_named_files: "all_listed h \<Longrightarrow> f \<in> set (named_files h) \<longleftrightarrow> names_doc h f"
  using entry_files_member by (simp add: named_files_def names_doc_def all_listed_def)

section \<open>Order\<close>

text \<open>The same files, in whatever order a directory or the list of paths gives them.\<close>

definition reordered :: "policy_host \<Rightarrow> policy_host \<Rightarrow> bool" where
  "reordered h h' \<longleftrightarrow>
     ph_Stat h' = ph_Stat h \<and> ph_ReadFile h' = ph_ReadFile h \<and> ph_doc h' = ph_doc h \<and> ph_grants h' = ph_grants h \<and>
     ph_floors h' = ph_floors h \<and> (\<forall>k. k \<noteq> ''MANTLEKEEP_POLICY_DIR'' \<longrightarrow> ph_env h' k = ph_env h k) \<and>
     mset (split_on CHR '':'' (ph_env h' ''MANTLEKEEP_POLICY_DIR'')) = mset (split_on CHR '':'' (ph_env h ''MANTLEKEEP_POLICY_DIR'')) \<and>
     (\<forall>d. rel_sum (=) (\<lambda>xs ys. mset xs = mset ys) (ph_ReadDir h d) (ph_ReadDir h' d))"

lemma mset_concat_map: "mset (concat (map f xs)) = \<Sum>\<^sub># (image_mset (\<lambda>x. mset (f x)) (mset xs))"
  by (induction xs) simp_all

lemma reordered_readPolicyDoc: "reordered h h' \<Longrightarrow> readPolicyDoc h' f = readPolicyDoc h f"
proof -
  assume "reordered h h'"
  then have "ph_ReadFile h' = ph_ReadFile h" "ph_doc h' = ph_doc h" by (simp_all add: reordered_def)
  then show ?thesis by (simp only: readPolicyDoc_def read_file_def)
qed

lemma reordered_entry:
  assumes "reordered h h'"
  shows "isl (entry_files h' p) = isl (entry_files h p)"
    and "\<not> isl (entry_files h p) \<Longrightarrow> mset (projr (entry_files h' p)) = mset (projr (entry_files h p))"
proof -
  have "rel_sum (=) (\<lambda>xs ys. mset xs = mset ys) (ph_ReadDir h p) (ph_ReadDir h' p)" "ph_Stat h' = ph_Stat h"
    using assms by (simp_all add: reordered_def)
  then have "isl (entry_files h' p) = isl (entry_files h p) \<and>
      (\<not> isl (entry_files h p) \<longrightarrow> mset (projr (entry_files h' p)) = mset (projr (entry_files h p)))"
    by (cases rule: rel_sum.cases) (auto simp: entry_files_def jsonFilesIn_def split: sum.splits)
  then show "isl (entry_files h' p) = isl (entry_files h p)"
    and "\<not> isl (entry_files h p) \<Longrightarrow> mset (projr (entry_files h' p)) = mset (projr (entry_files h p))" by blast+
qed

lemma reordered_documents:
  assumes "reordered h h'"
  shows "productDocs h' = Inr docs \<longleftrightarrow> productDocs h = Inr docs"
proof -
  let ?ps = "\<lambda>h. split_on CHR '':'' (ph_env h ''MANTLEKEEP_POLICY_DIR'')"
  have ps: "mset (?ps h') = mset (?ps h)" using assms by (simp add: reordered_def)
  have listed: "all_listed h' = all_listed h"
    using mset_eq_setD [OF ps] reordered_entry(1) [OF assms] by (simp add: all_listed_def)
  have "mset (named_files h') = mset (named_files h)" if "all_listed h"
  proof -
    have "image_mset (\<lambda>p. mset (projr (entry_files h' p))) (mset (?ps h)) = image_mset (\<lambda>p. mset (projr (entry_files h p))) (mset (?ps h))"
      using that reordered_entry(2) [OF assms] by (intro image_mset_cong) (simp add: all_listed_def)
    then show ?thesis by (simp add: named_files_def mset_concat_map ps)
  qed
  then have "sort (named_files h') = sort (named_files h)" "set (named_files h') = set (named_files h)" if "all_listed h"
    using that by (metis mset_sort properties_for_sort sorted_sort, metis mset_eq_setD)
  then show ?thesis using listed reordered_readPolicyDoc [OF assms] by (auto simp: productDocs_Inr)
qed

section \<open>Properties\<close>

definition seal_of :: "productDoc option \<Rightarrow> string set" where
  "seal_of plat = (case plat of None \<Rightarrow> {} | Some d \<Rightarrow> platform_seal d)"

definition platform_grants :: "productDoc option \<Rightarrow> string \<Rightarrow> string set" where
  "platform_grants plat role = (case plat of None \<Rightarrow> {} | Some d \<Rightarrow> doc_grants (pd_RoleActions d) role)"

lemma Load_Inr:
  assumes "Load baseline plat docs = Inr g"
  obtains base p ds where "baseline = Inr base" "plat = Inr p" "docs = Inr ds"
    "\<forall>d\<in>set ds. \<forall>role. doc_grants (pd_RoleActions d) role \<inter> seal_of p = {}"
    "\<forall>role. set (entries (gr_RoleActions g) role) = set (entries (gr_RoleActions base) role) \<union> platform_grants p role \<union>
       (\<Union>d\<in>set ds. doc_grants (pd_RoleActions d) role)"
proof -
  from assms obtain base p ds where l: "baseline = Inr base" "plat = Inr p" "docs = Inr ds"
      "applyProductLayers (fst (applyPlatformLayer base p)) (snd (applyPlatformLayer base p)) ds = Inr g"
    by (auto simp: Load_def Let_def split_beta split: sum.splits)
  have "set (snd (applyPlatformLayer base p)) = seal_of p"
    "set (entries (gr_RoleActions (fst (applyPlatformLayer base p))) role)
       = set (entries (gr_RoleActions base) role) \<union> platform_grants p role" for role
    using applyPlatformLayer_sealed applyPlatformLayer_grants
    by (cases p; simp add: seal_of_def platform_grants_def applyPlatformLayer_def)+
  then show thesis using that [OF l(1-3)] applyProductLayers_Inr [OF l(4)] by simp
qed

text \<open>C33: the policy a process loads is exactly what the files say. Every file the list of paths names, directly or as a JSON file
  of a named directory, was read, parsed and grants nothing the platform document seals, or there is no policy at all;
  and a role may do what the baseline, the platform document and those files grant it, and nothing else: no other file of a directory
  becomes policy.\<close>

theorem loaded_policy_is_what_the_files_say:
  assumes "env_Load defaultDoc h = Inr g"
  shows "\<exists>base plat. baselineGrants defaultDoc h = Inr base \<and> platformDoc h = Inr plat \<and>
    (\<forall>f. names_doc h f \<longrightarrow> (\<exists>d. readPolicyDoc h f = Inr d \<and> (\<forall>role. doc_grants (pd_RoleActions d) role \<inter> seal_of plat = {}))) \<and>
    (\<forall>role a. a \<in> set (entries (gr_RoleActions g) role) \<longleftrightarrow>
       a \<in> set (entries (gr_RoleActions base) role) \<or> a \<in> platform_grants plat role \<or>
       (\<exists>f d. names_doc h f \<and> readPolicyDoc h f = Inr d \<and> a \<in> doc_grants (pd_RoleActions d) role))"
proof (rule Load_Inr [OF assms [unfolded env_Load_def]])
  fix base p ds
  assume l: "baselineGrants defaultDoc h = Inr base" "wrapping ''policy grants: '' (platformDoc h) = Inr p"
    "wrapping ''policy grants: '' (productDocs h) = Inr ds"
    and seal: "\<forall>d\<in>set ds. \<forall>role. doc_grants (pd_RoleActions d) role \<inter> seal_of p = {}"
    and grants: "\<forall>role. set (entries (gr_RoleActions g) role) = set (entries (gr_RoleActions base) role) \<union> platform_grants p role \<union>
       (\<Union>d\<in>set ds. doc_grants (pd_RoleActions d) role)"
  have docs: "all_listed h" "\<forall>f\<in>set (named_files h). \<not> isl (readPolicyDoc h f)"
      "set ds = (\<lambda>f. projr (readPolicyDoc h f)) ` set (named_files h)"
    using l(3) by (auto simp: productDocs_Inr)
  have named: "names_doc h f \<longleftrightarrow> f \<in> set (named_files h)" for f using set_named_files [OF docs(1)] by simp
  have parsed: "\<exists>d. readPolicyDoc h f = Inr d" if "names_doc h f" for f
    using docs(2) that unfolding named by (metis sum.collapse(2))
  have member: "d \<in> set ds \<longleftrightarrow> (\<exists>f. names_doc h f \<and> readPolicyDoc h f = Inr d)" for d
    using docs(3) parsed unfolding named by force
  then have sealed: "\<exists>d. readPolicyDoc h f = Inr d \<and> (\<forall>role. doc_grants (pd_RoleActions d) role \<inter> seal_of p = {})"
    if "names_doc h f" for f
    using parsed [OF that] that seal by blast
  have "a \<in> set (entries (gr_RoleActions g) role) \<longleftrightarrow>
       a \<in> set (entries (gr_RoleActions base) role) \<or> a \<in> platform_grants p role \<or>
       (\<exists>f d. names_doc h f \<and> readPolicyDoc h f = Inr d \<and> a \<in> doc_grants (pd_RoleActions d) role)" for role a
    unfolding spec [OF grants, of role] using member by blast
  then show ?thesis using l(1,2) sealed by (intro exI [of _ base] exI [of _ p]) simp
qed

text \<open>The order in which files are found does not matter. When a host lists the same files in another order, in a directory or
  in the list of paths, it loads the same grants and the same floors, or none in both.\<close>

theorem order_of_files_does_not_matter:
  assumes "reordered h h'"
  shows "(env_Load defaultDoc h' = Inr g \<longleftrightarrow> env_Load defaultDoc h = Inr g) \<and>
    (env_LoadFloors defaultFloorsDoc h' = Inr f \<longleftrightarrow> env_LoadFloors defaultFloorsDoc h = Inr f)"
proof -
  have same: "ph_env h' k = ph_env h k" if "k \<noteq> ''MANTLEKEEP_POLICY_DIR''" for k
    using assms that by (simp add: reordered_def)
  have fields: "ph_ReadFile h' = ph_ReadFile h" "ph_doc h' = ph_doc h" "ph_grants h' = ph_grants h" "ph_floors h' = ph_floors h"
    using assms by (simp_all add: reordered_def)
  have overrides: "readOverride h' v = readOverride h v" for v by (simp add: readOverride_def read_file_def fields(1))
  have base: "baselineGrants defaultDoc h' = baselineGrants defaultDoc h" "baselineFloors defaultFloorsDoc h' = baselineFloors defaultFloorsDoc h"
    "platformDoc h' = platformDoc h"
    unfolding baselineGrants_def baselineFloors_def platformDoc_def overrides fields by (simp_all add: same)
  show ?thesis
  proof (cases "productDocs h")
    case (Inl e)
    then have "\<exists>e'. productDocs h' = Inl e'" using reordered_documents [OF assms] by (cases "productDocs h'") auto
    then show ?thesis
      using Inl by (auto simp: env_Load_def env_LoadFloors_def Load_def LoadFloors_def appendLayeredFloors_def Let_def split_beta
          split: sum.splits)
  next
    case (Inr docs)
    then have "productDocs h' = Inr docs" using reordered_documents [OF assms] by simp
    then show ?thesis using Inr base by (simp add: env_Load_def env_LoadFloors_def)
  qed
qed

text \<open>A directory with a policy, a backup of it and a directory named like one; only the policy is read.\<close>

definition sample_shop :: productDoc where
  "sample_shop = \<lparr>pd_RoleActions = [(''L3-Consumer'', [''shop.buy''])], pd_ApprovalActions = [],
     pd_Floors = [(''shop.buy'', [\<lparr>fr_Kind = ''require_approval_when'', fr_Param = [], fr_Values = [], fr_Caps = [], fr_WhenParam = ''env'',
        fr_WhenIn = [], fr_WhenValue = ''prod'', fr_Pattern = [], fr_Role = [], fr_Message = ''a person signs''\<rparr>])],
     pd_SealedActions = [], pd_Source = []\<rparr>"

definition sample_policy_host :: "productDoc \<Rightarrow> (string \<times> bool) list \<Rightarrow> policy_host" where
  "sample_policy_host doc ents = \<lparr>ph_env = (\<lambda>k. if k = ''MANTLEKEEP_POLICY_DIR'' then ''policy'' else []),
     ph_Stat = (\<lambda>_. Inr True), ph_ReadDir = (\<lambda>_. Inr ents), ph_ReadFile = (\<lambda>p. Inr p),
     ph_doc = (\<lambda>b. if b = ''policy/shop.json'' then Inr doc else Inl ''unexpected end of JSON input''),
     ph_grants = (\<lambda>_. Inr no_grants), ph_floors = (\<lambda>_. Inr [])\<rparr>"

definition sample_entries :: "(string \<times> bool) list" where
  "sample_entries = [(''shop.json'', False), (''shop.json.bak'', False), (''old.json'', True)]"

lemma sample_load:
  "env_Load [] (sample_policy_host sample_shop sample_entries) = Inr \<lparr>gr_RoleActions = [(''L3-Consumer'', [''shop.buy''])], gr_ApprovalActions = []\<rparr>"
  by code_simp

theorem loaded_policy_is_what_the_files_say_witness:
  "readPolicyDoc (sample_policy_host sample_shop sample_entries) ''policy/shop.json'' = Inr (sample_shop\<lparr>pd_Source := ''policy/shop.json''\<rparr>) \<and>
   \<not> names_doc (sample_policy_host sample_shop sample_entries) ''policy/shop.json.bak''"
proof -
  let ?h = "sample_policy_host sample_shop sample_entries"
  have named: "names_doc ?h ''policy/shop.json''" unfolding names_doc_def
    by (rule bexI [of _ "''policy''"], intro conjI disjI2 exI [of _ sample_entries] exI [of _ "''shop.json''"]; code_simp)
  obtain d where d: "readPolicyDoc ?h ''policy/shop.json'' = Inr d"
    using loaded_policy_is_what_the_files_say [OF sample_load] named by blast
  have bad: "readPolicyDoc ?h ''policy/shop.json.bak'' = Inl e \<Longrightarrow> \<not> names_doc ?h ''policy/shop.json.bak''" for e
    using loaded_policy_is_what_the_files_say [OF sample_load] by force
  have "isl (readPolicyDoc ?h ''policy/shop.json.bak'')" by code_simp
  then have "\<not> names_doc ?h ''policy/shop.json.bak''" using bad by (metis sum.collapse(1))
  moreover have "readPolicyDoc ?h ''policy/shop.json'' = Inr (sample_shop\<lparr>pd_Source := ''policy/shop.json''\<rparr>)" by code_simp
  ultimately show ?thesis by simp
qed

theorem order_of_files_does_not_matter_witness:
  "env_Load [] (sample_policy_host sample_shop (rev sample_entries)) = Inr \<lparr>gr_RoleActions = [(''L3-Consumer'', [''shop.buy''])], gr_ApprovalActions = []\<rparr>"
proof -
  have "reordered (sample_policy_host sample_shop sample_entries) (sample_policy_host sample_shop (rev sample_entries))"
    by (simp add: reordered_def sample_policy_host_def)
  from order_of_files_does_not_matter [OF this] sample_load show ?thesis by blast
qed

section \<open>Two readings\<close>

text \<open>The documents are read twice for one policy. A product that withdraws an action, with the rule that guards it, between the
  two readings leaves a policy in which the action is granted and unguarded: it was never in force before and is not after.\<close>

definition withdrawn_shop :: productDoc where
  "withdrawn_shop = sample_shop\<lparr>pd_RoleActions := [], pd_Floors := []\<rparr>"

lemma policy_of_two_moments:
  "let before = sample_policy_host sample_shop sample_entries; after = sample_policy_host withdrawn_shop sample_entries;
       granted = (\<lambda>g. entries (gr_RoleActions g) ''L3-Consumer'' = [''shop.buy'']); guarded = (\<lambda>f. entries f ''shop.buy'' \<noteq> [])
   in (\<exists>g f. env_source [] [] before before = Inr (g, f) \<and> granted g \<and> guarded f) \<and>
      (\<exists>g f. env_source [] [] after after = Inr (g, f) \<and> \<not> granted g \<and> \<not> guarded f) \<and>
      (\<exists>g f. env_source [] [] before after = Inr (g, f) \<and> granted g \<and> \<not> guarded f)"
proof -
  have "env_LoadFloors [] (sample_policy_host sample_shop sample_entries) = Inr (pd_Floors sample_shop)"
    "env_LoadFloors [] (sample_policy_host withdrawn_shop sample_entries) = Inr []"
    "env_Load [] (sample_policy_host withdrawn_shop sample_entries) = Inr no_grants"
    by code_simp+
  moreover have "entries (pd_Floors sample_shop) ''shop.buy'' \<noteq> []" by (simp add: sample_shop_def)
  ultimately show ?thesis by (simp add: env_source_def sample_load Let_def no_grants_def)
qed

end
