(* ===== verification/Estate_Cli.thy ===== *)
theory Estate_Cli
  imports Estate_Api Safe_Paths
begin

text \<open>
  The command a person or a pipeline runs against an estate, \<open>cmd/mantlekeep-estate-cli\<close>: \<open>main.go\<close> and \<open>token.go\<close>. What the
  process uses of its host is the record \<open>cli_host\<close>: the environment, standard input, files, the YAML and JSON libraries,
  \<open>url.Parse\<close>, and the two HTTP exchanges as functions of a state of the world. \<open>flag.FlagSet.Parse\<close> is translated for the three
  string flags. A run gives an error, which \<open>main\<close> prints and exits 1 with, or an exit code and the lines printed; \<open>%-24s\<close> pads
  ASCII text.
\<close>

section \<open>The host\<close>

record parsed_url =
  url_Scheme :: string
  url_Host :: string
  url_String :: string

datatype credential = Bearer string | CallerHeader string

record cli_request =
  cr_URL :: string
  cr_Body :: string
  cr_Credential :: credential

record 'w cli_host =
  ch_env :: "string \<Rightarrow> string"
  ch_stdin :: "string + string"
  ch_ReadFile :: "string \<Rightarrow> string + string"
  ch_YAMLToJSON :: "string \<Rightarrow> string + string"
  ch_decode :: "string \<Rightarrow> string + Manifest" \<comment> \<open>the strict decoder of \<open>ParseManifest\<close>\<close>
  ch_Indent :: "string \<Rightarrow> string + string"
  ch_URL :: "string \<Rightarrow> string + parsed_url"
  ch_counts :: "string \<Rightarrow> (nat \<times> nat) option" \<comment> \<open>how many refused and failed entries a body decodes to\<close>
  ch_token :: "string \<Rightarrow> string \<Rightarrow> string \<Rightarrow> 'w \<Rightarrow> (string + nat \<times> (string \<times> string) option) \<times> 'w"
    \<comment> \<open>endpoint, client id, secret; status and the decoded access token and error\<close>
  ch_Do :: "cli_request \<Rightarrow> 'w \<Rightarrow> (string + nat \<times> string) \<times> 'w"

datatype cli_error =
    BadFlag string | FlagUndefined string | FlagNeedsValue string | FlagHelp
  | UnknownCommand string
  | NoManifestGiven
  | Unopened string
  | BadPathGiven path_error
  | NotYAML string string
  | ManifestUndecoded string string
  | ManifestRefused string manifest_error
  | NotIndented string
  | NeedsEstate | NeedsIdentity | NeedsClientSecret | BadTokenURL cli_error
  | TokenUnanswered string | TokenRefused nat string | TokenEmpty
  | NoTeam
  | NotURL string string | BadScheme string | NoHost string
  | Unanswered string string
  | RefusedChange nat

section \<open>Arguments\<close>

fun split_arguments :: "bool \<Rightarrow> string list \<Rightarrow> string list \<times> string list" where
  "split_arguments valueExpected [] = ([], [])"
| "split_arguments valueExpected (a # args) =
     (if valueExpected then map_prod id ((#) a) (split_arguments False args)
      else if HasPrefix a ''-'' then map_prod id ((#) a) (split_arguments (\<not> Contains a ''='') args)
      else map_prod ((#) a) id (split_arguments False args))"

definition splitArguments :: "string list \<Rightarrow> string list \<times> string list" where
  "splitArguments args = split_arguments False args"

record cli_flags =
  fl_estate :: string
  fl_team :: string
  fl_user :: string

definition set_flag :: "string \<Rightarrow> string \<Rightarrow> cli_flags \<Rightarrow> cli_flags" where
  "set_flag name v f = (if name = ''estate'' then f\<lparr>fl_estate := v\<rparr> else if name = ''team'' then f\<lparr>fl_team := v\<rparr> else f\<lparr>fl_user := v\<rparr>)"

text \<open>The name after one or two dashes and, after the first equals sign past its first byte, the value.\<close>

definition flag_parts :: "string \<Rightarrow> string \<times> string option" where
  "flag_parts body = (case cut_at CHR ''='' (drop 1 body) of None \<Rightarrow> (body, None) | Some (a, v) \<Rightarrow> (take 1 body @ a, Some v))"

fun flags_Parse :: "cli_flags \<Rightarrow> string list \<Rightarrow> cli_error + cli_flags" where
  "flags_Parse f [] = Inr f"
| "flags_Parse f (s # args) =
     (if length s < 2 \<or> s ! 0 \<noteq> CHR 0x2D then Inr f
      else if s = ''--'' then Inr f
      else (let body = (if s ! 1 = CHR 0x2D then drop 2 s else drop 1 s)
            in if body = [] \<or> body ! 0 = CHR 0x2D \<or> body ! 0 = CHR ''='' then Inl (BadFlag s)
               else (let (name, v) = flag_parts body
                     in if name \<notin> {''estate'', ''team'', ''user''}
                        then (if name \<in> {''help'', ''h''} then Inl FlagHelp else Inl (FlagUndefined name))
                        else (case v of
                                Some value \<Rightarrow> flags_Parse (set_flag name value f) args
                              | None \<Rightarrow> (case args of
                                           [] \<Rightarrow> Inl (FlagNeedsValue name)
                                         | value # rest \<Rightarrow> flags_Parse (set_flag name value f) rest)))))"

section \<open>The manifest\<close>

definition describe :: "string \<Rightarrow> string" where
  "describe path = (if path = ''-'' then ''standard input'' else path)"

definition readDocument :: "'w cli_host \<Rightarrow> string \<Rightarrow> cli_error + string" where
  "readDocument H path =
     (if path = [] then Inl NoManifestGiven
      else if path = ''-'' then (case ch_stdin H of Inl e \<Rightarrow> Inl (Unopened e) | Inr d \<Rightarrow> Inr d)
      else (case safepath_Clean path of
              Inl e \<Rightarrow> Inl (BadPathGiven e)
            | Inr clean \<Rightarrow> (case ch_ReadFile H clean of Inl e \<Rightarrow> Inl (Unopened e) | Inr d \<Rightarrow> Inr d)))"

definition readManifest :: "'w cli_host \<Rightarrow> string \<Rightarrow> cli_error + Manifest \<times> string" where
  "readManifest H path =
     (case readDocument H path of
        Inl e \<Rightarrow> Inl e
      | Inr document \<Rightarrow>
          (case ch_YAMLToJSON H document of
             Inl e \<Rightarrow> Inl (NotYAML (describe path) e)
           | Inr asJSON \<Rightarrow>
               (case ch_decode H asJSON of
                  Inl e \<Rightarrow> Inl (ManifestUndecoded (describe path) e)
                | Inr decoded \<Rightarrow>
                    (case ParseManifest decoded of
                       Inl e \<Rightarrow> Inl (ManifestRefused (describe path) e)
                     | Inr manifest \<Rightarrow> Inr (manifest, asJSON)))))"

section \<open>The commands without an estate\<close>

definition padded :: "nat \<Rightarrow> string \<Rightarrow> string" where
  "padded n s = s @ replicate (n - length s) CHR '' ''"

definition app_line :: "App \<Rightarrow> string" where
  "app_line a = ''  app  '' @ padded 24 (app_Name a) @ '' runtime='' @ padded 12 (app_Runtime a) @ '' env='' @
     padded 6 (plc_Env (app_Placement a)) @ '' purpose='' @ padded 6 (plc_Purpose (app_Placement a)) @ '' residency='' @
     plc_Residency (app_Placement a)"

definition cli_validate :: "'w cli_host \<Rightarrow> string \<Rightarrow> cli_error + string list" where
  "cli_validate H path =
     (case readManifest H path of
        Inl e \<Rightarrow> Inl e
      | Inr (m, _) \<Rightarrow>
          Inr ((''ok '' @ em_dash @ '' team '' @ go_quote (man_Team m) @ '', tier '' @ go_quote (man_Tier m) @ '', owns '' @ go_quote (man_Owns m))
               # map app_line (man_Apps m) @ (if man_Apps m = [] then [''  (no apps declared)''] else [])))"

definition printJSON :: "'w cli_host \<Rightarrow> string \<Rightarrow> cli_error + string list" where
  "printJSON H path =
     (case readManifest H path of
        Inl e \<Rightarrow> Inl e
      | Inr (_, asJSON) \<Rightarrow> (case ch_Indent H asJSON of Inl e \<Rightarrow> Inl (NotIndented e) | Inr t \<Rightarrow> Inr [t]))"

section \<open>Submitting\<close>

definition TrimSlash :: "string \<Rightarrow> string" where
  "TrimSlash raw = (if HasSuffix raw ''/'' then butlast raw else raw)"

definition estateEndpoint :: "'w cli_host \<Rightarrow> string \<Rightarrow> cli_error + string" where
  "estateEndpoint H raw =
     (case ch_URL H (TrimSlash raw) of
        Inl e \<Rightarrow> Inl (NotURL raw e)
      | Inr u \<Rightarrow> if url_Scheme u \<noteq> ''http'' \<and> url_Scheme u \<noteq> ''https'' then Inl (BadScheme (url_Scheme u))
                 else if url_Host u = [] then Inl (NoHost raw) else Inr (url_String u))"

definition clientCredentials :: "'w cli_host \<Rightarrow> string \<Rightarrow> string \<Rightarrow> string \<Rightarrow> 'w \<Rightarrow> (cli_error + string) \<times> 'w" where
  "clientCredentials H tokenURL clientID secret w =
     (case ch_token H tokenURL clientID secret w of
        (Inl e, w) \<Rightarrow> (Inl (TokenUnanswered e), w)
      | (Inr (status, None), w) \<Rightarrow> (Inl (TokenRefused status []), w)
      | (Inr (status, Some (access, err)), w) \<Rightarrow>
          if status \<noteq> 200 then (Inl (TokenRefused status err), w)
          else if access = [] then (Inl TokenEmpty, w) else (Inr access, w))"

definition bearerToken :: "'w cli_host \<Rightarrow> 'w \<Rightarrow> (cli_error + string) \<times> 'w" where
  "bearerToken H w =
     (let token = TrimSpace (ch_env H ''MANTLEKEEP_TOKEN''); tokenURL = TrimSpace (ch_env H ''MANTLEKEEP_OIDC_TOKEN_URL'');
          clientID = ch_env H ''MANTLEKEEP_OIDC_CLIENT_ID''; secret = ch_env H ''MANTLEKEEP_OIDC_CLIENT_SECRET''
      in if token \<noteq> [] then (Inr token, w)
         else if tokenURL = [] then (Inr [], w)
         else if clientID = [] \<or> secret = [] then (Inl NeedsClientSecret, w)
         else (case estateEndpoint H tokenURL of
                 Inl e \<Rightarrow> (Inl (BadTokenURL e), w)
               | Inr _ \<Rightarrow> clientCredentials H tokenURL clientID secret w))"

definition exitFor :: "(string \<Rightarrow> (nat \<times> nat) option) \<Rightarrow> nat \<Rightarrow> string \<Rightarrow> cli_error + nat" where
  "exitFor counts status body =
     (if status = 409 then Inr 2
      else if status = 403 then Inr 3
      else if 400 \<le> status then Inl (RefusedChange status)
      else (case counts body of Some (refused, failed) \<Rightarrow> if 0 < refused + failed then Inr 4 else Inr 0 | None \<Rightarrow> Inr 0))"

definition exitMessages :: "nat \<Rightarrow> string" where
  "exitMessages code =
     (if code = 2 then ''pending: a person must approve this before it applies''
      else if code = 3 then ''refused: the door does not permit this change''
      else if code = 4 then ''not applied: a change was refused or failed (for example, not admitted) '' @ em_dash @ '' see the response above''
      else [])"

definition cli_submit ::
  "'w cli_host \<Rightarrow> string \<Rightarrow> string \<Rightarrow> string \<Rightarrow> string \<Rightarrow> 'w \<Rightarrow> (cli_error + nat \<times> string list) \<times> 'w" where
  "cli_submit H path estateURL team user w =
     (if estateURL = [] then (Inl NeedsEstate, w)
      else (case bearerToken H w of
              (Inl e, w) \<Rightarrow> (Inl e, w)
            | (Inr token, w) \<Rightarrow>
                if token = [] \<and> user = [] then (Inl NeedsIdentity, w)
                else (case readManifest H path of
                        Inl e \<Rightarrow> (Inl e, w)
                      | Inr (manifest, asJSON) \<Rightarrow>
                          (let team = (if team = [] then man_Team manifest else team)
                           in if team = [] then (Inl NoTeam, w)
                              else (case estateEndpoint H estateURL of
                                      Inl e \<Rightarrow> (Inl e, w)
                                    | Inr base \<Rightarrow>
                                        (case ch_Do H \<lparr>cr_URL = base @ ''/api/estate/'' @ team, cr_Body = asJSON,
                                                cr_Credential = (if token \<noteq> [] then Bearer token else CallerHeader user)\<rparr> w of
                                           (Inl e, w) \<Rightarrow> (Inl (Unanswered estateURL e), w)
                                         | (Inr (status, body), w) \<Rightarrow>
                                             (let shown = (case ch_Indent H body of Inl _ \<Rightarrow> body | Inr t \<Rightarrow> t)
                                              in case exitFor (ch_counts H) status shown of
                                                   Inl e \<Rightarrow> (Inl e, w)
                                                 | Inr code \<Rightarrow>
                                                     (Inr (code, shown # (if code \<noteq> 0 then [exitMessages code] else [])), w))))))))"

definition cli_run :: "'w cli_host \<Rightarrow> string list \<Rightarrow> 'w \<Rightarrow> (cli_error + nat \<times> string list) \<times> 'w" where
  "cli_run H arguments w =
     (case arguments of
        [] \<Rightarrow> (Inr (0, [''usage'']), w)
      | command # rest \<Rightarrow>
          (let (positional, flagArguments) = splitArguments rest
           in case flags_Parse \<lparr>fl_estate = [], fl_team = [], fl_user = []\<rparr> flagArguments of
                Inl e \<Rightarrow> (Inl e, w)
              | Inr f \<Rightarrow>
                  (let path = (if 0 < length positional then positional ! 0 else [])
                   in if command = ''validate'' then (map_sum id (Pair 0) (cli_validate H path), w)
                      else if command = ''json'' then (map_sum id (Pair 0) (printJSON H path), w)
                      else if command = ''submit'' then cli_submit H path (fl_estate f) (fl_team f) (fl_user f) w
                      else if command \<in> {''help'', ''-h'', ''--help''} then (Inr (0, [''usage'']), w)
                      else (Inl (UnknownCommand command), w))))"

text \<open>What the process exits with.\<close>

definition cli_main :: "'w cli_host \<Rightarrow> string list \<Rightarrow> 'w \<Rightarrow> nat \<times> 'w" where
  "cli_main H arguments w = (case cli_run H arguments w of (Inl _, w) \<Rightarrow> (1, w) | (Inr (code, _), w) \<Rightarrow> (code, w))"

section \<open>A command against the estate\<close>

text \<open>The estate service behind an address: the route is found by the team after the prefix, the body is read by the decoder the
  command uses, who the credential stands for is the service's to say, and an answer is its status with its body encoded.\<close>

definition served ::
  "'w wiring \<Rightarrow> (credential \<Rightarrow> string + Subject) \<Rightarrow> (string \<Rightarrow> string + Manifest) \<Rightarrow> (api_body \<Rightarrow> string) \<Rightarrow> string \<Rightarrow> cli_request
     \<Rightarrow> 'w state \<Rightarrow> (string + nat \<times> string) \<times> 'w state" where
  "served m who decode encode base rq st =
     (case CutPrefix (cr_URL rq) (base @ ''/api/estate/'') of
        None \<Rightarrow> (Inr (404, []), st)
      | Some team \<Rightarrow>
          (let (reply, st') = api_apply m (who (cr_Credential rq)) team
                 (case decode (cr_Body rq) of Inl e \<Rightarrow> BodyUndecodable e | Inr d \<Rightarrow> BodyDecoded d) st
           in (Inr (fst reply, encode (snd reply)), st')))"

text \<open>The network between them: a request may not arrive, and an answer may be lost after the service has acted, when the
  connection fails or the client's timeout passes. An answer that does arrive arrives whole.\<close>

datatype exchange = Delivered | NotSent string | AnswerLost string

definition served_over ::
  "(cli_request \<Rightarrow> 'w state \<Rightarrow> exchange) \<Rightarrow> 'w wiring \<Rightarrow> (credential \<Rightarrow> string + Subject) \<Rightarrow> (string \<Rightarrow> string + Manifest) \<Rightarrow>
     (api_body \<Rightarrow> string) \<Rightarrow> string \<Rightarrow> cli_request \<Rightarrow> 'w state \<Rightarrow> (string + nat \<times> string) \<times> 'w state" where
  "served_over net m who decode encode base rq st =
     (case net rq st of
        Delivered \<Rightarrow> served m who decode encode base rq st
      | NotSent e \<Rightarrow> (Inl e, st)
      | AnswerLost e \<Rightarrow> (Inl e, snd (served m who decode encode base rq st)))"



definition shown :: "'w cli_host \<Rightarrow> string \<Rightarrow> string" where
  "shown H body = (case ch_Indent H body of Inl _ \<Rightarrow> body | Inr t \<Rightarrow> t)"






section \<open>Properties\<close>


text \<open>A laptop with one file, a service that knows one caller by the header, and bodies that list what was refused and failed.\<close>

definition sample_encode :: "api_body \<Rightarrow> string" where
  "sample_encode b = (case b of
     OutcomeBody o1 \<Rightarrow> replicate (length (ao_Refused o1)) CHR ''r'' @ replicate (length (ao_Failed o1)) CHR ''f''
   | _ \<Rightarrow> [])"

definition sample_cli :: "(approval_map \<times> MemPort) state cli_host" where
  "sample_cli = \<lparr>ch_env = (\<lambda>_. []), ch_stdin = Inr ''manifest'', ch_ReadFile = (\<lambda>_. Inr ''manifest''), ch_YAMLToJSON = Inr,
     ch_decode = (\<lambda>_. Inr kafka_manifest), ch_Indent = Inr,
     ch_URL = (\<lambda>_. Inr \<lparr>url_Scheme = ''http'', url_Host = ''estate'', url_String = ''http://estate''\<rparr>),
     ch_counts = (\<lambda>b. Some (length (filter (\<lambda>c. c = CHR ''r'') b), length (filter (\<lambda>c. c = CHR ''f'') b))),
     ch_token = (\<lambda>_ _ _ w. (Inl [], w)),
     ch_Do = served_over (\<lambda>_ _. Delivered) sample_wiring (\<lambda>cred. case cred of CallerHeader who \<Rightarrow> Inr (person who) | Bearer t \<Rightarrow> Inl ''no token'')
               (\<lambda>_. Inr kafka_manifest) sample_encode ''http://estate''\<rparr>"

lemma sample_exit: "fst (cli_main sample_cli [''submit'', ''app.yaml'', ''-estate'', ''http://estate/'', ''-user'', ''ann''] ([], empty_world)) = 4"
  by code_simp


section \<open>What the command gets wrong\<close>

text \<open>Standard input, which the usage names a dash for, cannot be read: the dash is taken for a flag and no command has a file.\<close>

lemma dash_is_taken_for_a_flag:
  "cli_run H [''validate'', ''-''] w = (Inl NoManifestGiven, w)" "cli_run H [''json'', ''-''] w = (Inl NoManifestGiven, w)"
  by (simp_all add: cli_run_def splitArguments_def HasPrefix_def cli_validate_def printJSON_def readManifest_def readDocument_def)

text \<open>An answer below 400 whose body is not what the service sends is read as everything applied: a login page, for one.\<close>

lemma unreadable_answer_is_success: "status < 400 \<Longrightarrow> counts body = None \<Longrightarrow> exitFor counts status body = Inr 0"
  by (simp add: exitFor_def)

end
