(* ===== verification/Runtime_Config.thy ===== *)
theory Runtime_Config
  imports Door_Server Door_Assembly Kv_Store
begin

text \<open>
  What a process reads before it serves anything: the selection of plugins (\<open>internal/config/config.go\<close>), the registry of named
  providers (\<open>internal/provider/registry.go\<close>) with the demonstration store of \<open>cmd/mantlekeep/wiring.go\<close>, the face of a branded
  binary (\<open>app/brand.go\<close>), the assembly of the library form (\<open>internal/app/app.go\<close>), and what \<open>mantlekeep serve\<close> makes of its
  environment (\<open>cmd/mantlekeep/serve.go\<close>). An environment is the list of its variables, each once, which is what package \<open>os\<close>
  shows; \<open>Getenv\<close> of a variable that is not set is empty. \<open>strings.ToLower\<close> is modelled on ASCII.
\<close>

section \<open>The environment\<close>

definition Getenv :: "string gomap \<Rightarrow> string \<Rightarrow> string" where
  "Getenv env k = (case map_of env k of Some v \<Rightarrow> v | None \<Rightarrow> [])"

text \<open>\<open>Setenv\<close> refuses a key that is empty or holds an equals sign, and a zero byte in either; its callers drop the error.\<close>

definition Setenv :: "string gomap \<Rightarrow> string \<Rightarrow> string \<Rightarrow> string gomap" where
  "Setenv env k v = (if k = [] \<or> CHR ''='' \<in> set k \<or> CHR 0x00 \<in> set k \<or> CHR 0x00 \<in> set v then env else gset env k v)"

definition Environ :: "string gomap \<Rightarrow> string list" where
  "Environ env = map (\<lambda>(k, v). k @ CHR ''='' # v) env"

definition real_env :: "string gomap \<Rightarrow> bool" where
  "real_env env \<longleftrightarrow> wf_map env \<and>
     (\<forall>(k, v)\<in>set env. k \<noteq> [] \<and> CHR ''='' \<notin> set k \<and> CHR 0x00 \<notin> set k \<and> CHR 0x00 \<notin> set v)"

section \<open>The selection of plugins\<close>

record Config =
  cf_Selections :: "string gomap"
  cf_Bindings :: "string gomap gomap"
  cf_Drivers :: "string gomap"

abbreviation select_prefix :: string where "select_prefix \<equiv> ''MANTLEKEEP_SELECT_''"
abbreviation bind_prefix :: string where "bind_prefix \<equiv> ''MANTLEKEEP_BIND_''"
abbreviation driver_prefix :: string where "driver_prefix \<equiv> ''MANTLEKEEP_DRIVER_''"

definition ToLower :: "string \<Rightarrow> string" where
  "ToLower s = map to_lower s"

definition bound :: "string gomap gomap \<Rightarrow> string \<Rightarrow> string gomap" where
  "bound m capability = (case map_of m capability of Some roles \<Rightarrow> roles | None \<Rightarrow> [])"

definition parse_pair :: "Config \<Rightarrow> string \<Rightarrow> Config" where
  "parse_pair c e =
     (case cut_at CHR ''='' e of
        None \<Rightarrow> c
      | Some (k, v) \<Rightarrow>
          if v = [] then c
          else (case CutPrefix k select_prefix of
                  Some rest \<Rightarrow> c\<lparr>cf_Selections := gset (cf_Selections c) (ToLower rest) v\<rparr>
                | None \<Rightarrow>
                    (case CutPrefix k bind_prefix of
                       Some rest \<Rightarrow>
                         (case cut_at CHR ''_'' rest of
                            None \<Rightarrow> c
                          | Some (capability, role) \<Rightarrow>
                              c\<lparr>cf_Bindings := gset (cf_Bindings c) (ToLower capability)
                                  (gset (bound (cf_Bindings c) (ToLower capability)) (ToLower role) v)\<rparr>)
                     | None \<Rightarrow>
                         (case CutPrefix k driver_prefix of
                            Some rest \<Rightarrow> c\<lparr>cf_Drivers := gset (cf_Drivers c) (ToLower rest) v\<rparr>
                          | None \<Rightarrow> c))))"

definition config_parse :: "string list \<Rightarrow> Config" where
  "config_parse pairs = foldl parse_pair \<lparr>cf_Selections = [], cf_Bindings = [], cf_Drivers = []\<rparr> pairs"

definition configPath :: "string gomap \<Rightarrow> string" where
  "configPath env = (let p = Getenv env ''MANTLEKEEP_CONFIG'' in if p \<noteq> [] then p else ''.mantlekeep.conf'')"

definition config_readFile :: "(string \<Rightarrow> string + string) \<Rightarrow> string \<Rightarrow> read_error + string list" where
  "config_readFile os_ReadFile path =
     map_sum id (\<lambda>data. filter (\<lambda>line. line \<noteq> [] \<and> \<not> HasPrefix line ''#'') (map TrimSpace (split_on CHR 0x0A data)))
       (ReadConfigFile os_ReadFile path)"

definition file_pairs :: "(string \<Rightarrow> string + string) \<Rightarrow> string gomap \<Rightarrow> string list" where
  "file_pairs os_ReadFile env = (case config_readFile os_ReadFile (configPath env) of Inl e \<Rightarrow> [] | Inr lines \<Rightarrow> lines)"

definition config_Load :: "(string \<Rightarrow> string + string) \<Rightarrow> string gomap \<Rightarrow> Config" where
  "config_Load os_ReadFile env = config_parse (file_pairs os_ReadFile env @ Environ env)"

definition config_Select :: "Config \<Rightarrow> string \<Rightarrow> string" where
  "config_Select c capability = (case map_of (cf_Selections c) capability of Some v \<Rightarrow> v | None \<Rightarrow> [])"

definition config_Routes :: "Config \<Rightarrow> string \<Rightarrow> string gomap \<Rightarrow> string gomap" where
  "config_Routes c capability defaults =
     foldl (\<lambda>out (role, prov). gset out role prov)
       (foldl (\<lambda>out (role, prov). gset out role prov) [] defaults) (bound (cf_Bindings c) capability)"

section \<open>The registry of providers\<close>

record 'a ProviderRegistry =
  pr_kind :: string
  pr_providers :: "'a gomap"

datatype provider_error =
    NoProvider string string "string list" \<comment> \<open>kind, name, the names there are\<close>
  | NoBinding string string

definition provider_New :: "string \<Rightarrow> 'a ProviderRegistry" where
  "provider_New kind = \<lparr>pr_kind = kind, pr_providers = []\<rparr>"

definition provider_Register :: "'a ProviderRegistry \<Rightarrow> string \<Rightarrow> 'a \<Rightarrow> 'a ProviderRegistry" where
  "provider_Register r name impl = r\<lparr>pr_providers := gset (pr_providers r) name impl\<rparr>"

definition provider_Names :: "'a ProviderRegistry \<Rightarrow> string list" where
  "provider_Names r = sort (keys (pr_providers r))"

definition provider_Get :: "'a ProviderRegistry \<Rightarrow> string \<Rightarrow> provider_error + 'a" where
  "provider_Get r name =
     (case map_of (pr_providers r) name of None \<Rightarrow> Inl (NoProvider (pr_kind r) name (provider_Names r)) | Some impl \<Rightarrow> Inr impl)"

definition provider_For :: "'a ProviderRegistry \<Rightarrow> string gomap \<Rightarrow> string \<Rightarrow> provider_error + 'a" where
  "provider_For r b role =
     (case map_of b role of None \<Rightarrow> Inl (NoBinding (pr_kind r) role) | Some name \<Rightarrow> provider_Get r name)"

text \<open>The store of the demonstration, one per backend.\<close>

record 'v labeledStore =
  ls_backend :: string
  ls_data :: "'v gomap"

definition newLabeledStore :: "string \<Rightarrow> 'v labeledStore" where
  "newLabeledStore backend = \<lparr>ls_backend = backend, ls_data = []\<rparr>"

definition ls_Put :: "'v labeledStore \<Rightarrow> string \<Rightarrow> 'v \<Rightarrow> string option \<times> 'v labeledStore" where
  "ls_Put s key v = (None, s\<lparr>ls_data := gset (ls_data s) key v\<rparr>)"

definition ls_Get :: "'v labeledStore \<Rightarrow> string \<Rightarrow> string + 'v option" where
  "ls_Get s key =
     (case map_of (ls_data s) key of
        None \<Rightarrow> Inl (ls_backend s @ '': key '' @ go_quote key @ '' not found'')
      | Some v \<Rightarrow> Inr (Some v))"

definition ls_List :: "'v labeledStore \<Rightarrow> string \<Rightarrow> string + string list" where
  "ls_List s p = Inr (filter (\<lambda>k. HasPrefix k p) (keys (ls_data s)))"

definition labeled_store :: "('v labeledStore, 'v) Store" where
  "labeled_store = \<lparr>st_Put = ls_Put, st_Get = ls_Get, st_List = ls_List\<rparr>"

interpretation labeled_kv: kv_store labeled_store "\<lambda>s. map_of (ls_data s)"
  by unfold_locales
    (auto simp: labeled_store_def ls_Put_def ls_Get_def ls_List_def fun_eq_iff map_of_None_keys split: option.splits)

section \<open>The brand\<close>

record BrandOptions =
  br_Prefix :: string
  br_Name :: string
  br_Mark :: string
  br_Kicker :: string
  br_Tagline :: string

definition envPrefix :: string where "envPrefix = ''MANTLEKEEP''"

definition remap_step :: "string \<Rightarrow> string \<Rightarrow> string gomap \<Rightarrow> string \<Rightarrow> string gomap" where
  "remap_step fp tp env kv =
     (case cut_at CHR ''='' kv of
        None \<Rightarrow> env
      | Some (key, val) \<Rightarrow>
          (case CutPrefix key fp of
             None \<Rightarrow> env
           | Some rest \<Rightarrow> if Getenv env (tp @ rest) = [] then Setenv env (tp @ rest) val else env))"

definition RemapEnvPrefix :: "string \<Rightarrow> string \<Rightarrow> string gomap \<Rightarrow> string gomap" where
  "RemapEnvPrefix source to env = foldl (remap_step (source @ ''_'') (to @ ''_'')) env (Environ env)"

definition setDefault :: "string \<Rightarrow> string \<Rightarrow> string gomap \<Rightarrow> string gomap" where
  "setDefault name v env =
     (if v = [] then env
      else (let key = envPrefix @ ''_'' @ name in if Getenv env key = [] then Setenv env key v else env))"

definition Brand :: "BrandOptions \<Rightarrow> string gomap \<Rightarrow> string gomap" where
  "Brand options env =
     (let env = (if br_Prefix options \<noteq> [] then RemapEnvPrefix (br_Prefix options) envPrefix env else env);
          env = setDefault ''BRAND_NAME'' (br_Name options) env;
          env = setDefault ''BRAND_MARK'' (br_Mark options) env;
          env = setDefault ''BRAND_KICKER'' (br_Kicker options) env
      in setDefault ''BRAND_TAGLINE'' (br_Tagline options) env)"

definition CurrentBrand :: "string gomap \<Rightarrow> BrandOptions" where
  "CurrentBrand env =
     (let get = (\<lambda>name. Getenv env (envPrefix @ ''_'' @ name))
      in \<lparr>br_Prefix = [], br_Name = get ''BRAND_NAME'', br_Mark = get ''BRAND_MARK'', br_Kicker = get ''BRAND_KICKER'',
          br_Tagline = get ''BRAND_TAGLINE''\<rparr>)"

section \<open>The library form\<close>

record ('i, 'p, 'a, 'st) App =
  app_identity :: "'i option"
  app_policy :: "'p option"
  app_audit :: "'a option"
  app_stores :: "'st ProviderRegistry"

datatype ('i, 'p, 'a, 'st) Option =
    WithIdentity "'i option"
  | WithPolicy "'p option"
  | WithAudit "'a option"
  | WithStore string 'st

fun apply_option :: "('i, 'p, 'a, 'st) App \<Rightarrow> ('i, 'p, 'a, 'st) Option \<Rightarrow> ('i, 'p, 'a, 'st) App" where
  "apply_option a (WithIdentity r) = a\<lparr>app_identity := r\<rparr>"
| "apply_option a (WithPolicy p) = a\<lparr>app_policy := p\<rparr>"
| "apply_option a (WithAudit l) = a\<lparr>app_audit := l\<rparr>"
| "apply_option a (WithStore name s) = a\<lparr>app_stores := provider_Register (app_stores a) name s\<rparr>"

datatype app_error = DataDirFailed read_error | AuditFailed string

definition app_dataDir :: "(string \<Rightarrow> string) \<Rightarrow> string" where
  "app_dataDir env = (let d = TrimSpace (env ''MANTLEKEEP_DATA_DIR'') in if d \<noteq> [] then d else ''mantlekeep-data'')"

text \<open>The defaults are those of the three packages: the mock directory, the failsafe over the built-in engine, the in-memory store.\<close>

definition app_New ::
  "'i \<Rightarrow> 'p \<Rightarrow> 'st \<Rightarrow> (string \<Rightarrow> 'fs \<Rightarrow> string option \<times> 'fs) \<Rightarrow> (string \<Rightarrow> string + 'a) \<Rightarrow> (string \<Rightarrow> string)
    \<Rightarrow> ('i, 'p, 'a, 'st) Option list \<Rightarrow> 'fs \<Rightarrow> (app_error + 'i \<times> 'p \<times> 'a \<times> 'st ProviderRegistry) \<times> 'fs" where
  "app_New mock failsafe mem mkdir audit_Open env opts fs =
     (let a = foldl apply_option \<lparr>app_identity = None, app_policy = None, app_audit = None,
                app_stores = provider_Register (provider_New ''store'') ''mem'' mem\<rparr> opts;
          ids = (case app_identity a of Some i \<Rightarrow> i | None \<Rightarrow> mock);
          pol = (case app_policy a of Some p \<Rightarrow> p | None \<Rightarrow> failsafe)
      in case app_audit a of
           Some aud \<Rightarrow> (Inr (ids, pol, aud, app_stores a), fs)
         | None \<Rightarrow>
             (case EnsureConfigDir mkdir (app_dataDir env) fs of
                (Inl e, fs) \<Rightarrow> (Inl (DataDirFailed e), fs)
              | (Inr dir, fs) \<Rightarrow>
                  (case audit_Open (filepath_Join dir ''audit.db'') of
                     Inl e \<Rightarrow> (Inl (AuditFailed e), fs)
                   | Inr aud \<Rightarrow> (Inr (ids, pol, aud, app_stores a), fs))))"

section \<open>Serving the door\<close>

definition envOrDefault :: "string gomap \<Rightarrow> string \<Rightarrow> string \<Rightarrow> string" where
  "envOrDefault env key fallback = (let v = Getenv env key in if v \<noteq> [] then v else fallback)"

definition serve_splitList :: "string \<Rightarrow> string list" where
  "serve_splitList v = filter (\<lambda>item. item \<noteq> []) (map TrimSpace (split_on CHR '','' v))"

definition app_DataDir :: "string gomap \<Rightarrow> string" where
  "app_DataDir env = (let d = Getenv env ''MANTLEKEEP_DATA_DIR'' in if d = [] then ''mantlekeep-data'' else d)"

datatype start_error = NobodyCanBeIdentified | DoorUnassembled string | ServerRefused server_error

definition serve_options :: "string gomap \<Rightarrow> 'd DoorPorts \<Rightarrow> 'd ServerOptions" where
  "serve_options env d =
     \<lparr>so_Door = Some d, so_TrustedUserHeader = Getenv env ''MANTLEKEEP_USER_HEADER'', so_TrustedGroupsHeader = [],
      so_DelegatedSubjectHeader = Getenv env ''MANTLEKEEP_ON_BEHALF_OF_HEADER'',
      so_Delegators = serve_splitList (Getenv env ''MANTLEKEEP_DELEGATORS''),
      so_DevLogin = (Getenv env ''MANTLEKEEP_DEV_LOGIN'' = ''true''), so_Authenticator = None\<rparr>"

text \<open>The server and the address it listens on, or the reason it does not start.\<close>

definition runServe :: "(string \<Rightarrow> string + 'd DoorPorts) \<Rightarrow> string gomap \<Rightarrow> start_error + 'd Server \<times> string" where
  "runServe new_door env =
     (let address = envOrDefault env ''MANTLEKEEP_ADDR'' '':8080'';
          auditPath = envOrDefault env ''MANTLEKEEP_AUDIT_PATH'' (filepath_Join (app_DataDir env) ''audit.db'')
      in if Getenv env ''MANTLEKEEP_USER_HEADER'' = [] \<and> Getenv env ''MANTLEKEEP_DEV_LOGIN'' \<noteq> ''true'' then Inl NobodyCanBeIdentified
         else (case new_door auditPath of
                 Inl e \<Rightarrow> Inl (DoorUnassembled e)
               | Inr d \<Rightarrow>
                   (case NewServer (serve_options env d) of
                      Inl e \<Rightarrow> Inl (ServerRefused e)
                    | Inr server \<Rightarrow> Inr (server, address))))"

section \<open>Bindings\<close>

text \<open>The binding one pair makes, if it makes one, and the last of a list for a role.\<close>

definition binding_of :: "string \<Rightarrow> (string \<times> string \<times> string) option" where
  "binding_of e =
     (case cut_at CHR ''='' e of
        None \<Rightarrow> None
      | Some (k, v) \<Rightarrow>
          if v = [] then None
          else (case CutPrefix k bind_prefix of
                  None \<Rightarrow> None
                | Some rest \<Rightarrow>
                    (case cut_at CHR ''_'' rest of
                       None \<Rightarrow> None
                     | Some (capability, role) \<Rightarrow> Some (ToLower capability, ToLower role, v))))"

fun last_binding :: "string \<Rightarrow> string \<Rightarrow> string list \<Rightarrow> string option" where
  "last_binding capability role [] = None"
| "last_binding capability role (e # es) =
     (case last_binding capability role es of
        Some v \<Rightarrow> Some v
      | None \<Rightarrow> (case binding_of e of
                   Some (c, r, v) \<Rightarrow> if c = capability \<and> r = role then Some v else None
                 | None \<Rightarrow> None))"

lemma last_binding_append:
  "last_binding capability role (xs @ ys) =
     (case last_binding capability role ys of Some v \<Rightarrow> Some v | None \<Rightarrow> last_binding capability role xs)"
  by (induction xs) (auto split: option.splits)

lemma select_is_no_bind: "CutPrefix k select_prefix = Some t \<Longrightarrow> CutPrefix k bind_prefix = None"
  by (cases "CutPrefix k bind_prefix") (auto simp: CutPrefix_Some)

lemma bound_gset [simp]: "bound (gset m k v) k' = (if k' = k then v else bound m k')"
  by (simp add: bound_def)

lemma bound_Nil [simp]: "bound [] k = []"
  by (simp add: bound_def)

lemma parse_pair_binds:
  "map_of (bound (cf_Bindings (parse_pair c e)) capability) role =
     (case binding_of e of
        Some (c', r, v) \<Rightarrow> if c' = capability \<and> r = role then Some v else map_of (bound (cf_Bindings c) capability) role
      | None \<Rightarrow> map_of (bound (cf_Bindings c) capability) role)"
proof (cases "cut_at CHR ''='' e")
  case (Some kv)
  obtain k v where kv: "kv = (k, v)" by fastforce
  show ?thesis
  proof (cases "v = [] \<or> CutPrefix k bind_prefix = None")
    case True
    then show ?thesis using Some kv by (auto simp: parse_pair_def binding_of_def split: option.splits)
  next
    case False
    then obtain rest where rest: "CutPrefix k bind_prefix = Some rest" "v \<noteq> []" by blast
    then have "CutPrefix k select_prefix = None" using select_is_no_bind by (cases "CutPrefix k select_prefix") auto
    then show ?thesis using Some kv rest
      by (cases "cut_at CHR ''_'' rest") (auto simp: parse_pair_def binding_of_def)
  qed
qed (simp add: parse_pair_def binding_of_def)

lemma foldl_parse_binds:
  "map_of (bound (cf_Bindings (foldl parse_pair c es)) capability) role =
     (case last_binding capability role es of Some v \<Rightarrow> Some v | None \<Rightarrow> map_of (bound (cf_Bindings c) capability) role)"
proof (induction es arbitrary: c)
  case (Cons e es)
  then show ?case by (auto simp: parse_pair_binds split: option.splits)
qed simp

definition wf_bindings :: "Config \<Rightarrow> bool" where
  "wf_bindings c \<longleftrightarrow> (\<forall>capability. wf_map (bound (cf_Bindings c) capability))"

lemma parse_pair_wf: "wf_bindings c \<Longrightarrow> wf_bindings (parse_pair c e)"
  by (auto simp: wf_bindings_def parse_pair_def split: option.splits prod.splits)

lemma foldl_parse_wf: "wf_bindings c \<Longrightarrow> wf_bindings (foldl parse_pair c es)"
  by (induction es arbitrary: c) (simp_all add: parse_pair_wf)

lemma config_parse_binds:
  "map_of (bound (cf_Bindings (config_parse es)) capability) role = last_binding capability role es"
  "wf_map (bound (cf_Bindings (config_parse es)) capability)"
  using foldl_parse_wf [of "\<lparr>cf_Selections = [], cf_Bindings = [], cf_Drivers = []\<rparr>" es]
  by (simp_all add: config_parse_def foldl_parse_binds wf_bindings_def split: option.split)

lemma Routes_lookup:
  assumes "wf_map defaults"
  shows "map_of (config_Routes (config_parse es) capability defaults) role =
     (case last_binding capability role es of Some v \<Rightarrow> Some v | None \<Rightarrow> map_of defaults role)"
  using foldl_gset_lookup [OF config_parse_binds(2)] foldl_gset_lookup [OF assms]
  by (simp add: config_Routes_def config_parse_binds(1) split: option.splits)

section \<open>What branding sets\<close>

lemma Getenv_Setenv:
  "k \<noteq> [] \<Longrightarrow> CHR ''='' \<notin> set k \<Longrightarrow> CHR 0x00 \<notin> set k \<Longrightarrow> CHR 0x00 \<notin> set v \<Longrightarrow>
     Getenv (Setenv env k v) k' = (if k' = k then v else Getenv env k')"
  by (simp add: Setenv_def Getenv_def)

lemma cut_Environ: "CHR ''='' \<notin> set k \<Longrightarrow> cut_at CHR ''='' (k @ CHR ''='' # v) = Some (k, v)"
  by simp

definition plain :: "string \<Rightarrow> bool" where
  "plain s \<longleftrightarrow> CHR ''='' \<notin> set s \<and> CHR 0x00 \<notin> set s"

definition remapped :: "string \<Rightarrow> string \<Rightarrow> string gomap \<Rightarrow> string gomap \<Rightarrow> string \<Rightarrow> string" where
  "remapped fp tp env vars k =
     (if Getenv env k \<noteq> [] then Getenv env k
      else (case CutPrefix k tp of None \<Rightarrow> [] | Some rest \<Rightarrow> Getenv vars (fp @ rest)))"

lemma Getenv_snoc: "k \<notin> set (keys vars) \<Longrightarrow> Getenv (vars @ [(k, v)]) k' = (if k' = k then v else Getenv vars k')"
  by (auto simp: Getenv_def map_add_def map_of_None_keys [symmetric] split: option.splits)

lemma CutPrefix_append [simp]: "CutPrefix (p @ t) p = Some t"
  by (simp add: CutPrefix_Some)

lemma remap_walk:
  assumes "plain tp" and "tp \<noteq> []"
  shows "wf_map vars \<Longrightarrow> \<forall>(k, v)\<in>set vars. plain k \<and> CHR 0x00 \<notin> set v \<Longrightarrow>
     Getenv (foldl (remap_step fp tp) env (Environ vars)) k = remapped fp tp env vars k"
proof (induction vars arbitrary: k rule: rev_induct)
  case Nil
  then show ?case by (auto simp: remapped_def Environ_def Getenv_def split: option.splits)
next
  case (snoc kv vars)
  obtain key val where kv: "kv = (key, val)" by fastforce
  have wf: "wf_map vars" "key \<notin> set (keys vars)" using snoc.prems(1) kv by (auto simp: wf_map_def keys_def)
  let ?e = "foldl (remap_step fp tp) env (Environ vars)"
  have IH: "Getenv ?e k = remapped fp tp env vars k" for k using snoc.IH [OF wf(1)] snoc.prems(2) by simp
  have key: "plain key" "CHR 0x00 \<notin> set val" using snoc.prems(2) kv by auto
  have now: "foldl (remap_step fp tp) env (Environ (vars @ [kv])) = remap_step fp tp ?e (key @ CHR ''='' # val)"
    by (simp add: Environ_def kv)
  have cut: "cut_at CHR ''='' (key @ CHR ''='' # val) = Some (key, val)" using key(1) by (simp add: plain_def)
  have get: "Getenv (vars @ [kv]) x = (if x = key then val else Getenv vars x)" for x
    unfolding kv by (rule Getenv_snoc [OF wf(2)])
  show ?case
  proof (cases "CutPrefix key fp")
    case None
    then have "fp @ rest \<noteq> key" for rest by (metis CutPrefix_Some option.distinct(1))
    then have "remapped fp tp env (vars @ [kv]) k = remapped fp tp env vars k"
      by (auto simp: remapped_def get split: option.splits)
    then show ?thesis unfolding now using None IH by (simp add: remap_step_def cut)
  next
    case (Some rest)
    then have rest: "key = fp @ rest" by (simp add: CutPrefix_Some)
    have unset: "Getenv vars key = []" using wf(2) by (simp add: Getenv_def map_of_None_keys [symmetric])
    have tgt: "CutPrefix (tp @ rest) tp = Some rest" by (simp add: CutPrefix_Some)
    have other: "remapped fp tp env (vars @ [kv]) k = remapped fp tp env vars k" if "k \<noteq> tp @ rest"
      using that by (cases "CutPrefix k tp") (auto simp: remapped_def get rest dest: iffD1 [OF CutPrefix_Some])
    have at: "remapped fp tp env (vars @ [kv]) (tp @ rest) = (if Getenv env (tp @ rest) \<noteq> [] then Getenv env (tp @ rest) else val)"
      "remapped fp tp env vars (tp @ rest) = Getenv env (tp @ rest)"
      using tgt unset by (simp_all add: remapped_def get rest)
    have ok: "tp @ rest \<noteq> []" "CHR ''='' \<notin> set (tp @ rest)" "CHR 0x00 \<notin> set (tp @ rest)"
      using assms key(1) by (auto simp: plain_def rest)
    show ?thesis
    proof (cases "k = tp @ rest")
      case True
      then show ?thesis unfolding now using Some IH at Getenv_Setenv [OF ok key(2)] by (simp add: remap_step_def cut)
    next
      case False
      then show ?thesis unfolding now using Some IH other Getenv_Setenv [OF ok key(2)] by (simp add: remap_step_def cut)
    qed
  qed
qed

lemma RemapEnvPrefix_sets:
  assumes "real_env env"
  shows "Getenv (RemapEnvPrefix source envPrefix env) k =
     (if Getenv env k \<noteq> [] then Getenv env k
      else (case CutPrefix k ''MANTLEKEEP_'' of None \<Rightarrow> [] | Some rest \<Rightarrow> Getenv env (source @ ''_'' @ rest)))"
proof -
  have "plain (envPrefix @ ''_'')" "envPrefix @ ''_'' \<noteq> []" by (simp_all add: plain_def envPrefix_def)
  moreover have "wf_map env" "\<forall>(k, v)\<in>set env. plain k \<and> CHR 0x00 \<notin> set v" using assms by (auto simp: real_env_def plain_def)
  ultimately have "Getenv (foldl (remap_step (source @ ''_'') (envPrefix @ ''_'')) env (Environ env)) k
      = remapped (source @ ''_'') (envPrefix @ ''_'') env env k"
    by (rule remap_walk)
  then show ?thesis by (simp add: RemapEnvPrefix_def remapped_def envPrefix_def split: option.split)
qed

definition brand_default :: "BrandOptions \<Rightarrow> string \<Rightarrow> string" where
  "brand_default options x =
     (if x = ''BRAND_NAME'' then br_Name options else if x = ''BRAND_MARK'' then br_Mark options
      else if x = ''BRAND_KICKER'' then br_Kicker options else if x = ''BRAND_TAGLINE'' then br_Tagline options else [])"

lemma setDefault_sets:
  assumes "plain name" and "CHR 0x00 \<notin> set v"
  shows "Getenv (setDefault name v env) k =
     (if CutPrefix k ''MANTLEKEEP_'' = Some name \<and> Getenv env k = [] then v else Getenv env k)"
proof -
  have ok: "envPrefix @ ''_'' @ name \<noteq> []" "CHR ''='' \<notin> set (envPrefix @ ''_'' @ name)" "CHR 0x00 \<notin> set (envPrefix @ ''_'' @ name)"
    using assms(1) by (simp_all add: plain_def envPrefix_def)
  show ?thesis using Getenv_Setenv [OF ok assms(2), of env k] by (auto simp: setDefault_def Let_def envPrefix_def CutPrefix_Some)
qed

section \<open>Properties\<close>

text \<open>A purpose is served by the provider its configuration names. For every role the environment decides if it binds the role, else
  the file, else the default of the code, and later lines win over earlier ones; a role nobody binds and a name nobody registered
  are errors, the latter with the sorted names there are, and no other provider is ever given.\<close>

theorem role_is_served_by_what_is_configured:
  assumes "wf_map defaults"
  shows "provider_For reg (config_Routes (config_Load os_ReadFile env) capability defaults) role =
    (case last_binding capability role (Environ env) of
       Some name \<Rightarrow> provider_Get reg name
     | None \<Rightarrow>
         (case last_binding capability role (file_pairs os_ReadFile env) of
            Some name \<Rightarrow> provider_Get reg name
          | None \<Rightarrow> (case map_of defaults role of Some name \<Rightarrow> provider_Get reg name | None \<Rightarrow> Inl (NoBinding (pr_kind reg) role))))"
    and "provider_Get (provider_Register reg name impl) name' = (if name' = name then Inr impl else
       (case map_of (pr_providers reg) name' of
          Some other \<Rightarrow> Inr other
        | None \<Rightarrow> Inl (NoProvider (pr_kind reg) name' (sort (keys (gset (pr_providers reg) name impl))))))"
  using Routes_lookup [OF assms]
  by (simp_all add: provider_For_def config_Load_def last_binding_append provider_Get_def provider_Register_def provider_Names_def
      split: option.split)

text \<open>Branding never overrides the operator. After a binary has branded itself, a variable that had a value keeps it; an engine
  variable that had none has the value the operator gave under the brand's prefix, else the default the brand gives it, else
  none; and no other variable has changed.\<close>

theorem branding_never_overrides_the_operator:
  assumes "real_env env" and "\<forall>x. CHR 0x00 \<notin> set (brand_default options x)"
  shows "Getenv (Brand options env) k =
    (if Getenv env k \<noteq> [] then Getenv env k
     else (case CutPrefix k ''MANTLEKEEP_'' of
             None \<Rightarrow> []
           | Some x \<Rightarrow>
               (let own = (if br_Prefix options = [] then [] else Getenv env (br_Prefix options @ ''_'' @ x))
                in if own \<noteq> [] then own else brand_default options x)))"
proof -
  define e1 where "e1 = (if br_Prefix options \<noteq> [] then RemapEnvPrefix (br_Prefix options) envPrefix env else env)"
  have e1: "Getenv e1 k = (if Getenv env k \<noteq> [] then Getenv env k
      else (case CutPrefix k ''MANTLEKEEP_'' of None \<Rightarrow> []
            | Some x \<Rightarrow> if br_Prefix options = [] then [] else Getenv env (br_Prefix options @ ''_'' @ x)))" for k
    using RemapEnvPrefix_sets [OF assms(1)] by (auto simp: e1_def split: option.splits)
  have names: "plain ''BRAND_NAME''" "plain ''BRAND_MARK''" "plain ''BRAND_KICKER''" "plain ''BRAND_TAGLINE''"
    by (simp_all add: plain_def)
  have vals: "CHR 0x00 \<notin> set (br_Name options)" "CHR 0x00 \<notin> set (br_Mark options)" "CHR 0x00 \<notin> set (br_Kicker options)"
    "CHR 0x00 \<notin> set (br_Tagline options)"
    using assms(2) [unfolded brand_default_def, rule_format, of "''BRAND_NAME''"] assms(2) [unfolded brand_default_def, rule_format, of "''BRAND_MARK''"]
      assms(2) [unfolded brand_default_def, rule_format, of "''BRAND_KICKER''"] assms(2) [unfolded brand_default_def, rule_format, of "''BRAND_TAGLINE''"]
    by simp_all
  note set = setDefault_sets [OF names(1) vals(1)] setDefault_sets [OF names(2) vals(2)] setDefault_sets [OF names(3) vals(3)]
      setDefault_sets [OF names(4) vals(4)]
  have "Getenv (Brand options env) k =
     (if Getenv e1 k \<noteq> [] then Getenv e1 k else (case CutPrefix k ''MANTLEKEEP_'' of None \<Rightarrow> [] | Some x \<Rightarrow> brand_default options x))"
  proof (cases "CutPrefix k ''MANTLEKEEP_''")
    case None
    then show ?thesis unfolding Brand_def Let_def e1_def [symmetric] set by simp
  next
    case (Some x)
    then show ?thesis unfolding Brand_def Let_def e1_def [symmetric] set brand_default_def by simp
  qed
  then show ?thesis unfolding e1 by (auto simp: Let_def split: option.splits)
qed

definition sample_stores :: "string labeledStore ProviderRegistry" where
  "sample_stores = provider_Register (provider_Register (provider_New ''store'') ''postgres'' (newLabeledStore ''postgres''))
     ''mysql'' (newLabeledStore ''mysql'')"

theorem role_is_served_by_what_is_configured_witness:
  "provider_For sample_stores (config_Routes (config_Load (\<lambda>_. Inr (''# shared'' @ [CHR 0x0A] @ ''MANTLEKEEP_BIND_STORE_AUDIT=mariadb''))
     [(''MANTLEKEEP_BIND_STORE_AUDIT'', ''mysql'')]) ''store'' [(''audit'', ''postgres'')]) ''audit'' = Inr (newLabeledStore ''mysql'')"
proof -
  have "last_binding ''store'' ''audit'' (Environ [(''MANTLEKEEP_BIND_STORE_AUDIT'', ''mysql'')]) = Some ''mysql''" by code_simp
  moreover have "wf_map [(''audit'', ''postgres'')]" by simp
  ultimately show ?thesis
    using role_is_served_by_what_is_configured(1) [of "[(''audit'', ''postgres'')]" sample_stores _ "[(''MANTLEKEEP_BIND_STORE_AUDIT'', ''mysql'')]"
        "''store''" "''audit''"]
    by (simp add: sample_stores_def provider_Get_def provider_Register_def provider_New_def)
qed

definition acme_face :: BrandOptions where
  "acme_face = \<lparr>br_Prefix = ''ACME'', br_Name = ''Acme Control'', br_Mark = [], br_Kicker = [], br_Tagline = []\<rparr>"

definition acme_env :: "string gomap" where
  "acme_env = [(''ACME_BRAND_NAME'', ''Acme East''), (''PATH'', ''/bin'')]"

theorem branding_never_overrides_the_operator_witness:
  "Getenv (Brand acme_face acme_env) ''MANTLEKEEP_BRAND_NAME'' = ''Acme East''"
proof -
  have "real_env acme_env" by (simp add: real_env_def acme_env_def)
  moreover have "\<forall>x. CHR 0x00 \<notin> set (brand_default acme_face x)" by (simp add: brand_default_def acme_face_def)
  moreover have "CutPrefix ''MANTLEKEEP_BRAND_NAME'' ''MANTLEKEEP_'' = Some ''BRAND_NAME''" by (simp add: CutPrefix_Some)
  ultimately show ?thesis
    using branding_never_overrides_the_operator [of acme_env acme_face "''MANTLEKEEP_BRAND_NAME''"]
    by (simp add: Getenv_def acme_env_def acme_face_def Let_def)
qed

section \<open>What start-up takes for granted\<close>

text \<open>A configuration file the operator names but that cannot be read is dropped without a word, and the defaults stand in for it.\<close>

lemma unreadable_configuration_is_ignored:
  "Getenv env ''MANTLEKEEP_CONFIG'' = path \<Longrightarrow> path \<noteq> [] \<Longrightarrow> ReadConfigFile os_ReadFile path = Inl e \<Longrightarrow>
     config_Load os_ReadFile env = config_parse (Environ env)"
  by (simp add: config_Load_def file_pairs_def configPath_def config_readFile_def)

text \<open>An audit chain that was given is used, and no file is opened beside it.\<close>

lemma given_chain_is_the_chain:
  "app_New mock failsafe mem mkdir audit_Open env (opts @ [WithAudit (Some aud)]) fs = (x, fs') \<Longrightarrow>
     fs' = fs \<and> (\<exists>i p stores. x = Inr (i, p, aud, stores))"
  by (auto simp: app_New_def Let_def)

text \<open>A server that starts can identify its callers, and the addresses it may listen on are not looked at.\<close>

lemma served_door_identifies_its_callers:
  "runServe new_door env = Inr (server, address) \<Longrightarrow>
     (so_TrustedUserHeader (sv_options server) \<noteq> [] \<or> so_DevLogin (sv_options server)) \<and>
     address = envOrDefault env ''MANTLEKEEP_ADDR'' '':8080''"
  by (auto simp: runServe_def Let_def dest!: NewServer_Inr split: if_splits sum.splits)

end
