(* ===== verification/Spec2Isabelle.thy ===== *)
theory Spec2Isabelle
  imports Notices Directory Safe_Paths Door_Assembly Governance_Suite Approvals_Suite Admission_Suite Chain_Suite Admission Estate_Door Fleet Workflow Artifact_Registry Kafka_Franz Estate_Serve Discoveries Policy_Store Bolt_Stores Policy_Bundle Tool_Test Policy_Files Estate_Cli Runtime_Config
begin

text \<open>
  MantleKeep is a governance engine in Go. Everything that changes something asks one door first; the door resolves who
  is asking, evaluates policy, records the decision in a hash chain and only then hands out an execution token. This
  library models its modules and what holds them together:

  \<^item> \<open>mantlekeep-control\<close> is the control plane: the door and its collaborators (identity, policy, audit), the policy
    documents and layers the policy is configured with, the workflow engine and the artifact registry;
  \<^item> \<open>mantlekeep-estate\<close> is a client of the door: a team's manifest is resolved under the platform's floor into concrete
    changes, each change is submitted to the door, executed by an adapter under the token of its answer, or left waiting
    for people to approve it; what is observed is compared with what was approved;
  \<^item> \<open>mantlekeep-kafka\<close> is an adapter that gives a team its namespace on a broker, and \<open>mantlekeep-policy-postgres\<close> keeps the
    policy documents in a database, changed only through the door.

  \<^bold>\<open>How the code is represented.\<close> Go structs are records, enumerations and tagged errors are datatypes, and a
  function that returns an error is a function into a sum whose left side is the error (an option where there is only an
  error). A Go map is an association list with \<open>gset\<close> and \<open>map_of\<close> (theory \<open>Prelude\<close>); where ranging over a map can
  show in a result, the lemmas are about every order or the theory says which one is taken. Strings are lists of bytes as
  characters. \<open>int\<close> stands for Go's integers where nothing wraps (sizes, nanoseconds, counts) and values are compared
  only. A method under a lock is one function from a state to a state. Everything the code reads from outside is an
  argument: clocks, random values, sha256, float64 arithmetic (\<open>Attribute_Floor\<close>), the printing of times, JSON decoding,
  file contents, the answers of a step runner, of a database, of an adapter's backend. Where such a thing keeps a state
  (a host of files and processes, a database, a broker) it is a record of functions over an arbitrary state, and what is
  documented of it is a named hypothesis.

  \<^bold>\<open>The control plane.\<close>
  \<^item> \<open>Contracts\<close>: the types of \<open>contracts.go\<close>, \<open>policyinput.go\<close> and \<open>decision.go\<close>.
  \<^item> \<open>Json\<close> and \<open>Audit_Chain\<close>: the bytes an audit record is hashed over and the append-only chain of
    \<open>internal/audit\<close>; a log keeps an intact chain intact, and two chains with one last hash hold one history or exhibit
    a collision.
  \<^item> \<open>Role_Ladder\<close>, \<open>Layers\<close>: the ladder of roles, the cascade of policy layers with its seals, per-scope resolution and the
    hot-reloading watcher of \<open>internal/policy\<close>; the cascade refines a per-action specification.
  \<^item> \<open>Grants\<close>, \<open>Attribute_Floor\<close>, \<open>Live_Policy\<close>: policy documents of \<open>grants/\<close>, merged under seals; the attribute floors
    they carry; the snapshot of them that is live and how it is replaced.
  \<^item> \<open>Rbac\<close>, \<open>Failsafe\<close>, \<open>Identity\<close>: the engine behind \<open>Evaluate\<close>, which follows the published order of its stages; the
    wrapper that degrades to reads; the resolvers of identities.
  \<^item> \<open>Door\<close>: \<open>Submit\<close> of \<open>internal/sdk/sdk.go\<close> over the interfaces of its collaborators, which are locales
    interpreted by the theories above, and governed changes of policy (\<open>Govern\<close>).
  \<^item> \<open>Dag_Order\<close>, \<open>Workflow\<close>: the level-by-level order of a workflow's steps and the engine that runs them, as a step
    relation over every interleaving, with compensation; every schedule ends.
  \<^item> \<open>Kv_Store\<close>, \<open>Artifact_Registry\<close>: the store port as a locale, its in-memory driver, and the registry of versioned
    artifacts over it with promotion, pinning and demise.
  \<^item> \<open>Bolt_Stores\<close>: the embedded store, the durable events and the protocol with a driver process (\<open>internal/store\<close>); the
    durable stores are the in-memory ones up to the width of their keys.
  \<^item> \<open>Safe_Paths\<close>, \<open>Policy_Files\<close>: the validation of configuration paths, and where the policy documents come from
    (\<open>grants/merge.go\<close>, \<open>grants/loader.go\<close>).
  \<^item> \<open>Notices\<close>, \<open>Directory\<close>, \<open>Door_Assembly\<close>: the boot diagnostics of \<open>internal/policy/notices.go\<close>, the directories
    behind the identity chain, and what the environment and the policy files are assembled into (\<open>app/\<close>, \<open>doorkit/\<close>).
  \<^item> \<open>Policy_Bundle\<close>: the bundle of the policy in force and the handler that serves it to gateways (\<open>policybundle/\<close>).
  \<^item> \<open>Runtime_Config\<close>: selection of plugins, the registry of providers, branding, the library form and the
    configuration of the serving command (\<open>internal/config\<close>, \<open>internal/provider\<close>, \<open>app/brand.go\<close>, \<open>internal/app\<close>, \<open>cmd/mantlekeep\<close>).
  \<^item> \<open>Tool_Test\<close>: running a draft in the sandbox and recording the outcome (\<open>internal/kernel\<close>, \<open>internal/tooltest\<close>).
  \<^item> \<open>Door_Server\<close>, \<open>Door_Client\<close>: the door over HTTP (\<open>doorserver/\<close>) and the client of a remote door
    (\<open>doorclient/doorclient.go\<close>); in the deployment the two are documented for, the pair answers as the door in one process.
  \<^item> \<open>Test_Suite\<close>, \<open>Governance_Suite\<close>, \<open>Chain_Suite\<close>: the conformance suites shipped for doors and chains
    (\<open>governancetest/\<close>, \<open>chaintest/\<close>) as functions to outcomes, what passing them means, and that the shipped parts pass.

  \<^bold>\<open>The estate.\<close>
  \<^item> \<open>Estate_Floor\<close>: limits, gates and signature counts per tier, and the document they are read from (\<open>floor.go\<close>,
    \<open>config/\<close>). A document can only raise them.
  \<^item> \<open>Placement\<close>: the clusters of a fleet and the choice of one for a claim (\<open>placement.go\<close>, \<open>namespace.go\<close>,
    \<open>fleet/registry.go\<close>).
  \<^item> \<open>Estate_Manifest\<close>, \<open>Estate_Resolve\<close>: what a team declares and the changes it resolves to under the floor.
  \<^item> \<open>Go_Fmt\<close>: the decimal and duration formats the resolved states contain.
  \<^item> \<open>Fleet\<close>: governed operations on clusters and the attention each costs (\<open>fleet.go\<close>).
  \<^item> \<open>Drift\<close>: the report of differences between approved and observed (\<open>reconcile.go\<close>, \<open>ownership.go\<close>).
  \<^item> \<open>Adapters\<close>: the port of an adapter, the guard around any backend, the in-memory adapter (\<open>guarded.go\<close>,
    \<open>readonly.go\<close>, \<open>memory/\<close>), with the contract of a port as a locale.
  \<^item> \<open>Approvals\<close>: requests that wait for several people (\<open>approval.go\<close>, \<open>signature.go\<close>, \<open>approvals_*.go\<close>).
  \<^item> \<open>Manager\<close>, \<open>Governing\<close>: the manager that puts the door before every adapter (\<open>manager.go\<close>, \<open>transform.go\<close>,
    \<open>read.go\<close>, \<open>service.go\<close>), with the trace of the calls it makes, and what holds of every such trace.
  \<^item> \<open>Admission\<close>: which applications may exist where, onboarding them through the door, and the check as the manager's
    transform (\<open>admission*.go\<close>).
  \<^item> \<open>Estate_Door\<close>: the manager wired to the door in its own process; the door discharges the hypothesis under which the
    manager's gates hold.
  \<^item> \<open>Discoveries\<close>: what reconciliation writes to the chain about a drift nobody asked for (\<open>discovery.go\<close>).
  \<^item> \<open>Estate_Api\<close>, \<open>Estate_Serve\<close>: every route of the service with its status (\<open>api/\<close>), the configuration it may reload, the
    capacity probe, and what its options become (\<open>config/live.go\<close>, \<open>fleet/capacity.go\<close>, \<open>serve/\<close>).
  \<^item> \<open>Estate_Cli\<close>: the command against a service, down to its exit code (\<open>cmd/mantlekeep-estate-cli\<close>).
  \<^item> \<open>Approvals_Suite\<close>, \<open>Admission_Suite\<close>: the conformance suites for approval and admission stores, and that the
    in-memory stores pass them in every schedule of their races.

  \<^bold>\<open>The other modules.\<close>
  \<^item> \<open>Kafka_Grant\<close>, \<open>Kafka_Franz\<close>: boundaries and grants on a broker, planned over any administrative interface, and
    that interface over the client library: what is asked of a live cluster, whatever it answers.
  \<^item> \<open>Policy_Store\<close>: the codec of policy documents, the governed writer with its retries and the store over a database that
    can fail at every statement; what is written is the approved change, and the history explains the policy.

  \<^bold>\<open>Interfaces.\<close> Where one part relies on another, the laws are a locale and the client's lemmas are proved in it: the
  audit logger, identity resolver, policy evaluator and the door itself, a policy that always answers, a ladder under a seal, a floor that only raises,
  the placement of claims, the key-value store, the event store, the approval store and its signing extension, the admission
  store, the port of an adapter, the topics of a broker, and the policy store. Each is interpreted on the definitions of the code.

  \<^bold>\<open>Bounds and fuel.\<close> No definition needs fuel. The layering loop of \<open>Dag_Order\<close> and every other loop that is not
  structural has a termination proof by a measure. The retries of the policy writer are bounded by the constant of the code,
  and the durable event store is proved up to the 10^16 events its keys can number in order.

  \<^bold>\<open>Conditions.\<close> Where the code does not keep a promise without a condition, the theorem has the condition and a lemma
  beside it shows the case without: a directory group with a comma or a client without its caller header (\<open>Door_Client\<close>); a
  harbor section that names its own tier (\<open>Estate_Resolve\<close>); a team's file that declares its own role ladder (\<open>Door_Assembly\<close>); a
  workflow step without a name (\<open>Workflow\<close>); a caller that submits a record it filled in itself to \<open>Decide\<close> (\<open>Approvals\<close>); a
  separator in the name of a team or an application, and an approval that runs no transform (\<open>Admission\<close>); a role that holds an action
  by the wildcard (\<open>Notices\<close>); an answer the command cannot read (\<open>Estate_Cli\<close>); a timeout that is not compared
  (\<open>Drift\<close>); and documents that differ only in what needs approval (\<open>Grants\<close>).

  \<^bold>\<open>Not modelled.\<close> Opening files, databases and listeners, starting goroutines and processes, and signals: a poll, a
  request or a delivery is one step here. Parsing HTTP, JSON and YAML is the libraries': a decoded value is the input. The
  flags of the estate service and the mounting of its handlers; the Postgres driver of the key-value store, which is behind a build
  tag; the text of the schema; the binaries that print a demonstration; and the linters under \<open>scripts/\<close>, which are functions of
  the syntax trees of \<open>go/ast\<close>.
\<close>

end
